(* ===== verification/Prelude.thy ===== *)
theory Prelude
  imports Main "HOL-Library.Word"
begin

text \<open>
  Shared vocabulary of the development: the fixed-width integer types of the Rust code,
  the result type with its error values, the checked list accesses, and the generic
  list lemmas that the component theories use, and text as bytes.

  A Rust \<^verbatim>\<open>Result<T, i32>\<close> is \<open>'a result\<close>, with \<open>Err (Code c)\<close> for a
  numeric error code, \<open>Err Unit_Err\<close> for \<^verbatim>\<open>Err(())\<close>, \<open>Err (Bail m)\<close> for an
  \<^verbatim>\<open>anyhow\<close> error and \<open>Err Panic\<close> where the Rust code would panic (an index out of
  range, an \<^verbatim>\<open>unwrap\<close> of nothing). \<^verbatim>\<open>usize\<close> values are \<open>nat\<close>: they count bytes and
  rows that are in memory, so they stay below \<open>2 ^ 64\<close>.
\<close>

unbundle bit_operations_syntax

type_synonym u8 = "8 word"
type_synonym u16 = "16 word"
type_synonym u32 = "32 word"
type_synonym u64 = "64 word"
type_synonym bytes = "u8 list"

datatype error = Unit_Err | Code int | Bail string | Panic

type_synonym 'a result = "error + 'a"

abbreviation Ok :: "'a \<Rightarrow> 'a result" where "Ok \<equiv> Inr"
abbreviation Err :: "error \<Rightarrow> 'a result" where "Err \<equiv> Inl"

named_theorems wcol_bits "facts about single bits of mask words and bytes"
named_theorems wcol_codec "lengths and inverses of the little-endian codecs"

section \<open>Results\<close>

definition bindR :: "'a result \<Rightarrow> ('a \<Rightarrow> 'b result) \<Rightarrow> 'b result" where
  "bindR r f = (case r of Inl e \<Rightarrow> Err e | Inr x \<Rightarrow> f x)"

definition of_option :: "error \<Rightarrow> 'a option \<Rightarrow> 'a result" where
  "of_option e o1 = (case o1 of None \<Rightarrow> Err e | Some x \<Rightarrow> Ok x)"

definition map_err :: "error \<Rightarrow> 'a result \<Rightarrow> 'a result" where
  "map_err e r = (case r of Inl _ \<Rightarrow> Err e | Inr x \<Rightarrow> Ok x)"

fun mapR :: "('a \<Rightarrow> 'b result) \<Rightarrow> 'a list \<Rightarrow> 'b list result" where
  "mapR f [] = Ok []"
| "mapR f (x # xs) = bindR (f x) (\<lambda>y. bindR (mapR f xs) (\<lambda>ys. Ok (y # ys)))"

lemma bindR_simps [simp]:
  "bindR (Ok x) f = f x" "bindR (Err e) f = Err e"
  by (simp_all add: bindR_def)

lemma bindR_eq_Ok [simp]: "bindR r f = Ok y \<longleftrightarrow> (\<exists>x. r = Ok x \<and> f x = Ok y)"
  by (cases r) (auto simp: bindR_def)

lemma of_option_simps [simp]:
  "of_option e (Some x) = Ok x" "of_option e None = Err e"
  by (simp_all add: of_option_def)

lemma of_option_eq_Ok [simp]: "of_option e o1 = Ok x \<longleftrightarrow> o1 = Some x"
  by (cases o1) auto

lemma map_err_simps [simp]:
  "map_err e (Ok x) = Ok x" "map_err e (Err e') = Err e"
  by (simp_all add: map_err_def)

lemma map_err_eq_Ok [simp]: "map_err e r = Ok x \<longleftrightarrow> r = Ok x"
  by (cases r) auto

lemma mapR_length: "mapR f xs = Ok ys \<Longrightarrow> length ys = length xs"
  by (induction xs arbitrary: ys) auto

lemma mapR_nth: "mapR f xs = Ok ys \<Longrightarrow> i < length xs \<Longrightarrow> f (xs ! i) = Ok (ys ! i)"
  by (induction xs arbitrary: ys i) (auto simp: nth_Cons split: nat.splits)

lemma mapR_total: "(\<And>x. x \<in> set xs \<Longrightarrow> f x = Ok (g x)) \<Longrightarrow> mapR f xs = Ok (map g xs)"
  by (induction xs) auto


lemma mapR_map: "mapR f (map g xs) = mapR (\<lambda>x. f (g x)) xs"
  by (induction xs) auto

lemma mapR_cong [fundef_cong]:
  "xs = ys \<Longrightarrow> (\<And>x. x \<in> set ys \<Longrightarrow> f x = g x) \<Longrightarrow> mapR f xs = mapR g ys"
proof (induction xs arbitrary: ys)
  case (Cons x xs)
  then show ?case by (cases ys) (auto simp: bindR_def)
qed simp

fun foldR :: "('s \<Rightarrow> 'a \<Rightarrow> 's result) \<Rightarrow> 's \<Rightarrow> 'a list \<Rightarrow> 's result" where
  "foldR f s [] = Ok s"
| "foldR f s (x # xs) = bindR (f s x) (\<lambda>s. foldR f s xs)"

lemma foldR_append [simp]: "foldR f s (xs @ ys) = bindR (foldR f s xs) (\<lambda>s. foldR f s ys)"
  by (induction xs arbitrary: s) (auto simp: bindR_def split: sum.splits)

lemma foldR_cong [fundef_cong]:
  "s = t \<Longrightarrow> xs = ys \<Longrightarrow> (\<And>s x. x \<in> set ys \<Longrightarrow> f s x = g s x) \<Longrightarrow> foldR f s xs = foldR g t ys"
  by (induction ys arbitrary: s t xs) (auto simp: bindR_def split: sum.splits)

text \<open>A loop whose body keeps \<open>P\<close> and does not fail ends in a state with \<open>P\<close>.\<close>

lemma foldR_keeps:
  "foldR f s xs = Ok s' \<Longrightarrow> P s \<Longrightarrow> (\<And>s x s'. P s \<Longrightarrow> f s x = Ok s' \<Longrightarrow> P s') \<Longrightarrow> P s'"
  by (induction xs arbitrary: s) auto

lemma foldR_total:
  assumes "P 0 s"
    and "\<And>i s. i < length xs \<Longrightarrow> P i s \<Longrightarrow> \<exists>s'. f s (xs ! i) = Ok s' \<and> P (Suc i) s'"
  shows "\<exists>s'. foldR f s xs = Ok s' \<and> P (length xs) s'"
  using assms
proof (induction xs arbitrary: s P)
  case (Cons x xs)
  from Cons.prems(2) [of 0 s] Cons.prems(1) obtain s1 where s1: "f s x = Ok s1" "P (Suc 0) s1"
    by auto
  have "\<exists>s'. foldR f s1 xs = Ok s' \<and> P (Suc (length xs)) s'"
    by (rule Cons.IH [of "\<lambda>i. P (Suc i)"]) (use s1 Cons.prems(2) [of "Suc _"] in auto)
  with s1 show ?case by auto
qed auto

text \<open>\<open>no_panic r\<close>: the computation returns a value or an error, it does not panic.\<close>

definition no_panic :: "'a result \<Rightarrow> bool" where
  "no_panic r \<longleftrightarrow> r \<noteq> Err Panic"

named_theorems safe "introduction rules for no_panic"

lemma no_panic_simps [simp]:
  "no_panic (Ok x)" "no_panic (Err e) \<longleftrightarrow> e \<noteq> Panic"
  by (simp_all add: no_panic_def)

lemma no_panic_bindR [safe]:
  "no_panic r \<Longrightarrow> (\<And>x. r = Ok x \<Longrightarrow> no_panic (f x)) \<Longrightarrow> no_panic (bindR r f)"
  by (cases r) auto

lemma no_panic_of_option [safe]: "e \<noteq> Panic \<Longrightarrow> no_panic (of_option e o1)"
  by (cases o1) auto

lemma no_panic_mapR [safe]: "(\<And>x. x \<in> set xs \<Longrightarrow> no_panic (f x)) \<Longrightarrow> no_panic (mapR f xs)"
  by (induction xs) (auto intro!: safe)

section \<open>Checked list accesses\<close>

text \<open>\<open>xs[i]\<close> panics out of range; \<open>xs.get(i)\<close> is an option.\<close>

definition index :: "'a list \<Rightarrow> nat \<Rightarrow> 'a result" where
  "index xs i = (if i < length xs then Ok (xs ! i) else Err Panic)"

definition get :: "'a list \<Rightarrow> nat \<Rightarrow> 'a option" where
  "get xs i = (if i < length xs then Some (xs ! i) else None)"

definition slice :: "'a list \<Rightarrow> nat \<Rightarrow> nat \<Rightarrow> 'a list" where
  "slice xs lo hi = take (hi - lo) (drop lo xs)"

definition slice_get :: "'a list \<Rightarrow> nat \<Rightarrow> nat \<Rightarrow> 'a list option" where
  "slice_get xs lo hi = (if lo \<le> hi \<and> hi \<le> length xs then Some (slice xs lo hi) else None)"

lemma index_eq_Ok [simp]: "index xs i = Ok x \<longleftrightarrow> i < length xs \<and> x = xs ! i"
  by (auto simp: index_def)

lemma no_panic_index [safe]: "i < length xs \<Longrightarrow> no_panic (index xs i)"
  by (simp add: index_def)

lemma get_eq_Some [simp]: "get xs i = Some x \<longleftrightarrow> i < length xs \<and> x = xs ! i"
  by (auto simp: get_def)

lemma get_eq_None [simp]: "get xs i = None \<longleftrightarrow> length xs \<le> i"
  by (auto simp: get_def)

lemma length_slice [simp]: "hi \<le> length xs \<Longrightarrow> length (slice xs lo hi) = hi - lo"
  by (auto simp: slice_def)

lemma slice_nth: "i < hi - lo \<Longrightarrow> hi \<le> length xs \<Longrightarrow> slice xs lo hi ! i = xs ! (lo + i)"
  by (simp add: slice_def)

lemma slice_append_prefix: "hi \<le> length xs \<Longrightarrow> slice (xs @ ys) lo hi = slice xs lo hi"
  by (simp add: slice_def)

lemma slice_append_skip:
  "length xs \<le> lo \<Longrightarrow> slice (xs @ ys) lo hi = slice ys (lo - length xs) (hi - length xs)"
  by (simp add: slice_def)

lemma slice_full [simp]: "slice xs 0 (length xs) = xs"
  by (simp add: slice_def)

section \<open>A byte string inside another\<close>

text \<open>\<open>occurs_at bs off xs\<close>: the bytes of \<open>bs\<close> from \<open>off\<close> on start with \<open>xs\<close>.\<close>

definition occurs_at :: "'a list \<Rightarrow> nat \<Rightarrow> 'a list \<Rightarrow> bool" where
  "occurs_at bs off xs \<longleftrightarrow> off + length xs \<le> length bs \<and> take (length xs) (drop off bs) = xs"

lemma occurs_at_append [simp]:
  "occurs_at bs off (xs @ ys) \<longleftrightarrow> occurs_at bs off xs \<and> occurs_at bs (off + length xs) ys"
proof -
  have "take (length xs + length ys) (drop off bs) = xs @ ys \<longleftrightarrow>
      take (length xs) (drop off bs) = xs \<and> take (length ys) (drop (off + length xs) bs) = ys"
    if "off + length xs + length ys \<le> length bs"
    using that by (auto simp: take_add add.commute append_eq_append_conv)
  then show ?thesis by (auto simp: occurs_at_def)
qed

lemma occurs_at_Cons [simp]:
  "occurs_at bs off (x # xs) \<longleftrightarrow> off < length bs \<and> bs ! off = x \<and> occurs_at bs (Suc off) xs"
  by (cases "off < length bs") (auto simp: occurs_at_def Cons_nth_drop_Suc [symmetric])

lemma occurs_at_Nil [simp]: "occurs_at bs off [] \<longleftrightarrow> off \<le> length bs"
  by (simp add: occurs_at_def)

lemma occurs_at_here [simp]: "occurs_at xs 0 xs"
  by (simp add: occurs_at_def)

lemma occurs_at_le: "occurs_at bs off xs \<Longrightarrow> off + length xs \<le> length bs"
  by (simp add: occurs_at_def)

lemma occurs_at_slice: "occurs_at bs off xs \<Longrightarrow> n = length xs \<Longrightarrow> slice bs off (off + n) = xs"
  by (simp add: occurs_at_def slice_def)

lemma occurs_at_skip: "occurs_at (pre @ bs) (length pre + off) xs \<longleftrightarrow> occurs_at bs off xs"
  by (auto simp: occurs_at_def)

lemma occurs_at_prefix: "occurs_at bs off xs \<Longrightarrow> occurs_at (bs @ ys) off xs"
  by (auto simp: occurs_at_def)

lemma occurs_at_middle: "n = length pre \<Longrightarrow> occurs_at (pre @ xs @ post) n xs"
  by (simp add: occurs_at_def)

section \<open>Chunks\<close>

text \<open>\<open>xs.chunks_exact(n)\<close>: the full chunks of length \<open>n\<close>; a remainder is dropped.\<close>

function chunks_exact :: "nat \<Rightarrow> 'a list \<Rightarrow> 'a list list" where
  "chunks_exact n xs =
     (if n = 0 \<or> length xs < n then [] else take n xs # chunks_exact n (drop n xs))"
  by pat_completeness auto
termination
  by (relation "measure (\<lambda>(n, xs). length xs)") auto

declare chunks_exact.simps [simp del]

lemma chunks_exact_append:
  "0 < n \<Longrightarrow> length x = n \<Longrightarrow> chunks_exact n (x @ ys) = x # chunks_exact n ys"
  by (subst chunks_exact.simps) simp

lemma chunks_exact_short: "length xs < n \<Longrightarrow> chunks_exact n xs = []"
  by (subst chunks_exact.simps) simp

lemma chunks_exact_concat:
  assumes "0 < n" "\<And>x. x \<in> set xss \<Longrightarrow> length x = n"
  shows "chunks_exact n (concat xss) = xss"
  using assms
  by (induction xss) (auto simp: chunks_exact_append chunks_exact_short)

lemma chunks_exact_length:
  assumes "0 < n" shows "length (chunks_exact n xs) = length xs div n"
proof (induction n xs rule: chunks_exact.induct)
  case (1 n xs)
  show ?case
  proof (cases "n = 0 \<or> length xs < n")
    case False
    with 1 have "length (chunks_exact n (drop n xs)) = (length xs - n) div n" by simp
    with False show ?thesis
      by (subst chunks_exact.simps) (simp add: le_div_geq)
  qed (auto simp: chunks_exact.simps [of n xs])
qed

lemma chunks_exact_mem_length: "x \<in> set (chunks_exact n xs) \<Longrightarrow> length x = n"
proof (induction n xs rule: chunks_exact.induct)
  case (1 n xs)
  then show ?case
    by (cases "n = 0 \<or> length xs < n") (auto simp: chunks_exact.simps [of n xs])
qed

section \<open>Stable sorting by a comparison\<close>

text \<open>
  \<open>slice::sort_by\<close> is a stable sort; \<open>le\<close> is "not greater" of its comparison.
  Insertion keeps the order of elements that compare equal.
\<close>

fun insert_by :: "('a \<Rightarrow> 'a \<Rightarrow> bool) \<Rightarrow> 'a \<Rightarrow> 'a list \<Rightarrow> 'a list" where
  "insert_by le x [] = [x]"
| "insert_by le x (y # ys) = (if le x y then x # y # ys else y # insert_by le x ys)"

definition sort_by :: "('a \<Rightarrow> 'a \<Rightarrow> bool) \<Rightarrow> 'a list \<Rightarrow> 'a list" where
  "sort_by le xs = foldr (insert_by le) xs []"

lemma length_insert_by [simp]: "length (insert_by le x ys) = Suc (length ys)"
  by (induction ys) auto

lemma set_insert_by [simp]: "set (insert_by le x ys) = insert x (set ys)"
  by (induction ys) auto

lemma sort_by_simps [simp]:
  "sort_by le [] = []" "sort_by le (x # xs) = insert_by le x (sort_by le xs)"
  by (simp_all add: sort_by_def)

lemma length_sort_by [simp]: "length (sort_by le xs) = length xs"
  by (induction xs) auto

lemma set_sort_by [simp]: "set (sort_by le xs) = set xs"
  by (induction xs) auto

lemma distinct_insert_by [simp]: "distinct (insert_by le x ys) \<longleftrightarrow> x \<notin> set ys \<and> distinct ys"
  by (induction ys) auto

lemma distinct_sort_by [simp]: "distinct (sort_by le xs) \<longleftrightarrow> distinct xs"
  by (induction xs) auto

text \<open>A comparison that is total and transitive, as Rust requires of \<open>sort_by\<close>.\<close>

definition total_le :: "('a \<Rightarrow> 'a \<Rightarrow> bool) \<Rightarrow> bool" where
  "total_le le \<longleftrightarrow> (\<forall>x y. le x y \<or> le y x) \<and> (\<forall>x y z. le x y \<longrightarrow> le y z \<longrightarrow> le x z)"

lemma sorted_insert_by:
  "total_le le \<Longrightarrow> sorted_wrt le ys \<Longrightarrow> sorted_wrt le (insert_by le x ys)"
proof (induction ys)
  case (Cons y ys)
  then have "le x y \<or> le y x" "\<And>z. le x y \<Longrightarrow> le y z \<Longrightarrow> le x z"
    unfolding total_le_def by blast+
  with Cons show ?case by auto
qed simp

lemma sorted_sort_by: "total_le le \<Longrightarrow> sorted_wrt le (sort_by le xs)"
  by (induction xs) (auto intro: sorted_insert_by)

section \<open>Text as bytes\<close>

text \<open>ASCII literals, and the decimal digits of a number: how \<^verbatim>\<open>format!\<close> writes and
  \<^verbatim>\<open>str::parse\<close> reads them.\<close>

definition ascii :: "string \<Rightarrow> bytes" where "ascii s = map of_char s"

definition is_digit :: "u8 \<Rightarrow> bool" where "is_digit c \<longleftrightarrow> 48 \<le> c \<and> c \<le> 57"

definition digits_value :: "bytes \<Rightarrow> nat" where
  "digits_value ds = foldl (\<lambda>n d. 10 * n + (unat d - 48)) 0 ds"

fun decimal :: "nat \<Rightarrow> bytes" where
  "decimal n = (if n < 10 then [of_nat (48 + n)] else decimal (n div 10) @ [of_nat (48 + n mod 10)])"

declare decimal.simps [simp del]

lemma decimal_not_Nil [simp]: "decimal n \<noteq> []"
  by (subst decimal.simps) simp

lemma digits_value_snoc: "digits_value (ds @ [d]) = 10 * digits_value ds + (unat d - 48)"
  by (simp add: digits_value_def)

lemma digit_word:
  assumes "n < 10" shows "is_digit (of_nat (48 + n))" "unat (of_nat (48 + n) :: u8) = 48 + n"
proof -
  show u: "unat (of_nat (48 + n) :: u8) = 48 + n"
    using assms by (simp only: unat_of_nat) simp
  show "is_digit (of_nat (48 + n))"
    unfolding is_digit_def word_le_nat_alt u using assms by simp
qed

lemma decimal_digits: "decimal n \<noteq> [] \<and> list_all is_digit (decimal n) \<and> digits_value (decimal n) = n"
proof (induction n rule: decimal.induct)
  case (1 n)
  show ?case
  proof (cases "n < 10")
    case True
    have "digits_value [of_nat (48 + n)] = n"
      using digit_word(2) [OF True] by (simp only: digits_value_def) simp
    with True digit_word(1) [OF True] show ?thesis by (subst (1 2 3) decimal.simps) simp
  next
    case False
    have m: "n mod 10 < 10" by simp
    have "digits_value (decimal (n div 10) @ [of_nat (48 + n mod 10)]) = n"
      unfolding digits_value_snoc digit_word(2) [OF m] using 1 False by simp
    with 1 False digit_word(1) [OF m] show ?thesis by (subst (1 2 3) decimal.simps) simp
  qed
qed

end
