(* ===== verification/Le_Bytes.thy ===== *)
theory Le_Bytes
  imports Prelude
begin

text \<open>
  Little-endian encoding of machine integers: \<^verbatim>\<open>to_le_bytes\<close> and \<^verbatim>\<open>from_le_bytes\<close> of
  the Rust integer types, and the contract that every fixed-width codec of the file
  format keeps (the locale \<open>le_codec\<close>), interpreted for each width.
\<close>

section \<open>The codecs\<close>

fun from_le :: "bytes \<Rightarrow> 'a::len word" where
  "from_le [] = 0"
| "from_le (b # bs) = ucast b OR push_bit 8 (from_le bs)"

definition to_le :: "nat \<Rightarrow> 'a::len word \<Rightarrow> bytes" where
  "to_le n w = map (\<lambda>i. ucast (drop_bit (8 * i) w)) [0..<n]"

definition le16 :: "u16 \<Rightarrow> bytes" where "le16 w = to_le 2 w"
definition le32 :: "u32 \<Rightarrow> bytes" where "le32 w = to_le 4 w"
definition le64 :: "u64 \<Rightarrow> bytes" where "le64 w = to_le 8 w"

definition from_le16 :: "bytes \<Rightarrow> u16" where "from_le16 bs = from_le bs"
definition from_le32 :: "bytes \<Rightarrow> u32" where "from_le32 bs = from_le bs"
definition from_le64 :: "bytes \<Rightarrow> u64" where "from_le64 bs = from_le bs"

lemma bit_from_le:
  "bit (from_le bs :: 'a::len word) k \<longleftrightarrow>
     k < LENGTH('a) \<and> k div 8 < length bs \<and> bit (bs ! (k div 8)) (k mod 8)"
proof (induction bs arbitrary: k)
  case (Cons b bs)
  show ?case
  proof (cases "k < 8")
    case True
    then show ?thesis
      by (auto simp: bit_simps)
  next
    case False
    then have k: "k div 8 = Suc ((k - 8) div 8)" "k mod 8 = (k - 8) mod 8"
      by (auto simp: le_div_geq le_mod_geq)
    have "bit (from_le (b # bs) :: 'a word) k \<longleftrightarrow>
        k < LENGTH('a) \<and> bit (from_le bs :: 'a word) (k - 8)"
      using False by (auto simp: bit_simps dest: bit_imp_le_length)
    then show ?thesis using False by (auto simp: Cons.IH k(1) simp flip: k(2))
  qed
qed simp

lemma length_to_le [simp]: "length (to_le n w) = n"
  by (simp add: to_le_def)

lemma nth_to_le: "i < n \<Longrightarrow> bit (to_le n w ! i) j \<longleftrightarrow> j < 8 \<and> bit w (8 * i + j)"
  by (auto simp: to_le_def bit_simps ac_simps dest: bit_imp_le_length)

lemma from_le_to_le:
  assumes "8 * n = LENGTH('a)"
  shows "from_le (to_le n (w :: 'a::len word)) = w"
proof (rule bit_word_eqI)
  fix k assume k: "k < LENGTH('a)"
  with assms have "k div 8 < n" by auto
  with k show "bit (from_le (to_le n w) :: 'a word) k \<longleftrightarrow> bit w k"
    by (simp add: bit_from_le nth_to_le)
qed

lemma to_le_from_le:
  assumes "8 * n = LENGTH('a)" "length bs = n"
  shows "to_le n (from_le bs :: 'a::len word) = bs"
proof (rule nth_equalityI)
  show "length (to_le n (from_le bs :: 'a word)) = length bs" using assms by simp
next
  fix i assume "i < length (to_le n (from_le bs :: 'a word))"
  then have i: "i < n" by simp
  show "to_le n (from_le bs :: 'a word) ! i = bs ! i"
  proof (rule bit_word_eqI)
    fix j :: nat assume j: "j < LENGTH(8)"
    then have "8 * i + j < LENGTH('a)" using i assms(1) by auto
    with i j assms show "bit (to_le n (from_le bs :: 'a word) ! i) j \<longleftrightarrow> bit (bs ! i) j"
      by (simp add: nth_to_le bit_from_le)
  qed
qed

section \<open>The contract of a fixed-width codec\<close>

locale le_codec =
  fixes width :: nat
    and enc :: "'a \<Rightarrow> bytes"
    and dec :: "bytes \<Rightarrow> 'a"
  assumes width_pos: "0 < width"
    and enc_length: "length (enc x) = width"
    and dec_enc: "dec (enc x) = x"
    and enc_dec: "length bs = width \<Longrightarrow> enc (dec bs) = bs"
begin

lemma enc_inj: "enc x = enc y \<Longrightarrow> x = y"
  using dec_enc by metis

lemma concat_length: "length (concat (map enc xs)) = width * length xs"
  by (induction xs) (auto simp: enc_length)

lemma take_enc: "take width (enc x @ ys) = enc x"
  by (simp add: enc_length)

lemma drop_enc: "drop width (enc x @ ys) = ys"
  by (simp add: enc_length)

lemma chunks_enc: "chunks_exact width (concat (map enc xs)) = map enc xs"
  by (rule chunks_exact_concat) (auto simp: width_pos enc_length)

lemma decode_all: "map dec (chunks_exact width (concat (map enc xs))) = xs"
  by (simp add: chunks_enc dec_enc comp_def)

lemma slice_enc:
  "i < length xs \<Longrightarrow> slice (concat (map enc xs) @ ys) (i * width) (Suc i * width) = enc (xs ! i)"
proof (induction xs arbitrary: i)
  case (Cons x xs)
  show ?case
  proof (cases i)
    case 0
    then show ?thesis using take_enc [of x "concat (map enc xs) @ ys"] by (simp add: slice_def)
  next
    case (Suc j)
    with Cons show ?thesis
      by (simp add: slice_append_skip enc_length)
  qed
qed simp

end

interpretation b16: le_codec 2 le16 from_le16
  by unfold_locales (auto simp: le16_def from_le16_def from_le_to_le to_le_from_le)

interpretation b32: le_codec 4 le32 from_le32
  by unfold_locales (auto simp: le32_def from_le32_def from_le_to_le to_le_from_le)

interpretation b64: le_codec 8 le64 from_le64
  by unfold_locales (auto simp: le64_def from_le64_def from_le_to_le to_le_from_le)

lemmas codec_length [simp] = b16.enc_length b32.enc_length b64.enc_length
lemmas codec_inverse [simp] = b16.dec_enc b32.dec_enc b64.dec_enc

lemma unat_of_nat16: "n < 65536 \<Longrightarrow> unat (of_nat n :: u16) = n"
  by (simp add: unat_of_nat take_bit_nat_eq_self)

lemma unat_of_nat32: "n < 2 ^ 32 \<Longrightarrow> unat (of_nat n :: u32) = n"
  by (simp add: unat_of_nat take_bit_nat_eq_self)

lemma unat_of_nat64: "n < 2 ^ 64 \<Longrightarrow> unat (of_nat n :: u64) = n"
  by (simp add: unat_of_nat take_bit_nat_eq_self)

end
