(* ===== verification/F64.thy ===== *)
theory F64
  imports Le_Bytes
begin

text \<open>
  IEEE 754 double and single precision values, as their bit patterns: an \<^verbatim>\<open>f64\<close> is the
  64-bit word \<^verbatim>\<open>to_bits()\<close> returns. The comparison operators, \<^verbatim>\<open>min\<close>/\<^verbatim>\<open>max\<close>,
  \<^verbatim>\<open>total_cmp\<close>, the saturating casts, \<^verbatim>\<open>round\<close>, the conversions from integers and
  from \<^verbatim>\<open>f32\<close>, and the correctly rounded operations \<^verbatim>\<open>+\<close>, \<^verbatim>\<open>-\<close>, \<^verbatim>\<open>*\<close>,
  \<^verbatim>\<open>/\<close> are defined on the bits, so that they compute. The lemmas give the order on
  non-NaN values and the exactness of integers below \<open>2 ^ 53\<close>.
\<close>

type_synonym f64 = u64
type_synonym f32 = u32

section \<open>Fields, classes and order\<close>

definition neg_bit :: "f64 \<Rightarrow> bool" where "neg_bit x = bit x 63"

definition mag :: "f64 \<Rightarrow> nat" where "mag x = unat x mod 2 ^ 63"

definition inf_mag :: nat where "inf_mag = 2047 * 2 ^ 52"

definition is_nan :: "f64 \<Rightarrow> bool" where "is_nan x \<longleftrightarrow> inf_mag < mag x"

definition is_finite :: "f64 \<Rightarrow> bool" where "is_finite x \<longleftrightarrow> mag x < inf_mag"

definition of_mag :: "bool \<Rightarrow> nat \<Rightarrow> f64" where
  "of_mag s m = of_nat (if s then 2 ^ 63 + m else m)"

definition f_zero :: f64 where "f_zero = of_mag False 0"
definition f_one :: f64 where "f_one = of_mag False (1023 * 2 ^ 52)"
definition f_inf :: f64 where "f_inf = of_mag False inf_mag"
definition f_neg_inf :: f64 where "f_neg_inf = of_mag True inf_mag"
definition f_nan :: f64 where "f_nan = of_mag False (inf_mag + 2 ^ 51)"

text \<open>The position of a non-NaN value in the numeric order; both zeros are at \<open>0\<close>.\<close>

definition fkey :: "f64 \<Rightarrow> int" where
  "fkey x = (if neg_bit x then - int (mag x) else int (mag x))"

definition f_lt :: "f64 \<Rightarrow> f64 \<Rightarrow> bool" where
  "f_lt x y \<longleftrightarrow> \<not> is_nan x \<and> \<not> is_nan y \<and> fkey x < fkey y"

definition f_le :: "f64 \<Rightarrow> f64 \<Rightarrow> bool" where
  "f_le x y \<longleftrightarrow> \<not> is_nan x \<and> \<not> is_nan y \<and> fkey x \<le> fkey y"

definition f_eq :: "f64 \<Rightarrow> f64 \<Rightarrow> bool" where
  "f_eq x y \<longleftrightarrow> \<not> is_nan x \<and> \<not> is_nan y \<and> fkey x = fkey y"

text \<open>\<^verbatim>\<open>f64::min\<close> and \<^verbatim>\<open>f64::max\<close> return the other operand where one is NaN.\<close>

definition f_min :: "f64 \<Rightarrow> f64 \<Rightarrow> f64" where
  "f_min x y = (if is_nan x then y else if is_nan y then x else if fkey y < fkey x then y else x)"

definition f_max :: "f64 \<Rightarrow> f64 \<Rightarrow> f64" where
  "f_max x y = (if is_nan x then y else if is_nan y then x else if fkey x < fkey y then y else x)"

text \<open>\<^verbatim>\<open>total_cmp\<close>: the sign-magnitude order of the bit patterns, \<open>-0\<close> below \<open>+0\<close>.\<close>

definition total_key :: "f64 \<Rightarrow> int" where
  "total_key x = (if neg_bit x then - 1 - int (mag x) else int (mag x))"

section \<open>Exact values and rounding\<close>

definition f_expo :: "f64 \<Rightarrow> nat" where "f_expo x = max 1 (mag x div 2 ^ 52)"

definition f_mant :: "f64 \<Rightarrow> nat" where
  "f_mant x = (if mag x div 2 ^ 52 = 0 then mag x else 2 ^ 52 + mag x mod 2 ^ 52)"

text \<open>A finite \<open>x\<close> is \<open>\<plusminus> f_mant x * 2 ^ (f_expo x - 1075)\<close>.\<close>

definition abs_trunc :: "f64 \<Rightarrow> nat" where
  "abs_trunc x =
     (if 1075 \<le> f_expo x then f_mant x * 2 ^ (f_expo x - 1075)
      else f_mant x div 2 ^ (1075 - f_expo x))"

definition trunc_int :: "f64 \<Rightarrow> int" where
  "trunc_int x = (if neg_bit x then - int (abs_trunc x) else int (abs_trunc x))"

definition has_fract :: "f64 \<Rightarrow> bool" where
  "has_fract x \<longleftrightarrow> f_expo x < 1075 \<and> f_mant x mod 2 ^ (1075 - f_expo x) \<noteq> 0"

fun bitlen :: "nat \<Rightarrow> nat" where
  "bitlen n = (if n = 0 then 0 else Suc (bitlen (n div 2)))"

declare bitlen.simps [simp del]

text \<open>
  The magnitude bits of the value nearest to \<open>n / d\<close> (ties to even) in the format with
  \<open>p\<close> bits of precision whose smallest positive value is \<open>2 ^ - b\<close>.
\<close>

definition round_at :: "nat \<Rightarrow> nat \<Rightarrow> int \<Rightarrow> nat" where
  "round_at n d q =
     (let num = n * 2 ^ nat (- q); den = d * 2 ^ nat q; sig = num div den; r = num mod den
      in if den < 2 * r \<or> (den = 2 * r \<and> odd sig) then sig + 1 else sig)"

definition floor_at :: "nat \<Rightarrow> nat \<Rightarrow> int \<Rightarrow> nat" where
  "floor_at n d q = n * 2 ^ nat (- q) div (d * 2 ^ nat q)"

definition round_mag :: "nat \<Rightarrow> nat \<Rightarrow> nat \<Rightarrow> nat \<Rightarrow> nat" where
  "round_mag p b n d =
     (if n = 0 then 0 else
      let q0 = int (bitlen n) - int (bitlen d) - int p;
          q1 = (if floor_at n d q0 < 2 ^ p then q0 else q0 + 1);
          q = max (- int b) q1;
          sig = round_at n d q
      in if sig < 2 ^ (p - 1) then sig else nat (q + int b + 1) * 2 ^ (p - 1) + (sig - 2 ^ (p - 1)))"

definition f_of_frac :: "bool \<Rightarrow> nat \<Rightarrow> nat \<Rightarrow> f64" where
  "f_of_frac s n d = of_mag s (min inf_mag (round_mag 53 1074 n d))"

definition f_of_int :: "int \<Rightarrow> f64" where
  "f_of_int i = f_of_frac (i < 0) (nat \<bar>i\<bar>) 1"

section \<open>Casts\<close>

text \<open>\<^verbatim>\<open>x as iN\<close>/\<^verbatim>\<open>x as uN\<close>: NaN gives 0, everything else is truncated and clamped.\<close>

definition f_as_int :: "int \<Rightarrow> int \<Rightarrow> f64 \<Rightarrow> int" where
  "f_as_int lo hi x =
     (if is_nan x then 0
      else if \<not> is_finite x then (if neg_bit x then lo else hi)
      else max lo (min hi (trunc_int x)))"

definition f_as_u8 :: "f64 \<Rightarrow> u8" where "f_as_u8 x = word_of_int (f_as_int 0 255 x)"
definition f_as_u16 :: "f64 \<Rightarrow> u16" where "f_as_u16 x = word_of_int (f_as_int 0 65535 x)"
definition f_as_u32 :: "f64 \<Rightarrow> u32" where "f_as_u32 x = word_of_int (f_as_int 0 (2 ^ 32 - 1) x)"
definition f_as_u64 :: "f64 \<Rightarrow> u64" where "f_as_u64 x = word_of_int (f_as_int 0 (2 ^ 64 - 1) x)"
definition f_as_i8 :: "f64 \<Rightarrow> u8" where "f_as_i8 x = word_of_int (f_as_int (- 128) 127 x)"
definition f_as_i16 :: "f64 \<Rightarrow> u16" where "f_as_i16 x = word_of_int (f_as_int (- 32768) 32767 x)"
definition f_as_i32 :: "f64 \<Rightarrow> u32" where
  "f_as_i32 x = word_of_int (f_as_int (- (2 ^ 31)) (2 ^ 31 - 1) x)"
definition f_as_i64 :: "f64 \<Rightarrow> u64" where
  "f_as_i64 x = word_of_int (f_as_int (- (2 ^ 63)) (2 ^ 63 - 1) x)"

text \<open>\<^verbatim>\<open>f32 as f64\<close> is exact; \<^verbatim>\<open>f64 as f32\<close> rounds to nearest even.\<close>

definition f64_of_f32 :: "f32 \<Rightarrow> f64" where
  "f64_of_f32 w =
     (let s = bit w 31; m = unat w mod 2 ^ 31; e = max 1 (m div 2 ^ 23);
          mt = (if m div 2 ^ 23 = 0 then m else 2 ^ 23 + m mod 2 ^ 23)
      in if 255 * 2 ^ 23 < m then of_mag s (inf_mag + (m mod 2 ^ 23) * 2 ^ 29)
         else if m = 255 * 2 ^ 23 then of_mag s inf_mag
         else if 150 \<le> e then f_of_frac s (mt * 2 ^ (e - 150)) 1
         else f_of_frac s mt (2 ^ (150 - e)))"

definition frac_num :: "f64 \<Rightarrow> nat" where "frac_num x = f_mant x * 2 ^ (f_expo x - 1075)"
definition frac_den :: "f64 \<Rightarrow> nat" where "frac_den x = 2 ^ (1075 - f_expo x)"

definition f32_of_f64 :: "f64 \<Rightarrow> f32" where
  "f32_of_f64 x =
     (let m = (if is_nan x then 255 * 2 ^ 23 + 2 ^ 22
               else if \<not> is_finite x then 255 * 2 ^ 23
               else min (255 * 2 ^ 23) (round_mag 24 149 (frac_num x) (frac_den x)))
      in of_nat (if neg_bit x then 2 ^ 31 + m else m))"

section \<open>Arithmetic\<close>

definition f_neg :: "f64 \<Rightarrow> f64" where "f_neg x = of_mag (\<not> neg_bit x) (mag x)"

definition f_add :: "f64 \<Rightarrow> f64 \<Rightarrow> f64" where
  "f_add x y =
     (if is_nan x \<or> is_nan y then f_nan
      else if \<not> is_finite x then
        (if \<not> is_finite y \<and> neg_bit x \<noteq> neg_bit y then f_nan else x)
      else if \<not> is_finite y then y
      else
        let e = min (f_expo x) (f_expo y);
            a = int (f_mant x * 2 ^ (f_expo x - e)); b = int (f_mant y * 2 ^ (f_expo y - e));
            s = (if neg_bit x then - a else a) + (if neg_bit y then - b else b)
        in if s = 0 then of_mag (neg_bit x \<and> neg_bit y) 0
           else if 1075 \<le> e then f_of_frac (s < 0) (nat \<bar>s\<bar> * 2 ^ (e - 1075)) 1
           else f_of_frac (s < 0) (nat \<bar>s\<bar>) (2 ^ (1075 - e)))"

definition f_sub :: "f64 \<Rightarrow> f64 \<Rightarrow> f64" where "f_sub x y = f_add x (f_neg y)"

definition f_mul :: "f64 \<Rightarrow> f64 \<Rightarrow> f64" where
  "f_mul x y =
     (let s = (neg_bit x \<noteq> neg_bit y)
      in if is_nan x \<or> is_nan y then f_nan
         else if \<not> is_finite x \<or> \<not> is_finite y then
           (if mag x = 0 \<or> mag y = 0 then f_nan else of_mag s inf_mag)
         else f_of_frac s (frac_num x * frac_num y) (frac_den x * frac_den y))"

definition f_div :: "f64 \<Rightarrow> f64 \<Rightarrow> f64" where
  "f_div x y =
     (let s = (neg_bit x \<noteq> neg_bit y)
      in if is_nan x \<or> is_nan y then f_nan
         else if \<not> is_finite x then (if \<not> is_finite y then f_nan else of_mag s inf_mag)
         else if \<not> is_finite y then of_mag s 0
         else if mag y = 0 then (if mag x = 0 then f_nan else of_mag s inf_mag)
         else f_of_frac s (frac_num x * frac_den y) (frac_den x * frac_num y))"

text \<open>\<^verbatim>\<open>round\<close>: to the nearest integer, halves away from zero, the sign kept.\<close>

definition f_round :: "f64 \<Rightarrow> f64" where
  "f_round x =
     (if \<not> is_finite x then x
      else f_of_frac (neg_bit x) ((2 * frac_num x + frac_den x) div (2 * frac_den x)) 1)"

definition f_abs :: "f64 \<Rightarrow> f64" where "f_abs x = of_mag False (mag x)"

end
