(* ===== verification/Wcol_Format.thy ===== *)
theory Wcol_Format
  imports F64 "HOL-Library.AList"
begin

text \<open>
  The file format as the decoder reads it: the constants of \<^verbatim>\<open>wcol-format/src/lib.rs\<close>, the
  structures of \<^verbatim>\<open>wcol-decoder/src/types.rs\<close> and the parsers of
  \<^verbatim>\<open>wcol-decoder/src/parse.rs\<close>. Every read of the source indexes the byte slice and panics
  out of range; the reads here return \<open>Err Panic\<close> there, so that "the parsers never
  panic" is a statement about the bounds checks of the source.
\<close>

section \<open>Constants\<close>

definition WCOL_VERSION :: u16 where "WCOL_VERSION = 7"
definition ROWS_PER_CHUNK :: nat where "ROWS_PER_CHUNK = 65504"
definition HEADER_BYTES :: nat where "HEADER_BYTES = 96"
definition TOC_ENTRY_BYTES :: nat where "TOC_ENTRY_BYTES = 8"
definition INDEX_ENTRY_BYTES :: nat where "INDEX_ENTRY_BYTES = 80"
definition NULL_SENTINEL_U64 :: u64 where "NULL_SENTINEL_U64 = 0xffffffffffffffff"
definition FLAG_NULLABLE :: u8 where "FLAG_NULLABLE = 1"
definition FLAG_DICT :: u8 where "FLAG_DICT = 2"
definition ENCODING_NONE :: u8 where "ENCODING_NONE = 0"
definition ENCODING_NUM_DICT :: u8 where "ENCODING_NUM_DICT = 1"
definition TYPE_U8 :: u8 where "TYPE_U8 = 0"
definition TYPE_U16 :: u8 where "TYPE_U16 = 1"
definition TYPE_U32 :: u8 where "TYPE_U32 = 2"
definition TYPE_I32 :: u8 where "TYPE_I32 = 3"
definition TYPE_I64 :: u8 where "TYPE_I64 = 4"
definition TYPE_F32 :: u8 where "TYPE_F32 = 5"
definition TYPE_F64 :: u8 where "TYPE_F64 = 6"
definition TYPE_BOOL :: u8 where "TYPE_BOOL = 7"
definition TYPE_I16 :: u8 where "TYPE_I16 = 8"
definition TYPE_I8 :: u8 where "TYPE_I8 = 9"
definition TYPE_STRING :: u8 where "TYPE_STRING = 10"
definition EMPTY_MODE_ALL_ZERO :: u8 where "EMPTY_MODE_ALL_ZERO = 0"
definition EMPTY_MODE_ALL_ONE :: u8 where "EMPTY_MODE_ALL_ONE = 1"
definition EMPTY_MODE_MIXED :: u8 where "EMPTY_MODE_MIXED = 2"

lemmas type_defs = TYPE_U8_def TYPE_U16_def TYPE_U32_def TYPE_I32_def TYPE_I64_def TYPE_F32_def
  TYPE_F64_def TYPE_BOOL_def TYPE_I16_def TYPE_I8_def TYPE_STRING_def

lemmas layout_consts = HEADER_BYTES_def TOC_ENTRY_BYTES_def INDEX_ENTRY_BYTES_def

section \<open>Structures\<close>

record header =
  h_version :: u16
  h_flags :: u16
  h_ncols :: u32
  h_nchunks :: u32
  h_rows_per_chunk :: u32
  h_total_rows :: u64
  h_schema_off :: u64
  h_schema_len :: u64
  h_index_off :: u64
  h_index_len :: u64
  h_dict_off :: u64
  h_dict_len :: u64
  h_data_off :: u64
  h_dict_raw_len :: u64

record column =
  c_id :: u32
  c_name :: bytes
  c_logical :: u8
  c_physical :: u8
  c_flags :: u8
  c_encoding :: u8
  c_dict_id :: u32
  c_index_width :: u8
  c_scale :: u32

text \<open>The \<^verbatim>\<open>i32\<close> scale is kept as its 32-bit pattern; \<^term>\<open>sint\<close> reads it.\<close>

record dictionary =
  d_offsets :: "u32 list"
  d_blob :: bytes
  d_values :: "bytes list"
  d_lookup :: "(bytes \<times> u32) list"
  d_hash_cache :: "u64 list"

definition dictionary_new :: dictionary where
  "dictionary_new = \<lparr> d_offsets = [], d_blob = [], d_values = [], d_lookup = [], d_hash_cache = [] \<rparr>"

definition dictionary_len :: "dictionary \<Rightarrow> nat" where
  "dictionary_len d = (if d_offsets d \<noteq> [] then length (d_offsets d) - 1 else length (d_values d))"

record index_entry =
  e_data_off :: u64
  e_data_comp_len :: u32
  e_data_raw_len :: u32
  e_null_off :: u64
  e_null_comp_len :: u32
  e_null_raw_len :: u32
  e_empty_mode :: u8
  e_empty_count :: u32
  e_empty_off :: u64
  e_empty_comp_len :: u32
  e_empty_raw_len :: u32
  e_min :: f64
  e_max :: f64
  e_presence :: u64

section \<open>Reads\<close>

definition read_u16 :: "bytes \<Rightarrow> nat \<Rightarrow> u16 result" where
  "read_u16 bs off =
     (if off + 2 \<le> length bs then Ok (from_le16 (slice bs off (off + 2))) else Err Panic)"

definition read_u32 :: "bytes \<Rightarrow> nat \<Rightarrow> u32 result" where
  "read_u32 bs off =
     (if off + 4 \<le> length bs then Ok (from_le32 (slice bs off (off + 4))) else Err Panic)"

definition read_u64 :: "bytes \<Rightarrow> nat \<Rightarrow> u64 result" where
  "read_u64 bs off =
     (if off + 8 \<le> length bs then Ok (from_le64 (slice bs off (off + 8))) else Err Panic)"

definition read_i32 :: "bytes \<Rightarrow> nat \<Rightarrow> u32 result" where
  "read_i32 bs off = read_u32 bs off"

definition read_f64 :: "bytes \<Rightarrow> nat \<Rightarrow> f64 result" where
  "read_f64 bs off = read_u64 bs off"

definition read_u32_advance :: "bytes \<Rightarrow> nat \<Rightarrow> u8 \<Rightarrow> (u32 \<times> nat) result" where
  "read_u32_advance bs off width =
     (if width = 2 then
        (if length bs < off + 2 then Err Unit_Err
         else bindR (read_u16 bs off) (\<lambda>v. Ok (ucast v, off + 2)))
      else if width = 4 then
        (if length bs < off + 4 then Err Unit_Err
         else bindR (read_u32 bs off) (\<lambda>v. Ok (v, off + 4)))
      else Err Unit_Err)"

definition checked_add32 :: "u32 \<Rightarrow> u32 \<Rightarrow> u32 option" where
  "checked_add32 a b = (if unat a + unat b < 2 ^ 32 then Some (a + b) else None)"

lemma read_at [simp]:
  "occurs_at bs off (le16 w) \<Longrightarrow> read_u16 bs off = Ok w"
  "occurs_at bs off (le32 v) \<Longrightarrow> read_u32 bs off = Ok v"
  "occurs_at bs off (le64 u) \<Longrightarrow> read_u64 bs off = Ok u"
  "occurs_at bs off (le32 v) \<Longrightarrow> read_i32 bs off = Ok v"
  "occurs_at bs off (le64 u) \<Longrightarrow> read_f64 bs off = Ok u"
  unfolding read_u16_def read_u32_def read_u64_def read_i32_def read_f64_def
  by (frule occurs_at_le, simp add: occurs_at_slice del: add_2_eq_Suc')+

lemma read_no_panic [safe]:
  "off + 2 \<le> length bs \<Longrightarrow> no_panic (read_u16 bs off)"
  "off + 4 \<le> length bs \<Longrightarrow> no_panic (read_u32 bs off)"
  "off + 8 \<le> length bs \<Longrightarrow> no_panic (read_u64 bs off)"
  "off + 4 \<le> length bs \<Longrightarrow> no_panic (read_i32 bs off)"
  "off + 8 \<le> length bs \<Longrightarrow> no_panic (read_f64 bs off)"
  by (simp_all add: read_u16_def read_u32_def read_u64_def read_i32_def read_f64_def)

lemma read_u32_advance_no_panic [safe]: "no_panic (read_u32_advance bs off width)"
  by (auto simp: read_u32_advance_def intro!: safe)

lemma read_u32_advance_off:
  "read_u32_advance bs off width = Ok (v, off') \<Longrightarrow> off \<le> off' \<and> off' \<le> length bs"
  by (auto simp: read_u32_advance_def split: if_splits)

section \<open>UTF-8\<close>

text \<open>
  \<open>utf8_char bs\<close> is the length of the well-formed character \<open>bs\<close> starts with, \<open>0\<close> where
  there is none: the table of the Unicode standard, which \<^verbatim>\<open>str::from_utf8\<close> implements.
\<close>

definition in_range :: "u8 \<Rightarrow> u8 \<Rightarrow> u8 \<Rightarrow> bool" where
  "in_range lo hi b \<longleftrightarrow> lo \<le> b \<and> b \<le> hi"

fun utf8_second :: "u8 \<Rightarrow> u8 \<Rightarrow> bool" where
  "utf8_second a b =
     (if a = 0xE0 then in_range 0xA0 0xBF b
      else if a = 0xED then in_range 0x80 0x9F b
      else if a = 0xF0 then in_range 0x90 0xBF b
      else if a = 0xF4 then in_range 0x80 0x8F b
      else in_range 0x80 0xBF b)"

fun utf8_char :: "bytes \<Rightarrow> nat" where
  "utf8_char [] = 0"
| "utf8_char (a # bs) =
     (if a < 0x80 then 1
      else if in_range 0xC2 0xDF a then
        (case bs of b # _ \<Rightarrow> if utf8_second a b then 2 else 0 | [] \<Rightarrow> 0)
      else if in_range 0xE0 0xEF a then
        (case bs of b # c # _ \<Rightarrow> if utf8_second a b \<and> in_range 0x80 0xBF c then 3 else 0 | _ \<Rightarrow> 0)
      else if in_range 0xF0 0xF4 a then
        (case bs of b # c # d # _ \<Rightarrow>
           if utf8_second a b \<and> in_range 0x80 0xBF c \<and> in_range 0x80 0xBF d then 4 else 0
         | _ \<Rightarrow> 0)
      else 0)"

function utf8_valid :: "bytes \<Rightarrow> bool" where
  "utf8_valid bs =
     (if bs = [] then True
      else if utf8_char bs = 0 then False
      else utf8_valid (drop (utf8_char bs) bs))"
  by pat_completeness auto
termination
  by (relation "measure length") auto

declare utf8_valid.simps [simp del]

definition from_utf8 :: "bytes \<Rightarrow> bytes option" where
  "from_utf8 bs = (if utf8_valid bs then Some bs else None)"

lemma utf8_valid_ascii:
  "(\<And>b. b \<in> set bs \<Longrightarrow> b < 0x80) \<Longrightarrow> utf8_valid bs"
proof (induction bs)
  case (Cons b bs)
  then have "utf8_char (b # bs) = 1" by simp
  with Cons show ?case by (subst utf8_valid.simps) simp
qed (simp add: utf8_valid.simps)

end
