(* ===== verification/Wcol_Parse.thy ===== *)
theory Wcol_Parse
  imports Wcol_Format
begin

text \<open>
  The parsers of \<^verbatim>\<open>wcol-decoder/src/parse.rs\<close> for the header, the schema, the
  dictionaries and the chunk index, and the queries on a parsed dictionary of
  \<^verbatim>\<open>wcol-decoder/src/runtime.rs\<close>. The loops of the source run over a count with a
  moving offset; here they recurse on the count and pass the offset along.
\<close>

section \<open>The header\<close>

definition magic :: bytes where "magic = [87, 67, 79, 76]"

definition parse_header :: "bytes \<Rightarrow> header result" where
  "parse_header bs =
     (if length bs < HEADER_BYTES then Err Unit_Err
      else if slice bs 0 4 \<noteq> magic then Err Unit_Err
      else bindR (read_u16 bs 4) (\<lambda>version.
        if version \<noteq> WCOL_VERSION then Err Unit_Err
        else bindR (read_u16 bs 6) (\<lambda>flags. bindR (read_u32 bs 8) (\<lambda>ncols.
          bindR (read_u32 bs 12) (\<lambda>nchunks. bindR (read_u32 bs 16) (\<lambda>rpc.
          bindR (read_u64 bs 20) (\<lambda>total. bindR (read_u64 bs 28) (\<lambda>soff.
          bindR (read_u64 bs 36) (\<lambda>slen. bindR (read_u64 bs 44) (\<lambda>ioff.
          bindR (read_u64 bs 52) (\<lambda>ilen. bindR (read_u64 bs 60) (\<lambda>doff.
          bindR (read_u64 bs 68) (\<lambda>dlen. bindR (read_u64 bs 76) (\<lambda>data_off.
          bindR (read_u64 bs 84) (\<lambda>draw.
            Ok \<lparr> h_version = version, h_flags = flags, h_ncols = ncols, h_nchunks = nchunks,
                 h_rows_per_chunk = rpc, h_total_rows = total, h_schema_off = soff,
                 h_schema_len = slen, h_index_off = ioff, h_index_len = ilen,
                 h_dict_off = doff, h_dict_len = dlen, h_data_off = data_off,
                 h_dict_raw_len = draw \<rparr>)))))))))))))))"

section \<open>The schema\<close>

fun parse_columns :: "bytes \<Rightarrow> nat \<Rightarrow> nat \<Rightarrow> nat \<Rightarrow> column list result" where
  "parse_columns bs off cid 0 = Ok []"
| "parse_columns bs off cid (Suc n) =
     (if length bs < off + 2 then Err Unit_Err
      else bindR (read_u16 bs off) (\<lambda>name_len.
        let off = off + 2; nl = unat name_len in
        if length bs < off + nl then Err Unit_Err
        else bindR (of_option Unit_Err (from_utf8 (slice bs off (off + nl)))) (\<lambda>name.
          let off = off + nl in
          if length bs < off + 14 then Err Unit_Err
          else
            bindR (index bs off) (\<lambda>logical. bindR (index bs (off + 1)) (\<lambda>physical.
            bindR (index bs (off + 2)) (\<lambda>flags. bindR (index bs (off + 3)) (\<lambda>encoding.
            bindR (read_u32 bs (off + 4)) (\<lambda>dict_id. bindR (index bs (off + 8)) (\<lambda>width.
            bindR (read_i32 bs (off + 9)) (\<lambda>scale.
            bindR (parse_columns bs (off + 14) (cid + 1) n) (\<lambda>cols.
              Ok (\<lparr> c_id = of_nat cid, c_name = name, c_logical = logical,
                    c_physical = physical, c_flags = flags, c_encoding = encoding,
                    c_dict_id = dict_id, c_index_width = width, c_scale = scale \<rparr> # cols))))))))))))"

definition parse_schema :: "bytes \<Rightarrow> nat \<Rightarrow> column list result" where
  "parse_schema bs ncols = parse_columns bs 0 0 ncols"

section \<open>The dictionaries\<close>

fun read_lengths :: "bytes \<Rightarrow> nat \<Rightarrow> u8 \<Rightarrow> u32 \<Rightarrow> nat \<Rightarrow> (u32 list \<times> nat \<times> u32) result" where
  "read_lengths bs off width tot 0 = Ok ([], off, tot)"
| "read_lengths bs off width tot (Suc n) =
     bindR (read_u32_advance bs off width) (\<lambda>(len, off).
     bindR (of_option Unit_Err (checked_add32 tot len)) (\<lambda>tot.
     bindR (read_lengths bs off width tot n) (\<lambda>(lens, off, tot).
       Ok (len # lens, off, tot))))"

fun running_offsets :: "u32 \<Rightarrow> u32 list \<Rightarrow> u32 list result" where
  "running_offsets running [] = Ok []"
| "running_offsets running (len # lens) =
     bindR (of_option Unit_Err (checked_add32 running len)) (\<lambda>running.
     bindR (running_offsets running lens) (\<lambda>offs. Ok (running # offs)))"

fun parse_dict_loop ::
  "bytes \<Rightarrow> nat \<Rightarrow> nat \<Rightarrow> (u32 \<rightharpoonup> dictionary) \<Rightarrow> (u32 \<rightharpoonup> dictionary) result" where
  "parse_dict_loop bs off 0 dicts = Ok dicts"
| "parse_dict_loop bs off (Suc n) dicts =
     (if length bs < off + 12 then Err Unit_Err
      else
        bindR (read_u32 bs off) (\<lambda>dict_id. bindR (read_u32 bs (off + 4)) (\<lambda>value_count.
        bindR (index bs (off + 8)) (\<lambda>len_width.
          if len_width \<noteq> 2 \<and> len_width \<noteq> 4 then Err Unit_Err
          else
            bindR (read_lengths bs (off + 12) len_width 0 (unat value_count))
              (\<lambda>(lens, off, tot).
              if length bs < off + unat tot then Err Unit_Err
              else
                bindR (running_offsets 0 lens) (\<lambda>offs.
                  parse_dict_loop bs (off + unat tot) n
                    (dicts(dict_id \<mapsto>
                       \<lparr> d_offsets = 0 # offs, d_blob = slice bs off (off + unat tot),
                         d_values = [], d_lookup = [], d_hash_cache = [] \<rparr>))))))))"

definition parse_dicts :: "bytes \<Rightarrow> (u32 \<rightharpoonup> dictionary) result" where
  "parse_dicts bs =
     (if bs = [] then Ok Map.empty
      else if length bs < 4 then Err Unit_Err
      else bindR (read_u32 bs 0) (\<lambda>n. parse_dict_loop bs 4 (unat n) Map.empty))"

section \<open>The index of a chunk\<close>

definition parse_entry :: "bytes \<Rightarrow> nat \<Rightarrow> index_entry result" where
  "parse_entry bs off =
     bindR (read_u64 bs off) (\<lambda>data_off. bindR (read_u32 bs (off + 8)) (\<lambda>data_comp.
     bindR (read_u32 bs (off + 12)) (\<lambda>data_raw. bindR (read_u64 bs (off + 16)) (\<lambda>null_off.
     bindR (read_u32 bs (off + 24)) (\<lambda>null_comp. bindR (read_u32 bs (off + 28)) (\<lambda>null_raw.
     bindR (read_u32 bs (off + 32)) (\<lambda>mode. bindR (read_u32 bs (off + 36)) (\<lambda>count.
     bindR (read_u64 bs (off + 40)) (\<lambda>empty_off. bindR (read_u32 bs (off + 48)) (\<lambda>empty_comp.
     bindR (read_u32 bs (off + 52)) (\<lambda>empty_raw. bindR (read_f64 bs (off + 56)) (\<lambda>mn.
     bindR (read_f64 bs (off + 64)) (\<lambda>mx. bindR (read_u64 bs (off + 72)) (\<lambda>presence.
       Ok \<lparr> e_data_off = data_off, e_data_comp_len = data_comp, e_data_raw_len = data_raw,
            e_null_off = null_off, e_null_comp_len = null_comp, e_null_raw_len = null_raw,
            e_empty_mode = ucast mode, e_empty_count = count, e_empty_off = empty_off,
            e_empty_comp_len = empty_comp, e_empty_raw_len = empty_raw, e_min = mn,
            e_max = mx, e_presence = presence \<rparr>))))))))))))))"

fun parse_entries :: "bytes \<Rightarrow> nat \<Rightarrow> nat \<Rightarrow> index_entry list result" where
  "parse_entries bs off 0 = Ok []"
| "parse_entries bs off (Suc n) =
     bindR (parse_entry bs off) (\<lambda>e.
     bindR (parse_entries bs (off + 80) n) (\<lambda>es. Ok (e # es)))"

definition parse_chunk_index :: "bytes \<Rightarrow> nat \<Rightarrow> index_entry list result" where
  "parse_chunk_index bs ncols =
     (if length bs < ncols * INDEX_ENTRY_BYTES then Err Unit_Err else parse_entries bs 0 ncols)"

section \<open>Queries on a dictionary\<close>

definition dict_value_bytes :: "dictionary \<Rightarrow> nat \<Rightarrow> bytes option" where
  "dict_value_bytes d i =
     (if d_offsets d \<noteq> [] then
        Option.bind (get (d_offsets d) i) (\<lambda>lo. Option.bind (get (d_offsets d) (i + 1)) (\<lambda>hi.
          slice_get (d_blob d) (unat lo) (unat hi)))
      else get (d_values d) i)"

text \<open>The blob scan of \<^verbatim>\<open>dict_string_id\<close>: the first index whose bytes are the needle.\<close>

fun blob_scan :: "dictionary \<Rightarrow> bytes \<Rightarrow> nat \<Rightarrow> nat \<Rightarrow> nat option" where
  "blob_scan d needle idx 0 = None"
| "blob_scan d needle idx (Suc n) =
     (if slice_get (d_blob d) (unat (d_offsets d ! idx)) (unat (d_offsets d ! (idx + 1)))
           = Some needle
      then Some idx else blob_scan d needle (idx + 1) n)"

fun lex_cmp :: "bytes \<Rightarrow> bytes \<Rightarrow> int" where
  "lex_cmp [] [] = 0"
| "lex_cmp [] (y # ys) = - 1"
| "lex_cmp (x # xs) [] = 1"
| "lex_cmp (x # xs) (y # ys) = (if x < y then - 1 else if y < x then 1 else lex_cmp xs ys)"

text \<open>
  \<^verbatim>\<open>binary_search_by\<close>: halving \<open>[lo, hi)\<close>. On a list that is sorted without repeats
  the position found does not depend on how the midpoints are chosen.
\<close>

function bsearch :: "bytes list \<Rightarrow> bytes \<Rightarrow> nat \<Rightarrow> nat \<Rightarrow> nat option" where
  "bsearch vs s lo hi =
     (if hi \<le> lo then None
      else let mid = lo + (hi - lo) div 2; c = lex_cmp (vs ! mid) s in
        if c = 0 then Some mid
        else if c < 0 then bsearch vs s (mid + 1) hi else bsearch vs s lo mid)"
  by pat_completeness auto
termination
  by (relation "measure (\<lambda>(vs, s, lo, hi). hi - lo)") auto

declare bsearch.simps [simp del]

definition dict_string_id :: "dictionary \<Rightarrow> bytes \<Rightarrow> u32 option" where
  "dict_string_id d s =
     (case map_of (d_lookup d) s of
        Some i \<Rightarrow> Some i
      | None \<Rightarrow>
          if d_offsets d \<noteq> [] then
            map_option of_nat (blob_scan d s 0 (length (d_offsets d) - 1))
          else if d_lookup d = [] then
            map_option of_nat (bsearch (d_values d) s 0 (length (d_values d)))
          else None)"

section \<open>The parsers do not panic\<close>

lemma parse_header_no_panic: "no_panic (parse_header bs)"
  unfolding parse_header_def
  by (auto simp: layout_consts Let_def intro!: safe)

lemma parse_columns_no_panic: "no_panic (parse_columns bs off cid n)"
  by (induction n arbitrary: off cid) (auto simp: Let_def intro!: safe)

lemma read_lengths_no_panic [safe]: "no_panic (read_lengths bs off width tot n)"
  by (induction n arbitrary: off tot) (auto simp: split_beta intro!: safe)

lemma running_offsets_no_panic [safe]: "no_panic (running_offsets r lens)"
  by (induction lens arbitrary: r) (auto intro!: safe)

lemma parse_dict_loop_no_panic [safe]: "no_panic (parse_dict_loop bs off n dicts)"
  by (induction n arbitrary: off dicts) (auto simp: split_beta intro!: safe)

lemma parse_dicts_no_panic: "no_panic (parse_dicts bs)"
  by (auto simp: parse_dicts_def intro!: safe)

lemma parse_entry_no_panic [safe]: "off + 80 \<le> length bs \<Longrightarrow> no_panic (parse_entry bs off)"
  unfolding parse_entry_def by (auto intro!: safe)

lemma parse_entries_no_panic: "off + n * 80 \<le> length bs \<Longrightarrow> no_panic (parse_entries bs off n)"
  by (induction n arbitrary: off) (auto intro!: safe)

lemma parse_chunk_index_no_panic: "no_panic (parse_chunk_index bs ncols)"
  by (auto simp: parse_chunk_index_def layout_consts intro!: parse_entries_no_panic)

text \<open>
  A chunk index shorter than its 80 bytes per column is the only reason for an error.
\<close>

lemma parse_entries_Ok: "off + n * 80 \<le> length bs \<Longrightarrow> \<exists>es. parse_entries bs off n = Ok es"
proof (induction n arbitrary: off)
  case (Suc n)
  then obtain es where "parse_entries bs (off + 80) n = Ok es" by (metis add.assoc mult_Suc)
  moreover from Suc.prems have "\<exists>e. parse_entry bs off = Ok e"
    by (simp add: parse_entry_def read_u32_def read_u64_def read_f64_def)
  ultimately show ?case by auto
qed simp

end
