(* ===== verification/Wcol_Write.thy ===== *)
theory Wcol_Write
  imports Wcol_Parse
begin

text \<open>
  The writer of a file: the encoder's structures (\<^verbatim>\<open>wcol-encoder/src/types.rs\<close>) and
  \<^verbatim>\<open>wcol-encoder/src/format.rs\<close>. The LZ4 compressor is not code of the repository; it is
  the argument \<open>compress\<close>. The file system is left out: \<open>write_wcol\<close> returns the bytes
  that the sequence of \<^verbatim>\<open>write_all\<close> calls puts into the file. Offsets are 64-bit words,
  and their additions wrap as in a release build.
\<close>

section \<open>The encoder's structures\<close>

datatype column_kind = K_String | K_Boolean | K_Int | K_Float

type_synonym i64 = "64 word"

record column_spec =
  cs_id :: nat
  cs_name :: bytes
  cs_kind :: column_kind
  cs_nullable :: bool
  cs_min :: f64
  cs_max :: f64
  cs_f32_ok :: bool
  cs_scale_candidates :: u32
  cs_scaled_min :: "i64 list"
  cs_scaled_max :: "i64 list"
  cs_unsafe_int :: bool
  cs_dict_map :: "(bytes \<times> u32) list option"
  cs_dict_values :: "bytes list"
  cs_num_dict_values :: "i64 list option"
  cs_num_dict :: bool
  cs_float_int_ok :: bool
  cs_float_int_min :: i64
  cs_float_int_max :: i64
  cs_logical :: u8
  cs_physical :: u8
  cs_flags :: u8
  cs_encoding :: u8
  cs_dict_id :: u32
  cs_index_width :: u8
  cs_scale :: u32
  cs_other_dict_id :: "u32 option"

record column_page =
  p_data_raw_len :: u32
  p_data_comp :: bytes
  p_null_raw_len :: u32
  p_null_comp :: "bytes option"
  p_empty_mode :: u8
  p_empty_count :: u32
  p_empty_raw_len :: u32
  p_empty_comp :: "bytes option"
  p_data_off :: u64
  p_null_off :: u64
  p_empty_off :: u64
  p_min :: f64
  p_max :: f64
  p_presence :: u64

type_synonym chunk_pages = "column_page list"

record index_layout =
  l_data_off :: u64
  l_toc :: "u64 list"
  l_index_blocks :: "bytes list"
  l_index_len :: u64

section \<open>Schema\<close>

definition column_bytes :: "column_spec \<Rightarrow> bytes" where
  "column_bytes col =
     le16 (of_nat (length (cs_name col))) @ cs_name col @
     [cs_logical col, cs_physical col, cs_flags col, cs_encoding col] @
     le32 (cs_dict_id col) @ [cs_index_width col] @ le32 (cs_scale col) @ [0]"

fun build_schema_bytes :: "column_spec list \<Rightarrow> bytes result" where
  "build_schema_bytes [] = Ok []"
| "build_schema_bytes (col # cols) =
     (if 65535 < length (cs_name col) then Err (Bail ''Column name too long'')
      else bindR (build_schema_bytes cols) (\<lambda>rest. Ok (column_bytes col @ rest)))"

section \<open>Dictionaries\<close>

definition dict_len_width :: "bytes list \<Rightarrow> u8" where
  "dict_len_width vals = (if foldl max 0 (map length vals) \<le> 65535 then 2 else 4)"

fun dict_lengths :: "u8 \<Rightarrow> nat \<Rightarrow> bytes list \<Rightarrow> (bytes \<times> nat) result" where
  "dict_lengths width tot [] = Ok ([], tot)"
| "dict_lengths width tot (v # vs) =
     (if 2 ^ 64 \<le> tot + length v then Err (Bail ''dictionary blob length overflow'')
      else if width = 2 \<and> 65535 < length v then Err (Bail ''Dictionary value too long'')
      else bindR (dict_lengths width (tot + length v) vs) (\<lambda>(rest, tot').
        Ok ((if width = 2 then le16 (of_nat (length v)) else le32 (of_nat (length v))) @ rest,
            tot')))"

definition dict_block :: "column_spec \<Rightarrow> bytes result" where
  "dict_block col =
     (let vals = cs_dict_values col; width = dict_len_width vals in
      bindR (dict_lengths width 0 vals) (\<lambda>(lens, tot).
        if 2 ^ 32 \<le> tot then Err (Bail ''Dictionary blob length exceeds u32 range'')
        else Ok (le32 (cs_dict_id col) @ le32 (of_nat (length vals)) @ [width, 0] @ le16 0 @
                 lens @ concat vals)))"

definition is_dict_col :: "column_spec \<Rightarrow> bool" where
  "is_dict_col col \<longleftrightarrow> cs_flags col AND FLAG_DICT \<noteq> 0"

definition build_dict_bytes :: "column_spec list \<Rightarrow> bytes result" where
  "build_dict_bytes cols =
     (let dict_cols = filter is_dict_col cols in
      if dict_cols = [] then Ok []
      else bindR (mapR dict_block dict_cols) (\<lambda>blocks.
        Ok (le32 (of_nat (length dict_cols)) @ concat blocks)))"

section \<open>Index\<close>

definition comp_len :: "bytes option \<Rightarrow> nat" where
  "comp_len c = (case c of Some v \<Rightarrow> length v | None \<Rightarrow> 0)"

definition place_page :: "u64 \<Rightarrow> column_page \<Rightarrow> u64 \<times> column_page" where
  "place_page cursor page =
     (let page = page\<lparr> p_data_off := cursor \<rparr>;
          cursor = cursor + of_nat (length (p_data_comp page));
          (cursor, page) =
            (case p_null_comp page of
               Some c \<Rightarrow> (cursor + of_nat (length c), page\<lparr> p_null_off := cursor \<rparr>)
             | None \<Rightarrow> (cursor, page\<lparr> p_null_off := NULL_SENTINEL_U64 \<rparr>))
      in (case p_empty_comp page of
            Some c \<Rightarrow> (cursor + of_nat (length c), page\<lparr> p_empty_off := cursor \<rparr>)
          | None \<Rightarrow> (cursor, page\<lparr> p_empty_off := NULL_SENTINEL_U64 \<rparr>)))"

fun place_pages :: "u64 \<Rightarrow> column_page list \<Rightarrow> u64 \<times> column_page list" where
  "place_pages cursor [] = (cursor, [])"
| "place_pages cursor (p # ps) =
     (let (cursor, p) = place_page cursor p; (cursor, ps) = place_pages cursor ps
      in (cursor, p # ps))"

fun place_chunks :: "u64 \<Rightarrow> chunk_pages list \<Rightarrow> u64 \<times> chunk_pages list" where
  "place_chunks cursor [] = (cursor, [])"
| "place_chunks cursor (c # cs) =
     (let (cursor, c) = place_pages cursor c; (cursor, cs) = place_chunks cursor cs
      in (cursor, c # cs))"

definition entry_bytes :: "column_page \<Rightarrow> bytes" where
  "entry_bytes p =
     le64 (p_data_off p) @ le32 (of_nat (length (p_data_comp p))) @ le32 (p_data_raw_len p) @
     le64 (p_null_off p) @ le32 (of_nat (comp_len (p_null_comp p))) @ le32 (p_null_raw_len p) @
     le32 (ucast (p_empty_mode p)) @ le32 (p_empty_count p) @
     le64 (p_empty_off p) @ le32 (of_nat (comp_len (p_empty_comp p))) @ le32 (p_empty_raw_len p) @
     le64 (p_min p) @ le64 (p_max p) @ le64 (p_presence p)"

definition index_raw :: "chunk_pages \<Rightarrow> bytes" where
  "index_raw pages = concat (map entry_bytes pages)"

fun toc_offsets :: "u64 \<Rightarrow> bytes list \<Rightarrow> u64 list result" where
  "toc_offsets offset [] = Ok []"
| "toc_offsets offset (b # bs) =
     (if 2 ^ 64 \<le> unat offset + length b then Err (Bail ''index length overflow'')
      else bindR (toc_offsets (offset + of_nat (length b)) bs) (\<lambda>offs. Ok (offset # offs)))"

definition build_index_blocks ::
  "(bytes \<Rightarrow> bytes) \<Rightarrow> chunk_pages list \<Rightarrow> u64 \<Rightarrow> u64 \<Rightarrow> (index_layout \<times> chunk_pages list) result"
where
  "build_index_blocks compress chunks index_off data_off =
     (let chunks = snd (place_chunks data_off chunks);
          blocks = map (\<lambda>c. compress (index_raw c)) chunks;
          toc_len = of_nat (length chunks) * 8
      in bindR (toc_offsets (index_off + toc_len) blocks) (\<lambda>toc.
        Ok (\<lparr> l_data_off = data_off, l_toc = toc, l_index_blocks = blocks,
              l_index_len = toc_len + sum_list (map (\<lambda>b. of_nat (length b)) blocks) \<rparr>, chunks)))"

definition compute_index_layout ::
  "(bytes \<Rightarrow> bytes) \<Rightarrow> column_spec list \<Rightarrow> chunk_pages list \<Rightarrow> nat \<Rightarrow> nat \<Rightarrow> u64
     \<Rightarrow> (index_layout \<times> chunk_pages list) result" where
  "compute_index_layout compress columns chunks schema_len dlen index_off =
     (let toc_len = length chunks * 8;
          raw_len_per_chunk = length columns * INDEX_ENTRY_BYTES;
          max_index_len = toc_len + raw_len_per_chunk * length chunks;
          data_off = HEADER_BYTES + schema_len + dlen + max_index_len
      in build_index_blocks compress chunks index_off (of_nat data_off))"

definition build_toc :: "u64 list \<Rightarrow> bytes" where
  "build_toc toc = concat (map le64 toc)"

section \<open>Header and file\<close>

definition build_header ::
  "u32 \<Rightarrow> u32 \<Rightarrow> u64 \<Rightarrow> u64 \<Rightarrow> u64 \<Rightarrow> u64 \<Rightarrow> u64 \<Rightarrow> u64 \<Rightarrow> u64 \<Rightarrow> u64 \<Rightarrow> u16 \<Rightarrow> u64 \<Rightarrow> bytes" where
  "build_header ncols nchunks schema_off schema_len index_off index_len dict_off dict_bytes_len
     data_off total_rows flags dict_raw_len =
     magic @ le16 WCOL_VERSION @ le16 flags @ le32 ncols @ le32 nchunks @
     le32 (of_nat ROWS_PER_CHUNK) @ le64 total_rows @ le64 schema_off @ le64 schema_len @
     le64 index_off @ le64 index_len @ le64 dict_off @ le64 dict_bytes_len @ le64 data_off @
     le64 dict_raw_len @ [0, 0, 0, 0]"

definition page_bytes :: "column_page \<Rightarrow> bytes" where
  "page_bytes p =
     p_data_comp p @ (case p_null_comp p of Some c \<Rightarrow> c | None \<Rightarrow> []) @
     (case p_empty_comp p of Some c \<Rightarrow> c | None \<Rightarrow> [])"

definition HEADER_FLAG_DICT_COMPRESSED :: u16 where "HEADER_FLAG_DICT_COMPRESSED = 1"

definition dict_payload :: "(bytes \<Rightarrow> bytes) \<Rightarrow> bytes \<Rightarrow> bytes \<times> u16" where
  "dict_payload compress raw =
     (if raw = [] then (raw, 0)
      else if length (compress raw) < length raw then (compress raw, HEADER_FLAG_DICT_COMPRESSED)
      else (raw, 0))"

definition write_wcol ::
  "(bytes \<Rightarrow> bytes) \<Rightarrow> column_spec list \<Rightarrow> chunk_pages list \<Rightarrow> u64 \<Rightarrow> bytes result" where
  "write_wcol compress columns chunks total_rows =
     bindR (build_schema_bytes columns) (\<lambda>schema.
     bindR (build_dict_bytes columns) (\<lambda>dict_raw.
       let (dict, flags) = dict_payload compress dict_raw;
           schema_off = of_nat HEADER_BYTES;
           schema_len = of_nat (length schema);
           index_off = schema_off + schema_len
       in bindR (compute_index_layout compress columns chunks (length schema) (length dict)
                  index_off) (\<lambda>(layout, chunks).
         let header = build_header (of_nat (length columns)) (of_nat (length chunks)) schema_off
               schema_len index_off (l_index_len layout) (index_off + l_index_len layout)
               (of_nat (length dict)) (l_data_off layout) total_rows flags
               (of_nat (length dict_raw));
             dict_end = index_off + l_index_len layout + of_nat (length dict)
         in if l_data_off layout < dict_end then Err (Bail ''data offset underflow'')
            else Ok (header @ schema @ build_toc (l_toc layout) @ concat (l_index_blocks layout) @
                     dict @ replicate (unat (l_data_off layout - dict_end)) 0 @
                     concat (map page_bytes (concat chunks))))))"

end
