(* ===== verification/Wcol_Roundtrip.thy ===== *)
theory Wcol_Roundtrip
  imports Wcol_Write
begin

text \<open>
  The parsers of the decoder read back what the writer of the encoder wrote: header,
  schema, dictionaries and chunk index, and every page of a whole file.
\<close>

section \<open>Header\<close>

lemma length_build_header:
  "length (build_header nc nk so sl io il dof dl dto tr fl draw) = HEADER_BYTES"
  by (simp add: build_header_def magic_def layout_consts)

lemma parse_header_occurs:
  assumes "occurs_at bs 0 (build_header nc nk so sl io il dof dl dto tr fl draw)"
  shows "parse_header bs =
     Ok \<lparr> h_version = WCOL_VERSION, h_flags = fl, h_ncols = nc, h_nchunks = nk,
          h_rows_per_chunk = of_nat ROWS_PER_CHUNK, h_total_rows = tr, h_schema_off = so,
          h_schema_len = sl, h_index_off = io, h_index_len = il, h_dict_off = dof,
          h_dict_len = dl, h_data_off = dto, h_dict_raw_len = draw \<rparr>"
proof -
  have len: "\<not> length bs < HEADER_BYTES"
    using occurs_at_le [OF assms] by (simp add: length_build_header)
  have m: "slice bs 0 4 = magic"
    using assms occurs_at_slice [of bs 0 magic 4] by (simp add: build_header_def magic_def)
  show ?thesis
    using assms len m
    by (simp add: parse_header_def build_header_def magic_def eval_nat_numeral)
qed

section \<open>Schema\<close>

definition column_of_spec :: "nat \<Rightarrow> column_spec \<Rightarrow> column" where
  "column_of_spec i col =
     \<lparr> c_id = of_nat i, c_name = cs_name col, c_logical = cs_logical col,
       c_physical = cs_physical col, c_flags = cs_flags col, c_encoding = cs_encoding col,
       c_dict_id = cs_dict_id col, c_index_width = cs_index_width col, c_scale = cs_scale col \<rparr>"

lemma length_column_bytes: "length (column_bytes col) = 2 + length (cs_name col) + 14"
  by (simp add: column_bytes_def)

lemma parse_columns_build:
  assumes "build_schema_bytes cols = Ok sb" "\<forall>col \<in> set cols. utf8_valid (cs_name col)"
    "occurs_at bs off sb"
  shows "parse_columns bs off i (length cols) =
     Ok (map (\<lambda>(j, col). column_of_spec j col) (zip [i..<i + length cols] cols))"
  using assms
proof (induction cols arbitrary: sb off i)
  case (Cons col cols)
  from Cons.prems(1) obtain rest where nl: "length (cs_name col) \<le> 65535"
    and rest: "build_schema_bytes cols = Ok rest" and sb: "sb = column_bytes col @ rest"
    by (auto split: if_splits)
  let ?n = "length (cs_name col)"
  have un: "unat (of_nat ?n :: u16) = ?n" using nl by (simp add: unat_of_nat16)
  from Cons.prems(3) have oc: "occurs_at bs off (column_bytes col)"
    and orest: "occurs_at bs (off + 2 + ?n + 14) rest"
    by (simp_all add: sb length_column_bytes ac_simps)
  have ih: "parse_columns bs (off + 2 + ?n + 14) (i + 1) (length cols) =
     Ok (map (\<lambda>(j, col). column_of_spec j col) (zip [i + 1..<i + 1 + length cols] cols))"
    using Cons.IH [OF rest _ orest] Cons.prems(2) by simp
  have len: "off + 2 + ?n + 14 \<le> length bs"
    using occurs_at_le [OF oc] by (simp add: length_column_bytes)
  have nm: "slice bs (off + 2) (off + 2 + ?n) = cs_name col"
    using oc by (intro occurs_at_slice) (simp_all add: column_bytes_def)
  have r16: "read_u16 bs off = Ok (of_nat ?n)"
    using oc by (simp add: column_bytes_def)
  have f: "bs ! (off + 2 + ?n) = cs_logical col" "bs ! (off + 2 + ?n + 1) = cs_physical col"
     "bs ! (off + 2 + ?n + 2) = cs_flags col" "bs ! (off + 2 + ?n + 3) = cs_encoding col"
     "read_u32 bs (off + 2 + ?n + 4) = Ok (cs_dict_id col)"
     "bs ! (off + 2 + ?n + 8) = cs_index_width col"
     "read_i32 bs (off + 2 + ?n + 9) = Ok (cs_scale col)"
    using oc by (simp_all add: column_bytes_def eval_nat_numeral)
  have g: "from_utf8 (cs_name col) = Some (cs_name col)"
    using Cons.prems(2) by (simp add: from_utf8_def)
  have up: "zip [i..<i + length (col # cols)] (col # cols) =
      (i, col) # zip [i + 1..<i + 1 + length cols] cols"
    by (subst upt_rec) simp
  show ?case
    unfolding up using len f ih nm un r16 g
    by (simp add: Let_def index_def column_of_spec_def del: upt_Suc)
qed (auto dest: occurs_at_le)

lemma parse_schema_build:
  assumes "build_schema_bytes cols = Ok sb" "\<forall>col \<in> set cols. utf8_valid (cs_name col)"
  shows "parse_schema sb (length cols) =
     Ok (map (\<lambda>(j, col). column_of_spec j col) (zip [0..<length cols] cols))"
  using parse_columns_build [OF assms occurs_at_here, of 0] by (simp add: parse_schema_def)

section \<open>Chunk index\<close>

definition entry_of_page :: "column_page \<Rightarrow> index_entry" where
  "entry_of_page p =
     \<lparr> e_data_off = p_data_off p, e_data_comp_len = of_nat (length (p_data_comp p)),
       e_data_raw_len = p_data_raw_len p, e_null_off = p_null_off p,
       e_null_comp_len = of_nat (comp_len (p_null_comp p)), e_null_raw_len = p_null_raw_len p,
       e_empty_mode = p_empty_mode p, e_empty_count = p_empty_count p,
       e_empty_off = p_empty_off p, e_empty_comp_len = of_nat (comp_len (p_empty_comp p)),
       e_empty_raw_len = p_empty_raw_len p, e_min = p_min p, e_max = p_max p,
       e_presence = p_presence p \<rparr>"

lemma u8_u32_u8: "ucast (ucast (b :: u8) :: u32) = b"
  by (rule bit_word_eqI) (simp add: bit_simps)

lemma length_entry_bytes [simp]: "length (entry_bytes p) = 80"
  by (simp add: entry_bytes_def)

lemma length_index_raw: "length (index_raw pages) = length pages * 80"
  by (induction pages) (auto simp: index_raw_def)

lemma parse_entry_build:
  assumes "occurs_at bs off (entry_bytes p)"
  shows "parse_entry bs off = Ok (entry_of_page p)"
proof -
  have "read_u64 bs off = Ok (p_data_off p)"
    "read_u32 bs (off + 8) = Ok (of_nat (length (p_data_comp p)))"
    "read_u32 bs (off + 12) = Ok (p_data_raw_len p)"
    "read_u64 bs (off + 16) = Ok (p_null_off p)"
    "read_u32 bs (off + 24) = Ok (of_nat (comp_len (p_null_comp p)))"
    "read_u32 bs (off + 28) = Ok (p_null_raw_len p)"
    "read_u32 bs (off + 32) = Ok (ucast (p_empty_mode p))"
    "read_u32 bs (off + 36) = Ok (p_empty_count p)"
    "read_u64 bs (off + 40) = Ok (p_empty_off p)"
    "read_u32 bs (off + 48) = Ok (of_nat (comp_len (p_empty_comp p)))"
    "read_u32 bs (off + 52) = Ok (p_empty_raw_len p)"
    "read_f64 bs (off + 56) = Ok (p_min p)"
    "read_f64 bs (off + 64) = Ok (p_max p)"
    "read_u64 bs (off + 72) = Ok (p_presence p)"
    using assms by (simp_all add: entry_bytes_def ac_simps)
  then show ?thesis
    by (simp add: parse_entry_def entry_of_page_def u8_u32_u8 del: bindR_eq_Ok)
qed

lemma parse_entries_build:
  "occurs_at bs off (index_raw pages) \<Longrightarrow>
     parse_entries bs off (length pages) = Ok (map entry_of_page pages)"
proof (induction pages arbitrary: off)
  case (Cons p pages)
  then show ?case by (simp add: index_raw_def parse_entry_build)
qed simp

lemma parse_chunk_index_build:
  "parse_chunk_index (index_raw pages) (length pages) = Ok (map entry_of_page pages)"
  by (simp add: parse_chunk_index_def length_index_raw layout_consts parse_entries_build)

section \<open>Dictionaries\<close>

lemma checked_add32_of_nat:
  "a + b < 2 ^ 32 \<Longrightarrow> checked_add32 (of_nat a) (of_nat b) = Some (of_nat (a + b))"
  by (simp add: checked_add32_def unat_of_nat32 del: of_nat_add) simp

fun ends_from :: "nat \<Rightarrow> bytes list \<Rightarrow> nat list" where
  "ends_from r [] = []"
| "ends_from r (v # vs) = (r + length v) # ends_from (r + length v) vs"

lemma length_ends_from [simp]: "length (ends_from r vs) = length vs"
  by (induction vs arbitrary: r) auto

lemma nth_ends_from:
  "i \<le> length vs \<Longrightarrow> (r # ends_from r vs) ! i = r + length (concat (take i vs))"
proof (induction vs arbitrary: r i)
  case (Cons v vs)
  show ?case using Cons.IH [of "i - 1" "r + length v"] Cons.prems by (cases i) auto
qed simp

lemma slice_concat:
  "i < length vs \<Longrightarrow>
     slice (concat vs) (length (concat (take i vs))) (length (concat (take (Suc i) vs))) = vs ! i"
proof (induction vs arbitrary: i)
  case (Cons v vs)
  then show ?case by (cases i) (auto simp: slice_append_skip slice_def)
qed simp

lemma length_concat_take_le: "length (concat (take i vs)) \<le> length (concat vs)"
  by (metis append_take_drop_id concat_append length_append le_add1)

lemma length_concat_take_mono:
  "length (concat (take i vs)) \<le> length (concat (take (Suc i) vs))"
  using length_concat_take_le [of i "take (Suc i) vs"] by simp

lemma running_offsets_eq:
  "r + length (concat vs) < 2 ^ 32 \<Longrightarrow>
     running_offsets (of_nat r) (map (\<lambda>v. of_nat (length v)) vs) = Ok (map of_nat (ends_from r vs))"
proof (induction vs arbitrary: r)
  case (Cons v vs)
  then show ?case
    using Cons.IH [of "r + length v"]
    by (simp add: checked_add32_of_nat del: of_nat_add)
qed simp

lemma dict_lengths_total:
  "dict_lengths w tot vs = Ok (lens, tot') \<Longrightarrow> tot' = tot + length (concat vs)"
  by (induction vs arbitrary: tot lens) (fastforce split: if_splits)+

lemma read_lengths_build:
  assumes "dict_lengths w tot vs = Ok (lens, tot')" "tot' < 2 ^ 32" "w = 2 \<or> w = 4"
    "occurs_at bs off lens"
  shows "read_lengths bs off w (of_nat tot) (length vs) =
     Ok (map (\<lambda>v. of_nat (length v)) vs, off + length lens, of_nat tot')"
  using assms
proof (induction vs arbitrary: tot lens off)
  case (Cons v vs)
  let ?enc = "if w = 2 then le16 (of_nat (length v)) else le32 (of_nat (length v))"
  from Cons.prems(1) obtain rest where rest: "dict_lengths w (tot + length v) vs = Ok (rest, tot')"
    and lens: "lens = ?enc @ rest" and short: "w = 2 \<Longrightarrow> length v \<le> 65535"
    by (auto split: if_splits)
  have tot: "tot + length v < 2 ^ 32"
    using dict_lengths_total [OF rest] Cons.prems(2) by simp
  have oc: "occurs_at bs off ?enc" "occurs_at bs (off + length ?enc) rest"
    using Cons.prems(4) by (simp_all only: lens occurs_at_append)
  have r: "read_u32_advance bs off w = Ok (of_nat (length v), off + length ?enc)"
  proof (cases "w = 2")
    case True
    then have "ucast (of_nat (length v) :: u16) = (of_nat (length v) :: u32)"
      using short [OF True] by (simp add: word_unat_eq_iff unsigned_ucast_eq unat_of_nat16 unat_of_nat32 take_bit_nat_eq_self)
    with True oc(1) occurs_at_le [OF oc(1)] show ?thesis
      by (simp add: read_u32_advance_def)
  next
    case False
    with Cons.prems(3) oc(1) occurs_at_le [OF oc(1)] show ?thesis
      by (simp add: read_u32_advance_def)
  qed
  have "read_lengths bs (off + length ?enc) w (of_nat (tot + length v)) (length vs) =
     Ok (map (\<lambda>v. of_nat (length v)) vs, off + length ?enc + length rest, of_nat tot')"
    using Cons.IH [OF rest Cons.prems(2,3) oc(2)] .
  then show ?case
    using r tot by (simp add: checked_add32_of_nat lens split_beta add.assoc del: of_nat_add)
qed auto

text \<open>The dictionary that the decoder holds for a list of values.\<close>

definition dictionary_of :: "bytes list \<Rightarrow> dictionary" where
  "dictionary_of vals =
     \<lparr> d_offsets = 0 # map of_nat (ends_from 0 vals), d_blob = concat vals,
       d_values = [], d_lookup = [], d_hash_cache = [] \<rparr>"

lemma dictionary_len_of [simp]: "dictionary_len (dictionary_of vals) = length vals"
  by (simp add: dictionary_len_def dictionary_of_def)

lemma offset_dictionary_of:
  assumes "length (concat vals) < 2 ^ 32" "i \<le> length vals"
  shows "unat (d_offsets (dictionary_of vals) ! i) = length (concat (take i vals))"
proof -
  have "d_offsets (dictionary_of vals) ! i = of_nat ((0 # ends_from 0 vals) ! i)"
    using assms(2) by (cases i) (auto simp: dictionary_of_def)
  with assms(1) length_concat_take_le [of i vals] show ?thesis
    by (simp add: nth_ends_from [OF assms(2)] unat_of_nat32)
qed

lemma dict_value_dictionary_of:
  assumes "length (concat vals) < 2 ^ 32"
  shows "dict_value_bytes (dictionary_of vals) i = get vals i"
proof (cases "i < length vals")
  case True
  let ?d = "dictionary_of vals"
  have b: "d_blob ?d = concat vals" "d_offsets ?d \<noteq> []" "length (d_offsets ?d) = Suc (length vals)"
    by (simp_all add: dictionary_of_def)
  have "unat (d_offsets ?d ! i) = length (concat (take i vals))"
    "unat (d_offsets ?d ! Suc i) = length (concat (take (Suc i) vals))"
    using assms True by (auto simp: offset_dictionary_of)
  moreover have "slice_get (concat vals) (length (concat (take i vals)))
      (length (concat (take (Suc i) vals))) = Some (vals ! i)"
    using slice_concat [OF True] length_concat_take_le [of "Suc i" vals]
      length_concat_take_mono [of i vals]
    by (simp add: slice_get_def)
  ultimately show ?thesis
    using True b by (simp add: dict_value_bytes_def get_def)
next
  case False
  then show ?thesis
    by (cases "i = length vals") (auto simp: dict_value_bytes_def get_def dictionary_of_def)
qed

lemma dict_block_shape:
  assumes "dict_block col = Ok blk"
  shows "\<exists>lens. dict_lengths (dict_len_width (cs_dict_values col)) 0 (cs_dict_values col)
                 = Ok (lens, length (concat (cs_dict_values col)))
     \<and> length (concat (cs_dict_values col)) < 2 ^ 32
     \<and> blk = le32 (cs_dict_id col) @ le32 (of_nat (length (cs_dict_values col))) @
          [dict_len_width (cs_dict_values col), 0] @ le16 0 @ lens @ concat (cs_dict_values col)"
proof -
  let ?vs = "cs_dict_values col"
  obtain lens tot where l: "dict_lengths (dict_len_width ?vs) 0 ?vs = Ok (lens, tot)"
    using assms by (cases "dict_lengths (dict_len_width ?vs) 0 ?vs") (auto simp: dict_block_def Let_def)
  then have "tot = length (concat ?vs)" using dict_lengths_total by fastforce
  with l assms show ?thesis by (auto simp: dict_block_def Let_def split: if_splits)
qed

definition add_dict :: "(u32 \<rightharpoonup> dictionary) \<Rightarrow> column_spec \<Rightarrow> (u32 \<rightharpoonup> dictionary)" where
  "add_dict m col = m(cs_dict_id col \<mapsto> dictionary_of (cs_dict_values col))"

lemma parse_dict_step:
  assumes blk: "dict_block col = Ok blk" and oc: "occurs_at bs off blk"
    and cnt: "length (cs_dict_values col) < 2 ^ 32"
  shows "parse_dict_loop bs off (Suc n) m =
     parse_dict_loop bs (off + length blk) n (add_dict m col)"
proof -
  let ?vs = "cs_dict_values col" and ?w = "dict_len_width (cs_dict_values col)"
  obtain lens where l: "dict_lengths ?w 0 ?vs = Ok (lens, length (concat ?vs))"
    and small: "length (concat ?vs) < 2 ^ 32"
    and b: "blk = le32 (cs_dict_id col) @ le32 (of_nat (length ?vs)) @ [?w, 0] @ le16 0 @ lens @
      concat ?vs"
    using dict_block_shape [OF blk] by blast
  have w: "?w = 2 \<or> ?w = 4" by (simp add: dict_len_width_def)
  have o: "read_u32 bs off = Ok (cs_dict_id col)" "read_u32 bs (off + 4) = Ok (of_nat (length ?vs))"
    "index bs (off + 8) = Ok ?w" "occurs_at bs (off + 12) lens"
    "occurs_at bs (off + 12 + length lens) (concat ?vs)"
    using oc by (simp_all add: b ac_simps index_def eval_nat_numeral)
  have len: "off + 12 + length lens + length (concat ?vs) \<le> length bs"
    using occurs_at_le [OF o(5)] by simp
  have rl: "read_lengths bs (off + 12) ?w 0 (length ?vs) =
     Ok (map (\<lambda>v. of_nat (length v)) ?vs, off + 12 + length lens, of_nat (length (concat ?vs)))"
    using read_lengths_build [OF l small w o(4)] by simp
  have ro: "running_offsets 0 (map (\<lambda>v. of_nat (length v)) ?vs) = Ok (map of_nat (ends_from 0 ?vs))"
    using running_offsets_eq [of 0 ?vs] small by simp
  have sl: "slice bs (off + 12 + length lens) (off + 12 + length lens + length (concat ?vs))
      = concat ?vs"
    using o(5) by (simp only: occurs_at_slice)
  have un: "unat (of_nat (length ?vs) :: u32) = length ?vs"
    "unat (of_nat (length (concat ?vs)) :: u32) = length (concat ?vs)"
    using cnt small by (simp_all add: unat_of_nat32)
  have lb: "length blk = 12 + length lens + length (concat ?vs)"
    by (simp add: b)
  have nw: "\<not> (?w \<noteq> 2 \<and> ?w \<noteq> 4)" using w by auto
  have nl: "\<not> length bs < off + 12" "\<not> length bs < off + 12 + length lens + length (concat ?vs)"
    using len by auto
  show ?thesis
    by (simp only: parse_dict_loop.simps nl if_False o(1-3) bindR_simps nw un rl prod.case ro sl)
       (simp add: dictionary_of_def add_dict_def lb add.assoc)
qed

lemma parse_dict_loop_build:
  assumes "mapR dict_block cols = Ok blks" "occurs_at bs off (concat blks)"
    "\<forall>col \<in> set cols. length (cs_dict_values col) < 2 ^ 32"
  shows "parse_dict_loop bs off (length cols) m =
     Ok (foldl add_dict m cols)"
  using assms
proof (induction cols arbitrary: blks off m)
  case (Cons col cols)
  then obtain blk rest where b: "dict_block col = Ok blk" "mapR dict_block cols = Ok rest"
    "blks = blk # rest" by auto
  with Cons.prems have "occurs_at bs off blk" "occurs_at bs (off + length blk) (concat rest)"
    by simp_all
  with Cons.IH [OF b(2)] Cons.prems(3) parse_dict_step [OF b(1)] show ?case
    by (simp del: parse_dict_loop.simps)
qed simp

lemma add_dict_same [simp]:
  "add_dict m col (cs_dict_id col) = Some (dictionary_of (cs_dict_values col))"
  by (simp add: add_dict_def)

lemma add_dict_other:
  "k \<notin> cs_dict_id ` set cols \<Longrightarrow> foldl add_dict m cols k = m k"
  by (induction cols arbitrary: m) (auto simp: add_dict_def)

lemma add_dict_lookup:
  "distinct (map cs_dict_id cols) \<Longrightarrow> col \<in> set cols \<Longrightarrow>
     foldl add_dict m cols (cs_dict_id col) = Some (dictionary_of (cs_dict_values col))"
proof (induction cols arbitrary: m)
  case (Cons c cols)
  then show ?case
    by (cases "col \<in> set cols") (auto simp: add_dict_other)
qed simp

lemma parse_dicts_build:
  assumes bs: "build_dict_bytes cols = Ok bs"
    and ids: "distinct (map cs_dict_id (filter is_dict_col cols))"
    and n: "length (filter is_dict_col cols) < 2 ^ 32"
    and cnt: "\<forall>col \<in> set cols. length (cs_dict_values col) < 2 ^ 32"
  shows "\<exists>m. parse_dicts bs = Ok m \<and> (\<forall>col \<in> set cols. is_dict_col col \<longrightarrow>
     m (cs_dict_id col) = Some (dictionary_of (cs_dict_values col)) \<and>
     length (concat (cs_dict_values col)) < 2 ^ 32)"
proof (cases "filter is_dict_col cols = []")
  case True
  with bs show ?thesis by (auto simp: build_dict_bytes_def parse_dicts_def filter_empty_conv)
next
  case False
  let ?dc = "filter is_dict_col cols"
  let ?f = "foldl add_dict Map.empty ?dc"
  from False bs obtain blks where blks: "mapR dict_block ?dc = Ok blks"
    and b: "bs = le32 (of_nat (length ?dc)) @ concat blks"
    by (auto simp: build_dict_bytes_def Let_def)
  have oc: "occurs_at bs 0 (le32 (of_nat (length ?dc)))" "occurs_at bs 4 (concat blks)"
    using occurs_at_here [of bs] by (simp_all only: b occurs_at_append codec_length add_0)
  have "parse_dict_loop bs 4 (length ?dc) Map.empty = Ok ?f"
    using parse_dict_loop_build [OF blks oc(2)] cnt by simp
  moreover have "bs \<noteq> []" "\<not> length bs < 4" using b by (auto dest: arg_cong [where f = length])
  ultimately have "parse_dicts bs = Ok ?f"
    using read_at(2) [OF oc(1)] n by (simp add: parse_dicts_def unat_of_nat32)
  moreover have "length (concat (cs_dict_values col)) < 2 ^ 32" if "col \<in> set ?dc" for col
  proof -
    from that blks obtain blk where "dict_block col = Ok blk"
      by (metis in_set_conv_nth mapR_nth)
    then show ?thesis using dict_block_shape by blast
  qed
  moreover have "?f (cs_dict_id col) = Some (dictionary_of (cs_dict_values col))"
    if "col \<in> set ?dc" for col
    using add_dict_lookup [OF ids that] .
  ultimately show ?thesis by auto
qed

end
