(* ===== verification/Wcol_File.thy ===== *)
theory Wcol_File
  imports Wcol_Roundtrip
begin

text \<open>
  A whole file: the offsets that the writer computes before it writes (the header, the table
  of contents and the index entries) are the positions at which the bytes really are.
\<close>

section \<open>Placed pages\<close>

definition opt_placed :: "bytes \<Rightarrow> u64 \<Rightarrow> bytes option \<Rightarrow> bool" where
  "opt_placed file off c =
     (case c of Some v \<Rightarrow> occurs_at file (unat off) v | None \<Rightarrow> off = NULL_SENTINEL_U64)"

text \<open>\<open>q\<close> is the page \<open>p\<close> with offsets at which \<open>file\<close> holds its parts.\<close>

definition placed_in :: "bytes \<Rightarrow> column_page \<Rightarrow> column_page \<Rightarrow> bool" where
  "placed_in file p q \<longleftrightarrow>
     q = p\<lparr> p_data_off := p_data_off q, p_null_off := p_null_off q, p_empty_off := p_empty_off q \<rparr> \<and>
     occurs_at file (unat (p_data_off q)) (p_data_comp p) \<and>
     opt_placed file (p_null_off q) (p_null_comp p) \<and>
     opt_placed file (p_empty_off q) (p_empty_comp p)"

lemma unat_add_small:
  "unat (c :: u64) + n < 2 ^ 64 \<Longrightarrow> unat (c + of_nat n) = unat c + n"
  by (simp add: unat_word_ariths unat_of_nat take_bit_nat_eq_self mod_less)

lemma place_page_ok:
  assumes "place_page cur p = (cur', q)" "unat cur + length (page_bytes p) < 2 ^ 64"
    "occurs_at file (unat cur) (page_bytes p)"
  shows "unat cur' = unat cur + length (page_bytes p) \<and> placed_in file p q"
proof -
  let ?c1 = "cur + of_nat (length (p_data_comp p))"
  have c1: "unat ?c1 = unat cur + length (p_data_comp p)"
    using assms(2) by (intro unat_add_small) (simp add: page_bytes_def split: option.splits)
  have c2: "unat (?c1 + of_nat (length c)) = unat cur + length (p_data_comp p) + length c"
    if "p_null_comp p = Some c \<or> p_null_comp p = None \<and> p_empty_comp p = Some c" for c
    using that assms(2) c1 by (subst unat_add_small) (auto simp: page_bytes_def)
  have c3: "unat (?c1 + of_nat (length c) + of_nat (length d)) =
      unat cur + length (p_data_comp p) + length c + length d"
    if "p_null_comp p = Some c" "p_empty_comp p = Some d" for c d
    using that assms(2) c2 [of c] by (subst unat_add_small) (auto simp: page_bytes_def)
  show ?thesis
    using assms c1 c2 c3
    by (cases "p_null_comp p"; cases "p_empty_comp p")
       (auto simp: place_page_def placed_in_def opt_placed_def page_bytes_def Let_def ac_simps)
qed

lemma place_pages_ok:
  assumes "place_pages cur ps = (cur', qs)"
    "unat cur + length (concat (map page_bytes ps)) < 2 ^ 64"
    "occurs_at file (unat cur) (concat (map page_bytes ps))"
  shows "unat cur' = unat cur + length (concat (map page_bytes ps)) \<and>
     list_all2 (placed_in file) ps qs"
  using assms
proof (induction ps arbitrary: cur cur' qs)
  case (Cons p ps)
  obtain c1 q where 1: "place_page cur p = (c1, q)" by fastforce
  obtain c2 qs' where 2: "place_pages c1 ps = (c2, qs')" by fastforce
  have s: "unat c1 = unat cur + length (page_bytes p) \<and> placed_in file p q"
    by (rule place_page_ok [OF 1]) (use Cons.prems(2,3) in simp_all)
  have "unat c2 = unat c1 + length (concat (map page_bytes ps)) \<and> list_all2 (placed_in file) ps qs'"
    by (rule Cons.IH [OF 2]) (use Cons.prems(2,3) s in \<open>simp_all add: ac_simps\<close>)
  with s Cons.prems(1) 1 2 show ?case by auto
qed simp

lemma place_chunks_ok:
  assumes "place_chunks cur cs = (cur', ds)"
    "unat cur + length (concat (map page_bytes (concat cs))) < 2 ^ 64"
    "occurs_at file (unat cur) (concat (map page_bytes (concat cs)))"
  shows "list_all2 (list_all2 (placed_in file)) cs ds"
  using assms
proof (induction cs arbitrary: cur cur' ds)
  case (Cons c cs)
  obtain c1 q where 1: "place_pages cur c = (c1, q)" by fastforce
  obtain c2 qs' where 2: "place_chunks c1 cs = (c2, qs')" by fastforce
  have s: "unat c1 = unat cur + length (concat (map page_bytes c)) \<and> list_all2 (placed_in file) c q"
    by (rule place_pages_ok [OF 1]) (use Cons.prems(2,3) in simp_all)
  have "list_all2 (list_all2 (placed_in file)) cs qs'"
    by (rule Cons.IH [OF 2]) (use Cons.prems(2,3) s in \<open>simp_all add: ac_simps\<close>)
  with s Cons.prems(1) 1 2 show ?case by auto
qed simp

lemma place_page_bytes: "page_bytes (snd (place_page cur p)) = page_bytes p"
  by (auto simp: place_page_def page_bytes_def Let_def split: option.splits)

lemma place_pages_bytes: "map page_bytes (snd (place_pages cur ps)) = map page_bytes ps"
  using place_page_bytes
  by (induction ps arbitrary: cur) (auto simp: split_beta)

lemma place_chunks_bytes:
  "map page_bytes (concat (snd (place_chunks cur cs))) = map page_bytes (concat cs)"
  using place_pages_bytes
  by (induction cs arbitrary: cur) (auto simp: split_beta)

lemma length_place_chunks: "length (snd (place_chunks cur cs)) = length cs"
  by (induction cs arbitrary: cur) (auto simp: split_beta)

section \<open>The table of contents\<close>

lemma toc_offsets_ok:
  assumes "toc_offsets off bs = Ok toc" "occurs_at file (unat off) (concat bs)"
  shows "length toc = length bs \<and> (\<forall>i < length bs. occurs_at file (unat (toc ! i)) (bs ! i)) \<and>
     (unat off + length (concat bs) < 2 ^ 64)"
  using assms
proof (induction bs arbitrary: off toc)
  case Nil
  then show ?case using unsigned_less [of off] by simp
next
  case (Cons b bs)
  then obtain rest where small: "unat off + length b < 2 ^ 64"
    and rest: "toc_offsets (off + of_nat (length b)) bs = Ok rest" and toc: "toc = off # rest"
    by (auto split: if_splits)
  have u: "unat (off + of_nat (length b)) = unat off + length b"
    using small by (rule unat_add_small)
  have "occurs_at file (unat (off + of_nat (length b))) (concat bs)"
    using Cons.prems(2) by (simp add: u)
  from Cons.IH [OF rest this] Cons.prems(2) show ?case
    by (auto simp: toc u nth_Cons split: nat.splits)
qed

lemma toc_offsets_span:
  assumes "toc_offsets off bs = Ok toc" "i < length bs"
  shows "unat (toc ! i) + length (bs ! i) =
     (if Suc i < length bs then unat (toc ! Suc i) else unat off + length (concat bs))"
  using assms
proof (induction bs arbitrary: off toc i)
  case (Cons b bs)
  then obtain rest where small: "unat off + length b < 2 ^ 64"
    and rest: "toc_offsets (off + of_nat (length b)) bs = Ok rest" and toc: "toc = off # rest"
    by (auto split: if_splits)
  have u: "unat (off + of_nat (length b)) = unat off + length b"
    using small by (rule unat_add_small)
  have head: "bs \<noteq> [] \<Longrightarrow> rest ! 0 = off + of_nat (length b)"
    using rest by (cases bs) (auto split: if_splits)
  show ?case
  proof (cases i)
    case 0
    then show ?thesis using toc u head by (cases bs) auto
  next
    case (Suc j)
    then show ?thesis using Cons.IH [OF rest, of j] Cons.prems(2) toc u by auto
  qed
qed simp

section \<open>The file\<close>

text \<open>
  What a reader of the file can rely on: \<open>h\<close> is its header, \<open>toc\<close> its table of contents
  and \<open>placed\<close> the pages with their offsets.
\<close>

definition file_layout ::
  "(bytes \<Rightarrow> bytes) \<Rightarrow> column_spec list \<Rightarrow> chunk_pages list \<Rightarrow> bytes \<Rightarrow>
     header \<Rightarrow> u64 list \<Rightarrow> chunk_pages list \<Rightarrow> bool" where
  "file_layout compress cols chunks file h toc placed \<longleftrightarrow>
     h_version h = WCOL_VERSION \<and> h_rows_per_chunk h = of_nat ROWS_PER_CHUNK \<and>
     h_ncols h = of_nat (length cols) \<and> h_nchunks h = of_nat (length chunks) \<and>
     (\<exists>schema. build_schema_bytes cols = Ok schema \<and>
        occurs_at file (unat (h_schema_off h)) schema \<and> unat (h_schema_len h) = length schema) \<and>
     (\<exists>raw. build_dict_bytes cols = Ok raw \<and>
        occurs_at file (unat (h_dict_off h)) (fst (dict_payload compress raw)) \<and>
        unat (h_dict_len h) = length (fst (dict_payload compress raw)) \<and>
        unat (h_dict_raw_len h) = length raw mod 2 ^ 64 \<and>
        h_flags h = snd (dict_payload compress raw)) \<and>
     length toc = length chunks \<and>
     occurs_at file (unat (h_index_off h)) (build_toc toc) \<and>
     (\<forall>i < length chunks. occurs_at file (unat (toc ! i)) (compress (index_raw (placed ! i))) \<and>
        unat (toc ! i) + length (compress (index_raw (placed ! i))) =
          (if Suc i < length chunks then unat (toc ! Suc i)
           else unat (h_index_off h + h_index_len h))) \<and>
     list_all2 (list_all2 (placed_in file)) chunks placed"

lemma length_toc_offsets: "toc_offsets off bs = Ok toc \<Longrightarrow> length toc = length bs"
  by (induction bs arbitrary: off toc) (fastforce split: if_splits)+

lemma length_build_toc [simp]: "length (build_toc toc) = length toc * 8"
  by (induction toc) (auto simp: build_toc_def)

lemma sum_of_nat: "sum_list (map (\<lambda>b. of_nat (length b)) bs) = (of_nat (length (concat bs)) :: u64)"
  by (induction bs) auto

lemma write_wcol_layout:
  assumes w: "write_wcol compress cols chunks total_rows = Ok file" and small: "length file < 2 ^ 64"
  shows "\<exists>h toc placed. parse_header file = Ok h \<and> h_total_rows h = total_rows \<and>
     file_layout compress cols chunks file h toc placed"
proof -
  obtain schema raw where sb: "build_schema_bytes cols = Ok schema"
    and db: "build_dict_bytes cols = Ok raw"
    using w by (auto simp: write_wcol_def)
  define dict where "dict = fst (dict_payload compress raw)"
  define flags where "flags = snd (dict_payload compress raw)"
  define index_off :: u64 where "index_off = 96 + of_nat (length schema)"
  define data_off :: u64 where "data_off = of_nat (HEADER_BYTES + length schema + length dict +
     (length chunks * 8 + length cols * INDEX_ENTRY_BYTES * length chunks))"
  define placed where "placed = snd (place_chunks data_off chunks)"
  define blocks where "blocks = map (\<lambda>c. compress (index_raw c)) placed"
  have np: "length placed = length chunks" by (simp add: placed_def length_place_chunks)
  have dp: "dict_payload compress raw = (dict, flags)" by (simp add: dict_def flags_def)
  let ?tl = "of_nat (length chunks) * 8 :: u64"
  define index_len where "index_len = ?tl + of_nat (length (concat blocks))"
  define dict_end where "dict_end = index_off + index_len + of_nat (length dict)"
  define header where "header = build_header (of_nat (length cols)) (of_nat (length chunks)) 96
     (of_nat (length schema)) index_off index_len (index_off + index_len) (of_nat (length dict))
     data_off total_rows flags (of_nat (length raw))"
  have bi: "compute_index_layout compress cols chunks (length schema) (length dict) index_off =
     bindR (toc_offsets (index_off + ?tl) blocks) (\<lambda>toc. Ok (\<lparr> l_data_off = data_off, l_toc = toc,
       l_index_blocks = blocks, l_index_len = index_len \<rparr>, placed))"
    by (simp add: compute_index_layout_def build_index_blocks_def Let_def data_off_def placed_def
        blocks_def index_len_def sum_of_nat length_place_chunks)
  obtain toc where toc: "toc_offsets (index_off + ?tl) blocks = Ok toc"
    and under: "\<not> data_off < dict_end"
    and fileq: "file = header @ schema @ build_toc toc @ concat blocks @ dict @
       replicate (unat (data_off - dict_end)) 0 @ concat (map page_bytes (concat placed))"
    using w bi by (auto simp: write_wcol_def sb db dp Let_def index_off_def layout_consts np
        header_def dict_end_def add.assoc split: if_splits)
  have hl: "length header = 96"
    by (simp add: header_def length_build_header layout_consts)
  have lb: "length blocks = length chunks" by (simp add: blocks_def np)
  have lt: "length toc = length chunks" using length_toc_offsets [OF toc] lb by simp
  let ?pad = "unat (data_off - dict_end)" and ?pages = "concat (map page_bytes (concat placed))"
  have len: "length file = 96 + length schema + length chunks * 8 + length (concat blocks) +
      length dict + ?pad + length ?pages"
    by (simp add: fileq hl lt)
  have io: "unat index_off = 96 + length schema"
    unfolding index_off_def using len small by (subst unat_add_small) simp_all
  have tl: "?tl = of_nat (length chunks * 8)" by simp
  have iot: "unat (index_off + ?tl) = 96 + length schema + length chunks * 8"
    unfolding tl using len small by (subst unat_add_small) (simp_all add: io)
  have ilq: "index_len = of_nat (length chunks * 8 + length (concat blocks))"
    by (simp add: index_len_def)
  have dof: "unat (index_off + index_len) =
      96 + length schema + length chunks * 8 + length (concat blocks)"
    unfolding ilq using len small by (subst unat_add_small) (simp_all add: io)
  have de: "unat dict_end = unat (index_off + index_len) + length dict"
    unfolding dict_end_def using len small by (subst unat_add_small) (simp_all add: dof)
  have pad: "?pad = unat data_off - unat dict_end"
    using under by (simp add: unat_sub_if_size word_le_nat_alt not_less)
  have le: "unat dict_end \<le> unat data_off"
    using under by (simp add: word_le_nat_alt not_less)
  have pages: "?pages = concat (map page_bytes (concat chunks))"
    by (simp add: placed_def place_chunks_bytes del: map_concat)
  have oc: "occurs_at file 0 header" "occurs_at file 96 schema"
    "occurs_at file (unat index_off) (build_toc toc)"
    "occurs_at file (unat (index_off + ?tl)) (concat blocks)"
    "occurs_at file (unat (index_off + index_len)) dict"
    using occurs_at_here [of "file"] unfolding fileq io iot dof
    by (simp_all add: hl lt add.assoc)
  have opages: "occurs_at file (unat data_off) ?pages"
  proof -
    have "occurs_at file (96 + length schema + length chunks * 8 + length (concat blocks) +
        length dict + ?pad) ?pages"
      using occurs_at_here [of "file"] unfolding fileq by (simp add: hl lt add.assoc)
    then show ?thesis using pad le by (simp add: de dof)
  qed
  have pl: "list_all2 (list_all2 (placed_in file)) chunks placed"
  proof (rule place_chunks_ok)
    show "place_chunks data_off chunks = (fst (place_chunks data_off chunks), placed)"
      by (simp add: placed_def)
    show "unat data_off + length (concat (map page_bytes (concat chunks))) < 2 ^ 64"
      using len small pad le by (simp add: de dof pages)
    show "occurs_at file (unat data_off) (concat (map page_bytes (concat chunks)))"
      using opages by (simp only: pages)
  qed
  have blk: "\<forall>i < length chunks. occurs_at file (unat (toc ! i)) (compress (index_raw (placed ! i)))"
    using toc_offsets_ok [OF toc oc(4)] by (simp add: lb) (simp add: blocks_def np)
  have spans: "\<forall>i < length chunks. unat (toc ! i) + length (compress (index_raw (placed ! i))) =
      (if Suc i < length chunks then unat (toc ! Suc i) else unat (index_off + index_len))"
    using toc_offsets_span [OF toc, unfolded iot] unfolding dof by (simp add: lb) (simp add: blocks_def np)
  define h where "h = \<lparr> h_version = WCOL_VERSION, h_flags = flags,
      h_ncols = of_nat (length cols), h_nchunks = of_nat (length chunks),
      h_rows_per_chunk = of_nat ROWS_PER_CHUNK, h_total_rows = total_rows, h_schema_off = 96,
      h_schema_len = of_nat (length schema), h_index_off = index_off, h_index_len = index_len,
      h_dict_off = index_off + index_len, h_dict_len = of_nat (length dict),
      h_data_off = data_off, h_dict_raw_len = of_nat (length raw) \<rparr>"
  have ph: "parse_header file = Ok h"
    using oc(1) unfolding h_def by (intro parse_header_occurs) (simp add: header_def)
  have ul: "unat (of_nat (length schema) :: u64) = length schema"
    "unat (of_nat (length dict) :: u64) = length dict"
    using len small by (simp_all add: unat_of_nat64)
  have rl: "unat (of_nat (length raw) :: u64) = length raw mod 2 ^ 64"
    by (simp add: unat_of_nat take_bit_eq_mod)
  have "file_layout compress cols chunks file h toc placed"
    unfolding file_layout_def
    using oc(2,3,5) blk spans pl ul(1,2) rl lt by (simp add: sb db dp h_def)
  with ph show ?thesis by (auto simp: h_def)
qed

end
