(* ===== verification/Wcol_Runtime.thy ===== *)
theory Wcol_Runtime
  imports Wcol_File
begin

text \<open>
  The runtimes of the decoder: the handle table and the calls of
  \<^verbatim>\<open>wcol-decoder/src/ffi/runtime.rs\<close> that fill it, and the way the native runtime opens a
  file with them (\<^verbatim>\<open>native/helpers.rs\<close>, \<^verbatim>\<open>init_runtime\<close> and \<^verbatim>\<open>open\<close> of
  \<^verbatim>\<open>native/runtime.rs\<close>). A call takes the table and returns its status code with the table;
  a call that fills a caller's buffer of \<open>out_len\<close> bytes returns its code and the bytes written.
  A file is the list of its bytes; LZ4 is the parameter \<open>decompress\<close>. The locks around the
  table are not modelled, each call is atomic.
\<close>

section \<open>The handle table\<close>

record runtime =
  r_header :: "header option"
  r_schema :: "column list"
  r_toc :: "u64 list"
  r_dicts :: "u32 \<rightharpoonup> dictionary"
  r_index_cache :: "u32 \<rightharpoonup> index_entry list"

type_synonym runtimes = "u32 \<rightharpoonup> runtime"

definition next_handle :: "u32 \<Rightarrow> u32 \<times> u32" where
  "next_handle counter = (counter, counter + 1)"

definition runtime_new :: runtime where
  "runtime_new = \<lparr> r_header = None, r_schema = [], r_toc = [], r_dicts = Map.empty,
     r_index_cache = Map.empty \<rparr>"

definition create_runtime :: "u32 \<Rightarrow> runtimes \<Rightarrow> u32 \<times> u32 \<times> runtimes" where
  "create_runtime counter rts =
     (let (handle, counter) = next_handle counter
      in (handle, counter, rts(handle \<mapsto> runtime_new)))"

definition destroy_runtime :: "runtimes \<Rightarrow> u32 \<Rightarrow> runtimes" where
  "destroy_runtime rts handle = rts(handle := None)"

text \<open>\<^verbatim>\<open>match r { Ok(x) => f(x), Err(_) => d }\<close>; a panic is not caught.\<close>

definition match_result :: "'a result \<Rightarrow> ('a \<Rightarrow> 'b) \<Rightarrow> 'b \<Rightarrow> 'b result" where
  "match_result r f d =
     (case r of Inr x \<Rightarrow> Ok (f x) | Inl e \<Rightarrow> if e = Panic then Err Panic else Ok d)"

text \<open>Store through \<^verbatim>\<open>get_mut(&handle)\<close>.\<close>

definition update_runtime :: "runtimes \<Rightarrow> u32 \<Rightarrow> (runtime \<Rightarrow> runtime) \<Rightarrow> int \<times> runtimes" where
  "update_runtime rts handle f =
     (case rts handle of Some r \<Rightarrow> (0, rts(handle \<mapsto> f r)) | None \<Rightarrow> (- 1, rts))"

definition runtime_set_header :: "runtimes \<Rightarrow> u32 \<Rightarrow> bytes \<Rightarrow> (int \<times> runtimes) result" where
  "runtime_set_header rts handle bs =
     match_result (parse_header bs)
       (\<lambda>header.
          if h_version header \<noteq> WCOL_VERSION then (- 2, rts)
          else if unat (h_rows_per_chunk header) \<noteq> ROWS_PER_CHUNK then (- 2, rts)
          else update_runtime rts handle
            (\<lambda>r. r\<lparr> r_header := Some header, r_index_cache := Map.empty \<rparr>))
       (- 3, rts)"

definition header_of :: "runtimes \<Rightarrow> u32 \<Rightarrow> header option" where
  "header_of rts handle = Option.bind (rts handle) r_header"

definition HEADER_INFO_BYTES :: nat where "HEADER_INFO_BYTES = 92"

definition header_info_bytes :: "header \<Rightarrow> bytes" where
  "header_info_bytes h =
     le32 (ucast (h_version h)) @ le32 (ucast (h_flags h)) @ le32 (h_ncols h) @
     le32 (h_nchunks h) @ le32 (h_rows_per_chunk h) @ le64 (h_total_rows h) @
     le64 (h_schema_off h) @ le64 (h_schema_len h) @ le64 (h_index_off h) @
     le64 (h_index_len h) @ le64 (h_dict_off h) @ le64 (h_dict_len h) @ le64 (h_data_off h) @
     le64 (h_dict_raw_len h)"

definition runtime_header_info :: "runtimes \<Rightarrow> u32 \<Rightarrow> nat \<Rightarrow> int \<times> bytes" where
  "runtime_header_info rts handle out_len =
     (case header_of rts handle of
        None \<Rightarrow> (- 1, [])
      | Some h \<Rightarrow>
          if out_len < HEADER_INFO_BYTES then (- int HEADER_INFO_BYTES, [])
          else (int HEADER_INFO_BYTES, header_info_bytes h))"

definition runtime_set_schema :: "runtimes \<Rightarrow> u32 \<Rightarrow> bytes \<Rightarrow> (int \<times> runtimes) result" where
  "runtime_set_schema rts handle bs =
     (case header_of rts handle of
        None \<Rightarrow> Ok (- 1, rts)
      | Some header \<Rightarrow>
          match_result (parse_schema bs (unat (h_ncols header)))
            (\<lambda>schema. update_runtime rts handle
               (\<lambda>r. r\<lparr> r_schema := schema, r_index_cache := Map.empty \<rparr>))
            (- 2, rts))"

definition runtime_set_toc :: "runtimes \<Rightarrow> u32 \<Rightarrow> bytes \<Rightarrow> (int \<times> runtimes) result" where
  "runtime_set_toc rts handle bs =
     (case header_of rts handle of
        None \<Rightarrow> Ok (- 1, rts)
      | Some header \<Rightarrow>
          let count = unat (h_nchunks header) in
          if length bs < count * 8 then Ok (- 2, rts)
          else bindR (mapR (\<lambda>i. read_u64 bs (i * 8)) [0..<count]) (\<lambda>toc.
            Ok (update_runtime rts handle (\<lambda>r. r\<lparr> r_toc := toc, r_index_cache := Map.empty \<rparr>))))"

definition runtime_set_dicts :: "runtimes \<Rightarrow> u32 \<Rightarrow> bytes \<Rightarrow> (int \<times> runtimes) result" where
  "runtime_set_dicts rts handle bs =
     match_result (parse_dicts bs)
       (\<lambda>dicts. update_runtime rts handle (\<lambda>r. r\<lparr> r_dicts := dicts \<rparr>))
       (- 2, rts)"

text \<open>The bytes of a span are its offset and its length; \<^verbatim>\<open>next.saturating_sub(offset)\<close>.\<close>

definition SPAN_BYTES :: nat where "SPAN_BYTES = 12"

definition runtime_chunk_index_span :: "runtimes \<Rightarrow> u32 \<Rightarrow> u32 \<Rightarrow> nat \<Rightarrow> int \<times> bytes" where
  "runtime_chunk_index_span rts handle chunk_id out_len =
     (case rts handle of
        None \<Rightarrow> (- 1, [])
      | Some r \<Rightarrow>
          if r_toc r = [] then (- 2, [])
          else let idx = unat chunk_id in
            if length (r_toc r) \<le> idx then (- 3, [])
            else case r_header r of
                None \<Rightarrow> (- 4, [])
              | Some header \<Rightarrow>
                  let offset = r_toc r ! idx;
                      next = (if idx + 1 < length (r_toc r) then r_toc r ! (idx + 1)
                              else h_index_off header + h_index_len header);
                      comp_len = unat next - unat offset
                  in if 2 ^ 32 \<le> comp_len then (- 5, [])
                     else if out_len < SPAN_BYTES then (- int SPAN_BYTES, [])
                     else (int SPAN_BYTES, le64 offset @ le32 (of_nat comp_len)))"

definition runtime_column_id_by_name :: "runtimes \<Rightarrow> u32 \<Rightarrow> bytes \<Rightarrow> int" where
  "runtime_column_id_by_name rts handle name_bytes =
     (case from_utf8 name_bytes of
        None \<Rightarrow> - 2
      | Some name \<Rightarrow>
          (case rts handle of
             None \<Rightarrow> - 1
           | Some r \<Rightarrow>
               (case find (\<lambda>col. c_name col = name) (r_schema r) of
                  Some col \<Rightarrow> sint (c_id col)
                | None \<Rightarrow> - 3)))"

definition runtime_column_info :: "runtimes \<Rightarrow> u32 \<Rightarrow> u32 \<Rightarrow> nat \<Rightarrow> int \<times> bytes" where
  "runtime_column_info rts handle col_id out_len =
     (case rts handle of
        None \<Rightarrow> (- 1, [])
      | Some r \<Rightarrow>
          (case get (r_schema r) (unat col_id) of
             None \<Rightarrow> (- 2, [])
           | Some col \<Rightarrow>
               if out_len < 12 then (- 12, [])
               else (12, [c_logical col, c_physical col, c_flags col, c_encoding col] @
                         le32 (c_dict_id col) @ le32 (c_scale col))))"

definition ROW_COUNT_COL_ID :: u32 where "ROW_COUNT_COL_ID = 0xffffffff"

text \<open>The bytes of \<^verbatim>\<open>count_star()\<close>.\<close>

definition count_star_name :: bytes where
  "count_star_name = [99, 111, 117, 110, 116, 95, 115, 116, 97, 114, 40, 41]"

definition runtime_column_name :: "runtimes \<Rightarrow> u32 \<Rightarrow> u32 \<Rightarrow> nat \<Rightarrow> int \<times> bytes" where
  "runtime_column_name rts handle col_id out_len =
     (let give = (\<lambda>name. if out_len < length name then (- int (length name), [])
                         else (int (length name), name)) in
      if col_id = ROW_COUNT_COL_ID then give count_star_name
      else case rts handle of
          None \<Rightarrow> (- 1, [])
        | Some r \<Rightarrow>
            (case get (r_schema r) (unat col_id) of
               None \<Rightarrow> (- 2, [])
             | Some col \<Rightarrow> give (c_name col)))"

definition lz4_decompress :: "(bytes \<Rightarrow> nat \<Rightarrow> bytes option) \<Rightarrow> bytes \<Rightarrow> nat \<Rightarrow> nat \<Rightarrow> int \<times> bytes" where
  "lz4_decompress decompress src raw_len dst_len =
     (if dst_len < raw_len then (- 1, [])
      else if raw_len = 0 then (0, [])
      else case decompress src raw_len of
          None \<Rightarrow> (- 2, [])
        | Some decoded \<Rightarrow> if length decoded \<noteq> raw_len then (- 3, []) else (0, decoded))"

section \<open>Opening a file\<close>

record header_info =
  i_version :: u32
  i_flags :: u32
  i_ncols :: u32
  i_nchunks :: u32
  i_rows_per_chunk :: u32
  i_total_rows :: u64
  i_schema_off :: u64
  i_schema_len :: u64
  i_index_off :: u64
  i_index_len :: u64
  i_dict_off :: u64
  i_dict_len :: u64
  i_data_off :: u64
  i_dict_raw_len :: u64

text \<open>\<^verbatim>\<open>RuntimeInit\<close>: the bytes from which each worker fills a runtime of its own.\<close>

record runtime_init =
  n_header :: bytes
  n_schema :: bytes
  n_toc :: bytes
  n_dicts :: "bytes option"

definition call_status :: "int \<Rightarrow> unit result" where
  "call_status code = (if code < 0 then Err (Code code) else Ok ())"

text \<open>\<^verbatim>\<open>vec![0u8; len]\<close> panics with \<^verbatim>\<open>capacity overflow\<close> above \<^verbatim>\<open>isize::MAX\<close> bytes.\<close>

definition capacity_overflow :: "nat \<Rightarrow> bool" where "capacity_overflow len \<longleftrightarrow> 2 ^ 63 \<le> len"

text \<open>The file has fewer bytes than asked for: \<^verbatim>\<open>unexpected EOF\<close>.\<close>

definition read_exact_at_file :: "bytes \<Rightarrow> nat \<Rightarrow> nat \<Rightarrow> bytes result" where
  "read_exact_at_file content offset len =
     (if capacity_overflow len then Err Panic
      else if len = 0 then Ok []
      else if length content < offset + len then Err (Bail ''unexpected EOF'')
      else Ok (slice content offset (offset + len)))"

text \<open>
  Ask with a buffer of the given length; a negative answer is the length needed. The loop
  asks again, without a bound on the number of rounds.
\<close>

partial_function (option) read_out_loop :: "(nat \<Rightarrow> int \<times> bytes) \<Rightarrow> nat \<Rightarrow> bytes result option" where
  "read_out_loop func out_len =
     (case func out_len of (written, out) \<Rightarrow>
        if written < 0 then
          (if nat (- written) \<le> out_len then Some (Err (Code written))
           else read_out_loop func (nat (- written)))
        else Some (Ok (take (nat written) out)))"

definition read_out_bytes :: "nat \<Rightarrow> (nat \<Rightarrow> int \<times> bytes) \<Rightarrow> bytes result option" where
  "read_out_bytes initial_len func = read_out_loop func (max initial_len 64)"

definition parse_header_info :: "bytes \<Rightarrow> header_info result" where
  "parse_header_info bs =
     (if length bs < 60 then Err (Bail ''header info too short'')
      else bindR (read_u32 bs 0) (\<lambda>version.
        if 7 \<le> version \<and> length bs < 92 then Err (Bail ''v7 header info too short'')
        else
          let field = (\<lambda>k. if 7 \<le> version then read_u64 bs (28 + 8 * k)
                           else bindR (read_u32 bs (28 + 4 * k)) (\<lambda>v. Ok (ucast v)))
          in bindR (mapR field [0..<8]) (\<lambda>fs.
             bindR (read_u32 bs 4) (\<lambda>flags. bindR (read_u32 bs 8) (\<lambda>ncols.
             bindR (read_u32 bs 12) (\<lambda>nchunks. bindR (read_u32 bs 16) (\<lambda>rpc.
             bindR (read_u64 bs 20) (\<lambda>total.
               Ok \<lparr> i_version = version, i_flags = flags, i_ncols = ncols, i_nchunks = nchunks,
                    i_rows_per_chunk = rpc, i_total_rows = total, i_schema_off = fs ! 0,
                    i_schema_len = fs ! 1, i_index_off = fs ! 2, i_index_len = fs ! 3,
                    i_dict_off = fs ! 4, i_dict_len = fs ! 5, i_data_off = fs ! 6,
                    i_dict_raw_len = fs ! 7 \<rparr>))))))))"

definition decompress_lz4 :: "(bytes \<Rightarrow> nat \<Rightarrow> bytes option) \<Rightarrow> bytes \<Rightarrow> nat \<Rightarrow> bytes result" where
  "decompress_lz4 decompress src raw_len =
     (if capacity_overflow raw_len then Err Panic
      else let (code, out) = lz4_decompress decompress src raw_len raw_len
        in bindR (call_status code) (\<lambda>_. Ok out))"

text \<open>A call on the table whose status must not be negative.\<close>

definition checked_call :: "(int \<times> runtimes) result \<Rightarrow> runtimes result" where
  "checked_call r = bindR r (\<lambda>(code, rts). bindR (call_status code) (\<lambda>_. Ok rts))"

definition read_dicts ::
  "(bytes \<Rightarrow> nat \<Rightarrow> bytes option) \<Rightarrow> bytes \<Rightarrow> header_info \<Rightarrow> bytes option result" where
  "read_dicts decompress content info =
     (if unat (i_dict_len info) = 0 then Ok None
      else bindR (read_exact_at_file content (unat (i_dict_off info)) (unat (i_dict_len info)))
        (\<lambda>bs. if i_flags info AND ucast HEADER_FLAG_DICT_COMPRESSED \<noteq> 0 then
                bindR (decompress_lz4 decompress bs (unat (i_dict_raw_len info))) (\<lambda>raw. Ok (Some raw))
              else Ok (Some bs)))"

definition set_dicts :: "runtimes \<Rightarrow> u32 \<Rightarrow> bytes option \<Rightarrow> runtimes result" where
  "set_dicts rts handle dicts =
     (case dicts of None \<Rightarrow> Ok rts | Some bs \<Rightarrow> checked_call (runtime_set_dicts rts handle bs))"

text \<open>\<open>None\<close> of \<open>read_out_bytes\<close>, a loop that does not end, is ruled out for the call below
  (\<open>header_info_read\<close>); it is an error value here.\<close>

definition init_runtime ::
  "(bytes \<Rightarrow> nat \<Rightarrow> bytes option) \<Rightarrow> bytes \<Rightarrow> runtimes \<Rightarrow> u32
     \<Rightarrow> (header_info \<times> runtime_init \<times> runtimes) result" where
  "init_runtime decompress content rts handle =
     bindR (read_exact_at_file content 0 HEADER_BYTES) (\<lambda>header_bytes.
     bindR (checked_call (runtime_set_header rts handle header_bytes)) (\<lambda>rts.
     bindR (of_option (Bail ''no answer'') (read_out_bytes 92 (runtime_header_info rts handle)))
       (\<lambda>answer. bindR answer (\<lambda>info_bytes.
     bindR (parse_header_info info_bytes) (\<lambda>info.
       if i_version info \<noteq> ucast WCOL_VERSION then Err (Bail ''unsupported wcol version'')
       else
         bindR (read_exact_at_file content (unat (i_schema_off info)) (unat (i_schema_len info)))
           (\<lambda>schema_bytes.
         bindR (checked_call (runtime_set_schema rts handle schema_bytes)) (\<lambda>rts.
         bindR (read_exact_at_file content (unat (i_index_off info))
                  (unat (i_nchunks info) * TOC_ENTRY_BYTES)) (\<lambda>toc_bytes.
         bindR (checked_call (runtime_set_toc rts handle toc_bytes)) (\<lambda>rts.
         bindR (read_dicts decompress content info) (\<lambda>dicts.
         bindR (set_dicts rts handle dicts) (\<lambda>rts.
           Ok (info, \<lparr> n_header = header_bytes, n_schema = schema_bytes, n_toc = toc_bytes,
                       n_dicts = dicts \<rparr>, rts))))))))))))"

definition open_file ::
  "(bytes \<Rightarrow> nat \<Rightarrow> bytes option) \<Rightarrow> bytes \<Rightarrow> u32 \<Rightarrow> runtimes
     \<Rightarrow> (u32 \<times> header_info \<times> runtime_init) result \<times> u32 \<times> runtimes" where
  "open_file decompress content counter rts =
     (let (handle, counter, rts) = create_runtime counter rts in
      if handle = 0 then (Err (Bail ''create_runtime returned 0''), counter, rts)
      else case init_runtime decompress content rts handle of
          Inl e \<Rightarrow> (Err e, counter, destroy_runtime rts handle)
        | Inr (info, init, rts) \<Rightarrow> (Ok (handle, info, init), counter, rts))"

text \<open>\<^verbatim>\<open>initialize_runtime\<close> of \<^verbatim>\<open>native/exec.rs\<close>: a worker's runtime.\<close>

definition initialize_runtime :: "runtimes \<Rightarrow> u32 \<Rightarrow> runtime_init \<Rightarrow> runtimes result" where
  "initialize_runtime rts handle init =
     bindR (checked_call (runtime_set_header rts handle (n_header init))) (\<lambda>rts.
     bindR (checked_call (runtime_set_schema rts handle (n_schema init))) (\<lambda>rts.
     bindR (checked_call (runtime_set_toc rts handle (n_toc init))) (\<lambda>rts.
       set_dicts rts handle (n_dicts init))))"

end
