(* ===== verification/Runtime_Facts.thy ===== *)
theory Runtime_Facts
  imports Wcol_Runtime
begin

text \<open>
  Opening what was written: the runtime that the native reader fills from a file of
  \<open>write_wcol\<close> holds the columns, the table of contents and the dictionaries of the writer,
  and its answers lead to the pages.
\<close>

section \<open>The table\<close>

lemma match_result_Ok [simp]: "match_result (Ok x) f d = Ok (f x)"
  by (simp add: match_result_def)

lemma update_runtime_present [simp]:
  "rts handle = Some r \<Longrightarrow> update_runtime rts handle f = (0, rts(handle \<mapsto> f r))"
  by (simp add: update_runtime_def)

lemma checked_call_done [simp]: "checked_call (Ok (0, rts)) = Ok rts"
  by (simp add: checked_call_def call_status_def)

section \<open>The header\<close>

definition info_of :: "header \<Rightarrow> header_info" where
  "info_of h =
     \<lparr> i_version = ucast (h_version h), i_flags = ucast (h_flags h), i_ncols = h_ncols h,
       i_nchunks = h_nchunks h, i_rows_per_chunk = h_rows_per_chunk h,
       i_total_rows = h_total_rows h, i_schema_off = h_schema_off h,
       i_schema_len = h_schema_len h, i_index_off = h_index_off h,
       i_index_len = h_index_len h, i_dict_off = h_dict_off h, i_dict_len = h_dict_len h,
       i_data_off = h_data_off h, i_dict_raw_len = h_dict_raw_len h \<rparr>"

lemma length_header_info_bytes [simp]: "length (header_info_bytes h) = HEADER_INFO_BYTES"
  by (simp add: header_info_bytes_def HEADER_INFO_BYTES_def)

lemma header_info_read:
  assumes "header_of rts handle = Some h"
  shows "read_out_bytes 92 (runtime_header_info rts handle) = Some (Ok (header_info_bytes h))"
  using assms
  by (simp add: read_out_bytes_def read_out_loop.simps runtime_header_info_def HEADER_INFO_BYTES_def)

lemma parse_header_info_ok:
  assumes "h_version h = WCOL_VERSION"
  shows "parse_header_info (header_info_bytes h) = Ok (info_of h)"
proof -
  let ?bs = "header_info_bytes h"
  have oc: "occurs_at ?bs 0 ?bs" by (rule occurs_at_here)
  have ver: "read_u32 ?bs 0 = Ok 7"
    using oc assms by (simp add: header_info_bytes_def WCOL_VERSION_def)
  have len: "length ?bs = 92" by (simp add: HEADER_INFO_BYTES_def)
  have fields: "read_u32 ?bs 4 = Ok (ucast (h_flags h))" "read_u32 ?bs 8 = Ok (h_ncols h)"
    "read_u32 ?bs 12 = Ok (h_nchunks h)" "read_u32 ?bs 16 = Ok (h_rows_per_chunk h)"
    "read_u64 ?bs 20 = Ok (h_total_rows h)"
    "mapR (\<lambda>k. read_u64 ?bs (28 + 8 * k)) [0..<8] =
       Ok [h_schema_off h, h_schema_len h, h_index_off h, h_index_len h, h_dict_off h,
           h_dict_len h, h_data_off h, h_dict_raw_len h]"
    using oc unfolding header_info_bytes_def by (simp_all add: upt_rec)
  show ?thesis
    using fields len assms
    by (simp add: parse_header_info_def ver info_of_def WCOL_VERSION_def)
qed

section \<open>Reading parts of the file\<close>

lemma read_exact_occurs:
  assumes "occurs_at content off xs" "n = length xs" "n < 2 ^ 63"
  shows "read_exact_at_file content off n = Ok xs"
  using assms occurs_at_le [OF assms(1)] occurs_at_slice [OF assms(1) refl]
  by (auto simp: read_exact_at_file_def capacity_overflow_def)

lemma toc_read:
  "mapR (\<lambda>i. read_u64 (build_toc toc) (i * 8)) [0..<length toc] = Ok toc"
proof -
  have "read_u64 (build_toc toc) (i * 8) = Ok (toc ! i)" if "i < length toc" for i
  proof -
    have "build_toc toc = build_toc (take i toc) @ le64 (toc ! i) @ build_toc (drop (Suc i) toc)"
      using id_take_nth_drop [OF that]
      by (simp add: build_toc_def) (metis concat.simps(2) concat_append list.simps(9) map_append)
    then have "occurs_at (build_toc toc) (i * 8) (le64 (toc ! i))"
      using that by (simp add: occurs_at_middle min_def)
    then show ?thesis by simp
  qed
  then have "mapR (\<lambda>i. read_u64 (build_toc toc) (i * 8)) [0..<length toc] =
      Ok (map ((!) toc) [0..<length toc])"
    by (intro mapR_total) simp
  then show ?thesis by (simp add: map_nth)
qed

section \<open>Opening a written file\<close>

text \<open>The laws that the reader needs of LZ4, and the limits of the format's fields.\<close>

definition lz4_inverse :: "(bytes \<Rightarrow> bytes) \<Rightarrow> (bytes \<Rightarrow> nat \<Rightarrow> bytes option) \<Rightarrow> bool" where
  "lz4_inverse compress decompress \<longleftrightarrow> 
     (\<forall>raw. decompress (compress raw) (length raw) = Some raw \<and> compress raw \<noteq> [])"

definition fits_format :: "column_spec list \<Rightarrow> chunk_pages list \<Rightarrow> bool" where
  "fits_format cols chunks \<longleftrightarrow>
     length cols < 2 ^ 32 \<and> length chunks < 2 ^ 32 \<and>
     (\<forall>col \<in> set cols. utf8_valid (cs_name col) \<and> length (cs_dict_values col) < 2 ^ 32) \<and>
     distinct (map cs_dict_id (filter is_dict_col cols)) \<and>
     (\<forall>raw. build_dict_bytes cols = Ok raw \<longrightarrow> length raw < 2 ^ 63)"

definition schema_of :: "column_spec list \<Rightarrow> column list" where
  "schema_of cols = map (\<lambda>(j, col). column_of_spec j col) (zip [0..<length cols] cols)"

definition dicts_for :: "column_spec list \<Rightarrow> (u32 \<rightharpoonup> dictionary) \<Rightarrow> bool" where
  "dicts_for cols dicts \<longleftrightarrow>
     (\<forall>col \<in> set cols. is_dict_col col \<longrightarrow>
        dicts (cs_dict_id col) = Some (dictionary_of (cs_dict_values col)) \<and>
        length (concat (cs_dict_values col)) < 2 ^ 32)"

definition written_runtime :: "column_spec list \<Rightarrow> header \<Rightarrow> u64 list \<Rightarrow> runtime \<Rightarrow> bool" where
  "written_runtime cols h toc r \<longleftrightarrow>
     r_header r = Some h \<and> r_schema r = schema_of cols \<and> r_toc r = toc \<and>
     dicts_for cols (r_dicts r) \<and> r_index_cache r = Map.empty"

lemma slice_prefix: "hi \<le> n \<Longrightarrow> slice (slice bs 0 n) lo hi = slice bs lo hi"
  by (simp add: slice_def drop_take min_def)

lemma read_prefix:
  assumes "n \<le> length bs"
  shows "off + 2 \<le> n \<Longrightarrow> read_u16 (slice bs 0 n) off = read_u16 bs off"
    "off + 4 \<le> n \<Longrightarrow> read_u32 (slice bs 0 n) off = read_u32 bs off"
    "off + 8 \<le> n \<Longrightarrow> read_u64 (slice bs 0 n) off = read_u64 bs off"
  using assms by (simp_all add: read_u16_def read_u32_def read_u64_def slice_prefix)

lemma parse_header_prefix:
  assumes "parse_header bs = Ok h"
  shows "HEADER_BYTES \<le> length bs \<and> parse_header (slice bs 0 HEADER_BYTES) = Ok h"
proof -
  have len: "HEADER_BYTES \<le> length bs"
    using assms by (simp add: parse_header_def split: if_splits)
  have "parse_header (slice bs 0 HEADER_BYTES) = parse_header bs"
    unfolding parse_header_def
    using len by (simp add: read_prefix slice_prefix HEADER_BYTES_def cong del: if_weak_cong)
  with assms len show ?thesis by simp
qed

lemma dicts_read:
  assumes z: "lz4_inverse compress decompress" and raw: "length raw < 2 ^ 63"
    and small: "length (fst (dict_payload compress raw)) < 2 ^ 63"
    and off: "occurs_at content (unat (h_dict_off h)) (fst (dict_payload compress raw))"
    and len: "unat (h_dict_len h) = length (fst (dict_payload compress raw))"
      "unat (h_dict_raw_len h) = length raw mod 2 ^ 64"
    and flags: "h_flags h = snd (dict_payload compress raw)"
  shows "read_dicts decompress content (info_of h) = Ok (if raw = [] then None else Some raw)"
proof -
  let ?p = "fst (dict_payload compress raw)"
  have ne: "?p = [] \<longleftrightarrow> raw = []"
    using z by (auto simp: dict_payload_def lz4_inverse_def)
  have rd: "read_exact_at_file content (unat (h_dict_off h)) (unat (h_dict_len h)) = Ok ?p"
    using read_exact_occurs [OF off len(1)] len(1) small by simp
  have un: "decompress_lz4 decompress (compress raw) (length raw) = Ok raw"
    using z raw by (auto simp: decompress_lz4_def lz4_decompress_def call_status_def lz4_inverse_def capacity_overflow_def)
  show ?thesis
    using len(2) raw un rd flags len(1) ne
    by (auto simp: read_dicts_def info_of_def dict_payload_def HEADER_FLAG_DICT_COMPRESSED_def)
qed

lemma header_of_upd [simp]: "header_of (rts(handle \<mapsto> r)) handle = r_header r"
  by (simp add: header_of_def)

text \<open>The four calls that fill a runtime, on the bytes of a written file.\<close>

lemma fill_runtime:
  assumes hdr: "parse_header hb = Ok h" "h_version h = WCOL_VERSION"
      "unat (h_rows_per_chunk h) = ROWS_PER_CHUNK"
    and schema: "parse_schema sb (unat (h_ncols h)) = Ok schema"
    and toc: "unat (h_nchunks h) = length toc"
    and dicts: "case dbs of None \<Rightarrow> dicts = Map.empty | Some bs \<Rightarrow> parse_dicts bs = Ok dicts"
    and rts: "rts handle = Some runtime_new"
  shows "checked_call (runtime_set_header rts handle hb) =
      Ok (rts(handle \<mapsto> runtime_new\<lparr> r_header := Some h \<rparr>))"
    "checked_call (runtime_set_schema (rts(handle \<mapsto> runtime_new\<lparr> r_header := Some h \<rparr>)) handle sb) =
      Ok (rts(handle \<mapsto> runtime_new\<lparr> r_header := Some h, r_schema := schema \<rparr>))"
    "checked_call (runtime_set_toc
        (rts(handle \<mapsto> runtime_new\<lparr> r_header := Some h, r_schema := schema \<rparr>)) handle (build_toc toc)) =
      Ok (rts(handle \<mapsto> runtime_new\<lparr> r_header := Some h, r_schema := schema, r_toc := toc \<rparr>))"
    "set_dicts (rts(handle \<mapsto> runtime_new\<lparr> r_header := Some h, r_schema := schema, r_toc := toc \<rparr>))
        handle dbs =
      Ok (rts(handle \<mapsto> runtime_new\<lparr> r_header := Some h, r_schema := schema, r_toc := toc,
                          r_dicts := dicts \<rparr>))"
proof -
  show "checked_call (runtime_set_header rts handle hb) =
      Ok (rts(handle \<mapsto> runtime_new\<lparr> r_header := Some h \<rparr>))"
    using hdr rts by (simp add: runtime_set_header_def runtime_new_def)
  show "checked_call (runtime_set_schema (rts(handle \<mapsto> runtime_new\<lparr> r_header := Some h \<rparr>)) handle sb) =
      Ok (rts(handle \<mapsto> runtime_new\<lparr> r_header := Some h, r_schema := schema \<rparr>))"
    using schema by (simp add: runtime_set_schema_def runtime_new_def)
  show "checked_call (runtime_set_toc
        (rts(handle \<mapsto> runtime_new\<lparr> r_header := Some h, r_schema := schema \<rparr>)) handle (build_toc toc)) =
      Ok (rts(handle \<mapsto> runtime_new\<lparr> r_header := Some h, r_schema := schema, r_toc := toc \<rparr>))"
    using toc toc_read [of toc] by (simp add: runtime_set_toc_def runtime_new_def Let_def)
  show "set_dicts (rts(handle \<mapsto> runtime_new\<lparr> r_header := Some h, r_schema := schema, r_toc := toc \<rparr>))
        handle dbs =
      Ok (rts(handle \<mapsto> runtime_new\<lparr> r_header := Some h, r_schema := schema, r_toc := toc,
                          r_dicts := dicts \<rparr>))"
    using dicts by (auto simp: set_dicts_def runtime_set_dicts_def runtime_new_def split: option.splits)
qed

lemma init_runtime_ok:
  assumes lay: "file_layout compress cols chunks content h toc placed"
    and hdr: "parse_header content = Ok h"
    and z: "lz4_inverse compress decompress" and fits: "fits_format cols chunks" and small: "length content < 2 ^ 63"
    and rts: "rts handle = Some runtime_new"
  shows "\<exists>init r. init_runtime decompress content rts handle = Ok (info_of h, init, rts(handle \<mapsto> r)) \<and>
     written_runtime cols h toc r \<and>
     (\<forall>other k. other k = Some runtime_new \<longrightarrow> initialize_runtime other k init = Ok (other(k \<mapsto> r)))"
proof -
  obtain schema raw where sb: "build_schema_bytes cols = Ok schema"
      "occurs_at content (unat (h_schema_off h)) schema" "unat (h_schema_len h) = length schema"
    and raw: "build_dict_bytes cols = Ok raw"
      "occurs_at content (unat (h_dict_off h)) (fst (dict_payload compress raw))"
      "unat (h_dict_len h) = length (fst (dict_payload compress raw))"
      "unat (h_dict_raw_len h) = length raw mod 2 ^ 64" "h_flags h = snd (dict_payload compress raw)"
    using lay unfolding file_layout_def by blast
  have ver: "h_version h = WCOL_VERSION" "h_rows_per_chunk h = of_nat ROWS_PER_CHUNK"
    and toc: "length toc = length chunks" "occurs_at content (unat (h_index_off h)) (build_toc toc)"
    and cnt: "h_ncols h = of_nat (length cols)" "h_nchunks h = of_nat (length chunks)"
    using lay unfolding file_layout_def by auto
  have n: "unat (h_ncols h) = length cols" "unat (h_nchunks h) = length toc"
    "unat (h_rows_per_chunk h) = ROWS_PER_CHUNK" "length raw < 2 ^ 63"
    using fits cnt toc ver raw by (auto simp: fits_format_def unat_of_nat32 ROWS_PER_CHUNK_def)
  have ps: "parse_schema schema (unat (h_ncols h)) = Ok (schema_of cols)"
    using parse_schema_build [OF sb(1)] fits n(1) by (simp add: fits_format_def schema_of_def)
  obtain dicts where pd: "parse_dicts raw = Ok dicts" "dicts_for cols dicts"
    using parse_dicts_build [OF raw(1)] fits length_filter_le [of is_dict_col cols]
    unfolding fits_format_def dicts_for_def by (smt (verit) le_less_trans)
  let ?dbs = "if raw = [] then None else Some raw"
  have part: "length xs < 2 ^ 63" if "occurs_at content off xs" for off xs
    using occurs_at_le [OF that] small by simp
  have rd: "read_dicts decompress content (info_of h) = Ok ?dbs"
    by (rule dicts_read [OF z n(4) _ raw(2-5)]) (use part [OF raw(2)] in simp)
  have dc: "case ?dbs of None \<Rightarrow> dicts = Map.empty | Some bs \<Rightarrow> parse_dicts bs = Ok dicts"
    using pd(1) by (cases "raw = []") (simp_all add: parse_dicts_def [of "[]"])
  note hp = parse_header_prefix [OF hdr]
  let ?hb = "slice content 0 HEADER_BYTES"
  have hb: "read_exact_at_file content 0 HEADER_BYTES = Ok ?hb"
    using hp by (simp add: read_exact_at_file_def HEADER_BYTES_def capacity_overflow_def)
  have rs: "read_exact_at_file content (unat (h_schema_off h)) (unat (h_schema_len h)) = Ok schema"
    using read_exact_occurs [OF sb(2,3)] part [OF sb(2)] sb(3) by simp
  have rt: "read_exact_at_file content (unat (h_index_off h)) (unat (h_nchunks h) * TOC_ENTRY_BYTES) =
      Ok (build_toc toc)"
    by (rule read_exact_occurs [OF toc(2)]) (use part [OF toc(2)] in \<open>simp_all add: n TOC_ENTRY_BYTES_def\<close>)
  note fill = fill_runtime [OF _ ver(1) n(3) ps n(2) dc, of ?hb]
  let ?init = "\<lparr> n_header = ?hb, n_schema = schema, n_toc = build_toc toc, n_dicts = ?dbs \<rparr>"
  let ?r = "runtime_new\<lparr> r_header := Some h, r_schema := schema_of cols, r_toc := toc, r_dicts := dicts \<rparr>"
  have "init_runtime decompress content rts handle = Ok (info_of h, ?init, rts(handle \<mapsto> ?r))"
    using fill [where rts = rts and handle = handle] rts hp header_info_read [of "rts(handle \<mapsto> runtime_new\<lparr> r_header := Some h \<rparr>)" handle h]
      parse_header_info_ok [OF ver(1)] rs rt rd hb
    by (simp add: init_runtime_def info_of_def ver(1) del: bindR_eq_Ok)
  moreover have "initialize_runtime other k ?init = Ok (other(k \<mapsto> ?r))"
    if "other k = Some runtime_new" for other k
    using fill [where rts = other and handle = k] that hp by (simp add: initialize_runtime_def del: bindR_eq_Ok)
  moreover have "written_runtime cols h toc ?r"
    using pd(2) by (simp add: written_runtime_def runtime_new_def)
  ultimately show ?thesis by blast
qed

lemma open_file_ok:
  assumes "file_layout compress cols chunks content h toc placed" "parse_header content = Ok h"
    "lz4_inverse compress decompress" "fits_format cols chunks" "length content < 2 ^ 63" "counter \<noteq> 0"
  shows "\<exists>init r. open_file decompress content counter rts =
       (Ok (counter, info_of h, init), counter + 1, rts(counter \<mapsto> r)) \<and>
     written_runtime cols h toc r \<and>
     (\<forall>other k. other k = Some runtime_new \<longrightarrow> initialize_runtime other k init = Ok (other(k \<mapsto> r)))"
proof -
  from init_runtime_ok [where rts = "rts(counter \<mapsto> runtime_new)" and handle = counter,
      OF assms(1-5)] assms(6) show ?thesis
    by (auto simp: open_file_def create_runtime_def next_handle_def)
qed

text \<open>A file that cannot be opened leaves no runtime behind.\<close>

lemma open_file_Err:
  assumes "open_file decompress content counter rts = (Err e, counter', rts')" "counter \<noteq> 0"
    "rts counter = None"
  shows "rts' = rts"
  using assms
  by (auto simp: open_file_def create_runtime_def next_handle_def destroy_runtime_def fun_upd_idem
      split: sum.splits prod.splits)

section \<open>From the table of contents to the pages\<close>

lemma index_span_ok:
  assumes lay: "file_layout compress cols chunks content h toc placed"
    and r: "rts handle = Some r" "written_runtime cols h toc r"
    and i: "i < length chunks" "length chunks < 2 ^ 32"
      "length (compress (index_raw (placed ! i))) < 2 ^ 32"
  shows "runtime_chunk_index_span rts handle (of_nat i) SPAN_BYTES =
      (int SPAN_BYTES, le64 (toc ! i) @ le32 (of_nat (length (compress (index_raw (placed ! i))))))"
    and "read_exact_at_file content (unat (toc ! i)) (length (compress (index_raw (placed ! i)))) =
      Ok (compress (index_raw (placed ! i)))"
proof -
  let ?block = "compress (index_raw (placed ! i))"
  have t: "length toc = length chunks" "occurs_at content (unat (toc ! i)) ?block"
    "unat (toc ! i) + length ?block = (if Suc i < length chunks then unat (toc ! Suc i)
       else unat (h_index_off h + h_index_len h))"
    using lay i(1) unfolding file_layout_def by auto
  show "read_exact_at_file content (unat (toc ! i)) (length ?block) = Ok ?block"
    using read_exact_occurs [OF t(2) refl] i(3) by simp
  have "unat (of_nat i :: u32) = i" using i(1,2) by (simp add: unat_of_nat32)
  moreover have "toc \<noteq> []" using t(1) i(1) by auto
  moreover have "Suc i < length chunks \<Longrightarrow> unat (toc ! Suc i) - unat (toc ! i) = length ?block"
    "\<not> Suc i < length chunks \<Longrightarrow> unat (h_index_off h + h_index_len h) - unat (toc ! i) = length ?block"
    using t(3) by simp_all
  ultimately show "runtime_chunk_index_span rts handle (of_nat i) SPAN_BYTES =
      (int SPAN_BYTES, le64 (toc ! i) @ le32 (of_nat (length ?block)))"
    using r i t(1) by (simp add: runtime_chunk_index_span_def written_runtime_def Let_def)
qed

definition opt_readable :: "bytes \<Rightarrow> bytes option \<Rightarrow> u64 \<Rightarrow> u32 \<Rightarrow> bool" where
  "opt_readable content c off len =
     (case c of
        Some v \<Rightarrow> read_exact_at_file content (unat off) (unat len) = Ok v
      | None \<Rightarrow> off = NULL_SENTINEL_U64 \<and> len = 0)"

text \<open>Entry \<open>e\<close> of an index tells where the parts of page \<open>p\<close> are and what \<open>p\<close> is.\<close>

definition page_readable :: "bytes \<Rightarrow> column_page \<Rightarrow> index_entry \<Rightarrow> bool" where
  "page_readable content p e \<longleftrightarrow>
     read_exact_at_file content (unat (e_data_off e)) (unat (e_data_comp_len e)) = Ok (p_data_comp p) \<and>
     opt_readable content (p_null_comp p) (e_null_off e) (e_null_comp_len e) \<and>
     opt_readable content (p_empty_comp p) (e_empty_off e) (e_empty_comp_len e) \<and>
     e_data_raw_len e = p_data_raw_len p \<and> e_null_raw_len e = p_null_raw_len p \<and>
     e_empty_raw_len e = p_empty_raw_len p \<and> e_empty_mode e = p_empty_mode p \<and>
     e_empty_count e = p_empty_count p \<and> e_min e = p_min p \<and> e_max e = p_max p \<and>
     e_presence e = p_presence p"

definition small_page :: "column_page \<Rightarrow> bool" where
  "small_page p \<longleftrightarrow> length (p_data_comp p) < 2 ^ 32 \<and> comp_len (p_null_comp p) < 2 ^ 32 \<and>
     comp_len (p_empty_comp p) < 2 ^ 32"

lemma opt_readable_ok:
  "opt_placed content off c \<Longrightarrow> comp_len c < 2 ^ 32 \<Longrightarrow>
     opt_readable content c off (of_nat (comp_len c))"
  by (auto simp: opt_placed_def opt_readable_def comp_len_def unat_of_nat32 read_exact_occurs
      split: option.splits)

lemma page_readable_ok:
  assumes "placed_in content p q" "small_page p"
  shows "page_readable content p (entry_of_page q)"
proof -
  obtain x y z where q: "q = p\<lparr> p_data_off := x, p_null_off := y, p_empty_off := z \<rparr>"
    using assms(1) unfolding placed_in_def by blast
  show ?thesis
    using assms unfolding q
    by (simp add: page_readable_def entry_of_page_def placed_in_def small_page_def
        unat_of_nat32 read_exact_occurs opt_readable_ok)
qed

text \<open>Every chunk of an open file: its span, its index block, its entries and their pages.\<close>

definition chunk_readable ::
  "(bytes \<Rightarrow> nat \<Rightarrow> bytes option) \<Rightarrow> bytes \<Rightarrow> runtimes \<Rightarrow> u32 \<Rightarrow> nat \<Rightarrow> nat \<Rightarrow> chunk_pages \<Rightarrow> bool" where
  "chunk_readable decompress content rts handle ncols i pages \<longleftrightarrow>
     (\<exists>off len block raw entries.
        runtime_chunk_index_span rts handle (of_nat i) SPAN_BYTES = (int SPAN_BYTES, le64 off @ le32 len) \<and>
        read_exact_at_file content (unat off) (unat len) = Ok block \<and>
        decompress block (ncols * INDEX_ENTRY_BYTES) = Some raw \<and>
        parse_chunk_index raw ncols = Ok entries \<and>
        list_all2 (page_readable content) pages entries)"

lemma chunk_readable_ok:
  assumes lay: "file_layout compress cols chunks content h toc placed"
    and z: "lz4_inverse compress decompress"
    and r: "rts handle = Some r" "written_runtime cols h toc r"
    and i: "i < length chunks" "length chunks < 2 ^ 32"
    and pages: "length (chunks ! i) = length cols" "list_all small_page (chunks ! i)"
    and blocks: "\<And>raw. length raw = length cols * INDEX_ENTRY_BYTES \<Longrightarrow> length (compress raw) < 2 ^ 32"
  shows "chunk_readable decompress content rts handle (length cols) i (chunks ! i)"
proof -
  let ?block = "compress (index_raw (placed ! i))"
  have pl: "list_all2 (placed_in content) (chunks ! i) (placed ! i)"
    using lay i(1) list_all2_nthD unfolding file_layout_def by blast
  then have len: "length (placed ! i) = length cols"
    using pages(1) list_all2_lengthD by fastforce
  have raw: "length (index_raw (placed ! i)) = length cols * INDEX_ENTRY_BYTES"
    by (simp add: length_index_raw len INDEX_ENTRY_BYTES_def)
  then have small: "length ?block < 2 ^ 32" by (rule blocks)
  have dec: "decompress ?block (length cols * INDEX_ENTRY_BYTES) = Some (index_raw (placed ! i))"
    using z raw unfolding lz4_inverse_def by metis
  have ents: "parse_chunk_index (index_raw (placed ! i)) (length cols) =
      Ok (map entry_of_page (placed ! i))"
    using parse_chunk_index_build [of "placed ! i"] len by simp
  have "list_all2 (page_readable content) (chunks ! i) (map entry_of_page (placed ! i))"
    using pl pages(2) by (auto simp: list_all2_conv_all_nth list_all_length intro: page_readable_ok)
  moreover have "unat (of_nat (length ?block) :: u32) = length ?block"
    using small by (simp add: unat_of_nat32)
  ultimately show ?thesis
    unfolding chunk_readable_def
    using index_span_ok [where rts = rts and handle = handle and compress = compress and i = i
        and placed = placed, OF lay r i small] dec ents by metis
qed

section \<open>Opening any bytes\<close>

lemma match_result_no_panic [safe]: "no_panic r \<Longrightarrow> no_panic (match_result r f d)"
  by (cases r) (auto simp: match_result_def)

lemma checked_call_no_panic [safe]: "no_panic r \<Longrightarrow> no_panic (checked_call r)"
  by (auto simp: checked_call_def call_status_def intro!: safe)

lemma set_calls_no_panic [safe]:
  "no_panic (runtime_set_header rts handle bs)" "no_panic (runtime_set_schema rts handle bs)"
  "no_panic (runtime_set_toc rts handle bs)" "no_panic (runtime_set_dicts rts handle bs)"
  using parse_header_no_panic parse_columns_no_panic parse_dicts_no_panic
  by (auto simp: runtime_set_header_def runtime_set_schema_def runtime_set_toc_def
      runtime_set_dicts_def parse_schema_def Let_def intro!: safe split: option.splits)

lemma set_dicts_no_panic [safe]: "no_panic (set_dicts rts handle dicts)"
  by (auto simp: set_dicts_def intro!: safe split: option.splits)

lemma read_exact_no_panic [safe]: "\<not> capacity_overflow len \<Longrightarrow> no_panic (read_exact_at_file content off len)"
  by (simp add: read_exact_at_file_def)

lemma read_out_loop_no_panic: "read_out_loop func n = Some r \<Longrightarrow> no_panic r"
  by (erule read_out_loop.raw_induct [where P = "\<lambda>_ _. no_panic", rotated])
    (auto split: prod.splits if_splits)

lemma read_out_bytes_no_panic: "read_out_bytes n func = Some r \<Longrightarrow> no_panic r"
  by (simp add: read_out_bytes_def read_out_loop_no_panic)

lemma parse_header_info_no_panic [safe]: "no_panic (parse_header_info bs)"
  by (auto simp: parse_header_info_def Let_def intro!: safe)

lemma decompress_lz4_no_panic [safe]: "\<not> capacity_overflow n \<Longrightarrow> no_panic (decompress_lz4 decompress src n)"
  by (auto simp: decompress_lz4_def call_status_def intro!: safe split: prod.splits)

text \<open>The lengths in the header for which buffers are allocated.\<close>

definition sizes_fit :: "header \<Rightarrow> bool" where
  "sizes_fit h \<longleftrightarrow> \<not> capacity_overflow (unat (h_schema_len h)) \<and>
     \<not> capacity_overflow (unat (h_dict_len h)) \<and> \<not> capacity_overflow (unat (h_dict_raw_len h))"

lemma read_dicts_no_panic [safe]:
  "\<not> capacity_overflow (unat (i_dict_len info)) \<Longrightarrow> \<not> capacity_overflow (unat (i_dict_raw_len info)) \<Longrightarrow>
     no_panic (read_dicts decompress content info)"
  by (auto simp: read_dicts_def intro!: safe)

lemma toc_fits [simp]: "\<not> capacity_overflow (unat (n :: u32) * TOC_ENTRY_BYTES)" "\<not> capacity_overflow HEADER_BYTES"
  using unsigned_less [of n, where ?'a = nat] by (simp_all add: capacity_overflow_def TOC_ENTRY_BYTES_def HEADER_BYTES_def)

lemma set_header_done:
  assumes "checked_call (runtime_set_header rts handle bs) = Ok rts'"
  shows "\<exists>h. parse_header bs = Ok h \<and> h_version h = WCOL_VERSION \<and> header_of rts' handle = Some h"
  using assms
  by (cases "parse_header bs")
    (auto simp: runtime_set_header_def checked_call_def call_status_def match_result_def update_runtime_def
      header_of_def split: if_splits option.splits)

lemma init_runtime_no_panic:
  assumes fit: "\<And>h. parse_header (slice content 0 HEADER_BYTES) = Ok h \<Longrightarrow> sizes_fit h"
  shows "no_panic (init_runtime decompress content rts handle)"
proof -
  have fits: "\<not> capacity_overflow (unat (i_schema_len info)) \<and> \<not> capacity_overflow (unat (i_dict_len info)) \<and>
      \<not> capacity_overflow (unat (i_dict_raw_len info))"
    if hb: "read_exact_at_file content 0 HEADER_BYTES = Ok hb"
      and set: "checked_call (runtime_set_header rts handle hb) = Ok rts1"
      and answer: "read_out_bytes 92 (runtime_header_info rts1 handle) = Some r" "r = Ok bs"
      and info: "parse_header_info bs = Ok info" for hb rts1 r bs info
  proof -
    obtain h where h: "parse_header hb = Ok h" "h_version h = WCOL_VERSION" "header_of rts1 handle = Some h"
      using set_header_done [OF set] by blast
    have "hb = slice content 0 HEADER_BYTES"
      using hb by (auto simp: read_exact_at_file_def HEADER_BYTES_def split: if_splits)
    then have "sizes_fit h" using fit h(1) by simp
    moreover have "info = info_of h"
      using answer info header_info_read [OF h(3)] parse_header_info_ok [OF h(2)] by auto
    ultimately show ?thesis by (simp add: sizes_fit_def info_of_def)
  qed
  show ?thesis
    by (auto simp: init_runtime_def dest: fits intro!: safe intro: read_out_bytes_no_panic)
qed

text \<open>Opening panics only on lengths that no buffer can have.\<close>

lemma open_file_no_panic:
  assumes "\<And>h. parse_header (slice content 0 HEADER_BYTES) = Ok h \<Longrightarrow> sizes_fit h"
  shows "fst (open_file decompress content counter rts) \<noteq> Err Panic"
  using init_runtime_no_panic [OF assms]
  by (auto simp: open_file_def create_runtime_def next_handle_def no_panic_def split: sum.splits prod.splits)

text \<open>And on such a length it does panic: here of the schema, the first that is read.\<close>

lemma oversized_schema_panics:
  assumes h: "parse_header (slice content 0 HEADER_BYTES) = Ok h" "h_version h = WCOL_VERSION"
      "unat (h_rows_per_chunk h) = ROWS_PER_CHUNK"
    and "HEADER_BYTES \<le> length content" "capacity_overflow (unat (h_schema_len h))" "counter \<noteq> 0"
  shows "fst (open_file decompress content counter rts) = Err Panic"
proof -
  let ?rts = "rts(counter \<mapsto> runtime_new)" and ?hb = "slice content 0 HEADER_BYTES"
  have hb: "read_exact_at_file content 0 HEADER_BYTES = Ok ?hb"
    using assms(4) by (simp add: read_exact_at_file_def) (simp add: HEADER_BYTES_def)
  obtain rts1 where set: "checked_call (runtime_set_header ?rts counter ?hb) = Ok rts1"
    using h by (auto simp: runtime_set_header_def checked_call_def call_status_def match_result_def update_runtime_def)
  then have "header_of rts1 counter = Some h" using set_header_done [OF set] h(1) by auto
  moreover have "read_exact_at_file content off (unat (h_schema_len h)) = Err Panic" for off
    using assms(5) by (simp add: read_exact_at_file_def)
  ultimately have "init_runtime decompress content ?rts counter = Err Panic"
    by (simp add: init_runtime_def hb set header_info_read parse_header_info_ok [OF h(2)])
      (simp add: info_of_def h(2))
  with assms(6) show ?thesis by (simp add: open_file_def create_runtime_def next_handle_def)
qed

end
