(* ===== verification/Numeric_Page.thy ===== *)
theory Numeric_Page
  imports Wcol_Write
begin

text \<open>
  Pages of numbers. The encoder: \<^verbatim>\<open>encode/page.rs\<close> (the fixed-width encoders, the
  boolean bitmap, the numeric dictionary with plain or bit-packed ids). The decoder:
  \<^verbatim>\<open>decode/primitive.rs\<close>, \<^verbatim>\<open>decode/numeric.rs\<close> and the type dispatch of
  \<^verbatim>\<open>decode/mod.rs\<close>. Signed integers are their bit patterns, read with \<^term>\<open>sint\<close>.
\<close>

section \<open>Decoded columns\<close>

datatype column_data =
    CD_U8 "u8 list" | CD_U16 "u16 list" | CD_U32 "u32 list"
  | CD_I8 "u8 list" | CD_I16 "u16 list" | CD_I32 "u32 list" | CD_I64 "u64 list"
  | CD_F64 "f64 list" | CD_Bool bytes

definition E_DECODE :: error where "E_DECODE = Code (- 17)"

definition decode_le :: "nat \<Rightarrow> (bytes \<Rightarrow> 'a) \<Rightarrow> bytes \<Rightarrow> 'a list result" where
  "decode_le n f bs =
     (if length bs mod n \<noteq> 0 then Err E_DECODE else Ok (map f (chunks_exact n bs)))"

definition decode_u8 :: "bytes \<Rightarrow> u8 list" where "decode_u8 bs = bs"
definition decode_i8 :: "bytes \<Rightarrow> u8 list result" where "decode_i8 bs = decode_le 1 (\<lambda>b. b ! 0) bs"
definition decode_u16 :: "bytes \<Rightarrow> u16 list result" where "decode_u16 bs = decode_le 2 from_le16 bs"
definition decode_u32 :: "bytes \<Rightarrow> u32 list result" where "decode_u32 bs = decode_le 4 from_le32 bs"
definition decode_i16 :: "bytes \<Rightarrow> u16 list result" where "decode_i16 bs = decode_le 2 from_le16 bs"
definition decode_i32 :: "bytes \<Rightarrow> u32 list result" where "decode_i32 bs = decode_le 4 from_le32 bs"
definition decode_i64 :: "bytes \<Rightarrow> u64 list result" where "decode_i64 bs = decode_le 8 from_le64 bs"
definition decode_f32 :: "bytes \<Rightarrow> f64 list result" where
  "decode_f32 bs = decode_le 4 (\<lambda>b. f64_of_f32 (from_le32 b)) bs"
definition decode_f64 :: "bytes \<Rightarrow> f64 list result" where "decode_f64 bs = decode_le 8 from_le64 bs"

definition decode_index_ids_as_u32 :: "u8 \<Rightarrow> bytes \<Rightarrow> u32 list result" where
  "decode_index_ids_as_u32 ty raw =
     (if ty = TYPE_U8 then Ok (map ucast (decode_u8 raw))
      else if ty = TYPE_U16 then bindR (decode_u16 raw) (\<lambda>vs. Ok (map ucast vs))
      else if ty = TYPE_U32 then decode_u32 raw
      else if ty = TYPE_I8 then bindR (decode_i8 raw) (\<lambda>vs. Ok (map scast vs))
      else if ty = TYPE_I16 then bindR (decode_i16 raw) (\<lambda>vs. Ok (map scast vs))
      else if ty = TYPE_I32 then decode_i32 raw
      else Err E_DECODE)"

datatype unknown_physical = U_Err | U_Fallback_U32

definition decode_physical_column :: "u8 \<Rightarrow> bytes \<Rightarrow> unknown_physical \<Rightarrow> column_data result" where
  "decode_physical_column ty raw unknown =
     (if ty = TYPE_I8 then bindR (decode_i8 raw) (\<lambda>v. Ok (CD_I8 v))
      else if ty = TYPE_I16 then bindR (decode_i16 raw) (\<lambda>v. Ok (CD_I16 v))
      else if ty = TYPE_I32 then bindR (decode_i32 raw) (\<lambda>v. Ok (CD_I32 v))
      else if ty = TYPE_I64 then bindR (decode_i64 raw) (\<lambda>v. Ok (CD_I64 v))
      else if ty = TYPE_U8 then Ok (CD_U8 (decode_u8 raw))
      else if ty = TYPE_U16 then bindR (decode_u16 raw) (\<lambda>v. Ok (CD_U16 v))
      else if ty = TYPE_U32 then bindR (decode_u32 raw) (\<lambda>v. Ok (CD_U32 v))
      else if ty = TYPE_F32 then bindR (decode_f32 raw) (\<lambda>v. Ok (CD_F64 v))
      else if ty = TYPE_F64 then bindR (decode_f64 raw) (\<lambda>v. Ok (CD_F64 v))
      else if ty = TYPE_BOOL then Ok (CD_Bool raw)
      else (case unknown of
              U_Err \<Rightarrow> Err E_DECODE
            | U_Fallback_U32 \<Rightarrow> bindR (decode_u32 raw) (\<lambda>v. Ok (CD_U32 v))))"

definition dict_index_at :: "column_data \<Rightarrow> nat \<Rightarrow> nat option" where
  "dict_index_at data row =
     (case data of
        CD_U8 vs \<Rightarrow> map_option unat (get vs row)
      | CD_U16 vs \<Rightarrow> map_option unat (get vs row)
      | CD_U32 vs \<Rightarrow> map_option unat (get vs row)
      | _ \<Rightarrow> None)"

section \<open>Dictionary pages: decoder\<close>

record dict_layout =
  dl_dict_raw :: bytes
  dl_ids_raw :: bytes
  dl_value_width :: nat

definition parse_numeric_dict_layout :: "bytes \<Rightarrow> nat \<Rightarrow> dict_layout result" where
  "parse_numeric_dict_layout raw ids_byte_len =
     (if length raw < 4 then Err E_DECODE
      else
        bindR (read_u16 raw 0) (\<lambda>dict_len. bindR (index raw 3) (\<lambda>vw.
          let value_width = unat vw;
              ids_off = 4 + unat dict_len * value_width
          in if length raw < ids_off \<or> length raw < ids_off + ids_byte_len then Err E_DECODE
             else Ok \<lparr> dl_dict_raw = slice raw 4 ids_off,
                       dl_ids_raw = slice raw ids_off (ids_off + ids_byte_len),
                       dl_value_width = value_width \<rparr>)))"

definition div8_ceil :: "nat \<Rightarrow> nat" where "div8_ceil n = (n + 7) div 8"

text \<open>
  One id of the bit stream: \<open>width\<close> bits from \<open>bit_pos\<close> on, the low bit first. The shift
  distance wraps at the width of the word, as in a release build.
\<close>

fun unpack_value :: "bytes \<Rightarrow> nat \<Rightarrow> nat \<Rightarrow> nat \<Rightarrow> u32 \<Rightarrow> u32 result" where
  "unpack_value bs bit_pos bit_no 0 value = Ok value"
| "unpack_value bs bit_pos bit_no (Suc n) value =
     bindR (index bs (bit_pos div 8)) (\<lambda>b.
       let bit_val = drop_bit (bit_pos mod 8) b AND 1
       in unpack_value bs (bit_pos + 1) (bit_no + 1) n
            (value OR push_bit (bit_no mod 32) (ucast bit_val)))"

fun unpack_values :: "bytes \<Rightarrow> nat \<Rightarrow> nat \<Rightarrow> nat \<Rightarrow> u32 list result" where
  "unpack_values bs width bit_pos 0 = Ok []"
| "unpack_values bs width bit_pos (Suc rows) =
     bindR (unpack_value bs bit_pos 0 width 0) (\<lambda>v.
     bindR (unpack_values bs width (bit_pos + width) rows) (\<lambda>vs. Ok (v # vs)))"

definition decode_bitpacked_ids :: "nat \<Rightarrow> bytes \<Rightarrow> nat \<Rightarrow> u32 list result" where
  "decode_bitpacked_ids bit_width data rows =
     (if bit_width = 0 then Ok (replicate rows 0)
      else if length data < div8_ceil (rows * bit_width) then Err E_DECODE
      else unpack_values data bit_width 0 rows)"

definition gather :: "'a list \<Rightarrow> u32 list \<Rightarrow> 'a list result" where
  "gather dict ids = mapR (\<lambda>i. of_option E_DECODE (get dict (unat i))) ids"

text \<open>The macro \<^verbatim>\<open>dict_col!\<close>.\<close>

definition dict_col ::
  "(bytes \<Rightarrow> 'a) \<Rightarrow> ('a list \<Rightarrow> column_data) \<Rightarrow> nat \<Rightarrow> nat \<Rightarrow> bytes \<Rightarrow> u32 list \<Rightarrow> column_data result"
where
  "dict_col dec variant width value_width dict_raw ids =
     (if value_width \<noteq> width \<or> length dict_raw mod width \<noteq> 0 then Err E_DECODE
      else bindR (gather (map dec (chunks_exact width dict_raw)) ids) (\<lambda>vs. Ok (variant vs)))"

definition decode_dict_ids_to_column :: "u8 \<Rightarrow> bytes \<Rightarrow> nat \<Rightarrow> u32 list \<Rightarrow> column_data result" where
  "decode_dict_ids_to_column ty dict_raw value_width ids =
     (if ty = TYPE_U8 then
        (if value_width \<noteq> 1 then Err E_DECODE
         else bindR (gather dict_raw ids) (\<lambda>vs. Ok (CD_U8 vs)))
      else if ty = TYPE_I8 then
        (if value_width \<noteq> 1 then Err E_DECODE
         else bindR (gather dict_raw ids) (\<lambda>vs. Ok (CD_I8 vs)))
      else if ty = TYPE_U16 then dict_col from_le16 CD_U16 2 value_width dict_raw ids
      else if ty = TYPE_I16 then dict_col from_le16 CD_I16 2 value_width dict_raw ids
      else if ty = TYPE_U32 then dict_col from_le32 CD_U32 4 value_width dict_raw ids
      else if ty = TYPE_I32 then dict_col from_le32 CD_I32 4 value_width dict_raw ids
      else if ty = TYPE_I64 then dict_col from_le64 CD_I64 8 value_width dict_raw ids
      else Err E_DECODE)"

definition read_id :: "bytes \<Rightarrow> nat \<Rightarrow> nat \<Rightarrow> u32 result" where
  "read_id bs idx width =
     bindR (of_option E_DECODE (slice_get bs (idx * width) (idx * width + width))) (\<lambda>s.
       if length s = 1 then Ok (ucast (s ! 0))
       else if length s = 2 then Ok (ucast (from_le16 s))
       else if length s = 4 then Ok (from_le32 s)
       else Err E_DECODE)"

definition width_byte :: "bytes \<Rightarrow> nat" where
  "width_byte raw = (if 3 \<le> length raw then unat (raw ! 2) else 0)"

definition decode_numeric_dict :: "u8 \<Rightarrow> bytes \<Rightarrow> nat \<Rightarrow> column_data result" where
  "decode_numeric_dict ty raw rows =
     (let id_width = width_byte raw in
      if id_width \<noteq> 1 \<and> id_width \<noteq> 2 \<and> id_width \<noteq> 4 then Err E_DECODE
      else bindR (parse_numeric_dict_layout raw (rows * id_width)) (\<lambda>layout.
        bindR (mapR (\<lambda>idx. read_id (dl_ids_raw layout) idx id_width) [0..<rows]) (\<lambda>ids.
          decode_dict_ids_to_column ty (dl_dict_raw layout) (dl_value_width layout) ids)))"

definition decode_numeric_bitpacked :: "u8 \<Rightarrow> bytes \<Rightarrow> nat \<Rightarrow> column_data result" where
  "decode_numeric_bitpacked ty raw rows =
     (let bit_width = width_byte raw in
      bindR (parse_numeric_dict_layout raw (div8_ceil (rows * bit_width))) (\<lambda>layout.
        bindR (decode_bitpacked_ids bit_width (dl_ids_raw layout) rows) (\<lambda>ids.
          decode_dict_ids_to_column ty (dl_dict_raw layout) (dl_value_width layout) ids)))"

definition decode_numeric_raw :: "u8 \<Rightarrow> bytes \<Rightarrow> column_data result" where
  "decode_numeric_raw ty raw = decode_physical_column ty raw U_Err"

text \<open>The branch of \<^verbatim>\<open>ensure_decoded\<close> for a numeric dictionary page.\<close>

definition decode_num_dict_page :: "u8 \<Rightarrow> bytes \<Rightarrow> nat \<Rightarrow> column_data result" where
  "decode_num_dict_page ty raw rows =
     (case raw of
        [] \<Rightarrow> Err E_DECODE
      | mode # payload \<Rightarrow>
          if mode = 0 then decode_numeric_raw ty payload
          else if mode = 1 then decode_numeric_dict ty payload rows
          else if mode = 2 then decode_numeric_bitpacked ty payload rows
          else Err E_DECODE)"

section \<open>The encoder's buffers\<close>

datatype column_values =
    V_Int "i64 list" | V_Float "f64 list" | V_Bool "bool list" | V_Dict "u32 list"
  | V_String "bytes list"

record column_buffer =
  b_values :: column_values
  b_nulls :: bytes
  b_has_nulls :: bool
  b_null_count :: u32
  b_empties :: bytes
  b_empty_count :: u32

definition set_bitmap_bit :: "bytes \<Rightarrow> nat \<Rightarrow> bytes result" where
  "set_bitmap_bit bitmap idx =
     bindR (index bitmap (idx div 8)) (\<lambda>b.
       Ok (bitmap[idx div 8 := b OR push_bit (idx mod 8) 1]))"

definition bitmap_valid :: "bytes \<Rightarrow> nat \<Rightarrow> bool result" where
  "bitmap_valid bitmap idx =
     bindR (index bitmap (idx div 8)) (\<lambda>b. Ok (b AND push_bit (idx mod 8) 1 \<noteq> 0))"

definition buffer_new :: "column_spec \<Rightarrow> column_buffer" where
  "buffer_new col =
     \<lparr> b_values = (case cs_kind col of
          K_String \<Rightarrow> (if cs_dict_map col = None then V_String [] else V_Dict [])
        | K_Boolean \<Rightarrow> V_Bool []
        | K_Int \<Rightarrow> V_Int []
        | K_Float \<Rightarrow> V_Float []),
       b_nulls = replicate (div8_ceil ROWS_PER_CHUNK) 0, b_has_nulls = False, b_null_count = 0,
       b_empties = replicate (div8_ceil ROWS_PER_CHUNK) 0, b_empty_count = 0 \<rparr>"

fun values_len :: "column_values \<Rightarrow> nat" where
  "values_len (V_Int vs) = length vs"
| "values_len (V_Float vs) = length vs"
| "values_len (V_Bool vs) = length vs"
| "values_len (V_Dict vs) = length vs"
| "values_len (V_String vs) = length vs"

fun values_clear :: "column_values \<Rightarrow> column_values" where
  "values_clear (V_Int vs) = V_Int []"
| "values_clear (V_Float vs) = V_Float []"
| "values_clear (V_Bool vs) = V_Bool []"
| "values_clear (V_Dict vs) = V_Dict []"
| "values_clear (V_String vs) = V_String []"

definition buffer_reset :: "column_buffer \<Rightarrow> column_buffer" where
  "buffer_reset b =
     b\<lparr> b_values := values_clear (b_values b), b_nulls := map (\<lambda>_. 0) (b_nulls b),
        b_has_nulls := False, b_null_count := 0,
        b_empties := map (\<lambda>_. 0) (b_empties b), b_empty_count := 0 \<rparr>"

definition mark_null :: "column_buffer \<Rightarrow> column_buffer" where
  "mark_null b = b\<lparr> b_has_nulls := True, b_null_count := b_null_count b + 1 \<rparr>"

section \<open>Fixed-width pages: encoder\<close>

definition f32_of_int :: "int \<Rightarrow> f32" where
  "f32_of_int i =
     (let m = min (255 * 2 ^ 23) (round_mag 24 149 (nat \<bar>i\<bar>) 1)
      in of_nat (if i < 0 then 2 ^ 31 + m else m))"

definition expected_numeric :: "bytes result" where
  "expected_numeric = Err (Bail ''Expected numeric buffer'')"

definition encode_u8 :: "column_buffer \<Rightarrow> nat \<Rightarrow> bytes result" where
  "encode_u8 buffer rows =
     (case b_values buffer of
        V_Dict vs \<Rightarrow> Ok (map ucast vs)
      | V_Int vs \<Rightarrow> Ok (map ucast (take rows vs))
      | V_Float vs \<Rightarrow> Ok (map f_as_u8 (take rows vs))
      | _ \<Rightarrow> expected_numeric)"

definition encode_u16 :: "column_buffer \<Rightarrow> nat \<Rightarrow> bytes result" where
  "encode_u16 buffer rows =
     (case b_values buffer of
        V_Dict vs \<Rightarrow> Ok (concat (map (\<lambda>v. le16 (ucast v)) (take rows vs)))
      | V_Int vs \<Rightarrow> Ok (concat (map (\<lambda>v. le16 (ucast v)) (take rows vs)))
      | V_Float vs \<Rightarrow> Ok (concat (map (\<lambda>v. le16 (f_as_u16 v)) (take rows vs)))
      | _ \<Rightarrow> expected_numeric)"

definition encode_u32 :: "column_buffer \<Rightarrow> nat \<Rightarrow> bytes result" where
  "encode_u32 buffer rows =
     (case b_values buffer of
        V_Dict vs \<Rightarrow> Ok (concat (map le32 (take rows vs)))
      | V_Int vs \<Rightarrow> Ok (concat (map (\<lambda>v. le32 (ucast v)) (take rows vs)))
      | V_Float vs \<Rightarrow> Ok (concat (map (\<lambda>v. le32 (f_as_u32 v)) (take rows vs)))
      | _ \<Rightarrow> expected_numeric)"

definition encode_i8 :: "column_buffer \<Rightarrow> nat \<Rightarrow> bytes result" where
  "encode_i8 buffer rows =
     (case b_values buffer of
        V_Int vs \<Rightarrow> Ok (map ucast (take rows vs))
      | V_Float vs \<Rightarrow> Ok (map f_as_i8 (take rows vs))
      | _ \<Rightarrow> expected_numeric)"

definition encode_i16 :: "column_buffer \<Rightarrow> nat \<Rightarrow> bytes result" where
  "encode_i16 buffer rows =
     (case b_values buffer of
        V_Int vs \<Rightarrow> Ok (concat (map (\<lambda>v. le16 (ucast v)) (take rows vs)))
      | V_Float vs \<Rightarrow> Ok (concat (map (\<lambda>v. le16 (f_as_i16 v)) (take rows vs)))
      | _ \<Rightarrow> expected_numeric)"

definition encode_i32 :: "column_buffer \<Rightarrow> nat \<Rightarrow> bytes result" where
  "encode_i32 buffer rows =
     (case b_values buffer of
        V_Int vs \<Rightarrow> Ok (concat (map (\<lambda>v. le32 (ucast v)) (take rows vs)))
      | V_Float vs \<Rightarrow> Ok (concat (map (\<lambda>v. le32 (f_as_i32 v)) (take rows vs)))
      | _ \<Rightarrow> expected_numeric)"

definition encode_i64 :: "column_buffer \<Rightarrow> nat \<Rightarrow> bytes result" where
  "encode_i64 buffer rows =
     (case b_values buffer of
        V_Int vs \<Rightarrow> Ok (concat (map le64 (take rows vs)))
      | V_Float vs \<Rightarrow> Ok (concat (map (\<lambda>v. le64 (f_as_i64 v)) (take rows vs)))
      | _ \<Rightarrow> expected_numeric)"

definition encode_f32 :: "column_buffer \<Rightarrow> nat \<Rightarrow> bytes result" where
  "encode_f32 buffer rows =
     (case b_values buffer of
        V_Int vs \<Rightarrow> Ok (concat (map (\<lambda>v. le32 (f32_of_int (sint v))) (take rows vs)))
      | V_Float vs \<Rightarrow> Ok (concat (map (\<lambda>v. le32 (f32_of_f64 v)) (take rows vs)))
      | _ \<Rightarrow> expected_numeric)"

definition encode_f64 :: "column_buffer \<Rightarrow> nat \<Rightarrow> bytes result" where
  "encode_f64 buffer rows =
     (case b_values buffer of
        V_Int vs \<Rightarrow> Ok (concat (map (\<lambda>v. le64 (f_of_int (sint v))) (take rows vs)))
      | V_Float vs \<Rightarrow> Ok (concat (map le64 (take rows vs)))
      | _ \<Rightarrow> expected_numeric)"

definition encode_numeric_raw :: "column_spec \<Rightarrow> column_buffer \<Rightarrow> nat \<Rightarrow> bytes result" where
  "encode_numeric_raw col buffer rows =
     (let ty = cs_physical col in
      if ty = TYPE_U8 then encode_u8 buffer rows
      else if ty = TYPE_U16 then encode_u16 buffer rows
      else if ty = TYPE_U32 then encode_u32 buffer rows
      else if ty = TYPE_I8 then encode_i8 buffer rows
      else if ty = TYPE_I16 then encode_i16 buffer rows
      else if ty = TYPE_I32 then encode_i32 buffer rows
      else if ty = TYPE_I64 then encode_i64 buffer rows
      else if ty = TYPE_F32 then encode_f32 buffer rows
      else if ty = TYPE_F64 then encode_f64 buffer rows
      else Err (Bail ''Unsupported numeric raw type''))"

definition encode_bool :: "column_buffer \<Rightarrow> nat \<Rightarrow> bytes result" where
  "encode_bool buffer rows =
     (case b_values buffer of
        V_Bool vs \<Rightarrow>
          foldR (\<lambda>out (i, v). if v then set_bitmap_bit out i else Ok out)
            (replicate (div8_ceil rows) 0) (take rows (zip [0..<length vs] vs))
      | _ \<Rightarrow> Err (Bail ''Expected bool buffer''))"

section \<open>Dictionary pages: encoder\<close>

definition dict_type :: "u8 \<Rightarrow> (u8 \<times> int \<times> int \<times> bool) option" where
  "dict_type ty =
     (if ty = TYPE_U8 then Some (1, 0, 255, True)
      else if ty = TYPE_U16 then Some (2, 0, 65535, True)
      else if ty = TYPE_U32 then Some (4, 0, 2 ^ 32 - 1, True)
      else if ty = TYPE_I8 then Some (1, - 128, 127, False)
      else if ty = TYPE_I16 then Some (2, - 32768, 32767, False)
      else if ty = TYPE_I32 then Some (4, - (2 ^ 31), 2 ^ 31 - 1, False)
      else if ty = TYPE_I64 then Some (8, - (2 ^ 63), 2 ^ 63 - 1, False)
      else None)"

definition value_bytes :: "u8 \<Rightarrow> i64 \<Rightarrow> bytes" where
  "value_bytes ty v =
     (if ty = TYPE_U8 \<or> ty = TYPE_I8 then [ucast v]
      else if ty = TYPE_U16 \<or> ty = TYPE_I16 then le16 (ucast v)
      else if ty = TYPE_U32 \<or> ty = TYPE_I32 then le32 (ucast v)
      else le64 v)"

text \<open>
  One row of the loop that builds the dictionary; the state holds the values so far (the
  hash map from values to ids is their positions) and the ids so far.
\<close>

fun position :: "'a \<Rightarrow> 'a list \<Rightarrow> nat option" where
  "position x [] = None"
| "position x (y # ys) = (if x = y then Some 0 else map_option Suc (position x ys))"

definition buffer_value :: "column_buffer \<Rightarrow> nat \<Rightarrow> i64 result" where
  "buffer_value buffer idx =
     bindR (bitmap_valid (b_nulls buffer) idx) (\<lambda>valid.
       if valid then
         (case b_values buffer of
            V_Int vs \<Rightarrow> index vs idx
          | V_Float vs \<Rightarrow> bindR (index vs idx) (\<lambda>v. Ok (f_as_i64 v))
          | _ \<Rightarrow> Err (Bail ''Expected numeric buffer''))
       else Ok 0)"

definition dict_row ::
  "column_buffer \<Rightarrow> int \<Rightarrow> int \<Rightarrow> bool \<Rightarrow> i64 list \<times> u32 list \<Rightarrow> nat \<Rightarrow> (i64 list \<times> u32 list) result"
where
  "dict_row buffer min_value max_value is_unsigned st idx =
     (let (dict_values, ids) = st in
      bindR (buffer_value buffer idx) (\<lambda>value.
        if max_value < sint value \<or> sint value < min_value \<or> (is_unsigned \<and> sint value < 0) then
          Err (Bail ''Numeric dict value out of range'')
        else
          (case position value dict_values of
             Some i \<Rightarrow> Ok (dict_values, ids @ [of_nat i])
           | None \<Rightarrow> Ok (dict_values @ [value], ids @ [of_nat (length dict_values)]))))"

definition leading_zeros :: "'a::len word \<Rightarrow> nat" where
  "leading_zeros w = length (takeWhile (\<lambda>k. \<not> bit w k) (rev [0..<LENGTH('a)]))"

definition bit_width_for_len :: "u32 \<Rightarrow> u8" where
  "bit_width_for_len len =
     (if len \<le> 1 then 0 else 32 - of_nat (leading_zeros (len - 1)))"

text \<open>
  The bit packer: \<open>width\<close> bits of \<open>value\<close> into the output, the low bit first.
\<close>

fun pack_value :: "bytes \<Rightarrow> nat \<Rightarrow> nat \<Rightarrow> u32 \<Rightarrow> bytes result" where
  "pack_value out bit_pos 0 value = Ok out"
| "pack_value out bit_pos (Suc n) value =
     bindR (if value AND 1 \<noteq> 0 then set_bitmap_bit out bit_pos else Ok out) (\<lambda>out.
       pack_value out (bit_pos + 1) n (drop_bit 1 value))"

fun pack_values :: "bytes \<Rightarrow> nat \<Rightarrow> nat \<Rightarrow> u32 list \<Rightarrow> bytes result" where
  "pack_values out width bit_pos [] = Ok out"
| "pack_values out width bit_pos (i # ids) =
     bindR (pack_value out bit_pos width i) (\<lambda>out.
       pack_values out width (bit_pos + width) ids)"

definition encode_bitpacked_ids :: "u32 list \<Rightarrow> u32 \<Rightarrow> (u8 \<times> bytes) result" where
  "encode_bitpacked_ids ids dict_len =
     (let bit_width = bit_width_for_len dict_len;
          byte_len = div8_ceil (length ids * unat bit_width)
      in if bit_width = 0 then Ok (bit_width, [])
         else bindR (pack_values (replicate byte_len 0) (unat bit_width) 0 ids) (\<lambda>out.
           Ok (bit_width, out)))"

definition dict_header :: "nat \<Rightarrow> u8 \<Rightarrow> u8 \<Rightarrow> bytes" where
  "dict_header dict_len width value_width =
     le16 (of_nat dict_len) @ [width, value_width]"

definition id_bytes :: "u8 \<Rightarrow> u32 \<Rightarrow> bytes" where
  "id_bytes id_width i =
     (if id_width = 1 then [ucast i] else if id_width = 2 then le16 (ucast i) else le32 i)"

definition encode_numeric_dict ::
  "(bytes \<Rightarrow> bytes) \<Rightarrow> column_spec \<Rightarrow> column_buffer \<Rightarrow> nat \<Rightarrow> bytes result" where
  "encode_numeric_dict compress col buffer rows =
     bindR (of_option (Bail ''Unsupported dict physical type'') (dict_type (cs_physical col)))
       (\<lambda>(value_width, min_value, max_value, is_unsigned).
     bindR (foldR (dict_row buffer min_value max_value is_unsigned) ([], []) [0..<rows])
       (\<lambda>(dict_values, ids).
       let dict_len = length dict_values in
       if 65535 < dict_len then Err (Bail ''Numeric dict too large'')
       else
         let id_width = (if dict_len \<le> 255 then 1 else if dict_len \<le> 65535 then 2 else 4) in
         bindR (encode_numeric_raw col buffer rows) (\<lambda>raw.
           let dict_bytes = concat (map (value_bytes (cs_physical col)) dict_values);
               dict = dict_header dict_len id_width value_width @ dict_bytes @
                 concat (map (id_bytes id_width) ids)
           in bindR (encode_bitpacked_ids ids (of_nat dict_len)) (\<lambda>(bit_width, packed_ids).
             let packed = dict_header dict_len bit_width value_width @ dict_bytes @ packed_ids;
                 raw_len = length (compress raw); dict_comp_len = length (compress dict);
                 packed_len = length (compress packed)
             in Ok (if packed_len < dict_comp_len \<and> packed_len < raw_len then 2 # packed
                    else if dict_comp_len < raw_len then 1 # dict
                    else 0 # raw)))))"

end
