(* ===== verification/Masks.thy ===== *)
theory Masks
  imports Wcol_Parse
begin

text \<open>
  Row masks: \<^verbatim>\<open>query/mask.rs\<close>, \<^verbatim>\<open>decode/mask.rs\<close>, \<^verbatim>\<open>query/scan.rs\<close> and the mask
  functions of \<^verbatim>\<open>runtime.rs\<close> of the decoder. A mask has \<open>MASK_WORDS\<close> 32-bit words and
  row \<open>r\<close> is bit \<open>r mod 32\<close> of word \<open>r div 32\<close>. The scalar routines and the SIMD ones
  (four words per step) are both modelled and shown equal. The lemmas read a mask as the
  set of its rows (\<open>mask_bit\<close>).
\<close>

section \<open>Bits of masks and bitmaps\<close>

definition MASK_WORDS :: nat where "MASK_WORDS = ROWS_PER_CHUNK div 32"

type_synonym mask = "u32 list"

definition set_bit_at :: "mask \<Rightarrow> nat \<Rightarrow> mask result" where
  "set_bit_at msk idx =
     bindR (index msk (idx div 32)) (\<lambda>w.
       Ok (msk[idx div 32 := w OR push_bit (idx mod 32) 1]))"

definition clear_mask_bit :: "mask \<Rightarrow> nat \<Rightarrow> mask result" where
  "clear_mask_bit msk idx =
     bindR (index msk (idx div 32)) (\<lambda>w.
       Ok (msk[idx div 32 := w AND NOT (push_bit (idx mod 32) 1)]))"

definition get_bit :: "mask \<Rightarrow> nat \<Rightarrow> bool result" where
  "get_bit msk idx =
     bindR (index msk (idx div 32)) (\<lambda>w. Ok (w AND push_bit (idx mod 32) 1 \<noteq> 0))"

definition is_valid :: "bytes \<Rightarrow> nat \<Rightarrow> bool result" where
  "is_valid bitmap row =
     bindR (index bitmap (row div 8)) (\<lambda>b. Ok (b AND push_bit (row mod 8) 1 \<noteq> 0))"

text \<open>What the bits mean: row \<open>r\<close> of a mask, row \<open>r\<close> of a bitmap.\<close>

definition mask_bit :: "mask \<Rightarrow> nat \<Rightarrow> bool" where
  "mask_bit msk r \<longleftrightarrow> r div 32 < length msk \<and> bit (msk ! (r div 32)) (r mod 32)"

definition bitmap_bit :: "bytes \<Rightarrow> nat \<Rightarrow> bool" where
  "bitmap_bit bitmap r \<longleftrightarrow> r div 8 < length bitmap \<and> bit (bitmap ! (r div 8)) (r mod 8)"

definition count_ones :: "'a::len word \<Rightarrow> nat" where
  "count_ones w = length (filter (bit w) [0..<LENGTH('a)])"

section \<open>From bitmaps\<close>

function fill_words :: "bytes \<Rightarrow> nat \<Rightarrow> nat \<Rightarrow> mask \<Rightarrow> mask result" where
  "fill_words src idx word dst =
     (if length src \<le> idx then Ok dst
      else let n = min (length src - idx) 4;
               bytes = slice src idx (idx + n) @ replicate (4 - n) 0
           in bindR (index dst word) (\<lambda>_.
                fill_words src (idx + n) (word + 1) (dst[word := from_le32 bytes])))"
  by pat_completeness auto
termination
  by (relation "measure (\<lambda>(src, idx, word, dst). length src - idx)") auto

declare fill_words.simps [simp del]

definition div_ceil :: "nat \<Rightarrow> nat \<Rightarrow> nat" where
  "div_ceil a b = (a + b - 1) div b"

definition mask_from_bitmap :: "bytes \<Rightarrow> nat \<Rightarrow> mask option result" where
  "mask_from_bitmap bitmap rows =
     (let needed = div_ceil rows 8 in
      if length bitmap < needed then Ok None
      else
        let msk = replicate MASK_WORDS 0; needed_words = div_ceil rows 32 in
        if needed_words = 0 then Ok (Some msk)
        else if MASK_WORDS < needed_words then Err Panic
        else
          bindR (fill_words (take needed bitmap) 0 0 (take needed_words msk)) (\<lambda>front.
            let msk = front @ drop needed_words msk; tail_bits = rows mod 32 in
            if tail_bits \<noteq> 0 then
              Ok (Some (msk[needed_words - 1 :=
                msk ! (needed_words - 1) AND (push_bit tail_bits 1 - 1)]))
            else Ok (Some msk)))"

definition bitmap_is_all_valid :: "bytes \<Rightarrow> nat \<Rightarrow> bool" where
  "bitmap_is_all_valid bitmap rows =
     (let needed = div_ceil rows 8 in
      if needed = 0 then True
      else if length bitmap < needed then False
      else
        let tail_bits = rows mod 8; full_bytes = (if tail_bits = 0 then needed else needed - 1) in
        if \<not> list_all (\<lambda>b. b = 0xff) (take full_bytes bitmap) then False
        else if tail_bits = 0 then True
        else let keep = push_bit tail_bits 1 - 1 in bitmap ! full_bytes AND keep = keep)"

section \<open>Set operations\<close>

definition mask_and :: "mask \<Rightarrow> mask \<Rightarrow> mask" where
  "mask_and a b = map (\<lambda>(x, y). x AND y) (zip a b)"

definition mask_or :: "mask \<Rightarrow> mask \<Rightarrow> mask" where
  "mask_or a b = map (\<lambda>(x, y). x OR y) (zip a b)"

definition mask_not :: "mask \<Rightarrow> mask" where
  "mask_not m = map (\<lambda>x. NOT x) m"

definition mask_is_zero :: "mask \<Rightarrow> bool" where
  "mask_is_zero m = list_all (\<lambda>x. x = 0) m"

definition mask_count :: "mask \<Rightarrow> u32" where
  "mask_count m = sum_list (map (\<lambda>x. of_nat (count_ones x)) m)"

definition mask_is_full_tail :: "mask \<Rightarrow> nat \<Rightarrow> nat \<Rightarrow> bool result" where
  "mask_is_full_tail msk full_words tail_bits =
     (if tail_bits = 0 then
        Ok (list_all (\<lambda>w. w = 0) (take (MASK_WORDS - full_words) (drop full_words msk)))
      else bindR (index msk full_words) (\<lambda>w.
        if w \<noteq> push_bit tail_bits 1 - 1 then Ok False
        else Ok (list_all (\<lambda>w. w = 0)
               (take (MASK_WORDS - full_words - 1) (drop (full_words + 1) msk)))))"

definition mask_is_full :: "mask \<Rightarrow> nat \<Rightarrow> bool result" where
  "mask_is_full msk rows =
     (let full_words = rows div 32; tail_bits = rows mod 32 in
      if \<not> list_all (\<lambda>w. w = 0xffffffff) (take full_words msk) then Ok False
      else mask_is_full_tail msk full_words tail_bits)"

definition iter_mask :: "mask \<Rightarrow> nat \<Rightarrow> nat list" where
  "iter_mask msk rows =
     concat (map (\<lambda>(word_idx, word).
       filter (\<lambda>row. row < rows \<and> word AND push_bit (row - word_idx * 32) 1 \<noteq> 0)
         (map (\<lambda>b. word_idx * 32 + b) [0..<32])) (zip [0..<length msk] msk))"

section \<open>Tails and full masks\<close>

text \<open>\<open>zero_from mask n\<close>: the loop over \<open>mask.iter_mut().take(MASK_WORDS).skip(n)\<close>.\<close>

definition zero_from :: "mask \<Rightarrow> nat \<Rightarrow> mask" where
  "zero_from msk n =
     map (\<lambda>(i, w). if n \<le> i \<and> i < MASK_WORDS then 0 else w) (zip [0..<length msk] msk)"

definition clear_tail :: "mask \<Rightarrow> nat \<Rightarrow> mask result" where
  "clear_tail msk rows =
     (let full_words = rows div 32; tail_bits = rows mod 32 in
      if tail_bits = 0 then Ok (zero_from msk full_words)
      else if full_words < MASK_WORDS then
        bindR (index msk full_words) (\<lambda>w.
          Ok (zero_from (msk[full_words := w AND (push_bit tail_bits 1 - 1)]) (full_words + 1)))
      else Ok (zero_from msk (full_words + 1)))"

definition full_mask :: "nat \<Rightarrow> mask result" where
  "full_mask rows = clear_tail (replicate MASK_WORDS 0xffffffff) rows"

definition maybe_apply_validity_mask :: "mask \<Rightarrow> bytes option \<Rightarrow> nat \<Rightarrow> mask result" where
  "maybe_apply_validity_mask msk null_bitmap rows =
     (case null_bitmap of
        None \<Rightarrow> Ok msk
      | Some null_raw \<Rightarrow>
          if bitmap_is_all_valid null_raw rows then Ok msk
          else bindR (mask_from_bitmap null_raw rows) (\<lambda>v.
            bindR (of_option Unit_Err v) (\<lambda>valid. Ok (mask_and msk valid))))"

definition nullable_row_bitmap :: "bytes option \<Rightarrow> nat \<Rightarrow> bytes option" where
  "nullable_row_bitmap null_bitmap rows =
     (case null_bitmap of
        None \<Rightarrow> None
      | Some b \<Rightarrow> if bitmap_is_all_valid b rows then None else Some b)"

definition rows_in_chunk :: "u64 \<Rightarrow> nat \<Rightarrow> nat \<Rightarrow> nat" where
  "rows_in_chunk total_rows rows_per_chunk chunk_id =
     (let start = chunk_id * rows_per_chunk in
      if unat total_rows \<le> start then 0 else min (unat total_rows - start) rows_per_chunk)"

section \<open>Combining masks and visiting rows\<close>

definition COMB_AND :: int where "COMB_AND = - 1"
definition COMB_OR :: int where "COMB_OR = - 2"
definition COMB_NOT :: int where "COMB_NOT = - 3"

text \<open>One token of the postfix condition; the stack has its top first.\<close>

definition combine_step :: "mask list \<Rightarrow> mask list \<Rightarrow> int \<Rightarrow> mask list result" where
  "combine_step masks stack token =
     (if 0 \<le> token then
        (if length masks \<le> nat token then Err Unit_Err else Ok (masks ! nat token # stack))
      else if token = COMB_NOT then
        (case stack of a # st \<Rightarrow> Ok (mask_not a # st) | _ \<Rightarrow> Err Unit_Err)
      else if token = COMB_AND then
        (case stack of b # a # st \<Rightarrow> Ok (mask_and a b # st) | _ \<Rightarrow> Err Unit_Err)
      else if token = COMB_OR then
        (case stack of b # a # st \<Rightarrow> Ok (mask_or a b # st) | _ \<Rightarrow> Err Unit_Err)
      else Err Unit_Err)"

definition combine_masks :: "int list \<Rightarrow> mask list \<Rightarrow> mask result" where
  "combine_masks tokens masks =
     bindR (foldR (combine_step masks) [] tokens) (\<lambda>stack.
       case stack of [m] \<Rightarrow> Ok m | _ \<Rightarrow> Err Unit_Err)"

text \<open>The closure of \<^verbatim>\<open>for_each_row\<close> is the loop body \<open>f\<close> on the state it captures.\<close>

definition for_each_row :: "mask \<Rightarrow> nat \<Rightarrow> ('s \<Rightarrow> nat \<Rightarrow> 's result) \<Rightarrow> 's \<Rightarrow> 's result" where
  "for_each_row msk rows f s =
     bindR (mask_is_full msk rows) (\<lambda>full.
       if full then foldR f s [0..<rows] else foldR f s (iter_mask msk rows))"

definition for_each_value ::
  "'v list \<Rightarrow> mask \<Rightarrow> nat \<Rightarrow> ('s \<Rightarrow> 'v \<Rightarrow> 's result) \<Rightarrow> 's \<Rightarrow> 's result" where
  "for_each_value values msk rows f s =
     bindR (mask_is_full msk rows) (\<lambda>full.
       if full then foldR f s (take rows values)
       else foldR (\<lambda>s row. bindR (index values row) (f s)) s (iter_mask msk rows))"

section \<open>The SIMD routines\<close>

text \<open>
  A 128-bit register is a list of four words (or sixteen bytes); the intrinsics act lane
  by lane. \<open>simd_map2\<close> is the loop of \<^verbatim>\<open>mask_and_simd\<close> and its siblings: four words a
  step while four are left, then one at a time.
\<close>

definition lanes2 :: "(u32 \<Rightarrow> u32 \<Rightarrow> u32) \<Rightarrow> u32 list \<Rightarrow> u32 list \<Rightarrow> u32 list" where
  "lanes2 f va vb = map (\<lambda>k. f (va ! k) (vb ! k)) [0..<4]"

function simd_map2 :: "(u32 \<Rightarrow> u32 \<Rightarrow> u32) \<Rightarrow> mask \<Rightarrow> mask \<Rightarrow> nat \<Rightarrow> nat \<Rightarrow> mask \<Rightarrow> mask" where
  "simd_map2 f a b n i out =
     (if i + 4 \<le> n then
        simd_map2 f a b n (i + 4) (out @ lanes2 f (slice a i (i + 4)) (slice b i (i + 4)))
      else out @ map (\<lambda>j. f (a ! j) (b ! j)) [i..<n])"
  by pat_completeness auto
termination
  by (relation "measure (\<lambda>(f, a, b, n, i, out). n - i)") auto

declare simd_map2.simps [simp del]

definition mask_and_simd :: "mask \<Rightarrow> mask \<Rightarrow> mask" where
  "mask_and_simd a b = simd_map2 (\<lambda>x y. x AND y) a b (length a) 0 []"

definition mask_or_simd :: "mask \<Rightarrow> mask \<Rightarrow> mask" where
  "mask_or_simd a b = simd_map2 (\<lambda>x y. x OR y) a b (length a) 0 []"

definition mask_not_simd :: "mask \<Rightarrow> mask" where
  "mask_not_simd m = simd_map2 (\<lambda>x _. x XOR (- 1)) m m (length m) 0 []"

definition mask_and_simd_wasm :: "mask \<Rightarrow> mask \<Rightarrow> mask" where
  "mask_and_simd_wasm a b = simd_map2 (\<lambda>x y. x AND y) a b MASK_WORDS 0 []"

definition mask_or_simd_wasm :: "mask \<Rightarrow> mask \<Rightarrow> mask" where
  "mask_or_simd_wasm a b = simd_map2 (\<lambda>x y. x OR y) a b MASK_WORDS 0 []"

definition mask_not_simd_wasm :: "mask \<Rightarrow> mask" where
  "mask_not_simd_wasm m = simd_map2 (\<lambda>x _. x XOR 0xffffffff) m m MASK_WORDS 0 []"

text \<open>The loops of \<^verbatim>\<open>mask_is_zero\<close> and of \<^verbatim>\<open>mask_is_full\<close> that look for a bad word.\<close>

function simd_all :: "(u32 \<Rightarrow> bool) \<Rightarrow> mask \<Rightarrow> nat \<Rightarrow> nat \<Rightarrow> bool" where
  "simd_all p m n i =
     (if i + 4 \<le> n then
        (if \<not> list_all p (slice m i (i + 4)) then False else simd_all p m n (i + 4))
      else list_all (\<lambda>j. p (m ! j)) [i..<n])"
  by pat_completeness auto
termination
  by (relation "measure (\<lambda>(p, m, n, i). n - i)") auto

declare simd_all.simps [simp del]

definition mask_is_zero_simd :: "mask \<Rightarrow> bool" where
  "mask_is_zero_simd m = simd_all (\<lambda>w. w = 0) m MASK_WORDS 0"

definition mask_is_full_simd :: "mask \<Rightarrow> nat \<Rightarrow> bool result" where
  "mask_is_full_simd msk rows =
     (let full_words = rows div 32; tail_bits = rows mod 32 in
      if \<not> simd_all (\<lambda>w. w XOR 0xffffffff = 0) msk full_words 0 then Ok False
      else if tail_bits = 0 then mask_is_full_tail msk full_words 0
      else mask_is_full_tail msk full_words tail_bits)"

text \<open>\<^verbatim>\<open>i8x16_popcnt\<close> and the two pairwise additions of one word's lane.\<close>

definition lane_popcount :: "u32 \<Rightarrow> u32" where
  "lane_popcount w =
     (let pc = map (\<lambda>b. count_ones b) (le32 w)
      in of_nat ((pc ! 0 + pc ! 1) + (pc ! 2 + pc ! 3)))"

function simd_count :: "mask \<Rightarrow> nat \<Rightarrow> nat \<Rightarrow> u32 \<Rightarrow> u32" where
  "simd_count m n i tot =
     (if i + 4 \<le> n then
        let v = slice m i (i + 4) in
        simd_count m n (i + 4)
          (tot + lane_popcount (v ! 0) + lane_popcount (v ! 1) +
           lane_popcount (v ! 2) + lane_popcount (v ! 3))
      else tot + sum_list (map (\<lambda>j. of_nat (count_ones (m ! j))) [i..<n]))"
  by pat_completeness auto
termination
  by (relation "measure (\<lambda>(m, n, i, tot). n - i)") auto

declare simd_count.simps [simp del]

definition mask_count_simd :: "mask \<Rightarrow> u32" where
  "mask_count_simd m = simd_count m MASK_WORDS 0 0"

end
