(* ===== verification/String_Decode.thy ===== *)
theory String_Decode
  imports Masks Numeric_Page
begin

text \<open>
  Block-local string pages, as the decoder reads them: \<^verbatim>\<open>decode/string/header.rs\<close>,
  \<^verbatim>\<open>token.rs\<close>, \<^verbatim>\<open>preamble.rs\<close>, \<^verbatim>\<open>reconstruct.rs\<close> and \<^verbatim>\<open>ids.rs\<close>. Timers and
  statistics are left out. The hash functions are parameters; the environment variable
  \<^verbatim>\<open>WCOL_STRING_HASH_IDS\<close> is the argument \<open>hash_only\<close>.
\<close>

section \<open>Header\<close>

definition validate_string_header_option_a ::
  "nat \<Rightarrow> nat \<Rightarrow> nat \<Rightarrow> nat \<Rightarrow> nat \<Rightarrow> nat \<Rightarrow> nat \<Rightarrow> nat \<Rightarrow> nat \<Rightarrow> u8 \<Rightarrow> u8 \<Rightarrow> unit result" where
  "validate_string_header_option_a raw_len perm_off lcp_off len_off dict_off data_off data_len
     dlen rows row_id_width suffix_len_width =
     (if perm_off < 32 \<or> raw_len < perm_off then Err (Code (- 105))
      else if lcp_off < perm_off \<or> raw_len < lcp_off then Err (Code (- 106))
      else if len_off < lcp_off \<or> raw_len < len_off then Err (Code (- 107))
      else if dict_off < len_off \<or> raw_len < dict_off then Err (Code (- 108))
      else if data_off < dict_off \<or> raw_len < data_off then Err (Code (- 109))
      else if raw_len < data_off + data_len then Err (Code (- 110))
      else if raw_len < dict_off + dlen then Err (Code (- 111))
      else
        let row_bytes = unat row_id_width * rows in
        if raw_len < perm_off + row_bytes then Err (Code (- 112))
        else if lcp_off \<noteq> perm_off + row_bytes then Err (Code (- 112))
        else if \<not> (lcp_off \<le> len_off \<and> len_off \<le> dict_off) then Err (Code (- 113))
        else
          let lcp_bytes = len_off - lcp_off in
          if lcp_bytes mod 2 \<noteq> 0 then Err (Code (- 113))
          else
            let value_count = lcp_bytes div 2; len_bytes = dict_off - len_off in
            if len_bytes mod unat suffix_len_width \<noteq> 0 then Err (Code (- 113))
            else if len_bytes div unat suffix_len_width \<noteq> value_count then Err (Code (- 113))
            else Ok ())"

definition validate_option_a_row_count :: "bytes \<Rightarrow> nat \<Rightarrow> unit result" where
  "validate_option_a_row_count raw rows =
     (if length raw < 32 then Err (Code (- 101))
      else bindR (read_u16 raw 0) (\<lambda>n.
        if unat n \<noteq> rows then Err (Code (- 102)) else Ok ()))"

fun read_indices :: "bytes \<Rightarrow> nat \<Rightarrow> nat \<Rightarrow> u8 \<Rightarrow> nat \<Rightarrow> nat list result" where
  "read_indices raw offset 0 width max_value = Ok []"
| "read_indices raw offset (Suc count) width max_value =
     bindR (map_err (Code (- 115)) (read_u32_advance raw offset width)) (\<lambda>(v, offset).
       if max_value \<le> unat v then Err (Code (- 115))
       else bindR (read_indices raw offset count width max_value) (\<lambda>vs. Ok (unat v # vs)))"

fun read_lcps :: "bytes \<Rightarrow> nat \<Rightarrow> nat \<Rightarrow> nat list result" where
  "read_lcps raw offset 0 = Ok []"
| "read_lcps raw offset (Suc count) =
     bindR (read_u16 raw offset) (\<lambda>v.
     bindR (read_lcps raw (offset + 2) count) (\<lambda>vs. Ok (unat v # vs)))"

fun read_suffix_lens :: "bytes \<Rightarrow> nat \<Rightarrow> nat \<Rightarrow> u8 \<Rightarrow> nat \<Rightarrow> (nat list \<times> nat) result" where
  "read_suffix_lens raw offset 0 width tot = Ok ([], tot)"
| "read_suffix_lens raw offset (Suc count) width tot =
     bindR (map_err (Code (- 116)) (read_u32_advance raw offset width)) (\<lambda>(len, offset).
     bindR (read_suffix_lens raw offset count width (tot + unat len)) (\<lambda>(lens, tot).
       Ok (unat len # lens, tot)))"

section \<open>Tokens\<close>

definition parse_token_dict :: "bytes \<Rightarrow> bytes list result" where
  "parse_token_dict bs =
     (let offset_bytes = 2 * (128 + 1) in
      if length bs < offset_bytes then Err (Code (- 130))
      else
        bindR (mapR (\<lambda>i. read_u16 bs (i * 2)) [0..<129]) (\<lambda>offsets.
          let blob = drop offset_bytes bs in
          mapR (\<lambda>idx.
            let start = unat (offsets ! idx); e = unat (offsets ! (idx + 1)) in
            if e < start \<or> length blob < e then Err (Code (- 131)) else Ok (slice blob start e))
          [0..<128]))"

text \<open>\<open>out\<close> is the output so far and \<open>data\<close> the input from the cursor on.\<close>

function token_stream_loop :: "bytes list \<Rightarrow> nat \<Rightarrow> bytes \<Rightarrow> bytes \<Rightarrow> (bytes \<times> bytes) result" where
  "token_stream_loop tokens expected out data =
     (if expected \<le> length out then Ok (out, data)
      else
        (case data of
           [] \<Rightarrow> Err (Code (- 140))
         | b # rest \<Rightarrow>
             if b < 128 then
               (case get tokens (unat b) of
                  None \<Rightarrow> Err (Code (- 141))
                | Some token \<Rightarrow>
                    if expected < length out + length token then Err (Code (- 142))
                    else token_stream_loop tokens expected (out @ token) rest)
             else
               let run = unat (b - 128) in
               if length rest < run then Err (Code (- 143))
               else if expected < length out + run then Err (Code (- 143))
               else token_stream_loop tokens expected (out @ take run rest) (drop run rest)))"
  by pat_completeness auto
termination
  by (relation "measure (\<lambda>(tokens, expected, out, data). length data)") auto

declare token_stream_loop.simps [simp del]

definition decode_full_token_stream :: "bytes \<Rightarrow> bytes list \<Rightarrow> nat \<Rightarrow> bytes result" where
  "decode_full_token_stream data tokens expected =
     bindR (token_stream_loop tokens expected [] data) (\<lambda>(out, rest).
       if rest \<noteq> [] then Err (Code (- 122)) else Ok out)"

section \<open>Preamble\<close>

record string_preamble =
  sp_indices :: "nat list"
  sp_lcps :: "nat list"
  sp_suffix_lens :: "nat list"
  sp_suffix_blob :: bytes
  sp_data_off :: nat
  sp_data_len :: nat
  sp_rows :: nat
  sp_value_count :: nat

definition decode_string_preamble :: "bytes \<Rightarrow> nat \<Rightarrow> string_preamble result" where
  "decode_string_preamble raw rows =
     bindR (validate_option_a_row_count raw rows) (\<lambda>_.
     bindR (index raw 2) (\<lambda>perm_width_raw.
       if perm_width_raw AND 0x80 \<noteq> 0 \<or> perm_width_raw AND 0x40 \<noteq> 0 then Err (Code (- 126))
       else
     bindR (index raw 3) (\<lambda>suffix_len_raw.
       let perm_width = perm_width_raw AND 0x3f in
       if suffix_len_raw AND 0x80 = 0 then Err (Code (- 128))
       else
       let suffix_len_width = suffix_len_raw AND NOT 0x80 in
       if perm_width \<noteq> 2 \<and> perm_width \<noteq> 4 then Err (Code (- 103))
       else if suffix_len_width \<noteq> 2 \<and> suffix_len_width \<noteq> 4 then Err (Code (- 104))
       else
     bindR (read_u32 raw 4) (\<lambda>perm_off. bindR (read_u32 raw 8) (\<lambda>lcp_off.
     bindR (read_u32 raw 12) (\<lambda>len_off. bindR (read_u32 raw 16) (\<lambda>data_off.
     bindR (read_u32 raw 20) (\<lambda>data_len. bindR (read_u32 raw 24) (\<lambda>dict_off.
     bindR (read_u32 raw 28) (\<lambda>dlen.
       let perm_off = unat perm_off; lcp_off = unat lcp_off; len_off = unat len_off;
           data_off = unat data_off; data_len = unat data_len; dict_off = unat dict_off;
           dlen = unat dlen in
     bindR (validate_string_header_option_a (length raw) perm_off lcp_off len_off dict_off
              data_off data_len dlen rows perm_width suffix_len_width) (\<lambda>_.
       let value_count = (len_off - lcp_off) div 2 in
       if value_count = 0 \<and> 0 < rows then Err (Code (- 113))
       else
     bindR (read_indices raw perm_off rows perm_width (max value_count 1)) (\<lambda>indices.
     bindR (read_lcps raw lcp_off value_count) (\<lambda>lcps.
     bindR (read_suffix_lens raw len_off value_count suffix_len_width 0) (\<lambda>(suffix_lens, total_suffix).
     bindR (if 0 < dlen then parse_token_dict (slice raw dict_off (dict_off + dlen)) else Ok [])
       (\<lambda>token_dict.
       if token_dict = [] \<and> total_suffix \<noteq> data_len then Err (Code (- 117))
       else
         let data = slice raw data_off (data_off + data_len) in
     bindR (if token_dict = [] then
              (if length data \<noteq> total_suffix then Err (Code (- 119)) else Ok data)
            else decode_full_token_stream data token_dict total_suffix) (\<lambda>suffix_blob.
       Ok \<lparr> sp_indices = indices, sp_lcps = lcps, sp_suffix_lens = suffix_lens,
            sp_suffix_blob = suffix_blob, sp_data_off = data_off, sp_data_len = data_len,
            sp_rows = rows, sp_value_count = value_count \<rparr>))))))))))))))))"

section \<open>Unique values and ids\<close>

text \<open>
  \<^verbatim>\<open>reconstruct_unique_values\<close>; the closure \<open>build\<close> changes a captured state.
\<close>

fun reconstruct_loop ::
  "(nat \<times> nat) list \<Rightarrow> bytes \<Rightarrow> nat \<Rightarrow> bytes \<Rightarrow> ('s \<Rightarrow> bytes \<Rightarrow> ('t \<times> 's) result) \<Rightarrow> 's
     \<Rightarrow> ('t list \<times> nat \<times> 's) result" where
  "reconstruct_loop [] blob cursor prev build s = Ok ([], cursor, s)"
| "reconstruct_loop ((lcp, suffix_len) # rest) blob cursor prev build s =
     (if length prev < lcp then Err (Code (- 118))
      else if length blob < cursor + suffix_len then Err (Code (- 119))
      else
        let prev = take lcp prev @ slice blob cursor (cursor + suffix_len) in
        bindR (build s prev) (\<lambda>(x, s).
        bindR (reconstruct_loop rest blob (cursor + suffix_len) prev build s) (\<lambda>(xs, cursor, s).
          Ok (x # xs, cursor, s))))"

definition reconstruct_unique_values ::
  "nat list \<Rightarrow> nat list \<Rightarrow> bytes \<Rightarrow> nat \<Rightarrow> ('s \<Rightarrow> bytes \<Rightarrow> ('t \<times> 's) result) \<Rightarrow> 's
     \<Rightarrow> ('t list \<times> 's) result" where
  "reconstruct_unique_values lcps suffix_lens blob value_count build s =
     (if length lcps < value_count \<or> length suffix_lens < value_count then Err Panic
      else
        bindR (reconstruct_loop (take value_count (zip lcps suffix_lens)) blob 0 [] build s)
          (\<lambda>(out, cursor, s).
            if cursor \<noteq> length blob then Err (Code (- 121)) else Ok (out, s)))"

text \<open>The closure of \<^verbatim>\<open>decode_raw_string_ids\<close>: look the value up or append it.\<close>

definition intern_value :: "(bytes \<Rightarrow> u64) \<Rightarrow> dictionary \<Rightarrow> bytes \<Rightarrow> (u32 \<times> dictionary) result" where
  "intern_value xxh3_64 dict bs =
     bindR (of_option (Code (- 123)) (from_utf8 bs)) (\<lambda>value.
       case map_of (d_lookup dict) value of
         Some i \<Rightarrow> Ok (i, dict)
       | None \<Rightarrow>
           let i = of_nat (length (d_values dict)) in
           Ok (i, dict\<lparr> d_values := d_values dict @ [value],
                        d_lookup := (value, i) # d_lookup dict,
                        d_hash_cache := d_hash_cache dict @ [xxh3_64 value] \<rparr>))"

fun find_hash :: "u64 list \<Rightarrow> u64 \<Rightarrow> nat \<Rightarrow> nat option" where
  "find_hash [] h idx = None"
| "find_hash (x # xs) h idx = (if x = h then Some idx else find_hash xs h (idx + 1))"

definition dict_id_for_sink_hash :: "dictionary \<Rightarrow> u64 \<Rightarrow> u32 \<times> dictionary" where
  "dict_id_for_sink_hash dict h =
     (case find_hash (d_hash_cache dict) h 0 of
        Some idx \<Rightarrow> (of_nat idx, dict)
      | None \<Rightarrow> (of_nat (length (d_hash_cache dict)),
                 dict\<lparr> d_hash_cache := d_hash_cache dict @ [h] \<rparr>))"

definition map_row_ids :: "string_preamble \<Rightarrow> u32 list \<Rightarrow> u32 list result" where
  "map_row_ids p unique_ids =
     mapR (\<lambda>row. bindR (index (sp_indices p) row) (\<lambda>u.
       of_option (Code (- 115)) (get unique_ids u))) [0..<sp_rows p]"

definition decode_raw_string_ids_hash_only ::
  "(bytes \<Rightarrow> u64) \<Rightarrow> string_preamble \<Rightarrow> dictionary \<Rightarrow> (u32 list \<times> dictionary) result" where
  "decode_raw_string_ids_hash_only xxh3_seeded p dict =
     bindR (reconstruct_unique_values (sp_lcps p) (sp_suffix_lens p) (sp_suffix_blob p)
         (sp_value_count p) (\<lambda>d bs. Ok (dict_id_for_sink_hash d (xxh3_seeded bs))) dict)
       (\<lambda>(unique_ids, dict). bindR (map_row_ids p unique_ids) (\<lambda>ids. Ok (ids, dict)))"

definition decode_raw_string_ids ::
  "(bytes \<Rightarrow> u64) \<Rightarrow> (bytes \<Rightarrow> u64) \<Rightarrow> bool \<Rightarrow> bytes \<Rightarrow> nat \<Rightarrow> dictionary
     \<Rightarrow> (u32 list \<times> dictionary) result" where
  "decode_raw_string_ids xxh3_64 xxh3_seeded hash_only raw rows dict =
     bindR (decode_string_preamble raw rows) (\<lambda>p.
       if hash_only then decode_raw_string_ids_hash_only xxh3_seeded p dict
       else
         bindR (reconstruct_unique_values (sp_lcps p) (sp_suffix_lens p) (sp_suffix_blob p)
             (sp_value_count p) (intern_value xxh3_64) dict) (\<lambda>(unique_ids, dict).
           bindR (map_row_ids p unique_ids) (\<lambda>ids. Ok (ids, dict))))"

text \<open>The hash-only fast path keeps the row ids and the hashes of the unique values.\<close>

datatype hash_bits = Bits64 | Bits128

record option_a_hash =
  oh_hi :: u64
  oh_lo :: u64
  oh_sink :: u64

definition rotate_left64 :: "nat \<Rightarrow> u64 \<Rightarrow> u64" where
  "rotate_left64 n w = push_bit n w OR drop_bit (64 - n) w"

definition hash_option_a_unique ::
  "(bytes \<Rightarrow> u64) \<Rightarrow> (bytes \<Rightarrow> 128 word) \<Rightarrow> bytes \<Rightarrow> hash_bits \<Rightarrow> option_a_hash" where
  "hash_option_a_unique xxh3_seeded xxh3_128 bs bits =
     (case bits of
        Bits64 \<Rightarrow> \<lparr> oh_hi = xxh3_seeded bs, oh_lo = 0, oh_sink = xxh3_seeded bs \<rparr>
      | Bits128 \<Rightarrow>
          let h = xxh3_128 bs; lo = ucast h; hi = ucast (drop_bit 64 h)
          in \<lparr> oh_hi = hi, oh_lo = lo, oh_sink = lo XOR rotate_left64 13 hi \<rparr>)"

record option_a_fast_path =
  fp_row_to_local_id :: "u32 list"
  fp_unique_hashes :: "option_a_hash list"
  fp_value_count :: nat

definition decode_option_a_fast_path ::
  "(bytes \<Rightarrow> u64) \<Rightarrow> (bytes \<Rightarrow> 128 word) \<Rightarrow> bytes \<Rightarrow> nat \<Rightarrow> hash_bits \<Rightarrow> option_a_fast_path result" where
  "decode_option_a_fast_path xxh3_seeded xxh3_128 raw rows bits =
     bindR (decode_string_preamble raw rows) (\<lambda>p.
     bindR (reconstruct_unique_values (sp_lcps p) (sp_suffix_lens p) (sp_suffix_blob p)
         (sp_value_count p)
         (\<lambda>_ bs. Ok (hash_option_a_unique xxh3_seeded xxh3_128 bs bits, ())) ()) (\<lambda>(hashes, _).
     bindR (mapR (\<lambda>row. bindR (of_option (Code (- 115)) (get (sp_indices p) row))
         (\<lambda>i. Ok (of_nat i))) [0..<sp_rows p]) (\<lambda>ids.
       Ok \<lparr> fp_row_to_local_id = ids, fp_unique_hashes = hashes,
            fp_value_count = sp_value_count p \<rparr>)))"

end
