(* ===== verification/Like_Mask.thy ===== *)
theory Like_Mask
  imports String_Decode Masks
begin

text \<open>
  LIKE on a raw string page: the substring search of \<^verbatim>\<open>decode/simd.rs\<close>, scalar and SIMD,
  the incremental test of one front-coded value of \<^verbatim>\<open>decode/string/pattern.rs\<close>, and the
  row mask of \<^verbatim>\<open>decode/string/like_mask.rs\<close>. The SIMD search loads 16 bytes at a time, also
  where fewer are left; what it then reads is the memory after the haystack, the argument
  \<open>after\<close>.
\<close>

section \<open>Substring search\<close>

text \<open>\<^verbatim>\<open>haystack.windows(n).position(|w| w == needle)\<close>.\<close>

fun position_from :: "nat \<Rightarrow> bytes list \<Rightarrow> bytes \<Rightarrow> nat option" where
  "position_from i [] needle = None"
| "position_from i (w # ws) needle = (if w = needle then Some i else position_from (i + 1) ws needle)"

definition windows :: "nat \<Rightarrow> bytes \<Rightarrow> bytes list" where
  "windows n xs = map (\<lambda>i. slice xs i (i + n)) [0..<length xs + 1 - n]"

definition find_subslice :: "bytes \<Rightarrow> bytes \<Rightarrow> nat option" where
  "find_subslice haystack needle =
     (if needle = [] then Some 0
      else position_from 0 (windows (length needle) haystack) needle)"

text \<open>The lanes of a 16-byte block that hold \<open>b\<close>: the set bits of
  \<^verbatim>\<open>u8x16_bitmask(u8x16_eq(..))\<close>, as \<^verbatim>\<open>trailing_zeros\<close> visits them.\<close>

definition eq_lanes :: "bytes \<Rightarrow> u8 \<Rightarrow> nat list" where
  "eq_lanes block b = filter (\<lambda>k. block ! k = b) [0..<16]"

definition load16 :: "bytes \<Rightarrow> bytes \<Rightarrow> nat \<Rightarrow> bytes" where
  "load16 haystack after i = slice (haystack @ after) i (i + 16)"

function memchr_blocks :: "bytes \<Rightarrow> bytes \<Rightarrow> u8 \<Rightarrow> nat \<Rightarrow> nat option \<times> nat" where
  "memchr_blocks haystack after needle i =
     (if i \<le> length haystack - 16 then
        (case eq_lanes (load16 haystack after i) needle of
           k # _ \<Rightarrow> (Some (i + k), i)
         | [] \<Rightarrow> memchr_blocks haystack after needle (i + 16))
      else (None, i))"
  by pat_completeness auto
termination
  by (relation "measure (\<lambda>(haystack, after, needle, i). length haystack + 1 - i)") auto

fun memchr_tail :: "bytes \<Rightarrow> u8 \<Rightarrow> nat \<Rightarrow> nat option" where
  "memchr_tail [] needle i = None"
| "memchr_tail (x # xs) needle i = (if x = needle then Some i else memchr_tail xs needle (i + 1))"

definition memchr_simd :: "bytes \<Rightarrow> bytes \<Rightarrow> u8 \<Rightarrow> nat option" where
  "memchr_simd haystack after needle =
     (case memchr_blocks haystack after needle 0 of
        (Some pos, _) \<Rightarrow> Some pos
      | (None, i) \<Rightarrow> memchr_tail (drop i haystack) needle i)"

text \<open>The candidates of one block: \<open>Some r\<close> where the search returns \<open>r\<close>.\<close>

fun try_lanes :: "bytes \<Rightarrow> bytes \<Rightarrow> nat \<Rightarrow> nat list \<Rightarrow> nat option option" where
  "try_lanes haystack needle i [] = None"
| "try_lanes haystack needle i (k # ks) =
     (if length haystack - length needle < i + k then Some None
      else if slice haystack (i + k) (i + k + length needle) = needle then Some (Some (i + k))
      else try_lanes haystack needle i ks)"

function search_blocks :: "bytes \<Rightarrow> bytes \<Rightarrow> bytes \<Rightarrow> nat \<Rightarrow> nat option option \<times> nat" where
  "search_blocks haystack after needle i =
     (if i \<le> length haystack - 16 then
        (case try_lanes haystack needle i (eq_lanes (load16 haystack after i) (needle ! 0)) of
           Some r \<Rightarrow> (Some r, i)
         | None \<Rightarrow> search_blocks haystack after needle (i + 16))
      else (None, i))"
  by pat_completeness auto
termination
  by (relation "measure (\<lambda>(haystack, after, needle, i). length haystack + 1 - i)") auto

function search_tail :: "bytes \<Rightarrow> bytes \<Rightarrow> nat \<Rightarrow> nat option" where
  "search_tail haystack needle i =
     (if i \<le> length haystack - length needle then
        (if haystack ! i = needle ! 0 \<and> slice haystack i (i + length needle) = needle then Some i
         else search_tail haystack needle (i + 1))
      else None)"
  by pat_completeness auto
termination
  by (relation "measure (\<lambda>(haystack, needle, i). length haystack + 1 - i)") auto

definition find_subslice_simd :: "bytes \<Rightarrow> bytes \<Rightarrow> bytes \<Rightarrow> nat option" where
  "find_subslice_simd haystack after needle =
     (let n = length needle in
      if n = 0 then Some 0
      else if n = 1 then memchr_simd haystack after (needle ! 0)
      else if length haystack < n then None
      else case search_blocks haystack after needle 0 of
          (Some r, _) \<Rightarrow> r
        | (None, i) \<Rightarrow> search_tail haystack needle i)"

declare memchr_blocks.simps [simp del] search_blocks.simps [simp del] search_tail.simps [simp del]

section \<open>One value\<close>

text \<open>
  \<open>min_prev\<close> is the end of the first match in \<open>prev\<close>. The cursor moves over the suffix before
  the search.
\<close>

definition boundary_match :: "bytes \<Rightarrow> bytes \<Rightarrow> nat \<Rightarrow> bytes \<Rightarrow> nat option" where
  "boundary_match prev suffix lcp pattern =
     (let m = length pattern in
      if m \<le> 1 then None
      else
        let start_off = lcp - (m - 1);
            buf = slice prev start_off lcp @ take (min (m - 1) (length suffix)) suffix in
        if length buf < m then None
        else map_option (\<lambda>pos. start_off + pos + m) (find_subslice buf pattern))"

definition suffix_match :: "bytes \<Rightarrow> nat \<Rightarrow> bytes \<Rightarrow> nat option" where
  "suffix_match suffix lcp pattern =
     (let m = length pattern in
      if m = 1 then map_option (\<lambda>pos. lcp + pos + 1) (find_subslice suffix pattern)
      else if m \<le> length suffix then map_option (\<lambda>pos. lcp + pos + m) (find_subslice suffix pattern)
      else None)"

definition row_contains_pattern ::
  "bytes \<Rightarrow> nat list \<Rightarrow> nat list \<Rightarrow> bytes \<Rightarrow> nat \<Rightarrow> nat \<Rightarrow> bytes \<Rightarrow> nat option
     \<Rightarrow> (bool \<times> nat option \<times> nat) result" where
  "row_contains_pattern suffix_blob suffix_lens lcps prev blob_cursor idx pattern min_prev =
     bindR (index lcps idx) (\<lambda>lcp.
       if length prev < lcp then Err (Code (- 118))
       else bindR (index suffix_lens idx) (\<lambda>suffix_len.
         if length suffix_blob < blob_cursor + suffix_len then Err (Code (- 119))
         else
           let suffix = slice suffix_blob blob_cursor (blob_cursor + suffix_len);
               blob_cursor = blob_cursor + suffix_len;
               inherited = (case min_prev of Some p \<Rightarrow> if p \<le> lcp then Some p else None
                                           | None \<Rightarrow> None)
           in case inherited of
                Some p \<Rightarrow> Ok (True, Some p, blob_cursor)
              | None \<Rightarrow>
                  if lcp + suffix_len < length pattern then Ok (False, None, blob_cursor)
                  else
                    (case boundary_match prev suffix lcp pattern of
                       Some e \<Rightarrow> Ok (True, Some e, blob_cursor)
                     | None \<Rightarrow>
                         (case suffix_match suffix lcp pattern of
                            Some e \<Rightarrow> Ok (True, Some e, blob_cursor)
                          | None \<Rightarrow> Ok (False, None, blob_cursor)))))"

section \<open>The row mask\<close>

text \<open>The loop over the values; its state is \<open>prev\<close>, the cursor and the end of the first match.\<close>

definition like_value_step ::
  "string_preamble \<Rightarrow> bytes \<Rightarrow> bytes \<times> nat \<times> nat option \<times> bool list \<Rightarrow> nat
     \<Rightarrow> (bytes \<times> nat \<times> nat option \<times> bool list) result" where
  "like_value_step p pattern st idx =
     (let (prev, cursor, min_prev, found) = st in
      bindR (row_contains_pattern (sp_suffix_blob p) (sp_suffix_lens p) (sp_lcps p) prev cursor idx
               pattern min_prev) (\<lambda>(contains, mn, cursor).
        Ok (take (sp_lcps p ! idx) prev @
              slice (sp_suffix_blob p) (cursor - sp_suffix_lens p ! idx) cursor,
            cursor, mn, found @ [contains])))"

definition like_row_step :: "string_preamble \<Rightarrow> bool list \<Rightarrow> bool \<Rightarrow> mask \<Rightarrow> nat \<Rightarrow> mask result" where
  "like_row_step p found negated msk row =
     bindR (of_option (Code (- 115)) (get (sp_indices p) row)) (\<lambda>u.
     bindR (of_option (Code (- 115)) (get found u)) (\<lambda>contains.
       if contains \<noteq> negated then set_bit_at msk row
       else if negated then clear_mask_bit msk row
       else Ok msk))"

definition decode_raw_string_like_mask :: "bytes \<Rightarrow> nat \<Rightarrow> bytes \<Rightarrow> bool \<Rightarrow> mask result" where
  "decode_raw_string_like_mask raw rows pattern negated =
     (let none = replicate MASK_WORDS 0; all = replicate MASK_WORDS 0xffffffff in
      if pattern = [] then
        bindR (validate_option_a_row_count raw rows) (\<lambda>_.
          clear_tail (if negated then none else all) rows)
      else
        bindR (decode_string_preamble raw rows) (\<lambda>p.
        bindR (foldR (like_value_step p pattern) ([], 0, None, []) [0..<sp_value_count p])
          (\<lambda>(prev, cursor, mn, found).
        bindR (foldR (like_row_step p found negated) (if negated then all else none) [0..<sp_rows p])
          (\<lambda>msk.
            if cursor \<noteq> length (sp_suffix_blob p) then Err (Code (- 121))
            else clear_tail msk (sp_rows p)))))"

end
