(* ===== verification/Filter_Mask.thy ===== *)
theory Filter_Mask
  imports Numeric_Page Like_Mask Wcol_Runtime
begin

text \<open>
  The row mask of one filter: \<^verbatim>\<open>query/compare.rs\<close>, \<^verbatim>\<open>query/scale.rs\<close> and the mask builders
  of \<^verbatim>\<open>query/filter.rs\<close> with their SIMD versions. A SIMD compare is a function of one lane;
  the loops take 32 rows a step, then one register, then one row.
\<close>

section \<open>Comparisons\<close>

definition OP_EQ :: u8 where "OP_EQ = 0"
definition OP_NEQ :: u8 where "OP_NEQ = 1"
definition OP_LT :: u8 where "OP_LT = 2"
definition OP_LTE :: u8 where "OP_LTE = 3"
definition OP_GT :: u8 where "OP_GT = 4"
definition OP_GTE :: u8 where "OP_GTE = 5"
definition OP_BETWEEN :: u8 where "OP_BETWEEN = 6"
definition OP_LIKE :: u8 where "OP_LIKE = 7"
definition OP_NOT_LIKE :: u8 where "OP_NOT_LIKE = 8"

lemmas op_defs = OP_EQ_def OP_NEQ_def OP_LT_def OP_LTE_def OP_GT_def OP_GTE_def OP_BETWEEN_def
  OP_LIKE_def OP_NOT_LIKE_def

text \<open>The operators of the type are the arguments \<open>eq\<close>, \<open>lt\<close> and \<open>le\<close>.\<close>

definition cmp_scalar ::
  "('c \<Rightarrow> 'c \<Rightarrow> bool) \<Rightarrow> ('c \<Rightarrow> 'c \<Rightarrow> bool) \<Rightarrow> ('c \<Rightarrow> 'c \<Rightarrow> bool) \<Rightarrow> 'c \<Rightarrow> u8 \<Rightarrow> 'c \<Rightarrow> 'c \<Rightarrow> bool" where
  "cmp_scalar eq lt le val op rhs rhs2 =
     (if op = OP_EQ then eq val rhs
      else if op = OP_NEQ then \<not> eq val rhs
      else if op = OP_LT then lt val rhs
      else if op = OP_LTE then le val rhs
      else if op = OP_GT then lt rhs val
      else if op = OP_GTE then le rhs val
      else if op = OP_BETWEEN then le rhs val \<and> le val rhs2
      else False)"

definition cmp_i32 :: "u32 \<Rightarrow> u8 \<Rightarrow> u32 \<Rightarrow> u32 \<Rightarrow> bool" where
  "cmp_i32 = cmp_scalar (=) word_sless word_sle"

definition cmp_i64 :: "u64 \<Rightarrow> u8 \<Rightarrow> u64 \<Rightarrow> u64 \<Rightarrow> bool" where
  "cmp_i64 = cmp_scalar (=) word_sless word_sle"

definition cmp_u32 :: "u32 \<Rightarrow> u8 \<Rightarrow> u32 \<Rightarrow> u32 \<Rightarrow> bool" where
  "cmp_u32 = cmp_scalar (=) (<) (\<le>)"

definition cmp_f64 :: "f64 \<Rightarrow> u8 \<Rightarrow> f64 \<Rightarrow> f64 \<Rightarrow> bool" where
  "cmp_f64 val op rhs rhs2 = (if is_nan val then False else cmp_scalar f_eq f_lt f_le val op rhs rhs2)"

section \<open>Scaled literals\<close>

fun pow10_loop :: "nat \<Rightarrow> int \<Rightarrow> int option" where
  "pow10_loop 0 out = Some out"
| "pow10_loop (Suc n) out = (if 2 ^ 63 - 1 < out * 10 then None else pow10_loop n (out * 10))"

definition pow10_i64 :: "int \<Rightarrow> int option" where
  "pow10_i64 e = (if e < 0 then None else pow10_loop (nat e) 1)"

definition scale_f64_to_i64 :: "f64 \<Rightarrow> u32 \<Rightarrow> u64 option" where
  "scale_f64_to_i64 value scale =
     (if \<not> is_finite value then None
      else Option.bind
        (if scale = 0 then Some value
         else if 0 < sint scale then Some (f_mul value (f_of_int (sint scale)))
         else map_option (\<lambda>factor. f_mul value (f_of_int factor)) (pow10_i64 (sint (- scale))))
        (\<lambda>scaled.
          let rounded = f_round scaled in
          if f_lt rounded (f_of_int (- (2 ^ 63))) \<or> f_lt (f_of_int (2 ^ 63 - 1)) rounded then None
          else Some (f_as_i64 rounded)))"

definition scaled_rhs_pair :: "f64 \<Rightarrow> f64 \<Rightarrow> u32 \<Rightarrow> (u64 \<times> u64) option" where
  "scaled_rhs_pair value value2 scale =
     Option.bind (scale_f64_to_i64 value scale) (\<lambda>rhs.
       map_option (\<lambda>rhs2. (rhs, rhs2)) (scale_f64_to_i64 value2 scale))"

section \<open>One comparison on a column\<close>

text \<open>The filter of \<^verbatim>\<open>types.rs\<close>; strings are their UTF-8 bytes.\<close>

record filter_spec =
  fl_col_id :: u32
  fl_op :: u8
  fl_value :: f64
  fl_value2 :: f64
  fl_in_list :: "f64 list option"
  fl_value_str :: "bytes option"
  fl_in_list_str :: "bytes list option"
  fl_like_ids :: "bytes option"

definition empty_mask :: mask where "empty_mask = replicate MASK_WORDS 0"

text \<open>A loop that sets the bits of the rows for which \<open>p\<close> holds.\<close>

definition set_rows :: "(nat \<Rightarrow> bool result) \<Rightarrow> mask \<Rightarrow> nat \<Rightarrow> mask result" where
  "set_rows p msk i = bindR (p i) (\<lambda>b. if b then set_bit_at msk i else Ok msk)"

definition build_cmp_mask ::
  "'v list \<Rightarrow> nat \<Rightarrow> u8 \<Rightarrow> 'c \<Rightarrow> 'c \<Rightarrow> ('v \<Rightarrow> 'c) \<Rightarrow> ('c \<Rightarrow> u8 \<Rightarrow> 'c \<Rightarrow> 'c \<Rightarrow> bool) \<Rightarrow> mask result" where
  "build_cmp_mask values rows op rhs rhs2 cast cmp =
     foldR (set_rows (\<lambda>i. bindR (index values i) (\<lambda>v. Ok (cmp (cast v) op rhs rhs2))))
       empty_mask [0..<rows]"

definition scaled_mask ::
  "column \<Rightarrow> 'v list \<Rightarrow> nat \<Rightarrow> u8 \<Rightarrow> f64 \<Rightarrow> f64 \<Rightarrow> ('v \<Rightarrow> u64) \<Rightarrow> mask result" where
  "scaled_mask col values rows op value value2 cast =
     (case scaled_rhs_pair value value2 (c_scale col) of
        Some (rhs, rhs2) \<Rightarrow> build_cmp_mask values rows op rhs rhs2 cast cmp_i64
      | None \<Rightarrow> Ok empty_mask)"

definition build_single_mask ::
  "column \<Rightarrow> column_data \<Rightarrow> u8 \<Rightarrow> f64 \<Rightarrow> f64 \<Rightarrow> nat \<Rightarrow> mask result" where
  "build_single_mask col data op value value2 rows =
     (case data of
        CD_U8 vs \<Rightarrow>
          if c_scale col \<noteq> 0 then scaled_mask col vs rows op value value2 ucast
          else build_cmp_mask vs rows op (f_as_u32 value) (f_as_u32 value2) ucast cmp_u32
      | CD_U16 vs \<Rightarrow>
          if c_scale col \<noteq> 0 then scaled_mask col vs rows op value value2 ucast
          else build_cmp_mask vs rows op (f_as_u32 value) (f_as_u32 value2) ucast cmp_u32
      | CD_I8 vs \<Rightarrow>
          if c_scale col \<noteq> 0 then scaled_mask col vs rows op value value2 scast
          else build_cmp_mask vs rows op (f_as_i32 value) (f_as_i32 value2) scast cmp_i32
      | CD_I16 vs \<Rightarrow>
          if c_scale col \<noteq> 0 then scaled_mask col vs rows op value value2 scast
          else build_cmp_mask vs rows op (f_as_i32 value) (f_as_i32 value2) scast cmp_i32
      | CD_I32 vs \<Rightarrow>
          if c_scale col \<noteq> 0 then scaled_mask col vs rows op value value2 scast
          else build_cmp_mask vs rows op (f_as_i32 value) (f_as_i32 value2) id cmp_i32
      | CD_I64 vs \<Rightarrow>
          if c_scale col \<noteq> 0 then scaled_mask col vs rows op value value2 id
          else build_cmp_mask vs rows op (f_as_i64 value) (f_as_i64 value2) id cmp_i64
      | CD_U32 vs \<Rightarrow>
          if c_scale col \<noteq> 0 then scaled_mask col vs rows op value value2 ucast
          else build_cmp_mask vs rows op (f_as_u32 value) (f_as_u32 value2) id cmp_u32
      | CD_F64 vs \<Rightarrow> build_cmp_mask vs rows op value value2 id cmp_f64
      | CD_Bool bm \<Rightarrow>
          let want = \<not> f_eq value f_zero in
          foldR (set_rows (\<lambda>i. bindR (is_valid bm i) (\<lambda>b. Ok (want \<and> b \<or> \<not> want \<and> \<not> b))))
            empty_mask [0..<rows])"

section \<open>LIKE on dictionary columns\<close>

definition build_like_id_set :: "column \<Rightarrow> bytes \<Rightarrow> runtime \<Rightarrow> bytes" where
  "build_like_id_set col pattern rt =
     (case r_dicts rt (c_dict_id col) of
        None \<Rightarrow> []
      | Some dict \<Rightarrow>
          let size = (if d_offsets dict \<noteq> [] then length (d_offsets dict) - 1
                      else length (d_values dict)) in
          if size = 0 then []
          else if pattern = [] then replicate size 1
          else map (\<lambda>i. case dict_value_bytes dict i of
                          Some s \<Rightarrow> if find_subslice s pattern \<noteq> None then 1 else 0
                        | None \<Rightarrow> 0) [0..<size])"

definition like_id_hit :: "bytes \<Rightarrow> u32 list \<Rightarrow> bool \<Rightarrow> nat \<Rightarrow> bool" where
  "like_id_hit like_ids ids negated i =
     (let contains = (case get like_ids (unat (ids ! i)) of Some b \<Rightarrow> b \<noteq> 0 | None \<Rightarrow> False)
      in contains \<noteq> negated)"

definition build_like_mask_ids :: "column_data \<Rightarrow> bytes \<Rightarrow> bool \<Rightarrow> nat \<Rightarrow> mask result" where
  "build_like_mask_ids data like_ids negated rows =
     (case data of
        CD_U32 ids \<Rightarrow>
          foldR (set_rows (\<lambda>i. Ok (like_id_hit like_ids ids negated i))) empty_mask
            [0..<min rows (length ids)]
      | _ \<Rightarrow> Ok empty_mask)"

definition like_value_hit :: "dictionary \<Rightarrow> bytes \<Rightarrow> u32 list \<Rightarrow> bool \<Rightarrow> nat \<Rightarrow> bool" where
  "like_value_hit dict pattern ids negated i =
     (case dict_value_bytes dict (unat (ids ! i)) of
        Some s \<Rightarrow> (find_subslice s pattern \<noteq> None) \<noteq> negated
      | None \<Rightarrow> negated)"

definition build_like_mask ::
  "column \<Rightarrow> column_data \<Rightarrow> bytes \<Rightarrow> bool \<Rightarrow> nat \<Rightarrow> runtime \<Rightarrow> mask result" where
  "build_like_mask col data pattern negated rows rt =
     (case r_dicts rt (c_dict_id col) of
        None \<Rightarrow> Ok empty_mask
      | Some dict \<Rightarrow>
          if pattern = [] then foldR (set_rows (\<lambda>i. Ok True)) empty_mask [0..<rows]
          else
            (case data of
               CD_U32 ids \<Rightarrow>
                 foldR (set_rows (\<lambda>i. Ok (like_value_hit dict pattern ids negated i))) empty_mask
                   [0..<min rows (length ids)]
             | _ \<Rightarrow> Ok empty_mask))"

section \<open>The mask of a filter\<close>

definition in_list_step ::
  "column \<Rightarrow> column_data \<Rightarrow> u8 \<Rightarrow> nat \<Rightarrow> mask \<Rightarrow> f64 \<Rightarrow> mask result" where
  "in_list_step col data op rows msk value =
     bindR (build_single_mask col data op value value rows) (\<lambda>one.
       Ok (if mask_is_zero msk then one else mask_or msk one))"

definition build_filter_mask ::
  "column \<Rightarrow> column_data \<Rightarrow> filter_spec \<Rightarrow> nat \<Rightarrow> runtime option \<Rightarrow> mask result" where
  "build_filter_mask col data fl rows rt =
     (if fl_op fl = OP_LIKE \<or> fl_op fl = OP_NOT_LIKE then
        (case fl_like_ids fl of
           Some like_ids \<Rightarrow> build_like_mask_ids data like_ids (fl_op fl = OP_NOT_LIKE) rows
         | None \<Rightarrow>
             (case (fl_value_str fl, rt) of
                (Some pattern, Some rt) \<Rightarrow> build_like_mask col data pattern (fl_op fl = OP_NOT_LIKE) rows rt
              | _ \<Rightarrow> Ok empty_mask))
      else
        (case fl_in_list fl of
           Some values \<Rightarrow> foldR (in_list_step col data (fl_op fl) rows) empty_mask values
         | None \<Rightarrow> build_single_mask col data (fl_op fl) (fl_value fl) (fl_value2 fl) rows))"

definition build_filter_mask_pipeline ::
  "column \<Rightarrow> column_data \<Rightarrow> filter_spec \<Rightarrow> nat \<Rightarrow> runtime option \<Rightarrow> bytes option \<Rightarrow> mask result" where
  "build_filter_mask_pipeline col data fl rows rt null_bitmap =
     bindR (build_filter_mask col data fl rows rt) (\<lambda>msk.
       maybe_apply_validity_mask msk null_bitmap rows)"

text \<open>\<^verbatim>\<open>build_empty_string_mask\<close>: a comparison with the empty string, from the empty page.\<close>

definition build_empty_string_mask ::
  "index_entry \<Rightarrow> column \<Rightarrow> filter_spec \<Rightarrow> nat \<Rightarrow> bytes option \<Rightarrow> bytes option \<Rightarrow> mask option result" where
  "build_empty_string_mask entry col fl rows empty_bitmap null_bitmap =
     (if c_physical col \<noteq> TYPE_STRING then Ok None
      else if fl_value_str fl \<noteq> Some [] then Ok None
      else if fl_op fl \<noteq> OP_EQ \<and> fl_op fl \<noteq> OP_NEQ then Ok None
      else if e_empty_mode entry = EMPTY_MODE_ALL_ZERO then
        (if fl_op fl = OP_EQ then Ok (Some empty_mask)
         else if 0 < e_null_raw_len entry then
           (case null_bitmap of None \<Rightarrow> Ok None | Some nulls \<Rightarrow> mask_from_bitmap nulls rows)
         else bindR (full_mask rows) (\<lambda>full. Ok (Some full)))
      else if e_empty_mode entry = EMPTY_MODE_ALL_ONE then
        (if fl_op fl = OP_EQ then bindR (full_mask rows) (\<lambda>full. Ok (Some full))
         else Ok (Some empty_mask))
      else if e_empty_mode entry = EMPTY_MODE_MIXED then
        (case empty_bitmap of
           None \<Rightarrow> Ok None
         | Some empty_raw \<Rightarrow>
             bindR (mask_from_bitmap empty_raw rows) (\<lambda>em. case em of
               None \<Rightarrow> Ok None
             | Some em \<Rightarrow>
                 if fl_op fl = OP_EQ then Ok (Some em)
                 else if 0 < e_null_raw_len entry then
                   (case null_bitmap of
                      None \<Rightarrow> Ok None
                    | Some nulls \<Rightarrow>
                        bindR (mask_from_bitmap nulls rows) (\<lambda>v. case v of
                          None \<Rightarrow> Ok None
                        | Some v \<Rightarrow> Ok (Some (mask_and v (mask_not em)))))
                 else bindR (full_mask rows) (\<lambda>full. Ok (Some (mask_and full (mask_not em))))))
      else Ok None)"

section \<open>The SIMD builders\<close>

text \<open>One lane of the three compares; \<^verbatim>\<open>v128_xor\<close> with \<open>all\<close> is the negation of the lane.\<close>

definition simd_cmp_u32 :: "u8 \<Rightarrow> u32 \<Rightarrow> u32 \<Rightarrow> u32 \<Rightarrow> bool" where
  "simd_cmp_u32 op v rhs rhs2 =
     (let sgn = 0x80000000 :: u32; vs = v XOR sgn; rhs_signed = rhs XOR sgn; rhs2_signed = rhs2 XOR sgn in
      if op = OP_EQ then v = rhs
      else if op = OP_NEQ then \<not> v = rhs
      else if op = OP_LT then word_sless vs rhs_signed
      else if op = OP_LTE then word_sle vs rhs_signed
      else if op = OP_GT then word_sless rhs_signed vs
      else if op = OP_GTE then word_sle rhs_signed vs
      else if op = OP_BETWEEN then word_sle rhs_signed vs \<and> word_sle vs rhs2_signed
      else False)"

definition simd_cmp_i32 :: "u8 \<Rightarrow> u32 \<Rightarrow> u32 \<Rightarrow> u32 \<Rightarrow> bool" where
  "simd_cmp_i32 op v rhs rhs2 =
     (if op = OP_EQ then v = rhs
      else if op = OP_NEQ then \<not> v = rhs
      else if op = OP_LT then word_sless v rhs
      else if op = OP_LTE then word_sle v rhs
      else if op = OP_GT then word_sless rhs v
      else if op = OP_GTE then word_sle rhs v
      else if op = OP_BETWEEN then word_sle rhs v \<and> word_sle v rhs2
      else False)"

definition simd_cmp_f64 :: "u8 \<Rightarrow> f64 \<Rightarrow> f64 \<Rightarrow> f64 \<Rightarrow> bool" where
  "simd_cmp_f64 op v rhs rhs2 =
     (if op = OP_EQ then f_eq v rhs
      else if op = OP_NEQ then f_lt v rhs \<or> f_lt rhs v
      else if op = OP_LT then f_lt v rhs
      else if op = OP_LTE then f_le v rhs
      else if op = OP_GT then f_lt rhs v
      else if op = OP_GTE then f_le rhs v
      else if op = OP_BETWEEN then f_le rhs v \<and> f_le v rhs2
      else False)"

text \<open>\<open>lane_bits p n vs i\<close>: the bitmask of the \<open>n\<close> lanes loaded at \<open>i\<close>.\<close>

definition lane_bits :: "('v \<Rightarrow> bool) \<Rightarrow> nat \<Rightarrow> 'v list \<Rightarrow> nat \<Rightarrow> u32" where
  "lane_bits p n vs i = horner_sum of_bool 2 (map (\<lambda>k. p (vs ! (i + k))) [0..<n])"

definition word_bits :: "('v \<Rightarrow> bool) \<Rightarrow> nat \<Rightarrow> 'v list \<Rightarrow> nat \<Rightarrow> u32" where
  "word_bits p n vs i =
     foldl (\<lambda>word c. word OR push_bit (c * n) (lane_bits p n vs (i + c * n))) 0 [0..<32 div n]"

function simd_words :: "('v \<Rightarrow> bool) \<Rightarrow> nat \<Rightarrow> 'v list \<Rightarrow> nat \<Rightarrow> nat \<Rightarrow> mask \<Rightarrow> nat \<times> mask" where
  "simd_words p n vs rows i msk =
     (if i + 32 \<le> rows then
        simd_words p n vs rows (i + 32) (msk[i div 32 := word_bits p n vs i])
      else (i, msk))"
  by pat_completeness auto
termination
  by (relation "measure (\<lambda>(p, n, vs, rows, i, msk). rows - i)") auto

function simd_lanes :: "('v \<Rightarrow> bool) \<Rightarrow> nat \<Rightarrow> 'v list \<Rightarrow> nat \<Rightarrow> nat \<Rightarrow> mask \<Rightarrow> nat \<times> mask" where
  "simd_lanes p n vs rows i msk =
     (if 0 < n \<and> i + n \<le> rows then
        simd_lanes p n vs rows (i + n)
          (msk[i div 32 := msk ! (i div 32) OR push_bit (i mod 32) (lane_bits p n vs i)])
      else (i, msk))"
  by pat_completeness auto
termination
  by (relation "measure (\<lambda>(p, n, vs, rows, i, msk). rows - i)") auto

declare simd_words.simps [simp del] simd_lanes.simps [simp del]

text \<open>The loops of the three builders, with \<open>p\<close> the lane compare and \<open>q\<close> the scalar one.\<close>

definition build_mask_simd ::
  "('v \<Rightarrow> bool) \<Rightarrow> ('v \<Rightarrow> bool) \<Rightarrow> nat \<Rightarrow> 'v list \<Rightarrow> nat \<Rightarrow> mask result" where
  "build_mask_simd p q n vs rows =
     (let (i, msk) = simd_words p n vs rows 0 empty_mask;
          (i, msk) = simd_lanes p n vs rows i msk
      in foldR (set_rows (\<lambda>j. bindR (index vs j) (\<lambda>v. Ok (q v)))) msk [i..<rows])"

definition build_mask_u32_simd :: "u32 list \<Rightarrow> u8 \<Rightarrow> u32 \<Rightarrow> u32 \<Rightarrow> nat \<Rightarrow> mask result" where
  "build_mask_u32_simd values op rhs rhs2 rows =
     build_mask_simd (\<lambda>v. simd_cmp_u32 op v rhs rhs2) (\<lambda>v. cmp_u32 v op rhs rhs2) 4 values rows"

definition build_mask_i32_simd :: "u32 list \<Rightarrow> u8 \<Rightarrow> u32 \<Rightarrow> u32 \<Rightarrow> nat \<Rightarrow> mask result" where
  "build_mask_i32_simd values op rhs rhs2 rows =
     build_mask_simd (\<lambda>v. simd_cmp_i32 op v rhs rhs2) (\<lambda>v. cmp_i32 v op rhs rhs2) 4 values rows"

definition build_mask_f64_simd :: "f64 list \<Rightarrow> u8 \<Rightarrow> f64 \<Rightarrow> f64 \<Rightarrow> nat \<Rightarrow> mask result" where
  "build_mask_f64_simd values op rhs rhs2 rows =
     build_mask_simd (\<lambda>v. simd_cmp_f64 op v rhs rhs2) (\<lambda>v. cmp_f64 v op rhs rhs2) 2 values rows"

end
