(* ===== verification/Mask_Facts.thy ===== *)
theory Mask_Facts
  imports Masks
begin

text \<open>
  What the mask routines compute, read as sets of rows; the SIMD routines are the scalar
  ones; a postfix condition over masks is the boolean condition over the rows.
\<close>

lemma MASK_WORDS_num [simp]: "MASK_WORDS = 2047" "ROWS_PER_CHUNK = 65504"
  by (simp_all add: MASK_WORDS_def ROWS_PER_CHUNK_def)

definition is_mask :: "mask \<Rightarrow> bool" where
  "is_mask m \<longleftrightarrow> length m = MASK_WORDS"

lemma and_exp_bit [simp]:
  "k < LENGTH('a) \<Longrightarrow> (w :: 'a::len word) AND 2 ^ k = 0 \<longleftrightarrow> \<not> bit w k"
  by (simp add: bit_iff_and_push_bit_not_eq_0)

lemma bit_low_ones [simp]: "bit (2 ^ k - 1 :: 'a::len word) j \<longleftrightarrow> j < LENGTH('a) \<and> j < k"
  by (simp add: bit_mask_iff flip: mask_eq_exp_minus_1)

section \<open>Single bits\<close>

lemma get_bit_eq: "r div 32 < length m \<Longrightarrow> get_bit m r = Ok (mask_bit m r)"
  by (simp add: get_bit_def index_def mask_bit_def)

lemma is_valid_eq: "r div 8 < length bm \<Longrightarrow> is_valid bm r = Ok (bitmap_bit bm r)"
  by (simp add: is_valid_def index_def bitmap_bit_def)

lemma set_bit_at_ok:
  assumes "i div 32 < length m"
  shows "\<exists>m'. set_bit_at m i = Ok m' \<and> length m' = length m \<and>
     (\<forall>r. mask_bit m' r \<longleftrightarrow> r = i \<or> mask_bit m r)"
proof -
  let ?m = "m[i div 32 := m ! (i div 32) OR push_bit (i mod 32) 1]"
  have "mask_bit ?m r \<longleftrightarrow> r = i \<or> mask_bit m r" for r
  proof (cases "r div 32 = i div 32")
    case True
    then have "r mod 32 = i mod 32 \<longleftrightarrow> r = i" by (metis mult_div_mod_eq)
    with True assms show ?thesis by (auto simp: mask_bit_def bit_simps)
  qed (auto simp: mask_bit_def)
  then show ?thesis using assms by (auto simp: set_bit_at_def index_def)
qed

lemma clear_mask_bit_ok:
  assumes "i div 32 < length m"
  shows "\<exists>m'. clear_mask_bit m i = Ok m' \<and> length m' = length m \<and>
     (\<forall>r. mask_bit m' r \<longleftrightarrow> r \<noteq> i \<and> mask_bit m r)"
proof -
  let ?m = "m[i div 32 := m ! (i div 32) AND NOT (push_bit (i mod 32) 1)]"
  have "mask_bit ?m r \<longleftrightarrow> r \<noteq> i \<and> mask_bit m r" for r
  proof (cases "r div 32 = i div 32")
    case True
    then have "r mod 32 = i mod 32 \<longleftrightarrow> r = i" by (metis mult_div_mod_eq)
    with True assms show ?thesis by (auto simp: mask_bit_def bit_simps)
  qed (auto simp: mask_bit_def)
  then show ?thesis using assms by (auto simp: clear_mask_bit_def index_def)
qed

lemma mask_bit_replicate_0 [simp]: "\<not> mask_bit (replicate n 0) r"
  by (auto simp: mask_bit_def)

lemma mask_eqI:
  assumes "length a = length b" "\<And>r. r < 32 * length b \<Longrightarrow> mask_bit a r \<longleftrightarrow> mask_bit b r"
  shows "a = b"
proof (rule nth_equalityI)
  fix i assume i: "i < length a"
  show "a ! i = b ! i"
  proof (rule bit_word_eqI)
    fix k :: nat assume "k < LENGTH(32)"
    then show "bit (a ! i) k \<longleftrightarrow> bit (b ! i) k"
      using assms(2) [of "32 * i + k"] i assms(1) by (simp add: mask_bit_def)
  qed
qed (use assms in simp)

section \<open>Set operations\<close>

lemma mask_and_bit [simp]: "mask_bit (mask_and a b) r \<longleftrightarrow> mask_bit a r \<and> mask_bit b r"
  by (auto simp: mask_and_def mask_bit_def bit_simps)

lemma mask_or_bit: "length a = length b \<Longrightarrow> mask_bit (mask_or a b) r \<longleftrightarrow> mask_bit a r \<or> mask_bit b r"
  by (auto simp: mask_or_def mask_bit_def bit_simps)

lemma mask_not_bit [simp]: "mask_bit (mask_not m) r \<longleftrightarrow> r div 32 < length m \<and> \<not> mask_bit m r"
  by (auto simp: mask_not_def mask_bit_def bit_simps)

lemma length_mask_ops [simp]:
  "length (mask_and a b) = min (length a) (length b)"
  "length (mask_or a b) = min (length a) (length b)"
  "length (mask_not a) = length a"
  by (simp_all add: mask_and_def mask_or_def mask_not_def)

section \<open>Tails\<close>

lemma length_zero_from [simp]: "length (zero_from m n) = length m"
  by (simp add: zero_from_def)

lemma zero_from_bit:
  "length m \<le> MASK_WORDS \<Longrightarrow> mask_bit (zero_from m n) r \<longleftrightarrow> r div 32 < n \<and> mask_bit m r"
  by (auto simp: zero_from_def mask_bit_def split: if_splits)

lemma div_mod_less: "(r :: nat) < rows \<longleftrightarrow> r div 32 < rows div 32 \<or> r div 32 = rows div 32 \<and> r mod 32 < rows mod 32"
proof -
  have eq: "r = 32 * (r div 32) + r mod 32" "rows = 32 * (rows div 32) + rows mod 32" by simp_all
  have lt: "r mod 32 < 32" "rows mod 32 < 32" by simp_all
  consider "r div 32 < rows div 32" | "r div 32 = rows div 32" | "rows div 32 < r div 32"
    by linarith
  then show ?thesis
  proof cases
    case 1
    then have "32 * (r div 32) + 32 \<le> 32 * (rows div 32)" by simp
    with 1 eq lt show ?thesis by linarith
  next
    case 2
    with eq have "r < rows \<longleftrightarrow> r mod 32 < rows mod 32" by linarith
    with 2 show ?thesis by simp
  next
    case 3
    then have "32 * (rows div 32) + 32 \<le> 32 * (r div 32)" by simp
    with 3 eq lt show ?thesis by linarith
  qed
qed

lemma clear_tail_ok:
  assumes "is_mask m"
  shows "\<exists>m'. clear_tail m rows = Ok m' \<and> is_mask m' \<and>
     (\<forall>r. mask_bit m' r \<longleftrightarrow> r < rows \<and> mask_bit m r)"
proof (cases "rows mod 32 = 0")
  case True
  then have "r < rows \<longleftrightarrow> r div 32 < rows div 32" for r
    using div_mod_less [of r rows] by auto
  with True assms show ?thesis
    by (auto simp: clear_tail_def is_mask_def zero_from_bit)
next
  case False
  show ?thesis
  proof (cases "rows div 32 < MASK_WORDS")
    case True
    let ?m = "m[rows div 32 := m ! (rows div 32) AND (push_bit (rows mod 32) 1 - 1)]"
    have "mask_bit ?m r \<and> r div 32 < Suc (rows div 32) \<longleftrightarrow> r < rows \<and> mask_bit m r" for r
      using True assms div_mod_less [of r rows]
      by (cases "r div 32 = rows div 32")
         (auto simp: mask_bit_def is_mask_def bit_and_iff)
    moreover have "mask_bit (zero_from ?m (rows div 32 + 1)) r \<longleftrightarrow>
        mask_bit ?m r \<and> r div 32 < Suc (rows div 32)" for r
      using assms by (subst zero_from_bit) (auto simp: is_mask_def)
    moreover have "clear_tail m rows = Ok (zero_from ?m (rows div 32 + 1))"
      using True False assms by (simp add: clear_tail_def index_def Let_def is_mask_def)
    ultimately show ?thesis using assms by (auto simp: is_mask_def)
  next
    case outside: False
    have "r div 32 < Suc (rows div 32) \<and> mask_bit m r \<longleftrightarrow> r < rows \<and> mask_bit m r" for r
      using outside assms div_mod_less [of r rows] by (auto simp: is_mask_def mask_bit_def)
    with False outside assms show ?thesis
      by (auto simp: clear_tail_def is_mask_def zero_from_bit)
  qed
qed

lemma full_mask_ok:
  assumes "rows \<le> ROWS_PER_CHUNK"
  shows "\<exists>m. full_mask rows = Ok m \<and> is_mask m \<and> (\<forall>r. mask_bit m r \<longleftrightarrow> r < rows)"
proof -
  let ?m = "replicate MASK_WORDS (0xffffffff :: u32)"
  have "bit (0xffffffff :: u32) k" if "k < 32" for k
  proof -
    have "(0xffffffff :: u32) = NOT 0" by simp
    with that show ?thesis by (simp only: bit_not_iff) (simp add: possible_bit_word)
  qed
  then have b: "mask_bit ?m r \<longleftrightarrow> r div 32 < MASK_WORDS" for r by (auto simp: mask_bit_def)
  obtain m' where m': "clear_tail ?m rows = Ok m'" "is_mask m'"
    "\<forall>r. mask_bit m' r \<longleftrightarrow> r < rows \<and> mask_bit ?m r"
    using clear_tail_ok [of ?m rows] by (auto simp: is_mask_def)
  have "r < rows \<longrightarrow> r div 32 < MASK_WORDS" for r
    using assms by auto
  with m' b show ?thesis by (auto simp: full_mask_def)
qed

section \<open>From bitmaps\<close>

lemma padded_word_bit:
  assumes "k < 32" "4 * w < length src" "n = min (length src - 4 * w) 4"
  shows "bit (from_le32 (slice src (4 * w) (4 * w + n) @ replicate (4 - n) 0)) k
    \<longleftrightarrow> bitmap_bit src (32 * w + k)"
proof -
  have n: "4 * w + n \<le> length src" "n \<le> 4" using assms(2,3) by auto
  have k: "k div 8 < 4" "(32 * w + k) div 8 = 4 * w + k div 8" "(32 * w + k) mod 8 = k mod 8"
    using assms(1) by (auto, presburger)
  have "bit (from_le32 (slice src (4 * w) (4 * w + n) @ replicate (4 - n) 0)) k \<longleftrightarrow>
      bit ((slice src (4 * w) (4 * w + n) @ replicate (4 - n) 0) ! (k div 8)) (k mod 8)"
    using assms(1) n k(1) by (simp add: from_le32_def bit_from_le)
  also have "\<dots> \<longleftrightarrow> k div 8 < n \<and> bit (src ! (4 * w + k div 8)) (k mod 8)"
    using n k(1) by (auto simp: nth_append slice_nth)
  also have "\<dots> \<longleftrightarrow> bitmap_bit src (32 * w + k)"
    using k by (simp add: bitmap_bit_def assms(3) less_diff_conv add.commute)
  finally show ?thesis .
qed

lemma fill_words_ok:
  "idx = 4 * word \<Longrightarrow> length src \<le> 4 * length dst \<Longrightarrow>
   \<exists>m. fill_words src idx word dst = Ok m \<and> length m = length dst \<and>
     (\<forall>r < 32 * length dst. mask_bit m r \<longleftrightarrow>
        (if word \<le> r div 32 \<and> 4 * (r div 32) < length src then bitmap_bit src r
         else mask_bit dst r))"
proof (induction src idx word dst rule: fill_words.induct)
  case (1 src idx word dst)
  show ?case
  proof (cases "length src \<le> idx")
    case True
    then show ?thesis using 1 by (subst fill_words.simps) auto
  next
    case False
    define n where "n = min (length src - idx) 4"
    define x where "x = from_le32 (slice src idx (idx + n) @ replicate (4 - n) 0)"
    have w: "word < length dst" using False 1 by auto
    have xb: "bit x (r mod 32) \<longleftrightarrow> bitmap_bit src r" if "r div 32 = word" for r
    proof -
      have "32 * word + r mod 32 = r" using that by (metis mult_div_mod_eq)
      then show ?thesis
        using padded_word_bit [of "r mod 32" word src n] False 1(2) by (simp add: x_def n_def)
    qed
    have step: "fill_words src idx word dst = fill_words src (idx + n) (word + 1) (dst[word := x])"
      using False w by (subst fill_words.simps) (simp add: Let_def index_def n_def x_def)
    show ?thesis
    proof (cases "4 \<le> length src - idx")
      case True
      then have n4: "n = 4" by (simp add: n_def)
      have "\<exists>m. fill_words src (idx + n) (word + 1) (dst[word := x]) = Ok m \<and>
          length m = length (dst[word := x]) \<and>
          (\<forall>r < 32 * length (dst[word := x]). mask_bit m r \<longleftrightarrow>
            (if word + 1 \<le> r div 32 \<and> 4 * (r div 32) < length src then bitmap_bit src r
             else mask_bit (dst[word := x]) r))"
        using 1(1) [OF False n_def refl] 1(2,3) n4 w
        by (auto simp: x_def index_def)
      then obtain m where m: "fill_words src (idx + n) (word + 1) (dst[word := x]) = Ok m"
        "length m = length dst"
        "\<forall>r < 32 * length dst. mask_bit m r \<longleftrightarrow>
            (if word + 1 \<le> r div 32 \<and> 4 * (r div 32) < length src then bitmap_bit src r
             else mask_bit (dst[word := x]) r)" by auto
      have "mask_bit (dst[word := x]) r \<longleftrightarrow> bitmap_bit src r" if "r div 32 = word" for r
        using that w xb [OF that] by (simp add: mask_bit_def)
      moreover have "mask_bit (dst[word := x]) r \<longleftrightarrow> mask_bit dst r" if "r div 32 \<noteq> word" for r
        using that by (auto simp: mask_bit_def)
      ultimately show ?thesis
        using m step 1(2) False by (intro exI [of _ m]) (auto simp: le_less Suc_le_eq)
    next
      case small: False
      then have "length src \<le> idx + n" by (auto simp: n_def)
      then have "fill_words src (idx + n) (word + 1) (dst[word := x]) = Ok (dst[word := x])"
        by (simp add: fill_words.simps)
      moreover have "mask_bit (dst[word := x]) r \<longleftrightarrow> bitmap_bit src r" if "r div 32 = word" for r
        using that w xb [OF that] by (simp add: mask_bit_def)
      moreover have "mask_bit (dst[word := x]) r \<longleftrightarrow> mask_bit dst r" if "r div 32 \<noteq> word" for r
        using that by (auto simp: mask_bit_def)
      ultimately show ?thesis
        using step 1(2) False small
        by (intro exI [of _ "dst[word := x]"]) (auto simp: le_less Suc_le_eq)
    qed
  qed
qed

end
