(* ===== verification/Mask_Rows.thy ===== *)
theory Mask_Rows
  imports Mask_Facts
begin

text \<open>
  The mask routines over whole masks: bitmaps, fullness, the visited rows, the population
  count, postfix conditions, and the equality of the SIMD and the scalar routines.
\<close>

section \<open>Bitmaps as masks\<close>

lemma div_ceil_alt: "0 < b \<Longrightarrow> div_ceil a b = (if a mod b = 0 then a div b else a div b + 1)"
proof -
  assume b: "0 < b"
  have "a + b - 1 = b * (a div b) + (a mod b + b - 1)" using b by simp
  then have "div_ceil a b = a div b + (a mod b + b - 1) div b"
    using b by (simp only: div_ceil_def) (metis div_mult_self4 less_not_refl add.commute)
  moreover have "(a mod b + b - 1) div b = (if a mod b = 0 then 0 else 1)"
  proof (cases "a mod b = 0")
    case False
    have "a mod b + b - 1 = (a mod b - 1) + b" using False by simp
    moreover have "a mod b - 1 < b" using mod_less_divisor [OF b, of a] by linarith
    then have "(a mod b - 1 + b) div b = 1" by (subst div_add_self2) (use b in auto)
    ultimately show ?thesis using False by (simp only: if_False)
  qed (use b in simp)
  ultimately show ?thesis by simp
qed

lemma div_ceil_bounds:
  assumes b: "0 < b" shows "a \<le> b * div_ceil a b" "b * div_ceil a b < a + b"
proof -
  obtain q r where a: "a = b * q + r" "r < b"
    using b by (metis mod_less_divisor mult_div_mod_eq)
  then have "div_ceil a b = (if r = 0 then q else q + 1)" using b by (simp add: div_ceil_alt)
  with a show "a \<le> b * div_ceil a b" "b * div_ceil a b < a + b" by (auto simp: algebra_simps)
qed

lemma div_ceil_less: "0 < b \<Longrightarrow> r < a \<Longrightarrow> r div b < div_ceil a b"
  using div_ceil_bounds(1) [of b a] by (simp add: div_less_iff_less_mult mult.commute)

lemma div_ceil_le: "0 < b \<Longrightarrow> a \<le> b * n \<Longrightarrow> div_ceil a b \<le> n"
proof -
  assume b: "0 < b" "a \<le> b * n"
  then have "b * div_ceil a b < b * (n + 1)"
    using div_ceil_bounds(2) [of b a] by (simp add: algebra_simps)
  then have "div_ceil a b < n + 1" using b(1) by (metis nat_mult_less_cancel1)
  then show ?thesis by simp
qed

lemma bitmap_bit_take: "bitmap_bit (take n bm) r \<longleftrightarrow> r div 8 < n \<and> bitmap_bit bm r"
  by (auto simp: bitmap_bit_def)

lemma mask_bit_append:
  "mask_bit (a @ b) r \<longleftrightarrow> mask_bit a r \<or> 32 * length a \<le> r \<and> mask_bit b (r - 32 * length a)"
proof (cases "r < 32 * length a")
  case False
  then obtain d where "r = 32 * length a + d" by (metis le_add_diff_inverse not_less)
  then have "(r - 32 * length a) div 32 = r div 32 - length a" "(r - 32 * length a) mod 32 = r mod 32"
    "length a \<le> r div 32" by simp_all
  with False show ?thesis by (auto simp: mask_bit_def nth_append less_diff_conv2 add.commute)
qed (auto simp: mask_bit_def nth_append)

lemma mask_from_bitmap_ok:
  assumes rows: "rows \<le> ROWS_PER_CHUNK" and len: "rows \<le> 8 * length bm"
  shows "\<exists>m. mask_from_bitmap bm rows = Ok (Some m) \<and> is_mask m \<and>
     (\<forall>r. mask_bit m r \<longleftrightarrow> r < rows \<and> bitmap_bit bm r)"
proof -
  let ?nb = "div_ceil rows 8" and ?nw = "div_ceil rows 32"
  have nb: "?nb \<le> length bm" using len by (intro div_ceil_le) simp_all
  have nw: "?nw \<le> MASK_WORDS" using rows by (intro div_ceil_le) simp_all
  have fit: "?nb \<le> 4 * ?nw" using div_ceil_bounds(1) [of 32 rows] by (intro div_ceil_le) simp_all
  let ?src = "take ?nb bm"
  obtain f where f: "fill_words ?src 0 0 (replicate ?nw 0) = Ok f" "length f = ?nw"
    "\<forall>r < 32 * ?nw. mask_bit f r \<longleftrightarrow> 4 * (r div 32) < ?nb \<and> bitmap_bit ?src r"
    using fill_words_ok [of 0 0 ?src "replicate ?nw 0"] nb fit by auto
  let ?m = "f @ replicate (MASK_WORDS - ?nw) (0 :: u32)"
  have four: "4 * (r div 32) < ?nb" if "r div 8 < ?nb" for r
  proof -
    have "r div 32 = r div 8 div 4" by (simp add: div_mult2_eq [symmetric])
    then have "4 * (r div 32) \<le> r div 8" by simp
    with that show ?thesis by simp
  qed
  have m: "mask_bit ?m r \<longleftrightarrow> r div 8 < ?nb \<and> bitmap_bit bm r" for r
  proof (cases "r < 32 * ?nw")
    case True
    then show ?thesis using f four [of r] by (auto simp: mask_bit_append bitmap_bit_take)
  next
    case False
    then have "\<not> r div 8 < ?nb" using fit by auto
    moreover have "\<not> mask_bit f r" using False f(2) by (auto simp: mask_bit_def)
    ultimately show ?thesis by (simp add: mask_bit_append)
  qed
  have small: "r div 8 < ?nb" if "r < rows" for r using that by (intro div_ceil_less) simp_all
  show ?thesis
  proof (cases "?nw = 0")
    case True
    then have "rows = 0" using div_ceil_bounds(1) [of 32 rows] by simp
    then show ?thesis using nb by (simp add: mask_from_bitmap_def Let_def is_mask_def div_ceil_def)
  next
    case nz: False
    have r32: "rows = 32 * (rows div 32) + rows mod 32" by simp
    show ?thesis
    proof (cases "rows mod 32 = 0")
      case True
      then have "rows = 8 * (4 * (rows div 32))" using r32 by simp
      then have "rows mod 8 = 0" by (metis mod_mult_self1_is_0)
      then have "?nb = rows div 8" by (simp add: div_ceil_alt)
      then have "r div 8 < ?nb \<longleftrightarrow> r < rows" for r
        using small [of r] \<open>rows mod 8 = 0\<close>
        by (auto simp: div_less_iff_less_mult mult.commute [of _ 8])
      with m nb nw nz True f(1,2) show ?thesis
        by (simp add: mask_from_bitmap_def Let_def is_mask_def)
    next
      case False
      then have nwq: "?nw = rows div 32 + 1"
        by (simp add: div_ceil_alt)
      let ?t = "rows div 32"
      let ?m' = "?m[?t := ?m ! ?t AND (2 ^ (rows mod 32) - 1)]"
      have lm: "length ?m = MASK_WORDS" using f(2) nw by simp
      have tl: "?t < length ?m" using nwq nw lm by simp
      have "mask_bit ?m' r \<longleftrightarrow> r < rows \<and> bitmap_bit bm r" for r
      proof (cases "r div 32 = ?t")
        case True
        then have "mask_bit ?m' r \<longleftrightarrow> mask_bit ?m r \<and> r mod 32 < rows mod 32"
          using tl by (auto simp: mask_bit_def bit_and_iff)
        with True m [of r] small [of r] div_mod_less [of r rows] show ?thesis by auto
      next
        case other: False
        then have "mask_bit ?m' r \<longleftrightarrow> mask_bit ?m r" by (simp add: mask_bit_def)
        moreover have "r div 8 < ?nb \<longleftrightarrow> r < rows"
        proof
          assume "r div 8 < ?nb"
          then have "r div 32 < ?nw" using fit four [of r] by linarith
          with nwq other have "r div 32 < rows div 32" by simp
          then show "r < rows" using div_mod_less [of r rows] by simp
        qed (rule small)
        ultimately show ?thesis using m by simp
      qed
      with m nb nw nz False f(1,2) nwq lm show ?thesis
        by (simp add: mask_from_bitmap_def Let_def is_mask_def)
    qed
  qed
qed

lemma div_mod_add [simp]:
  "k < b \<Longrightarrow> (b * i + k) div b = (i :: nat)" "k < b \<Longrightarrow> (b * i + k) mod b = k"
  by simp_all

lemma all_ones_u8: "b = (0xff :: u8) \<longleftrightarrow> (\<forall>k < 8. bit b k)"
proof -
  have "(0xff :: u8) = NOT 0" by simp
  then show ?thesis by (auto simp: bit_eq_iff bit_not_iff_eq bit_simps)
qed

lemma all_ones_u32: "w = (0xffffffff :: u32) \<longleftrightarrow> (\<forall>k < 32. bit w k)"
proof -
  have "(0xffffffff :: u32) = NOT 0" by simp
  then show ?thesis by (auto simp: bit_eq_iff bit_not_iff_eq bit_simps)
qed

lemma zero_u32: "w = (0 :: u32) \<longleftrightarrow> (\<forall>k < 32. \<not> bit w k)"
  by (auto simp: bit_eq_iff)

lemma and_low_ones:
  "n \<le> LENGTH('a) \<Longrightarrow> (w :: 'a::len word) AND (2 ^ n - 1) = 2 ^ n - 1 \<longleftrightarrow> (\<forall>k < n. bit w k)"
proof -
  assume n: "n \<le> LENGTH('a)"
  have "w AND (2 ^ n - 1) = 2 ^ n - 1 \<longleftrightarrow> (\<forall>k < LENGTH('a). k < n \<longrightarrow> bit w k)"
    by (auto simp: bit_eq_iff bit_and_iff)
  with n show ?thesis by auto
qed

lemma eq_low_ones:
  "n \<le> LENGTH('a) \<Longrightarrow> (w :: 'a::len word) = 2 ^ n - 1 \<longleftrightarrow> (\<forall>k < LENGTH('a). bit w k \<longleftrightarrow> k < n)"
  by (auto simp: bit_eq_iff)

lemma all_below_split:
  "(\<forall>r < b * q + m. P r) \<longleftrightarrow> (\<forall>i < q. \<forall>k < b. P (b * i + k)) \<and> (\<forall>k < m. P (b * q + k))"
  if "0 < b" for b q m :: nat
proof safe
  fix i k assume "\<forall>r < b * q + m. P r" "i < q" "k < b"
  moreover have "b * i + k < b * q"
  proof -
    have "b * i + k < b * (i + 1)" using \<open>k < b\<close> by simp
    also have "\<dots> \<le> b * q" using \<open>i < q\<close> by (intro mult_le_mono2) simp
    finally show ?thesis .
  qed
  ultimately show "P (b * i + k)" by simp
next
  fix r assume *: "\<forall>i < q. \<forall>k < b. P (b * i + k)" "\<forall>k < m. P (b * q + k)" "r < b * q + m"
  show "P r"
  proof (cases "r < b * q")
    case True
    then have "r div b < q" using that by (simp add: div_less_iff_less_mult mult.commute)
    moreover have "r mod b < b" using that by simp
    ultimately have "P (b * (r div b) + r mod b)" using *(1) by blast
    then show ?thesis by simp
  next
    case False
    then obtain d where "r = b * q + d" by (metis le_add_diff_inverse not_less)
    with * show ?thesis by simp
  qed
qed simp

lemma bitmap_is_all_valid_iff:
  assumes "rows \<le> 8 * length bm"
  shows "bitmap_is_all_valid bm rows \<longleftrightarrow> (\<forall>r < rows. bitmap_bit bm r)"
proof -
  let ?q = "rows div 8" and ?m = "rows mod 8"
  have r: "rows = 8 * ?q + ?m" by simp
  have lq: "?q \<le> length bm" using assms by auto
  have nb: "div_ceil rows 8 = (if ?m = 0 then ?q else ?q + 1)" by (simp add: div_ceil_alt)
  have lm: "?q < length bm" if "?m \<noteq> 0" using assms that r by linarith
  have byte: "bitmap_bit bm (8 * i + k) \<longleftrightarrow> i < length bm \<and> bit (bm ! i) k" if "k < 8" for i k
    using that by (simp add: bitmap_bit_def)
  have m8: "k < 8" if "k < ?m" for k using that by (meson less_trans mod_less_divisor zero_less_numeral)
  have "(\<forall>r < rows. bitmap_bit bm r) \<longleftrightarrow>
      (\<forall>i < ?q. \<forall>k < 8. bitmap_bit bm (8 * i + k)) \<and> (\<forall>k < ?m. bitmap_bit bm (8 * ?q + k))"
    using all_below_split [of 8 ?q ?m "bitmap_bit bm"] r by simp
  also have "\<dots> \<longleftrightarrow> (\<forall>i < ?q. bm ! i = 0xff) \<and> (\<forall>k < ?m. bit (bm ! ?q) k)"
    using lq lm byte m8 by (auto simp: all_ones_u8)
  also have "\<dots> \<longleftrightarrow> list_all (\<lambda>b. b = 0xff) (take ?q bm) \<and> (\<forall>k < ?m. bit (bm ! ?q) k)"
    using lq by (simp add: list_all_length)
  also have "\<dots> \<longleftrightarrow> bitmap_is_all_valid bm rows"
  proof (cases "div_ceil rows 8 = 0")
    case True
    then have "?q = 0" "?m = 0" using nb by (auto split: if_splits)
    then show ?thesis using True by (simp add: bitmap_is_all_valid_def)
  next
    case False
    have m8': "?m \<le> LENGTH(8)" by (simp add: less_imp_le)
    have "bitmap_is_all_valid bm rows \<longleftrightarrow> list_all (\<lambda>b. b = 0xff) (take ?q bm) \<and>
        (?m = 0 \<or> bm ! ?q AND (2 ^ ?m - 1) = 2 ^ ?m - 1)"
    proof (cases "?m = 0")
      case True
      with False lq show ?thesis by (simp add: bitmap_is_all_valid_def Let_def nb)
    next
      case m0: False
      with False lm show ?thesis by (simp add: bitmap_is_all_valid_def Let_def nb Suc_le_eq)
    qed
    then show ?thesis using and_low_ones [OF m8', of "bm ! ?q"] by auto
  qed
  finally show ?thesis by simp
qed

lemma mask_word_zero: "i < length m \<Longrightarrow> m ! i = 0 \<longleftrightarrow> (\<forall>k < 32. \<not> mask_bit m (32 * i + k))"
  by (auto simp: mask_bit_def bit_eq_iff)

lemma all_three:
  assumes "q \<le> (n :: nat)"
  shows "(\<forall>i < n. if i < q then P i else if i = q then Q i else R i) \<longleftrightarrow>
     (\<forall>i < q. P i) \<and> (q < n \<longrightarrow> Q q) \<and> (\<forall>i. q < i \<and> i < n \<longrightarrow> R i)"
proof (intro iffI conjI allI impI)
  assume *: "\<forall>i < n. if i < q then P i else if i = q then Q i else R i"
  show "P i" if "i < q" for i using * that assms by (auto dest: spec [of _ i])
  show "Q q" if "q < n" using * that by (auto dest: spec [of _ q])
  show "R i" if "q < i \<and> i < n" for i using * that by (auto dest: spec [of _ i])
next
  fix i assume "(\<forall>i < q. P i) \<and> (q < n \<longrightarrow> Q q) \<and> (\<forall>i. q < i \<and> i < n \<longrightarrow> R i)" "i < n"
  then show "if i < q then P i else if i = q then Q i else R i"
    by (cases i q rule: linorder_cases) auto
qed

lemma mask_is_full_ok:
  assumes m: "is_mask m" and rows: "rows \<le> ROWS_PER_CHUNK"
  shows "mask_is_full m rows = Ok (\<forall>r < ROWS_PER_CHUNK. mask_bit m r \<longleftrightarrow> r < rows)"
proof -
  let ?q = "rows div 32" and ?t = "rows mod 32"
  have lm: "length m = 2047" using m by (simp add: is_mask_def)
  have lq: "?q \<le> 2047" using rows by auto
  have r: "rows = 32 * ?q + ?t" by simp
  have lt: "?q < 2047" if "?t \<noteq> 0"
  proof (rule ccontr)
    assume "\<not> ?q < 2047"
    with lq have "?q = 2047" by simp
    with r rows that show False by simp
  qed
  have wb: "mask_bit m (32 * i + k) \<longleftrightarrow> i < 2047 \<and> bit (m ! i) k" if "k < 32" for i k
    using that lm by (simp add: mask_bit_def)
  have less: "32 * i + k < rows \<longleftrightarrow> i < ?q \<or> i = ?q \<and> k < ?t" if "k < 32" for i k
    using div_mod_less [of "32 * i + k" rows] that by simp
  have "(\<forall>r < ROWS_PER_CHUNK. mask_bit m r \<longleftrightarrow> r < rows) \<longleftrightarrow>
      (\<forall>i < 2047. \<forall>k < 32. mask_bit m (32 * i + k) \<longleftrightarrow> 32 * i + k < rows)"
    using all_below_split [of 32 2047 0 "\<lambda>r. mask_bit m r \<longleftrightarrow> r < rows"] by simp
  also have "\<dots> \<longleftrightarrow> (\<forall>i < 2047. \<forall>k < 32. bit (m ! i) k \<longleftrightarrow> i < ?q \<or> i = ?q \<and> k < ?t)"
    using wb less by auto
  also have "\<dots> \<longleftrightarrow> (\<forall>i < ?q. m ! i = 0xffffffff) \<and>
      (?q < 2047 \<longrightarrow> m ! ?q = 2 ^ ?t - 1) \<and> (\<forall>i. ?q < i \<and> i < 2047 \<longrightarrow> m ! i = 0)"
  proof -
    have "(\<forall>k < 32. bit (m ! i) k \<longleftrightarrow> i < ?q \<or> i = ?q \<and> k < ?t) \<longleftrightarrow>
        (if i < ?q then m ! i = 0xffffffff else if i = ?q then m ! i = 2 ^ ?t - 1 else m ! i = 0)" for i
      using eq_low_ones [of ?t "m ! i"] by (cases "i < ?q"; cases "i = ?q")
        (simp_all add: all_ones_u32 zero_u32 less_imp_le)
    then have "(\<forall>i < 2047. \<forall>k < 32. bit (m ! i) k \<longleftrightarrow> i < ?q \<or> i = ?q \<and> k < ?t) \<longleftrightarrow>
        (\<forall>i < 2047. if i < ?q then m ! i = 0xffffffff else if i = ?q then m ! i = 2 ^ ?t - 1
           else m ! i = 0)"
      by (intro all_cong1) simp
    also have "\<dots> \<longleftrightarrow> (\<forall>i < ?q. m ! i = 0xffffffff) \<and>
      (?q < 2047 \<longrightarrow> m ! ?q = 2 ^ ?t - 1) \<and> (\<forall>i. ?q < i \<and> i < 2047 \<longrightarrow> m ! i = 0)"
      by (rule all_three [OF lq])
    finally show ?thesis .
  qed
  finally have spec: "(\<forall>r < ROWS_PER_CHUNK. mask_bit m r \<longleftrightarrow> r < rows) \<longleftrightarrow> \<dots>" .
  have front: "list_all (\<lambda>w. w = 0xffffffff) (take ?q m) \<longleftrightarrow> (\<forall>i < ?q. m ! i = 0xffffffff)"
    using lm lq by (simp add: list_all_length)
  have tail: "list_all (\<lambda>w. w = 0) (take (2047 - n) (drop n m)) \<longleftrightarrow> (\<forall>i. n \<le> i \<and> i < 2047 \<longrightarrow> m ! i = 0)"
    for n
  proof -
    have "take (2047 - n) (drop n m) = drop n m" using lm by simp
    then show ?thesis using lm
      by (auto simp: list_all_length) (metis add_diff_inverse_nat diff_less_mono less_le_not_le not_less)
  qed
  show ?thesis
  proof (cases "?t = 0")
    case True
    have "(\<forall>i. ?q \<le> i \<and> i < 2047 \<longrightarrow> m ! i = 0) \<longleftrightarrow>
        (?q < 2047 \<longrightarrow> m ! ?q = 0) \<and> (\<forall>i. ?q < i \<and> i < 2047 \<longrightarrow> m ! i = 0)"
      by (auto simp: le_less)
    with True show ?thesis
      unfolding spec by (simp add: mask_is_full_def mask_is_full_tail_def Let_def front tail)
  next
    case False
    with lt lm show ?thesis
      unfolding spec
      by (simp add: mask_is_full_def mask_is_full_tail_def Let_def front tail index_def Suc_le_eq
          flip: Suc_eq_plus1 diff_diff_left) (use tail [of "Suc ?q"] in \<open>simp add: Suc_le_eq\<close>)
  qed
qed

section \<open>Visiting the rows\<close>

lemma zip_upt: "zip [0..<length xs] xs = map (\<lambda>i. (i, xs ! i)) [0..<length xs]"
  by (rule nth_equalityI) simp_all

lemma upt_blocks: "[0..<n * b] = concat (map (\<lambda>i. map (\<lambda>k. i * b + k) [0..<b]) [0..<n])"
proof (induction n)
  case (Suc n)
  have "[0..<Suc n * b] = [0..<n * b] @ [n * b..<n * b + b]"
    by (metis add.commute le_add1 mult_Suc upt_add_eq_append zero_le)
  also have "[n * b..<n * b + b] = map (\<lambda>k. n * b + k) [0..<b]"
    by (rule nth_equalityI) simp_all
  finally show ?case by (simp add: Suc)
qed simp

lemma mask_bit_word: "k < 32 \<Longrightarrow> mask_bit m (i * 32 + k) \<longleftrightarrow> i < length m \<and> bit (m ! i) k"
  by (simp add: mask_bit_def mult.commute [of i])

lemma iter_mask_filter:
  "iter_mask m rows = filter (\<lambda>r. r < rows \<and> mask_bit m r) [0..<length m * 32]"
proof -
  have "iter_mask m rows = concat (map (\<lambda>i. filter (\<lambda>row. row < rows \<and> mask_bit m row)
      (map (\<lambda>k. i * 32 + k) [0..<32])) [0..<length m])"
    unfolding iter_mask_def zip_upt map_map
  proof (intro arg_cong [where f = concat] map_cong refl)
    fix i assume i: "i \<in> set [0..<length m]"
    have "m ! i AND push_bit (row - i * 32) 1 \<noteq> 0 \<longleftrightarrow> mask_bit m row"
      if "row \<in> set (map (\<lambda>k. i * 32 + k) [0..<32])" for row
    proof -
      from that obtain k where k: "k \<in> {0..<32}" "row = i * 32 + k" unfolding set_map set_upt by blast
      then have "k < 32" by simp
      with k(2) i show ?thesis by (simp add: mask_bit_word)
    qed
    then show "((\<lambda>(word_idx, word). filter (\<lambda>row. row < rows \<and>
        word AND push_bit (row - word_idx * 32) 1 \<noteq> 0) (map (\<lambda>b. word_idx * 32 + b) [0..<32])) \<circ>
        (\<lambda>i. (i, m ! i))) i = filter (\<lambda>row. row < rows \<and> mask_bit m row) (map (\<lambda>k. i * 32 + k) [0..<32])"
      unfolding comp_def prod.case by (intro filter_cong refl) blast
  qed
  also have "\<dots> = filter (\<lambda>r. r < rows \<and> mask_bit m r) [0..<length m * 32]"
    unfolding upt_blocks by (simp add: filter_concat comp_def)
  finally show ?thesis .
qed

lemma filter_upt_less: "rows \<le> n \<Longrightarrow> filter (\<lambda>r. r < rows \<and> P r) [0..<n] = filter P [0..<rows]"
proof -
  assume "rows \<le> n"
  then have "[0..<n] = [0..<rows] @ [rows..<n]" by (metis le_add_diff_inverse upt_add_eq_append zero_le)
  then show ?thesis by (auto simp: filter_empty_conv intro!: filter_cong)
qed

lemma iter_mask_eq: "rows \<le> 32 * length m \<Longrightarrow> iter_mask m rows = filter (mask_bit m) [0..<rows]"
  by (simp add: iter_mask_filter filter_upt_less)

lemma for_each_row_eq:
  assumes m: "is_mask m" and rows: "rows \<le> ROWS_PER_CHUNK"
  shows "for_each_row m rows f s = foldR f s (filter (mask_bit m) [0..<rows])"
proof -
  have it: "iter_mask m rows = filter (mask_bit m) [0..<rows]"
    using m rows by (intro iter_mask_eq) (simp add: is_mask_def)
  obtain full where full: "mask_is_full m rows = Ok full" "full \<Longrightarrow> \<forall>r < rows. mask_bit m r"
    using mask_is_full_ok [OF m rows] rows by auto
  show ?thesis
  proof (cases full)
    case True
    then have "filter (mask_bit m) [0..<rows] = [0..<rows]" using full(2) by (simp add: filter_id_conv)
    with True show ?thesis by (simp add: for_each_row_def full(1))
  next
    case False
    then show ?thesis by (simp add: for_each_row_def full(1) it)
  qed
qed

lemma for_each_value_eq:
  assumes m: "is_mask m" and rows: "rows \<le> ROWS_PER_CHUNK" and len: "rows \<le> length vs"
  shows "for_each_value vs m rows f s =
     foldR f s (map (\<lambda>r. vs ! r) (filter (mask_bit m) [0..<rows]))"
proof -
  have it: "iter_mask m rows = filter (mask_bit m) [0..<rows]"
    using m rows by (intro iter_mask_eq) (simp add: is_mask_def)
  have fold: "foldR (\<lambda>s row. bindR (index vs row) (f s)) s rs = foldR f s (map (\<lambda>r. vs ! r) rs)"
    if "\<forall>r \<in> set rs. r < rows" for rs s
    using that len by (induction rs arbitrary: s) (auto simp: index_def bindR_def split: sum.splits)
  obtain full where full: "mask_is_full m rows = Ok full" "full \<Longrightarrow> \<forall>r < rows. mask_bit m r"
    using mask_is_full_ok [OF m rows] rows by auto
  show ?thesis
  proof (cases full)
    case True
    then have "filter (mask_bit m) [0..<rows] = [0..<rows]" using full(2) by (simp add: filter_id_conv)
    moreover have "take rows vs = map (\<lambda>r. vs ! r) [0..<rows]"
      using len by (intro nth_equalityI) simp_all
    ultimately show ?thesis using True by (simp add: for_each_value_def full(1))
  next
    case False
    then show ?thesis by (simp add: for_each_value_def full(1) it fold)
  qed
qed

lemma sum_list_of_nat_u32: "sum_list (map (\<lambda>x. of_nat (f x)) xs) = (of_nat (sum_list (map f xs)) :: u32)"
  by (induction xs) simp_all

lemma mask_count_eq: "mask_count m = of_nat (length (filter (mask_bit m) [0..<length m * 32]))"
proof -
  have "filter (mask_bit m) [0..<length m * 32] =
      concat (map (\<lambda>i. filter (mask_bit m) (map (\<lambda>k. i * 32 + k) [0..<32])) [0..<length m])"
    unfolding upt_blocks by (simp add: filter_concat comp_def)
  also have "\<dots> = concat (map (\<lambda>i. map (\<lambda>k. i * 32 + k) (filter (bit (m ! i)) [0..<32])) [0..<length m])"
  proof (intro arg_cong [where f = concat] map_cong refl)
    fix i assume i: "i \<in> set [0..<length m]"
    have "filter (mask_bit m \<circ> (\<lambda>k. i * 32 + k)) [0..<32] = filter (bit (m ! i)) [0..<32]"
      using i by (intro filter_cong) (simp_all add: mask_bit_word)
    then show "filter (mask_bit m) (map (\<lambda>k. i * 32 + k) [0..<32]) =
        map (\<lambda>k. i * 32 + k) (filter (bit (m ! i)) [0..<32])"
      by (simp only: filter_map)
  qed
  finally have "length (filter (mask_bit m) [0..<length m * 32]) =
      sum_list (map (\<lambda>i. count_ones (m ! i)) [0..<length m])"
    by (simp add: length_concat comp_def count_ones_def)
  also have "map (\<lambda>i. count_ones (m ! i)) [0..<length m] = map count_ones m"
    by (rule nth_equalityI) simp_all
  finally show ?thesis
    by (simp add: mask_count_def sum_list_of_nat_u32)
qed

section \<open>Conditions\<close>

text \<open>The condition that a postfix token list stands for.\<close>

datatype cond = Lit nat | Neg cond | Conj cond cond | Disj cond cond

fun tokens_of :: "cond \<Rightarrow> int list" where
  "tokens_of (Lit i) = [int i]"
| "tokens_of (Neg c) = tokens_of c @ [COMB_NOT]"
| "tokens_of (Conj c d) = tokens_of c @ tokens_of d @ [COMB_AND]"
| "tokens_of (Disj c d) = tokens_of c @ tokens_of d @ [COMB_OR]"

fun holds :: "(nat \<Rightarrow> bool) \<Rightarrow> cond \<Rightarrow> bool" where
  "holds v (Lit i) = v i"
| "holds v (Neg c) = (\<not> holds v c)"
| "holds v (Conj c d) = (holds v c \<and> holds v d)"
| "holds v (Disj c d) = (holds v c \<or> holds v d)"

fun lits :: "cond \<Rightarrow> nat set" where
  "lits (Lit i) = {i}"
| "lits (Neg c) = lits c"
| "lits (Conj c d) = lits c \<union> lits d"
| "lits (Disj c d) = lits c \<union> lits d"

fun mask_of_cond :: "mask list \<Rightarrow> cond \<Rightarrow> mask" where
  "mask_of_cond ms (Lit i) = ms ! i"
| "mask_of_cond ms (Neg c) = mask_not (mask_of_cond ms c)"
| "mask_of_cond ms (Conj c d) = mask_and (mask_of_cond ms c) (mask_of_cond ms d)"
| "mask_of_cond ms (Disj c d) = mask_or (mask_of_cond ms c) (mask_of_cond ms d)"

lemmas comb_defs = COMB_NOT_def COMB_AND_def COMB_OR_def

lemma combine_tokens:
  "lits c \<subseteq> {..<length ms} \<Longrightarrow>
     foldR (combine_step ms) st (tokens_of c) = Ok (mask_of_cond ms c # st)"
  by (induction c arbitrary: st) (auto simp: combine_step_def comb_defs)

lemma mask_of_cond_ok:
  assumes "\<forall>m \<in> set ms. is_mask m" "lits c \<subseteq> {..<length ms}"
  shows "is_mask (mask_of_cond ms c) \<and> (\<forall>r < ROWS_PER_CHUNK.
     mask_bit (mask_of_cond ms c) r \<longleftrightarrow> holds (\<lambda>i. mask_bit (ms ! i) r) c)"
  using assms(2)
proof (induction c)
  case (Lit i)
  then show ?case using assms(1) by simp
qed (auto simp: is_mask_def mask_or_bit)

lemma combine_masks_ok:
  assumes "\<forall>m \<in> set ms. is_mask m" "lits c \<subseteq> {..<length ms}"
  shows "\<exists>m. combine_masks (tokens_of c) ms = Ok m \<and> is_mask m \<and> (\<forall>r < ROWS_PER_CHUNK.
     mask_bit m r \<longleftrightarrow> holds (\<lambda>i. mask_bit (ms ! i) r) c)"
  using mask_of_cond_ok [OF assms] by (simp add: combine_masks_def combine_tokens [OF assms(2)])

text \<open>Conversely, every token list that is accepted is the postfix form of a condition.\<close>

lemma combine_tokens_inv:
  "foldR (combine_step ms) [] tokens = Ok st \<Longrightarrow>
     \<exists>cs. tokens = concat (map tokens_of (rev cs)) \<and> st = map (mask_of_cond ms) cs \<and>
       (\<forall>c \<in> set cs. lits c \<subseteq> {..<length ms})"
proof (induction tokens arbitrary: st rule: rev_induct)
  case Nil
  then show ?case by (intro exI [of _ "[]"]) simp
next
  case (snoc t ts)
  then obtain st0 where st0: "foldR (combine_step ms) [] ts = Ok st0" "combine_step ms st0 t = Ok st"
    by auto
  from snoc.IH [OF st0(1)] obtain cs where cs: "ts = concat (map tokens_of (rev cs))"
    "st0 = map (mask_of_cond ms) cs" "\<forall>c \<in> set cs. lits c \<subseteq> {..<length ms}" by blast
  consider (lit) "0 \<le> t" "nat t < length ms" "st = ms ! nat t # st0"
    | (neg) a r where "t = COMB_NOT" "st0 = a # r" "st = mask_not a # r"
    | (conj) a b r where "t = COMB_AND" "st0 = b # a # r" "st = mask_and a b # r"
    | (disj) a b r where "t = COMB_OR" "st0 = b # a # r" "st = mask_or a b # r"
    using st0(2) by (auto simp: combine_step_def split: if_splits list.splits)
  then show ?case
  proof cases
    case lit
    with cs show ?thesis by (intro exI [of _ "Lit (nat t) # cs"]) simp
  next
    case neg
    with cs obtain c rs where "cs = c # rs" by (cases cs) auto
    with cs neg show ?thesis by (intro exI [of _ "Neg c # rs"]) simp
  next
    case conj
    with cs obtain d c rs where "cs = d # c # rs" by (metis list.map_disc_iff neq_Nil_conv list.simps(9) list.inject)
    with cs conj show ?thesis by (intro exI [of _ "Conj c d # rs"]) simp
  next
    case disj
    with cs obtain d c rs where "cs = d # c # rs" by (metis list.map_disc_iff neq_Nil_conv list.simps(9) list.inject)
    with cs disj show ?thesis by (intro exI [of _ "Disj c d # rs"]) simp
  qed
qed

lemma combine_masks_inv:
  assumes "combine_masks tokens ms = Ok m"
  shows "\<exists>c. tokens = tokens_of c \<and> lits c \<subseteq> {..<length ms}"
proof -
  obtain st where st: "foldR (combine_step ms) [] tokens = Ok st"
    and one: "(case st of [m] \<Rightarrow> Ok m | _ \<Rightarrow> Err Unit_Err) = Ok m"
    using assms by (auto simp: combine_masks_def)
  have "st = [m]" using one by (cases st; cases "tl st") auto
  moreover obtain cs where
    "tokens = concat (map tokens_of (rev cs))" "st = map (mask_of_cond ms) cs"
    "\<forall>c \<in> set cs. lits c \<subseteq> {..<length ms}" using combine_tokens_inv [OF st] by blast
  ultimately show ?thesis by (auto simp: Cons_eq_map_conv)
qed

section \<open>SIMD\<close>

lemma simd_map2_eq:
  "i \<le> n \<Longrightarrow> n \<le> length a \<Longrightarrow> n \<le> length b \<Longrightarrow>
     simd_map2 f a b n i out = out @ map (\<lambda>j. f (a ! j) (b ! j)) [i..<n]"
proof (induction f a b n i out rule: simd_map2.induct)
  case (1 f a b n i out)
  show ?case
  proof (cases "i + 4 \<le> n")
    case True
    have "lanes2 f (slice a i (i + 4)) (slice b i (i + 4)) = map (\<lambda>j. f (a ! j) (b ! j)) [i..<i + 4]"
      using True 1(3,4) by (intro nth_equalityI) (simp_all add: lanes2_def slice_nth)
    moreover have "[i..<n] = [i..<i + 4] @ [i + 4..<n]"
      using True upt_add_eq_append [of i "i + 4" "n - (i + 4)"] by simp
    ultimately show ?thesis
      using 1 True by (subst simd_map2.simps) simp
  qed (subst simd_map2.simps, simp)
qed

lemma simd_mask_ops:
  "length b = length a \<Longrightarrow> mask_and_simd a b = mask_and a b"
  "length b = length a \<Longrightarrow> mask_or_simd a b = mask_or a b"
  "mask_not_simd a = mask_not a"
  "is_mask a \<Longrightarrow> is_mask b \<Longrightarrow> mask_and_simd_wasm a b = mask_and a b"
  "is_mask a \<Longrightarrow> is_mask b \<Longrightarrow> mask_or_simd_wasm a b = mask_or a b"
  "is_mask a \<Longrightarrow> mask_not_simd_wasm a = mask_not a"
proof -
  have ones: "w XOR 0xffffffff = NOT w" "w XOR (- 1) = NOT w" for w :: u32
  proof -
    have "(0xffffffff :: u32) = - 1" by simp
    moreover show "w XOR (- 1) = NOT w" by simp
    ultimately show "w XOR 0xffffffff = NOT w" by metis
  qed
  show "length b = length a \<Longrightarrow> mask_and_simd a b = mask_and a b"
    "length b = length a \<Longrightarrow> mask_or_simd a b = mask_or a b"
    "mask_not_simd a = mask_not a"
    "is_mask a \<Longrightarrow> is_mask b \<Longrightarrow> mask_and_simd_wasm a b = mask_and a b"
    "is_mask a \<Longrightarrow> is_mask b \<Longrightarrow> mask_or_simd_wasm a b = mask_or a b"
    "is_mask a \<Longrightarrow> mask_not_simd_wasm a = mask_not a"
    unfolding mask_and_simd_def mask_or_simd_def mask_not_simd_def mask_and_simd_wasm_def
      mask_or_simd_wasm_def mask_not_simd_wasm_def mask_and_def mask_or_def mask_not_def
    by (auto simp: simd_map2_eq is_mask_def ones intro!: nth_equalityI)
qed

lemma simd_all_eq:
  "i \<le> n \<Longrightarrow> n \<le> length m \<Longrightarrow> simd_all p m n i \<longleftrightarrow> (\<forall>j. i \<le> j \<and> j < n \<longrightarrow> p (m ! j))"
proof (induction p m n i rule: simd_all.induct)
  case (1 p m n i)
  show ?case
  proof (cases "i + 4 \<le> n")
    case True
    have "list_all p (slice m i (i + 4)) \<longleftrightarrow> (\<forall>k < 4. p (m ! (i + k)))"
      using True 1(3) by (simp add: list_all_length slice_nth)
    also have "\<dots> \<longleftrightarrow> (\<forall>j. i \<le> j \<and> j < i + 4 \<longrightarrow> p (m ! j))"
    proof safe
      fix j assume "\<forall>k < 4. p (m ! (i + k))" "i \<le> j" "j < i + 4"
      then show "p (m ! j)" by (auto dest: spec [of _ "j - i"])
    qed simp
    finally have "simd_all p m n i \<longleftrightarrow>
        (\<forall>j. i \<le> j \<and> j < i + 4 \<longrightarrow> p (m ! j)) \<and> (\<forall>j. i + 4 \<le> j \<and> j < n \<longrightarrow> p (m ! j))"
      using 1 True by (subst simd_all.simps) auto
    also have "\<dots> \<longleftrightarrow> (\<forall>j. i \<le> j \<and> j < n \<longrightarrow> p (m ! j))"
    proof safe
      fix j assume "\<forall>j. i \<le> j \<and> j < i + 4 \<longrightarrow> p (m ! j)" "\<forall>j. i + 4 \<le> j \<and> j < n \<longrightarrow> p (m ! j)"
        "i \<le> j" "j < n"
      then show "p (m ! j)" by (cases "j < i + 4") auto
    qed (use True in auto)
    finally show ?thesis .
  qed (subst simd_all.simps, auto simp: list_all_iff)
qed

lemma mask_is_zero_simd_eq: "is_mask m \<Longrightarrow> mask_is_zero_simd m = mask_is_zero m"
  by (simp add: mask_is_zero_simd_def mask_is_zero_def simd_all_eq is_mask_def list_all_length)

lemma xor_zero_iff: "(a :: 'a::len word) XOR b = 0 \<longleftrightarrow> a = b"
  by (auto simp: bit_eq_iff bit_xor_iff)

lemma mask_is_full_simd_eq:
  assumes "is_mask m" "rows \<le> ROWS_PER_CHUNK"
  shows "mask_is_full_simd m rows = mask_is_full m rows"
proof -
  have "simd_all (\<lambda>w. w XOR 0xffffffff = 0) m (rows div 32) 0 \<longleftrightarrow>
      list_all (\<lambda>w. w = 0xffffffff) (take (rows div 32) m)"
    using assms by (subst simd_all_eq) (auto simp: is_mask_def list_all_length xor_zero_iff)
  then show ?thesis by (simp add: mask_is_full_simd_def mask_is_full_def Let_def)
qed

lemma lane_popcount_eq: "lane_popcount w = of_nat (count_ones w)"
proof -
  have "filter (bit w) [0..<4 * 8] =
      concat (map (\<lambda>i. filter (bit w) (map (\<lambda>k. i * 8 + k) [0..<8])) [0..<4])"
    unfolding upt_blocks by (simp only: filter_concat map_map comp_def)
  also have "\<dots> = concat (map (\<lambda>i. map (\<lambda>k. i * 8 + k) (filter (bit (le32 w ! i)) [0..<8])) [0..<4])"
  proof (intro arg_cong [where f = concat] map_cong refl)
    fix i assume i: "i \<in> set [0..<4 :: nat]"
    have "filter (bit w \<circ> (\<lambda>k. i * 8 + k)) [0..<8] = filter (bit (le32 w ! i)) [0..<8]"
      using i by (intro filter_cong) (simp_all add: le32_def nth_to_le mult.commute)
    then show "filter (bit w) (map (\<lambda>k. i * 8 + k) [0..<8]) =
        map (\<lambda>k. i * 8 + k) (filter (bit (le32 w ! i)) [0..<8])"
      by (simp only: filter_map)
  qed
  finally have "count_ones w = sum_list (map (\<lambda>i. count_ones (le32 w ! i)) [0..<4])"
    by (simp add: count_ones_def length_concat comp_def)
  also have "[0..<4] = [0, 1, 2, 3 :: nat]" by (simp add: upt_conv_Cons eval_nat_numeral)
  finally show ?thesis
    by (simp add: lane_popcount_def Let_def add.assoc eval_nat_numeral)
qed

lemma simd_count_eq:
  "i \<le> n \<Longrightarrow> n \<le> length m \<Longrightarrow>
     simd_count m n i tot = tot + sum_list (map (\<lambda>j. of_nat (count_ones (m ! j))) [i..<n])"
proof (induction m n i tot rule: simd_count.induct)
  case (1 m n i tot)
  show ?case
  proof (cases "i + 4 \<le> n")
    case True
    have "slice m i (i + 4) ! 0 = m ! i" "slice m i (i + 4) ! 1 = m ! (i + 1)"
      "slice m i (i + 4) ! 2 = m ! (i + 2)" "slice m i (i + 4) ! 3 = m ! (i + 3)"
      using True 1(3) slice_nth [of 0 "i + 4" i m] slice_nth [of 1 "i + 4" i m]
        slice_nth [of 2 "i + 4" i m] slice_nth [of 3 "i + 4" i m] by simp_all
    moreover have "[i..<n] = [i, i + 1, i + 2, i + 3] @ [i + 4..<n]"
      using True by (simp add: upt_conv_Cons eval_nat_numeral)
    ultimately show ?thesis
      using 1 True by (subst simd_count.simps) (simp add: Let_def lane_popcount_eq add.assoc)
  qed (subst simd_count.simps, simp)
qed

lemma mask_count_simd_eq:
  assumes "is_mask m" shows "mask_count_simd m = mask_count m"
proof -
  have "map (\<lambda>j. of_nat (count_ones (m ! j)) :: u32) [0..<MASK_WORDS] = map (\<lambda>x. of_nat (count_ones x)) m"
    using assms by (intro nth_equalityI) (simp_all add: is_mask_def)
  with assms show ?thesis
    by (simp add: mask_count_simd_def mask_count_def simd_count_eq is_mask_def del: MASK_WORDS_num)
qed

end
