(* ===== verification/String_Encode.thy ===== *)
theory String_Encode
  imports Numeric_Page
begin

text \<open>
  Block-local string pages, as \<^verbatim>\<open>encode/page.rs\<close> writes them: the rows point into the
  sorted unique values, which are front-coded (shared prefix length and suffix), and the
  suffixes are optionally compressed with a dictionary of at most 128 tokens. The hash maps
  of the source are association lists or maps: their iteration order has no effect, because
  the candidates are sorted by a total order before they are used.
\<close>

section \<open>Front coding\<close>

fun common_prefix_len :: "bytes \<Rightarrow> bytes \<Rightarrow> nat" where
  "common_prefix_len (x # xs) (y # ys) = (if x \<noteq> y then 0 else Suc (common_prefix_len xs ys))"
| "common_prefix_len _ _ = 0"

definition STRING_LAYOUT_OPTION_A_FLAG :: u8 where "STRING_LAYOUT_OPTION_A_FLAG = 0x80"

definition max_list :: "u32 list \<Rightarrow> u32" where
  "max_list xs = foldl max 0 xs"

definition row_id_width_of :: "nat \<Rightarrow> u8" where
  "row_id_width_of unique_count = (if of_nat (unique_count - 1) \<le> (65535 :: u32) then 2 else 4)"

definition suffix_width_of :: "u32 list \<Rightarrow> u8" where
  "suffix_width_of suffix_lens = (if max_list suffix_lens \<le> 65535 then 2 else 4)"

definition width_bytes :: "u8 \<Rightarrow> u32 \<Rightarrow> bytes" where
  "width_bytes w v = (if w = 2 then le16 (ucast v) else le32 v)"

definition row_id_bytes :: "nat \<Rightarrow> u8 \<Rightarrow> u32 \<Rightarrow> bytes result" where
  "row_id_bytes unique_count w v =
     (if of_nat unique_count \<le> v then Err (Bail ''row_to_unique id out of range'')
      else Ok (width_bytes w v))"

definition suffix_len_bytes :: "u8 \<Rightarrow> u32 \<Rightarrow> bytes result" where
  "suffix_len_bytes w v =
     (if w = 2 \<and> 65535 < v then Err (Bail ''Suffix length exceeds u16 max'')
      else Ok (width_bytes w v))"

text \<open>\<^verbatim>\<open>build_block_option_a_v1\<close>; its 32-bit offset arithmetic wraps.\<close>

definition build_block_v1 ::
  "nat \<Rightarrow> u32 list \<Rightarrow> u16 list \<Rightarrow> u32 list \<Rightarrow> bytes \<Rightarrow> bytes option \<Rightarrow> bytes result" where
  "build_block_v1 rows row_to_unique lcps suffix_lens data_blob dict_bytes =
     (let unique_count = length lcps;
          row_id_width = row_id_width_of unique_count;
          suffix_len_width = suffix_width_of suffix_lens;
          dlen = (case dict_bytes of Some d \<Rightarrow> length d | None \<Rightarrow> 0);
          perm_off = 32 :: u32;
          lcp_off = perm_off + of_nat rows * ucast row_id_width;
          len_off = lcp_off + of_nat unique_count * 2;
          dict_off = len_off + of_nat unique_count * ucast suffix_len_width;
          data_off = dict_off + of_nat dlen
      in if 2 ^ 32 \<le> length data_blob then Err (Bail ''Block-local data blob too large'')
         else
           let head = le16 (of_nat rows) @ [row_id_width,
                 suffix_len_width OR STRING_LAYOUT_OPTION_A_FLAG] @
                 le32 perm_off @ le32 lcp_off @ le32 len_off @ le32 data_off @
                 le32 (of_nat (length data_blob)) @ le32 dict_off @ le32 (of_nat dlen)
           in bindR (mapR (row_id_bytes unique_count row_id_width) row_to_unique) (\<lambda>ids.
              bindR (mapR (suffix_len_bytes suffix_len_width) suffix_lens) (\<lambda>lens.
                Ok (head @ concat ids @ concat (map le16 lcps) @ concat lens @
                    (case dict_bytes of Some d \<Rightarrow> d | None \<Rightarrow> []) @ data_blob))))"

section \<open>Token dictionary\<close>

definition delimiters :: bytes where
  "delimiters = [0x2F, 0x2E, 0x3F, 0x3D, 0x26, 0x3A, 0x22, 0x20]"

fun bump :: "bytes \<Rightarrow> (bytes \<times> u32) list \<Rightarrow> (bytes \<times> u32) list" where
  "bump token [] = [(token, 1)]"
| "bump token ((t, c) # counts) =
     (if t = token then (t, c + 1) # counts else (t, c) # bump token counts)"

definition count_segment ::
  "bytes \<Rightarrow> nat \<Rightarrow> nat \<Rightarrow> (bytes \<times> u32) list \<Rightarrow> (bytes \<times> u32) list" where
  "count_segment bs start e counts =
     (if e \<le> start then counts
      else
        let segment = slice bs start e in
        foldl (\<lambda>counts len.
            foldl (\<lambda>counts idx. bump (slice segment idx (idx + len)) counts) counts
              [0..<length segment + 1 - len])
          counts (takeWhile (\<lambda>len. len \<le> length segment) [3..<9]))"

fun count_segments ::
  "bytes \<Rightarrow> nat \<Rightarrow> nat \<Rightarrow> bytes \<Rightarrow> (bytes \<times> u32) list \<Rightarrow> (bytes \<times> u32) list" where
  "count_segments bs start pos [] counts = count_segment bs start (length bs) counts"
| "count_segments bs start pos (b # rest) counts =
     (if b \<in> set delimiters then
        count_segments bs (pos + 1) (pos + 1) rest (count_segment bs start pos counts)
      else count_segments bs start (pos + 1) rest counts)"

definition token_score :: "bytes \<times> u32 \<Rightarrow> nat" where
  "token_score tc = unat (snd tc) * (length (fst tc) - 1)"

text \<open>"Not greater" of the comparison by score, then length, then bytes, all descending.\<close>

definition candidate_le :: "bytes \<times> u32 \<Rightarrow> bytes \<times> u32 \<Rightarrow> bool" where
  "candidate_le a b =
     (if token_score a \<noteq> token_score b then token_score b < token_score a
      else if length (fst a) \<noteq> length (fst b) then length (fst b) < length (fst a)
      else 0 \<le> lex_cmp (fst a) (fst b))"

definition pick_tokens :: "bytes list \<Rightarrow> bytes list" where
  "pick_tokens values =
     (let sorted = sort_by (\<lambda>a b. length b \<le> length a) values;
          counts = foldl (\<lambda>counts v. count_segments v 0 0 v counts) []
            (take (min (length sorted) 200) sorted);
          candidates = sort_by candidate_le
            (filter (\<lambda>(t, _). 3 \<le> length t \<and> length t \<le> 8) counts)
      in map fst (take 128 candidates))"

fun token_offsets :: "nat \<Rightarrow> bytes list \<Rightarrow> u16 list option" where
  "token_offsets pos [] = Some []"
| "token_offsets pos (t # ts) =
     (if 65535 < pos + length t then None
      else map_option (\<lambda>offs. of_nat (pos + length t) # offs) (token_offsets (pos + length t) ts))"

definition build_token_dict :: "bytes list \<Rightarrow> bytes list \<times> bytes" where
  "build_token_dict values =
     (let tokens = pick_tokens values in
      if tokens = [] then ([], [])
      else
        let tokens = tokens @ replicate (128 - length tokens) [] in
        case token_offsets 0 tokens of
          None \<Rightarrow> ([], [])
        | Some offs \<Rightarrow> (tokens, concat (map le16 (0 # offs)) @ concat tokens))"

section \<open>Token stream\<close>

text \<open>
  The nine hash maps of the source, one per token length, are one map from tokens to ids:
  a token is only looked up at its own length.
\<close>

definition token_map :: "bytes list \<Rightarrow> (bytes \<rightharpoonup> u8)" where
  "token_map tokens =
     foldl (\<lambda>m (i, t). if 3 \<le> length t \<and> length t \<le> 8 then m(t \<mapsto> of_nat i) else m)
       Map.empty (zip [0..<length tokens] tokens)"

fun longest_token :: "(bytes \<rightharpoonup> u8) \<Rightarrow> bytes \<Rightarrow> nat list \<Rightarrow> (u8 \<times> nat) option" where
  "longest_token m rest [] = None"
| "longest_token m rest (len # lens) =
     (if length rest < len then longest_token m rest lens
      else (case m (take len rest) of
              Some i \<Rightarrow> Some (i, len)
            | None \<Rightarrow> longest_token m rest lens))"

definition match_token :: "(bytes \<rightharpoonup> u8) \<Rightarrow> bytes \<Rightarrow> (u8 \<times> nat) option" where
  "match_token m rest = longest_token m rest [8, 7, 6, 5, 4, 3]"

fun literal_run :: "(bytes \<rightharpoonup> u8) \<Rightarrow> bytes \<Rightarrow> nat \<Rightarrow> nat" where
  "literal_run m [] n = n"
| "literal_run m (b # rest) n =
     (if match_token m (b # rest) \<noteq> None \<or> n = 127 then n else literal_run m rest (n + 1))"

lemma literal_run_ge: "n \<le> literal_run m rest n"
  by (induction rest arbitrary: n) (auto intro: Suc_leD)

lemma literal_run_pos: "match_token m (b # rest) = None \<Longrightarrow> 0 < literal_run m (b # rest) 0"
  using literal_run_ge [of 1 m rest] by simp

lemma longest_token_pos:
  "longest_token m rest lens = Some (i, n) \<Longrightarrow> n \<in> set lens \<and> n \<le> length rest \<and> m (take n rest) = Some i"
  by (induction lens) (auto split: if_splits option.splits)

lemma match_token_Some:
  "match_token m rest = Some (i, n) \<Longrightarrow> 3 \<le> n \<and> n \<le> 8 \<and> n \<le> length rest \<and> m (take n rest) = Some i"
  unfolding match_token_def by (drule longest_token_pos) auto

function encode_stream :: "(bytes \<rightharpoonup> u8) \<Rightarrow> bytes \<Rightarrow> bytes" where
  "encode_stream m rest =
     (if rest = [] then []
      else (case match_token m rest of
              Some (i, len) \<Rightarrow> i # encode_stream m (drop len rest)
            | None \<Rightarrow>
                let n = literal_run m rest 0
                in (128 + of_nat n) # take n rest @ encode_stream m (drop n rest)))"
  by pat_completeness auto
termination
  by (relation "measure (\<lambda>(m, rest). length rest)")
     (auto dest!: match_token_Some simp: literal_run_pos neq_Nil_conv simp del: literal_run.simps)

declare encode_stream.simps [simp del]

definition encode_token_stream :: "bytes \<Rightarrow> bytes list \<Rightarrow> bytes" where
  "encode_token_stream suffix_blob tokens = encode_stream (token_map tokens) suffix_blob"

definition build_block_v2 ::
  "nat \<Rightarrow> bytes list \<Rightarrow> u32 list \<Rightarrow> u16 list \<Rightarrow> u32 list \<Rightarrow> bytes \<Rightarrow> bytes option result" where
  "build_block_v2 rows unique_values row_to_unique lcps suffix_lens data_blob =
     (let (dict, dict_bytes) = build_token_dict unique_values in
      if dict = [] then Ok None
      else
        let encoded = encode_token_stream data_blob dict in
        if length data_blob \<le> length encoded then Ok None
        else bindR (build_block_v1 rows row_to_unique lcps suffix_lens encoded (Some dict_bytes))
               (\<lambda>out. Ok (Some out)))"

section \<open>The page\<close>

record string_state =
  ss_row_to_unique :: "u32 list"
  ss_unique :: "bytes list"
  ss_lcps :: "u16 list"
  ss_suffix_lens :: "u32 list"
  ss_blob :: bytes
  ss_prev :: bytes

definition string_row :: "bytes list \<Rightarrow> string_state \<Rightarrow> nat \<Rightarrow> string_state result" where
  "string_row values st orig_idx =
     (let bs = values ! orig_idx; first = (ss_unique st = []) in
      if \<not> first \<and> bs = ss_prev st then
        Ok (st\<lparr> ss_row_to_unique :=
          (ss_row_to_unique st)[orig_idx := of_nat (length (ss_unique st) - 1)] \<rparr>)
      else
        let lcp = (if first then 0 else common_prefix_len (ss_prev st) bs) in
        if 65535 < lcp then Err (Bail ''Block-local string prefix exceeds u16 max'')
        else
          let suffix = drop lcp bs in
          if 2 ^ 32 \<le> length suffix then Err (Bail ''String too large to encode'')
          else Ok \<lparr> ss_row_to_unique =
                      (ss_row_to_unique st)[orig_idx := of_nat (length (ss_unique st))],
                    ss_unique = ss_unique st @ [bs],
                    ss_lcps = ss_lcps st @ [of_nat lcp],
                    ss_suffix_lens = ss_suffix_lens st @ [of_nat (length suffix)],
                    ss_blob = ss_blob st @ suffix,
                    ss_prev = bs \<rparr>)"

definition lex_le :: "bytes \<Rightarrow> bytes \<Rightarrow> bool" where
  "lex_le a b \<longleftrightarrow> lex_cmp a b \<le> 0"

definition encode_string :: "column_buffer \<Rightarrow> nat \<Rightarrow> bytes result" where
  "encode_string buffer rows =
     (case b_values buffer of
        V_String values \<Rightarrow>
          if 65535 < rows then Err (Bail ''Block-local string rows exceed u16 max'')
          else if length values < rows then Err Panic
          else
            let sorted = sort_by (\<lambda>a b. lex_le (values ! a) (values ! b)) [0..<rows] in
            bindR (foldR (string_row values)
                \<lparr> ss_row_to_unique = replicate rows 0, ss_unique = [], ss_lcps = [],
                  ss_suffix_lens = [], ss_blob = [], ss_prev = [] \<rparr> sorted) (\<lambda>st.
              bindR (build_block_v1 rows (ss_row_to_unique st) (ss_lcps st) (ss_suffix_lens st)
                  (ss_blob st) None) (\<lambda>v1.
              bindR (build_block_v2 rows (ss_unique st) (ss_row_to_unique st) (ss_lcps st)
                  (ss_suffix_lens st) (ss_blob st)) (\<lambda>v2.
                Ok (case v2 of
                      Some v2 \<Rightarrow> if length v2 < length v1 then v2 else v1
                    | None \<Rightarrow> v1))))
      | _ \<Rightarrow> Err (Bail ''Expected string buffer''))"

end
