(* ===== verification/Column_Page.thy ===== *)
theory Column_Page
  imports String_Encode String_Decode
begin

text \<open>
  Pages of a column: the statistics (\<^verbatim>\<open>encode/stats.rs\<close>), the assembly and compression of
  a page (\<^verbatim>\<open>encode_column_page\<close> and \<^verbatim>\<open>finalize_chunk\<close> of \<^verbatim>\<open>encode/page.rs\<close>), and on
  the other side the decompression of the pages a query asked for
  (\<^verbatim>\<open>exec/decompress.rs\<close>) and their decoding into the column cache
  (\<^verbatim>\<open>ensure_decoded\<close> of \<^verbatim>\<open>decode/mod.rs\<close>). LZ4 is the pair of parameters \<open>compress\<close>
  and \<open>decompress\<close>. The encoder works on the columns in parallel; each page depends on its
  own column only, and the first error in column order is returned.
\<close>

section \<open>Statistics\<close>

definition PRESENCE_MAX_VALUES :: nat where "PRESENCE_MAX_VALUES = 64"

definition widen_range :: "f64 \<Rightarrow> f64 \<times> f64 \<Rightarrow> f64 \<times> f64" where
  "widen_range value mm =
     (let (mn, mx) = mm
      in (if f_lt value mn then value else mn, if f_lt mx value then value else mx))"

definition stats_value :: "column_spec \<Rightarrow> f64 \<Rightarrow> f64" where
  "stats_value col value =
     (if cs_scale col \<noteq> 0 then f_div value (f_of_int (sint (cs_scale col))) else value)"

definition stats_row ::
  "column_spec \<Rightarrow> bytes \<Rightarrow> f64 \<times> f64 \<Rightarrow> nat \<times> f64 \<Rightarrow> (f64 \<times> f64) result" where
  "stats_row col nulls mm iv =
     (let (i, v) = iv in
      bindR (bitmap_valid nulls i) (\<lambda>valid.
        if \<not> valid then Ok mm
        else let value = stats_value col v in
          if \<not> is_finite value then Ok mm else Ok (widen_range value mm)))"

definition stats_bool_row :: "bytes \<Rightarrow> f64 \<times> f64 \<Rightarrow> nat \<times> bool \<Rightarrow> (f64 \<times> f64) result" where
  "stats_bool_row nulls mm iv =
     (let (i, v) = iv in
      bindR (bitmap_valid nulls i) (\<lambda>valid.
        if \<not> valid then Ok mm else Ok (widen_range (if v then f_one else f_zero) mm)))"

definition presence_row :: "bytes \<Rightarrow> u64 \<Rightarrow> nat \<times> u32 \<Rightarrow> u64 result" where
  "presence_row nulls presence iv =
     (let (i, v) = iv in
      bindR (bitmap_valid nulls i) (\<lambda>valid.
        if \<not> valid then Ok presence
        else if unat v < PRESENCE_MAX_VALUES then Ok (presence OR push_bit (unat v) 1)
        else Ok presence))"

definition rows_of :: "nat \<Rightarrow> 'a list \<Rightarrow> (nat \<times> 'a) list" where
  "rows_of rows vs = take rows (zip [0..<length vs] vs)"

definition compute_page_stats ::
  "column_spec \<Rightarrow> column_buffer \<Rightarrow> nat \<Rightarrow> (f64 \<times> f64 \<times> u64) result" where
  "compute_page_stats col buffer rows =
     (let nulls = b_nulls buffer; start = (f_inf, f_neg_inf);
          finish = (\<lambda>(mn, mx) presence.
            if \<not> is_finite mn \<or> \<not> is_finite mx then (f_zero, f_zero, presence)
            else (mn, mx, presence))
      in case b_values buffer of
           V_Int vs \<Rightarrow>
             bindR (foldR (stats_row col nulls) start
                 (rows_of rows (map (\<lambda>v. f_of_int (sint v)) vs))) (\<lambda>mm. Ok (finish mm 0))
         | V_Float vs \<Rightarrow>
             bindR (foldR (stats_row col nulls) start (rows_of rows vs)) (\<lambda>mm. Ok (finish mm 0))
         | V_Bool vs \<Rightarrow>
             bindR (foldR (stats_bool_row nulls) start (rows_of rows vs)) (\<lambda>mm. Ok (finish mm 0))
         | V_Dict vs \<Rightarrow>
             if length (cs_dict_values col) \<le> PRESENCE_MAX_VALUES then
               bindR (foldR (presence_row nulls) 0 (rows_of rows vs)) (\<lambda>p. Ok (finish start p))
             else Ok (finish start 0)
         | V_String vs \<Rightarrow> Ok (finish start 0))"

section \<open>Encoding a page\<close>

text \<open>The compressed bytes where they are shorter, else the raw ones.\<close>

definition pack :: "(bytes \<Rightarrow> bytes) \<Rightarrow> bytes \<Rightarrow> bytes" where
  "pack compress raw =
     (if length raw \<le> length (compress raw) then raw else compress raw)"

definition encode_data :: "(bytes \<Rightarrow> bytes) \<Rightarrow> column_spec \<Rightarrow> column_buffer \<Rightarrow> nat \<Rightarrow> bytes result" where
  "encode_data compress col buffer rows =
     (if cs_encoding col = ENCODING_NUM_DICT then encode_numeric_dict compress col buffer rows
      else
        let ty = cs_physical col in
        if ty = TYPE_STRING then encode_string buffer rows
        else if ty = TYPE_BOOL then encode_bool buffer rows
        else if ty = TYPE_U8 then encode_u8 buffer rows
        else if ty = TYPE_U16 then encode_u16 buffer rows
        else if ty = TYPE_U32 then encode_u32 buffer rows
        else if ty = TYPE_I8 then encode_i8 buffer rows
        else if ty = TYPE_I16 then encode_i16 buffer rows
        else if ty = TYPE_I32 then encode_i32 buffer rows
        else if ty = TYPE_I64 then encode_i64 buffer rows
        else if ty = TYPE_F32 then encode_f32 buffer rows
        else if ty = TYPE_F64 then encode_f64 buffer rows
        else Err (Bail ''Unsupported physical type''))"

text \<open>\<open>bitmap_prefix bm rows\<close>: \<^verbatim>\<open>bm[..rows.div_ceil(8)].to_vec()\<close>.\<close>

definition bitmap_prefix :: "bytes \<Rightarrow> nat \<Rightarrow> bytes result" where
  "bitmap_prefix bm rows =
     (if length bm < div8_ceil rows then Err Panic else Ok (take (div8_ceil rows) bm))"

definition encode_nulls ::
  "(bytes \<Rightarrow> bytes) \<Rightarrow> column_spec \<Rightarrow> column_buffer \<Rightarrow> nat \<Rightarrow> (u32 \<times> bytes option) result" where
  "encode_nulls compress col buffer rows =
     (if cs_flags col AND FLAG_NULLABLE \<noteq> 0 \<and> b_has_nulls buffer then
        bindR (bitmap_prefix (b_nulls buffer) rows) (\<lambda>null_raw.
          Ok (of_nat (length null_raw), Some (pack compress null_raw)))
      else Ok (0, None))"

definition encode_empties ::
  "(bytes \<Rightarrow> bytes) \<Rightarrow> column_spec \<Rightarrow> column_buffer \<Rightarrow> nat \<Rightarrow> (u8 \<times> u32 \<times> u32 \<times> bytes option) result"
where
  "encode_empties compress col buffer rows =
     (if cs_physical col \<noteq> TYPE_STRING then Ok (EMPTY_MODE_ALL_ZERO, 0, 0, None)
      else
        let count = b_empty_count buffer in
        if count = 0 then Ok (EMPTY_MODE_ALL_ZERO, count, 0, None)
        else if b_null_count buffer = 0 \<and> count = of_nat rows then
          Ok (EMPTY_MODE_ALL_ONE, count, 0, None)
        else bindR (bitmap_prefix (b_empties buffer) rows) (\<lambda>empty_raw.
          Ok (EMPTY_MODE_MIXED, count, of_nat (length empty_raw), Some (pack compress empty_raw))))"

definition encode_column_page ::
  "(bytes \<Rightarrow> bytes) \<Rightarrow> column_spec \<Rightarrow> column_buffer \<Rightarrow> nat \<Rightarrow> column_page result" where
  "encode_column_page compress col buffer rows =
     bindR (compute_page_stats col buffer rows) (\<lambda>(mn, mx, presence).
     bindR (encode_data compress col buffer rows) (\<lambda>data_raw.
     bindR (encode_nulls compress col buffer rows) (\<lambda>(null_raw_len, null_comp).
     bindR (encode_empties compress col buffer rows)
       (\<lambda>(empty_mode, empty_count, empty_raw_len, empty_comp).
       Ok \<lparr> p_data_raw_len = of_nat (length data_raw), p_data_comp = pack compress data_raw,
            p_null_raw_len = null_raw_len, p_null_comp = null_comp,
            p_empty_mode = empty_mode, p_empty_count = empty_count,
            p_empty_raw_len = empty_raw_len, p_empty_comp = empty_comp,
            p_data_off = 0, p_null_off = NULL_SENTINEL_U64, p_empty_off = NULL_SENTINEL_U64,
            p_min = mn, p_max = mx, p_presence = presence \<rparr>))))"

definition finalize_chunk ::
  "(bytes \<Rightarrow> bytes) \<Rightarrow> nat \<Rightarrow> column_spec list \<Rightarrow> column_buffer list
     \<Rightarrow> (chunk_pages \<times> column_buffer list) result" where
  "finalize_chunk compress rows columns buffers =
     bindR (mapR (\<lambda>(col, buffer). encode_column_page compress col buffer rows) (zip columns buffers))
       (\<lambda>pages. Ok (pages, map buffer_reset buffers))"

section \<open>Decompressing the pages of a request\<close>

definition PAGE_KIND_DATA :: u32 where "PAGE_KIND_DATA = 0"
definition PAGE_KIND_NULL :: u32 where "PAGE_KIND_NULL = 1"
definition PAGE_KIND_EMPTY :: u32 where "PAGE_KIND_EMPTY = 2"
definition PAGE_EXEC_WORDS :: nat where "PAGE_EXEC_WORDS = 5"

record page_maps =
  data_pages :: "u32 \<rightharpoonup> bytes"
  null_pages :: "u32 \<rightharpoonup> bytes"
  empty_pages :: "u32 \<rightharpoonup> bytes"

definition unpack_page :: "(bytes \<Rightarrow> nat \<Rightarrow> bytes option) \<Rightarrow> bytes \<Rightarrow> nat \<Rightarrow> nat \<Rightarrow> bytes result" where
  "unpack_page decompress compressed clen raw_len =
     (if clen = raw_len then
        (if length compressed \<noteq> raw_len then Err (Code (- 6)) else Ok compressed)
      else of_option (Code (- 6)) (decompress compressed raw_len))"

definition decompress_step ::
  "(bytes \<Rightarrow> nat \<Rightarrow> bytes option) \<Rightarrow> bytes \<Rightarrow> nat \<Rightarrow> page_maps \<Rightarrow> u32 list \<Rightarrow> page_maps result" where
  "decompress_step decompress data rows maps chunk =
     (let kind = chunk ! 0; col_id = chunk ! 1; payload_start = unat (chunk ! 2);
          clen = unat (chunk ! 3); raw_len = unat (chunk ! 4);
          payload_end = payload_start + clen in
      if clen = 0 \<and> raw_len \<noteq> 0 then Err (Code (- 16))
      else if length data < payload_end then Err (Code (- 5))
      else
        bindR (unpack_page decompress (slice data payload_start payload_end) clen raw_len)
          (\<lambda>decompressed.
          if kind = PAGE_KIND_DATA then
            Ok (maps\<lparr> data_pages := (data_pages maps)(col_id \<mapsto> decompressed) \<rparr>)
          else if kind = PAGE_KIND_NULL then
            (if length decompressed < div8_ceil rows then Err (Code (- 18))
             else Ok (maps\<lparr> null_pages := (null_pages maps)(col_id \<mapsto> decompressed) \<rparr>))
          else if kind = PAGE_KIND_EMPTY then
            (if length decompressed < div8_ceil rows then Err (Code (- 18))
             else Ok (maps\<lparr> empty_pages := (empty_pages maps)(col_id \<mapsto> decompressed) \<rparr>))
          else Ok maps))"

definition decompress_pages ::
  "(bytes \<Rightarrow> nat \<Rightarrow> bytes option) \<Rightarrow> u32 list \<Rightarrow> bytes \<Rightarrow> nat \<Rightarrow> page_maps result" where
  "decompress_pages decompress descs data rows =
     foldR (decompress_step decompress data rows)
       \<lparr> data_pages = Map.empty, null_pages = Map.empty, empty_pages = Map.empty \<rparr>
       (chunks_exact PAGE_EXEC_WORDS descs)"

section \<open>Decoding into the cache\<close>

text \<open>\<open>decode_ids\<close> is \<^const>\<open>decode_raw_string_ids\<close> with its hash functions and mode fixed.\<close>

definition ensure_decoded ::
  "(bytes \<Rightarrow> nat \<Rightarrow> dictionary \<Rightarrow> (u32 list \<times> dictionary) result) \<Rightarrow> column \<Rightarrow> bytes
     \<Rightarrow> (u32 \<rightharpoonup> column_data) \<Rightarrow> nat \<Rightarrow> (u32 \<rightharpoonup> dictionary)
     \<Rightarrow> ((u32 \<rightharpoonup> column_data) \<times> (u32 \<rightharpoonup> dictionary)) result" where
  "ensure_decoded decode_ids col raw cache rows dicts =
     (if cache (c_id col) \<noteq> None then Ok (cache, dicts)
      else if c_logical col = TYPE_STRING \<and> c_flags col AND FLAG_DICT \<noteq> 0 \<and>
              c_physical col \<noteq> TYPE_STRING then
        bindR (decode_index_ids_as_u32 (c_physical col) raw) (\<lambda>ids.
          Ok (cache(c_id col \<mapsto> CD_U32 ids), dicts))
      else if c_encoding col = ENCODING_NUM_DICT then
        bindR (decode_num_dict_page (c_physical col) raw rows) (\<lambda>data.
          Ok (cache(c_id col \<mapsto> data), dicts))
      else if c_physical col = TYPE_STRING then
        let dict = (case dicts (c_dict_id col) of Some d \<Rightarrow> d | None \<Rightarrow> dictionary_new) in
        bindR (decode_ids raw rows dict) (\<lambda>(ids, dict).
          Ok (cache(c_id col \<mapsto> CD_U32 ids), dicts(c_dict_id col \<mapsto> dict)))
      else
        bindR (decode_physical_column (c_physical col) raw U_Fallback_U32) (\<lambda>data.
          Ok (cache(c_id col \<mapsto> data), dicts)))"

end
