(* ===== verification/Bit_Packing.thy ===== *)
theory Bit_Packing
  imports Numeric_Page Mask_Rows
begin

text \<open>
  Bitmaps written bit by bit, and the packed ids of a numeric dictionary page: unpacking
  what was packed gives the ids back, for every width that can hold them.
\<close>

section \<open>Bitmaps of the encoder\<close>

lemma set_bitmap_bit_ok:
  assumes "i div 8 < length bm"
  shows "\<exists>bm'. set_bitmap_bit bm i = Ok bm' \<and> length bm' = length bm \<and>
     (\<forall>r. bitmap_bit bm' r \<longleftrightarrow> r = i \<or> bitmap_bit bm r)"
proof -
  let ?m = "bm[i div 8 := bm ! (i div 8) OR push_bit (i mod 8) 1]"
  have "bitmap_bit ?m r \<longleftrightarrow> r = i \<or> bitmap_bit bm r" for r
  proof (cases "r div 8 = i div 8")
    case True
    then have "r mod 8 = i mod 8 \<longleftrightarrow> r = i" by (metis mult_div_mod_eq)
    with True assms show ?thesis by (auto simp: bitmap_bit_def bit_simps)
  qed (auto simp: bitmap_bit_def)
  then show ?thesis using assms by (auto simp: set_bitmap_bit_def index_def)
qed

lemma bitmap_valid_eq: "r div 8 < length bm \<Longrightarrow> bitmap_valid bm r = Ok (bitmap_bit bm r)"
  by (simp add: bitmap_valid_def index_def bitmap_bit_def)

lemma bitmap_bit_replicate_0 [simp]: "\<not> bitmap_bit (replicate n 0) r"
  by (auto simp: bitmap_bit_def)

lemma div8_ceil_less: "r < n \<Longrightarrow> r div 8 < div8_ceil n"
  using div_ceil_less [of 8 r n] by (simp add: div8_ceil_def div_ceil_def)

lemma encode_bool_ok:
  assumes "b_values buffer = V_Bool vs" "length vs = rows"
  shows "\<exists>bm. encode_bool buffer rows = Ok bm \<and> length bm = div8_ceil rows \<and>
     (\<forall>r. bitmap_bit bm r \<longleftrightarrow> r < rows \<and> vs ! r)"
proof -
  let ?xs = "zip [0..<length vs] vs"
  let ?f = "\<lambda>out (i, v). if v then set_bitmap_bit out i else Ok out"
  have "\<exists>bm. foldR ?f (replicate (div8_ceil rows) 0) ?xs = Ok bm \<and>
      (length bm = div8_ceil rows \<and> (\<forall>r. bitmap_bit bm r \<longleftrightarrow> r < length ?xs \<and> vs ! r))"
  proof (rule foldR_total [where P = "\<lambda>k bm. length bm = div8_ceil rows \<and>
        (\<forall>r. bitmap_bit bm r \<longleftrightarrow> r < k \<and> vs ! r)"])
    fix i bm assume i: "i < length ?xs" and bm: "length bm = div8_ceil rows \<and>
        (\<forall>r. bitmap_bit bm r \<longleftrightarrow> r < i \<and> vs ! r)"
    then have "i div 8 < length bm" using assms(2) by (simp add: div8_ceil_less)
    then show "\<exists>bm'. ?f bm (?xs ! i) = Ok bm' \<and> (length bm' = div8_ceil rows \<and>
        (\<forall>r. bitmap_bit bm' r \<longleftrightarrow> r < Suc i \<and> vs ! r))"
      using set_bitmap_bit_ok [of i bm] i bm by (auto simp: less_Suc_eq)
  qed simp
  then show ?thesis using assms by (simp add: encode_bool_def)
qed

section \<open>Packing and unpacking\<close>

lemma pack_value_ok:
  "bit_pos + n \<le> 8 * length out \<Longrightarrow>
     \<exists>out'. pack_value out bit_pos n v = Ok out' \<and> length out' = length out \<and>
       (\<forall>r. bitmap_bit out' r \<longleftrightarrow>
          bitmap_bit out r \<or> bit_pos \<le> r \<and> r < bit_pos + n \<and> bit v (r - bit_pos))"
proof (induction n arbitrary: out bit_pos v)
  case (Suc n)
  have "bit_pos div 8 < length out" using Suc.prems by auto
  then obtain o1 where o1: "(if v AND 1 \<noteq> 0 then set_bitmap_bit out bit_pos else Ok out) = Ok o1"
    "length o1 = length out" "\<forall>r. bitmap_bit o1 r \<longleftrightarrow> bitmap_bit out r \<or> r = bit_pos \<and> bit v 0"
  proof (cases "bit v 0")
    case True
    then have "v AND 1 \<noteq> 0" by (simp add: and_one_eq odd_iff_mod_2_eq_one bit_0)
    with True set_bitmap_bit_ok [OF \<open>bit_pos div 8 < length out\<close>] that show ?thesis by auto
  next
    case False
    then have "v AND 1 = 0" by (simp add: and_one_eq even_iff_mod_2_eq_zero bit_0)
    with False that [of out] show ?thesis by simp
  qed
  obtain o2 where o2: "pack_value o1 (bit_pos + 1) n (drop_bit 1 v) = Ok o2" "length o2 = length o1"
    "\<forall>r. bitmap_bit o2 r \<longleftrightarrow> bitmap_bit o1 r \<or> bit_pos + 1 \<le> r \<and> r < bit_pos + 1 + n \<and>
       bit (drop_bit 1 v) (r - (bit_pos + 1))"
    using Suc.IH [of "bit_pos + 1" o1 "drop_bit 1 v"] Suc.prems o1(2) by auto
  have "bitmap_bit o2 r \<longleftrightarrow> bitmap_bit out r \<or> bit_pos \<le> r \<and> r < bit_pos + Suc n \<and> bit v (r - bit_pos)"
    for r
  proof (cases "r = bit_pos")
    case False
    then have "Suc (r - Suc bit_pos) = r - bit_pos" if "bit_pos \<le> r" using that by simp
    with False show ?thesis
      unfolding o2(3) [rule_format] o1(3) [rule_format] by (auto simp: bit_drop_bit_eq)
  qed (simp add: o1(3) o2(3))
  with o1 o2 show ?case by simp
qed auto

lemma ex_nat_0_Suc: "(\<exists>i. P i) \<longleftrightarrow> P 0 \<or> (\<exists>i. P (Suc i))"
  by (metis not0_implies_Suc)

lemma pack_values_ok:
  "0 < width \<Longrightarrow> bit_pos + width * length ids \<le> 8 * length out \<Longrightarrow>
     \<exists>out'. pack_values out width bit_pos ids = Ok out' \<and> length out' = length out \<and>
       (\<forall>r. bitmap_bit out' r \<longleftrightarrow> bitmap_bit out r \<or>
          (\<exists>i k. i < length ids \<and> k < width \<and> r = bit_pos + width * i + k \<and> bit (ids ! i) k))"
proof (induction ids arbitrary: out bit_pos)
  case (Cons v ids)
  obtain o1 where o1: "pack_value out bit_pos width v = Ok o1" "length o1 = length out"
    "\<forall>r. bitmap_bit o1 r \<longleftrightarrow>
       bitmap_bit out r \<or> bit_pos \<le> r \<and> r < bit_pos + width \<and> bit v (r - bit_pos)"
    using pack_value_ok [of bit_pos width out v] Cons.prems by auto
  obtain o2 where o2: "pack_values o1 width (bit_pos + width) ids = Ok o2" "length o2 = length o1"
    "\<forall>r. bitmap_bit o2 r \<longleftrightarrow> bitmap_bit o1 r \<or>
       (\<exists>i k. i < length ids \<and> k < width \<and> r = bit_pos + width + width * i + k \<and> bit (ids ! i) k)"
    using Cons.IH [of "bit_pos + width" o1] Cons.prems o1(2) by auto
  have one: "(bit_pos \<le> r \<and> r < bit_pos + width \<and> bit v (r - bit_pos)) \<longleftrightarrow>
      (\<exists>k. k < width \<and> r = bit_pos + k \<and> bit v k)" for r
    by (metis add_diff_cancel_left' le_add1 le_add_diff_inverse nat_add_left_cancel_less)
  have "(\<exists>i k. i < length (v # ids) \<and> k < width \<and> r = bit_pos + width * i + k \<and> bit ((v # ids) ! i) k)
      \<longleftrightarrow> (\<exists>k. k < width \<and> r = bit_pos + k \<and> bit v k) \<or>
        (\<exists>i k. i < length ids \<and> k < width \<and> r = bit_pos + width + width * i + k \<and> bit (ids ! i) k)" for r
    by (subst ex_nat_0_Suc) (simp add: add.assoc)
  with o1 o2 one show ?case by auto
qed simp

lemma unpack_value_ok:
  "bit_no + n \<le> 32 \<Longrightarrow> bit_pos + n \<le> 8 * length bs \<Longrightarrow>
     \<exists>v'. unpack_value bs bit_pos bit_no n v = Ok v' \<and>
       (\<forall>k. bit v' k \<longleftrightarrow> bit v k \<or> bit_no \<le> k \<and> k < bit_no + n \<and> bitmap_bit bs (bit_pos + (k - bit_no)))"
proof (induction n arbitrary: bit_pos bit_no v)
  case (Suc n)
  have i: "bit_pos div 8 < length bs" using Suc.prems by auto
  let ?b = "drop_bit (bit_pos mod 8) (bs ! (bit_pos div 8)) AND 1"
  let ?v = "v OR push_bit (bit_no mod 32) (ucast ?b)"
  have vb: "bit ?v k \<longleftrightarrow> bit v k \<or> k = bit_no \<and> bitmap_bit bs bit_pos" for k
    using i Suc.prems(1)
    by (auto simp: bit_simps bitmap_bit_def bit_1_iff dest: bit_imp_le_length)
  obtain v' where v': "unpack_value bs (bit_pos + 1) (bit_no + 1) n ?v = Ok v'"
    "\<forall>k. bit v' k \<longleftrightarrow> bit ?v k \<or> bit_no + 1 \<le> k \<and> k < bit_no + 1 + n \<and>
       bitmap_bit bs (bit_pos + 1 + (k - (bit_no + 1)))"
    using Suc.IH [of "bit_no + 1" "bit_pos + 1" ?v] Suc.prems by auto
  have "bit v' k \<longleftrightarrow> bit v k \<or> bit_no \<le> k \<and> k < bit_no + Suc n \<and> bitmap_bit bs (bit_pos + (k - bit_no))" for k
  proof (cases "k = bit_no")
    case False
    then have "bit_pos + 1 + (k - (bit_no + 1)) = bit_pos + (k - bit_no)" if "bit_no \<le> k" using that by simp
    with False show ?thesis unfolding v'(2) [rule_format] vb by auto
  qed (simp add: v' vb)
  with v'(1) i show ?case by (auto simp: index_def Let_def)
qed auto

lemma unpack_values_ok:
  "width \<le> 32 \<Longrightarrow> bit_pos + width * rows \<le> 8 * length bs \<Longrightarrow>
     \<exists>ids. unpack_values bs width bit_pos rows = Ok ids \<and> length ids = rows \<and>
       (\<forall>i < rows. \<forall>k. bit (ids ! i) k \<longleftrightarrow> k < width \<and> bitmap_bit bs (bit_pos + width * i + k))"
proof (induction rows arbitrary: bit_pos)
  case (Suc rows)
  obtain v where v: "unpack_value bs bit_pos 0 width 0 = Ok v"
    "\<forall>k. bit v k \<longleftrightarrow> k < width \<and> bitmap_bit bs (bit_pos + k)"
    using unpack_value_ok [of 0 width bit_pos bs 0] Suc.prems by auto
  obtain ids where ids: "unpack_values bs width (bit_pos + width) rows = Ok ids" "length ids = rows"
    "\<forall>i < rows. \<forall>k. bit (ids ! i) k \<longleftrightarrow>
       k < width \<and> bitmap_bit bs (bit_pos + width + width * i + k)"
    using Suc.IH [of "bit_pos + width"] Suc.prems by auto
  have "bit ((v # ids) ! i) k \<longleftrightarrow> k < width \<and> bitmap_bit bs (bit_pos + width * i + k)"
    if "i < Suc rows" for i k
    using that v(2) ids(3) by (cases i) (simp_all add: add.assoc)
  with v(1) ids(1,2) show ?case by simp
qed simp

section \<open>The width of the ids\<close>

lemma leading_zeros_le: "leading_zeros (w :: 'a::len word) \<le> LENGTH('a)"
  unfolding leading_zeros_def by (metis length_rev length_takeWhile_le length_upt minus_nat.diff_0)

lemma bit_above_leading_zeros:
  assumes "LENGTH('a) - leading_zeros w \<le> k" shows "\<not> bit (w :: 'a::len word) k"
proof (cases "k < LENGTH('a)")
  case True
  let ?xs = "rev [0..<LENGTH('a)]" and ?P = "\<lambda>k. \<not> bit w k"
  have i: "LENGTH('a) - 1 - k < length (takeWhile ?P ?xs)"
    using assms True by (simp add: leading_zeros_def)
  then have "?P (takeWhile ?P ?xs ! (LENGTH('a) - 1 - k))" by (metis nth_mem set_takeWhileD)
  moreover have "takeWhile ?P ?xs ! (LENGTH('a) - 1 - k) = ?xs ! (LENGTH('a) - 1 - k)"
    using i by (rule takeWhile_nth)
  moreover have "?xs ! (LENGTH('a) - 1 - k) = k" using True by (simp add: rev_nth)
  ultimately show ?thesis by simp
qed (auto dest: bit_imp_le_length)

lemma small_iff_bits:
  "unat (w :: 'a::len word) < 2 ^ n \<longleftrightarrow> (\<forall>k. n \<le> k \<longrightarrow> \<not> bit w k)"
proof
  assume "unat w < 2 ^ n"
  then have u: "take_bit n (unat w) = unat w" by (simp add: take_bit_nat_eq_self)
  show "\<forall>k. n \<le> k \<longrightarrow> \<not> bit w k"
  proof (intro allI impI)
    fix k assume "n \<le> k"
    then have "\<not> bit (unat w) k" by (metis bit_take_bit_iff leD u)
    then show "\<not> bit w k" by (auto simp: bit_unsigned_iff dest: bit_imp_le_length)
  qed
next
  assume *: "\<forall>k. n \<le> k \<longrightarrow> \<not> bit w k"
  then have "take_bit n w = w" by (auto simp: bit_eq_iff bit_take_bit_iff not_le [symmetric])
  then have "unat w = take_bit n (unat w)" by (metis unsigned_take_bit_eq)
  then show "unat w < 2 ^ n" by (metis take_bit_nat_less_exp)
qed

lemma bit_width_le: "unat (bit_width_for_len len) \<le> 32"
proof -
  have "leading_zeros (len - 1) \<le> 32" using leading_zeros_le [of "len - 1"] by simp
  then have "unat (32 - of_nat (leading_zeros (len - 1)) :: u8) \<le> 32"
    by (simp add: unat_sub word_le_nat_alt unat_of_nat take_bit_nat_eq_self)
  then show ?thesis by (simp add: bit_width_for_len_def)
qed

lemma bit_width_ok:
  assumes "i < len"
  shows "unat i < 2 ^ unat (bit_width_for_len len)"
proof (cases "len \<le> 1")
  case True
  with assms have "i = 0" by (metis less_le_trans word_less_1)
  then show ?thesis by simp
next
  case False
  let ?n = "leading_zeros (len - 1)"
  have n: "?n \<le> 32" using leading_zeros_le [of "len - 1"] by simp
  then have w: "unat (bit_width_for_len len) = 32 - ?n"
    using False by (simp add: bit_width_for_len_def unat_sub word_le_nat_alt unat_of_nat take_bit_nat_eq_self)
  have "unat (len - 1) < 2 ^ (32 - ?n)"
    unfolding small_iff_bits using bit_above_leading_zeros [of "len - 1"] by simp
  moreover have "unat i \<le> unat (len - 1)"
  proof -
    have "1 \<le> len" using False by simp
    then have "unat (len - 1) = unat len - 1" by (simp add: unat_sub)
    with assms show ?thesis by (simp add: word_less_nat_alt)
  qed
  ultimately show ?thesis unfolding w by simp
qed

section \<open>Round trip of the packed ids\<close>

lemma div8_ceil_fits: "n \<le> 8 * div8_ceil n"
  using div_ceil_bounds(1) [of 8 n] by (simp add: div8_ceil_def div_ceil_def)

lemma bitpacked_ids_ok:
  assumes "\<forall>i \<in> set ids. i < len"
  shows "\<exists>bs. encode_bitpacked_ids ids len = Ok (bit_width_for_len len, bs) \<and>
     length bs = div8_ceil (length ids * unat (bit_width_for_len len)) \<and>
     decode_bitpacked_ids (unat (bit_width_for_len len)) bs (length ids) = Ok ids"
proof (cases "bit_width_for_len len = 0")
  case True
  have "i = 0" if "i \<in> set ids" for i
    using bit_width_ok [of i len] assms that True by (simp add: unat_eq_zero)
  then have "ids = replicate (length ids) 0" by (simp add: replicate_eqI)
  with True show ?thesis
    by (simp add: encode_bitpacked_ids_def decode_bitpacked_ids_def div8_ceil_def)
next
  case False
  let ?w = "unat (bit_width_for_len len)"
  let ?n = "div8_ceil (length ids * ?w)"
  have w: "0 < ?w" "?w \<le> 32" using False bit_width_le by (simp_all add: unat_gt_0)
  have fits: "?w * length ids \<le> 8 * ?n" using div8_ceil_fits [of "length ids * ?w"] by (simp add: mult.commute)
  obtain bs where bs: "pack_values (replicate ?n 0) ?w 0 ids = Ok bs" "length bs = ?n"
    "\<forall>r. bitmap_bit bs r \<longleftrightarrow> (\<exists>i k. i < length ids \<and> k < ?w \<and> r = ?w * i + k \<and> bit (ids ! i) k)"
    using pack_values_ok [of ?w 0 ids "replicate ?n 0"] w fits by auto
  obtain ids' where ids': "unpack_values bs ?w 0 (length ids) = Ok ids'" "length ids' = length ids"
    "\<forall>i < length ids. \<forall>k. bit (ids' ! i) k \<longleftrightarrow> k < ?w \<and> bitmap_bit bs (?w * i + k)"
    using unpack_values_ok [of ?w 0 "length ids" bs] w fits bs(2) by auto
  have "ids' ! i = ids ! i" if i: "i < length ids" for i
  proof (rule bit_eqI)
    fix k
    have "ids ! i < len" using assms i by simp
    then have high: "\<not> bit (ids ! i) k" if "?w \<le> k"
      using bit_width_ok [of "ids ! i" len] that unfolding small_iff_bits by blast
    have "bitmap_bit bs (?w * i + k) \<longleftrightarrow> bit (ids ! i) k" if k: "k < ?w"
    proof -
      have "j = i \<and> l = k" if "l < ?w" "?w * i + k = ?w * j + l" for j l
        using that k by (metis div_mod_add)
      then show ?thesis using bs(3) i k by blast
    qed
    with ids'(3) i high show "bit (ids' ! i) k \<longleftrightarrow> bit (ids ! i) k" by (cases "k < ?w") auto
  qed
  then have "ids' = ids" using ids'(2) by (intro nth_equalityI) auto
  with bs ids' False w show ?thesis
    by (simp add: encode_bitpacked_ids_def decode_bitpacked_ids_def Let_def)
qed

end
