(* ===== verification/Page_Facts.thy ===== *)
theory Page_Facts
  imports Column_Page Bit_Packing
begin

text \<open>
  The statistics of a page bound its values, and decompression gives back what was packed.
\<close>

section \<open>The order of doubles\<close>

lemma finite_not_nan: "is_finite x \<Longrightarrow> \<not> is_nan x"
  by (simp add: is_finite_def is_nan_def)

lemma unat_of_mag: "m < 2 ^ 63 \<Longrightarrow> unat (of_mag s m) = (if s then 2 ^ 63 + m else m)"
  by (auto simp: of_mag_def unat_of_nat)

lemma mag_of_mag [simp]: "m < 2 ^ 63 \<Longrightarrow> mag (of_mag s m) = m"
  by (simp add: mag_def unat_of_mag)

lemma neg_bit_iff: "neg_bit x \<longleftrightarrow> 2 ^ 63 \<le> unat x"
proof -
  have "unat x < 2 ^ 64" using unsigned_less [of x] by simp
  moreover have "neg_bit x \<longleftrightarrow> odd (unat x div 2 ^ 63)"
    unfolding neg_bit_def bit_iff_odd [of "unat x" 63, symmetric] by (simp add: bit_simps)
  moreover have "unat x div 2 ^ 63 = (if 2 ^ 63 \<le> unat x then 1 else 0)"
    using \<open>unat x < 2 ^ 64\<close> by (simp add: div_nat_eqI)
  ultimately show ?thesis by simp
qed

lemma neg_bit_of_mag [simp]: "m < 2 ^ 63 \<Longrightarrow> neg_bit (of_mag s m) = s"
  by (simp add: neg_bit_iff unat_of_mag)

lemma inf_mag_less [simp]: "inf_mag < 9223372036854775808"
  by (simp add: inf_mag_def)

lemma inf_consts [simp]:
  "\<not> is_nan f_inf" "\<not> is_nan f_neg_inf" "\<not> is_finite f_inf" "\<not> is_finite f_neg_inf"
  "fkey f_inf = int inf_mag" "fkey f_neg_inf = - int inf_mag"
  by (simp_all add: is_nan_def is_finite_def fkey_def f_inf_def f_neg_inf_def)

lemma zero_one_consts [simp]:
  "is_finite f_zero" "is_finite f_one" "fkey f_zero = 0"
  by (simp_all add: is_finite_def fkey_def f_zero_def f_one_def) (simp_all add: inf_mag_def)

lemma finite_fkey: "is_finite x \<Longrightarrow> - int inf_mag < fkey x \<and> fkey x < int inf_mag"
  by (simp add: is_finite_def fkey_def)

lemma widen_range_ok:
  assumes "is_finite v" "is_finite mn \<or> mn = f_inf" "is_finite mx \<or> mx = f_neg_inf"
    "widen_range v (mn, mx) = (mn', mx')"
  shows "is_finite mn' \<and> is_finite mx' \<and> fkey mn' \<le> fkey v \<and> fkey v \<le> fkey mx' \<and>
     fkey mn' \<le> fkey mn \<and> fkey mx \<le> fkey mx'"
proof -
  have v: "\<not> is_nan v" "- int inf_mag < fkey v" "fkey v < int inf_mag"
    using assms(1) finite_not_nan finite_fkey by blast+
  have mn: "\<not> is_nan mn" "mn = f_inf \<Longrightarrow> fkey v < fkey mn"
    using assms(2) finite_not_nan v by auto
  have mx: "\<not> is_nan mx" "mx = f_neg_inf \<Longrightarrow> fkey mx < fkey v"
    using assms(3) finite_not_nan v by auto
  from assms(4) have "mn' = (if fkey v < fkey mn then v else mn)"
    "mx' = (if fkey mx < fkey v then v else mx)"
    using v mn mx by (auto simp: widen_range_def f_lt_def)
  then show ?thesis using assms(1-3) mn(2) mx(2) by auto
qed

section \<open>Statistics\<close>

text \<open>\<open>range_inv\<close>: after \<open>k\<close> rows the range holds every finite valid value of them.\<close>

definition range_inv :: "(nat \<Rightarrow> bool) \<Rightarrow> (nat \<Rightarrow> f64) \<Rightarrow> nat \<Rightarrow> f64 \<times> f64 \<Rightarrow> bool" where
  "range_inv valid val k mm \<longleftrightarrow>
     (is_finite (fst mm) \<or> fst mm = f_inf) \<and> (is_finite (snd mm) \<or> snd mm = f_neg_inf) \<and>
     (\<forall>i < k. valid i \<and> is_finite (val i) \<longrightarrow>
        fkey (fst mm) \<le> fkey (val i) \<and> fkey (val i) \<le> fkey (snd mm) \<and>
        is_finite (fst mm) \<and> is_finite (snd mm))"

lemma range_inv_start: "range_inv valid val 0 (f_inf, f_neg_inf)"
  by (simp add: range_inv_def)

lemma range_inv_skip:
  "range_inv valid val k mm \<Longrightarrow> \<not> (valid k \<and> is_finite (val k)) \<Longrightarrow> range_inv valid val (Suc k) mm"
  by (auto simp: range_inv_def less_Suc_eq)

lemma range_inv_widen:
  assumes "range_inv valid val k mm" "is_finite (val k)"
  shows "range_inv valid val (Suc k) (widen_range (val k) mm)"
proof -
  obtain mn mx mn' mx' where eq: "mm = (mn, mx)" "widen_range (val k) mm = (mn', mx')" by fastforce
  have "is_finite mn' \<and> is_finite mx' \<and> fkey mn' \<le> fkey (val k) \<and> fkey (val k) \<le> fkey mx' \<and>
     fkey mn' \<le> fkey mn \<and> fkey mx \<le> fkey mx'"
    by (rule widen_range_ok) (use assms eq in \<open>auto simp: range_inv_def\<close>)
  then show ?thesis
    using assms(1) eq unfolding range_inv_def by (auto simp: less_Suc_eq intro: order_trans)
qed

lemma length_rows_of [simp]: "length (rows_of rows vs) = min rows (length vs)"
  by (simp add: rows_of_def min.commute)

lemma nth_rows_of: "k < rows \<Longrightarrow> k < length vs \<Longrightarrow> rows_of rows vs ! k = (k, vs ! k)"
  by (simp add: rows_of_def)

lemma stats_fold_ok:
  assumes "length vs \<le> 8 * length nulls \<or> rows \<le> 8 * length nulls"
  shows "\<exists>mm. foldR (stats_row col nulls) (f_inf, f_neg_inf) (rows_of rows vs) = Ok mm \<and>
     range_inv (bitmap_bit nulls) (\<lambda>i. stats_value col (vs ! i)) (min rows (length vs)) mm"
proof -
  let ?P = "range_inv (bitmap_bit nulls) (\<lambda>i. stats_value col (vs ! i))"
  have "\<exists>mm. foldR (stats_row col nulls) (f_inf, f_neg_inf) (rows_of rows vs) = Ok mm \<and>
      ?P (length (rows_of rows vs)) mm"
  proof (rule foldR_total)
    show "?P 0 (f_inf, f_neg_inf)" by (rule range_inv_start)
    fix k mm assume k: "k < length (rows_of rows vs)" and inv: "?P k mm"
    then have "k div 8 < length nulls" using assms by auto
    then have v: "bitmap_valid nulls k = Ok (bitmap_bit nulls k)" by (rule bitmap_valid_eq)
    have kth: "rows_of rows vs ! k = (k, vs ! k)" using k by (simp add: nth_rows_of)
    show "\<exists>mm'. stats_row col nulls mm (rows_of rows vs ! k) = Ok mm' \<and> ?P (Suc k) mm'"
    proof (cases "bitmap_bit nulls k \<and> is_finite (stats_value col (vs ! k))")
      case True
      then show ?thesis
        using range_inv_widen [OF inv] by (simp add: stats_row_def kth v Let_def)
    next
      case False
      then show ?thesis
        using range_inv_skip [OF inv False] by (intro exI [of _ mm]) (auto simp: stats_row_def kth v Let_def)
    qed
  qed
  then show ?thesis by simp
qed

lemma range_final:
  assumes "range_inv valid val n (mn, mx)" "i < n" "valid i" "is_finite (val i)"
  shows "is_finite mn \<and> is_finite mx \<and> f_le mn (val i) \<and> f_le (val i) mx"
  using assms finite_not_nan by (auto simp: range_inv_def f_le_def)

definition numeric_values :: "column_values \<Rightarrow> f64 list option" where
  "numeric_values vals =
     (case vals of
        V_Int vs \<Rightarrow> Some (map (\<lambda>v. f_of_int (sint v)) vs)
      | V_Float vs \<Rightarrow> Some vs
      | _ \<Rightarrow> None)"

lemma page_stats_range:
  assumes nv: "numeric_values (b_values buffer) = Some vs" and len: "rows \<le> 8 * length (b_nulls buffer)"
  shows "\<exists>mn mx. compute_page_stats col buffer rows = Ok (mn, mx, 0) \<and> is_finite mn \<and> is_finite mx \<and>
     (\<forall>i < min rows (length vs). bitmap_bit (b_nulls buffer) i \<and> is_finite (stats_value col (vs ! i)) \<longrightarrow>
        f_le mn (stats_value col (vs ! i)) \<and> f_le (stats_value col (vs ! i)) mx)"
proof -
  let ?nulls = "b_nulls buffer"
  obtain mn mx where mm: "foldR (stats_row col ?nulls) (f_inf, f_neg_inf) (rows_of rows vs) = Ok (mn, mx)"
    and inv: "range_inv (bitmap_bit ?nulls) (\<lambda>i. stats_value col (vs ! i)) (min rows (length vs)) (mn, mx)"
    using stats_fold_ok [of vs ?nulls rows col] len by auto
  let ?r = "if \<not> is_finite mn \<or> \<not> is_finite mx then (f_zero, f_zero, 0) else (mn, mx, 0)"
  have "compute_page_stats col buffer rows = Ok ?r"
    using nv mm by (auto simp: compute_page_stats_def numeric_values_def Let_def split: column_values.splits)
  moreover note range_final [OF inv]
  ultimately show ?thesis by (cases "is_finite mn \<and> is_finite mx") auto
qed

lemma presence_ok:
  assumes vs: "b_values buffer = V_Dict vs" and len: "rows \<le> 8 * length (b_nulls buffer)"
    and dict: "length (cs_dict_values col) \<le> PRESENCE_MAX_VALUES"
  shows "\<exists>p. compute_page_stats col buffer rows = Ok (f_zero, f_zero, p) \<and>
     (\<forall>k < 64. bit p k \<longleftrightarrow> (\<exists>i < min rows (length vs). bitmap_bit (b_nulls buffer) i \<and> unat (vs ! i) = k))"
proof -
  let ?nulls = "b_nulls buffer"
  let ?P = "\<lambda>n (p :: u64). \<forall>k < 64. bit p k \<longleftrightarrow> (\<exists>i < n. bitmap_bit ?nulls i \<and> unat (vs ! i) = k)"
  have "\<exists>p. foldR (presence_row ?nulls) 0 (rows_of rows vs) = Ok p \<and> ?P (length (rows_of rows vs)) p"
  proof (rule foldR_total)
    fix n p assume n: "n < length (rows_of rows vs)" and inv: "?P n p"
    then have "n div 8 < length ?nulls" using len by auto
    then have v: "bitmap_valid ?nulls n = Ok (bitmap_bit ?nulls n)" by (rule bitmap_valid_eq)
    have nth: "rows_of rows vs ! n = (n, vs ! n)" using n by (simp add: nth_rows_of)
    let ?q = "if bitmap_bit ?nulls n \<and> unat (vs ! n) < 64 then p OR push_bit (unat (vs ! n)) 1 else p"
    have "bit ?q k \<longleftrightarrow> (\<exists>i < Suc n. bitmap_bit ?nulls i \<and> unat (vs ! i) = k)" if "k < 64" for k
      using inv that by (auto simp: less_Suc_eq bit_simps)
    then show "\<exists>p'. presence_row ?nulls p (rows_of rows vs ! n) = Ok p' \<and> ?P (Suc n) p'"
      by (intro exI [of _ ?q]) (auto simp: presence_row_def nth v PRESENCE_MAX_VALUES_def)
  qed simp
  with vs dict show ?thesis by (auto simp: compute_page_stats_def Let_def)
qed

section \<open>Compression\<close>

lemma unpack_pack:
  assumes "decompress (compress raw) (length raw) = Some raw"
  shows "unpack_page decompress (pack compress raw) (length (pack compress raw)) (length raw) = Ok raw"
  using assms by (auto simp: unpack_page_def pack_def)

end
