(* ===== verification/F64_Facts.thy ===== *)
theory F64_Facts
  imports Page_Facts
begin

text \<open>
  Integers as doubles: \<open>f_of_int\<close> is exact, ordered and undone by the casts for integers
  below \<open>2 ^ 53\<close>. The comparisons of finite doubles are the order of their \<open>fkey\<close>.
\<close>

section \<open>Bit length\<close>

lemma bitlen_0 [simp]: "bitlen 0 = 0"
  by (simp add: bitlen.simps)

lemma bitlen_pos: "0 < n \<Longrightarrow> bitlen n = Suc (bitlen (n div 2))"
  by (simp add: bitlen.simps [of n])

lemma bitlen_bounds: "0 < n \<Longrightarrow> 0 < bitlen n \<and> 2 ^ (bitlen n - 1) \<le> n \<and> n < 2 ^ bitlen n"
proof (induction n rule: bitlen.induct)
  case (1 n)
  then show ?case
  proof (cases "n div 2 = 0")
    case True
    with 1 have "n = 1" by simp
    then show ?thesis by (simp add: bitlen_pos)
  next
    case False
    with 1 have IH: "0 < bitlen (n div 2)" "2 ^ (bitlen (n div 2) - 1) \<le> n div 2" "n div 2 < 2 ^ bitlen (n div 2)"
      by auto
    have "(2 :: nat) ^ bitlen (n div 2) = 2 * 2 ^ (bitlen (n div 2) - 1)"
      using IH(1) by (simp flip: power_Suc)
    moreover have "2 * (n div 2) \<le> n" "n < 2 * (n div 2) + 2" by simp_all
    ultimately have "2 ^ bitlen (n div 2) \<le> n" "n < 2 * 2 ^ bitlen (n div 2)" using IH by linarith+
    with 1(2) show ?thesis by (simp add: bitlen_pos)
  qed
qed

lemma bitlen_le: "n < 2 ^ k \<Longrightarrow> bitlen n \<le> k"
proof (cases "n = 0")
  case False
  assume "n < 2 ^ k"
  with False bitlen_bounds [of n] have "(2 :: nat) ^ (bitlen n - 1) < 2 ^ k" "0 < bitlen n"
    using le_less_trans [of "2 ^ (bitlen n - 1)" n "2 ^ k"] by auto
  then show ?thesis by (simp del: One_nat_def)
qed simp

lemma bitlen_mono: "m \<le> n \<Longrightarrow> bitlen m \<le> bitlen n"
  using bitlen_bounds [of n] by (cases "n = 0") (auto intro!: bitlen_le)

section \<open>Integers below two to the 53\<close>

text \<open>The significand of \<open>n\<close>, shifted to 53 bits, and its magnitude bits.\<close>

definition int_sig :: "nat \<Rightarrow> nat" where "int_sig n = n * 2 ^ (53 - bitlen n)"

definition int_mag :: "nat \<Rightarrow> nat" where
  "int_mag n = (if n = 0 then 0 else (bitlen n + 1022) * 2 ^ 52 + (int_sig n - 2 ^ 52))"

lemma int_sig_bounds:
  assumes "0 < n" "n < 2 ^ 53" shows "2 ^ 52 \<le> int_sig n \<and> int_sig n < 2 ^ 53"
proof -
  let ?L = "bitlen n"
  have L: "0 < ?L" "2 ^ (?L - 1) \<le> n" "n < 2 ^ ?L" "?L \<le> 53"
    using bitlen_bounds [OF assms(1)] bitlen_le [OF assms(2)] by auto
  have "2 ^ (?L - 1) * 2 ^ (53 - ?L) \<le> int_sig n" using L by (simp add: int_sig_def)
  moreover have "int_sig n < 2 ^ ?L * 2 ^ (53 - ?L)" using L by (simp add: int_sig_def)
  moreover have "(2 :: nat) ^ (?L - 1) * 2 ^ (53 - ?L) = 2 ^ 52" "(2 :: nat) ^ ?L * 2 ^ (53 - ?L) = 2 ^ 53"
    using L by (simp_all flip: power_add)
  ultimately show ?thesis by simp
qed

lemma round_mag_int:
  assumes "n < 2 ^ 53" shows "round_mag 53 1074 n 1 = int_mag n"
proof (cases "n = 0")
  case False
  let ?L = "bitlen n"
  have L: "0 < ?L" "?L \<le> 53" using False bitlen_bounds [of n] bitlen_le [OF assms] by auto
  have sig: "2 ^ 52 \<le> int_sig n" "int_sig n < 2 ^ 53" using int_sig_bounds [of n] False assms by auto
  have b1: "bitlen (Suc 0) = 1" by (simp add: bitlen_pos)
  have sh: "n * 2 ^ (54 - ?L) = 2 * int_sig n"
  proof -
    have "54 - ?L = Suc (53 - ?L)" using L by simp
    then show ?thesis by (simp add: int_sig_def)
  qed
  have e54: "nat (54 - int ?L) = 54 - ?L" "nat (int ?L - 54) = 0" using L by auto
  have fl: "floor_at n (Suc 0) (int ?L - 54) = 2 * int_sig n"
    using e54 by (simp add: floor_at_def sh)
  have q: "max (- 1074) (int ?L - 53) = int ?L - 53" using L by auto
  have e53: "nat (53 - int ?L) = 53 - ?L" "nat (int ?L - 53) = 0" using L by auto
  have rd: "round_at n (Suc 0) (int ?L - 53) = int_sig n"
    using e53 by (simp add: round_at_def int_sig_def Let_def)
  have nb: "nat (1022 + int ?L) = ?L + 1022" by simp
  show ?thesis
    unfolding round_mag_def Let_def using False sig
    by (simp add: b1 fl q rd nb int_mag_def)
qed (simp add: round_mag_def int_mag_def)

lemma int_mag_less:
  assumes "m < n" "n < 2 ^ 53" shows "int_mag m < int_mag n"
proof (cases "m = 0")
  case True
  with assms bitlen_bounds [of n] show ?thesis by (simp add: int_mag_def)
next
  case False
  have sm: "2 ^ 52 \<le> int_sig m" "int_sig m < 2 ^ 53" using int_sig_bounds [of m] assms False by auto
  have sn: "2 ^ 52 \<le> int_sig n" "int_sig n < 2 ^ 53" using int_sig_bounds [of n] assms by auto
  show ?thesis
  proof (cases "bitlen m = bitlen n")
    case True
    then have "int_sig m < int_sig n" using assms(1) by (simp add: int_sig_def)
    with True False assms sm show ?thesis by (simp add: int_mag_def)
  next
    case ne: False
    then have "bitlen m + 1 \<le> bitlen n" using bitlen_mono [of m n] assms(1) by simp
    then have "(bitlen m + 1022) * 2 ^ 52 + 2 ^ 52 \<le> (bitlen n + 1022) * (2 :: nat) ^ 52" by simp
    moreover have "int_sig m - 2 ^ 52 < 2 ^ 52" using sm by simp
    ultimately show ?thesis using False assms(1) by (simp add: int_mag_def)
  qed
qed

lemma int_mag_small:
  assumes "n < 2 ^ 53" shows "int_mag n < 1076 * 2 ^ 52" "int_mag n < inf_mag"
proof -
  have "bitlen n \<le> 53" by (rule bitlen_le [OF assms])
  with int_sig_bounds [of n] assms show a: "int_mag n < 1076 * 2 ^ 52"
    by (auto simp: int_mag_def)
  then show "int_mag n < inf_mag" by (simp add: inf_mag_def)
qed

lemma f_of_int_mag:
  assumes "\<bar>k\<bar> < 2 ^ 53" shows "f_of_int k = of_mag (k < 0) (int_mag (nat \<bar>k\<bar>))"
proof -
  have "nat \<bar>k\<bar> < 2 ^ 53" using assms by simp
  from round_mag_int [OF this] int_mag_small(2) [OF this] show ?thesis
    by (simp add: f_of_int_def f_of_frac_def del: One_nat_def)
qed

lemma f_of_int_props:
  assumes "\<bar>k\<bar> < 2 ^ 53"
  shows "mag (f_of_int k) = int_mag (nat \<bar>k\<bar>)" "neg_bit (f_of_int k) \<longleftrightarrow> k < 0"
    "is_finite (f_of_int k)" "\<not> is_nan (f_of_int k)"
proof -
  have m: "int_mag (nat \<bar>k\<bar>) < inf_mag" using assms by (intro int_mag_small) simp
  then have "int_mag (nat \<bar>k\<bar>) < 2 ^ 63" by (simp add: inf_mag_def)
  with f_of_int_mag [OF assms] show "mag (f_of_int k) = int_mag (nat \<bar>k\<bar>)" "neg_bit (f_of_int k) \<longleftrightarrow> k < 0"
    by simp_all
  with m show "is_finite (f_of_int k)" "\<not> is_nan (f_of_int k)" by (simp_all add: is_finite_def is_nan_def)
qed

lemma fkey_f_of_int_less:
  assumes "\<bar>a\<bar> < 2 ^ 53" "\<bar>b\<bar> < 2 ^ 53"
  shows "fkey (f_of_int a) < fkey (f_of_int b) \<longleftrightarrow> a < b"
proof -
  have mono: "fkey (f_of_int c) < fkey (f_of_int d)" if "c < d" "\<bar>c\<bar> < 2 ^ 53" "\<bar>d\<bar> < 2 ^ 53" for c d
  proof -
    have z: "int_mag 0 = 0" by (simp add: int_mag_def)
    have pos: "0 < int_mag n" if "0 < n" "n < 2 ^ 53" for n using int_mag_less [of 0 n] that z by simp
    consider "0 \<le> c" | "c < 0" "0 \<le> d" | "d < 0" by linarith
    then show ?thesis
    proof cases
      case 1
      then show ?thesis using that int_mag_less [of "nat c" "nat d"] by (simp add: fkey_def f_of_int_props)
    next
      case 2
      then have "0 < int_mag (nat (- c))" using that by (intro pos) auto
      then show ?thesis using 2 that by (simp add: fkey_def f_of_int_props)
    next
      case 3
      then show ?thesis using that int_mag_less [of "nat (- d)" "nat (- c)"] by (simp add: fkey_def f_of_int_props)
    qed
  qed
  show ?thesis using mono [of a b] mono [of b a] assms by (cases a b rule: linorder_cases) auto
qed

lemma fkey_f_of_int_eq:
  "\<bar>a\<bar> < 2 ^ 53 \<Longrightarrow> \<bar>b\<bar> < 2 ^ 53 \<Longrightarrow> fkey (f_of_int a) = fkey (f_of_int b) \<longleftrightarrow> a = b"
  using fkey_f_of_int_less [of a b] fkey_f_of_int_less [of b a]
  by (cases a b rule: linorder_cases) auto

lemma f_of_int_cmp:
  assumes "\<bar>a\<bar> < 2 ^ 53" "\<bar>b\<bar> < 2 ^ 53"
  shows "f_lt (f_of_int a) (f_of_int b) \<longleftrightarrow> a < b" "f_le (f_of_int a) (f_of_int b) \<longleftrightarrow> a \<le> b"
    "f_eq (f_of_int a) (f_of_int b) \<longleftrightarrow> a = b"
  using fkey_f_of_int_less [OF assms] fkey_f_of_int_less [OF assms(2,1)] fkey_f_of_int_eq [OF assms]
  by (auto simp: f_lt_def f_le_def f_eq_def f_of_int_props [OF assms(1)] f_of_int_props [OF assms(2)]
      not_less [symmetric])

lemma trunc_f_of_int:
  assumes "\<bar>k\<bar> < 2 ^ 53" shows "trunc_int (f_of_int k) = k" "\<not> has_fract (f_of_int k)"
proof -
  let ?n = "nat \<bar>k\<bar>" and ?x = "f_of_int k"
  have n: "?n < 2 ^ 53" using assms by simp
  have "abs_trunc ?x = ?n \<and> \<not> has_fract ?x"
  proof (cases "?n = 0")
    case True
    then have "mag ?x = 0" using f_of_int_props(1) [OF assms] by (simp add: int_mag_def)
    then have "f_expo ?x = 1" "f_mant ?x = 0" by (simp_all add: f_expo_def f_mant_def)
    then show ?thesis using True by (simp add: abs_trunc_def has_fract_def)
  next
    case False
    let ?L = "bitlen ?n"
    have L: "?L \<le> 53" by (rule bitlen_le [OF n])
    have s: "2 ^ 52 \<le> int_sig ?n" "int_sig ?n < 2 ^ 53" using int_sig_bounds [of ?n] n False by auto
    have m: "mag ?x = (int_sig ?n - 2 ^ 52) + (?L + 1022) * 2 ^ 52"
      using f_of_int_props(1) [OF assms] False by (simp add: int_mag_def)
    have d: "mag ?x div 2 ^ 52 = ?L + 1022" "mag ?x mod 2 ^ 52 = int_sig ?n - 2 ^ 52"
    proof -
      have "((a - b) + c * b) div b = c" "((a - b) + c * b) mod b = a - b"
        if "b \<le> a" "a < 2 * b" for a b c :: nat
        using that by (auto simp flip: diff_add_assoc2 simp: le_iff_add)
      note arith = this [of "2 ^ 52" "int_sig ?n" "?L + 1022", OF s(1)]
      have "int_sig ?n < 2 * 2 ^ 52" using s(2) by simp
      from arith [OF this] show "mag ?x div 2 ^ 52 = ?L + 1022" "mag ?x mod 2 ^ 52 = int_sig ?n - 2 ^ 52"
        unfolding m .
    qed
    then have e: "f_expo ?x = ?L + 1022" "f_mant ?x = int_sig ?n"
      using s by (simp_all add: f_expo_def f_mant_def)
    have "abs_trunc ?x = ?n"
    proof (cases "?L = 53")
      case True
      then show ?thesis using e by (simp add: abs_trunc_def int_sig_def)
    next
      case lt: False
      then have "1075 - f_expo ?x = 53 - ?L" "\<not> 1075 \<le> f_expo ?x" using L e by simp_all
      then show ?thesis by (simp add: abs_trunc_def e int_sig_def)
    qed
    moreover have "\<not> has_fract ?x"
    proof -
      have "1075 - f_expo ?x = 53 - ?L" using e by simp
      then show ?thesis by (simp add: has_fract_def e int_sig_def)
    qed
    ultimately show ?thesis by simp
  qed
  then show "trunc_int ?x = k" "\<not> has_fract ?x"
    using f_of_int_props(2) [OF assms] by (auto simp: trunc_int_def)
qed

lemma f_as_int_f_of_int: "\<bar>k\<bar> < 2 ^ 53 \<Longrightarrow> f_as_int lo hi (f_of_int k) = max lo (min hi k)"
  by (simp add: f_as_int_def f_of_int_props trunc_f_of_int)

end
