(* ===== verification/Filter_Facts.thy ===== *)
theory Filter_Facts
  imports Filter_Mask Mask_Rows F64_Facts
begin

text \<open>
  The rows in the mask of a filter. Unscaled columns are compared like the doubles of their
  values when the literals are integers of the range of the column. The SIMD builders share
  one contract, a lane compare that agrees with the scalar one.
\<close>

section \<open>Setting rows\<close>

lemma is_mask_empty [simp]: "is_mask empty_mask"
  by (simp add: empty_mask_def is_mask_def MASK_WORDS_def ROWS_PER_CHUNK_def)

lemma mask_bit_empty [simp]: "\<not> mask_bit empty_mask r"
  by (simp add: empty_mask_def)

lemma set_rows_ok:
  assumes m: "is_mask m" and hi: "hi \<le> ROWS_PER_CHUNK"
    and p: "\<And>i. lo \<le> i \<Longrightarrow> i < hi \<Longrightarrow> p i = Ok (P i)"
  shows "\<exists>m'. foldR (set_rows p) m [lo..<hi] = Ok m' \<and> is_mask m' \<and>
     (\<forall>r. mask_bit m' r \<longleftrightarrow> mask_bit m r \<or> lo \<le> r \<and> r < hi \<and> P r)"
proof -
  let ?Q = "\<lambda>k m'. is_mask m' \<and> (\<forall>r. mask_bit m' r \<longleftrightarrow> mask_bit m r \<or> lo \<le> r \<and> r < lo + k \<and> P r)"
  have "\<exists>m'. foldR (set_rows p) m [lo..<hi] = Ok m' \<and> ?Q (length [lo..<hi]) m'"
  proof (rule foldR_total)
    show "?Q 0 m" using m by auto
    fix k m1 assume k: "k < length [lo..<hi]" and Q: "?Q k m1"
    then have k': "lo + k < hi" "[lo..<hi] ! k = lo + k" by auto
    have w: "(lo + k) div 32 < length m1"
      using Q k'(1) hi by (auto simp: is_mask_def MASK_WORDS_def ROWS_PER_CHUNK_def)
    obtain m2 where m2: "set_bit_at m1 (lo + k) = Ok m2" "length m2 = length m1"
        "\<forall>r. mask_bit m2 r \<longleftrightarrow> r = lo + k \<or> mask_bit m1 r"
      using set_bit_at_ok [OF w] by blast
    let ?m = "if P (lo + k) then m2 else m1"
    have "set_rows p m1 (lo + k) = Ok ?m" using p [of "lo + k"] k'(1) m2(1) by (simp add: set_rows_def)
    moreover have "?Q (Suc k) ?m" using Q m2(2,3) by (auto simp: is_mask_def less_Suc_eq)
    ultimately show "\<exists>m'. set_rows p m1 ([lo..<hi] ! k) = Ok m' \<and> ?Q (Suc k) m'"
      using k'(2) by auto
  qed
  then show ?thesis by (auto intro: exI)
qed

lemma set_rows_cong:
  "(\<And>i. lo \<le> i \<Longrightarrow> i < hi \<Longrightarrow> p i = q i) \<Longrightarrow> foldR (set_rows p) m [lo..<hi] = foldR (set_rows q) m [lo..<hi]"
  by (intro foldR_cong) (auto simp: set_rows_def)

lemma build_cmp_mask_ok:
  assumes "rows \<le> ROWS_PER_CHUNK" "rows \<le> length values"
  shows "\<exists>m. build_cmp_mask values rows op rhs rhs2 cast cmp = Ok m \<and> is_mask m \<and>
     (\<forall>r. mask_bit m r \<longleftrightarrow> r < rows \<and> cmp (cast (values ! r)) op rhs rhs2)"
  using set_rows_ok [OF is_mask_empty assms(1), of 0 "\<lambda>i. bindR (index values i) (\<lambda>v. Ok (cmp (cast v) op rhs rhs2))"
      "\<lambda>i. cmp (cast (values ! i)) op rhs rhs2"] assms(2)
  by (auto simp: build_cmp_mask_def index_def)

section \<open>The SIMD builders\<close>

lemma bit_lane_bits:
  "n \<le> 32 \<Longrightarrow> bit (lane_bits p n vs i) k \<longleftrightarrow> k < n \<and> p (vs ! (i + k))"
  by (auto simp: lane_bits_def bit_horner_sum_bit_word_iff)

lemma bit_word_bits:
  assumes n: "0 < n" "n dvd 32"
  shows "bit (word_bits p n vs i) k \<longleftrightarrow> k < 32 \<and> p (vs ! (i + k))"
proof -
  have n32: "n \<le> 32" using n by (simp add: dvd_imp_le)
  have fold: "bit (foldl (\<lambda>word c. word OR push_bit (c * n) (lane_bits p n vs (i + c * n))) (0 :: u32) [0..<q]) k
      \<longleftrightarrow> k < q * n \<and> p (vs ! (i + k))" if "q * n \<le> 32" for q
    using that
  proof (induction q)
    case (Suc q)
    have "bit (push_bit (q * n) (lane_bits p n vs (i + q * n))) k \<longleftrightarrow>
        q * n \<le> k \<and> k < 32 \<and> k - q * n < n \<and> p (vs ! (i + q * n + (k - q * n)))"
      using n32 by (auto simp: bit_push_bit_iff bit_lane_bits)
    moreover have "i + q * n + (k - q * n) = i + k" if "q * n \<le> k" using that by simp
    ultimately show ?case using Suc by (auto simp: bit_or_iff)
  qed simp
  have "32 div n * n = 32" using n(2) by simp
  with fold [of "32 div n"] show ?thesis by (simp add: word_bits_def)
qed

text \<open>
  What the three builders rely on: for a query \<open>c\<close> in \<open>dom\<close> the lane compare decides each value
  as the scalar compare, and a register divides a word of the mask.
\<close>

locale simd_compare =
  fixes lane :: "'c \<Rightarrow> 'v \<Rightarrow> bool" and scalar :: "'c \<Rightarrow> 'v \<Rightarrow> bool" and dom :: "'c \<Rightarrow> bool" and n :: nat
  assumes agree: "dom c \<Longrightarrow> lane c v = scalar c v"
    and lanes: "0 < n" "n dvd 32"
begin

lemma words_ok:
  assumes "32 dvd i" "i \<le> rows" "rows \<le> ROWS_PER_CHUNK" "is_mask m"
    and "\<forall>r. mask_bit m r \<longleftrightarrow> r < i \<and> p (vs ! r)"
  shows "\<exists>j m'. simd_words p n vs rows i m = (j, m') \<and> 32 dvd j \<and> j \<le> rows \<and> is_mask m' \<and>
     (\<forall>r. mask_bit m' r \<longleftrightarrow> r < j \<and> p (vs ! r))"
  using assms
proof (induction "rows - i" arbitrary: i m rule: less_induct)
  case less
  show ?case
  proof (cases "i + 32 \<le> rows")
    case True
    let ?m = "m[i div 32 := word_bits p n vs i]"
    obtain a where a: "i = 32 * a" using less.prems(1) by (auto elim: dvdE)
    have len: "a < length m"
      using True less.prems(3,4) a by (auto simp: is_mask_def MASK_WORDS_def ROWS_PER_CHUNK_def)
    have bits: "mask_bit ?m r \<longleftrightarrow> r < i + 32 \<and> p (vs ! r)" for r
    proof (cases "r div 32 = a")
      case True
      then have "32 * a + r mod 32 = r" using mult_div_mod_eq [of 32 r] by simp
      moreover have "r mod 32 < 32" by simp
      ultimately have "i + r mod 32 = r" "r < i + 32" unfolding a by linarith+
      then show ?thesis using True len bit_word_bits [OF lanes, of p vs i "r mod 32"] a
        by (simp add: mask_bit_def)
    next
      case False
      then have "mask_bit ?m r \<longleftrightarrow> mask_bit m r" using a by (simp add: mask_bit_def)
      moreover have "r < i + 32 \<longleftrightarrow> r < i"
        using False div_less_iff_less_mult [of 32 r a] div_less_iff_less_mult [of 32 r "a + 1"] a by auto
      ultimately show ?thesis using less.prems(5) by simp
    qed
    have "rows - (i + 32) < rows - i" using True by simp
    moreover have "32 dvd i + 32" "is_mask ?m" using less.prems(1,4) by (simp_all add: is_mask_def)
    ultimately have "\<exists>j m'. simd_words p n vs rows (i + 32) ?m = (j, m') \<and> 32 dvd j \<and> j \<le> rows \<and>
        is_mask m' \<and> (\<forall>r. mask_bit m' r \<longleftrightarrow> r < j \<and> p (vs ! r))"
      using less.hyps [of "i + 32" ?m] True less.prems(3) bits by blast
    then show ?thesis using True by (simp add: simd_words.simps [of p n vs rows i])
  qed (use less.prems in \<open>simp add: simd_words.simps [of p n vs rows i]\<close>)
qed

lemma lanes_ok:
  assumes "n dvd i" "i \<le> rows" "rows \<le> ROWS_PER_CHUNK" "is_mask m"
    and "\<forall>r. mask_bit m r \<longleftrightarrow> r < i \<and> p (vs ! r)"
  shows "\<exists>j m'. simd_lanes p n vs rows i m = (j, m') \<and> j \<le> rows \<and> is_mask m' \<and>
     (\<forall>r. mask_bit m' r \<longleftrightarrow> r < j \<and> p (vs ! r))"
  using assms
proof (induction "rows - i" arbitrary: i m rule: less_induct)
  case less
  show ?case
  proof (cases "i + n \<le> rows")
    case True
    let ?w = "m ! (i div 32) OR push_bit (i mod 32) (lane_bits p n vs i)"
    let ?m = "m[i div 32 := ?w]"
    have n32: "n \<le> 32" using lanes by (simp add: dvd_imp_le)
    have fit: "i mod 32 + n \<le> 32"
    proof -
      obtain c where c: "i = n * c" using less.prems(1) by (rule dvdE)
      obtain d where d: "32 = n * d" using lanes(2) by (rule dvdE)
      note cd = c d
      then have "i mod 32 = n * (c mod d)" by (simp add: mult_mod_right)
      moreover have "c mod d < d" using cd(2) by (cases d) auto
      then have "n * (c mod d) + n \<le> n * d" by (metis Suc_leI mult_Suc_right add.commute mult_le_mono2)
      ultimately show ?thesis using cd(2) by simp
    qed
    have len: "i div 32 < length m"
      using True lanes(1) less.prems(3,4) by (auto simp: is_mask_def MASK_WORDS_def ROWS_PER_CHUNK_def)
    have bits: "mask_bit ?m r \<longleftrightarrow> r < i + n \<and> p (vs ! r)" for r
    proof (cases "r div 32 = i div 32")
      case same: True
      have dm: "r = 32 * (i div 32) + r mod 32" "i = 32 * (i div 32) + i mod 32"
        using mult_div_mod_eq [of 32 r] same by simp_all
      have "bit (push_bit (i mod 32) (lane_bits p n vs i)) (r mod 32) \<longleftrightarrow>
          i mod 32 \<le> r mod 32 \<and> r mod 32 - i mod 32 < n \<and> p (vs ! (i + (r mod 32 - i mod 32)))"
        using n32 by (auto simp: bit_push_bit_iff bit_lane_bits)
      also have "\<dots> \<longleftrightarrow> i \<le> r \<and> r < i + n \<and> p (vs ! r)"
      proof -
        have "i mod 32 \<le> r mod 32 \<longleftrightarrow> i \<le> r" using dm by linarith
        moreover have "i + (r mod 32 - i mod 32) = r \<and> r mod 32 - i mod 32 = r - i"
          if "i mod 32 \<le> r mod 32" using that dm by linarith
        ultimately show ?thesis by auto
      qed
      finally show ?thesis using same len less.prems(5) [rule_format, of r]
        by (auto simp: mask_bit_def bit_or_iff)
    next
      case False
      then have "mask_bit ?m r \<longleftrightarrow> mask_bit m r" by (simp add: mask_bit_def)
      moreover have "r < i + n \<longleftrightarrow> r < i"
      proof -
        have "i = 32 * (i div 32) + i mod 32" by simp
        then have "32 * (i div 32) \<le> i" "i + n \<le> 32 * (i div 32) + 32" using fit by linarith+
        then show ?thesis
          using False div_less_iff_less_mult [of 32 r "i div 32"] div_less_iff_less_mult [of 32 r "i div 32 + 1"]
          by auto
      qed
      ultimately show ?thesis using less.prems(5) by simp
    qed
    have "rows - (i + n) < rows - i" using True lanes(1) by simp
    moreover have "n dvd i + n" "is_mask ?m" using less.prems(1,4) by (simp_all add: is_mask_def)
    ultimately have "\<exists>j m'. simd_lanes p n vs rows (i + n) ?m = (j, m') \<and> j \<le> rows \<and>
        is_mask m' \<and> (\<forall>r. mask_bit m' r \<longleftrightarrow> r < j \<and> p (vs ! r))"
      using less.hyps [of "i + n" ?m] True less.prems(3) bits by blast
    then show ?thesis using True lanes(1) by (simp add: simd_lanes.simps [of p n vs rows i])
  qed (use less.prems in \<open>simp add: simd_lanes.simps [of p n vs rows i]\<close>)
qed

text \<open>The builder gives the mask of the scalar compare.\<close>

lemma build_ok:
  assumes "dom c" "rows \<le> ROWS_PER_CHUNK" "rows \<le> length vs"
  shows "\<exists>m. build_mask_simd (lane c) (scalar c) n vs rows = Ok m \<and> is_mask m \<and>
     (\<forall>r. mask_bit m r \<longleftrightarrow> r < rows \<and> scalar c (vs ! r))"
proof -
  have eq: "lane c = scalar c" using agree [OF assms(1)] by (rule ext)
  obtain i m1 where m1: "simd_words (scalar c) n vs rows 0 empty_mask = (i, m1)" "32 dvd i" "i \<le> rows"
    "is_mask m1" "\<forall>r. mask_bit m1 r \<longleftrightarrow> r < i \<and> scalar c (vs ! r)"
    using words_ok [of 0 rows empty_mask "scalar c" vs] assms(2) by auto
  obtain j m2 where m2: "simd_lanes (scalar c) n vs rows i m1 = (j, m2)" "j \<le> rows"
    "is_mask m2" "\<forall>r. mask_bit m2 r \<longleftrightarrow> r < j \<and> scalar c (vs ! r)"
    using lanes_ok [OF dvd_trans [OF lanes(2) m1(2)] m1(3) assms(2) m1(4,5)] by blast
  obtain m3 where m3: "foldR (set_rows (\<lambda>j. bindR (index vs j) (\<lambda>v. Ok (scalar c v)))) m2 [j..<rows] = Ok m3"
    "is_mask m3" "\<forall>r. mask_bit m3 r \<longleftrightarrow> mask_bit m2 r \<or> j \<le> r \<and> r < rows \<and> scalar c (vs ! r)"
    using set_rows_ok [OF m2(3) assms(2), of j "\<lambda>j. bindR (index vs j) (\<lambda>v. Ok (scalar c v))" "\<lambda>j. scalar c (vs ! j)"]
      assms(3) by (auto simp: index_def)
  have "build_mask_simd (lane c) (scalar c) n vs rows = Ok m3"
    using m3(1) by (simp add: build_mask_simd_def eq m1(1) m2(1) Let_def)
  moreover have "mask_bit m3 r \<longleftrightarrow> r < rows \<and> scalar c (vs ! r)" for r
    using m3(3) [rule_format, of r] m2(4) [rule_format, of r] m2(2) by auto
  ultimately show ?thesis using m3(2) by blast
qed

end

section \<open>The lane compares\<close>

lemma sint_cases:
  "sint (w :: 'a::len word) = uint w - (if bit w (LENGTH('a) - 1) then 2 ^ LENGTH('a) else 0)"
  by (simp add: sint_uint signed_take_bit_eq_take_bit_minus bit_uint_iff take_bit_int_eq_self)

lemma xor_sign_uint: "sint ((v :: u32) XOR 0x80000000) = uint v - 2 ^ 31"
proof -
  define s :: u32 where "s = 2 ^ 31"
  have sgn: "bit s k \<longleftrightarrow> k = 31" for k
    unfolding s_def bit_exp_iff by (auto simp: possible_bit_def)
  have us: "uint s = 2 ^ 31" by (simp add: s_def)
  have low: "uint (w XOR s) = uint w + 2 ^ 31" if "\<not> bit w 31" for w :: u32
  proof -
    have "w AND s = 0" using that by (intro bit_word_eqI) (auto simp: bit_and_iff sgn)
    moreover have "w XOR s = w OR s"
      using that by (intro bit_word_eqI) (auto simp: bit_xor_iff bit_or_iff sgn)
    ultimately have "w XOR s = w + s" using word_plus_and_or [of w s] by simp
    moreover have "uint w < 2 ^ 31"
      using that sint_cases [of w] sint_lt [of w] by simp
    ultimately show ?thesis by (simp add: uint_plus_if' us)
  qed
  have "sint (v XOR s) = uint v - 2 ^ 31"
  proof (cases "bit v 31")
    case True
    then have w: "\<not> bit (v XOR s) 31" using sgn by (simp add: bit_xor_iff)
    have "(v XOR s) XOR s = v" by (simp add: xor.assoc)
    with low [OF w] have "uint v = uint (v XOR s) + 2 ^ 31" by simp
    moreover have "sint (v XOR s) = uint (v XOR s)"
      using w by (simp add: sint_cases)
    ultimately show ?thesis by simp
  next
    case False
    have "bit (v XOR s) 31" using False sgn by (simp add: bit_xor_iff)
    then have "sint (v XOR s) = uint (v XOR s) - 2 ^ 32"
      by (simp add: sint_cases)
    with low [OF False] show ?thesis by simp
  qed
  then show ?thesis by (simp add: s_def)
qed

lemma simd_cmp_u32_eq: "simd_cmp_u32 op v rhs rhs2 = cmp_u32 v op rhs rhs2"
proof -
  have "word_sless (v XOR 0x80000000) (w XOR 0x80000000) \<longleftrightarrow> v < w"
    "word_sle (v XOR 0x80000000) (w XOR 0x80000000) \<longleftrightarrow> v \<le> w" for v w :: u32
    by (simp_all add: word_sless_alt word_sle_eq xor_sign_uint word_less_def word_le_def)
  then show ?thesis by (simp add: simd_cmp_u32_def cmp_u32_def cmp_scalar_def Let_def)
qed

lemma simd_cmp_i32_eq: "simd_cmp_i32 op v rhs rhs2 = cmp_i32 v op rhs rhs2"
  by (simp add: simd_cmp_i32_def cmp_i32_def cmp_scalar_def)

lemma simd_cmp_f64_eq: "\<not> is_nan rhs \<Longrightarrow> simd_cmp_f64 op v rhs rhs2 = cmp_f64 v op rhs rhs2"
  by (auto simp: simd_cmp_f64_def cmp_f64_def cmp_scalar_def f_lt_def f_eq_def f_le_def)

interpretation u32_lanes: simd_compare "\<lambda>(op, rhs, rhs2) v. simd_cmp_u32 op v rhs rhs2"
    "\<lambda>(op, rhs, rhs2) v. cmp_u32 v op rhs rhs2" "\<lambda>_. True" 4
  by unfold_locales (auto simp: simd_cmp_u32_eq)

interpretation i32_lanes: simd_compare "\<lambda>(op, rhs, rhs2) v. simd_cmp_i32 op v rhs rhs2"
    "\<lambda>(op, rhs, rhs2) v. cmp_i32 v op rhs rhs2" "\<lambda>_. True" 4
  by unfold_locales (auto simp: simd_cmp_i32_eq)

interpretation f64_lanes: simd_compare "\<lambda>(op, rhs, rhs2) v. simd_cmp_f64 op v rhs rhs2"
    "\<lambda>(op, rhs, rhs2) v. cmp_f64 v op rhs rhs2" "\<lambda>(op, rhs, rhs2). \<not> is_nan rhs" 2
  by unfold_locales (auto simp: simd_cmp_f64_eq)

lemma simd_builders_ok:
  assumes rows: "rows \<le> ROWS_PER_CHUNK"
  shows "rows \<le> length us \<Longrightarrow>
      build_mask_u32_simd us op a b rows = build_cmp_mask us rows op a b id cmp_u32"
    and "rows \<le> length is \<Longrightarrow>
      build_mask_i32_simd is op a b rows = build_cmp_mask is rows op a b id cmp_i32"
    and "rows \<le> length fs \<Longrightarrow> \<not> is_nan x \<Longrightarrow>
      build_mask_f64_simd fs op x y rows = build_cmp_mask fs rows op x y id cmp_f64"
proof -
  have same: "s = t" if "s = Ok m1 \<and> is_mask m1 \<and> (\<forall>r. mask_bit m1 r \<longleftrightarrow> P r)"
    "t = Ok m2 \<and> is_mask m2 \<and> (\<forall>r. mask_bit m2 r \<longleftrightarrow> P r)" for s t :: "mask result" and m1 m2 P
    using that mask_eqI [of m1 m2] by (auto simp: is_mask_def)
  show "rows \<le> length us \<Longrightarrow>
      build_mask_u32_simd us op a b rows = build_cmp_mask us rows op a b id cmp_u32"
    using u32_lanes.build_ok [where c = "(op, a, b)" and rows = rows and vs = us] build_cmp_mask_ok [OF rows, of us op a b id cmp_u32] rows
    by (auto simp: build_mask_u32_simd_def intro: same)
  show "rows \<le> length is \<Longrightarrow>
      build_mask_i32_simd is op a b rows = build_cmp_mask is rows op a b id cmp_i32"
    using i32_lanes.build_ok [where c = "(op, a, b)" and rows = rows and vs = "is"] build_cmp_mask_ok [OF rows, of "is" op a b id cmp_i32] rows
    by (auto simp: build_mask_i32_simd_def intro: same)
  show "rows \<le> length fs \<Longrightarrow> \<not> is_nan x \<Longrightarrow>
      build_mask_f64_simd fs op x y rows = build_cmp_mask fs rows op x y id cmp_f64"
    using f64_lanes.build_ok [where c = "(op, x, y)" and rows = rows and vs = fs] build_cmp_mask_ok [OF rows, of fs op x y id cmp_f64] rows
    by (auto simp: build_mask_f64_simd_def intro: same)
qed

section \<open>The rows of a comparison\<close>

text \<open>The values of a column as doubles, and the literals that an unscaled column compares
  exactly: integers of the range that the literal is cast to.\<close>

definition column_f64 :: "column_data \<Rightarrow> f64 list" where
  "column_f64 data =
     (case data of
        CD_U8 vs \<Rightarrow> map (\<lambda>v. f_of_int (uint v)) vs
      | CD_U16 vs \<Rightarrow> map (\<lambda>v. f_of_int (uint v)) vs
      | CD_U32 vs \<Rightarrow> map (\<lambda>v. f_of_int (uint v)) vs
      | CD_I8 vs \<Rightarrow> map (\<lambda>v. f_of_int (sint v)) vs
      | CD_I16 vs \<Rightarrow> map (\<lambda>v. f_of_int (sint v)) vs
      | CD_I32 vs \<Rightarrow> map (\<lambda>v. f_of_int (sint v)) vs
      | CD_I64 vs \<Rightarrow> map (\<lambda>v. f_of_int (sint v)) vs
      | CD_F64 vs \<Rightarrow> vs
      | CD_Bool bm \<Rightarrow> [])"

definition literal_range :: "column_data \<Rightarrow> (int \<times> int) option" where
  "literal_range data =
     (case data of
        CD_U8 _ \<Rightarrow> Some (0, 2 ^ 32) | CD_U16 _ \<Rightarrow> Some (0, 2 ^ 32) | CD_U32 _ \<Rightarrow> Some (0, 2 ^ 32)
      | CD_I8 _ \<Rightarrow> Some (- (2 ^ 31), 2 ^ 31) | CD_I16 _ \<Rightarrow> Some (- (2 ^ 31), 2 ^ 31)
      | CD_I32 _ \<Rightarrow> Some (- (2 ^ 31), 2 ^ 31)
      | CD_I64 _ \<Rightarrow> Some (- (2 ^ 53) + 1, 2 ^ 53)
      | _ \<Rightarrow> None)"

definition literal_ok :: "column_data \<Rightarrow> f64 \<Rightarrow> bool" where
  "literal_ok data x =
     (case literal_range data of None \<Rightarrow> True | Some (lo, hi) \<Rightarrow> x \<in> f_of_int ` {lo..<hi})"

text \<open>\<open>plain_column\<close>: numeric values that are not scaled; 64-bit integers stay below \<open>2 ^ 53\<close>.\<close>

definition plain_column :: "column \<Rightarrow> column_data \<Rightarrow> bool" where
  "plain_column col data =
     (case data of
        CD_Bool _ \<Rightarrow> False
      | CD_F64 _ \<Rightarrow> True
      | CD_I64 vs \<Rightarrow> c_scale col = 0 \<and> (\<forall>v \<in> set vs. \<bar>sint v\<bar> < 2 ^ 53)
      | _ \<Rightarrow> c_scale col = 0)"

lemma cmp_f64_ints:
  assumes "\<bar>v\<bar> < 2 ^ 53" "\<bar>a\<bar> < 2 ^ 53" "\<bar>b\<bar> < 2 ^ 53"
  shows "cmp_f64 (f_of_int v) op (f_of_int a) (f_of_int b) = cmp_scalar (=) (<) (\<le>) v op a b"
  using assms by (simp add: cmp_f64_def cmp_scalar_def f_of_int_cmp f_of_int_props)

lemma cmp_u32_ints:
  assumes "uint x = v" "0 \<le> a" "a < 2 ^ 32" "0 \<le> b" "b < 2 ^ 32"
  shows "cmp_u32 x op (word_of_int a) (word_of_int b) = cmp_scalar (=) (<) (\<le>) v op a b"
proof -
  have "uint (word_of_int a :: u32) = a" "uint (word_of_int b :: u32) = b"
    using assms by (simp_all add: uint_word_of_int)
  with assms(1) show ?thesis
    by (auto simp: cmp_u32_def cmp_scalar_def word_uint_eq_iff word_less_def word_le_def)
qed

lemma sint_word_of_int_id:
  "- (2 ^ (LENGTH('a) - 1)) \<le> a \<Longrightarrow> a < 2 ^ (LENGTH('a) - 1) \<Longrightarrow> sint (word_of_int a :: 'a::len word) = a"
  by (simp add: sint_sbintrunc' signed_take_bit_int_eq_self)

lemma cmp_i32_ints:
  assumes "sint x = v" "- (2 ^ 31) \<le> a" "a < 2 ^ 31" "- (2 ^ 31) \<le> b" "b < 2 ^ 31"
  shows "cmp_i32 x op (word_of_int a) (word_of_int b) = cmp_scalar (=) (<) (\<le>) v op a b"
proof -
  have "sint (word_of_int a :: u32) = a" "sint (word_of_int b :: u32) = b"
    using assms by (simp_all add: sint_word_of_int_id)
  with assms(1) show ?thesis
    by (auto simp: cmp_i32_def cmp_scalar_def word_sless_alt word_sle_eq signed_word_eqI)
qed

lemma cmp_i64_ints:
  assumes "sint x = v" "\<bar>a\<bar> < 2 ^ 53" "\<bar>b\<bar> < 2 ^ 53"
  shows "cmp_i64 x op (word_of_int a) (word_of_int b) = cmp_scalar (=) (<) (\<le>) v op a b"
proof -
  have "sint (word_of_int a :: u64) = a" "sint (word_of_int b :: u64) = b"
    using assms by (simp_all add: sint_word_of_int_id)
  with assms(1) show ?thesis
    by (auto simp: cmp_i64_def cmp_scalar_def word_sless_alt word_sle_eq signed_word_eqI)
qed

lemma cast_literals:
  "0 \<le> a \<Longrightarrow> a < 2 ^ 32 \<Longrightarrow> f_as_u32 (f_of_int a) = word_of_int a"
  "- (2 ^ 31) \<le> a \<Longrightarrow> a < 2 ^ 31 \<Longrightarrow> f_as_i32 (f_of_int a) = word_of_int a"
  "\<bar>a\<bar> < 2 ^ 53 \<Longrightarrow> f_as_i64 (f_of_int a) = word_of_int a"
proof -
  have clamp: "lo \<le> a \<Longrightarrow> a \<le> hi \<Longrightarrow> max lo (min hi a) = a" for lo hi a :: int by simp
  show "0 \<le> a \<Longrightarrow> a < 2 ^ 32 \<Longrightarrow> f_as_u32 (f_of_int a) = word_of_int a"
    unfolding f_as_u32_def by (subst f_as_int_f_of_int, simp, subst clamp) simp_all
  show "- (2 ^ 31) \<le> a \<Longrightarrow> a < 2 ^ 31 \<Longrightarrow> f_as_i32 (f_of_int a) = word_of_int a"
    unfolding f_as_i32_def by (subst f_as_int_f_of_int, simp, subst clamp) simp_all
  show "\<bar>a\<bar> < 2 ^ 53 \<Longrightarrow> f_as_i64 (f_of_int a) = word_of_int a"
    unfolding f_as_i64_def by (subst f_as_int_f_of_int, simp, subst clamp) simp_all
qed

lemma int_column_mask:
  assumes "rows \<le> ROWS_PER_CHUNK" "rows \<le> length vs" "\<bar>a\<bar> < 2 ^ 53" "\<bar>b\<bar> < 2 ^ 53"
    and "\<And>v. v \<in> set vs \<Longrightarrow> \<bar>num v\<bar> < 2 ^ 53"
    and "\<And>v. v \<in> set vs \<Longrightarrow> cmp (cast v) op ra rb = cmp_scalar (=) (<) (\<le>) (num v) op a b"
  shows "\<exists>m. build_cmp_mask vs rows op ra rb cast cmp = Ok m \<and> is_mask m \<and>
     (\<forall>r. mask_bit m r \<longleftrightarrow> r < rows \<and> cmp_f64 (map (\<lambda>v. f_of_int (num v)) vs ! r) op (f_of_int a) (f_of_int b))"
  using build_cmp_mask_ok [OF assms(1,2), of op ra rb cast cmp] assms(2-6)
  by (auto simp: cmp_f64_ints)

lemma abs_small:
  "uint (v8 :: u8) < 2 ^ 53" "uint (v16 :: u16) < 2 ^ 53" "uint (v32 :: u32) < 2 ^ 53"
  "\<bar>sint (v8 :: u8)\<bar> < 2 ^ 53" "\<bar>sint (v16 :: u16)\<bar> < 2 ^ 53" "\<bar>sint (v32 :: u32)\<bar> < 2 ^ 53"
  using uint_lt2p [of v8] uint_lt2p [of v16] uint_lt2p [of v32] sint_lt [of v8] sint_lt [of v16]
    sint_lt [of v32] sint_ge [of v8] sint_ge [of v16] sint_ge [of v32] by (simp_all add: abs_less_iff)

lemma wide_casts:
  "uint (ucast (v8 :: u8) :: u32) = uint v8" "uint (ucast (v16 :: u16) :: u32) = uint v16"
  "sint (scast (v8 :: u8) :: u32) = sint v8" "sint (scast (v16 :: u16) :: u32) = sint v16"
proof -
  show "uint (ucast (v8 :: u8) :: u32) = uint v8" "uint (ucast (v16 :: u16) :: u32) = uint v16"
    by (simp_all add: uint_up_ucast is_up_def source_size_def target_size_def word_size)
  show "sint (scast (v8 :: u8) :: u32) = sint v8" "sint (scast (v16 :: u16) :: u32) = sint v16"
    by (simp_all add: sint_up_scast is_up_def source_size_def target_size_def word_size)
qed

lemma build_single_mask_ok:
  assumes rows: "rows \<le> ROWS_PER_CHUNK" "rows \<le> length (column_f64 data)"
    and plain: "plain_column col data" and lits: "literal_ok data x" "literal_ok data y"
  shows "\<exists>m. build_single_mask col data op x y rows = Ok m \<and> is_mask m \<and>
     (\<forall>r. mask_bit m r \<longleftrightarrow> r < rows \<and> cmp_f64 (column_f64 data ! r) op x y)"
proof (cases "literal_range data")
  case None
  then show ?thesis
  proof (cases data)
    case (CD_F64 vs)
    then show ?thesis using build_cmp_mask_ok [OF rows(1), of vs op x y id cmp_f64] rows(2)
      by (auto simp: build_single_mask_def column_f64_def)
  qed (use plain in \<open>simp_all add: literal_range_def plain_column_def\<close>)
next
  case (Some range)
  then obtain lo hi where range: "literal_range data = Some (lo, hi)" by (cases range) auto
  then obtain a b where ab: "x = f_of_int a" "lo \<le> a" "a < hi" "y = f_of_int b" "lo \<le> b" "b < hi"
    using lits by (auto simp: literal_ok_def)
  have small: "\<bar>a\<bar> < 2 ^ 53" "\<bar>b\<bar> < 2 ^ 53"
    using range ab by (auto simp: literal_range_def split: column_data.splits)
  note ints = int_column_mask [OF rows(1) _ small]
  note eqs = ab(1,4) cast_literals cmp_u32_ints cmp_i32_ints cmp_i64_ints wide_casts abs_small [simplified]
  note dfs = build_single_mask_def column_f64_def literal_range_def plain_column_def
  show ?thesis
  proof (cases data)
    case (CD_U8 vs)
    with range plain rows(2) ab show ?thesis
      using ints [of vs uint cmp_u32 ucast op "word_of_int a" "word_of_int b"] by (simp add: dfs eqs)
  next
    case (CD_U16 vs)
    with range plain rows(2) ab show ?thesis
      using ints [of vs uint cmp_u32 ucast op "word_of_int a" "word_of_int b"] by (simp add: dfs eqs)
  next
    case (CD_U32 vs)
    with range plain rows(2) ab show ?thesis
      using ints [of vs uint cmp_u32 id op "word_of_int a" "word_of_int b"] by (simp add: dfs eqs)
  next
    case (CD_I8 vs)
    with range plain rows(2) ab show ?thesis
      using ints [of vs sint cmp_i32 scast op "word_of_int a" "word_of_int b"] by (simp add: dfs eqs)
  next
    case (CD_I16 vs)
    with range plain rows(2) ab show ?thesis
      using ints [of vs sint cmp_i32 scast op "word_of_int a" "word_of_int b"] by (simp add: dfs eqs)
  next
    case (CD_I32 vs)
    with range plain rows(2) ab show ?thesis
      using ints [of vs sint cmp_i32 id op "word_of_int a" "word_of_int b"] by (simp add: dfs eqs)
  next
    case (CD_I64 vs)
    with range plain rows(2) ab small show ?thesis
      using ints [of vs sint cmp_i64 id op "word_of_int a" "word_of_int b"] by (simp add: dfs eqs)
  qed (use range in \<open>simp_all add: literal_range_def\<close>)
qed

end
