(* ===== verification/Filter_Prune.thy ===== *)
theory Filter_Prune
  imports Filter_Facts
begin

text \<open>
  Pruning by page statistics: \<^verbatim>\<open>filter_possible\<close> and \<^verbatim>\<open>eval_possible\<close> of
  \<^verbatim>\<open>query/filter.rs\<close>. A status says whether a row can satisfy the filter and whether a row
  can fail it; it describes a mask when the mask agrees (\<open>describes\<close>). The evaluation of the
  condition on statuses is an abstract interpretation of the evaluation on masks.
\<close>

section \<open>Statuses\<close>

record possible =
  maybe_true :: bool
  maybe_false :: bool

definition poss :: "bool \<Rightarrow> bool \<Rightarrow> possible" where
  "poss t f = \<lparr> maybe_true = t, maybe_false = f \<rparr>"

abbreviation "unknown \<equiv> poss True True"

lemma poss_simps [simp]: "maybe_true (poss t f) = t" "maybe_false (poss t f) = f"
  by (simp_all add: poss_def)

definition numeric_filter_possible :: "filter_spec \<Rightarrow> index_entry \<Rightarrow> possible" where
  "numeric_filter_possible fl entry =
     (let mn = e_min entry; mx = e_max entry; has_nulls = 0 < e_null_raw_len entry;
          v = fl_value fl; v2 = fl_value2 fl; op = fl_op fl in
      if \<not> is_finite mn \<or> \<not> is_finite mx then unknown
      else
        (case fl_in_list fl of
           Some xs \<Rightarrow>
             if xs = [] then poss False True
             else
               let some = list_ex (\<lambda>x. is_finite x \<and> f_le mn x \<and> f_le x mx) xs;
                   always_true = (\<not> has_nulls \<and> f_eq mn mx \<and> list_ex (\<lambda>x. f_eq x mn) xs)
               in poss some (\<not> always_true)
         | None \<Rightarrow>
             if \<not> is_finite v \<or> \<not> is_finite v2 then unknown
             else if op = OP_EQ then
               poss (f_le mn v \<and> f_le v mx) (\<not> (\<not> has_nulls \<and> f_eq mn mx \<and> f_eq v mn))
             else if op = OP_NEQ then
               poss (\<not> (\<not> has_nulls \<and> f_eq mn mx \<and> f_eq v mn))
                 (\<not> (\<not> has_nulls \<and> (f_lt v mn \<or> f_lt mx v)))
             else if op = OP_LT then poss (f_lt mn v) (\<not> (\<not> has_nulls \<and> f_lt mx v))
             else if op = OP_LTE then poss (f_le mn v) (\<not> (\<not> has_nulls \<and> f_le mx v))
             else if op = OP_GT then poss (f_lt v mx) (\<not> (\<not> has_nulls \<and> f_lt v mn))
             else if op = OP_GTE then poss (f_le v mx) (\<not> (\<not> has_nulls \<and> f_le v mn))
             else if op = OP_BETWEEN then
               let lo = f_min v v2; hi = f_max v v2
               in poss (\<not> (f_lt mx lo \<or> f_lt hi mn)) (\<not> (\<not> has_nulls \<and> f_le lo mn \<and> f_le mx hi))
             else unknown))"

text \<open>\<^verbatim>\<open>value < 0.0 || value.fract() != 0.0\<close>; the fraction of an infinity is NaN.\<close>

definition not_an_id :: "f64 \<Rightarrow> bool" where
  "not_an_id x \<longleftrightarrow> f_lt x f_zero \<or> \<not> is_finite x \<or> has_fract x"

definition list_mask :: "nat \<Rightarrow> f64 list \<Rightarrow> u64" where
  "list_mask dict_len xs =
     foldl (\<lambda>m x. if not_an_id x then m
                  else if unat (f_as_u64 x) < dict_len then m OR push_bit (unat (f_as_u64 x)) 1 else m)
       0 xs"

definition dict_filter_possible :: "filter_spec \<Rightarrow> column \<Rightarrow> index_entry \<Rightarrow> runtime \<Rightarrow> possible" where
  "dict_filter_possible fl col entry rt =
     (case r_dicts rt (c_dict_id col) of
        None \<Rightarrow> unknown
      | Some dict \<Rightarrow>
          let dict_len = length (d_values dict); has_nulls = 0 < e_null_raw_len entry;
              presence = e_presence entry in
          if dict_len = 0 then unknown
          else if 64 < dict_len then unknown
          else if presence = 0 then poss False True
          else
            (case fl_in_list fl of
               Some xs \<Rightarrow>
                 let lm = list_mask dict_len xs
                 in poss (presence AND lm \<noteq> 0)
                      (\<not> (\<not> has_nulls \<and> presence \<noteq> 0 \<and> presence AND NOT lm = 0))
             | None \<Rightarrow>
                 if not_an_id (fl_value fl) then poss False True
                 else
                   let i = unat (f_as_u64 (fl_value fl)) in
                   if dict_len \<le> i then
                     poss (fl_op fl = OP_NEQ \<and> presence \<noteq> 0)
                       (\<not> (\<not> has_nulls \<and> presence \<noteq> 0 \<and> fl_op fl = OP_NEQ))
                   else
                     let id_mask = push_bit i (1 :: u64) in
                     if fl_op fl = OP_EQ then
                       poss (presence AND id_mask \<noteq> 0) (\<not> (\<not> has_nulls \<and> presence = id_mask))
                     else if fl_op fl = OP_NEQ then
                       poss (presence AND NOT id_mask \<noteq> 0)
                         (\<not> (\<not> has_nulls \<and> presence AND id_mask = 0))
                     else unknown))"

definition filter_possible :: "filter_spec \<Rightarrow> column \<Rightarrow> index_entry \<Rightarrow> runtime \<Rightarrow> possible" where
  "filter_possible fl col entry rt =
     (if c_physical col = TYPE_STRING then unknown
      else if fl_op fl = OP_LIKE \<or> fl_op fl = OP_NOT_LIKE then unknown
      else if fl_value_str fl \<noteq> None \<or> fl_in_list_str fl \<noteq> None then unknown
      else if c_flags col AND FLAG_DICT \<noteq> 0 then dict_filter_possible fl col entry rt
      else numeric_filter_possible fl entry)"

definition possible_step :: "possible list \<Rightarrow> possible list \<Rightarrow> int \<Rightarrow> possible list option" where
  "possible_step statuses stack token =
     (if 0 \<le> token then
        (if length statuses \<le> nat token then None else Some (statuses ! nat token # stack))
      else if token = COMB_NOT then
        (case stack of a # st \<Rightarrow> Some (poss (maybe_false a) (maybe_true a) # st) | _ \<Rightarrow> None)
      else if token = COMB_AND then
        (case stack of b # a # st \<Rightarrow>
           Some (poss (maybe_true a \<and> maybe_true b) (maybe_false a \<or> maybe_false b) # st) | _ \<Rightarrow> None)
      else if token = COMB_OR then
        (case stack of b # a # st \<Rightarrow>
           Some (poss (maybe_true a \<or> maybe_true b) (maybe_false a \<and> maybe_false b) # st) | _ \<Rightarrow> None)
      else None)"

fun possible_loop :: "possible list \<Rightarrow> possible list \<Rightarrow> int list \<Rightarrow> possible list option" where
  "possible_loop statuses stack [] = Some stack"
| "possible_loop statuses stack (t # ts) =
     Option.bind (possible_step statuses stack t) (\<lambda>stack. possible_loop statuses stack ts)"

definition eval_possible :: "int list \<Rightarrow> possible list \<Rightarrow> possible option" where
  "eval_possible tokens statuses =
     Option.bind (possible_loop statuses [] tokens) (\<lambda>stack. case stack of [p] \<Rightarrow> Some p | _ \<Rightarrow> None)"

section \<open>Statuses describe masks\<close>

definition describes :: "nat \<Rightarrow> possible \<Rightarrow> mask \<Rightarrow> bool" where
  "describes rows p m \<longleftrightarrow>
     is_mask m \<and> (maybe_true p \<or> (\<forall>r < rows. \<not> mask_bit m r)) \<and>
     (maybe_false p \<or> (\<forall>r < rows. mask_bit m r))"

lemma describes_unknown [simp]: "is_mask m \<Longrightarrow> describes rows unknown m"
  by (simp add: describes_def)

lemma describes_not: "rows \<le> ROWS_PER_CHUNK \<Longrightarrow> describes rows p m \<Longrightarrow>
   describes rows (poss (maybe_false p) (maybe_true p)) (mask_not m)"
  by (auto simp: describes_def is_mask_def MASK_WORDS_def ROWS_PER_CHUNK_def)

lemma describes_and: "describes rows p a \<Longrightarrow> describes rows q b \<Longrightarrow>
   describes rows (poss (maybe_true p \<and> maybe_true q) (maybe_false p \<or> maybe_false q)) (mask_and a b)"
  by (auto simp: describes_def is_mask_def)

lemma describes_or: "describes rows p a \<Longrightarrow> describes rows q b \<Longrightarrow>
   describes rows (poss (maybe_true p \<or> maybe_true q) (maybe_false p \<and> maybe_false q)) (mask_or a b)"
  by (auto simp: describes_def is_mask_def mask_or_bit)

lemma possible_step_describes:
  assumes "rows \<le> ROWS_PER_CHUNK" "list_all2 (describes rows) statuses masks"
    and st: "list_all2 (describes rows) ps ms"
    and "combine_step masks ms t = Ok ms'" "possible_step statuses ps t = Some ps'"
  shows "list_all2 (describes rows) ps' ms'"
proof -
  consider "0 \<le> t" | "t = COMB_NOT" | "t = COMB_AND" | "t = COMB_OR"
    using assms(5) by (auto simp: possible_step_def split: if_splits)
  then show ?thesis
  proof cases
    case 1
    with assms show ?thesis
      by (auto simp: possible_step_def combine_step_def list_all2_conv_all_nth split: if_splits)
        (metis less_Suc_eq_0_disj nth_Cons_0 nth_Cons_Suc not_less)
  next
    case 2
    with assms show ?thesis
      by (auto simp: possible_step_def combine_step_def comb_defs list_all2_Cons1
          intro: describes_not split: list.splits)
  next
    case 3
    with assms show ?thesis
      by (auto simp: possible_step_def combine_step_def comb_defs list_all2_Cons1
          intro: describes_and split: list.splits)
  next
    case 4
    with assms show ?thesis
      by (auto simp: possible_step_def combine_step_def comb_defs list_all2_Cons1
          intro: describes_or split: list.splits)
  qed
qed

lemma possible_loop_describes:
  assumes "rows \<le> ROWS_PER_CHUNK" "list_all2 (describes rows) statuses masks"
  shows "list_all2 (describes rows) ps ms \<Longrightarrow> foldR (combine_step masks) ms ts = Ok ms' \<Longrightarrow>
    possible_loop statuses ps ts = Some ps' \<Longrightarrow> list_all2 (describes rows) ps' ms'"
proof (induction ts arbitrary: ps ms)
  case (Cons t ts)
  from Cons.prems(2,3) obtain ms1 ps1 where
    "combine_step masks ms t = Ok ms1" "foldR (combine_step masks) ms1 ts = Ok ms'"
    "possible_step statuses ps t = Some ps1" "possible_loop statuses ps1 ts = Some ps'"
    by (auto simp: bind_eq_Some_conv)
  with Cons.IH possible_step_describes [OF assms Cons.prems(1)] show ?case by blast
qed simp

lemma eval_possible_describes:
  assumes "rows \<le> ROWS_PER_CHUNK" "list_all2 (describes rows) statuses masks"
    and "combine_masks tokens masks = Ok m" "eval_possible tokens statuses = Some p"
  shows "describes rows p m"
proof -
  obtain ms where ms: "foldR (combine_step masks) [] tokens = Ok ms" "(case ms of [m] \<Rightarrow> Ok m | _ \<Rightarrow> Err Unit_Err) = Ok m"
    using assms(3) by (auto simp: combine_masks_def)
  obtain ps where ps: "possible_loop statuses [] tokens = Some ps" "(case ps of [p] \<Rightarrow> Some p | _ \<Rightarrow> None) = Some p"
    using assms(4) by (auto simp: eval_possible_def bind_eq_Some_conv)
  have "ms = [m]" "ps = [p]" using ms(2) ps(2) by (auto split: list.split_asm)
  with possible_loop_describes [OF assms(1,2), of "[]" "[]" tokens ms ps] ms(1) ps(1) show ?thesis by simp
qed

section \<open>What the index entry says of a column\<close>

definition valid_row :: "bytes option \<Rightarrow> nat \<Rightarrow> bool" where
  "valid_row nulls r = (case nulls of None \<Rightarrow> True | Some bm \<Rightarrow> bitmap_bit bm r)"

text \<open>A page without NULLs has no bitmap; a bitmap covers the rows of the chunk.\<close>

definition nulls_ok :: "index_entry \<Rightarrow> bytes option \<Rightarrow> nat \<Rightarrow> bool" where
  "nulls_ok entry nulls rows \<longleftrightarrow>
     (e_null_raw_len entry = 0 \<longrightarrow> nulls = None) \<and> (\<forall>bm. nulls = Some bm \<longrightarrow> rows \<le> 8 * length bm)"

text \<open>The statistics that \<^verbatim>\<open>compute_page_stats\<close> gives: bounds of the valid xs, the bits of
  the valid ids.\<close>

definition range_covers :: "index_entry \<Rightarrow> f64 list \<Rightarrow> bytes option \<Rightarrow> nat \<Rightarrow> bool" where
  "range_covers entry vs nulls rows \<longleftrightarrow>
     (\<forall>r < rows. valid_row nulls r \<longrightarrow> f_le (e_min entry) (vs ! r) \<and> f_le (vs ! r) (e_max entry))"

definition presence_covers :: "index_entry \<Rightarrow> u32 list \<Rightarrow> nat \<Rightarrow> bytes option \<Rightarrow> nat \<Rightarrow> bool" where
  "presence_covers entry ids dict_len nulls rows \<longleftrightarrow>
     (\<forall>r < rows. valid_row nulls r \<longrightarrow> unat (ids ! r) < dict_len \<and> bit (e_presence entry) (unat (ids ! r)))"

text \<open>The literals: exactly comparable, an ordered pair for BETWEEN, only equality on ids.\<close>

definition filter_literals_ok :: "filter_spec \<Rightarrow> column_data \<Rightarrow> bool" where
  "filter_literals_ok fl data \<longleftrightarrow>
     (case fl_in_list fl of
        Some xs \<Rightarrow> fl_op fl = OP_EQ \<and> list_all (literal_ok data) xs
      | None \<Rightarrow> literal_ok data (fl_value fl) \<and> literal_ok data (fl_value2 fl) \<and>
          (fl_op fl = OP_BETWEEN \<longrightarrow> \<not> f_lt (fl_value2 fl) (fl_value fl)))"

definition entry_ok ::
  "column \<Rightarrow> column_data \<Rightarrow> index_entry \<Rightarrow> bytes option \<Rightarrow> filter_spec \<Rightarrow> runtime \<Rightarrow> nat \<Rightarrow> bool" where
  "entry_ok col data entry nulls fl rt rows \<longleftrightarrow>
     nulls_ok entry nulls rows \<and>
     (fl_op fl \<noteq> OP_LIKE \<and> fl_op fl \<noteq> OP_NOT_LIKE \<and> c_physical col \<noteq> TYPE_STRING \<longrightarrow>
        plain_column col data \<and> rows \<le> length (column_f64 data) \<and> filter_literals_ok fl data \<and>
        (if c_flags col AND FLAG_DICT \<noteq> 0 then
           (\<exists>ids. data = CD_U32 ids \<and>
              (\<forall>dict. r_dicts rt (c_dict_id col) = Some dict \<longrightarrow>
                 presence_covers entry ids (length (d_values dict)) nulls rows) \<and>
              (fl_in_list fl = None \<longrightarrow> fl_op fl = OP_EQ \<or> fl_op fl = OP_NEQ))
         else range_covers entry (column_f64 data) nulls rows))"

text \<open>The same in two parts: what the encoder has to see to, the statistics, and what the filter has
  to be like. The columns are numeric and unscaled, integers of 64 bits below \<^verbatim>\<open>2^53\<close>, and on ids of a
  dictionary a filter is an IN list, \<^verbatim>\<open>=\<close> or \<^verbatim>\<open><>\<close>.\<close>

definition statistics_hold ::
  "column \<Rightarrow> column_data \<Rightarrow> index_entry \<Rightarrow> bytes option \<Rightarrow> runtime \<Rightarrow> nat \<Rightarrow> bool" where
  "statistics_hold col data entry nulls rt rows \<longleftrightarrow>
     nulls_ok entry nulls rows \<and>
     (c_physical col \<noteq> TYPE_STRING \<longrightarrow>
        (if c_flags col AND FLAG_DICT \<noteq> 0 then
           (\<forall>ids dict. data = CD_U32 ids \<longrightarrow> r_dicts rt (c_dict_id col) = Some dict \<longrightarrow>
              presence_covers entry ids (length (d_values dict)) nulls rows)
         else range_covers entry (column_f64 data) nulls rows))"

definition filter_comparable :: "column \<Rightarrow> column_data \<Rightarrow> filter_spec \<Rightarrow> nat \<Rightarrow> bool" where
  "filter_comparable col data fl rows \<longleftrightarrow>
     (fl_op fl \<noteq> OP_LIKE \<and> fl_op fl \<noteq> OP_NOT_LIKE \<and> c_physical col \<noteq> TYPE_STRING \<longrightarrow>
        plain_column col data \<and> rows \<le> length (column_f64 data) \<and> filter_literals_ok fl data \<and>
        (c_flags col AND FLAG_DICT \<noteq> 0 \<longrightarrow>
           (\<exists>ids. data = CD_U32 ids) \<and> (fl_in_list fl = None \<longrightarrow> fl_op fl = OP_EQ \<or> fl_op fl = OP_NEQ)))"

lemma entry_okI:
  "statistics_hold col data entry nulls rt rows \<Longrightarrow> filter_comparable col data fl rows \<Longrightarrow>
   entry_ok col data entry nulls fl rt rows"
  by (auto simp: statistics_hold_def filter_comparable_def entry_ok_def)

section \<open>The rows of a filter\<close>

definition filter_holds :: "f64 list \<Rightarrow> filter_spec \<Rightarrow> nat \<Rightarrow> bool" where
  "filter_holds vs fl r =
     (case fl_in_list fl of
        Some xs \<Rightarrow> (\<exists>x \<in> set xs. cmp_f64 (vs ! r) (fl_op fl) x x)
      | None \<Rightarrow> cmp_f64 (vs ! r) (fl_op fl) (fl_value fl) (fl_value2 fl))"

lemma validity_ok:
  assumes "rows \<le> ROWS_PER_CHUNK" "is_mask m" "\<forall>bm. nulls = Some bm \<longrightarrow> rows \<le> 8 * length bm"
  shows "\<exists>m'. maybe_apply_validity_mask m nulls rows = Ok m' \<and> is_mask m' \<and>
     (\<forall>r < rows. mask_bit m' r \<longleftrightarrow> mask_bit m r \<and> valid_row nulls r)"
proof (cases nulls)
  case None
  with assms(2) show ?thesis by (simp add: maybe_apply_validity_mask_def valid_row_def)
next
  case (Some bm)
  then have len: "rows \<le> 8 * length bm" using assms(3) by simp
  show ?thesis
  proof (cases "bitmap_is_all_valid bm rows")
    case True
    with assms(2) Some bitmap_is_all_valid_iff [OF len] show ?thesis
      by (simp add: maybe_apply_validity_mask_def valid_row_def)
  next
    case False
    obtain v where "mask_from_bitmap bm rows = Ok (Some v)" "is_mask v"
      "\<forall>r. mask_bit v r \<longleftrightarrow> r < rows \<and> bitmap_bit bm r"
      using mask_from_bitmap_ok [OF assms(1) len] by blast
    with False Some assms(2) show ?thesis
      by (simp add: maybe_apply_validity_mask_def valid_row_def is_mask_def)
  qed
qed

lemma in_list_mask_ok:
  assumes rows: "rows \<le> ROWS_PER_CHUNK" "rows \<le> length (column_f64 data)"
    and plain: "plain_column col data" and lits: "list_all (literal_ok data) xs"
    and m: "is_mask m" "\<forall>r. mask_bit m r \<longleftrightarrow> r < rows \<and> P r"
  shows "\<exists>m'. foldR (in_list_step col data op rows) m xs = Ok m' \<and> is_mask m' \<and>
     (\<forall>r. mask_bit m' r \<longleftrightarrow> r < rows \<and> (P r \<or> (\<exists>x \<in> set xs. cmp_f64 (column_f64 data ! r) op x x)))"
  using lits m
proof (induction xs arbitrary: m P)
  case (Cons x xs)
  then have lit: "literal_ok data x" by simp
  obtain one where one: "build_single_mask col data op x x rows = Ok one" "is_mask one"
    "\<forall>r. mask_bit one r \<longleftrightarrow> r < rows \<and> cmp_f64 (column_f64 data ! r) op x x"
    using build_single_mask_ok [OF rows plain lit lit] by blast
  let ?m = "if mask_is_zero m then one else mask_or m one"
  let ?P = "\<lambda>r. P r \<or> cmp_f64 (column_f64 data ! r) op x x"
  have m1: "is_mask ?m" using Cons.prems(2) one(2) by (simp add: is_mask_def)
  have "\<not> mask_bit m r" if "mask_is_zero m" for r
    using that by (auto simp: mask_is_zero_def mask_bit_def list_all_length)
  then have m2: "\<forall>r. mask_bit ?m r \<longleftrightarrow> r < rows \<and> ?P r"
    using Cons.prems(2,3) one(2,3) by (auto simp: is_mask_def mask_or_bit)
  have "in_list_step col data op rows m x = Ok ?m" by (simp add: in_list_step_def one(1))
  with Cons.IH [OF _ m1 m2] Cons.prems(1) show ?case by auto
qed simp

lemma filter_mask_ok:
  assumes rows: "rows \<le> ROWS_PER_CHUNK" "rows \<le> length (column_f64 data)"
    and plain: "plain_column col data" and lits: "filter_literals_ok fl data"
    and op: "fl_op fl \<noteq> OP_LIKE" "fl_op fl \<noteq> OP_NOT_LIKE"
    and nulls: "\<forall>bm. nulls = Some bm \<longrightarrow> rows \<le> 8 * length bm"
  shows "\<exists>m. build_filter_mask_pipeline col data fl rows rt nulls = Ok m \<and> is_mask m \<and>
     (\<forall>r < rows. mask_bit m r \<longleftrightarrow> filter_holds (column_f64 data) fl r \<and> valid_row nulls r)"
proof -
  obtain m where m: "build_filter_mask col data fl rows rt = Ok m" "is_mask m"
    "\<forall>r. mask_bit m r \<longleftrightarrow> r < rows \<and> filter_holds (column_f64 data) fl r"
  proof (cases "fl_in_list fl")
    case None
    with build_single_mask_ok [OF rows plain, of "fl_value fl" "fl_value2 fl" "fl_op fl"] lits op that
    show ?thesis by (auto simp: build_filter_mask_def filter_literals_ok_def filter_holds_def)
  next
    case (Some xs)
    with in_list_mask_ok [OF rows plain, of xs empty_mask "\<lambda>_. False" "fl_op fl"] lits op that
    show ?thesis by (auto simp: build_filter_mask_def filter_literals_ok_def filter_holds_def)
  qed
  obtain m' where "maybe_apply_validity_mask m nulls rows = Ok m'" "is_mask m'"
    "\<forall>r < rows. mask_bit m' r \<longleftrightarrow> mask_bit m r \<and> valid_row nulls r"
    using validity_ok [OF rows(1) m(2) nulls] by blast
  with m show ?thesis by (simp add: build_filter_mask_pipeline_def)
qed

section \<open>The statuses of filters\<close>

lemmas key_simps = f_lt_def f_le_def f_eq_def

text \<open>A mask of the rows that hold and are valid is described by a status that is right about them.\<close>

lemma describesI:
  assumes "is_mask m" "\<forall>r < rows. mask_bit m r \<longleftrightarrow> H r \<and> valid_row nulls r"
    and "nulls_ok entry nulls rows"
    and "\<And>r. r < rows \<Longrightarrow> valid_row nulls r \<Longrightarrow> H r \<Longrightarrow> t"
    and "\<And>r. \<not> f \<Longrightarrow> r < rows \<Longrightarrow> valid_row nulls r \<Longrightarrow> H r"
    and "\<not> f \<Longrightarrow> \<not> 0 < e_null_raw_len entry"
  shows "describes rows (poss t f) m"
  unfolding describes_def poss_simps
proof (intro conjI)
  show "t \<or> (\<forall>r < rows. \<not> mask_bit m r)" using assms(2,4) by blast
  show "f \<or> (\<forall>r < rows. mask_bit m r)"
  proof (cases f)
    case False
    then have "e_null_raw_len entry = 0" using assms(6) word_neq_0_conv by blast
    then have "nulls = None" using assms(3) by (simp add: nulls_ok_def)
    then have "valid_row nulls r" for r by (simp add: valid_row_def)
    with assms(2,5,6) False show ?thesis by blast
  qed simp
qed (rule assms(1))

lemma range_describesI:
  assumes "is_mask m" "\<forall>r < rows. mask_bit m r \<longleftrightarrow> P (vs ! r) \<and> valid_row nulls r"
    and "nulls_ok entry nulls rows" "range_covers entry vs nulls rows"
    and "\<And>x. \<not> is_nan x \<Longrightarrow> fkey (e_min entry) \<le> fkey x \<Longrightarrow> fkey x \<le> fkey (e_max entry) \<Longrightarrow> P x \<Longrightarrow> t"
    and "\<And>x. \<not> f \<Longrightarrow> \<not> is_nan x \<Longrightarrow> fkey (e_min entry) \<le> fkey x \<Longrightarrow> fkey x \<le> fkey (e_max entry) \<Longrightarrow> P x"
    and "\<not> f \<Longrightarrow> \<not> 0 < e_null_raw_len entry"
  shows "describes rows (poss t f) m"
proof (rule describesI [OF assms(1-3)])
  fix r assume "r < rows" "valid_row nulls r"
  then have "\<not> is_nan (vs ! r)" "fkey (e_min entry) \<le> fkey (vs ! r)" "fkey (vs ! r) \<le> fkey (e_max entry)"
    using assms(4) by (auto simp: range_covers_def key_simps)
  then show "P (vs ! r) \<Longrightarrow> t" "\<not> f \<Longrightarrow> P (vs ! r)" using assms(5,6) by blast+
qed (rule assms(7))

lemma finite_between:
  "is_finite a \<Longrightarrow> is_finite b \<Longrightarrow> fkey a \<le> fkey x \<Longrightarrow> fkey x \<le> fkey b \<Longrightarrow> is_finite x"
  by (auto simp: is_finite_def fkey_def split: if_splits)

lemma numeric_describes:
  assumes m: "is_mask m" "\<forall>r < rows. mask_bit m r \<longleftrightarrow> filter_holds vs fl r \<and> valid_row nulls r"
    and nulls: "nulls_ok entry nulls rows" and range: "range_covers entry vs nulls rows"
    and fl: "case fl_in_list fl of Some _ \<Rightarrow> fl_op fl = OP_EQ
             | None \<Rightarrow> fl_op fl = OP_BETWEEN \<longrightarrow> \<not> f_lt (fl_value2 fl) (fl_value fl)"
  shows "describes rows (numeric_filter_possible fl entry) m"
proof -
  let ?mn = "e_min entry" and ?mx = "e_max entry"
  have rg: "f_le ?mn (vs ! r)" "f_le (vs ! r) ?mx" if "r < rows" "valid_row nulls r" for r
    using range that by (auto simp: range_covers_def)
  show ?thesis
  proof (cases "is_finite ?mn \<and> is_finite ?mx")
    case False
    then have "numeric_filter_possible fl entry = unknown" by (auto simp: numeric_filter_possible_def Let_def)
    with m(1) show ?thesis by simp
  next
    case fin: True
    show ?thesis
    proof (cases "fl_in_list fl")
      case (Some xs)
      with fl have op: "fl_op fl = OP_EQ" by simp
      show ?thesis
      proof (cases "xs = []")
        case True
        with Some fin have "numeric_filter_possible fl entry = poss False True"
          by (simp add: numeric_filter_possible_def)
        moreover have "\<not> mask_bit m r" if "r < rows" for r
          using m(2) that True Some by (simp add: filter_holds_def)
        ultimately show ?thesis using m(1) by (simp add: describes_def)
      next
        case False
        let ?t = "list_ex (\<lambda>x. is_finite x \<and> f_le ?mn x \<and> f_le x ?mx) xs"
        let ?a = "\<not> 0 < e_null_raw_len entry \<and> f_eq ?mn ?mx \<and> list_ex (\<lambda>x. f_eq x ?mn) xs"
        have holds: "filter_holds vs fl r \<longleftrightarrow> (\<exists>x \<in> set xs. f_eq (vs ! r) x)" for r
          using Some op by (auto simp: filter_holds_def cmp_f64_def cmp_scalar_def key_simps)
        have "numeric_filter_possible fl entry = poss ?t (\<not> ?a)"
          using Some False fin by (simp add: numeric_filter_possible_def Let_def)
        moreover have "describes rows (poss ?t (\<not> ?a)) m"
        proof (rule describesI [OF m nulls])
          fix r assume r: "r < rows" "valid_row nulls r" and "filter_holds vs fl r"
          then obtain x where x: "x \<in> set xs" "f_eq (vs ! r) x" using holds by blast
          have "is_finite x" using rg [OF r] x(2) fin finite_between [of ?mn ?mx x] by (simp add: key_simps)
          moreover have "f_le ?mn x" "f_le x ?mx" using x(2) rg [OF r] by (auto simp: key_simps)
          ultimately show ?t using x(1) unfolding list_ex_iff by blast
        next
          fix r assume a: "\<not> \<not> ?a" and r: "r < rows" "valid_row nulls r"
          then obtain x where "x \<in> set xs" "f_eq x ?mn" by (auto simp: list_ex_iff)
          moreover have "f_eq ?mn ?mx" using a by simp
          ultimately have "f_eq (vs ! r) x" using rg [OF r] by (auto simp: key_simps)
          with \<open>x \<in> set xs\<close> show "filter_holds vs fl r" unfolding holds by blast
        qed simp
        ultimately show ?thesis by simp
      qed
    next
      case None
      have holds: "filter_holds vs fl r = cmp_f64 (vs ! r) (fl_op fl) (fl_value fl) (fl_value2 fl)" for r
        using None by (simp add: filter_holds_def)
      show ?thesis
      proof (cases "is_finite (fl_value fl) \<and> is_finite (fl_value2 fl)")
        case False
        then have "numeric_filter_possible fl entry = unknown"
          using None by (auto simp: numeric_filter_possible_def Let_def)
        with m(1) show ?thesis by simp
      next
        case lits: True
        let ?v = "fl_value fl" and ?w = "fl_value2 fl"
        have nn: "\<not> is_nan ?mn" "\<not> is_nan ?mx" "\<not> is_nan ?v" "\<not> is_nan ?w"
          using fin lits finite_not_nan by auto
        note status = numeric_filter_possible_def Let_def None option.case fin lits if_True if_False
        note cmp = cmp_f64_def cmp_scalar_def
        note op_describes = range_describesI [OF m(1) m(2) [unfolded holds] nulls range]
        consider "fl_op fl = OP_EQ" | "fl_op fl = OP_NEQ" | "fl_op fl = OP_LT" | "fl_op fl = OP_LTE"
          | "fl_op fl = OP_GT" | "fl_op fl = OP_GTE" | "fl_op fl = OP_BETWEEN"
          | "fl_op fl \<notin> {OP_EQ, OP_NEQ, OP_LT, OP_LTE, OP_GT, OP_GTE, OP_BETWEEN}" by blast
        then show ?thesis
        proof cases
          case 1
          show ?thesis unfolding status by (simp add: 1 status op_defs, rule op_describes)
            (use 1 nn in \<open>auto simp: cmp op_defs key_simps\<close>)
        next
          case 2
          show ?thesis unfolding status by (simp add: 2 status op_defs, rule op_describes)
            (use 2 nn in \<open>auto simp: cmp op_defs key_simps\<close>)
        next
          case 3
          show ?thesis unfolding status by (simp add: 3 status op_defs, rule op_describes)
            (use 3 nn in \<open>auto simp: cmp op_defs key_simps\<close>)
        next
          case 4
          show ?thesis unfolding status by (simp add: 4 status op_defs, rule op_describes)
            (use 4 nn in \<open>auto simp: cmp op_defs key_simps\<close>)
        next
          case 5
          show ?thesis unfolding status by (simp add: 5 status op_defs, rule op_describes)
            (use 5 nn in \<open>auto simp: cmp op_defs key_simps\<close>)
        next
          case 6
          show ?thesis unfolding status by (simp add: 6 status op_defs, rule op_describes)
            (use 6 nn in \<open>auto simp: cmp op_defs key_simps\<close>)
        next
          case 7
          show ?thesis unfolding status by (simp add: 7 status op_defs, rule op_describes)
            (use 7 nn fl None in \<open>auto simp: cmp op_defs key_simps f_min_def f_max_def split: if_splits\<close>)
        next
          case 8
          then show ?thesis using m(1) by (simp add: status)
        qed
      qed
    qed
  qed
qed

lemma uint_int:
  "uint (w :: 'a::len word) = int k \<longleftrightarrow> unat w = k" "int k = uint (w :: 'a::len word) \<longleftrightarrow> k = unat w"
  using of_nat_eq_iff [of "unat w" k, where 'a = int] by auto

text \<open>An id literal: an integer below \<open>2 ^ 32\<close>.\<close>

lemma id_literal:
  assumes "literal_ok (CD_U32 ids) x"
  obtains k where "x = f_of_int (int k)" "k < 2 ^ 32" "\<not> not_an_id x" "unat (f_as_u64 x) = k"
proof -
  obtain a where a: "x = f_of_int a" "0 \<le> a" "a < 2 ^ 32"
    using assms by (auto simp: literal_ok_def literal_range_def)
  have small: "\<bar>a\<bar> < 2 ^ 53" using a by simp
  have "x = f_of_int (int (nat a))" "nat a < 2 ^ 32" using a by auto
  moreover have "\<not> not_an_id x"
  proof -
    have "fkey f_zero = 0" by (simp add: fkey_def f_zero_def)
    then have "\<not> f_lt x f_zero" using a f_of_int_props [OF small] by (simp add: f_lt_def fkey_def)
    with a show ?thesis using f_of_int_props(3) [OF small] trunc_f_of_int(2) [OF small]
      by (simp add: not_an_id_def)
  qed
  moreover have "unat (f_as_u64 x) = nat a"
  proof -
    have "f_as_int 0 (2 ^ 64 - 1) x = a" using a small by (simp add: f_as_int_f_of_int)
    then have "uint (f_as_u64 x) = int (nat a)" using a by (simp add: f_as_u64_def uint_word_of_int)
    then show ?thesis unfolding uint_int .
  qed
  ultimately show ?thesis by (rule that)
qed

lemma bit_list_mask:
  assumes "list_all (literal_ok (CD_U32 ids)) xs" "k < 64" "k < n"
  shows "bit (list_mask n xs) k \<longleftrightarrow> (\<exists>x \<in> set xs. x = f_of_int (int k))"
proof -
  have "bit (foldl (\<lambda>m x. if not_an_id x then m else if unat (f_as_u64 x) < n
        then m OR push_bit (unat (f_as_u64 x)) 1 else m) m xs) k \<longleftrightarrow>
      bit m k \<or> (\<exists>x \<in> set xs. x = f_of_int (int k))" for m :: u64
    using assms(1)
  proof (induction xs arbitrary: m)
    case (Cons x xs)
    then obtain j where j: "x = f_of_int (int j)" "j < 2 ^ 32" "\<not> not_an_id x" "unat (f_as_u64 x) = j"
      using id_literal [of ids x] by auto
    have "x = f_of_int (int k) \<longleftrightarrow> j = k"
      using j(1,2) assms(2) fkey_f_of_int_eq [of "int j" "int k"] by auto
    let ?m = "if j < n then m OR push_bit j 1 else m"
    have "bit ?m k \<longleftrightarrow> bit m k \<or> j = k" using assms(2,3) by (auto simp: bit_or_iff bit_exp_iff)
    moreover have "list_all (literal_ok (CD_U32 ids)) xs" using Cons.prems by simp
    ultimately show ?case using Cons.IH [of ?m] \<open>x = f_of_int (int k) \<longleftrightarrow> j = k\<close>
      unfolding foldl.simps j(4) if_not_P [OF j(3)] by simp blast
  qed simp
  then show ?thesis by (simp add: list_mask_def)
qed

lemma cmp_id:
  "k < 2 ^ 32 \<Longrightarrow> cmp_f64 (f_of_int (uint (w :: u32))) OP_EQ (f_of_int (int k)) y \<longleftrightarrow> unat w = k"
  "k < 2 ^ 32 \<Longrightarrow> cmp_f64 (f_of_int (uint (w :: u32))) OP_NEQ (f_of_int (int k)) y \<longleftrightarrow> unat w \<noteq> k"
proof -
  have u: "uint w = int (unat w)" "\<bar>uint w\<bar> < 2 ^ 53" using uint_lt2p [of w] by simp_all
  show "k < 2 ^ 32 \<Longrightarrow> cmp_f64 (f_of_int (uint w)) OP_EQ (f_of_int (int k)) y \<longleftrightarrow> unat w = k"
    "k < 2 ^ 32 \<Longrightarrow> cmp_f64 (f_of_int (uint w)) OP_NEQ (f_of_int (int k)) y \<longleftrightarrow> unat w \<noteq> k"
    using f_of_int_props(4) [OF u(2)] f_of_int_cmp(3) [OF u(2), of "int k"]
    by (auto simp: cmp_f64_def cmp_scalar_def op_defs uint_int)
qed

lemma dict_describes:
  assumes m: "is_mask m" "\<forall>r < rows. mask_bit m r \<longleftrightarrow> filter_holds (column_f64 (CD_U32 ids)) fl r \<and> valid_row nulls r"
    and len: "rows \<le> length ids" and nulls: "nulls_ok entry nulls rows"
    and pres: "\<And>dict. r_dicts rt (c_dict_id col) = Some dict \<Longrightarrow>
      presence_covers entry ids (length (d_values dict)) nulls rows"
    and lits: "filter_literals_ok fl (CD_U32 ids)"
    and op: "fl_in_list fl = None \<Longrightarrow> fl_op fl = OP_EQ \<or> fl_op fl = OP_NEQ"
  shows "describes rows (dict_filter_possible fl col entry rt) m"
proof (cases "r_dicts rt (c_dict_id col)")
  case None
  with m(1) show ?thesis by (simp add: dict_filter_possible_def)
next
  case dict: (Some dict)
  let ?n = "length (d_values dict)" and ?p = "e_presence entry"
  have here: "unat (ids ! r) < ?n" "bit ?p (unat (ids ! r))" if "r < rows" "valid_row nulls r" for r
    using pres [OF dict] that by (auto simp: presence_covers_def)
  have col: "column_f64 (CD_U32 ids) ! r = f_of_int (uint (ids ! r))" if "r < rows" for r
    using that len by (simp add: column_f64_def)
  consider "?n = 0 \<or> 64 < ?n" | "0 < ?n" "?n \<le> 64" "?p = 0" | "0 < ?n" "?n \<le> 64" "?p \<noteq> 0"
    by (cases "?n = 0 \<or> 64 < ?n"; cases "?p = 0") auto
  then show ?thesis
  proof cases
    case 1
    with dict m(1) show ?thesis by (auto simp: dict_filter_possible_def Let_def)
  next
    case 2
    then have "dict_filter_possible fl col entry rt = poss False True"
      using dict by (simp add: dict_filter_possible_def)
    moreover have "describes rows (poss False True) m"
      by (rule describesI [OF m nulls]) (use here 2(3) in auto)
    ultimately show ?thesis by simp
  next
    case 3
    have bit64: "bit ?p k \<Longrightarrow> k < 64" for k using bit_imp_le_length [of ?p k] by simp
    show ?thesis
    proof (cases "fl_in_list fl")
      case (Some xs)
      then have xs: "fl_op fl = OP_EQ" "list_all (literal_ok (CD_U32 ids)) xs"
        using lits by (auto simp: filter_literals_ok_def)
      let ?lm = "list_mask ?n xs"
      have holds: "filter_holds (column_f64 (CD_U32 ids)) fl r \<longleftrightarrow> bit ?lm (unat (ids ! r))"
        if "r < rows" "valid_row nulls r" for r
      proof -
        have k: "unat (ids ! r) < ?n" "unat (ids ! r) < 64" using here [OF that] bit64 by auto
        have "cmp_f64 (f_of_int (uint (ids ! r))) OP_EQ x x \<longleftrightarrow> x = f_of_int (int (unat (ids ! r)))"
          if "x \<in> set xs" for x
        proof -
          have "literal_ok (CD_U32 ids) x" using xs(2) that by (simp add: list_all_iff)
          then obtain j where j: "x = f_of_int (int j)" "j < 2 ^ 32" by (rule id_literal)
          have "x = f_of_int (int (unat (ids ! r))) \<longleftrightarrow> j = unat (ids ! r)"
            using j k(2) fkey_f_of_int_eq [of "int j" "int (unat (ids ! r))"] abs_small(3) [of "ids ! r"]
            by (auto simp: uint_int)
          with cmp_id(1) [OF j(2)] j(1) show ?thesis by auto
        qed
        with bit_list_mask [OF xs(2) k(2,1)] show ?thesis
          by (simp add: filter_holds_def Some xs(1) col [OF \<open>r < rows\<close>])
      qed
      have "dict_filter_possible fl col entry rt =
          poss (?p AND ?lm \<noteq> 0) (\<not> (\<not> 0 < e_null_raw_len entry \<and> ?p \<noteq> 0 \<and> ?p AND NOT ?lm = 0))"
        using dict 3 Some by (simp add: dict_filter_possible_def Let_def)
      moreover have "describes rows \<dots> m"
      proof (rule describesI [OF m nulls])
        fix r assume r: "r < rows" "valid_row nulls r" "filter_holds (column_f64 (CD_U32 ids)) fl r"
        then have "bit (?p AND ?lm) (unat (ids ! r))"
          using here holds by (simp add: bit_and_iff)
        then show "?p AND ?lm \<noteq> 0" by (metis bit_0_eq bot_apply bot_bool_def)
      next
        fix r assume a: "\<not> \<not> (\<not> 0 < e_null_raw_len entry \<and> ?p \<noteq> 0 \<and> ?p AND NOT ?lm = 0)"
          and r: "r < rows" "valid_row nulls r"
        then have "\<not> bit (?p AND NOT ?lm) (unat (ids ! r))" by simp
        then show "filter_holds (column_f64 (CD_U32 ids)) fl r"
          using here [OF r] bit64 [of "unat (ids ! r)"] holds [OF r] by (simp add: bit_and_iff bit_not_iff)
      qed simp
      ultimately show ?thesis by simp
    next
      case None
      then have "literal_ok (CD_U32 ids) (fl_value fl)" using lits by (simp add: filter_literals_ok_def)
      then obtain k where k: "fl_value fl = f_of_int (int k)" "k < 2 ^ 32" "\<not> not_an_id (fl_value fl)"
        "unat (f_as_u64 (fl_value fl)) = k" by (rule id_literal)
      have holds: "filter_holds (column_f64 (CD_U32 ids)) fl r \<longleftrightarrow>
          (if fl_op fl = OP_EQ then unat (ids ! r) = k else unat (ids ! r) \<noteq> k)" if "r < rows" for r
        using op [OF None] col [OF that] cmp_id [OF k(2)] by (auto simp: filter_holds_def None k(1))
      show ?thesis
      proof (cases "?n \<le> k")
        case True
        then have far: "unat (ids ! r) \<noteq> k" if "r < rows" "valid_row nulls r" for r
          using here(1) [OF that] by simp
        have "dict_filter_possible fl col entry rt =
            poss (fl_op fl = OP_NEQ) (\<not> (\<not> 0 < e_null_raw_len entry \<and> fl_op fl = OP_NEQ))"
          using dict 3 None k True by (simp add: dict_filter_possible_def Let_def)
        moreover have "describes rows \<dots> m"
          by (rule describesI [OF m nulls]) (use holds far op [OF None] in \<open>auto simp: op_defs split: if_splits\<close>)
        ultimately show ?thesis by simp
      next
        case False
        then have k64: "k < 64" using 3 by simp
        let ?km = "push_bit k (1 :: u64)"
        have km: "bit ?km j \<longleftrightarrow> j = k" for j
          using k64 by (auto simp: bit_exp_iff)
        show ?thesis
        proof (cases "fl_op fl = OP_EQ")
          case True
          have "dict_filter_possible fl col entry rt =
              poss (?p AND ?km \<noteq> 0) (\<not> (\<not> 0 < e_null_raw_len entry \<and> ?p = ?km))"
            using dict 3 None k False True by (simp add: dict_filter_possible_def Let_def)
          moreover have "describes rows \<dots> m"
          proof (rule describesI [OF m nulls])
            fix r assume r: "r < rows" "valid_row nulls r" "filter_holds (column_f64 (CD_U32 ids)) fl r"
            then have "bit (?p AND ?km) k" using here(2) holds True km by (auto simp: bit_and_iff)
            then show "?p AND ?km \<noteq> 0" by (metis bit_0_eq bot_apply bot_bool_def)
          next
            fix r assume "\<not> \<not> (\<not> 0 < e_null_raw_len entry \<and> ?p = ?km)" "r < rows" "valid_row nulls r"
            then have "bit ?km (unat (ids ! r))" using here(2) by metis
            then show "filter_holds (column_f64 (CD_U32 ids)) fl r"
              using holds [OF \<open>r < rows\<close>] True km by simp
          qed simp
          ultimately show ?thesis by simp
        next
          case neq: False
          then have "fl_op fl = OP_NEQ" using op [OF None] by simp
          then have "dict_filter_possible fl col entry rt =
              poss (?p AND NOT ?km \<noteq> 0) (\<not> (\<not> 0 < e_null_raw_len entry \<and> ?p AND ?km = 0))"
            using dict 3 None k False by (simp add: dict_filter_possible_def Let_def op_defs)
          moreover have "describes rows \<dots> m"
          proof (rule describesI [OF m nulls])
            fix r assume r: "r < rows" "valid_row nulls r" "filter_holds (column_f64 (CD_U32 ids)) fl r"
            then have "bit (?p AND NOT ?km) (unat (ids ! r))"
              using here(2) [OF r(1,2)] bit64 holds neq km by (simp add: bit_and_iff bit_not_iff)
            then show "?p AND NOT ?km \<noteq> 0" by (metis bit_0_eq bot_apply bot_bool_def)
          next
            fix r assume a: "\<not> \<not> (\<not> 0 < e_null_raw_len entry \<and> ?p AND ?km = 0)" "r < rows" "valid_row nulls r"
            then have "\<not> bit (?p AND ?km) (unat (ids ! r))" by simp
            then have "unat (ids ! r) \<noteq> k" using here(2) [OF a(2,3)] km by (simp add: bit_and_iff)
            then show "filter_holds (column_f64 (CD_U32 ids)) fl r" using holds [OF a(2)] neq by simp
          qed simp
          ultimately show ?thesis by simp
        qed
      qed
    qed
  qed
qed

section \<open>Pruning\<close>

lemma set_rows_is_mask: "foldR (set_rows p) m xs = Ok m' \<Longrightarrow> is_mask m \<Longrightarrow> is_mask m'"
proof (induction xs arbitrary: m)
  case (Cons x xs)
  then obtain m1 where m1: "set_rows p m x = Ok m1" "foldR (set_rows p) m1 xs = Ok m'" by auto
  then have "is_mask m1" using Cons.prems(2)
    by (auto simp: set_rows_def set_bit_at_def is_mask_def split: if_splits)
  with Cons.IH m1(2) show ?case by blast
qed simp

lemma single_mask_is_mask: "build_single_mask col data op x y rows = Ok m \<Longrightarrow> is_mask m"
  by (auto simp: build_single_mask_def build_cmp_mask_def scaled_mask_def Let_def
      split: column_data.splits if_splits option.splits dest: set_rows_is_mask)

lemma in_list_is_mask:
  "foldR (in_list_step col data op rows) m xs = Ok m' \<Longrightarrow> is_mask m \<Longrightarrow> is_mask m'"
proof (induction xs arbitrary: m)
  case (Cons x xs)
  then obtain m1 where m1: "in_list_step col data op rows m x = Ok m1"
    "foldR (in_list_step col data op rows) m1 xs = Ok m'" by auto
  then have "is_mask m1" using Cons.prems(2) single_mask_is_mask
    by (auto simp: in_list_step_def is_mask_def split: if_splits)
  with Cons.IH m1(2) show ?case by blast
qed simp

lemma filter_mask_is_mask:
  assumes "build_filter_mask_pipeline col data fl rows rt nulls = Ok m" "rows \<le> ROWS_PER_CHUNK"
    and "\<forall>bm. nulls = Some bm \<longrightarrow> rows \<le> 8 * length bm"
  shows "is_mask m"
proof -
  obtain m1 where m1: "build_filter_mask col data fl rows rt = Ok m1"
    "maybe_apply_validity_mask m1 nulls rows = Ok m"
    using assms(1) by (auto simp: build_filter_mask_pipeline_def)
  have "is_mask m1" using m1(1)
    by (auto simp: build_filter_mask_def build_like_mask_ids_def build_like_mask_def
        split: if_splits option.splits column_data.splits
        dest: set_rows_is_mask single_mask_is_mask in_list_is_mask)
  with validity_ok [OF assms(2) this assms(3)] m1(2) show ?thesis by auto
qed

lemma filter_describes:
  assumes rows: "rows \<le> ROWS_PER_CHUNK" and ok: "entry_ok col data entry nulls fl rt rows"
    and m: "build_filter_mask_pipeline col data fl rows rt0 nulls = Ok m"
  shows "describes rows (filter_possible fl col entry rt) m"
proof -
  have nulls: "nulls_ok entry nulls rows" and len: "\<forall>bm. nulls = Some bm \<longrightarrow> rows \<le> 8 * length bm"
    using ok by (auto simp: entry_ok_def nulls_ok_def)
  show ?thesis
  proof (cases "c_physical col = TYPE_STRING \<or> fl_op fl = OP_LIKE \<or> fl_op fl = OP_NOT_LIKE \<or>
      fl_value_str fl \<noteq> None \<or> fl_in_list_str fl \<noteq> None")
    case True
    then have "filter_possible fl col entry rt = unknown" by (auto simp: filter_possible_def)
    with filter_mask_is_mask [OF m rows len] show ?thesis by simp
  next
    case False
    then have c: "plain_column col data" "rows \<le> length (column_f64 data)" "filter_literals_ok fl data"
      "if c_flags col AND FLAG_DICT \<noteq> 0 then
           (\<exists>ids. data = CD_U32 ids \<and>
              (\<forall>dict. r_dicts rt (c_dict_id col) = Some dict \<longrightarrow>
                 presence_covers entry ids (length (d_values dict)) nulls rows) \<and>
              (fl_in_list fl = None \<longrightarrow> fl_op fl = OP_EQ \<or> fl_op fl = OP_NEQ))
         else range_covers entry (column_f64 data) nulls rows"
      using ok by (auto simp: entry_ok_def)
    have bits: "is_mask m" "\<forall>r < rows. mask_bit m r \<longleftrightarrow> filter_holds (column_f64 data) fl r \<and> valid_row nulls r"
      using filter_mask_ok [OF rows c(2,1,3) _ _ len, of rt0] False m by auto
    show ?thesis
    proof (cases "c_flags col AND FLAG_DICT \<noteq> 0")
      case True
      then obtain ids where ids: "data = CD_U32 ids"
        "\<And>dict. r_dicts rt (c_dict_id col) = Some dict \<Longrightarrow>
           presence_covers entry ids (length (d_values dict)) nulls rows"
        "fl_in_list fl = None \<Longrightarrow> fl_op fl = OP_EQ \<or> fl_op fl = OP_NEQ"
        using c(4) by auto
      have "describes rows (dict_filter_possible fl col entry rt) m"
        by (rule dict_describes [OF _ _ _ nulls ids(2) _ ids(3)])
          (use bits c(2,3) ids(1) in \<open>auto simp: column_f64_def\<close>)
      with True False show ?thesis by (simp add: filter_possible_def)
    next
      case num: False
      then have "range_covers entry (column_f64 data) nulls rows" using c(4) by simp
      from numeric_describes [OF bits nulls this] c(3) False num show ?thesis
        by (auto simp: filter_possible_def filter_literals_ok_def split: option.splits)
    qed
  qed
qed

text \<open>
  The chunk as the page planner sees it, one column per filter: the statuses of the filters
  evaluated over the condition describe the mask of the condition.
\<close>

lemma pruning_describes:
  assumes "rows \<le> ROWS_PER_CHUNK"
    and "\<And>i. i < n \<Longrightarrow> statistics_hold (cs i) (ds i) (es i) (ns i) rt rows"
    and "\<And>i. i < n \<Longrightarrow> filter_comparable (cs i) (ds i) (fs i) rows"
    and "\<And>i. i < n \<Longrightarrow> build_filter_mask_pipeline (cs i) (ds i) (fs i) rows (Some rt) (ns i) = Ok (ms i)"
    and "combine_masks tokens (map ms [0..<n]) = Ok m"
    and "eval_possible tokens (map (\<lambda>i. filter_possible (fs i) (cs i) (es i) rt) [0..<n]) = Some p"
  shows "describes rows p m"
proof (rule eval_possible_describes [OF assms(1) _ assms(5,6)])
  show "list_all2 (describes rows) (map (\<lambda>i. filter_possible (fs i) (cs i) (es i) rt) [0..<n]) (map ms [0..<n])"
    using filter_describes [OF assms(1) entry_okI [OF assms(2,3)] assms(4)] by (simp add: list_all2_conv_all_nth)
qed

section \<open>Where pruning and filtering part\<close>

text \<open>
  BETWEEN with its bounds in descending order: the status swaps them and claims that every row
  satisfies the filter, so the negated condition is pruned; the mask has no row.
\<close>

definition between_filter :: "int \<Rightarrow> int \<Rightarrow> filter_spec" where
  "between_filter a b =
     \<lparr> fl_col_id = 0, fl_op = OP_BETWEEN, fl_value = f_of_int a, fl_value2 = f_of_int b, fl_in_list = None,
       fl_value_str = None, fl_in_list_str = None, fl_like_ids = None \<rparr>"

lemma between_reversed:
  assumes "e_min entry = f_of_int 3" "e_max entry = f_of_int 3" "e_null_raw_len entry = 0"
  shows "numeric_filter_possible (between_filter 5 1) entry = poss True False \<and>
    \<not> cmp_f64 (f_of_int 3) OP_BETWEEN (f_of_int 5) (f_of_int 1)"
proof -
  have k: "fkey (f_of_int 1) < fkey (f_of_int 3)" "fkey (f_of_int 3) < fkey (f_of_int 5)"
    "fkey (f_of_int 1) < fkey (f_of_int 5)"
    by (subst fkey_f_of_int_less; simp)+
  have p: "is_finite (f_of_int 1)" "is_finite (f_of_int 3)" "is_finite (f_of_int 5)"
    "\<not> is_nan (f_of_int 1)" "\<not> is_nan (f_of_int 3)" "\<not> is_nan (f_of_int 5)"
    by (subst f_of_int_props; simp)+
  show ?thesis
    using assms k p by (simp add: numeric_filter_possible_def between_filter_def op_defs Let_def
        f_min_def f_max_def cmp_f64_def cmp_scalar_def f_lt_def f_le_def)
qed

text \<open>An infinite value is not in the range of its page, so a page that holds it is pruned.\<close>

lemma infinity_pruned:
  assumes "e_min entry = f_of_int 1" "e_max entry = f_of_int 1"
    and "fl_op fl = OP_GT" "fl_value fl = f_of_int 100" "fl_value2 fl = f_of_int 100" "fl_in_list fl = None"
  shows "\<not> maybe_true (numeric_filter_possible fl entry)" "cmp_f64 f_inf (fl_op fl) (fl_value fl) (fl_value2 fl)"
proof -
  have k: "fkey (f_of_int 1) < fkey (f_of_int 100)" by (subst fkey_f_of_int_less) simp_all
  have p: "is_finite (f_of_int 1)" "is_finite (f_of_int 100)" "\<not> is_nan (f_of_int 1)" "\<not> is_nan (f_of_int 100)"
    by (subst f_of_int_props; simp)+
  show "\<not> maybe_true (numeric_filter_possible fl entry)"
    using assms k p by (simp add: numeric_filter_possible_def op_defs Let_def f_lt_def f_le_def)
  have "fkey (f_of_int 100) < fkey f_inf" using finite_fkey [OF p(2)] by simp
  then show "cmp_f64 f_inf (fl_op fl) (fl_value fl) (fl_value2 fl)"
    using assms p by (simp add: cmp_f64_def cmp_scalar_def op_defs f_lt_def)
qed

section \<open>The statistics of the encoder\<close>

text \<open>The range of a page of doubles that are finite where they are valid.\<close>

lemma float_stats_range:
  assumes "b_values buffer = V_Float vs" "rows \<le> 8 * length (b_nulls buffer)" "rows \<le> length vs"
    and "cs_scale col = 0" "\<forall>r < rows. bitmap_bit (b_nulls buffer) r \<longrightarrow> is_finite (vs ! r)"
    and "compute_page_stats col buffer rows = Ok (e_min entry, e_max entry, e_presence entry)"
  shows "range_covers entry vs (Some (b_nulls buffer)) rows"
  using page_stats_range [of buffer vs rows col] assms
  by (auto simp: range_covers_def numeric_values_def stats_value_def valid_row_def)

lemma dict_stats_presence:
  assumes "b_values buffer = V_Dict ids" "rows \<le> 8 * length (b_nulls buffer)" "rows \<le> length ids"
    and "length (cs_dict_values col) \<le> PRESENCE_MAX_VALUES" "n \<le> 64"
    and "\<forall>r < rows. bitmap_bit (b_nulls buffer) r \<longrightarrow> unat (ids ! r) < n"
    and "compute_page_stats col buffer rows = Ok (e_min entry, e_max entry, e_presence entry)"
  shows "presence_covers entry ids n (Some (b_nulls buffer)) rows"
  unfolding presence_covers_def valid_row_def option.case
proof (intro allI impI)
  fix r assume r: "r < rows" "bitmap_bit (b_nulls buffer) r"
  then have k: "unat (ids ! r) < n" "unat (ids ! r) < 64" using assms(5,6) by auto
  have "\<forall>k < 64. bit (e_presence entry) k \<longleftrightarrow>
      (\<exists>i < min rows (length ids). bitmap_bit (b_nulls buffer) i \<and> unat (ids ! i) = k)"
    using presence_ok [OF assms(1,2,4)] assms(7) by auto
  with k(2) r assms(3) have "bit (e_presence entry) (unat (ids ! r))" by auto
  with k(1) show "unat (ids ! r) < n \<and> bit (e_presence entry) (unat (ids ! r))" by simp
qed

end
