(* ===== verification/Samples.thy ===== *)
theory Samples
  imports Runtime_Facts Filter_Prune
begin

text \<open>
  Sample columns, pages, filters and runtimes, and a compressor with its inverse, for the
  witnesses.
\<close>

text \<open>A compressor that drops trailing zero bytes, and its inverse.\<close>

definition sample_compress :: "bytes \<Rightarrow> bytes" where
  "sample_compress raw =
     (let s = rev (dropWhile (\<lambda>b. b = 0) (rev raw)) in if s = [] then [0] else s)"

definition sample_decompress :: "bytes \<Rightarrow> nat \<Rightarrow> bytes option" where
  "sample_decompress c n = Some (take n (c @ replicate n 0))"

lemma sample_lz4: "lz4_inverse sample_compress sample_decompress"
proof -
  have "sample_decompress (sample_compress raw) (length raw) = Some raw" for raw
  proof -
    define z s where "z = rev (takeWhile (\<lambda>b. b = 0) (rev raw))"
      and "s = rev (dropWhile (\<lambda>b. b = 0) (rev raw))"
    have raw: "raw = s @ z"
      by (metis rev_append rev_rev_ident s_def takeWhile_dropWhile_id z_def)
    have z: "z = replicate (length z) 0"
      by (rule replicate_eqI) (auto simp: z_def dest: set_takeWhileD)
    have "sample_compress raw = (if s = [] then [0] else s)"
      by (simp add: sample_compress_def s_def Let_def)
    moreover have "take (length raw) (s @ replicate (length raw) 0) = raw"
      using raw z by (metis append_take_drop_id length_append length_replicate take_all_iff
          take_append take_replicate min.cobounded2 min_def diff_add_inverse le_add2 le_add1)
    moreover have "take (length raw) ([0] @ replicate (length raw) 0) = raw" if "s = []"
      using take_replicate [of "length raw" "Suc (length raw)" "0 :: u8"] raw z that by simp
    ultimately show ?thesis unfolding sample_decompress_def by (cases "s = []") (simp_all only: if_True if_False simp_thms)
  qed
  then show ?thesis by (simp add: lz4_inverse_def sample_compress_def Let_def)
qed

definition sample_column :: column_spec where
  "sample_column =
     \<lparr> cs_id = 0, cs_name = [97], cs_kind = K_Int, cs_nullable = True, cs_min = 0, cs_max = 0,
       cs_f32_ok = False, cs_scale_candidates = 0, cs_scaled_min = [], cs_scaled_max = [],
       cs_unsafe_int = False, cs_dict_map = None, cs_dict_values = [], cs_num_dict_values = None,
       cs_num_dict = False, cs_float_int_ok = False, cs_float_int_min = 0, cs_float_int_max = 0,
       cs_logical = TYPE_U8, cs_physical = TYPE_U8, cs_flags = 0, cs_encoding = ENCODING_NONE,
       cs_dict_id = 0, cs_index_width = 0, cs_scale = 0, cs_other_dict_id = None \<rparr>"

definition sample_page :: column_page where
  "sample_page =
     \<lparr> p_data_raw_len = 3, p_data_comp = [1, 2, 3], p_null_raw_len = 1, p_null_comp = Some [7],
       p_empty_mode = 0, p_empty_count = 0, p_empty_raw_len = 0, p_empty_comp = None,
       p_data_off = 0, p_null_off = NULL_SENTINEL_U64, p_empty_off = NULL_SENTINEL_U64,
       p_min = f_zero, p_max = f_one, p_presence = 0 \<rparr>"

lemma length_sample_compress: "length (sample_compress raw) \<le> max 1 (length raw)"
  using length_dropWhile_le [of "\<lambda>b. b = 0" "rev raw"]
  by (auto simp: sample_compress_def Let_def le_max_iff_disj)

lemma sample_written:
  "\<exists>content. write_wcol sample_compress [sample_column] [[sample_page]] 3 = Ok content \<and>
     length content < 2 ^ 63"
proof -
  obtain cur q where pl: "place_chunks 201 [[sample_page]] = (cur, [[q]])"
    by (auto simp: split_beta)
  define b where "b = sample_compress (index_raw [q])"
  have b: "length b \<le> 80"
    using length_sample_compress [of "index_raw [q]"] by (simp add: b_def length_index_raw)
  have schema: "build_schema_bytes [sample_column] = Ok (column_bytes sample_column)"
      "length (column_bytes sample_column) = 17"
    by (simp_all add: length_column_bytes) (simp_all add: sample_column_def)
  have dict: "build_dict_bytes [sample_column] = Ok []"
    by (simp add: build_dict_bytes_def is_dict_col_def sample_column_def)
  have n: "of_nat (length b) \<le> (80 :: u64)"
    using b by (simp add: word_le_nat_alt unat_of_nat64)
  then have le: "\<not> 201 < 121 + (of_nat (length b) :: u64)"
    by (simp add: not_less word_le_nat_alt unat_word_ariths)
  have lay: "compute_index_layout sample_compress [sample_column] [[sample_page]] 17 0 113 =
      Ok (\<lparr> l_data_off = 201, l_toc = [121], l_index_blocks = [b],
            l_index_len = 8 + of_nat (length b) \<rparr>, [[q]])"
    using b by (simp add: compute_index_layout_def build_index_blocks_def layout_consts Let_def pl
        b_def [symmetric] del: place_chunks.simps bindR_eq_Ok)
  have "length (page_bytes q) = 4"
    using place_chunks_bytes [of 201 "[[sample_page]]"] pl by (simp add: page_bytes_def sample_page_def)
  moreover have "unat (80 - (of_nat (length b) :: u64)) \<le> 80"
    using n by (simp add: unat_sub_if_size word_le_nat_alt)
  ultimately show ?thesis
    using b le schema by (simp add: write_wcol_def dict dict_payload_def lay HEADER_BYTES_def Let_def
        length_build_header del: bindR_eq_Ok)
qed

definition sample_filter :: "u8 \<Rightarrow> f64 \<Rightarrow> filter_spec" where
  "sample_filter op value =
     \<lparr> fl_col_id = 0, fl_op = op, fl_value = value, fl_value2 = value, fl_in_list = None,
       fl_value_str = None, fl_in_list_str = None, fl_like_ids = None \<rparr>"

definition sample_col :: "u8 \<Rightarrow> column" where
  "sample_col type =
     \<lparr> c_id = 0, c_name = [97], c_logical = type, c_physical = type, c_flags = 0, c_encoding = 0,
       c_dict_id = 0, c_index_width = 0, c_scale = 0 \<rparr>"

lemma sample_plain:
  "column_f64 (CD_F64 vs) = vs" "plain_column (sample_col t) (CD_F64 vs)"
  "op \<noteq> OP_BETWEEN \<Longrightarrow> filter_literals_ok (sample_filter op x) (CD_F64 vs)"
  by (simp_all add: column_f64_def plain_column_def sample_col_def filter_literals_ok_def sample_filter_def
      literal_ok_def literal_range_def)

definition sample_entry :: index_entry where
  "sample_entry =
     \<lparr> e_data_off = 0, e_data_comp_len = 1, e_data_raw_len = 16, e_null_off = 0, e_null_comp_len = 0,
       e_null_raw_len = 0, e_empty_mode = 0, e_empty_count = 0, e_empty_off = 0, e_empty_comp_len = 0,
       e_empty_raw_len = 0, e_min = f_one, e_max = f_one, e_presence = 0 \<rparr>"

definition sample_runtime :: runtime where
  "sample_runtime =
     \<lparr> r_header = None, r_schema = [sample_col TYPE_F64], r_toc = [0], r_dicts = Map.empty,
       r_index_cache = Map.empty \<rparr>"

end
