(* ===== verification/Numeric_Facts.thy ===== *)
theory Numeric_Facts
  imports Bit_Packing
begin

text \<open>
  The decoder reads from a page of numbers the integers that the encoder wrote, for every
  integer type and whichever of the three layouts (raw, dictionary, bit-packed) is chosen.
\<close>

section \<open>Integers of a column\<close>

fun column_ints :: "column_data \<Rightarrow> int list option" where
  "column_ints (CD_U8 vs) = Some (map uint vs)"
| "column_ints (CD_U16 vs) = Some (map uint vs)"
| "column_ints (CD_U32 vs) = Some (map uint vs)"
| "column_ints (CD_I8 vs) = Some (map sint vs)"
| "column_ints (CD_I16 vs) = Some (map sint vs)"
| "column_ints (CD_I32 vs) = Some (map sint vs)"
| "column_ints (CD_I64 vs) = Some (map sint vs)"
| "column_ints (CD_F64 vs) = None"
| "column_ints (CD_Bool bs) = None"

lemma ucast_of_sint:
  assumes "LENGTH('b) \<le> 64"
  shows "(ucast (v :: i64) :: 'b::len word) = word_of_int (sint v)"
proof (rule bit_word_eqI)
  fix n assume "n < LENGTH('b)"
  with assms have "n < 64" by simp
  then show "bit (ucast v :: 'b word) n \<longleftrightarrow> bit (word_of_int (sint v) :: 'b word) n"
    using \<open>n < LENGTH('b)\<close> by (cases "n = 63") (auto simp: bit_simps min_def)
qed

lemma uint_ucast_i64:
  assumes "LENGTH('b) \<le> 64" "0 \<le> sint (v :: i64)" "sint v < 2 ^ LENGTH('b)"
  shows "uint (ucast v :: 'b::len word) = sint v"
  unfolding ucast_of_sint [OF assms(1)] unsigned_of_int
  using assms(2,3) by (simp only: take_bit_int_eq_self of_int_eq_id id_apply)

lemma sint_ucast_i64:
  assumes "LENGTH('b) \<le> 64" "- (2 ^ (LENGTH('b) - 1)) \<le> sint (v :: i64)"
    "sint v < 2 ^ (LENGTH('b) - 1)"
  shows "sint (ucast v :: 'b::len word) = sint v"
proof -
  have "signed_take_bit (LENGTH('b) - 1) (sint v) = sint v"
    using assms(2,3) by (rule signed_take_bit_int_eq_self)
  then show ?thesis by (simp only: ucast_of_sint [OF assms(1)] signed_of_int of_int_eq_id id_apply One_nat_def)
qed

definition fits_type :: "u8 \<Rightarrow> i64 \<Rightarrow> bool" where
  "fits_type ty v \<longleftrightarrow>
     (case dict_type ty of
        Some (w, lo, hi, u) \<Rightarrow> lo \<le> sint v \<and> sint v \<le> hi
      | None \<Rightarrow> False)"

lemma fits_casts:
  "fits_type TYPE_U8 v \<Longrightarrow> uint (ucast v :: u8) = sint v"
  "fits_type TYPE_U16 v \<Longrightarrow> uint (ucast v :: u16) = sint v"
  "fits_type TYPE_U32 v \<Longrightarrow> uint (ucast v :: u32) = sint v"
  "fits_type TYPE_I8 v \<Longrightarrow> sint (ucast v :: u8) = sint v"
  "fits_type TYPE_I16 v \<Longrightarrow> sint (ucast v :: u16) = sint v"
  "fits_type TYPE_I32 v \<Longrightarrow> sint (ucast v :: u32) = sint v"
  by (auto simp: fits_type_def dict_type_def type_defs intro!: uint_ucast_i64 sint_ucast_i64)

lemma dict_type_cases:
  assumes "dict_type ty = Some (w, lo, hi, u)"
  obtains "ty = TYPE_U8" "w = 1" | "ty = TYPE_U16" "w = 2" | "ty = TYPE_U32" "w = 4"
    | "ty = TYPE_I8" "w = 1" | "ty = TYPE_I16" "w = 2" | "ty = TYPE_I32" "w = 4"
    | "ty = TYPE_I64" "w = 8"
  using assms by (auto simp: dict_type_def split: if_splits)

section \<open>Fixed-width pages\<close>

context le_codec
begin

lemma decode_le_all: "decode_le width dec (concat (map enc xs)) = Ok xs"
  using decode_all [of xs] by (simp add: decode_le_def concat_length)

lemma concat_mod: "length (concat (map enc xs)) mod width = 0"
  by (simp add: concat_length)

end

lemma decode_le_bytes: "decode_le (Suc 0) (\<lambda>b. b ! 0) bs = Ok bs"
proof -
  have "chunks_exact (Suc 0) (concat (map (\<lambda>b. [b]) bs)) = map (\<lambda>b. [b]) bs"
    by (rule chunks_exact_concat) auto
  then show ?thesis by (simp add: decode_le_def comp_def)
qed

lemmas decode_defs = decode_u8_def decode_i8_def decode_u16_def decode_u32_def decode_i16_def
  decode_i32_def decode_i64_def decode_le_bytes

lemmas encode_defs = encode_u8_def encode_u16_def encode_u32_def encode_i8_def encode_i16_def
  encode_i32_def encode_i64_def

lemma decode_enc_map [simp]:
  "decode_le 2 from_le16 (concat (map (\<lambda>v. le16 (f v)) vs)) = Ok (map f vs)"
  "decode_le 4 from_le32 (concat (map (\<lambda>v. le32 (g v)) vs)) = Ok (map g vs)"
  "decode_le 8 from_le64 (concat (map (\<lambda>v. le64 (h v)) vs)) = Ok (map h vs)"
  using b16.decode_le_all [of "map f vs"] b32.decode_le_all [of "map g vs"]
    b64.decode_le_all [of "map h vs"] by (simp_all add: comp_def)

lemma raw_page_ok:
  assumes ty: "dict_type ty = Some (w, lo, hi, u)"
    and vs: "b_values buffer = V_Int vs" "length vs = rows" "cs_physical col = ty"
    and fits: "\<forall>v \<in> set vs. fits_type ty v"
  shows "\<exists>raw cd. encode_numeric_raw col buffer rows = Ok raw \<and>
     decode_numeric_raw ty raw = Ok cd \<and> column_ints cd = Some (map sint vs)"
  using ty
  by (cases rule: dict_type_cases)
     (use vs fits fits_casts in \<open>simp_all add: encode_numeric_raw_def decode_numeric_raw_def
        decode_physical_column_def encode_defs decode_defs type_defs b64.decode_le_all\<close>)

section \<open>The dictionary\<close>

lemma position_Some: "position x xs = Some i \<Longrightarrow> i < length xs \<and> xs ! i = x"
  by (induction xs arbitrary: i) (auto split: if_splits)

lemma position_None: "position x xs = None \<longleftrightarrow> x \<notin> set xs"
  by (induction xs) auto

lemma dict_rows_ok:
  assumes val: "\<forall>i < rows. buffer_value buffer i = Ok (val i) \<and> lo \<le> sint (val i) \<and>
      sint (val i) \<le> hi \<and> (u \<longrightarrow> 0 \<le> sint (val i))"
    and rows: "rows < 2 ^ 32"
  shows "\<exists>dv ids. foldR (dict_row buffer lo hi u) ([], []) [0..<rows] = Ok (dv, ids) \<and>
     length ids = rows \<and> length dv \<le> rows \<and> set dv \<subseteq> val ` {..<rows} \<and>
     (\<forall>i < rows. unat (ids ! i) < length dv \<and> dv ! unat (ids ! i) = val i)"
proof -
  let ?P = "\<lambda>k (dv, ids :: u32 list). length ids = k \<and> length dv \<le> k \<and> set dv \<subseteq> val ` {..<k} \<and>
     (\<forall>i < k. unat (ids ! i) < length dv \<and> dv ! unat (ids ! i) = val i)"
  have "\<exists>s. foldR (dict_row buffer lo hi u) ([], []) [0..<rows] = Ok s \<and> ?P (length [0..<rows]) s"
  proof (rule foldR_total [where P = ?P])
    fix k st assume k: "k < length [0..<rows]" and st: "?P k st"
    obtain dv ids where eq: "st = (dv, ids)" by fastforce
    have inv: "length ids = k" "length dv \<le> k" "set dv \<subseteq> val ` {..<k}"
      "\<forall>i < k. unat (ids ! i) < length dv \<and> dv ! unat (ids ! i) = val i"
      using st by (auto simp: eq)
    have v: "buffer_value buffer k = Ok (val k)"
      "\<not> (hi < sint (val k) \<or> sint (val k) < lo \<or> u \<and> sint (val k) < 0)"
      using val [rule_format, of k] k by auto
    have small: "n \<le> k \<Longrightarrow> unat (of_nat n :: u32) = n" for n
      using k rows by (intro unat_of_nat32) simp
    show "\<exists>s'. dict_row buffer lo hi u st ([0..<rows] ! k) = Ok s' \<and> ?P (Suc k) s'"
    proof (cases "position (val k) dv")
      case None
      have "unat ((ids @ [of_nat (length dv)]) ! i) < length (dv @ [val k]) \<and>
          (dv @ [val k]) ! unat ((ids @ [of_nat (length dv)]) ! i) = val i" if "i < Suc k" for i
        using that inv small [of "length dv"] by (auto simp: nth_append less_Suc_eq)
      then show ?thesis
        using None v k inv by (auto simp: dict_row_def eq lessThan_Suc)
    next
      case (Some j)
      have j: "j < length dv" "dv ! j = val k" using position_Some [OF Some] by simp_all
      have "unat ((ids @ [of_nat j]) ! i) < length dv \<and> dv ! unat ((ids @ [of_nat j]) ! i) = val i"
        if "i < Suc k" for i
        using that inv small [of j] j by (auto simp: nth_append less_Suc_eq)
      then show ?thesis
        using Some v k inv by (auto simp: dict_row_def eq lessThan_Suc)
    qed
  qed simp
  then show ?thesis by auto
qed

lemma gather_ok:
  "\<forall>i \<in> set ids. unat i < length dict \<Longrightarrow> gather dict ids = Ok (map (\<lambda>i. dict ! unat i) ids)"
  unfolding gather_def by (rule mapR_total) (simp add: get_def)

context le_codec
begin

lemma dict_col_ok:
  assumes "\<forall>i \<in> set ids. unat i < length xs" "value_width = width"
  shows "dict_col dec variant width value_width (concat (map enc xs)) ids =
     Ok (variant (map (\<lambda>i. xs ! unat i) ids))"
  using assms decode_all [of xs] by (simp add: dict_col_def concat_mod gather_ok)

end

lemma dict_col_map:
  assumes "\<forall>i \<in> set ids. unat i < length dv"
  shows "dict_col from_le16 vr 2 2 (concat (map (\<lambda>v. le16 (f v)) dv)) ids =
      Ok (vr (map (\<lambda>i. f (dv ! unat i)) ids))"
    "dict_col from_le32 vs 4 4 (concat (map (\<lambda>v. le32 (g v)) dv)) ids =
      Ok (vs (map (\<lambda>i. g (dv ! unat i)) ids))"
  using b16.dict_col_ok [of ids "map f dv" 2 vr] b32.dict_col_ok [of ids "map g dv" 4 vs] assms
  by (simp_all add: comp_def cong: map_cong)

lemma value_bytes_fun:
  "value_bytes TYPE_U8 = (\<lambda>v. [ucast v])" "value_bytes TYPE_I8 = (\<lambda>v. [ucast v])"
  "value_bytes TYPE_U16 = (\<lambda>v. le16 (ucast v))" "value_bytes TYPE_I16 = (\<lambda>v. le16 (ucast v))"
  "value_bytes TYPE_U32 = (\<lambda>v. le32 (ucast v))" "value_bytes TYPE_I32 = (\<lambda>v. le32 (ucast v))"
  "value_bytes TYPE_I64 = (\<lambda>v. le64 v)"
  by (simp_all add: value_bytes_def type_defs fun_eq_iff)

lemma dict_decode_ok:
  assumes ty: "dict_type ty = Some (w, lo, hi, u)"
    and fits: "\<forall>v \<in> set dv. fits_type ty v"
    and ids: "\<forall>i \<in> set ids. unat i < length dv"
  shows "\<exists>cd. decode_dict_ids_to_column ty (concat (map (value_bytes ty) dv)) (unat w) ids = Ok cd \<and>
     column_ints cd = Some (map (\<lambda>i. sint (dv ! unat i)) ids)"
proof -
  have f: "\<And>i. i \<in> set ids \<Longrightarrow> fits_type ty (dv ! unat i)" using fits ids by simp
  have g: "gather (map f dv) ids = Ok (map (\<lambda>i. f (dv ! unat i)) ids)" for f :: "i64 \<Rightarrow> u8"
    using gather_ok [of ids "map f dv"] ids by (simp cong: map_cong)
  show ?thesis
    using ty
    by (cases rule: dict_type_cases)
       (use f g ids fits_casts in \<open>simp_all add: decode_dict_ids_to_column_def type_defs value_bytes_fun [unfolded type_defs]
          dict_col_map b64.dict_col_ok concat_map_singleton\<close>)
qed

section \<open>The whole page\<close>

lemma buffer_value_int:
  assumes "b_values buffer = V_Int vs" "i < length vs" "i div 8 < length (b_nulls buffer)"
    "\<not> bitmap_bit (b_nulls buffer) i \<longrightarrow> vs ! i = 0"
  shows "buffer_value buffer i = Ok (vs ! i)"
  using assms by (simp add: buffer_value_def bitmap_valid_eq index_def)

lemma width_byte_header: "width_byte (dict_header n w vw @ rest) = unat w"
  by (simp add: width_byte_def dict_header_def nth_append le16_def)

lemma parse_layout_ok:
  assumes "n < 65536" "length dict = n * unat vw"
  shows "parse_numeric_dict_layout (dict_header n w vw @ dict @ ids) (length ids) =
     Ok \<lparr> dl_dict_raw = dict, dl_ids_raw = ids, dl_value_width = unat vw \<rparr>"
proof -
  let ?raw = "dict_header n w vw @ dict @ ids"
  have r: "read_u16 ?raw 0 = Ok (of_nat n)"
    by (rule read_at) (simp add: occurs_at_def dict_header_def)
  have i: "index ?raw 3 = Ok vw"
    by (simp add: index_def dict_header_def nth_append)
  have h: "length (dict_header n w vw) = 4" by (simp add: dict_header_def)
  have s: "slice ?raw 4 (4 + length dict) = dict"
    "slice ?raw (4 + length dict) (4 + length dict + length ids) = ids"
    by (rule occurs_at_slice, simp_all add: occurs_at_def h)+
  have u: "unat (of_nat n :: u16) * unat vw = length dict" using assms by (simp add: unat_of_nat16)
  show ?thesis
    unfolding parse_numeric_dict_layout_def r i bindR_simps Let_def u s
    by (simp add: h)
qed

lemma length_id_bytes: "w = 1 \<or> w = 2 \<or> w = 4 \<Longrightarrow> length (id_bytes w i) = unat w"
  by (auto simp: id_bytes_def)

lemma read_id_ok:
  assumes w: "w = 1 \<or> w = 2 \<or> w = 4" and i: "i < length ids"
    and small: "unat (ids ! i) < 2 ^ (8 * unat w)"
  shows "read_id (concat (map (id_bytes w) ids)) i (unat w) = Ok (ids ! i)"
proof -
  have len: "length (concat (map (id_bytes w) xs)) = unat w * length xs" for xs
    using length_id_bytes [OF w] by (induction xs) auto
  have "concat (map (id_bytes w) ids) = concat (map (id_bytes w) (take i ids)) @
      id_bytes w (ids ! i) @ concat (map (id_bytes w) (drop (Suc i) ids))"
    using i by (metis concat.simps(2) concat_append id_take_nth_drop list.simps(9) map_append)
  then have "slice (concat (map (id_bytes w) ids)) (i * unat w) (i * unat w + unat w) = id_bytes w (ids ! i)"
    using i length_id_bytes [OF w] by (intro occurs_at_slice) (simp_all add: occurs_at_def len mult.commute)
  moreover have "i * unat w + unat w \<le> length (concat (map (id_bytes w) ids))"
    using i by (metis add.commute len mult.commute mult_Suc mult_le_mono2 Suc_leI)
  ultimately have sg: "slice_get (concat (map (id_bytes w) ids)) (i * unat w) (i * unat w + unat w) =
      Some (id_bytes w (ids ! i))"
    by (simp add: slice_get_def)
  have u8: "ucast (ucast (ids ! i) :: u8) = ids ! i" if "unat (ids ! i) < 2 ^ 8"
    using that unfolding small_iff_bits
    by (intro bit_word_eqI) (auto simp: bit_ucast_iff not_le [symmetric])
  have u16: "ucast (ucast (ids ! i) :: u16) = ids ! i" if "unat (ids ! i) < 2 ^ 16"
    using that unfolding small_iff_bits
    by (intro bit_word_eqI) (auto simp: bit_ucast_iff not_le [symmetric])
  show ?thesis
    using w sg small u8 u16 by (auto simp: read_id_def id_bytes_def)
qed

lemma length_value_bytes:
  "dict_type ty = Some (w, lo, hi, u) \<Longrightarrow> length (concat (map (value_bytes ty) dv)) = length dv * unat w"
  by (induction dv) (auto simp: value_bytes_def dict_type_def type_defs split: if_splits)

lemma numeric_dict_page_ok:
  assumes ty: "dict_type (cs_physical col) = Some (w, lo, hi, u)"
    and vs: "b_values buffer = V_Int vs" "length vs = rows" and rows: "rows \<le> ROWS_PER_CHUNK"
    and fits: "\<forall>v \<in> set vs. fits_type (cs_physical col) v"
    and nulls: "rows \<le> 8 * length (b_nulls buffer)"
      "\<forall>i < rows. \<not> bitmap_bit (b_nulls buffer) i \<longrightarrow> vs ! i = 0"
  shows "\<exists>page cd. encode_numeric_dict compress col buffer rows = Ok page \<and>
     decode_num_dict_page (cs_physical col) page rows = Ok cd \<and> column_ints cd = Some (map sint vs)"
proof -
  let ?ty = "cs_physical col"
  have lo: "u \<longrightarrow> lo = 0" using ty by (auto simp: dict_type_def split: if_splits)
  have val: "\<forall>i < rows. buffer_value buffer i = Ok (vs ! i) \<and> lo \<le> sint (vs ! i) \<and>
      sint (vs ! i) \<le> hi \<and> (u \<longrightarrow> 0 \<le> sint (vs ! i))"
  proof (intro allI impI)
    fix i assume i: "i < rows"
    then have "fits_type ?ty (vs ! i)" using fits vs(2) by simp
    moreover have "i div 8 < length (b_nulls buffer)" using i nulls(1) by auto
    then have "buffer_value buffer i = Ok (vs ! i)"
      using i vs nulls(2) by (intro buffer_value_int) auto
    ultimately show "buffer_value buffer i = Ok (vs ! i) \<and> lo \<le> sint (vs ! i) \<and>
      sint (vs ! i) \<le> hi \<and> (u \<longrightarrow> 0 \<le> sint (vs ! i))"
      using lo by (auto simp: fits_type_def ty)
  qed
  have r32: "rows < 2 ^ 32" using rows by simp
  obtain dv ids where d: "foldR (dict_row buffer lo hi u) ([], []) [0..<rows] = Ok (dv, ids)"
    and len: "length ids = rows" "length dv \<le> rows" and sub: "set dv \<subseteq> (!) vs ` {..<rows}"
    and look: "\<forall>i < rows. unat (ids ! i) < length dv \<and> dv ! unat (ids ! i) = vs ! i"
    using dict_rows_ok [OF val r32] by blast
  have dl: "length dv \<le> 65504" using len(2) rows by simp
  have dfits: "\<forall>v \<in> set dv. fits_type ?ty v" using sub fits vs(2) by fastforce
  have inr: "\<forall>i \<in> set ids. unat i < length dv" using look len(1) by (metis in_set_conv_nth)
  have vals: "map (\<lambda>i. sint (dv ! unat i)) ids = map sint vs"
    using look len(1) vs(2) by (intro nth_equalityI) simp_all
  obtain cd where cd: "decode_dict_ids_to_column ?ty (concat (map (value_bytes ?ty) dv)) (unat w) ids = Ok cd"
    "column_ints cd = Some (map sint vs)"
    using dict_decode_ok [OF ty dfits inr] vals by auto
  obtain raw cd0 where raw: "encode_numeric_raw col buffer rows = Ok raw"
    "decode_numeric_raw ?ty raw = Ok cd0" "column_ints cd0 = Some (map sint vs)"
    using raw_page_ok [OF ty vs refl fits] by blast
  let ?db = "concat (map (value_bytes ?ty) dv)"
  have dbl: "length ?db = length dv * unat w" by (rule length_value_bytes [OF ty])
  let ?iw = "if length dv \<le> 255 then 1 else 2 :: u8"
  have iw: "(if length dv \<le> 255 then 1 else if length dv \<le> 65535 then 2 else 4) = ?iw" using dl by simp
  let ?dict = "dict_header (length dv) ?iw w @ ?db @ concat (map (id_bytes ?iw) ids)"
  have small: "unat (ids ! i) < 2 ^ (8 * unat ?iw)" if "i < rows" for i
    using look that dl by (cases "length dv \<le> 255") force+
  have dict: "decode_numeric_dict ?ty ?dict rows = Ok cd"
  proof -
    have rid: "mapR (\<lambda>i. read_id (concat (map (id_bytes ?iw) ids)) i (unat ?iw)) [0..<rows] = Ok ids"
      using mapR_total [of "[0..<rows]" "\<lambda>i. read_id (concat (map (id_bytes ?iw) ids)) i (unat ?iw)"
          "\<lambda>i. ids ! i"] read_id_ok [of ?iw _ ids] small len(1) map_nth [of ids] by auto
    have lid: "length (concat (map (id_bytes ?iw) ids)) = rows * unat ?iw"
      using len(1) length_id_bytes [of ?iw] by (simp add: length_concat comp_def sum_list_triv)
    show ?thesis
      using parse_layout_ok [of "length dv" ?db w ?iw "concat (map (id_bytes ?iw) ids)"] dl dbl rid cd(1)
      by (simp only: decode_numeric_dict_def width_byte_header lid Let_def) auto
  qed
  let ?bl = "of_nat (length dv) :: u32"
  have il: "\<forall>i \<in> set ids. i < ?bl"
    using inr dl by (simp add: word_less_nat_alt unat_of_nat32)
  obtain pk where pk: "encode_bitpacked_ids ids ?bl = Ok (bit_width_for_len ?bl, pk)"
    "length pk = div8_ceil (rows * unat (bit_width_for_len ?bl))"
    "decode_bitpacked_ids (unat (bit_width_for_len ?bl)) pk rows = Ok ids"
    using bitpacked_ids_ok [OF il] len(1) by auto
  let ?packed = "dict_header (length dv) (bit_width_for_len ?bl) w @ ?db @ pk"
  have packed: "decode_numeric_bitpacked ?ty ?packed rows = Ok cd"
    using parse_layout_ok [of "length dv" ?db w "bit_width_for_len ?bl" pk] dl dbl pk cd(1)
    by (simp add: decode_numeric_bitpacked_def width_byte_header)
  have "\<exists>page. encode_numeric_dict compress col buffer rows = Ok page \<and>
      (page = 0 # raw \<or> page = 1 # ?dict \<or> page = 2 # ?packed)"
    using dl by (simp add: encode_numeric_dict_def ty d raw(1) pk(1) Let_def)
  then obtain page where page: "encode_numeric_dict compress col buffer rows = Ok page"
    "page = 0 # raw \<or> page = 1 # ?dict \<or> page = 2 # ?packed" by blast
  from page(2) have "\<exists>cd. decode_num_dict_page ?ty page rows = Ok cd \<and> column_ints cd = Some (map sint vs)"
  proof (elim disjE)
    assume "page = 0 # raw" with raw show ?thesis by (simp add: decode_num_dict_page_def)
  next
    assume "page = 1 # ?dict" with dict cd show ?thesis by (simp add: decode_num_dict_page_def)
  next
    assume "page = 2 # ?packed" with packed cd show ?thesis by (simp add: decode_num_dict_page_def)
  qed
  with page(1) show ?thesis by blast
qed

end
