(* ===== verification/String_Block.thy ===== *)
theory String_Block
  imports String_Encode String_Decode Wcol_Roundtrip Bit_Packing
begin

text \<open>
  The token compression of string pages loses nothing: the decoder expands the token stream
  that the encoder wrote, with the dictionary that it wrote next to it.
\<close>

section \<open>Token streams\<close>

text \<open>Every token of the map has its id below 128 and is the token of that id.\<close>

definition tokens_ok :: "bytes list \<Rightarrow> (bytes \<rightharpoonup> u8) \<Rightarrow> bool" where
  "tokens_ok tokens m \<longleftrightarrow>
     (\<forall>s i. m s = Some i \<longrightarrow> i < 128 \<and> unat i < length tokens \<and> tokens ! unat i = s)"

lemma literal_run_le: "n \<le> 127 \<Longrightarrow> literal_run m rest n \<le> 127 \<and> literal_run m rest n \<le> n + length rest"
proof (induction rest arbitrary: n)
  case (Cons b rest)
  show ?case
  proof (cases "match_token m (b # rest) \<noteq> None \<or> n = 127")
    case False
    with Cons.prems have "n + 1 \<le> 127" by simp
    from Cons.IH [OF this] False show ?thesis by simp
  qed (use Cons.prems in auto)
qed simp

lemma literal_byte:
  assumes "n \<le> 127"
  shows "\<not> (128 + of_nat n :: u8) < 128" "unat ((128 + of_nat n :: u8) - 128) = n"
proof -
  have u: "unat (of_nat n :: u8) = n" using assms by (simp add: unat_of_nat take_bit_nat_eq_self)
  have "unat (128 + of_nat n :: u8) = 128 + n"
    using assms u by (simp add: unat_word_ariths)
  then show "\<not> (128 + of_nat n :: u8) < 128" by (simp add: word_less_nat_alt)
  show "unat ((128 + of_nat n :: u8) - 128) = n" using u by simp
qed

lemma token_stream_ok:
  "tokens_ok tokens m \<Longrightarrow> length out + length rest = expected \<Longrightarrow>
     token_stream_loop tokens expected out (encode_stream m rest) = Ok (out @ rest, [])"
proof (induction m rest arbitrary: out rule: encode_stream.induct)
  case (1 m rest)
  note ok = 1(3) and eq = 1(4)
  show ?case
  proof (cases "rest = []")
    case True
    then show ?thesis using eq by (simp add: encode_stream.simps token_stream_loop.simps)
  next
    case False
    then have short: "\<not> expected \<le> length out" using eq by (auto simp: neq_Nil_conv)
    show ?thesis
    proof (cases "match_token m rest")
      case (Some p)
      obtain i len where p: "p = (i, len)" by fastforce
      with Some have mt: "match_token m rest = Some (i, len)" by simp
      from match_token_Some [OF mt] have len: "len \<le> length rest" "m (take len rest) = Some i" by auto
      have i: "i < 128" "get tokens (unat i) = Some (take len rest)"
        using ok [unfolded tokens_ok_def, rule_format, OF len(2)] by auto
      have "encode_stream m rest = i # encode_stream m (drop len rest)"
        using False mt by (subst encode_stream.simps) simp
      moreover have "token_stream_loop tokens expected (out @ take len rest) (encode_stream m (drop len rest)) =
          Ok ((out @ take len rest) @ drop len rest, [])"
        by (rule 1(2) [OF False Some p [symmetric] ok]) (use len eq in simp)
      ultimately show ?thesis
        using short i eq len(1) by (subst token_stream_loop.simps) (simp del: get_eq_Some)
    next
      case None
      define n where "n = literal_run m rest 0"
      have n: "n \<le> 127" "n \<le> length rest" using literal_run_le [of 0 m rest] by (simp_all add: n_def)
      have "encode_stream m rest = (128 + of_nat n) # take n rest @ encode_stream m (drop n rest)"
        using False None by (subst encode_stream.simps) (simp add: n_def Let_def)
      moreover have "token_stream_loop tokens expected (out @ take n rest) (encode_stream m (drop n rest)) =
          Ok ((out @ take n rest) @ drop n rest, [])"
        by (rule 1(1) [OF False None n_def ok]) (use n eq in simp)
      ultimately show ?thesis
        using short n eq literal_byte [OF n(1)] by (subst token_stream_loop.simps) (simp add: Let_def)
    qed
  qed
qed

lemma decode_encode_stream:
  "tokens_ok tokens (token_map tokens) \<Longrightarrow>
     decode_full_token_stream (encode_token_stream blob tokens) tokens (length blob) = Ok blob"
  using token_stream_ok [of tokens "token_map tokens" "[]" blob "length blob"]
  by (simp add: decode_full_token_stream_def encode_token_stream_def)

section \<open>The token dictionary\<close>

lemma token_map_Some:
  assumes "token_map tokens s = Some i"
  shows "\<exists>k < length tokens. i = of_nat k \<and> tokens ! k = s"
proof -
  let ?f = "\<lambda>m (i, t). if 3 \<le> length t \<and> length t \<le> 8 then m(t \<mapsto> of_nat i) else m"
  have "\<exists>(k, t) \<in> set xs. i = of_nat k \<and> t = s" if "foldl ?f Map.empty xs s = Some i" for xs
    using that
  proof (induction xs rule: rev_induct)
    case (snoc x xs)
    obtain k t where x: "x = (k, t)" by fastforce
    show ?case
    proof (cases "3 \<le> length t \<and> length t \<le> 8 \<and> t = s")
      case True
      with snoc.prems x show ?thesis by auto
    next
      case False
      with snoc.prems x have "foldl ?f Map.empty xs s = Some i" by (auto split: if_splits)
      with snoc.IH show ?thesis by auto
    qed
  qed simp
  from this [of "zip [0..<length tokens] tokens"] assms show ?thesis
    by (auto simp: token_map_def set_zip)
qed

lemma tokens_ok_token_map: "length tokens = 128 \<Longrightarrow> tokens_ok tokens (token_map tokens)"
  unfolding tokens_ok_def
proof (intro allI impI)
  fix s i assume len: "length tokens = 128" and "token_map tokens s = Some i"
  then obtain k where k: "k < 128" "i = of_nat k" "tokens ! k = s"
    using token_map_Some [of tokens s i] by auto
  then have "unat i = k" by (simp add: unat_of_nat take_bit_nat_eq_self)
  with k len show "i < 128 \<and> unat i < length tokens \<and> tokens ! unat i = s"
    by (simp add: word_less_nat_alt)
qed

lemma token_offsets_ok:
  "token_offsets pos ts = Some offs \<Longrightarrow>
     offs = map of_nat (ends_from pos ts) \<and> pos + length (concat ts) < 65536 \<or> ts = [] \<and> offs = []"
proof (induction ts arbitrary: pos offs)
  case (Cons t ts)
  then obtain rest where r: "token_offsets (pos + length t) ts = Some rest" "pos + length t \<le> 65535"
    "offs = of_nat (pos + length t) # rest"
    by (auto split: if_splits)
  from Cons.IH [OF r(1)] r(2,3) show ?case by auto
qed simp

lemma parse_token_dict_ok:
  assumes len: "length tokens = 128" and offs: "token_offsets 0 tokens = Some offs"
  shows "parse_token_dict (concat (map le16 (0 # offs)) @ concat tokens) = Ok tokens"
proof -
  let ?bs = "concat (map le16 (0 # offs)) @ concat tokens"
  have o: "offs = map of_nat (ends_from 0 tokens)" "length (concat tokens) < 65536"
    using token_offsets_ok [OF offs] len by auto
  have lo: "length (0 # offs) = 129" using o(1) len by simp
  have lh: "length (concat (map le16 (0 # offs))) = 258"
    using b16.concat_length [of "0 # offs"] lo by simp
  have rd: "read_u16 ?bs (i * 2) = Ok ((0 # offs) ! i)" if "i < 129" for i
  proof -
    have "slice ?bs (i * 2) (Suc i * 2) = le16 ((0 # offs) ! i)"
      using that lo by (intro b16.slice_enc) simp
    moreover have "i * 2 + 2 \<le> length ?bs" using that lh by simp
    ultimately show ?thesis by (simp add: read_u16_def ac_simps)
  qed
  have m: "mapR (\<lambda>i. read_u16 ?bs (i * 2)) [0..<129] = Ok (0 # offs)"
  proof -
    have "mapR (\<lambda>i. read_u16 ?bs (i * 2)) [0..<129] = Ok (map (\<lambda>i. (0 # offs) ! i) [0..<129])"
      by (rule mapR_total) (use rd in simp)
    then show ?thesis using map_nth [of "0 # offs"] by (simp only: lo)
  qed
  have un: "unat ((0 # offs) ! i) = length (concat (take i tokens))" if "i \<le> 128" for i
  proof -
    have "(0 # offs) ! i = of_nat ((0 # ends_from 0 tokens) ! i)"
      using that o(1) len by (cases i) auto
    moreover have "(0 # ends_from 0 tokens) ! i = length (concat (take i tokens))"
      using nth_ends_from [of i tokens 0] that len by simp
    ultimately show ?thesis
      using length_concat_take_le [of i tokens] o(2) by (simp add: unat_of_nat16)
  qed
  have t: "(let start = unat ((0 # offs) ! i); e = unat ((0 # offs) ! (i + 1)) in
      if e < start \<or> length (concat tokens) < e then Err (Code (- 131))
      else Ok (slice (concat tokens) start e)) = Ok (tokens ! i)" if "i \<in> set [0..<128]" for i
    using that un [of i] un [of "i + 1"] length_concat_take_le [of "i + 1" tokens]
      length_concat_take_mono [of i tokens] slice_concat [of i tokens] len
    by (simp add: Let_def)
  have all: "mapR (\<lambda>i. let start = unat ((0 # offs) ! i); e = unat ((0 # offs) ! (i + 1)) in
      if e < start \<or> length (concat tokens) < e then Err (Code (- 131))
      else Ok (slice (concat tokens) start e)) [0..<128] = Ok tokens"
  proof -
    have "map (\<lambda>i. tokens ! i) [0..<128] = tokens" using map_nth [of tokens] by (simp only: len)
    then show ?thesis by (subst (2) \<open>map _ _ = tokens\<close> [symmetric]) (rule mapR_total, rule t)
  qed
  have "drop 258 ?bs = concat tokens" "\<not> length ?bs < 258" using lh by simp_all
  moreover have "2 * (128 + 1) = (258 :: nat)" by simp
  ultimately show ?thesis
    unfolding parse_token_dict_def by (simp only: m all bindR_simps if_False Let_def [of "258 :: nat"]
      Let_def [of "concat tokens"])
qed

lemma build_token_dict_ok:
  assumes "build_token_dict values = (tokens, db)" "tokens \<noteq> []"
  shows "length tokens = 128 \<and> parse_token_dict db = Ok tokens \<and> 0 < length db \<and> length db < 66000"
proof -
  let ?ts = "pick_tokens values"
  let ?tokens = "?ts @ replicate (128 - length ?ts) []"
  have le: "length ?ts \<le> 128" by (simp add: pick_tokens_def Let_def)
  obtain offs where offs: "token_offsets 0 ?tokens = Some offs" and tk: "tokens = ?tokens"
    and db: "db = concat (map le16 (0 # offs)) @ concat ?tokens"
    using assms by (auto simp: build_token_dict_def Let_def split: if_splits option.splits)
  have len: "length ?tokens = 128" using le by simp
  have o: "offs = map of_nat (ends_from 0 ?tokens)" "length (concat ?tokens) < 65536"
    using token_offsets_ok [OF offs] len by auto
  have "length (concat (map le16 (0 # offs))) = 258"
    using b16.concat_length [of "0 # offs"] o(1) len by simp
  then show ?thesis
    using parse_token_dict_ok [OF len offs] len o(2) unfolding tk db by simp
qed

section \<open>Blocks\<close>

text \<open>
  The layout of a string page: the preamble that the decoder reads from a block the encoder
  built has the row ids, the prefix and suffix lengths and the suffix bytes that went in.
\<close>

section \<open>Arrays of ids and lengths\<close>

lemma row_id_width_cases: "row_id_width_of n = 2 \<or> row_id_width_of n = 4"
  by (simp add: row_id_width_of_def)

lemma suffix_width_cases: "suffix_width_of lens = 2 \<or> suffix_width_of lens = 4"
  by (simp add: suffix_width_of_def)

lemma length_width_bytes: "w = 2 \<or> w = 4 \<Longrightarrow> length (width_bytes w v) = unat w"
  by (auto simp: width_bytes_def)

lemma length_width_array:
  "w = 2 \<or> w = 4 \<Longrightarrow> length (concat (map (width_bytes w) vs)) = unat w * length vs"
  by (induction vs) (auto simp: length_width_bytes)

lemma u32_u16_u32: "v \<le> 65535 \<Longrightarrow> ucast (ucast v :: u16) = (v :: u32)"
proof -
  assume "v \<le> 65535"
  then have "unat v < 2 ^ 16" by (simp add: word_le_nat_alt)
  then show ?thesis
    unfolding small_iff_bits by (intro bit_word_eqI) (auto simp: bit_ucast_iff not_le [symmetric])
qed

lemma read_width_bytes:
  assumes "w = 2 \<or> w = 4" "w = 2 \<Longrightarrow> v \<le> 65535" "occurs_at bs off (width_bytes w v)"
  shows "read_u32_advance bs off w = Ok (v, off + unat w)"
proof (cases "w = 2")
  case True
  with assms show ?thesis
    using occurs_at_le [OF assms(3)] by (auto simp: read_u32_advance_def width_bytes_def u32_u16_u32)
next
  case False
  with assms show ?thesis
    using occurs_at_le [OF assms(3)] by (auto simp: read_u32_advance_def width_bytes_def)
qed

lemma read_indices_ok:
  assumes "w = 2 \<or> w = 4"
  shows "\<forall>v \<in> set vs. (w = 2 \<longrightarrow> v \<le> 65535) \<and> unat v < mx \<Longrightarrow>
     occurs_at bs off (concat (map (width_bytes w) vs)) \<Longrightarrow>
     read_indices bs off (length vs) w mx = Ok (map unat vs)"
proof (induction vs arbitrary: off)
  case (Cons v vs)
  have "read_u32_advance bs off w = Ok (v, off + unat w)"
    using assms Cons.prems by (intro read_width_bytes) simp_all
  moreover have "read_indices bs (off + unat w) (length vs) w mx = Ok (map unat vs)"
    using Cons.prems length_width_bytes [OF assms] by (intro Cons.IH) simp_all
  ultimately show ?case using Cons.prems by simp
qed simp

lemma read_suffix_lens_ok:
  assumes "w = 2 \<or> w = 4"
  shows "\<forall>v \<in> set vs. w = 2 \<longrightarrow> v \<le> 65535 \<Longrightarrow>
     occurs_at bs off (concat (map (width_bytes w) vs)) \<Longrightarrow>
     read_suffix_lens bs off (length vs) w tot = Ok (map unat vs, tot + sum_list (map unat vs))"
proof (induction vs arbitrary: off tot)
  case (Cons v vs)
  have "read_u32_advance bs off w = Ok (v, off + unat w)"
    using assms Cons.prems by (intro read_width_bytes) simp_all
  moreover have "read_suffix_lens bs (off + unat w) (length vs) w (tot + unat v) =
      Ok (map unat vs, tot + unat v + sum_list (map unat vs))"
    using Cons.prems length_width_bytes [OF assms] by (intro Cons.IH) simp_all
  ultimately show ?case using Cons.prems by simp
qed simp

lemma read_lcps_ok:
  "occurs_at bs off (concat (map le16 vs)) \<Longrightarrow> read_lcps bs off (length vs) = Ok (map unat vs)"
  by (induction vs arbitrary: off) auto

section \<open>What the builder writes\<close>

lemma max_list_ge: "v \<in> set vs \<Longrightarrow> v \<le> max_list vs"
proof -
  have "x \<le> foldl max a vs \<and> (v \<in> set vs \<longrightarrow> v \<le> foldl max a vs)" if "x \<le> a" for x a :: u32
    using that
  proof (induction vs arbitrary: x a)
    case (Cons y vs)
    from Cons.IH [of x "max a y"] Cons.IH [of y "max a y"] Cons.prems show ?case
      by (auto simp: le_max_iff_disj)
  qed simp
  then show "v \<in> set vs \<Longrightarrow> v \<le> max_list vs" unfolding max_list_def by blast
qed

lemma suffix_lens_fit: "suffix_width_of lens = 2 \<Longrightarrow> v \<in> set lens \<Longrightarrow> v \<le> 65535"
  using max_list_ge [of v lens] by (auto simp: suffix_width_of_def split: if_splits)

lemma suffix_bytes_ok:
  "mapR (suffix_len_bytes (suffix_width_of lens)) lens =
     Ok (map (width_bytes (suffix_width_of lens)) lens)"
  by (rule mapR_total) (use suffix_lens_fit in \<open>auto simp: suffix_len_bytes_def not_le [symmetric]\<close>)

lemma row_bytes_ok:
  "\<forall>v \<in> set ids. v < of_nat n \<Longrightarrow> mapR (row_id_bytes n w) ids = Ok (map (width_bytes w) ids)"
  by (rule mapR_total) (auto simp: row_id_bytes_def)

lemma row_ids_fit:
  fixes v :: u32
  assumes "row_id_width_of n = 2" "v < of_nat n" "n < 2 ^ 32"
  shows "v \<le> 65535"
proof -
  have "of_nat (n - 1) \<le> (65535 :: u32)"
    using assms(1) by (simp add: row_id_width_of_def split: if_splits)
  then have "n - 1 \<le> 65535" using assms(3) by (simp add: word_le_nat_alt unat_of_nat32)
  moreover have "unat v < n" using assms(2,3) by (simp add: word_less_nat_alt unat_of_nat32)
  ultimately show ?thesis by (simp add: word_le_nat_alt)
qed

definition opt_bytes :: "bytes option \<Rightarrow> bytes" where
  "opt_bytes d = (case d of Some b \<Rightarrow> b | None \<Rightarrow> [])"

lemma suffix_flag:
  "w = 2 \<or> w = 4 \<Longrightarrow> (w OR 0x80) AND 0x80 \<noteq> (0 :: u8)"
  "w = 2 \<or> w = 4 \<Longrightarrow> (w OR 0x80) AND NOT 0x80 = w"
  "w = 2 \<or> w = 4 \<Longrightarrow> w AND 0x80 = (0 :: u8) \<and> w AND 0x40 = 0 \<and> w AND 0x3f = w"
  by auto

section \<open>The preamble\<close>

lemma preamble_ok:
  assumes out: "build_block_v1 rows r2u lcps lens data d = Ok out"
    and rows: "rows \<le> 65535" "length r2u = rows"
    and n: "length lens = length lcps" "length lcps \<le> rows" "0 < rows \<Longrightarrow> 0 < length lcps"
    and ids: "\<forall>v \<in> set r2u. v < of_nat (length lcps)"
    and plain: "d = None \<Longrightarrow> data = blob \<and> length blob = sum_list (map unat lens)"
    and packed: "\<And>db. d = Some db \<Longrightarrow> 0 < length db \<and> length db < 66000 \<and>
       (\<exists>toks. toks \<noteq> [] \<and> parse_token_dict db = Ok toks \<and>
          decode_full_token_stream data toks (sum_list (map unat lens)) = Ok blob)"
  shows "\<exists>data_off. decode_string_preamble out rows =
     Ok \<lparr> sp_indices = map unat r2u, sp_lcps = map unat lcps, sp_suffix_lens = map unat lens,
          sp_suffix_blob = blob, sp_data_off = data_off, sp_data_len = length data,
          sp_rows = rows, sp_value_count = length lcps \<rparr>"
proof -
  let ?n = "length lcps" and ?w1 = "row_id_width_of (length lcps)" and ?w2 = "suffix_width_of lens"
  let ?db = "opt_bytes d"
  let ?po = "32 :: nat"
  let ?lo = "32 + rows * unat ?w1"
  let ?so = "?lo + ?n * 2"
  let ?do = "?so + ?n * unat ?w2"
  let ?to = "?do + length ?db"
  have w1: "?w1 = 2 \<or> ?w1 = 4" by (rule row_id_width_cases)
  have w2: "?w2 = 2 \<or> ?w2 = 4" by (rule suffix_width_cases)
  have w1n: "unat ?w1 = 2 \<or> unat ?w1 = 4" and w2n: "unat ?w2 = 2 \<or> unat ?w2 = 4"
    using w1 w2 by auto
  have dbl: "length ?db < 66000" using packed by (cases d) (auto simp: opt_bytes_def)
  have "rows * unat ?w1 \<le> 65535 * 4" using rows(1) w1n by (intro mult_le_mono) auto
  moreover have "?n * unat ?w2 \<le> 65535 * 4" using rows(1) n(2) w2n by (intro mult_le_mono) auto
  ultimately have small: "?to < 2 ^ 32" using dbl n(2) rows(1) by simp
  have dl: "length data < 2 ^ 32" using out by (auto simp: build_block_v1_def Let_def split: if_splits)
  have dlen: "(case d of Some x \<Rightarrow> length x | None \<Rightarrow> 0) = length ?db"
    by (simp add: opt_bytes_def split: option.splits)
  have casts: "of_nat rows * ucast ?w1 = (of_nat (rows * unat ?w1) :: u32)"
    "of_nat ?n * ucast ?w2 = (of_nat (?n * unat ?w2) :: u32)"
    using w1 w2 by auto
  have "out = (le16 (of_nat rows) @ [?w1, ?w2 OR 0x80] @ le32 (of_nat ?po) @
      le32 (of_nat ?lo) @ le32 (of_nat ?so) @ le32 (of_nat ?to) @ le32 (of_nat (length data)) @
      le32 (of_nat ?do) @ le32 (of_nat (length ?db))) @
      concat (map (width_bytes ?w1) r2u) @ concat (map le16 lcps) @
      concat (map (width_bytes ?w2) lens) @ ?db @ data"
    using out dl unfolding build_block_v1_def Let_def dlen casts
    by (simp add: row_bytes_ok [OF ids] suffix_bytes_ok STRING_LAYOUT_OPTION_A_FLAG_def
        opt_bytes_def ac_simps)
  then have oc: "occurs_at out 0 \<dots>" by (metis occurs_at_here)
  have lens': "length (concat (map (width_bytes ?w1) r2u)) = rows * unat ?w1"
    "length (concat (map le16 lcps)) = ?n * 2"
    "length (concat (map (width_bytes ?w2) lens)) = ?n * unat ?w2"
    using length_width_array [OF w1, of r2u] length_width_array [OF w2, of lens]
      b16.concat_length [of lcps] rows(2) n(1) by (simp_all add: mult.commute)
  have hd: "read_u16 out 0 = Ok (of_nat rows)" "out ! 2 = ?w1" "out ! 3 = ?w2 OR 0x80"
    "read_u32 out 4 = Ok (of_nat ?po)" "read_u32 out 8 = Ok (of_nat ?lo)"
    "read_u32 out 12 = Ok (of_nat ?so)" "read_u32 out 16 = Ok (of_nat ?to)"
    "read_u32 out 20 = Ok (of_nat (length data))" "read_u32 out 24 = Ok (of_nat ?do)"
    "read_u32 out 28 = Ok (of_nat (length ?db))"
    using oc by (simp_all add: eval_nat_numeral del: of_nat_add of_nat_mult)
  have arr: "occurs_at out 32 (concat (map (width_bytes ?w1) r2u))"
    "occurs_at out ?lo (concat (map le16 lcps))"
    "occurs_at out ?so (concat (map (width_bytes ?w2) lens))"
    "occurs_at out ?do ?db" "occurs_at out ?to data"
    using oc by (simp_all add: lens' add.assoc)
  have raw_len: "?to + length data \<le> length out" using occurs_at_le [OF arr(5)] .
  have un: "unat (of_nat rows :: u16) = rows" "unat (of_nat ?po :: u32) = ?po"
    "unat (of_nat ?lo :: u32) = ?lo" "unat (of_nat ?so :: u32) = ?so" "unat (of_nat ?to :: u32) = ?to"
    "unat (of_nat (length data) :: u32) = length data" "unat (of_nat ?do :: u32) = ?do"
    "unat (of_nat (length ?db) :: u32) = length ?db"
    using rows(1) small dl by (simp_all only: unat_of_nat16 unat_of_nat32)
  have vc: "(?so - ?lo) div 2 = ?n" by simp
  have val: "validate_string_header_option_a (length out) ?po ?lo ?so ?do ?to (length data)
      (length ?db) rows ?w1 ?w2 = Ok ()"
  proof -
    have "\<not> length out < ?po + unat ?w1 * rows" using raw_len by (simp add: mult.commute)
    then show ?thesis
      using raw_len w2n n(1) by (auto simp: validate_string_header_option_a_def Let_def mult.commute)
  qed
  have cnt: "validate_option_a_row_count out rows = Ok ()"
    using raw_len hd(1) un(1) by (simp add: validate_option_a_row_count_def)
  have idx: "read_indices out ?po rows ?w1 (max ?n 1) = Ok (map unat r2u)"
  proof -
    have "\<forall>v \<in> set r2u. (?w1 = 2 \<longrightarrow> v \<le> 65535) \<and> unat v < max ?n 1"
      using ids row_ids_fit [of ?n] n(2) rows(1)
      by (auto simp: word_less_nat_alt unat_of_nat32)
    then show ?thesis using read_indices_ok [OF w1 _ arr(1)] rows(2) by simp
  qed
  have lcp: "read_lcps out ?lo ?n = Ok (map unat lcps)" by (rule read_lcps_ok [OF arr(2)])
  have suf: "read_suffix_lens out ?so ?n ?w2 0 = Ok (map unat lens, sum_list (map unat lens))"
    using read_suffix_lens_ok [OF w2 _ arr(3), of 0] suffix_lens_fit [of lens] n(1) by simp
  have dat: "slice out ?to (?to + length data) = data" "slice out ?do (?do + length ?db) = ?db"
    using arr(4,5) by (simp_all only: occurs_at_slice)
  have i23: "index out 2 = Ok ?w1" "index out 3 = Ok (?w2 OR 0x80)"
    using raw_len hd(2,3) by (simp_all add: index_def)
  have bits: "\<not> (?w1 AND 0x80 \<noteq> 0 \<or> ?w1 AND 0x40 \<noteq> 0)" "?w1 AND 0x3f = ?w1"
    "(?w2 OR 0x80) AND 0x80 \<noteq> 0" "(?w2 OR 0x80) AND NOT 0x80 = ?w2"
    "\<not> (?w1 \<noteq> 2 \<and> ?w1 \<noteq> 4)" "\<not> (?w2 \<noteq> 2 \<and> ?w2 \<noteq> 4)"
    using suffix_flag w1 w2 by auto
  have ne: "\<not> (?n = 0 \<and> 0 < rows)" using n(3) by auto
  let ?res = "\<lparr> sp_indices = map unat r2u, sp_lcps = map unat lcps, sp_suffix_lens = map unat lens,
          sp_suffix_blob = blob, sp_data_off = ?to, sp_data_len = length data,
          sp_rows = rows, sp_value_count = length lcps \<rparr>"
  have "decode_string_preamble out rows =
      bindR (if 0 < length ?db then parse_token_dict ?db else Ok []) (\<lambda>token_dict.
       if token_dict = [] \<and> sum_list (map unat lens) \<noteq> length data then Err (Code (- 117))
       else bindR (if token_dict = [] then
              (if length data \<noteq> sum_list (map unat lens) then Err (Code (- 119)) else Ok data)
            else decode_full_token_stream data token_dict (sum_list (map unat lens))) (\<lambda>suffix_blob.
       Ok (?res\<lparr> sp_suffix_blob := suffix_blob \<rparr>)))"
    unfolding decode_string_preamble_def
    by (simp only: cnt i23 hd bindR_simps bits if_False if_True Let_def un val vc ne idx lcp suf
        prod.case dat string_preamble.update_convs simp_thms)
  also have "\<dots> = Ok ?res"
  proof (cases d)
    case None
    then show ?thesis using plain by (simp add: opt_bytes_def)
  next
    case (Some db)
    then show ?thesis using packed [OF Some] by (auto simp: opt_bytes_def)
  qed
  finally show ?thesis by blast
qed

end
