(* ===== verification/String_Facts.thy ===== *)
theory String_Facts
  imports String_Block
begin

text \<open>
  Round trip of a string page: the ids that the decoder returns name, in the dictionary it
  extends, the strings that the encoder was given.
\<close>

section \<open>Front coding\<close>

text \<open>\<open>front_coded prev ls ss us\<close>: from \<open>prev\<close> on, the values \<open>us\<close> are coded by the shared
  prefix lengths \<open>ls\<close> and the suffixes \<open>ss\<close>.\<close>

fun front_coded :: "bytes \<Rightarrow> nat list \<Rightarrow> bytes list \<Rightarrow> bytes list \<Rightarrow> bool" where
  "front_coded prev [] [] [] = True"
| "front_coded prev (l # ls) (s # ss) (u # us) =
     (l \<le> length prev \<and> u = take l prev @ s \<and> front_coded u ls ss us)"
| "front_coded _ _ _ _ = False"

lemma front_coded_length:
  "front_coded prev ls ss us \<Longrightarrow> length ls = length us \<and> length ss = length us"
  by (induction prev ls ss us rule: front_coded.induct) auto

lemma front_coded_snoc:
  "front_coded prev ls ss us \<Longrightarrow> l \<le> length (last (prev # us)) \<Longrightarrow>
     front_coded prev (ls @ [l]) (ss @ [s]) (us @ [take l (last (prev # us)) @ s])"
  by (induction prev ls ss us rule: front_coded.induct) auto

lemma common_prefix_len_take: "take (common_prefix_len a b) a = take (common_prefix_len a b) b"
  by (induction a b rule: common_prefix_len.induct) auto

lemma common_prefix_len_le: "common_prefix_len a b \<le> length a \<and> common_prefix_len a b \<le> length b"
  by (induction a b rule: common_prefix_len.induct) auto

text \<open>The closure of the reconstruction, run over the values in order.\<close>

fun run_build :: "('s \<Rightarrow> bytes \<Rightarrow> ('t \<times> 's) result) \<Rightarrow> 's \<Rightarrow> bytes list \<Rightarrow> ('t list \<times> 's) result" where
  "run_build build s [] = Ok ([], s)"
| "run_build build s (u # us) =
     bindR (build s u) (\<lambda>(x, s). bindR (run_build build s us) (\<lambda>(xs, s). Ok (x # xs, s)))"

lemma reconstruct_loop_ok:
  "front_coded prev ls ss us \<Longrightarrow>
     reconstruct_loop (zip ls (map length ss)) (pre @ concat ss) (length pre) prev build s =
     bindR (run_build build s us) (\<lambda>(xs, s). Ok (xs, length pre + length (concat ss), s))"
proof (induction prev ls ss us arbitrary: pre s rule: front_coded.induct)
  case (2 prev l ls sf ss u us)
  then have fc: "front_coded u ls ss us" and u: "u = take l prev @ sf" "l \<le> length prev" by auto
  have "slice (pre @ concat (sf # ss)) (length pre) (length pre + length sf) = sf"
    by (rule occurs_at_slice) (simp_all add: occurs_at_middle)
  moreover have "reconstruct_loop (zip ls (map length ss)) (pre @ concat (sf # ss))
      (length pre + length sf) u build s' =
      bindR (run_build build s' us) (\<lambda>(xs, s). Ok (xs, length pre + length (concat (sf # ss)), s))" for s'
    using "2.IH" [OF fc, of "pre @ sf" s'] by (simp add: add.assoc)
  ultimately show ?case
    using u by (cases "build s u") (auto simp: Let_def bindR_def split: sum.splits prod.splits)
qed (auto simp: bindR_def)

lemma reconstruct_ok:
  assumes "front_coded [] ls ss us" "n = length us"
  shows "reconstruct_unique_values ls (map length ss) (concat ss) n build s = run_build build s us"
proof -
  have len: "length ls = n" "length ss = n" using front_coded_length [OF assms(1)] assms(2) by auto
  have "reconstruct_loop (zip ls (map length ss)) (concat ss) 0 [] build s =
     bindR (run_build build s us) (\<lambda>(xs, s). Ok (xs, length (concat ss), s))"
    using reconstruct_loop_ok [OF assms(1), of "[]"] by simp
  with len show ?thesis
    by (cases "run_build build s us") (auto simp: reconstruct_unique_values_def)
qed

section \<open>The row loop of the encoder\<close>

definition string_inv :: "bytes list \<Rightarrow> nat list \<Rightarrow> nat \<Rightarrow> nat \<Rightarrow> string_state \<Rightarrow> bool" where
  "string_inv values perm rows k st \<longleftrightarrow>
     length (ss_row_to_unique st) = rows \<and>
     (ss_unique st = [] \<longleftrightarrow> k = 0) \<and> length (ss_unique st) \<le> k \<and>
     ss_prev st = last ([] # ss_unique st) \<and> set (ss_unique st) \<subseteq> set values \<and>
     (\<exists>ss. ss_blob st = concat ss \<and> ss_suffix_lens st = map (\<lambda>s. of_nat (length s)) ss \<and>
        front_coded [] (map unat (ss_lcps st)) ss (ss_unique st)) \<and>
     length (ss_blob st) \<le> sum_list (map (\<lambda>i. length (values ! i)) (take k perm)) \<and>
     (\<forall>j < k. unat (ss_row_to_unique st ! (perm ! j)) < length (ss_unique st) \<and>
        ss_unique st ! unat (ss_row_to_unique st ! (perm ! j)) = values ! (perm ! j))"

lemma string_row_ok:
  assumes inv: "string_inv values perm rows k st" and k: "k < length perm"
    and perm: "distinct perm" "set perm = {..<rows}" "length values = rows" and rows: "rows \<le> 65535"
    and short: "\<forall>v \<in> set values. length v \<le> 65535"
  shows "\<exists>st'. string_row values st (perm ! k) = Ok st' \<and> string_inv values perm rows (Suc k) st'"
proof -
  let ?i = "perm ! k" and ?u = "ss_unique st" and ?r = "ss_row_to_unique st"
  have i: "?i < rows" using k perm(2) by (metis lessThan_iff nth_mem)
  have v: "values ! ?i \<in> set values" "length (values ! ?i) \<le> 65535"
    using i perm(3) short by simp_all
  have kr: "k < rows" using k perm(1,2) distinct_card [OF perm(1)] by simp
  have other: "perm ! j \<noteq> ?i" if "j < k" for j
    using that k perm(1) by (simp add: nth_eq_iff_index_eq)
  from inv have I: "length ?r = rows" "?u = [] \<longleftrightarrow> k = 0" "length ?u \<le> k"
    "ss_prev st = last ([] # ?u)" "set ?u \<subseteq> set values"
    "length (ss_blob st) \<le> sum_list (map (\<lambda>i. length (values ! i)) (take k perm))"
    "\<And>j. j < k \<Longrightarrow> unat (?r ! (perm ! j)) < length ?u \<and> ?u ! unat (?r ! (perm ! j)) = values ! (perm ! j)"
    unfolding string_inv_def by blast+
  from inv obtain ss where S: "ss_blob st = concat ss"
    "ss_suffix_lens st = map (\<lambda>s. of_nat (length s)) ss"
    "front_coded [] (map unat (ss_lcps st)) ss ?u"
    unfolding string_inv_def by blast
  have tk: "take (Suc k) perm = take k perm @ [?i]" using k by (rule take_Suc_conv_app_nth)
  have un: "unat (of_nat n :: u32) = n" if "n \<le> rows" for n
    using that rows by (intro unat_of_nat32) simp
  show ?thesis
  proof (cases "?u \<noteq> [] \<and> values ! ?i = ss_prev st")
    case True
    let ?id = "of_nat (length ?u - 1) :: u32"
    let ?st = "st\<lparr> ss_row_to_unique := ?r[?i := ?id] \<rparr>"
    have id: "unat ?id = length ?u - 1" using I(3) kr by (intro un) simp
    have last: "?u ! (length ?u - 1) = values ! ?i" using True I(4) by (simp add: last_conv_nth)
    have "unat (?r[?i := ?id] ! (perm ! j)) < length ?u \<and>
        ?u ! unat (?r[?i := ?id] ! (perm ! j)) = values ! (perm ! j)" if "j < Suc k" for j
      using that I(1) I(7) [of j] id last True i other [of j]
      by (cases "j = k") (auto simp: less_Suc_eq)
    then have "string_inv values perm rows (Suc k) ?st"
      unfolding string_inv_def using I S True tk by auto
    then show ?thesis using True by (auto simp: string_row_def Let_def)
  next
    case False
    define l where "l = (if ?u = [] then 0 else common_prefix_len (ss_prev st) (values ! ?i))"
    define sf where "sf = drop l (values ! ?i)"
    have l: "l \<le> length (values ! ?i)" "l \<le> length (last ([] # ?u))"
      "take l (last ([] # ?u)) = take l (values ! ?i)"
      using common_prefix_len_le [of "ss_prev st" "values ! ?i"]
        common_prefix_len_take [of "ss_prev st" "values ! ?i"] I(4)
      by (auto simp: l_def)
    have l16: "unat (of_nat l :: u16) = l" using l(1) v(2) by (simp add: unat_of_nat16)
    have vi: "take l (last ([] # ?u)) @ sf = values ! ?i" using l(3) by (simp add: sf_def)
    have slen: "length sf \<le> length (values ! ?i)" by (simp add: sf_def)
    let ?id = "of_nat (length ?u) :: u32"
    let ?st = "\<lparr> ss_row_to_unique = ?r[?i := ?id], ss_unique = ?u @ [values ! ?i],
        ss_lcps = ss_lcps st @ [of_nat l], ss_suffix_lens = ss_suffix_lens st @ [of_nat (length sf)],
        ss_blob = ss_blob st @ sf, ss_prev = values ! ?i \<rparr>"
    have id: "unat ?id = length ?u" using I(3) kr by (intro un) simp
    have fc: "front_coded [] (map unat (ss_lcps st @ [of_nat l])) (ss @ [sf]) (?u @ [values ! ?i])"
      using front_coded_snoc [OF S(3) l(2), of sf] vi l16 by simp
    have look: "unat (?r[?i := ?id] ! (perm ! j)) < length (?u @ [values ! ?i]) \<and>
        (?u @ [values ! ?i]) ! unat (?r[?i := ?id] ! (perm ! j)) = values ! (perm ! j)" if "j < Suc k" for j
      using that I(1) I(7) [of j] id i other [of j]
      by (cases "j = k") (auto simp: less_Suc_eq nth_append)
    have "\<exists>ss'. ss_blob ?st = concat ss' \<and> ss_suffix_lens ?st = map (\<lambda>s. of_nat (length s)) ss' \<and>
        front_coded [] (map unat (ss_lcps ?st)) ss' (ss_unique ?st)"
      by (rule exI [of _ "ss @ [sf]"]) (use fc S in simp)
    then have "string_inv values perm rows (Suc k) ?st"
      unfolding string_inv_def using I v tk look slen by auto
    moreover have "string_row values st ?i = Ok ?st"
    proof -
      have "\<not> 65535 < l" "\<not> 2 ^ 32 \<le> length sf" using l(1) v(2) slen by simp_all
      then show ?thesis
        using False unfolding string_row_def Let_def l_def [symmetric] sf_def [symmetric] by auto
    qed
    ultimately show ?thesis by blast
  qed
qed

section \<open>The page\<close>

lemma build_block_v1_total:
  assumes "\<forall>v \<in> set r2u. v < of_nat (length lcps)" "length data < 2 ^ 32"
  shows "\<exists>out. build_block_v1 rows r2u lcps lens data d = Ok out"
  using assms(2) unfolding build_block_v1_def Let_def
  by (simp add: row_bytes_ok [OF assms(1)] suffix_bytes_ok)

text \<open>What a page of the values promises its reader.\<close>

lemma encode_string_ok:
  assumes vs: "b_values buffer = V_String values" "length values = rows" and rows: "rows \<le> 65535"
    and short: "\<forall>v \<in> set values. length v \<le> 65535"
    and tot: "sum_list (map length values) < 2 ^ 32"
  shows "\<exists>page p us. encode_string buffer rows = Ok page \<and> decode_string_preamble page rows = Ok p \<and>
     sp_rows p = rows \<and> sp_value_count p = length us \<and> length us \<le> rows \<and> set us \<subseteq> set values \<and>
     (\<forall>i < rows. sp_indices p ! i < length us \<and> us ! (sp_indices p ! i) = values ! i) \<and>
     length (sp_indices p) = rows \<and>
     (\<exists>ss. sp_suffix_lens p = map length ss \<and> sp_suffix_blob p = concat ss \<and>
        front_coded [] (sp_lcps p) ss us)"
proof -
  define perm where "perm = sort_by (\<lambda>a b. lex_le (values ! a) (values ! b)) [0..<rows]"
  have perm: "distinct perm" "set perm = {..<rows}" "length perm = rows"
    by (auto simp: perm_def)
  define st0 where "st0 = \<lparr> ss_row_to_unique = replicate rows 0, ss_unique = [], ss_lcps = [],
     ss_suffix_lens = [], ss_blob = [], ss_prev = [] \<rparr>"
  have "\<exists>st. foldR (string_row values) st0 perm = Ok st \<and> string_inv values perm rows (length perm) st"
  proof (rule foldR_total)
    show "string_inv values perm rows 0 st0"
      unfolding string_inv_def st0_def by (auto intro: exI [of _ "[]"])
    fix i st assume "i < length perm" "string_inv values perm rows i st"
    then show "\<exists>st'. string_row values st (perm ! i) = Ok st' \<and> string_inv values perm rows (Suc i) st'"
      using string_row_ok perm(1,2) vs(2) rows short by blast
  qed
  then obtain st where st: "foldR (string_row values) st0 perm = Ok st"
    and inv: "string_inv values perm rows rows st" by (auto simp: perm(3))
  let ?u = "ss_unique st" and ?r = "ss_row_to_unique st" and ?l = "ss_lcps st"
  from inv have I: "length ?r = rows" "?u = [] \<longleftrightarrow> rows = 0" "length ?u \<le> rows" "set ?u \<subseteq> set values"
    "length (ss_blob st) \<le> sum_list (map (\<lambda>i. length (values ! i)) (take rows perm))"
    "\<And>j. j < rows \<Longrightarrow> unat (?r ! (perm ! j)) < length ?u \<and> ?u ! unat (?r ! (perm ! j)) = values ! (perm ! j)"
    unfolding string_inv_def by blast+
  from inv obtain ss where S: "ss_blob st = concat ss"
    "ss_suffix_lens st = map (\<lambda>s. of_nat (length s)) ss" "front_coded [] (map unat ?l) ss ?u"
    unfolding string_inv_def by blast
  have fl: "length ?l = length ?u" "length ss = length ?u" using front_coded_length [OF S(3)] by simp_all
  have look: "unat (?r ! i) < length ?u \<and> ?u ! unat (?r ! i) = values ! i" if i: "i < rows" for i
  proof -
    obtain j where "j < rows" "perm ! j = i" using i perm by (metis in_set_conv_nth lessThan_iff)
    then show ?thesis using I(6) by blast
  qed
  have blob: "length (ss_blob st) < 2 ^ 32"
  proof -
    have "sum_list (map (\<lambda>i. length (values ! i)) perm) = sum (\<lambda>i. length (values ! i)) (set perm)"
      using perm(1) by (rule sum_list_distinct_conv_sum_set)
    also have "\<dots> = sum_list (map (\<lambda>i. length (values ! i)) [0..<rows])"
      by (simp add: perm(2) interv_sum_list_conv_sum_set_nat atLeast0LessThan)
    also have "map (\<lambda>i. length (values ! i)) [0..<rows] = map length values"
      using vs(2) by (intro nth_equalityI) simp_all
    finally show ?thesis using I(5) tot perm(3) by simp
  qed
  have slen: "length s < 2 ^ 32" if "s \<in> set ss" for s
  proof -
    from that obtain a b where "ss = a @ s # b" by (auto simp: in_set_conv_decomp)
    then have "length s \<le> length (concat ss)" by simp
    then show ?thesis using blob S(1) by simp
  qed
  have ul: "map unat (ss_suffix_lens st) = map length ss"
    using slen by (simp add: S(2) unat_of_nat32)
  have bl: "length (ss_blob st) = sum_list (map unat (ss_suffix_lens st))"
    unfolding ul by (simp add: S(1) length_concat)
  have ids: "\<forall>v \<in> set ?r. v < of_nat (length ?l)"
  proof
    fix v assume "v \<in> set ?r"
    then obtain i where "i < rows" "v = ?r ! i" by (metis I(1) in_set_conv_nth)
    then show "v < of_nat (length ?l)"
      using look [of i] I(3) rows fl(1) by (simp add: word_less_nat_alt unat_of_nat32)
  qed
  have pos: "0 < length ?l" if "0 < rows" using that I(2) fl(1) by simp
  obtain v1 where v1: "build_block_v1 rows ?r ?l (ss_suffix_lens st) (ss_blob st) None = Ok v1"
    using build_block_v1_total [OF ids blob] by blast
  let ?p = "\<lambda>off n. \<lparr> sp_indices = map unat ?r, sp_lcps = map unat ?l, sp_suffix_lens = map length ss,
      sp_suffix_blob = ss_blob st, sp_data_off = off, sp_data_len = n, sp_rows = rows,
      sp_value_count = length ?u \<rparr>"
  have lens: "length (ss_suffix_lens st) = length ?l" using fl by (simp add: S(2))
  have d1: "\<exists>off n. decode_string_preamble v1 rows = Ok (?p off n)"
    using preamble_ok [OF v1 rows I(1) lens _ pos ids, of "ss_blob st"] fl I(3) bl ul by auto
  obtain v2 where v2: "build_block_v2 rows ?u ?r ?l (ss_suffix_lens st) (ss_blob st) = Ok v2"
    and d2: "\<And>b. v2 = Some b \<Longrightarrow> \<exists>off n. decode_string_preamble b rows = Ok (?p off n)"
  proof -
    obtain toks db where td: "build_token_dict ?u = (toks, db)" by fastforce
    let ?enc = "encode_token_stream (ss_blob st) toks"
    show ?thesis
    proof (cases "toks = [] \<or> length (ss_blob st) \<le> length ?enc")
      case True
      then show ?thesis using that [of None] by (auto simp: build_block_v2_def td)
    next
      case False
      then have "length ?enc < 2 ^ 32" using blob by simp
      then obtain b where b: "build_block_v1 rows ?r ?l (ss_suffix_lens st) ?enc (Some db) = Ok b"
        using build_block_v1_total [OF ids] by blast
      have tk: "length toks = 128 \<and> parse_token_dict db = Ok toks \<and> 0 < length db \<and> length db < 66000"
        using build_token_dict_ok [OF td] False by simp
      have ds: "decode_full_token_stream ?enc toks (length (ss_blob st)) = Ok (ss_blob st)"
        using tk by (intro decode_encode_stream tokens_ok_token_map) simp
      have "\<exists>off n. decode_string_preamble b rows = Ok (?p off n)"
        using preamble_ok [OF b rows I(1) lens _ pos ids, of "ss_blob st"] fl I(3) bl ul tk ds False
        by auto
      then show ?thesis using that [of "Some b"] b False by (auto simp: build_block_v2_def td)
    qed
  qed
  let ?page = "case v2 of Some b \<Rightarrow> if length b < length v1 then b else v1 | None \<Rightarrow> v1"
  have "encode_string buffer rows = Ok ?page"
    using vs rows st v1 v2 unfolding encode_string_def st0_def perm_def by (simp add: Let_def)
  moreover
  have "\<exists>off n. decode_string_preamble ?page rows = Ok (?p off n)"
  proof (cases v2)
    case (Some b)
    then show ?thesis using d1 d2 [OF Some] by (cases "length b < length v1") simp_all
  qed (use d1 in simp)
  then obtain off n where "decode_string_preamble ?page rows = Ok (?p off n)" by blast
  moreover have "map unat ?r ! i < length ?u \<and> ?u ! (map unat ?r ! i) = values ! i" if "i < rows" for i
    using look [OF that] that I(1) by simp
  ultimately show ?thesis
    using I(1,3,4) S(1,3)
    by (intro exI [of _ ?page] exI [of _ "?p off n"] exI [of _ ?u]) auto
qed

section \<open>Interning\<close>

text \<open>The lookup table of a dictionary holds exactly its values, at their positions.\<close>

definition dict_ok :: "dictionary \<Rightarrow> bool" where
  "dict_ok d \<longleftrightarrow>
     (\<forall>v i. map_of (d_lookup d) v = Some i \<longrightarrow>
        unat i < length (d_values d) \<and> d_values d ! unat i = v) \<and>
     (\<forall>v \<in> set (d_values d). map_of (d_lookup d) v \<noteq> None)"

definition extends :: "dictionary \<Rightarrow> dictionary \<Rightarrow> bool" where
  "extends d d' \<longleftrightarrow> (\<exists>vs. d_values d' = d_values d @ vs)"

lemma extends_refl [simp]: "extends d d" by (simp add: extends_def)

lemma extends_trans: "extends a b \<Longrightarrow> extends b c \<Longrightarrow> extends a c"
  by (auto simp: extends_def)

lemma dict_ok_new [simp]: "dict_ok dictionary_new"
  by (simp add: dict_ok_def dictionary_new_def)

lemma intern_value_ok:
  assumes "dict_ok d" "utf8_valid v" "length (d_values d) < 2 ^ 32 - 1"
  shows "\<exists>i d'. intern_value h d v = Ok (i, d') \<and> dict_ok d' \<and> extends d d' \<and>
     get (d_values d') (unat i) = Some v \<and> length (d_values d') \<le> Suc (length (d_values d))"
proof (cases "map_of (d_lookup d) v")
  case (Some i)
  with assms show ?thesis by (auto simp: intern_value_def from_utf8_def dict_ok_def)
next
  case None
  let ?n = "length (d_values d)"
  have u: "unat (of_nat ?n :: u32) = ?n" using assms(3) by (intro unat_of_nat32) simp
  have new: "v \<notin> set (d_values d)" using assms(1) None by (auto simp: dict_ok_def)
  let ?d = "d\<lparr> d_values := d_values d @ [v], d_lookup := (v, of_nat ?n) # d_lookup d,
      d_hash_cache := d_hash_cache d @ [h v] \<rparr>"
  have "dict_ok ?d"
    using assms(1) u unfolding dict_ok_def by (auto simp: nth_append less_Suc_eq)
  with None u assms(2) show ?thesis
    by (auto simp: intern_value_def from_utf8_def Let_def extends_def)
qed

lemma run_intern_ok:
  assumes "dict_ok d" "\<forall>u \<in> set us. utf8_valid u" "length (d_values d) + length us < 2 ^ 32"
  shows "\<exists>ids d'. run_build (intern_value h) d us = Ok (ids, d') \<and> dict_ok d' \<and> extends d d' \<and>
     length ids = length us \<and>
     (\<forall>k < length us. get (d_values d') (unat (ids ! k)) = Some (us ! k))"
  using assms
proof (induction us arbitrary: d)
  case (Cons u us)
  obtain i d1 where 1: "intern_value h d u = Ok (i, d1)" "dict_ok d1" "extends d d1"
    "get (d_values d1) (unat i) = Some u" "length (d_values d1) \<le> Suc (length (d_values d))"
    using intern_value_ok [of d u h] Cons.prems by auto
  obtain ids d2 where 2: "run_build (intern_value h) d1 us = Ok (ids, d2)" "dict_ok d2" "extends d1 d2"
    "length ids = length us" "\<forall>k < length us. get (d_values d2) (unat (ids ! k)) = Some (us ! k)"
    using Cons.IH [of d1] Cons.prems 1(2,5) by auto
  have "get (d_values d2) (unat i) = Some u"
    using 1(4) 2(3) by (auto simp: extends_def nth_append)
  then have "get (d_values d2) (unat ((i # ids) ! k)) = Some ((u # us) ! k)" if "k < length (u # us)" for k
    using that 2(5) by (cases k) (simp_all del: get_eq_Some)
  then show ?case
    using 1 2 extends_trans [OF 1(3) 2(3)] by (intro exI [of _ "i # ids"] exI [of _ d2]) (simp del: get_eq_Some)
qed simp

lemma string_page_ok:
  assumes vs: "b_values buffer = V_String values" "length values = rows" and rows: "rows \<le> 65535"
    and short: "\<forall>v \<in> set values. length v \<le> 65535 \<and> utf8_valid v"
    and tot: "sum_list (map length values) < 2 ^ 32"
    and d: "dict_ok d" "length (d_values d) + rows < 2 ^ 32"
  shows "\<exists>page ids d'. encode_string buffer rows = Ok page \<and>
     decode_raw_string_ids h h' False page rows d = Ok (ids, d') \<and> dict_ok d' \<and> extends d d' \<and>
     length ids = rows \<and> (\<forall>i < rows. get (d_values d') (unat (ids ! i)) = Some (values ! i))"
proof -
  obtain page p us ss where p: "encode_string buffer rows = Ok page"
    "decode_string_preamble page rows = Ok p" "sp_rows p = rows" "sp_value_count p = length us"
    "length us \<le> rows" "set us \<subseteq> set values" "length (sp_indices p) = rows"
    "\<forall>i < rows. sp_indices p ! i < length us \<and> us ! (sp_indices p ! i) = values ! i"
    "sp_suffix_lens p = map length ss" "sp_suffix_blob p = concat ss" "front_coded [] (sp_lcps p) ss us"
    using encode_string_ok [OF vs rows _ tot] short by blast
  obtain uids d' where u: "run_build (intern_value h) d us = Ok (uids, d')" "dict_ok d'" "extends d d'"
    "length uids = length us" "\<forall>k < length us. get (d_values d') (unat (uids ! k)) = Some (us ! k)"
    using run_intern_ok [of d us h] d p(5,6) short by fastforce
  have "mapR (\<lambda>row. bindR (index (sp_indices p) row) (\<lambda>u. of_option (Code (- 115)) (get uids u))) [0..<rows] =
      Ok (map (\<lambda>row. uids ! (sp_indices p ! row)) [0..<rows])"
    using p(7,8) u(4) by (intro mapR_total) (simp add: index_def get_def)
  then have "decode_raw_string_ids h h' False page rows d =
      Ok (map (\<lambda>row. uids ! (sp_indices p ! row)) [0..<rows], d')"
    using p(2-4,9,10) u(1) reconstruct_ok [OF p(11) refl, of "intern_value h" d]
    by (simp add: decode_raw_string_ids_def map_row_ids_def del: bindR_eq_Ok)
  with p(1,8) u(2,3,5) show ?thesis by (auto simp del: get_eq_Some)
qed

end
