(* ===== verification/Like_Facts.thy ===== *)
theory Like_Facts
  imports Like_Mask Mask_Rows String_Facts
begin

text \<open>
  The searches return the first position of the pattern, the incremental search over front-coded
  values agrees with searching each value, and the mask of a page has the rows whose string
  contains the pattern.
\<close>

section \<open>First positions\<close>

definition first_at :: "bytes \<Rightarrow> bytes \<Rightarrow> nat \<Rightarrow> bool" where
  "first_at hay needle pos \<longleftrightarrow> occurs_at hay pos needle \<and> (\<forall>q < pos. \<not> occurs_at hay q needle)"

lemma occurs_at_nth:
  "occurs_at xs q pat \<longleftrightarrow> q + length pat \<le> length xs \<and> (\<forall>k < length pat. xs ! (q + k) = pat ! k)"
  by (auto simp: occurs_at_def list_eq_iff_nth_eq)

lemma slice_eq_iff: "i + length pat \<le> length xs \<Longrightarrow> slice xs i (i + length pat) = pat \<longleftrightarrow> occurs_at xs i pat"
  by (simp add: occurs_at_def slice_def)

lemma position_from_shift: "position_from (Suc i) ws w = map_option Suc (position_from i ws w)"
  by (induction ws arbitrary: i) auto

lemma position_from_Some:
  "position_from 0 ws w = Some p \<longleftrightarrow> p < length ws \<and> ws ! p = w \<and> (\<forall>q < p. ws ! q \<noteq> w)"
proof (induction ws arbitrary: p)
  case (Cons x ws)
  then show ?case
    by (cases p) (auto simp: position_from_shift less_Suc_eq_0_disj nth_Cons')
qed simp

lemma position_from_None: "position_from i ws w = None \<longleftrightarrow> w \<notin> set ws"
  by (induction ws arbitrary: i) auto

lemma length_windows [simp]: "length (windows n xs) = length xs + 1 - n"
  by (simp add: windows_def)

lemma nth_windows: "i < length xs + 1 - n \<Longrightarrow> windows n xs ! i = slice xs i (i + n)"
  by (simp add: windows_def)

lemma occurs_in_windows:
  assumes "needle \<noteq> []"
  shows "occurs_at hay p needle \<longleftrightarrow>
     p < length (windows (length needle) hay) \<and> windows (length needle) hay ! p = needle"
  using assms slice_eq_iff [of p needle hay]
  by (auto simp: nth_windows occurs_at_def less_diff_conv le_diff_conv2 Suc_le_eq add.commute)

lemma find_subslice_Some: "find_subslice hay needle = Some p \<longleftrightarrow> first_at hay needle p"
proof (cases "needle = []")
  case False
  then have "find_subslice hay needle = Some p \<longleftrightarrow> p < length (windows (length needle) hay) \<and>
      windows (length needle) hay ! p = needle \<and>
      (\<forall>q < p. windows (length needle) hay ! q \<noteq> needle)"
    by (simp only: find_subslice_def position_from_Some if_False)
  also have "\<dots> \<longleftrightarrow> first_at hay needle p"
    unfolding first_at_def occurs_in_windows [OF False] by (meson less_trans)
  finally show ?thesis .
qed (auto simp: find_subslice_def first_at_def)

lemma find_subslice_None: "find_subslice hay needle = None \<longleftrightarrow> (\<forall>q. \<not> occurs_at hay q needle)"
proof (cases "needle = []")
  case False
  then show ?thesis
    by (auto simp: find_subslice_def position_from_None occurs_in_windows in_set_conv_nth)
qed (auto simp: find_subslice_def intro: exI [of _ 0])

lemma find_subsliceI:
  assumes "\<And>p. r = Some p \<Longrightarrow> first_at hay needle p" "r = None \<Longrightarrow> (\<And>q. \<not> occurs_at hay q needle)"
  shows "r = find_subslice hay needle"
proof (cases r)
  case None
  with assms(2) have "find_subslice hay needle = None" by (simp add: find_subslice_None)
  with None show ?thesis by simp
next
  case (Some p)
  with assms(1) have "find_subslice hay needle = Some p" by (simp add: find_subslice_Some)
  with Some show ?thesis by simp
qed

section \<open>SIMD\<close>

lemma set_eq_lanes: "set (eq_lanes block b) = {k. k < 16 \<and> block ! k = b}"
  by (auto simp: eq_lanes_def)

lemma sorted_eq_lanes: "sorted_wrt (<) (eq_lanes block b)"
  unfolding eq_lanes_def by (rule sorted_wrt_filter) simp

lemma load16_nth:
  "k < 16 \<Longrightarrow> i + k < length hay \<Longrightarrow> load16 hay after i ! k = hay ! (i + k)"
  by (simp add: load16_def slice_def nth_append less_diff_conv add.commute)

lemma occurs_first_byte:
  "occurs_at hay q needle \<Longrightarrow> needle \<noteq> [] \<Longrightarrow> q < length hay \<and> hay ! q = needle ! 0"
  by (cases needle) (auto simp: occurs_at_nth)

text \<open>Below the end of the block, the pattern occurs at none but the lanes \<open>ks\<close>.\<close>

definition only_lanes :: "bytes \<Rightarrow> bytes \<Rightarrow> nat \<Rightarrow> nat list \<Rightarrow> bool" where
  "only_lanes hay needle i ks \<longleftrightarrow>
     (\<forall>q < i + 16. occurs_at hay q needle \<longrightarrow> q \<in> (+) i ` set ks) \<and> (\<forall>k \<in> set ks. k < 16) \<and>
     sorted_wrt (<) ks"

lemma only_lanes_first:
  assumes "only_lanes hay needle i (k # ks)" "q < i + k"
  shows "\<not> occurs_at hay q needle"
proof
  assume oc: "occurs_at hay q needle"
  have "q < i + 16" using assms by (simp add: only_lanes_def)
  with assms oc obtain j where "q = i + j" "j \<in> set (k # ks)"
    unfolding only_lanes_def by blast
  with assms show False by (auto simp: only_lanes_def)
qed

lemma try_lanes_ok:
  assumes "only_lanes hay needle i ks" "length needle \<le> length hay"
  shows "case try_lanes hay needle i ks of
      Some (Some p) \<Rightarrow> first_at hay needle p
    | Some None \<Rightarrow> (\<forall>q. \<not> occurs_at hay q needle)
    | None \<Rightarrow> (\<forall>q < i + 16. \<not> occurs_at hay q needle)"
  using assms
proof (induction ks)
  case Nil
  then show ?case by (simp add: only_lanes_def)
next
  case (Cons k ks)
  have before: "\<not> occurs_at hay q needle" if "q < i + k" for q
    using only_lanes_first [OF Cons.prems(1) that] .
  have here: "i + k \<le> length hay - length needle \<Longrightarrow>
      slice hay (i + k) (i + k + length needle) = needle \<longleftrightarrow> occurs_at hay (i + k) needle"
    using Cons.prems(2) by (intro slice_eq_iff) linarith
  have "\<not> occurs_at hay q needle" if "length hay - length needle < i + k" for q
    using that before [of q] by (auto simp: occurs_at_def)
  moreover have "only_lanes hay needle i ks" if "\<not> occurs_at hay (i + k) needle"
    using Cons.prems(1) that by (auto simp: only_lanes_def)
  ultimately show ?case
    using Cons.IH Cons.prems(2) before here by (auto simp: first_at_def not_less)
qed

lemma only_eq_lanes:
  assumes "needle \<noteq> []" "\<And>q. q < i \<Longrightarrow> \<not> occurs_at hay q needle"
  shows "only_lanes hay needle i (eq_lanes (load16 hay after i) (needle ! 0))"
proof -
  have "q \<in> (+) i ` set (eq_lanes (load16 hay after i) (needle ! 0))"
    if q: "q < i + 16" "occurs_at hay q needle" for q
  proof -
    have "i \<le> q" using assms(2) q(2) not_less by blast
    then obtain k where k: "q = i + k" using le_Suc_ex by blast
    with q occurs_first_byte [OF q(2) assms(1)] have "k < 16" "load16 hay after i ! k = needle ! 0"
      by (auto simp: load16_nth)
    with k show ?thesis by (auto simp: set_eq_lanes)
  qed
  then show ?thesis
    using sorted_eq_lanes by (auto simp: only_lanes_def set_eq_lanes)
qed

lemma search_blocks_ok:
  assumes "needle \<noteq> []" "length needle \<le> length hay" "\<And>q. q < i \<Longrightarrow> \<not> occurs_at hay q needle"
    and "search_blocks hay after needle i = (r, j)"
  shows "case r of
      Some (Some p) \<Rightarrow> first_at hay needle p
    | Some None \<Rightarrow> (\<forall>q. \<not> occurs_at hay q needle)
    | None \<Rightarrow> (\<forall>q < j. \<not> occurs_at hay q needle)"
  using assms
proof (induction hay after needle i rule: search_blocks.induct)
  case (1 hay after needle i)
  let ?t = "try_lanes hay needle i (eq_lanes (load16 hay after i) (needle ! 0))"
  have t: "case ?t of Some (Some p) \<Rightarrow> first_at hay needle p
      | Some None \<Rightarrow> (\<forall>q. \<not> occurs_at hay q needle)
      | None \<Rightarrow> (\<forall>q < i + 16. \<not> occurs_at hay q needle)"
    by (rule try_lanes_ok [OF only_eq_lanes [OF "1.prems"(1,3)] "1.prems"(2)])
  show ?case
  proof (cases "i \<le> length hay - 16 \<and> ?t = None")
    case True
    then have "search_blocks hay after needle (i + 16) = (r, j)"
      using "1.prems"(4) by (simp add: search_blocks.simps [of hay after needle i])
    then show ?thesis using "1.IH" True "1.prems"(1,2) t by simp
  next
    case False
    with "1.prems"(3,4) t show ?thesis
      by (auto simp: search_blocks.simps [of hay after needle i] split: if_splits option.splits)
  qed
qed

lemma search_tail_ok:
  assumes "needle \<noteq> []" "length needle \<le> length hay" "\<And>q. q < i \<Longrightarrow> \<not> occurs_at hay q needle"
  shows "search_tail hay needle i = find_subslice hay needle"
  using assms
proof (induction hay needle i rule: search_tail.induct)
  case (1 hay needle i)
  show ?case
  proof (cases "i \<le> length hay - length needle")
    case True
    then have le: "i + length needle \<le> length hay" using "1.prems"(2) by linarith
    have oc: "hay ! i = needle ! 0 \<and> slice hay i (i + length needle) = needle \<longleftrightarrow> occurs_at hay i needle"
      using slice_eq_iff [OF le] occurs_first_byte [OF _ "1.prems"(1)] by blast
    show ?thesis
    proof (cases "occurs_at hay i needle")
      case True
      then have "find_subslice hay needle = Some i"
        using "1.prems"(3) by (simp add: find_subslice_Some first_at_def)
      with True oc \<open>i \<le> _\<close> show ?thesis by (simp add: search_tail.simps [of hay needle i])
    next
      case False
      then have "search_tail hay needle (i + 1) = find_subslice hay needle"
        using "1.IH" True oc "1.prems" by (simp add: less_Suc_eq) blast
      with False oc True show ?thesis by (auto simp: search_tail.simps [of hay needle i])
    qed
  next
    case False
    then have "find_subslice hay needle = None"
      using "1.prems"(3) by (auto simp: find_subslice_None) (auto simp: occurs_at_def)
    with False show ?thesis by (simp add: search_tail.simps [of hay needle i])
  qed
qed

lemma find_subslice_simd_long:
  assumes "length needle \<noteq> 1"
  shows "find_subslice_simd hay after needle = find_subslice hay needle"
proof (cases "needle = [] \<or> length hay < length needle")
  case True
  then show ?thesis
    using assms by (auto simp: find_subslice_simd_def find_subslice_def windows_def Let_def)
next
  case False
  then have n: "needle \<noteq> []" "length needle \<le> length hay" by auto
  obtain r j where s: "search_blocks hay after needle 0 = (r, j)" by fastforce
  have ok: "case r of Some (Some p) \<Rightarrow> first_at hay needle p
      | Some None \<Rightarrow> (\<forall>q. \<not> occurs_at hay q needle)
      | None \<Rightarrow> (\<forall>q < j. \<not> occurs_at hay q needle)"
    by (rule search_blocks_ok [OF n _ s]) simp
  show ?thesis
  proof (cases r)
    case None
    then show ?thesis
      using ok s n assms search_tail_ok [OF n, of j] by (simp add: find_subslice_simd_def Let_def)
  next
    case (Some x)
    have "x = find_subslice hay needle"
      by (rule find_subsliceI) (use ok Some in \<open>auto split: option.splits\<close>)
    then show ?thesis
      using Some s n assms by (simp add: find_subslice_simd_def Let_def)
  qed
qed

lemma occurs_single: "occurs_at hay q [b] \<longleftrightarrow> q < length hay \<and> hay ! q = b"
  by auto

lemma memchr_tail_Some:
  "memchr_tail xs b i = map_option ((+) i) (find_subslice xs [b])"
proof (induction xs arbitrary: i)
  case Nil
  then show ?case by (simp add: find_subslice_def windows_def)
next
  case (Cons x xs)
  have "find_subslice (x # xs) [b] = (if x = b then Some 0 else map_option Suc (find_subslice xs [b]))"
  proof (rule find_subsliceI [symmetric])
    show "first_at (x # xs) [b] p"
      if "(if x = b then Some 0 else map_option Suc (find_subslice xs [b])) = Some p" for p
      using that by (auto simp: first_at_def find_subslice_Some nth_Cons' split: if_splits)
    show "\<not> occurs_at (x # xs) q [b]"
      if "(if x = b then Some 0 else map_option Suc (find_subslice xs [b])) = None" for q
      using that by (cases q) (auto simp: find_subslice_None split: if_splits)
  qed
  with Cons show ?case by (cases "find_subslice xs [b]") auto
qed

lemma memchr_blocks_ok:
  assumes "16 \<le> length hay" "\<And>q. q < i \<Longrightarrow> q < length hay \<Longrightarrow> hay ! q \<noteq> b"
    and "memchr_blocks hay after b i = (r, j)"
  shows "case r of Some p \<Rightarrow> first_at hay [b] p | None \<Rightarrow> (\<forall>q < j. q < length hay \<longrightarrow> hay ! q \<noteq> b)"
  using assms
proof (induction hay after b i rule: memchr_blocks.induct)
  case (1 hay after b i)
  have lane: "load16 hay after i ! k = hay ! (i + k)" "i + k < length hay"
    if "i \<le> length hay - 16" "k < 16" for k
    using that "1.prems"(1) by (simp_all add: load16_nth)
  show ?case
  proof (cases "i \<le> length hay - 16")
    case True
    note blk = memchr_blocks.simps [of hay after b i]
    show ?thesis
    proof (cases "eq_lanes (load16 hay after i) b")
      case Nil
      then have none: "\<And>k. k < 16 \<Longrightarrow> hay ! (i + k) \<noteq> b"
        using set_eq_lanes [of "load16 hay after i" b] lane [OF True] by auto
      have "hay ! q \<noteq> b" if "q < i + 16" "q < length hay" for q
        using that "1.prems"(2) none [of "q - i"] by (cases "q < i") auto
      moreover have "memchr_blocks hay after b (i + 16) = (r, j)"
        using "1.prems"(3) True Nil by (simp add: blk)
      ultimately show ?thesis using "1.IH" [OF True Nil] "1.prems"(1) by blast
    next
      case (Cons k ks)
      have k: "k < 16" "load16 hay after i ! k = b" and "sorted_wrt (<) (k # ks)"
        using set_eq_lanes [of "load16 hay after i" b] sorted_eq_lanes [of "load16 hay after i" b]
        unfolding Cons by auto
      have "hay ! q \<noteq> b" if "q < i + k" for q
      proof
        assume q: "hay ! q = b"
        have "i \<le> q"
        proof (rule ccontr)
          assume "\<not> i \<le> q"
          with "1.prems"(2) [of q] q lane(2) [OF True k(1)] show False by simp
        qed
        then have "q - i < 16" "load16 hay after i ! (q - i) = b"
          using that k(1) q lane(1) [OF True, of "q - i"] by auto
        then have "q - i \<in> set (k # ks)"
          using set_eq_lanes [of "load16 hay after i" b] unfolding Cons by auto
        with \<open>sorted_wrt (<) (k # ks)\<close> that \<open>i \<le> q\<close> show False by auto
      qed
      then show ?thesis
        using "1.prems"(3) True Cons k lane [OF True k(1)]
        by (auto simp: blk first_at_def)
    qed
  next
    case False
    with "1.prems" show ?thesis by (simp add: memchr_blocks.simps [of hay after b i])
  qed
qed

lemma memchr_simd_long:
  assumes "16 \<le> length hay"
  shows "memchr_simd hay after b = find_subslice hay [b]"
proof -
  obtain r j where m: "memchr_blocks hay after b 0 = (r, j)" by fastforce
  have ok: "case r of Some p \<Rightarrow> first_at hay [b] p | None \<Rightarrow> (\<forall>q < j. q < length hay \<longrightarrow> hay ! q \<noteq> b)"
    by (rule memchr_blocks_ok [OF assms _ m]) simp
  show ?thesis
  proof (rule find_subsliceI)
    show "first_at hay [b] p" if found: "memchr_simd hay after b = Some p" for p
    proof (cases r)
      case None
      then obtain t where t: "first_at (drop j hay) [b] t" "p = j + t"
        using found m by (auto simp: memchr_simd_def memchr_tail_Some find_subslice_Some)
      have "hay ! q \<noteq> b" if "q < j + t" "q < length hay" for q
        using that ok None t(1) by (cases "q < j") (auto simp: first_at_def dest: spec [of _ "q - j"])
      with t show ?thesis by (fastforce simp: first_at_def less_diff_conv add.commute)
    next
      case (Some x)
      then show ?thesis using found ok m by (simp add: memchr_simd_def)
    qed
    show "\<not> occurs_at hay q [b]" if "memchr_simd hay after b = None" for q
    proof (cases r)
      case None
      then have "\<forall>t. \<not> occurs_at (drop j hay) t [b]"
        using that m by (auto simp: memchr_simd_def memchr_tail_Some find_subslice_None)
      then show ?thesis
        using ok None by (cases "q < j") (auto dest: spec [of _ "q - j"])
    next
      case (Some x)
      then show ?thesis using that m by (simp add: memchr_simd_def)
    qed
  qed
qed

section \<open>One front-coded value\<close>

text \<open>The end of the first match in a value.\<close>

definition first_end :: "bytes \<Rightarrow> bytes \<Rightarrow> nat option" where
  "first_end v pat = map_option (\<lambda>pos. pos + length pat) (find_subslice v pat)"

lemma first_end_Some:
  "first_end v pat = Some e \<longleftrightarrow> length pat \<le> e \<and> first_at v pat (e - length pat)"
  by (auto simp: first_end_def find_subslice_Some)

lemma first_end_None: "first_end v pat = None \<longleftrightarrow> (\<forall>q. \<not> occurs_at v q pat)"
  by (simp add: first_end_def find_subslice_None)

definition boundary_buf :: "bytes \<Rightarrow> bytes \<Rightarrow> nat \<Rightarrow> nat \<Rightarrow> bytes" where
  "boundary_buf prev suffix lcp m =
     slice prev (lcp - (m - 1)) lcp @ take (min (m - 1) (length suffix)) suffix"

lemma occurs_in_slice:
  "s \<le> e \<Longrightarrow> e \<le> length xs \<Longrightarrow>
     occurs_at (slice xs s e) q pat \<longleftrightarrow> s + q + length pat \<le> e \<and> occurs_at xs (s + q) pat"
  by (auto simp: occurs_at_nth slice_nth add.assoc)

lemma occurs_in_prev:
  "lcp \<le> length prev \<Longrightarrow> q + length pat \<le> lcp \<Longrightarrow>
     occurs_at (take lcp prev @ suffix) q pat \<longleftrightarrow> occurs_at prev q pat"
  by (simp add: occurs_at_nth nth_append)

lemma occurs_in_suffix:
  "lcp \<le> length prev \<Longrightarrow> occurs_at (take lcp prev @ suffix) (lcp + q) pat \<longleftrightarrow> occurs_at suffix q pat"
  by (auto simp: occurs_at_nth nth_append)

lemma slice_join:
  "s \<le> lcp \<Longrightarrow> lcp \<le> length prev \<Longrightarrow>
     slice prev s lcp @ take n suffix = slice (take lcp prev @ suffix) s (lcp + n)"
  by (simp add: slice_def drop_take)

text \<open>The matches in the boundary buffer are those that straddle the end of the shared prefix.\<close>

lemma occurs_in_boundary:
  assumes lcp: "lcp \<le> length prev" and pat: "pat \<noteq> []"
  shows "occurs_at (boundary_buf prev suffix lcp (length pat)) q pat \<longleftrightarrow>
     lcp - (length pat - 1) + q < lcp \<and>
     occurs_at (take lcp prev @ suffix) (lcp - (length pat - 1) + q) pat"
proof -
  let ?s = "lcp - (length pat - 1)" and ?e = "lcp + min (length pat - 1) (length suffix)"
  have m: "1 \<le> length pat" using pat by (cases pat) auto
  have "occurs_at (boundary_buf prev suffix lcp (length pat)) q pat \<longleftrightarrow>
      occurs_at (slice (take lcp prev @ suffix) ?s ?e) q pat"
    unfolding boundary_buf_def by (subst slice_join) (use lcp in auto)
  also have "\<dots> \<longleftrightarrow> ?s + q + length pat \<le> ?e \<and> occurs_at (take lcp prev @ suffix) (?s + q) pat"
    by (rule occurs_in_slice) (use lcp in auto)
  also have "\<dots> \<longleftrightarrow> ?s + q < lcp \<and> occurs_at (take lcp prev @ suffix) (?s + q) pat"
  proof -
    have le: "?s + q + length pat \<le> lcp + length suffix"
      if "occurs_at (take lcp prev @ suffix) (?s + q) pat"
      using occurs_at_le [OF that] lcp by simp
    have "A + length pat \<le> lcp + min (length pat - 1) n \<longleftrightarrow> A < lcp"
      if "A + length pat \<le> lcp + n" for A n
      using that m by (auto simp: min_def)
    from this [OF le] show ?thesis by blast
  qed
  finally show ?thesis .
qed

lemma first_end_inherit:
  assumes "lcp \<le> length prev" "first_end prev pat = Some e" "e \<le> lcp"
  shows "first_end (take lcp prev @ suffix) pat = Some e"
proof -
  have "occurs_at (take lcp prev @ suffix) q pat \<longleftrightarrow> occurs_at prev q pat" if "q + length pat \<le> e" for q
    by (rule occurs_in_prev) (use that assms in auto)
  with assms show ?thesis by (auto simp: first_end_Some first_at_def)
qed

text \<open>No match ends in the shared prefix; then a match straddles its end or is in the suffix.\<close>

lemma first_end_search:
  assumes lcp: "lcp \<le> length prev" and pat: "pat \<noteq> []"
    and none: "\<And>q. q + length pat \<le> lcp \<Longrightarrow> \<not> occurs_at prev q pat"
  shows "first_end (take lcp prev @ suffix) pat =
     (case boundary_match prev suffix lcp pat of
        Some e \<Rightarrow> Some e | None \<Rightarrow> suffix_match suffix lcp pat)"
proof -
  let ?v = "take lcp prev @ suffix" and ?m = "length pat"
  let ?start = "lcp - (?m - 1)" and ?buf = "boundary_buf prev suffix lcp (length pat)"
  have low: "\<not> occurs_at ?v q pat" if "q < ?start" for q
    using none [of q] occurs_in_prev [OF lcp, of q pat suffix] that by simp
  have bm: "boundary_match prev suffix lcp pat = map_option (\<lambda>pos. ?start + pos + ?m) (find_subslice ?buf pat)"
  proof (cases "?m \<le> 1")
    case True
    have "find_subslice ?buf pat = None"
      using True by (simp add: find_subslice_None occurs_in_boundary [OF lcp pat])
    with True show ?thesis by (simp add: boundary_match_def)
  next
    case False
    have "length ?buf < ?m \<Longrightarrow> find_subslice ?buf pat = None"
      by (auto simp: find_subslice_None occurs_at_def)
    with False show ?thesis by (auto simp: boundary_match_def boundary_buf_def Let_def)
  qed
  have sm: "suffix_match suffix lcp pat = map_option (\<lambda>pos. lcp + pos + ?m) (find_subslice suffix pat)"
  proof -
    have "length suffix < ?m \<Longrightarrow> find_subslice suffix pat = None"
      by (auto simp: find_subslice_None occurs_at_def)
    then show ?thesis by (auto simp: suffix_match_def Let_def)
  qed
  show ?thesis
  proof (cases "find_subslice ?buf pat")
    case (Some pos)
    then have oc: "occurs_at ?buf pos pat" "\<And>q. q < pos \<Longrightarrow> \<not> occurs_at ?buf q pat"
      by (auto simp: find_subslice_Some first_at_def)
    have st: "?start + pos < lcp" using oc(1) by (simp add: occurs_in_boundary [OF lcp pat])
    have "\<not> occurs_at ?v q pat" if "q < ?start + pos" for q
    proof (cases "q < ?start")
      case False
      then obtain j where "q = ?start + j" using le_Suc_ex not_less by blast
      then show ?thesis using oc(2) [of j] that st by (simp add: occurs_in_boundary [OF lcp pat])
    qed (rule low)
    then have "first_at ?v pat (?start + pos)"
      using oc(1) by (simp add: first_at_def occurs_in_boundary [OF lcp pat])
    then have "first_end ?v pat = Some (?start + pos + ?m)" by (simp add: first_end_Some)
    with Some bm show ?thesis by simp
  next
    case None
    have below: "\<not> occurs_at ?v q pat" if "q < lcp" for q
    proof (cases "q < ?start")
      case False
      then obtain j where j: "q = ?start + j" using le_Suc_ex not_less by blast
      then show ?thesis using None that
        by (simp add: find_subslice_None occurs_in_boundary [OF lcp pat])
    qed (rule low)
    have "first_end ?v pat = map_option (\<lambda>pos. lcp + pos + ?m) (find_subslice suffix pat)"
    proof (cases "find_subslice suffix pat")
      case None
      have "\<not> occurs_at ?v q pat" for q
        using below [of q] None occurs_in_suffix [OF lcp, of _ "q - lcp" pat]
        by (cases "q < lcp") (auto simp: find_subslice_None)
      with None show ?thesis by (simp add: first_end_None)
    next
      case (Some pos)
      have "\<not> occurs_at ?v q pat" if "q < lcp + pos" for q
        using below [of q] Some occurs_in_suffix [OF lcp, of _ "q - lcp" pat] that
        by (cases "q < lcp") (auto simp: find_subslice_Some first_at_def)
      moreover have "occurs_at ?v (lcp + pos) pat"
        using Some by (simp add: occurs_in_suffix [OF lcp] find_subslice_Some first_at_def)
      ultimately show ?thesis using Some by (simp add: first_end_Some first_at_def)
    qed
    with None bm sm show ?thesis by simp
  qed
qed

lemma first_end_Nil: "pat \<noteq> [] \<Longrightarrow> first_end [] pat = None"
  by (simp add: first_end_None occurs_at_def)

lemma row_contains_ok:
  assumes "idx < length lcps" "idx < length lens" "lcps ! idx \<le> length prev"
    "cursor + lens ! idx \<le> length blob" "pat \<noteq> []"
  defines "v \<equiv> take (lcps ! idx) prev @ slice blob cursor (cursor + lens ! idx)"
  shows "row_contains_pattern blob lens lcps prev cursor idx pat (first_end prev pat) =
     Ok (first_end v pat \<noteq> None, first_end v pat, cursor + lens ! idx)"
proof -
  let ?lcp = "lcps ! idx" and ?suffix = "slice blob cursor (cursor + lens ! idx)"
  have len: "length ?suffix = lens ! idx" using assms(4) by simp
  have ix: "index lcps idx = Ok ?lcp" "index lens idx = Ok (lens ! idx)"
    using assms by (simp_all add: index_def)
  show ?thesis
  proof (cases "\<exists>e. first_end prev pat = Some e \<and> e \<le> ?lcp")
    case True
    then obtain e where e: "first_end prev pat = Some e" "e \<le> ?lcp" by blast
    then have "first_end v pat = Some e"
      unfolding v_def using first_end_inherit [OF assms(3)] by blast
    with e ix assms(3,4) show ?thesis by (simp add: row_contains_pattern_def Let_def)
  next
    case False
    have "\<not> occurs_at prev q pat" if "q + length pat \<le> ?lcp" for q
    proof
      assume q: "occurs_at prev q pat"
      then obtain e where e: "first_end prev pat = Some e"
        using first_end_None [of prev pat] by auto
      then have "e \<le> q + length pat"
        using q by (auto simp: first_end_Some first_at_def not_le)
          (metis add_diff_inverse_nat diff_is_0_eq less_diff_conv nat_less_le not_less zero_less_diff)
      with False e that show False by (meson le_trans)
    qed
    then have fe: "first_end v pat = (case boundary_match prev ?suffix ?lcp pat of
        Some e \<Rightarrow> Some e | None \<Rightarrow> suffix_match ?suffix ?lcp pat)"
      unfolding v_def by (intro first_end_search assms)
    have short: "first_end v pat = None" if "?lcp + lens ! idx < length pat"
      using that len assms(3) by (auto simp: first_end_None occurs_at_def v_def)
    show ?thesis
      using False ix assms(3,4) fe short
      by (auto simp: row_contains_pattern_def Let_def split: option.splits)
  qed
qed

lemma front_coded_nth:
  "front_coded prev ls ss us \<Longrightarrow> k < length us \<Longrightarrow>
     ls ! k \<le> length (if k = 0 then prev else us ! (k - 1)) \<and>
     us ! k = take (ls ! k) (if k = 0 then prev else us ! (k - 1)) @ ss ! k"
proof (induction prev ls ss us arbitrary: k rule: front_coded.induct)
  case (2 prev l ls sf ss u us)
  then have fc: "front_coded u ls ss us" and u: "l \<le> length prev" "u = take l prev @ sf" by auto
  show ?case
  proof (cases k)
    case (Suc j)
    then show ?thesis using "2.IH" [OF fc, of j] "2.prems"(2) by (cases j) simp_all
  qed (simp_all add: u)
qed auto

lemma like_values_ok:
  assumes fc: "front_coded [] (sp_lcps p) ss us" and lens: "sp_suffix_lens p = map length ss"
    and blob: "sp_suffix_blob p = concat ss" and pat: "pat \<noteq> []"
  shows "\<exists>prev mn. foldR (like_value_step p pat) ([], 0, None, []) [0..<length us] =
     Ok (prev, length (concat ss), mn, map (\<lambda>u. first_end u pat \<noteq> None) us)"
proof -
  define prv where "prv k = (if k = 0 then [] else us ! (k - 1))" for k
  let ?P = "\<lambda>k st. st = (prv k, length (concat (take k ss)), first_end (prv k) pat,
     map (\<lambda>u. first_end u pat \<noteq> None) (take k us))"
  have len: "length (sp_lcps p) = length us" "length ss = length us"
    using front_coded_length [OF fc] by auto
  have "\<exists>st. foldR (like_value_step p pat) ([], 0, None, []) [0..<length us] = Ok st \<and>
      ?P (length [0..<length us]) st"
  proof (rule foldR_total)
    show "?P 0 ([], 0, None, [])"
      using pat by (simp add: prv_def first_end_Nil)
    fix k st assume k: "k < length [0..<length us]" and st: "?P k st"
    let ?cur = "length (concat (take k ss))"
    have kk: "k < length us" "[0..<length us] ! k = k" using k by auto
    have f: "sp_lcps p ! k \<le> length (prv k)" "us ! k = take (sp_lcps p ! k) (prv k) @ ss ! k"
      using front_coded_nth [OF fc kk(1)] by (auto simp: prv_def)
    have cur: "length (concat (take (Suc k) ss)) = ?cur + length (ss ! k)"
      using kk(1) len(2) by (simp add: take_Suc_conv_app_nth)
    have sl: "slice (concat ss) ?cur (?cur + length (ss ! k)) = ss ! k"
      using slice_concat [of k ss] kk(1) len(2) cur by simp
    have fit: "?cur + length (ss ! k) \<le> length (concat ss)"
      using length_concat_take_le [of "Suc k" ss] cur by simp
    have "row_contains_pattern (concat ss) (map length ss) (sp_lcps p) (prv k) ?cur k pat
        (first_end (prv k) pat) = Ok (first_end (us ! k) pat \<noteq> None, first_end (us ! k) pat, ?cur + length (ss ! k))"
      using row_contains_ok [of k "sp_lcps p" "map length ss" "prv k" ?cur "concat ss" pat] kk(1) len f sl fit pat
      by simp
    then show "\<exists>st'. like_value_step p pat st ([0..<length us] ! k) = Ok st' \<and> ?P (Suc k) st'"
      using kk len f sl cur
      by (simp add: st like_value_step_def lens blob take_Suc_conv_app_nth prv_def)
  qed
  then show ?thesis by (simp add: len(2))
qed

section \<open>The mask of a page\<close>

definition contains :: "bytes \<Rightarrow> bytes \<Rightarrow> bool" where
  "contains v pat \<longleftrightarrow> (\<exists>q. occurs_at v q pat)"

lemma contains_Nil [simp]: "contains v []"
  by (auto simp: contains_def intro: exI [of _ 0])

lemma first_end_contains: "first_end v pat \<noteq> None \<longleftrightarrow> contains v pat"
  by (auto simp: first_end_None contains_def)

lemma all_ones_mask [simp]: "mask_bit (replicate n (0xffffffff :: u32)) r \<longleftrightarrow> r < 32 * n"
proof -
  have "bit (0xffffffff :: u32) k" if "k < 32" for k using that all_ones_u32 by blast
  then show ?thesis
    using div_less_iff_less_mult [of 32 r n] by (auto simp: mask_bit_def mult.commute)
qed

lemma zero_mask [simp]: "\<not> mask_bit (replicate n (0 :: u32)) r"
  by (auto simp: mask_bit_def)

lemma like_rows_ok:
  assumes rows: "rows \<le> ROWS_PER_CHUNK" "length (sp_indices p) = rows"
    and found: "\<forall>r < rows. sp_indices p ! r < length found"
  shows "\<exists>m. foldR (like_row_step p found negated)
        (replicate MASK_WORDS (if negated then 0xffffffff else 0)) [0..<rows] = Ok m \<and> is_mask m \<and>
     (\<forall>r < rows. mask_bit m r \<longleftrightarrow> found ! (sp_indices p ! r) \<noteq> negated)"
proof -
  let ?P = "\<lambda>k m. is_mask m \<and> (\<forall>r < ROWS_PER_CHUNK. mask_bit m r \<longleftrightarrow>
     (if r < k then found ! (sp_indices p ! r) \<noteq> negated else negated))"
  have "\<exists>m. foldR (like_row_step p found negated)
        (replicate MASK_WORDS (if negated then 0xffffffff else 0)) [0..<rows] = Ok m \<and>
      ?P (length [0..<rows]) m"
  proof (rule foldR_total)
    show "?P 0 (replicate MASK_WORDS (if negated then 0xffffffff else 0))"
      by (auto simp: is_mask_def MASK_WORDS_def ROWS_PER_CHUNK_def)
    fix k m assume k: "k < length [0..<rows]" and P: "?P k m"
    then have kr: "k < rows" "[0..<rows] ! k = k" by auto
    have w: "k div 32 < length m"
      using P kr(1) rows(1) by (auto simp: is_mask_def MASK_WORDS_def ROWS_PER_CHUNK_def)
    have get: "get (sp_indices p) k = Some (sp_indices p ! k)"
      "get found (sp_indices p ! k) = Some (found ! (sp_indices p ! k))"
      using kr rows(2) found by auto
    obtain m1 where m1: "set_bit_at m k = Ok m1" "length m1 = length m"
        "\<forall>r. mask_bit m1 r \<longleftrightarrow> r = k \<or> mask_bit m r"
      using set_bit_at_ok [OF w] by blast
    obtain m2 where m2: "clear_mask_bit m k = Ok m2" "length m2 = length m"
        "\<forall>r. mask_bit m2 r \<longleftrightarrow> r \<noteq> k \<and> mask_bit m r"
      using clear_mask_bit_ok [OF w] by blast
    let ?c = "found ! (sp_indices p ! k)"
    let ?m = "if ?c \<noteq> negated then m1 else if negated then m2 else m"
    have "like_row_step p found negated m k = Ok ?m"
      using get m1(1) m2(1) by (simp add: like_row_step_def del: get_eq_Some)
    moreover have "?P (Suc k) ?m"
      using P m1(2,3) m2(2,3) by (auto simp: is_mask_def less_Suc_eq)
    ultimately show "\<exists>m'. like_row_step p found negated m ([0..<rows] ! k) = Ok m' \<and> ?P (Suc k) m'"
      using kr(2) by auto
  qed
  then show ?thesis using rows(1) by auto
qed

lemma preamble_row_count:
  "decode_string_preamble raw rows = Ok p \<Longrightarrow> validate_option_a_row_count raw rows = Ok ()"
  by (simp add: decode_string_preamble_def)

lemma like_mask_ok:
  assumes vs: "b_values buffer = V_String values" "length values = rows" and rows: "rows \<le> ROWS_PER_CHUNK"
    and short: "\<forall>v \<in> set values. length v \<le> 65535" "sum_list (map length values) < 2 ^ 32"
  shows "\<exists>page m. encode_string buffer rows = Ok page \<and>
     decode_raw_string_like_mask page rows pat negated = Ok m \<and> is_mask m \<and>
     (\<forall>r. mask_bit m r \<longleftrightarrow> r < rows \<and> contains (values ! r) pat \<noteq> negated)"
proof -
  have "rows \<le> 65535" using rows by (simp add: ROWS_PER_CHUNK_def)
  then obtain page p us ss where p: "encode_string buffer rows = Ok page"
    "decode_string_preamble page rows = Ok p" "sp_rows p = rows" "sp_value_count p = length us"
    "\<forall>i < rows. sp_indices p ! i < length us \<and> us ! (sp_indices p ! i) = values ! i"
    "length (sp_indices p) = rows"
    "sp_suffix_lens p = map length ss" "sp_suffix_blob p = concat ss" "front_coded [] (sp_lcps p) ss us"
    using encode_string_ok [OF vs _ short] by blast
  let ?init = "replicate MASK_WORDS (if negated then 0xffffffff else 0)"
  show ?thesis
  proof (cases "pat = []")
    case True
    let ?start = "replicate MASK_WORDS (if negated then 0 else 0xffffffff) :: mask"
    have start: "is_mask ?start" "mask_bit ?start r \<longleftrightarrow> r < 65504 \<and> \<not> negated" for r
      by (auto simp: is_mask_def MASK_WORDS_def ROWS_PER_CHUNK_def)
    obtain m where m: "clear_tail ?start rows = Ok m" "is_mask m"
      "\<forall>r. mask_bit m r \<longleftrightarrow> r < rows \<and> mask_bit ?start r"
      using clear_tail_ok [OF start(1)] by blast
    have "decode_raw_string_like_mask page rows pat negated = Ok m"
      using True m(1) preamble_row_count [OF p(2)]
      by (cases negated) (simp_all add: decode_raw_string_like_mask_def Let_def)
    moreover have "mask_bit m r \<longleftrightarrow> r < rows \<and> \<not> negated" for r
      using spec [OF m(3), of r] start(2) [of r] rows by (auto simp: ROWS_PER_CHUNK_def)
    ultimately show ?thesis
      using p(1) m(2) True by (intro exI [of _ page] exI [of _ m]) simp
  next
    case False
    obtain prev mn where loop: "foldR (like_value_step p pat) ([], 0, None, []) [0..<length us] =
        Ok (prev, length (concat ss), mn, map (\<lambda>u. contains u pat) us)"
      using like_values_ok [OF p(9,7,8) False] unfolding first_end_contains by blast
    have "\<forall>r < rows. sp_indices p ! r < length (map (\<lambda>u. contains u pat) us)" using p(5) by simp
    from like_rows_ok [OF rows p(6) this, of negated] obtain m1 where m1:
      "foldR (like_row_step p (map (\<lambda>u. contains u pat) us) negated) ?init [0..<rows] = Ok m1" "is_mask m1"
      "\<forall>r < rows. mask_bit m1 r \<longleftrightarrow> map (\<lambda>u. contains u pat) us ! (sp_indices p ! r) \<noteq> negated"
      by blast
    obtain m where m: "clear_tail m1 rows = Ok m" "is_mask m" "\<forall>r. mask_bit m r \<longleftrightarrow> r < rows \<and> mask_bit m1 r"
      using clear_tail_ok [OF m1(2)] by blast
    have "decode_raw_string_like_mask page rows pat negated = Ok m"
      using False p(2-4,8) loop m1(1) m(1)
      by (cases negated) (simp_all add: decode_raw_string_like_mask_def del: bindR_eq_Ok)
    with p(1,5) m m1(3) show ?thesis by auto
  qed
qed

text \<open>
  A block is read past a haystack of less than 16 bytes: the SIMD search for one byte can find
  it in the memory after the haystack, where the scalar search finds nothing.
\<close>

lemma memchr_simd_past_end:
  "memchr_simd [1] (replicate 15 37) 37 = Some 1 \<and> find_subslice [1] [37] = None"
  by code_simp

end
