(* ===== verification/Agg_State.thy ===== *)
theory Agg_State
  imports Mask_Rows Numeric_Page
begin

text \<open>
  Aggregates: the contract under which partial results are merged, and the numeric aggregates of
  the decoder.
\<close>

section \<open>Merging partial results\<close>

text \<open>
  The contract of a state that is computed per part and then merged: an empty state, a
  step that adds one value, and a merge. The decoder computes such states per chunk and
  per worker (\<^verbatim>\<open>AggState\<close>, \<^verbatim>\<open>HllState\<close>, the distinct sets and the histograms of a
  grouping) and merges them; under the contract the merged state is that of one pass over
  all values, in the part \<open>view\<close> of it that does not depend on how the values were split.
\<close>

locale mergeable =
  fixes empty :: 's and add :: "'s \<Rightarrow> 'v \<Rightarrow> 's" and merge :: "'s \<Rightarrow> 's \<Rightarrow> 's"
    and view :: "'s \<Rightarrow> 'r" and ok :: "'s \<Rightarrow> bool" and fits :: "'v list \<Rightarrow> bool"
  assumes ok_empty: "ok empty"
    and ok_add: "ok s \<Longrightarrow> ok (add s v)"
    and view_merge: "view s = view s' \<Longrightarrow> view (merge s t) = view (merge s' t)"
    and merge_pass:
      "ok s \<Longrightarrow> fits vs \<Longrightarrow> view (merge s (foldl add empty vs)) = view (foldl add s vs)"
begin

lemma ok_foldl: "ok s \<Longrightarrow> ok (foldl add s vs)"
  by (induction vs arbitrary: s) (auto intro: ok_add)

lemma merge_parts_from:
  "ok s \<Longrightarrow> view s' = view s \<Longrightarrow> list_all fits parts \<Longrightarrow>
     view (foldl merge s' (map (foldl add empty) parts)) = view (foldl add s (concat parts))"
proof (induction parts arbitrary: s s')
  case (Cons vs parts)
  have "view (merge s' (foldl add empty vs)) = view (foldl add s vs)"
    using view_merge [of s' s] merge_pass [of s vs] Cons.prems by simp
  with Cons show ?case by (simp add: ok_foldl)
qed simp

lemma merge_parts:
  "list_all fits parts \<Longrightarrow>
     view (foldl merge empty (map (foldl add empty) parts)) = view (foldl add empty (concat parts))"
  by (rule merge_parts_from [OF ok_empty refl])

end

text \<open>A state in which neither the order nor the number of occurrences of a value counts.\<close>

locale set_mergeable = mergeable +
  assumes add_commute: "ok s \<Longrightarrow> add (add s x) y = add (add s y) x"
    and add_again: "ok s \<Longrightarrow> add (add s x) x = add s x"
begin

lemma add_member: "ok s \<Longrightarrow> x \<in> set vs \<Longrightarrow> add (foldl add s vs) x = foldl add s vs"
proof (induction vs arbitrary: s rule: rev_induct)
  case (snoc v vs)
  then show ?case
    by (cases "x = v") (auto simp: add_again ok_foldl add_commute [of "foldl add s vs" v x])
qed simp

lemma foldl_absorb: "ok s \<Longrightarrow> set ws \<subseteq> set vs \<Longrightarrow> foldl add s (vs @ ws) = foldl add s vs"
  by (induction ws rule: rev_induct) (auto simp: add_member)

lemma foldl_append_commute: "ok s \<Longrightarrow> foldl add s (vs @ ws) = foldl add s (ws @ vs)"
proof (induction vs arbitrary: s)
  case (Cons v vs)
  have last: "foldl add (add s v) xs = add (foldl add s xs) v" if "ok s" for s xs
    using that
  proof (induction xs arbitrary: s)
    case (Cons x xs)
    then show ?case using Cons.IH [of "add s x"] by (simp add: ok_add add_commute [of s v x])
  qed simp
  show ?case using Cons.IH [of "add s v"] Cons.prems by (simp add: ok_add last)
qed simp

lemma same_set: "ok s \<Longrightarrow> set vs = set ws \<Longrightarrow> foldl add s vs = foldl add s ws"
  using foldl_absorb [of s vs ws] foldl_absorb [of s ws vs] foldl_append_commute [of s vs ws] by simp

end

text \<open>
  Numeric aggregates: the keys that name an aggregate (\<^verbatim>\<open>wcol-decoder/src/runtime.rs\<close>), the
  scaling of integer columns (\<^verbatim>\<open>query/scale.rs\<close>) and the aggregate states of
  \<^verbatim>\<open>query/agg.rs\<close>. \<^verbatim>\<open>count += 1\<close> is the wrapping addition of release builds.
\<close>

section \<open>Aggregate keys\<close>

definition AGG_KIND_COUNT_STAR :: u8 where "AGG_KIND_COUNT_STAR = 0"
definition AGG_KIND_SUM :: u8 where "AGG_KIND_SUM = 1"
definition AGG_KIND_AVG :: u8 where "AGG_KIND_AVG = 2"
definition AGG_KIND_MIN :: u8 where "AGG_KIND_MIN = 3"
definition AGG_KIND_MAX :: u8 where "AGG_KIND_MAX = 4"
definition AGG_KIND_COUNT :: u8 where "AGG_KIND_COUNT = 5"
definition AGG_KIND_APPROX_DISTINCT :: u8 where "AGG_KIND_APPROX_DISTINCT = 6"

text \<open>The offset is an \<^verbatim>\<open>i8\<close>, kept as its byte.\<close>

definition agg_key_make :: "u32 \<Rightarrow> u8 \<Rightarrow> u8 \<Rightarrow> u32" where
  "agg_key_make col_id kind offset =
     push_bit 24 (ucast offset) OR push_bit 8 (col_id AND 0xffff) OR ucast kind"

definition agg_key_col_id :: "u32 \<Rightarrow> u32" where
  "agg_key_col_id key = drop_bit 8 key AND 0xffff"

definition agg_key_kind :: "u32 \<Rightarrow> u8" where "agg_key_kind key = ucast (key AND 0xff)"

definition agg_key_offset :: "u32 \<Rightarrow> u8" where "agg_key_offset key = ucast (drop_bit 24 key)"

section \<open>Scaling\<close>

text \<open>
  \<^verbatim>\<open>x.powi(n)\<close>: repeated squaring over the bits of \<^verbatim>\<open>|n|\<close>, the reciprocal for a negative
  exponent, as the compiler's runtime library computes it.
\<close>

function powi_loop :: "nat \<Rightarrow> f64 \<Rightarrow> f64 \<Rightarrow> f64" where
  "powi_loop b a r =
     (let r = (if odd b then f_mul r a else r)
      in if b div 2 = 0 then r else powi_loop (b div 2) (f_mul a a) r)"
  by pat_completeness auto
termination
  by (relation "measure (\<lambda>(b, a, r). b)") auto

declare powi_loop.simps [simp del]

definition f_powi :: "f64 \<Rightarrow> int \<Rightarrow> f64" where
  "f_powi a n = (let r = powi_loop (nat \<bar>n\<bar>) a f_one in if n < 0 then f_div f_one r else r)"

definition scale_int_value :: "f64 \<Rightarrow> u32 \<Rightarrow> f64" where
  "scale_int_value value scale =
     (if scale = 0 then value
      else if 0 < sint scale then f_div value (f_of_int (sint scale))
      else f_mul value (f_powi (f_of_int 10) (sint scale)))"

section \<open>Aggregate states\<close>

record agg_state =
  a_sum :: f64
  a_min :: f64
  a_max :: f64
  a_count :: u32

definition agg_empty :: agg_state where
  "agg_empty = \<lparr> a_sum = f_zero, a_min = f_inf, a_max = f_neg_inf, a_count = 0 \<rparr>"

definition update_agg :: "agg_state \<Rightarrow> f64 \<Rightarrow> agg_state" where
  "update_agg st value =
     \<lparr> a_sum = f_add (a_sum st) value,
       a_min = (if f_lt value (a_min st) then value else a_min st),
       a_max = (if f_lt (a_max st) value then value else a_max st),
       a_count = a_count st + 1 \<rparr>"

definition agg_int_column ::
  "'v list \<Rightarrow> mask \<Rightarrow> nat \<Rightarrow> f64 option \<Rightarrow> ('v \<Rightarrow> f64) \<Rightarrow> agg_state \<Rightarrow> agg_state result" where
  "agg_int_column vs msk rows scale_factor cast st =
     for_each_value vs msk rows
       (\<lambda>st val. Ok (update_agg st
          (case scale_factor of None \<Rightarrow> cast val | Some factor \<Rightarrow> f_mul (cast val) factor))) st"

definition aggregate_column :: "column \<Rightarrow> column_data \<Rightarrow> mask \<Rightarrow> nat \<Rightarrow> agg_state result" where
  "aggregate_column col data msk rows =
     (let factor = (if c_scale col \<noteq> 0 then Some (scale_int_value f_one (c_scale col)) else None) in
      case data of
        CD_U8 vs \<Rightarrow> agg_int_column vs msk rows factor (\<lambda>v. f_of_int (uint v)) agg_empty
      | CD_U16 vs \<Rightarrow> agg_int_column vs msk rows factor (\<lambda>v. f_of_int (uint v)) agg_empty
      | CD_I8 vs \<Rightarrow> agg_int_column vs msk rows factor (\<lambda>v. f_of_int (sint v)) agg_empty
      | CD_I16 vs \<Rightarrow> agg_int_column vs msk rows factor (\<lambda>v. f_of_int (sint v)) agg_empty
      | CD_I32 vs \<Rightarrow> agg_int_column vs msk rows factor (\<lambda>v. f_of_int (sint v)) agg_empty
      | CD_I64 vs \<Rightarrow> agg_int_column vs msk rows factor (\<lambda>v. f_of_int (sint v)) agg_empty
      | CD_U32 vs \<Rightarrow> agg_int_column vs msk rows factor (\<lambda>v. f_of_int (uint v)) agg_empty
      | CD_F64 vs \<Rightarrow>
          for_each_value vs msk rows
            (\<lambda>st value. Ok (if is_nan value then st else update_agg st value)) agg_empty
      | CD_Bool vs \<Rightarrow>
          for_each_row msk rows
            (\<lambda>st row. bindR (is_valid vs row) (\<lambda>v.
               Ok (update_agg st (if v then f_one else f_zero)))) agg_empty)"

definition merge_agg :: "agg_state \<Rightarrow> agg_state \<Rightarrow> agg_state" where
  "merge_agg target partial =
     (if a_count partial = 0 then target
      else \<lparr> a_sum = f_add (a_sum target) (a_sum partial),
             a_min = (if f_lt (a_min partial) (a_min target) then a_min partial else a_min target),
             a_max = (if f_lt (a_max target) (a_max partial) then a_max partial else a_max target),
             a_count = a_count target + a_count partial \<rparr>)"

text \<open>Only the fields that the kind of the aggregate needs.\<close>

definition merge_agg_by_kind :: "agg_state \<Rightarrow> agg_state \<Rightarrow> u8 \<Rightarrow> agg_state" where
  "merge_agg_by_kind target partial kind =
     (if a_count partial = 0 then target
      else
        let target = target\<lparr> a_count := a_count target + a_count partial \<rparr>;
            smaller = (if f_lt (a_min partial) (a_min target) then a_min partial else a_min target);
            larger = (if f_lt (a_max target) (a_max partial) then a_max partial else a_max target)
        in if kind = AGG_KIND_COUNT_STAR then target
           else if kind = AGG_KIND_MIN then target\<lparr> a_min := smaller \<rparr>
           else if kind = AGG_KIND_MAX then target\<lparr> a_max := larger \<rparr>
           else target\<lparr> a_sum := f_add (a_sum target) (a_sum partial),
                        a_min := smaller, a_max := larger \<rparr>)"

section \<open>The keys are decoded to what they were made from\<close>

lemma agg_key_roundtrip:
  assumes "col_id < 0x10000"
  shows "agg_key_col_id (agg_key_make col_id kind offset) = col_id"
    "agg_key_kind (agg_key_make col_id kind offset) = kind"
    "agg_key_offset (agg_key_make col_id kind offset) = offset"
proof -
  have high: "n < 16" if b: "bit col_id n" for n
  proof -
    have "unat col_id < 2 ^ 16" using assms by (simp add: word_less_nat_alt)
    then have "unat (take_bit 16 col_id) = unat col_id"
      by (simp add: unsigned_take_bit_eq take_bit_nat_eq_self)
    then have "take_bit 16 col_id = col_id" by (simp only: word_unat_eq_iff)
    with b show "n < 16" by (metis bit_take_bit_iff)
  qed
  have ffff: "(0xffff :: u32) = mask 16" "(0xff :: u32) = mask 8" by (simp_all add: mask_eq_exp_minus_1)
  show "agg_key_col_id (agg_key_make col_id kind offset) = col_id"
    unfolding agg_key_col_id_def agg_key_make_def ffff
    by (rule bit_word_eqI) (auto simp: bit_simps bit_or_iff bit_and_iff bit_mask_iff
      dest: bit_imp_le_length high order.strict_trans [OF high])
  show "agg_key_kind (agg_key_make col_id kind offset) = kind"
    unfolding agg_key_kind_def agg_key_make_def ffff
    by (rule bit_word_eqI) (auto simp: bit_simps bit_or_iff bit_and_iff bit_mask_iff)
  show "agg_key_offset (agg_key_make col_id kind offset) = offset"
    unfolding agg_key_offset_def agg_key_make_def ffff
    by (rule bit_word_eqI) (auto simp: bit_simps bit_or_iff bit_and_iff bit_mask_iff
      dest: bit_imp_le_length)
qed

end
