(* ===== verification/Hll_State.thy ===== *)
theory Hll_State
  imports Agg_State
begin

text \<open>
  The HyperLogLog sketch of \<^verbatim>\<open>wcol-decoder/src/query/hll.rs\<close>. The hash \<^verbatim>\<open>xxh3_64\<close> and the
  natural logarithm and square root of the platform are parameters. Shift amounts are taken modulo 64 and
  \<^verbatim>\<open>u8\<close> differences wrap, as in release builds.
\<close>

section \<open>Registers\<close>

record hll_state =
  hl_p :: u8
  hl_registers :: bytes

definition HLL_DEFAULT_PRECISION :: u8 where "HLL_DEFAULT_PRECISION = 14"

definition shift_amount :: "u8 \<Rightarrow> nat" where "shift_amount s = unat s mod 64"

definition hll_new :: "u8 \<Rightarrow> hll_state" where
  "hll_new p = \<lparr> hl_p = p, hl_registers = replicate (2 ^ shift_amount p) 0 \<rparr>"

definition hll_new_default :: hll_state where "hll_new_default = hll_new HLL_DEFAULT_PRECISION"

definition leading_zeros :: "u64 \<Rightarrow> nat" where "leading_zeros w = 64 - bitlen (unat w)"

text \<open>The register that a hash belongs to and the value it offers there.\<close>

definition hll_bucket :: "u8 \<Rightarrow> u64 \<Rightarrow> nat" where
  "hll_bucket p hash = unat (drop_bit (shift_amount (64 - p)) hash) mod 2 ^ shift_amount p"

definition hll_rho :: "u8 \<Rightarrow> u64 \<Rightarrow> u8" where
  "hll_rho p hash =
     (let w = push_bit (shift_amount p) hash
      in if w = 0 then 64 - p + 1 else of_nat (leading_zeros w + 1))"

definition hll_insert :: "hll_state \<Rightarrow> u64 \<Rightarrow> hll_state result" where
  "hll_insert st hash =
     (let i = hll_bucket (hl_p st) hash; rho = hll_rho (hl_p st) hash in
      bindR (index (hl_registers st) i) (\<lambda>old.
        Ok (if old < rho then st\<lparr> hl_registers := (hl_registers st)[i := rho] \<rparr> else st)))"

definition hll_merge :: "hll_state \<Rightarrow> hll_state \<Rightarrow> hll_state" where
  "hll_merge target other =
     (if hl_p target \<noteq> hl_p other then target
      else target\<lparr> hl_registers :=
        map2 (\<lambda>t oth. if t < oth then oth else t) (hl_registers target) (hl_registers other)
          @ drop (length (hl_registers other)) (hl_registers target) \<rparr>)"

section \<open>Inserting values\<close>

definition hll_insert_i64 :: "(bytes \<Rightarrow> u64) \<Rightarrow> hll_state \<Rightarrow> u64 \<Rightarrow> hll_state result" where
  "hll_insert_i64 xxh st value = hll_insert st (xxh (le64 value))"

definition hll_insert_u64 :: "(bytes \<Rightarrow> u64) \<Rightarrow> hll_state \<Rightarrow> u64 \<Rightarrow> hll_state result" where
  "hll_insert_u64 xxh st value = hll_insert st (xxh (le64 value))"

definition hll_insert_i32 :: "(bytes \<Rightarrow> u64) \<Rightarrow> hll_state \<Rightarrow> u32 \<Rightarrow> hll_state result" where
  "hll_insert_i32 xxh st value = hll_insert st (xxh (le32 value))"

definition hll_insert_u32 :: "(bytes \<Rightarrow> u64) \<Rightarrow> hll_state \<Rightarrow> u32 \<Rightarrow> hll_state result" where
  "hll_insert_u32 xxh st value = hll_insert st (xxh (le32 value))"

text \<open>NaN is skipped, and both zeros are one value.\<close>

definition canonical_f64 :: "f64 \<Rightarrow> f64" where
  "canonical_f64 value = (if f_eq value f_zero then f_zero else value)"

definition hll_insert_f64 :: "(bytes \<Rightarrow> u64) \<Rightarrow> hll_state \<Rightarrow> f64 \<Rightarrow> hll_state result" where
  "hll_insert_f64 xxh st value =
     (if is_nan value then Ok st else hll_insert st (xxh (le64 (canonical_f64 value))))"

definition hll_insert_bytes :: "(bytes \<Rightarrow> u64) \<Rightarrow> hll_state \<Rightarrow> bytes \<Rightarrow> hll_state result" where
  "hll_insert_bytes xxh st bs = hll_insert st (xxh bs)"

definition hll_each ::
  "'v list \<Rightarrow> mask \<Rightarrow> nat \<Rightarrow> ('v \<Rightarrow> 'w) \<Rightarrow> (hll_state \<Rightarrow> 'w \<Rightarrow> hll_state result) \<Rightarrow> hll_state
     \<Rightarrow> hll_state result" where
  "hll_each vs msk rows cast ins st = for_each_value vs msk rows (\<lambda>st val. ins st (cast val)) st"

text \<open>The scan of a boolean column stops when both values have been seen.\<close>

definition seen_step :: "bytes \<Rightarrow> bool \<times> bool \<Rightarrow> nat \<Rightarrow> (bool \<times> bool) result" where
  "seen_step vs seen row =
     (if fst seen \<and> snd seen then Ok seen
      else bindR (is_valid vs row) (\<lambda>v.
        Ok (if v then (True, snd seen) else (fst seen, True))))"

definition hll_aggregate_column ::
  "(bytes \<Rightarrow> u64) \<Rightarrow> column_data \<Rightarrow> mask \<Rightarrow> nat \<Rightarrow> hll_state \<Rightarrow> hll_state result" where
  "hll_aggregate_column xxh data msk rows st =
     (case data of
        CD_U8 vs \<Rightarrow> hll_each vs msk rows ucast (hll_insert_u32 xxh) st
      | CD_U16 vs \<Rightarrow> hll_each vs msk rows ucast (hll_insert_u32 xxh) st
      | CD_U32 vs \<Rightarrow> hll_each vs msk rows id (hll_insert_u32 xxh) st
      | CD_I8 vs \<Rightarrow> hll_each vs msk rows scast (hll_insert_i32 xxh) st
      | CD_I16 vs \<Rightarrow> hll_each vs msk rows scast (hll_insert_i32 xxh) st
      | CD_I32 vs \<Rightarrow> hll_each vs msk rows id (hll_insert_i32 xxh) st
      | CD_I64 vs \<Rightarrow> for_each_value vs msk rows (hll_insert_i64 xxh) st
      | CD_F64 vs \<Rightarrow> for_each_value vs msk rows (hll_insert_f64 xxh) st
      | CD_Bool vs \<Rightarrow>
          bindR (mask_is_full msk rows) (\<lambda>full.
          bindR (foldR (seen_step vs) (False, False) (if full then [0..<rows] else iter_mask msk rows))
            (\<lambda>(seen_true, seen_false).
          bindR (if seen_true then hll_insert_u32 xxh st 1 else Ok st) (\<lambda>st.
            if seen_false then hll_insert_u32 xxh st 0 else Ok st))))"

definition hll_aggregate_dict_ids ::
  "(bytes \<Rightarrow> u64) \<Rightarrow> column_data \<Rightarrow> mask \<Rightarrow> nat \<Rightarrow> hll_state \<Rightarrow> hll_state result" where
  "hll_aggregate_dict_ids xxh data msk rows st =
     (case data of
        CD_U8 vs \<Rightarrow> hll_each vs msk rows ucast (hll_insert_u32 xxh) st
      | CD_U16 vs \<Rightarrow> hll_each vs msk rows ucast (hll_insert_u32 xxh) st
      | CD_U32 vs \<Rightarrow> hll_each vs msk rows id (hll_insert_u32 xxh) st
      | _ \<Rightarrow> Ok st)"

section \<open>The estimate\<close>

definition f_dec :: "nat \<Rightarrow> nat \<Rightarrow> f64" where "f_dec n d = f_of_frac False n d"

definition hll_alpha :: "u8 \<Rightarrow> f64 \<Rightarrow> f64" where
  "hll_alpha p m =
     (if p = 4 then f_dec 673 1000 else if p = 5 then f_dec 697 1000
      else if p = 6 then f_dec 709 1000
      else f_div (f_dec 7213 10000) (f_add f_one (f_div (f_dec 1079 1000) m)))"

definition hll_estimate :: "(f64 \<Rightarrow> f64) \<Rightarrow> hll_state \<Rightarrow> f64" where
  "hll_estimate ln st =
     (let m = f_of_int (int (length (hl_registers st)));
          alpha_m = hll_alpha (hl_p st) m;
          total = foldl (\<lambda>s reg. f_add s (f_powi (f_of_int 2) (- uint reg))) f_zero (hl_registers st);
          zeros = length (filter (\<lambda>reg. reg = 0) (hl_registers st));
          raw = f_div (f_mul (f_mul alpha_m m) m) total;
          two_pow_32 = f_of_int (2 ^ 32)
      in if f_le raw (f_mul (f_dec 25 10) m) \<and> 0 < zeros
         then f_mul m (ln (f_div m (f_of_int (int zeros))))
         else if f_lt (f_div two_pow_32 (f_of_int 30)) raw
         then f_mul (f_neg two_pow_32) (ln (f_sub f_one (f_div raw two_pow_32)))
         else raw)"

definition hll_error_estimate :: "(f64 \<Rightarrow> f64) \<Rightarrow> hll_state \<Rightarrow> f64" where
  "hll_error_estimate sqrt st =
     f_div (f_dec 104 100) (sqrt (f_of_int (int (length (hl_registers st)))))"

end
