(* ===== verification/Plan_State.thy ===== *)
theory Plan_State
  imports Hll_State Filter_Mask
begin

text \<open>
  The state of a query plan (\<^verbatim>\<open>Plan\<close> of \<^verbatim>\<open>wcol-decoder/src/types.rs\<close>), the order of row
  candidates, the columns a plan needs (\<^verbatim>\<open>query/plan.rs\<close>) and the resolution of string
  literals to dictionary ids (\<^verbatim>\<open>query/filter_literals.rs\<close>). Hash maps whose iteration order
  is not used are maps, hash sets are sets; timing counters are left out.
\<close>

section \<open>The records of a plan\<close>

record group_by =
  gb_keys :: "u32 list"
  gb_value_col :: "u32 option"
  gb_value_kind :: u8
  gb_count_kind :: u8

record group_agg =
  ga_col_id :: u32
  ga_kind :: u8

datatype group_agg_state = GA_Numeric agg_state | GA_Distinct "u64 set"

record group_state =
  gs_aggs :: "group_agg_state list"

record group_key =
  gk_a :: u64
  gk_b :: u64

datatype row_key = RK_Null | RK_Num f64 | RK_Bytes bytes

record row_candidate =
  rc_k1 :: row_key
  rc_k2 :: "row_key option"
  rc_row_id :: u64

datatype projection_column =
    PC_F64 "f64 list" bytes | PC_Dict_Id "u32 list" bytes | PC_Bool bytes bytes

record row_projection =
  rp_row_count :: nat
  rp_col_ids :: "u32 list"
  rp_kinds :: bytes
  rp_columns :: "projection_column list"

definition row_projection_empty :: row_projection where
  "row_projection_empty = \<lparr> rp_row_count = 0, rp_col_ids = [], rp_kinds = [], rp_columns = [] \<rparr>"

text \<open>\<^verbatim>\<open>RowProjectionBuf::clear\<close>\<close>

definition row_projection_clear :: "row_projection \<Rightarrow> row_projection" where
  "row_projection_clear rp =
     rp\<lparr> rp_row_count := 0, rp_col_ids := [], rp_kinds := [], rp_columns := [] \<rparr>"

text \<open>The heap of row candidates is kept as the list of its elements in ascending order.\<close>

record plan =
  pl_runtime :: u32
  pl_filters :: "filter_spec list"
  pl_combine :: "int list"
  pl_group_by :: "group_by option"
  pl_aggregates :: "u32 list"
  pl_limit :: u32
  pl_offset :: u32
  pl_rows :: "u64 list"
  pl_agg_state :: "u32 \<rightharpoonup> agg_state"
  pl_group_state :: "group_key \<rightharpoonup> group_state"
  pl_group_keys :: "group_key list"
  pl_group_key_repr :: "group_key \<rightharpoonup> bytes"
  pl_group_order_by_count :: bool
  pl_group_aggs :: "group_agg list"
  pl_row_order_by :: "u32 list"
  pl_row_heap :: "row_candidate list"
  pl_row_order_lex_ranks :: "u32 \<rightharpoonup> u32 list"
  pl_hll_state :: "u32 \<rightharpoonup> hll_state"
  pl_group_emit_raw :: bool
  pl_group_rows_raw :: bytes
  pl_hist_dict_len :: u32
  pl_hist_counts :: "u32 list option"
  pl_hist_sums :: "f64 list option"
  pl_select_cols :: "u32 list"
  pl_row_projection :: row_projection

section \<open>The order of row candidates\<close>

definition cmp_by :: "('a \<Rightarrow> int) \<Rightarrow> 'a \<Rightarrow> 'a \<Rightarrow> int" where
  "cmp_by key a b = (if key a < key b then - 1 else if key b < key a then 1 else 0)"

definition cmp_then :: "int \<Rightarrow> int \<Rightarrow> int" where "cmp_then c d = (if c = 0 then d else c)"

fun cmp_row_key :: "row_key \<Rightarrow> row_key \<Rightarrow> int" where
  "cmp_row_key RK_Null RK_Null = 0"
| "cmp_row_key RK_Null (RK_Num _) = 1"
| "cmp_row_key RK_Null (RK_Bytes _) = 1"
| "cmp_row_key (RK_Num _) RK_Null = - 1"
| "cmp_row_key (RK_Bytes _) RK_Null = - 1"
| "cmp_row_key (RK_Num x) (RK_Num y) = cmp_by total_key x y"
| "cmp_row_key (RK_Bytes x) (RK_Bytes y) = lex_cmp x y"
| "cmp_row_key (RK_Num _) (RK_Bytes _) = - 1"
| "cmp_row_key (RK_Bytes _) (RK_Num _) = 1"

fun cmp_second_key :: "row_key option \<Rightarrow> row_key option \<Rightarrow> int" where
  "cmp_second_key (Some a) (Some b) = cmp_row_key a b"
| "cmp_second_key None None = 0"
| "cmp_second_key None (Some _) = - 1"
| "cmp_second_key (Some _) None = 1"

definition cmp_candidate :: "row_candidate \<Rightarrow> row_candidate \<Rightarrow> int" where
  "cmp_candidate x y =
     cmp_then (cmp_row_key (rc_k1 x) (rc_k1 y))
       (cmp_then (cmp_second_key (rc_k2 x) (rc_k2 y)) (cmp_by uint (rc_row_id x) (rc_row_id y)))"

definition row_le :: "row_candidate \<Rightarrow> row_candidate \<Rightarrow> bool" where
  "row_le x y \<longleftrightarrow> cmp_candidate x y \<le> 0"

section \<open>The columns of a plan\<close>

definition mark_required :: "bool list \<Rightarrow> u32 \<Rightarrow> bool list" where
  "mark_required required col_id =
     (if unat col_id < length required then required[unat col_id := True] else required)"

definition agg_column :: "u32 \<Rightarrow> u32" where
  "agg_column agg_key =
     (if agg_key_kind agg_key = AGG_KIND_COUNT_STAR then ROW_COUNT_COL_ID else agg_key_col_id agg_key)"

definition plan_required_columns :: "plan \<Rightarrow> nat \<Rightarrow> u32 list" where
  "plan_required_columns plan schema_len =
     (let required = replicate schema_len False;
          required = foldl mark_required required (map fl_col_id (pl_filters plan));
          required = foldl mark_required required
            (filter (\<lambda>c. c \<noteq> ROW_COUNT_COL_ID) (map agg_column (pl_aggregates plan)));
          required = (case pl_group_by plan of
              None \<Rightarrow> required
            | Some g \<Rightarrow>
                let required = foldl mark_required required (gb_keys g) in
                (case gb_value_col g of None \<Rightarrow> required | Some v \<Rightarrow> mark_required required v));
          required = foldl mark_required required (pl_row_order_by plan);
          required = foldl mark_required required
            (filter (\<lambda>c. c \<noteq> ROW_COUNT_COL_ID) (map ga_col_id (pl_group_aggs plan)))
      in map of_nat (filter (\<lambda>i. required ! i) [0..<schema_len]))"

definition plan_materialize_required_columns :: "plan \<Rightarrow> nat \<Rightarrow> u32 list" where
  "plan_materialize_required_columns plan schema_len =
     filter (\<lambda>c. unat c < schema_len) (pl_select_cols plan)"

section \<open>String literals\<close>

definition literal_id :: "dictionary \<Rightarrow> bytes \<Rightarrow> f64" where
  "literal_id dict s =
     f_of_int (uint (case dict_string_id dict s of Some i \<Rightarrow> i | None \<Rightarrow> 0xffffffff))"

definition resolve_deferred_filter :: "filter_spec \<Rightarrow> column \<Rightarrow> runtime \<Rightarrow> filter_spec" where
  "resolve_deferred_filter fl col rt =
     (if fl_op fl = OP_LIKE \<or> fl_op fl = OP_NOT_LIKE then fl
      else case r_dicts rt (c_dict_id col) of
          None \<Rightarrow> fl
        | Some dict \<Rightarrow>
            let fl = (case fl_value_str fl of
                  None \<Rightarrow> fl
                | Some s \<Rightarrow> fl\<lparr> fl_value := literal_id dict s, fl_value2 := literal_id dict s,
                                   fl_value_str := None \<rparr>)
            in (case fl_in_list_str fl of
                  None \<Rightarrow> fl
                | Some strs \<Rightarrow> fl\<lparr> fl_in_list := Some (map (literal_id dict) strs),
                                      fl_in_list_str := None \<rparr>))"

definition resolve_like_ids :: "filter_spec \<Rightarrow> column \<Rightarrow> runtime \<Rightarrow> filter_spec" where
  "resolve_like_ids fl col rt =
     (if (fl_op fl = OP_LIKE \<or> fl_op fl = OP_NOT_LIKE) \<and> fl_like_ids fl = None then
        (case fl_value_str fl of
           None \<Rightarrow> fl
         | Some pattern \<Rightarrow>
             let ids = build_like_id_set col pattern rt in
             if ids = [] then fl else fl\<lparr> fl_like_ids := Some ids \<rparr>)
      else fl)"

definition finalize_filter :: "runtime \<Rightarrow> filter_spec \<Rightarrow> filter_spec" where
  "finalize_filter rt fl =
     (case get (r_schema rt) (unat (fl_col_id fl)) of
        None \<Rightarrow> fl
      | Some col \<Rightarrow>
          if c_flags col AND FLAG_DICT = 0 then fl
          else resolve_like_ids (resolve_deferred_filter fl col rt) col rt)"

definition finalize_plan_filters :: "plan \<Rightarrow> runtime \<Rightarrow> plan" where
  "finalize_plan_filters plan rt =
     plan\<lparr> pl_filters := map (finalize_filter rt) (pl_filters plan) \<rparr>"

end
