(* ===== verification/Group_Key.thy ===== *)
theory Group_Key
  imports Plan_State
begin

text \<open>
  Single values of decoded columns and the keys of groups
  (\<^verbatim>\<open>wcol-decoder/src/query/group.rs\<close>). \<^verbatim>\<open>xxh3_64\<close> and its seeded form are
  parameters. Indexing \<^verbatim>\<open>values[row]\<close> panics out of range.
\<close>

section \<open>Values\<close>

definition read_value_f64 :: "column \<Rightarrow> column_data \<Rightarrow> nat \<Rightarrow> f64 result" where
  "read_value_f64 col data row =
     (let scaled = (\<lambda>i. scale_int_value (f_of_int i) (c_scale col)) in
      case data of
        CD_U8 vs \<Rightarrow> bindR (index vs row) (\<lambda>v. Ok (scaled (uint v)))
      | CD_U16 vs \<Rightarrow> bindR (index vs row) (\<lambda>v. Ok (scaled (uint v)))
      | CD_I8 vs \<Rightarrow> bindR (index vs row) (\<lambda>v. Ok (scaled (sint v)))
      | CD_I16 vs \<Rightarrow> bindR (index vs row) (\<lambda>v. Ok (scaled (sint v)))
      | CD_I32 vs \<Rightarrow> bindR (index vs row) (\<lambda>v. Ok (scaled (sint v)))
      | CD_I64 vs \<Rightarrow> bindR (index vs row) (\<lambda>v. Ok (scaled (sint v)))
      | CD_U32 vs \<Rightarrow> bindR (index vs row) (\<lambda>v. Ok (scaled (uint v)))
      | CD_F64 vs \<Rightarrow> index vs row
      | CD_Bool vs \<Rightarrow> bindR (is_valid vs row) (\<lambda>b. Ok (if b then f_one else f_zero)))"

definition read_distinct_key :: "column_data \<Rightarrow> nat \<Rightarrow> u64 option result" where
  "read_distinct_key data row =
     (case data of
        CD_U8 vs \<Rightarrow> bindR (index vs row) (\<lambda>v. Ok (Some (ucast v)))
      | CD_U16 vs \<Rightarrow> bindR (index vs row) (\<lambda>v. Ok (Some (ucast v)))
      | CD_U32 vs \<Rightarrow> bindR (index vs row) (\<lambda>v. Ok (Some (ucast v)))
      | CD_I8 vs \<Rightarrow> bindR (index vs row) (\<lambda>v. Ok (Some (scast v)))
      | CD_I16 vs \<Rightarrow> bindR (index vs row) (\<lambda>v. Ok (Some (scast v)))
      | CD_I32 vs \<Rightarrow> bindR (index vs row) (\<lambda>v. Ok (Some (scast v)))
      | CD_I64 vs \<Rightarrow> bindR (index vs row) (\<lambda>v. Ok (Some v))
      | CD_F64 vs \<Rightarrow> bindR (index vs row) (\<lambda>v.
          Ok (if is_nan v then None else Some (canonical_f64 v)))
      | CD_Bool vs \<Rightarrow> bindR (is_valid vs row) (\<lambda>b. Ok (Some (if b then 1 else 0))))"

section \<open>Keys\<close>

definition stable_raw_string_key ::
  "(bytes \<Rightarrow> u64) \<Rightarrow> column \<Rightarrow> column_data \<Rightarrow> nat \<Rightarrow> (u32 \<rightharpoonup> dictionary) option \<Rightarrow> u64 option" where
  "stable_raw_string_key xxh col data row dicts =
     Option.bind (dict_index_at data row) (\<lambda>id.
     Option.bind dicts (\<lambda>dicts.
     Option.bind (dicts (c_dict_id col)) (\<lambda>dict.
       case get (d_hash_cache dict) id of
         Some cached \<Rightarrow> Some cached
       | None \<Rightarrow> map_option xxh (dict_value_bytes dict id))))"

text \<open>Narrow signed values are sign-extended to 32 bits and then zero-extended.\<close>

definition plain_key_value :: "column_data \<Rightarrow> nat \<Rightarrow> u64 result" where
  "plain_key_value data row =
     (case data of
        CD_U8 vs \<Rightarrow> bindR (index vs row) (\<lambda>v. Ok (ucast v))
      | CD_U16 vs \<Rightarrow> bindR (index vs row) (\<lambda>v. Ok (ucast v))
      | CD_I8 vs \<Rightarrow> bindR (index vs row) (\<lambda>v. Ok (ucast (scast v :: u32)))
      | CD_I16 vs \<Rightarrow> bindR (index vs row) (\<lambda>v. Ok (ucast (scast v :: u32)))
      | CD_I32 vs \<Rightarrow> bindR (index vs row) (\<lambda>v. Ok (ucast v))
      | CD_I64 vs \<Rightarrow> index vs row
      | CD_U32 vs \<Rightarrow> bindR (index vs row) (\<lambda>v. Ok (ucast v))
      | CD_F64 vs \<Rightarrow> bindR (index vs row) (\<lambda>v. Ok (f_as_u64 v))
      | CD_Bool vs \<Rightarrow> bindR (is_valid vs row) (\<lambda>b. Ok (if b then 1 else 0)))"

definition read_key_value ::
  "(bytes \<Rightarrow> u64) \<Rightarrow> column \<Rightarrow> column_data \<Rightarrow> nat \<Rightarrow> (u32 \<rightharpoonup> dictionary) option \<Rightarrow> u64 result" where
  "read_key_value xxh col data row dicts =
     (case (if c_logical col = TYPE_STRING \<and> c_flags col AND FLAG_DICT = 0
            then stable_raw_string_key xxh col data row dicts else None) of
        Some k \<Rightarrow> Ok k
      | None \<Rightarrow> plain_key_value data row)"

definition build_group_key ::
  "(bytes \<Rightarrow> u64) \<Rightarrow> (column \<times> column_data) list \<Rightarrow> nat \<Rightarrow> (u32 \<rightharpoonup> dictionary) option \<Rightarrow> group_key result"
where
  "build_group_key xxh keys row dicts =
     (if length keys = 1 then
        bindR (read_key_value xxh (fst (keys ! 0)) (snd (keys ! 0)) row dicts) (\<lambda>a.
          Ok \<lparr> gk_a = a, gk_b = 0 \<rparr>)
      else
        bindR (index keys 0) (\<lambda>(col, data). bindR (read_key_value xxh col data row dicts) (\<lambda>a.
        bindR (index keys 1) (\<lambda>(col, data). bindR (read_key_value xxh col data row dicts) (\<lambda>b.
          Ok \<lparr> gk_a = a, gk_b = b \<rparr>)))))"

definition read_key_bytes ::
  "column \<Rightarrow> column_data \<Rightarrow> nat \<Rightarrow> (u32 \<rightharpoonup> dictionary) \<Rightarrow> bytes option" where
  "read_key_bytes col data row dicts =
     (if c_logical col \<noteq> TYPE_STRING then None
      else Option.bind (dict_index_at data row) (\<lambda>id.
           Option.bind (dicts (c_dict_id col)) (\<lambda>dict. dict_value_bytes dict id)))"

text \<open>The byte form of a key: for each column its position, its types and its length-prefixed value.\<close>

definition key_part ::
  "(bytes \<Rightarrow> u64) \<Rightarrow> nat \<Rightarrow> column \<Rightarrow> column_data \<Rightarrow> nat \<Rightarrow> (u32 \<rightharpoonup> dictionary) \<Rightarrow> bytes result" where
  "key_part xxh idx col data row dicts =
     (let head = [of_nat idx, c_logical col, c_physical col] in
      case read_key_bytes col data row dicts of
        Some bs \<Rightarrow> Ok (head @ le32 (of_nat (length bs)) @ bs)
      | None \<Rightarrow> bindR (read_key_value xxh col data row (Some dicts)) (\<lambda>v.
          Ok (head @ le32 8 @ le64 v)))"

record materialized_key =
  mk_key :: group_key
  mk_repr :: bytes

definition KEY_SEED :: u64 where "KEY_SEED = 0x9e3779b97f4a7c15"

definition build_group_key_materialized ::
  "(bytes \<Rightarrow> u64) \<Rightarrow> (bytes \<Rightarrow> u64 \<Rightarrow> u64) \<Rightarrow> (column \<times> column_data) list \<Rightarrow> nat
     \<Rightarrow> (u32 \<rightharpoonup> dictionary) \<Rightarrow> materialized_key result" where
  "build_group_key_materialized xxh xxh_seed keys row dicts =
     bindR (mapR (\<lambda>(idx, col, data). key_part xxh idx col data row dicts)
              (zip [0..<length keys] keys)) (\<lambda>parts.
       let repr = concat parts in
       Ok \<lparr> mk_key = \<lparr> gk_a = xxh repr, gk_b = xxh_seed repr KEY_SEED \<rparr>, mk_repr = repr \<rparr>)"

section \<open>What the keys distinguish\<close>

text \<open>The bytes that identify the value of a key column at a row.\<close>

definition key_content ::
  "(bytes \<Rightarrow> u64) \<Rightarrow> column \<Rightarrow> column_data \<Rightarrow> nat \<Rightarrow> (u32 \<rightharpoonup> dictionary) \<Rightarrow> bytes result" where
  "key_content xxh col data row dicts =
     (case read_key_bytes col data row dicts of
        Some bs \<Rightarrow> Ok bs
      | None \<Rightarrow> bindR (read_key_value xxh col data row (Some dicts)) (\<lambda>v. Ok (le64 v)))"

definition key_contents ::
  "(bytes \<Rightarrow> u64) \<Rightarrow> (column \<times> column_data) list \<Rightarrow> nat \<Rightarrow> (u32 \<rightharpoonup> dictionary) \<Rightarrow> bytes list result" where
  "key_contents xxh keys row dicts = mapR (\<lambda>(col, data). key_content xxh col data row dicts) keys"

definition framed :: "nat \<Rightarrow> column \<Rightarrow> bytes \<Rightarrow> bytes" where
  "framed idx col bs = [of_nat idx, c_logical col, c_physical col] @ le32 (of_nat (length bs)) @ bs"

lemma key_part_framed:
  "key_part xxh idx col data row dicts =
     bindR (key_content xxh col data row dicts) (\<lambda>bs. Ok (framed idx col bs))"
  by (auto simp: key_part_def key_content_def framed_def Let_def bindR_def le64_def
      split: option.splits sum.splits)

lemma framed_prefix:
  assumes "framed i c x @ r = framed i c y @ s" "length x < 2 ^ 32" "length y < 2 ^ 32"
  shows "x = y \<and> r = s"
proof -
  have "le32 (of_nat (length x)) = le32 (of_nat (length y))"
    using assms(1) by (simp add: framed_def append_eq_append_conv)
  then have "(of_nat (length x) :: u32) = of_nat (length y)" by (rule b32.enc_inj)
  then have "length x = length y" using assms(2,3) unat_of_nat32 by metis
  then show ?thesis using assms(1) by (simp add: framed_def)
qed

lemma framed_concat:
  assumes "length xs = length cs" "length ys = length cs" "length js = length cs"
    and "\<forall>x \<in> set xs \<union> set ys. length x < 2 ^ 32"
    and "concat (map (\<lambda>(i, c, x). framed i c x) (zip js (zip cs xs))) =
         concat (map (\<lambda>(i, c, x). framed i c x) (zip js (zip cs ys)))"
  shows "xs = ys"
  using assms
proof (induction cs arbitrary: xs ys js)
  case (Cons c cs)
  then obtain x xs' y ys' j js' where "xs = x # xs'" "ys = y # ys'" "js = j # js'"
    by (metis length_Suc_conv length_Cons)
  with Cons.prems Cons.IH [of xs' ys' js'] framed_prefix [of j c x _ y] show ?case by auto
qed simp

lemma materialized_repr:
  assumes "key_contents xxh keys row dicts = Ok xs"
  shows "\<exists>k. build_group_key_materialized xxh seeded keys row dicts = Ok k \<and>
     mk_repr k = concat (map (\<lambda>(i, c, x). framed i c x) (zip [0..<length keys] (zip (map fst keys) xs))) \<and>
     mk_key k = \<lparr> gk_a = xxh (mk_repr k), gk_b = seeded (mk_repr k) KEY_SEED \<rparr>"
proof -
  have "mapR (\<lambda>(idx, col, data). key_part xxh idx col data row dicts) (zip js keys) =
      Ok (map (\<lambda>(i, c, x). framed i c x) (zip js (zip (map fst keys) xs)))"
    if "length js = length keys" for js
    using assms that unfolding key_contents_def
  proof (induction keys arbitrary: xs js)
    case (Cons k keys)
    then obtain j js' where "js = j # js'" by (cases js) auto
    with Cons show ?case by (cases k) (auto simp: key_part_framed)
  qed simp
  then show ?thesis by (simp add: build_group_key_materialized_def Let_def)
qed

text \<open>Two rows have the same byte form exactly when each key column has the same content.\<close>

lemma materialized_repr_eq:
  assumes "key_contents xxh keys r1 dicts = Ok xs" "key_contents xxh keys r2 dicts = Ok ys"
    and "\<forall>x \<in> set xs \<union> set ys. length x < 2 ^ 32"
    and "build_group_key_materialized xxh seeded keys r1 dicts = Ok k1"
    and "build_group_key_materialized xxh seeded keys r2 dicts = Ok k2"
  shows "mk_repr k1 = mk_repr k2 \<longleftrightarrow> xs = ys"
proof
  have len: "length xs = length keys" "length ys = length keys"
    using assms(1,2) mapR_length unfolding key_contents_def by blast+
  assume "mk_repr k1 = mk_repr k2"
  with assms(3-) len show "xs = ys"
    using materialized_repr [OF assms(1), of seeded] materialized_repr [OF assms(2), of seeded]
      framed_concat [of xs "map fst keys" ys "[0..<length keys]"] by simp
next
  assume "xs = ys"
  then show "mk_repr k1 = mk_repr k2"
    using materialized_repr [OF assms(1), of seeded] materialized_repr [OF assms(2), of seeded] assms(4,5)
    by simp
qed

text \<open>
  The value of a key column at a row, independent of how keys are built: the text of a string
  column (by its dictionary, also the temporary one of a raw page), the number of an integer
  column, a truth value. Doubles have none: their keys are not faithful (see below).
\<close>

datatype cell = Text bytes | Whole int | Truth bool

definition cell_at :: "column \<Rightarrow> column_data \<Rightarrow> nat \<Rightarrow> (u32 \<rightharpoonup> dictionary) \<Rightarrow> cell option" where
  "cell_at col data row dicts =
     (if c_logical col = TYPE_STRING then
        map_option Text (Option.bind (dict_index_at data row) (\<lambda>id.
          Option.bind (dicts (c_dict_id col)) (\<lambda>dict. dict_value_bytes dict id)))
      else case data of
          CD_U8 vs \<Rightarrow> map_option (Whole \<circ> uint) (get vs row)
        | CD_U16 vs \<Rightarrow> map_option (Whole \<circ> uint) (get vs row)
        | CD_U32 vs \<Rightarrow> map_option (Whole \<circ> uint) (get vs row)
        | CD_I8 vs \<Rightarrow> map_option (Whole \<circ> sint) (get vs row)
        | CD_I16 vs \<Rightarrow> map_option (Whole \<circ> sint) (get vs row)
        | CD_I32 vs \<Rightarrow> map_option (Whole \<circ> sint) (get vs row)
        | CD_I64 vs \<Rightarrow> map_option (Whole \<circ> sint) (get vs row)
        | CD_Bool bm \<Rightarrow> (if row < 8 * length bm then Some (Truth (bitmap_bit bm row)) else None)
        | CD_F64 vs \<Rightarrow> None)"

definition row_cells :: "(column \<times> column_data) list \<Rightarrow> nat \<Rightarrow> (u32 \<rightharpoonup> dictionary) \<Rightarrow> cell list option" where
  "row_cells keys row dicts = those (map (\<lambda>(col, data). cell_at col data row dicts) keys)"

definition short_cell :: "cell \<Rightarrow> bool" where
  "short_cell c \<longleftrightarrow> (case c of Text bs \<Rightarrow> length bs < 2 ^ 32 | _ \<Rightarrow> True)"

lemma ucast_up_eq: "is_up (ucast :: 'a::len word \<Rightarrow> 'b::len word) \<Longrightarrow> (ucast v :: 'b word) = ucast (w :: 'a word) \<longleftrightarrow> v = w"
  by (metis ucast_up_ucast_id)

lemma scast_up_eq: "is_up (scast :: 'a::len word \<Rightarrow> 'b::len word) \<Longrightarrow> (scast v :: 'b word) = scast (w :: 'a word) \<longleftrightarrow> v = w"
  by (metis scast_up_scast_id)

lemma uint_eq: "uint v = uint w \<longleftrightarrow> v = w"
  by (rule word_uint_eq_iff [symmetric])

lemma sint_eq: "sint v = sint w \<longleftrightarrow> v = w"
  using signed_word_eqI [of v w] by auto

lemma le64_eq: "le64 x = le64 y \<longleftrightarrow> x = y"
  using b64.enc_inj by blast

lemma plain_cells:
  assumes "c_logical col \<noteq> TYPE_STRING" "cell_at col data r dicts = Some a" "cell_at col data s dicts = Some b"
  shows "\<exists>v w. plain_key_value data r = Ok v \<and> plain_key_value data s = Ok w \<and> (v = w \<longleftrightarrow> a = b)"
proof -
  have up: "is_up (ucast :: 8 word \<Rightarrow> 64 word)" "is_up (ucast :: 16 word \<Rightarrow> 64 word)" "is_up (ucast :: 32 word \<Rightarrow> 64 word)"
    "is_up (scast :: 8 word \<Rightarrow> 32 word)" "is_up (scast :: 16 word \<Rightarrow> 32 word)"
    by (simp_all add: is_up)
  show ?thesis
  proof (cases data)
    case (CD_Bool bm)
    with assms have "r < 8 * length bm" "s < 8 * length bm" "a = Truth (bitmap_bit bm r)" "b = Truth (bitmap_bit bm s)"
      by (auto simp: cell_at_def split: if_splits)
    with CD_Bool show ?thesis by (simp add: plain_key_value_def is_valid_eq div_less_iff_less_mult mult.commute)
  qed (use assms in \<open>auto simp: cell_at_def plain_key_value_def index_def get_def up ucast_up_eq scast_up_eq uint_eq sint_eq
      split: if_splits\<close>)
qed

lemma cell_contents:
  assumes "cell_at col data r dicts = Some a" "cell_at col data s dicts = Some b" "short_cell a" "short_cell b"
  shows "\<exists>x y. key_content xxh col data r dicts = Ok x \<and> key_content xxh col data s dicts = Ok y \<and> (x = y \<longleftrightarrow> a = b) \<and>
    length x < 2 ^ 32 \<and> length y < 2 ^ 32"
proof (cases "c_logical col = TYPE_STRING")
  case True
  with assms show ?thesis
    by (auto simp: cell_at_def key_content_def read_key_bytes_def short_cell_def split: option.split)
next
  case False
  then have "read_key_bytes col data k dicts = None" for k by (simp add: read_key_bytes_def)
  with False plain_cells [OF False assms(1,2)] show ?thesis
    by (auto simp: key_content_def read_key_value_def le64_eq)
qed

text \<open>Two rows have the same contents exactly when they have the same cells.\<close>

lemma row_cells_contents:
  assumes "row_cells keys r dicts = Some xs" "row_cells keys s dicts = Some ys" "list_all short_cell (xs @ ys)"
  shows "\<exists>us vs. key_contents xxh keys r dicts = Ok us \<and> key_contents xxh keys s dicts = Ok vs \<and> (us = vs \<longleftrightarrow> xs = ys) \<and>
    (\<forall>u \<in> set us \<union> set vs. length u < 2 ^ 32)"
  using assms unfolding row_cells_def key_contents_def
proof (induction keys arbitrary: xs ys)
  case (Cons k keys)
  obtain col data where k: "k = (col, data)" by (cases k)
  obtain a as b bs where ab: "cell_at col data r dicts = Some a" "those (map (\<lambda>(col, data). cell_at col data r dicts) keys) = Some as"
    "cell_at col data s dicts = Some b" "those (map (\<lambda>(col, data). cell_at col data s dicts) keys) = Some bs"
    "xs = a # as" "ys = b # bs"
    using Cons.prems(1,2) k by (auto split: option.splits)
  from Cons.IH [OF ab(2,4)] Cons.prems(3) ab(5,6) obtain us vs where
    "mapR (\<lambda>(col, data). key_content xxh col data r dicts) keys = Ok us"
    "mapR (\<lambda>(col, data). key_content xxh col data s dicts) keys = Ok vs"
    "us = vs \<longleftrightarrow> as = bs" "\<forall>u \<in> set us \<union> set vs. length u < 2 ^ 32" by auto
  with cell_contents [OF ab(1,3)] Cons.prems(3) ab(5,6) k show ?case by (fastforce simp: k)
qed simp

text \<open>A column of doubles is keyed by its values' integer parts: 1.5 and 1.25 are one group.\<close>

lemma fraction_keys_merge:
  "plain_key_value (CD_F64 [0x3ff8000000000000, 0x3ff4000000000000]) 0 = Ok 1"
  "plain_key_value (CD_F64 [0x3ff8000000000000, 0x3ff4000000000000]) 1 = Ok 1"
  by (simp_all add: plain_key_value_def index_def f_as_u64_def f_as_int_def is_nan_def is_finite_def
      mag_def inf_mag_def trunc_int_def neg_bit_def abs_trunc_def f_expo_def f_mant_def)

end
