(* ===== verification/Top_K.thy ===== *)
theory Top_K
  imports Prelude "HOL-Library.Multiset"
begin

text \<open>
  The bounded heaps of the decoder: \<^verbatim>\<open>push_candidate\<close> and the two \<^verbatim>\<open>hist_topk\<close> loops
  keep the first elements of an order in a \<^verbatim>\<open>BinaryHeap\<close> that never holds more than a
  given number. A heap is the list of its elements in ascending order, so that the element
  \<^verbatim>\<open>peek\<close> and \<^verbatim>\<open>pop\<close> see is the last one. Under a linear order the heap holds the
  first elements of the sorted input, in whatever order the input came.
\<close>

definition push_bounded :: "('a \<Rightarrow> 'a \<Rightarrow> bool) \<Rightarrow> nat \<Rightarrow> 'a list \<Rightarrow> 'a \<Rightarrow> 'a list" where
  "push_bounded le n heap x =
     (if length heap < n then insert_by le x heap
      else if heap = [] then heap
      else if \<not> le (last heap) x then insert_by le x (butlast heap)
      else heap)"

locale linear_le =
  fixes le :: "'a \<Rightarrow> 'a \<Rightarrow> bool"
  assumes total: "le x y \<or> le y x"
    and trans: "le x y \<Longrightarrow> le y z \<Longrightarrow> le x z"
    and antisym: "le x y \<Longrightarrow> le y x \<Longrightarrow> x = y"
begin

lemma le_refl: "le x x"
  using total by blast

lemma sorted: "sorted_wrt le (sort_by le xs)"
  by (rule sorted_sort_by) (use total trans in \<open>unfold total_le_def, blast\<close>)

lemma mset_insert: "mset (insert_by le x ys) = add_mset x (mset ys)"
  by (induction ys) auto

lemma mset_sort: "mset (sort_by le xs) = mset xs"
  by (induction xs) (auto simp: mset_insert)

lemma sorted_unique:
  "sorted_wrt le xs \<Longrightarrow> sorted_wrt le ys \<Longrightarrow> mset xs = mset ys \<Longrightarrow> xs = ys"
proof (induction xs arbitrary: ys)
  case (Cons x xs)
  from Cons.prems(3) have mem: "x \<in> set ys" using mset_eq_setD by fastforce
  then obtain y ys' where ys: "ys = y # ys'" by (cases ys) auto
  have "y \<in> set (x # xs)" using Cons.prems(3) unfolding ys by (metis list.set_intros(1) mset_eq_setD)
  then have "le x y" using Cons.prems(1) le_refl by auto
  moreover have "le y x" using Cons.prems(2) mem le_refl unfolding ys by auto
  ultimately have "x = y" by (rule antisym)
  with Cons ys show ?case by auto
qed simp

lemma sort_cong: "mset xs = mset ys \<Longrightarrow> sort_by le xs = sort_by le ys"
  by (rule sorted_unique) (simp_all add: sorted mset_sort)

lemma take_insert_less:
  "n < length s \<Longrightarrow> \<not> le (s ! n) x \<Longrightarrow>
     take (Suc n) (insert_by le x s) = insert_by le x (take n s)"
proof (induction s arbitrary: n)
  case (Cons y s)
  then show ?case using total by (cases n) auto
qed simp

lemma take_insert_greater:
  "n < length s \<Longrightarrow> le (s ! n) x \<Longrightarrow> sorted_wrt le s \<Longrightarrow>
     take (Suc n) (insert_by le x s) = take (Suc n) s"
proof (induction s arbitrary: n)
  case (Cons y s)
  show ?case
  proof (cases "le x y")
    case True
    have same: "(y # s) ! i = x" if "i \<le> n" for i
    proof -
      have "i < length (y # s)" using that Cons.prems(1) by simp
      then have "le y ((y # s) ! i)" using Cons.prems(3) le_refl by (cases i) auto
      moreover have "le ((y # s) ! i) ((y # s) ! n)"
        using that Cons.prems(1,3) le_refl sorted_wrt_nth_less [of le "y # s" i n]
        by (cases "i = n") auto
      ultimately have "le x ((y # s) ! i)" "le ((y # s) ! i) x"
        using True Cons.prems(2) by (blast intro: trans)+
      then show ?thesis by (blast intro: antisym)
    qed
    have "take (Suc n) (x # y # s) = take (Suc n) (y # s)"
    proof (rule nth_equalityI)
      fix i assume "i < length (take (Suc n) (x # y # s))"
      then show "take (Suc n) (x # y # s) ! i = take (Suc n) (y # s) ! i"
        using same [of i] same [of "i - 1"] by (cases i) auto
    qed (use Cons.prems(1) in auto)
    with True show ?thesis by simp
  next
    case False
    then show ?thesis using Cons by (cases n) auto
  qed
qed simp

lemma push_take:
  assumes "sorted_wrt le s"
  shows "push_bounded le n (take n s) x = take n (insert_by le x s)"
proof (cases "length s < n")
  case False
  show ?thesis
  proof (cases n)
    case (Suc m)
    then have m: "m < length s" and l: "length (take n s) = n" using False by auto
    then have last: "last (take n s) = s ! m" using Suc m by (simp add: take_Suc_conv_app_nth)
    have but: "butlast (take n s) = take m s" using Suc m by (simp add: take_Suc_conv_app_nth)
    show ?thesis
    proof (cases "le (s ! m) x")
      case True
      then show ?thesis using last l Suc m take_insert_greater [OF m True assms]
        by (simp add: push_bounded_def)
    next
      case False
      then show ?thesis using last l but Suc m take_insert_less [OF m False]
        by (auto simp add: push_bounded_def)
    qed
  qed (simp add: push_bounded_def)
qed (simp add: push_bounded_def)

text \<open>The heap after any sequence of pushes.\<close>

theorem heap_is_top: "foldl (push_bounded le n) [] xs = take n (sort_by le xs)"
proof (induction xs rule: rev_induct)
  case (snoc x xs)
  have "insert_by le x (sort_by le xs) = sort_by le (xs @ [x])"
    by (rule sorted_unique) (use sorted [of "x # xs"] sorted [of "xs @ [x]"] in \<open>simp_all add: mset_insert mset_sort\<close>)
  with snoc show ?case by (simp add: push_take sorted)
qed simp

lemma heap_order: "mset xs = mset ys \<Longrightarrow> foldl (push_bounded le n) [] xs = foldl (push_bounded le n) [] ys"
  by (simp add: heap_is_top sort_cong [of xs ys])

text \<open>Pushing the survivors of another heap is pushing all its elements.\<close>

lemma take_sort_take:
  "take n (sort_by le (xs @ take n (sort_by le ys))) = take n (sort_by le (xs @ ys))"
proof -
  have drop: "take n (sort_by le (zs @ [y])) = take n (sort_by le zs)"
    if "n \<le> card {i. i < length zs \<and> le (zs ! i) y}" for zs y
  proof (cases n)
    case (Suc m)
    let ?s = "sort_by le zs"
    have cnt: "card {i. i < length ws \<and> le (ws ! i) y} = size (filter_mset (\<lambda>z. le z y) (mset ws))" for ws
      by (simp add: length_filter_conv_card flip: mset_filter)
    have "n \<le> card {i. i < length ?s \<and> le (?s ! i) y}" using that unfolding cnt mset_sort .
    moreover have "{i. i < length ?s \<and> le (?s ! i) y} \<subseteq> {..<m}" if no: "m < length ?s \<Longrightarrow> \<not> le (?s ! m) y"
    proof
      fix i assume i: "i \<in> {i. i < length ?s \<and> le (?s ! i) y}"
      show "i \<in> {..<m}"
      proof (rule ccontr)
        assume "i \<notin> {..<m}"
        then have "m \<le> i" by simp
        moreover have "m < length ?s" using i \<open>m \<le> i\<close> by simp
        ultimately have "le (?s ! m) (?s ! i)"
          using sorted_wrt_nth_less [OF sorted, of m i zs] i le_refl by (cases "m = i") auto
        with no \<open>m < length ?s\<close> i show False by (blast intro: trans)
      qed
    qed
    ultimately have m: "m < length ?s \<and> le (?s ! m) y"
      using Suc card_mono [of "{..<m}" "{i. i < length ?s \<and> le (?s ! i) y}"] by fastforce
    have "sort_by le (zs @ [y]) = insert_by le y ?s"
      by (rule sorted_unique) (use sorted [of "y # zs"] sorted [of "zs @ [y]"] in \<open>simp_all add: mset_insert mset_sort\<close>)
    with m Suc show ?thesis using take_insert_greater [of m ?s y] sorted by simp
  qed simp
  let ?t = "sort_by le ys"
  have "take n (sort_by le (xs @ take k ?t)) = take n (sort_by le (xs @ take n ?t))" if "n \<le> k" for k
    using that
  proof (induction k)
    case (Suc k)
    show ?case
    proof (cases "n \<le> k \<and> k < length ?t")
      case True
      let ?z = "xs @ take k ?t" and ?y = "?t ! k"
      have inj: "(\<lambda>i. length xs + i) ` {..<n} \<subseteq> {i. i < length ?z \<and> le (?z ! i) ?y}"
        using True sorted_wrt_nth_less [OF sorted, of _ k ys] by (auto simp: nth_append)
      have "n = card ((\<lambda>i. length xs + i) ` {..<n})" by (simp add: card_image)
      also have "\<dots> \<le> card {i. i < length ?z \<and> le (?z ! i) ?y}"
        by (rule card_mono [OF _ inj]) simp
      finally have "take n (sort_by le (?z @ [?y])) = take n (sort_by le ?z)" by (rule drop)
      moreover have "xs @ take (Suc k) ?t = ?z @ [?y]" using True by (simp add: take_Suc_conv_app_nth)
      ultimately show ?thesis using Suc True by simp
    next
      case False
      then show ?thesis using Suc by (cases "n = Suc k") auto
    qed
  qed simp
  from this [of "max n (length ?t)"]
  have "take n (sort_by le (xs @ take n ?t)) = take n (sort_by le (xs @ ?t))" by simp
  also have "sort_by le (xs @ ?t) = sort_by le (xs @ ys)" by (rule sort_cong) (simp add: mset_sort)
  finally show ?thesis .
qed

lemma heap_merge:
  "foldl (push_bounded le n) (foldl (push_bounded le n) [] xs) (foldl (push_bounded le n) [] ys) =
     foldl (push_bounded le n) [] (xs @ ys)"
proof -
  have "foldl (push_bounded le n) (foldl (push_bounded le n) [] xs) (foldl (push_bounded le n) [] ys) =
      foldl (push_bounded le n) [] (xs @ take n (sort_by le ys))"
    by (simp add: heap_is_top [of n ys])
  also have "\<dots> = take n (sort_by le (xs @ ys))" by (simp only: heap_is_top take_sort_take)
  finally show ?thesis by (simp only: heap_is_top)
qed

end

end
