(* ===== verification/Row_Order.thy ===== *)
theory Row_Order
  imports Plan_State Top_K Page_Facts
begin

text \<open>
  Three-way comparisons as \<^verbatim>\<open>Ord::cmp\<close> implementations give them, and the proof that the
  order of row candidates is one: a linear order, so that the bounded heap of candidates
  keeps the first ones. Row keys get the order as a class instance.
\<close>

locale three_way =
  fixes cmp :: "'a \<Rightarrow> 'a \<Rightarrow> int"
  assumes swap: "cmp y x = - cmp x y"
    and zero: "cmp x y = 0 \<Longrightarrow> x = y"
    and trans_le: "cmp x y \<le> 0 \<Longrightarrow> cmp y z \<le> 0 \<Longrightarrow> cmp x z \<le> 0"
begin

lemma refl: "cmp x x = 0"
  using swap [of x x] by simp

lemma less_trans: "cmp x y < 0 \<Longrightarrow> cmp y z \<le> 0 \<Longrightarrow> cmp x z < 0"
proof -
  assume *: "cmp x y < 0" "cmp y z \<le> 0"
  have "cmp x z \<noteq> 0"
  proof
    assume "cmp x z = 0"
    then have "x = z" by (rule zero)
    with * swap [of y x] show False by simp
  qed
  with * trans_le [of x y z] show ?thesis by simp
qed

end

sublocale three_way \<subseteq> linear_le "\<lambda>x y. cmp x y \<le> 0"
proof
  fix x y z
  show "cmp x y \<le> 0 \<or> cmp y x \<le> 0" using swap [of x y] by linarith
  show "cmp x y \<le> 0 \<Longrightarrow> cmp y z \<le> 0 \<Longrightarrow> cmp x z \<le> 0" by (rule trans_le)
  show "cmp x y \<le> 0 \<Longrightarrow> cmp y x \<le> 0 \<Longrightarrow> x = y" using swap [of x y] zero [of x y] by linarith
qed

context three_way
begin

lemma linear: "linear_le (\<lambda>x y. cmp x y \<le> 0)"
  by unfold_locales

end

lemma three_way_lex:
  assumes "three_way c" "three_way d"
  shows "three_way (\<lambda>x y. cmp_then (c (fst x) (fst y)) (d (snd x) (snd y)))"
proof
  fix x y z
  show "cmp_then (c (fst y) (fst x)) (d (snd y) (snd x)) = - cmp_then (c (fst x) (fst y)) (d (snd x) (snd y))"
    using three_way.swap [OF assms(1), of "fst y" "fst x"] three_way.swap [OF assms(2), of "snd y" "snd x"]
    by (simp add: cmp_then_def)
  show "cmp_then (c (fst x) (fst y)) (d (snd x) (snd y)) = 0 \<Longrightarrow> x = y"
    using three_way.zero [OF assms(1), of "fst x" "fst y"] three_way.zero [OF assms(2), of "snd x" "snd y"]
    by (simp add: cmp_then_def prod_eq_iff split: if_splits)
  assume "cmp_then (c (fst x) (fst y)) (d (snd x) (snd y)) \<le> 0"
    "cmp_then (c (fst y) (fst z)) (d (snd y) (snd z)) \<le> 0"
  then consider "c (fst x) (fst y) < 0" "c (fst y) (fst z) \<le> 0"
    | "c (fst x) (fst y) = 0" "c (fst y) (fst z) < 0"
    | "c (fst x) (fst y) = 0" "c (fst y) (fst z) = 0" "d (snd x) (snd y) \<le> 0" "d (snd y) (snd z) \<le> 0"
    by (auto simp: cmp_then_def split: if_splits)
  then show "cmp_then (c (fst x) (fst z)) (d (snd x) (snd z)) \<le> 0"
  proof cases
    case 1
    then show ?thesis using three_way.less_trans [OF assms(1)] by (fastforce simp: cmp_then_def)
  next
    case 2
    then show ?thesis using three_way.zero [OF assms(1) 2(1)] by (simp add: cmp_then_def)
  next
    case 3
    then have "fst x = fst z" using three_way.zero [OF assms(1)] by metis
    then show ?thesis
      using 3 three_way.trans_le [OF assms(2) 3(3,4)] three_way.refl [OF assms(1)] by (simp add: cmp_then_def)
  qed
qed

lemma three_way_map: "three_way c \<Longrightarrow> inj f \<Longrightarrow> three_way (\<lambda>x y. c (f x) (f y))"
  using three_way.swap [of c] three_way.zero [of c] three_way.trans_le [of c] injD [of f]
  by unfold_locales blast+

lemma three_way_cmp_by: "inj key \<Longrightarrow> three_way (cmp_by key)" for key :: "'a \<Rightarrow> int"
  by unfold_locales (auto simp: cmp_by_def inj_eq split: if_splits dest: injD)

lemma three_way_reverse: "three_way c \<Longrightarrow> three_way (\<lambda>x y. c y x)"
proof
  fix x y z
  assume c: "three_way c"
  show "c x y = - c y x" by (rule three_way.swap [OF c])
  show "c y x = 0 \<Longrightarrow> x = y" using three_way.zero [OF c] by blast
  show "c y x \<le> 0 \<Longrightarrow> c z y \<le> 0 \<Longrightarrow> c z x \<le> 0" using three_way.trans_le [OF c] by blast
qed

section \<open>The keys\<close>

lemma unat_mag: "unat x = (if neg_bit x then 2 ^ 63 else 0) + mag x" for x :: u64
proof -
  have "unat x < 2 * 2 ^ 63" using unsigned_less [of x, where 'a = nat] by simp
  then have "unat x div 2 ^ 63 < 2" by (simp only: div_less_iff_less_mult mult.commute)
  moreover have "neg_bit x \<longleftrightarrow> 0 < unat x div 2 ^ 63" by (simp add: neg_bit_iff div_greater_zero_iff)
  ultimately have "unat x div 2 ^ 63 = (if neg_bit x then 1 else 0)" by auto
  then show ?thesis using div_mult_mod_eq [of "unat x" "2 ^ 63"] by (simp add: mag_def split: if_splits)
qed

lemma inj_total_key: "inj total_key"
proof
  fix x y :: u64 assume eq: "total_key x = total_key y"
  then have "neg_bit x = neg_bit y" "mag x = mag y"
    by (auto simp: total_key_def split: if_splits)
  then have "unat x = unat y" using unat_mag [of x] unat_mag [of y] by simp
  then show "x = y" by (simp only: word_unat_eq_iff)
qed

lemma lex_cmp_swap: "lex_cmp y x = - lex_cmp x y"
  by (induction x y rule: lex_cmp.induct) auto

lemma lex_cmp_zero: "lex_cmp x y = 0 \<Longrightarrow> x = y"
  by (induction x y rule: lex_cmp.induct) (auto split: if_splits)

lemma lex_cmp_trans: "lex_cmp x y \<le> 0 \<Longrightarrow> lex_cmp y z \<le> 0 \<Longrightarrow> lex_cmp x z \<le> 0"
proof (induction x y arbitrary: z rule: lex_cmp.induct)
  case (2 y ys)
  then show ?case by (cases z) auto
next
  case (4 x xs y ys)
  then show ?case by (cases z) (auto split: if_splits)
qed (auto split: if_splits)

interpretation byte_strings: three_way lex_cmp
  by unfold_locales (auto intro: lex_cmp_swap lex_cmp_zero lex_cmp_trans)

interpretation totals: three_way "cmp_by total_key"
  by (rule three_way_cmp_by [OF inj_total_key])

lemma cmp_row_key_swap: "cmp_row_key y x = - cmp_row_key x y"
  by (cases x; cases y) (auto intro: totals.swap byte_strings.swap)

lemma cmp_row_key_trans: "cmp_row_key x y \<le> 0 \<Longrightarrow> cmp_row_key y z \<le> 0 \<Longrightarrow> cmp_row_key x z \<le> 0"
  by (cases x; cases y; cases z) (auto dest: totals.trans_le byte_strings.trans_le)

lemma cmp_row_key_zero: "cmp_row_key x y = 0 \<Longrightarrow> x = y"
  by (cases x; cases y) (auto dest: totals.zero byte_strings.zero)

interpretation row_keys: three_way cmp_row_key
  by unfold_locales (auto intro: cmp_row_key_swap cmp_row_key_zero cmp_row_key_trans)

instantiation row_key :: linorder
begin

definition less_eq_row_key :: "row_key \<Rightarrow> row_key \<Rightarrow> bool" where
  "less_eq_row_key x y \<longleftrightarrow> cmp_row_key x y \<le> 0"

definition less_row_key :: "row_key \<Rightarrow> row_key \<Rightarrow> bool" where
  "less_row_key x y \<longleftrightarrow> cmp_row_key x y < 0"

instance
proof
  fix x y z :: row_key
  show "x < y \<longleftrightarrow> x \<le> y \<and> \<not> y \<le> x"
    using row_keys.swap [of y x] by (auto simp: less_eq_row_key_def less_row_key_def)
  show "x \<le> x" by (simp add: less_eq_row_key_def row_keys.refl)
  show "x \<le> y \<Longrightarrow> y \<le> z \<Longrightarrow> x \<le> z" unfolding less_eq_row_key_def by (rule row_keys.trans_le)
  show "x \<le> y \<Longrightarrow> y \<le> x \<Longrightarrow> x = y" unfolding less_eq_row_key_def by (rule row_keys.antisym)
  show "x \<le> y \<or> y \<le> x" unfolding less_eq_row_key_def by (rule row_keys.total)
qed

end

interpretation second_keys: three_way cmp_second_key
proof
  fix x y z :: "row_key option"
  show "cmp_second_key y x = - cmp_second_key x y" by (cases x; cases y) (auto intro: row_keys.swap)
  show "cmp_second_key x y = 0 \<Longrightarrow> x = y" by (cases x; cases y) (auto dest: row_keys.zero)
  show "cmp_second_key x y \<le> 0 \<Longrightarrow> cmp_second_key y z \<le> 0 \<Longrightarrow> cmp_second_key x z \<le> 0"
    by (cases x; cases y; cases z) (auto dest: row_keys.trans_le)
qed

lemma three_way_candidate: "three_way cmp_candidate"
proof -
  have "three_way (cmp_by (uint :: u64 \<Rightarrow> int))" by (rule three_way_cmp_by) (simp add: inj_on_def word_uint_eq_iff)
  then have "three_way (\<lambda>x y. cmp_then (cmp_row_key (fst x) (fst y))
      (cmp_then (cmp_second_key (fst (snd x)) (fst (snd y))) (cmp_by uint (snd (snd x)) (snd (snd y :: _ \<times> u64)))))"
    by (intro three_way_lex [where d = "\<lambda>x y. cmp_then (cmp_second_key (fst x) (fst y)) (cmp_by uint (snd x) (snd y))"]
      three_way_lex [where c = cmp_second_key] row_keys.three_way_axioms second_keys.three_way_axioms)
  moreover have "inj (\<lambda>x :: row_candidate. (rc_k1 x, rc_k2 x, rc_row_id x))" by (auto simp: inj_on_def intro: row_candidate.equality)
  ultimately show ?thesis
    unfolding cmp_candidate_def [abs_def] by (drule_tac three_way_map) auto
qed

interpretation candidates: three_way cmp_candidate
  rewrites "(\<lambda>x y. cmp_candidate x y \<le> 0) = row_le"
  by (rule three_way_candidate) (simp add: row_le_def fun_eq_iff)

end
