(* ===== verification/Row_Select.thy ===== *)
theory Row_Select
  imports Group_Key Row_Order Column_Page
begin

text \<open>
  The rows of a query result: the cache of NULL bitmaps (\<^verbatim>\<open>wcol-decoder/src/ffi/null_policy.rs\<close>),
  the keys of ORDER BY (\<^verbatim>\<open>row_order.rs\<close>), the row phase of a chunk
  (\<^verbatim>\<open>row_exec.rs\<close>), the heap of candidates with its byte form (\<^verbatim>\<open>row_candidates.rs\<close>)
  and the final window (\<^verbatim>\<open>finalize_rows_basic\<close> of \<^verbatim>\<open>plan/mod.rs\<close>). A function that
  returns a status keeps the new state with it; where the chunk execution gives up with an
  error code the half-updated plan is not described.
\<close>

section \<open>The cache of NULL bitmaps\<close>

record null_cache =
  nb_null_pages :: "u32 \<rightharpoonup> bytes"
  nb_rows :: nat
  nb_cache :: "u32 \<rightharpoonup> bytes option"

definition null_cache_new :: "(u32 \<rightharpoonup> bytes) \<Rightarrow> nat \<Rightarrow> null_cache" where
  "null_cache_new pages rows = \<lparr> nb_null_pages = pages, nb_rows = rows, nb_cache = Map.empty \<rparr>"

definition for_col :: "null_cache \<Rightarrow> u32 \<Rightarrow> bytes option \<times> null_cache" where
  "for_col nc col_id =
     (case nb_cache nc col_id of
        Some bitmap \<Rightarrow> (bitmap, nc)
      | None \<Rightarrow>
          let bitmap = nullable_row_bitmap (nb_null_pages nc col_id) (nb_rows nc)
          in (bitmap, nc\<lparr> nb_cache := (nb_cache nc)(col_id \<mapsto> bitmap) \<rparr>))"

definition apply_to_mask :: "null_cache \<Rightarrow> mask \<Rightarrow> u32 \<Rightarrow> (mask \<times> null_cache) result" where
  "apply_to_mask nc msk col_id =
     (let (bitmap, nc) = for_col nc col_id
      in bindR (maybe_apply_validity_mask msk bitmap (nb_rows nc)) (\<lambda>m. Ok (m, nc)))"

fun row_is_valid_for_all :: "nat \<Rightarrow> bytes option list \<Rightarrow> bool result" where
  "row_is_valid_for_all row [] = Ok True"
| "row_is_valid_for_all row (None # rest) = row_is_valid_for_all row rest"
| "row_is_valid_for_all row (Some page # rest) =
     bindR (is_valid page row) (\<lambda>v. if v then row_is_valid_for_all row rest else Ok False)"

text \<open>\<^verbatim>\<open>if nullable then null_cache.for_col(col_id) else None\<close>\<close>

definition nulls_of :: "column \<Rightarrow> null_cache \<Rightarrow> u32 \<Rightarrow> bytes option \<times> null_cache" where
  "nulls_of col nc col_id =
     (if c_flags col AND FLAG_NULLABLE \<noteq> 0 then for_col nc col_id else (None, nc))"

section \<open>Order keys\<close>

record order_col =
  oc_col :: column
  oc_data :: column_data
  oc_nulls :: "bytes option"
  oc_dict :: "dictionary option"
  oc_lex_ranks :: "u32 list option"

definition dict_bytes_or_empty :: "dictionary \<Rightarrow> nat \<Rightarrow> bytes" where
  "dict_bytes_or_empty dict i = (case dict_value_bytes dict i of Some b \<Rightarrow> b | None \<Rightarrow> [])"

definition cmp_dict_ids :: "dictionary \<Rightarrow> nat \<Rightarrow> nat \<Rightarrow> int" where
  "cmp_dict_ids dict a b =
     cmp_then (lex_cmp (dict_bytes_or_empty dict a) (dict_bytes_or_empty dict b)) (cmp_by int a b)"

definition build_dict_lex_ranks :: "dictionary \<Rightarrow> u32 list" where
  "build_dict_lex_ranks dict =
     (let n = dictionary_len dict;
          ids = sort_by (\<lambda>a b. cmp_dict_ids dict a b \<le> 0) [0..<n]
      in foldl (\<lambda>ranks (rank, i). ranks[i := of_nat rank]) (replicate n 0) (zip [0..<n] ids))"

definition ensure_lex_rank :: "(u32 \<rightharpoonup> dictionary) \<Rightarrow> column list \<Rightarrow> (u32 \<rightharpoonup> u32 list) \<Rightarrow> u32 \<Rightarrow> (u32 \<rightharpoonup> u32 list)"
where
  "ensure_lex_rank dicts schema ranks col_id =
     (case get schema (unat col_id) of
        None \<Rightarrow> ranks
      | Some col \<Rightarrow>
          if c_logical col = TYPE_STRING \<and> c_flags col AND FLAG_DICT \<noteq> 0 \<and>
             ranks (c_dict_id col) = None
          then (case dicts (c_dict_id col) of
                  None \<Rightarrow> ranks
                | Some dict \<Rightarrow> ranks(c_dict_id col \<mapsto> build_dict_lex_ranks dict))
          else ranks)"

definition ensure_row_order_lex_ranks :: "plan \<Rightarrow> (u32 \<rightharpoonup> dictionary) \<Rightarrow> column list \<Rightarrow> u32 list \<Rightarrow> plan" where
  "ensure_row_order_lex_ranks plan dicts schema order_col_ids =
     plan\<lparr> pl_row_order_lex_ranks :=
       foldl (ensure_lex_rank dicts schema) (pl_row_order_lex_ranks plan) order_col_ids \<rparr>"

definition order_id :: "column_data \<Rightarrow> nat \<Rightarrow> nat" where
  "order_id data row = (case dict_index_at data row of Some i \<Rightarrow> i | None \<Rightarrow> 0)"

definition read_order_key :: "order_col \<Rightarrow> nat \<Rightarrow> row_key result" where
  "read_order_key oc row =
     bindR (case oc_nulls oc of None \<Rightarrow> Ok True | Some nulls \<Rightarrow> is_valid nulls row) (\<lambda>valid.
       if \<not> valid then Ok RK_Null
       else if c_flags (oc_col oc) AND FLAG_DICT \<noteq> 0 \<or> c_logical (oc_col oc) = TYPE_STRING then
         (let i = order_id (oc_data oc) row in
          case oc_lex_ranks oc of
            Some ranks \<Rightarrow>
              let rank = (case get ranks i of Some r \<Rightarrow> r | None \<Rightarrow> 0xffffffff)
              in Ok (RK_Num (f_of_int (uint rank)))
          | None \<Rightarrow>
              Ok (RK_Bytes (case oc_dict oc of None \<Rightarrow> [] | Some d \<Rightarrow> dict_bytes_or_empty d i)))
       else bindR (read_value_f64 (oc_col oc) (oc_data oc) row) (\<lambda>v. Ok (RK_Num v)))"

section \<open>The heap of candidates\<close>

definition row_take_count :: "plan \<Rightarrow> nat" where
  "row_take_count plan = (if pl_limit plan = 0 then 0 else unat (pl_limit plan) + unat (pl_offset plan))"

definition push_candidate :: "row_candidate list \<Rightarrow> row_candidate \<Rightarrow> nat \<Rightarrow> row_candidate list" where
  "push_candidate heap candidate row_take = push_bounded row_le row_take heap candidate"

definition finalize_rows_from_heap :: "plan \<Rightarrow> plan" where
  "finalize_rows_from_heap plan =
     (if pl_row_heap plan = [] then plan
      else
        let items = sort_by row_le (pl_row_heap plan)
        in plan\<lparr> pl_row_heap := [],
                 pl_rows := map rc_row_id
                   (take (unat (pl_limit plan)) (drop (unat (pl_offset plan)) items)) \<rparr>)"

definition finalize_rows_basic :: "plan \<Rightarrow> plan" where
  "finalize_rows_basic plan =
     (if pl_rows plan = [] then plan
      else
        let rows = sort (pl_rows plan); offset = unat (pl_offset plan); limit = unat (pl_limit plan) in
        if 0 < offset \<and> length rows \<le> offset then plan\<lparr> pl_rows := [] \<rparr>
        else
          let rows = (if 0 < offset then drop offset rows else rows)
          in plan\<lparr> pl_rows := (if 0 < limit \<and> limit < length rows then take limit rows else rows) \<rparr>)"

section \<open>Candidates as bytes\<close>

definition ROW_CANDIDATE_HEADER_SIZE :: nat where "ROW_CANDIDATE_HEADER_SIZE = 36"

fun key1_fields :: "row_key \<Rightarrow> u8 \<times> f64 \<times> bytes" where
  "key1_fields (RK_Num v) = (0, v, [])"
| "key1_fields (RK_Bytes bs) = (1, f_zero, bs)"
| "key1_fields RK_Null = (2, f_zero, [])"

fun key2_fields :: "row_key option \<Rightarrow> u8 \<times> f64 \<times> bytes" where
  "key2_fields None = (0, f_zero, [])"
| "key2_fields (Some (RK_Num v)) = (1, v, [])"
| "key2_fields (Some (RK_Bytes bs)) = (2, f_zero, bs)"
| "key2_fields (Some RK_Null) = (3, f_zero, [])"

definition candidate_bytes :: "row_candidate \<Rightarrow> bytes" where
  "candidate_bytes c =
     (let (t1, n1, b1) = key1_fields (rc_k1 c); (t2, n2, b2) = key2_fields (rc_k2 c) in
      le64 (rc_row_id c) @ [t1, t2, 0, 0] @ le64 n1 @ le64 n2 @
      le32 (of_nat (length b1)) @ le32 (of_nat (length b2)) @ b1 @ b2)"

text \<open>The answer is the number of bytes that the buffer must have, or the bytes written.\<close>

definition copy_row_candidates :: "plan \<Rightarrow> nat \<Rightarrow> nat + bytes" where
  "copy_row_candidates plan out_len =
     (if pl_row_order_by plan = [] \<or> row_take_count plan = 0 then Inr []
      else
        let out = concat (map candidate_bytes (pl_row_heap plan))
        in if out_len < length out then Inl (length out) else Inr out)"

definition parse_key1 :: "u8 \<Rightarrow> f64 \<Rightarrow> nat \<Rightarrow> bytes \<Rightarrow> (row_key \<times> bytes) result" where
  "parse_key1 ty num len rest =
     (if ty = 0 then Ok (RK_Num num, rest)
      else if ty = 1 then
        (if length rest < len then Err (Code (- 2)) else Ok (RK_Bytes (take len rest), drop len rest))
      else if ty = 2 then Ok (RK_Null, rest)
      else Err (Code (- 2)))"

definition parse_key2 :: "u8 \<Rightarrow> f64 \<Rightarrow> nat \<Rightarrow> bytes \<Rightarrow> (row_key option \<times> bytes) result" where
  "parse_key2 ty num len rest =
     (if ty = 0 then Ok (None, rest)
      else if ty = 1 then Ok (Some (RK_Num num), rest)
      else if ty = 2 then
        (if length rest < len then Err (Code (- 2))
         else Ok (Some (RK_Bytes (take len rest)), drop len rest))
      else if ty = 3 then Ok (Some RK_Null, rest)
      else Err (Code (- 2)))"

definition parse_candidate :: "bytes \<Rightarrow> (row_candidate \<times> bytes) result" where
  "parse_candidate bs =
     (if length bs < ROW_CANDIDATE_HEADER_SIZE then Err (Code (- 2))
      else
        let row_id = from_le64 (slice bs 0 8); k1_type = bs ! 8; k2_type = bs ! 9;
            k1_num = from_le64 (slice bs 12 20); k2_num = from_le64 (slice bs 20 28);
            k1_len = unat (from_le32 (slice bs 28 32)); k2_len = unat (from_le32 (slice bs 32 36))
        in bindR (parse_key1 k1_type k1_num k1_len (drop 36 bs)) (\<lambda>(k1, rest).
           bindR (parse_key2 k2_type k2_num k2_len rest) (\<lambda>(k2, rest).
             Ok (\<lparr> rc_k1 = k1, rc_k2 = k2, rc_row_id = row_id \<rparr>, rest))))"

lemma parse_candidate_shorter: "parse_candidate bs = Ok (c, rest) \<Longrightarrow> length rest < length bs"
  by (auto simp: parse_candidate_def parse_key1_def parse_key2_def Let_def
      ROW_CANDIDATE_HEADER_SIZE_def split: if_splits)

text \<open>On malformed bytes the candidates before them have been pushed.\<close>

function merge_candidates :: "nat \<Rightarrow> row_candidate list \<Rightarrow> bytes \<Rightarrow> row_candidate list \<times> unit result" where
  "merge_candidates row_take heap bs =
     (if bs = [] then (heap, Ok ())
      else case parse_candidate bs of
          Inl e \<Rightarrow> (heap, Err e)
        | Inr (c, rest) \<Rightarrow> merge_candidates row_take (push_candidate heap c row_take) rest)"
  by pat_completeness auto
termination
  by (relation "measure (\<lambda>(t, h, bs). length bs)") (auto dest: parse_candidate_shorter)

declare merge_candidates.simps [simp del]

definition merge_row_candidates_from_bytes :: "plan \<Rightarrow> bytes \<Rightarrow> plan \<times> unit result" where
  "merge_row_candidates_from_bytes plan bs =
     (let row_take = row_take_count plan in
      if row_take = 0 \<or> pl_row_order_by plan = [] then (plan, Ok ())
      else
        let (heap, r) = merge_candidates row_take (pl_row_heap plan) bs
        in (plan\<lparr> pl_row_heap := heap \<rparr>, r))"

section \<open>The row phase\<close>

text \<open>
  The row phase of a chunk (\<^verbatim>\<open>wcol-decoder/src/ffi/row_exec.rs\<close>): the rows of the combined
  mask become candidates of an ORDER BY, or row numbers of the result while it has room.
\<close>

text \<open>What the phases of a chunk share: the plan, the runtime, the decoded columns and the
  cache of NULL bitmaps.\<close>

record exec_state =
  ex_plan :: plan
  ex_runtime :: runtime
  ex_decoded :: "u32 \<rightharpoonup> column_data"
  ex_nulls :: null_cache

type_synonym id_decoder = "bytes \<Rightarrow> nat \<Rightarrow> dictionary \<Rightarrow> (u32 list \<times> dictionary) result"

definition decode_column :: "id_decoder \<Rightarrow> column \<Rightarrow> bytes \<Rightarrow> nat \<Rightarrow> exec_state \<Rightarrow> exec_state result" where
  "decode_column decode_ids col raw rows ex =
     bindR (ensure_decoded decode_ids col raw (ex_decoded ex) rows (r_dicts (ex_runtime ex)))
       (\<lambda>(decoded, dicts). Ok (ex\<lparr> ex_decoded := decoded,
          ex_runtime := (ex_runtime ex)\<lparr> r_dicts := dicts \<rparr> \<rparr>))"

fun dedup_first :: "'a list \<Rightarrow> 'a list \<Rightarrow> 'a list" where
  "dedup_first acc [] = acc"
| "dedup_first acc (x # xs) = dedup_first (if x \<in> set acc then acc else acc @ [x]) xs"

definition decode_order_col ::
  "id_decoder \<Rightarrow> column list \<Rightarrow> (u32 \<rightharpoonup> bytes) \<Rightarrow> nat \<Rightarrow> exec_state \<Rightarrow> u32 \<Rightarrow> exec_state result" where
  "decode_order_col decode_ids schema pages rows ex col_id =
     (case get schema (unat col_id) of
        None \<Rightarrow> Ok ex
      | Some col \<Rightarrow>
          (case pages col_id of
             None \<Rightarrow> Ok ex
           | Some raw \<Rightarrow> decode_column decode_ids col raw rows ex))"

definition add_order_col ::
  "column list \<Rightarrow> exec_state \<times> order_col list \<Rightarrow> u32 \<Rightarrow> exec_state \<times> order_col list" where
  "add_order_col schema st col_id =
     (let (ex, cols) = st in
      case get schema (unat col_id) of
        None \<Rightarrow> st
      | Some col \<Rightarrow>
          (case ex_decoded ex col_id of
             None \<Rightarrow> st
           | Some data \<Rightarrow>
               let (nulls, nc) = nulls_of col (ex_nulls ex) col_id;
                   string = (c_logical col = TYPE_STRING); by_id = (c_flags col AND FLAG_DICT \<noteq> 0)
               in (ex\<lparr> ex_nulls := nc \<rparr>, cols @ [\<lparr> oc_col = col, oc_data = data, oc_nulls = nulls,
                    oc_dict = (if by_id \<or> string then r_dicts (ex_runtime ex) (c_dict_id col) else None),
                    oc_lex_ranks = (if string \<and> by_id
                      then pl_row_order_lex_ranks (ex_plan ex) (c_dict_id col) else None) \<rparr>])))"

text \<open>\<^verbatim>\<open>chunk_id as u64 * rows_per_chunk as u64 + row as u64\<close>\<close>

definition global_row :: "u32 \<Rightarrow> u32 \<Rightarrow> nat \<Rightarrow> u64" where
  "global_row chunk_id rows_per_chunk row = ucast chunk_id * ucast rows_per_chunk + of_nat row"

definition row_candidate_at ::
  "order_col list \<Rightarrow> u32 \<Rightarrow> u32 \<Rightarrow> nat \<Rightarrow> row_candidate option result" where
  "row_candidate_at cols chunk_id rows_per_chunk row =
     (case cols of
        [] \<Rightarrow> Ok None
      | oc # rest \<Rightarrow>
          bindR (read_order_key oc row) (\<lambda>k1.
          bindR (case rest of [] \<Rightarrow> Ok None
                 | oc2 # _ \<Rightarrow> bindR (read_order_key oc2 row) (\<lambda>k. Ok (Some k))) (\<lambda>k2.
            Ok (Some \<lparr> rc_k1 = k1, rc_k2 = k2, rc_row_id = global_row chunk_id rows_per_chunk row \<rparr>))))"

definition consider_row ::
  "order_col list \<Rightarrow> u32 \<Rightarrow> u32 \<Rightarrow> nat \<Rightarrow> row_candidate list \<Rightarrow> nat \<Rightarrow> row_candidate list result" where
  "consider_row cols chunk_id rows_per_chunk row_take heap row =
     bindR (row_candidate_at cols chunk_id rows_per_chunk row) (\<lambda>c.
       Ok (case c of None \<Rightarrow> heap | Some c \<Rightarrow> push_candidate heap c row_take))"

definition phase_rows :: "mask \<Rightarrow> bool \<Rightarrow> nat \<Rightarrow> nat list" where
  "phase_rows combined combined_full rows =
     (if combined_full then [0..<rows] else iter_mask combined rows)"

definition execute_row_phase ::
  "id_decoder \<Rightarrow> column list \<Rightarrow> (u32 \<rightharpoonup> bytes) \<Rightarrow> mask \<Rightarrow> bool \<Rightarrow> nat \<Rightarrow> u32 \<Rightarrow> u32 \<Rightarrow> exec_state
     \<Rightarrow> exec_state result" where
  "execute_row_phase decode_ids schema pages combined combined_full rows chunk_id rows_per_chunk ex =
     (let plan = ex_plan ex; row_take = unat (pl_limit plan) + unat (pl_offset plan);
          visited = phase_rows combined combined_full rows in
      if pl_limit plan = 0 then Ok ex
      else if pl_row_order_by plan \<noteq> [] then
        (let order_by = take 2 (pl_row_order_by plan);
             ids = dedup_first [] order_by;
             ex = ex\<lparr> ex_plan := ensure_row_order_lex_ranks plan (r_dicts (ex_runtime ex)) schema ids \<rparr>
         in bindR (foldR (decode_order_col decode_ids schema pages rows) ex ids) (\<lambda>ex.
            let (ex, cols) = foldl (add_order_col schema) (ex, []) order_by
            in bindR (foldR (consider_row cols chunk_id rows_per_chunk row_take)
                        (pl_row_heap (ex_plan ex)) visited) (\<lambda>heap.
                 Ok (ex\<lparr> ex_plan := (ex_plan ex)\<lparr> pl_row_heap := heap \<rparr> \<rparr>))))
      else if length (pl_rows plan) < row_take then
        (let remaining = row_take - length (pl_rows plan)
         in Ok (ex\<lparr> ex_plan := plan\<lparr> pl_rows :=
              pl_rows plan @ map (global_row chunk_id rows_per_chunk) (take remaining visited) \<rparr> \<rparr>))
      else Ok ex)"

end
