(* ===== verification/Group_Hist.thy ===== *)
theory Group_Hist
  imports Row_Select
begin

text \<open>
  The dense histogram of a grouping by one dictionary column
  (\<^verbatim>\<open>wcol-decoder/src/query/group_dict_hist.rs\<close>): when a plan uses it, the counting and
  summing of a chunk, the partial results workers exchange, and the records of the result.
  The environment variables that size or disable it are arguments.
\<close>

definition sat_add32 :: "u32 \<Rightarrow> u32 \<Rightarrow> u32" where
  "sat_add32 a b = of_nat (min (2 ^ 32 - 1) (unat a + unat b))"

section \<open>When the histogram is used\<close>

definition hist_dict_len_for_key :: "runtime \<Rightarrow> u32 \<Rightarrow> nat \<Rightarrow> nat option" where
  "hist_dict_len_for_key rt key_col_id max_dict =
     Option.bind (get (r_schema rt) (unat key_col_id)) (\<lambda>col.
       if c_flags col AND FLAG_DICT = 0 then None
       else Option.bind (r_dicts rt (c_dict_id col)) (\<lambda>dict.
         let dict_len = dictionary_len dict
         in if dict_len = 0 \<or> max_dict < dict_len then None else Some dict_len))"

definition enable_hist_sums :: "plan \<Rightarrow> runtime \<Rightarrow> nat \<Rightarrow> plan" where
  "enable_hist_sums plan rt dict_len =
     (case find (\<lambda>a. ga_kind a = AGG_KIND_SUM) (pl_group_aggs plan) of
        None \<Rightarrow> plan
      | Some sum_agg \<Rightarrow>
          (case get (r_schema rt) (unat (ga_col_id sum_agg)) of
             None \<Rightarrow> plan
           | Some sum_col \<Rightarrow>
               if c_flags sum_col AND FLAG_DICT \<noteq> 0 \<or> c_logical sum_col \<noteq> TYPE_F64 then plan
               else plan\<lparr> pl_hist_dict_len := of_nat dict_len,
                          pl_hist_counts := Some (replicate (dict_len + 1) 0),
                          pl_hist_sums := Some (replicate (dict_len + 1) f_zero) \<rparr>))"

definition try_enable_group_dict_histogram :: "bool \<Rightarrow> nat \<Rightarrow> plan \<Rightarrow> runtime \<Rightarrow> plan" where
  "try_enable_group_dict_histogram disabled max_dict plan rt =
     (let plan = plan\<lparr> pl_hist_dict_len := 0, pl_hist_counts := None, pl_hist_sums := None \<rparr> in
      if disabled then plan
      else case pl_group_by plan of
          None \<Rightarrow> plan
        | Some gb \<Rightarrow>
            if length (gb_keys gb) \<noteq> 1 \<or> pl_group_emit_raw plan then plan
            else (case hist_dict_len_for_key rt (gb_keys gb ! 0) max_dict of
                    None \<Rightarrow> plan
                  | Some dict_len \<Rightarrow>
                      let aggs = pl_group_aggs plan in
                      if length aggs = 1 \<and> ga_kind (aggs ! 0) = AGG_KIND_COUNT_STAR then
                        plan\<lparr> pl_hist_dict_len := of_nat dict_len,
                              pl_hist_counts := Some (replicate (dict_len + 1) 0) \<rparr>
                      else if length aggs = 2 \<and> (\<exists>a \<in> set aggs. ga_kind a = AGG_KIND_COUNT_STAR) \<and>
                              (\<exists>a \<in> set aggs. ga_kind a = AGG_KIND_SUM \<and> ga_col_id a \<noteq> gb_keys gb ! 0)
                      then enable_hist_sums plan rt dict_len
                      else plan))"

definition plan_uses_group_dict_histogram :: "plan \<Rightarrow> bool" where
  "plan_uses_group_dict_histogram plan \<longleftrightarrow> 0 < pl_hist_dict_len plan"

section \<open>Counting\<close>

definition bump_count :: "u32 list \<Rightarrow> nat \<Rightarrow> u32 list" where
  "bump_count counts i =
     (if i < length counts then counts[i := sat_add32 (counts ! i) 1] else counts)"

definition count_row :: "column_data \<Rightarrow> bytes option list \<Rightarrow> u32 list \<Rightarrow> nat \<Rightarrow> u32 list result" where
  "count_row data key_nulls counts row =
     bindR (row_is_valid_for_all row key_nulls) (\<lambda>valid.
       Ok (if valid then
             (case dict_index_at data row of Some i \<Rightarrow> bump_count counts i | None \<Rightarrow> counts)
           else counts))"

definition hist_count_dict_column_masked ::
  "u32 list \<Rightarrow> column_data \<Rightarrow> mask \<Rightarrow> nat \<Rightarrow> bytes option list \<Rightarrow> u32 list result" where
  "hist_count_dict_column_masked counts data msk rows key_nulls =
     bindR (mask_is_full msk rows) (\<lambda>full.
       foldR (count_row data key_nulls) counts (if full then [0..<rows] else iter_mask msk rows))"

definition hist_count_values :: "u32 list \<Rightarrow> 'a::len word list \<Rightarrow> mask \<Rightarrow> nat \<Rightarrow> u32 list result" where
  "hist_count_values counts vs msk rows =
     for_each_value vs msk rows (\<lambda>counts v. Ok (bump_count counts (unat v))) counts"

definition hist_count_dict_column ::
  "u32 list \<Rightarrow> column_data \<Rightarrow> mask \<Rightarrow> nat \<Rightarrow> bytes option list \<Rightarrow> u32 list result" where
  "hist_count_dict_column counts data msk rows key_nulls =
     (if \<exists>n \<in> set key_nulls. n \<noteq> None then
        hist_count_dict_column_masked counts data msk rows key_nulls
      else case data of
          CD_U8 vs \<Rightarrow> hist_count_values counts vs msk rows
        | CD_U16 vs \<Rightarrow> hist_count_values counts vs msk rows
        | CD_U32 vs \<Rightarrow> hist_count_values counts vs msk rows
        | _ \<Rightarrow> hist_count_dict_column_masked counts data msk rows key_nulls)"

definition sum_row ::
  "column_data \<Rightarrow> column_data \<Rightarrow> bytes option list \<Rightarrow> f64 list \<Rightarrow> nat \<Rightarrow> f64 list result" where
  "sum_row key_data val_data key_nulls sums row =
     bindR (row_is_valid_for_all row key_nulls) (\<lambda>valid.
       if \<not> valid then Ok sums
       else case dict_index_at key_data row of
           None \<Rightarrow> Ok sums
         | Some i \<Rightarrow>
             if length sums \<le> i then Ok sums
             else (case val_data of
                     CD_F64 vs \<Rightarrow> bindR (index vs row) (\<lambda>v. Ok (sums[i := f_add (sums ! i) v]))
                   | _ \<Rightarrow> Ok sums))"

definition hist_sum_f64_dict_key ::
  "f64 list \<Rightarrow> column_data \<Rightarrow> column_data \<Rightarrow> mask \<Rightarrow> nat \<Rightarrow> bytes option list \<Rightarrow> f64 list result" where
  "hist_sum_f64_dict_key sums key_data val_data msk rows key_nulls =
     bindR (mask_is_full msk rows) (\<lambda>full.
       foldR (sum_row key_data val_data key_nulls) sums
         (if full then [0..<rows] else iter_mask msk rows))"

definition merge_group_hist_counts :: "u32 list \<Rightarrow> u32 list \<Rightarrow> u32 list" where
  "merge_group_hist_counts target source =
     map2 sat_add32 target source @ drop (length source) target"

definition merge_group_hist_sums :: "f64 list \<Rightarrow> f64 list \<Rightarrow> f64 list" where
  "merge_group_hist_sums target source = map2 f_add target source @ drop (length source) target"

section \<open>Partial results\<close>

text \<open>The bytes of \<^verbatim>\<open>WCDH0001\<close> and \<^verbatim>\<open>WCDH0002\<close>.\<close>

definition GROUP_HIST_MAGIC :: bytes where "GROUP_HIST_MAGIC = [87, 67, 68, 72, 48, 48, 48, 49]"
definition GROUP_HIST_MAGIC_SUM :: bytes where "GROUP_HIST_MAGIC_SUM = [87, 67, 68, 72, 48, 48, 48, 50]"

definition is_group_hist_partial :: "bytes \<Rightarrow> bool" where
  "is_group_hist_partial bs \<longleftrightarrow>
     12 \<le> length bs \<and> (take 8 bs = GROUP_HIST_MAGIC \<or> take 8 bs = GROUP_HIST_MAGIC_SUM)"

definition encode_group_hist_partial :: "u32 \<Rightarrow> u32 list \<Rightarrow> f64 list option \<Rightarrow> bytes" where
  "encode_group_hist_partial dict_len counts sums =
     (let n = unat dict_len in
      (if sums \<noteq> None then GROUP_HIST_MAGIC_SUM else GROUP_HIST_MAGIC) @ le32 dict_len @
      concat (map le32 (take n counts)) @
      (case sums of None \<Rightarrow> [] | Some sums \<Rightarrow> concat (map le64 (take n sums))))"

definition decode_group_hist_partial :: "bytes \<Rightarrow> (u32 \<times> u32 list \<times> f64 list option) option" where
  "decode_group_hist_partial bs =
     (if length bs < 12 then None
      else
        let with_sums = (take 8 bs = GROUP_HIST_MAGIC_SUM) in
        if take 8 bs \<noteq> GROUP_HIST_MAGIC \<and> \<not> with_sums then None
        else
          let dict_len = from_le32 (slice bs 8 12); n = unat dict_len;
              needed = 12 + n * 4 + (if with_sums then n * 8 else 0) in
          if length bs < needed then None
          else Some (dict_len, map from_le32 (chunks_exact 4 (slice bs 12 (12 + n * 4))),
                     if with_sums then Some (map from_le64 (chunks_exact 8 (slice bs (12 + n * 4) needed)))
                     else None))"

section \<open>The first groups\<close>

text \<open>\<^verbatim>\<open>CountDescIdAsc\<close> and \<^verbatim>\<open>SumDescIdAsc\<close> are pairs of a value and an id; the heaps hold
  them reversed, so that the weakest is on top.\<close>

definition cmp_entry :: "('v \<Rightarrow> int) \<Rightarrow> 'v \<times> u32 \<Rightarrow> 'v \<times> u32 \<Rightarrow> int" where
  "cmp_entry key a b = cmp_then (cmp_by key (fst a) (fst b)) (cmp_by uint (snd b) (snd a))"

definition cmp_output :: "('v \<Rightarrow> int) \<Rightarrow> u32 \<times> 'v \<Rightarrow> u32 \<times> 'v \<Rightarrow> int" where
  "cmp_output key a b = cmp_then (cmp_by key (snd b) (snd a)) (cmp_by uint (fst a) (fst b))"

definition hist_entries :: "('v \<Rightarrow> bool) \<Rightarrow> 'v list \<Rightarrow> nat \<Rightarrow> ('v \<times> u32) list" where
  "hist_entries skip vs dict_len =
     map (\<lambda>(i, v). (v, of_nat i)) (filter (\<lambda>(i, v). \<not> skip v) (enumerate 0 (take dict_len vs)))"

definition hist_topk ::
  "('v \<Rightarrow> int) \<Rightarrow> ('v \<Rightarrow> bool) \<Rightarrow> 'v list \<Rightarrow> nat \<Rightarrow> u32 \<Rightarrow> u32 \<Rightarrow> (u32 \<times> 'v) list" where
  "hist_topk key skip vs dict_len offset limit =
     (let window = unat offset + unat limit in
      if window = 0 then []
      else
        let heap = foldl (push_bounded (\<lambda>a b. cmp_entry key b a \<le> 0) window) []
              (hist_entries skip vs dict_len);
            entries = sort_by (\<lambda>a b. cmp_output key a b \<le> 0) (map (\<lambda>(v, i). (i, v)) heap)
        in take (unat limit) (drop (unat offset) entries))"

definition hist_topk_by_count :: "u32 list \<Rightarrow> nat \<Rightarrow> u32 \<Rightarrow> u32 \<Rightarrow> (u32 \<times> u32) list" where
  "hist_topk_by_count counts = hist_topk uint (\<lambda>c. c = 0) counts"

definition hist_topk_by_sum :: "f64 list \<Rightarrow> nat \<Rightarrow> u32 \<Rightarrow> u32 \<Rightarrow> (u32 \<times> f64) list" where
  "hist_topk_by_sum sums = hist_topk total_key (\<lambda>s. f_eq s f_zero) sums"

definition hist_entries_full_sort :: "u32 list \<Rightarrow> nat \<Rightarrow> bool \<Rightarrow> (u32 \<times> u32) list" where
  "hist_entries_full_sort counts dict_len order_by_count =
     (let entries = map (\<lambda>(i, c). (of_nat i, c))
            (filter (\<lambda>(i, c). 0 < c) (enumerate 0 (take dict_len counts)))
      in if order_by_count then sort_by (\<lambda>a b. cmp_output uint a b \<le> 0) entries
         else sort_by (\<lambda>a b. cmp_by (\<lambda>e. uint (fst e)) a b \<le> 0) entries)"

section \<open>The records\<close>

definition agg_record :: "f64 \<Rightarrow> f64 \<Rightarrow> f64 \<Rightarrow> u32 \<Rightarrow> bytes" where
  "agg_record s mn mx n = le64 s @ le64 mn @ le64 mx @ le32 n @ le32 0"

definition hist_sum_record :: "group_agg list \<Rightarrow> u32 list \<Rightarrow> u32 \<times> f64 \<Rightarrow> bytes" where
  "hist_sum_record group_aggs counts entry =
     (let (i, s) = entry; n = (case get counts (unat i) of Some c \<Rightarrow> c | None \<Rightarrow> 0) in
      le64 (ucast i) @ le64 0 @
      concat (map (\<lambda>agg.
        if ga_kind agg = AGG_KIND_COUNT_STAR then agg_record f_zero f_zero f_zero n
        else if ga_kind agg = AGG_KIND_SUM then agg_record s s s n
        else agg_record f_zero f_zero f_zero 0) group_aggs))"

definition hist_count_record :: "group_agg list \<Rightarrow> u32 \<times> u32 \<Rightarrow> bytes" where
  "hist_count_record group_aggs entry =
     (let (i, n) = entry in
      le64 (ucast i) @ le64 0 @
      concat (map (\<lambda>agg. agg_record f_zero f_zero f_zero n) group_aggs))"

definition hist_window :: "u32 list \<Rightarrow> nat \<Rightarrow> bool \<Rightarrow> u32 \<Rightarrow> u32 \<Rightarrow> (u32 \<times> u32) list" where
  "hist_window counts n order_by_count limit offset =
     (if order_by_count \<and> 0 < limit then hist_topk_by_count counts n offset limit
      else
        let entries = hist_entries_full_sort counts n order_by_count;
            k = (if 0 < limit then unat limit else length entries)
        in take k (drop (min (unat offset) (length entries)) entries))"

definition group_hist_to_records ::
  "u32 list \<Rightarrow> f64 list option \<Rightarrow> u32 \<Rightarrow> group_agg list \<Rightarrow> bool \<Rightarrow> u32 \<Rightarrow> u32 \<Rightarrow> bytes" where
  "group_hist_to_records counts sums dict_len group_aggs order_by_count limit offset =
     (let n = unat dict_len in
      case (if order_by_count \<and> 0 < limit then sums else None) of
        Some sums \<Rightarrow>
          concat (map (hist_sum_record group_aggs counts) (hist_topk_by_sum sums n offset limit))
      | None \<Rightarrow>
          concat (map (hist_count_record group_aggs) (hist_window counts n order_by_count limit offset)))"

section \<open>The groups of a result\<close>

text \<open>
  The groups of a result as bytes (\<^verbatim>\<open>wcol-decoder/src/ffi/group_output.rs\<close>). A call that
  fills a caller's buffer gives the size it needs (\<open>Inl\<close>), or the size it reports and the
  bytes it wrote (\<open>Inr\<close>).
\<close>

type_synonym copied = "nat + nat \<times> bytes"

definition copy_out :: "nat \<Rightarrow> nat \<Rightarrow> bytes \<Rightarrow> copied" where
  "copy_out out_len needed bs = (if out_len < needed then Inl needed else Inr (needed, bs))"

definition group_output_count :: "plan \<Rightarrow> nat \<Rightarrow> nat" where
  "group_output_count plan avail =
     (let offset = min (unat (pl_offset plan)) avail; remaining = avail - offset
      in if 0 < pl_limit plan then min remaining (unat (pl_limit plan)) else remaining)"

definition copy_group_hist_partial :: "plan \<Rightarrow> nat \<Rightarrow> copied result" where
  "copy_group_hist_partial plan out_len =
     (case pl_hist_counts plan of
        None \<Rightarrow> Ok (Inr (0, []))
      | Some counts \<Rightarrow>
          let n = unat (pl_hist_dict_len plan) in
          if length counts < n then Err Panic
          else
            let bs = encode_group_hist_partial (pl_hist_dict_len plan) (take n counts) (pl_hist_sums plan)
            in Ok (copy_out out_len (length bs) bs))"

section \<open>Raw rows\<close>

definition AGG_RECORD_BYTES :: nat where "AGG_RECORD_BYTES = 32"

text \<open>The rows of \<^verbatim>\<open>group_rows_raw_with_keys\<close>: key, key length, key bytes, aggregates; \<open>None\<close> when
  the last row is cut short.\<close>

definition raw_payload_len :: "nat \<Rightarrow> bytes \<Rightarrow> nat" where
  "raw_payload_len agg_count bs =
     24 + unat (from_le32 (slice bs 16 20)) + agg_count * AGG_RECORD_BYTES"

function raw_rows :: "nat \<Rightarrow> bytes \<Rightarrow> bytes list option" where
  "raw_rows agg_count bs =
     (if bs = [] then Some []
      else if length bs < 24 \<or> length bs < raw_payload_len agg_count bs then None
      else map_option ((#) (take (raw_payload_len agg_count bs) bs))
             (raw_rows agg_count (drop (raw_payload_len agg_count bs) bs)))"
  by pat_completeness auto
termination
  by (relation "measure (\<lambda>(n, bs). length bs)") (auto simp: raw_payload_len_def)

declare raw_rows.simps [simp del]

definition raw_row_record :: "bytes \<Rightarrow> bytes" where
  "raw_row_record row = take 16 row @ drop (24 + unat (from_le32 (slice row 16 20))) row"

text \<open>\<^verbatim>\<open>plan_group_count\<close> counts the complete rows before a cut one.\<close>

function raw_count :: "nat \<Rightarrow> bytes \<Rightarrow> nat" where
  "raw_count agg_count bs =
     (if bs = [] \<or> length bs < 24 \<or> length bs < raw_payload_len agg_count bs then 0
      else Suc (raw_count agg_count (drop (raw_payload_len agg_count bs) bs)))"
  by pat_completeness auto
termination
  by (relation "measure (\<lambda>(n, bs). length bs)") (auto simp: raw_payload_len_def)

declare raw_count.simps [simp del]

section \<open>Groups in order\<close>

definition agg_stats :: "u8 \<Rightarrow> group_agg_state option \<Rightarrow> f64 \<times> f64 \<times> f64 \<times> u32" where
  "agg_stats kind state =
     (case state of
        Some (GA_Distinct vs) \<Rightarrow>
          if kind = AGG_KIND_APPROX_DISTINCT then
            (let n = (of_nat (card vs) :: u32) in (f_of_int (uint n), f_zero, f_zero, n))
          else (f_zero, f_zero, f_zero, 0)
      | Some (GA_Numeric s) \<Rightarrow>
          if kind = AGG_KIND_COUNT_STAR \<or> kind = AGG_KIND_COUNT then
            (let c = f_of_int (uint (a_count s)) in (c, c, c, a_count s))
          else (a_sum s, if 0 < a_count s then a_min s else f_zero,
                if 0 < a_count s then a_max s else f_zero, a_count s)
      | None \<Rightarrow> (f_zero, f_zero, f_zero, 0))"

definition group_order_value :: "plan \<Rightarrow> u8 \<Rightarrow> group_state \<Rightarrow> nat" where
  "group_order_value plan count_kind state =
     (case find (\<lambda>(idx, agg). ga_kind agg = count_kind) (enumerate 0 (pl_group_aggs plan)) of
        None \<Rightarrow> 0
      | Some (idx, _) \<Rightarrow>
          (case get (gs_aggs state) idx of
             Some (GA_Numeric s) \<Rightarrow> unat (a_count s)
           | Some (GA_Distinct vs) \<Rightarrow> card vs
           | None \<Rightarrow> 0))"

definition agg_fields :: "plan \<Rightarrow> group_state \<Rightarrow> bytes" where
  "agg_fields plan state =
     concat (map (\<lambda>(idx, agg).
       let (s, mn, mx, n) = agg_stats (ga_kind agg) (get (gs_aggs state) idx)
       in agg_record s mn mx n) (enumerate 0 (pl_group_aggs plan)))"

definition group_record :: "plan \<Rightarrow> group_key \<Rightarrow> group_state \<Rightarrow> bytes" where
  "group_record plan key state = le64 (gk_a key) @ le64 (gk_b key) @ agg_fields plan state"

definition group_record_with_key :: "plan \<Rightarrow> group_key \<Rightarrow> bytes \<Rightarrow> group_state \<Rightarrow> bytes" where
  "group_record_with_key plan key key_bytes state =
     le64 (gk_a key) @ le64 (gk_b key) @ le32 (of_nat (length key_bytes)) @ le32 0 @ key_bytes @
     agg_fields plan state"

definition count_kind_of :: "plan \<Rightarrow> u8" where
  "count_kind_of plan =
     (case pl_group_by plan of Some g \<Rightarrow> gb_count_kind g | None \<Rightarrow> AGG_KIND_COUNT_STAR)"

text \<open>The groups by descending count, those with equal counts in the order they were found.\<close>

definition groups_by_count :: "plan \<Rightarrow> (group_key \<times> group_state) list" where
  "groups_by_count plan =
     (let pairs = List.map_filter (\<lambda>(idx, key).
            map_option (\<lambda>state. (idx, key, state)) (pl_group_state plan key))
            (enumerate 0 (pl_group_keys plan));
          value = (\<lambda>(idx, key, state). int (group_order_value plan (count_kind_of plan) state))
      in map snd (sort_by (\<lambda>a b. cmp_then (cmp_by value b a) (cmp_by (\<lambda>x. int (fst x)) a b) \<le> 0) pairs))"

definition dom_size :: "('k \<rightharpoonup> 'v) \<Rightarrow> nat" where "dom_size m = card (dom m)"

definition groups_window :: "plan \<Rightarrow> (group_key \<times> group_state) list" where
  "groups_window plan =
     (let avail = dom_size (pl_group_state plan);
          n = group_output_count plan avail;
          skip = min (unat (pl_offset plan)) avail
      in if pl_group_order_by_count plan \<and> 0 < pl_limit plan
         then take n (drop skip (groups_by_count plan))
         else List.map_filter (\<lambda>key. map_option (Pair key) (pl_group_state plan key))
                (take n (drop skip (pl_group_keys plan))))"

definition copy_groups :: "plan \<Rightarrow> nat \<Rightarrow> copied" where
  "copy_groups plan out_len =
     (if plan_uses_group_dict_histogram plan then
        (case pl_hist_counts plan of
           None \<Rightarrow> Inr (0, [])
         | Some counts \<Rightarrow>
             let records = group_hist_to_records counts (pl_hist_sums plan) (pl_hist_dict_len plan)
                   (pl_group_aggs plan) (pl_group_order_by_count plan) (pl_limit plan) (pl_offset plan)
             in copy_out out_len (length records) records)
      else
        let agg_count = length (pl_group_aggs plan); raw = pl_group_rows_raw plan in
        if pl_group_emit_raw plan then
          (case raw_rows agg_count raw of
             None \<Rightarrow> Inl (length raw + 1)
           | Some rows \<Rightarrow>
               copy_out out_len (length rows * (16 + agg_count * AGG_RECORD_BYTES))
                 (concat (map raw_row_record rows)))
        else
          copy_out out_len
            (group_output_count plan (dom_size (pl_group_state plan)) * (16 + agg_count * AGG_RECORD_BYTES))
            (concat (map (\<lambda>(key, state). group_record plan key state) (groups_window plan))))"

definition copy_groups_with_keys :: "plan \<Rightarrow> nat \<Rightarrow> copied" where
  "copy_groups_with_keys plan out_len =
     (if pl_group_emit_raw plan then
        copy_out out_len (length (pl_group_rows_raw plan)) (pl_group_rows_raw plan)
      else
        let out = concat (map (\<lambda>(key, state). group_record_with_key plan key
              (case pl_group_key_repr plan key of Some b \<Rightarrow> b | None \<Rightarrow> []) state) (groups_window plan))
        in copy_out out_len (length out) out)"

definition plan_group_total :: "plan \<Rightarrow> nat" where
  "plan_group_total plan =
     (if pl_group_emit_raw plan then raw_count (length (pl_group_aggs plan)) (pl_group_rows_raw plan)
      else if plan_uses_group_dict_histogram plan then
        group_output_count plan (case pl_hist_counts plan of None \<Rightarrow> 0
          | Some c \<Rightarrow> length (filter (\<lambda>v. 0 < v) (take (unat (pl_hist_dict_len plan)) c)))
      else group_output_count plan (dom_size (pl_group_state plan)))"

end
