(* ===== verification/Chunk_Exec.thy ===== *)
theory Chunk_Exec
  imports Group_Hist Row_Select Like_Mask
begin

text \<open>
  The execution of a plan on one chunk (\<^verbatim>\<open>plan_exec_chunk\<close> of
  \<^verbatim>\<open>wcol-decoder/src/ffi/exec.rs\<close>): decompression, the masks of the filters and their
  combination, the aggregates, the groups and the rows. LZ4, the hashes and the decoder of
  raw string ids are parameters. \<open>Err (Code c)\<close> is the return of the negative code \<open>c\<close>; the
  plan is then partly updated, which is not described. The cache of plan and runtime
  pointers, timing and logging are left out.
\<close>

section \<open>Filters\<close>

text \<open>\<^verbatim>\<open>Err(_) => return code\<close>; a panic is not caught.\<close>

definition fail_with :: "int \<Rightarrow> 'a result \<Rightarrow> 'a result" where
  "fail_with code r = (case r of Inl Panic \<Rightarrow> Err Panic | Inl _ \<Rightarrow> Err (Code code) | Inr x \<Rightarrow> Ok x)"

definition chunk_entry :: "runtime \<Rightarrow> u32 \<Rightarrow> u32 \<Rightarrow> index_entry option" where
  "chunk_entry rt chunk_id col_id =
     Option.bind (r_index_cache rt chunk_id) (\<lambda>entries. get entries (unat col_id))"

definition empty_string_mask ::
  "page_maps \<Rightarrow> nat \<Rightarrow> u32 \<Rightarrow> exec_state \<Rightarrow> column \<Rightarrow> filter_spec \<Rightarrow> mask option result" where
  "empty_string_mask pages rows chunk_id ex col fl =
     (case chunk_entry (ex_runtime ex) chunk_id (fl_col_id fl) of
        None \<Rightarrow> Ok None
      | Some entry \<Rightarrow>
          build_empty_string_mask entry col fl rows (empty_pages pages (fl_col_id fl))
            (null_pages pages (fl_col_id fl)))"

definition decoded_filter_mask ::
  "id_decoder \<Rightarrow> page_maps \<Rightarrow> nat \<Rightarrow> exec_state \<Rightarrow> column \<Rightarrow> filter_spec \<Rightarrow> (mask \<times> exec_state) result"
where
  "decoded_filter_mask decode_ids pages rows ex col fl =
     bindR (of_option (Code (- 8)) (data_pages pages (fl_col_id fl))) (\<lambda>raw.
     bindR (decode_column decode_ids col raw rows ex) (\<lambda>ex.
     bindR (of_option (Code (- 8)) (ex_decoded ex (fl_col_id fl))) (\<lambda>data.
       let resolved = resolve_deferred_filter fl col (ex_runtime ex);
           (nulls, nc) = nulls_of col (ex_nulls ex) (fl_col_id fl)
       in bindR (fail_with (- 18) (build_filter_mask_pipeline col data resolved rows
              (Some (ex_runtime ex)) nulls)) (\<lambda>msk. Ok (msk, ex\<lparr> ex_nulls := nc \<rparr>)))))"

definition raw_like_mask ::
  "page_maps \<Rightarrow> nat \<Rightarrow> exec_state \<Rightarrow> filter_spec \<Rightarrow> (mask \<times> exec_state) result" where
  "raw_like_mask pages rows ex fl =
     bindR (of_option (Code (- 8)) (data_pages pages (fl_col_id fl))) (\<lambda>raw.
     bindR (of_option (Code (- 8)) (fl_value_str fl)) (\<lambda>pattern.
     bindR (decode_raw_string_like_mask raw rows pattern (fl_op fl = OP_NOT_LIKE)) (\<lambda>msk.
       Ok (msk, ex))))"

definition is_like :: "filter_spec \<Rightarrow> bool" where
  "is_like fl \<longleftrightarrow> fl_op fl = OP_LIKE \<or> fl_op fl = OP_NOT_LIKE"

definition apply_col_nulls ::
  "exec_state \<Rightarrow> column \<Rightarrow> u32 \<Rightarrow> mask \<Rightarrow> (mask \<times> exec_state) result" where
  "apply_col_nulls ex col col_id msk =
     (if c_flags col AND FLAG_NULLABLE \<noteq> 0 then
        (let (bitmap, nc) = for_col (ex_nulls ex) col_id in
         if bitmap = None then Ok (msk, ex\<lparr> ex_nulls := nc \<rparr>)
         else bindR (fail_with (- 18) (apply_to_mask nc msk col_id)) (\<lambda>(msk, nc).
                Ok (msk, ex\<lparr> ex_nulls := nc \<rparr>)))
      else Ok (msk, ex))"

definition filter_chunk_mask ::
  "id_decoder \<Rightarrow> column list \<Rightarrow> page_maps \<Rightarrow> nat \<Rightarrow> u32 \<Rightarrow> exec_state \<Rightarrow> filter_spec
     \<Rightarrow> (mask \<times> filter_spec \<times> exec_state) result" where
  "filter_chunk_mask decode_ids schema pages rows chunk_id ex fl =
     bindR (of_option (Code (- 7)) (get schema (unat (fl_col_id fl)))) (\<lambda>col.
       let fl = (if c_flags col AND FLAG_DICT \<noteq> 0 then resolve_like_ids fl col (ex_runtime ex) else fl)
       in bindR (empty_string_mask pages rows chunk_id ex col fl) (\<lambda>empty.
          bindR (case empty of
                   Some msk \<Rightarrow> Ok (msk, ex)
                 | None \<Rightarrow>
                     if is_like fl \<and> c_logical col = TYPE_STRING \<and> c_flags col AND FLAG_DICT = 0
                     then raw_like_mask pages rows ex fl
                     else decoded_filter_mask decode_ids pages rows ex col fl) (\<lambda>(msk, ex).
          bindR (if is_like fl then apply_col_nulls ex col (fl_col_id fl) msk else Ok (msk, ex))
            (\<lambda>(msk, ex). Ok (msk, fl, ex)))))"

definition filter_step ::
  "id_decoder \<Rightarrow> column list \<Rightarrow> page_maps \<Rightarrow> nat \<Rightarrow> u32 \<Rightarrow> mask list \<times> exec_state \<Rightarrow> nat
     \<Rightarrow> (mask list \<times> exec_state) result" where
  "filter_step decode_ids schema pages rows chunk_id st idx =
     (let (masks, ex) = st; fls = pl_filters (ex_plan ex) in
      bindR (filter_chunk_mask decode_ids schema pages rows chunk_id ex (fls ! idx)) (\<lambda>(msk, fl, ex).
        Ok (masks @ [msk],
            ex\<lparr> ex_plan := (ex_plan ex)\<lparr> pl_filters := (pl_filters (ex_plan ex))[idx := fl] \<rparr> \<rparr>)))"

definition combine_chunk_masks :: "plan \<Rightarrow> mask list \<Rightarrow> nat \<Rightarrow> mask result" where
  "combine_chunk_masks plan masks rows =
     (if masks = [] then full_mask rows
      else if pl_combine plan = [] then Ok (foldl mask_and (hd masks) (tl masks))
      else fail_with (- 9) (combine_masks (pl_combine plan) masks))"

section \<open>Aggregates\<close>

definition set_agg :: "exec_state \<Rightarrow> u32 \<Rightarrow> (agg_state \<Rightarrow> agg_state) \<Rightarrow> exec_state result" where
  "set_agg ex key f =
     bindR (of_option Panic (pl_agg_state (ex_plan ex) key)) (\<lambda>st.
       Ok (ex\<lparr> ex_plan := (ex_plan ex)\<lparr> pl_agg_state := (pl_agg_state (ex_plan ex))(key \<mapsto> f st) \<rparr> \<rparr>))"

definition hll_chunk ::
  "(bytes \<Rightarrow> u64) \<Rightarrow> column \<Rightarrow> column_data \<Rightarrow> mask \<Rightarrow> nat \<Rightarrow> u32 \<Rightarrow> exec_state \<Rightarrow> exec_state result" where
  "hll_chunk xxh col data combined rows key ex =
     bindR (of_option (Code (- 19)) (pl_hll_state (ex_plan ex) key)) (\<lambda>hll.
     bindR (apply_col_nulls ex col (agg_key_col_id key) combined) (\<lambda>(msk, ex).
     bindR (if c_flags col AND FLAG_DICT \<noteq> 0 then hll_aggregate_dict_ids xxh data msk rows hll
            else hll_aggregate_column xxh data msk rows hll) (\<lambda>hll.
       Ok (ex\<lparr> ex_plan := (ex_plan ex)\<lparr> pl_hll_state := (pl_hll_state (ex_plan ex))(key \<mapsto> hll) \<rparr> \<rparr>))))"

text \<open>The partial state of a column is kept for the following aggregates of the same column.\<close>

definition aggregate_step ::
  "(bytes \<Rightarrow> u64) \<Rightarrow> id_decoder \<Rightarrow> column list \<Rightarrow> page_maps \<Rightarrow> mask \<Rightarrow> nat
     \<Rightarrow> exec_state \<times> (u32 \<times> agg_state) option \<Rightarrow> u32
     \<Rightarrow> (exec_state \<times> (u32 \<times> agg_state) option) result" where
  "aggregate_step xxh decode_ids schema pages combined rows st key =
     (let (ex, cached) = st; kind = agg_key_kind key; col_id = agg_key_col_id key in
      if kind = AGG_KIND_COUNT_STAR then
        bindR (set_agg ex key (\<lambda>s. s\<lparr> a_count := a_count s + mask_count combined \<rparr>)) (\<lambda>ex.
          Ok (ex, cached))
      else
        bindR (of_option (Code (- 10)) (get schema (unat col_id))) (\<lambda>col.
        bindR (of_option (Code (- 11)) (data_pages pages col_id)) (\<lambda>raw.
        bindR (decode_column decode_ids col raw rows ex) (\<lambda>ex.
        bindR (of_option (Code (- 11)) (ex_decoded ex col_id)) (\<lambda>data.
          if kind = AGG_KIND_APPROX_DISTINCT then
            bindR (hll_chunk xxh col data combined rows key ex) (\<lambda>ex. Ok (ex, cached))
          else
            bindR (case cached of
                     Some (c, partial) \<Rightarrow>
                       if c = col_id then Ok (partial, ex)
                       else bindR (apply_col_nulls ex col col_id combined) (\<lambda>(msk, ex).
                              bindR (aggregate_column col data msk rows) (\<lambda>p. Ok (p, ex)))
                   | None \<Rightarrow>
                       bindR (apply_col_nulls ex col col_id combined) (\<lambda>(msk, ex).
                         bindR (aggregate_column col data msk rows) (\<lambda>p. Ok (p, ex)))) (\<lambda>(partial, ex).
            bindR (set_agg ex key (\<lambda>s. merge_agg_by_kind s partial kind)) (\<lambda>ex.
              Ok (ex, Some (col_id, partial)))))))))"

section \<open>Groups\<close>

record agg_input =
  ai_kind :: u8
  ai_source :: "(column \<times> column_data) option"
  ai_nulls :: "bytes option"

definition decode_group_col ::
  "int \<Rightarrow> int \<Rightarrow> id_decoder \<Rightarrow> column list \<Rightarrow> page_maps \<Rightarrow> nat \<Rightarrow> exec_state \<Rightarrow> u32
     \<Rightarrow> (column \<times> exec_state) result" where
  "decode_group_col no_col no_page decode_ids schema pages rows ex col_id =
     bindR (of_option (Code no_col) (get schema (unat col_id))) (\<lambda>col.
     bindR (of_option (Code no_page) (data_pages pages col_id)) (\<lambda>raw.
     bindR (decode_column decode_ids col raw rows ex) (\<lambda>ex. Ok (col, ex))))"

definition group_key_step ::
  "id_decoder \<Rightarrow> column list \<Rightarrow> page_maps \<Rightarrow> nat \<Rightarrow> bytes option list \<times> exec_state \<Rightarrow> u32
     \<Rightarrow> (bytes option list \<times> exec_state) result" where
  "group_key_step decode_ids schema pages rows st col_id =
     (let (key_nulls, ex) = st in
      bindR (decode_group_col (- 12) (- 13) decode_ids schema pages rows ex col_id) (\<lambda>(col, ex).
        let (nulls, nc) = nulls_of col (ex_nulls ex) col_id
        in Ok (key_nulls @ [nulls], ex\<lparr> ex_nulls := nc \<rparr>)))"

definition group_agg_columns :: "group_agg list \<Rightarrow> u32 list" where
  "group_agg_columns aggs =
     dedup_first [] (map ga_col_id (filter (\<lambda>a. ga_kind a \<noteq> AGG_KIND_COUNT_STAR) aggs))"

definition agg_input_step ::
  "column list \<Rightarrow> agg_input list \<times> exec_state \<Rightarrow> group_agg \<Rightarrow> (agg_input list \<times> exec_state) result" where
  "agg_input_step schema st agg =
     (let (inputs, ex) = st in
      if ga_kind agg = AGG_KIND_COUNT_STAR then
        Ok (inputs @ [\<lparr> ai_kind = ga_kind agg, ai_source = None, ai_nulls = None \<rparr>], ex)
      else
        bindR (of_option (Code (- 14)) (get schema (unat (ga_col_id agg)))) (\<lambda>col.
        bindR (of_option (Code (- 15)) (ex_decoded ex (c_id col))) (\<lambda>data.
          let (nulls, nc) = nulls_of col (ex_nulls ex) (ga_col_id agg)
          in Ok (inputs @ [\<lparr> ai_kind = ga_kind agg, ai_source = Some (col, data), ai_nulls = nulls \<rparr>],
                 ex\<lparr> ex_nulls := nc \<rparr>))))"

definition key_column :: "column list \<Rightarrow> exec_state \<Rightarrow> u32 \<Rightarrow> (column \<times> column_data) result" where
  "key_column schema ex key =
     bindR (of_option (Code (- 12)) (get schema (unat key))) (\<lambda>col.
     bindR (of_option (Code (- 13)) (ex_decoded ex (c_id col))) (\<lambda>data. Ok (col, data)))"

definition new_group_state :: "group_agg list \<Rightarrow> group_state" where
  "new_group_state aggs = \<lparr> gs_aggs = map (\<lambda>agg.
     if ga_kind agg = AGG_KIND_APPROX_DISTINCT then GA_Distinct {} else GA_Numeric agg_empty) aggs \<rparr>"

definition input_valid :: "agg_input \<Rightarrow> nat \<Rightarrow> bool result" where
  "input_valid ai row = (case ai_nulls ai of None \<Rightarrow> Ok True | Some nulls \<Rightarrow> is_valid nulls row)"

definition numeric_kind :: "u8 \<Rightarrow> bool" where
  "numeric_kind kind \<longleftrightarrow> kind \<in> {AGG_KIND_SUM, AGG_KIND_MIN, AGG_KIND_MAX, AGG_KIND_AVG}"

definition count_one :: "agg_state \<Rightarrow> agg_state" where
  "count_one s = s\<lparr> a_count := sat_add32 (a_count s) 1 \<rparr>"

definition add_group_value :: "agg_state \<Rightarrow> f64 \<Rightarrow> agg_state" where
  "add_group_value s value =
     (count_one s)\<lparr> a_sum := f_add (a_sum s) value,
       a_min := (if f_lt value (a_min s) then value else a_min s),
       a_max := (if f_lt (a_max s) value then value else a_max s) \<rparr>"

definition update_group_agg :: "nat \<Rightarrow> agg_input \<Rightarrow> group_agg_state \<Rightarrow> group_agg_state result" where
  "update_group_agg row ai state =
     (let kind = ai_kind ai in
      case state of
        GA_Numeric s \<Rightarrow>
          if kind = AGG_KIND_COUNT_STAR then Ok (GA_Numeric (count_one s))
          else if kind = AGG_KIND_COUNT then
            bindR (input_valid ai row) (\<lambda>v. Ok (GA_Numeric (if v then count_one s else s)))
          else if numeric_kind kind then
            bindR (input_valid ai row) (\<lambda>v.
              if \<not> v then Ok (GA_Numeric s)
              else (case ai_source ai of
                      None \<Rightarrow> Ok (GA_Numeric s)
                    | Some (col, data) \<Rightarrow>
                        bindR (read_value_f64 col data row) (\<lambda>x. Ok (GA_Numeric (add_group_value s x)))))
          else Ok (GA_Numeric s)
      | GA_Distinct vs \<Rightarrow>
          if kind = AGG_KIND_APPROX_DISTINCT then
            bindR (input_valid ai row) (\<lambda>v.
              if \<not> v then Ok (GA_Distinct vs)
              else (case ai_source ai of
                      None \<Rightarrow> Ok (GA_Distinct vs)
                    | Some (col, data) \<Rightarrow>
                        bindR (read_distinct_key data row) (\<lambda>k.
                          Ok (GA_Distinct (case k of None \<Rightarrow> vs | Some k \<Rightarrow> insert k vs)))))
          else Ok (GA_Distinct vs))"

fun update_group_aggs :: "nat \<Rightarrow> agg_input list \<Rightarrow> group_agg_state list \<Rightarrow> group_agg_state list result" where
  "update_group_aggs row (ai # ais) (s # ss) =
     bindR (update_group_agg row ai s) (\<lambda>s. bindR (update_group_aggs row ais ss) (\<lambda>ss. Ok (s # ss)))"
| "update_group_aggs row ais ss = Ok ss"

text \<open>The search for a free key ends only if some seed gives one.\<close>

partial_function (option) remap_loop ::
  "(u64 \<Rightarrow> u64) \<Rightarrow> u64 \<Rightarrow> (group_key \<rightharpoonup> bytes) \<Rightarrow> u64 \<Rightarrow> group_key option" where
  "remap_loop hash a existing seed =
     (let candidate = \<lparr> gk_a = a, gk_b = hash seed \<rparr> in
      if existing candidate = None then Some candidate
      else remap_loop hash a existing (if seed = - 1 then seed else seed + 1))"

definition remap_group_key_for_collision ::
  "(bytes \<Rightarrow> u64 \<Rightarrow> u64) \<Rightarrow> group_key \<Rightarrow> bytes \<Rightarrow> (group_key \<rightharpoonup> bytes) \<Rightarrow> group_key option" where
  "remap_group_key_for_collision seeded base bs existing =
     remap_loop (\<lambda>seed. seeded bs (gk_b base XOR seed)) (gk_a base) existing 1"

record group_ctx =
  gc_xxh :: "bytes \<Rightarrow> u64"
  gc_seeded :: "bytes \<Rightarrow> u64 \<Rightarrow> u64"
  gc_keys :: "(column \<times> column_data) list"
  gc_inputs :: "agg_input list"
  gc_dicts :: "u32 \<rightharpoonup> dictionary"

definition heavy_string_keys :: "group_ctx \<Rightarrow> bool" where
  "heavy_string_keys gc \<longleftrightarrow>
     (\<exists>(col, data) \<in> set (gc_keys gc). c_logical col = TYPE_STRING \<and> c_flags col AND FLAG_DICT = 0)"

text \<open>The key of a row and, for raw string keys, its byte form.\<close>

definition row_group_key :: "group_ctx \<Rightarrow> nat \<Rightarrow> (group_key \<times> bytes option) result" where
  "row_group_key gc row =
     (if heavy_string_keys gc then
        bindR (build_group_key_materialized (gc_xxh gc) (gc_seeded gc) (gc_keys gc) row (gc_dicts gc))
          (\<lambda>m. Ok (mk_key m, Some (mk_repr m)))
      else bindR (build_group_key (gc_xxh gc) (gc_keys gc) row (Some (gc_dicts gc))) (\<lambda>k. Ok (k, None)))"

definition raw_agg_fields :: "nat \<Rightarrow> agg_input \<Rightarrow> bytes result" where
  "raw_agg_fields row ai =
     (let kind = ai_kind ai; none = agg_record f_zero f_zero f_zero 0;
          one = agg_record f_zero f_zero f_zero 1 in
      if kind = AGG_KIND_COUNT_STAR then Ok one
      else if kind = AGG_KIND_COUNT then
        bindR (input_valid ai row) (\<lambda>v. Ok (if v then one else none))
      else if numeric_kind kind then
        bindR (input_valid ai row) (\<lambda>v.
          if \<not> v then Ok none
          else (case ai_source ai of
                  None \<Rightarrow> Err (Code (- 14))
                | Some (col, data) \<Rightarrow>
                    bindR (read_value_f64 col data row) (\<lambda>x. Ok (agg_record x x x 1))))
      else if kind = AGG_KIND_APPROX_DISTINCT then Err (Code (- 1000))
      else Ok none)"

definition emit_raw_row :: "group_ctx \<Rightarrow> plan \<Rightarrow> nat \<Rightarrow> plan result" where
  "emit_raw_row gc plan row =
     bindR (row_group_key gc row) (\<lambda>(key, repr).
       let key_bytes = (case repr of Some r \<Rightarrow> r | None \<Rightarrow> []) in
       bindR (mapR (raw_agg_fields row) (gc_inputs gc)) (\<lambda>fields.
         Ok (plan\<lparr> pl_group_rows_raw := pl_group_rows_raw plan @
               le64 (gk_a key) @ le64 (gk_b key) @ le32 (of_nat (length key_bytes)) @ le32 0 @
               key_bytes @ concat fields \<rparr>)))"

definition collision_free_key ::
  "group_ctx \<Rightarrow> plan \<Rightarrow> group_key \<Rightarrow> bytes option \<Rightarrow> group_key result" where
  "collision_free_key gc plan key repr =
     (case repr of
        None \<Rightarrow> Ok key
      | Some r \<Rightarrow>
          (case pl_group_key_repr plan key of
             None \<Rightarrow> Ok key
           | Some existing \<Rightarrow>
               if existing = r then Ok key
               else of_option (Bail ''no free key'')
                 (remap_group_key_for_collision (gc_seeded gc) key r (pl_group_key_repr plan))))"

definition group_entry :: "plan \<Rightarrow> group_key \<Rightarrow> bytes option \<Rightarrow> group_state \<times> plan" where
  "group_entry plan key repr =
     (case pl_group_state plan key of
        Some g \<Rightarrow> (g, plan)
      | None \<Rightarrow>
          let g = new_group_state (pl_group_aggs plan)
          in (g, plan\<lparr> pl_group_keys := pl_group_keys plan @ [key],
                       pl_group_key_repr := (case repr of None \<Rightarrow> pl_group_key_repr plan
                          | Some r \<Rightarrow> (pl_group_key_repr plan)(key \<mapsto> r)),
                       pl_group_state := (pl_group_state plan)(key \<mapsto> g) \<rparr>))"

definition count_only :: "group_agg list \<Rightarrow> bool" where
  "count_only aggs \<longleftrightarrow> length aggs = 1 \<and> ga_kind (aggs ! 0) = AGG_KIND_COUNT_STAR"

fun count_first :: "group_agg_state list \<Rightarrow> group_agg_state list" where
  "count_first (GA_Numeric s # rest) = GA_Numeric (count_one s) # rest"
| "count_first ss = ss"

definition group_row :: "group_ctx \<Rightarrow> plan \<Rightarrow> nat \<Rightarrow> plan result" where
  "group_row gc plan row =
     bindR (row_group_key gc row) (\<lambda>(base, repr).
     bindR (collision_free_key gc plan base repr) (\<lambda>key.
       let (g, plan) = group_entry plan key repr in
       bindR (if count_only (pl_group_aggs plan) then Ok (count_first (gs_aggs g))
              else update_group_aggs row (gc_inputs gc) (gs_aggs g)) (\<lambda>aggs.
         Ok (plan\<lparr> pl_group_state := (pl_group_state plan)(key \<mapsto> g\<lparr> gs_aggs := aggs \<rparr>) \<rparr>))))"

definition process_group_row ::
  "group_ctx \<Rightarrow> bytes option list \<Rightarrow> plan \<Rightarrow> nat \<Rightarrow> plan result" where
  "process_group_row gc key_nulls plan row =
     bindR (row_is_valid_for_all row key_nulls) (\<lambda>valid.
       if \<not> valid then Ok plan
       else if pl_group_emit_raw plan then emit_raw_row gc plan row
       else group_row gc plan row)"

definition histogram_phase ::
  "column list \<Rightarrow> mask \<Rightarrow> nat \<Rightarrow> bytes option list \<Rightarrow> (column \<times> column_data) list \<Rightarrow> exec_state
     \<Rightarrow> exec_state result" where
  "histogram_phase schema combined rows key_nulls keys ex =
     (let plan = ex_plan ex in
      bindR (of_option (Code (- 20)) (pl_hist_counts plan)) (\<lambda>counts.
      bindR (index keys 0) (\<lambda>(col, data).
      bindR (hist_count_dict_column counts data combined rows key_nulls) (\<lambda>counts.
      bindR (case pl_hist_sums plan of
               None \<Rightarrow> Ok None
             | Some sums \<Rightarrow>
                 let sum_col_id = (case find (\<lambda>a. ga_kind a = AGG_KIND_SUM) (pl_group_aggs plan) of
                       Some a \<Rightarrow> ga_col_id a | None \<Rightarrow> 0xffffffff)
                 in bindR (of_option (Code (- 21)) (get schema (unat sum_col_id))) (\<lambda>_.
                    bindR (of_option (Code (- 22)) (ex_decoded ex sum_col_id)) (\<lambda>val_data.
                    bindR (hist_sum_f64_dict_key sums data val_data combined rows key_nulls) (\<lambda>sums.
                      Ok (Some sums))))) (\<lambda>sums.
        Ok (ex\<lparr> ex_plan := plan\<lparr> pl_hist_counts := Some counts, pl_hist_sums := sums \<rparr> \<rparr>))))))"

definition group_phase ::
  "(bytes \<Rightarrow> u64) \<Rightarrow> (bytes \<Rightarrow> u64 \<Rightarrow> u64) \<Rightarrow> id_decoder \<Rightarrow> column list \<Rightarrow> page_maps \<Rightarrow> mask \<Rightarrow> bool
     \<Rightarrow> nat \<Rightarrow> group_by \<Rightarrow> exec_state \<Rightarrow> exec_state result" where
  "group_phase xxh seeded decode_ids schema pages combined combined_full rows gb ex =
     bindR (foldR (group_key_step decode_ids schema pages rows) ([], ex) (gb_keys gb)) (\<lambda>(key_nulls, ex).
     bindR (foldR (\<lambda>ex col_id. bindR (decode_group_col (- 14) (- 15) decode_ids schema pages rows ex col_id)
              (\<lambda>(col, ex). Ok ex)) ex (group_agg_columns (pl_group_aggs (ex_plan ex)))) (\<lambda>ex.
     bindR (foldR (agg_input_step schema) ([], ex) (pl_group_aggs (ex_plan ex))) (\<lambda>(inputs, ex).
     bindR (mapR (key_column schema ex) (gb_keys gb)) (\<lambda>keys.
       if plan_uses_group_dict_histogram (ex_plan ex) then
         histogram_phase schema combined rows key_nulls keys ex
       else
         let gc = \<lparr> gc_xxh = xxh, gc_seeded = seeded, gc_keys = keys, gc_inputs = inputs,
                    gc_dicts = r_dicts (ex_runtime ex) \<rparr>
         in bindR (foldR (process_group_row gc key_nulls) (ex_plan ex)
                     (phase_rows combined combined_full rows)) (\<lambda>plan.
              Ok (ex\<lparr> ex_plan := plan \<rparr>))))))"

section \<open>The chunk\<close>

definition exec_pages ::
  "(bytes \<Rightarrow> u64) \<Rightarrow> (bytes \<Rightarrow> u64 \<Rightarrow> u64) \<Rightarrow> id_decoder \<Rightarrow> u32 \<Rightarrow> u32 \<Rightarrow> nat \<Rightarrow> page_maps
     \<Rightarrow> plan \<Rightarrow> runtime \<Rightarrow> (int \<times> exec_state) result" where
  "exec_pages xxh seeded decode_ids chunk_id rows_per_chunk rows pages plan rt =
     (let schema = r_schema rt;
          ex = \<lparr> ex_plan = plan, ex_runtime = rt, ex_decoded = Map.empty,
                 ex_nulls = null_cache_new (null_pages pages) rows \<rparr> in
      bindR (foldR (filter_step decode_ids schema pages rows chunk_id) ([], ex)
               [0..<length (pl_filters plan)]) (\<lambda>(masks, ex).
      bindR (combine_chunk_masks (ex_plan ex) masks rows) (\<lambda>combined.
      bindR (clear_tail combined rows) (\<lambda>combined.
        if mask_is_zero combined then Ok (0, ex)
        else
          bindR (mask_is_full combined rows) (\<lambda>combined_full.
          bindR (foldR (aggregate_step xxh decode_ids schema pages combined rows) (ex, None)
                   (pl_aggregates (ex_plan ex))) (\<lambda>(ex, _).
          bindR (case pl_group_by (ex_plan ex) of
                   None \<Rightarrow> Ok ex
                 | Some gb \<Rightarrow> group_phase xxh seeded decode_ids schema pages combined combined_full rows gb ex)
            (\<lambda>ex.
          bindR (execute_row_phase decode_ids schema (data_pages pages) combined combined_full rows
                   chunk_id rows_per_chunk ex) (\<lambda>ex.
            Ok (sint (mask_count combined), ex)))))))))"

definition plan_exec_chunk ::
  "(bytes \<Rightarrow> nat \<Rightarrow> bytes option) \<Rightarrow> (bytes \<Rightarrow> u64) \<Rightarrow> (bytes \<Rightarrow> u64 \<Rightarrow> u64) \<Rightarrow> id_decoder
     \<Rightarrow> runtimes \<Rightarrow> (u32 \<rightharpoonup> plan) \<Rightarrow> u32 \<Rightarrow> u32 \<Rightarrow> u32 \<Rightarrow> u32 list \<Rightarrow> bytes
     \<Rightarrow> (int \<times> runtimes \<times> (u32 \<rightharpoonup> plan)) result" where
  "plan_exec_chunk decompress xxh seeded decode_ids rts plans runtime_handle plan_handle chunk_id descs data =
     bindR (of_option (Code (- 2)) (plans plan_handle)) (\<lambda>plan.
       if pl_runtime plan \<noteq> runtime_handle then Err (Code (- 7))
       else bindR (of_option (Code (- 1)) (rts runtime_handle)) (\<lambda>rt.
            bindR (of_option (Code (- 3)) (r_header rt)) (\<lambda>header.
              if length descs mod PAGE_EXEC_WORDS \<noteq> 0 then Err (Code (- 4))
              else
                let rows = rows_in_chunk (h_total_rows header) (unat (h_rows_per_chunk header))
                      (unat chunk_id) in
                if rows = 0 then Ok (0, rts, plans)
                else bindR (decompress_pages decompress descs data rows) (\<lambda>pages.
                     bindR (exec_pages xxh seeded decode_ids chunk_id (h_rows_per_chunk header) rows
                              pages plan rt) (\<lambda>(code, ex).
                       Ok (code, rts(runtime_handle \<mapsto> ex_runtime ex),
                           plans(plan_handle \<mapsto> ex_plan ex)))))))"

end
