(* ===== verification/Plan_Table.thy ===== *)
theory Plan_Table
  imports Group_Hist
begin

text \<open>
  The table of plans behind its handles: creation and destruction
  (\<^verbatim>\<open>wcol-decoder/src/ffi/plan/lifecycle.rs\<close>), the calls that configure a plan
  (\<^verbatim>\<open>plan/config.rs\<close>) and the calls that read its results (\<^verbatim>\<open>plan/results.rs\<close>). A call
  gives its status code with the new table. Shrinking buffers and timing are left out.
\<close>

type_synonym plans = "u32 \<rightharpoonup> plan"

section \<open>Creating and destroying\<close>

definition plan_new :: "u32 \<Rightarrow> plan" where
  "plan_new runtime_handle =
     \<lparr> pl_runtime = runtime_handle, pl_filters = [], pl_combine = [], pl_group_by = None,
       pl_aggregates = [], pl_limit = 0, pl_offset = 0, pl_rows = [], pl_agg_state = Map.empty,
       pl_group_state = Map.empty, pl_group_keys = [], pl_group_key_repr = Map.empty,
       pl_group_order_by_count = False, pl_group_aggs = [], pl_row_order_by = [],
       pl_row_heap = [], pl_row_order_lex_ranks = Map.empty, pl_hll_state = Map.empty,
       pl_group_emit_raw = False, pl_group_rows_raw = [], pl_hist_dict_len = 0,
       pl_hist_counts = None, pl_hist_sums = None, pl_select_cols = [],
       pl_row_projection = row_projection_empty \<rparr>"

definition create_plan :: "u32 \<Rightarrow> plans \<Rightarrow> u32 \<Rightarrow> u32 \<times> u32 \<times> plans" where
  "create_plan counter plans runtime_handle =
     (let (handle, counter) = next_handle counter
      in (handle, counter, plans(handle \<mapsto> plan_new runtime_handle)))"

definition destroy_plan :: "plans \<Rightarrow> u32 \<Rightarrow> plans" where
  "destroy_plan plans handle = plans(handle := None)"

section \<open>Configuring\<close>

definition update_plan :: "plans \<Rightarrow> u32 \<Rightarrow> (plan \<Rightarrow> plan) \<Rightarrow> int \<times> plans" where
  "update_plan plans handle f =
     (case plans handle of Some p \<Rightarrow> (0, plans(handle \<mapsto> f p)) | None \<Rightarrow> (- 1, plans))"

definition plan_set_limit :: "plans \<Rightarrow> u32 \<Rightarrow> u32 \<Rightarrow> int \<times> plans" where
  "plan_set_limit plans handle limit = update_plan plans handle (\<lambda>p. p\<lparr> pl_limit := limit \<rparr>)"

definition plan_set_offset :: "plans \<Rightarrow> u32 \<Rightarrow> u32 \<Rightarrow> int \<times> plans" where
  "plan_set_offset plans handle offset = update_plan plans handle (\<lambda>p. p\<lparr> pl_offset := offset \<rparr>)"

definition plan_set_group_order_by_count :: "plans \<Rightarrow> u32 \<Rightarrow> int \<Rightarrow> int \<times> plans" where
  "plan_set_group_order_by_count plans handle enabled =
     update_plan plans handle (\<lambda>p. p\<lparr> pl_group_order_by_count := (enabled \<noteq> 0) \<rparr>)"

definition plan_set_group_emit_raw :: "plans \<Rightarrow> u32 \<Rightarrow> int \<Rightarrow> int \<times> plans" where
  "plan_set_group_emit_raw plans handle enabled =
     update_plan plans handle (\<lambda>p. p\<lparr> pl_group_emit_raw := (enabled \<noteq> 0) \<rparr>)"

definition plan_set_combine :: "plans \<Rightarrow> u32 \<Rightarrow> int list \<Rightarrow> int \<times> plans" where
  "plan_set_combine plans handle tokens = update_plan plans handle (\<lambda>p. p\<lparr> pl_combine := tokens \<rparr>)"

definition plan_offset :: "plans \<Rightarrow> u32 \<Rightarrow> int" where
  "plan_offset plans handle = (case plans handle of Some p \<Rightarrow> sint (pl_offset p) | None \<Rightarrow> - 1)"

definition plan_prepare_optimizations ::
  "bool \<Rightarrow> nat \<Rightarrow> runtimes \<Rightarrow> plans \<Rightarrow> u32 \<Rightarrow> int \<times> plans" where
  "plan_prepare_optimizations disabled max_dict rts plans handle =
     (case plans handle of
        None \<Rightarrow> (- 1, plans)
      | Some p \<Rightarrow>
          (case rts (pl_runtime p) of
             None \<Rightarrow> (- 2, plans)
           | Some rt \<Rightarrow>
               update_plan plans handle
                 (\<lambda>p. try_enable_group_dict_histogram disabled max_dict p rt)))"

definition push_filter :: "plans \<Rightarrow> u32 \<Rightarrow> filter_spec \<Rightarrow> int \<times> plans" where
  "push_filter plans handle fl =
     (case plans handle of
        None \<Rightarrow> (- 1, plans)
      | Some p \<Rightarrow> (int (length (pl_filters p)),
                   plans(handle \<mapsto> p\<lparr> pl_filters := pl_filters p @ [fl] \<rparr>)))"

definition plan_add_filter :: "plans \<Rightarrow> u32 \<Rightarrow> u32 \<Rightarrow> u8 \<Rightarrow> f64 \<Rightarrow> f64 \<Rightarrow> int \<times> plans" where
  "plan_add_filter plans handle col_id op value value2 =
     push_filter plans handle \<lparr> fl_col_id = col_id, fl_op = op, fl_value = value,
       fl_value2 = value2, fl_in_list = None, fl_value_str = None, fl_in_list_str = None,
       fl_like_ids = None \<rparr>"

definition plan_add_filter_in :: "plans \<Rightarrow> u32 \<Rightarrow> u32 \<Rightarrow> u8 \<Rightarrow> f64 list \<Rightarrow> int \<times> plans" where
  "plan_add_filter_in plans handle col_id op vs =
     push_filter plans handle \<lparr> fl_col_id = col_id, fl_op = op, fl_value = f_zero,
       fl_value2 = f_zero, fl_in_list = Some vs, fl_value_str = None, fl_in_list_str = None,
       fl_like_ids = None \<rparr>"

definition plan_set_filter_value_str :: "plans \<Rightarrow> u32 \<Rightarrow> u32 \<Rightarrow> bytes \<Rightarrow> int \<times> plans" where
  "plan_set_filter_value_str plans handle idx value =
     (case from_utf8 value of
        None \<Rightarrow> (- 3, plans)
      | Some s \<Rightarrow>
          (case plans handle of
             None \<Rightarrow> (- 1, plans)
           | Some p \<Rightarrow>
               let i = unat idx; fls = pl_filters p in
               if length fls \<le> i then (- 2, plans)
               else (0, plans(handle \<mapsto>
                      p\<lparr> pl_filters := fls[i := (fls ! i)\<lparr> fl_value_str := Some s \<rparr>] \<rparr>))))"

text \<open>Columns are \<^verbatim>\<open>i32\<close>, a negative one is absent.\<close>

definition plan_set_group_by :: "plans \<Rightarrow> u32 \<Rightarrow> int \<Rightarrow> int \<Rightarrow> int \<Rightarrow> int \<times> plans" where
  "plan_set_group_by plans handle key1 key2 value_col =
     update_plan plans handle (\<lambda>p.
       let keys = (if 0 \<le> key1 then [of_int key1] else []) @ (if 0 \<le> key2 then [of_int key2] else []) in
       if keys = [] then p\<lparr> pl_group_by := None, pl_group_aggs := [] \<rparr>
       else p\<lparr> pl_group_by := Some \<lparr> gb_keys = keys,
                 gb_value_col = (if 0 \<le> value_col then Some (of_int value_col) else None),
                 gb_value_kind = AGG_KIND_SUM, gb_count_kind = AGG_KIND_COUNT_STAR \<rparr>,
               pl_group_aggs := \<lparr> ga_col_id = ROW_COUNT_COL_ID, ga_kind = AGG_KIND_COUNT_STAR \<rparr> #
                 (if 0 \<le> value_col then [\<lparr> ga_col_id = of_int value_col, ga_kind = AGG_KIND_SUM \<rparr>]
                  else []) \<rparr>)"

definition ERR_NON_NUMERIC_AGG :: int where "ERR_NON_NUMERIC_AGG = - 1100"

definition entry_or :: "('k \<rightharpoonup> 'v) \<Rightarrow> 'k \<Rightarrow> 'v \<Rightarrow> ('k \<rightharpoonup> 'v)" where
  "entry_or m k v = (case m k of Some _ \<Rightarrow> m | None \<Rightarrow> m(k \<mapsto> v))"

definition plan_add_aggregate :: "runtimes \<Rightarrow> plans \<Rightarrow> u32 \<Rightarrow> u32 \<Rightarrow> int \<times> plans" where
  "plan_add_aggregate rts plans handle col_id =
     (case plans handle of
        None \<Rightarrow> (- 1, plans)
      | Some p \<Rightarrow>
          (case rts (pl_runtime p) of
             None \<Rightarrow> (- 2, plans)
           | Some rt \<Rightarrow>
               (case get (r_schema rt) (unat col_id) of
                  None \<Rightarrow> (- 3, plans)
                | Some col \<Rightarrow>
                    if c_flags col AND FLAG_DICT \<noteq> 0 \<or> c_logical col = TYPE_STRING
                    then (ERR_NON_NUMERIC_AGG, plans)
                    else
                      let key = agg_key_make col_id AGG_KIND_SUM 0
                      in (0, plans(handle \<mapsto> p\<lparr> pl_aggregates := pl_aggregates p @ [key],
                            pl_agg_state := entry_or (pl_agg_state p) key agg_empty \<rparr>)))))"

definition reset_results :: "plan \<Rightarrow> plan" where
  "reset_results p =
     p\<lparr> pl_rows := [], pl_agg_state := map_option (\<lambda>_. agg_empty) \<circ> pl_agg_state p,
        pl_group_state := Map.empty, pl_group_keys := [], pl_group_key_repr := Map.empty,
        pl_group_rows_raw := [],
        pl_hist_counts := map_option (\<lambda>c. replicate (length c) 0) (pl_hist_counts p),
        pl_hist_sums := map_option (\<lambda>s. replicate (length s) f_zero) (pl_hist_sums p),
        pl_row_heap := [], pl_row_projection := row_projection_clear (pl_row_projection p),
        pl_hll_state := map_option (\<lambda>h. h\<lparr> hl_registers := replicate (length (hl_registers h)) 0 \<rparr>)
          \<circ> pl_hll_state p \<rparr>"

definition plan_reset_results :: "plans \<Rightarrow> u32 \<Rightarrow> int \<times> plans" where
  "plan_reset_results plans handle = update_plan plans handle reset_results"

definition clear_plan :: "plan \<Rightarrow> plan" where
  "clear_plan p =
     p\<lparr> pl_filters := [], pl_combine := [], pl_group_by := None, pl_aggregates := [],
        pl_limit := 0, pl_offset := 0, pl_agg_state := Map.empty, pl_group_state := Map.empty,
        pl_group_keys := [], pl_group_key_repr := Map.empty, pl_group_order_by_count := False,
        pl_group_aggs := [], pl_group_emit_raw := False, pl_group_rows_raw := [],
        pl_hist_dict_len := 0, pl_hist_counts := None, pl_hist_sums := None,
        pl_row_order_by := [], pl_row_heap := [], pl_row_order_lex_ranks := Map.empty,
        pl_hll_state := Map.empty, pl_select_cols := [],
        pl_row_projection := row_projection_clear (pl_row_projection p) \<rparr>"

definition plan_clear :: "plans \<Rightarrow> u32 \<Rightarrow> int \<times> plans" where
  "plan_clear plans handle = update_plan plans handle clear_plan"

section \<open>Reading results\<close>

definition ask_plan :: "plans \<Rightarrow> u32 \<Rightarrow> (plan \<Rightarrow> int) \<Rightarrow> int" where
  "ask_plan plans handle f = (case plans handle of Some p \<Rightarrow> f p | None \<Rightarrow> - 1)"

text \<open>A \<^verbatim>\<open>usize\<close> or \<^verbatim>\<open>u32\<close> count that is cast to \<^verbatim>\<open>i32\<close>.\<close>

definition as_i32 :: "nat \<Rightarrow> int" where "as_i32 n = sint (of_nat n :: u32)"

definition plan_filters_len :: "plans \<Rightarrow> u32 \<Rightarrow> int" where
  "plan_filters_len plans handle = ask_plan plans handle (\<lambda>p. as_i32 (length (pl_filters p)))"

definition plan_rows_len :: "plans \<Rightarrow> u32 \<Rightarrow> int" where
  "plan_rows_len plans handle = ask_plan plans handle (\<lambda>p. as_i32 (length (pl_rows p)))"

definition plan_limit :: "plans \<Rightarrow> u32 \<Rightarrow> int" where
  "plan_limit plans handle = ask_plan plans handle (\<lambda>p. sint (pl_limit p))"

definition plan_row_order_by_len :: "plans \<Rightarrow> u32 \<Rightarrow> int" where
  "plan_row_order_by_len plans handle = ask_plan plans handle (\<lambda>p. as_i32 (length (pl_row_order_by p)))"

definition plan_group_order_by_count :: "plans \<Rightarrow> u32 \<Rightarrow> int" where
  "plan_group_order_by_count plans handle =
     ask_plan plans handle (\<lambda>p. if pl_group_order_by_count p then 1 else 0)"

definition plan_agg_count :: "plans \<Rightarrow> u32 \<Rightarrow> int" where
  "plan_agg_count plans handle = ask_plan plans handle (\<lambda>p. as_i32 (length (pl_aggregates p)))"

definition plan_group_count :: "plans \<Rightarrow> u32 \<Rightarrow> int" where
  "plan_group_count plans handle = ask_plan plans handle (\<lambda>p. as_i32 (plan_group_total p))"

definition plan_group_dict_hist_dict_len :: "plans \<Rightarrow> u32 \<Rightarrow> int" where
  "plan_group_dict_hist_dict_len plans handle = ask_plan plans handle (\<lambda>p. sint (pl_hist_dict_len p))"

definition plan_group_dict_hist_active :: "plans \<Rightarrow> u32 \<Rightarrow> int" where
  "plan_group_dict_hist_active plans handle =
     ask_plan plans handle (\<lambda>p. if plan_uses_group_dict_histogram p then 1 else 0)"

definition plan_group_key_count :: "plans \<Rightarrow> u32 \<Rightarrow> int" where
  "plan_group_key_count plans handle =
     ask_plan plans handle (\<lambda>p. case pl_group_by p of None \<Rightarrow> 0 | Some g \<Rightarrow> as_i32 (length (gb_keys g)))"

definition plan_group_agg_count :: "plans \<Rightarrow> u32 \<Rightarrow> int" where
  "plan_group_agg_count plans handle = ask_plan plans handle (\<lambda>p. as_i32 (length (pl_group_aggs p)))"

text \<open>A call that fills a buffer gives its code and the bytes it wrote.\<close>

definition give :: "copied \<Rightarrow> int \<times> bytes" where
  "give c = (case c of Inl needed \<Rightarrow> (- int needed, []) | Inr (needed, bs) \<Rightarrow> (int needed, bs))"

definition plan_copy_rows :: "plans \<Rightarrow> u32 \<Rightarrow> nat \<Rightarrow> int \<times> bytes" where
  "plan_copy_rows plans handle out_len =
     (case plans handle of
        None \<Rightarrow> (- 1, [])
      | Some p \<Rightarrow> give (copy_out out_len (length (pl_rows p) * 8) (concat (map le64 (pl_rows p)))))"

definition plan_finalize_rows :: "plans \<Rightarrow> u32 \<Rightarrow> int \<times> plans" where
  "plan_finalize_rows plans handle =
     update_plan plans handle (\<lambda>p.
       if row_take_count p = 0 \<or> pl_row_order_by p = [] \<or> pl_row_heap p = [] then p
       else finalize_rows_from_heap p)"

definition plan_copy_row_candidates :: "plans \<Rightarrow> u32 \<Rightarrow> nat \<Rightarrow> int \<times> bytes" where
  "plan_copy_row_candidates plans handle out_len =
     (case plans handle of
        None \<Rightarrow> (- 1, [])
      | Some p \<Rightarrow> (case copy_row_candidates p out_len of
                     Inl needed \<Rightarrow> (- int needed, []) | Inr bs \<Rightarrow> (int (length bs), bs)))"

definition plan_copy_row_order_by :: "plans \<Rightarrow> u32 \<Rightarrow> nat \<Rightarrow> int \<times> u32 list" where
  "plan_copy_row_order_by plans handle out_len =
     (case plans handle of
        None \<Rightarrow> (- 1, [])
      | Some p \<Rightarrow> let ids = pl_row_order_by p in
          if out_len < length ids then (- int (length ids), []) else (int (length ids), ids))"

text \<open>An aggregate of the result; a sum, minimum or maximum is shifted by the offset of its key.\<close>

definition shifted_stats :: "u8 \<Rightarrow> u8 \<Rightarrow> agg_state \<Rightarrow> f64 \<times> f64 \<times> f64" where
  "shifted_stats kind offset state =
     (if kind = AGG_KIND_COUNT_STAR \<or> kind = AGG_KIND_COUNT then
        (let c = f_of_int (uint (a_count state)) in (c, c, c))
      else
        let off = f_of_int (sint offset) in
        (f_add (a_sum state) (f_mul off (f_of_int (uint (a_count state)))),
         if 0 < a_count state then f_add (a_min state) off else f_zero,
         if 0 < a_count state then f_add (a_max state) off else f_zero))"

definition agg_result_record ::
  "(f64 \<Rightarrow> f64) \<Rightarrow> (f64 \<Rightarrow> f64) \<Rightarrow> plan \<Rightarrow> u32 \<Rightarrow> bytes result" where
  "agg_result_record ln sqrt p key =
     (let kind = agg_key_kind key; offset = agg_key_offset key;
          head = le32 (agg_column key) @ [kind, offset, 0, 0] in
      if kind = AGG_KIND_APPROX_DISTINCT then
        (let (estimate, err) = (case pl_hll_state p key of
               Some h \<Rightarrow> (hll_estimate ln h, hll_error_estimate sqrt h)
             | None \<Rightarrow> (case pl_agg_state p key of
                          Some s \<Rightarrow> (a_sum s, a_min s) | None \<Rightarrow> (f_zero, f_zero)))
         in Ok (head @ le64 estimate @ le64 err @ le64 f_zero @ le32 1))
      else bindR (of_option Panic (pl_agg_state p key)) (\<lambda>state.
        let (s, mn, mx) = shifted_stats kind offset state
        in Ok (head @ le64 s @ le64 mn @ le64 mx @ le32 (a_count state))))"

definition AGG_RESULT_BYTES :: nat where "AGG_RESULT_BYTES = 36"

definition plan_copy_aggs ::
  "(f64 \<Rightarrow> f64) \<Rightarrow> (f64 \<Rightarrow> f64) \<Rightarrow> plans \<Rightarrow> u32 \<Rightarrow> nat \<Rightarrow> (int \<times> bytes) result" where
  "plan_copy_aggs ln sqrt plans handle out_len =
     (case plans handle of
        None \<Rightarrow> Ok (- 1, [])
      | Some p \<Rightarrow>
          let needed = length (pl_aggregates p) * AGG_RESULT_BYTES in
          if out_len < needed then Ok (- int needed, [])
          else bindR (mapR (agg_result_record ln sqrt p) (pl_aggregates p)) (\<lambda>rs.
            Ok (int needed, concat rs)))"

definition plan_copy_group_hist_partial :: "plans \<Rightarrow> u32 \<Rightarrow> nat \<Rightarrow> (int \<times> bytes) result" where
  "plan_copy_group_hist_partial plans handle out_len =
     (case plans handle of
        None \<Rightarrow> Ok (- 1, [])
      | Some p \<Rightarrow> bindR (copy_group_hist_partial p out_len) (\<lambda>c. Ok (give c)))"

definition plan_group_key_info :: "runtimes \<Rightarrow> plans \<Rightarrow> u32 \<Rightarrow> nat \<Rightarrow> int \<times> bytes" where
  "plan_group_key_info rts plans handle out_len =
     (case plans handle of
        None \<Rightarrow> (- 1, [])
      | Some p \<Rightarrow>
          (case rts (pl_runtime p) of
             None \<Rightarrow> (- 1, [])
           | Some rt \<Rightarrow>
               (case pl_group_by p of
                  None \<Rightarrow> (0, [])
                | Some g \<Rightarrow>
                    let needed = length (gb_keys g) * 8 in
                    if out_len < needed then (- int needed, [])
                    else if \<exists>k \<in> set (gb_keys g). get (r_schema rt) (unat k) = None then (- 1, [])
                    else (int needed, concat (map (\<lambda>k.
                      let col = r_schema rt ! unat k
                      in le32 k @ [c_physical col, c_flags col, 0, 0]) (gb_keys g))))))"

definition plan_copy_group_aggs :: "plans \<Rightarrow> u32 \<Rightarrow> nat \<Rightarrow> int \<times> bytes" where
  "plan_copy_group_aggs plans handle out_len =
     (case plans handle of
        None \<Rightarrow> (- 1, [])
      | Some p \<Rightarrow> give (copy_out out_len (length (pl_group_aggs p) * 8)
          (concat (map (\<lambda>agg. le32 (ga_col_id agg) @ [ga_kind agg, 0, 0, 0]) (pl_group_aggs p)))))"

definition plan_copy_groups :: "plans \<Rightarrow> u32 \<Rightarrow> nat \<Rightarrow> int \<times> bytes" where
  "plan_copy_groups plans handle out_len =
     (case plans handle of None \<Rightarrow> (- 1, []) | Some p \<Rightarrow> give (copy_groups p out_len))"

definition plan_copy_groups_with_keys :: "plans \<Rightarrow> u32 \<Rightarrow> nat \<Rightarrow> int \<times> bytes" where
  "plan_copy_groups_with_keys plans handle out_len =
     (case plans handle of None \<Rightarrow> (- 1, []) | Some p \<Rightarrow> give (copy_groups_with_keys p out_len))"

section \<open>What is reset\<close>

text \<open>The results of a plan are gone after \<^verbatim>\<open>plan_reset_results\<close>; \<^verbatim>\<open>plan_clear\<close> keeps its rows.\<close>

lemma clear_keeps_rows: "pl_rows (clear_plan p) = pl_rows p"
  by (simp add: clear_plan_def)

lemma reset_results_empty:
  "pl_rows (reset_results p) = []" "pl_row_heap (reset_results p) = []"
  "pl_group_state (reset_results p) = Map.empty" "pl_group_keys (reset_results p) = []"
  "pl_agg_state (reset_results p) k = map_option (\<lambda>_. agg_empty) (pl_agg_state p k)"
  by (simp_all add: reset_results_def)

section \<open>Reducers\<close>

text \<open>
  Merging the results of workers into one plan
  (\<^verbatim>\<open>wcol-decoder/src/ffi/plan/reducer.rs\<close>, \<^verbatim>\<open>init_reducer_agg_state\<close> of
  \<^verbatim>\<open>plan/mod.rs\<close>): a reducer is a copy of a plan with empty results; the workers' results
  arrive as the bytes of the calls above.
\<close>

definition initial_agg :: "u8 \<Rightarrow> agg_state" where
  "initial_agg kind =
     (if kind = AGG_KIND_APPROX_DISTINCT
      then \<lparr> a_sum = f_zero, a_min = f_zero, a_max = f_zero, a_count = 0 \<rparr> else agg_empty)"

definition init_reducer_agg_state :: "plan \<Rightarrow> plan" where
  "init_reducer_agg_state p =
     p\<lparr> pl_agg_state := foldl (\<lambda>m key. m(key \<mapsto> initial_agg (agg_key_kind key)))
          (pl_agg_state p) (pl_aggregates p) \<rparr>"

definition reducer_plan :: "plan \<Rightarrow> plan" where
  "reducer_plan base =
     init_reducer_agg_state (base\<lparr> pl_rows := [], pl_agg_state := Map.empty,
       pl_group_state := Map.empty, pl_group_keys := [], pl_group_key_repr := Map.empty,
       pl_row_heap := [], pl_hll_state := Map.empty, pl_group_emit_raw := False,
       pl_group_rows_raw := [],
       pl_hist_counts := map_option (\<lambda>c. replicate (length c) 0) (pl_hist_counts base),
       pl_hist_sums := map_option (\<lambda>s. replicate (length s) f_zero) (pl_hist_sums base) \<rparr>)"

definition plan_reducer_new :: "u32 \<Rightarrow> plans \<Rightarrow> u32 \<Rightarrow> u32 \<times> u32 \<times> plans" where
  "plan_reducer_new counter plans base_handle =
     (case plans base_handle of
        None \<Rightarrow> (0, counter, plans)
      | Some base \<Rightarrow>
          let (handle, counter) = next_handle counter
          in (handle, counter, plans(handle \<mapsto> reducer_plan base)))"

section \<open>Aggregates\<close>

definition sat_count :: "agg_state \<Rightarrow> u32 \<Rightarrow> agg_state" where
  "sat_count st n = st\<lparr> a_count := sat_add32 (a_count st) n \<rparr>"

text \<open>Merge the statistics of a partial result, which are of \<open>n\<close> values.\<close>

definition merge_stats :: "agg_state \<Rightarrow> f64 \<Rightarrow> f64 \<Rightarrow> f64 \<Rightarrow> u32 \<Rightarrow> agg_state" where
  "merge_stats st s mn mx n =
     (let st = st\<lparr> a_sum := f_add (a_sum st) s \<rparr> in
      if 0 < n then
        sat_count (if a_count st = 0 then st\<lparr> a_min := mn, a_max := mx \<rparr>
          else st\<lparr> a_min := f_min (a_min st) mn, a_max := f_max (a_max st) mx \<rparr>) n
      else st)"

definition merge_agg_record :: "(u32 \<rightharpoonup> agg_state) \<Rightarrow> bytes \<Rightarrow> (u32 \<rightharpoonup> agg_state)" where
  "merge_agg_record m bs =
     (let col_id = from_le32 (slice bs 0 4); kind = bs ! 4; off = bs ! 5;
          s = from_le64 (slice bs 8 16); mn = from_le64 (slice bs 16 24);
          mx = from_le64 (slice bs 24 32); n = from_le32 (slice bs 32 36);
          key = agg_key_make col_id kind off;
          st = (case m key of Some st \<Rightarrow> st | None \<Rightarrow> initial_agg kind)
      in if kind = AGG_KIND_COUNT \<or> kind = AGG_KIND_COUNT_STAR then m(key \<mapsto> sat_count st n)
         else if kind \<noteq> AGG_KIND_APPROX_DISTINCT \<and> 0 < n then
           (let o1 = f_of_int (sint off)
            in m(key \<mapsto> merge_stats st (f_sub s (f_mul o1 (f_of_int (uint n))))
                   (f_sub mn o1) (f_sub mx o1) n))
         else m(key \<mapsto> merge_stats st s mn mx n))"

definition plan_reducer_merge_aggs :: "plans \<Rightarrow> u32 \<Rightarrow> bytes \<Rightarrow> int \<times> plans" where
  "plan_reducer_merge_aggs plans handle bs =
     (if bs = [] then (0, plans)
      else if length bs mod AGG_RESULT_BYTES \<noteq> 0 then (- 2, plans)
      else update_plan plans handle (\<lambda>p.
        p\<lparr> pl_agg_state := foldl merge_agg_record (pl_agg_state p) (chunks_exact AGG_RESULT_BYTES bs) \<rparr>))"

section \<open>Groups\<close>

definition merge_hist_partial :: "plan \<Rightarrow> u32 \<times> u32 list \<times> f64 list option \<Rightarrow> plan" where
  "merge_hist_partial p part =
     (let (dict_len, counts, sums) = part;
          p = (if pl_hist_dict_len p = 0 then
                 p\<lparr> pl_hist_dict_len := dict_len,
                    pl_hist_counts := Some (replicate (unat dict_len + 1) 0),
                    pl_hist_sums := (if sums \<noteq> None then Some (replicate (unat dict_len + 1) f_zero)
                                     else pl_hist_sums p) \<rparr>
               else p)
      in p\<lparr> pl_hist_counts := map_option (\<lambda>t. merge_group_hist_counts t counts) (pl_hist_counts p),
            pl_hist_sums := (case (pl_hist_sums p, sums) of
               (Some t, Some s) \<Rightarrow> Some (merge_group_hist_sums t s) | _ \<Rightarrow> pl_hist_sums p) \<rparr>)"

definition merge_group_agg :: "u8 \<Rightarrow> group_agg_state \<Rightarrow> bytes \<Rightarrow> group_agg_state" where
  "merge_group_agg kind state bs =
     (let st = (case state of GA_Numeric s \<Rightarrow> s | GA_Distinct _ \<Rightarrow> agg_empty);
          n = from_le32 (slice bs 24 28)
      in GA_Numeric
           (if kind = AGG_KIND_COUNT \<or> kind = AGG_KIND_COUNT_STAR then sat_count st n
            else merge_stats st (from_le64 (slice bs 0 8)) (from_le64 (slice bs 8 16))
                   (from_le64 (slice bs 16 24)) n))"

definition new_numeric_group :: "plan \<Rightarrow> group_state" where
  "new_numeric_group p = \<lparr> gs_aggs = map (\<lambda>_. GA_Numeric agg_empty) (pl_group_aggs p) \<rparr>"

text \<open>One aggregate of a group per position; a position the group does not have is skipped.\<close>

definition merge_group_aggs :: "group_agg list \<Rightarrow> group_state \<Rightarrow> bytes list \<Rightarrow> group_state" where
  "merge_group_aggs aggs g records =
     g\<lparr> gs_aggs := foldl (\<lambda>st (idx, agg, bs).
          if idx < length st then st[idx := merge_group_agg (ga_kind agg) (st ! idx) bs] else st)
        (gs_aggs g) (enumerate 0 (zip aggs records)) \<rparr>"

definition merge_group_record :: "plan \<Rightarrow> bytes \<Rightarrow> plan" where
  "merge_group_record p bs =
     (let key = \<lparr> gk_a = from_le64 (slice bs 0 8), gk_b = from_le64 (slice bs 8 16) \<rparr>;
          p = (if pl_group_state p key = None
               then p\<lparr> pl_group_keys := pl_group_keys p @ [key],
                       pl_group_state := (pl_group_state p)(key \<mapsto> new_numeric_group p) \<rparr>
               else p);
          records = chunks_exact AGG_RECORD_BYTES (drop 16 bs)
      in p\<lparr> pl_group_state := (pl_group_state p)(key \<mapsto>
             merge_group_aggs (pl_group_aggs p) (the (pl_group_state p key)) records) \<rparr>)"

definition plan_reducer_merge_groups :: "plans \<Rightarrow> u32 \<Rightarrow> bytes \<Rightarrow> int \<times> plans" where
  "plan_reducer_merge_groups plans handle bs =
     (if bs = [] then (0, plans)
      else case plans handle of
          None \<Rightarrow> (- 1, plans)
        | Some p \<Rightarrow>
            if is_group_hist_partial bs then
              (case decode_group_hist_partial bs of
                 None \<Rightarrow> (- 2, plans)
               | Some part \<Rightarrow> (0, plans(handle \<mapsto> merge_hist_partial p part)))
            else
              let record_size = 16 + length (pl_group_aggs p) * AGG_RECORD_BYTES in
              if length bs mod record_size \<noteq> 0 then (- 2, plans)
              else (0, plans(handle \<mapsto> foldl merge_group_record p (chunks_exact record_size bs))))"

section \<open>Rows\<close>

definition plan_reducer_merge_rows :: "plans \<Rightarrow> u32 \<Rightarrow> bytes \<Rightarrow> int \<times> plans" where
  "plan_reducer_merge_rows plans handle bs =
     (if bs = [] then (0, plans)
      else if length bs mod 8 \<noteq> 0 then (- 2, plans)
      else update_plan plans handle (\<lambda>p.
        p\<lparr> pl_rows := pl_rows p @ map from_le64 (chunks_exact 8 bs) \<rparr>))"

definition plan_reducer_merge_row_candidates :: "plans \<Rightarrow> u32 \<Rightarrow> bytes \<Rightarrow> int \<times> plans" where
  "plan_reducer_merge_row_candidates plans handle bs =
     (if bs = [] then (0, plans)
      else case plans handle of
          None \<Rightarrow> (- 1, plans)
        | Some p \<Rightarrow>
            let (p', r) = merge_row_candidates_from_bytes p bs
            in (case r of Inl (Code c) \<Rightarrow> c | Inl _ \<Rightarrow> - 2 | Inr _ \<Rightarrow> 0, plans(handle \<mapsto> p')))"

definition plan_reducer_finalize :: "plans \<Rightarrow> u32 \<Rightarrow> int \<times> plans" where
  "plan_reducer_finalize plans handle =
     update_plan plans handle (\<lambda>p.
       if pl_row_order_by p \<noteq> [] then
         (if row_take_count p = 0 \<or> pl_row_heap p = [] then p else finalize_rows_from_heap p)
       else finalize_rows_basic p)"

end
