(* ===== verification/Agg_Facts.thy ===== *)
theory Agg_Facts
  imports Hll_State Agg_State Filter_Facts
begin

text \<open>
  Facts about the aggregate states: one pass over the selected rows of a chunk, and the
  merging of the states of the chunks, in which the count, the minimum and the maximum are
  those of one pass over all the chunks.
\<close>

section \<open>The values that a chunk contributes\<close>

definition column_rows :: "column_data \<Rightarrow> nat" where
  "column_rows data = (case data of CD_Bool bm \<Rightarrow> 8 * length bm | _ \<Rightarrow> length (column_f64 data))"

definition agg_scaled :: "column \<Rightarrow> f64 \<Rightarrow> f64" where
  "agg_scaled col v =
     (if c_scale col = 0 then v else f_mul v (scale_int_value f_one (c_scale col)))"

definition agg_inputs :: "column \<Rightarrow> column_data \<Rightarrow> mask \<Rightarrow> nat \<Rightarrow> f64 list" where
  "agg_inputs col data msk rows =
     (let rs = filter (mask_bit msk) [0..<rows] in
      case data of
        CD_Bool bm \<Rightarrow> map (\<lambda>r. if bitmap_bit bm r then f_one else f_zero) rs
      | CD_F64 vs \<Rightarrow> filter (\<lambda>v. \<not> is_nan v) (map (\<lambda>r. vs ! r) rs)
      | _ \<Rightarrow> map (\<lambda>r. agg_scaled col (column_f64 data ! r)) rs)"

lemma foldR_Ok: "foldR (\<lambda>s x. Ok (g s x)) s xs = Ok (foldl g s xs)"
  by (induction xs arbitrary: s) auto

lemma foldl_skip: "foldl (\<lambda>s x. if P x then s else g s x) s xs = foldl g s (filter (\<lambda>x. \<not> P x) xs)"
  by (induction xs arbitrary: s) auto

lemma agg_int_column_eq:
  assumes "is_mask msk" "rows \<le> ROWS_PER_CHUNK" "rows \<le> length vs"
  shows "agg_int_column vs msk rows k cast st =
     Ok (foldl update_agg st (map (\<lambda>r. case k of None \<Rightarrow> cast (vs ! r)
        | Some f \<Rightarrow> f_mul (cast (vs ! r)) f) (filter (mask_bit msk) [0..<rows])))"
  by (simp add: agg_int_column_def for_each_value_eq [OF assms] foldR_Ok foldl_map comp_def)

lemma rows_nth: "f = (\<lambda>r. xs ! r) \<Longrightarrow> rows \<le> length xs \<Longrightarrow>
    map (\<lambda>r. h (map g xs ! r)) (filter P [0..<rows]) = map (\<lambda>r. h (g (xs ! r))) (filter P [0..<rows])"
  by auto

lemma aggregate_column_ok:
  assumes m: "is_mask msk" and rows: "rows \<le> ROWS_PER_CHUNK" "rows \<le> column_rows data"
  shows "aggregate_column col data msk rows = Ok (foldl update_agg agg_empty (agg_inputs col data msk rows))"
proof -
  note len = rows(2) [unfolded column_rows_def column_f64_def]
  note int = agg_int_column_eq [OF m rows(1)]
  show ?thesis
  proof (cases data)
    case (CD_F64 vs)
    then show ?thesis using len
      by (simp add: aggregate_column_def agg_inputs_def for_each_value_eq [OF m rows(1)] foldR_Ok
          foldl_skip)
  next
    case (CD_Bool bm)
    have "foldR (\<lambda>st row. bindR (is_valid bm row) (\<lambda>v. Ok (update_agg st (if v then f_one else f_zero)))) s rs
        = Ok (foldl update_agg s (map (\<lambda>r. if bitmap_bit bm r then f_one else f_zero) rs))"
      if "\<forall>r \<in> set rs. r < rows" for rs s
      using that
    proof (induction rs arbitrary: s)
      case (Cons r rs)
      then have "r div 8 < length bm" using len CD_Bool by auto
      with Cons show ?case by (simp add: is_valid_eq)
    qed simp
    then show ?thesis using CD_Bool
      by (simp add: aggregate_column_def agg_inputs_def for_each_row_eq [OF m rows(1)])
  qed (use len in \<open>auto simp: aggregate_column_def agg_inputs_def agg_scaled_def int column_f64_def
      intro!: arg_cong [of _ _ "foldl update_agg agg_empty"] map_cong\<close>)
qed

section \<open>One pass\<close>

definition agg_pass :: "f64 list \<Rightarrow> agg_state" where
  "agg_pass vs = foldl update_agg agg_empty vs"

text \<open>What the state says about the values: how many, and none below the minimum, which is one
  of them.\<close>

definition agg_describes :: "agg_state \<Rightarrow> f64 list \<Rightarrow> bool" where
  "agg_describes st vs \<longleftrightarrow>
     a_count st = of_nat (length vs) \<and>
     a_min st \<in> insert f_inf (set vs) \<and> (\<forall>v \<in> set vs. \<not> f_lt v (a_min st)) \<and>
     a_max st \<in> insert f_neg_inf (set vs) \<and> (\<forall>v \<in> set vs. \<not> f_lt (a_max st) v)"

lemma agg_describes_snoc:
  assumes "agg_describes st vs" shows "agg_describes (update_agg st v) (vs @ [v])"
proof -
  have "\<not> f_lt w v" if "f_lt v (a_min st)" "\<not> f_lt w (a_min st)" for w
    using that by (auto simp: f_lt_def)
  moreover have "\<not> f_lt v w" if "f_lt (a_max st) v" "\<not> f_lt (a_max st) w" for w
    using that by (auto simp: f_lt_def)
  ultimately show ?thesis using assms
    by (auto simp: agg_describes_def update_agg_def) (auto simp: f_lt_def)
qed

lemma agg_pass_describes: "agg_describes (agg_pass vs) vs"
proof (induction vs rule: rev_induct)
  case Nil
  then show ?case by (simp add: agg_pass_def agg_empty_def agg_describes_def)
next
  case (snoc v vs)
  then show ?case using agg_describes_snoc [of "agg_pass vs" vs v] by (simp add: agg_pass_def)
qed

lemma agg_pass_sum: "a_sum (agg_pass vs) = foldl f_add f_zero vs"
  by (induction vs rule: rev_induct) (simp_all add: agg_pass_def agg_empty_def update_agg_def)

lemma agg_pass_count: "a_count (agg_pass vs) = of_nat (length vs)"
  using agg_pass_describes [of vs] by (simp add: agg_describes_def)

lemma agg_pass_0: "length vs < 2 ^ 32 \<Longrightarrow> a_count (agg_pass vs) = 0 \<longleftrightarrow> vs = []"
  by (simp add: agg_pass_count word_of_nat_eq_0_iff nat_dvd_not_less) (auto dest: nat_dvd_not_less)

section \<open>Merging\<close>

definition agg_view :: "agg_state \<Rightarrow> f64 \<times> f64 \<times> u32" where
  "agg_view st = (a_min st, a_max st, a_count st)"

definition keeps_range :: "agg_state \<Rightarrow> bool" where
  "keeps_range st \<longleftrightarrow> \<not> is_nan (a_min st) \<and> \<not> is_nan (a_max st) \<and>
     fkey (a_min st) \<le> int inf_mag \<and> - int inf_mag \<le> fkey (a_max st)"

lemma fkey_range: "\<not> is_nan v \<Longrightarrow> - int inf_mag \<le> fkey v \<and> fkey v \<le> int inf_mag"
  by (simp add: is_nan_def fkey_def)

lemma inf_fkeys: "fkey f_inf = int inf_mag" "fkey f_neg_inf = - int inf_mag"
    "\<not> is_nan f_inf" "\<not> is_nan f_neg_inf"
  by (simp_all add: fkey_def f_inf_def f_neg_inf_def is_nan_def)

lemma keeps_range_empty: "keeps_range agg_empty"
  by (simp add: keeps_range_def agg_empty_def inf_fkeys)

lemma keeps_range_update: "keeps_range st \<Longrightarrow> keeps_range (update_agg st v)"
  by (auto simp: keeps_range_def update_agg_def f_lt_def)

lemma keeps_range_foldl: "keeps_range st \<Longrightarrow> keeps_range (foldl update_agg st vs)"
  by (induction vs arbitrary: st) (auto intro: keeps_range_update)

text \<open>Merging with a pass is updating with its values, where minimum and maximum are concerned.\<close>

definition merged_view :: "agg_state \<Rightarrow> agg_state \<Rightarrow> f64 \<times> f64 \<times> u32" where
  "merged_view s t =
     (if f_lt (a_min t) (a_min s) then a_min t else a_min s,
      if f_lt (a_max s) (a_max t) then a_max t else a_max s,
      a_count s + a_count t)"

lemma smaller_assoc:
  "\<not> is_nan a \<Longrightarrow> \<not> is_nan b \<Longrightarrow>
   (if f_lt (if f_lt v b then v else b) a then (if f_lt v b then v else b) else a) =
   (if f_lt v (if f_lt b a then b else a) then v else if f_lt b a then b else a)"
  by (cases "is_nan v") (simp_all add: f_lt_def)

lemma larger_assoc:
  "\<not> is_nan a \<Longrightarrow> \<not> is_nan b \<Longrightarrow>
   (if f_lt a (if f_lt b v then v else b) then (if f_lt b v then v else b) else a) =
   (if f_lt (if f_lt a b then b else a) v then v else if f_lt a b then b else a)"
  by (cases "is_nan v") (simp_all add: f_lt_def)

lemma merged_view_pass: "keeps_range s \<Longrightarrow> merged_view s (agg_pass vs) = agg_view (foldl update_agg s vs)"
proof (induction vs rule: rev_induct)
  case Nil
  then show ?case
    by (auto simp: merged_view_def agg_view_def agg_pass_def agg_empty_def f_lt_def keeps_range_def inf_fkeys)
next
  case (snoc v vs)
  let ?s = "foldl update_agg s vs" and ?t = "agg_pass vs"
  have keep: "keeps_range ?s" "keeps_range ?t"
    using snoc.prems by (auto simp: agg_pass_def intro: keeps_range_foldl keeps_range_empty)
  have eq: "a_min ?s = (if f_lt (a_min ?t) (a_min s) then a_min ?t else a_min s)"
    "a_max ?s = (if f_lt (a_max s) (a_max ?t) then a_max ?t else a_max s)"
    "a_count ?s = a_count s + a_count ?t"
    using snoc.IH [OF snoc.prems] by (simp_all add: merged_view_def agg_view_def)
  have step: "agg_pass (vs @ [v]) = update_agg ?t v" by (simp add: agg_pass_def)
  have nan: "\<not> is_nan (a_min s)" "\<not> is_nan (a_min ?t)" "\<not> is_nan (a_max s)" "\<not> is_nan (a_max ?t)"
    using keep snoc.prems by (simp_all add: keeps_range_def)
  have "a_min (update_agg ?s v) = fst (merged_view s (update_agg ?t v))"
    unfolding merged_view_def update_agg_def eq fst_conv agg_state.simps
    by (rule smaller_assoc [symmetric]) (fact nan)+
  moreover have "a_max (update_agg ?s v) = fst (snd (merged_view s (update_agg ?t v)))"
    unfolding merged_view_def update_agg_def eq fst_conv snd_conv agg_state.simps
    by (rule larger_assoc [symmetric]) (fact nan)+
  moreover have "a_count (update_agg ?s v) = snd (snd (merged_view s (update_agg ?t v)))"
    by (simp add: merged_view_def update_agg_def eq)
  ultimately show ?case by (simp add: agg_view_def step prod_eq_iff)
qed

lemma merge_agg_view:
  assumes "keeps_range s" "length vs < 2 ^ 32"
  shows "agg_view (merge_agg s (agg_pass vs)) = agg_view (foldl update_agg s vs)"
proof (cases "vs = []")
  case False
  then have "a_count (agg_pass vs) \<noteq> 0" using assms(2) agg_pass_0 by blast
  then have "agg_view (merge_agg s (agg_pass vs)) = merged_view s (agg_pass vs)"
    by (simp add: merge_agg_def agg_view_def merged_view_def)
  then show ?thesis using merged_view_pass [OF assms(1)] by simp
qed (simp add: merge_agg_def agg_pass_def agg_empty_def)

interpretation extremes: mergeable agg_empty update_agg merge_agg agg_view keeps_range
    "\<lambda>vs. length vs < 2 ^ 32"
proof unfold_locales
  fix s s' t :: agg_state assume "agg_view s = agg_view s'"
  then show "agg_view (merge_agg s t) = agg_view (merge_agg s' t)"
    by (simp add: agg_view_def merge_agg_def)
qed (auto intro: keeps_range_update keeps_range_empty merge_agg_view simp flip: agg_pass_def)

lemma merged_sum:
  "list_all (\<lambda>vs. length vs < 2 ^ 32) parts \<Longrightarrow>
   a_sum (foldl merge_agg st (map agg_pass parts)) =
     foldl f_add (a_sum st) (map (foldl f_add f_zero) (filter (\<lambda>vs. vs \<noteq> []) parts))"
proof (induction parts arbitrary: st)
  case (Cons vs parts)
  then show ?case by (simp add: merge_agg_def agg_pass_0 agg_pass_sum)
qed simp

lemma agg_describes_view: "agg_view s = agg_view t \<Longrightarrow> agg_describes s vs = agg_describes t vs"
  by (simp add: agg_view_def agg_describes_def)

lemma merged_describes:
  assumes "list_all (\<lambda>vs. length vs < 2 ^ 32) parts"
  shows "agg_describes (foldl merge_agg agg_empty (map agg_pass parts)) (concat parts)"
proof -
  have "agg_view (foldl merge_agg agg_empty (map agg_pass parts)) = agg_view (agg_pass (concat parts))"
    using extremes.merge_parts [OF assms] by (simp add: agg_pass_def [abs_def])
  then show ?thesis using agg_pass_describes agg_describes_view by blast
qed

text \<open>Merging by kind keeps the fields that the kind reads.\<close>

lemma merge_agg_by_kind_fields:
  "a_count (merge_agg_by_kind s t k) = a_count (merge_agg s t)"
  "k \<notin> {AGG_KIND_COUNT_STAR, AGG_KIND_MAX} \<Longrightarrow> a_min (merge_agg_by_kind s t k) = a_min (merge_agg s t)"
  "k \<notin> {AGG_KIND_COUNT_STAR, AGG_KIND_MIN} \<Longrightarrow> a_max (merge_agg_by_kind s t k) = a_max (merge_agg s t)"
  "k \<notin> {AGG_KIND_COUNT_STAR, AGG_KIND_MIN, AGG_KIND_MAX} \<Longrightarrow>
     a_sum (merge_agg_by_kind s t k) = a_sum (merge_agg s t)"
  by (simp_all add: merge_agg_by_kind_def merge_agg_def Let_def AGG_KIND_COUNT_STAR_def
      AGG_KIND_MIN_def AGG_KIND_MAX_def)

section \<open>Sketches\<close>

text \<open>
  Facts about the sketch: a register holds the largest value that the hashes of its bucket
  offer, so that a sketch depends only on the set of hashes, and merging sketches is
  sketching the union.
\<close>

definition hll_ok :: "u8 \<Rightarrow> hll_state \<Rightarrow> bool" where
  "hll_ok p st \<longleftrightarrow> hl_p st = p \<and> length (hl_registers st) = 2 ^ shift_amount p"

definition hll_add :: "hll_state \<Rightarrow> u64 \<Rightarrow> hll_state" where
  "hll_add st hash =
     st\<lparr> hl_registers := (hl_registers st)[hll_bucket (hl_p st) hash :=
       max (hl_registers st ! hll_bucket (hl_p st) hash) (hll_rho (hl_p st) hash)] \<rparr>"

lemma hll_bucket_less: "hll_bucket p h < 2 ^ shift_amount p"
  by (simp add: hll_bucket_def)

lemma hll_insert_add: "hll_ok p st \<Longrightarrow> hll_insert st h = Ok (hll_add st h)"
  by (auto simp: hll_ok_def hll_insert_def hll_add_def index_def hll_bucket_less Let_def max_def
      order_less_imp_le)

lemma hll_ok_new: "hll_ok p (hll_new p)"
  by (simp add: hll_ok_def hll_new_def)

lemma hll_ok_add: "hll_ok p st \<Longrightarrow> hll_ok p (hll_add st h)"
  by (simp add: hll_ok_def hll_add_def)

lemma hll_merge_nth:
  "hll_ok p s \<Longrightarrow> hll_ok p t \<Longrightarrow> i < 2 ^ shift_amount p \<Longrightarrow>
     hl_registers (hll_merge s t) ! i = max (hl_registers s ! i) (hl_registers t ! i)"
  by (auto simp: hll_ok_def hll_merge_def max_def order_less_imp_le)

lemma hll_ok_merge: "hll_ok p s \<Longrightarrow> hll_ok p t \<Longrightarrow> hll_ok p (hll_merge s t)"
  by (simp add: hll_ok_def hll_merge_def)

lemma hll_eqI:
  "hll_ok p s \<Longrightarrow> hll_ok p t \<Longrightarrow>
     (\<And>i. i < 2 ^ shift_amount p \<Longrightarrow> hl_registers s ! i = hl_registers t ! i) \<Longrightarrow> s = t"
  for s t :: hll_state
  by (simp add: hll_ok_def list_eq_iff_nth_eq)

lemma hll_add_nth:
  "hll_ok p s \<Longrightarrow> i < 2 ^ shift_amount p \<Longrightarrow>
     hl_registers (hll_add s h) ! i =
       (if i = hll_bucket p h then max (hl_registers s ! i) (hll_rho p h) else hl_registers s ! i)"
  by (auto simp: hll_ok_def hll_add_def nth_list_update)

lemma hll_merge_new: "hll_ok p s \<Longrightarrow> hll_merge s (hll_new p) = s"
  by (rule hll_eqI [of p]) (auto simp: hll_ok_merge hll_ok_new hll_merge_nth, simp add: hll_new_def)

lemma hll_merge_add: "hll_ok p s \<Longrightarrow> hll_ok p t \<Longrightarrow> hll_merge s (hll_add t h) = hll_add (hll_merge s t) h"
  by (rule hll_eqI [of p]) (auto simp: hll_ok_merge hll_ok_add hll_merge_nth [of p] hll_add_nth [of p] ac_simps)

lemma hll_merge_pass:
  assumes "hll_ok p s" shows "hll_merge s (foldl hll_add (hll_new p) hs) = foldl hll_add s hs"
proof (induction hs rule: rev_induct)
  case (snoc h hs)
  have "hll_ok p (foldl hll_add t hs)" if "hll_ok p t" for t
    using that by (induction hs arbitrary: t) (auto intro: hll_ok_add)
  with snoc assms show ?case by (simp add: hll_merge_add hll_ok_new)
qed (simp add: hll_merge_new [OF assms])

interpretation sketch: set_mergeable "hll_new p" hll_add hll_merge "\<lambda>st. st" "hll_ok p" "\<lambda>_. True" for p
proof unfold_locales
  fix s and x y :: u64 assume s: "hll_ok p s"
  show "hll_add (hll_add s x) y = hll_add (hll_add s y) x"
    by (rule hll_eqI [of p]) (use s in \<open>auto simp: hll_ok_add hll_add_nth [of p] ac_simps\<close>)
  show "hll_add (hll_add s x) x = hll_add s x"
    by (rule hll_eqI [of p]) (use s in \<open>auto simp: hll_ok_add hll_add_nth [of p]\<close>)
qed (auto simp: hll_ok_new hll_ok_add hll_merge_pass)

text \<open>The sketch of a list of hashes.\<close>

definition hll_sketch :: "u8 \<Rightarrow> u64 list \<Rightarrow> hll_state" where
  "hll_sketch p hs = foldl hll_add (hll_new p) hs"

lemma hll_ok_sketch: "hll_ok p (hll_sketch p hs)"
  by (simp add: hll_sketch_def sketch.ok_foldl hll_ok_new)

lemma hll_inserts: "hll_ok p st \<Longrightarrow> foldR hll_insert st hs = Ok (foldl hll_add st hs)"
  by (induction hs arbitrary: st) (auto simp: hll_insert_add hll_ok_add)

lemma hll_merge_sketch: "hll_merge (hll_sketch p xs) (hll_sketch p ys) = hll_sketch p (xs @ ys)"
  using sketch.merge_pass [of p "hll_sketch p xs" ys] hll_ok_sketch by (simp add: hll_sketch_def)

lemma hll_sketch_set: "set xs = set ys \<Longrightarrow> hll_sketch p xs = hll_sketch p ys"
  unfolding hll_sketch_def by (rule sketch.same_set [OF hll_ok_new])

text \<open>A register is the maximum over the hashes of its bucket, or 0.\<close>

lemma hll_sketch_register:
  assumes "i < 2 ^ shift_amount p"
  shows "hl_registers (hll_sketch p hs) ! i =
    fold max (map (hll_rho p) (filter (\<lambda>h. hll_bucket p h = i) hs)) 0"
proof (induction hs rule: rev_induct)
  case Nil
  then show ?case using assms by (simp add: hll_sketch_def hll_new_def)
next
  case (snoc h hs)
  have "hll_sketch p (hs @ [h]) = hll_add (hll_sketch p hs) h" by (simp add: hll_sketch_def)
  then show ?case using snoc assms hll_ok_sketch by (auto simp add: hll_add_nth [of p] max.commute)
qed

section \<open>Columns\<close>

text \<open>The hashes of a value of a column, at a row.\<close>

definition hll_hash :: "(bytes \<Rightarrow> u64) \<Rightarrow> column_data \<Rightarrow> nat \<Rightarrow> u64 list" where
  "hll_hash xxh data r =
     (case data of
        CD_U8 vs \<Rightarrow> [xxh (le32 (ucast (vs ! r)))] | CD_U16 vs \<Rightarrow> [xxh (le32 (ucast (vs ! r)))]
      | CD_U32 vs \<Rightarrow> [xxh (le32 (vs ! r))]
      | CD_I8 vs \<Rightarrow> [xxh (le32 (scast (vs ! r)))] | CD_I16 vs \<Rightarrow> [xxh (le32 (scast (vs ! r)))]
      | CD_I32 vs \<Rightarrow> [xxh (le32 (vs ! r))] | CD_I64 vs \<Rightarrow> [xxh (le64 (vs ! r))]
      | CD_F64 vs \<Rightarrow> (if is_nan (vs ! r) then [] else [xxh (le64 (canonical_f64 (vs ! r)))])
      | CD_Bool bm \<Rightarrow> [xxh (le32 (if bitmap_bit bm r then 1 else 0))])"

lemma hll_foldR:
  assumes "hll_ok p st" "\<And>st x. x \<in> set xs \<Longrightarrow> hll_ok p st \<Longrightarrow> f st x = Ok (foldl hll_add st (g x))"
  shows "foldR f st xs = Ok (foldl hll_add st (concat (map g xs)))"
  using assms by (induction xs arbitrary: st) (auto simp: sketch.ok_foldl)

lemma hll_insert_kinds:
  assumes "hll_ok p st"
  shows "hll_insert_i64 xxh st v8 = Ok (foldl hll_add st [xxh (le64 v8)])"
    "hll_insert_i32 xxh st v4 = Ok (foldl hll_add st [xxh (le32 v4)])"
    "hll_insert_u32 xxh st v4 = Ok (foldl hll_add st [xxh (le32 v4)])"
    "hll_insert_f64 xxh st v8 =
       Ok (foldl hll_add st (if is_nan v8 then [] else [xxh (le64 (canonical_f64 v8))]))"
  using assms by (simp_all add: hll_insert_i64_def hll_insert_i32_def hll_insert_u32_def hll_insert_f64_def
      hll_insert_add)

lemma seen_rows:
  "\<forall>r \<in> set rs. r < 8 * length bm \<Longrightarrow>
   \<exists>seen'. foldR (seen_step bm) seen rs = Ok seen' \<and>
     (fst seen' \<longleftrightarrow> fst seen \<or> (\<exists>r \<in> set rs. bitmap_bit bm r)) \<and>
     (snd seen' \<longleftrightarrow> snd seen \<or> (\<exists>r \<in> set rs. \<not> bitmap_bit bm r))"
proof (induction rs arbitrary: seen)
  case (Cons r rs)
  then have r: "is_valid bm r = Ok (bitmap_bit bm r)"
    by (simp add: is_valid_eq div_less_iff_less_mult mult.commute)
  obtain seen1 where s1: "seen_step bm seen r = Ok seen1"
    "fst seen1 \<longleftrightarrow> fst seen \<or> bitmap_bit bm r" "snd seen1 \<longleftrightarrow> snd seen \<or> \<not> bitmap_bit bm r"
    by (cases "fst seen \<and> snd seen"; cases "bitmap_bit bm r") (auto simp: seen_step_def r)
  from Cons.IH [of seen1] Cons.prems s1 show ?case by auto
qed simp

lemma hll_aggregate_column_ok:
  assumes m: "is_mask msk" "rows \<le> ROWS_PER_CHUNK" and len: "rows \<le> column_rows data"
    and ok: "hll_ok p st"
  shows "hll_aggregate_column xxh data msk rows st =
    Ok (foldl hll_add st (concat (map (hll_hash xxh data) (filter (mask_bit msk) [0..<rows]))))"
proof -
  have gen: "for_each_value vs msk rows f st =
      Ok (foldl hll_add st (concat (map g (filter (mask_bit msk) [0..<rows]))))"
    if "rows \<le> length vs" "\<And>st r. r < rows \<Longrightarrow> hll_ok p st \<Longrightarrow> f st (vs ! r) = Ok (foldl hll_add st (g r))"
    for f :: "hll_state \<Rightarrow> 'b \<Rightarrow> hll_state result" and g vs
  proof -
    have "foldR f s (map ((!) vs) rs) = Ok (foldl hll_add s (concat (map g rs)))"
      if "hll_ok p s" "\<forall>r \<in> set rs. r < rows" for rs s
      using that \<open>\<And>st r. r < rows \<Longrightarrow> hll_ok p st \<Longrightarrow> f st (vs ! r) = Ok (foldl hll_add st (g r))\<close>
      by (induction rs arbitrary: s) (auto simp: sketch.ok_foldl)
    with ok show ?thesis by (simp add: for_each_value_eq [OF m that(1)])
  qed
  note kinds = hll_insert_kinds [of p]
  note len' = len [unfolded column_rows_def column_f64_def]
  show ?thesis
  proof (cases data)
    case (CD_Bool bm)
    let ?rs = "filter (mask_bit msk) [0..<rows]"
    have rs: "(if full then [0..<rows] else iter_mask msk rows) = ?rs" if "mask_is_full msk rows = Ok full" for full
    proof -
      have it: "iter_mask msk rows = ?rs" using m by (intro iter_mask_eq) (simp add: is_mask_def)
      have "full \<Longrightarrow> \<forall>r < rows. mask_bit msk r" using that mask_is_full_ok [OF m] m(2) by auto
      then have "full \<Longrightarrow> ?rs = [0..<rows]" by (simp add: filter_id_conv)
      with it show ?thesis by simp
    qed
    obtain t f where seen: "foldR (seen_step bm) (False, False) ?rs = Ok (t, f)"
      "t \<longleftrightarrow> (\<exists>r \<in> set ?rs. bitmap_bit bm r)" "f \<longleftrightarrow> (\<exists>r \<in> set ?rs. \<not> bitmap_bit bm r)"
      using seen_rows [of ?rs bm "(False, False)"] len' CD_Bool by auto
    obtain full where full: "mask_is_full msk rows = Ok full" using mask_is_full_ok [OF m] by blast
    let ?ins = "(if t then [xxh (le32 1)] else []) @ (if f then [xxh (le32 0)] else [])"
    have "hll_aggregate_column xxh data msk rows st = Ok (foldl hll_add st ?ins)"
      using CD_Bool ok by (simp add: hll_aggregate_column_def full rs seen(1) kinds hll_ok_add)
    also have "foldl hll_add st ?ins = foldl hll_add st (concat (map (hll_hash xxh data) ?rs))"
      by (rule sketch.same_set [OF ok]) (use seen(2,3) CD_Bool in \<open>auto simp: hll_hash_def\<close>)
    finally show ?thesis .
  qed (use len' ok in \<open>auto simp: hll_aggregate_column_def hll_each_def hll_hash_def kinds intro!: gen\<close>)
qed

end
