(* ===== verification/Row_Facts.thy ===== *)
theory Row_Facts
  imports Row_Select Mask_Rows
begin

text \<open>
  Facts about the rows of a result: candidates survive their byte form, so that merging the
  heaps of the workers gives the first candidates of all of them; the final rows are the
  requested window of the full sort; ranks order dictionary ids as their strings; a cached
  NULL bitmap is the one of its page.
\<close>

section \<open>Candidates as bytes\<close>

definition key_fits :: "row_key \<Rightarrow> bool" where
  "key_fits k = (case k of RK_Bytes bs \<Rightarrow> length bs < 2 ^ 32 | _ \<Rightarrow> True)"

definition candidate_fits :: "row_candidate \<Rightarrow> bool" where
  "candidate_fits c \<longleftrightarrow> key_fits (rc_k1 c) \<and> (case rc_k2 c of None \<Rightarrow> True | Some k \<Rightarrow> key_fits k)"

lemma key1_parse:
  "key_fits k \<Longrightarrow> key1_fields k = (t, n, b) \<Longrightarrow>
     parse_key1 t n (length b) (b @ rest) = Ok (k, rest) \<and> length b < 2 ^ 32"
  by (cases k) (auto simp: parse_key1_def key_fits_def)

lemma key2_parse:
  "(case k of None \<Rightarrow> True | Some k \<Rightarrow> key_fits k) \<Longrightarrow> key2_fields k = (t, n, b) \<Longrightarrow>
     parse_key2 t n (length b) (b @ rest) = Ok (k, rest) \<and> length b < 2 ^ 32"
  by (cases k rule: key2_fields.cases) (auto simp: parse_key2_def key_fits_def)

lemma parse_candidate_bytes:
  assumes "candidate_fits c" shows "parse_candidate (candidate_bytes c @ rest) = Ok (c, rest)"
proof -
  obtain t1 n1 b1 t2 n2 b2 where f: "key1_fields (rc_k1 c) = (t1, n1, b1)" "key2_fields (rc_k2 c) = (t2, n2, b2)"
    by (meson prod_cases3)
  let ?l1 = "of_nat (length b1) :: u32" and ?l2 = "of_nat (length b2) :: u32"
  let ?head = "le64 (rc_row_id c) @ [t1, t2, 0, 0] @ le64 n1 @ le64 n2 @ le32 ?l1 @ le32 ?l2"
  have bytes: "candidate_bytes c @ rest = ?head @ b1 @ b2 @ rest"
    by (simp add: candidate_bytes_def f)
  have len: "length ?head = 36" by simp
  note k1 = key1_parse [OF _ f(1), of "b2 @ rest"] and k2 = key2_parse [OF _ f(2), of rest]
  have small: "unat ?l1 = length b1" "unat ?l2 = length b2"
    using assms k1 k2 unat_of_nat32 by (auto simp: candidate_fits_def)
  have slices: "slice (?head @ xs) 0 8 = le64 (rc_row_id c)" "(?head @ xs) ! 8 = t1" "(?head @ xs) ! 9 = t2"
    "slice (?head @ xs) 12 20 = le64 n1" "slice (?head @ xs) 20 28 = le64 n2"
    "slice (?head @ xs) 28 32 = le32 ?l1" "slice (?head @ xs) 32 36 = le32 ?l2" for xs
    by (simp_all add: slice_def nth_append)
  have drop: "drop 36 (?head @ xs) = xs" for xs using len by (metis append_eq_conv_conj)
  show ?thesis
    unfolding bytes parse_candidate_def Let_def slices drop
    using assms k1 k2 len by (simp add: small candidate_fits_def ROW_CANDIDATE_HEADER_SIZE_def)
qed

lemma candidate_bytes_not_Nil [simp]: "candidate_bytes c \<noteq> []"
  by (auto simp: candidate_bytes_def split: prod.splits dest: arg_cong [where f = length])

lemma merge_candidates_bytes:
  "list_all candidate_fits cs \<Longrightarrow>
     merge_candidates n heap (concat (map candidate_bytes cs)) =
       (foldl (\<lambda>heap c. push_candidate heap c n) heap cs, Ok ())"
proof (induction cs arbitrary: heap)
  case Nil
  then show ?case by (simp add: merge_candidates.simps)
next
  case (Cons c cs)
  then show ?case
    by (subst merge_candidates.simps) (simp add: parse_candidate_bytes)
qed

section \<open>The first candidates\<close>

lemma push_all: "foldl (\<lambda>heap c. push_candidate heap c n) [] cs = take n (sort_by row_le cs)"
proof -
  have "(\<lambda>heap c. push_candidate heap c n) = push_bounded row_le n"
    by (simp add: push_candidate_def fun_eq_iff)
  then show ?thesis by (simp add: candidates.heap_is_top)
qed

text \<open>The heaps of workers, each sent as bytes in some order and merged one after the other.\<close>

definition worker_message :: "nat \<Rightarrow> row_candidate list \<Rightarrow> bytes \<Rightarrow> bool" where
  "worker_message n cs bs \<longleftrightarrow>
     (\<exists>hs. mset hs = mset (take n (sort_by row_le cs)) \<and> bs = concat (map candidate_bytes hs))"

lemma merge_worker:
  assumes "list_all candidate_fits cs" "worker_message n cs bs"
  shows "merge_candidates n (take n (sort_by row_le ds)) bs = (take n (sort_by row_le (ds @ cs)), Ok ())"
proof -
  obtain hs where hs: "mset hs = mset (take n (sort_by row_le cs))" "bs = concat (map candidate_bytes hs)"
    using assms(2) by (auto simp: worker_message_def)
  have "set hs \<subseteq> set cs"
    using mset_eq_setD [OF hs(1)] set_take_subset [of n "sort_by row_le cs"] by auto
  then have fits: "list_all candidate_fits hs" using assms(1) by (auto simp: list_all_iff)
  have push: "(\<lambda>heap c. push_candidate heap c n) = push_bounded row_le n"
    by (simp add: push_candidate_def fun_eq_iff)
  have "foldl (push_bounded row_le n) (take n (sort_by row_le ds)) hs = take n (sort_by row_le (ds @ hs))"
    by (simp flip: candidates.heap_is_top)
  also have "sort_by row_le (ds @ hs) = sort_by row_le (ds @ take n (sort_by row_le cs))"
    by (rule candidates.sort_cong) (simp add: hs(1))
  also have "take n \<dots> = take n (sort_by row_le (ds @ cs))" by (rule candidates.take_sort_take)
  finally show ?thesis by (simp add: hs(2) merge_candidates_bytes [OF fits] push)
qed

lemma merge_workers:
  assumes "list_all2 (\<lambda>cs bs. list_all candidate_fits cs \<and> worker_message n cs bs) parts messages"
  shows "foldl (\<lambda>heap bs. fst (merge_candidates n heap bs)) (take n (sort_by row_le ds)) messages =
    take n (sort_by row_le (ds @ concat parts))"
  using assms
proof (induction parts messages arbitrary: ds rule: list_all2_induct)
  case (Cons cs parts bs messages)
  then show ?case using merge_worker [of cs n bs ds] Cons.IH [of "ds @ cs"] by simp
qed simp

section \<open>The final rows\<close>

lemma take_drop_window: "take l (drop k (take (l + k) xs)) = take l (drop k xs)"
  by (simp add: drop_take)

lemma finalize_heap_rows:
  assumes "pl_row_heap plan = take (row_take_count plan) (sort_by row_le cs)" "pl_limit plan \<noteq> 0"
    and "cs \<noteq> []"
  shows "pl_rows (finalize_rows_from_heap plan) =
    map rc_row_id (take (unat (pl_limit plan)) (drop (unat (pl_offset plan)) (sort_by row_le cs)))"
proof -
  have sorted: "sort_by row_le (take n (sort_by row_le cs)) = take n (sort_by row_le cs)" for n
    by (rule candidates.sorted_unique)
      (simp_all add: candidates.sorted candidates.mset_sort sorted_wrt_take)
  have lim: "unat (pl_limit plan) \<noteq> 0" using assms(2) by (simp add: unat_eq_zero)
  then have pos: "row_take_count plan \<noteq> 0" using assms(2) by (simp add: row_take_count_def)
  have "sort_by row_le cs \<noteq> []" using assms(3) by (metis length_0_conv length_sort_by)
  with pos have "pl_row_heap plan \<noteq> []" by (simp add: assms(1))
  then show ?thesis using assms(2) lim
    by (simp add: finalize_rows_from_heap_def assms(1) sorted row_take_count_def take_drop_window)
qed

lemma finalize_basic_rows:
  "pl_rows (finalize_rows_basic plan) =
     (let rows = drop (unat (pl_offset plan)) (sort (pl_rows plan))
      in if pl_limit plan = 0 then rows else take (unat (pl_limit plan)) rows)"
  by (auto simp: finalize_rows_basic_def Let_def unat_eq_zero not_less unat_gt_0)

section \<open>Ranks of a dictionary\<close>

lemma three_way_dict: "three_way (cmp_dict_ids d)"
proof -
  have "three_way (cmp_by int)" by (rule three_way_cmp_by) (simp add: inj_on_def)
  then have "three_way (\<lambda>x y. cmp_then (lex_cmp (fst x) (fst y)) (cmp_by int (snd x) (snd y)))"
    by (rule three_way_lex [OF byte_strings.three_way_axioms])
  from three_way_map [OF this, of "\<lambda>i. (dict_bytes_or_empty d i, i)"] show ?thesis
    by (simp add: cmp_dict_ids_def [abs_def] inj_on_def)
qed

interpretation dict_ids: three_way "cmp_dict_ids d" for d
  by (rule three_way_dict)

lemma rank_fold:
  assumes "distinct ids" "set ids \<subseteq> {..<length rs}" "length js = length ids"
  shows "length (foldl (\<lambda>rs (rank, i). rs[i := of_nat rank]) rs (zip js ids)) = length rs \<and>
    (\<forall>k < length ids. foldl (\<lambda>rs (rank, i). rs[i := of_nat rank]) rs (zip js ids) ! (ids ! k) = (of_nat (js ! k) :: u32)) \<and>
    (\<forall>i < length rs. i \<notin> set ids \<longrightarrow> foldl (\<lambda>rs (rank, i). rs[i := of_nat rank]) rs (zip js ids) ! i = rs ! i)"
  using assms
proof (induction ids arbitrary: rs js)
  case (Cons i ids)
  then obtain j js' where js: "js = j # js'" by (cases js) auto
  have "length (foldl (\<lambda>rs (rank, i). rs[i := of_nat rank]) (rs[i := of_nat j]) (zip js' ids)) = length rs \<and>
    (\<forall>k < length ids. foldl (\<lambda>rs (rank, i). rs[i := of_nat rank]) (rs[i := of_nat j]) (zip js' ids) ! (ids ! k) = of_nat (js' ! k)) \<and>
    (\<forall>m < length rs. m \<notin> set ids \<longrightarrow>
       foldl (\<lambda>rs (rank, i). rs[i := of_nat rank]) (rs[i := of_nat j]) (zip js' ids) ! m = rs[i := of_nat j] ! m)"
    using Cons.IH [of "rs[i := of_nat j]" js'] Cons.prems js by simp
  with Cons.prems js show ?case by (auto simp: nth_Cons split: nat.splits)
qed simp

lemma lex_ranks_ok:
  fixes d :: dictionary
  defines "n \<equiv> dictionary_len d"
  defines "ids \<equiv> sort_by (\<lambda>a b. cmp_dict_ids d a b \<le> 0) [0..<n]"
  shows "length (build_dict_lex_ranks d) = n"
    and "k < n \<Longrightarrow> build_dict_lex_ranks d ! (ids ! k) = of_nat k"
    and "set ids = {..<n}" "length ids = n" "sorted_wrt (\<lambda>a b. cmp_dict_ids d a b \<le> 0) ids" "distinct ids"
proof -
  have ids: "distinct ids" "set ids = {..<n}" "length ids = n" by (auto simp: ids_def)
  then have "set ids \<subseteq> {..<length (replicate n (0 :: u32))}" "length [0..<n] = length ids" by simp_all
  from rank_fold [OF ids(1) this] ids(3)
  show "length (build_dict_lex_ranks d) = n" "k < n \<Longrightarrow> build_dict_lex_ranks d ! (ids ! k) = of_nat k"
    by (simp_all add: build_dict_lex_ranks_def n_def ids_def Let_def)
  show "set ids = {..<n}" "length ids = n" "distinct ids" by (fact ids)+
  show "sorted_wrt (\<lambda>a b. cmp_dict_ids d a b \<le> 0) ids" unfolding ids_def by (rule dict_ids.sorted)
qed

text \<open>The ranks compare as the strings, and ids with the same string as the ids.\<close>

lemma lex_ranks_order:
  assumes n: "dictionary_len d < 2 ^ 32" and i: "i < dictionary_len d" and j: "j < dictionary_len d"
  shows "unat (build_dict_lex_ranks d ! i) < unat (build_dict_lex_ranks d ! j) \<longleftrightarrow> cmp_dict_ids d i j < 0"
proof -
  let ?ids = "sort_by (\<lambda>a b. cmp_dict_ids d a b \<le> 0) [0..<dictionary_len d]"
  note r = lex_ranks_ok [where d = d]
  obtain k where k: "k < dictionary_len d" "?ids ! k = i" using i r(3,4) by (metis in_set_conv_nth lessThan_iff)
  obtain m where m: "m < dictionary_len d" "?ids ! m = j" using j r(3,4) by (metis in_set_conv_nth lessThan_iff)
  have rank: "unat (build_dict_lex_ranks d ! i) = k" "unat (build_dict_lex_ranks d ! j) = m"
    using r(2) [OF k(1)] r(2) [OF m(1)] k m n unat_of_nat32 by auto
  have "cmp_dict_ids d i j < 0" if "k < m"
  proof -
    have "cmp_dict_ids d i j \<le> 0" using sorted_wrt_nth_less [OF r(5) that] m k r(4) by simp
    moreover have "i \<noteq> j" using that k m r(4,6) nth_eq_iff_index_eq by (metis less_irrefl)
    ultimately show ?thesis using dict_ids.zero [of d i j] by fastforce
  qed
  moreover have "\<not> cmp_dict_ids d i j < 0" if "m \<le> k"
  proof (cases "m = k")
    case False
    then have "cmp_dict_ids d j i \<le> 0" using sorted_wrt_nth_less [OF r(5), of m k] that m k r(4) by simp
    then show ?thesis using dict_ids.swap [of d i j] by simp
  qed (use k m dict_ids.refl [of d i] in auto)
  ultimately show ?thesis using rank by (metis not_le)
qed

section \<open>The cache of NULL bitmaps\<close>

definition coherent :: "null_cache \<Rightarrow> bool" where
  "coherent nc \<longleftrightarrow>
     (\<forall>c b. nb_cache nc c = Some b \<longrightarrow> b = nullable_row_bitmap (nb_null_pages nc c) (nb_rows nc))"

lemma coherent_new: "coherent (null_cache_new pages rows)"
  by (simp add: coherent_def null_cache_new_def)

lemma for_col_coherent:
  assumes "coherent nc" "for_col nc c = (b, nc')"
  shows "coherent nc'" "b = nullable_row_bitmap (nb_null_pages nc c) (nb_rows nc)"
    "nb_null_pages nc' = nb_null_pages nc" "nb_rows nc' = nb_rows nc"
  using assms by (auto simp: for_col_def coherent_def Let_def split: option.splits if_splits)

lemma nulls_of_coherent:
  assumes "coherent nc" "nulls_of col nc c = (b, nc')"
  shows "coherent nc'" "nb_null_pages nc' = nb_null_pages nc" "nb_rows nc' = nb_rows nc"
    "b = (if c_flags col AND FLAG_NULLABLE \<noteq> 0
          then nullable_row_bitmap (nb_null_pages nc c) (nb_rows nc) else None)"
  using assms for_col_coherent [OF assms(1)] by (auto simp: nulls_of_def split: if_splits)

lemma row_is_valid_for_all_ok:
  "\<forall>b. Some b \<in> set bs \<longrightarrow> row div 8 < length b \<Longrightarrow>
     row_is_valid_for_all row bs = Ok (\<forall>b. Some b \<in> set bs \<longrightarrow> bitmap_bit b row)"
  by (induction row bs rule: row_is_valid_for_all.induct) (auto simp: is_valid_eq)

end
