(* ===== verification/Group_Hist_Facts.thy ===== *)
theory Group_Hist_Facts
  imports Group_Hist Agg_Facts Row_Facts
begin

text \<open>
  Facts about the histogram: a bucket counts the selected rows of its id, the histograms of
  the workers merge to the one of all rows, a partial result survives its byte form, and the
  bounded heap gives the window of the full sort.
\<close>

section \<open>Counting\<close>

lemma sat_add32_unat: "unat (sat_add32 a b) = min (2 ^ 32 - 1) (unat a + unat b)"
  unfolding sat_add32_def by (rule unat_of_nat32) simp

lemma sat_add32_0 [simp]: "sat_add32 a 0 = a"
  using unsigned_less [of a, where 'a = nat] by (simp add: word_unat_eq_iff sat_add32_unat)

lemma sat_add32_assoc: "sat_add32 a (sat_add32 b c) = sat_add32 (sat_add32 a b) c"
  by (simp add: word_unat_eq_iff sat_add32_unat)

lemma length_bump [simp]: "length (bump_count counts i) = length counts"
  by (simp add: bump_count_def)

lemma bump_nth:
  "k < length counts \<Longrightarrow> bump_count counts i ! k = (if k = i then sat_add32 (counts ! k) 1 else counts ! k)"
  by (auto simp: bump_count_def)

lemma length_merge_counts [simp]: "length (merge_group_hist_counts t s) = length t"
  by (simp add: merge_group_hist_counts_def)

lemma merge_counts_nth:
  "length s = length t \<Longrightarrow> k < length t \<Longrightarrow>
     merge_group_hist_counts t s ! k = sat_add32 (t ! k) (s ! k)"
  by (simp add: merge_group_hist_counts_def)

interpretation histogram: mergeable "replicate n 0" bump_count merge_group_hist_counts "\<lambda>h. h"
    "\<lambda>h. length h = n" "\<lambda>_. True" for n
proof
  fix s :: "u32 list" and vs assume s: "length s = n"
  show "merge_group_hist_counts s (foldl bump_count (replicate n 0) vs) = foldl bump_count s vs"
  proof (induction vs rule: rev_induct)
    case Nil
    then show ?case using s by (simp add: list_eq_iff_nth_eq merge_counts_nth)
  next
    case (snoc v vs)
    have len: "length (foldl bump_count h vs) = length h" for h by (induction vs arbitrary: h) auto
    have "merge_group_hist_counts s (bump_count t v) = bump_count (merge_group_hist_counts s t) v"
      if "length t = n" for t
      using that s by (simp add: list_eq_iff_nth_eq merge_counts_nth bump_nth sat_add32_assoc)
    with snoc len show ?case by simp
  qed
qed simp_all

lemma bump_all:
  "k < n \<Longrightarrow> unat (foldl bump_count (replicate n 0) vs ! k) = min (2 ^ 32 - 1) (length (filter (\<lambda>v. v = k) vs))"
proof (induction vs rule: rev_induct)
  case (snoc v vs)
  have "length (foldl bump_count h vs) = length h" for h by (induction vs arbitrary: h) auto
  moreover have "min m (min m l + 1) = min m (Suc l)" for m l :: nat by simp
  ultimately show ?case using snoc by (cases "k = v") (simp_all add: bump_nth sat_add32_unat)
qed simp

text \<open>The ids that a chunk counts: of the selected rows without a NULL key.\<close>

definition key_valid :: "bytes option list \<Rightarrow> nat \<Rightarrow> bool" where
  "key_valid key_nulls r \<longleftrightarrow> (\<forall>b. Some b \<in> set key_nulls \<longrightarrow> bitmap_bit b r)"

definition hist_ids :: "column_data \<Rightarrow> mask \<Rightarrow> nat \<Rightarrow> bytes option list \<Rightarrow> nat list" where
  "hist_ids data msk rows key_nulls =
     List.map_filter (dict_index_at data)
       (filter (\<lambda>r. mask_bit msk r \<and> key_valid key_nulls r) [0..<rows])"

definition nulls_cover :: "bytes option list \<Rightarrow> nat \<Rightarrow> bool" where
  "nulls_cover key_nulls rows \<longleftrightarrow> (\<forall>b. Some b \<in> set key_nulls \<longrightarrow> rows \<le> 8 * length b)"

lemma phase_rows_eq:
  assumes m: "is_mask msk" "rows \<le> ROWS_PER_CHUNK" and full: "mask_is_full msk rows = Ok full"
  shows "(if full then [0..<rows] else iter_mask msk rows) = filter (mask_bit msk) [0..<rows]"
proof -
  have it: "iter_mask msk rows = filter (mask_bit msk) [0..<rows]"
    using m by (intro iter_mask_eq) (simp add: is_mask_def)
  have "full \<Longrightarrow> \<forall>r < rows. mask_bit msk r" using full mask_is_full_ok [OF m] m(2) by auto
  then have "full \<Longrightarrow> filter (mask_bit msk) [0..<rows] = [0..<rows]" by (simp add: filter_id_conv)
  with it show ?thesis by simp
qed

lemma row_valid_ok:
  assumes "nulls_cover key_nulls rows" "r < rows"
  shows "row_is_valid_for_all r key_nulls = Ok (key_valid key_nulls r)"
proof -
  have "r div 8 < length b" if "Some b \<in> set key_nulls" for b
  proof -
    have "rows \<le> 8 * length b" using assms(1) that by (simp add: nulls_cover_def)
    with assms(2) show ?thesis by (simp add: div_less_iff_less_mult mult.commute)
  qed
  then show ?thesis by (simp add: row_is_valid_for_all_ok key_valid_def)
qed

lemma count_rows:
  assumes "nulls_cover key_nulls rows" "\<forall>r \<in> set rs. r < rows"
  shows "foldR (count_row data key_nulls) counts rs =
    Ok (foldl bump_count counts (List.map_filter (dict_index_at data)
      (filter (key_valid key_nulls) rs)))"
  using assms(2)
proof (induction rs arbitrary: counts)
  case (Cons r rs)
  then show ?case
    by (cases "dict_index_at data r"; cases "key_valid key_nulls r")
      (simp_all add: count_row_def row_valid_ok [OF assms(1)] map_filter_simps)
qed (simp add: map_filter_simps)

lemma hist_values_eq:
  assumes m: "is_mask msk" "rows \<le> ROWS_PER_CHUNK" and len: "rows \<le> length vs"
    and at: "\<And>r. r < rows \<Longrightarrow> dict_index_at data r = Some (unat (vs ! r))"
  shows "hist_count_values counts vs msk rows =
    Ok (foldl bump_count counts (List.map_filter (dict_index_at data) (filter (mask_bit msk) [0..<rows])))"
proof -
  have "foldl bump_count counts (map (\<lambda>r. unat (vs ! r)) rs) =
      foldl bump_count counts (List.map_filter (dict_index_at data) rs)" if "\<forall>r \<in> set rs. r < rows" for rs counts
    using that at by (induction rs arbitrary: counts) (auto simp: map_filter_simps)
  then show ?thesis
    by (simp add: hist_count_values_def for_each_value_eq [OF m len] foldR_Ok foldl_map comp_def)
qed

lemma hist_values_none:
  assumes "is_mask msk" "rows \<le> ROWS_PER_CHUNK" "rows \<le> length vs" "\<And>b. Some b \<notin> set key_nulls"
    and "\<And>r. r < rows \<Longrightarrow> dict_index_at data r = Some (unat (vs ! r))"
  shows "hist_count_values counts vs msk rows =
    Ok (foldl bump_count counts (hist_ids data msk rows key_nulls))"
  using hist_values_eq [OF assms(1-3,5)] assms(4) by (simp add: hist_ids_def key_valid_def)

lemma hist_count_ok:
  assumes m: "is_mask msk" "rows \<le> ROWS_PER_CHUNK" and len: "rows \<le> column_rows data"
    and nulls: "nulls_cover key_nulls rows"
  shows "hist_count_dict_column counts data msk rows key_nulls =
    Ok (foldl bump_count counts (hist_ids data msk rows key_nulls))"
proof -
  obtain full where full: "mask_is_full msk rows = Ok full" using mask_is_full_ok [OF m] by blast
  have masked: "hist_count_dict_column_masked counts data msk rows key_nulls =
      Ok (foldl bump_count counts (hist_ids data msk rows key_nulls))"
    using count_rows [OF nulls, of "filter (mask_bit msk) [0..<rows]" data counts]
    by (simp add: hist_count_dict_column_masked_def full phase_rows_eq [OF m full] hist_ids_def conj_commute)
  show ?thesis
  proof (cases "\<exists>n \<in> set key_nulls. n \<noteq> None")
    case False
    then have none: "Some b \<notin> set key_nulls" for b by auto
    show ?thesis
      using False masked len
      by (cases data) (auto simp: hist_count_dict_column_def column_rows_def column_f64_def dict_index_at_def
          get_def none
          intro!: hist_values_none [OF m])
  qed (simp add: hist_count_dict_column_def masked)
qed

section \<open>Partial results\<close>

lemma hist_partial_roundtrip:
  assumes "unat n \<le> length counts" "case sums of None \<Rightarrow> True | Some s \<Rightarrow> unat n \<le> length s"
  shows "decode_group_hist_partial (encode_group_hist_partial n counts sums @ rest) =
    Some (n, take (unat n) counts, map_option (take (unat n)) sums)"
    and "is_group_hist_partial (encode_group_hist_partial n counts sums @ rest)"
proof -
  let ?c = "take (unat n) counts"
  let ?magic = "if sums \<noteq> None then GROUP_HIST_MAGIC_SUM else GROUP_HIST_MAGIC"
  let ?s = "case sums of None \<Rightarrow> [] | Some s \<Rightarrow> concat (map le64 (take (unat n) s))"
  have m: "length ?magic = 8" by (simp add: GROUP_HIST_MAGIC_def GROUP_HIST_MAGIC_SUM_def)
  have enc: "encode_group_hist_partial n counts sums @ rest = ?magic @ le32 n @ concat (map le32 ?c) @ ?s @ rest"
    by (simp add: encode_group_hist_partial_def Let_def)
  have lens: "length (concat (map le32 ?c)) = 4 * unat n" "length ?s = (if sums \<noteq> None then 8 * unat n else 0)"
    using assms by (auto simp: b32.concat_length b64.concat_length split: option.splits)
  have t8: "take 8 (?magic @ xs) = ?magic" for xs using m by simp
  have dl: "slice (?magic @ le32 n @ xs) 8 12 = le32 n" for xs
    using m by (simp add: slice_def)
  have counts: "slice (?magic @ le32 n @ concat (map le32 ?c) @ xs) 12 (12 + unat n * 4) = concat (map le32 ?c)" for xs
    using m lens by (simp add: slice_def mult.commute)
  have sums: "slice (?magic @ le32 n @ concat (map le32 ?c) @ ?s @ xs) (12 + unat n * 4)
      (12 + unat n * 4 + unat n * 8) = ?s" if "sums \<noteq> None" for xs
    using m lens that by (simp add: slice_def mult.commute)
  have distinct: "GROUP_HIST_MAGIC \<noteq> GROUP_HIST_MAGIC_SUM"
    by (simp add: GROUP_HIST_MAGIC_def GROUP_HIST_MAGIC_SUM_def)
  have long: "12 + unat n * 4 + (if sums \<noteq> None then unat n * 8 else 0) \<le>
      length (?magic @ le32 n @ concat (map le32 ?c) @ ?s @ rest)"
    using m lens by (simp add: mult.commute)
  show "decode_group_hist_partial (encode_group_hist_partial n counts sums @ rest) =
    Some (n, take (unat n) counts, map_option (take (unat n)) sums)"
  proof (cases sums)
    case None
    then show ?thesis using long distinct unfolding enc decode_group_hist_partial_def Let_def t8 dl b32.dec_enc counts
      by (simp add: b32.decode_all)
  next
    case (Some s)
    then have "slice (?magic @ le32 n @ concat (map le32 ?c) @ ?s @ rest) (12 + unat n * 4)
        (12 + unat n * 4 + unat n * 8) = concat (map le64 (take (unat n) s))" using sums by simp
    then show ?thesis using Some long distinct unfolding enc decode_group_hist_partial_def Let_def t8 dl b32.dec_enc counts
      by (simp add: b32.decode_all b64.decode_all)
  qed
  show "is_group_hist_partial (encode_group_hist_partial n counts sums @ rest)"
    using long unfolding enc is_group_hist_partial_def t8 by simp
qed

section \<open>The window of the first groups\<close>

lemma three_way_entry: "inj key \<Longrightarrow> three_way (cmp_entry key)"
  unfolding cmp_entry_def [abs_def]
  by (rule three_way_lex [OF three_way_cmp_by three_way_reverse [OF three_way_cmp_by]])
    (simp_all add: inj_on_def word_uint_eq_iff)

lemma three_way_output: "inj key \<Longrightarrow> three_way (cmp_output key)"
proof -
  assume key: "inj key"
  have "three_way (\<lambda>a b. cmp_entry key (prod.swap b) (prod.swap a))"
    by (rule three_way_reverse [OF three_way_map [OF three_way_entry [OF key] inj_swap]])
  then show ?thesis by (simp add: cmp_entry_def cmp_output_def [abs_def])
qed

lemma sort_by_map: "sort_by le (map f xs) = map f (sort_by (\<lambda>a b. le (f a) (f b)) xs)"
proof -
  have "insert_by le (f x) (map f ys) = map f (insert_by (\<lambda>a b. le (f a) (f b)) x ys)" for x ys
    by (induction ys) auto
  then show ?thesis by (induction xs) auto
qed

lemma swap_output: "cmp_output key (prod.swap a) (prod.swap b) = cmp_entry key b a"
  by (simp add: cmp_output_def cmp_entry_def)

lemma hist_topk_window:
  assumes key: "inj key"
  shows "hist_topk key skip vs n offset limit =
    take (unat limit) (drop (unat offset) (sort_by (\<lambda>a b. cmp_output key a b \<le> 0)
      (map prod.swap (hist_entries skip vs n))))"
proof -
  let ?w = "unat offset + unat limit" and ?es = "hist_entries skip vs n"
  let ?le = "\<lambda>a b. cmp_entry key b a \<le> 0" and ?out = "\<lambda>a b. cmp_output key a b \<le> 0"
  have linear: "linear_le ?le"
    by (rule three_way.linear [OF three_way_reverse [OF three_way_entry [OF key]]])
  have sorted: "sort_by ?le (take ?w (sort_by ?le ?es)) = take ?w (sort_by ?le ?es)"
    by (rule linear_le.sorted_unique [OF linear])
      (simp_all add: linear_le.sorted [OF linear] linear_le.mset_sort [OF linear] sorted_wrt_take)
  have map: "sort_by ?out (map prod.swap zs) = map prod.swap (sort_by ?le zs)" for zs
    by (simp add: sort_by_map swap_output)
  have swap: "(\<lambda>(v, i). (i, v)) = (prod.swap :: 'a \<times> u32 \<Rightarrow> u32 \<times> 'a)" by (simp add: fun_eq_iff)
  have entries: "sort_by ?out (map (\<lambda>(v, i). (i, v)) (foldl (push_bounded ?le ?w) [] ?es)) =
      take ?w (sort_by ?out (map prod.swap ?es))"
    unfolding swap linear_le.heap_is_top [OF linear] map sorted take_map ..
  show ?thesis
  proof (cases "?w = 0")
    case False
    have win: "take l (drop k (take (k + l) xs)) = take l (drop k xs)" for l k and xs :: "(u32 \<times> 'a) list"
      by (simp add: drop_take)
    show ?thesis by (simp only: hist_topk_def Let_def False if_False entries win)
  qed (simp add: hist_topk_def)
qed

lemma hist_topk_count:
  "hist_topk_by_count counts n offset limit =
     take (unat limit) (drop (unat offset) (hist_entries_full_sort counts n True))"
proof -
  have "inj (uint :: u32 \<Rightarrow> int)" by (simp add: inj_on_def word_uint_eq_iff)
  moreover have "map prod.swap (hist_entries (\<lambda>c. c = 0) counts n) =
      map (\<lambda>(i, c). (of_nat i, c)) (filter (\<lambda>(i, c). 0 < c) (enumerate 0 (take n counts)))"
    by (simp add: hist_entries_def comp_def case_prod_unfold word_neq_0_conv)
  ultimately show ?thesis
    by (simp add: hist_topk_by_count_def hist_topk_window hist_entries_full_sort_def Let_def)
qed

text \<open>So the window of the records is always the one of the full sort.\<close>

lemma hist_window_sorted:
  "hist_window counts n order_by_count limit offset =
     (let entries = drop (unat offset) (hist_entries_full_sort counts n order_by_count)
      in if 0 < limit then take (unat limit) entries else entries)"
  by (auto simp: hist_window_def hist_topk_count Let_def min_def)

section \<open>Sums that are dropped\<close>

text \<open>Without an order by the value the records carry no sums, although they were computed; with
  it, a group whose sum is zero has no record.\<close>

lemma hist_records_without_sums:
  "\<not> order_by_count \<or> limit = 0 \<Longrightarrow>
     group_hist_to_records counts (Some sums) n aggs order_by_count limit offset =
     group_hist_to_records counts None n aggs order_by_count limit offset"
  by (auto simp: group_hist_to_records_def)

lemma zero_sums_dropped:
  "\<forall>s \<in> set sums. f_eq s f_zero \<Longrightarrow>
     group_hist_to_records counts (Some sums) n aggs True 10 offset = []"
proof -
  assume zero: "\<forall>s \<in> set sums. f_eq s f_zero"
  have "(\<lambda>(i, v). \<not> f_eq v f_zero) x \<Longrightarrow> x \<notin> set (enumerate 0 (take (unat n) sums))" for x
    using zero in_set_takeD by (fastforce simp: in_set_enumerate_eq)
  then have "hist_entries (\<lambda>s. f_eq s f_zero) sums (unat n) = []"
    by (auto simp: hist_entries_def filter_empty_conv)
  then show ?thesis
    by (simp add: group_hist_to_records_def hist_topk_by_sum_def hist_topk_window [OF inj_total_key])
qed

end
