(* ===== verification/Chunk_Facts.thy ===== *)
theory Chunk_Facts
  imports Chunk_Exec Plan_Table Group_Hist_Facts Agg_Facts
begin

text \<open>
  Facts about the execution of a chunk: the combined mask is the mask of the plan's
  condition, every group holds the aggregates of exactly its rows, and the tables of a plan
  keep their invariant under every call.
\<close>

section \<open>The combined mask\<close>

definition plan_condition :: "plan \<Rightarrow> nat \<Rightarrow> cond \<Rightarrow> bool" where
  "plan_condition plan n c \<longleftrightarrow> lits c \<subseteq> {..<n} \<and> (n \<noteq> 0 \<and> pl_combine plan \<noteq> [] \<longrightarrow> pl_combine plan = tokens_of c)"

definition row_selected :: "plan \<Rightarrow> mask list \<Rightarrow> cond \<Rightarrow> nat \<Rightarrow> bool" where
  "row_selected plan masks c r \<longleftrightarrow>
     (if masks = [] \<or> pl_combine plan = [] then \<forall>m \<in> set masks. mask_bit m r
      else holds (\<lambda>i. mask_bit (masks ! i) r) c)"

lemma foldl_and_ok:
  "is_mask m \<Longrightarrow> \<forall>x \<in> set ms. is_mask x \<Longrightarrow>
     is_mask (foldl mask_and m ms) \<and>
     (\<forall>r. mask_bit (foldl mask_and m ms) r \<longleftrightarrow> mask_bit m r \<and> (\<forall>x \<in> set ms. mask_bit x r))"
proof (induction ms arbitrary: m)
  case (Cons x ms)
  then have "is_mask (mask_and m x)" by (simp add: is_mask_def)
  with Cons.IH [of "mask_and m x"] Cons.prems show ?case by auto
qed simp

lemma combined_mask_ok:
  assumes rows: "rows \<le> ROWS_PER_CHUNK" and ms: "\<forall>m \<in> set masks. is_mask m"
    and c: "plan_condition plan (length masks) c"
  shows "\<exists>m0 m. combine_chunk_masks plan masks rows = Ok m0 \<and> clear_tail m0 rows = Ok m \<and> is_mask m \<and>
    (\<forall>r. mask_bit m r \<longleftrightarrow> r < rows \<and> row_selected plan masks c r)"
proof -
  have tail: "\<exists>m. clear_tail m0 rows = Ok m \<and> is_mask m \<and> (\<forall>r. mask_bit m r \<longleftrightarrow> r < rows \<and> mask_bit m0 r)"
    if "is_mask m0" for m0
    using clear_tail_ok [OF that] by blast
  show ?thesis
  proof (cases "masks = []")
    case True
    obtain m0 where m0: "full_mask rows = Ok m0" "is_mask m0" "\<forall>r. mask_bit m0 r \<longleftrightarrow> r < rows"
      using full_mask_ok [OF rows] by blast
    with tail [OF m0(2)] True show ?thesis by (auto simp: combine_chunk_masks_def row_selected_def)
  next
    case ne: False
    then obtain x xs where xs: "masks = x # xs" by (cases masks) auto
    show ?thesis
    proof (cases "pl_combine plan = []")
      case True
      have "is_mask (foldl mask_and x xs)"
        "\<forall>r. mask_bit (foldl mask_and x xs) r \<longleftrightarrow> (\<forall>m \<in> set masks. mask_bit m r)"
        using foldl_and_ok [of x xs] ms xs by auto
      with tail [OF this(1)] True xs show ?thesis by (auto simp: combine_chunk_masks_def row_selected_def)
    next
      case False
      then have tok: "pl_combine plan = tokens_of c" using c ne by (simp add: plan_condition_def)
      obtain m0 where m0: "combine_masks (tokens_of c) masks = Ok m0" "is_mask m0"
        "\<forall>r < ROWS_PER_CHUNK. mask_bit m0 r \<longleftrightarrow> holds (\<lambda>i. mask_bit (masks ! i) r) c"
        using combine_masks_ok [OF ms] c unfolding plan_condition_def by blast
      obtain m where m: "clear_tail m0 rows = Ok m" "is_mask m"
        "\<forall>r. mask_bit m r \<longleftrightarrow> r < rows \<and> mask_bit m0 r" using tail [OF m0(2)] by blast
      have "\<forall>r. mask_bit m r \<longleftrightarrow> r < rows \<and> row_selected plan masks c r"
        using m(3) m0(3) rows ne False by (auto simp: row_selected_def)
      with m m0(1) ne False tok show ?thesis by (auto simp: combine_chunk_masks_def fail_with_def)
    qed
  qed
qed

section \<open>Groups\<close>

definition row_aggs :: "group_ctx \<Rightarrow> plan \<Rightarrow> nat \<Rightarrow> group_agg_state list \<Rightarrow> group_agg_state list result" where
  "row_aggs gc plan row aggs =
     (if count_only (pl_group_aggs plan) then Ok (count_first aggs)
      else update_group_aggs row (gc_inputs gc) aggs)"

definition start_aggs :: "plan \<Rightarrow> group_key \<Rightarrow> group_agg_state list" where
  "start_aggs plan k =
     (case pl_group_state plan k of Some g \<Rightarrow> gs_aggs g
      | None \<Rightarrow> gs_aggs (new_group_state (pl_group_aggs plan)))"

fun new_keys :: "'k set \<Rightarrow> 'k list \<Rightarrow> 'k list" where
  "new_keys seen [] = []"
| "new_keys seen (k # ks) = (if k \<in> seen then new_keys seen ks else k # new_keys (insert k seen) ks)"

text \<open>The keys of the rows, with their byte forms, are not in conflict.\<close>

definition keys_agree ::
  "group_ctx \<Rightarrow> plan \<Rightarrow> nat list \<Rightarrow> (nat \<Rightarrow> group_key) \<Rightarrow> (nat \<Rightarrow> bytes option) \<Rightarrow> bool" where
  "keys_agree gc plan rs f rep \<longleftrightarrow>
     (\<forall>r \<in> set rs. row_group_key gc r = Ok (f r, rep r) \<and>
        (\<forall>b. pl_group_key_repr plan (f r) = Some b \<longrightarrow> rep r = Some b)) \<and>
     (\<forall>r \<in> set rs. \<forall>s \<in> set rs. f r = f s \<longrightarrow> rep r = rep s)"

lemma keys_agreeD:
  assumes "keys_agree gc plan rs f rep" "r \<in> set rs"
  shows "row_group_key gc r = Ok (f r, rep r)"
    and "pl_group_key_repr plan (f r) = Some b \<Longrightarrow> rep r = Some b"
    and "s \<in> set rs \<Longrightarrow> f s = f r \<Longrightarrow> rep s = rep r"
  using assms unfolding keys_agree_def by blast+

lemma keys_agreeI:
  assumes "\<And>r. r \<in> set rs \<Longrightarrow> row_group_key gc r = Ok (f r, rep r)"
    and "\<And>r b. r \<in> set rs \<Longrightarrow> pl_group_key_repr plan (f r) = Some b \<Longrightarrow> rep r = Some b"
    and "\<And>r s. r \<in> set rs \<Longrightarrow> s \<in> set rs \<Longrightarrow> f s = f r \<Longrightarrow> rep s = rep r"
  shows "keys_agree gc plan rs f rep"
  using assms unfolding keys_agree_def by blast

lemma keys_agree_rest:
  assumes "keys_agree gc plan (r # rs) f rep"
    and "\<And>s b. s \<in> set rs \<Longrightarrow> pl_group_key_repr plan1 (f s) = Some b \<Longrightarrow> rep s = Some b"
  shows "keys_agree gc plan1 rs f rep"
proof (rule keys_agreeI)
  show "row_group_key gc s = Ok (f s, rep s)" if "s \<in> set rs" for s
    by (rule keys_agreeD(1) [OF assms(1)]) (simp add: that)
  show "rep s = Some b" if "s \<in> set rs" "pl_group_key_repr plan1 (f s) = Some b" for s b
    using that by (rule assms(2))
  show "rep s = rep t" if "t \<in> set rs" "s \<in> set rs" "f s = f t" for s t
    by (rule keys_agreeD(3) [OF assms(1)]) (simp_all add: that)
qed

lemma keys_agree_free:
  assumes "keys_agree gc plan rs f rep" "r \<in> set rs"
  shows "collision_free_key gc plan (f r) (rep r) = Ok (f r)"
  using keys_agreeD(2) [OF assms]
  by (cases "rep r"; cases "pl_group_key_repr plan (f r)") (simp_all add: collision_free_key_def)

lemma group_row_one:
  assumes agree: "keys_agree gc plan (r # rs) f rep" and step: "group_row gc plan r = Ok plan1"
  shows "\<exists>aggs. row_aggs gc plan r (start_aggs plan (f r)) = Ok aggs \<and>
      pl_group_state plan1 = (pl_group_state plan)(f r \<mapsto> \<lparr> gs_aggs = aggs \<rparr>) \<and>
      pl_group_keys plan1 = (if pl_group_state plan (f r) = None then pl_group_keys plan @ [f r]
                             else pl_group_keys plan) \<and>
      pl_group_aggs plan1 = pl_group_aggs plan \<and> pl_group_emit_raw plan1 = pl_group_emit_raw plan \<and>
      keys_agree gc plan1 rs f rep"
proof -
  have key: "row_group_key gc r = Ok (f r, rep r)" using keys_agreeD(1) [OF agree] by simp
  have free: "collision_free_key gc plan (f r) (rep r) = Ok (f r)" using keys_agree_free [OF agree] by simp
  show ?thesis
  proof (cases "pl_group_state plan (f r)")
    case None
    let ?repr = "case rep r of None \<Rightarrow> pl_group_key_repr plan | Some b \<Rightarrow> (pl_group_key_repr plan)(f r \<mapsto> b)"
    have repr: "rep s = Some b" if b: "?repr (f s) = Some b" and s: "s \<in> set rs" for s b
    proof (cases "f s = f r \<and> rep r \<noteq> None")
      case True
      have "rep s = rep r" by (rule keys_agreeD(3) [OF agree]) (simp_all add: s True)
      with True b show ?thesis by auto
    next
      case False
      with b have "pl_group_key_repr plan (f s) = Some b" by (auto split: option.splits if_splits)
      then show ?thesis using keys_agreeD(2) [OF agree, of s b] s by simp
    qed
    let ?plan = "\<lambda>aggs. plan\<lparr> pl_group_keys := pl_group_keys plan @ [f r], pl_group_key_repr := ?repr,
         pl_group_state := (pl_group_state plan)(f r \<mapsto> \<lparr> gs_aggs = aggs \<rparr>) \<rparr>"
    have "group_row gc plan r = bindR (row_aggs gc plan r (start_aggs plan (f r))) (\<lambda>aggs. Ok (?plan aggs))"
      by (simp add: group_row_def key free group_entry_def None start_aggs_def row_aggs_def Let_def
          new_group_state_def)
    with step have "bindR (row_aggs gc plan r (start_aggs plan (f r))) (\<lambda>aggs. Ok (?plan aggs)) = Ok plan1"
      by metis
    then obtain aggs where aggs: "row_aggs gc plan r (start_aggs plan (f r)) = Ok aggs" "plan1 = ?plan aggs"
      unfolding bindR_eq_Ok by blast
    have "keys_agree gc plan1 rs f rep"
    proof (rule keys_agree_rest [OF agree])
      fix s b assume "s \<in> set rs" "pl_group_key_repr plan1 (f s) = Some b"
      moreover from this(2) have "?repr (f s) = Some b" by (simp only: aggs(2)) simp
      ultimately show "rep s = Some b" by (intro repr)
    qed
    moreover have "pl_group_state plan1 = (pl_group_state plan)(f r \<mapsto> \<lparr> gs_aggs = aggs \<rparr>)"
      "pl_group_keys plan1 = pl_group_keys plan @ [f r]"
      "pl_group_aggs plan1 = pl_group_aggs plan" "pl_group_emit_raw plan1 = pl_group_emit_raw plan"
      by (simp_all only: aggs(2)) simp_all
    ultimately show ?thesis using aggs(1) None by (intro exI [of _ aggs]) (simp only: if_True simp_thms)
  next
    case (Some g)
    let ?plan = "\<lambda>aggs. plan\<lparr> pl_group_state := (pl_group_state plan)(f r \<mapsto> \<lparr> gs_aggs = aggs \<rparr>) \<rparr>"
    have upd: "g\<lparr> gs_aggs := aggs \<rparr> = \<lparr> gs_aggs = aggs \<rparr>" for aggs by simp
    have "group_row gc plan r = bindR (row_aggs gc plan r (start_aggs plan (f r))) (\<lambda>aggs. Ok (?plan aggs))"
      by (simp add: group_row_def key free group_entry_def Some start_aggs_def row_aggs_def upd)
    with step have "bindR (row_aggs gc plan r (start_aggs plan (f r))) (\<lambda>aggs. Ok (?plan aggs)) = Ok plan1"
      by metis
    then obtain aggs where aggs: "row_aggs gc plan r (start_aggs plan (f r)) = Ok aggs" "plan1 = ?plan aggs"
      unfolding bindR_eq_Ok by blast
    have "keys_agree gc plan1 rs f rep"
    proof (rule keys_agree_rest [OF agree])
      fix s b assume s: "s \<in> set rs" and "pl_group_key_repr plan1 (f s) = Some b"
      then have "pl_group_key_repr plan (f s) = Some b" by (simp add: aggs(2))
      then show "rep s = Some b" using keys_agreeD(2) [OF agree, of s b] s by simp
    qed
    moreover have "pl_group_state plan1 = (pl_group_state plan)(f r \<mapsto> \<lparr> gs_aggs = aggs \<rparr>)"
      "pl_group_keys plan1 = pl_group_keys plan"
      "pl_group_aggs plan1 = pl_group_aggs plan" "pl_group_emit_raw plan1 = pl_group_emit_raw plan"
      by (simp_all only: aggs(2)) simp_all
    ultimately show ?thesis using aggs(1) Some by (intro exI [of _ aggs]) simp
  qed
qed

lemma group_rows_ok:
  assumes "keys_agree gc plan rs f rep" "foldR (group_row gc) plan rs = Ok plan'"
  shows "(\<forall>k. k \<notin> f ` set rs \<longrightarrow> pl_group_state plan' k = pl_group_state plan k) \<and>
    (\<forall>k \<in> f ` set rs. \<exists>aggs. foldR (\<lambda>aggs r. row_aggs gc plan r aggs) (start_aggs plan k) (filter (\<lambda>r. f r = k) rs)
        = Ok aggs \<and> pl_group_state plan' k = Some \<lparr> gs_aggs = aggs \<rparr>) \<and>
    pl_group_keys plan' = pl_group_keys plan @ new_keys (dom (pl_group_state plan)) (map f rs)"
  using assms
proof (induction rs arbitrary: plan)
  case (Cons r rs)
  obtain plan1 where step: "group_row gc plan r = Ok plan1" and rest: "foldR (group_row gc) plan1 rs = Ok plan'"
    using Cons.prems(2) by auto
  obtain aggs where a: "row_aggs gc plan r (start_aggs plan (f r)) = Ok aggs"
    "pl_group_state plan1 = (pl_group_state plan)(f r \<mapsto> \<lparr> gs_aggs = aggs \<rparr>)"
    "pl_group_keys plan1 = (if pl_group_state plan (f r) = None then pl_group_keys plan @ [f r]
                             else pl_group_keys plan)"
    "pl_group_aggs plan1 = pl_group_aggs plan" "keys_agree gc plan1 rs f rep"
    using group_row_one [OF Cons.prems(1) step] by blast
  note ih = Cons.IH [OF a(5) rest]
  have same: "row_aggs gc plan1 = row_aggs gc plan" by (simp add: row_aggs_def a(4) fun_eq_iff)
  have start: "start_aggs plan1 k = (if k = f r then aggs else start_aggs plan k)" for k
    by (cases "pl_group_state plan k") (auto simp: start_aggs_def a(2,4))
  have dom1: "dom (pl_group_state plan1) = insert (f r) (dom (pl_group_state plan))" using a(2) by auto
  have one: "\<exists>x. foldR (\<lambda>aggs r. row_aggs gc plan r aggs) (start_aggs plan k) (filter (\<lambda>r. f r = k) (r # rs)) = Ok x \<and>
      pl_group_state plan' k = Some \<lparr> gs_aggs = x \<rparr>" if "k \<in> f ` set (r # rs)" for k
  proof (cases "k \<in> f ` set rs")
    case True
    then show ?thesis using ih a(1) start [of k] by (auto simp: same)
  next
    case False
    then have "\<forall>s \<in> set rs. f s \<noteq> k" by blast
    then have "k = f r" "filter (\<lambda>s. f s = k) rs = []" using that by (auto simp: filter_empty_conv)
    moreover have "pl_group_state plan' k = pl_group_state plan1 k" using ih False by simp
    ultimately show ?thesis using a(1,2) by simp
  qed
  have "pl_group_keys plan' = pl_group_keys plan @ new_keys (dom (pl_group_state plan)) (map f (r # rs))"
    using ih a(3) dom1 by (cases "pl_group_state plan (f r)") (simp_all add: insert_absorb domI domIff)
  moreover have "\<forall>k. k \<notin> f ` set (r # rs) \<longrightarrow> pl_group_state plan' k = pl_group_state plan k"
    using ih a(2) by auto
  ultimately show ?case using one by blast
qed simp

text \<open>The updates do not fail on rows that the inputs cover.\<close>

definition input_covers :: "nat \<Rightarrow> agg_input \<Rightarrow> bool" where
  "input_covers rows ai \<longleftrightarrow>
     (case ai_source ai of None \<Rightarrow> True | Some (col, data) \<Rightarrow> rows \<le> column_rows data) \<and>
     (case ai_nulls ai of None \<Rightarrow> True | Some b \<Rightarrow> rows \<le> 8 * length b)"

lemma value_total: "rows \<le> column_rows data \<Longrightarrow> r < rows \<Longrightarrow> \<exists>v. read_value_f64 col data r = Ok v"
  by (cases data) (auto simp: read_value_f64_def column_rows_def column_f64_def index_def is_valid_def
      Let_def)

lemma distinct_total: "rows \<le> column_rows data \<Longrightarrow> r < rows \<Longrightarrow> \<exists>v. read_distinct_key data r = Ok v"
  by (cases data) (auto simp: read_distinct_key_def column_rows_def column_f64_def index_def is_valid_def
      Let_def)

lemma update_group_agg_total:
  assumes "input_covers rows ai" "r < rows"
  shows "\<exists>s'. update_group_agg r ai s = Ok s'"
proof -
  have valid: "\<exists>v. input_valid ai r = Ok v"
    using assms by (auto simp: input_covers_def input_valid_def is_valid_def index_def Let_def
        div_less_iff_less_mult mult.commute split: option.splits)
  then obtain v where v: "input_valid ai r = Ok v" by blast
  have src: "\<exists>x. read_value_f64 col data r = Ok x" "\<exists>x. read_distinct_key data r = Ok x"
    if "ai_source ai = Some (col, data)" for col data
    using assms that value_total distinct_total by (auto simp: input_covers_def)
  show ?thesis
  proof (cases "ai_source ai")
    case None
    then show ?thesis by (cases s; cases v) (auto simp: update_group_agg_def v Let_def)
  next
    case (Some cd)
    then obtain col data where cd: "ai_source ai = Some (col, data)" by (cases cd) auto
    obtain x y where "read_value_f64 col data r = Ok x" "read_distinct_key data r = Ok y"
      using src [OF cd] by blast
    with cd show ?thesis by (cases s; cases v) (auto simp: update_group_agg_def v Let_def)
  qed
qed

lemma update_group_aggs_total:
  "\<forall>ai \<in> set ais. input_covers rows ai \<Longrightarrow> r < rows \<Longrightarrow>
     \<exists>ss'. update_group_aggs r ais ss = Ok ss' \<and> length ss' = length ss"
proof (induction r ais ss rule: update_group_aggs.induct)
  case (1 row ai ais s ss)
  obtain s' where s': "update_group_agg row ai s = Ok s'"
    using update_group_agg_total [of rows ai row s] 1 by auto
  with 1 show ?case by auto
qed auto

lemma group_rows_total:
  assumes "keys_agree gc plan rs f rep" "\<forall>ai \<in> set (gc_inputs gc). input_covers rows ai"
    and "\<forall>r \<in> set rs. r < rows"
  shows "\<exists>plan'. foldR (group_row gc) plan rs = Ok plan'"
  using assms(1,3)
proof (induction rs arbitrary: plan)
  case (Cons r rs)
  have key: "row_group_key gc r = Ok (f r, rep r)" using keys_agreeD(1) [OF Cons.prems(1)] by simp
  have free: "collision_free_key gc plan (f r) (rep r) = Ok (f r)"
    using keys_agree_free [OF Cons.prems(1)] by simp
  obtain g plan0 where e: "group_entry plan (f r) (rep r) = (g, plan0)" by (meson surj_pair)
  obtain aggs where "update_group_aggs r (gc_inputs gc) (gs_aggs g) = Ok aggs"
    using update_group_aggs_total [OF assms(2)] Cons.prems(2) by fastforce
  then obtain plan1 where plan1: "group_row gc plan r = Ok plan1"
    by (cases "count_only (pl_group_aggs plan0)") (simp_all add: group_row_def key free e)
  have "keys_agree gc plan1 rs f rep" using group_row_one [OF Cons.prems(1) plan1] by blast
  with Cons.IH Cons.prems(2) plan1 show ?case by auto
qed simp

end
