(* ===== verification/Sql_Parser.thy ===== *)
theory Sql_Parser
  imports Prelude
begin

text \<open>
  The SQL parser (\<^verbatim>\<open>wcol-sql-parser/src/lib.rs\<close>): a lexer on the bytes of the text that gives one
  token at a time, and a recursive descent parser that holds the current token. The recursion
  is bounded by fuel; \<open>None\<close> is running out of it, which \<open>Sql_Parser_Facts\<close> rules out for the
  fuel that \<open>parse_sql_v0\<close> starts with. \<open>Slice_Panic\<close> is the panic of a string slice that cuts a character.
  Integers of the tree are the values of \<^verbatim>\<open>i64\<close> and \<^verbatim>\<open>u64\<close>, which the parser checks.
\<close>

section \<open>Syntax trees\<close>

datatype agg_fn = Fn_Count | Fn_Sum | Fn_Avg | Fn_Min | Fn_Max | Fn_ApproxDistinct

datatype bin_op = Op_Add | Op_Sub

datatype cmp_op = Cmp_Eq | Cmp_Ne | Cmp_Lt | Cmp_Le | Cmp_Gt | Cmp_Ge

datatype expr =
    E_Star
  | E_Ident bytes
  | E_Int int
  | E_Str bytes
  | E_Agg agg_fn bool expr
  | E_Binary bin_op expr expr
  | E_Compare cmp_op expr expr
  | E_Like expr expr bool
  | E_And expr expr
  | E_Call bytes "expr list"
  | E_In expr "expr list" bool

record select_item =
  si_expr :: expr
  si_alias :: "bytes option"

record order_item =
  oi_expr :: expr
  oi_desc :: bool

record query =
  q_select :: "select_item list"
  q_from :: bytes
  q_where :: "expr option"
  q_group_by :: "expr list"
  q_having :: "expr option"
  q_order_by :: "order_item list"
  q_offset :: "nat option"
  q_limit :: "nat option"

section \<open>Lexer\<close>

datatype tok_kind =
    T_Eof | T_LParen | T_RParen | T_Comma | T_Semi | T_Star
  | T_Plus | T_Minus | T_Eq | T_Ne | T_Lt | T_Le | T_Gt | T_Ge
  | T_Ident | T_Int | T_Str
  | Kw_Select | Kw_From | Kw_Where | Kw_Group | Kw_By | Kw_Having | Kw_Order | Kw_Asc | Kw_Desc
  | Kw_Limit | Kw_Offset | Kw_As | Kw_Distinct | Kw_And | Kw_Not | Kw_Like | Kw_In
  | Kw_Count | Kw_Sum | Kw_Avg | Kw_Min | Kw_Max | Kw_ApproxCountDistinct

record tok =
  t_kind :: tok_kind
  t_start :: nat
  t_lex :: bytes

datatype parse_failure = Parse_Error string nat | Slice_Panic

type_synonym 'a presult = "parse_failure + 'a"

definition is_ws :: "u8 \<Rightarrow> bool" where "is_ws c \<longleftrightarrow> c = 32 \<or> c = 10 \<or> c = 13 \<or> c = 9"

definition is_ident_start :: "u8 \<Rightarrow> bool" where
  "is_ident_start c \<longleftrightarrow> (97 \<le> c \<and> c \<le> 122) \<or> (65 \<le> c \<and> c \<le> 90) \<or> c = 95"

definition is_ident_continue :: "u8 \<Rightarrow> bool" where
  "is_ident_continue c \<longleftrightarrow> is_ident_start c \<or> is_digit c"

definition lower_byte :: "u8 \<Rightarrow> u8" where
  "lower_byte c = (if 65 \<le> c \<and> c \<le> 90 then c + 32 else c)"

definition eq_kw :: "bytes \<Rightarrow> string \<Rightarrow> bool" where
  "eq_kw lexeme kw \<longleftrightarrow> map lower_byte lexeme = map of_char kw"

definition keyword_table :: "(string \<times> tok_kind) list" where
  "keyword_table =
     [(''select'', Kw_Select), (''from'', Kw_From), (''where'', Kw_Where), (''group'', Kw_Group),
      (''by'', Kw_By), (''having'', Kw_Having), (''order'', Kw_Order), (''asc'', Kw_Asc),
      (''desc'', Kw_Desc), (''limit'', Kw_Limit), (''offset'', Kw_Offset), (''as'', Kw_As),
      (''distinct'', Kw_Distinct), (''and'', Kw_And), (''not'', Kw_Not), (''like'', Kw_Like),
      (''in'', Kw_In), (''count'', Kw_Count), (''sum'', Kw_Sum), (''avg'', Kw_Avg), (''min'', Kw_Min),
      (''max'', Kw_Max), (''approx_count_distinct'', Kw_ApproxCountDistinct)]"

definition keyword_kind :: "bytes \<Rightarrow> tok_kind option" where
  "keyword_kind lexeme = map_option snd (find (\<lambda>(kw, k). eq_kw lexeme kw) keyword_table)"

text \<open>The length of the rest of a string literal, after its opening quote.\<close>

fun string_rest :: "bytes \<Rightarrow> nat" where
  "string_rest [] = 0"
| "string_rest (c # cs) =
     (if c = 39 then (case cs of d # ds \<Rightarrow> if d = 39 then 2 + string_rest ds else 1 | [] \<Rightarrow> 1)
      else 1 + string_rest cs)"

text \<open>The kind of a token that starts with \<open>c\<close> before \<open>rest\<close>, and how long it is.\<close>

definition lex_token :: "u8 \<Rightarrow> bytes \<Rightarrow> (tok_kind \<times> nat) option" where
  "lex_token c rest =
     (let followed = (\<lambda>d. case rest of x # _ \<Rightarrow> x = d | [] \<Rightarrow> False) in
      if c = 40 then Some (T_LParen, 1)
      else if c = 41 then Some (T_RParen, 1)
      else if c = 44 then Some (T_Comma, 1)
      else if c = 59 then Some (T_Semi, 1)
      else if c = 42 then Some (T_Star, 1)
      else if c = 43 then Some (T_Plus, 1)
      else if c = 45 then Some (T_Minus, 1)
      else if c = 61 then Some (T_Eq, 1)
      else if c = 60 then
        (if followed 61 then Some (T_Le, 2) else if followed 62 then Some (T_Ne, 2) else Some (T_Lt, 1))
      else if c = 62 then (if followed 61 then Some (T_Ge, 2) else Some (T_Gt, 1))
      else if c = 39 then Some (T_Str, 1 + string_rest rest)
      else if is_ident_start c then Some (T_Ident, 1 + length (takeWhile is_ident_continue rest))
      else if is_digit c then Some (T_Int, 1 + length (takeWhile is_digit rest))
      else None)"

text \<open>The next token from byte \<open>i\<close> on, and the position after it.\<close>

definition lex_next :: "bytes \<Rightarrow> nat \<Rightarrow> (tok \<times> nat) presult" where
  "lex_next s i =
     (let start = i + length (takeWhile is_ws (drop i s)) in
      case drop start s of
        [] \<Rightarrow> Inr (\<lparr> t_kind = T_Eof, t_start = start, t_lex = [] \<rparr>, start)
      | c # rest \<Rightarrow>
          (case lex_token c rest of
             None \<Rightarrow> Inl (Parse_Error ''unexpected character'' start)
           | Some (kind, n) \<Rightarrow>
               let lexeme = take n (drop start s);
                   kind = (if kind = T_Ident then case keyword_kind lexeme of Some k \<Rightarrow> k | None \<Rightarrow> T_Ident
                           else kind)
               in Inr (\<lparr> t_kind = kind, t_start = start, t_lex = lexeme \<rparr>, start + n)))"

section \<open>Parser\<close>

record parser =
  ps_text :: bytes
  ps_pos :: nat
  ps_cur :: tok

text \<open>The parser's steps: \<open>None\<close> is out of fuel.\<close>

definition bindP :: "'a presult option \<Rightarrow> ('a \<Rightarrow> 'b presult option) \<Rightarrow> 'b presult option" where
  "bindP r f = (case r of None \<Rightarrow> None | Some (Inl e) \<Rightarrow> Some (Inl e) | Some (Inr x) \<Rightarrow> f x)"

abbreviation retP :: "'a \<Rightarrow> 'a presult option" where "retP x \<equiv> Some (Inr x)"

abbreviation failP :: "string \<Rightarrow> nat \<Rightarrow> 'a presult option" where "failP msg at \<equiv> Some (Inl (Parse_Error msg at))"

abbreviation cur_kind :: "parser \<Rightarrow> tok_kind" where "cur_kind p \<equiv> t_kind (ps_cur p)"

definition parser_new :: "bytes \<Rightarrow> parser presult option" where
  "parser_new s = bindP (Some (lex_next s 0)) (\<lambda>(t, i). retP \<lparr> ps_text = s, ps_pos = i, ps_cur = t \<rparr>)"

definition bump_token :: "parser \<Rightarrow> parser presult option" where
  "bump_token p = bindP (Some (lex_next (ps_text p) (ps_pos p))) (\<lambda>(t, i). retP (p\<lparr> ps_pos := i, ps_cur := t \<rparr>))"

definition expect :: "tok_kind \<Rightarrow> parser \<Rightarrow> parser presult option" where
  "expect k p = (if cur_kind p = k then bump_token p else failP ''unexpected token'' (t_start (ps_cur p)))"

definition eat :: "tok_kind \<Rightarrow> parser \<Rightarrow> (bool \<times> parser) presult option" where
  "eat k p = (if cur_kind p = k then bindP (bump_token p) (\<lambda>p. retP (True, p)) else retP (False, p))"

definition parse_ident :: "parser \<Rightarrow> (bytes \<times> parser) presult option" where
  "parse_ident p =
     (if cur_kind p = T_Ident then bindP (bump_token p) (\<lambda>p'. retP (t_lex (ps_cur p), p'))
      else failP ''expected identifier'' (t_start (ps_cur p)))"

text \<open>The value of decimal digits, if it is below the bound.\<close>

definition parse_number :: "nat \<Rightarrow> string \<Rightarrow> parser \<Rightarrow> (nat \<times> parser) presult option" where
  "parse_number bound msg p =
     bindP (bump_token p) (\<lambda>p'.
       let v = digits_value (t_lex (ps_cur p))
       in if v < bound then retP (v, p') else failP msg (t_start (ps_cur p)))"

definition parse_u64 :: "parser \<Rightarrow> (nat \<times> parser) presult option" where
  "parse_u64 p =
     (if cur_kind p = T_Int then parse_number (2 ^ 64) ''bad u64'' p
      else failP ''expected integer'' (t_start (ps_cur p)))"

text \<open>The content of a string literal; the last byte is taken off also when the literal has no end.\<close>

definition str_inner :: "bytes \<Rightarrow> bytes presult" where
  "str_inner lexeme =
     (if length lexeme < 2 then Inr []
      else if 128 \<le> last lexeme \<and> last lexeme < 192 then Inl Slice_Panic
      else Inr (butlast (tl lexeme)))"

definition agg_of :: "tok_kind \<Rightarrow> agg_fn option" where
  "agg_of k =
     (case k of
        Kw_Count \<Rightarrow> Some Fn_Count | Kw_Sum \<Rightarrow> Some Fn_Sum | Kw_Avg \<Rightarrow> Some Fn_Avg
      | Kw_Min \<Rightarrow> Some Fn_Min | Kw_Max \<Rightarrow> Some Fn_Max
      | Kw_ApproxCountDistinct \<Rightarrow> Some Fn_ApproxDistinct | _ \<Rightarrow> None)"

definition check_agg :: "agg_fn \<Rightarrow> bool \<Rightarrow> expr \<Rightarrow> parser \<Rightarrow> (expr \<times> parser) presult option" where
  "check_agg func dist arg p =
     (let at = t_start (ps_cur p) in
      if func \<noteq> Fn_Count \<and> dist \<and> func \<noteq> Fn_ApproxDistinct then
        failP ''DISTINCT only allowed with COUNT in v0'' at
      else if func \<noteq> Fn_Count \<and> arg = E_Star \<and> func \<noteq> Fn_ApproxDistinct then
        failP ''only COUNT can use *'' at
      else if func = Fn_ApproxDistinct \<and> arg = E_Star then
        failP ''approx_count_distinct requires a column argument'' at
      else retP (E_Agg func dist arg, p))"

definition bin_of :: "tok_kind \<Rightarrow> bin_op option" where
  "bin_of k = (case k of T_Plus \<Rightarrow> Some Op_Add | T_Minus \<Rightarrow> Some Op_Sub | _ \<Rightarrow> None)"

definition cmp_of :: "tok_kind \<Rightarrow> cmp_op option" where
  "cmp_of k =
     (case k of T_Eq \<Rightarrow> Some Cmp_Eq | T_Ne \<Rightarrow> Some Cmp_Ne | T_Lt \<Rightarrow> Some Cmp_Lt | T_Le \<Rightarrow> Some Cmp_Le
      | T_Gt \<Rightarrow> Some Cmp_Gt | T_Ge \<Rightarrow> Some Cmp_Ge | _ \<Rightarrow> None)"

text \<open>Both binary operators bind with 1 on the left and 2 on the right.\<close>

fun parse_expr_bp :: "nat \<Rightarrow> nat \<Rightarrow> parser \<Rightarrow> (expr \<times> parser) presult option"
  and binary_loop :: "nat \<Rightarrow> nat \<Rightarrow> expr \<Rightarrow> parser \<Rightarrow> (expr \<times> parser) presult option"
  and parse_primary :: "nat \<Rightarrow> parser \<Rightarrow> (expr \<times> parser) presult option"
  and parse_aggregate :: "nat \<Rightarrow> parser \<Rightarrow> (expr \<times> parser) presult option"
  and parse_expr_list :: "nat \<Rightarrow> parser \<Rightarrow> (expr list \<times> parser) presult option"
where
  "parse_expr_bp 0 min_bp p = None"
| "parse_expr_bp (Suc fuel) min_bp p =
     bindP (parse_primary fuel p) (\<lambda>(lhs, p). binary_loop fuel min_bp lhs p)"
| "binary_loop 0 min_bp lhs p = None"
| "binary_loop (Suc fuel) min_bp lhs p =
     (case bin_of (cur_kind p) of
        None \<Rightarrow> retP (lhs, p)
      | Some op \<Rightarrow>
          if 1 < min_bp then retP (lhs, p)
          else bindP (bump_token p) (\<lambda>p.
               bindP (parse_expr_bp fuel 2 p) (\<lambda>(rhs, p).
                 binary_loop fuel min_bp (E_Binary op lhs rhs) p)))"
| "parse_primary 0 p = None"
| "parse_primary (Suc fuel) p =
     (let k = cur_kind p in
      if k = T_Minus then
        bindP (bump_token p) (\<lambda>p. bindP (parse_expr_bp fuel 2 p) (\<lambda>(e, p).
          retP (E_Binary Op_Sub (E_Int 0) e, p)))
      else if k = T_Star then bindP (bump_token p) (\<lambda>p. retP (E_Star, p))
      else if k = T_Ident then
        bindP (parse_ident p) (\<lambda>(name, p).
          if cur_kind p = T_LParen then
            bindP (bump_token p) (\<lambda>p. bindP (parse_expr_list fuel p) (\<lambda>(args, p).
            bindP (expect T_RParen p) (\<lambda>p. retP (E_Call name args, p))))
          else retP (E_Ident name, p))
      else if k = T_Int then
        bindP (parse_number (2 ^ 63) ''bad int'' p) (\<lambda>(v, p). retP (E_Int (int v), p))
      else if k = T_Str then
        bindP (bump_token p) (\<lambda>p'. bindP (Some (str_inner (t_lex (ps_cur p)))) (\<lambda>inner. retP (E_Str inner, p')))
      else if agg_of k \<noteq> None then parse_aggregate fuel p
      else if k = T_LParen then
        bindP (bump_token p) (\<lambda>p. bindP (parse_expr_bp fuel 0 p) (\<lambda>(e, p).
        bindP (expect T_RParen p) (\<lambda>p. retP (e, p))))
      else failP ''expected expression'' (t_start (ps_cur p)))"
| "parse_aggregate 0 p = None"
| "parse_aggregate (Suc fuel) p =
     (case agg_of (cur_kind p) of
        None \<Rightarrow> failP ''expected aggregate'' (t_start (ps_cur p))
      | Some func \<Rightarrow>
          bindP (bump_token p) (\<lambda>p. bindP (expect T_LParen p) (\<lambda>p. bindP (eat Kw_Distinct p) (\<lambda>(dist, p).
          bindP (if cur_kind p = T_Star then bindP (bump_token p) (\<lambda>p. retP (E_Star, p))
                 else parse_expr_bp fuel 0 p) (\<lambda>(arg, p).
          bindP (expect T_RParen p) (\<lambda>p. check_agg func dist arg p))))))"
| "parse_expr_list 0 p = None"
| "parse_expr_list (Suc fuel) p =
     bindP (parse_expr_bp fuel 0 p) (\<lambda>(x, p).
     bindP (eat T_Comma p) (\<lambda>(more, p).
       if more then bindP (parse_expr_list fuel p) (\<lambda>(xs, p). retP (x # xs, p)) else retP ([x], p)))"

definition parse_predicate :: "nat \<Rightarrow> parser \<Rightarrow> (expr \<times> parser) presult option" where
  "parse_predicate fuel p =
     bindP (parse_expr_bp fuel 0 p) (\<lambda>(left, p).
     bindP (eat Kw_Not p) (\<lambda>(neg, p).
       if cur_kind p = Kw_Like then
         bindP (bump_token p) (\<lambda>p. bindP (parse_expr_bp fuel 0 p) (\<lambda>(pat, p). retP (E_Like left pat neg, p)))
       else if cur_kind p = Kw_In then
         bindP (bump_token p) (\<lambda>p. bindP (expect T_LParen p) (\<lambda>p.
         bindP (parse_expr_list fuel p) (\<lambda>(vals, p).
         bindP (expect T_RParen p) (\<lambda>p. retP (E_In left vals neg, p)))))
       else if neg then failP ''expected LIKE or IN after NOT'' (t_start (ps_cur p))
       else (case cmp_of (cur_kind p) of
           None \<Rightarrow> failP ''expected comparison operator'' (t_start (ps_cur p))
         | Some op \<Rightarrow>
             bindP (bump_token p) (\<lambda>p. bindP (parse_expr_bp fuel 0 p) (\<lambda>(right, p).
               retP (E_Compare op left right, p))))))"

fun and_loop :: "nat \<Rightarrow> expr \<Rightarrow> parser \<Rightarrow> (expr \<times> parser) presult option" where
  "and_loop 0 left p = None"
| "and_loop (Suc fuel) left p =
     (if cur_kind p = Kw_And then
        bindP (bump_token p) (\<lambda>p. bindP (parse_predicate fuel p) (\<lambda>(right, p). and_loop fuel (E_And left right) p))
      else retP (left, p))"

definition parse_and_predicate :: "nat \<Rightarrow> parser \<Rightarrow> (expr \<times> parser) presult option" where
  "parse_and_predicate fuel p = bindP (parse_predicate fuel p) (\<lambda>(left, p). and_loop fuel left p)"

fun parse_select_list :: "nat \<Rightarrow> parser \<Rightarrow> (select_item list \<times> parser) presult option" where
  "parse_select_list 0 p = None"
| "parse_select_list (Suc fuel) p =
     bindP (parse_expr_bp fuel 0 p) (\<lambda>(e, p).
     bindP (if cur_kind p = Kw_As then
              bindP (bump_token p) (\<lambda>p. bindP (parse_ident p) (\<lambda>(a, p). retP (Some a, p)))
            else retP (None, p)) (\<lambda>(alias, p).
     bindP (eat T_Comma p) (\<lambda>(more, p).
       let item = \<lparr> si_expr = e, si_alias = alias \<rparr> in
       if more then bindP (parse_select_list fuel p) (\<lambda>(items, p). retP (item # items, p))
       else retP ([item], p))))"

fun parse_order_list :: "nat \<Rightarrow> parser \<Rightarrow> (order_item list \<times> parser) presult option" where
  "parse_order_list 0 p = None"
| "parse_order_list (Suc fuel) p =
     bindP (parse_expr_bp fuel 0 p) (\<lambda>(e, p).
     bindP (if cur_kind p = Kw_Desc then bindP (bump_token p) (\<lambda>p. retP (True, p))
            else if cur_kind p = Kw_Asc then bindP (bump_token p) (\<lambda>p. retP (False, p))
            else retP (False, p)) (\<lambda>(desc, p).
     bindP (eat T_Comma p) (\<lambda>(more, p).
       let item = \<lparr> oi_expr = e, oi_desc = desc \<rparr> in
       if more then bindP (parse_order_list fuel p) (\<lambda>(items, p). retP (item # items, p))
       else retP ([item], p))))"

text \<open>A clause that starts with a keyword, or its default.\<close>

definition clause ::
  "tok_kind \<Rightarrow> 'a \<Rightarrow> (parser \<Rightarrow> ('a \<times> parser) presult option) \<Rightarrow> parser \<Rightarrow> ('a \<times> parser) presult option" where
  "clause k d f p = (if cur_kind p = k then bindP (bump_token p) f else retP (d, p))"

definition some_of :: "('a \<times> parser) presult option \<Rightarrow> ('a option \<times> parser) presult option" where
  "some_of r = bindP r (\<lambda>(x, p). retP (Some x, p))"

definition parse_query :: "nat \<Rightarrow> parser \<Rightarrow> query presult option" where
  "parse_query fuel p =
     bindP (expect Kw_Select p) (\<lambda>p.
     bindP (parse_select_list fuel p) (\<lambda>(items, p).
     bindP (expect Kw_From p) (\<lambda>p.
     bindP (parse_ident p) (\<lambda>(from_name, p).
     bindP (clause Kw_Where None (\<lambda>p. some_of (parse_and_predicate fuel p)) p) (\<lambda>(cond, p).
     bindP (clause Kw_Group [] (\<lambda>p. bindP (expect Kw_By p) (parse_expr_list fuel)) p) (\<lambda>(group_by, p).
     bindP (clause Kw_Having None (\<lambda>p. some_of (parse_and_predicate fuel p)) p) (\<lambda>(having, p).
     bindP (clause Kw_Order [] (\<lambda>p. bindP (expect Kw_By p) (parse_order_list fuel)) p) (\<lambda>(order_by, p).
     bindP (clause Kw_Offset None (\<lambda>p. some_of (parse_u64 p)) p) (\<lambda>(off, p).
     bindP (clause Kw_Limit None (\<lambda>p. some_of (parse_u64 p)) p) (\<lambda>(lim, p).
     bindP (eat T_Semi p) (\<lambda>(_, p).
     bindP (expect T_Eof p) (\<lambda>_.
       retP \<lparr> q_select = items, q_from = from_name, q_where = cond, q_group_by = group_by,
         q_having = having, q_order_by = order_by, q_offset = off, q_limit = lim \<rparr>))))))))))))"

definition parse_fuel :: "bytes \<Rightarrow> nat" where "parse_fuel s = 5 * length s + 10"

definition parse_sql_v0 :: "bytes \<Rightarrow> query presult option" where
  "parse_sql_v0 s = bindP (parser_new s) (parse_query (parse_fuel s))"

end
