(* ===== verification/Sql_Plan.thy ===== *)
theory Sql_Plan
  imports Sql_Parser Plan_Table
begin

text \<open>
  Applying a parsed query to a plan (\<^verbatim>\<open>wcol-decoder/src/sql_plan.rs\<close>) and the call
  \<^verbatim>\<open>plan_apply_sql\<close> of \<^verbatim>\<open>ffi/plan/lifecycle.rs\<close>. A step on the plan gives its status, 0 or the
  error code, with the plan, which keeps what was done before the error. The standard library's
  \<^verbatim>\<open>str::parse\<close> of numbers is written out: doubles are rounded to nearest from the exact value.
\<close>

section \<open>Numbers and dates in text\<close>

definition split_sign :: "bytes \<Rightarrow> bool \<times> bytes" where
  "split_sign s =
     (case s of [] \<Rightarrow> (False, [])
      | c # r \<Rightarrow> if c = 45 then (True, r) else if c = 43 then (False, r) else (False, s))"

text \<open>Of an unsigned type only a plus is a sign.\<close>

definition parse_int :: "int \<Rightarrow> int \<Rightarrow> bytes \<Rightarrow> int option" where
  "parse_int lo hi s =
     (let (neg, ds) = split_sign s; v = (if neg then - int (digits_value ds) else int (digits_value ds))
      in if neg \<and> 0 \<le> lo \<or> ds = [] \<or> \<not> list_all is_digit ds \<or> v < lo \<or> hi < v then None else Some v)"

definition scaled_decimal :: "bool \<Rightarrow> nat \<Rightarrow> int \<Rightarrow> f64" where
  "scaled_decimal neg m e =
     (if 0 \<le> e then f_of_frac neg (m * 10 ^ nat e) 1 else f_of_frac neg m (10 ^ nat (- e)))"

definition parse_exponent :: "bytes \<Rightarrow> int option" where
  "parse_exponent s =
     (case s of [] \<Rightarrow> Some 0
      | c # r \<Rightarrow>
          if c \<noteq> 101 \<and> c \<noteq> 69 then None
          else let (neg, ds) = split_sign r in
            if ds = [] \<or> \<not> list_all is_digit ds then None
            else Some (if neg then - int (digits_value ds) else int (digits_value ds)))"

definition parse_decimal :: "bool \<Rightarrow> bytes \<Rightarrow> f64 option" where
  "parse_decimal neg s =
     (let whole = takeWhile is_digit s; rest = dropWhile is_digit s;
          (frac, rest) = (case rest of [] \<Rightarrow> ([], [])
            | c # r \<Rightarrow> if c = 46 then (takeWhile is_digit r, dropWhile is_digit r) else ([], rest))
      in if whole = [] \<and> frac = [] then None
         else map_option (\<lambda>e. scaled_decimal neg (digits_value (whole @ frac)) (e - int (length frac)))
                (parse_exponent rest))"

definition parse_f64 :: "bytes \<Rightarrow> f64 option" where
  "parse_f64 s =
     (let (neg, r) = split_sign s in
      if eq_kw r ''inf'' \<or> eq_kw r ''infinity'' then Some (of_mag neg inf_mag)
      else if eq_kw r ''nan'' then Some (of_mag neg (mag f_nan))
      else parse_decimal neg r)"

text \<open>Division of \<^verbatim>\<open>i32\<close> values truncates.\<close>

definition trunc_div :: "int \<Rightarrow> int \<Rightarrow> int" where
  "trunc_div a b = (if a < 0 then - (- a div b) else a div b)"

definition days_from_civil :: "int \<Rightarrow> int \<Rightarrow> int \<Rightarrow> int" where
  "days_from_civil year m d =
     (let y = (if m \<le> 2 then year - 1 else year);
          era = trunc_div (if 0 \<le> y then y else y - 399) 400;
          yoe = y - era * 400;
          doy = trunc_div (153 * (m + (if 2 < m then - 3 else 9)) + 2) 5 + d - 1;
          doe = yoe * 365 + trunc_div yoe 4 - trunc_div yoe 100 + doy
      in era * 146097 + doe - 719468)"

definition parse_ymd_days_since_epoch :: "bytes \<Rightarrow> int option" where
  "parse_ymd_days_since_epoch s =
     (if length s \<noteq> 10 \<or> s ! 4 \<noteq> 45 \<or> s ! 7 \<noteq> 45 then None
      else
        Option.bind (parse_int (- (2 ^ 31)) (2 ^ 31 - 1) (slice s 0 4)) (\<lambda>year.
        Option.bind (parse_int 0 (2 ^ 32 - 1) (slice s 5 7)) (\<lambda>month.
        Option.bind (parse_int 0 (2 ^ 32 - 1) (slice s 8 10)) (\<lambda>day.
          if \<not> (1 \<le> month \<and> month \<le> 12) \<or> \<not> (1 \<le> day \<and> day \<le> 31) then None
          else Some (days_from_civil year month day)))))"

section \<open>Expressions of a condition\<close>

datatype filter_value = FV_F64 f64 | FV_Str bytes

datatype filter_expr =
    FE_Compare bytes cmp_op filter_value
  | FE_In bytes "filter_value list" bool
  | FE_Like bytes bytes bool

fun expr_to_col_name :: "expr \<Rightarrow> bytes option" where
  "expr_to_col_name (E_Ident name) = Some name"
| "expr_to_col_name _ = None"

fun expr_to_value :: "expr \<Rightarrow> filter_value option" where
  "expr_to_value (E_Int i) = Some (FV_F64 (f_of_int i))"
| "expr_to_value (E_Str s) = Some (FV_Str s)"
| "expr_to_value (E_Binary Op_Sub (E_Int i) (E_Int r)) =
     (if i = 0 then Some (FV_F64 (f_of_int (- r))) else None)"
| "expr_to_value _ = None"

definition or_else :: "'a option \<Rightarrow> 'a option \<Rightarrow> 'a option" where
  "or_else a b = (case a of None \<Rightarrow> b | Some x \<Rightarrow> Some x)"

fun collect_filters :: "expr \<Rightarrow> filter_expr list" where
  "collect_filters (E_And l r) = collect_filters l @ collect_filters r"
| "collect_filters (E_Compare oper left right) =
     (case (or_else (expr_to_col_name left) (expr_to_col_name right),
            or_else (expr_to_value right) (expr_to_value left)) of
        (Some col, Some v) \<Rightarrow> [FE_Compare col oper v]
      | _ \<Rightarrow> [])"
| "collect_filters (E_In left vs negated) =
     (case expr_to_col_name left of
        None \<Rightarrow> []
      | Some col \<Rightarrow>
          let vals = List.map_filter expr_to_value vs in if vals = [] then [] else [FE_In col vals negated])"
| "collect_filters (E_Like left pattern negated) =
     (case (expr_to_col_name left, pattern) of
        (Some col, E_Str pat) \<Rightarrow> [FE_Like col pat negated]
      | _ \<Rightarrow> [])"
| "collect_filters _ = []"

section \<open>Names and literals\<close>

definition find_col :: "bytes \<Rightarrow> runtime \<Rightarrow> u32 option" where
  "find_col name rt = map_option of_nat (find (\<lambda>i. c_name (r_schema rt ! i) = name) [0..<length (r_schema rt)])"

definition expr_to_col_id :: "expr \<Rightarrow> runtime \<Rightarrow> u32 option" where
  "expr_to_col_id e rt = Option.bind (expr_to_col_name e) (\<lambda>name. find_col name rt)"

definition col_name_to_id :: "bytes \<Rightarrow> runtime \<Rightarrow> int + u32" where
  "col_name_to_id name rt = (case find_col name rt of Some i \<Rightarrow> Inr i | None \<Rightarrow> Inl (- 3))"

text \<open>A number, or a text that is resolved when its dictionary is there.\<close>

definition resolve_value :: "filter_value \<Rightarrow> u32 \<Rightarrow> runtime \<Rightarrow> int + (f64 option \<times> bytes option)" where
  "resolve_value v col_id rt =
     (case v of
        FV_F64 f \<Rightarrow> Inr (Some f, None)
      | FV_Str s \<Rightarrow>
          (case get (r_schema rt) (unat col_id) of
             None \<Rightarrow> Inl (- 1)
           | Some col \<Rightarrow>
               let plain = c_logical col \<noteq> TYPE_STRING \<and> c_flags col AND FLAG_DICT = 0 in
               (case if plain then or_else (parse_f64 s) (map_option f_of_int (parse_ymd_days_since_epoch s)) else None of
                  Some f \<Rightarrow> Inr (Some f, None)
                | None \<Rightarrow>
                    (case r_dicts rt (c_dict_id col) of
                       Some dict \<Rightarrow> Inr (Some (literal_id dict s), None)
                     | None \<Rightarrow> Inr (None, Some s)))))"

fun cmp_op_to_u8 :: "cmp_op \<Rightarrow> u8" where
  "cmp_op_to_u8 Cmp_Eq = OP_EQ"
| "cmp_op_to_u8 Cmp_Ne = OP_NEQ"
| "cmp_op_to_u8 Cmp_Lt = OP_LT"
| "cmp_op_to_u8 Cmp_Le = OP_LTE"
| "cmp_op_to_u8 Cmp_Gt = OP_GT"
| "cmp_op_to_u8 Cmp_Ge = OP_GTE"

definition bindS :: "int + 'a \<Rightarrow> ('a \<Rightarrow> int + 'b) \<Rightarrow> int + 'b" where
  "bindS r f = (case r of Inl c \<Rightarrow> Inl c | Inr x \<Rightarrow> f x)"

text \<open>The values of an IN list: the numbers and the texts that wait for a dictionary.\<close>

fun resolve_list :: "filter_value list \<Rightarrow> u32 \<Rightarrow> runtime \<Rightarrow> int + (f64 list \<times> bytes list)" where
  "resolve_list [] col_id rt = Inr ([], [])"
| "resolve_list (v # vs) col_id rt =
     bindS (resolve_value v col_id rt) (\<lambda>(num, str).
     bindS (resolve_list vs col_id rt) (\<lambda>(nums, strs).
       Inr (case num of Some f \<Rightarrow> (f # nums, strs)
            | None \<Rightarrow> (case str of Some s \<Rightarrow> (nums, s # strs) | None \<Rightarrow> (f_of_int 0xffffffff # nums, strs)))))"

text \<open>\<^verbatim>\<open>trim_matches('%')\<close>\<close>

definition trim_percent :: "bytes \<Rightarrow> bytes" where
  "trim_percent s = rev (dropWhile (\<lambda>c. c = 37) (rev (dropWhile (\<lambda>c. c = 37) s)))"

definition plain_filter :: "u32 \<Rightarrow> u8 \<Rightarrow> filter_spec" where
  "plain_filter col_id oper =
     \<lparr> fl_col_id = col_id, fl_op = oper, fl_value = f_zero, fl_value2 = f_zero, fl_in_list = None,
       fl_value_str = None, fl_in_list_str = None, fl_like_ids = None \<rparr>"

fun convert_filter :: "filter_expr \<Rightarrow> runtime \<Rightarrow> int + filter_spec" where
  "convert_filter (FE_Compare col oper v) rt =
     bindS (col_name_to_id col rt) (\<lambda>col_id.
     bindS (resolve_value v col_id rt) (\<lambda>(num, str).
       let f = (case num of Some f \<Rightarrow> f | None \<Rightarrow> f_zero) in
       Inr ((plain_filter col_id (cmp_op_to_u8 oper))\<lparr> fl_value := f, fl_value2 := f, fl_value_str := str \<rparr>)))"
| "convert_filter (FE_In col vs negated) rt =
     (if negated then Inl (- 5)
      else bindS (col_name_to_id col rt) (\<lambda>col_id.
        bindS (resolve_list vs col_id rt) (\<lambda>(nums, strs).
          Inr ((plain_filter col_id OP_EQ)\<lparr> fl_in_list := if strs = [] then Some nums else None,
            fl_in_list_str := if strs = [] then None else Some strs \<rparr>))))"
| "convert_filter (FE_Like col pattern negated) rt =
     bindS (col_name_to_id col rt) (\<lambda>col_id.
       Inr ((plain_filter col_id (if negated then OP_NOT_LIKE else OP_LIKE))\<lparr> fl_value_str := Some (trim_percent pattern) \<rparr>))"


section \<open>Applying a query\<close>

definition ERR_UNSUPPORTED :: int where "ERR_UNSUPPORTED = - 1000"

definition then_do :: "int \<times> plan \<Rightarrow> (plan \<Rightarrow> int \<times> plan) \<Rightarrow> int \<times> plan" where
  "then_do r f = (case r of (code, p) \<Rightarrow> if code = 0 then f p else (code, p))"

definition cut_u32 :: "nat \<Rightarrow> u32" where "cut_u32 n = of_nat (min n (2 ^ 32 - 1))"

definition apply_window :: "query \<Rightarrow> plan \<Rightarrow> plan" where
  "apply_window q p =
     (let p = (case q_limit q of None \<Rightarrow> p | Some lim \<Rightarrow> p\<lparr> pl_limit := cut_u32 lim \<rparr>)
      in p\<lparr> pl_offset := cut_u32 (case q_offset q of None \<Rightarrow> 0 | Some off \<Rightarrow> off) \<rparr>)"

fun push_filters :: "runtime \<Rightarrow> filter_expr list \<Rightarrow> plan \<Rightarrow> int \<times> plan" where
  "push_filters rt [] p = (0, p)"
| "push_filters rt (f # fs) p =
     (case convert_filter f rt of
        Inl code \<Rightarrow> (code, p)
      | Inr fl \<Rightarrow> push_filters rt fs (p\<lparr> pl_filters := pl_filters p @ [fl] \<rparr>))"

text \<open>Comparisons with the empty string come first.\<close>

definition filter_rank :: "column list \<Rightarrow> filter_spec \<Rightarrow> nat" where
  "filter_rank schema fl =
     (let is_empty = fl_value_str fl = Some [] \<and> (fl_op fl = OP_EQ \<or> fl_op fl = OP_NEQ);
          is_string = (case get schema (unat (fl_col_id fl)) of None \<Rightarrow> False | Some col \<Rightarrow> c_logical col = TYPE_STRING)
      in if is_empty \<and> is_string \<and> fl_op fl = OP_NEQ then 0 else if is_empty \<and> is_string then 1 else 2)"

definition and_tokens :: "nat \<Rightarrow> int list" where
  "and_tokens n = [0, 1, COMB_AND] @ concat (map (\<lambda>i. [int i, COMB_AND]) [2..<n])"

definition order_filters :: "runtime \<Rightarrow> plan \<Rightarrow> plan" where
  "order_filters rt p =
     (if pl_combine p = [] \<and> 1 < length (pl_filters p) then
        p\<lparr> pl_filters := sort_key (filter_rank (r_schema rt)) (pl_filters p),
           pl_combine := and_tokens (length (pl_filters p)) \<rparr>
      else p)"

definition apply_where :: "query \<Rightarrow> runtime \<Rightarrow> plan \<Rightarrow> int \<times> plan" where
  "apply_where q rt p =
     (case q_where q of
        None \<Rightarrow> (0, p)
      | Some pred \<Rightarrow>
          then_do (push_filters rt (collect_filters pred) p)
            (\<lambda>p. (0, finalize_plan_filters (order_filters rt p) rt)))"

text \<open>The columns of GROUP BY: numbers are no key, a name that is not a column is passed over.\<close>

fun group_columns :: "runtime \<Rightarrow> u32 list \<Rightarrow> expr list \<Rightarrow> u32 list option" where
  "group_columns rt keys [] = Some keys"
| "group_columns rt keys (E_Int i # es) = group_columns rt keys es"
| "group_columns rt keys (E_Ident name # es) =
     (if 2 \<le> length keys then None
      else group_columns rt (case find_col name rt of None \<Rightarrow> keys | Some i \<Rightarrow> keys @ [i]) es)"
| "group_columns rt keys (e # es) = None"

definition apply_group_by :: "query \<Rightarrow> runtime \<Rightarrow> plan \<Rightarrow> int \<times> plan" where
  "apply_group_by q rt p =
     (case group_columns rt [] (q_group_by q) of
        None \<Rightarrow> (ERR_UNSUPPORTED, p)
      | Some [] \<Rightarrow> (0, p)
      | Some keys \<Rightarrow> (0, p\<lparr> pl_group_by := Some \<lparr> gb_keys = keys, gb_value_col = None,
          gb_value_kind = AGG_KIND_SUM, gb_count_kind = AGG_KIND_COUNT_STAR \<rparr> \<rparr>))"

definition apply_order_by :: "query \<Rightarrow> runtime \<Rightarrow> plan \<Rightarrow> plan" where
  "apply_order_by q rt p =
     (if q_order_by q = [] then p
      else if pl_group_by p \<noteq> None then p\<lparr> pl_group_order_by_count := True \<rparr>
      else p\<lparr> pl_row_order_by :=
        List.map_filter (\<lambda>item. expr_to_col_id (oi_expr item) rt) (take 2 (q_order_by q)) \<rparr>)"

text \<open>The argument of an aggregate: a column, or a column and a number that fits an \<^verbatim>\<open>i8\<close>.\<close>

definition small_offset :: "u32 option \<Rightarrow> int \<Rightarrow> (u32 \<times> u8) option" where
  "small_offset col off =
     Option.bind col (\<lambda>cid. if off < - 128 \<or> 127 < off then None else Some (cid, word_of_int off))"

fun agg_arg_to_col_id_and_offset :: "expr \<Rightarrow> runtime \<Rightarrow> (u32 \<times> u8) option" where
  "agg_arg_to_col_id_and_offset (E_Ident name) rt = map_option (\<lambda>cid. (cid, 0)) (find_col name rt)"
| "agg_arg_to_col_id_and_offset (E_Binary Op_Add (E_Ident name) (E_Int k)) rt = small_offset (find_col name rt) k"
| "agg_arg_to_col_id_and_offset (E_Binary Op_Sub (E_Ident name) (E_Int k)) rt = small_offset (find_col name rt) (- k)"
| "agg_arg_to_col_id_and_offset (E_Binary Op_Add (E_Int k) (E_Ident name)) rt = small_offset (find_col name rt) k"
| "agg_arg_to_col_id_and_offset _ rt = None"

fun agg_fn_kind :: "agg_fn \<Rightarrow> u8" where
  "agg_fn_kind Fn_Count = AGG_KIND_COUNT"
| "agg_fn_kind Fn_Sum = AGG_KIND_SUM"
| "agg_fn_kind Fn_Avg = AGG_KIND_AVG"
| "agg_fn_kind Fn_Min = AGG_KIND_MIN"
| "agg_fn_kind Fn_Max = AGG_KIND_MAX"
| "agg_fn_kind Fn_ApproxDistinct = AGG_KIND_APPROX_DISTINCT"

text \<open>What the loop over the SELECT list keeps beside the plan.\<close>

record select_state =
  ss_approx_col :: "u32 option"
  ss_count_star :: bool
  ss_other_agg :: bool

definition push_aggregate :: "u32 \<Rightarrow> u8 \<Rightarrow> u8 \<Rightarrow> bool \<Rightarrow> plan \<Rightarrow> plan" where
  "push_aggregate col_id kind offset has_group_by p =
     (let p = (if has_group_by
               then p\<lparr> pl_group_aggs := pl_group_aggs p @ [\<lparr> ga_col_id = col_id, ga_kind = kind \<rparr>] \<rparr> else p);
          key = agg_key_make col_id kind offset
      in if key \<in> set (pl_aggregates p) then p
         else let p = p\<lparr> pl_aggregates := pl_aggregates p @ [key] \<rparr> in
           if kind = AGG_KIND_APPROX_DISTINCT
           then p\<lparr> pl_hll_state := (pl_hll_state p)(key \<mapsto> hll_new_default) \<rparr>
           else p\<lparr> pl_agg_state := (pl_agg_state p)(key \<mapsto> agg_empty) \<rparr>)"

definition note_group_agg :: "agg_fn \<Rightarrow> u32 \<Rightarrow> select_state \<Rightarrow> select_state" where
  "note_group_agg func cid ss =
     (if func = Fn_ApproxDistinct
      then (if ss_approx_col ss = None then ss\<lparr> ss_approx_col := Some cid \<rparr> else ss)
      else ss\<lparr> ss_other_agg := True \<rparr>)"

definition select_aggregate ::
  "runtime \<Rightarrow> bool \<Rightarrow> agg_fn \<Rightarrow> expr \<Rightarrow> select_state \<times> plan \<Rightarrow> int \<times> select_state \<times> plan" where
  "select_aggregate rt has_group_by func arg st =
     (case st of (ss, p) \<Rightarrow>
      if func = Fn_Count \<and> arg = E_Star then
        (0, if has_group_by then ss\<lparr> ss_count_star := True \<rparr> else ss,
         push_aggregate ROW_COUNT_COL_ID AGG_KIND_COUNT_STAR 0 has_group_by p)
      else case agg_arg_to_col_id_and_offset arg rt of
          None \<Rightarrow> (ERR_UNSUPPORTED, ss, p)
        | Some (cid, off) \<Rightarrow>
            (case get (r_schema rt) (unat cid) of
               None \<Rightarrow> (0, ss, p)
             | Some col \<Rightarrow>
                 let ss = (if has_group_by then note_group_agg func cid ss else ss) in
                 if func \<noteq> Fn_ApproxDistinct \<and> (c_flags col AND FLAG_DICT \<noteq> 0 \<or> c_logical col = TYPE_STRING)
                 then (0, ss, p)
                 else (0, ss, push_aggregate cid (agg_fn_kind func) off has_group_by p)))"

definition select_column :: "runtime \<Rightarrow> bool \<Rightarrow> expr \<Rightarrow> plan \<Rightarrow> plan" where
  "select_column rt has_group_by e p =
     (if has_group_by then p
      else case expr_to_col_id e rt of
          None \<Rightarrow> p
        | Some i \<Rightarrow> if i \<in> set (pl_select_cols p) then p else p\<lparr> pl_select_cols := pl_select_cols p @ [i] \<rparr>)"

definition select_step :: "runtime \<Rightarrow> bool \<Rightarrow> expr \<Rightarrow> select_state \<times> plan \<Rightarrow> int \<times> select_state \<times> plan" where
  "select_step rt has_group_by e st =
     (case e of
        E_Agg func unique arg \<Rightarrow> select_aggregate rt has_group_by func arg st
      | _ \<Rightarrow> (0, fst st, select_column rt has_group_by e (snd st)))"

fun select_loop :: "runtime \<Rightarrow> bool \<Rightarrow> select_item list \<Rightarrow> select_state \<times> plan \<Rightarrow> int \<times> select_state \<times> plan" where
  "select_loop rt has_group_by [] st = (0, st)"
| "select_loop rt has_group_by (item # items) st =
     (case select_step rt has_group_by (si_expr item) st of (code, st) \<Rightarrow>
        if code = 0 then select_loop rt has_group_by items st else (code, st))"

definition finish_group_by :: "select_state \<Rightarrow> group_by \<Rightarrow> group_by" where
  "finish_group_by ss gb =
     (let gb = (case ss_approx_col ss of
            None \<Rightarrow> gb
          | Some cid \<Rightarrow>
              let gb = gb\<lparr> gb_value_col := Some cid, gb_value_kind := AGG_KIND_APPROX_DISTINCT \<rparr> in
              if \<not> ss_count_star ss \<and> \<not> ss_other_agg ss
              then gb\<lparr> gb_count_kind := AGG_KIND_APPROX_DISTINCT \<rparr> else gb)
      in if ss_count_star ss then gb\<lparr> gb_count_kind := AGG_KIND_COUNT_STAR \<rparr> else gb)"

definition apply_select :: "query \<Rightarrow> runtime \<Rightarrow> plan \<Rightarrow> int \<times> plan" where
  "apply_select q rt p =
     (case select_loop rt (pl_group_by p \<noteq> None) (q_select q)
             (\<lparr> ss_approx_col = None, ss_count_star = False, ss_other_agg = False \<rparr>, p) of
        (code, ss, p) \<Rightarrow>
          if code = 0 then (0, p\<lparr> pl_group_by := map_option (finish_group_by ss) (pl_group_by p) \<rparr>) else (code, p))"

definition apply_query_to_plan :: "bool \<Rightarrow> nat \<Rightarrow> query \<Rightarrow> plan \<Rightarrow> runtime \<Rightarrow> int \<times> plan" where
  "apply_query_to_plan hist_disabled hist_max q p rt =
     (if q_having q \<noteq> None then (ERR_UNSUPPORTED, p)
      else
        then_do (apply_where q rt (apply_window q p)) (\<lambda>p.
        then_do (apply_group_by q rt p) (\<lambda>p.
        then_do (apply_select q rt (apply_order_by q rt p)) (\<lambda>p.
          (0, try_enable_group_dict_histogram hist_disabled hist_max p rt)))))"

section \<open>The call\<close>

text \<open>\<open>None\<close> is a parser that does not return.\<close>

definition plan_apply_sql ::
  "bool \<Rightarrow> nat \<Rightarrow> bytes \<Rightarrow> runtimes \<Rightarrow> plans \<Rightarrow> u32 \<Rightarrow> (int \<times> plans) result option" where
  "plan_apply_sql hist_disabled hist_max sql rts plans handle =
     (case from_utf8 sql of
        None \<Rightarrow> Some (Ok (- 2, plans))
      | Some text \<Rightarrow>
          (case parse_sql_v0 text of
             None \<Rightarrow> None
           | Some (Inl (Parse_Error msg at)) \<Rightarrow> Some (Ok (- 3, plans))
           | Some (Inl Slice_Panic) \<Rightarrow> Some (Err Panic)
           | Some (Inr q) \<Rightarrow>
               (case plans handle of
                  None \<Rightarrow> Some (Ok (- 1, plans))
                | Some p \<Rightarrow>
                    (case rts (pl_runtime p) of
                       None \<Rightarrow> Some (Ok (- 1, plans))
                     | Some rt \<Rightarrow>
                         let (code, p) = apply_query_to_plan hist_disabled hist_max q p rt
                         in Some (Ok (code, plans(handle \<mapsto> p)))))))"

end
