(* ===== verification/Plan_Invariant.thy ===== *)
theory Plan_Invariant
  imports Chunk_Facts Sql_Plan
begin

text \<open>
  The table of plans keeps its invariant under every call: the list of group keys has the keys
  of the group map once each, every aggregate of a plan has its state, and the histogram is as
  long as its dictionary. The calls are the steps of a relation; a chunk that fails leaves its
  plan half-updated and ends the run.
\<close>

section \<open>The invariant\<close>

definition groups_ok :: "group_key list \<Rightarrow> (group_key \<rightharpoonup> group_state) \<Rightarrow> (group_key \<rightharpoonup> bytes) \<Rightarrow> bool" where
  "groups_ok keys groups repr \<longleftrightarrow> distinct keys \<and> set keys = dom groups \<and> dom repr \<subseteq> dom groups"

definition aggs_ok :: "u32 list \<Rightarrow> (u32 \<rightharpoonup> agg_state) \<Rightarrow> bool" where
  "aggs_ok keys states \<longleftrightarrow>
     (\<forall>key \<in> set keys. agg_key_kind key \<noteq> AGG_KIND_APPROX_DISTINCT \<longrightarrow> key \<in> dom states)"

definition hist_ok :: "u32 \<Rightarrow> u32 list option \<Rightarrow> bool" where
  "hist_ok n counts \<longleftrightarrow> (case counts of None \<Rightarrow> n = 0 | Some c \<Rightarrow> unat n < length c)"

definition plan_ok :: "plan \<Rightarrow> bool" where
  "plan_ok p \<longleftrightarrow> groups_ok (pl_group_keys p) (pl_group_state p) (pl_group_key_repr p) \<and>
     aggs_ok (pl_aggregates p) (pl_agg_state p) \<and> hist_ok (pl_hist_dict_len p) (pl_hist_counts p)"

definition plans_ok :: "plans \<Rightarrow> bool" where
  "plans_ok plans \<longleftrightarrow> (\<forall>p \<in> ran plans. plan_ok p)"

text \<open>What the invariant depends on.\<close>

definition plan_core ::
  "plan \<Rightarrow> (group_key list \<times> (group_key \<rightharpoonup> group_state) \<times> (group_key \<rightharpoonup> bytes)) \<times>
     (u32 list \<times> (u32 \<rightharpoonup> agg_state)) \<times> (u32 \<times> u32 list option)" where
  "plan_core p = ((pl_group_keys p, pl_group_state p, pl_group_key_repr p),
     (pl_aggregates p, pl_agg_state p), (pl_hist_dict_len p, pl_hist_counts p))"

lemma plan_ok_core: "plan_core p = plan_core p' \<Longrightarrow> plan_ok p \<Longrightarrow> plan_ok p'"
  by (simp add: plan_core_def plan_ok_def)

lemma groups_ok_upd:
  "groups_ok keys groups repr \<Longrightarrow> groups k = Some g \<Longrightarrow> groups_ok keys (groups(k \<mapsto> g')) repr"
  by (auto simp: groups_ok_def)

lemma groups_ok_new:
  "groups_ok keys groups repr \<Longrightarrow> groups k = None \<Longrightarrow> groups_ok (keys @ [k]) (groups(k \<mapsto> g)) repr"
  by (auto simp: groups_ok_def)

lemma groups_ok_repr:
  "groups_ok keys groups repr \<Longrightarrow> groups k \<noteq> None \<Longrightarrow> groups_ok keys groups (repr(k \<mapsto> r))"
  by (auto simp: groups_ok_def)

lemma aggs_ok_mono: "aggs_ok keys m \<Longrightarrow> dom m \<subseteq> dom m' \<Longrightarrow> aggs_ok keys m'"
  by (auto simp: aggs_ok_def)

section \<open>The execution of a chunk\<close>

lemma decode_column_plan: "decode_column d col raw rows ex = Ok ex' \<Longrightarrow> ex_plan ex' = ex_plan ex"
  by (auto simp: decode_column_def)

lemma apply_col_nulls_plan: "apply_col_nulls ex col c m = Ok (m', ex') \<Longrightarrow> ex_plan ex' = ex_plan ex"
  by (auto simp: apply_col_nulls_def Let_def split_beta split: if_splits)

lemma decoded_filter_mask_plan:
  "decoded_filter_mask d pages rows ex col fl = Ok (m, ex') \<Longrightarrow> ex_plan ex' = ex_plan ex"
  by (auto simp: decoded_filter_mask_def Let_def split_beta dest: decode_column_plan)

lemma filter_chunk_mask_plan:
  assumes "filter_chunk_mask d schema pages rows c ex fl = Ok (m, fl', ex')"
  shows "ex_plan ex' = ex_plan ex"
  using assms
  by (auto simp: filter_chunk_mask_def raw_like_mask_def Let_def split: if_splits option.splits
      dest!: decoded_filter_mask_plan apply_col_nulls_plan)

lemma filter_step_core:
  assumes "filter_step d schema pages rows c st idx = Ok st'"
  shows "plan_core (ex_plan (snd st')) = plan_core (ex_plan (snd st))"
  using assms filter_chunk_mask_plan
  by (cases st) (fastforce simp: filter_step_def Let_def plan_core_def)

lemma set_agg_ok: "set_agg ex key f = Ok ex' \<Longrightarrow> plan_ok (ex_plan ex) \<Longrightarrow> plan_ok (ex_plan ex')"
  by (auto simp: set_agg_def plan_ok_def intro: aggs_ok_mono)

lemma hll_chunk_core:
  "hll_chunk xxh col data combined rows key ex = Ok ex' \<Longrightarrow>
     plan_core (ex_plan ex') = plan_core (ex_plan ex)"
  by (auto simp: hll_chunk_def plan_core_def dest!: apply_col_nulls_plan)

lemma aggregate_step_ok:
  assumes "aggregate_step xxh d schema pages combined rows st key = Ok st'" "plan_ok (ex_plan (fst st))"
  shows "plan_ok (ex_plan (fst st'))"
proof -
  obtain ex cached where st: "st = (ex, cached)" by (cases st)
  show ?thesis
  proof (cases "agg_key_kind key = AGG_KIND_COUNT_STAR")
    case True
    with assms st show ?thesis by (auto simp: aggregate_step_def Let_def dest: set_agg_ok)
  next
    case kind: False
    obtain col raw ex1 data where ex1: "decode_column d col raw rows ex = Ok ex1"
      and rest: "(if agg_key_kind key = AGG_KIND_APPROX_DISTINCT then
            bindR (hll_chunk xxh col data combined rows key ex1) (\<lambda>ex. Ok (ex, cached))
          else
            bindR (case cached of
                     Some (c, partial) \<Rightarrow>
                       if c = agg_key_col_id key then Ok (partial, ex1)
                       else bindR (apply_col_nulls ex1 col (agg_key_col_id key) combined) (\<lambda>(msk, ex).
                              bindR (aggregate_column col data msk rows) (\<lambda>p. Ok (p, ex)))
                   | None \<Rightarrow>
                       bindR (apply_col_nulls ex1 col (agg_key_col_id key) combined) (\<lambda>(msk, ex).
                         bindR (aggregate_column col data msk rows) (\<lambda>p. Ok (p, ex)))) (\<lambda>(partial, ex).
            bindR (set_agg ex key (\<lambda>s. merge_agg_by_kind s partial (agg_key_kind key))) (\<lambda>ex.
              Ok (ex, Some (agg_key_col_id key, partial))))) = Ok st'"
      using assms(1) kind by (auto simp: aggregate_step_def Let_def st)
    have ok1: "plan_ok (ex_plan ex1)" using assms(2) decode_column_plan [OF ex1] st by simp
    show ?thesis
    proof (cases "agg_key_kind key = AGG_KIND_APPROX_DISTINCT")
      case True
      with rest obtain ex2 where "hll_chunk xxh col data combined rows key ex1 = Ok ex2" "fst st' = ex2"
        by auto
      then show ?thesis using plan_ok_core [OF _ ok1] hll_chunk_core by metis
    next
      case False
      with rest obtain partial ex2 ex3 where ex2: "ex_plan ex2 = ex_plan ex1"
        and ex3: "set_agg ex2 key (\<lambda>s. merge_agg_by_kind s partial (agg_key_kind key)) = Ok ex3" "fst st' = ex3"
        by (auto split: option.splits if_splits dest!: apply_col_nulls_plan)
      then show ?thesis using set_agg_ok [OF ex3(1)] ok1 by simp
    qed
  qed
qed

lemma decode_group_col_plan:
  "decode_group_col a b d schema pages rows ex c = Ok (col, ex') \<Longrightarrow> ex_plan ex' = ex_plan ex"
  by (auto simp: decode_group_col_def dest: decode_column_plan)

lemma group_key_step_plan:
  "group_key_step d schema pages rows st c = Ok st' \<Longrightarrow> ex_plan (snd st') = ex_plan (snd st)"
  by (cases st) (auto simp: group_key_step_def split_beta dest!: decode_group_col_plan)

lemma agg_input_step_plan:
  "agg_input_step schema st agg = Ok st' \<Longrightarrow> ex_plan (snd st') = ex_plan (snd st)"
  by (cases st) (auto simp: agg_input_step_def Let_def split_beta split: if_splits)

lemma collision_free_state: "emit_raw_row gc p row = Ok p' \<Longrightarrow> plan_core p' = plan_core p"
  by (auto simp: emit_raw_row_def plan_core_def Let_def split_beta)

lemma group_entry_ok:
  assumes "group_entry p key repr = (g, p')" "plan_ok p"
  shows "plan_ok p' \<and> pl_group_state p' key = Some g"
proof (cases "pl_group_state p key")
  case None
  have ok: "groups_ok (pl_group_keys p @ [key]) ((pl_group_state p)(key \<mapsto> g)) (pl_group_key_repr p)"
    using assms(2) None by (auto simp: plan_ok_def intro: groups_ok_new)
  have "groups_ok (pl_group_keys p @ [key]) ((pl_group_state p)(key \<mapsto> g)) ((pl_group_key_repr p)(key \<mapsto> r))" for r
    by (rule groups_ok_repr [OF ok]) simp
  with ok assms None show ?thesis
    by (auto simp: group_entry_def plan_ok_def Let_def split: option.splits)
next
  case (Some g')
  with assms show ?thesis by (simp add: group_entry_def)
qed

lemma group_row_ok:
  assumes "group_row gc p row = Ok p'" "plan_ok p"
  shows "plan_ok p'"
proof -
  obtain key repr aggs where p': "p' = (let (g, p1) = group_entry p key repr
      in p1\<lparr> pl_group_state := (pl_group_state p1)(key \<mapsto> g\<lparr> gs_aggs := aggs \<rparr>) \<rparr>)"
    using assms(1) by (auto simp: group_row_def Let_def split_beta)
  obtain g p1 where e: "group_entry p key repr = (g, p1)" by (meson surj_pair)
  have "plan_ok p1" "pl_group_state p1 key = Some g" using group_entry_ok [OF e assms(2)] by auto
  then show ?thesis by (auto simp: p' e plan_ok_def intro: groups_ok_upd)
qed

lemma process_group_row_ok:
  assumes "process_group_row gc nulls p row = Ok p'" "plan_ok p"
  shows "plan_ok p'"
  using assms group_row_ok plan_ok_core [OF _ assms(2), of p'] collision_free_state [of gc p row p']
  by (auto simp: process_group_row_def split: if_splits)

lemma count_row_length: "count_row data nulls counts row = Ok counts' \<Longrightarrow> length counts' = length counts"
  by (auto simp: count_row_def split: if_splits option.splits)

lemma hist_count_masked_length:
  assumes "hist_count_dict_column_masked counts data msk rows nulls = Ok counts'"
  shows "length counts' = length counts"
  using assms
    foldR_keeps [where P = "\<lambda>c. length c = length counts" and f = "count_row data nulls" and s = counts]
    count_row_length
  by (fastforce simp: hist_count_dict_column_masked_def)

lemma bump_length: "length (foldl bump_count counts xs) = length counts"
  by (induction xs arbitrary: counts) simp_all

lemma hist_count_values_length:
  assumes "hist_count_values counts vs msk rows = Ok counts'"
  shows "length counts' = length counts"
proof -
  have all: "length c = length counts" if "foldR (\<lambda>c v. Ok (bump_count c (unat (v :: 'a word)))) counts xs = Ok c" for c xs
    using that by (rule foldR_keeps) (auto simp: length_bump)
  have at: "length c = length counts"
    if "foldR (\<lambda>c i. bindR (index vs i) (\<lambda>v. Ok (bump_count c (unat v)))) counts xs = Ok c" for c xs
    using that by (rule foldR_keeps) (auto simp: length_bump)
  show ?thesis using assms all at
    by (auto simp: hist_count_values_def for_each_value_def split: if_splits)
qed

lemma hist_count_length:
  assumes "hist_count_dict_column counts data msk rows nulls = Ok counts'"
  shows "length counts' = length counts"
  using assms
  by (auto simp: hist_count_dict_column_def split: if_splits column_data.splits
      dest: hist_count_masked_length hist_count_values_length)

lemma histogram_phase_ok:
  assumes "histogram_phase schema combined rows nulls keys ex = Ok ex'" "plan_ok (ex_plan ex)"
  shows "plan_ok (ex_plan ex')"
proof -
  obtain counts data counts' sums where c: "pl_hist_counts (ex_plan ex) = Some counts"
    and c': "hist_count_dict_column counts data combined rows nulls = Ok counts'"
    and ex': "ex' = ex\<lparr> ex_plan := (ex_plan ex)\<lparr> pl_hist_counts := Some counts', pl_hist_sums := sums \<rparr> \<rparr>"
    using assms(1) by (auto simp: histogram_phase_def Let_def split_beta)
  show ?thesis using assms(2) c hist_count_length [OF c']
    by (auto simp: ex' plan_ok_def hist_ok_def)
qed

lemma group_phase_ok:
  assumes "group_phase xxh seeded d schema pages combined full rows gb ex = Ok ex'" "plan_ok (ex_plan ex)"
  shows "plan_ok (ex_plan ex')"
proof -
  obtain nulls ex1 ex2 inputs ex3 keys where
      s1: "foldR (group_key_step d schema pages rows) ([], ex) (gb_keys gb) = Ok (nulls, ex1)"
    and s2: "foldR (\<lambda>ex col_id. bindR (decode_group_col (- 14) (- 15) d schema pages rows ex col_id)
              (\<lambda>(col, ex). Ok ex)) ex1 (group_agg_columns (pl_group_aggs (ex_plan ex1))) = Ok ex2"
    and s3: "foldR (agg_input_step schema) ([], ex2) (pl_group_aggs (ex_plan ex2)) = Ok (inputs, ex3)"
    and rest: "(if plan_uses_group_dict_histogram (ex_plan ex3) then
         histogram_phase schema combined rows nulls keys ex3
       else
         let gc = \<lparr> gc_xxh = xxh, gc_seeded = seeded, gc_keys = keys, gc_inputs = inputs,
                    gc_dicts = r_dicts (ex_runtime ex3) \<rparr>
         in bindR (foldR (process_group_row gc nulls) (ex_plan ex3)
                     (phase_rows combined full rows)) (\<lambda>plan.
              Ok (ex3\<lparr> ex_plan := plan \<rparr>))) = Ok ex'"
    using assms(1) unfolding group_phase_def bindR_eq_Ok by (auto simp del: Let_def)
  have "ex_plan (snd (nulls, ex1)) = ex_plan ex"
    by (rule foldR_keeps [OF s1]) (auto dest: group_key_step_plan)
  moreover have "ex_plan ex2 = ex_plan ex1"
    by (rule foldR_keeps [OF s2]) (auto dest: decode_group_col_plan)
  moreover have "ex_plan (snd (inputs, ex3)) = ex_plan ex2"
    by (rule foldR_keeps [OF s3]) (auto dest: agg_input_step_plan)
  ultimately have ok: "plan_ok (ex_plan ex3)" using assms(2) by simp
  show ?thesis
  proof (cases "plan_uses_group_dict_histogram (ex_plan ex3)")
    case True
    with rest ok show ?thesis by (auto dest: histogram_phase_ok)
  next
    case False
    with rest obtain gc plan where p: "foldR (process_group_row gc nulls) (ex_plan ex3)
        (phase_rows combined full rows) = Ok plan" "ex_plan ex' = plan"
      by (auto simp: Let_def)
    from p(1) ok have "plan_ok plan" by (rule foldR_keeps) (rule process_group_row_ok)
    with p(2) show ?thesis by simp
  qed
qed

lemma add_order_col_plan: "ex_plan (fst (add_order_col schema st c)) = ex_plan (fst st)"
  by (auto simp: add_order_col_def Let_def split_beta split: option.splits)

lemma add_order_cols_plan: "ex_plan (fst (foldl (add_order_col schema) st cs)) = ex_plan (fst st)"
  by (induction cs arbitrary: st) (simp_all add: add_order_col_plan)

lemma decode_order_col_plan: "decode_order_col d schema pages rows ex c = Ok ex' \<Longrightarrow> ex_plan ex' = ex_plan ex"
  by (auto simp: decode_order_col_def split: option.splits dest: decode_column_plan)

lemma row_phase_core:
  assumes "execute_row_phase d schema pages combined full rows c n ex = Ok ex'"
  shows "plan_core (ex_plan ex') = plan_core (ex_plan ex)"
proof (cases "pl_limit (ex_plan ex) \<noteq> 0 \<and> pl_row_order_by (ex_plan ex) \<noteq> []")
  case True
  let ?order = "take 2 (pl_row_order_by (ex_plan ex))"
  let ?ex = "ex\<lparr> ex_plan := ensure_row_order_lex_ranks (ex_plan ex) (r_dicts (ex_runtime ex)) schema
      (dedup_first [] ?order) \<rparr>"
  obtain ex1 heap where
      s1: "foldR (decode_order_col d schema pages rows) ?ex (dedup_first [] ?order) = Ok ex1"
    and ex': "ex' = (let (ex, cols) = foldl (add_order_col schema) (ex1, []) ?order
        in ex\<lparr> ex_plan := (ex_plan ex)\<lparr> pl_row_heap := heap \<rparr> \<rparr>)"
    using assms True by (auto simp: execute_row_phase_def Let_def split_beta)
  have "ex_plan ex1 = ex_plan ?ex"
    by (rule foldR_keeps [OF s1]) (auto dest: decode_order_col_plan)
  moreover have "ex_plan (fst (foldl (add_order_col schema) (ex1, []) ?order)) = ex_plan ex1"
    by (simp add: add_order_cols_plan)
  ultimately show ?thesis
    by (simp add: ex' split_beta plan_core_def ensure_row_order_lex_ranks_def)
next
  case False
  with assms show ?thesis by (auto simp: execute_row_phase_def Let_def plan_core_def split: if_splits)
qed

lemma exec_pages_ok:
  assumes "exec_pages xxh seeded d c n rows pages plan rt = Ok (code, ex')" "plan_ok plan"
  shows "plan_ok (ex_plan ex')"
proof -
  let ?ex = "\<lparr> ex_plan = plan, ex_runtime = rt, ex_decoded = Map.empty,
                 ex_nulls = null_cache_new (null_pages pages) rows \<rparr>"
  obtain masks ex1 combined where
      s1: "foldR (filter_step d (r_schema rt) pages rows c) ([], ?ex) [0..<length (pl_filters plan)] = Ok (masks, ex1)"
    and rest: "(if mask_is_zero combined then Ok (0, ex1)
        else
          bindR (mask_is_full combined rows) (\<lambda>combined_full.
          bindR (foldR (aggregate_step xxh d (r_schema rt) pages combined rows) (ex1, None)
                   (pl_aggregates (ex_plan ex1))) (\<lambda>(ex, _).
          bindR (case pl_group_by (ex_plan ex) of
                   None \<Rightarrow> Ok ex
                 | Some gb \<Rightarrow> group_phase xxh seeded d (r_schema rt) pages combined combined_full rows gb ex)
            (\<lambda>ex.
          bindR (execute_row_phase d (r_schema rt) (data_pages pages) combined combined_full rows
                   c n ex) (\<lambda>ex.
            Ok (sint (mask_count combined), ex)))))) = Ok (code, ex')"
    using assms(1) unfolding exec_pages_def bindR_eq_Ok Let_def by auto
  have "plan_core (ex_plan (snd (masks, ex1))) = plan_core plan"
    by (rule foldR_keeps [OF s1]) (auto dest: filter_step_core)
  then have ok1: "plan_ok (ex_plan ex1)" using plan_ok_core [OF _ assms(2), of "ex_plan ex1"] by simp
  show ?thesis
  proof (cases "mask_is_zero combined")
    case True
    with rest ok1 show ?thesis by simp
  next
    case False
    with rest obtain full ex2 cached ex3 where
        s2: "foldR (aggregate_step xxh d (r_schema rt) pages combined rows) (ex1, None)
               (pl_aggregates (ex_plan ex1)) = Ok (ex2, cached)"
      and s3: "(case pl_group_by (ex_plan ex2) of None \<Rightarrow> Ok ex2
          | Some gb \<Rightarrow> group_phase xxh seeded d (r_schema rt) pages combined full rows gb ex2) = Ok ex3"
      and s4: "execute_row_phase d (r_schema rt) (data_pages pages) combined full rows c n ex3 = Ok ex'"
      by auto
    have "plan_ok (ex_plan (fst (ex2, cached)))"
      by (rule foldR_keeps [OF s2]) (use ok1 in \<open>auto dest: aggregate_step_ok\<close>)
    then have "plan_ok (ex_plan ex3)"
      using s3 by (auto split: option.splits dest: group_phase_ok)
    then show ?thesis by (rule plan_ok_core [OF row_phase_core [OF s4, symmetric]])
  qed
qed

lemma plans_okI: "plans_ok plans \<Longrightarrow> plan_ok p \<Longrightarrow> plans_ok (plans(h \<mapsto> p))"
  by (auto simp: plans_ok_def ran_def)

lemma plans_okD: "plans_ok plans \<Longrightarrow> plans h = Some p \<Longrightarrow> plan_ok p"
  by (auto simp: plans_ok_def ran_def)

lemma plan_exec_chunk_ok:
  assumes "plan_exec_chunk decompress xxh seeded d rts plans rh ph c descs data = Ok (code, rts', plans')"
    and "plans_ok plans"
  shows "plans_ok plans'"
  using assms(1) assms(2) plans_okD [OF assms(2)]
  by (auto simp: plan_exec_chunk_def Let_def split: if_splits dest!: exec_pages_ok intro!: plans_okI)

section \<open>The other calls\<close>

lemma update_plan_ok:
  assumes "plans_ok plans" "\<And>p. plan_ok p \<Longrightarrow> plan_ok (f p)"
  shows "plans_ok (snd (update_plan plans h f))"
  using assms plans_okD [OF assms(1)] by (auto simp: update_plan_def split: option.splits intro!: plans_okI)

lemma core_updates_ok:
  assumes "plan_ok p"
  shows "plan_ok (p\<lparr> pl_limit := a \<rparr>)" "plan_ok (p\<lparr> pl_offset := a \<rparr>)"
    "plan_ok (p\<lparr> pl_group_order_by_count := b \<rparr>)" "plan_ok (p\<lparr> pl_group_emit_raw := b \<rparr>)"
    "plan_ok (p\<lparr> pl_combine := l \<rparr>)" "plan_ok (p\<lparr> pl_filters := fs \<rparr>)"
    "plan_ok (p\<lparr> pl_group_by := g, pl_group_aggs := gs \<rparr>)" "plan_ok (p\<lparr> pl_rows := rs \<rparr>)"
    "plan_ok (p\<lparr> pl_row_heap := hs \<rparr>)"
  using assms by (simp_all add: plan_ok_def)

lemma plan_new_ok: "plan_ok (plan_new h)"
  by (simp add: plan_ok_def plan_new_def groups_ok_def aggs_ok_def hist_ok_def)

lemma clear_plan_ok: "plan_ok (clear_plan p)"
  by (simp add: plan_ok_def clear_plan_def groups_ok_def aggs_ok_def hist_ok_def)

lemma reset_results_ok: "plan_ok p \<Longrightarrow> plan_ok (reset_results p)"
  by (auto simp: plan_ok_def reset_results_def groups_ok_def aggs_ok_def hist_ok_def
      split: option.splits)

lemma enable_histogram_ok:
  assumes "plan_ok p" shows "plan_ok (try_enable_group_dict_histogram disabled max_dict p rt)"
proof -
  have "unat (of_nat n :: u32) < n + 1" for n by (simp add: unat_of_nat le_imp_less_Suc)
  then show ?thesis using assms
    by (auto simp: plan_ok_def try_enable_group_dict_histogram_def enable_hist_sums_def Let_def hist_ok_def
        split: option.splits)
qed

lemma add_aggregate_ok:
  assumes "plans_ok plans" shows "plans_ok (snd (plan_add_aggregate rts plans h c))"
proof -
  have "aggs_ok (keys @ [k]) (entry_or m k v)" if "aggs_ok keys m" for keys m k v
    using that by (auto simp: aggs_ok_def entry_or_def split: option.splits)
  then have "plan_ok (p\<lparr> pl_aggregates := pl_aggregates p @ [k], pl_agg_state := entry_or (pl_agg_state p) k v \<rparr>)"
    if "plan_ok p" for p k v using that by (simp add: plan_ok_def)
  with assms plans_okD [OF assms] show ?thesis
    by (auto simp: plan_add_aggregate_def Let_def split: option.splits intro!: plans_okI)
qed

lemma init_reducer_ok: "dom (foldl (\<lambda>m key. m(key \<mapsto> f key)) m keys) = dom m \<union> set keys"
  by (induction keys arbitrary: m) auto

lemma reducer_plan_ok: "plan_ok p \<Longrightarrow> plan_ok (reducer_plan p)"
  by (auto simp: plan_ok_def reducer_plan_def init_reducer_agg_state_def groups_ok_def aggs_ok_def hist_ok_def
      init_reducer_ok split: option.splits)

lemma merge_agg_records_ok: "dom m \<subseteq> dom (foldl merge_agg_record m rs)"
proof (induction rs arbitrary: m)
  case (Cons r rs)
  have "dom m \<subseteq> dom (merge_agg_record m r)" by (auto simp: merge_agg_record_def Let_def)
  with Cons [of "merge_agg_record m r"] show ?case by auto
qed simp

lemma merge_aggs_ok: "plans_ok plans \<Longrightarrow> plans_ok (snd (plan_reducer_merge_aggs plans h bs))"
  by (auto simp: plan_reducer_merge_aggs_def plan_ok_def intro!: update_plan_ok
      intro: aggs_ok_mono [OF _ merge_agg_records_ok])

lemma merge_hist_partial_ok: "plan_ok p \<Longrightarrow> plan_ok (merge_hist_partial p part)"
  by (auto simp: merge_hist_partial_def plan_ok_def hist_ok_def Let_def split_beta
      split: option.splits)

lemma merge_group_record_ok:
  assumes "plan_ok p" shows "plan_ok (merge_group_record p bs)"
proof -
  let ?key = "\<lparr> gk_a = from_le64 (slice bs 0 8), gk_b = from_le64 (slice bs 8 16) \<rparr>"
  show ?thesis
  proof (cases "pl_group_state p ?key")
    case None
    with assms show ?thesis
      by (auto simp: merge_group_record_def plan_ok_def Let_def intro: groups_ok_new)
  next
    case (Some g)
    with assms show ?thesis
      by (auto simp: merge_group_record_def plan_ok_def Let_def intro: groups_ok_upd)
  qed
qed

lemma merge_group_records_ok: "plan_ok p \<Longrightarrow> plan_ok (foldl merge_group_record p rs)"
  by (induction rs arbitrary: p) (simp_all add: merge_group_record_ok)

lemma merge_groups_ok:
  assumes "plans_ok plans" shows "plans_ok (snd (plan_reducer_merge_groups plans h bs))"
  using assms plans_okD [OF assms]
  by (auto simp: plan_reducer_merge_groups_def Let_def merge_hist_partial_ok merge_group_records_ok
      split: option.splits intro!: plans_okI)

lemma push_filter_ok: "plans_ok plans \<Longrightarrow> plans_ok (snd (push_filter plans h fl))"
  by (auto simp: push_filter_def core_updates_ok split: option.splits intro!: plans_okI dest: plans_okD)

lemma set_value_str_ok: "plans_ok plans \<Longrightarrow> plans_ok (snd (plan_set_filter_value_str plans h i v))"
  by (auto simp: plan_set_filter_value_str_def Let_def core_updates_ok split: option.splits
      intro!: plans_okI dest: plans_okD)

lemma merge_row_candidates_ok:
  assumes "plans_ok plans" shows "plans_ok (snd (plan_reducer_merge_row_candidates plans h bs))"
proof -
  have "plan_ok (fst (merge_row_candidates_from_bytes p bs))" if "plan_ok p" for p
    using that by (auto simp: merge_row_candidates_from_bytes_def Let_def split_beta core_updates_ok)
  with assms plans_okD [OF assms] show ?thesis
    by (auto simp: plan_reducer_merge_row_candidates_def split_beta split: option.splits intro!: plans_okI)
qed

lemma finalize_heap_ok: "plan_ok p \<Longrightarrow> plan_ok (finalize_rows_from_heap p)"
  by (simp add: finalize_rows_from_heap_def plan_ok_def Let_def)

lemma finalize_basic_ok: "plan_ok p \<Longrightarrow> plan_ok (finalize_rows_basic p)"
  by (simp add: finalize_rows_basic_def plan_ok_def Let_def)

lemma create_ok: "plans_ok plans \<Longrightarrow> plans_ok (plans(h := None))"
  by (auto simp: plans_ok_def ran_def)

lemma prepare_ok: "plans_ok plans \<Longrightarrow> plans_ok (snd (plan_prepare_optimizations disabled m rts plans h))"
  by (auto simp: plan_prepare_optimizations_def split: option.splits
      intro!: update_plan_ok enable_histogram_ok)

section \<open>The application of SQL\<close>

lemma agg_key_kind_make: "agg_key_kind (agg_key_make col_id kind offset) = kind"
proof -
  have ff: "(0xffff :: u32) = mask 16" "(0xff :: u32) = mask 8" by (simp_all add: mask_eq_exp_minus_1)
  show ?thesis
    unfolding agg_key_kind_def agg_key_make_def ff
    by (rule bit_word_eqI) (auto simp: bit_simps bit_or_iff bit_and_iff bit_mask_iff)
qed

lemma push_aggregate_ok:
  assumes "plan_ok p" shows "plan_ok (push_aggregate col_id kind offset has_group_by p)"
proof -
  have "aggs_ok (keys @ [agg_key_make col_id kind offset]) m" if "aggs_ok keys m" "kind = AGG_KIND_APPROX_DISTINCT" for keys m
    using that by (auto simp: aggs_ok_def agg_key_kind_make)
  moreover have "aggs_ok (keys @ [k]) (m(k \<mapsto> v))" if "aggs_ok keys m" for keys m k v
    using that by (auto simp: aggs_ok_def)
  ultimately show ?thesis using assms by (simp add: push_aggregate_def plan_ok_def Let_def)
qed

lemma select_loop_ok:
  "select_loop rt has_group_by items st = (code, st') \<Longrightarrow> plan_ok (snd st) \<Longrightarrow> plan_ok (snd st')"
proof (induction rt has_group_by items st rule: select_loop.induct)
  case (2 rt g item items st)
  obtain c st1 where s: "select_step rt g (si_expr item) st = (c, st1)" by (cases "select_step rt g (si_expr item) st")
  have "plan_ok (snd st1)"
    using s 2(3) push_aggregate_ok
    by (cases "si_expr item"; cases st)
      (auto simp: select_step_def select_aggregate_def select_column_def plan_ok_def Let_def
        split: option.splits if_splits)
  then show ?case using 2 s by (auto split: if_splits)
qed simp

lemma push_filters_ok: "push_filters rt fs p = (code, p') \<Longrightarrow> plan_ok p \<Longrightarrow> plan_ok p'"
  by (induction rt fs p rule: push_filters.induct) (auto simp: core_updates_ok split: sum.splits)

lemma then_do_keeps: "P (snd r) \<Longrightarrow> (\<And>p. P p \<Longrightarrow> P (snd (f p))) \<Longrightarrow> P (snd (then_do r f))"
  by (auto simp: then_do_def split: prod.split)

lemma apply_query_ok:
  assumes "plan_ok p" shows "plan_ok (snd (apply_query_to_plan disabled n q p rt))"
proof -
  have window: "plan_ok (apply_window q p)"
    using assms by (auto simp: apply_window_def Let_def core_updates_ok split: option.split)
  have wh: "plan_ok (snd (apply_where q rt p))" if "plan_ok p" for p
  proof (cases "q_where q")
    case (Some pred)
    have "plan_ok (snd (push_filters rt (collect_filters pred) p))"
      using that push_filters_ok by (cases "push_filters rt (collect_filters pred) p") auto
    then show ?thesis unfolding apply_where_def Some option.case
      by (rule then_do_keeps) (auto simp: finalize_plan_filters_def order_filters_def plan_ok_def)
  qed (simp add: apply_where_def that)
  have gb: "plan_ok (snd (apply_group_by q rt p))" if "plan_ok p" for p
    using that by (auto simp: apply_group_by_def plan_ok_def split: option.split list.split)
  have sel: "plan_ok (snd (apply_select q rt (apply_order_by q rt p)))" if "plan_ok p" for p
  proof -
    have "plan_ok (apply_order_by q rt p)" using that by (simp add: apply_order_by_def plan_ok_def)
    then show ?thesis
      using select_loop_ok by (fastforce simp: apply_select_def plan_ok_def split: prod.split)
  qed
  show ?thesis
    unfolding apply_query_to_plan_def
    by (auto intro!: then_do_keeps [where P = plan_ok] wh gb sel window assms enable_histogram_ok)
qed

lemma apply_sql_ok:
  assumes "plan_apply_sql disabled n sql rts plans h = Some (Ok (code, plans'))" "plans_ok plans"
  shows "plans_ok plans'"
proof -
  show ?thesis using assms plans_okD [OF assms(2)] apply_query_ok
    by (auto simp: plan_apply_sql_def split_beta split: option.splits sum.splits parse_failure.splits prod.splits
        intro!: plans_okI)
qed

section \<open>Runs\<close>

text \<open>The state is the handle counter, the runtimes and the plans. The runtimes may change in any way
  between two calls on plans.\<close>

inductive plan_call ::
  "(bytes \<Rightarrow> nat \<Rightarrow> bytes option) \<Rightarrow> (bytes \<Rightarrow> u64) \<Rightarrow> (bytes \<Rightarrow> u64 \<Rightarrow> u64) \<Rightarrow> id_decoder
     \<Rightarrow> u32 \<times> runtimes \<times> plans \<Rightarrow> u32 \<times> runtimes \<times> plans \<Rightarrow> bool"
  for decompress xxh seeded decode_ids
where
  runtimes: "plan_call decompress xxh seeded decode_ids (n, rts, ps) (n', rts', ps)"
| create: "create_plan n ps rh = (h, n', ps') \<Longrightarrow>
    plan_call decompress xxh seeded decode_ids (n, rts, ps) (n', rts, ps')"
| destroy: "plan_call decompress xxh seeded decode_ids (n, rts, ps) (n, rts, destroy_plan ps h)"
| set_limit: "plan_call decompress xxh seeded decode_ids (n, rts, ps) (n, rts, snd (plan_set_limit ps h l))"
| set_offset: "plan_call decompress xxh seeded decode_ids (n, rts, ps) (n, rts, snd (plan_set_offset ps h l))"
| order_by_count: "plan_call decompress xxh seeded decode_ids (n, rts, ps)
    (n, rts, snd (plan_set_group_order_by_count ps h i))"
| emit_raw: "plan_call decompress xxh seeded decode_ids (n, rts, ps)
    (n, rts, snd (plan_set_group_emit_raw ps h i))"
| combine: "plan_call decompress xxh seeded decode_ids (n, rts, ps)
    (n, rts, snd (plan_set_combine ps h tokens))"
| prepare: "plan_call decompress xxh seeded decode_ids (n, rts, ps)
    (n, rts, snd (plan_prepare_optimizations disabled max_dict rts ps h))"
| add_filter: "plan_call decompress xxh seeded decode_ids (n, rts, ps)
    (n, rts, snd (plan_add_filter ps h c oper v v2))"
| add_filter_in: "plan_call decompress xxh seeded decode_ids (n, rts, ps)
    (n, rts, snd (plan_add_filter_in ps h c oper vs))"
| filter_value_str: "plan_call decompress xxh seeded decode_ids (n, rts, ps)
    (n, rts, snd (plan_set_filter_value_str ps h idx str))"
| set_group_by: "plan_call decompress xxh seeded decode_ids (n, rts, ps)
    (n, rts, snd (plan_set_group_by ps h key1 key2 value_col))"
| add_aggregate: "plan_call decompress xxh seeded decode_ids (n, rts, ps)
    (n, rts, snd (plan_add_aggregate rts ps h c))"
| apply_sql: "plan_apply_sql disabled max_dict sql rts ps h = Some (Ok (code, ps')) \<Longrightarrow>
    plan_call decompress xxh seeded decode_ids (n, rts, ps) (n, rts, ps')"
| reset: "plan_call decompress xxh seeded decode_ids (n, rts, ps) (n, rts, snd (plan_reset_results ps h))"
| clear: "plan_call decompress xxh seeded decode_ids (n, rts, ps) (n, rts, snd (plan_clear ps h))"
| finalize_rows: "plan_call decompress xxh seeded decode_ids (n, rts, ps)
    (n, rts, snd (plan_finalize_rows ps h))"
| exec_chunk: "plan_exec_chunk decompress xxh seeded decode_ids rts ps rh h chunk_id descs data
      = Ok (code, rts', ps') \<Longrightarrow>
    plan_call decompress xxh seeded decode_ids (n, rts, ps) (n, rts', ps')"
| reducer_new: "plan_reducer_new n ps h = (h', n', ps') \<Longrightarrow>
    plan_call decompress xxh seeded decode_ids (n, rts, ps) (n', rts, ps')"
| merge_aggs: "plan_call decompress xxh seeded decode_ids (n, rts, ps)
    (n, rts, snd (plan_reducer_merge_aggs ps h bs))"
| merge_groups: "plan_call decompress xxh seeded decode_ids (n, rts, ps)
    (n, rts, snd (plan_reducer_merge_groups ps h bs))"
| merge_rows: "plan_call decompress xxh seeded decode_ids (n, rts, ps)
    (n, rts, snd (plan_reducer_merge_rows ps h bs))"
| merge_candidates: "plan_call decompress xxh seeded decode_ids (n, rts, ps)
    (n, rts, snd (plan_reducer_merge_row_candidates ps h bs))"
| reducer_finalize: "plan_call decompress xxh seeded decode_ids (n, rts, ps)
    (n, rts, snd (plan_reducer_finalize ps h))"

inductive_cases plan_callE: "plan_call decompress xxh seeded decode_ids s s'"

inductive plan_run ::
  "(bytes \<Rightarrow> nat \<Rightarrow> bytes option) \<Rightarrow> (bytes \<Rightarrow> u64) \<Rightarrow> (bytes \<Rightarrow> u64 \<Rightarrow> u64) \<Rightarrow> id_decoder
     \<Rightarrow> u32 \<times> runtimes \<times> plans \<Rightarrow> bool"
  for decompress xxh seeded decode_ids
where
  start: "plan_run decompress xxh seeded decode_ids (n, rts, Map.empty)"
| call: "plan_run decompress xxh seeded decode_ids s \<Longrightarrow>
    plan_call decompress xxh seeded decode_ids s s' \<Longrightarrow> plan_run decompress xxh seeded decode_ids s'"

lemma plan_call_ok:
  assumes "plan_call decompress xxh seeded decode_ids s s'" "plans_ok (snd (snd s))"
  shows "plans_ok (snd (snd s'))"
  using assms
proof cases
  case (create n ps rh h n' ps' rts)
  with assms(2) show ?thesis by (auto simp: create_plan_def split_beta intro: plans_okI plan_new_ok)
next
  case (reducer_new n ps h h' n' ps' rts)
  with assms(2) show ?thesis
    by (auto simp: plan_reducer_new_def split_beta split: option.splits
        intro!: plans_okI reducer_plan_ok dest: plans_okD)
next
  case (exec_chunk rts ps rh h c descs data code rts' ps' n)
  with assms(2) show ?thesis by (auto dest: plan_exec_chunk_ok)
next
  case (apply_sql disabled max_dict sql rts ps h code ps' n)
  with assms(2) show ?thesis by (auto dest: apply_sql_ok)
next
  case (merge_rows n rts ps h bs)
  with assms(2) show ?thesis
    by (auto simp: plan_reducer_merge_rows_def core_updates_ok intro!: update_plan_ok)
next
  case (reducer_finalize n rts ps h)
  with assms(2) show ?thesis
    by (auto simp: plan_reducer_finalize_def finalize_heap_ok finalize_basic_ok intro!: update_plan_ok)
next
  case (set_group_by n rts ps h k1 k2 v)
  with assms(2) show ?thesis
    by (auto simp: plan_set_group_by_def Let_def core_updates_ok intro!: update_plan_ok)
next
  case (finalize_rows n rts ps h)
  with assms(2) show ?thesis
    by (auto simp: plan_finalize_rows_def finalize_heap_ok intro!: update_plan_ok)
qed (auto simp: destroy_plan_def plan_set_limit_def plan_set_offset_def plan_set_group_order_by_count_def
    plan_set_group_emit_raw_def plan_set_combine_def plan_add_filter_def plan_add_filter_in_def
    plan_reset_results_def plan_clear_def core_updates_ok clear_plan_ok reset_results_ok
    intro: create_ok update_plan_ok prepare_ok push_filter_ok set_value_str_ok add_aggregate_ok
      merge_aggs_ok merge_groups_ok merge_row_candidates_ok)

lemma plan_run_ok: "plan_run decompress xxh seeded decode_ids s \<Longrightarrow> plans_ok (snd (snd s))"
proof (induction rule: plan_run.induct)
  case (start n rts)
  show ?case by (simp add: plans_ok_def)
next
  case (call s s')
  from plan_call_ok [OF call(2,3)] show ?case .
qed

section \<open>What the invariant is good for\<close>

lemma agg_records_total:
  assumes "aggs_ok (pl_aggregates p) (pl_agg_state p)" "set keys \<subseteq> set (pl_aggregates p)"
  shows "\<exists>rs. mapR (agg_result_record ln sqrt p) keys = Ok rs"
  using assms(2)
proof (induction keys)
  case (Cons key keys)
  have "\<exists>r. agg_result_record ln sqrt p key = Ok r"
    using assms(1) Cons.prems
    by (auto simp: agg_result_record_def aggs_ok_def Let_def split_beta)
  with Cons show ?case by auto
qed simp

lemma copy_aggs_total:
  assumes "plans_ok plans"
  shows "\<exists>n bs. plan_copy_aggs ln sqrt plans h out_len = Ok (n, bs)"
proof (cases "plans h")
  case (Some p)
  then have "aggs_ok (pl_aggregates p) (pl_agg_state p)" using plans_okD [OF assms] by (simp add: plan_ok_def)
  then obtain rs where "mapR (agg_result_record ln sqrt p) (pl_aggregates p) = Ok rs"
    using agg_records_total by blast
  with Some show ?thesis by (simp add: plan_copy_aggs_def Let_def)
qed (simp add: plan_copy_aggs_def)

lemma copy_hist_total:
  assumes "plans_ok plans"
  shows "\<exists>n bs. plan_copy_group_hist_partial plans h out_len = Ok (n, bs)"
proof (cases "plans h")
  case (Some p)
  then have "hist_ok (pl_hist_dict_len p) (pl_hist_counts p)"
    using plans_okD [OF assms] by (simp add: plan_ok_def)
  with Some show ?thesis
    by (auto simp: plan_copy_group_hist_partial_def copy_group_hist_partial_def hist_ok_def Let_def
        split: option.splits)
qed (simp add: plan_copy_group_hist_partial_def)

text \<open>Without a limit every group is written, once and in the order it was found.\<close>

lemma all_groups_written:
  assumes "plan_ok p" "pl_limit p = 0" "pl_offset p = 0" "\<not> pl_group_emit_raw p" "pl_hist_dict_len p = 0"
  shows "copy_groups p out_len =
    copy_out out_len (length (pl_group_keys p) * (16 + length (pl_group_aggs p) * AGG_RECORD_BYTES))
      (concat (map (\<lambda>key. group_record p key (the (pl_group_state p key))) (pl_group_keys p)))"
proof -
  have g: "distinct (pl_group_keys p)" "set (pl_group_keys p) = dom (pl_group_state p)"
    using assms(1) by (simp_all add: plan_ok_def groups_ok_def)
  then have size: "dom_size (pl_group_state p) = length (pl_group_keys p)"
    by (metis dom_size_def distinct_card)
  have "List.map_filter (\<lambda>key. map_option (Pair key) (pl_group_state p key)) keys =
      map (\<lambda>key. (key, the (pl_group_state p key))) keys" if "set keys \<subseteq> dom (pl_group_state p)" for keys
    using that by (induction keys) (auto simp: List.map_filter_simps)
  then have "groups_window p = map (\<lambda>key. (key, the (pl_group_state p key))) (pl_group_keys p)"
    using assms(2,3) g(2) by (simp add: groups_window_def size group_output_count_def Let_def)
  then show ?thesis using assms(2-)
    by (simp add: copy_groups_def plan_uses_group_dict_histogram_def group_output_count_def size Let_def comp_def)
qed

section \<open>The search for a free key\<close>

lemma remap_loop_finds:
  assumes "existing \<lparr> gk_a = a, gk_b = hash (of_nat n) \<rparr> = None" "n < 2 ^ 64" "m \<le> n"
  shows "\<exists>k. remap_loop hash a existing (of_nat m) = Some k \<and> existing k = None \<and> gk_a k = a"
  using assms(2-)
proof (induction "n - m" arbitrary: m)
  case 0
  then show ?case using assms(1) by (subst remap_loop.simps) (simp add: Let_def)
next
  case (Suc d)
  show ?case
  proof (cases "existing \<lparr> gk_a = a, gk_b = hash (of_nat m) \<rparr> = None")
    case True
    then show ?thesis by (subst remap_loop.simps) (simp add: Let_def)
  next
    case False
    have m: "m < n" "m < 2 ^ 64" using Suc by auto
    have "(of_nat m :: u64) \<noteq> - 1"
    proof
      assume "(of_nat m :: u64) = - 1"
      then have "unat (of_nat m :: u64) = 2 ^ 64 - 1" by (simp add: unsigned_minus_1_eq_mask mask_eq_exp_minus_1)
      then have "m = 2 ^ 64 - 1" using m(2) by (simp add: unat_of_nat)
      with m Suc.prems(1) show False by simp
    qed
    moreover have "(of_nat m :: u64) + 1 = of_nat (Suc m)" by simp
    ultimately show ?thesis using False Suc.hyps(1) [of "Suc m"] Suc.hyps(2) Suc.prems m(1)
      by (subst remap_loop.simps) (simp add: Let_def add.commute)
  qed
qed

lemma remap_finds:
  assumes "0 < (seed :: u64)" "existing \<lparr> gk_a = gk_a base, gk_b = seeded bs (gk_b base XOR seed) \<rparr> = None"
  shows "\<exists>k. remap_group_key_for_collision seeded base bs existing = Some k \<and> existing k = None \<and>
    gk_a k = gk_a base"
proof -
  have "1 \<le> unat seed" using assms(1) by (metis One_nat_def Suc_leI unat_gt_0 word_neq_0_conv)
  with remap_loop_finds [of existing "gk_a base" "\<lambda>seed. seeded bs (gk_b base XOR seed)" "unat seed" 1] assms(2)
  show ?thesis using unsigned_less [of seed, where ?'a = nat] by (simp add: remap_group_key_for_collision_def)
qed

end
