(* ===== verification/Query_Facts.thy ===== *)
theory Query_Facts
  imports Plan_Invariant Agg_Facts Row_Facts
begin

text \<open>
  From the components to a query over several chunks and workers: aggregates of the chunks
  merged by kind, sketches, group rows with NULL keys, ORDER BY over workers, and histograms
  that travel as bytes.
\<close>

section \<open>Aggregates over chunks\<close>

text \<open>A chunk of a column: its data, the mask and the number of rows.\<close>

type_synonym column_chunk = "column_data \<times> mask \<times> nat"

definition chunk_fits :: "column_chunk \<Rightarrow> bool" where
  "chunk_fits c \<longleftrightarrow> (case c of (data, msk, rows) \<Rightarrow>
     is_mask msk \<and> rows \<le> ROWS_PER_CHUNK \<and> rows \<le> column_rows data)"

definition chunk_values :: "column \<Rightarrow> column_chunk \<Rightarrow> f64 list" where
  "chunk_values col c = (case c of (data, msk, rows) \<Rightarrow> agg_inputs col data msk rows)"

definition aggregate_chunk :: "column \<Rightarrow> column_chunk \<Rightarrow> agg_state result" where
  "aggregate_chunk col c = (case c of (data, msk, rows) \<Rightarrow> aggregate_column col data msk rows)"

text \<open>The fields of a state that an aggregate of the kind reports are those of the values.\<close>

definition reports :: "u8 \<Rightarrow> agg_state \<Rightarrow> f64 list \<Rightarrow> bool" where
  "reports kind st vs \<longleftrightarrow>
     a_count st = of_nat (length vs) \<and>
     (kind \<noteq> AGG_KIND_MAX \<longrightarrow> a_min st \<in> insert f_inf (set vs) \<and> (\<forall>v \<in> set vs. \<not> f_lt v (a_min st))) \<and>
     (kind \<noteq> AGG_KIND_MIN \<longrightarrow> a_max st \<in> insert f_neg_inf (set vs) \<and> (\<forall>v \<in> set vs. \<not> f_lt (a_max st) v))"

lemma length_chunk_values: "chunk_fits c \<Longrightarrow> length (chunk_values col c) < 2 ^ 32"
proof -
  assume fits: "chunk_fits c"
  obtain data msk rows where c: "c = (data, msk, rows)" by (cases c)
  have len: "length (filter P [0..<rows]) \<le> rows" for P
    using length_filter_le [of P "[0..<rows]"] by simp
  have "length (agg_inputs col data msk rows) \<le> rows"
    by (cases data) (simp_all add: agg_inputs_def Let_def filter_map len)
  moreover have "rows \<le> 65536" using fits c by (simp add: chunk_fits_def ROWS_PER_CHUNK_def)
  ultimately show ?thesis by (simp add: c chunk_values_def)
qed

lemma aggregate_chunk_pass: "chunk_fits c \<Longrightarrow> aggregate_chunk col c = Ok (agg_pass (chunk_values col c))"
  using aggregate_column_ok
  by (auto simp: chunk_fits_def aggregate_chunk_def chunk_values_def agg_pass_def split: prod.splits)

lemma aggregate_chunks_pass:
  "list_all chunk_fits cs \<Longrightarrow>
     mapR (aggregate_chunk col) cs = Ok (map agg_pass (map (chunk_values col) cs))"
  by (induction cs) (simp_all add: aggregate_chunk_pass)

lemma merge_by_kind_fields:
  assumes "kind \<noteq> AGG_KIND_COUNT_STAR"
  shows "a_count s = a_count s' \<Longrightarrow> a_count (merge_agg_by_kind s t kind) = a_count (merge_agg s' t)"
    "kind \<noteq> AGG_KIND_MAX \<Longrightarrow> a_min s = a_min s' \<Longrightarrow>
       a_min (merge_agg_by_kind s t kind) = a_min (merge_agg s' t)"
    "kind \<noteq> AGG_KIND_MIN \<Longrightarrow> a_max s = a_max s' \<Longrightarrow>
       a_max (merge_agg_by_kind s t kind) = a_max (merge_agg s' t)"
    "kind \<noteq> AGG_KIND_MIN \<Longrightarrow> kind \<noteq> AGG_KIND_MAX \<Longrightarrow> a_sum s = a_sum s' \<Longrightarrow>
       a_sum (merge_agg_by_kind s t kind) = a_sum (merge_agg s' t)"
  using assms by (simp_all add: merge_agg_by_kind_def merge_agg_def Let_def)

lemma merged_by_kind:
  assumes "kind \<noteq> AGG_KIND_COUNT_STAR"
  shows "a_count s = a_count s' \<Longrightarrow>
      a_count (foldl (\<lambda>s t. merge_agg_by_kind s t kind) s ts) = a_count (foldl merge_agg s' ts)"
    "kind \<noteq> AGG_KIND_MAX \<Longrightarrow> a_min s = a_min s' \<Longrightarrow>
      a_min (foldl (\<lambda>s t. merge_agg_by_kind s t kind) s ts) = a_min (foldl merge_agg s' ts)"
    "kind \<noteq> AGG_KIND_MIN \<Longrightarrow> a_max s = a_max s' \<Longrightarrow>
      a_max (foldl (\<lambda>s t. merge_agg_by_kind s t kind) s ts) = a_max (foldl merge_agg s' ts)"
    "kind \<noteq> AGG_KIND_MIN \<Longrightarrow> kind \<noteq> AGG_KIND_MAX \<Longrightarrow> a_sum s = a_sum s' \<Longrightarrow>
      a_sum (foldl (\<lambda>s t. merge_agg_by_kind s t kind) s ts) = a_sum (foldl merge_agg s' ts)"
  by (induction ts arbitrary: s s') (simp_all add: merge_by_kind_fields [OF assms])

lemma chunks_report:
  assumes "list_all chunk_fits cs" "kind \<noteq> AGG_KIND_COUNT_STAR"
  shows "reports kind (foldl (\<lambda>s t. merge_agg_by_kind s t kind) agg_empty (map agg_pass (map (chunk_values col) cs)))
    (concat (map (chunk_values col) cs))"
proof -
  have fits: "list_all (\<lambda>vs. length vs < 2 ^ 32) (map (chunk_values col) cs)"
    using assms(1) length_chunk_values by (simp add: list.pred_map list_all_iff)
  show ?thesis
    using merged_describes [OF fits] merged_by_kind [OF assms(2), of agg_empty agg_empty]
    by (simp add: reports_def agg_describes_def)
qed

section \<open>Sketches over chunks\<close>

definition chunk_hashes :: "(bytes \<Rightarrow> u64) \<Rightarrow> column_chunk \<Rightarrow> u64 list" where
  "chunk_hashes xxh c = (case c of (data, msk, rows) \<Rightarrow>
     concat (map (hll_hash xxh data) (filter (mask_bit msk) [0..<rows])))"

definition sketch_chunk :: "(bytes \<Rightarrow> u64) \<Rightarrow> hll_state \<Rightarrow> column_chunk \<Rightarrow> hll_state result" where
  "sketch_chunk xxh st c = (case c of (data, msk, rows) \<Rightarrow> hll_aggregate_column xxh data msk rows st)"

lemma sketch_chunks:
  assumes "list_all chunk_fits cs" "hll_ok p st"
  shows "foldR (sketch_chunk xxh) st cs = Ok (foldl hll_add st (concat (map (chunk_hashes xxh) cs)))"
  using assms
proof (induction cs arbitrary: st)
  case (Cons c cs)
  obtain data msk rows where c: "c = (data, msk, rows)" by (cases c)
  have "sketch_chunk xxh st c = Ok (foldl hll_add st (chunk_hashes xxh c))"
    using Cons.prems hll_aggregate_column_ok [of msk rows data p st xxh]
    by (auto simp: c chunk_fits_def sketch_chunk_def chunk_hashes_def)
  moreover have "hll_ok p (foldl hll_add st hs)" for hs
    using Cons.prems(2) by (induction hs arbitrary: st) (simp_all add: hll_ok_add)
  ultimately show ?case using Cons by simp
qed simp

lemma merged_sketches:
  "foldl hll_merge (hll_sketch p h0) (map (hll_sketch p) hss) = hll_sketch p (h0 @ concat hss)"
  by (induction hss arbitrary: h0) (simp_all add: hll_merge_sketch)

section \<open>Rows of a group query\<close>

lemma group_row_emit_raw:
  assumes "group_row gc p r = Ok p'" shows "pl_group_emit_raw p' = pl_group_emit_raw p"
proof -
  have "pl_group_emit_raw (snd (group_entry p key repr)) = pl_group_emit_raw p" for key repr
    by (simp add: group_entry_def Let_def split: option.splits)
  with assms show ?thesis by (auto simp: group_row_def Let_def split_beta)
qed

lemma process_rows:
  assumes "nulls_cover nulls rows" "\<forall>r \<in> set rs. r < rows" "\<not> pl_group_emit_raw p"
  shows "foldR (process_group_row gc nulls) p rs = foldR (group_row gc) p (filter (key_valid nulls) rs)"
  using assms(2,3)
proof (induction rs arbitrary: p)
  case (Cons r rs)
  have valid: "row_is_valid_for_all r nulls = Ok (key_valid nulls r)"
    using row_valid_ok [OF assms(1), of r] Cons.prems(1) by simp
  show ?case
  proof (cases "key_valid nulls r")
    case True
    have "process_group_row gc nulls p r = group_row gc p r"
      using True Cons.prems(2) by (simp add: process_group_row_def valid)
    then show ?thesis using True Cons group_row_emit_raw [of gc p r]
      by (cases "group_row gc p r") auto
  next
    case False
    then show ?thesis using Cons by (simp add: process_group_row_def valid)
  qed
qed simp

text \<open>The specification of a grouping: the rows with a key keep their order within their group.\<close>

definition grouped ::
  "group_ctx \<Rightarrow> plan \<Rightarrow> (nat \<Rightarrow> group_key) \<Rightarrow> nat list \<Rightarrow> plan \<Rightarrow> bool" where
  "grouped gc plan f rs plan' \<longleftrightarrow>
     (\<forall>k. k \<notin> f ` set rs \<longrightarrow> pl_group_state plan' k = pl_group_state plan k) \<and>
     (\<forall>k \<in> f ` set rs. \<exists>aggs. foldR (\<lambda>aggs r. row_aggs gc plan r aggs) (start_aggs plan k)
          (filter (\<lambda>r. f r = k) rs) = Ok aggs \<and>
        pl_group_state plan' k = Some \<lparr> gs_aggs = aggs \<rparr>) \<and>
     pl_group_keys plan' = pl_group_keys plan @ new_keys (dom (pl_group_state plan)) (map f rs)"

section \<open>ORDER BY over workers\<close>

definition merge_messages :: "u32 \<Rightarrow> plans \<Rightarrow> bytes list \<Rightarrow> plans" where
  "merge_messages h = foldl (\<lambda>ps bs. snd (plan_reducer_merge_row_candidates ps h bs))"

lemma merge_message_heap:
  assumes "ps h = Some p" "pl_row_order_by p \<noteq> []" "pl_limit p \<noteq> 0"
  shows "snd (plan_reducer_merge_row_candidates ps h bs) =
    ps(h \<mapsto> p\<lparr> pl_row_heap := fst (merge_candidates (row_take_count p) (pl_row_heap p) bs) \<rparr>)"
proof -
  have "row_take_count p \<noteq> 0" using assms(3) by (auto simp: row_take_count_def unat_eq_zero)
  moreover have "merge_candidates n heap [] = (heap, Ok ())" for n heap
    by (simp add: merge_candidates.simps)
  ultimately show ?thesis using assms
    by (auto simp: plan_reducer_merge_row_candidates_def merge_row_candidates_from_bytes_def Let_def split_beta
        fun_upd_idem)
qed

lemma row_take_count_heap: "row_take_count (p\<lparr> pl_row_heap := x \<rparr>) = row_take_count p"
  by (simp add: row_take_count_def)

lemma merge_messages_heap:
  assumes "ps h = Some p" "pl_row_order_by p \<noteq> []" "pl_limit p \<noteq> 0"
  shows "merge_messages h ps ms =
    ps(h \<mapsto> p\<lparr> pl_row_heap := foldl (\<lambda>heap bs. fst (merge_candidates (row_take_count p) heap bs)) (pl_row_heap p) ms \<rparr>)"
  using assms
proof (induction ms arbitrary: ps p)
  case (Cons m ms)
  let ?p = "p\<lparr> pl_row_heap := fst (merge_candidates (row_take_count p) (pl_row_heap p) m) \<rparr>"
  have "merge_messages h ps (m # ms) = merge_messages h (ps(h \<mapsto> ?p)) ms"
    using merge_message_heap [of ps h p m] Cons.prems by (simp add: merge_messages_def)
  also have "\<dots> = (ps(h \<mapsto> ?p))(h \<mapsto> ?p\<lparr> pl_row_heap :=
      foldl (\<lambda>heap bs. fst (merge_candidates (row_take_count ?p) heap bs)) (pl_row_heap ?p) ms \<rparr>)"
    using Cons.prems by (intro Cons.IH) simp_all
  finally show ?case by (simp add: row_take_count_heap)
qed (simp add: merge_messages_def fun_upd_idem)

text \<open>What a worker sends: the candidates of its heap, in any order.\<close>

lemma worker_sends:
  assumes "pl_row_heap p = foldl (\<lambda>heap c. push_candidate heap c (row_take_count p)) [] cs"
    and "pl_row_order_by p \<noteq> []" "pl_limit p \<noteq> 0" "copy_row_candidates p out_len = Inr bs"
  shows "worker_message (row_take_count p) cs bs"
proof -
  have "row_take_count p \<noteq> 0" using assms(3) by (auto simp: row_take_count_def unat_eq_zero)
  then have "bs = concat (map candidate_bytes (pl_row_heap p))"
    using assms(2,4) by (auto simp: copy_row_candidates_def Let_def split: if_splits)
  with assms(1) show ?thesis by (auto simp: worker_message_def push_all)
qed

section \<open>Order keys of dictionary columns\<close>

lemma total_key_int: "\<bar>a\<bar> < 2 ^ 53 \<Longrightarrow> 0 \<le> a \<Longrightarrow> total_key (f_of_int a) = fkey (f_of_int a)"
  by (simp add: total_key_def fkey_def f_of_int_props)

lemma total_key_int_less:
  assumes "0 \<le> a" "0 \<le> b" "a < 2 ^ 53" "b < 2 ^ 53"
  shows "total_key (f_of_int a) < total_key (f_of_int b) \<longleftrightarrow> a < b"
  using assms fkey_f_of_int_less [of a b] by (simp add: total_key_int)

lemma cmp_rank_keys:
  assumes "dictionary_len d < 2 ^ 32" "i < dictionary_len d" "j < dictionary_len d"
  shows "cmp_row_key (RK_Num (f_of_int (uint (build_dict_lex_ranks d ! i))))
      (RK_Num (f_of_int (uint (build_dict_lex_ranks d ! j)))) = sgn (cmp_dict_ids d i j)"
proof -
  define r where "r i = build_dict_lex_ranks d ! i" for i
  have key: "total_key (f_of_int (uint v)) < total_key (f_of_int (uint w)) \<longleftrightarrow> uint v < uint w" for v w :: u32
  proof -
    have "uint v < 2 ^ 53" "uint w < 2 ^ 53"
      using unsigned_less [of v, where ?'a = int] unsigned_less [of w, where ?'a = int] by simp_all
    then show ?thesis by (intro total_key_int_less) simp_all
  qed
  have less: "total_key (f_of_int (uint (r a))) < total_key (f_of_int (uint (r b))) \<longleftrightarrow> cmp_dict_ids d a b < 0"
    if "a < dictionary_len d" "b < dictionary_len d" for a b
    using lex_ranks_order [OF assms(1) that] unfolding key r_def by (simp add: word_less_nat_alt flip: word_less_def)
  have anti: "cmp_dict_ids d j i < 0 \<longleftrightarrow> 0 < cmp_dict_ids d i j"
    using dict_ids.swap [of d i j] by auto
  show ?thesis
    using less [OF assms(2,3)] less [OF assms(3,2)] anti
    unfolding r_def [symmetric] by (simp add: cmp_by_def sgn_if)
qed

section \<open>Histograms over workers\<close>

type_synonym hist_chunk = "column_data \<times> mask \<times> nat \<times> bytes option list"

definition hist_chunk_fits :: "hist_chunk \<Rightarrow> bool" where
  "hist_chunk_fits c \<longleftrightarrow> (case c of (data, msk, rows, nulls) \<Rightarrow>
     is_mask msk \<and> rows \<le> ROWS_PER_CHUNK \<and> rows \<le> column_rows data \<and> nulls_cover nulls rows)"

definition hist_chunk_ids :: "hist_chunk \<Rightarrow> nat list" where
  "hist_chunk_ids c = (case c of (data, msk, rows, nulls) \<Rightarrow> hist_ids data msk rows nulls)"

definition count_chunk :: "u32 list \<Rightarrow> hist_chunk \<Rightarrow> u32 list result" where
  "count_chunk counts c = (case c of (data, msk, rows, nulls) \<Rightarrow>
     hist_count_dict_column counts data msk rows nulls)"

lemma count_chunks:
  "list_all hist_chunk_fits cs \<Longrightarrow>
     foldR count_chunk counts cs = Ok (foldl bump_count counts (concat (map hist_chunk_ids cs)))"
  by (induction cs arbitrary: counts)
    (auto simp: hist_chunk_fits_def count_chunk_def hist_chunk_ids_def hist_count_ok split: prod.splits)

text \<open>The partial histogram of a worker over the chunks it ran.\<close>

definition hist_partial_of :: "u32 \<Rightarrow> hist_chunk list \<Rightarrow> bytes result" where
  "hist_partial_of n cs = bindR (foldR count_chunk (replicate (unat n + 1) 0) cs) (\<lambda>counts.
     Ok (encode_group_hist_partial n counts None))"

lemma merge_counts_prefix:
  "k < length s \<Longrightarrow> length s \<le> length t \<Longrightarrow> merge_group_hist_counts t s ! k = sat_add32 (t ! k) (s ! k)"
  by (simp add: merge_group_hist_counts_def nth_append)

lemma keep_sums:
  "(case a of None \<Rightarrow> b | Some t \<Rightarrow> case None of None \<Rightarrow> b | Some s \<Rightarrow> f t s) = b"
  "p\<lparr> pl_hist_counts := x, pl_hist_sums := pl_hist_sums p \<rparr> = p\<lparr> pl_hist_counts := x \<rparr>"
  by (simp_all split: option.splits)

lemma merge_hist_message:
  assumes "ps h = Some p" "pl_hist_dict_len p = n" "n \<noteq> 0" "pl_hist_counts p = Some c"
    and "unat n \<le> length counts"
  shows "snd (plan_reducer_merge_groups ps h (encode_group_hist_partial n counts None)) =
    ps(h \<mapsto> p\<lparr> pl_hist_counts := Some (merge_group_hist_counts c (take (unat n) counts)) \<rparr>)"
proof -
  let ?bs = "encode_group_hist_partial n counts None"
  have dec: "decode_group_hist_partial ?bs = Some (n, take (unat n) counts, None)" "is_group_hist_partial ?bs"
    using hist_partial_roundtrip [OF assms(5), of None "[]"] by simp_all
  moreover have "?bs \<noteq> []" using dec(2) by (auto simp: is_group_hist_partial_def)
  ultimately show ?thesis using assms
    by (simp add: plan_reducer_merge_groups_def merge_hist_partial_def keep_sums)
qed

definition merge_group_messages :: "u32 \<Rightarrow> plans \<Rightarrow> bytes list \<Rightarrow> plans" where
  "merge_group_messages h = foldl (\<lambda>ps bs. snd (plan_reducer_merge_groups ps h bs))"

lemma merge_hist_messages:
  assumes "ps h = Some p" "pl_hist_dict_len p = n" "n \<noteq> 0" "pl_hist_counts p = Some c" "length c = unat n + 1"
    and "list_all2 (\<lambda>ids bs. bs = encode_group_hist_partial n (foldl bump_count (replicate (unat n + 1) 0) ids) None)
      idss ms"
  shows "\<exists>c'. merge_group_messages h ps ms = ps(h \<mapsto> p\<lparr> pl_hist_counts := Some c' \<rparr>) \<and> length c' = unat n + 1 \<and>
    (\<forall>k < unat n. unat (c' ! k) =
       min (2 ^ 32 - 1) (unat (c ! k) + length (filter (\<lambda>i. i = k) (concat idss))))"
  using assms(6,1-5)
proof (induction idss ms arbitrary: ps p c rule: list_all2_induct)
  case Nil
  have "min (2 ^ 32 - 1) (unat w) = unat w" for w :: u32
    using unsigned_less [of w, where ?'a = nat] by simp
  with Nil show ?case by (intro exI [of _ c]) (simp add: merge_group_messages_def fun_upd_idem)
next
  case (Cons ids idss bs ms)
  let ?counts = "foldl bump_count (replicate (unat n + 1) 0) ids"
  let ?c = "merge_group_hist_counts c (take (unat n) ?counts)"
  have len: "length ?counts = unat n + 1" by (simp add: bump_length)
  have step: "snd (plan_reducer_merge_groups ps h bs) = ps(h \<mapsto> p\<lparr> pl_hist_counts := Some ?c \<rparr>)"
    using merge_hist_message [of ps h p n c ?counts] Cons len by simp
  let ?p = "p\<lparr> pl_hist_counts := Some ?c \<rparr>"
  have prems: "(ps(h \<mapsto> ?p)) h = Some ?p" "pl_hist_dict_len ?p = n" "pl_hist_counts ?p = Some ?c"
    "length ?c = unat n + 1"
    using Cons.prems(2,5) by simp_all
  obtain c' where c': "merge_group_messages h (ps(h \<mapsto> ?p)) ms = (ps(h \<mapsto> ?p))(h \<mapsto> ?p\<lparr> pl_hist_counts := Some c' \<rparr>)"
    "length c' = unat n + 1"
    "\<forall>k < unat n. unat (c' ! k) = min (2 ^ 32 - 1) (unat (?c ! k) + length (filter (\<lambda>i. i = k) (concat idss)))"
    using Cons.IH [where ps = "ps(h \<mapsto> ?p)" and p = ?p and c = ?c, OF prems(1,2) Cons.prems(3) prems(3,4)] by blast
  have "unat (?c ! k) = min (2 ^ 32 - 1) (unat (c ! k) + length (filter (\<lambda>i. i = k) ids))" if "k < unat n" for k
    using that Cons.prems(5) len bump_all [of k "unat n + 1" ids]
    by (simp add: merge_counts_prefix sat_add32_unat)
  then have "unat (c' ! k) = min (2 ^ 32 - 1) (unat (c ! k) + length (filter (\<lambda>i. i = k) (concat (ids # idss))))"
    if "k < unat n" for k using c'(3) that by simp
  with c'(1,2) step show ?case by (intro exI [of _ c']) (simp add: merge_group_messages_def)
qed

end
