(* ===== verification/Query_Properties.thy ===== *)
theory Query_Properties
  imports Query_Facts
begin

text \<open>
  The properties of query execution: masks, groups and aggregates of chunks, what the workers'
  partial results say when they are merged, the order of rows, and the table of plans.
\<close>

lemma mask_bit_replicate: "mask_bit (replicate n w) r \<longleftrightarrow> r div 32 < n \<and> bit w (r mod 32)"
  by (auto simp: mask_bit_def)

lemma is_mask_replicate: "is_mask (replicate MASK_WORDS w)"
  by (simp add: is_mask_def)

definition a_column :: "u8 \<Rightarrow> u8 \<Rightarrow> column" where
  "a_column logical flags = \<lparr> c_id = 0, c_name = [97], c_logical = logical, c_physical = TYPE_U8, c_flags = flags,
     c_encoding = 0, c_dict_id = 0, c_index_width = 0, c_scale = 0 \<rparr>"

section \<open>Chunks\<close>

text \<open>C22: The combined mask of a chunk selects exactly the rows below the row count that satisfy the
  condition of the plan over its filters; without a condition all filters must hold, and without
  filters every row is selected.\<close>

theorem chunk_mask:
  assumes "rows \<le> ROWS_PER_CHUNK" "\<forall>m \<in> set masks. is_mask m"
    and "plan_condition plan (length masks) c"
  shows "\<exists>m0 m. combine_chunk_masks plan masks rows = Ok m0 \<and> clear_tail m0 rows = Ok m \<and>
     (\<forall>r. mask_bit m r \<longleftrightarrow> r < rows \<and>
       (if masks = [] \<or> pl_combine plan = [] then \<forall>m \<in> set masks. mask_bit m r
        else holds (\<lambda>i. mask_bit (masks ! i) r) c))"
  using combined_mask_ok [OF assms] unfolding row_selected_def by blast

theorem chunk_mask_witness:
  "\<exists>m0 m. combine_chunk_masks (plan_new 0) [replicate MASK_WORDS 5] 3 = Ok m0 \<and> clear_tail m0 3 = Ok m \<and>
     mask_bit m 2 \<and> \<not> mask_bit m 1"
proof -
  let ?ms = "[replicate MASK_WORDS 5] :: mask list"
  have comb: "pl_combine (plan_new 0) = []" by (simp add: plan_new_def)
  have "\<exists>m0 m. combine_chunk_masks (plan_new 0) ?ms 3 = Ok m0 \<and> clear_tail m0 3 = Ok m \<and>
     (\<forall>r. mask_bit m r \<longleftrightarrow> r < 3 \<and>
       (if ?ms = [] \<or> pl_combine (plan_new 0) = [] then \<forall>m \<in> set ?ms. mask_bit m r
        else holds (\<lambda>i. mask_bit (?ms ! i) r) (Lit 0)))"
    by (rule chunk_mask) (auto simp: ROWS_PER_CHUNK_def is_mask_def plan_condition_def comb)
  then show ?thesis
    by (auto simp: comb mask_bit_replicate MASK_WORDS_def ROWS_PER_CHUNK_def)
qed

text \<open>C23: The rows of a chunk whose key columns are not NULL are grouped by key: every group has the
  aggregates of exactly its rows, in row order on top of what it had, other groups are unchanged,
  and new keys are listed in the order of their first row. This holds when no two keys collide (rows
  of the chunk with the same 128-bit key have the same byte form, and the byte form that the plan
  already has for a key is that of the rows with this key) and the plan does not emit raw rows.\<close>

theorem chunk_groups:
  assumes "nulls_cover nulls rows" "\<forall>r \<in> set rs. r < rows" "\<not> pl_group_emit_raw plan"
    and "\<forall>ai \<in> set (gc_inputs gc). input_covers rows ai"
    and "keys_agree gc plan (filter (key_valid nulls) rs) f rep"
  shows "\<exists>plan'. foldR (process_group_row gc nulls) plan rs = Ok plan' \<and>
    grouped gc plan f (filter (key_valid nulls) rs) plan'"
proof -
  let ?rs = "filter (key_valid nulls) rs"
  obtain plan' where plan': "foldR (group_row gc) plan ?rs = Ok plan'"
    using group_rows_total [OF assms(5,4)] assms(2) by auto
  have "grouped gc plan f ?rs plan'"
    using group_rows_ok [OF assms(5) plan'] unfolding grouped_def by blast
  with plan' show ?thesis using process_rows [OF assms(1-3)] by simp
qed

definition a_group_plan :: plan where
  "a_group_plan = (plan_new 0)\<lparr> pl_group_aggs := [\<lparr> ga_col_id = ROW_COUNT_COL_ID, ga_kind = AGG_KIND_COUNT_STAR \<rparr>] \<rparr>"

definition a_group_ctx :: group_ctx where
  "a_group_ctx = \<lparr> gc_xxh = (\<lambda>_. 0), gc_seeded = (\<lambda>_ _. 0), gc_keys = [(a_column TYPE_U8 0, CD_U8 [7, 9, 7])],
     gc_inputs = [], gc_dicts = Map.empty \<rparr>"

lemma a_group_key: "r < 3 \<Longrightarrow> row_group_key a_group_ctx r = Ok (\<lparr> gk_a = ucast ([7, 9, 7 :: u8] ! r), gk_b = 0 \<rparr>, None)"
  by (simp add: row_group_key_def heavy_string_keys_def a_group_ctx_def a_column_def build_group_key_def
      read_key_value_def plain_key_value_def index_def TYPE_U8_def TYPE_STRING_def)

theorem chunk_groups_witness:
  "\<exists>plan'. foldR (process_group_row a_group_ctx []) a_group_plan [0, 1, 2] = Ok plan' \<and>
     pl_group_keys plan' = [\<lparr> gk_a = 7, gk_b = 0 \<rparr>, \<lparr> gk_a = 9, gk_b = 0 \<rparr>] \<and>
     pl_group_state plan' \<lparr> gk_a = 7, gk_b = 0 \<rparr> = Some \<lparr> gs_aggs = [GA_Numeric (count_one (count_one agg_empty))] \<rparr>"
proof -
  let ?f = "\<lambda>r. \<lparr> gk_a = ucast ([7, 9, 7 :: u8] ! r), gk_b = 0 \<rparr>"
  have valid: "filter (key_valid []) [0, 1, 2 :: nat] = [0, 1, 2]" by (simp add: key_valid_def)
  have no: "pl_group_key_repr a_group_plan = Map.empty" "pl_group_state a_group_plan = Map.empty"
    "pl_group_keys a_group_plan = []" "\<not> pl_group_emit_raw a_group_plan"
    by (simp_all add: a_group_plan_def plan_new_def)
  have "\<exists>plan'. foldR (process_group_row a_group_ctx []) a_group_plan [0, 1, 2] = Ok plan' \<and>
      grouped a_group_ctx a_group_plan ?f (filter (key_valid []) [0, 1, 2]) plan'"
  proof (rule chunk_groups [where rows = 3 and rep = "\<lambda>_. None"])
    show "nulls_cover [] 3" by (simp add: nulls_cover_def)
    show "\<forall>ai \<in> set (gc_inputs a_group_ctx). input_covers 3 ai" by (simp add: a_group_ctx_def)
    show "keys_agree a_group_ctx a_group_plan (filter (key_valid []) [0, 1, 2]) ?f (\<lambda>_. None)"
      unfolding valid by (rule keys_agreeI) (auto simp: a_group_key no)
  qed (simp_all add: no)
  then obtain plan' where p: "foldR (process_group_row a_group_ctx []) a_group_plan [0, 1, 2] = Ok plan'"
    and g: "grouped a_group_ctx a_group_plan ?f [0, 1, 2] plan'"
    unfolding valid by blast
  have keys: "pl_group_keys plan' = [\<lparr> gk_a = 7, gk_b = 0 \<rparr>, \<lparr> gk_a = 9, gk_b = 0 \<rparr>]"
    using g by (simp add: grouped_def no)
  have start: "start_aggs a_group_plan k = [GA_Numeric agg_empty]" for k
    unfolding start_aggs_def no
    by (simp add: a_group_plan_def new_group_state_def AGG_KIND_COUNT_STAR_def AGG_KIND_APPROX_DISTINCT_def)
  have one: "row_aggs a_group_ctx a_group_plan r aggs = Ok (count_first aggs)" for r aggs
    by (simp add: row_aggs_def a_group_plan_def count_only_def)
  have "pl_group_state plan' \<lparr> gk_a = 7, gk_b = 0 \<rparr> = Some \<lparr> gs_aggs = [GA_Numeric (count_one (count_one agg_empty))] \<rparr>"
    using g by (simp add: grouped_def start one)
  with p keys show ?thesis by blast
qed

text \<open>C24: The aggregate of a column over several chunks, merged by kind: the count is the number of
  selected non-NULL values (NaN apart), the minimum and maximum that the kind reports are bounds
  of the values and attained or those of the empty aggregate, and the sum of a SUM or AVG is the
  sum of the sums of the chunks in chunk order.\<close>

theorem aggregates_merge:
  assumes "list_all chunk_fits cs" "kind \<noteq> AGG_KIND_COUNT_STAR"
  shows "\<exists>sts st. mapR (aggregate_chunk col) cs = Ok sts \<and>
    st = foldl (\<lambda>s t. merge_agg_by_kind s t kind) agg_empty sts \<and>
    reports kind st (concat (map (chunk_values col) cs)) \<and>
    (kind \<notin> {AGG_KIND_MIN, AGG_KIND_MAX} \<longrightarrow>
       a_sum st = foldl f_add f_zero (map (foldl f_add f_zero)
         (filter (\<lambda>vs. vs \<noteq> []) (map (chunk_values col) cs))))"
proof -
  have fits: "list_all (\<lambda>vs. length vs < 2 ^ 32) (map (chunk_values col) cs)"
    using assms(1) length_chunk_values by (simp add: list.pred_map list_all_iff)
  show ?thesis
    using aggregate_chunks_pass [OF assms(1), of col] chunks_report [OF assms, of col]
      merged_by_kind(4) [OF assms(2), of agg_empty agg_empty] merged_sum [OF fits, of agg_empty]
    by (auto simp: agg_empty_def)
qed

theorem aggregates_merge_witness:
  "\<exists>sts. mapR (aggregate_chunk (a_column TYPE_F64 0))
       [(CD_F64 [f_one, f_zero], replicate MASK_WORDS 3, 2), (CD_F64 [f_one], replicate MASK_WORDS 0, 1)] = Ok sts \<and>
     a_count (foldl (\<lambda>s t. merge_agg_by_kind s t AGG_KIND_MIN) agg_empty sts) = 2"
proof -
  let ?cs = "[(CD_F64 [f_one, f_zero], replicate MASK_WORDS 3, 2), (CD_F64 [f_one], replicate MASK_WORDS 0, 1)]
    :: column_chunk list"
  have "list_all chunk_fits ?cs"
    by (simp add: chunk_fits_def is_mask_def ROWS_PER_CHUNK_def column_rows_def column_f64_def)
  moreover have "AGG_KIND_MIN \<noteq> AGG_KIND_COUNT_STAR" by (simp add: AGG_KIND_MIN_def AGG_KIND_COUNT_STAR_def)
  ultimately obtain sts where sts: "mapR (aggregate_chunk (a_column TYPE_F64 0)) ?cs = Ok sts"
    "reports AGG_KIND_MIN (foldl (\<lambda>s t. merge_agg_by_kind s t AGG_KIND_MIN) agg_empty sts)
       (concat (map (chunk_values (a_column TYPE_F64 0)) ?cs))"
    using aggregates_merge [of ?cs AGG_KIND_MIN "a_column TYPE_F64 0"] by blast
  have nan: "\<not> is_nan f_one" "\<not> is_nan f_zero" by (simp_all add: finite_not_nan)
  have rows: "[0..<2] = [0, Suc 0]" by (simp add: upt_rec)
  have "filter (mask_bit (replicate MASK_WORDS 3)) [0..<2] = [0, Suc 0]"
    "filter (mask_bit (replicate MASK_WORDS 0)) [0..<1] = []"
    unfolding rows by (simp_all add: mask_bit_replicate MASK_WORDS_def ROWS_PER_CHUNK_def)
  then have vs: "concat (map (chunk_values (a_column TYPE_F64 0)) ?cs) = [f_one, f_zero]"
    by (simp add: chunk_values_def agg_inputs_def nan)
  have "a_count (foldl (\<lambda>s t. merge_agg_by_kind s t AGG_KIND_MIN) agg_empty sts) = 2"
    using sts(2) unfolding vs reports_def by simp
  with sts(1) show ?thesis by blast
qed


lemma concat_concat_map: "concat (concat xss) = concat (map concat xss)"
  by (induction xss) simp_all

text \<open>C25: The sketches of APPROX_DISTINCT: workers that each run some of the chunks get registers whose
  merge is the sketch of one worker that runs them all, and depends only on the set of hashed
  values, not on their number, order or distribution.\<close>

theorem sketches_merge:
  assumes "\<forall>part \<in> set parts. list_all chunk_fits part"
  shows "\<exists>sts. mapR (foldR (sketch_chunk xxh) (hll_new p)) parts = Ok sts \<and>
    foldR (sketch_chunk xxh) (hll_new p) (concat parts) = Ok (foldl hll_merge (hll_new p) sts) \<and>
    (\<forall>hs. set hs = (\<Union>c \<in> set (concat parts). set (chunk_hashes xxh c)) \<longrightarrow>
       foldl hll_merge (hll_new p) sts = hll_sketch p hs)"
proof -
  let ?hs = "\<lambda>cs. concat (map (chunk_hashes xxh) cs)"
  have part: "foldR (sketch_chunk xxh) (hll_new p) cs = Ok (hll_sketch p (?hs cs))" if "list_all chunk_fits cs" for cs
    using sketch_chunks [OF that hll_ok_new] by (simp add: hll_sketch_def)
  have sts: "mapR (foldR (sketch_chunk xxh) (hll_new p)) parts = Ok (map (\<lambda>cs. hll_sketch p (?hs cs)) parts)"
    using assms by (induction parts) (simp_all add: part)
  have "list_all chunk_fits (concat parts)" using assms by (auto simp: list_all_iff)
  then have all: "foldR (sketch_chunk xxh) (hll_new p) (concat parts) = Ok (hll_sketch p (?hs (concat parts)))"
    by (rule part)
  have "hll_new p = hll_sketch p []" by (simp add: hll_sketch_def)
  then have merged: "foldl hll_merge (hll_new p) (map (\<lambda>cs. hll_sketch p (?hs cs)) parts) = hll_sketch p (?hs (concat parts))"
    using merged_sketches [of p "[]" "map ?hs parts"]
    by (simp add: comp_def map_concat concat_concat_map)
  show ?thesis
    unfolding sts all using merged by (auto intro: hll_sketch_set)
qed

theorem sketches_merge_witness:
  "\<exists>sts. mapR (foldR (sketch_chunk (\<lambda>_. 1)) (hll_new 4))
      [[(CD_U8 [5], replicate MASK_WORDS 1, 1)], [(CD_U8 [5], replicate MASK_WORDS 1, 1)]] = Ok sts \<and>
    foldl hll_merge (hll_new 4) sts = hll_sketch 4 [1]"
proof -
  let ?c = "(CD_U8 [5], replicate MASK_WORDS 1, 1) :: column_chunk"
  have "\<forall>part \<in> set [[?c], [?c]]. list_all chunk_fits part"
    by (simp add: chunk_fits_def is_mask_def ROWS_PER_CHUNK_def column_rows_def column_f64_def)
  from sketches_merge [OF this, of "\<lambda>_. 1" 4]
  obtain sts where sts: "mapR (foldR (sketch_chunk (\<lambda>_. 1)) (hll_new 4)) [[?c], [?c]] = Ok sts"
    "\<forall>hs. set hs = (\<Union>c \<in> set (concat [[?c], [?c]]). set (chunk_hashes (\<lambda>_. 1) c)) \<longrightarrow>
       foldl hll_merge (hll_new 4) sts = hll_sketch 4 hs" by blast
  have "filter (mask_bit (replicate MASK_WORDS 1)) [0..<1] = [0]"
    by (simp add: mask_bit_replicate MASK_WORDS_def ROWS_PER_CHUNK_def)
  then have "set (chunk_hashes (\<lambda>_. 1) ?c) = {1}" by (simp add: chunk_hashes_def hll_hash_def)
  then have "set [1] = (\<Union>c \<in> set (concat [[?c], [?c]]). set (chunk_hashes (\<lambda>_. 1) c))" by simp
  with sts(2) have "foldl hll_merge (hll_new 4) sts = hll_sketch 4 [1]" by blast
  with sts(1) show ?thesis by blast
qed

section \<open>Rows in order\<close>

text \<open>C26: ORDER BY with LIMIT and OFFSET over workers: when every worker sends the first
  limit + offset of its candidate rows, in any order, as the bytes of its heap, the reducer that
  merges the messages ends with the row numbers of the window of all candidates in order.\<close>

theorem order_by_workers:
  assumes "ps h = Some p" "pl_row_order_by p \<noteq> []" "pl_limit p \<noteq> 0" "pl_row_heap p = []" "pl_rows p = []"
    and "list_all2 (\<lambda>cs bs. list_all candidate_fits cs \<and> worker_message (row_take_count p) cs bs) parts messages"
  shows "\<exists>p'. snd (plan_reducer_finalize (merge_messages h ps messages) h) h = Some p' \<and>
    pl_rows p' = map rc_row_id (take (unat (pl_limit p)) (drop (unat (pl_offset p)) (sort_by row_le (concat parts))))"
proof -
  let ?n = "row_take_count p"
  let ?heap = "foldl (\<lambda>heap bs. fst (merge_candidates ?n heap bs)) [] messages"
  have heap: "?heap = take ?n (sort_by row_le (concat parts))"
    using merge_workers [OF assms(6), of "[]"] by simp
  let ?p = "p\<lparr> pl_row_heap := ?heap \<rparr>"
  have merged: "merge_messages h ps messages = ps(h \<mapsto> ?p)"
    using merge_messages_heap [of ps h p messages] assms(1-4) by simp
  have n: "?n \<noteq> 0" using assms(3) by (auto simp: row_take_count_def unat_eq_zero)
  show ?thesis
  proof (cases "concat parts = []")
    case True
    have "?heap = []" unfolding heap True by (simp add: sort_by_def)
    then show ?thesis using assms(2,5) unfolding True
      by (simp add: merged plan_reducer_finalize_def update_plan_def sort_by_def)
  next
    case False
    then have ne: "?heap \<noteq> []" using heap n by (metis candidates.mset_sort mset_zero_iff take_eq_Nil)
    have "pl_rows (finalize_rows_from_heap ?p) =
        map rc_row_id (take (unat (pl_limit p)) (drop (unat (pl_offset p)) (sort_by row_le (concat parts))))"
    proof -
      have "pl_row_heap ?p = take (row_take_count ?p) (sort_by row_le (concat parts))"
        using heap by (simp add: row_take_count_heap)
      moreover have "pl_limit ?p \<noteq> 0" using assms(3) by simp
      ultimately have "pl_rows (finalize_rows_from_heap ?p) =
          map rc_row_id (take (unat (pl_limit ?p)) (drop (unat (pl_offset ?p)) (sort_by row_le (concat parts))))"
        using False by (rule finalize_heap_rows)
      then show ?thesis by simp
    qed
    then show ?thesis using ne assms(2) n
      by (simp add: merged plan_reducer_finalize_def update_plan_def row_take_count_heap)
  qed
qed


theorem order_by_workers_witness:
  "\<exists>p'. snd (plan_reducer_finalize (merge_messages 1
       [1 \<mapsto> (plan_new 0)\<lparr> pl_limit := 1, pl_row_order_by := [0] \<rparr>]
       [candidate_bytes \<lparr> rc_k1 = RK_Null, rc_k2 = None, rc_row_id = 7 \<rparr>,
        candidate_bytes \<lparr> rc_k1 = RK_Null, rc_k2 = None, rc_row_id = 3 \<rparr>]) 1) 1 = Some p' \<and> pl_rows p' = [3]"
proof -
  let ?p = "(plan_new 0)\<lparr> pl_limit := 1, pl_row_order_by := [0] \<rparr>"
  let ?c = "\<lambda>r :: u64. \<lparr> rc_k1 = RK_Null, rc_k2 = None, rc_row_id = r \<rparr>"
  have n: "row_take_count ?p = 1" by (simp add: row_take_count_def plan_new_def)
  have one: "sort_by row_le [c] = [c]" for c by (simp add: sort_by_def)
  have msg: "worker_message 1 [?c r] (candidate_bytes (?c r))" for r
    unfolding worker_message_def one by (intro exI [of _ "[?c r]"]) simp
  have "\<exists>p'. snd (plan_reducer_finalize (merge_messages 1 [1 \<mapsto> ?p] [candidate_bytes (?c 7), candidate_bytes (?c 3)]) 1) 1
      = Some p' \<and>
    pl_rows p' = map rc_row_id (take (unat (pl_limit ?p)) (drop (unat (pl_offset ?p)) (sort_by row_le (concat [[?c 7], [?c 3]]))))"
    by (rule order_by_workers) (simp_all add: n msg [simplified] candidate_fits_def key_fits_def, simp_all add: plan_new_def)
  moreover have "sort_by row_le (concat [[?c 7], [?c 3]]) = [?c 3, ?c 7]"
    by (simp add: sort_by_def row_le_def cmp_candidate_def cmp_then_def cmp_by_def)
  ultimately show ?thesis by (simp add: plan_new_def)
qed

text \<open>C27: The order keys of a dictionary string column compare as the strings: with the cached ranks of
  the dictionary the key of a row is a number, and two such keys compare as the bytes of the rows'
  values, equal strings by their ids.\<close>

theorem rank_keys_order:
  assumes "dictionary_len d < 2 ^ 32" "oc_nulls oc = None" "oc_lex_ranks oc = Some (build_dict_lex_ranks d)"
    and "c_flags (oc_col oc) AND FLAG_DICT \<noteq> 0"
    and "dict_index_at (oc_data oc) r = Some i" "i < dictionary_len d"
    and "dict_index_at (oc_data oc) s = Some j" "j < dictionary_len d"
  shows "\<exists>k l. read_order_key oc r = Ok k \<and> read_order_key oc s = Ok l \<and>
    cmp_row_key k l = sgn (cmp_dict_ids d i j)"
proof -
  have key: "read_order_key oc r = Ok (RK_Num (f_of_int (uint (build_dict_lex_ranks d ! i))))"
    if "dict_index_at (oc_data oc) r = Some i" "i < dictionary_len d" for r i
    using that assms(2-4) lex_ranks_ok(1) [of d]
    by (simp add: read_order_key_def order_id_def get_def)
  show ?thesis using key [OF assms(5,6)] key [OF assms(7,8)] cmp_rank_keys [OF assms(1,6,8)] by simp
qed

definition a_dict :: dictionary where
  "a_dict = dictionary_new\<lparr> d_values := [[98], [97]] \<rparr>"

theorem rank_keys_order_witness:
  "\<exists>k l. read_order_key \<lparr> oc_col = a_column TYPE_STRING FLAG_DICT, oc_data = CD_U8 [0, 1], oc_nulls = None,
        oc_dict = Some a_dict, oc_lex_ranks = Some (build_dict_lex_ranks a_dict) \<rparr> 0 = Ok k \<and>
      read_order_key \<lparr> oc_col = a_column TYPE_STRING FLAG_DICT, oc_data = CD_U8 [0, 1], oc_nulls = None,
        oc_dict = Some a_dict, oc_lex_ranks = Some (build_dict_lex_ranks a_dict) \<rparr> 1 = Ok l \<and> cmp_row_key k l = 1"
proof -
  let ?oc = "\<lparr> oc_col = a_column TYPE_STRING FLAG_DICT, oc_data = CD_U8 [0, 1], oc_nulls = None,
        oc_dict = Some a_dict, oc_lex_ranks = Some (build_dict_lex_ranks a_dict) \<rparr>"
  have len: "dictionary_len a_dict = 2" by (simp add: dictionary_len_def a_dict_def dictionary_new_def)
  have "\<exists>k l. read_order_key ?oc 0 = Ok k \<and> read_order_key ?oc 1 = Ok l \<and>
      cmp_row_key k l = sgn (cmp_dict_ids a_dict 0 1)"
    by (rule rank_keys_order) (simp_all add: len a_column_def FLAG_DICT_def dict_index_at_def get_def)
  moreover have "sgn (cmp_dict_ids a_dict 0 1) = 1"
    by (simp add: cmp_dict_ids_def dict_bytes_or_empty_def dict_value_bytes_def a_dict_def dictionary_new_def cmp_then_def get_def)
  ultimately show ?thesis by simp
qed


section \<open>Histograms and group keys\<close>

text \<open>C28: The heap that selects the groups of a histogram gives the window of the fully sorted list: by
  descending count and ascending id the groups with a count, by descending sum the groups whose
  sum is not zero.\<close>

theorem histogram_window:
  "hist_topk_by_count counts n offset limit =
     take (unat limit) (drop (unat offset) (hist_entries_full_sort counts n True)) \<and>
   hist_topk_by_sum sums n offset limit =
     take (unat limit) (drop (unat offset) (sort_by (\<lambda>a b. cmp_output total_key a b \<le> 0)
       (map prod.swap (hist_entries (\<lambda>s. f_eq s f_zero) sums n))))"
  using hist_topk_count hist_topk_window [OF inj_total_key] unfolding hist_topk_by_sum_def by blast

text \<open>C29: A GROUP BY on one dictionary column over workers: each counts the ids of its chunks and sends
  the counts as bytes; in the merged histogram the count of an id is the number of the selected
  rows of all chunks that have it and no NULL key, or the largest count if there are more.\<close>

theorem histograms_merge:
  assumes "ps h = Some p" "pl_hist_dict_len p = n" "n \<noteq> 0" "pl_hist_counts p = Some (replicate (unat n + 1) 0)"
    and "list_all2 (\<lambda>cs bs. list_all hist_chunk_fits cs \<and> hist_partial_of n cs = Ok bs) parts ms"
  shows "\<exists>c. merge_group_messages h ps ms = ps(h \<mapsto> p\<lparr> pl_hist_counts := Some c \<rparr>) \<and>
    (\<forall>k < unat n. unat (c ! k) =
       min (2 ^ 32 - 1) (length (filter (\<lambda>i. i = k) (concat (map hist_chunk_ids (concat parts))))))"
proof -
  let ?ids = "\<lambda>cs. concat (map hist_chunk_ids cs)"
  have "list_all2 (\<lambda>ids bs. bs = encode_group_hist_partial n (foldl bump_count (replicate (unat n + 1) 0) ids) None)
      (map ?ids parts) ms"
    using assms(5) by (induction rule: list_all2_induct) (auto simp: hist_partial_of_def count_chunks)
  with merge_hist_messages [of ps h p n "replicate (unat n + 1) 0" "map ?ids parts" ms] assms(1-4)
  obtain c where c: "merge_group_messages h ps ms = ps(h \<mapsto> p\<lparr> pl_hist_counts := Some c \<rparr>)"
    "\<forall>k < unat n. unat (c ! k) = min (2 ^ 32 - 1)
       (unat (replicate (unat n + 1) (0 :: u32) ! k) + length (filter (\<lambda>i. i = k) (concat (map ?ids parts))))" by auto
  have "concat (map ?ids parts) = ?ids (concat parts)" by (simp add: map_concat concat_concat_map comp_def)
  moreover have "unat (replicate (unat n + 1) (0 :: u32) ! k) = 0" if "k < unat n" for k
    using that nth_replicate [of k "unat n + 1" "0 :: u32"] by (simp del: replicate_Suc)
  ultimately have "\<forall>k < unat n. unat (c ! k) =
       min (2 ^ 32 - 1) (length (filter (\<lambda>i. i = k) (?ids (concat parts))))"
    using c(2) by (simp del: replicate_Suc)
  with c(1) show ?thesis by blast
qed

theorem histograms_merge_witness:
  "\<exists>bs c. hist_partial_of 2 [(CD_U8 [1, 0, 1], replicate MASK_WORDS 5, 3, [])] = Ok bs \<and>
     merge_group_messages 1 [1 \<mapsto> (plan_new 0)\<lparr> pl_hist_dict_len := 2, pl_hist_counts := Some [0, 0, 0] \<rparr>] [bs, bs] =
       [1 \<mapsto> (plan_new 0)\<lparr> pl_hist_dict_len := 2, pl_hist_counts := Some c \<rparr>] \<and> unat (c ! 1) = 4"
proof -
  let ?p = "(plan_new 0)\<lparr> pl_hist_dict_len := 2, pl_hist_counts := Some [0, 0, 0] \<rparr>"
  let ?c = "(CD_U8 [1, 0, 1], replicate MASK_WORDS 5, 3, []) :: hist_chunk"
  have fits: "list_all hist_chunk_fits [?c]"
    by (simp add: hist_chunk_fits_def is_mask_def ROWS_PER_CHUNK_def column_rows_def column_f64_def nulls_cover_def)
  then obtain bs where bs: "hist_partial_of 2 [?c] = Ok bs"
    using count_chunks [OF fits, of "replicate (unat (2 :: u32) + 1) 0"] by (auto simp: hist_partial_of_def)
  have two: "unat (2 :: u32) = 2" by simp
  have zero: "replicate (unat (2 :: u32) + 1) 0 = [0, 0, 0 :: u32]" unfolding two by (simp add: eval_nat_numeral)
  have rows: "[0..<3] = [0, 1, 2]" by (simp add: upt_rec)
  have ids: "hist_chunk_ids ?c = [1, 1]"
    by (simp add: hist_chunk_ids_def hist_ids_def rows mask_bit_replicate MASK_WORDS_def ROWS_PER_CHUNK_def key_valid_def
        map_filter_simps dict_index_at_def get_def)
  have "\<exists>c. merge_group_messages 1 [1 \<mapsto> ?p] [bs, bs] = [1 \<mapsto> ?p](1 \<mapsto> ?p\<lparr> pl_hist_counts := Some c \<rparr>) \<and>
    (\<forall>k < unat (2 :: u32). unat (c ! k) =
       min (2 ^ 32 - 1) (length (filter (\<lambda>i. i = k) (concat (map hist_chunk_ids (concat [[?c], [?c]]))))))"
  proof (rule histograms_merge)
    show "pl_hist_counts ?p = Some (replicate (unat (2 :: u32) + 1) 0)" by (simp only: zero) simp
    show "list_all2 (\<lambda>cs bs. list_all hist_chunk_fits cs \<and> hist_partial_of 2 cs = Ok bs) [[?c], [?c]] [bs, bs]"
      unfolding list_all2_Cons using fits bs by simp
  qed simp_all
  then obtain c where c: "merge_group_messages 1 [1 \<mapsto> ?p] [bs, bs] = [1 \<mapsto> ?p](1 \<mapsto> ?p\<lparr> pl_hist_counts := Some c \<rparr>)"
    "\<forall>k < unat (2 :: u32). unat (c ! k) =
       min (2 ^ 32 - 1) (length (filter (\<lambda>i. i = k) (concat (map hist_chunk_ids (concat [[?c], [?c]])))))" by blast
  have "concat (map hist_chunk_ids (concat [[?c], [?c]])) = [1, 1, 1, 1]" unfolding concat.simps list.map append.simps ids by simp
  note four = this
  have "unat (c ! 1) = 4" using c(2) unfolding four by simp
  with bs c(1) show ?thesis by auto
qed

text \<open>C30: The byte form of a materialised group key identifies the values of key columns that are strings
  (shorter than 2^32 bytes), integers or truth values: the keys of two rows are built, they have the
  same byte form exactly when the rows have the same value in every key column, and then they have
  the same 128-bit key. Columns of doubles are not covered: their keys lose the fraction.\<close>

theorem group_key_bytes:
  assumes "row_cells keys r1 dicts = Some xs" "row_cells keys r2 dicts = Some ys" "list_all short_cell (xs @ ys)"
  shows "\<exists>k1 k2. build_group_key_materialized xxh seeded keys r1 dicts = Ok k1 \<and>
    build_group_key_materialized xxh seeded keys r2 dicts = Ok k2 \<and>
    (mk_repr k1 = mk_repr k2 \<longleftrightarrow> xs = ys) \<and> (xs = ys \<longrightarrow> mk_key k1 = mk_key k2)"
proof -
  obtain us vs where c: "key_contents xxh keys r1 dicts = Ok us" "key_contents xxh keys r2 dicts = Ok vs"
      "us = vs \<longleftrightarrow> xs = ys" "\<forall>u \<in> set us \<union> set vs. length u < 2 ^ 32"
    using row_cells_contents [OF assms, of xxh] by blast
  obtain k1 k2 where k: "build_group_key_materialized xxh seeded keys r1 dicts = Ok k1"
      "mk_key k1 = \<lparr> gk_a = xxh (mk_repr k1), gk_b = seeded (mk_repr k1) KEY_SEED \<rparr>"
      "build_group_key_materialized xxh seeded keys r2 dicts = Ok k2"
      "mk_key k2 = \<lparr> gk_a = xxh (mk_repr k2), gk_b = seeded (mk_repr k2) KEY_SEED \<rparr>"
    using materialized_repr [OF c(1), of seeded] materialized_repr [OF c(2), of seeded] by blast
  have "mk_repr k1 = mk_repr k2 \<longleftrightarrow> us = vs" by (rule materialized_repr_eq [OF c(1,2,4) k(1,3)])
  with k c(3) show ?thesis by auto
qed

theorem group_key_bytes_witness:
  "\<exists>k1 k2. build_group_key_materialized (\<lambda>_. 0) (\<lambda>_ _. 0)
        [(a_column TYPE_STRING FLAG_DICT, CD_U8 [0, 1]), (a_column TYPE_U8 0, CD_I8 [5, 5])] 0 [0 \<mapsto> a_dict] = Ok k1 \<and>
    build_group_key_materialized (\<lambda>_. 0) (\<lambda>_ _. 0)
        [(a_column TYPE_STRING FLAG_DICT, CD_U8 [0, 1]), (a_column TYPE_U8 0, CD_I8 [5, 5])] 1 [0 \<mapsto> a_dict] = Ok k2 \<and>
    mk_repr k1 \<noteq> mk_repr k2"
proof -
  let ?keys = "[(a_column TYPE_STRING FLAG_DICT, CD_U8 [0, 1]), (a_column TYPE_U8 0, CD_I8 [5, 5])]"
  have cells: "row_cells ?keys 0 [0 \<mapsto> a_dict] = Some [Text [98], Whole 5]" "row_cells ?keys 1 [0 \<mapsto> a_dict] = Some [Text [97], Whole 5]"
    by (simp_all add: row_cells_def cell_at_def read_key_bytes_def a_column_def dict_index_at_def get_def
        dict_value_bytes_def a_dict_def dictionary_new_def TYPE_STRING_def TYPE_U8_def)
  show ?thesis using group_key_bytes [OF cells, of "\<lambda>_. 0" "\<lambda>_ _. 0"] by (auto simp: short_cell_def)
qed

section \<open>The table of plans\<close>

text \<open>C31: In every state that calls can reach, each plan keeps its invariant: the listed group keys are
  the keys of the group map without repetition, byte forms belong to groups, every aggregate but
  the sketches has its state, and the histogram is longer than its dictionary.\<close>

theorem plan_invariant:
  assumes "plan_run decompress xxh seeded decode_ids (n, rts, plans)"
  shows "plans_ok plans"
  using plan_run_ok [OF assms] by simp

theorem plan_invariant_witness:
  "plans_ok (snd (plan_set_limit [1 \<mapsto> plan_new 5] 1 3))"
proof -
  let ?run = "plan_run (\<lambda>_ _. None) (\<lambda>_. 0) (\<lambda>_ _. 0) (\<lambda>_ _ d. Ok ([], d))"
  have "create_plan 1 Map.empty 5 = (1, 2, [1 \<mapsto> plan_new 5])"
    by (simp add: create_plan_def next_handle_def)
  then have "?run (2, Map.empty, [1 \<mapsto> plan_new 5])"
    by (rule plan_run.call [OF plan_run.start plan_call.create])
  then have "?run (2, Map.empty, snd (plan_set_limit [1 \<mapsto> plan_new 5] 1 3))"
    by (rule plan_run.call) (rule plan_call.set_limit)
  then show ?thesis by (rule plan_invariant)
qed

text \<open>C32: Reading results does not panic in any state that calls can reach: the aggregates and the
  partial histogram are copied or refused with a size, and without limit and offset every group is
  written once, in the order of the first rows.\<close>

theorem results_readable:
  assumes "plan_run decompress xxh seeded decode_ids (n, rts, plans)"
  shows "(\<exists>code bs. plan_copy_aggs ln sqrt plans h out_len = Ok (code, bs)) \<and>
    (\<exists>code bs. plan_copy_group_hist_partial plans h out_len = Ok (code, bs)) \<and>
    (\<forall>p. plans h = Some p \<and> pl_limit p = 0 \<and> pl_offset p = 0 \<and> \<not> pl_group_emit_raw p \<and> pl_hist_dict_len p = 0 \<longrightarrow>
       copy_groups p out_len =
         copy_out out_len (length (pl_group_keys p) * (16 + length (pl_group_aggs p) * AGG_RECORD_BYTES))
           (concat (map (\<lambda>key. group_record p key (the (pl_group_state p key))) (pl_group_keys p))))"
proof -
  have ok: "plans_ok plans" using plan_run_ok [OF assms] by simp
  show ?thesis
    using copy_aggs_total [OF ok] copy_hist_total [OF ok] all_groups_written plans_okD [OF ok] by blast
qed

theorem results_readable_witness:
  "\<exists>code bs. plan_copy_aggs (\<lambda>v. v) (\<lambda>v. v) [1 \<mapsto> plan_new 5] 1 0 = Ok (code, bs)"
proof -
  have "create_plan 1 Map.empty 5 = (1, 2, [1 \<mapsto> plan_new 5])"
    by (simp add: create_plan_def next_handle_def)
  then have "plan_run (\<lambda>_ _. None) (\<lambda>_. 0) (\<lambda>_ _. 0) (\<lambda>_ _ d. Ok ([], d)) (2, Map.empty, [1 \<mapsto> plan_new 5])"
    by (rule plan_run.call [OF plan_run.start plan_call.create])
  from results_readable [OF this] show ?thesis by blast
qed

text \<open>C33: The search for a free key after a hash collision ends when some seed from 1 on gives a key that
  is not in use, and the key it returns is free and keeps the first half of the key.\<close>

theorem collision_search_ends:
  assumes "0 < seed" "existing \<lparr> gk_a = gk_a base, gk_b = seeded bs (gk_b base XOR seed) \<rparr> = None"
  shows "\<exists>k. remap_group_key_for_collision seeded base bs existing = Some k \<and> existing k = None \<and>
    gk_a k = gk_a base"
  using remap_finds [of seed existing base seeded bs] assms by blast

theorem collision_search_ends_witness:
  "\<exists>k. remap_group_key_for_collision (\<lambda>_ s. s) \<lparr> gk_a = 1, gk_b = 0 \<rparr> [7]
       [\<lparr> gk_a = 1, gk_b = 0 \<rparr> \<mapsto> [8], \<lparr> gk_a = 1, gk_b = 1 \<rparr> \<mapsto> [9]] = Some k \<and>
     k \<noteq> \<lparr> gk_a = 1, gk_b = 1 \<rparr> \<and> gk_a k = 1"
proof -
  let ?m = "[\<lparr> gk_a = 1, gk_b = 0 \<rparr> \<mapsto> [8], \<lparr> gk_a = 1, gk_b = 1 \<rparr> \<mapsto> [9]] :: group_key \<rightharpoonup> bytes"
  have "\<exists>k. remap_group_key_for_collision (\<lambda>_ s. s) \<lparr> gk_a = 1, gk_b = 0 \<rparr> [7] ?m = Some k \<and> ?m k = None \<and>
      gk_a k = gk_a \<lparr> gk_a = 1, gk_b = 0 \<rparr>"
    by (rule collision_search_ends [of 2]) simp_all
  then show ?thesis by auto
qed

end
