(* ===== verification/Ordered_Map.thy ===== *)
theory Ordered_Map
  imports Prelude "HOL-Library.List_Lexorder" "HOL-Library.Product_Lexorder"
begin

text \<open>
  A \<^verbatim>\<open>BTreeMap\<close>: the list of its entries in ascending order of their keys. Rust compares
  strings and byte vectors, and pairs of integers, lexicographically, as the order instances
  of lists and pairs do. \<^verbatim>\<open>get\<close> is \<^const>\<open>map_of\<close>, \<^verbatim>\<open>insert\<close> is \<open>put_key\<close> and
  \<^verbatim>\<open>remove\<close> is \<open>drop_key\<close>.
\<close>

fun put_key :: "'k::linorder \<Rightarrow> 'v \<Rightarrow> ('k \<times> 'v) list \<Rightarrow> ('k \<times> 'v) list" where
  "put_key k v [] = [(k, v)]"
| "put_key k v ((l, w) # es) =
     (if k = l then (k, v) # es else if k < l then (k, v) # (l, w) # es
      else (l, w) # put_key k v es)"

definition drop_key :: "'k \<Rightarrow> ('k \<times> 'v) list \<Rightarrow> ('k \<times> 'v) list" where
  "drop_key k es = [e \<leftarrow> es. fst e \<noteq> k]"

definition keys_sorted :: "('k::linorder \<times> 'v) list \<Rightarrow> bool" where
  "keys_sorted es \<longleftrightarrow> sorted_wrt (<) (map fst es)"

lemma map_of_put_key: "map_of (put_key k v es) = (map_of es)(k \<mapsto> v)"
  by (induction k v es rule: put_key.induct) auto

lemma map_of_drop_key: "map_of (drop_key k es) = (map_of es)(k := None)"
  by (induction es) (auto simp: drop_key_def)

lemma keys_put_key: "fst ` set (put_key k v es) = insert k (fst ` set es)"
  by (induction k v es rule: put_key.induct) auto

lemma sorted_put_key: "keys_sorted es \<Longrightarrow> keys_sorted (put_key k v es)"
proof (induction k v es rule: put_key.induct)
  case (2 k v l w es)
  then show ?case
    using keys_put_key [of k v es] by (auto simp: keys_sorted_def)
qed (simp add: keys_sorted_def)

lemma sorted_drop_key: "keys_sorted es \<Longrightarrow> keys_sorted (drop_key k es)"
  by (induction es) (auto simp: keys_sorted_def drop_key_def)

lemma map_of_sorted_Cons:
  "keys_sorted ((k, v) # es) \<Longrightarrow> map_of es k = None"
  by (auto simp: keys_sorted_def map_of_eq_None_iff)

lemma distinct_keys: "keys_sorted es \<Longrightarrow> distinct (map fst es)"
  using strict_sorted_iff [of "map fst es"] by (simp add: keys_sorted_def)

lemma map_of_mem: "keys_sorted es \<Longrightarrow> map_of es k = Some v \<longleftrightarrow> (k, v) \<in> set es"
  by (simp add: distinct_keys)

text \<open>A map is determined by its entries.\<close>

lemma keys_sorted_unique:
  assumes "keys_sorted es" "keys_sorted fs" "map_of es = map_of fs"
  shows "es = fs"
proof -
  have set: "set es = set fs"
    using assms map_of_mem [OF assms(1)] map_of_mem [OF assms(2)] by auto
  moreover have "inj_on fst (set es)" using distinct_keys [OF assms(1)] by (simp add: distinct_map)
  ultimately show ?thesis
    by (intro map_sorted_distinct_set_unique [of fst es fs])
      (use assms(1,2) strict_sorted_iff [of "map fst es"] strict_sorted_iff [of "map fst fs"] in
        \<open>auto simp: keys_sorted_def\<close>)
qed

end
