(* ===== verification/View_Patch.thy ===== *)
theory View_Patch
  imports Ordered_Map
begin

text \<open>
  The patches of view models: \<^verbatim>\<open>engine-kernel/src/diff.rs\<close> computes the patches between
  two JSON values, \<^verbatim>\<open>engine-kernel/src/patch.rs\<close> applies them. A JSON value is
  \<^verbatim>\<open>serde_json::Value\<close>: its numbers are a type parameter, with the library's equality of
  numbers an argument (it is not identity: \<open>0.0\<close> equals \<open>-0.0\<close>), and an object is a
  \<^verbatim>\<open>BTreeMap\<close> (\<^theory_text>\<open>Ordered_Map\<close>). Strings are their UTF-8 bytes.
\<close>

section \<open>Values and patches\<close>

datatype (json_nums: 'n) json =
    Null
  | Bool bool
  | Number 'n
  | String bytes
  | Array "'n json list"
  | Object "(bytes \<times> 'n json) list"

datatype segment = Index nat | Key bytes

datatype 'v patch =
    Replace "segment list" 'v
  | Remove "segment list"
  | Insert "segment list" 'v

fun json_eq :: "('n \<Rightarrow> 'n \<Rightarrow> bool) \<Rightarrow> 'n json \<Rightarrow> 'n json \<Rightarrow> bool"
  and items_eq :: "('n \<Rightarrow> 'n \<Rightarrow> bool) \<Rightarrow> 'n json list \<Rightarrow> 'n json list \<Rightarrow> bool"
  and members_eq :: "('n \<Rightarrow> 'n \<Rightarrow> bool) \<Rightarrow> (bytes \<times> 'n json) list \<Rightarrow> (bytes \<times> 'n json) list \<Rightarrow> bool"
where
  "json_eq ne Null Null \<longleftrightarrow> True"
| "json_eq ne (Bool a) (Bool b) \<longleftrightarrow> a = b"
| "json_eq ne (Number a) (Number b) \<longleftrightarrow> ne a b"
| "json_eq ne (String a) (String b) \<longleftrightarrow> a = b"
| "json_eq ne (Array a) (Array b) \<longleftrightarrow> items_eq ne a b"
| "json_eq ne (Object a) (Object b) \<longleftrightarrow> members_eq ne a b"
| "json_eq ne _ _ \<longleftrightarrow> False"
| "items_eq ne [] [] \<longleftrightarrow> True"
| "items_eq ne (x # xs) (y # ys) \<longleftrightarrow> json_eq ne x y \<and> items_eq ne xs ys"
| "items_eq ne _ _ \<longleftrightarrow> False"
| "members_eq ne [] [] \<longleftrightarrow> True"
| "members_eq ne ((k, x) # xs) ((l, y) # ys) \<longleftrightarrow> k = l \<and> json_eq ne x y \<and> members_eq ne xs ys"
| "members_eq ne _ _ \<longleftrightarrow> False"

text \<open>The invariant of the maps in a value.\<close>

fun wf_json :: "'n json \<Rightarrow> bool" where
  "wf_json (Array xs) \<longleftrightarrow> list_all wf_json xs"
| "wf_json (Object es) \<longleftrightarrow> keys_sorted es \<and> list_all (\<lambda>(_, v). wf_json v) es"
| "wf_json _ \<longleftrightarrow> True"

section \<open>Computing patches\<close>

lemma size_items: "x \<in> set xs \<Longrightarrow> size x < Suc (size_list size xs)"
  by (simp add: less_Suc_eq_le size_list_estimation')

lemma size_members:
  assumes "map_of es k = Some v"
  shows "size v < Suc (size_list (size_prod (\<lambda>_. 0) size) es)"
proof -
  from assms have "(k, v) \<in> set es" by (rule map_of_SomeD)
  then show ?thesis
    by (simp add: less_Suc_eq_le) (rule size_list_estimation', assumption, simp)
qed

function diff_at :: "('n \<Rightarrow> 'n \<Rightarrow> bool) \<Rightarrow> 'n json \<Rightarrow> 'n json \<Rightarrow> segment list \<Rightarrow> 'n json patch list"
  and diff_items :: "('n \<Rightarrow> 'n \<Rightarrow> bool) \<Rightarrow> 'n json list \<Rightarrow> 'n json list \<Rightarrow> nat \<Rightarrow> segment list \<Rightarrow>
    'n json patch list"
  and diff_arrays :: "('n \<Rightarrow> 'n \<Rightarrow> bool) \<Rightarrow> 'n json list \<Rightarrow> 'n json list \<Rightarrow> segment list \<Rightarrow>
    'n json patch list"
  and diff_objects :: "('n \<Rightarrow> 'n \<Rightarrow> bool) \<Rightarrow> (bytes \<times> 'n json) list \<Rightarrow> (bytes \<times> 'n json) list \<Rightarrow>
    segment list \<Rightarrow> 'n json patch list"
where
  "diff_at ne prev next path =
     (if json_eq ne prev next then []
      else case (prev, next) of
        (Array a, Array b) \<Rightarrow> diff_arrays ne a b path
      | (Object a, Object b) \<Rightarrow> diff_objects ne a b path
      | _ \<Rightarrow> [Replace path next])"
| "diff_items ne (x # xs) (y # ys) i path =
     diff_at ne x y (path @ [Index i]) @ diff_items ne xs ys (Suc i) path"
| "diff_items ne [] ys i path = []"
| "diff_items ne (x # xs) [] i path = []"
| "diff_arrays ne a b path =
     (let patches = diff_items ne a b 0 path in
      if length a = length b \<and> patches \<noteq> [] then patches
      else if length a > length b
      then patches @ map (\<lambda>i. Remove (path @ [Index i])) (rev [length b..<length a])
      else patches @
        map (\<lambda>i. Replace (path @ [Index i]) (b ! i)) [length a..<length b])"
| "diff_objects ne a b path =
     concat (map (\<lambda>key.
       case (map_of a key, map_of b key) of
         (None, Some value) \<Rightarrow> [Replace (path @ [Key key]) value]
       | (Some _, None) \<Rightarrow> [Remove (path @ [Key key])]
       | (Some left, Some right) \<Rightarrow> diff_at ne left right (path @ [Key key])
       | (None, None) \<Rightarrow> [])
     (remdups_adj (sort (map fst a @ map fst b))))"
  by pat_completeness auto
termination
  by (relation "measure (\<lambda>p. case p of
        Inl (Inl (ne, prev, next, path)) \<Rightarrow> 2 * size prev
      | Inl (Inr (ne, a, b, i, path)) \<Rightarrow> 2 * size_list size a
      | Inr (Inl (ne, a, b, path)) \<Rightarrow> 2 * size_list size a + 1
      | Inr (Inr (ne, a, b, path)) \<Rightarrow> 2 * size_list (size_prod (\<lambda>_. 0) size) a + 1)")
    (auto dest!: size_members [OF sym])

declare diff_at.simps [simp del] diff_arrays.simps [simp del] diff_objects.simps [simp del]

definition diff_value :: "('n \<Rightarrow> 'n \<Rightarrow> bool) \<Rightarrow> 'n json \<Rightarrow> 'n json \<Rightarrow> 'n json patch list" where
  "diff_value ne prev next = diff_at ne prev next []"

section \<open>Applying patches\<close>

text \<open>\<^verbatim>\<open>str::parse::<usize>\<close> and \<^verbatim>\<open>usize::to_string\<close>.\<close>

definition parse_usize :: "bytes \<Rightarrow> nat option" where
  "parse_usize s =
     (let ds = (case s of b # r \<Rightarrow> if b = 43 then r else s | [] \<Rightarrow> [])
      in if ds = [] \<or> \<not> list_all is_digit ds \<or> 2 ^ 64 \<le> digits_value ds then None
         else Some (digits_value ds))"

fun segment_index :: "segment \<Rightarrow> nat result" where
  "segment_index (Index i) = Ok i"
| "segment_index (Key s) = of_option Panic (parse_usize s)"

fun segment_key :: "segment \<Rightarrow> bytes" where
  "segment_key (Key s) = s"
| "segment_key (Index i) = decimal i"

fun apply_leaf_array :: "'n json list \<Rightarrow> nat \<Rightarrow> 'n json patch \<Rightarrow> 'n json option \<Rightarrow> 'n json list result"
where
  "apply_leaf_array arr idx (Remove _) insert_value =
     (if idx < length arr then Ok (take idx arr @ drop (Suc idx) arr) else Err Panic)"
| "apply_leaf_array arr idx (Insert _ _) insert_value =
     bindR (of_option Panic insert_value) (\<lambda>value.
       if idx \<le> length arr then Ok (take idx arr @ value # drop idx arr) else Err Panic)"
| "apply_leaf_array arr idx (Replace _ _) insert_value =
     bindR (of_option Panic insert_value) (\<lambda>value.
       if idx = length arr then Ok (arr @ [value])
       else if idx < length arr then Ok (arr[idx := value]) else Err Panic)"

fun apply_leaf_object :: "(bytes \<times> 'n json) list \<Rightarrow> bytes \<Rightarrow> 'n json patch \<Rightarrow> 'n json option \<Rightarrow>
    (bytes \<times> 'n json) list result" where
  "apply_leaf_object obj key (Remove _) insert_value = Ok (drop_key key obj)"
| "apply_leaf_object obj key _ insert_value =
     bindR (of_option Panic insert_value) (\<lambda>value. Ok (put_key key value obj))"

fun mutate_at :: "'n json \<Rightarrow> segment list \<Rightarrow> 'n json patch \<Rightarrow> 'n json option \<Rightarrow> 'n json result" where
  "mutate_at node [] operation insert_value = Err Panic"
| "mutate_at node (head # rest) operation insert_value =
     (case node of
        Array items \<Rightarrow>
          bindR (segment_index head) (\<lambda>idx.
          if rest = [] then
            bindR (apply_leaf_array items idx operation insert_value) (\<lambda>arr. Ok (Array arr))
          else
            bindR (mutate_at (case get items idx of Some c \<Rightarrow> c | None \<Rightarrow> Null) rest operation
              insert_value) (\<lambda>child.
            if idx < length items then Ok (Array (items[idx := child])) else Err Panic))
      | Object members \<Rightarrow>
          (let key = segment_key head in
           if rest = [] then
             bindR (apply_leaf_object members key operation insert_value) (\<lambda>obj. Ok (Object obj))
           else
             bindR (mutate_at (case map_of members key of Some c \<Rightarrow> c | None \<Rightarrow> Null) rest operation
               insert_value) (\<lambda>child. Ok (Object (put_key key child members))))
      | _ \<Rightarrow> Err Panic)"

fun apply_one :: "'n json \<Rightarrow> 'n json patch \<Rightarrow> 'n json result" where
  "apply_one root (Replace path value) =
     (if path = [] then Ok value else mutate_at root path (Replace path value) (Some value))"
| "apply_one root (Remove path) =
     (if path = [] then Err Panic else mutate_at root path (Remove path) None)"
| "apply_one root (Insert path value) =
     (if path = [] then Ok value else mutate_at root path (Insert path value) (Some value))"

definition apply_patches :: "'n json \<Rightarrow> 'n json patch list \<Rightarrow> 'n json result" where
  "apply_patches value patches = foldR apply_one value patches"

end
