(* ===== verification/View_Patch_Facts.thy ===== *)
theory View_Patch_Facts
  imports View_Patch
begin

text \<open>
  The patches that \<open>diff_value\<close> computes, applied to the old value, give the new one; and the
  two forms of a path segment are interchangeable.
\<close>

section \<open>Segments\<close>

text \<open>An index written as a key is read as the index again.\<close>

lemma segment_index_key:
  assumes "i < 2 ^ 64"
  shows "segment_index (Key (segment_key (Index i))) = Ok i"
proof -
  obtain d ds where d: "decimal i = d # ds" using decimal_digits [of i] by (cases "decimal i") auto
  then have "is_digit d" using decimal_digits [of i] by simp
  then have "d \<noteq> 43" by (auto simp: is_digit_def word_le_nat_alt)
  with d decimal_digits [of i] assms show ?thesis
    by (simp add: parse_usize_def Let_def)
qed

section \<open>Equality of values\<close>

lemma json_eq_refl:
  assumes "\<And>n. ne n n"
  shows "json_eq ne v v" and "items_eq ne xs xs" and "members_eq ne es es"
proof -
  have "json_eq ne v v \<and> True" for v
  proof (induction v)
    case (Array xs)
    then have "items_eq ne xs xs" by (induction xs) auto
    then show ?case by simp
  next
    case (Object es)
    then have "json_eq ne (snd e) (snd e)" if "e \<in> set es" for e
      using that by (cases e) auto
    then have "members_eq ne es es" by (induction es) fastforce+
    then show ?case by simp
  qed (auto simp: assms)
  then have v: "json_eq ne v v" for v by simp
  then show "json_eq ne v v" .
  show "items_eq ne xs xs" by (induction xs) (auto simp: v)
  show "members_eq ne es es" by (induction es) (auto simp: v)
qed

lemma items_eq_nth:
  "items_eq ne xs ys \<longleftrightarrow> length xs = length ys \<and> (\<forall>i < length xs. json_eq ne (xs ! i) (ys ! i))"
proof (induction xs arbitrary: ys)
  case Nil
  then show ?case by (cases ys) auto
next
  case (Cons x xs)
  then show ?case by (cases ys) (auto simp: nth_Cons split: nat.splits)
qed

section \<open>Objects as maps\<close>

text \<open>Two objects are equal when they have the same keys with equal values.\<close>

definition same_members :: "('v \<Rightarrow> 'v \<Rightarrow> bool) \<Rightarrow> (bytes \<rightharpoonup> 'v) \<Rightarrow> (bytes \<rightharpoonup> 'v) \<Rightarrow> bool" where
  "same_members r m1 m2 \<longleftrightarrow> (\<forall>k. rel_option r (m1 k) (m2 k))"

lemma same_members_imp_eq:
  assumes "keys_sorted es" "keys_sorted fs" "same_members (json_eq ne) (map_of es) (map_of fs)"
  shows "members_eq ne es fs"
  using assms
proof (induction es arbitrary: fs)
  case Nil
  then show ?case by (cases fs) (auto simp: same_members_def split: if_splits)
next
  case (Cons e es)
  obtain k v where e: "e = (k, v)" by (cases e)
  have rel: "rel_option (json_eq ne) (map_of (e # es) l) (map_of fs l)" for l
    using Cons.prems(3) by (simp add: same_members_def)
  obtain l w gs where fs: "fs = (l, w) # gs"
    using rel [of k] e by (cases fs) auto
  have least: "k \<le> l'" if "l' \<in> fst ` set (e # es)" for l'
    using Cons.prems(1) that e by (auto simp: keys_sorted_def less_imp_le)
  have least': "l \<le> l'" if "l' \<in> fst ` set fs" for l'
    using Cons.prems(2) that fs by (auto simp: keys_sorted_def less_imp_le)
  have dom: "l' \<in> fst ` set (e # es) \<longleftrightarrow> l' \<in> fst ` set fs" for l'
    using rel [of l'] map_of_eq_None_iff [of "e # es" l'] map_of_eq_None_iff [of fs l']
    by (cases "map_of (e # es) l'"; cases "map_of fs l'") auto
  have kl: "k = l"
    using least [of l] least' [of k] dom [of l] dom [of k] by (auto simp: e fs)
  have "same_members (json_eq ne) (map_of es) (map_of gs)"
    unfolding same_members_def
  proof
    fix i
    show "rel_option (json_eq ne) (map_of es i) (map_of gs i)"
    proof (cases "i = k")
      case True
      then show ?thesis
        using map_of_sorted_Cons [of k v es] map_of_sorted_Cons [of l w gs] Cons.prems e fs kl by simp
    next
      case False
      then show ?thesis using rel [of i] by (simp add: e fs kl)
    qed
  qed
  moreover have "keys_sorted es" "keys_sorted gs"
    using Cons.prems by (auto simp: keys_sorted_def e fs)
  moreover have "json_eq ne v w" using rel [of k] by (simp add: e fs kl)
  ultimately show ?case using Cons.IH by (simp add: e fs kl)
qed

lemma members_eq_imp_same: "members_eq ne es fs \<Longrightarrow> same_members (json_eq ne) (map_of es) (map_of fs)"
  by (induction ne es fs rule: json_eq_items_eq_members_eq.induct(3)
      [where P = "\<lambda>_ _ _. True" and Q = "\<lambda>_ _ _. True"]) (auto simp: same_members_def)

lemma members_eq_same:
  "keys_sorted es \<Longrightarrow> keys_sorted fs \<Longrightarrow>
   members_eq ne es fs \<longleftrightarrow> same_members (json_eq ne) (map_of es) (map_of fs)"
  by (blast intro: same_members_imp_eq members_eq_imp_same)


section \<open>Paths\<close>

fun extend :: "segment list \<Rightarrow> 'v patch \<Rightarrow> 'v patch" where
  "extend pre (Replace path v) = Replace (pre @ path) v"
| "extend pre (Remove path) = Remove (pre @ path)"
| "extend pre (Insert path v) = Insert (pre @ path) v"

lemma extend_extend [simp]: "extend pre (extend path p) = extend (pre @ path) p"
  by (cases p) auto

lemma diff_extend:
  "diff_at ne v w (pre @ path) = map (extend pre) (diff_at ne v w path)"
  "diff_items ne xs ys i (pre @ path) = map (extend pre) (diff_items ne xs ys i path)"
  "diff_arrays ne xs ys (pre @ path) = map (extend pre) (diff_arrays ne xs ys path)"
  "diff_objects ne es fs (pre @ path) = map (extend pre) (diff_objects ne es fs path)"
proof (induction ne v w path and ne xs ys i path and ne xs ys path and ne es fs path
    rule: diff_at_diff_items_diff_arrays_diff_objects.induct)
  case (1 ne v w path)
  then show ?case
    by (cases "json_eq ne v w") (auto simp: diff_at.simps split: json.splits)
next
  case (5 ne a b path)
  then show ?case by (simp add: diff_arrays.simps Let_def)
next
  case (6 ne a b path)
  then show ?case
    by (auto simp: diff_objects.simps map_concat intro!: arg_cong [where f = concat] map_cong
        split: option.splits)
qed simp_all

lemma diff_below: "diff_at ne x y [s] = map (extend [s]) (diff_at ne x y [])"
  using diff_extend(1) [of ne x y "[s]" "[]"] by simp

section \<open>Patching below a node\<close>

fun is_insert :: "'v patch \<Rightarrow> bool" where
  "is_insert (Insert _ _) = True"
| "is_insert _ = False"

lemma is_insert_extend [simp]: "is_insert (extend pre p) = is_insert p"
  by (cases p) auto

lemma apply_leaf_extend [simp]:
  "apply_leaf_array arr i (extend pre p) v = apply_leaf_array arr i p v"
  "apply_leaf_object obj k (extend pre p) v = apply_leaf_object obj k p v"
  by (cases p; simp)+

lemma mutate_at_extend [simp]: "mutate_at node path (extend pre p) v = mutate_at node path p v"
  by (induction path arbitrary: node) (auto simp: Let_def split: json.splits intro!: arg_cong2 [where f = bindR])

fun patch_path :: "'v patch \<Rightarrow> segment list" where
  "patch_path (Replace path _) = path"
| "patch_path (Remove path) = path"
| "patch_path (Insert path _) = path"

fun patch_value :: "'v patch \<Rightarrow> 'v option" where
  "patch_value (Replace _ v) = Some v"
| "patch_value (Remove _) = None"
| "patch_value (Insert _ v) = Some v"

lemma apply_one_eq:
  "apply_one root p = (if patch_path p = [] then of_option Panic (patch_value p)
     else mutate_at root (patch_path p) p (patch_value p))"
  by (cases p) auto

lemma patch_extend [simp]:
  "patch_path (extend pre p) = pre @ patch_path p" "patch_value (extend pre p) = patch_value p"
  by (cases p; simp)+

lemma apply_one_item:
  assumes "i < length xs" "\<not> is_insert p" "apply_one (xs ! i) p = Ok v"
  shows "apply_one (Array xs) (extend [Index i] p) = Ok (Array (xs[i := v]))"
proof (cases "patch_path p = []")
  case True
  with assms show ?thesis by (cases p) auto
next
  case False
  with assms show ?thesis by (auto simp: apply_one_eq get_def)
qed

lemma apply_one_member:
  assumes "map_of es k = Some c" "keys_sorted es" "\<not> is_insert p" "apply_one c p = Ok v"
  shows "apply_one (Object es) (extend [Key k] p) = Ok (Object (put_key k v es))"
proof (cases "patch_path p = []")
  case True
  with assms show ?thesis by (cases p) auto
next
  case False
  with assms show ?thesis by (auto simp: apply_one_eq Let_def)
qed

lemma apply_patches_simps [simp]:
  "apply_patches v [] = Ok v"
  "apply_patches v (p # ps) = bindR (apply_one v p) (\<lambda>w. apply_patches w ps)"
  "apply_patches v (ps @ qs) = bindR (apply_patches v ps) (\<lambda>w. apply_patches w qs)"
  by (simp_all add: apply_patches_def)

lemma apply_item:
  assumes "i < length xs" "\<forall>p \<in> set ps. \<not> is_insert p" "apply_patches (xs ! i) ps = Ok v"
  shows "apply_patches (Array xs) (map (extend [Index i]) ps) = Ok (Array (xs[i := v]))"
  using assms
proof (induction ps arbitrary: xs)
  case (Cons p ps)
  then obtain w where w: "apply_one (xs ! i) p = Ok w" "apply_patches w ps = Ok v"
    by auto
  have "apply_patches (Array (xs[i := w])) (map (extend [Index i]) ps) =
      Ok (Array (xs[i := w, i := v]))"
    by (rule Cons.IH) (use Cons.prems w(2) in simp_all)
  with w(1) Cons.prems show ?case by (simp add: apply_one_item)
qed auto

lemma apply_member:
  assumes "map_of es k = Some c" "keys_sorted es" "\<forall>p \<in> set ps. \<not> is_insert p"
    and "apply_patches c ps = Ok v"
  shows "\<exists>fs. apply_patches (Object es) (map (extend [Key k]) ps) = Ok (Object fs) \<and>
    keys_sorted fs \<and> map_of fs = (map_of es)(k \<mapsto> v)"
  using assms
proof (induction ps arbitrary: es c)
  case Nil
  then show ?case by auto
next
  case (Cons p ps)
  then obtain w where w: "apply_one c p = Ok w" "apply_patches w ps = Ok v"
    by auto
  have "\<exists>fs. apply_patches (Object (put_key k w es)) (map (extend [Key k]) ps) = Ok (Object fs) \<and>
      keys_sorted fs \<and> map_of fs = (map_of (put_key k w es))(k \<mapsto> v)"
    by (rule Cons.IH [of _ w]) (use Cons.prems w(2) in \<open>simp_all add: map_of_put_key sorted_put_key\<close>)
  then obtain fs where fs: "apply_patches (Object (put_key k w es)) (map (extend [Key k]) ps) = Ok (Object fs)"
      "keys_sorted fs" "map_of fs = (map_of (put_key k w es))(k \<mapsto> v)"
    by blast
  have "apply_patches (Object es) (map (extend [Key k]) (p # ps)) = Ok (Object fs)"
    using Cons.prems w(1) fs(1) by (simp add: apply_one_member)
  moreover have "map_of fs = (map_of es)(k \<mapsto> v)"
    using fs(3) by (simp only: map_of_put_key fun_upd_upd)
  ultimately show ?case using fs(2) by blast
qed

section \<open>The patches of a difference\<close>

lemma diff_no_insert:
  "p \<in> set (diff_at ne v w path) \<Longrightarrow> \<not> is_insert p"
  "p \<in> set (diff_items ne xs ys i path) \<Longrightarrow> \<not> is_insert p"
  "p \<in> set (diff_arrays ne xs ys path) \<Longrightarrow> \<not> is_insert p"
  "p \<in> set (diff_objects ne es fs path) \<Longrightarrow> \<not> is_insert p"
proof (induction ne v w path and ne xs ys i path and ne xs ys path and ne es fs path
    rule: diff_at_diff_items_diff_arrays_diff_objects.induct)
  case (1 ne v w path)
  then show ?case
    by (cases "json_eq ne v w") (auto simp: diff_at.simps split: json.splits)
next
  case (5 ne a b path)
  then show ?case by (auto simp: diff_arrays.simps Let_def split: if_splits)
next
  case (6 ne a b path)
  from 6(2) obtain key where key: "key \<in> set (remdups_adj (sort (map fst a @ map fst b)))"
    and p: "p \<in> set (case (map_of a key, map_of b key) of
       (None, Some value) \<Rightarrow> [Replace (path @ [Key key]) value]
     | (Some _, None) \<Rightarrow> [Remove (path @ [Key key])]
     | (Some left, Some right) \<Rightarrow> diff_at ne left right (path @ [Key key])
     | (None, None) \<Rightarrow> [])"
    by (auto simp: diff_objects.simps)
  show ?case
  proof (cases "map_of a key"; cases "map_of b key")
    fix l r assume lr: "map_of a key = Some l" "map_of b key = Some r"
    show ?thesis
      by (rule 6(1) [OF key refl lr]) (use p lr in auto)
  qed (use p in auto)
qed auto

lemma diff_plain: "\<forall>p \<in> set (diff_at ne v w path). \<not> is_insert p"
  using diff_no_insert(1) by blast

lemma remove_tail:
  "apply_patches (Array (zs @ t)) (map (\<lambda>i. Remove [Index i]) (rev [length zs..<length zs + length t])) =
     Ok (Array zs)"
  by (induction t rule: rev_induct) (auto simp: butlast_append)

lemma append_tail:
  "n \<le> length b \<Longrightarrow>
   apply_patches (Array zs) (map (\<lambda>i. Replace [Index i] (b ! i)) [length zs..<n]) =
     Ok (Array (zs @ slice b (length zs) n))"
proof (induction n)
  case (Suc n)
  show ?case
  proof (cases "length zs \<le> n")
    case True
    with Suc.prems have "slice b (length zs) (Suc n) = slice b (length zs) n @ [b ! n]"
      by (simp add: slice_def Suc_diff_le take_Suc_conv_app_nth)
    with True Suc show ?thesis by simp
  qed (use Suc.prems in \<open>simp add: slice_def\<close>)
qed (simp add: slice_def)


section \<open>Applying the difference\<close>

definition patched :: "('n \<Rightarrow> 'n \<Rightarrow> bool) \<Rightarrow> 'n json \<Rightarrow> 'n json \<Rightarrow> bool" where
  "patched ne v w \<longleftrightarrow> (\<exists>u. apply_patches v (diff_at ne v w []) = Ok u \<and> json_eq ne u w \<and> wf_json u)"

text \<open>The state after the patches of the common items of two arrays.\<close>

lemma patch_items:
  assumes "\<And>i. i < length xs \<Longrightarrow> i < length ys \<Longrightarrow> patched ne (xs ! i) (ys ! i)" "list_all wf_json xs"
  shows "\<exists>zs. apply_patches (Array (pre @ xs)) (diff_items ne xs ys (length pre) []) =
       Ok (Array (pre @ zs @ drop (length ys) xs)) \<and>
     items_eq ne zs (take (length xs) ys) \<and> list_all wf_json zs"
  using assms
proof (induction xs arbitrary: ys pre)
  case Nil
  then show ?case by (cases ys) auto
next
  case (Cons x xs)
  show ?case
  proof (cases ys)
    case Nil
    then show ?thesis by simp
  next
    case (Cons y ys')
    obtain u where u: "apply_patches x (diff_at ne x y []) = Ok u" "json_eq ne u y" "wf_json u"
      using Cons.prems(1) [of 0] Cons by (auto simp: patched_def)
    have "apply_patches (Array (pre @ x # xs)) (diff_at ne x y [Index (length pre)]) =
        Ok (Array ((pre @ x # xs)[length pre := u]))"
      unfolding diff_below by (rule apply_item [OF _ diff_plain]) (use u(1) in auto)
    moreover obtain zs where "apply_patches (Array ((pre @ [u]) @ xs)) (diff_items ne xs ys' (length (pre @ [u])) []) =
        Ok (Array ((pre @ [u]) @ zs @ drop (length ys') xs)) \<and>
        items_eq ne zs (take (length xs) ys') \<and> list_all wf_json zs"
    proof -
      have "patched ne (xs ! i) (ys' ! i)" if "i < length xs" "i < length ys'" for i
        using Cons.prems(1) [of "Suc i"] that Cons by simp
      then show ?thesis using Cons.IH [of ys' "pre @ [u]"] Cons.prems(2) that by auto
    qed
    ultimately show ?thesis
      using u(2,3) Cons by (intro exI [of _ "u # zs"]) simp
  qed
qed

lemma patch_arrays:
  assumes "\<And>i. i < length a \<Longrightarrow> i < length b \<Longrightarrow> patched ne (a ! i) (b ! i)" "\<And>n. ne n n"
    and "list_all wf_json a" "list_all wf_json b"
  shows "\<exists>c. apply_patches (Array a) (diff_arrays ne a b []) = Ok (Array c) \<and> items_eq ne c b \<and>
    list_all wf_json c"
proof -
  obtain zs where zs: "apply_patches (Array a) (diff_items ne a b 0 []) =
      Ok (Array (zs @ drop (length b) a))" "items_eq ne zs (take (length a) b)" "list_all wf_json zs"
    using patch_items [of a b ne "[]"] assms by auto
  have len: "length zs = min (length a) (length b)"
    using zs(2) by (simp add: items_eq_nth min.commute)
  consider "length a = length b" | "length a > length b" | "length a < length b" by linarith
  then show ?thesis
  proof cases
    case 1
    with zs show ?thesis by (auto simp: diff_arrays.simps Let_def)
  next
    case 2
    then have "length zs = length b" "length b + length (drop (length b) a) = length a"
      using len by auto
    with remove_tail [of zs "drop (length b) a"] zs 2 show ?thesis
      by (auto simp: diff_arrays.simps Let_def)
  next
    case 3
    then have "length zs = length a" using len by simp
    then have "apply_patches (Array zs) (map (\<lambda>i. Replace [Index i] (b ! i)) [length a..<length b]) =
        Ok (Array (zs @ drop (length a) b))"
      using append_tail [of "length b" b zs] by (simp add: slice_def)
    moreover have "items_eq ne (zs @ drop (length a) b) b"
      using zs(2) 3 \<open>length zs = length a\<close>
      by (auto simp: items_eq_nth nth_append json_eq_refl assms(2))
    moreover have "list_all wf_json (drop (length a) b)"
      using assms(4) by (auto simp: list_all_iff dest: in_set_dropD)
    ultimately show ?thesis using zs 3 by (auto simp: diff_arrays.simps Let_def)
  qed
qed

definition key_patches :: "('n \<Rightarrow> 'n \<Rightarrow> bool) \<Rightarrow> (bytes \<rightharpoonup> 'n json) \<Rightarrow> (bytes \<rightharpoonup> 'n json) \<Rightarrow> bytes \<Rightarrow>
    'n json patch list" where
  "key_patches ne ma mb k = (case (ma k, mb k) of
       (None, Some value) \<Rightarrow> [Replace [Key k] value]
     | (Some _, None) \<Rightarrow> [Remove [Key k]]
     | (Some left, Some right) \<Rightarrow> diff_at ne left right [Key k]
     | (None, None) \<Rightarrow> [])"

lemma patch_key:
  assumes "\<And>l r. map_of es k = Some l \<Longrightarrow> mb k = Some r \<Longrightarrow> patched ne l r" "\<And>n. ne n n"
    and "keys_sorted es" "\<And>r. mb k = Some r \<Longrightarrow> wf_json r"
  shows "\<exists>fs. apply_patches (Object es) (key_patches ne (map_of es) mb k) = Ok (Object fs) \<and>
     keys_sorted fs \<and> (\<forall>l. l \<noteq> k \<longrightarrow> map_of fs l = map_of es l) \<and>
     rel_option (\<lambda>u w. json_eq ne u w \<and> wf_json u) (map_of fs k) (mb k)"
proof (cases "map_of es k"; cases "mb k")
  assume "map_of es k = None" "mb k = None"
  then show ?thesis using assms(3) by (auto simp: key_patches_def)
next
  fix r assume "map_of es k = None" "mb k = Some r"
  then show ?thesis using assms(2-4)
    by (auto simp: key_patches_def map_of_put_key sorted_put_key json_eq_refl)
next
  fix l assume "map_of es k = Some l" "mb k = None"
  then show ?thesis using assms(3)
    by (auto simp: key_patches_def map_of_drop_key sorted_drop_key Let_def)
next
  fix l r assume lr: "map_of es k = Some l" "mb k = Some r"
  then obtain u where u: "apply_patches l (diff_at ne l r []) = Ok u" "json_eq ne u r" "wf_json u"
    using assms(1) by (auto simp: patched_def)
  have "\<exists>fs. apply_patches (Object es) (diff_at ne l r [Key k]) = Ok (Object fs) \<and>
      keys_sorted fs \<and> map_of fs = (map_of es)(k \<mapsto> u)"
    unfolding diff_below by (rule apply_member [OF lr(1) assms(3) diff_plain u(1)])
  then show ?thesis using lr u by (auto simp: key_patches_def)
qed

lemma patch_keys:
  assumes "\<And>k l r. map_of es k = Some l \<Longrightarrow> mb k = Some r \<Longrightarrow> patched ne l r" "\<And>n. ne n n"
    and "keys_sorted es" "\<And>k r. mb k = Some r \<Longrightarrow> wf_json r" "distinct ks"
  shows "\<exists>fs. apply_patches (Object es) (concat (map (key_patches ne (map_of es) mb) ks)) = Ok (Object fs) \<and>
     keys_sorted fs \<and> (\<forall>l. l \<notin> set ks \<longrightarrow> map_of fs l = map_of es l) \<and>
     (\<forall>k \<in> set ks. rel_option (\<lambda>u w. json_eq ne u w \<and> wf_json u) (map_of fs k) (mb k))"
  using assms(5)
proof (induction ks rule: rev_induct)
  case Nil
  then show ?case using assms(3) by auto
next
  case (snoc k ks)
  then obtain fs where fs: "apply_patches (Object es) (concat (map (key_patches ne (map_of es) mb) ks)) =
      Ok (Object fs)" "keys_sorted fs" "\<forall>l. l \<notin> set ks \<longrightarrow> map_of fs l = map_of es l"
      "\<forall>k \<in> set ks. rel_option (\<lambda>u w. json_eq ne u w \<and> wf_json u) (map_of fs k) (mb k)"
    by auto
  have k: "map_of fs k = map_of es k" "k \<notin> set ks" using fs(3) snoc.prems by auto
  obtain gs where gs: "apply_patches (Object fs) (key_patches ne (map_of fs) mb k) = Ok (Object gs)"
      "keys_sorted gs" "\<forall>l. l \<noteq> k \<longrightarrow> map_of gs l = map_of fs l"
      "rel_option (\<lambda>u w. json_eq ne u w \<and> wf_json u) (map_of gs k) (mb k)"
    using patch_key [of fs k mb ne] assms(1,2,4) fs(2) k(1) by auto
  note gs(1)
  moreover have "key_patches ne (map_of fs) mb k = key_patches ne (map_of es) mb k"
    by (simp add: key_patches_def k(1))
  ultimately have "apply_patches (Object es) (concat (map (key_patches ne (map_of es) mb) (ks @ [k]))) =
      Ok (Object gs)"
    using fs(1) by simp
  moreover have "\<forall>l. l \<notin> set (ks @ [k]) \<longrightarrow> map_of gs l = map_of es l"
    using gs(3) fs(3) by simp
  moreover have "\<forall>l \<in> set (ks @ [k]). rel_option (\<lambda>u w. json_eq ne u w \<and> wf_json u) (map_of gs l) (mb l)"
    using gs(3,4) fs(4) k(2) by auto
  ultimately show ?case using gs(2) by blast
qed


lemma distinct_sorted_dedup: "sorted xs \<Longrightarrow> distinct (remdups_adj xs)"
  by (induction xs rule: remdups_adj.induct) (auto dest: antisym)

lemma wf_members_get: "list_all (\<lambda>(_, v). wf_json v) es \<Longrightarrow> map_of es k = Some v \<Longrightarrow> wf_json v"
  by (auto simp: list_all_iff dest: map_of_SomeD)

lemma patch_objects:
  assumes "\<And>k l r. map_of a k = Some l \<Longrightarrow> map_of b k = Some r \<Longrightarrow> patched ne l r" "\<And>n. ne n n"
    and "keys_sorted a" "keys_sorted b" "list_all (\<lambda>(_, v). wf_json v) b"
  shows "\<exists>c. apply_patches (Object a) (diff_objects ne a b []) = Ok (Object c) \<and>
    members_eq ne c b \<and> keys_sorted c \<and> list_all (\<lambda>(_, v). wf_json v) c"
proof -
  let ?ks = "remdups_adj (sort (map fst a @ map fst b))"
  have ks: "distinct ?ks" "set ?ks = fst ` set a \<union> fst ` set b"
    by (simp_all add: distinct_sorted_dedup)
  have "\<exists>c. apply_patches (Object a) (concat (map (key_patches ne (map_of a) (map_of b)) ?ks)) =
      Ok (Object c) \<and> keys_sorted c \<and> (\<forall>l. l \<notin> set ?ks \<longrightarrow> map_of c l = map_of a l) \<and>
      (\<forall>k \<in> set ?ks. rel_option (\<lambda>u w. json_eq ne u w \<and> wf_json u) (map_of c k) (map_of b k))"
    by (rule patch_keys [OF assms(1,2,3) wf_members_get [OF assms(5)] ks(1)])
  then obtain c where c: "apply_patches (Object a) (concat (map (key_patches ne (map_of a) (map_of b)) ?ks)) =
      Ok (Object c)" "keys_sorted c" "\<forall>l. l \<notin> set ?ks \<longrightarrow> map_of c l = map_of a l"
      "\<forall>k \<in> set ?ks. rel_option (\<lambda>u w. json_eq ne u w \<and> wf_json u) (map_of c k) (map_of b k)"
    by blast
  have "diff_objects ne a b [] = concat (map (key_patches ne (map_of a) (map_of b)) ?ks)"
    by (auto simp: diff_objects.simps key_patches_def split: option.splits
        intro!: arg_cong [where f = concat])
  with c(1) have app: "apply_patches (Object a) (diff_objects ne a b []) = Ok (Object c)" by simp
  have rel: "rel_option (\<lambda>u w. json_eq ne u w \<and> wf_json u) (map_of c k) (map_of b k)" for k
  proof (cases "k \<in> set ?ks")
    case False
    then have "map_of c k = None" "map_of b k = None"
      using c(3) ks(2) map_of_eq_None_iff [of a k] map_of_eq_None_iff [of b k] by auto
    then show ?thesis by simp
  qed (use c(4) in blast)
  have "same_members (json_eq ne) (map_of c) (map_of b)"
    unfolding same_members_def using rel by (blast intro: option.rel_mono_strong)
  then have "members_eq ne c b" using c(2) assms(4) by (simp add: members_eq_same)
  moreover have "list_all (\<lambda>(_, v). wf_json v) c"
  proof -
    have "wf_json v" if "(k, v) \<in> set c" for k v
    proof -
      have "distinct (map fst c)"
        using c(2) by (rule distinct_keys)
      then have "map_of c k = Some v" using that by simp
      then show ?thesis using rel [of k] by (cases "map_of b k") auto
    qed
    then show ?thesis by (auto simp: list_all_iff)
  qed
  ultimately show ?thesis using app c(2) by blast
qed

lemma diff_patched:
  assumes "\<And>n. ne n n" "wf_json v" "wf_json w"
  shows "patched ne v w"
  using assms(2,3)
proof (induction v arbitrary: w)
  case (Array xs)
  show ?case
  proof (cases "json_eq ne (Array xs) w \<or> (\<forall>ys. w \<noteq> Array ys)")
    case True
    then show ?thesis
      using Array.prems assms(1)
      by (auto simp: patched_def diff_at.simps json_eq_refl split: json.splits)
  next
    case False
    then obtain ys where w: "w = Array ys" "\<not> json_eq ne (Array xs) w" by blast
    have "patched ne (xs ! i) (ys ! i)" if "i < length xs" "i < length ys" for i
      using Array that w by (auto simp: list_all_length)
    with patch_arrays [of xs ys ne] assms(1) Array.prems w show ?thesis
      by (auto simp: patched_def diff_at.simps)
  qed
next
  case (Object es)
  show ?case
  proof (cases "json_eq ne (Object es) w \<or> (\<forall>fs. w \<noteq> Object fs)")
    case True
    then show ?thesis
      using Object.prems assms(1)
      by (auto simp: patched_def diff_at.simps json_eq_refl split: json.splits)
  next
    case False
    then obtain fs where w: "w = Object fs" "\<not> json_eq ne (Object es) w" by blast
    have "patched ne l r" if lr: "map_of es k = Some l" "map_of fs k = Some r" for k l r
    proof -
      have "(k, l) \<in> set es" using lr(1) by (rule map_of_SomeD)
      moreover have "wf_json l" "wf_json r"
        using Object.prems w lr wf_members_get [of es k l] wf_members_get [of fs k r] by auto
      ultimately show ?thesis using Object.IH [of "(k, l)" l r] by auto
    qed
    with patch_objects [of es fs ne] assms(1) Object.prems w show ?thesis
      by (auto simp: patched_def diff_at.simps)
  qed
qed (auto simp: patched_def diff_at.simps json_eq_refl assms(1) split: json.splits)

text \<open>C34: Applying the patches between two view models to the old one does not panic and gives
  the new one, up to the equality of JSON values; there are no patches exactly when the two are
  equal already; and the maps of the result keep their order.\<close>

theorem patches_restore:
  assumes "\<And>n. ne n n" "wf_json prev" "wf_json nxt"
  shows "\<exists>v. apply_patches prev (diff_value ne prev nxt) = Ok v \<and> json_eq ne v nxt \<and> wf_json v \<and>
    (diff_value ne prev nxt = [] \<longleftrightarrow> json_eq ne prev nxt)"
proof -
  obtain v where v: "apply_patches prev (diff_value ne prev nxt) = Ok v" "json_eq ne v nxt" "wf_json v"
    using diff_patched [of ne, OF assms] by (auto simp: patched_def diff_value_def)
  moreover have "diff_value ne prev nxt = [] \<longleftrightarrow> json_eq ne prev nxt"
  proof
    assume "diff_value ne prev nxt = []"
    with v(1,2) show "json_eq ne prev nxt" by simp
  qed (simp add: diff_value_def diff_at.simps)
  ultimately show ?thesis by blast
qed

theorem patches_restore_witness:
  "\<exists>v. apply_patches (Object [([97], Array [Number 1, Number 2, Null]), ([98], Bool True)])
      (diff_value (=) (Object [([97], Array [Number 1, Number 2, Null]), ([98], Bool True)])
        (Object [([97], Array [Number (3::int), Number 2]), ([99], String [120])])) = Ok v \<and>
    json_eq (=) v (Object [([97], Array [Number 3, Number 2]), ([99], String [120])])"
  using patches_restore [of "(=)" "Object [([97], Array [Number 1, Number 2, Null]), ([98], Bool True)]"
      "Object [([97], Array [Number (3::int), Number 2]), ([99], String [120])]"]
  by (auto simp: keys_sorted_def simp del: json_eq.simps)

end
