(* ===== verification/Group_Reduce.thy ===== *)
theory Group_Reduce
  imports Ordered_Map Plan_Table Chunk_Exec
begin

text \<open>
  The reduction of group records in the native runtime (\<^verbatim>\<open>wcol-decoder/src/native/runtime.rs\<close>).
  The workers' partial results are concatenated records: of fixed size, the two words of the
  group key and 32 bytes per aggregate, or with the bytes of the key in between. A reduction
  merges the records of the same group. The map-based reductions keep a \<^verbatim>\<open>BTreeMap\<close>; the
  sort-based ones sort the records with \<^verbatim>\<open>sort_unstable_by\<close>, whose order of equal elements
  is not specified: the sort is an argument. \<^verbatim>\<open>record_size == 0\<close>, which the code checks, does
  not occur: a record has at least 16 bytes.
\<close>

section \<open>Statistics in records\<close>

definition stats_default :: agg_state where
  "stats_default = \<lparr> a_sum = f_zero, a_min = f_zero, a_max = f_zero, a_count = 0 \<rparr>"

definition read_stats :: "bytes \<Rightarrow> agg_state" where
  "read_stats bs =
     \<lparr> a_sum = from_le64 (slice bs 0 8), a_min = from_le64 (slice bs 8 16),
       a_max = from_le64 (slice bs 16 24), a_count = from_le32 (slice bs 24 28) \<rparr>"

definition add_stats :: "agg_state \<Rightarrow> agg_state \<Rightarrow> agg_state" where
  "add_stats dst src =
     (let dst = dst\<lparr> a_sum := f_add (a_sum dst) (a_sum src) \<rparr>;
          dst = (if 0 < a_count src then
                   (if a_count dst = 0 then dst\<lparr> a_min := a_min src, a_max := a_max src \<rparr>
                    else dst\<lparr> a_min := f_min (a_min dst) (a_min src),
                              a_max := f_max (a_max dst) (a_max src) \<rparr>)
                 else dst)
      in dst\<lparr> a_count := sat_add32 (a_count dst) (a_count src) \<rparr>)"

definition merge_group_states :: "agg_state list \<Rightarrow> agg_state list \<Rightarrow> agg_state list" where
  "merge_group_states target source =
     map2 add_stats target source @ drop (length source) target"

definition stats_fields :: "agg_state \<Rightarrow> bytes" where
  "stats_fields st = agg_record (a_sum st) (if 0 < a_count st then a_min st else f_zero)
     (if 0 < a_count st then a_max st else f_zero) (a_count st)"

definition reduced_record :: "(u64 \<times> u64) \<times> agg_state list \<Rightarrow> bytes" where
  "reduced_record g = le64 (fst (fst g)) @ le64 (snd (fst g)) @ concat (map stats_fields (snd g))"

section \<open>Records of fixed size\<close>

definition record_size :: "nat \<Rightarrow> nat" where "record_size agg_count = 16 + agg_count * AGG_RECORD_BYTES"

definition record_key :: "bytes \<Rightarrow> u64 \<times> u64" where
  "record_key bs = (from_le64 (slice bs 0 8), from_le64 (slice bs 8 16))"

definition record_stats :: "bytes \<Rightarrow> agg_state list" where
  "record_stats bs = map read_stats (chunks_exact AGG_RECORD_BYTES (drop 16 bs))"

type_synonym groups = "((u64 \<times> u64) \<times> agg_state list) list"

definition group_step :: "nat \<Rightarrow> groups \<Rightarrow> bytes \<Rightarrow> groups" where
  "group_step agg_count groups bs =
     (let key = record_key bs;
          states = (case map_of groups key of Some s \<Rightarrow> s | None \<Rightarrow> replicate agg_count stats_default)
      in put_key key (merge_group_states states (record_stats bs)) groups)"

definition reduce_group_records :: "bytes \<Rightarrow> nat \<Rightarrow> bytes result" where
  "reduce_group_records bs agg_count =
     (if bs = [] then Ok []
      else if length bs mod record_size agg_count \<noteq> 0
      then Err (Bail ''group bytes are not aligned to record size'')
      else Ok (concat (map reduced_record
             (foldl (group_step agg_count) [] (chunks_exact (record_size agg_count) bs)))))"

text \<open>The fragments of a partition one after the other, the spilled records last.\<close>

definition fragment_step :: "nat \<Rightarrow> groups \<Rightarrow> bytes \<Rightarrow> groups result" where
  "fragment_step agg_count groups bs =
     (if length bs mod record_size agg_count \<noteq> 0
      then Err (Bail ''group bytes are not aligned to record size'')
      else Ok (foldl (group_step agg_count) groups (chunks_exact (record_size agg_count) bs)))"

definition reduce_group_records_from_fragments_hash :: "bytes list \<Rightarrow> bytes \<Rightarrow> nat \<Rightarrow> bytes result" where
  "reduce_group_records_from_fragments_hash fragments spill agg_count =
     bindR (foldR (fragment_step agg_count) [] (filter (\<lambda>bs. bs \<noteq> []) (fragments @ [spill])))
       (\<lambda>groups. Ok (concat (map reduced_record groups)))"

text \<open>The sort-based reduction: records with equal keys are next to each other.\<close>

type_synonym sorter = "(nat \<Rightarrow> nat \<Rightarrow> bool) \<Rightarrow> nat list \<Rightarrow> nat list"

function reduce_runs :: "nat \<Rightarrow> bytes list \<Rightarrow> groups" where
  "reduce_runs agg_count [] = []"
| "reduce_runs agg_count (r # rs) =
     (record_key r,
      foldl (\<lambda>states x. merge_group_states states (record_stats x)) (replicate agg_count stats_default)
        (r # takeWhile (\<lambda>x. record_key x = record_key r) rs))
     # reduce_runs agg_count (dropWhile (\<lambda>x. record_key x = record_key r) rs)"
  by pat_completeness auto
termination
  by (relation "measure (\<lambda>(n, rs). length rs)") (auto simp: less_Suc_eq_le length_dropWhile_le)

definition record_at :: "nat \<Rightarrow> bytes \<Rightarrow> nat \<Rightarrow> bytes" where
  "record_at agg_count bs off = take (record_size agg_count) (drop off bs)"

definition reduce_group_records_sort :: "sorter \<Rightarrow> bytes \<Rightarrow> nat \<Rightarrow> bytes result" where
  "reduce_group_records_sort sort_unstable bs agg_count =
     (if bs = [] then Ok []
      else if length bs mod record_size agg_count \<noteq> 0
      then Err (Bail ''group bytes are not aligned to record size'')
      else
        let offsets = map (\<lambda>i. i * record_size agg_count) [0..<length bs div record_size agg_count];
            sorted = sort_unstable (\<lambda>a b. record_key (record_at agg_count bs a) \<le>
              record_key (record_at agg_count bs b)) offsets
        in Ok (concat (map reduced_record (reduce_runs agg_count (map (record_at agg_count bs) sorted)))))"

section \<open>Records with key bytes\<close>

text \<open>
  A payload is cut into records. \<open>header_len\<close> bytes are needed before the length of a record
  is known; the functions differ in it and in their errors.
\<close>

definition keyed_len :: "nat \<Rightarrow> bytes \<Rightarrow> nat" where
  "keyed_len agg_count bs = 24 + unat (from_le32 (slice bs 16 20)) + agg_count * AGG_RECORD_BYTES"

function keyed_records :: "nat \<Rightarrow> error \<Rightarrow> error \<Rightarrow> nat \<Rightarrow> bytes \<Rightarrow> bytes list result" where
  "keyed_records header_len e1 e2 agg_count bs =
     (if bs = [] then Ok []
      else if length bs < header_len then Err e1
      else if length bs < keyed_len agg_count bs then Err e2
      else bindR (keyed_records header_len e1 e2 agg_count (drop (keyed_len agg_count bs) bs))
             (\<lambda>rs. Ok (take (keyed_len agg_count bs) bs # rs)))"
  by pat_completeness auto
termination
  by (relation "measure (\<lambda>(h, e1, e2, n, bs). length bs)") (auto simp: keyed_len_def)

declare keyed_records.simps [simp del]

definition count_group_records_with_keys :: "bytes \<Rightarrow> nat \<Rightarrow> nat result" where
  "count_group_records_with_keys bs agg_count =
     bindR (keyed_records 24 (Bail ''group records-with-keys header truncated'')
       (Bail ''group records-with-keys payload truncated'') agg_count bs) (\<lambda>rs. Ok (length rs))"

definition key_bytes_of :: "bytes \<Rightarrow> bytes" where
  "key_bytes_of bs = slice bs 24 (24 + unat (from_le32 (slice bs 16 20)))"

definition keyed_stats :: "bytes \<Rightarrow> agg_state list" where
  "keyed_stats bs = map read_stats (chunks_exact AGG_RECORD_BYTES
     (drop (24 + unat (from_le32 (slice bs 16 20))) bs))"

text \<open>
  A key that no other group has: the seeds are tried in turn, as in the loop
  \<^const>\<open>remap_loop\<close> of the chunk execution.
\<close>

definition taken :: "(u64 \<times> u64) set \<Rightarrow> group_key \<rightharpoonup> bytes" where
  "taken used k = (if (gk_a k, gk_b k) \<in> used then Some [] else None)"

definition allocate_collision_key ::
  "(bytes \<Rightarrow> u64 \<Rightarrow> u64) \<Rightarrow> u64 \<times> u64 \<Rightarrow> bytes \<Rightarrow> (u64 \<times> u64) set \<Rightarrow> (u64 \<times> u64) option" where
  "allocate_collision_key seeded base key_bytes used =
     (if base \<notin> used then Some base
      else map_option (\<lambda>k. (gk_a k, gk_b k))
             (remap_loop (\<lambda>seed. seeded key_bytes (snd base XOR seed)) (fst base) (taken used) 1))"

record entry_state =
  e_key :: bytes
  e_aggs :: "agg_state list"
  e_out :: "u64 \<times> u64"

type_synonym by_hash = "((u64 \<times> u64) \<times> entry_state list) list"

text \<open>The first entry of a bucket with the key.\<close>

fun update_bucket :: "bytes \<Rightarrow> agg_state list \<Rightarrow> entry_state list \<Rightarrow> entry_state list option" where
  "update_bucket key aggs [] = None"
| "update_bucket key aggs (e # es) =
     (if e_key e = key then Some (e\<lparr> e_aggs := merge_group_states (e_aggs e) aggs \<rparr> # es)
      else map_option ((#) e) (update_bucket key aggs es))"

definition keyed_step ::
  "(bytes \<Rightarrow> u64 \<Rightarrow> u64) \<Rightarrow> (agg_state list \<Rightarrow> agg_state list) \<Rightarrow> by_hash \<times> (u64 \<times> u64) set \<Rightarrow> bytes
     \<Rightarrow> (by_hash \<times> (u64 \<times> u64) set) option" where
  "keyed_step seeded init s bs =
     (let (by_hash, used) = s; base = record_key bs; key = key_bytes_of bs;
          aggs = init (keyed_stats bs);
          bucket = (case map_of by_hash base of Some es \<Rightarrow> es | None \<Rightarrow> [])
      in case update_bucket key aggs bucket of
           Some es \<Rightarrow> Some (put_key base es by_hash, used)
         | None \<Rightarrow> map_option (\<lambda>out.
             (put_key base (bucket @ [\<lparr> e_key = key, e_aggs = aggs, e_out = out \<rparr>]) by_hash,
              insert out used)) (allocate_collision_key seeded base key used))"

fun fold_option :: "('s \<Rightarrow> 'a \<Rightarrow> 's option) \<Rightarrow> 's \<Rightarrow> 'a list \<Rightarrow> 's option" where
  "fold_option f s [] = Some s"
| "fold_option f s (x # xs) = (case f s x of None \<Rightarrow> None | Some t \<Rightarrow> fold_option f t xs)"

definition keyed_output :: "by_hash \<Rightarrow> bytes" where
  "keyed_output by_hash =
     concat (map (\<lambda>(_, entries). concat (map (\<lambda>e. reduced_record (e_out e, e_aggs e)) entries)) by_hash)"

text \<open>\<open>None\<close>: the search for a free key does not end.\<close>

definition keyed_result :: "bytes list result \<Rightarrow> (bytes list \<Rightarrow> bytes option) \<Rightarrow> bytes result option" where
  "keyed_result rs f = (case rs of Inl e \<Rightarrow> Some (Err e) | Inr rs \<Rightarrow> map_option Ok (f rs))"

definition reduce_group_records_with_keys ::
  "(bytes \<Rightarrow> u64 \<Rightarrow> u64) \<Rightarrow> bytes \<Rightarrow> nat \<Rightarrow> bytes result option" where
  "reduce_group_records_with_keys seeded bs agg_count =
     keyed_result (keyed_records 20 Panic (Bail ''group records-with-keys payload truncated'') agg_count bs)
       (\<lambda>rs. map_option (\<lambda>(by_hash, used). keyed_output by_hash)
          (fold_option (keyed_step seeded (\<lambda>aggs. aggs)) ([], {}) rs))"

definition reduce_group_records_with_keys_from_fragments ::
  "(bytes \<Rightarrow> u64 \<Rightarrow> u64) \<Rightarrow> bytes list \<Rightarrow> bytes \<Rightarrow> nat \<Rightarrow> bytes result option" where
  "reduce_group_records_with_keys_from_fragments seeded fragments spill agg_count =
     keyed_result (bindR (mapR (keyed_records 24 (Bail ''group records-with-keys header truncated'')
         (Bail ''group records-with-keys payload truncated'') agg_count) (fragments @ [spill]))
         (\<lambda>rss. Ok (concat rss)))
       (\<lambda>rs. map_option (\<lambda>(by_hash, used). keyed_output by_hash)
          (fold_option (keyed_step seeded (merge_group_states (replicate agg_count stats_default)))
            ([], {}) rs))"

text \<open>The sort-based reduction by key words, then key bytes.\<close>

function keyed_runs ::
  "(bytes \<Rightarrow> u64 \<Rightarrow> u64) \<Rightarrow> nat \<Rightarrow> (u64 \<times> u64) set \<Rightarrow> bytes list \<Rightarrow> groups option" where
  "keyed_runs seeded agg_count used [] = Some []"
| "keyed_runs seeded agg_count used (r # rs) =
     (let same = (\<lambda>x. record_key x = record_key r \<and> key_bytes_of x = key_bytes_of r);
          aggs = foldl (\<lambda>states x. merge_group_states states (keyed_stats x))
            (replicate agg_count stats_default) (r # takeWhile same rs)
      in case allocate_collision_key seeded (record_key r) (key_bytes_of r) used of
           None \<Rightarrow> None
         | Some out \<Rightarrow> map_option ((#) (out, aggs))
             (keyed_runs seeded agg_count (insert out used) (dropWhile same rs)))"
  by pat_completeness auto
termination
  by (relation "measure (\<lambda>(s, n, u, rs). length rs)") (auto simp: less_Suc_eq_le length_dropWhile_le)

definition keyed_le :: "bytes \<Rightarrow> bytes \<Rightarrow> bool" where
  "keyed_le x y \<longleftrightarrow> (record_key x, key_bytes_of x) \<le> (record_key y, key_bytes_of y)"

definition reduce_group_records_with_keys_sort ::
  "(bytes \<Rightarrow> u64 \<Rightarrow> u64) \<Rightarrow> sorter \<Rightarrow> bytes \<Rightarrow> nat \<Rightarrow> bytes result option" where
  "reduce_group_records_with_keys_sort seeded sort_unstable bs agg_count =
     keyed_result (keyed_records 24 (Bail ''group records-with-keys header truncated'')
         (Bail ''group records-with-keys payload truncated'') agg_count bs)
       (\<lambda>rs. let sorted = sort_unstable (\<lambda>i j. keyed_le (rs ! i) (rs ! j)) [0..<length rs]
             in map_option (\<lambda>groups. concat (map reduced_record groups))
                  (keyed_runs seeded agg_count {} (map (\<lambda>i. rs ! i) sorted)))"

end
