(* ===== verification/Group_Merge.thy ===== *)
theory Group_Merge
  imports Group_Reduce
begin

text \<open>
  Merging the group records of the workers' partial results
  (\<^verbatim>\<open>wcol-decoder/src/native/runtime.rs\<close>, \<^verbatim>\<open>native/pool.rs\<close>): the records are distributed to
  partitions by a hash of their key, each partition is reduced, and the results are joined
  and, for ORDER BY count with LIMIT, trimmed. The reduction of the partitions by several
  threads stores each result at the index of its partition; of several errors the code
  returns the first to arrive, the model the first in partition order.

  \<open>None\<close> is a search for a free group key that does not end (\<^theory_text>\<open>Group_Reduce\<close>).
\<close>

definition bindT :: "'a result option \<Rightarrow> ('a \<Rightarrow> 'b result option) \<Rightarrow> 'b result option" where
  "bindT r f = (case r of None \<Rightarrow> None | Some (Inl e) \<Rightarrow> Some (Err e) | Some (Inr x) \<Rightarrow> f x)"

fun mapT :: "('a \<Rightarrow> 'b result option) \<Rightarrow> 'a list \<Rightarrow> 'b list result option" where
  "mapT f [] = Some (Ok [])"
| "mapT f (x # xs) = bindT (f x) (\<lambda>y. bindT (mapT f xs) (\<lambda>ys. Some (Ok (y # ys))))"

datatype merge_keys_mode = Hash | Bytes

record chunk_partial =
  cp_chunk_id :: u32
  cp_rows :: bytes
  cp_row_candidates :: bytes
  cp_aggs :: bytes
  cp_groups :: bytes
  cp_partitioned_groups :: "bytes list"
  cp_work_bytes_est :: u64

section \<open>Partitions\<close>

definition hash_u64_pair :: "u64 \<Rightarrow> u64 \<Rightarrow> u64" where
  "hash_u64_pair a b =
     (let x = a * 0x9e3779b97f4a7c15;
          x = x XOR (word_rotl 17 b * 0xc2b2ae3d27d4eb4f);
          x = x XOR drop_bit 33 x;
          x = x * 0xff51afd7ed558ccd;
          x = x XOR drop_bit 33 x;
          x = x * 0xc4ceb9fe1a85ec53
      in x XOR drop_bit 33 x)"

definition group_partition_for_keys :: "u64 \<Rightarrow> u64 \<Rightarrow> nat \<Rightarrow> nat" where
  "group_partition_for_keys a b partitions = unat (hash_u64_pair a b) AND (partitions - 1)"

function next_power :: "nat \<Rightarrow> nat \<Rightarrow> nat" where
  "next_power n p = (if n \<le> p \<or> p = 0 then p else next_power n (2 * p))"
  by pat_completeness auto
termination
  by (relation "measure (\<lambda>(n, p). n - p)") auto

declare next_power.simps [simp del]

definition partition_count :: "nat \<Rightarrow> nat \<Rightarrow> nat" where
  "partition_count cap partitions = min cap (next_power (max partitions 1) 1)"

definition partial_records :: "merge_keys_mode \<Rightarrow> nat \<Rightarrow> bytes \<Rightarrow> bytes list result" where
  "partial_records mode agg_count bs =
     (case mode of
        Hash \<Rightarrow>
          if length bs mod record_size agg_count \<noteq> 0
          then Err (Bail ''partial groups payload has invalid record size'')
          else Ok (chunks_exact (record_size agg_count) bs)
      | Bytes \<Rightarrow> keyed_records 24 (Bail ''partial groups key payload header truncated'')
          (Bail ''partial groups key payload truncated'') agg_count bs)"

definition partition_of :: "nat \<Rightarrow> bytes \<Rightarrow> nat" where
  "partition_of partitions r =
     group_partition_for_keys (fst (record_key r)) (snd (record_key r)) partitions"

definition push_record :: "(bytes \<Rightarrow> nat) \<Rightarrow> bytes list \<Rightarrow> bytes \<Rightarrow> bytes list" where
  "push_record part parts r = parts[part r := parts ! part r @ r]"

definition repartition_group_records ::
  "bytes \<Rightarrow> nat \<Rightarrow> merge_keys_mode \<Rightarrow> bytes list \<Rightarrow> bytes list result" where
  "repartition_group_records bs agg_count mode partitions =
     (if partitions = [] then Ok []
      else bindR (partial_records mode agg_count bs) (\<lambda>rs.
        Ok (foldl (push_record (partition_of (length partitions))) partitions rs)))"

text \<open>A worker distributes the groups of its chunks while it scans.\<close>

definition scan_groups :: "nat \<Rightarrow> merge_keys_mode \<Rightarrow> nat \<Rightarrow> bytes list \<Rightarrow> bytes list result" where
  "scan_groups agg_count mode partitions chunks =
     foldR (\<lambda>parts bs. if bs = [] then Ok parts else repartition_group_records bs agg_count mode parts)
       (replicate (max partitions 1) []) chunks"

section \<open>Reducing a partition\<close>

definition hot_bucket :: "bytes \<Rightarrow> nat" where
  "hot_bucket r = unat (drop_bit 60 (hash_u64_pair (fst (record_key r)) (snd (record_key r))) AND 0x0f)"

definition reduce_any ::
  "(bytes \<Rightarrow> u64 \<Rightarrow> u64) \<Rightarrow> merge_keys_mode \<Rightarrow> bytes \<Rightarrow> nat \<Rightarrow> bytes result option" where
  "reduce_any seeded mode bs agg_count =
     (case mode of Hash \<Rightarrow> Some (reduce_group_records bs agg_count)
      | Bytes \<Rightarrow> reduce_group_records_with_keys seeded bs agg_count)"

definition reduce_hot_partition_groups ::
  "(bytes \<Rightarrow> u64 \<Rightarrow> u64) \<Rightarrow> bytes \<Rightarrow> nat \<Rightarrow> merge_keys_mode \<Rightarrow> bytes result option" where
  "reduce_hot_partition_groups seeded bs agg_count mode =
     bindT (Some (case mode of
         Hash \<Rightarrow> Ok (chunks_exact (record_size agg_count) bs)
       | Bytes \<Rightarrow> keyed_records 24 (Bail ''hot partition key payload header truncated'')
           (Bail ''hot partition key payload truncated'') agg_count bs)) (\<lambda>rs.
     bindT (mapT (\<lambda>bucket. reduce_any seeded mode bucket agg_count)
       (foldl (push_record hot_bucket) (replicate 16 []) rs)) (\<lambda>outs. Some (Ok (concat outs))))"

definition payload_count :: "bytes \<Rightarrow> nat \<Rightarrow> merge_keys_mode \<Rightarrow> nat result" where
  "payload_count bs agg_count mode =
     (case mode of
        Hash \<Rightarrow>
          if length bs mod record_size agg_count \<noteq> 0
          then Err (Bail ''partition groups payload has invalid record size'')
          else Ok (length bs div record_size agg_count)
      | Bytes \<Rightarrow> count_group_records_with_keys bs agg_count)"

definition reduce_partition_groups ::
  "(bytes \<Rightarrow> u64 \<Rightarrow> u64) \<Rightarrow> bytes \<Rightarrow> nat \<Rightarrow> merge_keys_mode \<Rightarrow> nat \<Rightarrow> bytes result option" where
  "reduce_partition_groups seeded bs agg_count mode hot_threshold =
     (if bs = [] then Some (Ok [])
      else bindT (Some (payload_count bs agg_count mode)) (\<lambda>records.
        if max hot_threshold 1 < records then reduce_hot_partition_groups seeded bs agg_count mode
        else reduce_any seeded mode bs agg_count))"

definition reduce_partition_groups_sort ::
  "(bytes \<Rightarrow> u64 \<Rightarrow> u64) \<Rightarrow> sorter \<Rightarrow> bytes \<Rightarrow> nat \<Rightarrow> merge_keys_mode \<Rightarrow> nat \<Rightarrow> bytes result option" where
  "reduce_partition_groups_sort seeded sort_unstable bs agg_count mode hot_threshold =
     (if bs = [] then Some (Ok [])
      else bindT (Some (payload_count bs agg_count mode)) (\<lambda>records.
        if max hot_threshold 1 < records then reduce_hot_partition_groups seeded bs agg_count mode
        else case mode of
            Hash \<Rightarrow> Some (reduce_group_records_sort sort_unstable bs agg_count)
          | Bytes \<Rightarrow> reduce_group_records_with_keys_sort seeded sort_unstable bs agg_count))"

definition flatten_partition_fragments :: "bytes list \<Rightarrow> bytes \<Rightarrow> bytes" where
  "flatten_partition_fragments fragments spill = spill @ concat fragments"

definition fragments_count :: "bytes list \<Rightarrow> bytes \<Rightarrow> nat \<Rightarrow> merge_keys_mode \<Rightarrow> nat result" where
  "fragments_count fragments spill agg_count mode =
     (case mode of
        Hash \<Rightarrow> Ok (sum_list (map (\<lambda>bs. length bs div record_size agg_count) (spill # fragments)))
      | Bytes \<Rightarrow> bindR (mapR (\<lambda>bs. count_group_records_with_keys bs agg_count) (spill # fragments))
          (\<lambda>ns. Ok (sum_list ns)))"

definition reduce_partition_group_fragments_direct ::
  "(bytes \<Rightarrow> u64 \<Rightarrow> u64) \<Rightarrow> bytes list \<Rightarrow> bytes \<Rightarrow> nat \<Rightarrow> merge_keys_mode \<Rightarrow> nat \<Rightarrow> bytes result option"
where
  "reduce_partition_group_fragments_direct seeded fragments spill agg_count mode hot_threshold =
     (if fragments = [] \<and> spill = [] then Some (Ok [])
      else bindT (Some (fragments_count fragments spill agg_count mode)) (\<lambda>records.
        if max hot_threshold 1 < records then
          reduce_hot_partition_groups seeded (flatten_partition_fragments fragments spill) agg_count mode
        else case mode of
            Hash \<Rightarrow> Some (reduce_group_records_from_fragments_hash fragments spill agg_count)
          | Bytes \<Rightarrow> reduce_group_records_with_keys_from_fragments seeded fragments spill agg_count))"

section \<open>The groups with the largest counts\<close>

type_synonym count_entry = "u32 \<times> (u64 \<times> u64) \<times> bytes"

text \<open>The order of the heap, whose greatest element is the one that \<^verbatim>\<open>peek\<close> sees: it is on
  \<^verbatim>\<open>(Reverse(count), Reverse(key_a), Reverse(key_b), record)\<close>.\<close>

definition heap_le :: "count_entry \<Rightarrow> count_entry \<Rightarrow> bool" where
  "heap_le x y = (case (x, y) of ((c, k, r), (d, l, s)) \<Rightarrow>
     d < c \<or> c = d \<and> (l < k \<or> k = l \<and> r \<le> s))"

definition count_le :: "count_entry \<Rightarrow> count_entry \<Rightarrow> bool" where
  "count_le x y = (case (x, y) of ((c, k, r), (d, l, s)) \<Rightarrow> d < c \<or> c = d \<and> k \<le> l)"

definition count_entry_of :: "nat \<Rightarrow> bytes \<Rightarrow> count_entry" where
  "count_entry_of count_agg_idx r =
     (let off = 16 + count_agg_idx * AGG_RECORD_BYTES + 24
      in (from_le32 (slice r off (off + 4)), record_key r, r))"

text \<open>\<^verbatim>\<open>count > min_count || (count == min_count && key < min_key)\<close> for the element that would go.\<close>

definition replaces :: "count_entry \<Rightarrow> count_entry \<Rightarrow> bool" where
  "replaces x y = (case (x, y) of ((c, k, _), (d, l, _)) \<Rightarrow> d < c \<or> c = d \<and> k < l)"

definition trim_push :: "nat \<Rightarrow> count_entry list \<Rightarrow> count_entry \<Rightarrow> count_entry list" where
  "trim_push limit heap x =
     (if length heap < limit then insert_by heap_le x heap
      else if heap = [] then [x]
      else if replaces x (last heap) then insert_by heap_le x (butlast heap)
      else heap)"

definition trim_partition ::
  "nat \<Rightarrow> nat \<Rightarrow> nat \<Rightarrow> count_entry list \<Rightarrow> bytes \<Rightarrow> count_entry list result" where
  "trim_partition agg_count count_agg_idx limit heap bs =
     (if length bs mod record_size agg_count \<noteq> 0
      then Err (Bail ''partition groups payload has invalid record size'')
      else Ok (foldl (trim_push limit) heap
             (map (count_entry_of count_agg_idx) (chunks_exact (record_size agg_count) bs))))"

definition trim_group_records_topk_by_count ::
  "bytes list \<Rightarrow> nat \<Rightarrow> nat \<Rightarrow> nat \<Rightarrow> bytes result" where
  "trim_group_records_topk_by_count partitions agg_count count_agg_idx limit =
     (if limit = 0 then Ok []
      else if agg_count \<le> count_agg_idx then Err (Bail ''count_agg_idx out of range'')
      else bindR (foldR (trim_partition agg_count count_agg_idx limit) [] partitions) (\<lambda>heap.
        Ok (concat (map (\<lambda>(_, _, r). r) (sort_by count_le heap)))))"

section \<open>The three engines\<close>

definition merge_group_partials_partitioned_legacy ::
  "(bytes \<Rightarrow> u64 \<Rightarrow> u64) \<Rightarrow> chunk_partial list \<Rightarrow> nat \<Rightarrow> nat \<Rightarrow> merge_keys_mode \<Rightarrow> nat \<Rightarrow> bytes result option"
where
  "merge_group_partials_partitioned_legacy seeded partials agg_count partitions mode hot_threshold =
     (if agg_count = 0 then Some (Ok [])
      else bindT (Some (foldR (\<lambda>parts p. if cp_groups p = [] then Ok parts
             else repartition_group_records (cp_groups p) agg_count mode parts)
           (replicate (partition_count 2048 partitions) []) partials)) (\<lambda>parts.
        bindT (mapT (\<lambda>bs. reduce_partition_groups seeded bs agg_count mode hot_threshold) parts)
          (\<lambda>outs. Some (Ok (concat outs)))))"

text \<open>The fragments of each partition and the records spilled to it.\<close>

definition collect_partial ::
  "nat \<Rightarrow> merge_keys_mode \<Rightarrow> bytes list list \<times> bytes list \<Rightarrow> chunk_partial
     \<Rightarrow> (bytes list list \<times> bytes list) result" where
  "collect_partial agg_count mode s p =
     (let (fragments, spill) = s; parts = cp_partitioned_groups p in
      bindR (if parts = [] then Ok fragments
             else if length parts \<noteq> length fragments
             then Err (Bail ''partitioned_groups count does not match partition_count'')
             else Ok (map2 (\<lambda>fs bs. if bs = [] then fs else fs @ [bs]) fragments parts)) (\<lambda>fragments.
      if cp_groups p = [] then Ok (fragments, spill)
      else bindR (repartition_group_records (cp_groups p) agg_count mode spill) (\<lambda>spill.
        Ok (fragments, spill))))"

definition collect_partials ::
  "chunk_partial list \<Rightarrow> nat \<Rightarrow> nat \<Rightarrow> merge_keys_mode \<Rightarrow> (bytes list \<times> bytes) list result" where
  "collect_partials partials agg_count partitions mode =
     (let n = partition_count 4096 partitions in
      bindR (foldR (collect_partial agg_count mode) (replicate n [], replicate n []) partials)
        (\<lambda>(fragments, spill).
      bindR (mapR (\<lambda>(fs, s). fragments_count fs s agg_count mode) (zip fragments spill)) (\<lambda>_.
        Ok (zip fragments spill))))"

definition joined :: "(nat \<times> nat) option \<Rightarrow> nat \<Rightarrow> bytes list \<Rightarrow> bytes result" where
  "joined topk agg_count outs =
     (case topk of
        Some (limit, idx) \<Rightarrow> trim_group_records_topk_by_count outs agg_count idx limit
      | None \<Rightarrow> Ok (concat outs))"

definition merge_group_partials_partition_sort ::
  "(bytes \<Rightarrow> u64 \<Rightarrow> u64) \<Rightarrow> sorter \<Rightarrow> chunk_partial list \<Rightarrow> nat \<Rightarrow> nat \<Rightarrow> merge_keys_mode \<Rightarrow> nat
     \<Rightarrow> (nat \<times> nat) option \<Rightarrow> bytes result option" where
  "merge_group_partials_partition_sort seeded sort_unstable partials agg_count partitions mode
     hot_threshold topk =
     (if agg_count = 0 then Some (Ok [])
      else bindT (Some (collect_partials partials agg_count partitions mode)) (\<lambda>parts.
        bindT (mapT (\<lambda>(fragments, spill). reduce_partition_groups_sort seeded sort_unstable
            (flatten_partition_fragments fragments spill) agg_count mode hot_threshold) parts)
          (\<lambda>outs. Some (joined topk agg_count outs))))"

definition merge_group_partials_partition_direct ::
  "(bytes \<Rightarrow> u64 \<Rightarrow> u64) \<Rightarrow> chunk_partial list \<Rightarrow> nat \<Rightarrow> nat \<Rightarrow> merge_keys_mode \<Rightarrow> nat
     \<Rightarrow> (nat \<times> nat) option \<Rightarrow> bytes result option" where
  "merge_group_partials_partition_direct seeded partials agg_count partitions mode hot_threshold topk =
     (if agg_count = 0 then Some (Ok [])
      else bindT (Some (collect_partials partials agg_count partitions mode)) (\<lambda>parts.
        bindT (mapT (\<lambda>(fragments, spill). reduce_partition_group_fragments_direct seeded fragments
            spill agg_count mode hot_threshold) parts)
          (\<lambda>outs. Some (joined topk agg_count outs))))"

end
