(* ===== verification/Group_Reduce_Facts.thy ===== *)
theory Group_Reduce_Facts
  imports Group_Reduce "HOL-Library.Multiset"
begin

text \<open>
  What the reductions of group records compute: one group per key, in the order of the keys,
  whose statistics are those of its records merged in their order. The contract is stated for
  any record type with a key and statistics; the records of fixed size and those with key
  bytes are instances.
\<close>

section \<open>Merging statistics\<close>

lemma length_merge_group_states [simp]: "length (merge_group_states s t) = length s"
  by (simp add: merge_group_states_def)

lemma a_count_add_stats [simp]: "a_count (add_stats s t) = sat_add32 (a_count s) (a_count t)"
  by (simp add: add_stats_def Let_def)

definition merged_stats :: "nat \<Rightarrow> agg_state list list \<Rightarrow> agg_state list" where
  "merged_stats n = foldl merge_group_states (replicate n stats_default)"

lemma merged_stats_simps [simp]:
  "merged_stats n [] = replicate n stats_default"
  "merged_stats n (xs @ [x]) = merge_group_states (merged_stats n xs) x"
  by (simp_all add: merged_stats_def)

lemma length_merged_stats [simp]: "length (merged_stats n xs) = n"
  by (induction xs rule: rev_induct) auto

section \<open>Records of fixed size\<close>

definition group_map :: "nat \<Rightarrow> bytes list \<Rightarrow> groups" where
  "group_map n rs = foldl (group_step n) [] rs"

definition stats_of_key :: "nat \<Rightarrow> bytes list \<Rightarrow> u64 \<times> u64 \<Rightarrow> agg_state list" where
  "stats_of_key n rs k = merged_stats n (map record_stats (filter (\<lambda>r. record_key r = k) rs))"

lemma group_map_simps [simp]:
  "group_map n [] = []" "group_map n (rs @ [r]) = group_step n (group_map n rs) r"
  by (simp_all add: group_map_def)

lemma sorted_group_map: "keys_sorted (group_map n rs)"
  by (induction rs rule: rev_induct) (auto simp: keys_sorted_def [of "[]"] group_step_def Let_def sorted_put_key)

lemma map_of_group_map:
  "map_of (group_map n rs) k = (if k \<in> record_key ` set rs then Some (stats_of_key n rs k) else None)"
proof (induction rs rule: rev_induct)
  case (snoc r rs)
  show ?case
  proof (cases "record_key r = k")
    case True
    have "stats_of_key n rs k = replicate n stats_default" if "k \<notin> record_key ` set rs"
    proof -
      have none: "filter (\<lambda>r. record_key r = k) rs = []" using that by (auto simp: filter_empty_conv)
      show ?thesis unfolding stats_of_key_def none by simp
    qed
    with True show ?thesis using snoc
      by (auto simp: group_step_def Let_def map_of_put_key stats_of_key_def)
  next
    case False
    then show ?thesis using snoc by (auto simp: group_step_def Let_def map_of_put_key stats_of_key_def)
  qed
qed simp

lemma group_map_eqI:
  assumes "keys_sorted gs" "\<And>k. map_of gs k = (if k \<in> record_key ` set rs then Some (stats_of_key n rs k) else None)"
  shows "gs = group_map n rs"
  by (rule keys_sorted_unique [OF assms(1) sorted_group_map]) (simp add: fun_eq_iff assms(2) map_of_group_map)

lemma set_group_map: "set (group_map n rs) = (\<lambda>k. (k, stats_of_key n rs k)) ` record_key ` set rs"
proof -
  have "(k, v) \<in> set (group_map n rs) \<longleftrightarrow> k \<in> record_key ` set rs \<and> v = stats_of_key n rs k" for k v
    using map_of_mem [OF sorted_group_map, of n rs k v] by (auto simp: map_of_group_map split: if_splits)
  then show ?thesis by auto
qed

lemma distinct_group_map: "distinct (group_map n rs)"
  using distinct_keys [OF sorted_group_map, of n rs] by (simp add: distinct_map)

text \<open>The reduction of runs agrees when the records are in the order of their keys.\<close>

lemma filter_run:
  assumes "sorted_wrt (\<lambda>x y. (f x :: 'k::linorder) \<le> f y) (r # rs)"
  shows "filter (\<lambda>x. f x = f r) (r # rs) = r # takeWhile (\<lambda>x. f x = f r) rs"
    and "y \<in> set (dropWhile (\<lambda>x. f x = f r) rs) \<Longrightarrow> f r < f y"
proof -
  have later: "f r < f y" if y: "y \<in> set (dropWhile (\<lambda>x. f x = f r) rs)" for y
  proof -
    have s: "sorted_wrt (\<lambda>x y. f x \<le> f y) (dropWhile (\<lambda>x. f x = f r) rs)"
      using assms by (simp add: sorted_wrt_dropWhile)
    obtain z zs where z: "dropWhile (\<lambda>x. f x = f r) rs = z # zs"
      using y by (cases "dropWhile (\<lambda>x. f x = f r) rs") auto
    then have "f z \<noteq> f r" using hd_dropWhile [of "\<lambda>x. f x = f r" rs] by auto
    moreover have "z \<in> set rs" using z set_dropWhileD [of z _ rs] by (metis list.set_intros(1))
    ultimately have "f r < f z" using assms by fastforce
    then show ?thesis using s y z by fastforce
  qed
  then show "y \<in> set (dropWhile (\<lambda>x. f x = f r) rs) \<Longrightarrow> f r < f y" .
  have "filter (\<lambda>x. f x = f r) (dropWhile (\<lambda>x. f x = f r) rs) = []"
    using later by (force simp: filter_empty_conv)
  moreover have "filter (\<lambda>x. f x = f r) (takeWhile (\<lambda>x. f x = f r) rs) = takeWhile (\<lambda>x. f x = f r) rs"
    by (auto simp: filter_id_conv dest: set_takeWhileD)
  ultimately show "filter (\<lambda>x. f x = f r) (r # rs) = r # takeWhile (\<lambda>x. f x = f r) rs"
    using filter_append [of "\<lambda>x. f x = f r" "takeWhile (\<lambda>x. f x = f r) rs" "dropWhile (\<lambda>x. f x = f r) rs"]
    by simp
qed

lemma reduce_runs_eq:
  "sorted_wrt (\<lambda>x y. record_key x \<le> record_key y) rs \<Longrightarrow>
     keys_sorted (reduce_runs n rs) \<and> reduce_runs n rs = group_map n rs"
proof (induction n rs rule: reduce_runs.induct)
  case (1 n)
  then show ?case by (simp add: keys_sorted_def)
next
  case (2 n r rs)
  let ?rest = "dropWhile (\<lambda>x. record_key x = record_key r) rs"
  have rest: "reduce_runs n ?rest = group_map n ?rest" "keys_sorted (reduce_runs n ?rest)"
    using 2 by (simp_all add: sorted_wrt_dropWhile sorted_group_map)
  note run = filter_run [OF 2(2)]
  have keys: "fst ` set (group_map n ?rest) = record_key ` set ?rest"
    by (simp add: set_group_map image_image)
  have "keys_sorted (reduce_runs n (r # rs))"
    using rest run(2) keys by (auto simp: keys_sorted_def)
  moreover have "map_of (reduce_runs n (r # rs)) k =
      (if k \<in> record_key ` set (r # rs) then Some (stats_of_key n (r # rs) k) else None)" for k
  proof (cases "k = record_key r")
    case True
    then show ?thesis using run(1)
      by (simp add: stats_of_key_def merged_stats_def foldl_map)
  next
    case False
    have split: "rs = takeWhile (\<lambda>x. record_key x = record_key r) rs @ ?rest" by simp
    have "k \<in> record_key ` set rs \<longleftrightarrow> k \<in> record_key ` set ?rest"
      using False by (subst split, simp only: set_append image_Un) (auto dest: set_takeWhileD)
    moreover have "filter (\<lambda>x. record_key x = k) rs = filter (\<lambda>x. record_key x = k) ?rest"
      using False by (subst split, simp only: filter_append)
        (auto simp: filter_empty_conv dest: set_takeWhileD)
    ultimately show ?thesis using False
      by (auto simp: rest map_of_group_map stats_of_key_def)
  qed
  ultimately show ?case using group_map_eqI by blast
qed


lemma group_map_append_cong: "group_map n (rs @ ts) = foldl (group_step n) (group_map n rs) ts"
  by (simp add: group_map_def)

section \<open>Payloads of whole records\<close>

definition sized :: "nat \<Rightarrow> bytes list \<Rightarrow> bool" where
  "sized n rs \<longleftrightarrow> (\<forall>r \<in> set rs. length r = record_size n)"

lemma sized_simps [simp]:
  "sized n []" "sized n (r # rs) \<longleftrightarrow> length r = record_size n \<and> sized n rs"
  "sized n (rs @ ts) \<longleftrightarrow> sized n rs \<and> sized n ts"
  by (auto simp: sized_def)

lemma sized_filter: "sized n rs \<Longrightarrow> sized n (filter P rs)"
  by (auto simp: sized_def)

lemma sized_mset: "mset rs = mset ts \<Longrightarrow> sized n rs \<longleftrightarrow> sized n ts"
  unfolding sized_def by (metis mset_eq_setD)

lemma record_size_pos [simp]: "0 < record_size n" "record_size n \<noteq> 0"
  by (simp_all add: record_size_def)

lemma length_sized: "sized n rs \<Longrightarrow> length (concat rs) = length rs * record_size n"
  by (induction rs) auto

lemma chunks_sized: "sized n rs \<Longrightarrow> chunks_exact (record_size n) (concat rs) = rs"
  by (rule chunks_exact_concat) (auto simp: sized_def)

lemma concat_sized_Nil: "sized n rs \<Longrightarrow> concat rs = [] \<longleftrightarrow> rs = []"
  by (cases rs) (auto simp: record_size_def)

lemma aligned_sized:
  assumes "length bs mod record_size n = 0"
  shows "sized n (chunks_exact (record_size n) bs)" "concat (chunks_exact (record_size n) bs) = bs"
proof -
  show "sized n (chunks_exact (record_size n) bs)"
    by (auto simp: sized_def chunks_exact_mem_length)
  show "concat (chunks_exact (record_size n) bs) = bs"
    using assms
  proof (induction "record_size n" bs rule: chunks_exact.induct)
    case (1 bs)
    show ?case
    proof (cases "length bs < record_size n")
      case True
      with 1(2) show ?thesis by (simp add: chunks_exact_short)
    next
      case False
      then have "concat (chunks_exact (record_size n) (drop (record_size n) bs)) = drop (record_size n) bs"
        using 1 by (simp add: le_mod_geq)
      with False show ?thesis by (subst chunks_exact.simps) simp
    qed
  qed
qed

abbreviation groups_bytes :: "groups \<Rightarrow> bytes" where
  "groups_bytes gs \<equiv> concat (map reduced_record gs)"

lemma reduce_sized: "sized n rs \<Longrightarrow> reduce_group_records (concat rs) n = Ok (groups_bytes (group_map n rs))"
  by (cases "rs = []")
    (simp_all add: reduce_group_records_def length_sized chunks_sized group_map_def concat_sized_Nil
        del: concat_eq_Nil_conv)

lemma fragment_sized:
  "sized n rs \<Longrightarrow> fragment_step n (group_map n ts) (concat rs) = Ok (group_map n (ts @ rs))"
  by (simp add: fragment_step_def length_sized chunks_sized group_map_def)

lemma fragments_sized:
  "list_all (sized n) rss \<Longrightarrow>
     foldR (fragment_step n) (group_map n ts) (filter (\<lambda>bs. bs \<noteq> []) (map concat rss)) =
       Ok (group_map n (ts @ concat rss))"
proof (induction rss arbitrary: ts)
  case (Cons rs rss)
  then show ?case using concat_sized_Nil [of n rs]
    by (cases "rs = []") (simp_all add: fragment_sized del: group_map_simps concat_eq_Nil_conv)
qed simp

lemma reduce_fragments_sized:
  assumes "list_all (sized n) rss" "sized n rs"
  shows "reduce_group_records_from_fragments_hash (map concat rss) (concat rs) n =
    Ok (groups_bytes (group_map n (concat rss @ rs)))"
  using fragments_sized [of n "rss @ [rs]" "[]"] assms
  by (simp add: reduce_group_records_from_fragments_hash_def del: filter_append)

text \<open>What Rust promises of \<^verbatim>\<open>sort_unstable_by\<close>: the elements in order.\<close>

definition sorts :: "sorter \<Rightarrow> bool" where
  "sorts f \<longleftrightarrow> (\<forall>le xs. total_le le \<longrightarrow> mset (f le xs) = mset xs \<and> sorted_wrt le (f le xs))"

lemma record_at_sized:
  assumes "sized n rs" "i < length rs"
  shows "record_at n (concat rs) (i * record_size n) = rs ! i"
  using assms
proof (induction rs arbitrary: i)
  case (Cons r rs)
  then show ?case by (cases i) (auto simp: record_at_def add.commute)
qed simp

lemma total_le_key: "total_le (\<lambda>a b. (f a :: 'k::linorder) \<le> f b)"
  by (auto simp: total_le_def)

lemma reduce_sort_sized:
  assumes "sorts f" "sized n rs"
  shows "\<exists>ts. mset ts = mset rs \<and>
    reduce_group_records_sort f (concat rs) n = Ok (groups_bytes (group_map n ts))"
proof (cases "rs = []")
  case True
  then show ?thesis by (auto simp: reduce_group_records_sort_def)
next
  case False
  define offs where "offs = map (\<lambda>i. i * record_size n) [0..<length rs]"
  define le where "le = (\<lambda>a b. record_key (record_at n (concat rs) a) \<le> record_key (record_at n (concat rs) b))"
  define ts where "ts = map (record_at n (concat rs)) (f le offs)"
  have s: "mset (f le offs) = mset offs" "sorted_wrt le (f le offs)"
    using assms(1) total_le_key [of "\<lambda>a. record_key (record_at n (concat rs) a)"]
    unfolding sorts_def le_def by simp_all
  have "map (record_at n (concat rs)) offs = rs"
    by (rule nth_equalityI) (use record_at_sized [OF assms(2)] in \<open>simp_all add: offs_def\<close>)
  moreover have "mset ts = mset (map (record_at n (concat rs)) offs)"
    using s(1) by (simp add: ts_def)
  ultimately have m: "mset ts = mset rs" by simp
  have "sorted_wrt (\<lambda>x y. record_key x \<le> record_key y) ts"
    using s(2) by (simp add: ts_def sorted_wrt_map le_def)
  then have "reduce_runs n ts = group_map n ts" using reduce_runs_eq by blast
  then have "reduce_group_records_sort f (concat rs) n = Ok (groups_bytes (group_map n ts))"
    using False assms(2) concat_sized_Nil [of n rs]
    by (simp add: reduce_group_records_sort_def Let_def length_sized offs_def le_def ts_def del: concat_eq_Nil_conv)
  with m show ?thesis by blast
qed

text \<open>The keys of a reduction and their counts do not depend on the order of the records.\<close>

definition group_counts :: "groups \<Rightarrow> u64 \<times> u64 \<rightharpoonup> u32 list" where
  "group_counts gs k = map_option (map a_count) (map_of gs k)"

section \<open>Partitions\<close>

lemma stats_of_key_filter:
  "P k \<Longrightarrow> stats_of_key n (filter (\<lambda>r. P (record_key r)) rs) k = stats_of_key n rs k"
  by (auto simp: stats_of_key_def intro!: arg_cong [where f = "\<lambda>x. merged_stats n (map record_stats x)"] filter_cong)

text \<open>The records of a partition give the groups of the partition.\<close>

lemma set_group_map_filter:
  "set (group_map n (filter (\<lambda>r. P (record_key r)) rs)) = {g \<in> set (group_map n rs). P (fst g)}"
  by (auto simp: set_group_map stats_of_key_filter)

text \<open>Groups put together from the records of each value of a function of the key.\<close>

lemma mset_partitioned:
  assumes "\<And>r. r \<in> set rs \<Longrightarrow> part (record_key r) < m"
  shows "mset (concat (map (\<lambda>p. group_map n (filter (\<lambda>r. part (record_key r) = p) rs)) [0..<m])) =
    mset (group_map n rs)"
proof -
  let ?gs = "\<lambda>p. group_map n (filter (\<lambda>r. part (record_key r) = p) rs)"
  have set: "set (?gs p) = {g \<in> set (group_map n rs). part (fst g) = p}" for p
    using set_group_map_filter [of n "\<lambda>k. part k = p" rs] .
  have "distinct (concat (map ?gs [0..<k]))" for k
    by (induction k) (auto simp: distinct_group_map set)
  moreover have "set (concat (map ?gs [0..<m])) = set (group_map n rs)"
  proof -
    have "set (concat (map ?gs [0..<m])) = (\<Union>p < m. {g \<in> set (group_map n rs). part (fst g) = p})"
      by (simp add: set atLeast0LessThan)
    also have "\<dots> = set (group_map n rs)" using assms by (auto simp: set_group_map)
    finally show ?thesis .
  qed
  ultimately show ?thesis
    using set_eq_iff_mset_eq_distinct [of "concat (map ?gs [0..<m])" "group_map n rs"] distinct_group_map
    by blast
qed

end
