(* ===== verification/Group_Merge_Facts.thy ===== *)
theory Group_Merge_Facts
  imports Group_Merge Group_Reduce_Facts Top_K
begin

text \<open>
  The engines that merge the workers' groups give, whatever the number of partitions and the
  threshold, the groups of all records; the trimming keeps the largest counts.
\<close>

section \<open>Loops\<close>

lemma bindT_simps [simp]:
  "bindT None f = None" "bindT (Some (Err e)) f = Some (Err e)" "bindT (Some (Ok x)) f = f x"
  by (simp_all add: bindT_def)

lemma mapT_total: "(\<And>x. x \<in> set xs \<Longrightarrow> f x = Some (Ok (g x))) \<Longrightarrow> mapT f xs = Some (Ok (map g xs))"
  by (induction xs) auto

lemma mapT_map: "mapT f (map g xs) = mapT (\<lambda>x. f (g x)) xs"
  by (induction xs) auto

section \<open>Distribution to partitions\<close>

lemma length_push [simp]: "length (foldl (push_record part) parts rs) = length parts"
  by (induction rs arbitrary: parts) (auto simp: push_record_def)

lemma push_records:
  assumes "\<And>r. r \<in> set rs \<Longrightarrow> part r < length parts" "p < length parts"
  shows "foldl (push_record part) parts rs ! p = parts ! p @ concat (filter (\<lambda>r. part r = p) rs)"
  using assms
proof (induction rs arbitrary: parts)
  case (Cons r rs)
  have "foldl (push_record part) (push_record part parts r) rs ! p =
      push_record part parts r ! p @ concat (filter (\<lambda>r. part r = p) rs)"
    by (rule Cons.IH) (use Cons.prems in \<open>simp_all add: push_record_def\<close>)
  then show ?case using Cons.prems
    by (cases "p = part r") (auto simp: push_record_def [of part parts r])
qed simp

lemma push_empty:
  assumes "\<And>r. r \<in> set rs \<Longrightarrow> part r < m"
  shows "foldl (push_record part) (replicate m []) rs =
    map (\<lambda>p. concat (filter (\<lambda>r. part r = p) rs)) [0..<m]"
  by (rule nth_equalityI) (use push_records [of rs part "replicate m []"] assms in simp_all)

lemma partition_of_less: "0 < m \<Longrightarrow> partition_of m r < m"
proof -
  assume "0 < m"
  have "a AND (m - 1) \<le> m - 1" for a :: nat
    by (metis and.commute and_nat_def le_nat_iff nat_int of_nat_0_le_iff AND_upper2' le_refl nat_le_iff)
  then show ?thesis using \<open>0 < m\<close> unfolding partition_of_def group_partition_for_keys_def
    by (meson diff_less le_less_trans zero_less_one)
qed

lemma hot_bucket_less: "hot_bucket r < 16"
proof -
  have "hot_bucket r \<le> unat (0x0f :: u64)"
    unfolding hot_bucket_def by (rule word_le_nat_alt [THEN iffD1]) (rule word_and_le1)
  then show ?thesis by simp
qed

section \<open>One partition\<close>

definition reduced_to :: "nat \<Rightarrow> bytes list \<Rightarrow> bytes result option \<Rightarrow> bool" where
  "reduced_to n rs r \<longleftrightarrow> (\<exists>ts gs. mset ts = mset rs \<and> mset gs = mset (group_map n ts) \<and>
     r = Some (Ok (groups_bytes gs)))"

lemma reduced_toI: "mset ts = mset rs \<Longrightarrow> reduced_to n rs (Some (Ok (groups_bytes (group_map n ts))))"
  by (auto simp: reduced_to_def)

lemma groups_bytes_concat: "groups_bytes (concat gss) = concat (map groups_bytes gss)"
  by (induction gss) auto

lemma hot_reduced:
  assumes "sized n rs"
  shows "reduced_to n rs (reduce_hot_partition_groups seeded (concat rs) n Hash)"
proof -
  let ?part = "\<lambda>k. unat (drop_bit 60 (hash_u64_pair (fst k) (snd k)) AND 0x0f)"
  let ?b = "\<lambda>p. filter (\<lambda>r. hot_bucket r = p) rs"
  have buckets: "foldl (push_record hot_bucket) (replicate 16 []) rs = map (\<lambda>p. concat (?b p)) [0..<16]"
    by (rule push_empty) (rule hot_bucket_less)
  have "mapT (\<lambda>bucket. reduce_any seeded Hash bucket n) (map (\<lambda>p. concat (?b p)) [0..<16]) =
      Some (Ok (map (\<lambda>p. groups_bytes (group_map n (?b p))) [0..<16]))"
    using mapT_total [of "[0..<16]" "\<lambda>p. reduce_any seeded Hash (concat (?b p)) n"]
    by (simp add: reduce_any_def reduce_sized sized_filter assms mapT_map)
  then have "reduce_hot_partition_groups seeded (concat rs) n Hash =
      Some (Ok (groups_bytes (concat (map (\<lambda>p. group_map n (?b p)) [0..<16]))))"
    by (simp add: reduce_hot_partition_groups_def chunks_sized assms buckets groups_bytes_concat comp_def
        del: upt_conv_Cons)
  moreover have "mset (concat (map (\<lambda>p. group_map n (?b p)) [0..<16])) = mset (group_map n rs)"
    using mset_partitioned [of rs ?part 16 n] hot_bucket_less by (simp add: hot_bucket_def)
  ultimately show ?thesis unfolding reduced_to_def by blast
qed


lemma payload_count_sized: "sized n rs \<Longrightarrow> payload_count (concat rs) n Hash = Ok (length rs)"
  by (simp add: payload_count_def length_sized)

lemma plain_reduced:
  assumes "sized n rs"
  shows "reduced_to n rs (reduce_partition_groups seeded (concat rs) n Hash hot)"
proof (cases "rs = []")
  case True
  then show ?thesis by (auto simp: reduce_partition_groups_def reduced_to_def)
next
  case False
  then have "concat rs \<noteq> []" using concat_sized_Nil [OF assms] by simp
  then have *: "reduce_partition_groups seeded (concat rs) n Hash hot =
      (if max hot 1 < length rs then reduce_hot_partition_groups seeded (concat rs) n Hash
       else reduce_any seeded Hash (concat rs) n)"
    by (simp add: reduce_partition_groups_def payload_count_sized assms del: concat_eq_Nil_conv)
  show ?thesis unfolding *
    by (cases "max hot 1 < length rs")
      (auto simp: hot_reduced assms reduce_any_def reduce_sized reduced_toI)
qed

lemma sort_reduced:
  assumes "sorts f" "sized n rs"
  shows "reduced_to n rs (reduce_partition_groups_sort seeded f (concat rs) n Hash hot)"
proof (cases "rs = []")
  case True
  then show ?thesis by (auto simp: reduce_partition_groups_sort_def reduced_to_def)
next
  case False
  then have "concat rs \<noteq> []" using concat_sized_Nil [OF assms(2)] by simp
  then have *: "reduce_partition_groups_sort seeded f (concat rs) n Hash hot =
      (if max hot 1 < length rs then reduce_hot_partition_groups seeded (concat rs) n Hash
       else Some (reduce_group_records_sort f (concat rs) n))"
    by (simp add: reduce_partition_groups_sort_def payload_count_sized assms(2) del: concat_eq_Nil_conv)
  show ?thesis unfolding *
    using hot_reduced [OF assms(2)] reduce_sort_sized [OF assms] by (auto intro: reduced_toI)
qed

lemma direct_reduced:
  assumes "list_all (sized n) fss" "sized n ss"
  shows "reduced_to n (concat fss @ ss)
    (reduce_partition_group_fragments_direct seeded (map concat fss) (concat ss) n Hash hot)"
proof (cases "map concat fss = [] \<and> concat ss = []")
  case True
  then show ?thesis using concat_sized_Nil [OF assms(2)]
    by (auto simp: reduce_partition_group_fragments_direct_def reduced_to_def)
next
  case False
  have sz: "sized n (ss @ concat fss)" using assms by (induction fss) auto
  have flat: "flatten_partition_fragments (map concat fss) (concat ss) = concat (ss @ concat fss)"
    by (induction fss) (simp_all add: flatten_partition_fragments_def)
  obtain k where *: "reduce_partition_group_fragments_direct seeded (map concat fss) (concat ss) n Hash hot =
      (if max hot 1 < k then reduce_hot_partition_groups seeded (concat (ss @ concat fss)) n Hash
       else Some (reduce_group_records_from_fragments_hash (map concat fss) (concat ss) n))"
    using False by (simp only: reduce_partition_group_fragments_direct_def flat fragments_count_def
        merge_keys_mode.case bindT_simps if_False)
  have hot: "reduced_to n (concat fss @ ss) (reduce_hot_partition_groups seeded (concat (ss @ concat fss)) n Hash)"
    using hot_reduced [OF sz, of seeded] by (simp add: reduced_to_def union_commute)
  show ?thesis unfolding * using hot by (auto simp: reduce_fragments_sized assms intro: reduced_toI)
qed

section \<open>All partitions\<close>

lemma mset_concat_upt_cong:
  assumes "\<And>p. p < m \<Longrightarrow> mset (f p) = mset (g p)"
  shows "mset (concat (map f [0..<m])) = mset (concat (map g [0..<m]))"
proof -
  have "sum_list (map (\<lambda>p. mset (f p)) [0..<m]) = sum_list (map (\<lambda>p. mset (g p)) [0..<m])"
    by (rule arg_cong [where f = sum_list], rule map_cong) (use assms in auto)
  then show ?thesis by (simp add: mset_concat comp_def)
qed

text \<open>Results of the partitions together are groups of all records.\<close>

definition all_reduced :: "nat \<Rightarrow> bytes list \<Rightarrow> bytes list \<Rightarrow> bool" where
  "all_reduced n rs outs \<longleftrightarrow> (\<exists>ts gss. mset ts = mset rs \<and>
     mset (concat gss) = mset (group_map n ts) \<and> outs = map groups_bytes gss)"

lemma joined_reduced:
  assumes "\<And>p. p < m \<Longrightarrow> reduced_to n (ps p) (r p)" "0 < m"
    and "\<And>p x. p < m \<Longrightarrow> x \<in> set (ps p) \<Longrightarrow> partition_of m x = p"
    and "mset (concat (map ps [0..<m])) = mset rs"
  shows "\<exists>outs. mapT r [0..<m] = Some (Ok outs) \<and> all_reduced n rs outs"
proof -
  have "\<forall>p. \<exists>ts gs. p < m \<longrightarrow> mset ts = mset (ps p) \<and> mset gs = mset (group_map n ts) \<and>
      r p = Some (Ok (groups_bytes gs))"
    using assms(1) unfolding reduced_to_def by blast
  then obtain ts gs where t: "\<And>p. p < m \<Longrightarrow> mset (ts p) = mset (ps p)"
    "\<And>p. p < m \<Longrightarrow> mset (gs p) = mset (group_map n (ts p))"
    "\<And>p. p < m \<Longrightarrow> r p = Some (Ok (groups_bytes (gs p)))"
    by metis
  let ?ts = "concat (map ts [0..<m])" and ?gs = "concat (map gs [0..<m])"
  let ?part = "\<lambda>k. group_partition_for_keys (fst k) (snd k) m"
  have part: "partition_of m x = p" if "p < m" "x \<in> set (ts p)" for p x
    using assms(3) [OF that(1), of x] mset_eq_setD [OF t(1) [OF that(1)]] that(2) by simp
  have same: "filter (\<lambda>x. partition_of m x = p) (concat (map ts [0..<k])) = (if p < k then ts p else [])"
    if "p < m" "k \<le> m" for p k
    using that(2)
  proof (induction k)
    case (Suc k)
    have "filter (\<lambda>x. partition_of m x = p) (ts k) = (if p = k then ts k else [])"
      using part [of k] Suc.prems by (auto simp: filter_id_conv filter_empty_conv)
    with Suc show ?case by auto
  qed simp
  have "mset ?ts = mset (concat (map ps [0..<m]))"
    by (rule mset_concat_upt_cong) (rule t(1))
  then have "mset ?ts = mset rs" using assms(4) by simp
  moreover have "mset ?gs = mset (group_map n ?ts)"
  proof -
    have "mset ?gs = mset (concat (map (\<lambda>p. group_map n (ts p)) [0..<m]))"
      by (rule mset_concat_upt_cong) (rule t(2))
    also have "\<dots> = mset (concat (map (\<lambda>p. group_map n (filter (\<lambda>x. ?part (record_key x) = p) ?ts)) [0..<m]))"
      by (rule mset_concat_upt_cong) (use same [of _ m] in \<open>simp add: partition_of_def\<close>)
    also have "\<dots> = mset (group_map n ?ts)"
      by (rule mset_partitioned) (use partition_of_less [OF assms(2)] in \<open>simp add: partition_of_def\<close>)
    finally show ?thesis .
  qed
  moreover have "mapT r [0..<m] = Some (Ok (map (\<lambda>p. groups_bytes (gs p)) [0..<m]))"
    by (rule mapT_total) (use t(3) in simp)
  moreover have "map (\<lambda>p. groups_bytes (gs p)) [0..<m] = map groups_bytes (map gs [0..<m])"
    by simp
  ultimately show ?thesis unfolding all_reduced_def by blast
qed


section \<open>The engines\<close>

lemma route_chunks:
  assumes "list_all (sized n) css" "parts \<noteq> []"
  shows "foldR (\<lambda>parts bs. if bs = [] then Ok parts else repartition_group_records bs n Hash parts) parts
      (map concat css) = Ok (foldl (push_record (partition_of (length parts))) parts (concat css))"
  using assms
proof (induction css arbitrary: parts)
  case (Cons rs css)
  show ?case
  proof (cases "rs = []")
    case False
    then have "concat rs \<noteq> []" using concat_sized_Nil [of n rs] Cons.prems by simp
    then have step: "(if concat rs = [] then Ok parts else repartition_group_records (concat rs) n Hash parts) =
        Ok (foldl (push_record (partition_of (length parts))) parts rs)"
      using Cons.prems length_sized [of n rs]
      by (simp add: repartition_group_records_def partial_records_def chunks_sized
          del: concat_eq_Nil_conv length_concat)
    have "foldl (push_record (partition_of (length parts))) parts rs \<noteq> []"
      using Cons.prems(2) by (metis length_push length_0_conv)
    with Cons show ?thesis by (simp add: step del: concat_eq_Nil_conv)
  qed (use Cons in simp)
qed simp

definition scanned :: "nat \<Rightarrow> bytes list \<Rightarrow> bytes list" where
  "scanned m rs = map (\<lambda>p. concat (filter (\<lambda>r. partition_of m r = p) rs)) [0..<m]"

lemma scan_groups_ok:
  assumes "list_all (sized n) css" "0 < m"
  shows "scan_groups n Hash m (map concat css) = Ok (scanned m (concat css))"
  using route_chunks [OF assms(1), of "replicate m []"] assms(2)
    push_empty [of "concat css" "partition_of m" m] partition_of_less [OF assms(2)]
  by (simp add: scan_groups_def scanned_def)

definition groups_partial :: "bytes \<Rightarrow> chunk_partial" where
  "groups_partial bs = \<lparr> cp_chunk_id = 0, cp_rows = [], cp_row_candidates = [], cp_aggs = [],
     cp_groups = bs, cp_partitioned_groups = [], cp_work_bytes_est = 0 \<rparr>"

definition scan_partial :: "bytes list \<Rightarrow> chunk_partial" where
  "scan_partial parts = \<lparr> cp_chunk_id = - 1, cp_rows = [], cp_row_candidates = [], cp_aggs = [],
     cp_groups = [], cp_partitioned_groups = parts, cp_work_bytes_est = 0 \<rparr>"

lemma next_power_pos: "0 < p \<Longrightarrow> 0 < next_power n p"
  by (induction n p rule: next_power.induct) (subst next_power.simps, simp)

lemma partition_count_pos: "0 < cap \<Longrightarrow> 0 < partition_count cap k"
  by (simp add: partition_count_def next_power_pos)

lemma mset_partitions:
  assumes "\<And>x. x \<in> set rs \<Longrightarrow> part x < m"
  shows "mset (concat (map (\<lambda>p. filter (\<lambda>x. part x = p) rs) [0..<m])) = mset rs"
proof -
  have "mset (concat (map (\<lambda>p. filter (\<lambda>x. part x = p) rs) [0..<k])) =
      filter_mset (\<lambda>x. part x < k) (mset rs)" for k
    by (induction k) (auto simp: less_Suc_eq multiset_eq_iff)
  from this [of m] show ?thesis using assms by (auto simp: multiset_eq_iff)
qed

lemma legacy_reduced:
  assumes "0 < n" "list_all (sized n) css"
  shows "\<exists>outs. merge_group_partials_partitioned_legacy seeded
      (map (\<lambda>rs. groups_partial (concat rs)) css) n k Hash hot = Some (Ok (concat outs)) \<and>
    all_reduced n (concat css) outs"
proof -
  let ?m = "partition_count 2048 k" and ?rs = "concat css"
  have m: "0 < ?m" by (rule partition_count_pos) simp
  have "foldR (\<lambda>parts p. if cp_groups p = [] then Ok parts
      else repartition_group_records (cp_groups p) n Hash parts) parts (map (\<lambda>rs. groups_partial (concat rs)) css) =
    foldR (\<lambda>parts bs. if bs = [] then Ok parts else repartition_group_records bs n Hash parts) parts
      (map concat css)" for parts
    by (induction css arbitrary: parts) (simp_all add: groups_partial_def del: concat_eq_Nil_conv)
  then have route: "foldR (\<lambda>parts p. if cp_groups p = [] then Ok parts
      else repartition_group_records (cp_groups p) n Hash parts) (replicate ?m [])
      (map (\<lambda>rs. groups_partial (concat rs)) css) = Ok (scanned ?m ?rs)"
    using route_chunks [OF assms(2), of "replicate ?m []"] m
      push_empty [of ?rs "partition_of ?m" ?m] partition_of_less [OF m]
    by (simp add: scanned_def)
  have sz: "sized n ?rs" using assms(2) by (induction css) auto
  have "\<exists>outs. mapT (\<lambda>p. reduce_partition_groups seeded
        (concat (filter (\<lambda>r. partition_of ?m r = p) ?rs)) n Hash hot) [0..<?m] = Some (Ok outs) \<and>
      all_reduced n ?rs outs"
    by (rule joined_reduced [OF plain_reduced [OF sized_filter [OF sz]] m _ mset_partitions])
      (auto simp: partition_of_less m)
  then obtain outs where outs: "mapT (\<lambda>p. reduce_partition_groups seeded
        (concat (filter (\<lambda>r. partition_of ?m r = p) ?rs)) n Hash hot) [0..<?m] = Some (Ok outs)"
      "all_reduced n ?rs outs"
    by blast
  have "mapT (\<lambda>bs. reduce_partition_groups seeded bs n Hash hot) (scanned ?m ?rs) = Some (Ok outs)"
    unfolding scanned_def mapT_map by (rule outs(1))
  with route assms(1) have "merge_group_partials_partitioned_legacy seeded
      (map (\<lambda>rs. groups_partial (concat rs)) css) n k Hash hot = Some (Ok (concat outs))"
    by (simp add: merge_group_partials_partitioned_legacy_def)
  with outs(2) show ?thesis by blast
qed


lemma concat_concat: "concat (map concat xss) = concat (concat xss)"
  by (induction xss) auto

text \<open>What the scans of the workers leave for a partition.\<close>

definition scan_fragments :: "nat \<Rightarrow> bytes list list \<Rightarrow> nat \<Rightarrow> bytes list list" where
  "scan_fragments m wss p = filter (\<lambda>rs. rs \<noteq> []) (map (filter (\<lambda>r. partition_of m r = p)) wss)"

lemma scan_fragments_simps [simp]:
  "scan_fragments m [] p = []"
  "scan_fragments m (rs # wss) p =
     (let f = filter (\<lambda>r. partition_of m r = p) rs in if f = [] then [] else [f]) @ scan_fragments m wss p"
  by (simp_all add: scan_fragments_def Let_def)

lemma concat_scan_fragments: "concat (scan_fragments m wss p) = filter (\<lambda>r. partition_of m r = p) (concat wss)"
  by (induction wss) (auto simp: Let_def)

lemma sized_scan_fragments: "list_all (sized n) wss \<Longrightarrow> list_all (sized n) (scan_fragments m wss p)"
  by (auto simp: scan_fragments_def list_all_iff intro: sized_filter)

lemma collect_scans:
  assumes "list_all (sized n) wss" "length frs = m" "0 < m"
  shows "foldR (collect_partial n Hash) (frs, spill) (map (\<lambda>rs. scan_partial (scanned m rs)) wss) =
    Ok (map (\<lambda>p. frs ! p @ map concat (scan_fragments m wss p)) [0..<m], spill)"
  using assms
proof (induction wss arbitrary: frs)
  case Nil
  then show ?case by (auto intro!: nth_equalityI [symmetric])
next
  case (Cons rs wss)
  let ?step = "\<lambda>fs bs. if bs = [] then fs else fs @ [bs]"
  let ?f = "\<lambda>p. filter (\<lambda>r. partition_of m r = p) rs"
  have "scanned m rs \<noteq> []" "length (scanned m rs) = m"
    using Cons.prems(3) by (simp_all add: scanned_def)
  then have step: "collect_partial n Hash (frs, spill) (scan_partial (scanned m rs)) =
      Ok (map2 ?step frs (scanned m rs), spill)"
    using Cons.prems(2) by (simp add: collect_partial_def scan_partial_def)
  have "map (\<lambda>p. map2 ?step frs (scanned m rs) ! p @ map concat (scan_fragments m wss p)) [0..<m] =
      map (\<lambda>p. frs ! p @ map concat (scan_fragments m (rs # wss) p)) [0..<m]"
  proof (rule map_cong [OF refl])
    fix p assume p: "p \<in> set [0..<m]"
    have "concat (?f p) = [] \<longleftrightarrow> ?f p = []"
      by (rule concat_sized_Nil [of n]) (use Cons.prems(1) in \<open>simp add: sized_filter\<close>)
    with p Cons.prems(2)
    show "map2 ?step frs (scanned m rs) ! p @ map concat (scan_fragments m wss p) =
      frs ! p @ map concat (scan_fragments m (rs # wss) p)"
      by (simp add: scanned_def Let_def del: concat_eq_Nil_conv)
  qed
  moreover have "length (map2 ?step frs (scanned m rs)) = m"
    using Cons.prems(2) by (simp add: scanned_def)
  ultimately show ?case
    using Cons.IH [of "map2 ?step frs (scanned m rs)"] Cons.prems(1,3)
    by (simp add: step del: scan_fragments_simps)
qed

lemma collect_partials_scans:
  assumes "list_all (sized n) wss" "partition_count 4096 m = m"
  shows "collect_partials (map (\<lambda>rs. scan_partial (scanned m rs)) wss) n m Hash =
    Ok (map (\<lambda>p. (map concat (scan_fragments m wss p), [])) [0..<m])"
proof -
  have m: "0 < m" using partition_count_pos [of 4096 m] assms(2) by simp
  have "mapR (\<lambda>(fs, s). fragments_count fs s n Hash) xs = Ok (map (\<lambda>(fs, s).
      sum_list (map (\<lambda>bs. length bs div record_size n) (s # fs))) xs)" for xs
    by (rule mapR_total) (auto simp: fragments_count_def)
  moreover have "zip (map f [0..<m]) (replicate m [] :: bytes list) = map (\<lambda>p. (f p, [])) [0..<m]" for f :: "nat \<Rightarrow> bytes list"
    by (rule nth_equalityI) simp_all
  moreover have "foldR (collect_partial n Hash) (replicate m [], replicate m [])
      (map (\<lambda>rs. scan_partial (scanned m rs)) wss) =
    Ok (map (\<lambda>p. map concat (scan_fragments m wss p)) [0..<m], replicate m [])"
    using collect_scans [OF assms(1) _ m, of "replicate m []" "replicate m []"] by (simp cong: map_cong)
  ultimately show ?thesis
    by (simp only: collect_partials_def assms(2) Let_def bindR_simps prod.case)
qed

lemma scans_reduced:
  assumes "list_all (sized n) wss" "0 < m"
    and "\<And>p. reduced_to n (filter (\<lambda>r. partition_of m r = p) (concat wss)) (r p)"
  shows "\<exists>outs. mapT r [0..<m] = Some (Ok outs) \<and> all_reduced n (concat wss) outs"
  by (rule joined_reduced [OF assms(3) assms(2) _ mset_partitions])
    (auto simp: partition_of_less assms(2))

lemma sort_engine_reduced:
  assumes "0 < n" "list_all (sized n) wss" "partition_count 4096 m = m" "sorts f"
  shows "\<exists>outs. merge_group_partials_partition_sort seeded f
      (map (\<lambda>rs. scan_partial (scanned m rs)) wss) n m Hash hot topk = Some (joined topk n outs) \<and>
    all_reduced n (concat wss) outs"
proof -
  have m: "0 < m" using partition_count_pos [of 4096 m] assms(3) by simp
  let ?r = "\<lambda>p. reduce_partition_groups_sort seeded f
      (flatten_partition_fragments (map concat (scan_fragments m wss p)) []) n Hash hot"
  have "reduced_to n (filter (\<lambda>r. partition_of m r = p) (concat wss)) (?r p)" for p
  proof -
    have "sized n (concat wss)" using assms(2) by (induction wss) auto
    moreover have "flatten_partition_fragments (map concat (scan_fragments m wss p)) [] =
        concat (filter (\<lambda>r. partition_of m r = p) (concat wss))"
      by (simp add: flatten_partition_fragments_def concat_concat flip: concat_scan_fragments)
    ultimately show ?thesis using sort_reduced [OF assms(4) sized_filter] by simp
  qed
  from scans_reduced [OF assms(2) m this] obtain outs where "mapT ?r [0..<m] = Some (Ok outs)"
    "all_reduced n (concat wss) outs" by blast
  moreover from this(1) have "merge_group_partials_partition_sort seeded f
      (map (\<lambda>rs. scan_partial (scanned m rs)) wss) n m Hash hot topk = Some (joined topk n outs)"
    using assms(1) by (simp add: merge_group_partials_partition_sort_def
        collect_partials_scans [OF assms(2,3)] mapT_map)
  ultimately show ?thesis by blast
qed

lemma direct_engine_reduced:
  assumes "0 < n" "list_all (sized n) wss" "partition_count 4096 m = m"
  shows "\<exists>outs. merge_group_partials_partition_direct seeded
      (map (\<lambda>rs. scan_partial (scanned m rs)) wss) n m Hash hot topk = Some (joined topk n outs) \<and>
    all_reduced n (concat wss) outs"
proof -
  have m: "0 < m" using partition_count_pos [of 4096 m] assms(3) by simp
  let ?r = "\<lambda>p. reduce_partition_group_fragments_direct seeded (map concat (scan_fragments m wss p)) [] n Hash hot"
  have "reduced_to n (filter (\<lambda>r. partition_of m r = p) (concat wss)) (?r p)" for p
    using direct_reduced [OF sized_scan_fragments [OF assms(2), of m p], of "[]" seeded hot]
    by (simp add: concat_scan_fragments)
  from scans_reduced [OF assms(2) m this] obtain outs where "mapT ?r [0..<m] = Some (Ok outs)"
    "all_reduced n (concat wss) outs" by blast
  moreover from this(1) have "merge_group_partials_partition_direct seeded 
      (map (\<lambda>rs. scan_partial (scanned m rs)) wss) n m Hash hot topk = Some (joined topk n outs)"
    using assms(1) by (simp add: merge_group_partials_partition_direct_def
        collect_partials_scans [OF assms(2,3)] mapT_map)
  ultimately show ?thesis by blast
qed

end
