(* ===== verification/Group_Trim.thy ===== *)
theory Group_Trim
  imports Group_Merge_Facts Group_Hist_Facts
begin

text \<open>
  The trimming to the groups with the largest counts. The heap's order breaks ties the other
  way round than the test for replacing its greatest element, so which of the groups with
  equal counts stay depends on the order of the records; the counts that stay do not.
\<close>

section \<open>Counts of merged groups\<close>

lemma map2_nth: "i < length s \<Longrightarrow> i < length t \<Longrightarrow> map2 f s t ! i = f (s ! i) (t ! i)"
  by simp

lemma merge_group_states_nth:
  "i < length s \<Longrightarrow> i < length t \<Longrightarrow> merge_group_states s t ! i = add_stats (s ! i) (t ! i)"
  by (simp add: merge_group_states_def nth_append)

lemma merged_counts:
  assumes "i < n" "\<And>x. x \<in> set xs \<Longrightarrow> i < length x"
  shows "unat (a_count (merged_stats n xs ! i)) =
    min (2 ^ 32 - 1) (\<Sum>x\<leftarrow>xs. unat (a_count (x ! i)))"
  using assms(2)
proof (induction xs rule: rev_induct)
  case Nil
  then show ?case using assms(1) by (simp add: stats_default_def)
next
  case (snoc x xs)
  then show ?case using assms(1) by (simp add: merge_group_states_nth sat_add32_unat)
qed

lemma chunks_exact_nth:
  "0 < w \<Longrightarrow> Suc i * w \<le> length bs \<Longrightarrow> chunks_exact w bs ! i = slice bs (i * w) (Suc i * w)"
proof (induction w bs arbitrary: i rule: chunks_exact.induct)
  case (1 w bs)
  then have "\<not> (w = 0 \<or> length bs < w)" by (auto dest: order_trans [rotated])
  then have c: "chunks_exact w bs = take w bs # chunks_exact w (drop w bs)"
    by (subst chunks_exact.simps) simp
  show ?case
  proof (cases i)
    case 0
    with c show ?thesis by (simp add: slice_def)
  next
    case (Suc j)
    have "chunks_exact w (drop w bs) ! j = slice (drop w bs) (j * w) (Suc j * w)"
      using 1 Suc \<open>\<not> (w = 0 \<or> length bs < w)\<close> by simp
    with c Suc show ?thesis by (simp add: slice_def add.commute)
  qed
qed

lemma length_record_stats: "length r = record_size n \<Longrightarrow> length (record_stats r) = n"
  by (simp add: record_stats_def record_size_def AGG_RECORD_BYTES_def chunks_exact_length)

lemma record_count:
  assumes "length r = record_size n" "i < n"
  shows "fst (count_entry_of i r) = a_count (record_stats r ! i)"
proof -
  have "i * 32 + 32 \<le> n * 32" using assms(2) by simp
  then have "chunks_exact 32 (drop 16 r) ! i = slice (drop 16 r) (i * 32) (Suc i * 32)"
    using assms by (intro chunks_exact_nth) (simp_all add: record_size_def AGG_RECORD_BYTES_def)
  moreover have "i < length (chunks_exact 32 (drop 16 r))"
    using length_record_stats [OF assms(1)] assms(2) by (simp add: record_stats_def AGG_RECORD_BYTES_def)
  moreover have "slice (slice (drop 16 r) (i * 32) (Suc i * 32)) 24 28 = slice r (i * 32 + 40) (i * 32 + 44)"
    by (simp add: slice_def drop_take add.commute)
  ultimately show ?thesis
    by (simp add: count_entry_of_def record_stats_def read_stats_def AGG_RECORD_BYTES_def Let_def add.commute)
qed

section \<open>The heap\<close>

definition entry_rank :: "count_entry \<Rightarrow> int \<times> (int \<times> int) \<times> bytes" where
  "entry_rank x = (case x of (c, (a, b), r) \<Rightarrow> (- uint c, (- uint a, - uint b), r))"

lemma heap_le_rank: "heap_le x y \<longleftrightarrow> entry_rank x \<le> entry_rank y"
  by (cases x; cases y)
    (auto simp: heap_le_def entry_rank_def less_eq_prod_def less_prod_def word_less_def word_le_def
      simp flip: word_uint_eq_iff)

lemma total_heap_le: "total_le heap_le"
  unfolding heap_le_rank by (rule total_le_key)

definition count_rank :: "count_entry \<Rightarrow> int \<times> int \<times> int" where
  "count_rank x = (case x of (c, (a, b), r) \<Rightarrow> (- uint c, uint a, uint b))"

lemma count_le_rank: "count_le x y \<longleftrightarrow> count_rank x \<le> count_rank y"
  by (cases x; cases y)
    (auto simp: count_le_def count_rank_def less_eq_prod_def less_prod_def word_less_def word_le_def
      simp flip: word_uint_eq_iff)

lemma total_count_le: "total_le count_le"
  unfolding count_le_rank by (rule total_le_key)

abbreviation descending :: "u32 \<Rightarrow> u32 \<Rightarrow> bool" where "descending a b \<equiv> b \<le> a"

interpretation desc: linear_le descending
  by unfold_locales auto

lemma total_descending: "total_le descending"
  by (auto simp: total_le_def)

lemma mset_insert_by [simp]: "mset (insert_by le x ys) = add_mset x (mset ys)"
  by (induction ys) auto

lemma mset_sort_by [simp]: "mset (sort_by le xs) = mset xs"
  by (induction xs) auto

lemma heap_counts:
  "sorted_wrt heap_le h \<Longrightarrow> sorted_wrt descending (map fst h)"
  by (auto simp: sorted_wrt_map heap_le_def split: prod.splits elim!: sorted_wrt_mono_rel [rotated])

lemma count_sorted:
  "sorted_wrt count_le h \<Longrightarrow> sorted_wrt descending (map fst h)"
  by (auto simp: sorted_wrt_map count_le_def split: prod.splits elim!: sorted_wrt_mono_rel [rotated])

lemma trim_push_counts:
  assumes "sorted_wrt heap_le h" "0 < limit"
  shows "sorted_wrt heap_le (trim_push limit h x)"
    and "map fst (trim_push limit h x) = push_bounded descending limit (map fst h) (fst x)"
    and "mset (trim_push limit h x) \<subseteq># add_mset x (mset h)"
proof -
  have but: "sorted_wrt heap_le (butlast h)"
    using assms(1) by (metis append_butlast_last_id butlast.simps(1) sorted_wrt_append)
  show s: "sorted_wrt heap_le (trim_push limit h x)"
    using assms but sorted_insert_by [OF total_heap_le] by (auto simp: trim_push_def)
  have last: "h \<noteq> [] \<Longrightarrow> mset h = add_mset (last h) (mset (butlast h))"
    by (metis append_butlast_last_id add.right_neutral mset.simps mset_append union_mset_add_mset_right)
  show "mset (trim_push limit h x) \<subseteq># add_mset x (mset h)"
    using last by (auto simp: trim_push_def subset_mset.le_add_same_cancel1)
  have sp: "sorted_wrt descending (push_bounded descending limit (map fst h) (fst x))"
    using heap_counts [OF assms(1)] heap_counts [OF but] sorted_insert_by [OF total_descending]
    by (auto simp: push_bounded_def map_butlast)
  have "mset (map fst (trim_push limit h x)) = mset (push_bounded descending limit (map fst h) (fst x))"
  proof (cases "length h < limit")
    case True
    then show ?thesis by (simp add: trim_push_def push_bounded_def)
  next
    case False
    then have "h \<noteq> []" using assms(2) by auto
    with False last show ?thesis
      by (cases x; cases "last h")
        (auto simp: trim_push_def push_bounded_def replaces_def last_map map_butlast [symmetric] not_le)
  qed
  with sp heap_counts [OF s]
  show "map fst (trim_push limit h x) = push_bounded descending limit (map fst h) (fst x)"
    by (intro desc.sorted_unique) simp_all
qed

lemma trim_heap:
  assumes "0 < limit"
  shows "sorted_wrt heap_le (foldl (trim_push limit) [] xs)"
    and "map fst (foldl (trim_push limit) [] xs) = take limit (sort_by descending (map fst xs))"
    and "mset (foldl (trim_push limit) [] xs) \<subseteq># mset xs"
proof -
  have "sorted_wrt heap_le (foldl (trim_push limit) [] xs) \<and>
      map fst (foldl (trim_push limit) [] xs) = foldl (push_bounded descending limit) [] (map fst xs) \<and>
      mset (foldl (trim_push limit) [] xs) \<subseteq># mset xs"
  proof (induction xs rule: rev_induct)
    case (snoc x xs)
    then show ?case
      using trim_push_counts [OF _ assms, of "foldl (trim_push limit) [] xs" x]
      by (auto intro: subset_mset.order_trans)
  qed simp
  then show "sorted_wrt heap_le (foldl (trim_push limit) [] xs)"
    "map fst (foldl (trim_push limit) [] xs) = take limit (sort_by descending (map fst xs))"
    "mset (foldl (trim_push limit) [] xs) \<subseteq># mset xs"
    by (simp_all add: desc.heap_is_top)
qed

lemma trim_partitions:
  assumes "list_all (sized n) pss"
  shows "foldR (trim_partition n i limit) h (map concat pss) =
    Ok (foldl (trim_push limit) h (map (count_entry_of i) (concat pss)))"
  using assms
proof (induction pss arbitrary: h)
  case (Cons rs pss)
  then show ?case using length_sized [of n rs]
    by (simp add: trim_partition_def chunks_sized del: length_concat)
qed simp

text \<open>The trimmed records: some of the records, in the order of the counts, whose counts are
  the largest ones.\<close>

lemma trim_sized:
  assumes "0 < limit" "i < n" "list_all (sized n) pss"
  shows "\<exists>rs. trim_group_records_topk_by_count (map concat pss) n i limit = Ok (concat rs) \<and>
    mset rs \<subseteq># mset (concat pss) \<and>
    map (\<lambda>r. a_count (record_stats r ! i)) rs =
      take limit (sort_by descending (map (\<lambda>r. a_count (record_stats r ! i)) (concat pss)))"
proof -
  let ?xs = "map (count_entry_of i) (concat pss)"
  let ?h = "foldl (trim_push limit) [] ?xs"
  let ?s = "sort_by count_le ?h"
  let ?rec = "\<lambda>x :: count_entry. snd (snd x)"
  have rec: "?rec (count_entry_of i r) = r" for r by (simp add: count_entry_of_def Let_def)
  note h = trim_heap [OF assms(1), of ?xs]
  have trim: "trim_group_records_topk_by_count (map concat pss) n i limit = Ok (concat (map ?rec ?s))"
    using assms(1,2) by (simp add: trim_group_records_topk_by_count_def trim_partitions [OF assms(3)]
        split_def)
  have recs: "map ?rec ?xs = concat pss" by (simp add: rec comp_def)
  have "mset (map ?rec ?h) \<subseteq># mset (map ?rec ?xs)"
    by (subst (1 2) mset_map) (rule image_mset_subseteq_mono [OF h(3)])
  moreover have "mset (map ?rec ?s) = mset (map ?rec ?h)" by simp
  ultimately have sub: "mset (map ?rec ?s) \<subseteq># mset (concat pss)" by (simp only: recs)
  have sized: "length r = record_size n" if "r \<in> set (concat pss)" for r
    using assms(3) that by (auto simp: list_all_iff sized_def)
  have mem: "x \<in> set ?s \<Longrightarrow> \<exists>r \<in> set (concat pss). x = count_entry_of i r" for x
    using mset_subset_eqD [OF h(3), of x] by auto
  have "map (\<lambda>r. a_count (record_stats r ! i)) (map ?rec ?s) = map fst ?s"
  proof (simp, rule ballI)
    fix x assume "x \<in> set ?h"
    then have "\<exists>r \<in> set (concat pss). x = count_entry_of i r" by (intro mem) simp
    then obtain r where "r \<in> set (concat pss)" "x = count_entry_of i r" by blast
    then show "a_count (record_stats (?rec x) ! i) = fst x"
      using record_count [OF sized assms(2)] rec by simp
  qed
  also have "\<dots> = map fst ?h"
    by (rule desc.sorted_unique)
      (simp_all add: count_sorted sorted_sort_by total_count_le heap_counts h(1))
  also have "\<dots> = take limit (sort_by descending (map fst ?xs))" by (rule h(2))
  also have "map fst ?xs = map (\<lambda>r. a_count (record_stats r ! i)) (concat pss)"
    using record_count [OF sized assms(2)] by (simp add: comp_def)
  finally show ?thesis using trim sub by blast
qed

text \<open>With equal counts the smaller key is evicted: of the keys 5, 9 and 3, with limit 2, the
  keys 3 and 9 stay.\<close>

lemma tie_evicts_smaller_key:
  "map (\<lambda>x. fst (fst (snd x))) (foldl (trim_push 2) [] [(1, (5, 0), []), (1, (9, 0), []), (1, (3, 0), [])]) =
     [9, 3]"
  by (simp add: trim_push_def heap_le_def replaces_def)

end
