(* ===== verification/Keyed_Facts.thy ===== *)
theory Keyed_Facts
  imports Group_Reduce_Facts Plan_Invariant
begin

text \<open>
  The reductions of records with key bytes: one group for each pair of key words and key
  bytes, under a key that no other group has.
\<close>

section \<open>Payloads\<close>

definition keyed :: "nat \<Rightarrow> bytes \<Rightarrow> bool" where
  "keyed n r \<longleftrightarrow> 24 \<le> length r \<and> length r = keyed_len n r"

lemma keyed_len_append: "24 \<le> length r \<Longrightarrow> keyed_len n (r @ bs) = keyed_len n r"
  by (simp add: keyed_len_def slice_append_prefix)

lemma keyed_records_concat:
  "list_all (keyed n) rs \<Longrightarrow> h \<le> 24 \<Longrightarrow> keyed_records h e1 e2 n (concat rs) = Ok rs"
proof (induction rs)
  case Nil
  then show ?case by (simp add: keyed_records.simps)
next
  case (Cons r rs)
  then have r: "24 \<le> length r" "keyed_len n (r @ concat rs) = length r"
    by (simp_all add: keyed_def keyed_len_append)
  have "r @ concat rs \<noteq> []" using r(1) by auto
  with Cons r show ?case by (subst keyed_records.simps) (simp del: append_is_Nil_conv)
qed

section \<open>Groups of records\<close>

definition ident :: "bytes \<Rightarrow> (u64 \<times> u64) \<times> bytes" where
  "ident r = (record_key r, key_bytes_of r)"

text \<open>The statistics of the records of a group: those of the first one, the others merged in.\<close>

definition merge_all :: "agg_state list list \<Rightarrow> agg_state list" where
  "merge_all xs = (case xs of [] \<Rightarrow> [] | x # xs \<Rightarrow> foldl merge_group_states x xs)"

lemma merge_all_snoc: "merge_all (xs @ [x]) = (if xs = [] then x else merge_group_states (merge_all xs) x)"
  by (cases xs) (simp_all add: merge_all_def)

definition stats_of_ident ::
  "(agg_state list \<Rightarrow> agg_state list) \<Rightarrow> bytes list \<Rightarrow> (u64 \<times> u64) \<times> bytes \<Rightarrow> agg_state list" where
  "stats_of_ident init rs i = merge_all (map (\<lambda>r. init (keyed_stats r)) (filter (\<lambda>r. ident r = i) rs))"

lemma stats_of_ident_snoc:
  "stats_of_ident init (rs @ [r]) i =
     (if ident r \<noteq> i then stats_of_ident init rs i
      else if i \<in> ident ` set rs then merge_group_states (stats_of_ident init rs i) (init (keyed_stats r))
      else init (keyed_stats r))"
  by (auto simp: stats_of_ident_def merge_all_snoc filter_empty_conv)

text \<open>\<open>gs\<close> are the groups of the records: \<open>st\<close> are their statistics, \<open>out\<close> their keys, which
  differ from each other and keep the first key word.\<close>

definition keyed_groups :: "((u64 \<times> u64) \<times> bytes \<Rightarrow> agg_state list) \<Rightarrow> bytes list \<Rightarrow> groups \<Rightarrow> bool" where
  "keyed_groups st rs gs \<longleftrightarrow> (\<exists>ids out. distinct ids \<and> set ids = ident ` set rs \<and> inj_on out (set ids) \<and>
     (\<forall>i \<in> set ids. fst (out i) = fst (fst i)) \<and> gs = map (\<lambda>i. (out i, st i)) ids)"

section \<open>A free key\<close>

text \<open>The seeded hash has more values than there are groups.\<close>

definition many_hashes :: "(bytes \<Rightarrow> u64 \<Rightarrow> u64) \<Rightarrow> nat \<Rightarrow> bool" where
  "many_hashes seeded n \<longleftrightarrow> (\<forall>key. Suc n < card (range (seeded key)))"

lemma xor_range: "range (\<lambda>s. f (b XOR s)) = range (f :: u64 \<Rightarrow> 'x)"
proof -
  have "surj (\<lambda>s. b XOR s)" by (rule surjI [of _ "\<lambda>s. b XOR s"]) (simp flip: xor.assoc)
  then show ?thesis by (metis image_image)
qed

lemma card_insert_le_Suc: "card (insert x A) \<le> Suc (card A)"
  by (cases "finite A") (simp_all add: card_insert_if)

lemma allocate_free:
  assumes "many_hashes seeded n" "finite used" "card used \<le> n"
  shows "\<exists>out. allocate_collision_key seeded base key used = Some out \<and> out \<notin> used \<and> fst out = fst base"
proof (cases "base \<in> used")
  case True
  let ?h = "\<lambda>seed. seeded key (snd base XOR seed)"
  have "\<exists>seed. seed \<noteq> 0 \<and> (fst base, ?h seed) \<notin> used"
  proof (rule ccontr)
    assume "\<not> ?thesis"
    then have "Pair (fst base) ` ?h ` (UNIV - {0}) \<subseteq> used" by auto
    then have "card (Pair (fst base) ` ?h ` (UNIV - {0})) \<le> card used" by (rule card_mono [OF assms(2)])
    then have "card (Pair (fst base) ` ?h ` (UNIV - {0})) \<le> n" using assms(3) by (rule le_trans)
    moreover have "card (Pair (fst base) ` ?h ` (UNIV - {0})) = card (?h ` (UNIV - {0}))"
      by (rule card_image) (auto simp: inj_on_def)
    ultimately have le: "card (?h ` (UNIV - {0})) \<le> n" by simp
    have "range (seeded key) = range ?h" by (rule xor_range [symmetric])
    also have "\<dots> = insert (?h 0) (?h ` (UNIV - {0}))"
      by (metis (no_types, lifting) UNIV_I image_insert insert_Diff)
    finally have "card (range (seeded key)) = card (insert (?h 0) (?h ` (UNIV - {0})))" by (rule arg_cong)
    also have "\<dots> \<le> Suc (card (?h ` (UNIV - {0})))" by (rule card_insert_le_Suc)
    finally have "card (range (seeded key)) \<le> Suc n" using le by (meson Suc_le_mono le_trans)
    with assms(1) show False unfolding many_hashes_def by (meson not_less)
  qed
  then obtain seed where seed: "seed \<noteq> 0" "(fst base, ?h seed) \<notin> used" by blast
  then have "1 \<le> unat seed" "of_nat (unat seed) = seed"
    by (simp_all add: Suc_le_eq unat_gt_0)
  then obtain k where "remap_loop ?h (fst base) (taken used) 1 = Some k" "taken used k = None"
      "gk_a k = fst base"
    using remap_loop_finds [of "taken used" "fst base" ?h "unat seed" 1] seed(2)
      unsigned_less [of seed, where ?'a = nat] by (auto simp: taken_def)
  then show ?thesis using True by (auto simp: allocate_collision_key_def taken_def split: if_splits)
qed (auto simp: allocate_collision_key_def)

section \<open>The map-based reduction\<close>

lemma update_bucket_eq:
  "distinct (map e_key es) \<Longrightarrow> update_bucket key aggs es =
     (if key \<in> e_key ` set es
      then Some (map (\<lambda>e. if e_key e = key then e\<lparr> e_aggs := merge_group_states (e_aggs e) aggs \<rparr> else e) es)
      else None)"
proof (induction es)
  case (Cons e es)
  have "map (\<lambda>e. if e_key e = key then e\<lparr> e_aggs := merge_group_states (e_aggs e) aggs \<rparr> else e) es = es"
    if "e_key e = key"
  proof (rule map_idI)
    fix x assume "x \<in> set es"
    with Cons.prems have "e_key x \<noteq> e_key e" by (auto simp: image_iff)
    with that have "e_key x \<noteq> key" by simp
    then show "(if e_key x = key then x\<lparr> e_aggs := merge_group_states (e_aggs x) aggs \<rparr> else x) = x" by simp
  qed
  with Cons show ?case by auto
qed simp

definition has_entry :: "by_hash \<Rightarrow> u64 \<times> u64 \<Rightarrow> entry_state \<Rightarrow> bool" where
  "has_entry h b e \<longleftrightarrow> (\<exists>es. map_of h b = Some es \<and> e \<in> set es)"

lemma has_entry_put: "has_entry (put_key base es h) b e \<longleftrightarrow> (if b = base then e \<in> set es else has_entry h b e)"
  by (auto simp: has_entry_def map_of_put_key)

definition keyed_inv ::
  "(agg_state list \<Rightarrow> agg_state list) \<Rightarrow> bytes list \<Rightarrow> by_hash \<Rightarrow> (u64 \<times> u64) set \<Rightarrow> bool" where
  "keyed_inv init rs h used \<longleftrightarrow>
     keys_sorted h \<and> (\<forall>b es. map_of h b = Some es \<longrightarrow> distinct (map e_key es)) \<and>
     (\<forall>b e. has_entry h b e \<longrightarrow> (b, e_key e) \<in> ident ` set rs \<and>
        e_aggs e = stats_of_ident init rs (b, e_key e) \<and> fst (e_out e) = fst b \<and> e_out e \<in> used) \<and>
     (\<forall>i \<in> ident ` set rs. \<exists>e. has_entry h (fst i) e \<and> e_key e = snd i) \<and>
     (\<forall>b e c f. has_entry h b e \<longrightarrow> has_entry h c f \<longrightarrow> e_out e = e_out f \<longrightarrow> b = c \<and> e_key e = e_key f) \<and>
     finite used \<and> card used \<le> length rs"

lemma keyed_invD:
  assumes "keyed_inv init rs h used"
  shows "keys_sorted h" "map_of h b = Some es \<Longrightarrow> distinct (map e_key es)"
    "has_entry h b e \<Longrightarrow> (b, e_key e) \<in> ident ` set rs"
    "has_entry h b e \<Longrightarrow> e_aggs e = stats_of_ident init rs (b, e_key e)"
    "has_entry h b e \<Longrightarrow> fst (e_out e) = fst b" "has_entry h b e \<Longrightarrow> e_out e \<in> used"
    "i \<in> ident ` set rs \<Longrightarrow> \<exists>e. has_entry h (fst i) e \<and> e_key e = snd i"
    "has_entry h b e \<Longrightarrow> has_entry h c f \<Longrightarrow> e_out e = e_out f \<Longrightarrow> b = c \<and> e_key e = e_key f"
    "finite used" "card used \<le> length rs"
  using assms unfolding keyed_inv_def by blast+

lemma keyed_step_inv:
  assumes inv: "keyed_inv init rs h used" and hashes: "many_hashes seeded (length rs)"
  shows "\<exists>h' used'. keyed_step seeded init (h, used) r = Some (h', used') \<and> keyed_inv init (rs @ [r]) h' used'"
proof -
  define b key aggs where "b = record_key r" and "key = key_bytes_of r" and "aggs = init (keyed_stats r)"
  define bucket where "bucket = (case map_of h b of Some es \<Rightarrow> es | None \<Rightarrow> [])"
  note defs = b_def key_def aggs_def bucket_def
  have id: "ident r = (b, key)" by (simp add: ident_def defs)
  have ent: "has_entry h b e \<longleftrightarrow> e \<in> set bucket" for e
    by (cases "map_of h b") (auto simp: has_entry_def bucket_def)
  note inv = keyed_invD [OF inv]
  have dist: "distinct (map e_key bucket)"
    using inv(2) [of b] by (cases "map_of h b") (simp_all add: bucket_def)
  have stats: "stats_of_ident init (rs @ [r]) i = stats_of_ident init rs i" if "i \<noteq> (b, key)" for i
    using that by (simp add: stats_of_ident_snoc id)
  note fin = inv(9,10)
  show ?thesis
  proof (cases "key \<in> e_key ` set bucket")
    case True
    define es where "es = map (\<lambda>e. if e_key e = key then e\<lparr> e_aggs := merge_group_states (e_aggs e) aggs \<rparr> else e) bucket"
    have up: "update_bucket key aggs bucket = Some es"
      using True update_bucket_eq [OF dist, of key aggs] by (simp only: es_def if_True)
    have step: "keyed_step seeded init (h, used) r = Some (put_key b es h, used)"
      unfolding keyed_step_def Let_def prod.case by (simp only: up option.case flip: defs)
    have keys: "map e_key es = map e_key bucket" by (simp add: es_def)
    have old: "(b, key) \<in> ident ` set rs" using True inv(3) [of b] ent by auto
    have es: "e \<in> set es \<Longrightarrow> \<exists>e' \<in> set bucket. e_key e = e_key e' \<and> e_out e = e_out e' \<and>
        e_aggs e = (if e_key e = key then merge_group_states (e_aggs e') aggs else e_aggs e')" for e
      by (auto simp: es_def)
    have "keyed_inv init (rs @ [r]) (put_key b es h) used"
      unfolding keyed_inv_def
    proof (intro conjI allI impI ballI)
      show "keys_sorted (put_key b es h)" by (rule sorted_put_key [OF inv(1)])
      show "distinct (map e_key fs)" if "map_of (put_key b es h) c = Some fs" for c fs
        using that inv(2) [of c fs] dist keys by (auto simp: map_of_put_key split: if_splits)
      show "finite used" "card used \<le> length (rs @ [r])" using fin by simp_all
    next
      fix c e assume e: "has_entry (put_key b es h) c e"
      obtain e' where e': "has_entry h c e'" "e_key e = e_key e'" "e_out e = e_out e'"
        "e_aggs e = (if (c, e_key e) = (b, key) then merge_group_states (e_aggs e') aggs else e_aggs e')"
        using e es [of e] ent by (cases "c = b") (auto simp: has_entry_put)
      have i: "(c, e_key e') \<in> ident ` set rs" "e_aggs e' = stats_of_ident init rs (c, e_key e')"
        "fst (e_out e') = fst c" "e_out e' \<in> used"
        using inv(3-6) [OF e'(1)] by blast+
      show "(c, e_key e) \<in> ident ` set (rs @ [r])" using i(1) e'(2) by auto
      show "fst (e_out e) = fst c" "e_out e \<in> used" using i(3,4) e'(3) by simp_all
      show "e_aggs e = stats_of_ident init (rs @ [r]) (c, e_key e)"
        using i(2) e'(2,4) old stats [of "(c, e_key e)"]
        by (cases "(c, e_key e) = (b, key)") (auto simp: stats_of_ident_snoc id aggs_def)
    next
      fix i assume "i \<in> ident ` set (rs @ [r])"
      then have "i \<in> ident ` set rs" using old by (auto simp: id)
      then obtain e where e: "has_entry h (fst i) e" "e_key e = snd i" using inv(7) by blast
      show "\<exists>e. has_entry (put_key b es h) (fst i) e \<and> e_key e = snd i"
      proof (cases "fst i = b")
        case True
        then have "snd i \<in> set (map e_key es)" using e ent unfolding keys set_map by (metis imageI)
        then show ?thesis using True by (auto simp: has_entry_put)
      qed (use e in \<open>auto simp: has_entry_put\<close>)
    next
      have inj: "c = d \<and> e_key e = e_key f" if ef: "has_entry (put_key b es h) c e" "has_entry (put_key b es h) d f"
        "e_out e = e_out f" for c d e f
      proof -
        obtain e' where "has_entry h c e'" "e_key e = e_key e'" "e_out e = e_out e'"
          using ef(1) es [of e] ent by (cases "c = b") (auto simp: has_entry_put)
        moreover obtain f' where "has_entry h d f'" "e_key f = e_key f'" "e_out f = e_out f'"
          using ef(2) es [of f] ent by (cases "d = b") (auto simp: has_entry_put)
        ultimately show ?thesis using inv(8) [of c e' d f'] ef(3) by simp
      qed
      fix c d e f assume "has_entry (put_key b es h) c e" "has_entry (put_key b es h) d f" "e_out e = e_out f"
      then show "c = d" "e_key e = e_key f" using inj by blast+
    qed
    with step show ?thesis by blast
  next
    case False
    obtain out where out: "allocate_collision_key seeded b key used = Some out" "out \<notin> used" "fst out = fst b"
      using allocate_free [OF hashes fin] by blast
    define e0 where "e0 = \<lparr> e_key = key, e_aggs = aggs, e_out = out \<rparr>"
    have up: "update_bucket key aggs bucket = None"
      using False update_bucket_eq [OF dist, of key aggs] by (simp only: if_False)
    have step: "keyed_step seeded init (h, used) r = Some (put_key b (bucket @ [e0]) h, insert out used)"
      unfolding keyed_step_def Let_def prod.case
      by (simp only: up out(1) option.case option.map e0_def flip: defs)
    have new: "(b, key) \<notin> ident ` set rs"
      using False inv(7) [of "(b, key)"] ent by auto
    have has_entry: "has_entry (put_key b (bucket @ [e0]) h) c e \<longleftrightarrow> has_entry h c e \<or> c = b \<and> e = e0" for c e
      using ent by (auto simp: has_entry_put)
    have "keyed_inv init (rs @ [r]) (put_key b (bucket @ [e0]) h) (insert out used)"
      unfolding keyed_inv_def has_entry
    proof (intro conjI allI impI ballI)
      show "keys_sorted (put_key b (bucket @ [e0]) h)" by (rule sorted_put_key [OF inv(1)])
      show "distinct (map e_key fs)" if "map_of (put_key b (bucket @ [e0]) h) c = Some fs" for c fs
        using that inv(2) [of c fs] dist False by (auto simp: map_of_put_key e0_def split: if_splits)
      show "finite (insert out used)" "card (insert out used) \<le> length (rs @ [r])"
        using fin out(2) by simp_all
    next
      fix c e assume e: "has_entry h c e \<or> c = b \<and> e = e0"
      show "(c, e_key e) \<in> ident ` set (rs @ [r])" "fst (e_out e) = fst c" "e_out e \<in> insert out used"
        using e inv(3,5,6) [of c e] out(3) id by (auto simp: e0_def)
      show "e_aggs e = stats_of_ident init (rs @ [r]) (c, e_key e)"
      proof (cases "c = b \<and> e = e0")
        case True
        then show ?thesis using new by (simp add: stats_of_ident_snoc id e0_def aggs_def)
      next
        case False
        then have *: "has_entry h c e" using e by blast
        then have "(c, e_key e) \<noteq> (b, key)" using new inv(3) [OF *] by metis
        then show ?thesis using inv(4) [OF *] stats by simp
      qed
    next
      fix i assume "i \<in> ident ` set (rs @ [r])"
      then consider "i = (b, key)" | "i \<in> ident ` set rs" using id by auto
      then show "\<exists>e. (has_entry h (fst i) e \<or> fst i = b \<and> e = e0) \<and> e_key e = snd i"
      proof cases
        case 1
        then show ?thesis by (auto simp: e0_def)
      qed (use inv(7) in blast)
    next
      fix c d e f
      assume "has_entry h c e \<or> c = b \<and> e = e0" "has_entry h d f \<or> d = b \<and> f = e0" "e_out e = e_out f"
      moreover have "e_out e0 = out" by (simp add: e0_def)
      ultimately have "c = d \<and> e_key e = e_key f"
        using inv(8) [of c e d f] inv(6) [of c e] inv(6) [of d f] out(2) by metis
      then show "c = d" "e_key e = e_key f" by blast+
    qed
    with step show ?thesis by blast
  qed
qed


lemma keyed_fold_inv:
  assumes "many_hashes seeded (length rs)"
  shows "\<exists>h used. fold_option (keyed_step seeded init) ([], {}) rs = Some (h, used) \<and> keyed_inv init rs h used"
  using assms
proof (induction rs rule: rev_induct)
  case Nil
  then show ?case by (simp add: keyed_inv_def has_entry_def keys_sorted_def)
next
  case (snoc r rs)
  have hashes: "many_hashes seeded (length rs)" using snoc.prems unfolding many_hashes_def
    by (auto intro: less_trans [OF lessI])
  have app: "fold_option f s (xs @ ys) = (case fold_option f s xs of None \<Rightarrow> None | Some t \<Rightarrow> fold_option f t ys)"
    for f :: "by_hash \<times> (u64 \<times> u64) set \<Rightarrow> bytes \<Rightarrow> (by_hash \<times> (u64 \<times> u64) set) option" and s xs ys
    by (induction xs arbitrary: s) (auto split: option.splits)
  obtain h used where "fold_option (keyed_step seeded init) ([], {}) rs = Some (h, used)" "keyed_inv init rs h used"
    using snoc.IH [OF hashes] by blast
  moreover from keyed_step_inv [OF this(2) hashes] obtain h' used'
    where "keyed_step seeded init (h, used) r = Some (h', used')" "keyed_inv init (rs @ [r]) h' used'" by blast
  ultimately show ?case by (simp add: app)
qed

lemma keyed_output_groups:
  assumes "keyed_inv init rs h used"
  shows "\<exists>gs. keyed_output h = groups_bytes gs \<and> keyed_groups (stats_of_ident init rs) rs gs"
proof -
  note inv = keyed_invD [OF assms]
  define pairs where "pairs = concat (map (\<lambda>x. map (Pair (fst x)) (snd x)) h)"
  have pairs: "(b, e) \<in> set pairs \<longleftrightarrow> has_entry h b e" for b e
    unfolding has_entry_def map_of_mem [OF inv(1)] by (force simp: pairs_def)
  let ?id = "\<lambda>(b, e). (b, e_key e)"
  have "distinct (map ?id (concat (map (\<lambda>x. map (Pair (fst x)) (snd x)) g)))"
    if "distinct (map fst g)" "\<And>b es. (b, es) \<in> set g \<Longrightarrow> distinct (map e_key es)" for g :: by_hash
    using that
  proof (induction g)
    case (Cons x g)
    obtain b es where x: "x = (b, es)" by (cases x)
    have "distinct (map (\<lambda>e. (b, e_key e)) es)"
      using Cons.prems(2) [of b es] x by (simp add: distinct_map inj_on_def)
    moreover have "distinct (map ?id (concat (map (\<lambda>x. map (Pair (fst x)) (snd x)) g)))"
      by (rule Cons.IH) (use Cons.prems in auto)
    moreover have "b \<notin> fst ` set g" using Cons.prems(1) x by simp
    then have "b \<notin> fst ` ?id ` set (concat (map (\<lambda>x. map (Pair (fst x)) (snd x)) g))"
      by (auto simp: image_image image_iff)
    then have "(\<lambda>e. (b, e_key e)) ` set es \<inter> ?id ` set (concat (map (\<lambda>x. map (Pair (fst x)) (snd x)) g)) = {}"
      by (fastforce simp: image_iff)
    ultimately show ?case using x by (simp add: comp_def)
  qed simp
  then have dist: "distinct (map ?id pairs)"
    using inv(2) map_of_mem [OF inv(1)] distinct_keys [OF inv(1)] unfolding pairs_def by blast
  define out where "out i = e_out (THE e. (fst i, e) \<in> set pairs \<and> e_key e = snd i)" for i
  have out: "out (b, e_key e) = e_out e" if "(b, e) \<in> set pairs" for b e
  proof -
    have "f = e" if "(b, f) \<in> set pairs" "e_key f = e_key e" for f
      using inj_onD [of ?id "set pairs" "(b, f)" "(b, e)"] dist that \<open>(b, e) \<in> set pairs\<close>
      by (simp add: distinct_map)
    then show ?thesis using that unfolding out_def by (auto intro!: arg_cong [where f = e_out] the_equality)
  qed
  have set: "set (map ?id pairs) = ident ` set rs"
  proof (intro equalityI subsetI)
    fix i assume "i \<in> set (map ?id pairs)"
    then obtain b e where "(b, e) \<in> set pairs" "i = (b, e_key e)" by auto
    then show "i \<in> ident ` set rs" using inv(3) pairs by simp
  next
    fix i assume "i \<in> ident ` set rs"
    then obtain e where e: "has_entry h (fst i) e" "e_key e = snd i" using inv(7) by blast
    then have "(fst i, e) \<in> set pairs" using pairs by blast
    then have "?id (fst i, e) \<in> set (map ?id pairs)" unfolding set_map by (rule imageI)
    then show "i \<in> set (map ?id pairs)" by (simp only: prod.case e(2) prod.collapse)
  qed
  have inj: "inj_on out (set (map ?id pairs))"
  proof (rule inj_onI)
    fix i j assume "i \<in> set (map ?id pairs)" "j \<in> set (map ?id pairs)" "out i = out j"
    then obtain b e c f where "(b, e) \<in> set pairs" "i = (b, e_key e)" "(c, f) \<in> set pairs" "j = (c, e_key f)"
      by auto
    with \<open>out i = out j\<close> show "i = j" using out inv(8) [of b e c f] pairs by simp
  qed
  have "keyed_output h = groups_bytes (map (\<lambda>(b, e). (e_out e, e_aggs e)) pairs)"
    unfolding keyed_output_def pairs_def by (induction h) (auto simp: comp_def)
  also have "map (\<lambda>(b, e). (e_out e, e_aggs e)) pairs =
      map (\<lambda>i. (out i, stats_of_ident init rs i)) (map ?id pairs)"
    using out inv(4) pairs by (auto simp: comp_def)
  finally have eq: "keyed_output h =
      groups_bytes (map (\<lambda>i. (out i, stats_of_ident init rs i)) (map ?id pairs))" .
  have "fst (out i) = fst (fst i)" if "i \<in> set (map ?id pairs)" for i
    using that out inv(5) pairs by auto
  then have "keyed_groups (stats_of_ident init rs) rs
      (map (\<lambda>i. (out i, stats_of_ident init rs i)) (map ?id pairs))"
    unfolding keyed_groups_def using dist set inj by blast
  with eq show ?thesis by blast
qed

text \<open>Both map-based reductions; in the one that reads fragments the statistics of a record are
  merged into empty ones first.\<close>

lemma reduce_keyed:
  assumes "list_all (keyed n) rs" "many_hashes seeded (length rs)"
  shows "\<exists>gs. reduce_group_records_with_keys seeded (concat rs) n = Some (Ok (groups_bytes gs)) \<and>
    keyed_groups (stats_of_ident (\<lambda>aggs. aggs) rs) rs gs"
proof -
  obtain h used where h: "fold_option (keyed_step seeded (\<lambda>aggs. aggs)) ([], {}) rs = Some (h, used)"
    "keyed_inv (\<lambda>aggs. aggs) rs h used"
    using keyed_fold_inv [OF assms(2)] by blast
  with keyed_output_groups [OF h(2)] show ?thesis
    by (simp add: reduce_group_records_with_keys_def keyed_result_def keyed_records_concat [OF assms(1)])
qed

lemma reduce_keyed_fragments:
  assumes "list_all (list_all (keyed n)) rss" "list_all (keyed n) rs"
    and "many_hashes seeded (length (concat rss @ rs))"
  shows "\<exists>gs. reduce_group_records_with_keys_from_fragments seeded (map concat rss) (concat rs) n =
      Some (Ok (groups_bytes gs)) \<and>
    keyed_groups (stats_of_ident (merge_group_states (replicate n stats_default)) (concat rss @ rs))
      (concat rss @ rs) gs"
proof -
  let ?init = "merge_group_states (replicate n stats_default)"
  obtain h used where h: "fold_option (keyed_step seeded ?init) ([], {}) (concat rss @ rs) = Some (h, used)"
    "keyed_inv ?init (concat rss @ rs) h used"
    using keyed_fold_inv [OF assms(3)] by blast
  have "mapR (keyed_records 24 e1 e2 n) (map concat rss @ [concat rs]) = Ok (rss @ [rs])" for e1 e2
    using assms(1,2) by (induction rss) (simp_all add: keyed_records_concat)
  with h keyed_output_groups [OF h(2)] show ?thesis
    by (simp add: reduce_group_records_with_keys_from_fragments_def keyed_result_def)
qed


section \<open>The sort-based reduction\<close>

definition merged_of_ident :: "nat \<Rightarrow> bytes list \<Rightarrow> (u64 \<times> u64) \<times> bytes \<Rightarrow> agg_state list" where
  "merged_of_ident n rs i = merged_stats n (map keyed_stats (filter (\<lambda>r. ident r = i) rs))"

lemma keyed_runs_groups:
  assumes "sorted_wrt (\<lambda>x y. ident x \<le> ident y) ts" "many_hashes seeded m"
    and "finite used" "card used + length ts \<le> m"
  shows "\<exists>ids out. distinct ids \<and> set ids = ident ` set ts \<and> inj_on out (set ids) \<and>
    out ` set ids \<inter> used = {} \<and> (\<forall>i \<in> set ids. fst (out i) = fst (fst i)) \<and>
    keyed_runs seeded n used ts = Some (map (\<lambda>i. (out i, merged_of_ident n ts i)) ids)"
  using assms
proof (induction seeded n used ts rule: keyed_runs.induct)
  case (1 seeded n used)
  then show ?case by auto
next
  case (2 seeded n used r rs)
  let ?same = "\<lambda>x. record_key x = record_key r \<and> key_bytes_of x = key_bytes_of r"
  let ?rest = "dropWhile ?same rs"
  have same: "?same x \<longleftrightarrow> ident x = ident r" for x by (simp add: ident_def)
  have fin: "finite used" "card used \<le> m" "length ?rest \<le> length rs"
    using 2 length_dropWhile_le [of ?same rs] by auto
  obtain o0 where o0: "allocate_collision_key seeded (record_key r) (key_bytes_of r) used = Some o0"
      "o0 \<notin> used" "fst o0 = fst (record_key r)"
    using allocate_free [OF 2(3) fin(1,2)] by blast
  have "sorted_wrt (\<lambda>x y. ident x \<le> ident y) ?rest" using 2(2) by (simp add: sorted_wrt_dropWhile)
  moreover have "card (insert o0 used) + length ?rest \<le> m"
    using 2(5) fin(3) card_insert_le_Suc [of o0 used] by simp
  ultimately obtain ids out where ih: "distinct ids" "set ids = ident ` set ?rest" "inj_on out (set ids)"
    "out ` set ids \<inter> insert o0 used = {}" "\<forall>i \<in> set ids. fst (out i) = fst (fst i)"
    "keyed_runs seeded n (insert o0 used) ?rest = Some (map (\<lambda>i. (out i, merged_of_ident n ?rest i)) ids)"
    using 2(1) [OF refl refl o0(1)] 2(3) fin(1) by blast
  note run = filter_run [OF 2(2)]
  have new: "ident r \<notin> set ids" unfolding ih(2) using run(2) by (force simp: same)
  have others: "merged_of_ident n (r # rs) i = merged_of_ident n ?rest i" if "i \<in> set ids" for i
  proof -
    have "filter (\<lambda>x. ident x = i) (takeWhile ?same rs) = []"
      using that new by (auto simp: filter_empty_conv same dest!: set_takeWhileD)
    then have "filter (\<lambda>x. ident x = i) rs = filter (\<lambda>x. ident x = i) ?rest"
      using filter_append [of "\<lambda>x. ident x = i" "takeWhile ?same rs" ?rest] by simp
    then show ?thesis using that new by (auto simp: merged_of_ident_def)
  qed
  have first: "merged_of_ident n (r # rs) (ident r) = foldl (\<lambda>states x. merge_group_states states (keyed_stats x))
      (replicate n stats_default) (r # takeWhile ?same rs)"
    unfolding merged_of_ident_def same run(1) by (simp add: merged_stats_def foldl_map)
  define out' where "out' = out(ident r := o0)"
  have eq: "keyed_runs seeded n used (r # rs) =
      Some (map (\<lambda>i. (out' i, merged_of_ident n (r # rs) i)) (ident r # ids))"
    using ih(6) o0(1) others new by (simp add: first Let_def out'_def)
  have "set (ident r # ids) = ident ` set (r # rs)"
  proof -
    have "set rs = set (takeWhile ?same rs) \<union> set ?rest"
      using set_append [of "takeWhile ?same rs" ?rest] by simp
    moreover have "ident ` set (takeWhile ?same rs) \<subseteq> {ident r}"
      by (auto simp: same dest!: set_takeWhileD)
    ultimately have "ident ` set (r # rs) = insert (ident r) (ident ` set ?rest)"
      by (auto simp only: list.set image_insert image_Un)
    then show ?thesis by (simp add: ih(2))
  qed
  moreover have "inj_on out' (set (ident r # ids))" "out' ` set (ident r # ids) \<inter> used = {}"
    using ih(3,4) new o0(2) by (auto simp: out'_def inj_on_def)
  moreover have "\<forall>i \<in> set (ident r # ids). fst (out' i) = fst (fst i)"
    using ih(5) o0(3) by (auto simp: out'_def ident_def)
  moreover have "distinct (ident r # ids)" using ih(1) new by simp
  ultimately show ?case using eq by blast
qed

lemma reduce_keyed_sort:
  assumes "sorts f" "list_all (keyed n) rs" "many_hashes seeded (length rs)"
  shows "\<exists>ts gs. mset ts = mset rs \<and>
    reduce_group_records_with_keys_sort seeded f (concat rs) n = Some (Ok (groups_bytes gs)) \<and>
    keyed_groups (merged_of_ident n ts) rs gs"
proof -
  define le where "le = (\<lambda>i j. keyed_le (rs ! i) (rs ! j))"
  define ts where "ts = map (\<lambda>i. rs ! i) (f le [0..<length rs])"
  have le: "le = (\<lambda>i j. ident (rs ! i) \<le> ident (rs ! j))" by (simp add: le_def keyed_le_def ident_def)
  have s: "mset (f le [0..<length rs]) = mset [0..<length rs]" "sorted_wrt le (f le [0..<length rs])"
    using assms(1) total_le_key [of "\<lambda>i. ident (rs ! i)"] unfolding sorts_def le by simp_all
  have "mset ts = mset (map (\<lambda>i. rs ! i) [0..<length rs])" using s(1) by (simp add: ts_def)
  then have m: "mset ts = mset rs" by (simp add: map_nth)
  have sorted: "sorted_wrt (\<lambda>x y. ident x \<le> ident y) ts"
    using s(2) by (simp add: ts_def sorted_wrt_map le)
  have len: "card ({} :: (u64 \<times> u64) set) + length ts \<le> length rs" using mset_eq_length [OF m] by simp
  from keyed_runs_groups [OF sorted assms(3) finite.emptyI len, of n] show ?thesis
  proof (elim exE conjE)
    fix ids out
    assume *: "distinct ids" "set ids = ident ` set ts" "inj_on out (set ids)"
      "\<forall>i \<in> set ids. fst (out i) = fst (fst i)"
      "keyed_runs seeded n {} ts = Some (map (\<lambda>i. (out i, merged_of_ident n ts i)) ids)"
    let ?gs = "map (\<lambda>i. (out i, merged_of_ident n ts i)) ids"
    have "reduce_group_records_with_keys_sort seeded f (concat rs) n = Some (Ok (groups_bytes ?gs))"
      using *(5) unfolding ts_def le_def
      by (simp add: reduce_group_records_with_keys_sort_def keyed_result_def keyed_records_concat [OF assms(2)] Let_def)
    moreover have "keyed_groups (merged_of_ident n ts) rs ?gs"
      unfolding keyed_groups_def using *(1-4) mset_eq_setD [OF m] by blast
    ultimately show ?thesis using m by blast
  qed
qed

end
