(* ===== verification/Merge_Properties.thy ===== *)
theory Merge_Properties
  imports Group_Trim Keyed_Facts
begin

text \<open>
  The properties of the merging of the workers' groups in the native runtime.
\<close>

text \<open>\<open>gs\<close> are the groups of the records \<open>rs\<close>: one per key, with the statistics of its records
  merged in some order, and the number of its rows, saturating.\<close>

definition merged_groups :: "nat \<Rightarrow> bytes list \<Rightarrow> groups \<Rightarrow> bool" where
  "merged_groups n rs gs \<longleftrightarrow>
     distinct (map fst gs) \<and> fst ` set gs = record_key ` set rs \<and>
     (\<exists>ts. mset ts = mset rs \<and> (\<forall>(k, st) \<in> set gs. st =
        foldl merge_group_states (replicate n stats_default)
          (map record_stats (filter (\<lambda>r. record_key r = k) ts)))) \<and>
     (\<forall>(k, st) \<in> set gs. \<forall>i < n. unat (a_count (st ! i)) =
        min (2 ^ 32 - 1) (\<Sum>r\<leftarrow>filter (\<lambda>r. record_key r = k) rs. unat (a_count (record_stats r ! i))))"

lemma merged_groupsI:
  assumes "mset ts = mset rs" "mset gs = mset (group_map n ts)" "sized n rs"
  shows "merged_groups n rs gs"
proof -
  have set: "set gs = set (group_map n ts)" using assms(2) by (rule mset_eq_setD)
  have keys: "set ts = set rs" using assms(1) by (rule mset_eq_setD)
  have "mset (map fst gs) = mset (map fst (group_map n ts))" using assms(2) by simp
  then have "distinct (map fst gs)"
    using distinct_keys [OF sorted_group_map, of n ts] mset_eq_imp_distinct_iff by blast
  moreover have "fst ` set gs = record_key ` set rs" by (simp add: set set_group_map keys image_image)
  moreover have st: "st = stats_of_key n ts k" if "(k, st) \<in> set gs" for k st
    using that by (auto simp: set set_group_map)
  moreover have "unat (a_count (st ! i)) =
      min (2 ^ 32 - 1) (\<Sum>r\<leftarrow>filter (\<lambda>r. record_key r = k) rs. unat (a_count (record_stats r ! i)))"
    if "(k, st) \<in> set gs" "i < n" for k st i
  proof -
    let ?t = "filter (\<lambda>r. record_key r = k) ts" and ?cnt = "\<lambda>r. unat (a_count (record_stats r ! i))"
    have "i < length x" if "x \<in> set (map record_stats ?t)" for x
      using that assms(3) \<open>i < n\<close> keys by (auto simp: sized_def length_record_stats)
    then have "unat (a_count (st ! i)) = min (2 ^ 32 - 1) (sum_list (map ?cnt ?t))"
      using merged_counts [OF \<open>i < n\<close>, of "map record_stats ?t"] st [OF that(1)]
      by (simp add: stats_of_key_def comp_def)
    also have "sum_list (map ?cnt ?t) = sum_mset (image_mset ?cnt (filter_mset (\<lambda>r. record_key r = k) (mset ts)))"
      by (simp flip: sum_mset_sum_list)
    also have "\<dots> = sum_list (map ?cnt (filter (\<lambda>r. record_key r = k) rs))"
      unfolding assms(1) by (simp flip: sum_mset_sum_list)
    finally show ?thesis .
  qed
  ultimately show ?thesis unfolding merged_groups_def
    by (intro conjI exI [of _ ts] ballI)
      (auto simp: assms(1) stats_of_key_def merged_stats_def simp del: sum_list.Cons)
qed

lemma all_reduced_groups:
  assumes "all_reduced n rs outs" "sized n rs"
  shows "\<exists>gss. outs = map groups_bytes gss \<and> merged_groups n rs (concat gss)"
  using assms merged_groupsI unfolding all_reduced_def by blast

lemma sized_concat: "list_all (sized n) rss \<Longrightarrow> sized n (concat rss)"
  by (induction rss) auto

lemma scans_ok:
  assumes "list_all (list_all (sized n)) workers" "0 < m"
  shows "mapR (\<lambda>chunks. scan_groups n Hash m (map concat chunks)) workers =
    Ok (map (\<lambda>chunks. scanned m (concat chunks)) workers)"
  by (rule mapR_total) (use assms in \<open>auto simp: list_all_iff intro!: scan_groups_ok\<close>)

text \<open>C35: In the Hash mode of merging (records without key bytes), however the chunks are divided among the
  workers, the three engines compute the groups of all records, one per key: the one that distributes
  the records of all partial results to any number of partitions, and the two that merge what the
  workers have distributed while scanning, with any sorting routine and any threshold, when the
  number of partitions is one that the engines do not round or cut: a power of two up to 4096.\<close>

theorem group_engines:
  assumes "0 < n" "list_all (list_all (sized n)) workers" "partition_count 4096 m = m" "sorts f"
  shows "\<exists>parts legacy by_sort direct.
    mapR (\<lambda>chunks. scan_groups n Hash m (map concat chunks)) workers = Ok parts \<and>
    merge_group_partials_partitioned_legacy seeded
      (map (\<lambda>rs. groups_partial (concat rs)) (concat workers)) n k Hash hot = Some (Ok (groups_bytes legacy)) \<and>
    merge_group_partials_partition_sort seeded f (map scan_partial parts) n m Hash hot None =
      Some (Ok (groups_bytes by_sort)) \<and>
    merge_group_partials_partition_direct seeded (map scan_partial parts) n m Hash hot None =
      Some (Ok (groups_bytes direct)) \<and>
    list_all (merged_groups n (concat (concat workers))) [legacy, by_sort, direct]"
proof -
  let ?all = "concat (concat workers)" and ?wss = "map concat workers"
  have m: "0 < m" using partition_count_pos [of 4096 m] assms(3) by simp
  have css: "list_all (sized n) (concat workers)" using assms(2) by (auto simp: list_all_iff)
  have wss: "list_all (sized n) ?wss" "concat ?wss = ?all"
    using assms(2) by (auto simp: list_all_iff concat_concat intro!: sized_concat)
  have all: "sized n ?all" by (rule sized_concat [OF css])
  have out: "\<exists>gs. concat outs = groups_bytes gs \<and> merged_groups n ?all gs" if "all_reduced n ?all outs" for outs
    using all_reduced_groups [OF that all] groups_bytes_concat by metis
  have parts: "map scan_partial (map (\<lambda>chunks. scanned m (concat chunks)) workers) =
      map (\<lambda>rs. scan_partial (scanned m rs)) ?wss" by simp
  obtain o1 where o1: "merge_group_partials_partitioned_legacy seeded
      (map (\<lambda>rs. groups_partial (concat rs)) (concat workers)) n k Hash hot = Some (Ok (concat o1))"
    "all_reduced n ?all o1"
    using legacy_reduced [OF assms(1) css] by blast
  obtain o2 where o2: "merge_group_partials_partition_sort seeded f
      (map (\<lambda>rs. scan_partial (scanned m rs)) ?wss) n m Hash hot None = Some (Ok (concat o2))"
    "all_reduced n ?all o2"
    using sort_engine_reduced [OF assms(1) wss(1) assms(3,4), of seeded hot None] wss(2)
    by (auto simp: joined_def)
  obtain o3 where o3: "merge_group_partials_partition_direct seeded
      (map (\<lambda>rs. scan_partial (scanned m rs)) ?wss) n m Hash hot None = Some (Ok (concat o3))"
    "all_reduced n ?all o3"
    using direct_engine_reduced [OF assms(1) wss(1) assms(3), of seeded hot None] wss(2)
    by (auto simp: joined_def)
  obtain legacy by_sort direct where "concat o1 = groups_bytes legacy" "concat o2 = groups_bytes by_sort"
    "concat o3 = groups_bytes direct" "merged_groups n ?all legacy" "merged_groups n ?all by_sort"
    "merged_groups n ?all direct"
    using out [OF o1(2)] out [OF o2(2)] out [OF o3(2)] by metis
  with o1(1) o2(1) o3(1) scans_ok [OF assms(2) m] parts show ?thesis
    by - (rule exI [of _ "map (\<lambda>chunks. scanned m (concat chunks)) workers"], rule exI [of _ legacy],
        rule exI [of _ by_sort], rule exI [of _ direct],
        simp add: comp_def)
qed


text \<open>A record: the key \<open>(a, 0)\<close> with one aggregate of \<open>c\<close> rows.\<close>

definition a_record :: "u64 \<Rightarrow> u32 \<Rightarrow> bytes" where
  "a_record a c = reduced_record ((a, 0), [\<lparr> a_sum = f_one, a_min = f_one, a_max = f_one, a_count = c \<rparr>])"

lemma length_a_record: "length (a_record a c) = record_size 1"
  by (simp add: a_record_def reduced_record_def stats_fields_def agg_record_def record_size_def
      AGG_RECORD_BYTES_def)

lemma sorts_sort_by: "sorts sort_by"
  by (auto simp: sorts_def sorted_sort_by)

text \<open>Two workers, the first with two chunks.\<close>

definition some_workers :: "bytes list list list" where
  "some_workers = [[[a_record 5 2], [a_record 7 1]], [[a_record 5 3]]]"

lemma some_workers_ok:
  "list_all (list_all (sized 1)) some_workers" "partition_count 4096 64 = 64"
  by (simp_all add: some_workers_def length_a_record partition_count_def next_power.simps)

theorem group_engines_witness:
  "\<exists>parts legacy by_sort direct.
    mapR (\<lambda>chunks. scan_groups 1 Hash 64 (map concat chunks)) some_workers = Ok parts \<and>
    merge_group_partials_partition_sort (\<lambda>_ s. s) sort_by (map scan_partial parts) 1 64 Hash 0 None =
      Some (Ok (groups_bytes by_sort)) \<and>
    list_all (merged_groups 1 (concat (concat some_workers))) [legacy, by_sort, direct]"
  using group_engines [OF _ some_workers_ok sorts_sort_by, of "\<lambda>_ s. s" 8 0] by auto

lemma length_reduced_record: "length (reduced_record (k, sts)) = 16 + 32 * length sts"
proof -
  have "length (concat (map stats_fields sts)) = 32 * length sts"
    by (induction sts) (simp_all add: stats_fields_def agg_record_def)
  then show ?thesis by (simp add: reduced_record_def)
qed

lemma sized_groups:
  assumes "merged_groups n rs gs"
  shows "sized n (map reduced_record gs)"
proof -
  obtain ts where "\<forall>(k, st) \<in> set gs. st = merged_stats n (map record_stats (filter (\<lambda>r. record_key r = k) ts))"
    using assms unfolding merged_groups_def merged_stats_def by blast
  then have st: "length st = n" if "(k, st) \<in> set gs" for k st using that by fastforce
  then show ?thesis
    by (fastforce simp: sized_def length_reduced_record record_size_def AGG_RECORD_BYTES_def)
qed

lemma stats_fields_count:
  assumes "i < length sts"
  shows "a_count (record_stats (reduced_record (k, sts)) ! i) = a_count (sts ! i)"
proof -
  have "chunks_exact AGG_RECORD_BYTES (concat (map stats_fields sts)) = map stats_fields sts"
    by (rule chunks_exact_concat) (auto simp: AGG_RECORD_BYTES_def stats_fields_def agg_record_def)
  moreover have "drop 16 (reduced_record (k, sts)) = concat (map stats_fields sts)"
    by (simp add: reduced_record_def)
  moreover have "a_count (read_stats (stats_fields s)) = a_count s" for s
    by (simp add: read_stats_def stats_fields_def agg_record_def slice_append_skip slice_def b32.dec_enc)
  ultimately show ?thesis using assms by (simp add: record_stats_def)
qed

text \<open>C36: In the Hash mode of merging and with a number of partitions that is a power of two up to 4096, the
  partition engines with ORDER BY count and LIMIT return records of groups, in descending order of
  their counts, and the counts are the largest ones of all groups.\<close>

theorem engines_keep_largest:
  assumes "i < n" "0 < limit" "list_all (list_all (sized n)) workers" "partition_count 4096 m = m" "sorts f"
    and "engine = merge_group_partials_partition_sort seeded f \<or>
      engine = merge_group_partials_partition_direct seeded"
  shows "\<exists>parts gs rs.
    mapR (\<lambda>chunks. scan_groups n Hash m (map concat chunks)) workers = Ok parts \<and>
    merged_groups n (concat (concat workers)) gs \<and>
    engine (map scan_partial parts) n m Hash hot (Some (limit, i)) = Some (Ok (concat rs)) \<and>
    mset rs \<subseteq># mset (map reduced_record gs) \<and>
    map (\<lambda>r. a_count (record_stats r ! i)) rs =
      take limit (sort_by (\<lambda>a b. b \<le> a) (map (\<lambda>g. a_count (snd g ! i)) gs))"
proof -
  let ?all = "concat (concat workers)" and ?wss = "map concat workers"
  have n: "0 < n" and m: "0 < m"
    using assms(1) partition_count_pos [of 4096 m] assms(4) by simp_all
  have wss: "list_all (sized n) ?wss" "concat ?wss = ?all"
    using assms(3) by (auto simp: list_all_iff concat_concat intro!: sized_concat)
  have all: "sized n ?all" unfolding wss(2) [symmetric] by (rule sized_concat [OF wss(1)])
  obtain outs where outs: "engine (map (\<lambda>rs. scan_partial (scanned m rs)) ?wss) n m Hash hot (Some (limit, i)) =
      Some (trim_group_records_topk_by_count outs n i limit)" "all_reduced n ?all outs"
    using assms(6) sort_engine_reduced [OF n wss(1) assms(4,5), of seeded hot "Some (limit, i)"]
      direct_engine_reduced [OF n wss(1) assms(4), of seeded hot "Some (limit, i)"] wss(2)
    by (auto simp: joined_def)
  obtain gss where gss: "outs = map groups_bytes gss" "merged_groups n ?all (concat gss)"
    using all_reduced_groups [OF outs(2) all] by blast
  let ?pss = "map (map reduced_record) gss"
  have sz: "list_all (sized n) ?pss"
    using sized_groups [OF gss(2)] by (induction gss) auto
  have recs: "concat ?pss = map reduced_record (concat gss)" by (simp add: map_concat)
  have len: "i < length (snd g)" if "g \<in> set (concat gss)" for g
  proof -
    have "length (reduced_record g) = record_size n"
      using sized_groups [OF gss(2)] that by (auto simp: sized_def)
    then show ?thesis using assms(1) length_reduced_record [of "fst g" "snd g"]
      by (simp add: record_size_def AGG_RECORD_BYTES_def)
  qed
  have counts: "map (\<lambda>r. a_count (record_stats r ! i)) (concat ?pss) = map (\<lambda>g. a_count (snd g ! i)) (concat gss)"
    unfolding recs by (simp add: comp_def) (use len stats_fields_count in force)
  obtain rs where "trim_group_records_topk_by_count (map concat ?pss) n i limit = Ok (concat rs)"
      "mset rs \<subseteq># mset (concat ?pss)"
      "map (\<lambda>r. a_count (record_stats r ! i)) rs =
        take limit (sort_by (\<lambda>a b. b \<le> a) (map (\<lambda>g. a_count (snd g ! i)) (concat gss)))"
    using trim_sized [OF assms(2,1) sz] unfolding counts by blast
  then have "engine (map scan_partial (map (\<lambda>chunks. scanned m (concat chunks)) workers)) n m Hash hot
      (Some (limit, i)) = Some (Ok (concat rs)) \<and> mset rs \<subseteq># mset (map reduced_record (concat gss)) \<and>
    map (\<lambda>r. a_count (record_stats r ! i)) rs =
      take limit (sort_by (\<lambda>a b. b \<le> a) (map (\<lambda>g. a_count (snd g ! i)) (concat gss)))"
    using outs(1) gss(1) unfolding recs by (simp add: comp_def)
  with scans_ok [OF assms(3) m] gss(2) show ?thesis by blast
qed


theorem engines_keep_largest_witness:
  "\<exists>parts gs rs.
    mapR (\<lambda>chunks. scan_groups 1 Hash 64 (map concat chunks)) some_workers = Ok parts \<and>
    merged_groups 1 (concat (concat some_workers)) gs \<and>
    merge_group_partials_partition_direct (\<lambda>_ s. s) (map scan_partial parts) 1 64 Hash 0 (Some (1, 0)) =
      Some (Ok (concat rs)) \<and>
    map (\<lambda>r. a_count (record_stats r ! 0)) rs =
      take 1 (sort_by (\<lambda>a b. b \<le> a) (map (\<lambda>g. a_count (snd g ! 0)) gs))"
  using engines_keep_largest [OF _ _ some_workers_ok sorts_sort_by, of 0 1
      "merge_group_partials_partition_direct (\<lambda>_ s. s)" "\<lambda>_ s. s" 0] by auto


text \<open>C37: With key bytes, the three reductions give one group for each pair of key words and key
  bytes, also when the words of different keys collide: the groups have different keys, with the
  first key word of their records, and the statistics of their records; the search for a free
  key ends when the seeded hash has more values than there are records.\<close>

theorem keyed_reductions:
  assumes "list_all (list_all (keyed n)) fragments" "list_all (keyed n) spill"
    and "rs = concat fragments @ spill" "many_hashes seeded (length rs)" "sorts f"
  shows "\<exists>by_map by_fragment by_sort ts.
    reduce_group_records_with_keys seeded (concat rs) n = Some (Ok (groups_bytes by_map)) \<and>
    keyed_groups (stats_of_ident (\<lambda>st. st) rs) rs by_map \<and>
    reduce_group_records_with_keys_from_fragments seeded (map concat fragments) (concat spill) n =
      Some (Ok (groups_bytes by_fragment)) \<and>
    keyed_groups (stats_of_ident (merge_group_states (replicate n stats_default)) rs) rs by_fragment \<and>
    reduce_group_records_with_keys_sort seeded f (concat rs) n = Some (Ok (groups_bytes by_sort)) \<and>
    mset ts = mset rs \<and> keyed_groups (merged_of_ident n ts) rs by_sort"
proof -
  have rs: "list_all (keyed n) rs"
    using assms(1,2) unfolding assms(3) by (auto simp: list_all_iff)
  show ?thesis
    using reduce_keyed [OF rs assms(4)] reduce_keyed_sort [OF assms(5) rs assms(4)]
      reduce_keyed_fragments [OF assms(1,2) assms(4) [unfolded assms(3)]]
    unfolding assms(3) by blast
qed

definition a_keyed :: "u64 \<Rightarrow> bytes \<Rightarrow> u32 \<Rightarrow> bytes" where
  "a_keyed a key c = le64 a @ le64 0 @ le32 (of_nat (length key)) @ le32 0 @ key @
     agg_record f_one f_one f_one c"

lemma keyed_a_keyed: "length key < 2 ^ 32 \<Longrightarrow> keyed 1 (a_keyed a key c)"
  by (simp add: keyed_def keyed_len_def a_keyed_def agg_record_def AGG_RECORD_BYTES_def
      slice_append_skip slice_def b32.dec_enc unat_of_nat)

lemma many_hashes_id: "many_hashes (\<lambda>_ s. s) 2"
  by (simp add: many_hashes_def card_word)

text \<open>Two keys, of two bytes each, with the same words.\<close>

theorem keyed_reductions_witness:
  "\<exists>gs. reduce_group_records_with_keys (\<lambda>_ s. s) (concat ([a_keyed 5 [1] 2] @ [a_keyed 5 [2] 3])) 1 =
      Some (Ok (groups_bytes gs)) \<and>
    keyed_groups (stats_of_ident (\<lambda>st. st) ([a_keyed 5 [1] 2] @ [a_keyed 5 [2] 3]))
      ([a_keyed 5 [1] 2] @ [a_keyed 5 [2] 3]) gs"
proof -
  have "many_hashes (\<lambda>_ s. s) (Suc (Suc 0))" using many_hashes_id by (simp add: numeral_2_eq_2)
  then have "list_all (list_all (keyed 1)) [[a_keyed 5 [1] 2]]" "list_all (keyed 1) [a_keyed 5 [2] 3]"
    "[a_keyed 5 [1] 2] @ [a_keyed 5 [2] 3] = concat [[a_keyed 5 [1] 2]] @ [a_keyed 5 [2] 3]"
    "many_hashes (\<lambda>_ s. s) (length ([a_keyed 5 [1] 2] @ [a_keyed 5 [2] 3]))"
    by (simp_all add: keyed_a_keyed del: One_nat_def)
  from keyed_reductions [OF this sorts_sort_by] show ?thesis by blast
qed

end
