(* ===== verification/Read_Cache.thy ===== *)
theory Read_Cache
  imports Runtime_Facts
begin

text \<open>
  The cache of file reads that the workers of the native runtime share
  (\<^verbatim>\<open>wcol-decoder/src/native/cache.rs\<close>). A read looks its range up under the lock, reads the
  file without the lock and stores the bytes under the lock; \<open>cache_step\<close> interleaves these
  steps of any number of readers. The cache keeps its bounds and only holds bytes of the
  file, so a read gives what the file has, whatever the others do. The counters are kept; a
  poisoned lock is not modelled.
\<close>

section \<open>The cache\<close>

type_synonym cache_key = "u64 \<times> u32"

record io_counters =
  io_total :: u64
  io_unique :: u64
  io_overlap :: u64
  io_hits :: u64
  io_misses :: u64
  io_requested :: u64
  io_from_disk :: u64

record read_cache =
  ch_max_bytes :: nat
  ch_used_bytes :: nat
  ch_seen :: "cache_key set"
  ch_ranges :: "(u64 \<times> u64) list"
  ch_map :: "cache_key \<rightharpoonup> bytes"
  ch_order :: "cache_key list"
  ch_io :: io_counters

text \<open>\<open>mib\<close> is the value of the environment variable, where it is a number.\<close>

definition DEFAULT_PAGE_CACHE_MIB :: nat where "DEFAULT_PAGE_CACHE_MIB = 2048"

definition read_cache_new :: "nat option \<Rightarrow> read_cache" where
  "read_cache_new mib =
     \<lparr> ch_max_bytes = min (2 ^ 64 - 1) ((case mib of Some m \<Rightarrow> m | None \<Rightarrow> DEFAULT_PAGE_CACHE_MIB) * (1024 * 1024)),
       ch_used_bytes = 0, ch_seen = {}, ch_ranges = [], ch_map = Map.empty, ch_order = [],
       ch_io = \<lparr> io_total = 0, io_unique = 0, io_overlap = 0, io_hits = 0, io_misses = 0,
         io_requested = 0, io_from_disk = 0 \<rparr> \<rparr>"

definition cache_key :: "u64 \<Rightarrow> nat \<Rightarrow> cache_key" where
  "cache_key offset len = (offset, of_nat len)"

definition sat_add64 :: "u64 \<Rightarrow> u64 \<Rightarrow> u64" where
  "sat_add64 a b = (if unat a + unat b < 2 ^ 64 then a + b else - 1)"

definition note_range :: "u64 \<Rightarrow> nat \<Rightarrow> read_cache \<Rightarrow> read_cache" where
  "note_range offset len c =
     (if cache_key offset len \<in> ch_seen c then c
      else
        let stop = sat_add64 offset (of_nat len);
            overlap = list_ex (\<lambda>(s, e). offset < e \<and> s < stop) (ch_ranges c);
            io = ch_io c
        in c\<lparr> ch_seen := insert (cache_key offset len) (ch_seen c),
              ch_ranges := ch_ranges c @ [(offset, stop)],
              ch_io := io\<lparr> io_unique := io_unique io + 1,
                io_overlap := io_overlap io + (if overlap then 1 else 0) \<rparr> \<rparr>)"

definition cache_lookup :: "u64 \<Rightarrow> nat \<Rightarrow> read_cache \<Rightarrow> bytes option \<times> read_cache" where
  "cache_lookup offset len c =
     (let io = ch_io c;
          c = note_range offset len
                (c\<lparr> ch_io := io\<lparr> io_total := io_total io + 1,
                       io_requested := io_requested io + of_nat len \<rparr> \<rparr>)
      in case ch_map c (cache_key offset len) of
           None \<Rightarrow> (None, c)
         | Some hit \<Rightarrow> (Some hit, c\<lparr> ch_io := (ch_io c)\<lparr> io_hits := io_hits (ch_io c) + 1 \<rparr> \<rparr>))"

text \<open>The oldest entries go until the new one fits.\<close>

fun evict ::
  "nat \<Rightarrow> nat \<Rightarrow> nat \<Rightarrow> (cache_key \<rightharpoonup> bytes) \<Rightarrow> cache_key list
     \<Rightarrow> nat \<times> (cache_key \<rightharpoonup> bytes) \<times> cache_key list" where
  "evict max_bytes entry_len used m [] = (used, m, [])"
| "evict max_bytes entry_len used m (k # ks) =
     (if max_bytes < used + entry_len then
        (case m k of
           Some old \<Rightarrow> evict max_bytes entry_len (used - length old) (m(k := None)) ks
         | None \<Rightarrow> evict max_bytes entry_len used m ks)
      else (used, m, k # ks))"

definition cache_store :: "cache_key \<Rightarrow> bytes \<Rightarrow> read_cache \<Rightarrow> bytes \<times> read_cache" where
  "cache_store key val c =
     (let io = ch_io c;
          c = c\<lparr> ch_io := io\<lparr> io_misses := io_misses io + 1,
                    io_from_disk := io_from_disk io + of_nat (length val) \<rparr> \<rparr>
      in case ch_map c key of
           Some hit \<Rightarrow> (hit, c)
         | None \<Rightarrow>
             if ch_max_bytes c = 0 then (val, c)
             else if ch_max_bytes c < length val then
               (val, c\<lparr> ch_map := Map.empty, ch_order := [], ch_used_bytes := 0 \<rparr>)
             else
               let (used, m, order) = evict (ch_max_bytes c) (length val) (ch_used_bytes c)
                     (ch_map c) (ch_order c)
               in (val, c\<lparr> ch_order := order @ [key], ch_used_bytes := used + length val,
                           ch_map := m(key \<mapsto> val) \<rparr>))"

text \<open>A range longer than \<^verbatim>\<open>u32::MAX\<close> is refused, an empty one is not looked up.\<close>

definition direct_read :: "bytes \<Rightarrow> u64 \<Rightarrow> nat \<Rightarrow> bytes result" where
  "direct_read content offset len =
     (if 2 ^ 32 \<le> len then Err (Bail ''requested read length exceeds u32'')
      else read_exact_at_file content (unat offset) len)"

definition read_cached :: "bytes \<Rightarrow> read_cache \<Rightarrow> u64 \<Rightarrow> nat \<Rightarrow> bytes result \<times> read_cache" where
  "read_cached content c offset len =
     (if len = 0 then (Ok [], c)
      else if 2 ^ 32 \<le> len then (Err (Bail ''requested read length exceeds u32''), c)
      else
        (case cache_lookup offset len c of
           (Some hit, c) \<Rightarrow> (Ok hit, c)
         | (None, c) \<Rightarrow>
             (case read_exact_at_file content (unat offset) len of
                Inl e \<Rightarrow> (Inl e, c)
              | Inr val \<Rightarrow>
                  let (val, c) = cache_store (cache_key offset len) val c in (Ok val, c))))"

section \<open>Readers side by side\<close>

datatype reader =
    R_Start u64 nat
  | R_Missed u64 nat
  | R_Store u64 nat bytes
  | R_Done u64 nat "bytes result"

inductive cache_step ::
  "bytes \<Rightarrow> read_cache \<times> reader list \<Rightarrow> read_cache \<times> reader list \<Rightarrow> bool" for content where
  trivial: "i < length rs \<Longrightarrow> rs ! i = R_Start off len \<Longrightarrow> len = 0 \<or> 2 ^ 32 \<le> len \<Longrightarrow>
     cache_step content (c, rs) (c, rs[i := R_Done off len (fst (read_cached content c off len))])"
| hit: "i < length rs \<Longrightarrow> rs ! i = R_Start off len \<Longrightarrow> len \<noteq> 0 \<Longrightarrow> len < 2 ^ 32 \<Longrightarrow>
     cache_lookup off len c = (Some v, c') \<Longrightarrow>
     cache_step content (c, rs) (c', rs[i := R_Done off len (Ok v)])"
| miss: "i < length rs \<Longrightarrow> rs ! i = R_Start off len \<Longrightarrow> len \<noteq> 0 \<Longrightarrow> len < 2 ^ 32 \<Longrightarrow>
     cache_lookup off len c = (None, c') \<Longrightarrow>
     cache_step content (c, rs) (c', rs[i := R_Missed off len])"
| failed: "i < length rs \<Longrightarrow> rs ! i = R_Missed off len \<Longrightarrow>
     read_exact_at_file content (unat off) len = Inl e \<Longrightarrow>
     cache_step content (c, rs) (c, rs[i := R_Done off len (Inl e)])"
| loaded: "i < length rs \<Longrightarrow> rs ! i = R_Missed off len \<Longrightarrow>
     read_exact_at_file content (unat off) len = Ok v \<Longrightarrow>
     cache_step content (c, rs) (c, rs[i := R_Store off len v])"
| stored: "i < length rs \<Longrightarrow> rs ! i = R_Store off len v \<Longrightarrow>
     cache_store (cache_key off len) v c = (w, c') \<Longrightarrow>
     cache_step content (c, rs) (c', rs[i := R_Done off len (Ok w)])"

section \<open>What the cache keeps\<close>

definition cached_bytes :: "(cache_key \<rightharpoonup> bytes) \<Rightarrow> cache_key list \<Rightarrow> nat" where
  "cached_bytes m ks = sum_list (map (\<lambda>k. case m k of Some v \<Rightarrow> length v | None \<Rightarrow> 0) ks)"

definition holds_file :: "bytes \<Rightarrow> (cache_key \<rightharpoonup> bytes) \<Rightarrow> bool" where
  "holds_file content m \<longleftrightarrow>
     (\<forall>k v. m k = Some v \<longrightarrow> read_exact_at_file content (unat (fst k)) (unat (snd k)) = Ok v)"

definition store_ok :: "nat \<Rightarrow> nat \<Rightarrow> (cache_key \<rightharpoonup> bytes) \<Rightarrow> cache_key list \<Rightarrow> bool" where
  "store_ok max_bytes used m ks \<longleftrightarrow>
     distinct ks \<and> set ks = dom m \<and> used = cached_bytes m ks \<and> used \<le> max_bytes"

definition cache_ok :: "bytes \<Rightarrow> read_cache \<Rightarrow> bool" where
  "cache_ok content c \<longleftrightarrow>
     store_ok (ch_max_bytes c) (ch_used_bytes c) (ch_map c) (ch_order c) \<and> holds_file content (ch_map c)"

lemma cached_bytes_Cons [simp]:
  "cached_bytes m (k # ks) = (case m k of Some v \<Rightarrow> length v | None \<Rightarrow> 0) + cached_bytes m ks"
  by (simp add: cached_bytes_def)

lemma cached_bytes_append [simp]: "cached_bytes m (ks @ ls) = cached_bytes m ks + cached_bytes m ls"
  by (simp add: cached_bytes_def)

lemma cached_bytes_Nil [simp]: "cached_bytes m [] = 0"
  by (simp add: cached_bytes_def)

lemma cached_bytes_other [simp]: "k \<notin> set ks \<Longrightarrow> cached_bytes (m(k := x)) ks = cached_bytes m ks"
  by (induction ks) auto

lemma evict_ok:
  assumes "evict mx n used m ks = (used', m', ks')" "store_ok mx used m ks" "n \<le> mx"
  shows "store_ok mx used' m' ks' \<and> used' + n \<le> mx \<and> m' \<subseteq>\<^sub>m m"
  using assms
proof (induction mx n used m ks arbitrary: used' m' ks' rule: evict.induct)
  case (2 mx n used m k ks)
  note ev = 2(3) and st = 2(4) and fits = 2(5)
  show ?case
  proof (cases "mx < used + n")
    case True
    obtain v where v: "m k = Some v" using st by (auto simp: store_ok_def dom_def)
    have dom: "set ks = dom (m(k := None))" using st by (auto simp: store_ok_def)
    have "store_ok mx (used - length v) (m(k := None)) ks"
      using st v unfolding store_ok_def dom [symmetric] by auto
    moreover have "evict mx n (used - length v) (m(k := None)) ks = (used', m', ks')"
      using ev True v by simp
    ultimately have "store_ok mx used' m' ks' \<and> used' + n \<le> mx \<and> m' \<subseteq>\<^sub>m m(k := None)"
      by (rule 2(2) [OF True v _ _ fits, rotated])
    moreover have "m(k := None) \<subseteq>\<^sub>m m" by (simp add: map_le_def)
    ultimately show ?thesis using map_le_trans by blast
  qed (use ev st in auto)
qed (auto simp: store_ok_def)

lemma store_ok_insert:
  assumes "store_ok mx used m ks" "used + length v \<le> mx" "m k = None"
  shows "store_ok mx (used + length v) (m(k \<mapsto> v)) (ks @ [k])"
proof -
  have "k \<notin> set ks" using assms(1,3) by (auto simp: store_ok_def dom_def)
  with assms show ?thesis by (auto simp: store_ok_def)
qed

lemma cache_lookup_ok:
  assumes "cache_lookup off len c = (r, c')"
  shows "ch_map c' = ch_map c" "ch_max_bytes c' = ch_max_bytes c"
    "cache_ok content c' = cache_ok content c" "r = ch_map c (cache_key off len)"
  using assms
  by (auto simp: cache_lookup_def note_range_def Let_def cache_ok_def split: option.splits if_splits)

lemma read_key:
  "len < 2 ^ 32 \<Longrightarrow> read_exact_at_file content (unat (fst (cache_key off len))) (unat (snd (cache_key off len))) =
     read_exact_at_file content (unat off) len"
  by (simp add: cache_key_def unat_of_nat32)

lemma cached_hit:
  "cache_ok content c \<Longrightarrow> ch_map c (cache_key off len) = Some v \<Longrightarrow> len < 2 ^ 32 \<Longrightarrow>
     read_exact_at_file content (unat off) len = Ok v"
  using read_key by (metis cache_ok_def holds_file_def)

lemma cache_store_ok:
  assumes "cache_store (cache_key off len) v c = (w, c')" "cache_ok content c" "len < 2 ^ 32"
    and v: "read_exact_at_file content (unat off) len = Ok v"
  shows "cache_ok content c'" "w = v" "ch_max_bytes c' = ch_max_bytes c"
proof -
  let ?k = "cache_key off len"
  have c: "store_ok (ch_max_bytes c) (ch_used_bytes c) (ch_map c) (ch_order c)" "holds_file content (ch_map c)"
    using assms(2) by (simp_all add: cache_ok_def)
  have max: "ch_max_bytes c' = ch_max_bytes c" and w: "w = v" if "ch_map c ?k = None"
    using assms(1) that by (auto simp: cache_store_def Let_def split_beta split: if_splits)
  show "w = v"
    using w assms(1) cached_hit [OF assms(2) _ assms(3)] v
    by (cases "ch_map c ?k") (auto simp: cache_store_def Let_def)
  show "ch_max_bytes c' = ch_max_bytes c"
    using max assms(1) by (cases "ch_map c ?k") (auto simp: cache_store_def Let_def)
  show "cache_ok content c'"
  proof (cases "ch_map c ?k = None \<and> ch_max_bytes c \<noteq> 0 \<and> \<not> ch_max_bytes c < length v")
    case True
    obtain used m order where ev: "evict (ch_max_bytes c) (length v) (ch_used_bytes c) (ch_map c) (ch_order c) = (used, m, order)"
      by (cases "evict (ch_max_bytes c) (length v) (ch_used_bytes c) (ch_map c) (ch_order c)") auto
    have e: "store_ok (ch_max_bytes c) used m order" "used + length v \<le> ch_max_bytes c" "m \<subseteq>\<^sub>m ch_map c"
      using evict_ok [OF ev c(1)] True by auto
    have "m ?k = None" using e(3) True by (metis domIff map_le_def)
    then have "store_ok (ch_max_bytes c) (used + length v) (m(?k \<mapsto> v)) (order @ [?k])"
      using store_ok_insert e(1,2) by blast
    moreover have "holds_file content (m(?k \<mapsto> v))"
      unfolding holds_file_def
    proof (intro allI impI)
      fix k u assume u: "(m(?k \<mapsto> v)) k = Some u"
      show "read_exact_at_file content (unat (fst k)) (unat (snd k)) = Ok u"
      proof (cases "k = ?k")
        case True
        with u v read_key [OF assms(3)] show ?thesis by simp
      next
        case False
        with u have "ch_map c k = Some u" using e(3) by (metis domI fun_upd_other map_le_def)
        with c(2) show ?thesis by (simp add: holds_file_def)
      qed
    qed
    moreover have "c' = c\<lparr> ch_io := (ch_io c)\<lparr> io_misses := io_misses (ch_io c) + 1,
        io_from_disk := io_from_disk (ch_io c) + of_nat (length v) \<rparr>, ch_order := order @ [?k],
        ch_used_bytes := used + length v, ch_map := m(?k \<mapsto> v) \<rparr>"
      using assms(1) True ev by (auto simp: cache_store_def Let_def)
    ultimately show ?thesis by (simp add: cache_ok_def)
  next
    case False
    with assms(1) c show ?thesis
      by (auto simp: cache_store_def Let_def cache_ok_def store_ok_def holds_file_def split: option.splits if_splits)
  qed
qed

lemma read_cached_ok:
  assumes "cache_ok content c"
  shows "fst (read_cached content c off len) = direct_read content off len"
    and "cache_ok content (snd (read_cached content c off len))"
    and "ch_max_bytes (snd (read_cached content c off len)) = ch_max_bytes c"
proof -
  have "fst (read_cached content c off len) = direct_read content off len \<and>
    cache_ok content (snd (read_cached content c off len)) \<and>
    ch_max_bytes (snd (read_cached content c off len)) = ch_max_bytes c"
  proof (cases "len = 0 \<or> 2 ^ 32 \<le> len")
    case True
    with assms show ?thesis
      by (auto simp: read_cached_def direct_read_def read_exact_at_file_def capacity_overflow_def)
  next
    case False
    obtain r c1 where l: "cache_lookup off len c = (r, c1)" by (cases "cache_lookup off len c")
    have c1: "cache_ok content c1" "ch_max_bytes c1 = ch_max_bytes c"
      using cache_lookup_ok(2,3) [OF l] assms by simp_all
    show ?thesis
    proof (cases r)
      case (Some v)
      then have "read_exact_at_file content (unat off) len = Ok v"
        using cached_hit [OF assms, of off len v] cache_lookup_ok(4) [OF l] False by simp
      with False l Some c1 show ?thesis by (simp add: read_cached_def direct_read_def)
    next
      case None
      show ?thesis
      proof (cases "read_exact_at_file content (unat off) len")
        case (Inl e)
        with False l c1 None show ?thesis by (simp add: read_cached_def direct_read_def)
      next
        case (Inr v)
        obtain w c2 where s: "cache_store (cache_key off len) v c1 = (w, c2)"
          by (cases "cache_store (cache_key off len) v c1")
        have "read_cached content c off len = (Ok w, c2)"
          using False l None Inr s by (simp add: read_cached_def)
        with cache_store_ok [OF s c1(1) _ Inr] False Inr c1(2) show ?thesis
          by (simp add: direct_read_def)
      qed
    qed
  qed
  then show "fst (read_cached content c off len) = direct_read content off len"
    "cache_ok content (snd (read_cached content c off len))"
    "ch_max_bytes (snd (read_cached content c off len)) = ch_max_bytes c" by simp_all
qed

lemma read_cache_new_ok: "cache_ok content (read_cache_new mib)"
  by (simp add: cache_ok_def read_cache_new_def store_ok_def holds_file_def)

text \<open>What each reader knows, in any interleaving.\<close>

fun reader_ok :: "bytes \<Rightarrow> reader \<Rightarrow> bool" where
  "reader_ok content (R_Start off len) \<longleftrightarrow> True"
| "reader_ok content (R_Missed off len) \<longleftrightarrow> len \<noteq> 0 \<and> len < 2 ^ 32"
| "reader_ok content (R_Store off len v) \<longleftrightarrow>
     len \<noteq> 0 \<and> len < 2 ^ 32 \<and> read_exact_at_file content (unat off) len = Ok v"
| "reader_ok content (R_Done off len r) \<longleftrightarrow> r = direct_read content off len"

definition readers_ok :: "bytes \<Rightarrow> nat \<Rightarrow> read_cache \<times> reader list \<Rightarrow> bool" where
  "readers_ok content mx st \<longleftrightarrow>
     cache_ok content (fst st) \<and> ch_max_bytes (fst st) = mx \<and> list_all (reader_ok content) (snd st)"

lemma list_all_update: "list_all P xs \<Longrightarrow> P x \<Longrightarrow> list_all P (xs[i := x])"
  by (auto simp: list_all_length) (metis nth_list_update_eq nth_list_update_neq)

lemma readers_okI:
  "cache_ok content c \<Longrightarrow> ch_max_bytes c = mx \<Longrightarrow> list_all (reader_ok content) rs \<Longrightarrow> reader_ok content r \<Longrightarrow>
     readers_ok content mx (c, rs[i := r])"
  by (simp add: readers_ok_def list_all_update)

lemma readers_okD:
  assumes "readers_ok content mx (c, rs)"
  shows "cache_ok content c" "ch_max_bytes c = mx" "list_all (reader_ok content) rs"
    and "i < length rs \<Longrightarrow> rs ! i = r \<Longrightarrow> reader_ok content r"
  using assms by (auto simp: readers_ok_def list_all_length)

lemma cache_step_ok:
  assumes "cache_step content st st'" "readers_ok content mx st"
  shows "readers_ok content mx st'"
  using assms
proof (induction rule: cache_step.induct)
  case (trivial i rs off len c)
  show ?case
    by (rule readers_okI [OF readers_okD(1-3) [OF trivial(4)]])
      (simp add: read_cached_ok(1) [OF readers_okD(1) [OF trivial(4)]])
next
  case (hit i rs off len c v c')
  note st = readers_okD [OF hit(6)]
  have "read_exact_at_file content (unat off) len = Ok v"
    by (rule cached_hit [OF st(1) _ hit(4)]) (simp add: cache_lookup_ok(4) [OF hit(5)])
  with hit(4) have "reader_ok content (R_Done off len (Ok v))" by (simp add: direct_read_def)
  then show ?case using readers_okI st(1-3) cache_lookup_ok(2,3) [OF hit(5)] by simp
next
  case (miss i rs off len c c')
  with readers_okI readers_okD(1-3) [OF miss(6)] cache_lookup_ok(2,3) [OF miss(5)] show ?case by simp
next
  case (failed i rs off len e c)
  then have "reader_ok content (R_Done off len (Inl e))"
    using readers_okD(4) [OF failed(4,1,2)] by (simp add: direct_read_def)
  then show ?case by (rule readers_okI [OF readers_okD(1-3) [OF failed(4)]])
next
  case (loaded i rs off len v c)
  then have "reader_ok content (R_Store off len v)"
    using readers_okD(4) [OF loaded(4,1,2)] by simp
  then show ?case by (rule readers_okI [OF readers_okD(1-3) [OF loaded(4)]])
next
  case (stored i rs off len v c w c')
  have r: "len < 2 ^ 32" "read_exact_at_file content (unat off) len = Ok v"
    using readers_okD(4) [OF stored(4,1,2)] by simp_all
  note s = cache_store_ok [OF stored(3) readers_okD(1) [OF stored(4)] r]
  have "reader_ok content (R_Done off len (Ok w))" using r s(2) by (simp add: direct_read_def)
  moreover have "ch_max_bytes c' = mx" using s(3) readers_okD(2) [OF stored(4)] by simp
  ultimately show ?case using readers_okI s(1) readers_okD(3) [OF stored(4)] by blast
qed

lemma cache_steps_ok:
  "(cache_step content)\<^sup>*\<^sup>* st st' \<Longrightarrow> readers_ok content mx st \<Longrightarrow> readers_ok content mx st'"
  by (induction rule: rtranclp_induct) (auto intro: cache_step_ok)

end
