(* ===== verification/Page_Requests.thy ===== *)
theory Page_Requests
  imports Chunk_Exec Plan_Table Filter_Prune Read_Cache
begin

text \<open>
  The pages that a plan needs of a chunk (\<^verbatim>\<open>wcol-decoder/src/ffi/required_pages.rs\<close>), the
  native side that asks for them, reads them and hands them to the execution
  (\<^verbatim>\<open>required_pages\<close>, \<^verbatim>\<open>exec_chunk_payload\<close> and \<^verbatim>\<open>read_and_pack_pages\<close> of
  \<^verbatim>\<open>native/exec.rs\<close>), and the dictionary lookups of \<^verbatim>\<open>ffi/dict.rs\<close>. The native loop asks
  again with the buffer length it was told; it has no bound, so it is a \<open>partial_function\<close>.
  The cache of plan and runtime pointers is left out.
\<close>

section \<open>The planner of pages\<close>

record page_desc =
  pd_kind :: u32
  pd_col_id :: u32
  pd_offset :: u64
  pd_comp_len :: u32
  pd_raw_len :: u32

definition PAGE_REQ_WORDS :: nat where "PAGE_REQ_WORDS = 6"

text \<open>The decoder compares offsets with the 32-bit sentinel, widened.\<close>

definition NULL_SENTINEL :: u32 where "NULL_SENTINEL = 0xffffffff"

definition filter_status :: "runtime \<Rightarrow> index_entry list \<Rightarrow> filter_spec \<Rightarrow> possible result" where
  "filter_status rt entries fl =
     bindR (of_option (Code (- 7)) (get (r_schema rt) (unat (fl_col_id fl)))) (\<lambda>col.
     bindR (of_option (Code (- 6)) (get entries (unat (fl_col_id fl)))) (\<lambda>entry.
       Ok (filter_possible fl col entry rt)))"

definition chunk_possible :: "plan \<Rightarrow> possible list \<Rightarrow> bool" where
  "chunk_possible plan statuses =
     (if pl_combine plan = [] then list_all maybe_true statuses
      else case eval_possible (pl_combine plan) statuses of Some p \<Rightarrow> maybe_true p | None \<Rightarrow> True)"

definition empty_needed :: "plan \<Rightarrow> u32 set" where
  "empty_needed plan = set (map fl_col_id (filter (\<lambda>fl.
     fl_value_str fl = Some [] \<and> (fl_op fl = OP_EQ \<or> fl_op fl = OP_NEQ)) (pl_filters plan)))"

definition column_pages :: "u32 set \<Rightarrow> column \<Rightarrow> index_entry \<Rightarrow> u32 \<Rightarrow> page_desc list" where
  "column_pages needed col entry col_id =
     [\<lparr> pd_kind = PAGE_KIND_DATA, pd_col_id = col_id, pd_offset = e_data_off entry,
        pd_comp_len = e_data_comp_len entry, pd_raw_len = e_data_raw_len entry \<rparr>] @
     (if c_flags col AND FLAG_NULLABLE \<noteq> 0 \<and> e_null_off entry \<noteq> ucast NULL_SENTINEL \<and>
         0 < e_null_comp_len entry then
        [\<lparr> pd_kind = PAGE_KIND_NULL, pd_col_id = col_id, pd_offset = e_null_off entry,
           pd_comp_len = e_null_comp_len entry, pd_raw_len = e_null_raw_len entry \<rparr>]
      else []) @
     (if col_id \<in> needed \<and> e_empty_mode entry = EMPTY_MODE_MIXED \<and>
         e_empty_off entry \<noteq> ucast NULL_SENTINEL \<and> 0 < e_empty_comp_len entry then
        [\<lparr> pd_kind = PAGE_KIND_EMPTY, pd_col_id = col_id, pd_offset = e_empty_off entry,
           pd_comp_len = e_empty_comp_len entry, pd_raw_len = e_empty_raw_len entry \<rparr>]
      else [])"

definition required_column_pages ::
  "plan \<Rightarrow> runtime \<Rightarrow> index_entry list \<Rightarrow> u32 \<Rightarrow> page_desc list result" where
  "required_column_pages plan rt entries col_id =
     (case get (r_schema rt) (unat col_id) of
        None \<Rightarrow> Ok []
      | Some col \<Rightarrow>
          bindR (of_option Panic (get entries (unat col_id))) (\<lambda>entry.
            Ok (column_pages (empty_needed plan) col entry col_id)))"

definition page_plan :: "plan \<Rightarrow> runtime \<Rightarrow> index_entry list \<Rightarrow> page_desc list result" where
  "page_plan plan rt entries =
     bindR (mapR (filter_status rt entries) (pl_filters plan)) (\<lambda>statuses.
       if pl_filters plan \<noteq> [] \<and> \<not> chunk_possible plan statuses then Ok []
       else bindR (mapR (required_column_pages plan rt entries)
              (plan_required_columns plan (length (r_schema rt)))) (\<lambda>pss. Ok (concat pss)))"

text \<open>The entries of the chunk are cached in the runtime before the filters are looked at.\<close>

definition plan_chunk_pages ::
  "(bytes \<Rightarrow> nat \<Rightarrow> bytes option) \<Rightarrow> runtimes \<Rightarrow> (u32 \<rightharpoonup> plan) \<Rightarrow> u32 \<Rightarrow> u32 \<Rightarrow> u32 \<Rightarrow> bytes \<Rightarrow> nat
     \<Rightarrow> page_desc list result \<times> runtimes" where
  "plan_chunk_pages decompress rts plans runtime_handle plan_handle chunk_id index_bytes index_raw_len =
     (case plans plan_handle of
        None \<Rightarrow> (Err (Code (- 2)), rts)
      | Some plan \<Rightarrow>
          if pl_runtime plan \<noteq> runtime_handle then (Err (Code (- 7)), rts)
          else (case rts runtime_handle of
              None \<Rightarrow> (Err (Code (- 1)), rts)
            | Some rt \<Rightarrow>
                if r_header rt = None then (Err (Code (- 3)), rts)
                else if r_toc rt = [] then (Err (Code (- 3)), rts)
                else if length (r_toc rt) \<le> unat chunk_id then (Err (Code (- 4)), rts)
                else (case decompress index_bytes index_raw_len of
                    None \<Rightarrow> (Err (Code (- 5)), rts)
                  | Some raw \<Rightarrow>
                      (case parse_chunk_index raw (length (r_schema rt)) of
                         Inl e \<Rightarrow> (Err (if e = Panic then Panic else Code (- 6)), rts)
                       | Inr entries \<Rightarrow>
                           let rt = rt\<lparr> r_index_cache := (r_index_cache rt)(chunk_id \<mapsto> entries) \<rparr>
                           in (page_plan plan rt entries, rts(runtime_handle \<mapsto> rt))))))"

definition page_words :: "page_desc \<Rightarrow> u32 list" where
  "page_words pd =
     [pd_kind pd, pd_col_id pd, ucast (pd_offset pd AND 0xffffffff), ucast (drop_bit 32 (pd_offset pd)),
      pd_comp_len pd, pd_raw_len pd]"

text \<open>The code, the words written to a buffer of \<open>out_len\<close> bytes, and the runtimes.\<close>

definition plan_required_pages ::
  "(bytes \<Rightarrow> nat \<Rightarrow> bytes option) \<Rightarrow> (u32 \<rightharpoonup> plan) \<Rightarrow> u32 \<Rightarrow> u32 \<Rightarrow> u32 \<Rightarrow> bytes \<Rightarrow> nat \<Rightarrow> nat \<Rightarrow> runtimes
     \<Rightarrow> (int \<times> u32 list) result \<times> runtimes" where
  "plan_required_pages decompress plans runtime_handle plan_handle chunk_id index_bytes index_raw_len
     out_len rts =
     (let (r, rts) = plan_chunk_pages decompress rts plans runtime_handle plan_handle chunk_id
            index_bytes index_raw_len
      in (case r of
            Inl (Code c) \<Rightarrow> Ok (c, [])
          | Inl e \<Rightarrow> Err e
          | Inr pages \<Rightarrow>
              let needed_bytes = length pages * PAGE_REQ_WORDS * 4 in
              if out_len < needed_bytes then Ok (- int needed_bytes, [])
              else Ok (int (length pages), concat (map page_words pages)), rts))"

section \<open>Asking for the pages\<close>

datatype required_pages_result = Skip | Requests "page_desc list"

definition request_at :: "u32 list \<Rightarrow> nat \<Rightarrow> page_desc" where
  "request_at out idx =
     (let base = idx * PAGE_REQ_WORDS in
      \<lparr> pd_kind = out ! base, pd_col_id = out ! (base + 1),
        pd_offset = push_bit 32 (ucast (out ! (base + 3))) OR ucast (out ! (base + 2)),
        pd_comp_len = out ! (base + 4), pd_raw_len = out ! (base + 5) \<rparr>)"

text \<open>The buffer has \<open>out_len div 4\<close> words, zero where the call does not write.\<close>

definition out_words :: "nat \<Rightarrow> u32 list \<Rightarrow> u32 list" where
  "out_words out_len written = written @ replicate (out_len div 4 - length written) 0"

partial_function (option) required_loop ::
  "(nat \<Rightarrow> 's \<Rightarrow> (int \<times> u32 list) result \<times> 's) \<Rightarrow> bool \<Rightarrow> nat \<Rightarrow> 's
     \<Rightarrow> (required_pages_result result \<times> 's) option" where
  "required_loop ask has_filters out_len st =
     (case ask out_len st of
        (Inl e, st) \<Rightarrow> Some (Inl e, st)
      | (Inr (n, written), st) \<Rightarrow>
          if n < 0 then
            (if nat (- n) \<le> out_len then Some (Err (Code n), st)
             else required_loop ask has_filters (nat (- n)) st)
          else if n = 0 then Some (Ok (if has_filters then Skip else Requests []), st)
          else if length (out_words out_len written) < nat n * PAGE_REQ_WORDS then Some (Err Panic, st)
          else Some (Ok (Requests (map (request_at (out_words out_len written)) [0..<nat n])), st))"

definition required_pages ::
  "(bytes \<Rightarrow> nat \<Rightarrow> bytes option) \<Rightarrow> (u32 \<rightharpoonup> plan) \<Rightarrow> u32 \<Rightarrow> u32 \<Rightarrow> header_info \<Rightarrow> u32 \<Rightarrow> bytes \<Rightarrow> bool
     \<Rightarrow> runtimes \<Rightarrow> (required_pages_result result \<times> runtimes) option" where
  "required_pages decompress plans runtime_handle plan_handle header chunk_id index_bytes has_filters rts =
     required_loop (plan_required_pages decompress plans runtime_handle plan_handle chunk_id index_bytes
       (unat (i_ncols header) * INDEX_ENTRY_BYTES)) has_filters 4096 rts"

section \<open>Reading the pages\<close>

text \<open>\<^verbatim>\<open>data[offset..offset + len].copy_from_slice(bytes)\<close>\<close>

definition copy_into :: "bytes \<Rightarrow> nat \<Rightarrow> bytes \<Rightarrow> bytes result" where
  "copy_into buf offset bs =
     (if length buf < offset + length bs then Err Panic
      else Ok (take offset buf @ bs @ drop (offset + length bs) buf))"

definition desc_words :: "nat \<Rightarrow> page_desc \<Rightarrow> u32 list" where
  "desc_words data_offset req =
     [pd_kind req, pd_col_id req, of_nat data_offset, pd_comp_len req, pd_raw_len req]"

fun pack_pages ::
  "('s \<Rightarrow> u64 \<Rightarrow> nat \<Rightarrow> bytes result \<times> 's) \<Rightarrow> page_desc list \<Rightarrow> nat \<Rightarrow> u32 list \<Rightarrow> bytes \<Rightarrow> 's
     \<Rightarrow> (u32 list \<times> bytes) result \<times> 's" where
  "pack_pages read [] data_offset descs data st = (Ok (descs, data), st)"
| "pack_pages read (req # reqs) data_offset descs data st =
     (case read st (pd_offset req) (unat (pd_comp_len req)) of
        (Inl e, st) \<Rightarrow> (Inl e, st)
      | (Inr bs, st) \<Rightarrow>
          (case copy_into data data_offset bs of
             Inl e \<Rightarrow> (Inl e, st)
           | Inr data \<Rightarrow>
               pack_pages read reqs (data_offset + length bs) (descs @ desc_words data_offset req) data st))"

definition total_comp_len :: "page_desc list \<Rightarrow> nat" where
  "total_comp_len reqs = sum_list (map (\<lambda>req. unat (pd_comp_len req)) reqs)"

definition read_and_pack_pages ::
  "bytes \<Rightarrow> read_cache \<Rightarrow> page_desc list \<Rightarrow> (u32 list \<times> bytes) result \<times> read_cache" where
  "read_and_pack_pages content cache reqs =
     pack_pages (read_cached content) reqs 0 [] (replicate (total_comp_len reqs) 0) cache"

text \<open>The execution is given as \<open>exec\<close>, \<^const>\<open>plan_exec_chunk\<close> with its handles fixed.\<close>

definition exec_chunk_payload ::
  "(u32 list \<Rightarrow> bytes \<Rightarrow> (int \<times> 't) result) \<Rightarrow> bytes \<Rightarrow> read_cache \<Rightarrow> page_desc list
     \<Rightarrow> 't result \<times> read_cache" where
  "exec_chunk_payload exec content cache reqs =
     (let run = (\<lambda>descs data. bindR (exec descs data) (\<lambda>(code, st). bindR (call_status code) (\<lambda>_. Ok st))) in
      if reqs = [] then (run [] [], cache)
      else (case read_and_pack_pages content cache reqs of
          (Inl e, cache) \<Rightarrow> (Inl e, cache)
        | (Inr (descs, data), cache) \<Rightarrow> (run descs data, cache)))"

section \<open>Dictionaries\<close>

definition column_dict :: "runtimes \<Rightarrow> u32 \<Rightarrow> u32 \<Rightarrow> dictionary result" where
  "column_dict rts handle col_id =
     bindR (of_option (Code (- 1)) (rts handle)) (\<lambda>rt.
     bindR (of_option (Code (- 2)) (get (r_schema rt) (unat col_id))) (\<lambda>col.
       of_option (Code (- 3)) (r_dicts rt (c_dict_id col))))"

definition dict_lookup :: "dictionary \<Rightarrow> bytes \<Rightarrow> int" where
  "dict_lookup dict val =
     (let scan = (if d_offsets dict \<noteq> [] then blob_scan dict val 0 (length (d_offsets dict) - 1) else None) in
      if d_lookup dict \<noteq> [] then
        (case from_utf8 val of
           None \<Rightarrow> - 4
         | Some s \<Rightarrow> (case map_of (d_lookup dict) s of Some i \<Rightarrow> sint i | None \<Rightarrow> - 5))
      else
        (case scan of
           Some i \<Rightarrow> as_i32 i
         | None \<Rightarrow>
             (case from_utf8 val of
                None \<Rightarrow> - 4
              | Some s \<Rightarrow>
                  (case bsearch (d_values dict) s 0 (length (d_values dict)) of
                     Some pos \<Rightarrow> as_i32 pos
                   | None \<Rightarrow> - 5))))"

text \<open>The negative code of an error, the answer otherwise.\<close>

definition code_or :: "'a result \<Rightarrow> 'b \<Rightarrow> ('a \<Rightarrow> int \<times> 'b) \<Rightarrow> int \<times> 'b" where
  "code_or r d f = (case r of Inl (Code c) \<Rightarrow> (c, d) | Inl _ \<Rightarrow> (- 1, d) | Inr x \<Rightarrow> f x)"

definition runtime_dict_lookup :: "runtimes \<Rightarrow> u32 \<Rightarrow> u32 \<Rightarrow> bytes \<Rightarrow> int" where
  "runtime_dict_lookup rts handle col_id val =
     fst (code_or (column_dict rts handle col_id) () (\<lambda>dict. (dict_lookup dict val, ())))"

definition runtime_dict_value :: "runtimes \<Rightarrow> u32 \<Rightarrow> u32 \<Rightarrow> u32 \<Rightarrow> nat \<Rightarrow> int \<times> bytes" where
  "runtime_dict_value rts handle col_id value_id out_len =
     code_or (column_dict rts handle col_id) [] (\<lambda>dict.
       case dict_value_bytes dict (unat value_id) of
         None \<Rightarrow> (- 4, [])
       | Some val \<Rightarrow>
           if out_len < length val then (- int (length val), []) else (int (length val), val))"

definition runtime_dict_len :: "runtimes \<Rightarrow> u32 \<Rightarrow> u32 \<Rightarrow> int" where
  "runtime_dict_len rts handle col_id =
     fst (code_or (column_dict rts handle col_id) () (\<lambda>dict.
       (as_i32 (if d_offsets dict \<noteq> [] then length (d_offsets dict) - 1 else length (d_values dict)), ())))"

end
