(* ===== verification/Page_Request_Facts.thy ===== *)
theory Page_Request_Facts
  imports Page_Requests Chunk_Facts Row_Facts Page_Facts
begin

text \<open>
  Facts about the pages of a chunk: the loop that asks for them ends after at most two calls
  with the planned pages, the words of a page give the page back, what is read and packed
  decompresses to the pages of the file, and a chunk that is skipped has no row to select.
\<close>

section \<open>Planning again plans the same\<close>

lemma mapR_Err: "mapR f xs = Err e \<Longrightarrow> \<exists>x \<in> set xs. f x = Err e"
  by (induction xs) (auto simp: bindR_def split: sum.splits)

lemma chunk_pages_cache [simp]: "page_plan plan (rt\<lparr> r_index_cache := x \<rparr>) entries = page_plan plan rt entries"
proof -
  have "filter_possible fl col entry (rt\<lparr> r_index_cache := x \<rparr>) = filter_possible fl col entry rt" for fl col entry
    by (simp add: filter_possible_def dict_filter_possible_def)
  then have "filter_status (rt\<lparr> r_index_cache := x \<rparr>) entries = filter_status rt entries"
    by (intro ext) (simp add: filter_status_def)
  moreover have "required_column_pages plan (rt\<lparr> r_index_cache := x \<rparr>) entries = required_column_pages plan rt entries"
    by (intro ext) (simp add: required_column_pages_def)
  ultimately show ?thesis by (simp add: page_plan_def cong: if_cong)
qed

lemma plan_chunk_pages_again:
  assumes "plan_chunk_pages decompress rts plans rh ph chunk_id index_bytes raw_len = (r, rts')"
  shows "plan_chunk_pages decompress rts' plans rh ph chunk_id index_bytes raw_len = (r, rts')"
  using assms
  by (auto simp: plan_chunk_pages_def Let_def split: option.splits if_splits sum.splits)

lemma chunk_pages_codes: "page_plan plan rt entries = Err (Code c) \<Longrightarrow> - 7 \<le> c \<and> c < 0"
  by (auto simp: page_plan_def bindR_def filter_status_def required_column_pages_def of_option_def
      split: sum.splits if_splits option.splits dest!: mapR_Err)

lemma plan_chunk_pages_codes:
  "plan_chunk_pages decompress rts plans rh ph chunk_id index_bytes raw_len = (Err (Code c), rts') \<Longrightarrow>
     - 7 \<le> c \<and> c < 0"
  by (auto simp: plan_chunk_pages_def Let_def split: option.splits if_splits sum.splits dest: chunk_pages_codes)

section \<open>The words of a page\<close>

lemma length_page_words [simp]: "length (page_words pd) = PAGE_REQ_WORDS"
  by (simp add: page_words_def PAGE_REQ_WORDS_def)

lemma offset_words:
  "push_bit 32 (ucast (ucast (drop_bit 32 off) :: u32)) OR ucast (ucast (off AND 0xffffffff) :: u32) = (off :: u64)"
    (is "?words = off")
proof (rule bit_word_eqI)
  fix n :: nat assume n: "n < LENGTH(64)"
  have m: "bit (0xffffffff :: u64) n \<longleftrightarrow> n < 32"
  proof -
    have m: "(0xffffffff :: u64) = mask 32" by (simp add: mask_eq_exp_minus_1)
    show ?thesis unfolding m bit_mask_iff using n by simp
  qed
  show "bit ?words n = bit off n"
    using n m by (cases "n < 32") (auto simp: bit_simps)
qed

lemma words_nth:
  "i < length ps \<Longrightarrow> k < PAGE_REQ_WORDS \<Longrightarrow>
     (concat (map page_words ps) @ zs) ! (i * PAGE_REQ_WORDS + k) = page_words (ps ! i) ! k"
proof (induction ps arbitrary: i)
  case (Cons p ps)
  show ?case
  proof (cases i)
    case 0
    with Cons.prems show ?thesis by (simp add: nth_append)
  next
    case (Suc j)
    with Cons have "(concat (map page_words ps) @ zs) ! (j * PAGE_REQ_WORDS + k) = page_words (ps ! j) ! k"
      by simp
    moreover have "Suc j * PAGE_REQ_WORDS + k = length (page_words p) + (j * PAGE_REQ_WORDS + k)" by simp
    ultimately show ?thesis unfolding Suc list.map concat.simps append_assoc by (simp only: nth_append_length_plus nth_Cons_Suc)
  qed
qed simp

lemma request_at_words:
  assumes "i < length ps"
  shows "request_at (concat (map page_words ps) @ zs) i = ps ! i"
proof -
  have w: "(concat (map page_words ps) @ zs) ! (i * PAGE_REQ_WORDS + k) = page_words (ps ! i) ! k"
    if "k < PAGE_REQ_WORDS" for k using words_nth [OF assms that] .
  note w [of 0] w [of 1] w [of 2] w [of 3] w [of 4] w [of 5]
  then show ?thesis
    by (simp add: request_at_def PAGE_REQ_WORDS_def page_words_def Let_def offset_words)
qed

lemma requests_of_words:
  "map (request_at (concat (map page_words ps) @ zs)) [0..<length ps] = ps"
  by (rule nth_equalityI) (simp_all add: request_at_words)

lemma length_words: "length (concat (map page_words ps)) = length ps * PAGE_REQ_WORDS"
  by (induction ps) simp_all

section \<open>Asking ends\<close>

lemma answer:
  assumes "plan_chunk_pages decompress rts plans rh ph chunk_id index_bytes raw_len = (r, rts')"
  shows "plan_required_pages decompress plans rh ph chunk_id index_bytes raw_len out_len rts =
    (case r of Inl (Code c) \<Rightarrow> Ok (c, []) | Inl e \<Rightarrow> Err e
     | Inr ps \<Rightarrow> if out_len < length ps * PAGE_REQ_WORDS * 4 then Ok (- int (length ps * PAGE_REQ_WORDS * 4), [])
         else Ok (int (length ps), concat (map page_words ps)), rts')"
  by (cases r rule: sum.exhaust) (simp_all add: plan_required_pages_def assms Let_def split: error.split)

lemma loop_pages:
  assumes "ask out_len st = (Ok (int (length ps), concat (map page_words ps)), st')"
    and "length ps * PAGE_REQ_WORDS * 4 \<le> out_len"
  shows "required_loop ask has_filters out_len st =
    Some (Ok (if ps = [] \<and> has_filters then Skip else Requests ps), st')"
proof -
  let ?w = "concat (map page_words ps)"
  have "length ps * PAGE_REQ_WORDS \<le> out_len div 4" using assms(2) by linarith
  then have len: "\<not> length (out_words out_len ?w) < length ps * PAGE_REQ_WORDS"
    by (simp add: out_words_def length_words)
  show ?thesis
    using assms(1) len by (subst required_loop.simps) (simp add: out_words_def requests_of_words)
qed

lemma required_pages_ok:
  assumes pl: "plan_chunk_pages decompress rts plans rh ph chunk_id index_bytes
      (unat (i_ncols header) * INDEX_ENTRY_BYTES) = (r, rts')"
  shows "required_pages decompress plans rh ph header chunk_id index_bytes has_filters rts =
    Some (bindR r (\<lambda>ps. Ok (if ps = [] \<and> has_filters then Skip else Requests ps)), rts')"
proof -
  let ?ask = "plan_required_pages decompress plans rh ph chunk_id index_bytes
      (unat (i_ncols header) * INDEX_ENTRY_BYTES)"
  note ask = answer [OF pl] and ask' = answer [OF plan_chunk_pages_again [OF pl]]
  show ?thesis
  proof (cases r)
    case (Inl e)
    show ?thesis
    proof (cases e)
      case (Code c)
      then have "- 7 \<le> c" "c < 0" using plan_chunk_pages_codes pl Inl by blast+
      then have "nat (- c) \<le> 4096" "c < 0" by simp_all
      then show ?thesis unfolding required_pages_def
        by (subst required_loop.simps) (simp add: ask Inl Code)
    qed (use Inl ask in \<open>simp_all add: required_pages_def required_loop.simps\<close>)
  next
    case (Inr ps)
    let ?n = "length ps * PAGE_REQ_WORDS * 4"
    have fits: "required_loop ?ask has_filters out_len st =
        Some (Ok (if ps = [] \<and> has_filters then Skip else Requests ps), rts')"
      if "?n \<le> out_len" "st = rts \<or> st = rts'" for out_len st
      by (rule loop_pages) (use that Inr ask ask' in auto)
    show ?thesis
    proof (cases "?n \<le> 4096")
      case True
      with fits Inr show ?thesis by (simp add: required_pages_def)
    next
      case False
      have "?ask 4096 rts = (Ok (- int ?n, []), rts')" using False Inr by (simp add: ask)
      moreover have "\<not> nat (int ?n) \<le> 4096" "- int ?n < 0" "nat (int ?n) = ?n" using False by linarith+
      ultimately have "required_loop ?ask has_filters 4096 rts = required_loop ?ask has_filters ?n rts'"
        by (subst required_loop.simps) (simp del: of_nat_mult)
      with fits [of ?n rts'] Inr show ?thesis by (simp add: required_pages_def)
    qed
  qed
qed

end
