(* ===== verification/Page_Delivery.thy ===== *)
theory Page_Delivery
  imports Page_Request_Facts
begin

text \<open>
  From the file to the execution: what \<^verbatim>\<open>read_and_pack_pages\<close> puts in one buffer
  decompresses to the pages that the encoder packed. A reader of the file is a locale, which
  the shared cache interprets; the requests of a plan are those of its required columns.
\<close>

section \<open>Readers of a file\<close>

locale file_reader =
  fixes read :: "'s \<Rightarrow> u64 \<Rightarrow> nat \<Rightarrow> bytes result \<times> 's"
    and ok :: "'s \<Rightarrow> bool"
    and content :: bytes
  assumes gives: "ok st \<Longrightarrow> len < 2 ^ 32 \<Longrightarrow> fst (read st off len) = read_exact_at_file content (unat off) len"
    and keeps: "ok st \<Longrightarrow> ok (snd (read st off len))"

interpretation cached: file_reader "read_cached content" "cache_ok content" content for content :: bytes
  by unfold_locales (simp_all add: read_cached_ok direct_read_def)

definition page_in_file :: "bytes \<Rightarrow> page_desc \<Rightarrow> bytes result" where
  "page_in_file content req = read_exact_at_file content (unat (pd_offset req)) (unat (pd_comp_len req))"

fun packed_descs :: "nat \<Rightarrow> page_desc list \<Rightarrow> u32 list list" where
  "packed_descs off [] = []"
| "packed_descs off (req # reqs) = desc_words off req # packed_descs (off + unat (pd_comp_len req)) reqs"

lemma read_exact_length: "read_exact_at_file content off len = Ok bs \<Longrightarrow> length bs = len"
  by (auto simp: read_exact_at_file_def split: if_splits)

lemma page_in_file_length: "page_in_file content req = Ok bs \<Longrightarrow> length bs = unat (pd_comp_len req)"
  unfolding page_in_file_def by (rule read_exact_length)

lemma total_comp_len_simps [simp]:
  "total_comp_len [] = 0" "total_comp_len (req # reqs) = unat (pd_comp_len req) + total_comp_len reqs"
  by (simp_all add: total_comp_len_def)

lemma comp_len_small: "unat (pd_comp_len req) < 2 ^ 32"
  using unsigned_less [of "pd_comp_len req"] by simp

text \<open>The buffer has the bytes read so far, then zeros.\<close>

lemma copy_next:
  assumes "length bs = n"
  shows "copy_into (pre @ replicate (n + m) 0) (length pre) bs = Ok ((pre @ bs) @ replicate m 0)"
  using assms by (simp add: copy_into_def)

context file_reader
begin

lemma pack_pages_ok:
  assumes "ok st" "mapR (page_in_file content) reqs = Ok bss"
  shows "\<exists>st'. ok st' \<and>
    pack_pages read reqs (length pre) descs (pre @ replicate (total_comp_len reqs) 0) st =
      (Ok (descs @ concat (packed_descs (length pre) reqs), pre @ concat bss), st')"
  using assms
proof (induction reqs arbitrary: st bss pre descs)
  case (Cons req reqs)
  then obtain bs bss1 where bs: "page_in_file content req = Ok bs" "mapR (page_in_file content) reqs = Ok bss1"
    "bss = bs # bss1" by auto
  have len: "length bs = unat (pd_comp_len req)" using page_in_file_length [OF bs(1)] .
  obtain st1 where st1: "read st (pd_offset req) (unat (pd_comp_len req)) = (Ok bs, st1)" "ok st1"
    using gives [OF Cons.prems(1) comp_len_small] keeps [OF Cons.prems(1)] bs(1)
    by (metis page_in_file_def prod.collapse)
  have pre: "length pre + length bs = length (pre @ bs)" by simp
  from Cons.IH [OF st1(2) bs(2), of "pre @ bs" "descs @ desc_words (length pre) req"]
  show ?case using bs(3) st1(1) copy_next [OF len]
    by (simp add: len del: append_assoc replicate_append_same) (simp add: len)
qed simp

lemma pack_pages_fails:
  assumes "ok st" "mapR (page_in_file content) reqs = Err e"
  shows "fst (pack_pages read reqs (length pre) descs (pre @ replicate (total_comp_len reqs) 0) st) = Err e"
  using assms
proof (induction reqs arbitrary: st pre descs)
  case (Cons req reqs)
  obtain r st1 where r: "read st (pd_offset req) (unat (pd_comp_len req)) = (r, st1)" by fastforce
  have read: "r = page_in_file content req" "ok st1"
    using gives [OF Cons.prems(1) comp_len_small, of "pd_offset req" req] keeps [OF Cons.prems(1)] r
    by (metis page_in_file_def fst_conv, metis snd_conv)
  show ?case
  proof (cases r)
    case (Inl e1)
    then have "page_in_file content req = Err e1" using read by simp
    with Cons.prems(2) have "e1 = e" by simp
    with Inl r show ?thesis by simp
  next
    case (Inr bs)
    then have bs: "page_in_file content req = Ok bs" using read by simp
    have len: "length bs = unat (pd_comp_len req)" using page_in_file_length [OF bs] .
    have "mapR (page_in_file content) reqs = Err e" using Cons.prems(2) bs by (auto simp: bindR_def split: sum.splits)
    from Cons.IH [OF read(2) this, of "pre @ bs" "descs @ desc_words (length pre) req"] Inr r copy_next [OF len]
    show ?thesis by (simp add: len del: append_assoc)
  qed
qed simp

end

section \<open>Decompressing what was packed\<close>

definition store_page :: "nat \<Rightarrow> page_desc \<Rightarrow> bytes \<Rightarrow> page_maps \<Rightarrow> page_maps result" where
  "store_page rows req page maps =
     (if pd_kind req = PAGE_KIND_DATA then
        Ok (maps\<lparr> data_pages := (data_pages maps)(pd_col_id req \<mapsto> page) \<rparr>)
      else if pd_kind req = PAGE_KIND_NULL then
        (if length page < div8_ceil rows then Err (Code (- 18))
         else Ok (maps\<lparr> null_pages := (null_pages maps)(pd_col_id req \<mapsto> page) \<rparr>))
      else if pd_kind req = PAGE_KIND_EMPTY then
        (if length page < div8_ceil rows then Err (Code (- 18))
         else Ok (maps\<lparr> empty_pages := (empty_pages maps)(pd_col_id req \<mapsto> page) \<rparr>))
      else Ok maps)"

definition deliver_page ::
  "(bytes \<Rightarrow> nat \<Rightarrow> bytes option) \<Rightarrow> nat \<Rightarrow> page_maps \<Rightarrow> page_desc \<times> bytes \<Rightarrow> page_maps result" where
  "deliver_page decompress rows maps = (\<lambda>(req, bs).
     if pd_comp_len req = 0 \<and> pd_raw_len req \<noteq> 0 then Err (Code (- 16))
     else bindR (unpack_page decompress bs (unat (pd_comp_len req)) (unat (pd_raw_len req)))
            (\<lambda>page. store_page rows req page maps))"

lemma deliver_step:
  assumes "data = pre @ bs @ post" "length bs = unat (pd_comp_len req)" "length pre < 2 ^ 32"
  shows "decompress_step decompress data rows maps (desc_words (length pre) req) = deliver_page decompress rows maps (req, bs)"
proof -
  have "unat (of_nat (length pre) :: u32) = length pre" using assms(3) by (simp add: unat_of_nat32)
  moreover have "slice data (length pre) (length pre + unat (pd_comp_len req)) = bs"
    using assms(1,2) by (simp add: slice_def)
  moreover have "\<not> length data < length pre + unat (pd_comp_len req)" using assms(1,2) by simp
  moreover have "unat (pd_comp_len req) = 0 \<and> unat (pd_raw_len req) \<noteq> 0 \<longleftrightarrow> pd_comp_len req = 0 \<and> pd_raw_len req \<noteq> 0"
    by (simp add: unat_eq_zero)
  ultimately show ?thesis
    unfolding decompress_step_def deliver_page_def store_page_def
    by (simp add: desc_words_def Let_def cong: if_cong)
qed

lemma deliver_all:
  assumes "mapR (page_in_file content) reqs = Ok bss" "length pre + total_comp_len reqs < 2 ^ 32"
  shows "foldR (decompress_step decompress (pre @ concat bss) rows) maps (packed_descs (length pre) reqs) =
    foldR (deliver_page decompress rows) maps (zip reqs bss)"
  using assms
proof (induction reqs arbitrary: bss pre maps)
  case (Cons req reqs)
  then obtain bs bss1 where bs: "page_in_file content req = Ok bs" "mapR (page_in_file content) reqs = Ok bss1"
    "bss = bs # bss1" by auto
  have len: "length bs = unat (pd_comp_len req)" using page_in_file_length [OF bs(1)] .
  have step: "decompress_step decompress (pre @ bs @ concat bss1) rows maps (desc_words (length pre) req) =
      deliver_page decompress rows maps (req, bs)" for maps
    by (rule deliver_step [OF refl len]) (use Cons.prems(2) in simp)
  have "foldR (decompress_step decompress ((pre @ bs) @ concat bss1) rows) maps (packed_descs (length (pre @ bs)) reqs) =
      foldR (deliver_page decompress rows) maps (zip reqs bss1)" for maps
    by (rule Cons.IH [OF bs(2)]) (use Cons.prems(2) len in simp)
  then show ?case using bs(3) step len by (simp add: bindR_def split: sum.splits)
qed simp

lemma chunks_packed: "chunks_exact PAGE_EXEC_WORDS (concat (packed_descs off reqs)) = packed_descs off reqs"
proof (rule chunks_exact_concat)
  show "length x = PAGE_EXEC_WORDS" if "x \<in> set (packed_descs off reqs)" for x
    using that by (induction off reqs rule: packed_descs.induct) (auto simp: desc_words_def PAGE_EXEC_WORDS_def)
qed (simp add: PAGE_EXEC_WORDS_def)

lemma delivered:
  assumes "cache_ok content cache" "mapR (page_in_file content) reqs = Ok bss" "total_comp_len reqs < 2 ^ 32"
  shows "\<exists>descs data cache'. read_and_pack_pages content cache reqs = (Ok (descs, data), cache') \<and>
    cache_ok content cache' \<and> length descs mod PAGE_EXEC_WORDS = 0 \<and>
    decompress_pages decompress descs data rows =
      foldR (deliver_page decompress rows)
        \<lparr> data_pages = Map.empty, null_pages = Map.empty, empty_pages = Map.empty \<rparr> (zip reqs bss)"
proof -
  obtain cache' where c: "cache_ok content cache'" "read_and_pack_pages content cache reqs =
      (Ok (concat (packed_descs 0 reqs), concat bss), cache')"
    using cached.pack_pages_ok [OF assms(1,2), of "[]" "[]"] by (auto simp: read_and_pack_pages_def)
  have "length (concat (packed_descs off reqs)) = length reqs * PAGE_EXEC_WORDS" for off
    by (induction off reqs rule: packed_descs.induct) (auto simp: desc_words_def PAGE_EXEC_WORDS_def)
  then have "length (concat (packed_descs 0 reqs)) mod PAGE_EXEC_WORDS = 0" by simp
  with c show ?thesis
    using deliver_all [OF assms(2), of "[]"] assms(3) by (simp add: decompress_pages_def chunks_packed)
qed

section \<open>The pages of the encoder\<close>

record page_parts =
  pp_data :: bytes
  pp_nulls :: "bytes option"
  pp_empties :: "bytes option"

definition opt_packed :: "(bytes \<Rightarrow> bytes) \<Rightarrow> nat \<Rightarrow> bytes option \<Rightarrow> u32 \<Rightarrow> bytes option \<Rightarrow> bool" where
  "opt_packed compress rows cbs raw_len part \<longleftrightarrow>
     (case part of
        None \<Rightarrow> cbs = None
      | Some bm \<Rightarrow> cbs = Some (pack compress bm) \<and> unat raw_len = length bm \<and> length bm = div8_ceil rows)"

definition packed_page :: "(bytes \<Rightarrow> bytes) \<Rightarrow> nat \<Rightarrow> column_page \<Rightarrow> page_parts \<Rightarrow> bool" where
  "packed_page compress rows p parts \<longleftrightarrow>
     p_data_comp p = pack compress (pp_data parts) \<and> unat (p_data_raw_len p) = length (pp_data parts) \<and>
     opt_packed compress rows (p_null_comp p) (p_null_raw_len p) (pp_nulls parts) \<and>
     opt_packed compress rows (p_empty_comp p) (p_empty_raw_len p) (pp_empties parts) \<and>
     (p_empty_mode p = EMPTY_MODE_MIXED \<longleftrightarrow> pp_empties parts \<noteq> None)"

definition part_of :: "page_parts \<Rightarrow> page_desc \<Rightarrow> bytes" where
  "part_of parts req =
     (if pd_kind req = PAGE_KIND_DATA then pp_data parts
      else if pd_kind req = PAGE_KIND_NULL then the (pp_nulls parts) else the (pp_empties parts))"

lemmas kind_defs = PAGE_KIND_DATA_def PAGE_KIND_NULL_def PAGE_KIND_EMPTY_def

text \<open>Every request of a column is met by the part that it names.\<close>

definition met :: "(bytes \<Rightarrow> nat \<Rightarrow> bytes option) \<Rightarrow> bytes \<Rightarrow> nat \<Rightarrow> page_desc \<Rightarrow> bytes \<Rightarrow> bool" where
  "met decompress content rows req part \<longleftrightarrow>
     (\<exists>bs. page_in_file content req = Ok bs \<and>
       unpack_page decompress bs (unat (pd_comp_len req)) (unat (pd_raw_len req)) = Ok part \<and>
       \<not> (pd_comp_len req = 0 \<and> pd_raw_len req \<noteq> 0) \<and>
       (pd_kind req = PAGE_KIND_DATA \<or> div8_ceil rows \<le> length part))"

lemma met_packed:
  assumes z: "lz4_inverse compress decompress"
    and r: "read_exact_at_file content (unat off) (unat clen) = Ok (pack compress part)"
    and l: "unat rlen = length part" "kind = PAGE_KIND_DATA \<or> div8_ceil rows \<le> length part"
  shows "met decompress content rows
    \<lparr> pd_kind = kind, pd_col_id = c, pd_offset = off, pd_comp_len = clen, pd_raw_len = rlen \<rparr> part"
proof -
  let ?req = "\<lparr> pd_kind = kind, pd_col_id = c, pd_offset = off, pd_comp_len = clen, pd_raw_len = rlen \<rparr>"
  have f: "page_in_file content ?req = Ok (pack compress part)" using r by (simp add: page_in_file_def)
  then have len: "unat clen = length (pack compress part)" using page_in_file_length by fastforce
  have d: "decompress (compress part) (length part) = Some part" "compress part \<noteq> []"
    using z by (auto simp: lz4_inverse_def)
  have "part = []" if "pack compress part = []" using that d(2) by (auto simp: pack_def split: if_splits)
  then have "\<not> (clen = 0 \<and> rlen \<noteq> 0)" using len l(1) by (auto simp: unat_eq_zero)
  moreover have "unpack_page decompress (pack compress part) (length (pack compress part)) (length part) = Ok part"
    by (rule unpack_pack) (rule d(1))
  ultimately show ?thesis using f len l unfolding met_def by fastforce
qed

lemma opt_met:
  assumes "lz4_inverse compress decompress" "opt_readable content cbs off clen"
    and "opt_packed compress rows cbs rlen part" "0 < clen"
  shows "part \<noteq> None \<and> met decompress content rows
    \<lparr> pd_kind = kind, pd_col_id = c, pd_offset = off, pd_comp_len = clen, pd_raw_len = rlen \<rparr> (the part)"
  using assms met_packed [OF assms(1)]
  by (auto simp: opt_readable_def opt_packed_def split: option.splits)

lemma opt_absent:
  assumes z: "lz4_inverse compress decompress" and r: "opt_readable content cbs off clen"
    and p: "opt_packed compress rows cbs rlen part" and "0 < rows"
  shows "0 < clen \<longleftrightarrow> part \<noteq> None"
proof (cases part)
  case None
  with r p show ?thesis by (simp add: opt_readable_def opt_packed_def)
next
  case (Some bm)
  then have bm: "cbs = Some (pack compress bm)" "length bm = div8_ceil rows" using p by (simp_all add: opt_packed_def)
  then have "bm \<noteq> []" using assms(4) by (auto simp: div8_ceil_def)
  moreover have "compress bm \<noteq> []" using z by (simp add: lz4_inverse_def)
  ultimately have "pack compress bm \<noteq> []" by (simp add: pack_def)
  moreover have "length (pack compress bm) = unat clen"
    by (rule read_exact_length [of content "unat off"]) (use r bm(1) in \<open>simp add: opt_readable_def\<close>)
  ultimately show ?thesis using Some by (metis length_greater_0_conv option.distinct(1) unat_gt_0 word_neq_0_conv)
qed

definition no_sentinel :: "index_entry \<Rightarrow> bool" where
  "no_sentinel entry \<longleftrightarrow> e_null_off entry \<noteq> ucast NULL_SENTINEL \<and> e_empty_off entry \<noteq> ucast NULL_SENTINEL"

definition page_wanted :: "u32 set \<Rightarrow> column \<Rightarrow> page_parts \<Rightarrow> u32 \<Rightarrow> u32 \<Rightarrow> bool" where
  "page_wanted needed col parts c kind \<longleftrightarrow>
     kind = PAGE_KIND_DATA \<or>
     (kind = PAGE_KIND_NULL \<and> c_flags col AND FLAG_NULLABLE \<noteq> 0 \<and> pp_nulls parts \<noteq> None) \<or>
     (kind = PAGE_KIND_EMPTY \<and> c \<in> needed \<and> pp_empties parts \<noteq> None)"

lemma column_pages_met:
  assumes z: "lz4_inverse compress decompress" and r: "page_readable content p entry"
    and p: "packed_page compress rows p parts" and rows: "0 < rows" and s: "no_sentinel entry"
  shows "(\<forall>req \<in> set (column_pages needed col entry c). pd_col_id req = c \<and>
      met decompress content rows req (part_of parts req)) \<and>
    pd_kind ` set (column_pages needed col entry c) = {k. page_wanted needed col parts c k}"
proof -
  note pr = r [unfolded page_readable_def] and pp = p [unfolded packed_page_def]
  have nulls: "opt_readable content (p_null_comp p) (e_null_off entry) (e_null_comp_len entry)"
    "opt_packed compress rows (p_null_comp p) (e_null_raw_len entry) (pp_nulls parts)"
    and empties: "opt_readable content (p_empty_comp p) (e_empty_off entry) (e_empty_comp_len entry)"
    "opt_packed compress rows (p_empty_comp p) (e_empty_raw_len entry) (pp_empties parts)"
    and mode: "e_empty_mode entry = EMPTY_MODE_MIXED \<longleftrightarrow> pp_empties parts \<noteq> None"
    and data: "read_exact_at_file content (unat (e_data_off entry)) (unat (e_data_comp_len entry)) =
      Ok (pack compress (pp_data parts))" "unat (e_data_raw_len entry) = length (pp_data parts)"
    using pr pp by simp_all
  note absent = opt_absent [OF z nulls rows] opt_absent [OF z empties rows]
  have met: "met decompress content rows \<lparr> pd_kind = PAGE_KIND_DATA, pd_col_id = c,
        pd_offset = e_data_off entry, pd_comp_len = e_data_comp_len entry, pd_raw_len = e_data_raw_len entry \<rparr> (pp_data parts)"
    "0 < e_null_comp_len entry \<Longrightarrow> met decompress content rows \<lparr> pd_kind = PAGE_KIND_NULL, pd_col_id = c,
        pd_offset = e_null_off entry, pd_comp_len = e_null_comp_len entry, pd_raw_len = e_null_raw_len entry \<rparr> (the (pp_nulls parts))"
    "0 < e_empty_comp_len entry \<Longrightarrow> met decompress content rows \<lparr> pd_kind = PAGE_KIND_EMPTY, pd_col_id = c,
        pd_offset = e_empty_off entry, pd_comp_len = e_empty_comp_len entry, pd_raw_len = e_empty_raw_len entry \<rparr> (the (pp_empties parts))"
    using met_packed [OF z data] opt_met [OF z nulls] opt_met [OF z empties] by blast+
  show ?thesis
    using met absent mode s
    by (auto simp: column_pages_def part_of_def page_wanted_def no_sentinel_def kind_defs)
qed

section \<open>The pages of a chunk\<close>

definition wanted_pages :: "plan \<Rightarrow> column list \<Rightarrow> index_entry list \<Rightarrow> page_desc list" where
  "wanted_pages plan schema entries =
     concat (map (\<lambda>c. column_pages (empty_needed plan) (schema ! unat c) (entries ! unat c) c)
       (plan_required_columns plan (length schema)))"

lemma required_column_less:
  assumes "c \<in> set (plan_required_columns plan n)"
  shows "unat c < n"
proof -
  obtain i where i: "c = of_nat i" "i < n" using assms by (auto simp: plan_required_columns_def Let_def)
  have "unat (of_nat i :: u32) \<le> i" by (simp add: unsigned_of_nat take_bit_nat_eq_self_iff)
  with i show ?thesis by simp
qed

lemma page_plan_wanted:
  assumes "page_plan plan rt entries = Ok ps" "ps \<noteq> [] \<or> pl_filters plan = []"
    and "length entries = length (r_schema rt)"
  shows "ps = wanted_pages plan (r_schema rt) entries"
proof -
  obtain pss where pss: "ps = concat pss" "mapR (required_column_pages plan rt entries)
      (plan_required_columns plan (length (r_schema rt))) = Ok pss"
    using assms(1,2) by (auto simp: page_plan_def split: if_splits)
  have "required_column_pages plan rt entries c =
      Ok (column_pages (empty_needed plan) (r_schema rt ! unat c) (entries ! unat c) c)"
    if "c \<in> set (plan_required_columns plan (length (r_schema rt)))" for c
    using required_column_less [OF that] assms(3) by (simp add: required_column_pages_def get_def)
  from mapR_total [where g = "\<lambda>c. column_pages (empty_needed plan) (r_schema rt ! unat c) (entries ! unat c) c", OF this] pss
  show ?thesis by (simp add: wanted_pages_def)
qed

definition put_page :: "(page_desc \<Rightarrow> bytes) \<Rightarrow> page_desc \<Rightarrow> page_maps \<Rightarrow> page_maps" where
  "put_page part req maps =
     (if pd_kind req = PAGE_KIND_DATA then maps\<lparr> data_pages := (data_pages maps)(pd_col_id req \<mapsto> part req) \<rparr>
      else if pd_kind req = PAGE_KIND_NULL then maps\<lparr> null_pages := (null_pages maps)(pd_col_id req \<mapsto> part req) \<rparr>
      else if pd_kind req = PAGE_KIND_EMPTY then maps\<lparr> empty_pages := (empty_pages maps)(pd_col_id req \<mapsto> part req) \<rparr>
      else maps)"

lemma met_all:
  assumes "\<forall>req \<in> set reqs. met decompress content rows req (part req)"
  shows "\<exists>bss. mapR (page_in_file content) reqs = Ok bss \<and>
    (\<forall>maps. foldR (deliver_page decompress rows) maps (zip reqs bss) = Ok (fold (put_page part) reqs maps))"
  using assms
proof (induction reqs)
  case (Cons req reqs)
  then obtain bss where bss: "mapR (page_in_file content) reqs = Ok bss"
    "\<forall>maps. foldR (deliver_page decompress rows) maps (zip reqs bss) = Ok (fold (put_page part) reqs maps)" by auto
  obtain bs where bs: "page_in_file content req = Ok bs"
    "unpack_page decompress bs (unat (pd_comp_len req)) (unat (pd_raw_len req)) = Ok (part req)"
    "\<not> (pd_comp_len req = 0 \<and> pd_raw_len req \<noteq> 0)" "pd_kind req = PAGE_KIND_DATA \<or> div8_ceil rows \<le> length (part req)"
    using Cons.prems by (auto simp: met_def)
  have "deliver_page decompress rows maps (req, bs) = Ok (put_page part req maps)" for maps
    using bs(2,4) unfolding deliver_page_def prod.case if_not_P [OF bs(3)] store_page_def put_page_def by auto
  with bss bs(1) show ?case by auto
qed simp

lemma fold_put_page:
  "data_pages (fold (put_page part) reqs maps) c =
     (case find (\<lambda>req. pd_kind req = PAGE_KIND_DATA \<and> pd_col_id req = c) (rev reqs) of
        Some req \<Rightarrow> Some (part req) | None \<Rightarrow> data_pages maps c)"
  "null_pages (fold (put_page part) reqs maps) c =
     (case find (\<lambda>req. pd_kind req = PAGE_KIND_NULL \<and> pd_col_id req = c) (rev reqs) of
        Some req \<Rightarrow> Some (part req) | None \<Rightarrow> null_pages maps c)"
  "empty_pages (fold (put_page part) reqs maps) c =
     (case find (\<lambda>req. pd_kind req = PAGE_KIND_EMPTY \<and> pd_col_id req = c) (rev reqs) of
        Some req \<Rightarrow> Some (part req) | None \<Rightarrow> empty_pages maps c)"
  by (induction reqs rule: rev_induct) (auto simp: put_page_def kind_defs)

text \<open>The execution gets, for every required column, what the encoder put into its page.\<close>

definition pages_delivered :: "plan \<Rightarrow> column list \<Rightarrow> page_parts list \<Rightarrow> page_maps \<Rightarrow> bool" where
  "pages_delivered plan schema parts maps \<longleftrightarrow>
     (let required = set (plan_required_columns plan (length schema)) in
      \<forall>c. data_pages maps c = (if c \<in> required then Some (pp_data (parts ! unat c)) else None) \<and>
          null_pages maps c = (if c \<in> required \<and> c_flags (schema ! unat c) AND FLAG_NULLABLE \<noteq> 0
             then pp_nulls (parts ! unat c) else None) \<and>
          empty_pages maps c = (if c \<in> required \<and> c \<in> empty_needed plan
             then pp_empties (parts ! unat c) else None))"

definition no_pages :: page_maps where
  "no_pages = \<lparr> data_pages = Map.empty, null_pages = Map.empty, empty_pages = Map.empty \<rparr>"

lemma wanted_met:
  assumes z: "lz4_inverse compress decompress" and rows: "0 < rows"
    and lens: "length entries = length schema" "length parts = length schema" "length pages = length schema"
    and r: "\<forall>i < length schema. page_readable content (pages ! i) (entries ! i)"
    and p: "\<forall>i < length schema. packed_page compress rows (pages ! i) (parts ! i)"
    and s: "\<forall>i < length schema. no_sentinel (entries ! i)"
  shows "\<forall>req \<in> set (wanted_pages plan schema entries).
      met decompress content rows req (part_of (parts ! unat (pd_col_id req)) req)"
    and "(\<exists>req \<in> set (wanted_pages plan schema entries). pd_kind req = k \<and> pd_col_id req = c) \<longleftrightarrow>
      c \<in> set (plan_required_columns plan (length schema)) \<and>
      page_wanted (empty_needed plan) (schema ! unat c) (parts ! unat c) c k"
proof -
  have col: "(\<forall>req \<in> set (column_pages (empty_needed plan) (schema ! unat c) (entries ! unat c) c).
        pd_col_id req = c \<and> met decompress content rows req (part_of (parts ! unat c) req)) \<and>
      pd_kind ` set (column_pages (empty_needed plan) (schema ! unat c) (entries ! unat c) c) =
        {k. page_wanted (empty_needed plan) (schema ! unat c) (parts ! unat c) c k}"
    if "c \<in> set (plan_required_columns plan (length schema))" for c
    by (rule column_pages_met [where p = "pages ! unat c", OF z _ _ rows]) (use r p s required_column_less [OF that] in simp_all)
  show "\<forall>req \<in> set (wanted_pages plan schema entries).
      met decompress content rows req (part_of (parts ! unat (pd_col_id req)) req)"
    using col by (auto simp: wanted_pages_def)
  show "(\<exists>req \<in> set (wanted_pages plan schema entries). pd_kind req = k \<and> pd_col_id req = c) \<longleftrightarrow>
      c \<in> set (plan_required_columns plan (length schema)) \<and>
      page_wanted (empty_needed plan) (schema ! unat c) (parts ! unat c) c k" (is "?l \<longleftrightarrow> ?r")
  proof
    assume ?l
    then obtain d req where d: "d \<in> set (plan_required_columns plan (length schema))"
      "req \<in> set (column_pages (empty_needed plan) (schema ! unat d) (entries ! unat d) d)"
      "pd_kind req = k" "pd_col_id req = c"
      by (auto simp: wanted_pages_def)
    with col [OF d(1)] show ?r by auto
  next
    assume r: ?r
    then have "k \<in> pd_kind ` set (column_pages (empty_needed plan) (schema ! unat c) (entries ! unat c) c)"
      using col by blast
    then obtain req where "pd_kind req = k"
      "req \<in> set (column_pages (empty_needed plan) (schema ! unat c) (entries ! unat c) c)" by blast
    with col r show ?l by (auto simp: wanted_pages_def)
  qed
qed

lemma wanted_delivered:
  assumes "lz4_inverse compress decompress" "0 < rows"
    and "length entries = length schema" "length parts = length schema" "length pages = length schema"
    and "\<forall>i < length schema. page_readable content (pages ! i) (entries ! i)"
    and "\<forall>i < length schema. packed_page compress rows (pages ! i) (parts ! i)"
    and "\<forall>i < length schema. no_sentinel (entries ! i)"
  shows "\<exists>bss maps. mapR (page_in_file content) (wanted_pages plan schema entries) = Ok bss \<and>
    foldR (deliver_page decompress rows) no_pages (zip (wanted_pages plan schema entries) bss) = Ok maps \<and>
    pages_delivered plan schema parts maps"
proof -
  let ?ps = "wanted_pages plan schema entries" and ?part = "\<lambda>req. part_of (parts ! unat (pd_col_id req)) req"
  let ?maps = "fold (put_page ?part) ?ps no_pages"
  note w = wanted_met [OF assms, of plan]
  have found: "(case find (\<lambda>req. pd_kind req = k \<and> pd_col_id req = c) (rev ?ps) of
        Some req \<Rightarrow> Some (?part req) | None \<Rightarrow> None) =
      (if c \<in> set (plan_required_columns plan (length schema)) \<and>
          page_wanted (empty_needed plan) (schema ! unat c) (parts ! unat c) c k
       then Some (if k = PAGE_KIND_DATA then pp_data (parts ! unat c)
         else if k = PAGE_KIND_NULL then the (pp_nulls (parts ! unat c)) else the (pp_empties (parts ! unat c)))
       else None)" for k c
  proof (cases "find (\<lambda>req. pd_kind req = k \<and> pd_col_id req = c) (rev ?ps)")
    case None
    then have "\<not> (\<exists>req \<in> set ?ps. pd_kind req = k \<and> pd_col_id req = c)" by (auto simp: find_None_iff)
    then have "\<not> (c \<in> set (plan_required_columns plan (length schema)) \<and>
        page_wanted (empty_needed plan) (schema ! unat c) (parts ! unat c) c k)"
      using w(2) [of k c] by blast
    with None show ?thesis by (simp only: option.case if_False)
  next
    case (Some req)
    then obtain i where i: "i < length (rev ?ps)" "pd_kind req = k" "pd_col_id req = c" "req = rev ?ps ! i"
      unfolding find_Some_iff by blast
    then have "req \<in> set ?ps" "pd_kind req = k" "pd_col_id req = c" using nth_mem [OF i(1)] by simp_all
    with w(2) [of k c] Some show ?thesis by (auto simp: part_of_def)
  qed
  have "pages_delivered plan schema parts ?maps"
    unfolding pages_delivered_def Let_def fold_put_page no_pages_def page_maps.simps found
    by (auto simp: page_wanted_def kind_defs)
  with met_all [OF w(1)] show ?thesis by blast
qed

text \<open>A chunk of the file whose pages the encoder packed, and its index entries.\<close>

definition chunk_stored ::
  "(bytes \<Rightarrow> bytes) \<Rightarrow> bytes \<Rightarrow> nat \<Rightarrow> column_page list \<Rightarrow> page_parts list \<Rightarrow> index_entry list \<Rightarrow> bool" where
  "chunk_stored compress content rows pages parts entries \<longleftrightarrow>
     list_all2 (page_readable content) pages entries \<and> list_all2 (packed_page compress rows) pages parts"

lemma encoded_packed:
  assumes "encode_column_page compress col buffer rows = Ok p"
    and "\<And>raw. encode_data compress col buffer rows = Ok raw \<Longrightarrow> length raw < 2 ^ 32"
    and "rows < 2 ^ 32"
  shows "\<exists>parts. packed_page compress rows p parts"
proof -
  have of_len: "unat (of_nat n :: u32) = n" if "n < 2 ^ 32" for n using that by (simp add: unat_of_nat32)
  have bits: "length bm = div8_ceil rows \<and> unat (of_nat (div8_ceil rows) :: u32) = div8_ceil rows"
    if "bitmap_prefix b rows = Ok bm" for b bm
    using that of_len [of "div8_ceil rows"] assms(3) by (auto simp: bitmap_prefix_def div8_ceil_def split: if_splits)
  obtain raw nl nc em ec el ecomp where
    e: "encode_data compress col buffer rows = Ok raw" "encode_nulls compress col buffer rows = Ok (nl, nc)"
      "encode_empties compress col buffer rows = Ok (em, ec, el, ecomp)"
    and p: "p_data_comp p = pack compress raw" "p_data_raw_len p = of_nat (length raw)" "p_null_comp p = nc"
      "p_null_raw_len p = nl" "p_empty_comp p = ecomp" "p_empty_raw_len p = el" "p_empty_mode p = em"
    using assms(1) unfolding encode_column_page_def by (auto split: prod.splits)
  have nulls: "\<exists>b. opt_packed compress rows nc nl b"
  proof (cases nc)
    case None
    then show ?thesis by (intro exI [of _ None]) (simp add: opt_packed_def)
  next
    case (Some v)
    then obtain bm where bm: "bitmap_prefix (b_nulls buffer) rows = Ok bm" "v = pack compress bm"
      "nl = of_nat (length bm)"
      using e(2) by (auto simp: encode_nulls_def split: if_splits)
    with Some bits [OF bm(1)] show ?thesis by (intro exI [of _ "Some bm"]) (simp add: opt_packed_def)
  qed
  have empties: "\<exists>b. opt_packed compress rows ecomp el b \<and> (em = EMPTY_MODE_MIXED \<longleftrightarrow> b \<noteq> None)"
  proof (cases "ecomp")
    case None
    then have "em \<noteq> EMPTY_MODE_MIXED" using e(3)
      by (auto simp: encode_empties_def Let_def EMPTY_MODE_ALL_ZERO_def EMPTY_MODE_ALL_ONE_def
          EMPTY_MODE_MIXED_def split: if_splits)
    with None show ?thesis by (intro exI [of _ None]) (simp add: opt_packed_def)
  next
    case (Some v)
    then obtain bm where bm: "bitmap_prefix (b_empties buffer) rows = Ok bm" "v = pack compress bm"
      "el = of_nat (length bm)" "em = EMPTY_MODE_MIXED"
      using e(3) by (auto simp: encode_empties_def Let_def split: if_splits)
    with Some bits [OF bm(1)] show ?thesis by (intro exI [of _ "Some bm"]) (simp add: opt_packed_def)
  qed
  obtain b1 b2 where "opt_packed compress rows nc nl b1" "opt_packed compress rows ecomp el b2"
    "em = EMPTY_MODE_MIXED \<longleftrightarrow> b2 \<noteq> None" using nulls empties by blast
  then have "packed_page compress rows p \<lparr> pp_data = raw, pp_nulls = b1, pp_empties = b2 \<rparr>"
    using p of_len assms(2) [OF e(1)] by (simp add: packed_page_def)
  then show ?thesis ..
qed

lemma requested_wanted:
  assumes "required_pages decompress plans rh ph header chunk_id index_bytes (pl_filters plan \<noteq> []) rts =
      Some (Ok (Requests reqs), rts')"
    and "plans ph = Some plan" "rts rh = Some rt" "pl_runtime plan = rh"
    and "decompress index_bytes (unat (i_ncols header) * INDEX_ENTRY_BYTES) = Some raw"
    and "parse_chunk_index raw (length (r_schema rt)) = Ok entries" "length entries = length (r_schema rt)"
  shows "reqs = wanted_pages plan (r_schema rt) entries"
    and "rts' = rts(rh \<mapsto> rt\<lparr> r_index_cache := (r_index_cache rt)(chunk_id \<mapsto> entries) \<rparr>)"
proof -
  let ?len = "unat (i_ncols header) * INDEX_ENTRY_BYTES"
  obtain r rts1 where pl1: "plan_chunk_pages decompress rts plans rh ph chunk_id index_bytes ?len = (r, rts1)"
    by (cases "plan_chunk_pages decompress rts plans rh ph chunk_id index_bytes ?len")
  with required_pages_ok [OF pl1, of "pl_filters plan \<noteq> []"] assms(1)
  have pl: "plan_chunk_pages decompress rts plans rh ph chunk_id index_bytes ?len = (r, rts')"
    "bindR r (\<lambda>ps. Ok (if ps = [] \<and> pl_filters plan \<noteq> [] then Skip else Requests ps)) = Ok (Requests reqs)"
    by simp_all
  then have r: "r = Ok reqs" "reqs \<noteq> [] \<or> pl_filters plan = []" by (auto split: if_splits)
  with pl(1) assms(2-6) have "page_plan plan rt entries = Ok reqs"
    and rts': "rts' = rts(rh \<mapsto> rt\<lparr> r_index_cache := (r_index_cache rt)(chunk_id \<mapsto> entries) \<rparr>)"
    by (auto simp: plan_chunk_pages_def Let_def split: if_splits option.splits)
  from page_plan_wanted [OF this(1) r(2) assms(7)] rts' show
    "reqs = wanted_pages plan (r_schema rt) entries"
    "rts' = rts(rh \<mapsto> rt\<lparr> r_index_cache := (r_index_cache rt)(chunk_id \<mapsto> entries) \<rparr>)" by simp_all
qed

end
