(* ===== verification/Chunk_Skip.thy ===== *)
theory Chunk_Skip
  imports Page_Request_Facts
begin

text \<open>
  Skipping is sound: when the planner of pages rules a chunk out from its index entries, the
  filters of \<^const>\<open>plan_exec_chunk\<close> on the pages of the chunk would select no row. The masks of
  the execution are described by the statuses of the planner, filter by filter.
\<close>

section \<open>Masks keep their length\<close>

lemma foldR_mask:
  "(\<And>m x m'. f m x = Ok m' \<Longrightarrow> is_mask m \<Longrightarrow> is_mask m') \<Longrightarrow> foldR f m xs = Ok m' \<Longrightarrow> is_mask m \<Longrightarrow> is_mask m'"
  by (induction xs arbitrary: m) auto

lemma bit_masks:
  "set_bit_at m i = Ok m' \<Longrightarrow> is_mask m \<Longrightarrow> is_mask m'"
  "clear_mask_bit m i = Ok m' \<Longrightarrow> is_mask m \<Longrightarrow> is_mask m'"
  by (auto simp: set_bit_at_def clear_mask_bit_def is_mask_def)

lemma clear_tail_mask: "clear_tail m rows = Ok m' \<Longrightarrow> is_mask m \<Longrightarrow> is_mask m'"
  by (auto simp: clear_tail_def zero_from_def is_mask_def Let_def split: if_splits)

lemma full_mask_mask: "full_mask rows = Ok m \<Longrightarrow> is_mask m"
  unfolding full_mask_def by (erule clear_tail_mask) (simp only: is_mask_def length_replicate)

lemma fill_words_length: "fill_words src idx w dst = Ok dst' \<Longrightarrow> length dst' = length dst"
proof (induction src idx w dst rule: fill_words.induct)
  case (1 src idx w dst)
  show ?case
  proof (cases "length src \<le> idx")
    case True
    with 1(2) show ?thesis by (simp add: fill_words.simps)
  next
    case False
    define d where "d = dst[w := from_le32 (slice src idx (idx + min (length src - idx) 4) @
      replicate (4 - min (length src - idx) 4) 0)]"
    have "fill_words src (idx + min (length src - idx) 4) (w + 1) d = Ok dst'"
      using 1(2) False by (subst (asm) fill_words.simps) (simp add: d_def Let_def)
    from 1(1) [OF False refl refl this [unfolded d_def]] show ?thesis by simp
  qed
qed

lemma bitmap_gives_mask: "mask_from_bitmap bm rows = Ok (Some m) \<Longrightarrow> is_mask m"
  by (auto simp: mask_from_bitmap_def is_mask_def Let_def dest!: fill_words_length split: if_splits)

lemma validity_mask: "maybe_apply_validity_mask m nulls rows = Ok m' \<Longrightarrow> is_mask m \<Longrightarrow> is_mask m'"
  by (auto simp: maybe_apply_validity_mask_def is_mask_def dest!: bitmap_gives_mask split: option.splits if_splits)

lemma like_mask: "decode_raw_string_like_mask raw rows pattern negated = Ok m \<Longrightarrow> is_mask m"
proof -
  have step: "is_mask m'" if "like_row_step p found negated m x = Ok m'" "is_mask m" for p found m x m'
    using that bit_masks by (auto simp: like_row_step_def split: if_splits)
  have words: "is_mask (replicate MASK_WORDS w)" for w by (simp only: is_mask_def length_replicate)
  assume m: "decode_raw_string_like_mask raw rows pattern negated = Ok m"
  show "is_mask m"
  proof (cases "pattern = []")
    case True
    with m obtain m0 where "clear_tail m0 rows = Ok m" "is_mask m0"
      using words by (auto simp: decode_raw_string_like_mask_def Let_def split: if_splits)
    then show ?thesis by (rule clear_tail_mask)
  next
    case False
    with m obtain p found m0 where m0: "clear_tail m0 (sp_rows p) = Ok m"
      "foldR (like_row_step p found negated) (replicate MASK_WORDS (if negated then 0xffffffff else 0))
         [0..<sp_rows p] = Ok m0"
      by (auto simp: decode_raw_string_like_mask_def Let_def split_beta if_distrib [of "replicate _"]
          split: if_splits)
    show ?thesis by (rule clear_tail_mask [OF m0(1) foldR_mask [OF step m0(2) words]])
  qed
qed

lemma mask_op_masks: "is_mask a \<Longrightarrow> is_mask b \<Longrightarrow> is_mask (mask_and a b)" "is_mask a \<Longrightarrow> is_mask (mask_not a)"
  "is_mask empty_mask"
  by (simp_all only: is_mask_def length_mask_ops empty_mask_def length_replicate)

lemma empty_string_mask_mask:
  assumes "build_empty_string_mask entry col fl rows e n = Ok (Some m)"
  shows "is_mask m" and "fl_value_str fl \<noteq> None"
proof -
  show "fl_value_str fl \<noteq> None" using assms by (auto simp: build_empty_string_mask_def split: if_splits)
  have mode_neq: "EMPTY_MODE_MIXED = EMPTY_MODE_ALL_ZERO \<longleftrightarrow> False" "EMPTY_MODE_MIXED = EMPTY_MODE_ALL_ONE \<longleftrightarrow> False"
    "EMPTY_MODE_MIXED = EMPTY_MODE_MIXED \<longleftrightarrow> True"
    by (simp_all add: EMPTY_MODE_MIXED_def EMPTY_MODE_ALL_ZERO_def EMPTY_MODE_ALL_ONE_def)
  note def = assms [unfolded build_empty_string_mask_def]
  show "is_mask m"
  proof (cases "e_empty_mode entry = EMPTY_MODE_MIXED")
    case False
    with def show ?thesis using mask_op_masks(3)
      by (auto split: if_splits option.splits dest: full_mask_mask bitmap_gives_mask)
  next
    case True
    let ?body = "\<lambda>em. if fl_op fl = OP_EQ then Ok (Some em)
         else if 0 < e_null_raw_len entry then
           (case n of None \<Rightarrow> Ok None
            | Some nulls \<Rightarrow> bindR (mask_from_bitmap nulls rows) (\<lambda>v. case v of
                None \<Rightarrow> Ok None | Some v \<Rightarrow> Ok (Some (mask_and v (mask_not em)))))
         else bindR (full_mask rows) (\<lambda>full. Ok (Some (mask_and full (mask_not em))))"
    obtain eb where "e = Some eb" using def True by (cases e) (simp_all add: mode_neq split: if_split_asm)
    with def True have "bindR (mask_from_bitmap eb rows) (\<lambda>em. case em of None \<Rightarrow> Ok None | Some em \<Rightarrow> ?body em) =
        Ok (Some m)"
      unfolding True mode_neq if_False if_True by (simp only: option.case sum.inject option.distinct simp_thms if_False if_True split: if_split_asm)
    then obtain v where "mask_from_bitmap eb rows = Ok v"
      "(case v of None \<Rightarrow> Ok None | Some em \<Rightarrow> ?body em) = Ok (Some m)" unfolding bindR_eq_Ok by blast
    then obtain em where em: "mask_from_bitmap eb rows = Ok (Some em)" and m: "?body em = Ok (Some m)"
      by (cases v) simp_all
    show ?thesis
    proof (cases n)
      case None
      with m em show ?thesis
        by (auto split: if_split_asm intro!: mask_op_masks dest: full_mask_mask bitmap_gives_mask)
    next
      case (Some nulls)
      with m em show ?thesis
        by (auto split: if_split_asm option.split_asm intro!: mask_op_masks dest: full_mask_mask bitmap_gives_mask)
    qed
  qed
qed

lemma filter_pipeline_mask:
  assumes "build_filter_mask_pipeline col data fl rows rt nulls = Ok m"
  shows "is_mask m"
proof -
  obtain m1 where m1: "build_filter_mask col data fl rows rt = Ok m1"
    "maybe_apply_validity_mask m1 nulls rows = Ok m"
    using assms by (auto simp: build_filter_mask_pipeline_def)
  have "is_mask m1" using m1(1)
    by (auto simp: build_filter_mask_def build_like_mask_ids_def build_like_mask_def
        split: if_splits option.splits column_data.splits
        dest: set_rows_is_mask single_mask_is_mask in_list_is_mask)
  with m1(2) show ?thesis by (rule validity_mask)
qed

section \<open>The filters of a chunk\<close>

definition page_nulls :: "page_maps \<Rightarrow> nat \<Rightarrow> column \<Rightarrow> u32 \<Rightarrow> bytes option" where
  "page_nulls pages rows col c =
     (if c_flags col AND FLAG_NULLABLE \<noteq> 0 then nullable_row_bitmap (null_pages pages c) rows else None)"

definition exec_ok :: "page_maps \<Rightarrow> nat \<Rightarrow> exec_state \<Rightarrow> bool" where
  "exec_ok pages rows ex \<longleftrightarrow>
     coherent (ex_nulls ex) \<and> nb_null_pages (ex_nulls ex) = null_pages pages \<and> nb_rows (ex_nulls ex) = rows"

text \<open>The planner looks at the statistics of the column for these filters only.\<close>

definition by_statistics :: "column \<Rightarrow> filter_spec \<Rightarrow> bool" where
  "by_statistics col fl \<longleftrightarrow> c_physical col \<noteq> TYPE_STRING \<and> \<not> is_like fl \<and>
     fl_value_str fl = None \<and> fl_in_list_str fl = None"

lemma fail_with_Ok [simp]: "fail_with c r = Ok x \<longleftrightarrow> r = Ok x"
  by (cases r) (auto simp: fail_with_def split: error.splits)

lemma decode_column_keeps:
  assumes "decode_column ids col raw rows ex = Ok ex'"
  shows "ex_decoded ex \<subseteq>\<^sub>m ex_decoded ex'" "ex_nulls ex' = ex_nulls ex" "ex_plan ex' = ex_plan ex"
  using assms
  by (auto simp: decode_column_def ensure_decoded_def Let_def map_le_def dom_def split: if_splits)

lemma decoded_mask_ok:
  assumes "decoded_filter_mask ids pages rows ex col fl = Ok (m, ex')" "exec_ok pages rows ex"
  shows "exec_ok pages rows ex'" "ex_decoded ex \<subseteq>\<^sub>m ex_decoded ex'" "ex_plan ex' = ex_plan ex" "is_mask m"
    and "by_statistics col fl \<Longrightarrow> \<exists>data rt. ex_decoded ex' (fl_col_id fl) = Some data \<and>
      build_filter_mask_pipeline col data fl rows rt (page_nulls pages rows col (fl_col_id fl)) = Ok m"
proof -
  let ?c = "fl_col_id fl"
  obtain raw ex1 data nulls nc where d: "decode_column ids col raw rows ex = Ok ex1" "ex_decoded ex1 ?c = Some data"
    "nulls_of col (ex_nulls ex1) ?c = (nulls, nc)" "ex' = ex1\<lparr> ex_nulls := nc \<rparr>"
    and m: "build_filter_mask_pipeline col data (resolve_deferred_filter fl col (ex_runtime ex1)) rows
      (Some (ex_runtime ex1)) nulls = Ok m"
    using assms(1) by (auto simp: decoded_filter_mask_def Let_def split_beta prod_eq_iff)
  note k = decode_column_keeps [OF d(1)]
  have "coherent (ex_nulls ex1)" using assms(2) k by (simp add: exec_ok_def)
  note n = nulls_of_coherent [OF this d(3)]
  show "exec_ok pages rows ex'" "ex_decoded ex \<subseteq>\<^sub>m ex_decoded ex'" "ex_plan ex' = ex_plan ex" "is_mask m"
    using assms(2) k n d(4) filter_pipeline_mask [OF m] by (simp_all add: exec_ok_def)
  assume "by_statistics col fl"
  then have "resolve_deferred_filter fl col (ex_runtime ex1) = fl"
    by (auto simp: by_statistics_def is_like_def resolve_deferred_filter_def split: option.splits)
  moreover have "nulls = page_nulls pages rows col ?c"
    using n(4) assms(2) k by (simp add: page_nulls_def exec_ok_def)
  ultimately show "\<exists>data rt. ex_decoded ex' ?c = Some data \<and>
      build_filter_mask_pipeline col data fl rows rt (page_nulls pages rows col ?c) = Ok m"
    using m d(2,4) by (intro exI [of _ data] exI [of _ "Some (ex_runtime ex1)"]) simp
qed

lemma apply_col_nulls_ok:
  assumes "apply_col_nulls ex col c m = Ok (m', ex')" "exec_ok pages rows ex" "is_mask m"
  shows "exec_ok pages rows ex'" "ex_decoded ex' = ex_decoded ex" "ex_plan ex' = ex_plan ex" "is_mask m'"
proof -
  have co: "coherent (ex_nulls ex)" using assms(2) by (simp add: exec_ok_def)
  obtain b nc where f: "for_col (ex_nulls ex) c = (b, nc)" by fastforce
  note n = for_col_coherent [OF co f]
  obtain b2 nc2 where f2: "for_col nc c = (b2, nc2)" by fastforce
  note n2 = for_col_coherent [OF n(1) f2]
  have "exec_ok pages rows ex' \<and> ex_decoded ex' = ex_decoded ex \<and> ex_plan ex' = ex_plan ex \<and> is_mask m'"
    using assms n n2 f f2
    by (auto simp: apply_col_nulls_def apply_to_mask_def exec_ok_def dest: validity_mask split: if_splits)
  then show "exec_ok pages rows ex'" "ex_decoded ex' = ex_decoded ex" "ex_plan ex' = ex_plan ex" "is_mask m'"
    by simp_all
qed

lemma filter_chunk_mask_ok:
  assumes f: "filter_chunk_mask ids schema pages rows chunk_id ex fl = Ok (m, fl', ex')"
    and ex: "exec_ok pages rows ex"
  shows "exec_ok pages rows ex' \<and> ex_decoded ex \<subseteq>\<^sub>m ex_decoded ex' \<and> ex_plan ex' = ex_plan ex \<and> is_mask m \<and>
    (\<exists>col. get schema (unat (fl_col_id fl)) = Some col \<and>
      (by_statistics col fl \<longrightarrow> (\<exists>data rt. ex_decoded ex' (fl_col_id fl) = Some data \<and>
        build_filter_mask_pipeline col data fl rows rt (page_nulls pages rows col (fl_col_id fl)) = Ok m)))"
proof -
  obtain col where col: "get schema (unat (fl_col_id fl)) = Some col"
    using f by (auto simp: filter_chunk_mask_def)
  let ?fl = "if c_flags col AND FLAG_DICT \<noteq> 0 then resolve_like_ids fl col (ex_runtime ex) else fl"
  have same: "?fl = fl" if "\<not> is_like fl"
    using that by (simp add: resolve_like_ids_def is_like_def)
  have like: "is_like ?fl = is_like fl" "fl_col_id ?fl = fl_col_id fl"
    by (auto simp: resolve_like_ids_def is_like_def Let_def split: option.splits)
  have "bindR (empty_string_mask pages rows chunk_id ex col ?fl) (\<lambda>empty.
      bindR (case empty of Some msk \<Rightarrow> Ok (msk, ex)
        | None \<Rightarrow> if is_like ?fl \<and> c_logical col = TYPE_STRING \<and> c_flags col AND FLAG_DICT = 0
            then raw_like_mask pages rows ex ?fl else decoded_filter_mask ids pages rows ex col ?fl) (\<lambda>(msk, ex1).
      bindR (if is_like ?fl then apply_col_nulls ex1 col (fl_col_id ?fl) msk else Ok (msk, ex1))
        (\<lambda>(msk, ex1). Ok (msk, ?fl, ex1)))) = Ok (m, fl', ex')"
    using f unfolding filter_chunk_mask_def col of_option_simps bindR_simps Let_def .
  then obtain empty m1 ex1 where e: "empty_string_mask pages rows chunk_id ex col ?fl = Ok empty"
    and m1: "(case empty of Some msk \<Rightarrow> Ok (msk, ex)
        | None \<Rightarrow> if is_like ?fl \<and> c_logical col = TYPE_STRING \<and> c_flags col AND FLAG_DICT = 0
            then raw_like_mask pages rows ex ?fl else decoded_filter_mask ids pages rows ex col ?fl) = Ok (m1, ex1)"
    and m2: "(if is_like ?fl then apply_col_nulls ex1 col (fl_col_id ?fl) m1 else Ok (m1, ex1)) = Ok (m, ex')"
    by (simp only: bindR_eq_Ok) (elim exE conjE, simp only: split_paired_all prod.case bindR_eq_Ok, auto)
  have step1: "exec_ok pages rows ex1 \<and> ex_decoded ex \<subseteq>\<^sub>m ex_decoded ex1 \<and> ex_plan ex1 = ex_plan ex \<and> is_mask m1 \<and>
      (by_statistics col fl \<longrightarrow> (\<exists>data rt. ex_decoded ex1 (fl_col_id fl) = Some data \<and>
        build_filter_mask_pipeline col data fl rows rt (page_nulls pages rows col (fl_col_id fl)) = Ok m1))"
  proof (cases empty)
    case (Some msk)
    then obtain entry where "build_empty_string_mask entry col ?fl rows (empty_pages pages (fl_col_id ?fl))
        (null_pages pages (fl_col_id ?fl)) = Ok (Some msk)"
      using e by (auto simp: empty_string_mask_def split: option.splits)
    from empty_string_mask_mask [OF this] have "is_mask msk" "fl_value_str ?fl \<noteq> None" by simp_all
    moreover from this(2) have "\<not> by_statistics col fl" using same by (auto simp: by_statistics_def)
    ultimately show ?thesis using Some m1 ex by simp
  next
    case None
    show ?thesis
    proof (cases "is_like ?fl \<and> c_logical col = TYPE_STRING \<and> c_flags col AND FLAG_DICT = 0")
      case True
      have "raw_like_mask pages rows ex ?fl = Ok (m1, ex1)"
        using m1 unfolding None option.case if_P [OF True] .
      then have "is_mask m1" "ex1 = ex" by (auto simp: raw_like_mask_def dest: like_mask)
      then show ?thesis using ex True like(1) by (simp add: by_statistics_def)
    next
      case False
      have d: "decoded_filter_mask ids pages rows ex col ?fl = Ok (m1, ex1)"
        using m1 unfolding None option.case if_not_P [OF False] .
      note dm = decoded_mask_ok [OF d ex]
      have "\<exists>data rt. ex_decoded ex1 (fl_col_id fl) = Some data \<and>
          build_filter_mask_pipeline col data fl rows rt (page_nulls pages rows col (fl_col_id fl)) = Ok m1"
        if st: "by_statistics col fl"
      proof -
        have eq: "?fl = fl" using same st by (simp add: by_statistics_def)
        show ?thesis using dm(5) st unfolding eq .
      qed
      with dm(1-4) show ?thesis by blast
    qed
  qed
  show ?thesis
  proof (cases "is_like fl")
    case True
    then have a: "apply_col_nulls ex1 col (fl_col_id ?fl) m1 = Ok (m, ex')" using m2 like(1) by (simp only: if_True)
    note an = apply_col_nulls_ok [OF a conjunct1 [OF step1]]
    from step1 an True col show ?thesis by (simp add: by_statistics_def)
  next
    case False
    then have "m = m1" "ex' = ex1" using m2 like(1) by simp_all
    with step1 col show ?thesis by simp
  qed
qed

text \<open>The mask of every filter, once all of them have run.\<close>

definition mask_of_filter ::
  "column list \<Rightarrow> page_maps \<Rightarrow> nat \<Rightarrow> exec_state \<Rightarrow> filter_spec \<Rightarrow> mask \<Rightarrow> bool" where
  "mask_of_filter schema pages rows ex fl m \<longleftrightarrow> is_mask m \<and>
     (\<exists>col. get schema (unat (fl_col_id fl)) = Some col \<and>
       (by_statistics col fl \<longrightarrow> (\<exists>data rt. ex_decoded ex (fl_col_id fl) = Some data \<and>
          build_filter_mask_pipeline col data fl rows rt (page_nulls pages rows col (fl_col_id fl)) = Ok m)))"

lemma mask_of_filter_mono:
  "mask_of_filter schema pages rows ex fl m \<Longrightarrow> ex_decoded ex \<subseteq>\<^sub>m ex_decoded ex' \<Longrightarrow>
     mask_of_filter schema pages rows ex' fl m"
  unfolding mask_of_filter_def by (metis domI map_le_def)

lemma filter_steps:
  assumes "foldR (filter_step ids schema pages rows chunk_id) ([], ex0) [0..<k] = Ok (masks, ex)"
    and "exec_ok pages rows ex0" "fls = pl_filters (ex_plan ex0)" "k \<le> length fls"
  shows "exec_ok pages rows ex \<and> length masks = k \<and> length (pl_filters (ex_plan ex)) = length fls \<and>
    pl_combine (ex_plan ex) = pl_combine (ex_plan ex0) \<and>
    (\<forall>i < length fls. k \<le> i \<longrightarrow> pl_filters (ex_plan ex) ! i = fls ! i) \<and>
    (\<forall>i < k. mask_of_filter schema pages rows ex (fls ! i) (masks ! i))"
  using assms
proof (induction k arbitrary: masks ex)
  case (Suc k)
  then obtain masks1 ex1 where k: "foldR (filter_step ids schema pages rows chunk_id) ([], ex0) [0..<k] = Ok (masks1, ex1)"
    and step: "filter_step ids schema pages rows chunk_id (masks1, ex1) k = Ok (masks, ex)" by auto
  note IH = Suc.IH [OF k Suc.prems(2,3)]
  have len: "k < length fls" "k \<le> length fls" using Suc.prems(4) by simp_all
  note IH = IH [OF len(2)]
  then have fl: "pl_filters (ex_plan ex1) ! k = fls ! k" "length (pl_filters (ex_plan ex1)) = length fls"
    "exec_ok pages rows ex1" "length masks1 = k" "pl_combine (ex_plan ex1) = pl_combine (ex_plan ex0)" using len by auto
  obtain m fl' ex2 where f: "filter_chunk_mask ids schema pages rows chunk_id ex1 (fls ! k) = Ok (m, fl', ex2)"
    and res: "masks = masks1 @ [m]" "ex = ex2\<lparr> ex_plan := (ex_plan ex2)\<lparr> pl_filters := (pl_filters (ex_plan ex2))[k := fl'] \<rparr> \<rparr>"
    using step fl(1) by (auto simp: filter_step_def Let_def)
  note ok = filter_chunk_mask_ok [OF f fl(3)]
  have dec: "ex_decoded ex = ex_decoded ex2" "ex_decoded ex1 \<subseteq>\<^sub>m ex_decoded ex" using res ok by simp_all
  have "mask_of_filter schema pages rows ex (fls ! i) (masks ! i)" if "i < Suc k" for i
  proof (cases "i = k")
    case True
    with ok res fl(4) dec(1) show ?thesis by (simp add: mask_of_filter_def nth_append)
  next
    case False
    then have "mask_of_filter schema pages rows ex1 (fls ! i) (masks1 ! i)" using IH that by simp
    with mask_of_filter_mono [OF _ dec(2)] False that fl(4) res(1) show ?thesis by (simp add: nth_append)
  qed
  with ok res fl IH show ?case by (simp add: exec_ok_def)
qed (simp add: exec_ok_def)

section \<open>A chunk that is ruled out\<close>

text \<open>The entries agree with the pages: their statistics hold of the decoded columns. The planner
  looks at the statistics for the filters \<^const>\<open>by_statistics\<close>, and these must be comparable.\<close>

definition entries_agree ::
  "runtime \<Rightarrow> page_maps \<Rightarrow> nat \<Rightarrow> index_entry list \<Rightarrow> exec_state \<Rightarrow> filter_spec list \<Rightarrow> bool" where
  "entries_agree rt pages rows entries ex fls \<longleftrightarrow>
     (\<forall>fl \<in> set fls. \<forall>col entry data.
        get (r_schema rt) (unat (fl_col_id fl)) = Some col \<longrightarrow> get entries (unat (fl_col_id fl)) = Some entry \<longrightarrow>
        by_statistics col fl \<longrightarrow> ex_decoded ex (fl_col_id fl) = Some data \<longrightarrow>
        statistics_hold col data entry (page_nulls pages rows col (fl_col_id fl)) rt rows)"

definition filters_comparable :: "runtime \<Rightarrow> nat \<Rightarrow> exec_state \<Rightarrow> filter_spec list \<Rightarrow> bool" where
  "filters_comparable rt rows ex fls \<longleftrightarrow>
     (\<forall>fl \<in> set fls. \<forall>col data.
        get (r_schema rt) (unat (fl_col_id fl)) = Some col \<longrightarrow> by_statistics col fl \<longrightarrow>
        ex_decoded ex (fl_col_id fl) = Some data \<longrightarrow> filter_comparable col data fl rows)"

lemma status_describes:
  assumes "rows \<le> ROWS_PER_CHUNK" "mask_of_filter (r_schema rt) pages rows ex fl m"
    and "filter_status rt entries fl = Ok p" "entries_agree rt pages rows entries ex fls"
    and "filters_comparable rt rows ex fls" "fl \<in> set fls"
  shows "describes rows p m"
proof -
  obtain col entry where c: "get (r_schema rt) (unat (fl_col_id fl)) = Some col"
    "get entries (unat (fl_col_id fl)) = Some entry" "p = filter_possible fl col entry rt"
    using assms(3) by (auto simp: filter_status_def)
  have m: "is_mask m" "by_statistics col fl \<Longrightarrow> \<exists>data rt. ex_decoded ex (fl_col_id fl) = Some data \<and>
      build_filter_mask_pipeline col data fl rows rt (page_nulls pages rows col (fl_col_id fl)) = Ok m"
    using assms(2) c(1) by (auto simp: mask_of_filter_def)
  show ?thesis
  proof (cases "by_statistics col fl")
    case True
    then obtain data rt0 where d: "ex_decoded ex (fl_col_id fl) = Some data"
      "build_filter_mask_pipeline col data fl rows rt0 (page_nulls pages rows col (fl_col_id fl)) = Ok m"
      using m(2) by blast
    have "statistics_hold col data entry (page_nulls pages rows col (fl_col_id fl)) rt rows"
      using assms(4,6) c(1,2) True d(1) unfolding entries_agree_def by blast
    moreover have "filter_comparable col data fl rows"
      using assms(5,6) c(1) True d(1) unfolding filters_comparable_def by blast
    ultimately have "entry_ok col data entry (page_nulls pages rows col (fl_col_id fl)) fl rt rows"
      by (rule entry_okI)
    from filter_describes [OF assms(1) this d(2)] c(3) show ?thesis by simp
  next
    case False
    then have "p = unknown" using c(3) by (auto simp: by_statistics_def is_like_def filter_possible_def)
    with m(1) show ?thesis by simp
  qed
qed

lemma no_bits_zero:
  assumes "is_mask m" "\<forall>r. \<not> mask_bit m r" shows "mask_is_zero m"
proof -
  have "m ! i = 0" if "i < length m" for i
  proof (rule bit_word_eqI)
    fix n :: nat assume "n < LENGTH(32)"
    then show "bit (m ! i) n = bit (0 :: u32) n"
      using assms(2) [rule_format, of "32 * i + n"] that by (simp add: mask_bit_def)
  qed
  then show ?thesis by (simp add: mask_is_zero_def list_all_length)
qed

lemma impossible_no_rows:
  assumes rows: "rows \<le> ROWS_PER_CHUNK" and d: "list_all2 (describes rows) statuses masks"
    and no: "\<not> chunk_possible plan statuses" "masks \<noteq> []"
    and m0: "combine_chunk_masks plan masks rows = Ok m0"
  shows "is_mask m0 \<and> (\<forall>r < rows. \<not> mask_bit m0 r)"
proof (cases "pl_combine plan = []")
  case True
  have masks: "\<forall>m \<in> set masks. is_mask m"
    using d by (auto simp: list_all2_conv_all_nth in_set_conv_nth describes_def)
  obtain i where i: "i < length statuses" "\<not> maybe_true (statuses ! i)"
    using no(1) True by (auto simp: chunk_possible_def list_all_length)
  then have "\<forall>r < rows. \<not> mask_bit (masks ! i) r" "masks ! i \<in> set masks"
    using d by (auto simp: list_all2_conv_all_nth describes_def)
  moreover obtain x xs where "masks = x # xs" using no(2) by (cases masks) auto
  ultimately show ?thesis using foldl_and_ok [of x xs] masks m0 True by (auto simp: combine_chunk_masks_def)
next
  case False
  then obtain p where p: "eval_possible (pl_combine plan) statuses = Some p" "\<not> maybe_true p"
    using no(1) by (auto simp: chunk_possible_def split: option.splits)
  have "combine_masks (pl_combine plan) masks = Ok m0"
    using m0 False no(2) by (simp add: combine_chunk_masks_def)
  from eval_possible_describes [OF rows d this p(1)] p(2) show ?thesis by (simp add: describes_def)
qed

lemma filters_no_rows:
  assumes rows: "rows \<le> ROWS_PER_CHUNK"
    and run: "foldR (filter_step ids (r_schema rt) pages rows chunk_id) ([], ex0) [0..<length (pl_filters plan)] = Ok (masks, ex)"
    and ex0: "exec_ok pages rows ex0" "ex_plan ex0 = plan"
    and st: "mapR (filter_status rt entries) (pl_filters plan) = Ok statuses" "pl_filters plan \<noteq> []"
      "\<not> chunk_possible plan statuses"
    and agree: "entries_agree rt pages rows entries ex (pl_filters plan)"
      "filters_comparable rt rows ex (pl_filters plan)"
    and m0: "combine_chunk_masks (ex_plan ex) masks rows = Ok m0" "clear_tail m0 rows = Ok m"
  shows "mask_is_zero m"
proof -
  have fs: "length masks = length (pl_filters plan)" "pl_combine (ex_plan ex) = pl_combine plan"
    "\<forall>i < length (pl_filters plan). mask_of_filter (r_schema rt) pages rows ex (pl_filters plan ! i) (masks ! i)"
    using filter_steps [OF run ex0(1), of "pl_filters plan"] ex0(2) by auto
  have "list_all2 (describes rows) statuses masks"
    unfolding list_all2_conv_all_nth
  proof (intro conjI allI impI)
    show "length statuses = length masks" using mapR_length [OF st(1)] fs(1) by simp
    fix i assume "i < length statuses"
    then have i: "i < length (pl_filters plan)" using mapR_length [OF st(1)] by simp
    from fs(3) i mapR_nth [OF st(1) i] agree show "describes rows (statuses ! i) (masks ! i)"
      by (intro status_describes [OF rows]) auto
  qed
  moreover have "masks \<noteq> []" using fs(1) st(2) by auto
  moreover have "\<not> chunk_possible (ex_plan ex) statuses" using st(3) unfolding chunk_possible_def fs(2) .
  ultimately have z: "is_mask m0" "\<forall>r < rows. \<not> mask_bit m0 r"
    using impossible_no_rows [OF rows] m0(1) by blast+
  from clear_tail_ok [OF z(1), of rows] m0(2) have "is_mask m" "\<forall>r. mask_bit m r \<longleftrightarrow> r < rows \<and> mask_bit m0 r"
    by auto
  with z(2) show ?thesis by (intro no_bits_zero) auto
qed

end
