(* ===== verification/Page_Properties.thy ===== *)
theory Page_Properties
  imports Page_Delivery Chunk_Skip Plan_Invariant Samples
begin

text \<open>
  Properties of the page requests: the loop that asks for pages ends, what the encoder packed
  reaches the execution, and a chunk that is skipped has no selected row.
\<close>

text \<open>Asking for the pages of a chunk ends, whatever the plan, the index block and the table of
  runtimes are: the loop asks a second time at most, and returns the error of the planner, the
  decision to skip the chunk, or all pages that the planner lists.\<close>

theorem required_pages_end:
  "required_pages decompress plans rh ph header chunk_id index_bytes has_filters rts =
     (let (r, rts') = plan_chunk_pages decompress rts plans rh ph chunk_id index_bytes
            (unat (i_ncols header) * INDEX_ENTRY_BYTES)
      in Some (bindR r (\<lambda>ps. Ok (if ps = [] \<and> has_filters then Skip else Requests ps)), rts'))"
  by (simp add: required_pages_ok split_beta)

section \<open>A sample chunk\<close>

definition zero_page :: column_page where
  "zero_page = sample_page\<lparr> p_data_raw_len := 8, p_data_comp := [0], p_null_raw_len := 0, p_null_comp := None,
     p_min := f_zero, p_max := f_zero \<rparr>"

definition one_row_header :: header where
  "one_row_header = \<lparr> h_version = 1, h_flags = 0, h_ncols = 1, h_nchunks = 1, h_rows_per_chunk = 65536,
     h_total_rows = 1, h_schema_off = 0, h_schema_len = 0, h_index_off = 0, h_index_len = 0, h_dict_off = 0,
     h_dict_len = 0, h_data_off = 0, h_dict_raw_len = 0 \<rparr>"

definition one_row_runtime :: runtime where
  "one_row_runtime = sample_runtime\<lparr> r_header := Some one_row_header \<rparr>"

definition one_row_plan :: "u8 \<Rightarrow> plan" where
  "one_row_plan op = (plan_new 1)\<lparr> pl_filters := [sample_filter op f_zero] \<rparr>"

abbreviation one_row_request :: "u8 \<Rightarrow> (required_pages_result result \<times> runtimes) option" where
  "one_row_request op \<equiv> required_pages sample_decompress [1 \<mapsto> one_row_plan op] 1 1 (info_of one_row_header) 0
     (sample_compress (index_raw [zero_page])) (pl_filters (one_row_plan op) \<noteq> []) [1 \<mapsto> one_row_runtime]"

definition indexed_runtime :: runtime where
  "indexed_runtime = one_row_runtime\<lparr> r_index_cache := [0 \<mapsto> [entry_of_page zero_page]] \<rparr>"

lemma one_row_index:
  "sample_decompress (sample_compress (index_raw [zero_page]))
     (unat (i_ncols (info_of one_row_header)) * INDEX_ENTRY_BYTES) = Some (index_raw [zero_page])"
  "parse_chunk_index (index_raw [zero_page]) (length (r_schema one_row_runtime)) = Ok [entry_of_page zero_page]"
proof -
  have "length (index_raw [zero_page]) = unat (i_ncols (info_of one_row_header)) * INDEX_ENTRY_BYTES"
    by (simp add: length_index_raw info_of_def one_row_header_def INDEX_ENTRY_BYTES_def)
  then show "sample_decompress (sample_compress (index_raw [zero_page]))
     (unat (i_ncols (info_of one_row_header)) * INDEX_ENTRY_BYTES) = Some (index_raw [zero_page])"
    using sample_lz4 unfolding lz4_inverse_def by metis
  show "parse_chunk_index (index_raw [zero_page]) (length (r_schema one_row_runtime)) = Ok [entry_of_page zero_page]"
    using parse_chunk_index_build [of "[zero_page]"] by (simp add: one_row_runtime_def sample_runtime_def)
qed

lemma one_row_filter [simp]:
  "pl_filters (one_row_plan op) = [sample_filter op f_zero]" "pl_runtime (one_row_plan op) = 1"
  "pl_combine (one_row_plan op) = []" "fl_col_id (sample_filter op x) = 0"
  by (simp_all add: one_row_plan_def plan_new_def sample_filter_def)

lemma one_row_answer:
  assumes "page_plan (one_row_plan op) indexed_runtime [entry_of_page zero_page] = Ok ps"
  shows "one_row_request op = Some (Ok (if ps = [] then Skip else Requests ps), [1 \<mapsto> indexed_runtime])"
proof -
  have "plan_chunk_pages sample_decompress [1 \<mapsto> one_row_runtime] [1 \<mapsto> one_row_plan op] 1 1 0
      (sample_compress (index_raw [zero_page])) (unat (i_ncols (info_of one_row_header)) * INDEX_ENTRY_BYTES) =
    (Ok ps, [1 \<mapsto> indexed_runtime])"
    using assms one_row_index
    by (simp add: plan_chunk_pages_def indexed_runtime_def) (simp add: one_row_runtime_def sample_runtime_def Let_def)
  from required_pages_ok [OF this] show ?thesis by simp
qed

lemma one_row_status:
  "filter_status indexed_runtime [entry_of_page zero_page] (sample_filter op f_zero) =
     Ok (numeric_filter_possible (sample_filter op f_zero) (entry_of_page zero_page))"
  if "op \<noteq> OP_LIKE" "op \<noteq> OP_NOT_LIKE"
  using that by (simp add: filter_status_def indexed_runtime_def one_row_runtime_def sample_runtime_def get_def
      filter_possible_def) (simp add: sample_filter_def sample_col_def TYPE_F64_def TYPE_STRING_def)

lemma run_pages:
  assumes "plans ph = Some plan" "pl_runtime plan = rh" "rts rh = Some rt" "r_header rt = Some h"
    and "0 < rows_in_chunk (h_total_rows h) (unat (h_rows_per_chunk h)) (unat chunk_id)"
    and "length descs mod PAGE_EXEC_WORDS = 0"
    and "decompress_pages decompress descs data
      (rows_in_chunk (h_total_rows h) (unat (h_rows_per_chunk h)) (unat chunk_id)) = Ok maps"
  shows "plan_exec_chunk decompress xxh seeded decode_ids rts plans rh ph chunk_id descs data =
    bindR (exec_pages xxh seeded decode_ids chunk_id (h_rows_per_chunk h)
      (rows_in_chunk (h_total_rows h) (unat (h_rows_per_chunk h)) (unat chunk_id)) maps plan rt)
      (\<lambda>(code, ex). Ok (code, rts(rh \<mapsto> ex_runtime ex), plans(ph \<mapsto> ex_plan ex)))"
  using assms by (simp add: plan_exec_chunk_def Let_def)

text \<open>C39: From the encoder to the execution: of a chunk whose pages the encoder packed and whose
  index entries tell where they are, the pages that the planner lists are read through the cache,
  copied into one buffer, located there by their descriptors and decompressed, so that the execution
  runs on exactly the data, NULL and empty-string pages of the required columns as they were before
  compression; the cache stays a copy of the file. The compressor is any pair that inverts; the
  requested pages have less than 4 GiB in all, and no NULL or empty-string page lies at the offset
  0xffffffff, which the planner takes for the mark of an absent page.\<close>

theorem pages_reach_execution:
  assumes "lz4_inverse compress decompress"
    and "required_pages decompress plans rh ph header chunk_id index_bytes (pl_filters plan \<noteq> []) rts =
      Some (Ok (Requests reqs), rts')"
    and "plans ph = Some plan" "rts rh = Some rt" "pl_runtime plan = rh" "r_header rt = Some h"
    and "rows = rows_in_chunk (h_total_rows h) (unat (h_rows_per_chunk h)) (unat chunk_id)" "0 < rows"
    and "decompress index_bytes (unat (i_ncols header) * INDEX_ENTRY_BYTES) = Some raw"
    and "parse_chunk_index raw (length (r_schema rt)) = Ok entries" "length entries = length (r_schema rt)"
    and "chunk_stored compress content rows pages parts entries" "list_all no_sentinel entries"
    and "cache_ok content cache" "total_comp_len reqs < 2 ^ 32"
  shows "\<exists>maps cache'.
    exec_chunk_payload (plan_exec_chunk decompress xxh seeded decode_ids rts' plans rh ph chunk_id)
        content cache reqs =
      (bindR (exec_pages xxh seeded decode_ids chunk_id (h_rows_per_chunk h) rows maps plan
          (rt\<lparr> r_index_cache := (r_index_cache rt)(chunk_id \<mapsto> entries) \<rparr>)) (\<lambda>(code, ex).
        bindR (call_status code) (\<lambda>_. Ok (rts'(rh \<mapsto> ex_runtime ex), plans(ph \<mapsto> ex_plan ex)))), cache') \<and>
    pages_delivered plan (r_schema rt) parts maps \<and> cache_ok content cache'"
proof -
  let ?rt = "rt\<lparr> r_index_cache := (r_index_cache rt)(chunk_id \<mapsto> entries) \<rparr>"
  let ?exec = "plan_exec_chunk decompress xxh seeded decode_ids rts' plans rh ph chunk_id"
  have reqs: "reqs = wanted_pages plan (r_schema rt) entries" and rts': "rts' rh = Some ?rt"
    using requested_wanted [OF assms(2-5,9-11)] by simp_all
  have stored: "length parts = length (r_schema rt)" "length pages = length (r_schema rt)"
    "\<forall>i < length (r_schema rt). page_readable content (pages ! i) (entries ! i)"
    "\<forall>i < length (r_schema rt). packed_page compress rows (pages ! i) (parts ! i)"
    "\<forall>i < length (r_schema rt). no_sentinel (entries ! i)"
    using assms(11-13) by (auto simp: chunk_stored_def list_all2_conv_all_nth list_all_length)
  obtain bss maps where got: "mapR (page_in_file content) reqs = Ok bss"
    "foldR (deliver_page decompress rows) no_pages (zip reqs bss) = Ok maps"
    "pages_delivered plan (r_schema rt) parts maps"
    using wanted_delivered [OF assms(1,8,11) stored, of plan] reqs by blast
  obtain descs data cache' where d: "read_and_pack_pages content cache reqs = (Ok (descs, data), cache')"
    "cache_ok content cache'" "length descs mod PAGE_EXEC_WORDS = 0"
    "decompress_pages decompress descs data rows = Ok maps"
    using delivered [OF assms(14) got(1) assms(15), of decompress rows] got(2) by (auto simp: no_pages_def)
  have run: "?exec descs data = bindR (exec_pages xxh seeded decode_ids chunk_id (h_rows_per_chunk h) rows maps plan ?rt)
      (\<lambda>(code, ex). Ok (code, rts'(rh \<mapsto> ex_runtime ex), plans(ph \<mapsto> ex_plan ex)))"
    unfolding assms(7) by (rule run_pages) (use assms(3,5-8) rts' d(3,4) in simp_all)
  have empty: "(descs, data) = ([], [])" "cache' = cache" if "reqs = []"
    using d(1) that by (simp_all add: read_and_pack_pages_def)
  have "exec_chunk_payload ?exec content cache reqs =
      (bindR (?exec descs data) (\<lambda>(code, st). bindR (call_status code) (\<lambda>_. Ok st)), cache')"
    using d(1) empty by (cases "reqs = []") (auto simp: exec_chunk_payload_def Let_def)
  then have "exec_chunk_payload ?exec content cache reqs =
      (bindR (exec_pages xxh seeded decode_ids chunk_id (h_rows_per_chunk h) rows maps plan ?rt) (\<lambda>(code, ex).
        bindR (call_status code) (\<lambda>_. Ok (rts'(rh \<mapsto> ex_runtime ex), plans(ph \<mapsto> ex_plan ex)))), cache')"
    unfolding run by (simp add: bindR_def split: sum.splits prod.splits)
  with got(3) d(2) show ?thesis by blast
qed

theorem pages_reach_execution_witness:
  "\<forall>xxh seeded decode_ids. \<exists>reqs maps cache'.
    one_row_request OP_EQ = Some (Ok (Requests reqs), [1 \<mapsto> indexed_runtime]) \<and>
    exec_chunk_payload (plan_exec_chunk sample_decompress xxh seeded decode_ids [1 \<mapsto> indexed_runtime]
        [1 \<mapsto> one_row_plan OP_EQ] 1 1 0) [0] (read_cache_new (Some 1)) reqs =
      (bindR (exec_pages xxh seeded decode_ids 0 65536 1 maps (one_row_plan OP_EQ) indexed_runtime) (\<lambda>(code, ex).
        bindR (call_status code) (\<lambda>_. Ok ([1 \<mapsto> ex_runtime ex], [1 \<mapsto> ex_plan ex]))), cache') \<and>
    data_pages maps 0 = Some (replicate 8 0)"
proof (intro allI)
  fix xxh seeded decode_ids
  let ?e = "entry_of_page zero_page" and ?parts = "\<lparr> pp_data = replicate 8 0, pp_nulls = None, pp_empties = None \<rparr>"
  have zp: "pack sample_compress (replicate 8 0) = [0]"
    by (simp add: pack_def sample_compress_def)
  have e: "e_data_off ?e = 0" "e_data_comp_len ?e = 1" "e_data_raw_len ?e = 8" "e_null_off ?e = NULL_SENTINEL_U64"
    "e_null_comp_len ?e = 0" "e_empty_off ?e = NULL_SENTINEL_U64" "e_empty_comp_len ?e = 0" "e_min ?e = f_zero"
    "e_max ?e = f_zero" "e_null_raw_len ?e = 0"
    by (simp_all add: entry_of_page_def zero_page_def sample_page_def comp_len_def)
  have req: "plan_required_columns (one_row_plan OP_EQ) (length (r_schema indexed_runtime)) = [0]"
    by (simp add: plan_required_columns_def indexed_runtime_def one_row_runtime_def sample_runtime_def
        mark_required_def) (simp add: one_row_plan_def plan_new_def)
  have st: "maybe_true (numeric_filter_possible (sample_filter OP_EQ f_zero) ?e)"
    by (simp add: numeric_filter_possible_def e Let_def sample_filter_def f_le_def finite_not_nan)
  have cp: "page_plan (one_row_plan OP_EQ) indexed_runtime [?e] =
      Ok [\<lparr> pd_kind = PAGE_KIND_DATA, pd_col_id = 0, pd_offset = 0, pd_comp_len = 1, pd_raw_len = 8 \<rparr>]"
    using st unfolding page_plan_def req
    by (simp add: one_row_status op_defs chunk_possible_def required_column_pages_def column_pages_def e get_def)
      (simp add: indexed_runtime_def one_row_runtime_def sample_runtime_def sample_col_def)
  note ans = one_row_answer [OF cp, simplified]
  have stored: "chunk_stored sample_compress [0] 1 [zero_page] [?parts] [?e]"
    by (simp add: chunk_stored_def packed_page_def opt_packed_def zp page_readable_def opt_readable_def e
        read_exact_at_file_def capacity_overflow_def)
      (simp add: zero_page_def sample_page_def entry_of_page_def slice_def EMPTY_MODE_MIXED_def
        NULL_SENTINEL_U64_def)
  have offs: "list_all no_sentinel [?e]"
    by (simp add: no_sentinel_def e) (simp add: NULL_SENTINEL_U64_def NULL_SENTINEL_def)
  obtain maps cache' where m:
    "exec_chunk_payload (plan_exec_chunk sample_decompress xxh seeded decode_ids [1 \<mapsto> indexed_runtime]
        [1 \<mapsto> one_row_plan OP_EQ] 1 1 0) [0] (read_cache_new (Some 1))
        [\<lparr> pd_kind = PAGE_KIND_DATA, pd_col_id = 0, pd_offset = 0, pd_comp_len = 1, pd_raw_len = 8 \<rparr>] =
      (bindR (exec_pages xxh seeded decode_ids 0 65536 1 maps (one_row_plan OP_EQ)
        (one_row_runtime\<lparr> r_index_cache := (r_index_cache one_row_runtime)(0 \<mapsto> [?e]) \<rparr>)) (\<lambda>(code, ex).
        bindR (call_status code) (\<lambda>_. Ok ([1 \<mapsto> indexed_runtime](1 \<mapsto> ex_runtime ex),
          [1 \<mapsto> one_row_plan OP_EQ](1 \<mapsto> ex_plan ex)))), cache')"
    "pages_delivered (one_row_plan OP_EQ) (r_schema one_row_runtime) [?parts] maps"
    using pages_reach_execution [of sample_compress sample_decompress "[1 \<mapsto> one_row_plan OP_EQ]" 1 1
        "info_of one_row_header" 0 "sample_compress (index_raw [zero_page])" "one_row_plan OP_EQ"
        "[1 \<mapsto> one_row_runtime]" _ "[1 \<mapsto> indexed_runtime]" one_row_runtime one_row_header 1 _ "[?e]" "[0]"
        "[zero_page]" "[?parts]" "read_cache_new (Some 1)" xxh seeded decode_ids,
        OF sample_lz4 _ _ _ _ _ _ _ one_row_index _ stored offs read_cache_new_ok] ans
    by (auto simp: one_row_runtime_def one_row_header_def rows_in_chunk_def sample_runtime_def)
  have "indexed_runtime = one_row_runtime\<lparr> r_index_cache := (r_index_cache one_row_runtime)(0 \<mapsto> [?e]) \<rparr>"
    by (simp add: indexed_runtime_def one_row_runtime_def sample_runtime_def)
  moreover have "data_pages maps 0 = Some (replicate 8 0)"
    using m(2) req by (auto simp: pages_delivered_def Let_def indexed_runtime_def)
  ultimately show "\<exists>reqs maps cache'.
    one_row_request OP_EQ = Some (Ok (Requests reqs), [1 \<mapsto> indexed_runtime]) \<and>
    exec_chunk_payload (plan_exec_chunk sample_decompress xxh seeded decode_ids [1 \<mapsto> indexed_runtime]
        [1 \<mapsto> one_row_plan OP_EQ] 1 1 0) [0] (read_cache_new (Some 1)) reqs =
      (bindR (exec_pages xxh seeded decode_ids 0 65536 1 maps (one_row_plan OP_EQ) indexed_runtime) (\<lambda>(code, ex).
        bindR (call_status code) (\<lambda>_. Ok ([1 \<mapsto> ex_runtime ex], [1 \<mapsto> ex_plan ex]))), cache') \<and>
    data_pages maps 0 = Some (replicate 8 0)"
    using m(1) ans by auto
qed

lemma filter_step_keeps:
  "filter_step ids schema pages rows chunk_id st idx = Ok st' \<Longrightarrow>
     (ex_plan (snd st'))\<lparr> pl_filters := [] \<rparr> = (ex_plan (snd st))\<lparr> pl_filters := [] \<rparr>"
  using filter_chunk_mask_plan by (cases st) (fastforce simp: filter_step_def Let_def)

definition start_state :: "page_maps \<Rightarrow> nat \<Rightarrow> plan \<Rightarrow> runtime \<Rightarrow> exec_state" where
  "start_state pages rows plan rt =
     \<lparr> ex_plan = plan, ex_runtime = rt, ex_decoded = Map.empty, ex_nulls = null_cache_new (null_pages pages) rows \<rparr>"

lemma exec_pages_filters:
  assumes "exec_pages xxh seeded ids chunk_id rpc rows pages plan rt = Ok (n, ex)"
  obtains masks ex1 m0 m where
    "foldR (filter_step ids (r_schema rt) pages rows chunk_id) ([], start_state pages rows plan rt)
       [0..<length (pl_filters plan)] = Ok (masks, ex1)"
    "combine_chunk_masks (ex_plan ex1) masks rows = Ok m0" "clear_tail m0 rows = Ok m"
    "mask_is_zero m \<Longrightarrow> n = 0 \<and> ex = ex1"
proof -
  obtain masks ex1 m0 m where e:
    "foldR (filter_step ids (r_schema rt) pages rows chunk_id) ([], start_state pages rows plan rt)
       [0..<length (pl_filters plan)] = Ok (masks, ex1)"
    "combine_chunk_masks (ex_plan ex1) masks rows = Ok m0" "clear_tail m0 rows = Ok m"
    and res: "mask_is_zero m \<longrightarrow> Ok (0, ex1) = Ok (n, ex)"
    using assms unfolding exec_pages_def bindR_eq_Ok Let_def start_state_def by (auto split: if_splits)
  show thesis by (rule that [OF e]) (use res in auto)
qed

lemma skip_answer:
  assumes "required_pages decompress plans rh ph header chunk_id index_bytes (pl_filters plan \<noteq> []) rts =
      Some (Ok Skip, rts')"
    and "plans ph = Some plan" "rts' rh = Some rt" "r_index_cache rt chunk_id = Some entries"
  shows "page_plan plan rt entries = Ok []" "pl_filters plan \<noteq> []"
proof -
  let ?len = "unat (i_ncols header) * INDEX_ENTRY_BYTES"
  obtain r rts1 where pl1: "plan_chunk_pages decompress rts plans rh ph chunk_id index_bytes ?len = (r, rts1)"
    by (cases "plan_chunk_pages decompress rts plans rh ph chunk_id index_bytes ?len")
  with required_pages_ok [OF pl1, of "pl_filters plan \<noteq> []"] assms(1)
  have pl: "plan_chunk_pages decompress rts plans rh ph chunk_id index_bytes ?len = (r, rts')"
    "bindR r (\<lambda>ps. Ok (if ps = [] \<and> pl_filters plan \<noteq> [] then Skip else Requests ps)) = Ok Skip"
    by simp_all
  then have r: "r = Ok []" "pl_filters plan \<noteq> []" by (auto split: if_splits)
  with pl(1) assms(2-4) show "page_plan plan rt entries = Ok []" "pl_filters plan \<noteq> []"
    by (auto simp: plan_chunk_pages_def Let_def split: if_splits option.splits sum.splits)
qed

lemma length_marked [simp]: "length (foldl mark_required required cs) = length required"
  by (induction cs arbitrary: required) (auto simp: mark_required_def)

lemma marked:
  "i < length required \<Longrightarrow> required ! i \<or> (\<exists>c \<in> set cs. unat c = i) \<Longrightarrow> foldl mark_required required cs ! i"
proof (induction cs arbitrary: required)
  case (Cons c cs)
  have "foldl mark_required (mark_required required c) cs ! i"
    by (rule Cons.IH) (use Cons.prems in \<open>auto simp: mark_required_def nth_list_update\<close>)
  then show ?case by simp
qed simp

lemma still_marked:
  "i < length required \<Longrightarrow> required ! i \<Longrightarrow> foldl mark_required required cs ! i"
  "i < length required \<Longrightarrow> required ! i \<Longrightarrow> mark_required required c ! i"
  "length (mark_required required c) = length required"
  by (simp add: marked) (simp_all add: mark_required_def nth_list_update)

lemma filter_column_required:
  assumes "fl \<in> set (pl_filters plan)" "unat (fl_col_id fl) < n"
  shows "fl_col_id fl \<in> set (plan_required_columns plan n)"
proof -
  let ?i = "unat (fl_col_id fl)"
  let ?r0 = "foldl mark_required (replicate n False) (map fl_col_id (pl_filters plan))"
  have "length ?r0 = n" by simp
  moreover have "?r0 ! ?i" by (rule marked) (use assms in auto)
  ultimately have r: "?i < length ?r0" "?r0 ! ?i" using assms(2) by simp_all
  have "\<exists>R. plan_required_columns plan n = map of_nat (filter ((!) R) [0..<n]) \<and> R ! ?i"
    unfolding plan_required_columns_def Let_def
    by (intro exI conjI, rule refl) (use r in \<open>auto simp: still_marked split: option.splits\<close>)
  then obtain R where R: "plan_required_columns plan n = map of_nat (filter ((!) R) [0..<n])" "R ! ?i" by blast
  have "?i \<in> set (filter ((!) R) [0..<n])" using R(2) assms(2) by simp
  then have "(of_nat ?i :: u32) \<in> set (map of_nat (filter ((!) R) [0..<n]))" unfolding set_map by (rule imageI)
  then show ?thesis using R(1) by simp
qed

lemma requested_some:
  assumes "chunk_possible plan statuses" "mapR (filter_status rt entries) (pl_filters plan) = Ok statuses"
  shows "pl_filters plan \<noteq> [] \<Longrightarrow> page_plan plan rt entries \<noteq> Ok []"
proof
  assume fls: "pl_filters plan \<noteq> []" and none: "page_plan plan rt entries = Ok []"
  let ?cs = "plan_required_columns plan (length (r_schema rt))"
  obtain fl where fl: "fl \<in> set (pl_filters plan)" using fls by (cases "pl_filters plan") auto
  then obtain i where "i < length (pl_filters plan)" "fl = pl_filters plan ! i" by (auto simp: in_set_conv_nth)
  then obtain p where "filter_status rt entries fl = Ok p" using mapR_nth [OF assms(2)] by blast
  then obtain col entry where c: "get (r_schema rt) (unat (fl_col_id fl)) = Some col"
    "get entries (unat (fl_col_id fl)) = Some entry" by (auto simp: filter_status_def)
  then have "fl_col_id fl \<in> set ?cs" using filter_column_required [OF fl] by (simp add: get_def split: if_splits)
  then obtain k where k: "k < length ?cs" "fl_col_id fl = ?cs ! k" by (auto simp: in_set_conv_nth)
  obtain pss where pss: "mapR (required_column_pages plan rt entries) ?cs = Ok pss" "concat pss = []"
    using none assms by (auto simp: page_plan_def)
  have "required_column_pages plan rt entries (fl_col_id fl) = Ok (pss ! k)"
    using mapR_nth [OF pss(1) k(1)] k(2) by simp
  then have "pss ! k \<noteq> []" using c by (auto simp: required_column_pages_def column_pages_def)
  moreover have "pss ! k \<in> set pss" using mapR_length [OF pss(1)] k(1) by simp
  ultimately show False using pss(2) by auto
qed

lemma some_page_wanted:
  assumes "page_plan plan rt entries = Ok []" "pl_filters plan \<noteq> []"
  shows "\<exists>statuses. mapR (filter_status rt entries) (pl_filters plan) = Ok statuses \<and> \<not> chunk_possible plan statuses"
proof -
  obtain statuses where st: "mapR (filter_status rt entries) (pl_filters plan) = Ok statuses"
    using assms(1) by (auto simp: page_plan_def)
  have "\<not> chunk_possible plan statuses" using requested_some [OF _ st assms(2)] assms(1) by blast
  with st show ?thesis by blast
qed

text \<open>C40: Skipping is sound: when the planner answers that a chunk can be skipped, the statistics in
  its index entries hold of the columns as they are decoded from the pages, and the filters that
  the planner judges by statistics are comparable (unscaled numeric columns without booleans, 64-bit
  integers below 2^53, literals that are exactly values of the column's type, BETWEEN with ascending
  bounds, on a dictionary column only an IN list, = or <>), then executing the plan on these pages
  all the same selects no row and leaves the plan as it was, but for the resolution of its filters.\<close>

theorem skipped_chunk:
  assumes "required_pages decompress plans rh ph header chunk_id index_bytes (pl_filters plan \<noteq> []) rts =
      Some (Ok Skip, rts')"
    and "plans ph = Some plan" "rts' rh = Some rt" "r_index_cache rt chunk_id = Some entries"
    and "rows \<le> ROWS_PER_CHUNK"
    and "exec_pages xxh seeded ids chunk_id rpc rows pages plan rt = Ok (n, ex)"
    and "\<And>masks ex. foldR (filter_step ids (r_schema rt) pages rows chunk_id)
        ([], start_state pages rows plan rt) [0..<length (pl_filters plan)] = Ok (masks, ex) \<Longrightarrow>
      entries_agree rt pages rows entries ex (pl_filters plan) \<and>
      filters_comparable rt rows ex (pl_filters plan)"
  shows "n = 0 \<and> ex_plan ex = plan\<lparr> pl_filters := pl_filters (ex_plan ex) \<rparr>"
proof -
  obtain masks ex1 m0 m where e: "foldR (filter_step ids (r_schema rt) pages rows chunk_id)
        ([], start_state pages rows plan rt) [0..<length (pl_filters plan)] = Ok (masks, ex1)"
    "combine_chunk_masks (ex_plan ex1) masks rows = Ok m0" "clear_tail m0 rows = Ok m"
    "mask_is_zero m \<Longrightarrow> n = 0 \<and> ex = ex1"
    using exec_pages_filters [OF assms(6)] by blast
  obtain statuses where st: "mapR (filter_status rt entries) (pl_filters plan) = Ok statuses"
    "\<not> chunk_possible plan statuses" and fls: "pl_filters plan \<noteq> []"
    using some_page_wanted [OF skip_answer [OF assms(1-4)]] skip_answer(2) [OF assms(1-4)] by blast
  have "exec_ok pages rows (start_state pages rows plan rt)" "ex_plan (start_state pages rows plan rt) = plan"
    by (simp_all add: exec_ok_def start_state_def coherent_new) (simp add: null_cache_new_def)
  from filters_no_rows [OF assms(5) e(1) this st(1) fls st(2) assms(7) [OF e(1), THEN conjunct1]
      assms(7) [OF e(1), THEN conjunct2] e(2,3)]
  have "n = 0" "ex = ex1" using e(4) by simp_all
  moreover have "(ex_plan (snd (masks, ex1)))\<lparr> pl_filters := [] \<rparr> = plan\<lparr> pl_filters := [] \<rparr>"
    by (rule foldR_keeps [OF e(1)]) (auto simp: start_state_def dest: filter_step_keeps)
  then have "ex_plan ex1 = plan\<lparr> pl_filters := pl_filters (ex_plan ex1) \<rparr>"
    by (cases "ex_plan ex1"; cases plan) simp
  ultimately show ?thesis by simp
qed

abbreviation zero_maps :: page_maps where
  "zero_maps \<equiv> no_pages\<lparr> data_pages := [0 \<mapsto> replicate 8 0] \<rparr>"

abbreviation zero_start :: exec_state where
  "zero_start \<equiv> start_state zero_maps 1 (one_row_plan OP_LT) indexed_runtime"

lemma zero_page_bytes: "decode_f64 (replicate 8 0) = Ok [f_zero]"
proof -
  have "from_le64 (replicate 8 0) = f_zero"
    by (rule bit_word_eqI) (auto simp: f_zero_def of_mag_def from_le64_def bit_from_le)
  then show ?thesis by (simp add: decode_f64_def decode_le_def chunks_exact.simps)
qed

lemma zero_filter_runs:
  "\<exists>m ex1. foldR (filter_step ids (r_schema indexed_runtime) zero_maps 1 0) ([], zero_start)
     [0..<length (pl_filters (one_row_plan OP_LT))] = Ok ([m], ex1) \<and> is_mask m \<and>
     ex_decoded ex1 = [0 \<mapsto> CD_F64 [f_zero]]"
proof -
  let ?col = "sample_col TYPE_F64" and ?fl = "sample_filter OP_LT f_zero"
  obtain m where m: "build_filter_mask_pipeline ?col (CD_F64 [f_zero]) ?fl 1 (Some indexed_runtime) None = Ok m" "is_mask m"
    using filter_mask_ok [of 1 "CD_F64 [f_zero]" ?col ?fl None "Some indexed_runtime"]
    by (auto simp: sample_plain op_defs) (auto simp: sample_filter_def)
  have rt: "r_dicts indexed_runtime = Map.empty" "r_schema indexed_runtime = [?col]" "indexed_runtime\<lparr> r_dicts := Map.empty \<rparr> = indexed_runtime"
    by (simp_all add: indexed_runtime_def one_row_runtime_def sample_runtime_def)
  have st: "ex_plan zero_start = one_row_plan OP_LT" "ex_runtime zero_start = indexed_runtime"
    "ex_decoded zero_start = Map.empty" by (simp_all add: start_state_def)
  have col: "c_flags ?col = 0" "c_id ?col = 0" "c_encoding ?col = 0" "c_logical ?col = TYPE_F64" "c_physical ?col = TYPE_F64"
    by (simp_all add: sample_col_def)
  have types: "TYPE_F64 \<noteq> TYPE_STRING" "(0 :: u8) \<noteq> ENCODING_NUM_DICT"
    by (simp_all add: TYPE_F64_def TYPE_STRING_def ENCODING_NUM_DICT_def)
  have like: "\<not> is_like ?fl" by (simp add: is_like_def sample_filter_def op_defs)
  let ?ex = "zero_start\<lparr> ex_decoded := [0 \<mapsto> CD_F64 [f_zero]] \<rparr>"
  have phys: "decode_physical_column TYPE_F64 (replicate 8 0) U_Fallback_U32 = Ok (CD_F64 [f_zero])"
    by (simp add: decode_physical_column_def zero_page_bytes type_defs)
  have dec: "decode_column ids ?col (replicate 8 0) 1 zero_start = Ok ?ex"
    by (simp add: decode_column_def ensure_decoded_def st col types phys rt) (simp add: start_state_def rt)
  have "resolve_deferred_filter ?fl ?col indexed_runtime = ?fl"
    by (simp add: resolve_deferred_filter_def rt)
  then have "decoded_filter_mask ids zero_maps 1 zero_start ?col ?fl = Ok (m, ?ex)"
    using m(1) by (simp add: decoded_filter_mask_def dec nulls_of_def col st fail_with_def del: One_nat_def)
  moreover have "empty_string_mask zero_maps 1 0 zero_start ?col ?fl = Ok None"
    by (simp add: empty_string_mask_def build_empty_string_mask_def col types split: option.split)
  ultimately have "filter_chunk_mask ids [?col] zero_maps 1 0 zero_start ?fl = Ok (m, ?fl, ?ex)"
    by (simp add: filter_chunk_mask_def get_def col like)
  then show ?thesis using m(2) by (simp add: filter_step_def st rt del: One_nat_def)
qed

theorem skipped_chunk_witness:
  "\<forall>xxh seeded ids. \<exists>ex. one_row_request OP_LT = Some (Ok Skip, [1 \<mapsto> indexed_runtime]) \<and>
    exec_pages xxh seeded ids 0 65536 1 zero_maps (one_row_plan OP_LT) indexed_runtime = Ok (0, ex) \<and>
    pl_rows (ex_plan ex) = []"
proof (intro allI)
  fix xxh seeded ids
  let ?e = "entry_of_page zero_page" and ?fl = "sample_filter OP_LT f_zero" and ?col = "sample_col TYPE_F64"
  have e: "e_min ?e = f_zero" "e_max ?e = f_zero" "e_null_raw_len ?e = 0" "e_null_comp_len ?e = 0"
    by (simp_all add: entry_of_page_def zero_page_def sample_page_def comp_len_def)
  have ps: "numeric_filter_possible ?fl ?e = poss False True"
    by (simp add: numeric_filter_possible_def e sample_filter_def op_defs f_lt_def f_le_def finite_not_nan)
  have st: "filter_status indexed_runtime [?e] ?fl = Ok (poss False True)"
    by (subst one_row_status) (simp_all add: ps, simp_all add: op_defs)
  then have "page_plan (one_row_plan OP_LT) indexed_runtime [?e] = Ok []"
    by (simp add: page_plan_def chunk_possible_def)
  from one_row_answer [OF this]
  have ans: "one_row_request OP_LT = Some (Ok Skip, [1 \<mapsto> indexed_runtime])" by simp
  have sch: "r_schema indexed_runtime = [?col]" by (simp add: indexed_runtime_def one_row_runtime_def sample_runtime_def)
  have agree: "entries_agree indexed_runtime zero_maps 1 [?e] ex (pl_filters (one_row_plan OP_LT))"
      "filters_comparable indexed_runtime 1 ex (pl_filters (one_row_plan OP_LT))"
    if "ex_decoded ex = [0 \<mapsto> CD_F64 [f_zero]]" for ex
  proof -
    have "statistics_hold ?col (CD_F64 [f_zero]) ?e None indexed_runtime 1"
      by (simp add: statistics_hold_def nulls_ok_def sample_plain range_covers_def)
        (simp add: sample_col_def e f_le_def finite_not_nan)
    moreover have "filter_comparable ?col (CD_F64 [f_zero]) ?fl 1"
      by (simp add: filter_comparable_def sample_plain op_defs) (simp add: sample_col_def)
    moreover have "page_nulls zero_maps 1 ?col 0 = None" by (simp add: page_nulls_def sample_col_def)
    ultimately show "entries_agree indexed_runtime zero_maps 1 [?e] ex (pl_filters (one_row_plan OP_LT))"
      "filters_comparable indexed_runtime 1 ex (pl_filters (one_row_plan OP_LT))"
      using that by (simp_all add: entries_agree_def filters_comparable_def sch get_def)
  qed
  obtain m ex1 where run: "foldR (filter_step ids (r_schema indexed_runtime) zero_maps 1 0) ([], zero_start)
      [0..<length (pl_filters (one_row_plan OP_LT))] = Ok ([m], ex1)" "is_mask m" "ex_decoded ex1 = [0 \<mapsto> CD_F64 [f_zero]]"
    using zero_filter_runs by blast
  have all: "entries_agree indexed_runtime zero_maps 1 [?e] ex (pl_filters (one_row_plan OP_LT)) \<and>
      filters_comparable indexed_runtime 1 ex (pl_filters (one_row_plan OP_LT))"
    if "foldR (filter_step ids (r_schema indexed_runtime) zero_maps 1 0) ([], zero_start)
      [0..<length (pl_filters (one_row_plan OP_LT))] = Ok (masks, ex)" for masks ex
    using that run by (intro conjI agree) simp_all
  have ok: "exec_ok zero_maps 1 zero_start"
    by (simp add: exec_ok_def start_state_def coherent_new) (simp add: null_cache_new_def)
  have comb: "pl_combine (ex_plan ex1) = []"
    using filter_steps [OF run(1) ok, of "pl_filters (one_row_plan OP_LT)"] by (simp add: start_state_def)
  obtain m' where m': "clear_tail m 1 = Ok m'"
    using clear_tail_ok [OF run(2), of 1] by (auto simp: ROWS_PER_CHUNK_def)
  have "exec_pages xxh seeded ids 0 65536 1 zero_maps (one_row_plan OP_LT) indexed_runtime = Ok (0, ex1)"
    if "mask_is_zero m'"
    using run(1) that comb m' unfolding exec_pages_def start_state_def Let_def
    by (simp add: combine_chunk_masks_def)
  moreover have "mask_is_zero m'"
    by (rule filters_no_rows [OF _ run(1) _ _ _ _ _ agree [OF run(3)]])
      (use st comb m' in \<open>simp_all add: chunk_possible_def combine_chunk_masks_def ROWS_PER_CHUNK_def\<close>,
        use ok in \<open>simp_all add: start_state_def\<close>)
  ultimately have ex: "exec_pages xxh seeded ids 0 65536 1 zero_maps (one_row_plan OP_LT) indexed_runtime = Ok (0, ex1)"
    by blast
  have "0 = (0 :: int) \<and> ex_plan ex1 = (one_row_plan OP_LT)\<lparr> pl_filters := pl_filters (ex_plan ex1) \<rparr>"
    by (rule skipped_chunk [OF ans _ _ _ _ ex all]) (simp_all add: ROWS_PER_CHUNK_def, simp add: indexed_runtime_def)
  then have "ex_plan ex1 = (one_row_plan OP_LT)\<lparr> pl_filters := pl_filters (ex_plan ex1) \<rparr>" by blast
  then have "pl_rows (ex_plan ex1) = pl_rows (one_row_plan OP_LT)" by (metis plan.select_convs(8) plan.update_convs(2) plan.surjective)
  with ex ans show "\<exists>ex. one_row_request OP_LT = Some (Ok Skip, [1 \<mapsto> indexed_runtime]) \<and>
    exec_pages xxh seeded ids 0 65536 1 zero_maps (one_row_plan OP_LT) indexed_runtime = Ok (0, ex) \<and>
    pl_rows (ex_plan ex) = []"
    by (auto simp: one_row_plan_def plan_new_def)
qed

end
