(* ===== verification/Mem_Budget.thy ===== *)
theory Mem_Budget
  imports Read_Cache
begin

text \<open>
  The memory accounting of a query (\<^verbatim>\<open>wcol-decoder/src/native/mem_budget.rs\<close>): the budget that
  all workers reserve from, the arena of a worker that grows in steps, and the cap on what the
  workers retain between queries. The calls are given as functions of the state. The
  compare-and-swap loop of the budget is also given as \<open>budget_step\<close>, in which the loads and
  swaps of any number of workers interleave. The detection of the machine's memory is left out.
\<close>

section \<open>The budget of a query\<close>

record query_budget =
  qb_cap_bytes :: u64
  qb_query_id :: u64
  qb_used_bytes :: u64

record arena_cap =
  ac_worker_id :: nat
  ac_requested_bytes :: u64
  ac_thread_used_bytes :: u64
  ac_thread_cap_bytes :: u64
  ac_global_used_bytes :: u64
  ac_global_cap_bytes :: u64
  ac_query_id :: u64
  ac_stage :: string

definition sat_sub64 :: "u64 \<Rightarrow> u64 \<Rightarrow> u64" where
  "sat_sub64 a b = (if b \<le> a then a - b else 0)"

definition query_budget_new :: "u64 \<Rightarrow> u64 \<Rightarrow> u64 \<Rightarrow> query_budget" where
  "query_budget_new cap_bytes query_id initial_used_bytes =
     \<lparr> qb_cap_bytes = cap_bytes, qb_query_id = query_id,
       qb_used_bytes = min initial_used_bytes cap_bytes \<rparr>"

text \<open>The call when no other worker interferes.\<close>

definition try_reserve ::
  "u64 \<Rightarrow> nat \<Rightarrow> string \<Rightarrow> query_budget \<Rightarrow> arena_cap + query_budget" where
  "try_reserve add_bytes worker_id stage b =
     (if add_bytes = 0 then Inr b
      else
        let current = qb_used_bytes b; nxt = sat_add64 current add_bytes in
        if qb_cap_bytes b < nxt then
          Inl \<lparr> ac_worker_id = worker_id, ac_requested_bytes = add_bytes, ac_thread_used_bytes = 0,
                ac_thread_cap_bytes = 0, ac_global_used_bytes = current,
                ac_global_cap_bytes = qb_cap_bytes b, ac_query_id = qb_query_id b, ac_stage = stage \<rparr>
        else Inr (b\<lparr> qb_used_bytes := nxt \<rparr>))"

section \<open>The cap on retained memory\<close>

record retained_cap =
  rt_total_retained :: u64
  rt_cap_bytes :: u64

definition retained_with_initial :: "u64 \<Rightarrow> u64 \<Rightarrow> retained_cap" where
  "retained_with_initial cap_bytes initial_retained =
     \<lparr> rt_total_retained = min initial_retained cap_bytes, rt_cap_bytes = cap_bytes \<rparr>"

definition set_cap_bytes :: "u64 \<Rightarrow> retained_cap \<Rightarrow> retained_cap" where
  "set_cap_bytes cap_bytes r = r\<lparr> rt_cap_bytes := cap_bytes \<rparr>"

definition add_live :: "u64 \<Rightarrow> retained_cap \<Rightarrow> retained_cap" where
  "add_live add_bytes r =
     (if add_bytes = 0 then r else r\<lparr> rt_total_retained := rt_total_retained r + add_bytes \<rparr>)"

definition adjust_retained :: "u64 \<Rightarrow> u64 \<Rightarrow> retained_cap \<Rightarrow> u64 \<times> retained_cap" where
  "adjust_retained current_worker_reserved desired_reserved r =
     (let total = rt_total_retained r; cap = rt_cap_bytes r;
          without_current = sat_sub64 total current_worker_reserved;
          accepted = (if cap < sat_add64 without_current desired_reserved
                      then sat_sub64 cap without_current else desired_reserved)
      in (accepted, r\<lparr> rt_total_retained := sat_add64 without_current accepted \<rparr>))"

section \<open>The arena of a worker\<close>

record arena =
  ar_worker_id :: nat
  ar_base_bytes :: u64
  ar_grow_bytes :: u64
  ar_max_bytes :: u64
  ar_reserved_bytes :: u64
  ar_used_bytes :: u64
  ar_idle_queries :: u32
  ar_last_query_reserved_peak :: u64

datatype release_policy = ReleaseAll | KeepAll | KeepUpToMb

definition arena_new :: "nat \<Rightarrow> u64 \<Rightarrow> u64 \<Rightarrow> u64 \<Rightarrow> arena" where
  "arena_new worker_id base_bytes grow_bytes max_bytes =
     (let base = max base_bytes 1 in
      \<lparr> ar_worker_id = worker_id, ar_base_bytes = base, ar_grow_bytes = max grow_bytes 1,
        ar_max_bytes = max max_bytes base, ar_reserved_bytes = base, ar_used_bytes = 0,
        ar_idle_queries = 0, ar_last_query_reserved_peak = base \<rparr>)"

definition begin_query :: "arena \<Rightarrow> arena" where
  "begin_query a = a\<lparr> ar_used_bytes := 0, ar_last_query_reserved_peak := ar_reserved_bytes a \<rparr>"

text \<open>The first multiple of the step that is enough; \<open>Some None\<close> when it passes the maximum.
  With a step of zero the loop would not end.\<close>

partial_function (option) grow_loop :: "u64 \<Rightarrow> u64 \<Rightarrow> u64 \<Rightarrow> u64 \<Rightarrow> u64 option option" where
  "grow_loop grow max_bytes next_used target =
     (if target < next_used then
        (if max_bytes < sat_add64 target grow then Some None
         else grow_loop grow max_bytes next_used (sat_add64 target grow))
      else Some (Some target))"

definition keep_used :: "u64 \<Rightarrow> arena \<Rightarrow> arena" where
  "keep_used next_used a =
     a\<lparr> ar_used_bytes := next_used,
        ar_last_query_reserved_peak := max (ar_last_query_reserved_peak a) (ar_reserved_bytes a) \<rparr>"

definition set_live_bytes ::
  "u64 \<Rightarrow> string \<Rightarrow> arena \<times> query_budget \<times> retained_cap
     \<Rightarrow> (arena_cap + arena \<times> query_budget \<times> retained_cap) option" where
  "set_live_bytes live_bytes stage st =
     (case st of (a, b, r) \<Rightarrow>
      let requested = sat_sub64 live_bytes (ar_used_bytes a);
          refused = (\<lambda>req b. \<lparr> ac_worker_id = ar_worker_id a, ac_requested_bytes = req,
            ac_thread_used_bytes = ar_used_bytes a, ac_thread_cap_bytes = ar_max_bytes a,
            ac_global_used_bytes = qb_used_bytes b, ac_global_cap_bytes = qb_cap_bytes b,
            ac_query_id = qb_query_id b, ac_stage = stage \<rparr>)
      in if live_bytes \<le> ar_reserved_bytes a then Some (Inr (keep_used live_bytes a, b, r))
         else
           (case grow_loop (ar_grow_bytes a) (ar_max_bytes a) live_bytes (ar_reserved_bytes a) of
              None \<Rightarrow> None
            | Some None \<Rightarrow> Some (Inl (refused requested b))
            | Some (Some target) \<Rightarrow>
                let grow = sat_sub64 target (ar_reserved_bytes a) in
                (case try_reserve grow (ar_worker_id a) stage b of
                   Inl e \<Rightarrow> Some (Inl (e\<lparr> ac_worker_id := ar_worker_id a,
                     ac_thread_used_bytes := ar_used_bytes a, ac_thread_cap_bytes := ar_max_bytes a,
                     ac_stage := stage \<rparr>))
                 | Inr b \<Rightarrow>
                     Some (Inr (keep_used live_bytes (a\<lparr> ar_reserved_bytes := target \<rparr>), b,
                       add_live grow r)))))"

definition reserve_for ::
  "u64 \<Rightarrow> string \<Rightarrow> arena \<times> query_budget \<times> retained_cap
     \<Rightarrow> (arena_cap + arena \<times> query_budget \<times> retained_cap) option" where
  "reserve_for need_bytes stage st =
     set_live_bytes (sat_add64 (ar_used_bytes (fst st)) need_bytes) stage st"

definition reset_live_bytes :: "arena \<Rightarrow> arena" where
  "reset_live_bytes a = a\<lparr> ar_used_bytes := 0 \<rparr>"

definition end_query ::
  "release_policy \<Rightarrow> u64 \<Rightarrow> u32 \<Rightarrow> arena \<times> retained_cap \<Rightarrow> arena \<times> retained_cap" where
  "end_query policy keep_up_to_bytes decay_after_queries st =
     (case st of (a, r) \<Rightarrow>
      let idle = (if ar_used_bytes a \<le> ar_base_bytes a
                  then (if ar_idle_queries a = - 1 then - 1 else ar_idle_queries a + 1) else 0);
          desired = (case policy of
              ReleaseAll \<Rightarrow> ar_base_bytes a
            | KeepAll \<Rightarrow> ar_reserved_bytes a
            | KeepUpToMb \<Rightarrow> min (ar_reserved_bytes a) (max keep_up_to_bytes (ar_base_bytes a)));
          desired = (if decay_after_queries \<le> idle then min desired (ar_base_bytes a) else desired);
          (accepted, r) = adjust_retained (ar_reserved_bytes a) desired r
      in (a\<lparr> ar_idle_queries := idle, ar_reserved_bytes := max accepted (ar_base_bytes a),
             ar_used_bytes := 0 \<rparr>, r))"

section \<open>Workers side by side\<close>

text \<open>A worker with the requests still to make, the value it has loaded, what it was granted.\<close>

record budget_worker =
  bw_todo :: "u64 list"
  bw_loaded :: "u64 option"
  bw_granted :: nat
  bw_refused :: nat

inductive budget_step ::
  "u64 \<Rightarrow> u64 \<times> budget_worker list \<Rightarrow> u64 \<times> budget_worker list \<Rightarrow> bool" for cap where
  nothing: "i < length ws \<Longrightarrow> bw_todo (ws ! i) = 0 # rest \<Longrightarrow>
     budget_step cap (used, ws) (used, ws[i := (ws ! i)\<lparr> bw_todo := rest, bw_loaded := None \<rparr>])"
| loads: "i < length ws \<Longrightarrow> bw_todo (ws ! i) = add # rest \<Longrightarrow> add \<noteq> 0 \<Longrightarrow> bw_loaded (ws ! i) = None \<Longrightarrow>
     budget_step cap (used, ws) (used, ws[i := (ws ! i)\<lparr> bw_loaded := Some used \<rparr>])"
| refuses: "i < length ws \<Longrightarrow> bw_todo (ws ! i) = add # rest \<Longrightarrow> add \<noteq> 0 \<Longrightarrow>
     bw_loaded (ws ! i) = Some current \<Longrightarrow> cap < sat_add64 current add \<Longrightarrow>
     budget_step cap (used, ws) (used, ws[i := (ws ! i)\<lparr> bw_todo := rest, bw_loaded := None,
       bw_refused := bw_refused (ws ! i) + 1 \<rparr>])"
| swaps: "i < length ws \<Longrightarrow> bw_todo (ws ! i) = add # rest \<Longrightarrow> add \<noteq> 0 \<Longrightarrow>
     bw_loaded (ws ! i) = Some current \<Longrightarrow> \<not> cap < sat_add64 current add \<Longrightarrow> used = current \<Longrightarrow>
     budget_step cap (used, ws) (sat_add64 current add, ws[i := (ws ! i)\<lparr> bw_todo := rest,
       bw_loaded := None, bw_granted := bw_granted (ws ! i) + unat add \<rparr>])"
| retries: "i < length ws \<Longrightarrow> bw_todo (ws ! i) = add # rest \<Longrightarrow> add \<noteq> 0 \<Longrightarrow>
     bw_loaded (ws ! i) = Some current \<Longrightarrow> \<not> cap < sat_add64 current add \<Longrightarrow> used \<noteq> current \<Longrightarrow>
     budget_step cap (used, ws) (used, ws[i := (ws ! i)\<lparr> bw_loaded := None \<rparr>])"

end
