(* ===== verification/Memory_Properties.thy ===== *)
theory Memory_Properties
  imports Mem_Budget
begin

text \<open>
  Facts about the memory accounting: the swaps of the workers end under every schedule and never
  pass the cap, an arena stays between its base and its maximum and grows by the least number
  of steps, and where the retained total stops being the sum of what the arenas keep. At the end,
  the properties of what the workers share.
\<close>

section \<open>Saturating arithmetic\<close>

lemma unat_sat_add64: "unat (sat_add64 a b) = min (2 ^ 64 - 1) (unat a + unat b)"
proof (cases "unat a + unat b < 2 ^ 64")
  case True
  then show ?thesis by (simp add: sat_add64_def unat_word_ariths)
next
  case False
  have "unat (- 1 :: u64) = 2 ^ 64 - 1" by (simp add: unsigned_minus_1_eq_mask mask_eq_exp_minus_1)
  with False show ?thesis by (simp add: sat_add64_def)
qed

lemma unat_sat_sub64: "unat (sat_sub64 a b) = unat a - unat b"
  by (simp add: sat_sub64_def unat_sub_if_size word_le_nat_alt)

lemma word_less_nat64: "(a :: u64) < b \<longleftrightarrow> unat a < unat b" "(a :: u64) \<le> b \<longleftrightarrow> unat a \<le> unat b"
  by (simp_all add: word_less_nat_alt word_le_nat_alt)

lemma unat_max64: "unat (max a b :: u64) = max (unat a) (unat b)" "unat (min a b :: u64) = min (unat a) (unat b)"
  by (simp_all add: max_def min_def word_less_nat64)

lemma unat_bound64: "unat (a :: u64) < 2 ^ 64"
  using unsigned_less [of a] by simp

lemmas sat_nat = unat_sat_add64 unat_sat_sub64 word_less_nat64 unat_max64

section \<open>The swaps end\<close>

definition todo_left :: "u64 \<times> budget_worker list \<Rightarrow> nat" where
  "todo_left st = sum_list (map (\<lambda>w. length (bw_todo w)) (snd st))"

definition phase :: "u64 \<Rightarrow> budget_worker \<Rightarrow> nat" where
  "phase used w = (case bw_loaded w of None \<Rightarrow> 2 | Some current \<Rightarrow> if current = used then 1 else 3)"

definition phases :: "u64 \<times> budget_worker list \<Rightarrow> nat" where
  "phases st = sum_list (map (phase (fst st)) (snd st))"

lemma sum_update:
  "i < length ws \<Longrightarrow> sum_list (map f (ws[i := w])) + f (ws ! i) = sum_list (map f ws) + (f w :: nat)"
proof (induction ws arbitrary: i)
  case (Cons x xs)
  then show ?case by (cases i) auto
qed simp

lemma sum_update_less: "i < length ws \<Longrightarrow> f w < f (ws ! i) \<Longrightarrow> sum_list (map f (ws[i := w])) < sum_list (map f ws :: nat list)"
  using sum_update [of i ws f w] by linarith

lemma sum_update_same: "i < length ws \<Longrightarrow> f w = f (ws ! i) \<Longrightarrow> sum_list (map f (ws[i := w])) = sum_list (map f ws :: nat list)"
  using sum_update [of i ws f w] by linarith

lemma budget_step_decreases:
  "budget_step cap st st' \<Longrightarrow>
     todo_left st' < todo_left st \<or> todo_left st' = todo_left st \<and> phases st' < phases st"
  by (induction rule: budget_step.induct)
    (auto simp: todo_left_def phases_def phase_def intro!: sum_update_less sum_update_same)

lemma budget_steps_end: "wfp (\<lambda>st' st. budget_step cap st st')"
proof -
  have "{(st', st). budget_step cap st st'} \<subseteq> measures [todo_left, phases]"
    using budget_step_decreases by (auto simp: measures_def)
  then have "wf {(st', st). budget_step cap st st'}" by (rule wf_subset [OF wf_measures])
  then show ?thesis by (simp add: wfp_def)
qed

lemma budget_progress:
  assumes "i < length ws" "bw_todo (ws ! i) \<noteq> []"
  shows "\<exists>st'. budget_step cap (used, ws) st'"
proof -
  obtain add rest where t: "bw_todo (ws ! i) = add # rest" using assms(2) by (cases "bw_todo (ws ! i)") auto
  consider "add = 0" | "add \<noteq> 0" "bw_loaded (ws ! i) = None"
    | current where "add \<noteq> 0" "bw_loaded (ws ! i) = Some current" by fastforce
  then show ?thesis
  proof cases
    case 1
    with t assms(1) show ?thesis by (auto intro: budget_step.nothing)
  next
    case 2
    with t assms(1) show ?thesis by (auto intro: budget_step.loads)
  next
    case 3
    note s = assms(1) t 3
    show ?thesis
      using budget_step.refuses [OF s, of cap used] budget_step.swaps [OF s, of cap used]
        budget_step.retries [OF s, of cap used] by blast
  qed
qed

section \<open>What the budget keeps\<close>

definition granted :: "budget_worker list \<Rightarrow> nat" where
  "granted ws = sum_list (map bw_granted ws)"

text \<open>No loaded value is above the budget, so a refusal holds at the time it is made.\<close>

definition budget_inv :: "u64 \<Rightarrow> nat \<Rightarrow> u64 \<times> budget_worker list \<Rightarrow> bool" where
  "budget_inv cap u0 st \<longleftrightarrow> fst st \<le> cap \<and> unat (fst st) = min (2 ^ 64 - 1) (u0 + granted (snd st)) \<and>
     list_all (\<lambda>w. \<forall>current. bw_loaded w = Some current \<longrightarrow> current \<le> fst st) (snd st)"

lemma list_all_at: "list_all P ws \<Longrightarrow> i < length ws \<Longrightarrow> P (ws ! i)"
  by (simp add: list_all_length)

lemma granted_same: "i < length ws \<Longrightarrow> bw_granted w = bw_granted (ws ! i) \<Longrightarrow> granted (ws[i := w]) = granted ws"
  by (simp add: granted_def sum_update_same)

lemma budget_step_inv:
  assumes "budget_step cap st st'" "budget_inv cap u0 st"
  shows "budget_inv cap u0 st'"
  using assms
proof (induction rule: budget_step.induct)
  case (swaps i ws add rest current used)
  let ?w = "(ws ! i)\<lparr> bw_todo := rest, bw_loaded := None, bw_granted := bw_granted (ws ! i) + unat add \<rparr>"
  have "granted (ws[i := ?w]) = granted ws + unat add"
    using sum_update [OF swaps(1), of bw_granted ?w] by (simp add: granted_def)
  then have "unat (sat_add64 current add) = min (2 ^ 64 - 1) (u0 + granted (ws[i := ?w]))"
    using swaps(6,7) by (simp add: budget_inv_def unat_sat_add64)
  moreover have "used \<le> sat_add64 current add"
    using swaps(6) unat_bound64 [of current] by (simp add: sat_nat)
  then have "list_all (\<lambda>w. \<forall>c. bw_loaded w = Some c \<longrightarrow> c \<le> sat_add64 current add) (ws[i := ?w])"
    using swaps(7) by (intro list_all_update) (auto simp: budget_inv_def list_all_iff intro: order_trans)
  ultimately show ?case using swaps(5) by (simp add: budget_inv_def)
qed (auto simp: budget_inv_def granted_same intro!: list_all_update)

lemma budget_steps_inv:
  "(budget_step cap)\<^sup>*\<^sup>* st st' \<Longrightarrow> budget_inv cap u0 st \<Longrightarrow> budget_inv cap u0 st'"
  by (induction rule: rtranclp_induct) (auto intro: budget_step_inv)

text \<open>One worker alone: its swap does what the call does.\<close>

lemma try_reserve_step:
  assumes "add \<noteq> 0" "bw_todo w = [add]" "bw_loaded w = None"
  shows "\<exists>used' w'. (budget_step (qb_cap_bytes b))\<^sup>*\<^sup>* (qb_used_bytes b, [w]) (used', [w']) \<and> bw_todo w' = [] \<and>
    (case try_reserve add wid stage b of
       Inl e \<Rightarrow> used' = qb_used_bytes b \<and> bw_refused w' = bw_refused w + 1
     | Inr b' \<Rightarrow> used' = qb_used_bytes b' \<and> bw_refused w' = bw_refused w)"
proof -
  let ?cap = "qb_cap_bytes b" and ?u = "qb_used_bytes b" and ?w = "w\<lparr> bw_loaded := Some (qb_used_bytes b) \<rparr>"
  have l: "budget_step ?cap (?u, [w]) (?u, [?w])"
    using budget_step.loads [of 0 "[w]" add "[]" ?cap ?u] assms by simp
  show ?thesis
  proof (cases "?cap < sat_add64 ?u add")
    case True
    then have "budget_step ?cap (?u, [?w]) (?u, [w\<lparr> bw_todo := [], bw_loaded := None, bw_refused := bw_refused w + 1 \<rparr>])"
      using budget_step.refuses [of 0 "[?w]" add "[]" ?u ?cap ?u] assms by simp
    with l have "(budget_step ?cap)\<^sup>*\<^sup>* (?u, [w]) (?u, [w\<lparr> bw_todo := [], bw_loaded := None, bw_refused := bw_refused w + 1 \<rparr>])"
      by (meson converse_rtranclp_into_rtranclp r_into_rtranclp)
    with True assms(1) show ?thesis
      by (intro exI [of _ ?u] exI [of _ "w\<lparr> bw_todo := [], bw_loaded := None, bw_refused := bw_refused w + 1 \<rparr>"])
        (simp add: try_reserve_def Let_def)
  next
    case False
    let ?v = "w\<lparr> bw_todo := [], bw_loaded := None, bw_granted := bw_granted w + unat add \<rparr>"
    have "budget_step ?cap (?u, [?w]) (sat_add64 ?u add, [?v])"
      using budget_step.swaps [of 0 "[?w]" add "[]" ?u ?cap ?u] False assms by simp
    with l have "(budget_step ?cap)\<^sup>*\<^sup>* (?u, [w]) (sat_add64 ?u add, [?v])"
      by (meson converse_rtranclp_into_rtranclp r_into_rtranclp)
    with False assms(1) show ?thesis
      by (intro exI [of _ "sat_add64 ?u add"] exI [of _ ?v]) (simp add: try_reserve_def Let_def)
  qed
qed

section \<open>The arena\<close>

definition arena_ok :: "arena \<Rightarrow> bool" where
  "arena_ok a \<longleftrightarrow> 0 < ar_grow_bytes a \<and> 0 < ar_base_bytes a \<and> ar_base_bytes a \<le> ar_reserved_bytes a \<and>
     ar_reserved_bytes a \<le> ar_max_bytes a \<and> ar_used_bytes a \<le> ar_reserved_bytes a"

lemma arena_new_ok: "arena_ok (arena_new worker_id base_bytes grow_bytes max_bytes)"
  by (simp add: arena_ok_def arena_new_def Let_def sat_nat less_max_iff_disj)

lemma grow_loop_unfold:
  "\<not> target < next_used \<Longrightarrow> grow_loop grow mx next_used target = Some (Some target)"
  "target < next_used \<Longrightarrow> mx < sat_add64 target grow \<Longrightarrow> grow_loop grow mx next_used target = Some None"
  "target < next_used \<Longrightarrow> \<not> mx < sat_add64 target grow \<Longrightarrow>
     grow_loop grow mx next_used target = grow_loop grow mx next_used (sat_add64 target grow)"
  by (subst grow_loop.simps, simp)+

text \<open>The least number of steps from the target that reaches \<open>next_used\<close>, saturated.\<close>

lemma grow_loop_ok:
  assumes "0 < grow" "target \<le> mx"
  shows "\<exists>r. grow_loop grow mx next_used target = Some r \<and>
    (case r of
       None \<Rightarrow> unat mx < unat next_used + unat grow
     | Some t \<Rightarrow> next_used \<le> t \<and> t \<le> mx \<and> target \<le> t \<and> (target < next_used \<longrightarrow> unat t < unat next_used + unat grow))"
  using assms
proof (induction "2 ^ 64 - unat target" arbitrary: target rule: less_induct)
  case less
  show ?case
  proof (cases "target < next_used")
    case False
    with less.prems show ?thesis by (simp add: grow_loop_unfold)
  next
    case True
    show ?thesis
    proof (cases "mx < sat_add64 target grow")
      case over: True
      with True have "unat mx < unat next_used + unat grow" by (auto simp: sat_nat)
      with over True show ?thesis by (simp add: grow_loop_unfold)
    next
      case False
      let ?t = "sat_add64 target grow"
      have g: "0 < unat grow" using less.prems(1) by (simp add: word_less_nat_alt)
      have lt: "unat target < unat next_used" using True by (simp add: sat_nat)
      have t: "unat target < unat ?t" "unat ?t \<le> unat target + unat grow"
        using g lt unat_bound64 [of next_used] by (auto simp: sat_nat min_def)
      have "2 ^ 64 - unat ?t < 2 ^ 64 - unat target" using t(1) unat_bound64 [of ?t] by linarith
      from less.hyps [OF this less.prems(1)] False obtain r where r: "grow_loop grow mx next_used ?t = Some r"
        "case r of None \<Rightarrow> unat mx < unat next_used + unat grow | Some u \<Rightarrow> next_used \<le> u \<and> u \<le> mx \<and> ?t \<le> u \<and>
          (?t < next_used \<longrightarrow> unat u < unat next_used + unat grow)" by (auto simp: not_less)
      have "grow_loop grow mx next_used target = Some r"
        using True False r(1) by (simp add: grow_loop_unfold)
      moreover have "case r of None \<Rightarrow> unat mx < unat next_used + unat grow | Some u \<Rightarrow> next_used \<le> u \<and> u \<le> mx \<and> target \<le> u \<and>
          (target < next_used \<longrightarrow> unat u < unat next_used + unat grow)"
      proof (cases r)
        case (Some u)
        have "unat u < unat next_used + unat grow"
        proof (cases "?t < next_used")
          case False
          then have "grow_loop grow mx next_used ?t = Some (Some ?t)" by (rule grow_loop_unfold)
          then show ?thesis using r(1) Some t lt by simp
        qed (use r(2) Some in simp)
        then show ?thesis using r(2) Some t(1) by (auto simp: word_less_nat64)
      qed (use r(2) in simp)
      ultimately show ?thesis by blast
    qed
  qed
qed

definition same_limits :: "arena \<Rightarrow> arena \<Rightarrow> bool" where
  "same_limits a a' \<longleftrightarrow> ar_base_bytes a' = ar_base_bytes a \<and> ar_grow_bytes a' = ar_grow_bytes a \<and>
     ar_max_bytes a' = ar_max_bytes a"

text \<open>What an accepted and a refused growth are.\<close>

definition grown :: "u64 \<Rightarrow> arena \<times> query_budget \<times> retained_cap \<Rightarrow> arena \<times> query_budget \<times> retained_cap \<Rightarrow> bool" where
  "grown live st st' \<longleftrightarrow> (case (st, st') of ((a, b, r), (a', b', r')) \<Rightarrow>
     arena_ok a' \<and> same_limits a a' \<and> ar_used_bytes a' = live \<and> ar_reserved_bytes a \<le> ar_reserved_bytes a' \<and>
     (ar_reserved_bytes a' = ar_reserved_bytes a \<or>
      unat (ar_reserved_bytes a') < unat live + unat (ar_grow_bytes a)) \<and>
     qb_cap_bytes b' = qb_cap_bytes b \<and>
     unat (qb_used_bytes b') = min (2 ^ 64 - 1)
       (unat (qb_used_bytes b) + (unat (ar_reserved_bytes a') - unat (ar_reserved_bytes a))) \<and>
     (qb_used_bytes b \<le> qb_cap_bytes b \<longrightarrow> qb_used_bytes b' \<le> qb_cap_bytes b'))"

definition too_much :: "u64 \<Rightarrow> arena \<times> query_budget \<times> retained_cap \<Rightarrow> bool" where
  "too_much live st \<longleftrightarrow> (case st of (a, b, r) \<Rightarrow>
     ar_reserved_bytes a < live \<and>
     (unat (ar_max_bytes a) < unat live + unat (ar_grow_bytes a) \<or>
      unat (qb_cap_bytes b) < unat (qb_used_bytes b) +
        (unat live - unat (ar_reserved_bytes a)) + unat (ar_grow_bytes a)))"

lemma set_live_bytes_ok:
  assumes a: "arena_ok a"
  shows "\<exists>res. set_live_bytes live stage (a, b, r) = Some res \<and>
    (case res of Inl e \<Rightarrow> too_much live (a, b, r) | Inr st' \<Rightarrow> grown live (a, b, r) st')"
proof (cases "live \<le> ar_reserved_bytes a")
  case True
  then have "set_live_bytes live stage (a, b, r) = Some (Inr (keep_used live a, b, r))"
    by (simp add: set_live_bytes_def Let_def)
  moreover have "min (2 ^ 64 - 1) (unat (qb_used_bytes b)) = unat (qb_used_bytes b)"
    using unat_bound64 [of "qb_used_bytes b"] by linarith
  ultimately show ?thesis using a True
    by (intro exI [of _ "Inr (keep_used live a, b, r)"]) (simp add: grown_def keep_used_def arena_ok_def same_limits_def)
next
  case False
  then have lt: "unat (ar_reserved_bytes a) < unat live" "ar_reserved_bytes a < live" by (simp_all add: sat_nat)
  let ?loop = "grow_loop (ar_grow_bytes a) (ar_max_bytes a) live (ar_reserved_bytes a)"
  obtain g where g: "?loop = Some g" "case g of
       None \<Rightarrow> unat (ar_max_bytes a) < unat live + unat (ar_grow_bytes a)
     | Some t \<Rightarrow> live \<le> t \<and> t \<le> ar_max_bytes a \<and> ar_reserved_bytes a \<le> t \<and>
         (ar_reserved_bytes a < live \<longrightarrow> unat t < unat live + unat (ar_grow_bytes a))"
    using grow_loop_ok [of "ar_grow_bytes a" "ar_reserved_bytes a" "ar_max_bytes a" live] a
    by (auto simp: arena_ok_def)
  show ?thesis
  proof (cases g)
    case None
    with False g lt show ?thesis by (simp add: set_live_bytes_def Let_def too_much_def)
  next
    case (Some t)
    with g lt have t: "live \<le> t" "t \<le> ar_max_bytes a" "ar_reserved_bytes a \<le> t"
      "unat t < unat live + unat (ar_grow_bytes a)" by simp_all
    let ?d = "sat_sub64 t (ar_reserved_bytes a)"
    have d: "unat ?d = unat t - unat (ar_reserved_bytes a)" "?d \<noteq> 0"
      using lt t(1) by (auto simp: sat_nat unat_eq_zero [symmetric])
    show ?thesis
    proof (cases "try_reserve ?d (ar_worker_id a) stage b")
      case (Inl e)
      then have "unat (qb_cap_bytes b) < unat (qb_used_bytes b) + unat ?d"
        using d(2) by (auto simp: try_reserve_def Let_def sat_nat split: if_splits)
      then have "unat (qb_cap_bytes b) < unat (qb_used_bytes b) + (unat live - unat (ar_reserved_bytes a)) + unat (ar_grow_bytes a)"
        using d(1) t(4) lt(1) by linarith
      with False g(1) Some Inl lt(2) show ?thesis by (simp add: set_live_bytes_def Let_def too_much_def)
    next
      case (Inr b')
      then have b': "b' = b\<lparr> qb_used_bytes := sat_add64 (qb_used_bytes b) ?d \<rparr>" "sat_add64 (qb_used_bytes b) ?d \<le> qb_cap_bytes b"
        using d(2) by (auto simp: try_reserve_def Let_def not_less split: if_splits)
      have "set_live_bytes live stage (a, b, r) = Some (Inr (keep_used live (a\<lparr> ar_reserved_bytes := t \<rparr>), b', add_live ?d r))"
        using False g(1) Some Inr by (simp add: set_live_bytes_def Let_def)
      moreover have "grown live (a, b, r) (keep_used live (a\<lparr> ar_reserved_bytes := t \<rparr>), b', add_live ?d r)"
        using a t d(1) b' order_trans [OF _ t(3), of "ar_base_bytes a"]
        by (simp add: grown_def keep_used_def arena_ok_def same_limits_def unat_sat_add64)
      ultimately show ?thesis by auto
    qed
  qed
qed

lemma adjust_retained_le: "fst (adjust_retained current desired r) \<le> desired"
  by (auto simp: adjust_retained_def Let_def sat_nat)

lemma end_query_ok:
  assumes "arena_ok a"
  shows "arena_ok (fst (end_query policy keep decay (a, r))) \<and>
    same_limits a (fst (end_query policy keep decay (a, r))) \<and>
    ar_reserved_bytes (fst (end_query policy keep decay (a, r))) \<le> ar_reserved_bytes a"
proof -
  define idle where "idle = (if ar_used_bytes a \<le> ar_base_bytes a
      then (if ar_idle_queries a = - 1 then - 1 else ar_idle_queries a + 1) else 0)"
  define want where "want = (case policy of ReleaseAll \<Rightarrow> ar_base_bytes a | KeepAll \<Rightarrow> ar_reserved_bytes a
      | KeepUpToMb \<Rightarrow> min (ar_reserved_bytes a) (max keep (ar_base_bytes a)))"
  define desired where "desired = (if decay \<le> idle then min want (ar_base_bytes a) else want)"
  have base: "ar_base_bytes a \<le> ar_reserved_bytes a" using assms by (simp add: arena_ok_def)
  then have "want \<le> ar_reserved_bytes a" by (auto simp: want_def split: release_policy.splits)
  then have "desired \<le> ar_reserved_bytes a" by (simp add: desired_def min.coboundedI1)
  then have acc: "fst (adjust_retained (ar_reserved_bytes a) desired r) \<le> ar_reserved_bytes a"
    using adjust_retained_le order_trans by blast
  have "end_query policy keep decay (a, r) =
      (a\<lparr> ar_idle_queries := idle, ar_reserved_bytes := max (fst (adjust_retained (ar_reserved_bytes a) desired r)) (ar_base_bytes a),
          ar_used_bytes := 0 \<rparr>, snd (adjust_retained (ar_reserved_bytes a) desired r))"
    unfolding end_query_def prod.case Let_def desired_def want_def idle_def by (simp only: case_prod_beta)
  with assms acc base show ?thesis by (auto simp: arena_ok_def same_limits_def)
qed

section \<open>Sequences of calls\<close>

datatype arena_call =
    Begin_Query | Set_Live u64 string | Reserve_For u64 string | Reset_Live
  | End_Query release_policy u64 u32 | Set_Cap u64

text \<open>A refused call leaves the state as it is; \<open>None\<close> is a call that does not return.\<close>

fun run_call :: "arena \<times> query_budget \<times> retained_cap \<Rightarrow> arena_call \<Rightarrow> (arena \<times> query_budget \<times> retained_cap) option" where
  "run_call (a, b, r) Begin_Query = Some (begin_query a, b, r)"
| "run_call st (Set_Live live stage) =
     map_option (\<lambda>res. case res of Inl e \<Rightarrow> st | Inr st' \<Rightarrow> st') (set_live_bytes live stage st)"
| "run_call st (Reserve_For need stage) =
     map_option (\<lambda>res. case res of Inl e \<Rightarrow> st | Inr st' \<Rightarrow> st') (reserve_for need stage st)"
| "run_call (a, b, r) Reset_Live = Some (reset_live_bytes a, b, r)"
| "run_call (a, b, r) (End_Query policy keep decay) =
     (case end_query policy keep decay (a, r) of (a, r) \<Rightarrow> Some (a, b, r))"
| "run_call (a, b, r) (Set_Cap cap) = Some (a, b, set_cap_bytes cap r)"

fun run_calls :: "arena \<times> query_budget \<times> retained_cap \<Rightarrow> arena_call list \<Rightarrow> (arena \<times> query_budget \<times> retained_cap) option" where
  "run_calls st [] = Some st"
| "run_calls st (c # cs) = Option.bind (run_call st c) (\<lambda>st. run_calls st cs)"

definition accounts_ok :: "arena \<times> query_budget \<times> retained_cap \<Rightarrow> bool" where
  "accounts_ok st \<longleftrightarrow> (case st of (a, b, r) \<Rightarrow> arena_ok a \<and> qb_used_bytes b \<le> qb_cap_bytes b)"

lemma run_call_ok:
  assumes "accounts_ok st"
  shows "\<exists>st'. run_call st c = Some st' \<and> accounts_ok st'"
proof -
  obtain a b r where st: "st = (a, b, r)" by (cases st) auto
  have ok: "arena_ok a" "qb_used_bytes b \<le> qb_cap_bytes b" using assms st by (simp_all add: accounts_ok_def)
  have live: "\<exists>res. set_live_bytes live stage (a, b, r) = Some res \<and>
      accounts_ok (case res of Inl e \<Rightarrow> (a, b, r) | Inr st' \<Rightarrow> st')" for live stage
  proof -
    obtain res where res: "set_live_bytes live stage (a, b, r) = Some res"
      "case res of Inl e \<Rightarrow> too_much live (a, b, r) | Inr st' \<Rightarrow> grown live (a, b, r) st'"
      using set_live_bytes_ok [OF ok(1)] by blast
    then show ?thesis using ok by (cases res) (auto simp: accounts_ok_def grown_def split: prod.splits)
  qed
  show ?thesis
  proof (cases c)
    case (Set_Live x stage)
    obtain res where "set_live_bytes x stage (a, b, r) = Some res"
      "accounts_ok (case res of Inl e \<Rightarrow> (a, b, r) | Inr st' \<Rightarrow> st')" using live by blast
    with Set_Live st show ?thesis by simp
  next
    case (Reserve_For x stage)
    obtain res where "set_live_bytes (sat_add64 (ar_used_bytes a) x) stage (a, b, r) = Some res"
      "accounts_ok (case res of Inl e \<Rightarrow> (a, b, r) | Inr st' \<Rightarrow> st')" using live by blast
    with Reserve_For st show ?thesis by (simp add: reserve_for_def)
  next
    case (End_Query policy keep decay)
    then show ?thesis using end_query_ok [OF ok(1), of policy keep decay r] ok(2) st
      by (auto simp: accounts_ok_def split: prod.split)
  qed (use st ok in \<open>auto simp: accounts_ok_def begin_query_def reset_live_bytes_def arena_ok_def\<close>)
qed

lemma run_calls_ok: "accounts_ok st \<Longrightarrow> \<exists>st'. run_calls st cs = Some st' \<and> accounts_ok st'"
proof (induction cs arbitrary: st)
  case (Cons c cs)
  obtain st1 where "run_call st c = Some st1" "accounts_ok st1" using run_call_ok [OF Cons.prems] by blast
  with Cons.IH show ?case by simp
qed simp

text \<open>
  The total of the retained cap is not the sum of what the arenas keep: an arena keeps at least
  its base, the cap accounts for what it accepted. The next call of that arena subtracts its base
  from the bytes of the others.
\<close>

lemma retained_drift:
  "let r = retained_with_initial 10 10; a = arena_new 0 8 1 8;
       (a', r') = end_query ReleaseAll 0 9 (a, r\<lparr> rt_total_retained := 12 \<rparr>) in
   ar_reserved_bytes a' = 8 \<and> rt_total_retained r' = 10 \<and> fst (adjust_retained 8 8 (r\<lparr> rt_total_retained := 12 \<rparr>)) = 6"
  by (simp add: retained_with_initial_def arena_new_def end_query_def adjust_retained_def Let_def sat_sub64_def sat_add64_def)

section \<open>Properties of the cache of reads, the budget of a query and the arenas\<close>

text \<open>C5: Every sequence of calls on a new arena returns, also those whose growth loops, and keeps the
  arena well formed: it holds at least its base and at most its maximum, uses no more than it
  holds, and the query's budget is not passed. A further growth to any number of live bytes
  returns: it is refused only if it would be too much but for one step, and otherwise the arena
  uses these bytes, holds less than one step more, and the budget is charged for the growth.\<close>

theorem arena_calls:
  "\<exists>a b r. run_calls (arena_new worker base_bytes grow_bytes max_bytes, query_budget_new cap query used0, r0) calls =
      Some (a, b, r) \<and>
    ar_base_bytes a \<le> ar_reserved_bytes a \<and> ar_reserved_bytes a \<le> ar_max_bytes a \<and>
    ar_used_bytes a \<le> ar_reserved_bytes a \<and> qb_used_bytes b \<le> qb_cap_bytes b \<and>
    (\<exists>res. set_live_bytes live stage (a, b, r) = Some res \<and>
      (case res of Inl e \<Rightarrow> too_much live (a, b, r) | Inr st \<Rightarrow> grown live (a, b, r) st))"
proof -
  have "accounts_ok (arena_new worker base_bytes grow_bytes max_bytes, query_budget_new cap query used0, r0)"
    by (simp add: accounts_ok_def arena_new_ok query_budget_new_def)
  then obtain a b r where run: "run_calls (arena_new worker base_bytes grow_bytes max_bytes,
      query_budget_new cap query used0, r0) calls = Some (a, b, r)" and ok: "accounts_ok (a, b, r)"
    using run_calls_ok by (metis prod_cases3)
  then show ?thesis using set_live_bytes_ok [of a live stage b r] by (auto simp: accounts_ok_def arena_ok_def)
qed

text \<open>C7: Workers that reserve from the budget of a query side by side, each with compare-and-swap and
  retry: under every schedule the reservations end (there is no infinite run), a run that stops
  has answered every request, the budget never passes its cap, and it is the initial use plus
  all that was granted, saturated at 64 bits.\<close>

theorem budget_runs_end:
  assumes "(budget_step cap)\<^sup>*\<^sup>*
      (qb_used_bytes (query_budget_new cap query used0),
       map (\<lambda>adds. \<lparr> bw_todo = adds, bw_loaded = None, bw_granted = 0, bw_refused = 0 \<rparr>) jobs) (used, ws)"
  shows "wfp (\<lambda>st' st. budget_step cap st st') \<and> used \<le> cap \<and>
    unat used = min (2 ^ 64 - 1) (unat (min used0 cap) + sum_list (map bw_granted ws)) \<and>
    ((\<exists>st'. budget_step cap (used, ws) st') \<or> list_all (\<lambda>w. bw_todo w = []) ws)"
proof -
  let ?ws0 = "map (\<lambda>adds. \<lparr> bw_todo = adds, bw_loaded = None, bw_granted = 0, bw_refused = 0 \<rparr>) jobs"
  have "granted ?ws0 = 0" by (induction jobs) (simp_all add: granted_def)
  moreover have "min (2 ^ 64 - 1) (unat (min used0 cap)) = unat (min used0 cap)"
    using unat_bound64 [of "min used0 cap"] by linarith
  ultimately have "budget_inv cap (unat (min used0 cap)) (qb_used_bytes (query_budget_new cap query used0), ?ws0)"
    by (simp add: budget_inv_def query_budget_new_def list.pred_map list.pred_True comp_def)
  from budget_steps_inv [OF assms this] have inv: "budget_inv cap (unat (min used0 cap)) (used, ws)" .
  have "(\<exists>st'. budget_step cap (used, ws) st') \<or> list_all (\<lambda>w. bw_todo w = []) ws"
    using budget_progress [of _ ws cap used] by (auto simp: list_all_length)
  with inv budget_steps_end [of cap] show ?thesis by (simp add: budget_inv_def granted_def)
qed

theorem budget_runs_end_witness:
  "(budget_step 10)\<^sup>*\<^sup>* (1, [\<lparr> bw_todo = [4], bw_loaded = None, bw_granted = 0, bw_refused = 0 \<rparr>])
     (5, [\<lparr> bw_todo = [], bw_loaded = None, bw_granted = 4, bw_refused = 0 \<rparr>]) \<and>
   wfp (\<lambda>st' st. budget_step 10 st st') \<and>
   unat (5 :: u64) = min (2 ^ 64 - 1) (unat (min 1 10 :: u64) + sum_list (map bw_granted
      [\<lparr> bw_todo = [], bw_loaded = None, bw_granted = 4, bw_refused = 0 \<rparr>]))"
proof -
  let ?w = "\<lparr> bw_todo = [4], bw_loaded = None, bw_granted = 0, bw_refused = 0 \<rparr> :: budget_worker"
  let ?v = "\<lparr> bw_todo = [], bw_loaded = None, bw_granted = 4, bw_refused = 0 \<rparr> :: budget_worker"
  have "budget_step 10 (1, [?w]) (1, [?w\<lparr> bw_loaded := Some 1 \<rparr>])"
    using budget_step.loads [of 0 "[?w]" 4 "[]" 10 1] by simp
  moreover have "sat_add64 1 4 = 5" by (simp add: sat_add64_def)
  then have "budget_step 10 (1, [?w\<lparr> bw_loaded := Some 1 \<rparr>]) (5, [?v])"
    using budget_step.swaps [of 0 "[?w\<lparr> bw_loaded := Some 1 \<rparr>]" 4 "[]" 1 10 1] by simp
  ultimately have run: "(budget_step 10)\<^sup>*\<^sup>* (1, [?w]) (5, [?v])"
    by (meson converse_rtranclp_into_rtranclp r_into_rtranclp)
  then have "(budget_step 10)\<^sup>*\<^sup>* (qb_used_bytes (query_budget_new 10 0 1),
      map (\<lambda>adds. \<lparr> bw_todo = adds, bw_loaded = None, bw_granted = 0, bw_refused = 0 \<rparr>) [[4]]) (5, [?v])"
    by (simp add: query_budget_new_def min_def)
  from budget_runs_end [OF this] run show ?thesis by blast
qed

text \<open>C11: Readers of one file that share the cache, with lookups, reads and stores of different
  readers in any order: every finished read has what the file has there (or the error of reading
  it), and the cache accounts for exactly the bytes that it holds and stays within its limit.\<close>

theorem cached_reads:
  assumes "(cache_step content)\<^sup>*\<^sup>*
    (read_cache_new mib, map (\<lambda>(off, len). R_Start off len) ranges) (c, rs)"
  shows "ch_used_bytes c = cached_bytes (ch_map c) (ch_order c) \<and>
    ch_used_bytes c \<le> ch_max_bytes (read_cache_new mib) \<and>
    (i < length rs \<and> rs ! i = R_Done off len res \<longrightarrow> res = direct_read content off len)"
proof -
  have "list_all (reader_ok content) (map (\<lambda>(off, len). R_Start off len) ranges)"
    by (auto simp: list_all_iff)
  then have "readers_ok content (ch_max_bytes (read_cache_new mib))
      (read_cache_new mib, map (\<lambda>(off, len). R_Start off len) ranges)"
    by (simp add: readers_ok_def read_cache_new_ok)
  note ok = readers_okD [OF cache_steps_ok [OF assms this]]
  from ok(1,2) ok(4) [of i "R_Done off len res"] show ?thesis by (auto simp: cache_ok_def store_ok_def)
qed

theorem cached_reads_witness:
  "\<exists>c. (cache_step [7, 8])\<^sup>*\<^sup>* (read_cache_new (Some 1), [R_Start 1 1]) (c, [R_Done 1 1 (Ok [8])]) \<and>
     ch_used_bytes c = cached_bytes (ch_map c) (ch_order c) \<and> direct_read [7, 8] 1 1 = Ok [8]"
proof -
  let ?c0 = "read_cache_new (Some 1)"
  have look: "fst (cache_lookup 1 1 ?c0) = None"
    by (simp add: cache_lookup_def note_range_def read_cache_new_def Let_def split: option.split)
  define c1 where "c1 = snd (cache_lookup 1 1 ?c0)"
  have l: "cache_lookup 1 1 ?c0 = (None, c1)" using look by (simp add: c1_def prod_eq_iff)
  have read: "read_exact_at_file [7, 8] (unat (1 :: u64)) 1 = Ok [8]"
    by (simp add: read_exact_at_file_def capacity_overflow_def slice_def)
  have c1: "cache_ok [7, 8] c1" using cache_lookup_ok(3) [OF l] read_cache_new_ok by simp
  obtain w c2 where s: "cache_store (cache_key 1 1) [8] c1 = (w, c2)" by fastforce
  have w: "w = [8]" by (rule cache_store_ok(2) [OF s c1 _ read]) simp
  have "cache_step [7, 8] (?c0, [R_Start 1 1]) (c1, [R_Missed 1 1])"
    using cache_step.miss [of 0 "[R_Start 1 1]" 1 1 ?c0 c1] l by simp
  moreover have "cache_step [7, 8] (c1, [R_Missed 1 1]) (c1, [R_Store 1 1 [8]])"
    using cache_step.loaded [of 0 "[R_Missed 1 1]" 1 1 "[7, 8]" "[8]" c1] read by simp
  moreover have "cache_step [7, 8] (c1, [R_Store 1 1 [8]]) (c2, [R_Done 1 1 (Ok [8])])"
    using cache_step.stored [of 0 "[R_Store 1 1 [8]]" 1 1 "[8]" c1 w c2] s w by simp
  ultimately have run: "(cache_step [7, 8])\<^sup>*\<^sup>* (?c0, [R_Start 1 1]) (c2, [R_Done 1 1 (Ok [8])])"
    by (meson converse_rtranclp_into_rtranclp r_into_rtranclp)
  have "map (\<lambda>(off, len). R_Start off len) [(1, 1)] = [R_Start 1 1]" by simp
  with cached_reads [of "[7, 8]" "Some 1" "[(1, 1)]" c2 "[R_Done 1 1 (Ok [8])]" 0 1 1 "Ok [8]"] run
  show ?thesis by auto
qed

end
