(* ===== verification/Sql_Parser_Facts.thy ===== *)
theory Sql_Parser_Facts
  imports Sql_Parser
begin

text \<open>
  The parser on every text: the fuel is enough, every success has moved on, errors are inside the
  text, and a panic needs a byte that is not ASCII.
\<close>

section \<open>Tokens\<close>

lemma string_rest_le: "string_rest s \<le> length s"
  by (induction s rule: string_rest.induct) (auto split: list.splits)

lemma lex_token_length: "lex_token c rest = Some (k, n) \<Longrightarrow> 0 < n \<and> n \<le> Suc (length rest) \<and> k \<noteq> T_Eof"
  using length_takeWhile_le [of is_ident_continue rest] length_takeWhile_le [of is_digit rest] string_rest_le [of rest]
  by (auto simp: lex_token_def Let_def split: if_splits list.splits)

lemma keyword_kinds: "keyword_kind s = Some k \<Longrightarrow> k \<in> snd ` set keyword_table"
  by (auto simp: keyword_kind_def find_Some_iff) (metis image_eqI nth_mem snd_conv)

lemma keyword_not_eof: "keyword_kind s = Some k \<Longrightarrow> k \<noteq> T_Eof \<and> k \<noteq> T_Str"
  using keyword_kinds [of s k] by (auto simp: keyword_table_def)

text \<open>A token of a text, and the position after it.\<close>

definition tok_ok :: "bytes \<Rightarrow> nat \<Rightarrow> tok \<Rightarrow> bool" where
  "tok_ok s i t \<longleftrightarrow> i \<le> length s \<and> i = t_start t + length (t_lex t) \<and>
     (t_kind t = T_Eof \<longleftrightarrow> t_lex t = []) \<and> (t_kind t = T_Eof \<longrightarrow> i = length s) \<and> set (t_lex t) \<subseteq> set s"

lemma lex_next_ok:
  assumes "i \<le> length s"
  shows "case lex_next s i of
      Inl e \<Rightarrow> \<exists>msg at. e = Parse_Error msg at \<and> at \<le> length s
    | Inr (t, j) \<Rightarrow> tok_ok s j t \<and> i \<le> t_start t"
proof -
  define start where "start = i + length (takeWhile is_ws (drop i s))"
  have start: "start \<le> length s" "i \<le> start"
    using length_takeWhile_le [of is_ws "drop i s"] assms by (simp_all add: start_def)
  show ?thesis
  proof (cases "drop start s")
    case Nil
    then have "start = length s" using start(1) by simp
    with Nil start show ?thesis by (simp add: lex_next_def start_def [symmetric] Let_def tok_ok_def)
  next
    case (Cons c rest)
    then have len: "start + Suc (length rest) = length s" using start(1) by (metis diff_diff_cancel length_Cons length_drop
          le_add_diff_inverse)
    show ?thesis
    proof (cases "lex_token c rest")
      case None
      with Cons start show ?thesis by (simp add: lex_next_def start_def [symmetric] Let_def)
    next
      case (Some kn)
      obtain k n where kn: "kn = (k, n)" by (cases kn)
      with Some have n: "0 < n" "n \<le> Suc (length rest)" "k \<noteq> T_Eof" using lex_token_length by blast+
      let ?lex = "take n (drop start s)"
      let ?k = "if k = T_Ident then case keyword_kind ?lex of Some k \<Rightarrow> k | None \<Rightarrow> T_Ident else k"
      have k: "?k \<noteq> T_Eof" using n(3) keyword_not_eof by (auto split: option.split)
      have l: "length ?lex = n" using n(2) len by simp
      have "lex_next s i = Inr (\<lparr> t_kind = ?k, t_start = start, t_lex = ?lex \<rparr>, start + n)"
        using Cons Some kn by (simp add: lex_next_def start_def [symmetric] Let_def)
      moreover have "set ?lex \<subseteq> set s" by (meson order_trans set_drop_subset set_take_subset)
      ultimately show ?thesis using k l start n len by (auto simp: tok_ok_def)
    qed
  qed
qed

section \<open>Steps\<close>

definition parser_ok :: "parser \<Rightarrow> bool" where "parser_ok p \<longleftrightarrow> tok_ok (ps_text p) (ps_pos p) (ps_cur p)"

definition left_bytes :: "parser \<Rightarrow> nat" where "left_bytes p = length (ps_text p) - t_start (ps_cur p)"

text \<open>A step from \<open>p\<close> ends, moves on by at least \<open>k\<close> bytes where it succeeds, and fails inside the text.\<close>

definition moves :: "parser \<Rightarrow> nat \<Rightarrow> ('a \<Rightarrow> parser) \<Rightarrow> 'a presult option \<Rightarrow> bool" where
  "moves p k f r \<longleftrightarrow>
     (case r of
        None \<Rightarrow> False
      | Some (Inl (Parse_Error msg at)) \<Rightarrow> at \<le> length (ps_text p)
      | Some (Inl Slice_Panic) \<Rightarrow> \<exists>b \<in> set (ps_text p). 128 \<le> b
      | Some (Inr x) \<Rightarrow> parser_ok (f x) \<and> ps_text (f x) = ps_text p \<and> left_bytes (f x) + k \<le> left_bytes p)"

lemma moves_ret [simp]: "moves p k f (retP x) \<longleftrightarrow>
    parser_ok (f x) \<and> ps_text (f x) = ps_text p \<and> left_bytes (f x) + k \<le> left_bytes p"
  by (simp add: moves_def)

lemma moves_fail: "moves p k f (failP msg at) \<longleftrightarrow> at \<le> length (ps_text p)"
  by (simp add: moves_def)

lemma moves_panic [simp]: "moves p k f (Some (Inl Slice_Panic)) \<longleftrightarrow> (\<exists>b \<in> set (ps_text p). 128 \<le> b)"
  by (simp add: moves_def)

lemma bindP_simps [simp]:
  "bindP None h = None" "bindP (Some (Inl e)) h = Some (Inl e)" "bindP (Some (Inr x)) h = h x"
  by (simp_all add: bindP_def)

lemma moves_bind:
  assumes "moves p k f r"
    and "\<And>x. r = Some (Inr x) \<Longrightarrow> parser_ok (f x) \<Longrightarrow> ps_text (f x) = ps_text p \<Longrightarrow>
      left_bytes (f x) + k \<le> left_bytes p \<Longrightarrow> moves p j g (h x)"
  shows "moves p j g (bindP r h)"
proof (cases r)
  case (Some r')
  show ?thesis
  proof (cases r')
    case (Inl e)
    with Some assms(1) show ?thesis by (cases e) (simp_all add: moves_def)
  next
    case (Inr x)
    with Some assms show ?thesis by (simp add: moves_def)
  qed
qed (use assms(1) in \<open>simp add: moves_def\<close>)

lemma moves_trans:
  "moves q j g r \<Longrightarrow> ps_text q = ps_text p \<Longrightarrow> left_bytes q + k \<le> left_bytes p \<Longrightarrow> i \<le> j + k \<Longrightarrow> moves p i g r"
  by (auto simp: moves_def split: option.splits sum.splits parse_failure.splits)

lemma start_le: "parser_ok p \<Longrightarrow> t_start (ps_cur p) \<le> length (ps_text p)"
  by (simp add: parser_ok_def tok_ok_def)

lemma moves_bump:
  assumes "parser_ok p" "cur_kind p \<noteq> T_Eof \<or> k = 0" "k \<le> 1"
  shows "moves p k id (bump_token p)"
proof -
  have i: "ps_pos p \<le> length (ps_text p)" "ps_pos p = t_start (ps_cur p) + length (t_lex (ps_cur p))"
    "cur_kind p = T_Eof \<longleftrightarrow> t_lex (ps_cur p) = []"
    using assms(1) by (simp_all add: parser_ok_def tok_ok_def)
  have k: "t_start (ps_cur p) + k \<le> ps_pos p"
    using assms(2,3) i(2,3) by (cases "t_lex (ps_cur p)") auto
  note n = lex_next_ok [OF i(1)]
  show ?thesis
  proof (cases "lex_next (ps_text p) (ps_pos p)")
    case (Inl e)
    with n show ?thesis by (auto simp: bump_token_def moves_fail)
  next
    case (Inr tj)
    then obtain t j where tj: "lex_next (ps_text p) (ps_pos p) = Inr (t, j)" by (cases tj) auto
    with n have t: "tok_ok (ps_text p) j t" "ps_pos p \<le> t_start t" "t_start t \<le> length (ps_text p)"
      by (auto simp: tok_ok_def)
    from tj have "bump_token p = retP (p\<lparr> ps_pos := j, ps_cur := t \<rparr>)" by (simp add: bump_token_def)
    then show ?thesis using t k by (simp add: parser_ok_def left_bytes_def)
  qed
qed

text \<open>Sequencing: the second step starts where the first one ended.\<close>

lemma moves_seq:
  fixes h :: "'a \<Rightarrow> parser \<Rightarrow> 'b presult option"
  assumes "moves p k snd r"
    and "\<And>x q. parser_ok q \<Longrightarrow> ps_text q = ps_text p \<Longrightarrow> left_bytes q + k \<le> left_bytes p \<Longrightarrow>
      moves q (j - k) g (h x q)"
  shows "moves p j g (bindP r (case_prod h))"
proof (rule moves_bind [OF assms(1)])
  fix xq :: "'a \<times> parser"
  assume "parser_ok (snd xq)" "ps_text (snd xq) = ps_text p" "left_bytes (snd xq) + k \<le> left_bytes p"
  then show "moves p j g (case_prod h xq)"
    using assms(2) [of "snd xq" "fst xq"] by (cases xq) (auto intro: moves_trans [where j = "j - k" and k = k])
qed

lemma moves_seq_id:
  assumes "moves p k id r"
    and "\<And>q. parser_ok q \<Longrightarrow> ps_text q = ps_text p \<Longrightarrow> left_bytes q + k \<le> left_bytes p \<Longrightarrow>
      moves q (j - k) g (h q)"
  shows "moves p j g (bindP r h)"
proof (rule moves_bind [OF assms(1)])
  fix q assume "parser_ok (id q)" "ps_text (id q) = ps_text p" "left_bytes (id q) + k \<le> left_bytes p"
  then show "moves p j g (h q)"
    using assms(2) [of q] by (auto intro: moves_trans [where j = "j - k" and k = k])
qed

lemma moves_less: "moves p k f r \<Longrightarrow> j \<le> k \<Longrightarrow> moves p j f r"
  by (auto simp: moves_def split: option.splits sum.splits parse_failure.splits)

lemma moves_fail_here [simp]: "parser_ok p \<Longrightarrow> moves p k f (failP msg (t_start (ps_cur p)))"
  by (simp add: moves_fail start_le)

lemma moves_bump1: "parser_ok p \<Longrightarrow> cur_kind p \<noteq> T_Eof \<Longrightarrow> moves p 1 id (bump_token p)"
  by (rule moves_bump) simp_all

lemma moves_expect:
  assumes "parser_ok p" "k \<noteq> T_Eof"
  shows "moves p 1 id (expect k p)"
  using moves_bump1 [OF assms(1)] assms by (simp add: expect_def)

lemma moves_expect_eof: "parser_ok p \<Longrightarrow> moves p 0 id (expect T_Eof p)"
  using moves_bump [of p 0] by (simp add: expect_def)

lemma moves_eat: "parser_ok p \<Longrightarrow> moves p 0 snd (eat k p)"
  using moves_bump [of p 0] by (auto simp: eat_def intro!: moves_seq_id [where k = 0])

lemma moves_ident: "parser_ok p \<Longrightarrow> moves p 1 snd (parse_ident p)"
  using moves_bump1 [of p] by (auto simp: parse_ident_def intro!: moves_seq_id [where k = 1])

lemma moves_number:
  assumes "parser_ok p" "cur_kind p \<noteq> T_Eof"
  shows "moves p 1 snd (parse_number bound msg p)"
proof -
  have "t_start (ps_cur p) \<le> length (ps_text p)" using assms(1) by (rule start_le)
  then show ?thesis using moves_bump1 [OF assms]
    by (auto simp: parse_number_def Let_def moves_fail intro!: moves_seq_id [where k = 1])
qed

lemma moves_u64: "parser_ok p \<Longrightarrow> moves p 1 snd (parse_u64 p)"
  using moves_number [of p] by (simp add: parse_u64_def)

lemma moves_check: "parser_ok p \<Longrightarrow> moves p 0 snd (check_agg func dist arg p)"
  by (simp add: check_agg_def Let_def)

lemma moves_string:
  assumes "parser_ok p" "cur_kind p = T_Str"
  shows "moves p 1 snd (bindP (bump_token p) (\<lambda>q. bindP (Some (str_inner (t_lex (ps_cur p)))) (\<lambda>inner. retP (E_Str inner, q))))"
proof -
  have sub: "set (t_lex (ps_cur p)) \<subseteq> set (ps_text p)" using assms(1) by (simp add: parser_ok_def tok_ok_def)
  have "moves q 0 snd (bindP (Some (str_inner (t_lex (ps_cur p)))) (\<lambda>inner. retP (E_Str inner, q)))"
    if "parser_ok q" "ps_text q = ps_text p" for q
  proof (cases "str_inner (t_lex (ps_cur p))")
    case (Inl e)
    then have "e = Slice_Panic" "t_lex (ps_cur p) \<noteq> []" "128 \<le> last (t_lex (ps_cur p))"
      by (auto simp: str_inner_def split: if_splits)
    moreover from this have "last (t_lex (ps_cur p)) \<in> set (ps_text p)" using sub by auto
    ultimately show ?thesis using Inl that by auto
  qed (use that in simp)
  then show ?thesis using assms by (auto intro!: moves_seq_id [OF moves_bump1])
qed

section \<open>Expressions\<close>

lemma kind_not_eof [simp]: "agg_of k = Some func \<Longrightarrow> k \<noteq> T_Eof" "bin_of k = Some op \<Longrightarrow> k \<noteq> T_Eof"
    "cmp_of k = Some cmp \<Longrightarrow> k \<noteq> T_Eof"
  by (auto simp: agg_of_def bin_of_def cmp_of_def)

text \<open>The five functions at one amount of fuel.\<close>

definition exprs_move :: "nat \<Rightarrow> bool" where
  "exprs_move fuel \<longleftrightarrow> (\<forall>p. parser_ok p \<longrightarrow>
     (4 * left_bytes p + 3 \<le> fuel \<longrightarrow> (\<forall>m. moves p 1 snd (parse_expr_bp fuel m p))) \<and>
     (4 * left_bytes p + 1 \<le> fuel \<longrightarrow> (\<forall>m lhs. moves p 0 snd (binary_loop fuel m lhs p))) \<and>
     (4 * left_bytes p + 2 \<le> fuel \<longrightarrow> moves p 1 snd (parse_primary fuel p)) \<and>
     (4 * left_bytes p + 1 \<le> fuel \<longrightarrow> moves p 1 snd (parse_aggregate fuel p)) \<and>
     (4 * left_bytes p + 4 \<le> fuel \<longrightarrow> moves p 1 snd (parse_expr_list fuel p)))"

lemma exprs_moveD:
  assumes "exprs_move fuel" "parser_ok p"
  shows "4 * left_bytes p + 3 \<le> fuel \<Longrightarrow> moves p 1 snd (parse_expr_bp fuel m p)"
    "4 * left_bytes p + 1 \<le> fuel \<Longrightarrow> moves p 0 snd (binary_loop fuel m lhs p)"
    "4 * left_bytes p + 2 \<le> fuel \<Longrightarrow> moves p 1 snd (parse_primary fuel p)"
    "4 * left_bytes p + 1 \<le> fuel \<Longrightarrow> moves p 1 snd (parse_aggregate fuel p)"
    "4 * left_bytes p + 4 \<le> fuel \<Longrightarrow> moves p 1 snd (parse_expr_list fuel p)"
  using assms by (simp_all add: exprs_move_def)

lemma move_expr:
  assumes IH: "exprs_move fuel" and p: "parser_ok p" "4 * left_bytes p + 3 \<le> Suc fuel"
  shows "moves p 1 snd (parse_expr_bp (Suc fuel) m p)"
  unfolding parse_expr_bp.simps
proof (rule moves_seq)
  show "moves p 1 snd (parse_primary fuel p)" using p by (intro exprs_moveD [OF IH]) simp_all
next
  fix lhs q assume "parser_ok q" "left_bytes q + 1 \<le> left_bytes p"
  then show "moves q (1 - 1) snd (binary_loop fuel m lhs q)"
    using p(2) by (simp, intro exprs_moveD [OF IH]) simp_all
qed

lemma move_loop:
  assumes IH: "exprs_move fuel" and p: "parser_ok p" "4 * left_bytes p + 1 \<le> Suc fuel"
  shows "moves p 0 snd (binary_loop (Suc fuel) m lhs p)"
proof (cases "bin_of (cur_kind p)")
  case (Some op)
  have "moves p 0 snd (bindP (bump_token p) (\<lambda>p. bindP (parse_expr_bp fuel 2 p) (\<lambda>(rhs, p).
      binary_loop fuel m (E_Binary op lhs rhs) p)))"
  proof (rule moves_seq_id [OF moves_bump1])
    fix q assume q: "parser_ok q" "left_bytes q + 1 \<le> left_bytes p"
    show "moves q (0 - 1) snd (bindP (parse_expr_bp fuel 2 q) (\<lambda>(rhs, p). binary_loop fuel m (E_Binary op lhs rhs) p))"
    proof (rule moves_seq)
      show "moves q 1 snd (parse_expr_bp fuel 2 q)" using q p(2) by (intro exprs_moveD [OF IH]) simp_all
    next
      fix rhs r assume "parser_ok r" "left_bytes r + 1 \<le> left_bytes q"
      then show "moves r (0 - 1 - 1) snd (binary_loop fuel m (E_Binary op lhs rhs) r)"
        using q p(2) by (simp, intro exprs_moveD [OF IH]) simp_all
    qed
  qed (use p Some in simp_all)
  with Some p show ?thesis by simp
qed (use p in simp)

lemma move_list:
  assumes IH: "exprs_move fuel" and p: "parser_ok p" "4 * left_bytes p + 4 \<le> Suc fuel"
  shows "moves p 1 snd (parse_expr_list (Suc fuel) p)"
  unfolding parse_expr_list.simps
proof (rule moves_seq)
  show "moves p 1 snd (parse_expr_bp fuel 0 p)" using p by (intro exprs_moveD [OF IH]) simp_all
next
  fix x q assume q: "parser_ok q" "left_bytes q + 1 \<le> left_bytes p"
  show "moves q (1 - 1) snd (bindP (eat T_Comma q) (\<lambda>(more, p).
      if more then bindP (parse_expr_list fuel p) (\<lambda>(xs, p). retP (x # xs, p)) else retP ([x], p)))"
  proof (rule moves_seq [OF moves_eat [OF q(1)]])
    fix more r assume r: "parser_ok r" "left_bytes r + 0 \<le> left_bytes q"
    have "moves r 1 snd (parse_expr_list fuel r)" using r q p(2) by (intro exprs_moveD [OF IH]) simp_all
    then show "moves r (1 - 1 - 0) snd
        (if more then bindP (parse_expr_list fuel r) (\<lambda>(xs, p). retP (x # xs, p)) else retP ([x], r))"
      using r by (auto intro!: moves_seq [where k = 1])
  qed
qed

lemma move_aggregate:
  assumes IH: "exprs_move fuel" and p: "parser_ok p" "4 * left_bytes p + 1 \<le> Suc fuel"
  shows "moves p 1 snd (parse_aggregate (Suc fuel) p)"
proof (cases "agg_of (cur_kind p)")
  case (Some func)
  have arg: "moves r 0 snd (if cur_kind r = T_Star then bindP (bump_token r) (\<lambda>p. retP (E_Star, p)) else parse_expr_bp fuel 0 r)"
    if "parser_ok r" "left_bytes r + 1 \<le> left_bytes p" for r
    using that p(2) moves_less [OF exprs_moveD(1) [OF IH that(1)], of 0 0]
    by (auto intro!: moves_seq_id [OF moves_bump1])
  have "moves p 1 snd
     (bindP (bump_token p) (\<lambda>p. bindP (expect T_LParen p) (\<lambda>p. bindP (eat Kw_Distinct p) (\<lambda>(dist, p).
      bindP (if cur_kind p = T_Star then bindP (bump_token p) (\<lambda>p. retP (E_Star, p))
             else parse_expr_bp fuel 0 p) (\<lambda>(arg, p).
      bindP (expect T_RParen p) (\<lambda>p. check_agg func dist arg p))))))"
    by (rule moves_seq_id [OF moves_bump1], rule p, (simp add: Some),
        rule moves_seq_id [OF moves_expect], assumption, simp, rule moves_seq [OF moves_eat], assumption,
        rule moves_seq [OF arg], assumption, simp, rule moves_seq_id [OF moves_expect], assumption, simp,
        simp add: moves_check)
  with Some show ?thesis by simp
qed (use p in simp)

lemma move_primary:
  assumes IH: "exprs_move fuel" and p: "parser_ok p" "4 * left_bytes p + 2 \<le> Suc fuel"
  shows "moves p 1 snd (parse_primary (Suc fuel) p)"
proof -
  have minus: "moves p 1 snd (bindP (bump_token p) (\<lambda>p. bindP (parse_expr_bp fuel 2 p) (\<lambda>(e, p).
      retP (E_Binary Op_Sub (E_Int 0) e, p))))" if "cur_kind p = T_Minus"
    using p that
    by (intro moves_seq_id [OF moves_bump1] moves_seq [OF exprs_moveD(1) [OF IH]]) simp_all
  have star: "moves p 1 snd (bindP (bump_token p) (\<lambda>p. retP (E_Star, p)))" if "cur_kind p = T_Star"
    using p that by (intro moves_seq_id [OF moves_bump1]) simp_all
  have call: "moves q 0 snd (bindP (bump_token q) (\<lambda>p. bindP (parse_expr_list fuel p) (\<lambda>(args, p).
      bindP (expect T_RParen p) (\<lambda>p. retP (E_Call name args, p)))))"
    if "parser_ok q" "left_bytes q + 1 \<le> left_bytes p" "cur_kind q = T_LParen" for q name
    using p that
    by (intro moves_seq_id [OF moves_bump1] moves_seq [OF exprs_moveD(5) [OF IH]] moves_seq_id [OF moves_expect])
      simp_all
  have paren: "moves p 1 snd (bindP (bump_token p) (\<lambda>p. bindP (parse_expr_bp fuel 0 p) (\<lambda>(e, p).
      bindP (expect T_RParen p) (\<lambda>p. retP (e, p)))))" if "cur_kind p = T_LParen"
    using p that
    by (intro moves_seq_id [OF moves_bump1] moves_seq [OF exprs_moveD(1) [OF IH]] moves_seq_id [OF moves_expect])
      simp_all
  have ident: "moves p 1 snd (bindP (parse_ident p) (\<lambda>(name, p).
      if cur_kind p = T_LParen then
        bindP (bump_token p) (\<lambda>p. bindP (parse_expr_list fuel p) (\<lambda>(args, p).
        bindP (expect T_RParen p) (\<lambda>p. retP (E_Call name args, p))))
      else retP (E_Ident name, p)))"
  proof (rule moves_seq [OF moves_ident [OF p(1)]])
    fix name q assume "parser_ok q" "left_bytes q + 1 \<le> left_bytes p"
    then show "moves q (1 - 1) snd (if cur_kind q = T_LParen then
        bindP (bump_token q) (\<lambda>p. bindP (parse_expr_list fuel p) (\<lambda>(args, p).
        bindP (expect T_RParen p) (\<lambda>p. retP (E_Call name args, p))))
      else retP (E_Ident name, q))" using call by simp
  qed
  have number: "moves p 1 snd (bindP (parse_number (2 ^ 63) ''bad int'' p) (\<lambda>(v, p). retP (E_Int (int v), p)))"
    if "cur_kind p = T_Int"
    using p that by (intro moves_seq [OF moves_number]) simp_all
  have agg: "moves p 1 snd (parse_aggregate fuel p)" using p by (intro exprs_moveD [OF IH]) simp_all
  show ?thesis
    using minus star ident number moves_string [OF p(1)] agg paren p(1) by (simp add: Let_def del: bindP_simps)
qed

lemma exprs_move: "exprs_move fuel"
proof (induction fuel)
  case 0
  show ?case by (simp add: exprs_move_def)
next
  case (Suc fuel)
  show ?case
    unfolding exprs_move_def
    using move_expr [OF Suc] move_loop [OF Suc] move_primary [OF Suc] move_aggregate [OF Suc] move_list [OF Suc]
    by blast
qed

lemmas moves_expr = exprs_moveD(1) [OF exprs_move]
lemmas moves_expr_list = exprs_moveD(5) [OF exprs_move]

section \<open>Clauses\<close>

lemma moves_predicate:
  assumes p: "parser_ok p" "4 * left_bytes p + 4 \<le> fuel"
  shows "moves p 1 snd (parse_predicate fuel p)"
proof -
  have like: "moves q 0 snd (bindP (bump_token q) (\<lambda>p. bindP (parse_expr_bp fuel 0 p) (\<lambda>(pat, p). retP (E_Like l pat neg, p))))"
    if "parser_ok q" "left_bytes q \<le> left_bytes p" "cur_kind q = Kw_Like" for q l neg
    using p that by (intro moves_seq_id [OF moves_bump1] moves_seq [OF moves_expr]) simp_all
  have inlist: "moves q 0 snd (bindP (bump_token q) (\<lambda>p. bindP (expect T_LParen p) (\<lambda>p.
         bindP (parse_expr_list fuel p) (\<lambda>(vals, p).
         bindP (expect T_RParen p) (\<lambda>p. retP (E_In l vals neg, p))))))"
    if "parser_ok q" "left_bytes q \<le> left_bytes p" "cur_kind q = Kw_In" for q l neg
    using p that
    by (intro moves_seq_id [OF moves_bump1] moves_seq_id [OF moves_expect] moves_seq [OF moves_expr_list]) simp_all
  have compares: "moves q 0 snd (case cmp_of (cur_kind q) of
           None \<Rightarrow> failP ''expected comparison operator'' (t_start (ps_cur q))
         | Some op \<Rightarrow>
             bindP (bump_token q) (\<lambda>p. bindP (parse_expr_bp fuel 0 p) (\<lambda>(right, p).
               retP (E_Compare op l right, p))))"
    if "parser_ok q" "left_bytes q \<le> left_bytes p" for q l
  proof (cases "cmp_of (cur_kind q)")
    case (Some op)
    then have "cur_kind q \<noteq> T_Eof" by simp
    with Some p that show ?thesis
      by (simp del: One_nat_def) (intro moves_seq_id [OF moves_bump1] moves_seq [OF moves_expr], simp_all)
  qed (use that in simp)
  show ?thesis
    unfolding parse_predicate_def
  proof (rule moves_seq [OF moves_expr [OF p(1)]])
    show "4 * left_bytes p + 3 \<le> fuel" using p(2) by simp
  next
    fix l q assume q: "parser_ok q" "left_bytes q + 1 \<le> left_bytes p"
    show "moves q (1 - 1) snd (bindP (eat Kw_Not q) (\<lambda>(neg, p).
       if cur_kind p = Kw_Like then
         bindP (bump_token p) (\<lambda>p. bindP (parse_expr_bp fuel 0 p) (\<lambda>(pat, p). retP (E_Like l pat neg, p)))
       else if cur_kind p = Kw_In then
         bindP (bump_token p) (\<lambda>p. bindP (expect T_LParen p) (\<lambda>p.
         bindP (parse_expr_list fuel p) (\<lambda>(vals, p).
         bindP (expect T_RParen p) (\<lambda>p. retP (E_In l vals neg, p)))))
       else if neg then failP ''expected LIKE or IN after NOT'' (t_start (ps_cur p))
       else (case cmp_of (cur_kind p) of
           None \<Rightarrow> failP ''expected comparison operator'' (t_start (ps_cur p))
         | Some op \<Rightarrow>
             bindP (bump_token p) (\<lambda>p. bindP (parse_expr_bp fuel 0 p) (\<lambda>(right, p).
               retP (E_Compare op l right, p))))))"
      by (rule moves_seq [OF moves_eat [OF q(1)]])
        (use q like inlist compares in \<open>simp del: bindP_simps split del: option.split\<close>)
  qed
qed

lemma moves_and_loop:
  "parser_ok p \<Longrightarrow> 4 * left_bytes p + 5 \<le> fuel \<Longrightarrow> moves p 0 snd (and_loop fuel left p)"
proof (induction fuel left p rule: and_loop.induct)
  case (2 fuel left p)
  show ?case
  proof (cases "cur_kind p = Kw_And")
    case True
    have "moves p 0 snd (bindP (bump_token p) (\<lambda>p. bindP (parse_predicate fuel p) (\<lambda>(right, p).
        and_loop fuel (E_And left right) p)))"
    proof (rule moves_seq_id [OF moves_bump1 [OF 2(2)]])
      fix q assume q: "parser_ok q" "left_bytes q + 1 \<le> left_bytes p"
      show "moves q (0 - 1) snd (bindP (parse_predicate fuel q) (\<lambda>(right, p). and_loop fuel (E_And left right) p))"
      proof (rule moves_seq [OF moves_predicate [OF q(1)]])
        fix right r assume "parser_ok r" "left_bytes r + 1 \<le> left_bytes q"
        then show "moves r (0 - 1 - 1) snd (and_loop fuel (E_And left right) r)"
          using 2(1) [OF True, of r right] q 2(3) by simp
      qed (use q 2(3) in simp)
    qed (use True in simp)
    with True show ?thesis by simp
  qed (use 2 in simp)
qed simp

lemma moves_and_predicate:
  assumes "parser_ok p" "4 * left_bytes p + 5 \<le> fuel"
  shows "moves p 1 snd (parse_and_predicate fuel p)"
  unfolding parse_and_predicate_def
  using assms by (intro moves_seq [OF moves_predicate]) (simp_all add: moves_and_loop)

lemma moves_optional_alias:
  "parser_ok p \<Longrightarrow> moves p 0 snd (if cur_kind p = Kw_As then
     bindP (bump_token p) (\<lambda>p. bindP (parse_ident p) (\<lambda>(a, p). retP (Some a, p))) else retP (None, p))"
  by (auto intro!: moves_seq_id [OF moves_bump1] moves_seq [OF moves_ident] simp del: One_nat_def)

lemma moves_select_list:
  "parser_ok p \<Longrightarrow> 4 * left_bytes p + 5 \<le> fuel \<Longrightarrow> moves p 1 snd (parse_select_list fuel p)"
proof (induction fuel arbitrary: p)
  case (Suc fuel)
  show ?case
    unfolding parse_select_list.simps Let_def
  proof (rule moves_seq [OF moves_expr [OF Suc(2)]])
    show "4 * left_bytes p + 3 \<le> fuel" using Suc(3) by simp
  next
    fix e q assume q: "parser_ok q" "left_bytes q + 1 \<le> left_bytes p"
    show "moves q (1 - 1) snd
      (bindP (if cur_kind q = Kw_As then bindP (bump_token q) (\<lambda>p. bindP (parse_ident p) (\<lambda>(a, p). retP (Some a, p)))
              else retP (None, q)) (\<lambda>(alias, p). bindP (eat T_Comma p) (\<lambda>(more, p).
         if more then bindP (parse_select_list fuel p) (\<lambda>(items, p). retP (\<lparr> si_expr = e, si_alias = alias \<rparr> # items, p))
         else retP ([\<lparr> si_expr = e, si_alias = alias \<rparr>], p))))"
      by (rule moves_seq [OF moves_optional_alias [OF q(1)]], rule moves_seq [OF moves_eat], assumption)
        (use q Suc in \<open>auto simp del: bindP_simps intro!: moves_seq [OF Suc(1)]\<close>)
  qed
qed simp

lemma moves_direction:
  "parser_ok p \<Longrightarrow> moves p 0 snd (if cur_kind p = Kw_Desc then bindP (bump_token p) (\<lambda>p. retP (True, p))
     else if cur_kind p = Kw_Asc then bindP (bump_token p) (\<lambda>p. retP (False, p)) else retP (False, p))"
  by (auto intro!: moves_seq_id [OF moves_bump1] simp del: One_nat_def)

lemma moves_order_list:
  "parser_ok p \<Longrightarrow> 4 * left_bytes p + 5 \<le> fuel \<Longrightarrow> moves p 1 snd (parse_order_list fuel p)"
proof (induction fuel arbitrary: p)
  case (Suc fuel)
  show ?case
    unfolding parse_order_list.simps Let_def
  proof (rule moves_seq [OF moves_expr [OF Suc(2)]])
    show "4 * left_bytes p + 3 \<le> fuel" using Suc(3) by simp
  next
    fix e q assume q: "parser_ok q" "left_bytes q + 1 \<le> left_bytes p"
    show "moves q (1 - 1) snd
      (bindP (if cur_kind q = Kw_Desc then bindP (bump_token q) (\<lambda>p. retP (True, p))
              else if cur_kind q = Kw_Asc then bindP (bump_token q) (\<lambda>p. retP (False, p))
              else retP (False, q)) (\<lambda>(desc, p). bindP (eat T_Comma p) (\<lambda>(more, p).
         if more then bindP (parse_order_list fuel p) (\<lambda>(items, p). retP (\<lparr> oi_expr = e, oi_desc = desc \<rparr> # items, p))
         else retP ([\<lparr> oi_expr = e, oi_desc = desc \<rparr>], p))))"
      by (rule moves_seq [OF moves_direction [OF q(1)]], rule moves_seq [OF moves_eat], assumption)
        (use q Suc in \<open>auto simp del: bindP_simps intro!: moves_seq [OF Suc(1)]\<close>)
  qed
qed simp

lemma moves_clause:
  assumes "parser_ok p" "k \<noteq> T_Eof"
    and "\<And>q. parser_ok q \<Longrightarrow> ps_text q = ps_text p \<Longrightarrow> left_bytes q \<le> left_bytes p \<Longrightarrow> moves q 0 snd (f q)"
  shows "moves p 0 snd (clause k d f p)"
  unfolding clause_def using assms
  by (auto intro!: moves_seq_id [OF moves_bump1] simp del: One_nat_def)

lemma moves_some_of: "moves p k snd r \<Longrightarrow> moves p 0 snd (some_of r)"
  unfolding some_of_def by (rule moves_seq) auto

lemma moves_where:
  assumes "parser_ok p" "4 * left_bytes p + 5 \<le> fuel" "k \<noteq> T_Eof"
  shows "moves p 0 snd (clause k None (\<lambda>p. some_of (parse_and_predicate fuel p)) p)"
  using assms by (intro moves_clause moves_some_of [OF moves_and_predicate]) simp_all

lemma moves_group:
  assumes "parser_ok p" "4 * left_bytes p + 5 \<le> fuel"
  shows "moves p 0 snd (clause Kw_Group [] (\<lambda>p. bindP (expect Kw_By p) (parse_expr_list fuel)) p)"
  using assms
  by (intro moves_clause moves_seq_id [OF moves_expect] moves_less [OF moves_expr_list]) simp_all

lemma moves_order:
  assumes "parser_ok p" "4 * left_bytes p + 5 \<le> fuel"
  shows "moves p 0 snd (clause Kw_Order [] (\<lambda>p. bindP (expect Kw_By p) (parse_order_list fuel)) p)"
  using assms
  by (intro moves_clause moves_seq_id [OF moves_expect] moves_less [OF moves_order_list]) simp_all

lemma moves_count: "parser_ok p \<Longrightarrow> k \<noteq> T_Eof \<Longrightarrow> moves p 0 snd (clause k None (\<lambda>p. some_of (parse_u64 p)) p)"
  by (intro moves_clause moves_some_of [OF moves_u64])

text \<open>A result that ends a parse: a query, an error inside the text, or the panic on a character.\<close>

definition ends_in :: "bytes \<Rightarrow> query presult option \<Rightarrow> bool" where
  "ends_in s r \<longleftrightarrow>
     (case r of
        None \<Rightarrow> False
      | Some (Inl (Parse_Error msg at)) \<Rightarrow> at \<le> length s
      | Some (Inl Slice_Panic) \<Rightarrow> \<exists>b \<in> set s. 128 \<le> b
      | Some (Inr q) \<Rightarrow> q_select q \<noteq> [])"

lemma ends_bind:
  assumes "moves p k f r"
    and "\<And>x. r = Some (Inr x) \<Longrightarrow> parser_ok (f x) \<Longrightarrow> ps_text (f x) = ps_text p \<Longrightarrow>
      left_bytes (f x) \<le> left_bytes p \<Longrightarrow> ends_in (ps_text p) (h x)"
  shows "ends_in (ps_text p) (bindP r h)"
proof (cases r)
  case (Some r')
  show ?thesis
  proof (cases r')
    case (Inl e)
    with Some assms(1) show ?thesis by (cases e) (simp_all add: moves_def ends_in_def)
  next
    case (Inr x)
    with Some assms(1) have "parser_ok (f x)" "ps_text (f x) = ps_text p" "left_bytes (f x) \<le> left_bytes p"
      by (simp_all add: moves_def)
    with Some Inr assms(2) [of x] show ?thesis by simp
  qed
qed (use assms(1) in \<open>simp add: moves_def\<close>)

lemma ends_seq:
  fixes h :: "'a \<Rightarrow> parser \<Rightarrow> query presult option"
  assumes "moves p k snd r" "ps_text p = s"
    and "\<And>x q. r = Some (Inr (x, q)) \<Longrightarrow> parser_ok q \<Longrightarrow> ps_text q = s \<Longrightarrow>
      left_bytes q \<le> left_bytes p \<Longrightarrow> ends_in s (h x q)"
  shows "ends_in s (bindP r (case_prod h))"
  using ends_bind [OF assms(1), of "case_prod h"] assms(2,3) by force

lemma ends_seq_id:
  assumes "moves p k id r" "ps_text p = s"
    and "\<And>q. parser_ok q \<Longrightarrow> ps_text q = s \<Longrightarrow> left_bytes q \<le> left_bytes p \<Longrightarrow> ends_in s (h q)"
  shows "ends_in s (bindP r h)"
  using ends_bind [OF assms(1), of h] assms(2,3) by simp

lemma bindP_Some_Inr: "bindP r f = Some (Inr y) \<longleftrightarrow> (\<exists>x. r = Some (Inr x) \<and> f x = Some (Inr y))"
  by (auto simp: bindP_def split: option.splits sum.splits)

lemma select_list_nonempty: "parse_select_list fuel p = Some (Inr (items, q)) \<Longrightarrow> items \<noteq> []"
  by (cases fuel) (auto simp: bindP_Some_Inr Let_def split: if_splits)

lemma query_ends:
  assumes p: "parser_ok p" "4 * left_bytes p + 5 \<le> fuel"
  shows "ends_in (ps_text p) (parse_query fuel p)"
  unfolding parse_query_def
  apply (rule ends_seq_id [OF moves_expect], rule p, simp, rule refl)
  apply (rule ends_seq [OF moves_select_list], assumption, use p in simp, assumption)
  apply (rule ends_seq_id [OF moves_expect], assumption, simp, assumption)
  apply (rule ends_seq [OF moves_ident], assumption, assumption)
  apply (rule ends_seq [OF moves_where], assumption, use p in simp, simp, assumption)
  apply (rule ends_seq [OF moves_group], assumption, use p in simp, assumption)
  apply (rule ends_seq [OF moves_where], assumption, use p in simp, simp, assumption)
  apply (rule ends_seq [OF moves_order], assumption, use p in simp, assumption)
  apply (rule ends_seq [OF moves_count], assumption, simp, assumption)
  apply (rule ends_seq [OF moves_count], assumption, simp, assumption)
  apply (rule ends_seq [OF moves_eat], assumption, assumption)
  apply (rule ends_seq_id [OF moves_expect_eof], assumption, assumption)
  apply (simp add: ends_in_def select_list_nonempty)
  done

lemma parse_ends: "ends_in s (parse_sql_v0 s)"
proof (cases "lex_next s 0")
  case (Inl e)
  with lex_next_ok [of 0 s] show ?thesis by (auto simp: parse_sql_v0_def parser_new_def ends_in_def)
next
  case (Inr ti)
  then obtain t i where ti: "lex_next s 0 = Inr (t, i)" by (cases ti) auto
  let ?p = "\<lparr> ps_text = s, ps_pos = i, ps_cur = t \<rparr>"
  from ti lex_next_ok [of 0 s] have p: "parser_ok ?p" by (simp add: parser_ok_def)
  have "ends_in s (parse_query (parse_fuel s) ?p)"
    using query_ends [OF p, of "parse_fuel s"] by (simp add: left_bytes_def parse_fuel_def)
  with ti show ?thesis by (simp add: parse_sql_v0_def parser_new_def)
qed

end
