(* ===== verification/Sql_Print.thy ===== *)
theory Sql_Print
  imports Sql_Parser_Facts
begin

text \<open>
  A printer for queries, with a blank after every token and parentheses around every binary
  operation, and the parse of what it prints: \<open>parse_sql_v0\<close> gives the query back.
\<close>

section \<open>Tokens as text\<close>

type_synonym token = "tok_kind \<times> bytes"

definition symbol_table :: "(tok_kind \<times> string) list" where
  "symbol_table =
     [(T_LParen, ''(''), (T_RParen, '')''), (T_Comma, '',''), (T_Star, ''*''), (T_Plus, ''+''),
      (T_Minus, ''-''), (T_Eq, ''=''), (T_Ne, ''<>''), (T_Lt, ''<''), (T_Le, ''<=''), (T_Gt, ''>''),
      (T_Ge, ''>='')]"

definition ident_shape :: "bytes \<Rightarrow> bool" where
  "ident_shape l \<longleftrightarrow> l \<noteq> [] \<and> is_ident_start (hd l) \<and> list_all is_ident_continue (tl l)"

fun quotes_paired :: "bytes \<Rightarrow> bool" where
  "quotes_paired [] = True"
| "quotes_paired (c # cs) =
     (if c = 39 then (case cs of d # ds \<Rightarrow> d = 39 \<and> quotes_paired ds | [] \<Rightarrow> False) else quotes_paired cs)"

fun token_ok :: "token \<Rightarrow> bool" where
  "token_ok (k, l) =
     ((k = T_Ident \<and> ident_shape l \<and> keyword_kind l = None) \<or>
      (k = T_Int \<and> l \<noteq> [] \<and> list_all is_digit l) \<or>
      (k = T_Str \<and> (\<exists>inner. l = 39 # inner @ [39] \<and> quotes_paired inner)) \<or>
      (ident_shape l \<and> keyword_kind l = Some k) \<or>
      (k, l) \<in> (\<lambda>(k, s). (k, ascii s)) ` set symbol_table)"

definition tokens_text :: "token list \<Rightarrow> bytes" where
  "tokens_text ts = concat (map (\<lambda>(k, l). l @ [32]) ts)"

lemma tokens_text_simps [simp]: "tokens_text [] = []" "tokens_text ((k, l) # ts) = l @ 32 # tokens_text ts"
  by (simp_all add: tokens_text_def)

lemma takeWhile_until: "list_all P xs \<Longrightarrow> \<not> P y \<Longrightarrow> takeWhile P (xs @ y # ys) = xs"
  by (induction xs) auto

lemma string_rest_paired: "quotes_paired inner \<Longrightarrow> string_rest (inner @ 39 # 32 # suf) = Suc (length inner)"
  by (induction inner rule: quotes_paired.induct) (auto split: list.splits if_splits)

lemma blank_not: "\<not> is_ident_continue 32" "\<not> is_digit 32" "is_ws 32"
  by (simp_all add: is_ident_continue_def is_ident_start_def is_digit_def is_ws_def)

lemma ident_start_bytes:
  assumes "is_ident_start c"
  shows "c \<noteq> 40 \<and> c \<noteq> 41 \<and> c \<noteq> 44 \<and> c \<noteq> 59 \<and> c \<noteq> 42 \<and> c \<noteq> 43 \<and> c \<noteq> 45 \<and> c \<noteq> 61 \<and> c \<noteq> 60 \<and> c \<noteq> 62 \<and> c \<noteq> 39"
    "\<not> is_ws c"
  using assms by (auto simp: is_ident_start_def is_ws_def)

lemma digit_bytes:
  assumes "is_digit c"
  shows "c \<noteq> 40 \<and> c \<noteq> 41 \<and> c \<noteq> 44 \<and> c \<noteq> 59 \<and> c \<noteq> 42 \<and> c \<noteq> 43 \<and> c \<noteq> 45 \<and> c \<noteq> 61 \<and> c \<noteq> 60 \<and> c \<noteq> 62 \<and> c \<noteq> 39"
    "\<not> is_ws c" "\<not> is_ident_start c"
  using assms by (auto simp: is_digit_def is_ident_start_def is_ws_def word_le_nat_alt)

text \<open>What the lexer makes of a lexeme that a blank follows.\<close>

definition lexes_as :: "tok_kind \<Rightarrow> bytes \<Rightarrow> bool" where
  "lexes_as k l \<longleftrightarrow> (\<exists>c rest k'. l = c # rest \<and> \<not> is_ws c \<and>
     (\<forall>suf. lex_token c (rest @ 32 # suf) = Some (k', length l)) \<and>
     k = (if k' = T_Ident then case keyword_kind l of Some k \<Rightarrow> k | None \<Rightarrow> T_Ident else k'))"

lemma lexes_ident: "ident_shape l \<Longrightarrow> lexes_as (case keyword_kind l of Some k \<Rightarrow> k | None \<Rightarrow> T_Ident) l"
  using ident_start_bytes [of "hd l"]
  by (cases l) (auto simp: lexes_as_def ident_shape_def lex_token_def takeWhile_until blank_not)

lemma lexes_int: "l \<noteq> [] \<Longrightarrow> list_all is_digit l \<Longrightarrow> lexes_as T_Int l"
  using digit_bytes [of "hd l"]
  by (cases l) (auto simp: lexes_as_def lex_token_def takeWhile_until blank_not)

lemma lexes_str: "quotes_paired inner \<Longrightarrow> lexes_as T_Str (39 # inner @ [39])"
  by (simp add: lexes_as_def lex_token_def string_rest_paired is_ws_def)

lemma lexes_symbol: "(k, s) \<in> set symbol_table \<Longrightarrow> lexes_as k (ascii s)"
  by (auto simp: symbol_table_def lexes_as_def lex_token_def ascii_def is_ws_def)

lemma token_lexes: "token_ok (k, l) \<Longrightarrow> lexes_as k l"
  using lexes_ident [of l] lexes_int [of l] lexes_str lexes_symbol by (auto split: option.splits)

lemma lex_next_token:
  assumes "lexes_as k l" "drop i s = ws @ l @ 32 # suf" "list_all is_ws ws"
  shows "lex_next s i = Inr (\<lparr> t_kind = k, t_start = i + length ws, t_lex = l \<rparr>, i + length ws + length l)"
proof -
  from assms(1) obtain c rest k' where l: "l = c # rest" "\<not> is_ws c"
    and tok: "\<And>suf. lex_token c (rest @ 32 # suf) = Some (k', length l)"
    and k: "k = (if k' = T_Ident then case keyword_kind l of Some k \<Rightarrow> k | None \<Rightarrow> T_Ident else k')"
    by (auto simp: lexes_as_def)
  have ws: "takeWhile is_ws (drop i s) = ws" using assms(2,3) l by (simp add: takeWhile_until)
  have "drop (i + length ws) s = l @ 32 # suf" using assms(2) by (metis add.commute append_eq_conv_conj drop_drop)
  then show ?thesis using l ws tok [of suf] k by (simp add: lex_next_def Let_def)
qed

lemma lex_next_end: "drop i s = ws \<Longrightarrow> list_all is_ws ws \<Longrightarrow> i \<le> length s \<Longrightarrow>
    lex_next s i = Inr (\<lparr> t_kind = T_Eof, t_start = length s, t_lex = [] \<rparr>, length s)"
  by (cases "i + length ws = length s") (auto simp: lex_next_def Let_def list_all_iff takeWhile_eq_all_conv [THEN iffD2])

section \<open>A parser before tokens\<close>

fun at_tokens :: "parser \<Rightarrow> token list \<Rightarrow> bool" where
  "at_tokens p [] \<longleftrightarrow> cur_kind p = T_Eof"
| "at_tokens p ((k, l) # ts) \<longleftrightarrow>
     cur_kind p = k \<and> k \<noteq> T_Eof \<and> t_lex (ps_cur p) = l \<and> (\<exists>q. bump_token p = retP q \<and> at_tokens q ts)"

definition head_kind :: "token list \<Rightarrow> tok_kind" where
  "head_kind ts = (case ts of [] \<Rightarrow> T_Eof | (k, l) # _ \<Rightarrow> k)"

lemma head_kind_simps [simp]: "head_kind [] = T_Eof" "head_kind ((k, l) # ts) = k"
  by (simp_all add: head_kind_def)

lemma at_tokens_kind: "at_tokens p ts \<Longrightarrow> cur_kind p = head_kind ts"
  by (cases "(p, ts)" rule: at_tokens.cases) auto

lemma token_not_eof: "token_ok (k, l) \<Longrightarrow> k \<noteq> T_Eof"
  using keyword_not_eof [of l k] by (auto simp: symbol_table_def)

lemma text_at_tokens:
  assumes "list_all token_ok ts" "drop (ps_pos p) (ps_text p) = ws @ tokens_text ts" "list_all is_ws ws"
    "ps_pos p \<le> length (ps_text p)"
  shows "\<exists>q. bump_token p = retP q \<and> at_tokens q ts"
  using assms
proof (induction ts arbitrary: p ws)
  case Nil
  then have "lex_next (ps_text p) (ps_pos p) =
      Inr (\<lparr> t_kind = T_Eof, t_start = length (ps_text p), t_lex = [] \<rparr>, length (ps_text p))"
    by (intro lex_next_end) simp_all
  then show ?case by (simp add: bump_token_def)
next
  case (Cons kl ts)
  obtain k l where kl: "kl = (k, l)" by (cases kl)
  have ok: "token_ok (k, l)" "list_all token_ok ts" using Cons(2) kl by simp_all
  have dr: "drop (ps_pos p) (ps_text p) = ws @ l @ 32 # tokens_text ts" using Cons(3) kl by simp
  let ?j = "ps_pos p + length ws + length l"
  let ?q = "p\<lparr> ps_pos := ?j, ps_cur := \<lparr> t_kind = k, t_start = ps_pos p + length ws, t_lex = l \<rparr> \<rparr>"
  have b: "bump_token p = retP ?q"
    using lex_next_token [OF token_lexes [OF ok(1)] dr Cons(4)] by (simp add: bump_token_def)
  have "drop ?j (ps_text p) = drop (length ws + length l) (ws @ l @ 32 # tokens_text ts)"
    by (simp only: dr [symmetric]) (simp add: add.commute add.left_commute)
  then have dr': "drop ?j (ps_text p) = [32] @ tokens_text ts" by simp
  then have "?j \<le> length (ps_text p)" by (cases "?j \<le> length (ps_text p)") simp_all
  then have "\<exists>r. bump_token ?q = retP r \<and> at_tokens r ts"
    using Cons(1) [OF ok(2), of ?q "[32]"] dr' by (simp add: blank_not)
  then show ?case using b kl token_not_eof [OF ok(1)] by auto
qed

lemma at_tokens_Cons:
  assumes "parser_ok p" "at_tokens p ((k, l) # ts)"
  obtains q where "bump_token p = retP q" "at_tokens q ts" "parser_ok q" "left_bytes q + 1 \<le> left_bytes p"
    "cur_kind p = k" "t_lex (ps_cur p) = l"
  using assms moves_bump1 [OF assms(1)] by (auto simp: moves_def)

section \<open>Printing\<close>

definition kw_name :: "tok_kind \<Rightarrow> string" where
  "kw_name k = (case find (\<lambda>(s, k'). k' = k) keyword_table of Some (s, _) \<Rightarrow> s
     | None \<Rightarrow> (case map_of symbol_table k of Some s \<Rightarrow> s | None \<Rightarrow> []))"

definition fixed :: "tok_kind \<Rightarrow> token" where
  "fixed k = (k, ascii (kw_name k))"

definition agg_kw :: "agg_fn \<Rightarrow> tok_kind" where
  "agg_kw f = (case f of Fn_Count \<Rightarrow> Kw_Count | Fn_Sum \<Rightarrow> Kw_Sum | Fn_Avg \<Rightarrow> Kw_Avg | Fn_Min \<Rightarrow> Kw_Min
     | Fn_Max \<Rightarrow> Kw_Max | Fn_ApproxDistinct \<Rightarrow> Kw_ApproxCountDistinct)"

definition bin_kw :: "bin_op \<Rightarrow> tok_kind" where
  "bin_kw op = (case op of Op_Add \<Rightarrow> T_Plus | Op_Sub \<Rightarrow> T_Minus)"

definition cmp_kw :: "cmp_op \<Rightarrow> tok_kind" where
  "cmp_kw op = (case op of Cmp_Eq \<Rightarrow> T_Eq | Cmp_Ne \<Rightarrow> T_Ne | Cmp_Lt \<Rightarrow> T_Lt | Cmp_Le \<Rightarrow> T_Le
     | Cmp_Gt \<Rightarrow> T_Gt | Cmp_Ge \<Rightarrow> T_Ge)"

fun separated :: "'a list list \<Rightarrow> 'a \<Rightarrow> 'a list" where
  "separated [] s = []"
| "separated [x] s = x"
| "separated (x # xs) s = x @ s # separated xs s"

fun expr_tokens :: "expr \<Rightarrow> token list" where
  "expr_tokens E_Star = [fixed T_Star]"
| "expr_tokens (E_Ident name) = [(T_Ident, name)]"
| "expr_tokens (E_Int i) = [(T_Int, decimal (nat i))]"
| "expr_tokens (E_Str inner) = [(T_Str, 39 # inner @ [39])]"
| "expr_tokens (E_Agg func dist arg) =
     fixed (agg_kw func) # fixed T_LParen # (if dist then [fixed Kw_Distinct] else []) @ expr_tokens arg
       @ [fixed T_RParen]"
| "expr_tokens (E_Binary op l r) =
     fixed T_LParen # expr_tokens l @ fixed (bin_kw op) # expr_tokens r @ [fixed T_RParen]"
| "expr_tokens (E_Call name args) =
     (T_Ident, name) # fixed T_LParen # separated (map expr_tokens args) (fixed T_Comma) @ [fixed T_RParen]"
| "expr_tokens (E_Compare op l r) = expr_tokens l @ fixed (cmp_kw op) # expr_tokens r"
| "expr_tokens (E_Like l pat neg) =
     expr_tokens l @ (if neg then [fixed Kw_Not] else []) @ fixed Kw_Like # expr_tokens pat"
| "expr_tokens (E_In l vals neg) =
     expr_tokens l @ (if neg then [fixed Kw_Not] else []) @ fixed Kw_In # fixed T_LParen
       # separated (map expr_tokens vals) (fixed T_Comma) @ [fixed T_RParen]"
| "expr_tokens (E_And l r) = expr_tokens l @ fixed Kw_And # expr_tokens r"

definition name_ok :: "bytes \<Rightarrow> bool" where
  "name_ok l \<longleftrightarrow> ident_shape l \<and> keyword_kind l = None"

text \<open>Values, predicates and their conjunctions, as the comments of the parser have them: DISTINCT in a
  COUNT of an expression only, of the aggregates only COUNT of a star, and a string literal as the
  pattern of LIKE.\<close>

fun value_ok :: "expr \<Rightarrow> bool" where
  "value_ok E_Star = True"
| "value_ok (E_Ident name) = name_ok name"
| "value_ok (E_Int i) = (0 \<le> i \<and> i < 2 ^ 63)"
| "value_ok (E_Str inner) = quotes_paired inner"
| "value_ok (E_Agg func dist arg) =
     (value_ok arg \<and> (arg = E_Star \<longrightarrow> func = Fn_Count \<and> \<not> dist) \<and> (dist \<longrightarrow> func = Fn_Count))"
| "value_ok (E_Binary op l r) = (value_ok l \<and> value_ok r)"
| "value_ok (E_Call name args) = (name_ok name \<and> args \<noteq> [] \<and> list_all value_ok args)"
| "value_ok _ = False"

fun predicate_ok :: "expr \<Rightarrow> bool" where
  "predicate_ok (E_Compare op l r) = (value_ok l \<and> value_ok r)"
| "predicate_ok (E_Like l pat neg) = (value_ok l \<and> (\<exists>inner. pat = E_Str inner) \<and> value_ok pat)"
| "predicate_ok (E_In l vals neg) = (value_ok l \<and> vals \<noteq> [] \<and> list_all value_ok vals)"
| "predicate_ok _ = False"

fun condition_ok :: "expr \<Rightarrow> bool" where
  "condition_ok (E_And l r) = (condition_ok l \<and> predicate_ok r)"
| "condition_ok e = predicate_ok e"

lemma keyword_shapes: "list_all (\<lambda>(s, k). ident_shape (ascii s)) keyword_table"
  by (simp add: keyword_table_def ascii_def ident_shape_def is_ident_start_def is_ident_continue_def)

lemma keyword_kinds_back: "list_all (\<lambda>(s, k). keyword_kind (ascii s) = Some k) keyword_table"
  by (simp add: keyword_table_def ascii_def keyword_kind_def eq_kw_def lower_byte_def)

lemma keyword_names: "list_all (\<lambda>(s, k). kw_name k = s) keyword_table"
  by (simp add: keyword_table_def kw_name_def)

lemma keyword_fixed_ok: "(s, k) \<in> set keyword_table \<Longrightarrow> token_ok (fixed k)"
  using keyword_shapes keyword_kinds_back keyword_names by (force simp: list_all_iff fixed_def)

lemma symbols_named: "list_all (\<lambda>(k, s). kw_name k = s) symbol_table"
  by (simp add: keyword_table_def symbol_table_def kw_name_def)

lemma symbol_fixed_ok: "(k, s) \<in> set symbol_table \<Longrightarrow> token_ok (fixed k)"
  using symbols_named by (force simp: list_all_iff fixed_def)

lemma fixed_ok: "k \<notin> {T_Eof, T_Semi, T_Ident, T_Int, T_Str} \<Longrightarrow> token_ok (fixed k)"
proof -
  assume "k \<notin> {T_Eof, T_Semi, T_Ident, T_Int, T_Str}"
  then have "k \<in> snd ` set keyword_table \<or> k \<in> fst ` set symbol_table"
    by (cases k) (simp_all add: keyword_table_def symbol_table_def)
  then show ?thesis using keyword_fixed_ok symbol_fixed_ok by auto
qed

lemma fixed_simps [simp]: "fixed k = (k, ascii (kw_name k))"
  by (simp add: fixed_def)

end
