(* ===== verification/Sql_Roundtrip.thy ===== *)
theory Sql_Roundtrip
  imports Sql_Print
begin

text \<open>The parser on printed queries gives the query back.\<close>

section \<open>Reading tokens\<close>

definition reads :: "parser \<Rightarrow> nat \<Rightarrow> ('a \<times> parser) presult option \<Rightarrow> 'a \<Rightarrow> token list \<Rightarrow> bool" where
  "reads p k r x ts \<longleftrightarrow>
     (\<exists>q. r = retP (x, q) \<and> at_tokens q ts \<and> parser_ok q \<and> left_bytes q + k \<le> left_bytes p)"

lemma reads_ret: "at_tokens p ts \<Longrightarrow> parser_ok p \<Longrightarrow> x = y \<Longrightarrow> reads p 0 (retP (x, p)) y ts"
  by (simp add: reads_def)

lemma reads_seq:
  assumes "reads p k r x ts"
    and "\<And>q. at_tokens q ts \<Longrightarrow> parser_ok q \<Longrightarrow> left_bytes q + k \<le> left_bytes p \<Longrightarrow>
      reads q (j - k) (h x q) y us"
  shows "reads p j (bindP r (case_prod h)) y us"
proof -
  obtain q where q: "r = retP (x, q)" "at_tokens q ts" "parser_ok q" "left_bytes q + k \<le> left_bytes p"
    using assms(1) by (auto simp: reads_def)
  from assms(2) [OF q(2-4)] q show ?thesis by (force simp: reads_def)
qed

lemma reads_bump:
  assumes "at_tokens p ((k, l) # ts)" "parser_ok p"
    and "\<And>q. at_tokens q ts \<Longrightarrow> parser_ok q \<Longrightarrow> left_bytes q + 1 \<le> left_bytes p \<Longrightarrow>
      t_lex (ps_cur p) = l \<Longrightarrow> reads q (j - 1) (h q) y us"
  shows "reads p j (bindP (bump_token p) h) y us"
proof -
  obtain q where q: "bump_token p = retP q" "at_tokens q ts" "parser_ok q" "left_bytes q + 1 \<le> left_bytes p"
    "t_lex (ps_cur p) = l"
    using at_tokens_Cons [OF assms(2,1)] by blast
  from assms(3) [OF q(2-5)] q show ?thesis by (force simp: reads_def)
qed

lemma reads_expect:
  assumes "at_tokens p ((k, l) # ts)" "parser_ok p"
    and "\<And>q. at_tokens q ts \<Longrightarrow> parser_ok q \<Longrightarrow> left_bytes q + 1 \<le> left_bytes p \<Longrightarrow> reads q (j - 1) (h q) y us"
  shows "reads p j (bindP (expect k p) h) y us"
  using reads_bump [OF assms(1,2), of j h y us] assms(1,3) by (simp add: expect_def)

lemma reads_eat_yes:
  assumes "at_tokens p ((k, l) # ts)" "parser_ok p"
    and "\<And>q. at_tokens q ts \<Longrightarrow> parser_ok q \<Longrightarrow> left_bytes q + 1 \<le> left_bytes p \<Longrightarrow> reads q (j - 1) (h True q) y us"
  shows "reads p j (bindP (eat k p) (case_prod h)) y us"
proof -
  have "reads p 1 (eat k p) True ts"
    using reads_bump [OF assms(1,2), of 1 "\<lambda>p. retP (True, p)" True ts] assms(1)
    by (simp add: eat_def reads_ret)
  then show ?thesis by (rule reads_seq) (rule assms(3))
qed

lemma reads_eat_no:
  assumes "at_tokens p ts" "parser_ok p" "head_kind ts \<noteq> k" "reads p j (h False p) y us"
  shows "reads p j (bindP (eat k p) (case_prod h)) y us"
  using assms by (simp add: eat_def at_tokens_kind)

lemma reads_ident:
  assumes "at_tokens p ((T_Ident, l) # ts)" "parser_ok p"
    and "\<And>q. at_tokens q ts \<Longrightarrow> parser_ok q \<Longrightarrow> left_bytes q + 1 \<le> left_bytes p \<Longrightarrow> reads q (j - 1) (h l q) y us"
  shows "reads p j (bindP (parse_ident p) (case_prod h)) y us"
proof -
  have "reads p 1 (parse_ident p) l ts"
    using reads_bump [OF assms(1,2), of 1 "\<lambda>q. retP (t_lex (ps_cur p), q)" l ts] assms(1)
    by (simp add: parse_ident_def reads_ret)
  then show ?thesis by (rule reads_seq) (rule assms(3))
qed

lemma reads_number:
  assumes "at_tokens p ((T_Int, decimal n) # ts)" "parser_ok p" "n < bound"
  shows "reads p 1 (parse_number bound msg p) n ts"
proof -
  have "digits_value (decimal n) = n" by (simp add: decimal_digits)
  then show ?thesis
    using reads_bump [OF assms(1,2), of 1 "\<lambda>q. let v = digits_value (t_lex (ps_cur p))
       in if v < bound then retP (v, q) else failP msg (t_start (ps_cur p))" n ts] assms
    by (simp add: parse_number_def reads_ret)
qed

section \<open>Values\<close>

definition primary_reads :: "expr \<Rightarrow> bool" where
  "primary_reads e \<longleftrightarrow> (\<forall>p rest fuel. parser_ok p \<longrightarrow> at_tokens p (expr_tokens e @ rest) \<longrightarrow>
     head_kind rest \<noteq> T_LParen \<longrightarrow> 4 * left_bytes p + 2 \<le> fuel \<longrightarrow> reads p 1 (parse_primary fuel p) e rest)"

lemma primary_readsD:
  "primary_reads e \<Longrightarrow> parser_ok p \<Longrightarrow> at_tokens p (expr_tokens e @ rest) \<Longrightarrow> head_kind rest \<noteq> T_LParen \<Longrightarrow>
    4 * left_bytes p + 2 \<le> fuel \<Longrightarrow> reads p 1 (parse_primary fuel p) e rest"
  by (simp add: primary_reads_def)

text \<open>What may follow a value in its place.\<close>

abbreviation ends_value :: "token list \<Rightarrow> bool" where
  "ends_value rest \<equiv> head_kind rest \<notin> {T_LParen, T_Plus, T_Minus}"

lemma bin_of_iff: "bin_of k = None \<longleftrightarrow> k \<notin> {T_Plus, T_Minus}"
  by (cases k) (simp_all add: bin_of_def)

lemma reads_expr:
  assumes e: "primary_reads e" and p: "parser_ok p" "at_tokens p (expr_tokens e @ rest)"
    and rest: "head_kind rest \<noteq> T_LParen" "bin_of (head_kind rest) = None \<or> 1 < m"
    and fuel: "4 * left_bytes p + 3 \<le> fuel"
  shows "reads p 1 (parse_expr_bp fuel m p) e rest"
proof -
  define f where "f = fuel - 2"
  then have f: "fuel = Suc (Suc f)" using fuel by simp
  have "reads p 1 (parse_primary (Suc f) p) e rest" using e p rest(1) fuel f by (intro primary_readsD) simp_all
  then show ?thesis
    unfolding f parse_expr_bp.simps
  proof (rule reads_seq)
    fix q assume q: "at_tokens q rest" "parser_ok q"
    then have "binary_loop (Suc f) m e q = retP (e, q)" using rest(2) by (auto simp: at_tokens_kind split: option.split)
    with q show "reads q (1 - 1) (binary_loop (Suc f) m e q) e rest" by (simp add: reads_ret)
  qed
qed

lemma reads_list:
  assumes "es \<noteq> []" "\<And>e. e \<in> set es \<Longrightarrow> primary_reads e" "parser_ok p"
    "at_tokens p (separated (map expr_tokens es) (fixed T_Comma) @ rest)"
    "ends_value rest" "head_kind rest \<noteq> T_Comma" "4 * left_bytes p + 4 \<le> fuel"
  shows "reads p 1 (parse_expr_list fuel p) es rest"
  using assms
proof (induction es arbitrary: p fuel)
  case (Cons e es)
  obtain f where f: "fuel = Suc f" using Cons(8) by (cases fuel) auto
  show ?case
  proof (cases es)
    case Nil
    have "reads p 1 (parse_expr_bp f 0 p) e rest"
      using Cons(3-) Nil f by (intro reads_expr) (simp_all add: bin_of_iff)
    then show ?thesis unfolding f parse_expr_list.simps
      by (rule reads_seq) (rule reads_eat_no, use Cons(7) Nil in \<open>simp_all add: reads_ret\<close>)
  next
    case (Cons e' es')
    note C = Cons.prems
    let ?ts = "separated (map expr_tokens es) (fixed T_Comma) @ rest"
    have at: "at_tokens p (expr_tokens e @ fixed T_Comma # ?ts)" using C(4) Cons by (simp add: fixed_def)
    have "reads p 1 (parse_expr_bp f 0 p) e (fixed T_Comma # ?ts)"
      using C f at by (intro reads_expr) (simp_all add: bin_of_iff)
    then show ?thesis unfolding f parse_expr_list.simps
    proof (rule reads_seq)
      fix q assume q: "at_tokens q (fixed T_Comma # ?ts)" "parser_ok q" "left_bytes q + 1 \<le> left_bytes p"
      have q1: "at_tokens q ((T_Comma, ascii (kw_name T_Comma)) # ?ts)" using q(1) by (simp only: fixed_def)
      show "reads q (1 - 1) (bindP (eat T_Comma q) (\<lambda>(more, p).
          if more then bindP (parse_expr_list f p) (\<lambda>(xs, p). retP (e # xs, p)) else retP ([e], p))) (e # es) rest"
      proof (rule reads_eat_yes [OF q1 q(2)])
        fix r assume r: "at_tokens r ?ts" "parser_ok r" "left_bytes r + 1 \<le> left_bytes q"
        have "reads r 1 (parse_expr_list f r) es rest"
          using Cons.IH [OF _ _ r(2), of f] C r q f Cons by simp
        then show "reads r (1 - 1 - 1) (if True then bindP (parse_expr_list f r) (\<lambda>(xs, p). retP (e # xs, p))
            else retP ([e], r)) (e # es) rest"
          unfolding if_True by (rule reads_seq) (simp add: reads_ret)
      qed
    qed
  qed
qed simp

lemma primary_readsI:
  assumes "\<And>p rest fuel. parser_ok p \<Longrightarrow> at_tokens p (expr_tokens e @ rest) \<Longrightarrow> head_kind rest \<noteq> T_LParen \<Longrightarrow>
    4 * left_bytes p + 1 \<le> fuel \<Longrightarrow> reads p 1 (parse_primary (Suc fuel) p) e rest"
  shows "primary_reads e"
  unfolding primary_reads_def
proof (intro allI impI)
  fix p rest fuel
  assume a: "parser_ok p" "at_tokens p (expr_tokens e @ rest)" "head_kind rest \<noteq> T_LParen" "4 * left_bytes p + 2 \<le> fuel"
  then obtain f where "fuel = Suc f" by (cases fuel) auto
  with a assms [of p rest f] show "reads p 1 (parse_primary fuel p) e rest" by simp
qed

lemma at_cons_kind: "at_tokens p ((k, l) # ts) \<Longrightarrow> cur_kind p = k"
  by simp

lemma binary_loop_step:
  "bin_of (cur_kind p) = Some op \<Longrightarrow> binary_loop (Suc fuel) 0 lhs p =
     bindP (bump_token p) (\<lambda>p. bindP (parse_expr_bp fuel 2 p) (\<lambda>(rhs, p). binary_loop fuel 0 (E_Binary op lhs rhs) p))"
  by (simp only: binary_loop.simps option.case if_False) simp

lemma primary_star: "primary_reads E_Star"
proof (rule primary_readsI)
  fix p rest fuel assume p: "parser_ok p" "at_tokens p (expr_tokens E_Star @ rest)"
  from p(2) have at: "at_tokens p ((T_Star, ascii (kw_name T_Star)) # rest)" by simp
  show "reads p 1 (parse_primary (Suc fuel) p) E_Star rest"
    using reads_bump [OF at p(1), of 1 "\<lambda>p. retP (E_Star, p)"] at_cons_kind [OF at]
    by (simp add: Let_def reads_ret)
qed

lemma primary_ident: "primary_reads (E_Ident name)"
proof (rule primary_readsI)
  fix p rest fuel
  assume p: "parser_ok p" "at_tokens p (expr_tokens (E_Ident name) @ rest)" and rest: "head_kind rest \<noteq> T_LParen"
  from p(2) have at: "at_tokens p ((T_Ident, name) # rest)" by simp
  show "reads p 1 (parse_primary (Suc fuel) p) (E_Ident name) rest"
    unfolding parse_primary.simps Let_def at_cons_kind [OF at]
    using rest by (simp, intro reads_ident [OF at p(1)]) (simp add: reads_ret at_tokens_kind)
qed

lemma primary_int: "0 \<le> i \<Longrightarrow> i < 2 ^ 63 \<Longrightarrow> primary_reads (E_Int i)"
proof (rule primary_readsI)
  fix p rest fuel
  assume i: "0 \<le> i" "i < 2 ^ 63" and p: "parser_ok p" "at_tokens p (expr_tokens (E_Int i) @ rest)"
  from p(2) have at: "at_tokens p ((T_Int, decimal (nat i)) # rest)" by simp
  have "nat i < 2 ^ 63" using i by (simp add: nat_less_iff)
  note r = reads_number [OF at p(1) this, of "''bad int''"]
  have "reads p 1 (bindP (parse_number (2 ^ 63) ''bad int'' p) (\<lambda>(v, p). retP (E_Int (int v), p))) (E_Int i) rest"
    using i by (intro reads_seq [OF r]) (simp add: reads_ret)
  then show "reads p 1 (parse_primary (Suc fuel) p) (E_Int i) rest"
    unfolding parse_primary.simps Let_def at_cons_kind [OF at] by simp
qed

lemma primary_str: "primary_reads (E_Str inner)"
proof (rule primary_readsI)
  fix p rest fuel
  assume p: "parser_ok p" "at_tokens p (expr_tokens (E_Str inner) @ rest)"
  from p(2) have at: "at_tokens p ((T_Str, 39 # inner @ [39]) # rest)" by simp
  have "reads p 1 (bindP (bump_token p) (\<lambda>p'. bindP (Some (str_inner (t_lex (ps_cur p)))) (\<lambda>inner. retP (E_Str inner, p'))))
      (E_Str inner) rest"
    by (rule reads_bump [OF at p(1)]) (simp add: str_inner_def reads_ret)
  then show "reads p 1 (parse_primary (Suc fuel) p) (E_Str inner) rest"
    unfolding parse_primary.simps Let_def at_cons_kind [OF at] by simp
qed

lemma primary_binary:
  assumes l: "primary_reads l" and r: "primary_reads r"
  shows "primary_reads (E_Binary op l r)"
proof (rule primary_readsI)
  fix p rest fuel
  assume p: "parser_ok p" "at_tokens p (expr_tokens (E_Binary op l r) @ rest)" and f: "4 * left_bytes p + 1 \<le> fuel"
  let ?R = "(T_RParen, ascii (kw_name T_RParen)) # rest"
  let ?r = "(bin_kw op, ascii (kw_name (bin_kw op))) # expr_tokens r @ ?R"
  from p(2) have at: "at_tokens p ((T_LParen, ascii (kw_name T_LParen)) # expr_tokens l @ ?r)" by simp
  have op: "bin_of (bin_kw op) = Some op" "bin_kw op \<noteq> T_LParen" by (cases op; simp add: bin_of_def bin_kw_def)+
  have inner: "reads q 1 (parse_expr_bp fuel 0 q) (E_Binary op l r) ?R"
    if q: "at_tokens q (expr_tokens l @ ?r)" "parser_ok q" "left_bytes q + 1 \<le> left_bytes p" for q
  proof -
    define g where "g = fuel - 4"
    then have g: "fuel = Suc (Suc (Suc (Suc g)))" using f q(3) by simp
    have "reads q 1 (parse_primary (Suc (Suc (Suc g))) q) l ?r"
      using q f g op by (intro primary_readsD [OF l]) simp_all
    then show ?thesis
      unfolding g parse_expr_bp.simps
    proof (rule reads_seq)
      fix s assume s: "at_tokens s ?r" "parser_ok s" "left_bytes s + 1 \<le> left_bytes q"
      have "reads s 0 (bindP (bump_token s) (\<lambda>p. bindP (parse_expr_bp (Suc (Suc g)) 2 p) (\<lambda>(rhs, p).
          binary_loop (Suc (Suc g)) 0 (E_Binary op l rhs) p))) (E_Binary op l r) ?R"
      proof (rule reads_bump [OF s(1,2)])
        fix u assume u: "at_tokens u (expr_tokens r @ ?R)" "parser_ok u" "left_bytes u + 1 \<le> left_bytes s"
        have "reads u 1 (parse_expr_bp (Suc (Suc g)) 2 u) r ?R"
          using u s q f g by (intro reads_expr [OF r]) simp_all
        then show "reads u (0 - 1) (bindP (parse_expr_bp (Suc (Suc g)) 2 u) (\<lambda>(rhs, p).
          binary_loop (Suc (Suc g)) 0 (E_Binary op l rhs) p)) (E_Binary op l r) ?R"
        proof (rule reads_seq)
          fix v assume v: "at_tokens v ?R" "parser_ok v"
          then show "reads v (0 - 1 - 1) (binary_loop (Suc (Suc g)) 0 (E_Binary op l r) v) (E_Binary op l r) ?R"
            using reads_ret [OF v refl, of "E_Binary op l r"] by (simp add: bin_of_def)
        qed
      qed
      then show "reads s (1 - 1) (binary_loop (Suc (Suc (Suc g))) 0 l s) (E_Binary op l r) ?R"
        using at_cons_kind [OF s(1)] op(1) binary_loop_step [of s op "Suc (Suc g)" l] by (simp only:) simp
    qed
  qed
  have "reads p 1 (bindP (bump_token p) (\<lambda>p. bindP (parse_expr_bp fuel 0 p) (\<lambda>(e, p).
        bindP (expect T_RParen p) (\<lambda>p. retP (e, p))))) (E_Binary op l r) rest"
    by (rule reads_bump [OF at p(1)], rule reads_seq [OF inner], assumption+, rule reads_expect, assumption+)
      (simp add: reads_ret)
  then show "reads p 1 (parse_primary (Suc fuel) p) (E_Binary op l r) rest"
    unfolding parse_primary.simps Let_def at_cons_kind [OF at] by (simp add: agg_of_def)
qed

lemma primary_call:
  assumes "args \<noteq> []" "\<And>e. e \<in> set args \<Longrightarrow> primary_reads e"
  shows "primary_reads (E_Call name args)"
proof (rule primary_readsI)
  fix p rest fuel
  assume p: "parser_ok p" "at_tokens p (expr_tokens (E_Call name args) @ rest)" and f: "4 * left_bytes p + 1 \<le> fuel"
  let ?R = "(T_RParen, ascii (kw_name T_RParen)) # rest"
  let ?a = "separated (map expr_tokens args) (fixed T_Comma) @ ?R"
  from p(2) have at: "at_tokens p ((T_Ident, name) # (T_LParen, ascii (kw_name T_LParen)) # ?a)" by simp
  have args: "reads q 1 (parse_expr_list fuel q) args ?R"
    if "at_tokens q ?a" "parser_ok q" "left_bytes q + 1 \<le> left_bytes p" for q
    using that f by (intro reads_list [OF assms]) simp_all
  have call: "reads q 0 (bindP (bump_token q) (\<lambda>p. bindP (parse_expr_list fuel p) (\<lambda>(args, p).
      bindP (expect T_RParen p) (\<lambda>p. retP (E_Call name args, p))))) (E_Call name args) rest"
    if q: "at_tokens q ((T_LParen, ascii (kw_name T_LParen)) # ?a)" "parser_ok q" "left_bytes q + 1 \<le> left_bytes p" for q
    by (rule reads_bump [OF q(1,2)], rule reads_seq [OF args], assumption+, use q(3) in linarith,
        rule reads_expect, assumption+) (simp add: reads_ret)
  show "reads p 1 (parse_primary (Suc fuel) p) (E_Call name args) rest"
    unfolding parse_primary.simps Let_def at_cons_kind [OF at]
    by (simp, intro reads_ident [OF at p(1)]) (use call in simp)
qed

lemma value_head:
  assumes "value_ok e"
  shows "head_kind (expr_tokens e @ r) \<noteq> Kw_Distinct" "head_kind (expr_tokens e @ r) = T_Star \<longleftrightarrow> e = E_Star"
  using assms by (cases e; auto simp: agg_kw_def split: agg_fn.split)+

lemma check_agg_ok:
  "value_ok (E_Agg func dist arg) \<Longrightarrow> check_agg func dist arg p = retP (E_Agg func dist arg, p)"
  by (auto simp: check_agg_def Let_def)

lemma primary_agg:
  assumes ok: "value_ok (E_Agg func dist arg)" and arg: "primary_reads arg"
  shows "primary_reads (E_Agg func dist arg)"
proof (rule primary_readsI)
  fix p rest fuel
  assume p: "parser_ok p" "at_tokens p (expr_tokens (E_Agg func dist arg) @ rest)" and f: "4 * left_bytes p + 1 \<le> fuel"
  let ?R = "(T_RParen, ascii (kw_name T_RParen)) # rest"
  let ?a = "expr_tokens arg @ ?R"
  let ?d = "(if dist then [fixed Kw_Distinct] else []) @ ?a"
  from p(2) have at: "at_tokens p ((agg_kw func, ascii (kw_name (agg_kw func)))
      # (T_LParen, ascii (kw_name T_LParen)) # ?d)" by simp
  have func: "agg_of (agg_kw func) = Some func" by (cases func) (simp_all add: agg_of_def agg_kw_def)
  have va: "value_ok arg" using ok by simp
  define g where "g = fuel - 1"
  then have g: "fuel = Suc g" using f by simp
  have inner: "reads q 0 (bindP (if cur_kind q = T_Star then bindP (bump_token q) (\<lambda>p. retP (E_Star, p))
        else parse_expr_bp g 0 q) (\<lambda>(arg, p). bindP (expect T_RParen p) (\<lambda>p. check_agg func d arg p)))
        (E_Agg func dist arg) rest"
    if q: "at_tokens q ?a" "parser_ok q" "left_bytes q + 2 \<le> left_bytes p" and d: "d = dist" for q d
  proof -
    have "reads q 1 (if cur_kind q = T_Star then bindP (bump_token q) (\<lambda>p. retP (E_Star, p)) else parse_expr_bp g 0 q) arg ?R"
    proof (cases "arg = E_Star")
      case True
      then have star: "at_tokens q ((T_Star, ascii (kw_name T_Star)) # ?R)" using q(1) by simp
      have "reads q 1 (bindP (bump_token q) (\<lambda>p. retP (E_Star, p))) arg ?R"
        by (rule reads_bump [OF star q(2)]) (simp add: True reads_ret)
      then show ?thesis using at_cons_kind [OF star] by simp
    next
      case False
      then have "cur_kind q \<noteq> T_Star" using q(1) value_head(2) [OF va] by (simp add: at_tokens_kind)
      moreover have "reads q 1 (parse_expr_bp g 0 q) arg ?R"
        using q f g by (intro reads_expr [OF arg]) (simp_all add: bin_of_iff)
      ultimately show ?thesis by simp
    qed
    then show ?thesis
      by (rule reads_seq) (rule reads_expect, assumption+, simp add: d check_agg_ok [OF ok] reads_ret del: value_ok.simps)
  qed
  have eat: "reads q 0 (bindP (eat Kw_Distinct q) (\<lambda>(d, p).
        bindP (if cur_kind p = T_Star then bindP (bump_token p) (\<lambda>p. retP (E_Star, p)) else parse_expr_bp g 0 p)
          (\<lambda>(arg, p). bindP (expect T_RParen p) (\<lambda>p. check_agg func d arg p)))) (E_Agg func dist arg) rest"
    if q: "at_tokens q ?d" "parser_ok q" "left_bytes q + 2 \<le> left_bytes p" for q
  proof (cases dist)
    case True
    then have d: "at_tokens q ((Kw_Distinct, ascii (kw_name Kw_Distinct)) # ?a)" using q(1) by simp
    show ?thesis
      by (rule reads_eat_yes [OF d q(2)], simp only: diff_0_eq_0, rule inner) (use q True in simp_all)
  next
    case False
    then have d: "at_tokens q ?a" using q(1) by simp
    show ?thesis
      by (rule reads_eat_no [OF d q(2)], rule value_head(1) [OF va], rule inner) (use q False in simp_all)
  qed
  have "reads p 1 (bindP (bump_token p) (\<lambda>p. bindP (expect T_LParen p) (\<lambda>p. bindP (eat Kw_Distinct p) (\<lambda>(dist, p).
      bindP (if cur_kind p = T_Star then bindP (bump_token p) (\<lambda>p. retP (E_Star, p)) else parse_expr_bp g 0 p) (\<lambda>(arg, p).
      bindP (expect T_RParen p) (\<lambda>p. check_agg func dist arg p)))))) (E_Agg func dist arg) rest"
    by (rule reads_bump [OF at p(1)], rule reads_expect, assumption+) (use eat in simp)
  then have "reads p 1 (parse_aggregate fuel p) (E_Agg func dist arg) rest"
    unfolding g parse_aggregate.simps at_cons_kind [OF at] func by simp
  moreover have "agg_kw func \<notin> {T_Minus, T_Star, T_Ident, T_Int, T_Str}"
    by (cases func) (simp_all add: agg_kw_def)
  ultimately show "reads p 1 (parse_primary (Suc fuel) p) (E_Agg func dist arg) rest"
    unfolding parse_primary.simps Let_def at_cons_kind [OF at] func by simp
qed

lemma value_reads: "value_ok e \<Longrightarrow> primary_reads e"
proof (induction e)
  case (E_Agg func dist arg)
  then show ?case by (intro primary_agg) simp_all
next
  case (E_Call name args)
  then show ?case by (intro primary_call) (simp_all add: list_all_iff)
qed (simp_all add: primary_star primary_ident primary_int primary_str primary_binary)

lemmas reads_value = reads_expr [OF value_reads]

lemma reads_values:
  assumes "es \<noteq> []" "list_all value_ok es" "parser_ok p"
    "at_tokens p (separated (map expr_tokens es) (fixed T_Comma) @ rest)"
    "ends_value rest" "head_kind rest \<noteq> T_Comma" "4 * left_bytes p + 4 \<le> fuel"
  shows "reads p 1 (parse_expr_list fuel p) es rest"
  using assms(2) by (intro reads_list [OF assms(1) _ assms(3-)] value_reads) (simp add: list_all_iff)

section \<open>Conditions\<close>

lemma reads_eat_opt:
  assumes "at_tokens p ((if b then [fixed k] else []) @ ts)" "parser_ok p" "head_kind ts \<noteq> k"
    and "\<And>q. at_tokens q ts \<Longrightarrow> parser_ok q \<Longrightarrow> left_bytes q \<le> left_bytes p \<Longrightarrow> reads q 0 (h b q) y us"
  shows "reads p 0 (bindP (eat k p) (case_prod h)) y us"
proof (cases b)
  case True
  then have at: "at_tokens p ((k, ascii (kw_name k)) # ts)" using assms(1) by simp
  show ?thesis
    by (rule reads_eat_yes [OF at assms(2)], simp only: diff_0_eq_0) (use assms(4) True in simp)
next
  case False
  then have at: "at_tokens p ts" using assms(1) by simp
  show ?thesis by (rule reads_eat_no [OF at assms(2,3)]) (use assms(2,4) at False in simp)
qed

lemma reads_last:
  assumes at: "at_tokens p ((k, l) # expr_tokens e @ rest)" and p: "parser_ok p" and e: "value_ok e"
    and rest: "ends_value rest" and f: "4 * left_bytes p \<le> fuel + 1"
  shows "reads p 0 (bindP (bump_token p) (\<lambda>p. bindP (parse_expr_bp fuel 0 p) (\<lambda>(x, p). retP (g x, p)))) (g e) rest"
proof (rule reads_bump [OF at p])
  fix q assume q: "at_tokens q (expr_tokens e @ rest)" "parser_ok q" "left_bytes q + 1 \<le> left_bytes p"
  have "reads q 1 (parse_expr_bp fuel 0 q) e rest"
    using q e rest f by (intro reads_value) (simp_all add: bin_of_iff)
  then show "reads q (0 - 1) (bindP (parse_expr_bp fuel 0 q) (\<lambda>(x, p). retP (g x, p))) (g e) rest"
    by (rule reads_seq) (simp add: reads_ret)
qed

text \<open>After the left value of a predicate.\<close>

definition predicate_rest :: "nat \<Rightarrow> expr \<Rightarrow> bool \<Rightarrow> parser \<Rightarrow> (expr \<times> parser) presult option" where
  "predicate_rest fuel l neg p =
     (if cur_kind p = Kw_Like then
         bindP (bump_token p) (\<lambda>p. bindP (parse_expr_bp fuel 0 p) (\<lambda>(pat, p). retP (E_Like l pat neg, p)))
       else if cur_kind p = Kw_In then
         bindP (bump_token p) (\<lambda>p. bindP (expect T_LParen p) (\<lambda>p.
         bindP (parse_expr_list fuel p) (\<lambda>(vals, p).
         bindP (expect T_RParen p) (\<lambda>p. retP (E_In l vals neg, p)))))
       else if neg then failP ''expected LIKE or IN after NOT'' (t_start (ps_cur p))
       else (case cmp_of (cur_kind p) of
           None \<Rightarrow> failP ''expected comparison operator'' (t_start (ps_cur p))
         | Some op \<Rightarrow>
             bindP (bump_token p) (\<lambda>p. bindP (parse_expr_bp fuel 0 p) (\<lambda>(right, p).
               retP (E_Compare op l right, p)))))"

lemma reads_predicate:
  assumes l: "value_ok l" and p: "parser_ok p" "at_tokens p (expr_tokens l @ (if neg then [fixed Kw_Not] else []) @ ts)"
    and ts: "head_kind ts \<noteq> Kw_Not" "ends_value ts" and f: "4 * left_bytes p + 4 \<le> fuel"
    and next_ok: "\<And>q. at_tokens q ts \<Longrightarrow> parser_ok q \<Longrightarrow> left_bytes q + 1 \<le> left_bytes p \<Longrightarrow>
      reads q 0 (predicate_rest fuel l neg q) e rest"
  shows "reads p 1 (parse_predicate fuel p) e rest"
proof -
  let ?n = "(if neg then [fixed Kw_Not] else []) @ ts"
  have "reads p 1 (parse_expr_bp fuel 0 p) l ?n"
    using p ts l f by (intro reads_value) (simp_all add: bin_of_iff)
  then show ?thesis
    unfolding parse_predicate_def predicate_rest_def [symmetric]
    by (rule reads_seq, simp only: diff_self_eq_0, elim reads_eat_opt) (use ts next_ok in simp_all)
qed

lemma predicate_like:
  assumes "value_ok l" "value_ok pat" "parser_ok p" "at_tokens p (expr_tokens (E_Like l pat neg) @ rest)"
    "ends_value rest" "4 * left_bytes p + 4 \<le> fuel"
  shows "reads p 1 (parse_predicate fuel p) (E_Like l pat neg) rest"
proof (rule reads_predicate [OF assms(1,3)])
  let ?ts = "(Kw_Like, ascii (kw_name Kw_Like)) # expr_tokens pat @ rest"
  show "at_tokens p (expr_tokens l @ (if neg then [fixed Kw_Not] else []) @ ?ts)" using assms(4) by simp
  fix q assume q: "at_tokens q ?ts" "parser_ok q" "left_bytes q + 1 \<le> left_bytes p"
  show "reads q 0 (predicate_rest fuel l neg q) (E_Like l pat neg) rest"
    using reads_last [OF q(1,2) assms(2,5), of fuel "\<lambda>pat. E_Like l pat neg"] q(3) assms(6) at_cons_kind [OF q(1)]
    by (simp add: predicate_rest_def)
qed (use assms(6) in simp_all)

lemma predicate_compare:
  assumes "value_ok l" "value_ok r" "parser_ok p" "at_tokens p (expr_tokens (E_Compare op l r) @ rest)"
    "ends_value rest" "4 * left_bytes p + 4 \<le> fuel"
  shows "reads p 1 (parse_predicate fuel p) (E_Compare op l r) rest"
proof (rule reads_predicate [OF assms(1,3)])
  let ?ts = "(cmp_kw op, ascii (kw_name (cmp_kw op))) # expr_tokens r @ rest"
  have op: "cmp_of (cmp_kw op) = Some op" "cmp_kw op \<notin> {Kw_Like, Kw_In, Kw_Not, T_LParen, T_Plus, T_Minus}"
    by (cases op; simp add: cmp_of_def cmp_kw_def)+
  show "at_tokens p (expr_tokens l @ (if False then [fixed Kw_Not] else []) @ ?ts)" using assms(4) by simp
  show "head_kind ?ts \<noteq> Kw_Not" "ends_value ?ts" using op by simp_all
  fix q assume q: "at_tokens q ?ts" "parser_ok q" "left_bytes q + 1 \<le> left_bytes p"
  show "reads q 0 (predicate_rest fuel l False q) (E_Compare op l r) rest"
    using reads_last [OF q(1,2) assms(2,5), of fuel "\<lambda>r. E_Compare op l r"] q(3) assms(6) at_cons_kind [OF q(1)] op
    by (simp add: predicate_rest_def)
qed (use assms(6) in simp)

lemma predicate_in:
  assumes "value_ok l" "vals \<noteq> []" "list_all value_ok vals" "parser_ok p"
    "at_tokens p (expr_tokens (E_In l vals neg) @ rest)" "4 * left_bytes p + 4 \<le> fuel"
  shows "reads p 1 (parse_predicate fuel p) (E_In l vals neg) rest"
proof (rule reads_predicate [OF assms(1,4)])
  let ?R = "(T_RParen, ascii (kw_name T_RParen)) # rest"
  let ?a = "separated (map expr_tokens vals) (fixed T_Comma) @ ?R"
  let ?ts = "(Kw_In, ascii (kw_name Kw_In)) # (T_LParen, ascii (kw_name T_LParen)) # ?a"
  show "at_tokens p (expr_tokens l @ (if neg then [fixed Kw_Not] else []) @ ?ts)" using assms(5) by simp
  fix q assume q: "at_tokens q ?ts" "parser_ok q" "left_bytes q + 1 \<le> left_bytes p"
  have args: "reads r 1 (parse_expr_list fuel r) vals ?R"
    if "at_tokens r ?a" "parser_ok r" "left_bytes r \<le> left_bytes p" for r
    using that assms by (intro reads_values) simp_all
  have "reads q 0 (bindP (bump_token q) (\<lambda>p. bindP (expect T_LParen p) (\<lambda>p. bindP (parse_expr_list fuel p) (\<lambda>(vals, p).
         bindP (expect T_RParen p) (\<lambda>p. retP (E_In l vals neg, p)))))) (E_In l vals neg) rest"
    by (rule reads_bump [OF q(1,2)], rule reads_expect, assumption+, rule reads_seq [OF args], assumption+,
        use q(3) in linarith, rule reads_expect, assumption+) (simp add: reads_ret)
  then show "reads q 0 (predicate_rest fuel l neg q) (E_In l vals neg) rest"
    using at_cons_kind [OF q(1)] by (simp add: predicate_rest_def)
qed (use assms(6) in simp_all)

lemma predicate_reads:
  assumes "predicate_ok e" "parser_ok p" "at_tokens p (expr_tokens e @ rest)" "ends_value rest"
    "4 * left_bytes p + 4 \<le> fuel"
  shows "reads p 1 (parse_predicate fuel p) e rest"
proof (cases e)
  case (E_Compare op l r)
  with assms show ?thesis using predicate_compare [of l r p op rest fuel] by simp
next
  case (E_Like l pat neg)
  with assms show ?thesis using predicate_like [of l pat p neg rest fuel] by simp
next
  case (E_In l vals neg)
  with assms show ?thesis using predicate_in [of l vals p neg rest fuel] by simp
qed (use assms(1) in simp_all)

lemma condition_base:
  assumes "predicate_ok e" "parser_ok p" "at_tokens p (expr_tokens e @ rest)" "ends_value rest"
    "4 * left_bytes p + 5 \<le> fuel"
  shows "\<exists>f q. parse_and_predicate fuel p = and_loop f e q \<and> at_tokens q rest \<and> parser_ok q \<and>
    4 * left_bytes q + 5 \<le> f \<and> left_bytes q + 1 \<le> left_bytes p"
proof -
  obtain q where q: "parse_predicate fuel p = retP (e, q)" "at_tokens q rest" "parser_ok q"
    "left_bytes q + 1 \<le> left_bytes p"
    using predicate_reads [OF assms(1-4), of fuel] assms(5) by (auto simp: reads_def)
  then show ?thesis using assms(5) by (intro exI [of _ fuel] exI [of _ q]) (simp add: parse_and_predicate_def)
qed

text \<open>A condition is read up to some point of the loop over \<open>AND\<close>.\<close>

lemma condition_steps:
  assumes "condition_ok e" "parser_ok p" "at_tokens p (expr_tokens e @ rest)" "ends_value rest"
    "4 * left_bytes p + 5 \<le> fuel"
  shows "\<exists>f q. parse_and_predicate fuel p = and_loop f e q \<and> at_tokens q rest \<and> parser_ok q \<and>
    4 * left_bytes q + 5 \<le> f \<and> left_bytes q + 1 \<le> left_bytes p"
  using assms
proof (induction e arbitrary: rest)
  case (E_And l r)
  let ?ts = "(Kw_And, ascii (kw_name Kw_And)) # expr_tokens r @ rest"
  have ok: "condition_ok l" "predicate_ok r" using E_And(3) by simp_all
  have "at_tokens p (expr_tokens l @ ?ts)" using E_And(5) by simp
  then obtain f q where q: "parse_and_predicate fuel p = and_loop f l q" "at_tokens q ?ts" "parser_ok q"
    "4 * left_bytes q + 5 \<le> f" "left_bytes q + 1 \<le> left_bytes p"
    using E_And(1) [OF ok(1) E_And(4) _ _ E_And(7), of ?ts] by auto
  obtain s where s: "bump_token q = retP s" "at_tokens s (expr_tokens r @ rest)" "parser_ok s"
    "left_bytes s + 1 \<le> left_bytes q" "cur_kind q = Kw_And"
    using at_tokens_Cons [OF q(3,2)] by blast
  define g where "g = f - 1"
  have g: "f = Suc g" using q(4) g_def by simp
  have "reads s 1 (parse_predicate g s) r rest"
    using s q(4) g by (intro predicate_reads [OF ok(2) s(3,2) E_And(6)]) simp
  then obtain u where u: "parse_predicate g s = retP (r, u)" "at_tokens u rest" "parser_ok u"
    "left_bytes u + 1 \<le> left_bytes s"
    by (auto simp: reads_def)
  have "parse_and_predicate fuel p = and_loop g (E_And l r) u" using q(1) g s(1,5) u(1) by simp
  then show ?case using u s(4) q(4,5) g by (intro exI [of _ g] exI [of _ u]) simp
qed (rule condition_base; (assumption | simp only: condition_ok.simps))+

lemma reads_condition:
  assumes "condition_ok e" "parser_ok p" "at_tokens p (expr_tokens e @ rest)" "ends_value rest"
    "head_kind rest \<noteq> Kw_And" "4 * left_bytes p + 5 \<le> fuel"
  shows "reads p 1 (parse_and_predicate fuel p) e rest"
proof -
  obtain f q where q: "parse_and_predicate fuel p = and_loop f e q" "at_tokens q rest" "parser_ok q"
    "4 * left_bytes q + 5 \<le> f" "left_bytes q + 1 \<le> left_bytes p"
    using condition_steps [OF assms(1-4,6)] by blast
  have "and_loop f e q = retP (e, q)" using q(2,4) assms(5) by (cases f) (simp_all add: at_tokens_kind)
  with q show ?thesis by (simp add: reads_def)
qed

section \<open>Clauses\<close>

definition item_tokens :: "select_item \<Rightarrow> token list" where
  "item_tokens i = expr_tokens (si_expr i) @
     (case si_alias i of None \<Rightarrow> [] | Some a \<Rightarrow> [fixed Kw_As, (T_Ident, a)])"

definition item_ok :: "select_item \<Rightarrow> bool" where
  "item_ok i \<longleftrightarrow> value_ok (si_expr i) \<and> (case si_alias i of None \<Rightarrow> True | Some a \<Rightarrow> name_ok a)"

definition order_tokens :: "order_item \<Rightarrow> token list" where
  "order_tokens i = expr_tokens (oi_expr i) @ (if oi_desc i then [fixed Kw_Desc] else [])"

lemma reads_alias:
  assumes "at_tokens p ((case name_opt of None \<Rightarrow> [] | Some a \<Rightarrow> [fixed Kw_As, (T_Ident, a)]) @ rest)" "parser_ok p"
    "head_kind rest \<noteq> Kw_As"
  shows "reads p 0 (if cur_kind p = Kw_As then
     bindP (bump_token p) (\<lambda>p. bindP (parse_ident p) (\<lambda>(a, p). retP (Some a, p))) else retP (None, p)) name_opt rest"
proof (cases name_opt)
  case None
  with assms show ?thesis by (simp add: at_tokens_kind reads_ret)
next
  case (Some a)
  then have at: "at_tokens p ((Kw_As, ascii (kw_name Kw_As)) # (T_Ident, a) # rest)" using assms(1) by simp
  have "reads p 0 (bindP (bump_token p) (\<lambda>p. bindP (parse_ident p) (\<lambda>(a, p). retP (Some a, p)))) name_opt rest"
    by (rule reads_bump [OF at assms(2)], rule reads_ident, assumption+) (simp add: Some reads_ret)
  then show ?thesis using at_cons_kind [OF at] by simp
qed

lemma reads_direction:
  assumes "at_tokens p ((if desc then [fixed Kw_Desc] else []) @ rest)" "parser_ok p"
    "head_kind rest \<notin> {Kw_Desc, Kw_Asc}"
  shows "reads p 0 (if cur_kind p = Kw_Desc then bindP (bump_token p) (\<lambda>p. retP (True, p))
     else if cur_kind p = Kw_Asc then bindP (bump_token p) (\<lambda>p. retP (False, p)) else retP (False, p)) desc rest"
proof (cases desc)
  case False
  with assms show ?thesis by (simp add: at_tokens_kind reads_ret)
next
  case True
  then have at: "at_tokens p ((Kw_Desc, ascii (kw_name Kw_Desc)) # rest)" using assms(1) by simp
  have "reads p 0 (bindP (bump_token p) (\<lambda>p. retP (True, p))) desc rest"
    by (rule reads_bump [OF at assms(2)]) (simp add: True reads_ret)
  then show ?thesis using at_cons_kind [OF at] by simp
qed

text \<open>After an item: the list goes on after a comma, and ends otherwise.\<close>

lemma reads_more:
  assumes "at_tokens p (separated [] s @ rest)" "parser_ok p" "head_kind rest \<noteq> T_Comma"
  shows "reads p 0 (bindP (eat T_Comma p) (\<lambda>(more, p).
      if more then bindP (list_rest p) (\<lambda>(items, p). retP (item # items, p)) else retP ([item], p))) [item] rest"
  using assms by (intro reads_eat_no [where ts = rest]) (simp_all add: reads_ret)

lemma reads_more_comma:
  assumes at: "at_tokens p ((T_Comma, l) # ts)" "parser_ok p"
    and rest: "\<And>q. at_tokens q ts \<Longrightarrow> parser_ok q \<Longrightarrow> left_bytes q + 1 \<le> left_bytes p \<Longrightarrow> reads q 1 (list_rest q) items rest"
  shows "reads p 0 (bindP (eat T_Comma p) (\<lambda>(more, p).
      if more then bindP (list_rest p) (\<lambda>(items, p). retP (item # items, p)) else retP ([item], p))) (item # items) rest"
proof (rule reads_eat_yes [OF at])
  fix q assume "at_tokens q ts" "parser_ok q" "left_bytes q + 1 \<le> left_bytes p"
  from rest [OF this] show "reads q (0 - 1) (if True then bindP (list_rest q) (\<lambda>(items, p). retP (item # items, p))
      else retP ([item], q)) (item # items) rest"
    unfolding if_True by (rule reads_seq) (simp add: reads_ret)
qed

lemma item_eta [simp]: "\<lparr> si_expr = si_expr i, si_alias = si_alias i \<rparr> = i"
  "\<lparr> oi_expr = oi_expr j, oi_desc = oi_desc j \<rparr> = j"
  by simp_all

lemma reads_select:
  assumes "items \<noteq> []" "list_all item_ok items" "parser_ok p"
    "at_tokens p (separated (map item_tokens items) (fixed T_Comma) @ rest)"
    "head_kind rest \<notin> {T_LParen, T_Plus, T_Minus, T_Comma, Kw_As}" "4 * left_bytes p + 5 \<le> fuel"
  shows "reads p 1 (parse_select_list fuel p) items rest"
  using assms
proof (induction items arbitrary: p fuel)
  case (Cons i js)
  define f where "f = fuel - 1"
  have f: "fuel = Suc f" using Cons(7) f_def by simp
  define ts where "ts = (case js of [] \<Rightarrow> rest | _ \<Rightarrow> fixed T_Comma # separated (map item_tokens js) (fixed T_Comma) @ rest)"
  have ts: "head_kind ts \<notin> {T_LParen, T_Plus, T_Minus, Kw_As}"
    using Cons(6) by (auto simp: ts_def split: list.split)
  let ?al = "(case si_alias i of None \<Rightarrow> [] | Some a \<Rightarrow> [fixed Kw_As, (T_Ident, a)]) @ ts"
  have at: "at_tokens p (expr_tokens (si_expr i) @ ?al)"
    using Cons(5) by (cases js) (simp_all add: ts_def item_tokens_def [of i])
  have al: "ends_value ?al" using ts by (simp split: option.split)
  have e: "reads p 1 (parse_expr_bp f 0 p) (si_expr i) ?al"
    using at al Cons(3,4,7) f by (intro reads_value) (simp_all add: bin_of_iff item_ok_def)
  have more: "reads q 0 (bindP (eat T_Comma q) (\<lambda>(more, p).
      if more then bindP (parse_select_list f p) (\<lambda>(items, p). retP (i # items, p)) else retP ([i], p))) (i # js) rest"
    if q: "at_tokens q ts" "parser_ok q" "left_bytes q + 1 \<le> left_bytes p" for q
  proof (cases js)
    case Nil
    then show ?thesis using reads_more [of q "fixed T_Comma" rest] q Cons(6) by (simp add: ts_def)
  next
    case (Cons i' js')
    then have "at_tokens q ((T_Comma, ascii (kw_name T_Comma)) # separated (map item_tokens js) (fixed T_Comma) @ rest)"
      using q(1) by (simp add: ts_def)
    then show ?thesis
      by (rule reads_more_comma [OF _ q(2)]) (use Cons.IH [of _ f] Cons.prems Cons q f in simp)
  qed
  show ?case
    unfolding f parse_select_list.simps Let_def
    by (rule reads_seq [OF e], rule reads_seq [OF reads_alias], assumption+, use ts in simp, unfold item_eta) (use more in simp)
qed simp

lemma reads_order:
  assumes "items \<noteq> []" "list_all (\<lambda>i. value_ok (oi_expr i)) items" "parser_ok p"
    "at_tokens p (separated (map order_tokens items) (fixed T_Comma) @ rest)"
    "head_kind rest \<notin> {T_LParen, T_Plus, T_Minus, T_Comma, Kw_Desc, Kw_Asc}" "4 * left_bytes p + 5 \<le> fuel"
  shows "reads p 1 (parse_order_list fuel p) items rest"
  using assms
proof (induction items arbitrary: p fuel)
  case (Cons i js)
  define f where "f = fuel - 1"
  have f: "fuel = Suc f" using Cons(7) f_def by simp
  define ts where "ts = (case js of [] \<Rightarrow> rest | _ \<Rightarrow> fixed T_Comma # separated (map order_tokens js) (fixed T_Comma) @ rest)"
  have ts: "head_kind ts \<notin> {T_LParen, T_Plus, T_Minus, Kw_Desc, Kw_Asc}"
    using Cons(6) by (auto simp: ts_def split: list.split)
  let ?al = "(if oi_desc i then [fixed Kw_Desc] else []) @ ts"
  have at: "at_tokens p (expr_tokens (oi_expr i) @ ?al)"
    using Cons(5) by (cases js) (simp_all add: ts_def order_tokens_def [of i])
  have al: "ends_value ?al" using ts by simp
  have e: "reads p 1 (parse_expr_bp f 0 p) (oi_expr i) ?al"
    using at al Cons(3,4,7) f by (intro reads_value) (simp_all add: bin_of_iff)
  have more: "reads q 0 (bindP (eat T_Comma q) (\<lambda>(more, p).
      if more then bindP (parse_order_list f p) (\<lambda>(items, p). retP (i # items, p)) else retP ([i], p))) (i # js) rest"
    if q: "at_tokens q ts" "parser_ok q" "left_bytes q + 1 \<le> left_bytes p" for q
  proof (cases js)
    case Nil
    then show ?thesis using reads_more [of q "fixed T_Comma" rest] q Cons(6) by (simp add: ts_def)
  next
    case (Cons i' js')
    then have "at_tokens q ((T_Comma, ascii (kw_name T_Comma)) # separated (map order_tokens js) (fixed T_Comma) @ rest)"
      using q(1) by (simp add: ts_def)
    then show ?thesis
      by (rule reads_more_comma [OF _ q(2)]) (use Cons.IH [of _ f] Cons.prems Cons q f in simp)
  qed
  show ?case
    unfolding f parse_order_list.simps Let_def
    by (rule reads_seq [OF e], rule reads_seq [OF reads_direction], assumption+, use ts in simp, unfold item_eta) (use more in simp)
qed simp

lemma reads_clause_none:
  assumes "at_tokens p ts" "parser_ok p" "head_kind ts \<noteq> k"
  shows "reads p 0 (clause k d f p) d ts"
  using assms by (simp add: clause_def at_tokens_kind reads_ret)

lemma reads_clause_some:
  assumes "at_tokens p ((k, l) # ts)" "parser_ok p"
    and "\<And>q. at_tokens q ts \<Longrightarrow> parser_ok q \<Longrightarrow> left_bytes q + 1 \<le> left_bytes p \<Longrightarrow> reads q 0 (f q) x rest"
  shows "reads p 0 (clause k d f p) x rest"
  using reads_bump [OF assms(1,2), of 0 f x rest] assms(1,3) by (simp add: clause_def)

lemma reads_less: "reads p k r x ts \<Longrightarrow> j \<le> k \<Longrightarrow> reads p j r x ts"
  by (auto simp: reads_def)

lemma reads_some_of: "reads p k r x ts \<Longrightarrow> reads p 0 (some_of r) (Some x) ts"
  unfolding some_of_def by (rule reads_seq) (auto intro: reads_ret)

definition condition_tokens :: "tok_kind \<Rightarrow> expr option \<Rightarrow> token list" where
  "condition_tokens k e = (case e of None \<Rightarrow> [] | Some e \<Rightarrow> fixed k # expr_tokens e)"

definition count_tokens :: "tok_kind \<Rightarrow> nat option \<Rightarrow> token list" where
  "count_tokens k n = (case n of None \<Rightarrow> [] | Some n \<Rightarrow> [fixed k, (T_Int, decimal n)])"

definition by_tokens :: "tok_kind \<Rightarrow> ('a \<Rightarrow> token list) \<Rightarrow> 'a list \<Rightarrow> token list" where
  "by_tokens k f xs = (if xs = [] then [] else fixed k # fixed Kw_By # separated (map f xs) (fixed T_Comma))"

lemma reads_condition_clause:
  assumes "at_tokens p (condition_tokens k e @ rest)" "parser_ok p" "\<And>x. e = Some x \<Longrightarrow> condition_ok x"
    "head_kind rest \<notin> {k, T_LParen, T_Plus, T_Minus, Kw_And}" "4 * left_bytes p + 5 \<le> fuel"
  shows "reads p 0 (clause k None (\<lambda>p. some_of (parse_and_predicate fuel p)) p) e rest"
proof (cases e)
  case None
  show ?thesis unfolding None using assms None by (intro reads_clause_none) (simp_all add: condition_tokens_def)
next
  case (Some x)
  then have "at_tokens p ((k, ascii (kw_name k)) # expr_tokens x @ rest)" using assms(1) by (simp add: condition_tokens_def)
  then show ?thesis
  proof (rule reads_clause_some [OF _ assms(2)])
    fix q assume "at_tokens q (expr_tokens x @ rest)" "parser_ok q" "left_bytes q + 1 \<le> left_bytes p"
    then show "reads q 0 (some_of (parse_and_predicate fuel q)) e rest"
      unfolding Some using assms(3) [OF Some] assms(4,5) by (intro reads_some_of [OF reads_condition]) simp_all
  qed
qed

lemma reads_count_clause:
  assumes "at_tokens p (count_tokens k n @ rest)" "parser_ok p" "\<And>x. n = Some x \<Longrightarrow> x < 2 ^ 64" "head_kind rest \<noteq> k"
  shows "reads p 0 (clause k None (\<lambda>p. some_of (parse_u64 p)) p) n rest"
proof (cases n)
  case None
  show ?thesis unfolding None using assms None by (intro reads_clause_none) (simp_all add: count_tokens_def)
next
  case (Some x)
  then have "at_tokens p ((k, ascii (kw_name k)) # (T_Int, decimal x) # rest)" using assms(1) by (simp add: count_tokens_def)
  then show ?thesis
  proof (rule reads_clause_some [OF _ assms(2)])
    fix q assume q: "at_tokens q ((T_Int, decimal x) # rest)" "parser_ok q"
    have "reads q 1 (parse_u64 q) x rest"
      using reads_number [OF q, of "2 ^ 64" "''bad u64''"] assms(3) [OF Some] at_cons_kind [OF q(1)]
      by (simp add: parse_u64_def)
    then show "reads q 0 (some_of (parse_u64 q)) n rest" unfolding Some by (rule reads_some_of)
  qed
qed

lemma reads_by_clause:
  assumes "at_tokens p (by_tokens k g xs @ rest)" "parser_ok p" "head_kind rest \<noteq> k"
    and "\<And>q. xs \<noteq> [] \<Longrightarrow> at_tokens q (separated (map g xs) (fixed T_Comma) @ rest) \<Longrightarrow> parser_ok q \<Longrightarrow>
      left_bytes q \<le> left_bytes p \<Longrightarrow> reads q 1 (f q) xs rest"
  shows "reads p 0 (clause k [] (\<lambda>p. bindP (expect Kw_By p) f) p) xs rest"
proof (cases "xs = []")
  case True
  with assms show ?thesis by (auto intro!: reads_clause_none simp: by_tokens_def)
next
  case False
  let ?ts = "separated (map g xs) (fixed T_Comma) @ rest"
  from False have at: "at_tokens p ((k, ascii (kw_name k)) # (Kw_By, ascii (kw_name Kw_By)) # ?ts)"
    using assms(1) by (simp add: by_tokens_def)
  show ?thesis
    by (rule reads_clause_some [OF at assms(2)], rule reads_expect, assumption+,
        rule reads_less [OF assms(4) [OF False]], assumption+, linarith, simp)
qed

section \<open>Queries\<close>

definition query_tokens :: "query \<Rightarrow> token list" where
  "query_tokens q =
     fixed Kw_Select # separated (map item_tokens (q_select q)) (fixed T_Comma)
       @ fixed Kw_From # (T_Ident, q_from q)
       # condition_tokens Kw_Where (q_where q) @ by_tokens Kw_Group expr_tokens (q_group_by q)
       @ condition_tokens Kw_Having (q_having q) @ by_tokens Kw_Order order_tokens (q_order_by q)
       @ count_tokens Kw_Offset (q_offset q) @ count_tokens Kw_Limit (q_limit q)"

definition print_query :: "query \<Rightarrow> bytes" where "print_query q = tokens_text (query_tokens q)"

definition query_ok :: "query \<Rightarrow> bool" where
  "query_ok q \<longleftrightarrow>
     q_select q \<noteq> [] \<and> list_all item_ok (q_select q) \<and> name_ok (q_from q)
     \<and> (case q_where q of None \<Rightarrow> True | Some e \<Rightarrow> condition_ok e) \<and> list_all value_ok (q_group_by q)
     \<and> (case q_having q of None \<Rightarrow> True | Some e \<Rightarrow> condition_ok e)
     \<and> list_all (\<lambda>i. value_ok (oi_expr i)) (q_order_by q)
     \<and> (case q_offset q of None \<Rightarrow> True | Some n \<Rightarrow> n < 2 ^ 64) \<and> (case q_limit q of None \<Rightarrow> True | Some n \<Rightarrow> n < 2 ^ 64)"

lemma ends_reads:
  fixes h :: "'a \<Rightarrow> parser \<Rightarrow> query presult option"
  assumes "reads p k r x ts"
    and "\<And>q. at_tokens q ts \<Longrightarrow> parser_ok q \<Longrightarrow> left_bytes q \<le> left_bytes p \<Longrightarrow> h x q = y"
  shows "bindP r (case_prod h) = y"
  using assms by (auto simp: reads_def)

lemma ends_expect:
  assumes "at_tokens p ((k, l) # ts)" "parser_ok p"
    and "\<And>q. at_tokens q ts \<Longrightarrow> parser_ok q \<Longrightarrow> left_bytes q \<le> left_bytes p \<Longrightarrow> h q = y"
  shows "bindP (expect k p) h = y"
  using at_tokens_Cons [OF assms(2,1)] assms by (fastforce simp: expect_def)

lemma condition_tokens_head: "head_kind (condition_tokens k e @ ts) = (if e = None then head_kind ts else k)"
  by (cases e) (simp_all add: condition_tokens_def)

lemma count_tokens_head: "head_kind (count_tokens k n @ ts) = (if n = None then head_kind ts else k)"
  "head_kind (count_tokens k n) = (if n = None then T_Eof else k)"
  by (cases n; simp add: count_tokens_def)+

lemma by_tokens_head: "head_kind (by_tokens k f xs @ ts) = (if xs = [] then head_kind ts else k)"
  by (simp add: by_tokens_def)

lemmas clause_heads = condition_tokens_head count_tokens_head by_tokens_head

lemma bump_end:
  assumes "at_tokens p []" "parser_ok p"
  shows "\<exists>q. bump_token p = retP q"
proof -
  have "ps_pos p = length (ps_text p)" using assms unfolding parser_ok_def tok_ok_def by auto
  then show ?thesis using lex_next_end [of "ps_pos p" "ps_text p" "[]"] by (simp add: bump_token_def)
qed

lemma query_reads:
  assumes ok: "query_ok q" and p: "parser_ok p" "at_tokens p (query_tokens q)" and f: "4 * left_bytes p + 5 \<le> fuel"
  shows "parse_query fuel p = retP q"
proof -
  let ?t6 = "count_tokens Kw_Limit (q_limit q)"
  let ?t5 = "count_tokens Kw_Offset (q_offset q) @ ?t6"
  let ?t4 = "by_tokens Kw_Order order_tokens (q_order_by q) @ ?t5"
  let ?t3 = "condition_tokens Kw_Having (q_having q) @ ?t4"
  let ?t2 = "by_tokens Kw_Group expr_tokens (q_group_by q) @ ?t3"
  let ?t1 = "condition_tokens Kw_Where (q_where q) @ ?t2"
  let ?s = "(Kw_From, ascii (kw_name Kw_From)) # (T_Ident, q_from q) # ?t1"
  have at: "at_tokens p ((Kw_Select, ascii (kw_name Kw_Select)) # separated (map item_tokens (q_select q)) (fixed T_Comma) @ ?s)"
    using p(2) by (simp add: query_tokens_def)
  note ok = ok [unfolded query_ok_def]
  have select: "reads u 1 (parse_select_list fuel u) (q_select q) ?s"
    if "at_tokens u (separated (map item_tokens (q_select q)) (fixed T_Comma) @ ?s)" "parser_ok u" "left_bytes u \<le> left_bytes p" for u
    using that ok f by (intro reads_select) simp_all
  have from_name: "reads u 1 (parse_ident u) (q_from q) ?t1" if "at_tokens u ((T_Ident, q_from q) # ?t1)" "parser_ok u" for u
    using reads_ident [OF that, of 1 "\<lambda>x p. retP (x, p)" "q_from q" ?t1]
    by (auto simp: reads_def bindP_Some_Inr)
  have w: "reads u 0 (clause Kw_Where None (\<lambda>p. some_of (parse_and_predicate fuel p)) u) (q_where q) ?t2"
    if "at_tokens u ?t1" "parser_ok u" "left_bytes u \<le> left_bytes p" for u
    using that ok f by (intro reads_condition_clause) (auto simp: clause_heads)
  have g: "reads u 0 (clause Kw_Group [] (\<lambda>p. bindP (expect Kw_By p) (parse_expr_list fuel)) u) (q_group_by q) ?t3"
    if "at_tokens u ?t2" "parser_ok u" "left_bytes u \<le> left_bytes p" for u
    by (rule reads_by_clause [OF that(1,2)], simp add: clause_heads)
      (use ok f that in \<open>intro reads_values, auto simp: clause_heads\<close>)
  have hv: "reads u 0 (clause Kw_Having None (\<lambda>p. some_of (parse_and_predicate fuel p)) u) (q_having q) ?t4"
    if "at_tokens u ?t3" "parser_ok u" "left_bytes u \<le> left_bytes p" for u
    using that ok f by (intro reads_condition_clause) (auto simp: clause_heads)
  have o: "reads u 0 (clause Kw_Order [] (\<lambda>p. bindP (expect Kw_By p) (parse_order_list fuel)) u) (q_order_by q) ?t5"
    if "at_tokens u ?t4" "parser_ok u" "left_bytes u \<le> left_bytes p" for u
    by (rule reads_by_clause [OF that(1,2)], simp add: clause_heads)
      (use ok f that in \<open>intro reads_order, auto simp: clause_heads\<close>)
  have off: "reads u 0 (clause Kw_Offset None (\<lambda>p. some_of (parse_u64 p)) u) (q_offset q) ?t6"
    if "at_tokens u ?t5" "parser_ok u" for u
    using that ok by (intro reads_count_clause) (auto simp: clause_heads)
  have lim: "reads u 0 (clause Kw_Limit None (\<lambda>p. some_of (parse_u64 p)) u) (q_limit q) []"
    if "at_tokens u ?t6" "parser_ok u" for u
    using that ok by (intro reads_count_clause) auto
  show ?thesis
    unfolding parse_query_def
    apply (rule ends_expect [OF at p(1)])
    apply (rule ends_reads [OF select], assumption+)
    apply (rule ends_expect, assumption+)
    apply (rule ends_reads [OF from_name], assumption+)
    apply (rule ends_reads [OF w], assumption+, linarith)
    apply (rule ends_reads [OF g], assumption+, linarith)
    apply (rule ends_reads [OF hv], assumption+, linarith)
    apply (rule ends_reads [OF o], assumption+, linarith)
    apply (rule ends_reads [OF off], assumption+)
    apply (rule ends_reads [OF lim], assumption+)
    subgoal for s1 s2 s3 s4 s5 s6 s7 s8 s9 s10
      using bump_end [of s10] by (auto simp: eat_def expect_def)
    done
qed

text \<open>Every token that is printed is one the lexer gives back.\<close>

lemma tokens_separated: "list_all P s' \<Longrightarrow> list_all (list_all P) xs \<Longrightarrow> s' = [s] \<Longrightarrow> list_all P (separated xs s)"
  by (induction xs s rule: separated.induct) auto

lemma fixed_token_ok:
  "k \<notin> {T_Eof, T_Semi, T_Ident, T_Int, T_Str} \<Longrightarrow> token_ok (k, ascii (kw_name k))"
  using fixed_ok [of k] by simp

lemma name_token_ok: "name_ok l \<Longrightarrow> token_ok (T_Ident, l)"
  by (simp add: name_ok_def)

lemma number_token_ok: "token_ok (T_Int, decimal n)"
  by (simp add: decimal_digits)

lemma string_token_ok: "quotes_paired inner \<Longrightarrow> token_ok (T_Str, 39 # inner @ [39])"
  by simp

lemmas tokens_ok = fixed_token_ok name_token_ok number_token_ok string_token_ok

lemma value_tokens_ok: "value_ok e \<Longrightarrow> list_all token_ok (expr_tokens e)"
proof (induction e)
  case (E_Agg func dist arg)
  have "agg_kw func \<notin> {T_Eof, T_Semi, T_Ident, T_Int, T_Str}" by (cases func) (simp_all add: agg_kw_def)
  with E_Agg show ?case by (simp add: tokens_ok del: token_ok.simps)
next
  case (E_Binary op l r)
  have "bin_kw op \<notin> {T_Eof, T_Semi, T_Ident, T_Int, T_Str}" by (cases op) (simp_all add: bin_kw_def)
  with E_Binary show ?case by (simp add: tokens_ok del: token_ok.simps)
next
  case (E_Call name args)
  then have "list_all token_ok (separated (map expr_tokens args) (fixed T_Comma))"
    by (intro tokens_separated [OF _ _ refl]) (simp_all add: tokens_ok list_all_iff del: token_ok.simps)
  with E_Call(2) show ?case by (simp add: tokens_ok del: token_ok.simps)
qed (simp_all add: tokens_ok del: token_ok.simps)

lemma value_token: "value_ok e \<Longrightarrow> t \<in> set (expr_tokens e) \<Longrightarrow> token_ok t"
  using value_tokens_ok [of e] by (auto simp: list_all_iff)

lemma values_tokens_ok: "list_all value_ok es \<Longrightarrow> list_all token_ok (separated (map expr_tokens es) (fixed T_Comma))"
  by (intro tokens_separated [OF _ _ refl]) (auto simp: tokens_ok list_all_iff simp del: token_ok.simps intro: value_token)

lemma predicate_tokens_ok: "predicate_ok e \<Longrightarrow> list_all token_ok (expr_tokens e)"
proof (cases e)
  case (E_Compare op l r)
  have "cmp_kw op \<notin> {T_Eof, T_Semi, T_Ident, T_Int, T_Str}" by (cases op) (simp_all add: cmp_kw_def)
  then show "predicate_ok e \<Longrightarrow> ?thesis" using E_Compare by (simp add: value_tokens_ok tokens_ok del: token_ok.simps)
next
  case (E_In l vals neg)
  then show "predicate_ok e \<Longrightarrow> ?thesis"
    using values_tokens_ok [of vals] by (simp add: value_tokens_ok tokens_ok del: token_ok.simps)
qed (simp_all add: value_tokens_ok tokens_ok del: token_ok.simps)

lemma condition_ok_tokens: "condition_ok e \<Longrightarrow> list_all token_ok (expr_tokens e)"
proof (induction e rule: condition_ok.induct)
  case (1 l r)
  then show ?case by (simp add: predicate_tokens_ok tokens_ok del: token_ok.simps)
qed (simp_all only: condition_ok.simps predicate_tokens_ok)

lemma items_tokens_ok: "list_all item_ok items \<Longrightarrow> list_all token_ok (separated (map item_tokens items) (fixed T_Comma))"
  by (intro tokens_separated [OF _ _ refl])
    (auto simp: tokens_ok item_tokens_def item_ok_def list_all_iff split: option.splits simp del: token_ok.simps intro: value_token)

lemma orders_tokens_ok:
  "list_all (\<lambda>i. value_ok (oi_expr i)) items \<Longrightarrow> list_all token_ok (separated (map order_tokens items) (fixed T_Comma))"
  by (intro tokens_separated [OF _ _ refl])
    (auto simp: tokens_ok order_tokens_def list_all_iff simp del: token_ok.simps intro: value_token)

lemma query_tokens_ok: "query_ok q \<Longrightarrow> list_all token_ok (query_tokens q)"
  using items_tokens_ok [of "q_select q"] values_tokens_ok [of "q_group_by q"] orders_tokens_ok [of "q_order_by q"]
  by (auto simp: query_ok_def query_tokens_def condition_tokens_def by_tokens_def count_tokens_def tokens_ok
      condition_ok_tokens split: option.splits simp del: token_ok.simps)

lemma parse_print: "query_ok q \<Longrightarrow> parse_sql_v0 (print_query q) = retP q"
proof -
  assume ok: "query_ok q"
  let ?s = "print_query q"
  let ?p0 = "\<lparr> ps_text = ?s, ps_pos = 0, ps_cur = \<lparr> t_kind = T_Eof, t_start = 0, t_lex = [] \<rparr> \<rparr>"
  obtain p where p: "bump_token ?p0 = retP p" "at_tokens p (query_tokens q)"
    using text_at_tokens [OF query_tokens_ok [OF ok], of ?p0 "[]"] by (auto simp: print_query_def)
  then obtain t i where ti: "lex_next ?s 0 = Inr (t, i)" "p = \<lparr> ps_text = ?s, ps_pos = i, ps_cur = t \<rparr>"
    by (cases "lex_next ?s 0") (auto simp: bump_token_def)
  have "parser_ok p" using lex_next_ok [of 0 ?s] ti by (simp add: parser_ok_def)
  moreover have "4 * left_bytes p + 5 \<le> parse_fuel ?s" using ti(2) by (simp add: left_bytes_def parse_fuel_def)
  ultimately have "parse_query (parse_fuel ?s) p = retP q" using query_reads [OF ok _ p(2)] by simp
  then show ?thesis using ti by (simp add: parse_sql_v0_def parser_new_def)
qed

end
