(* ===== verification/Sql_Plan_Facts.thy ===== *)
theory Sql_Plan_Facts
  imports Sql_Plan Sql_Parser_Facts Chunk_Facts Filter_Prune
begin

text \<open>
  Facts about the application of SQL to a plan: dates are counted as days, the filters of a
  condition and the tokens that combine them, the outcomes of the call, and where the planner
  does not do what the query says.
\<close>

section \<open>Dates\<close>

definition leap :: "int \<Rightarrow> bool" where
  "leap y \<longleftrightarrow> 4 dvd y \<and> (\<not> 100 dvd y \<or> 400 dvd y)"

definition days_in_month :: "int \<Rightarrow> int \<Rightarrow> int" where
  "days_in_month y m = (if m = 2 then (if leap y then 29 else 28) else if m \<in> {4, 6, 9, 11} then 30 else 31)"

definition valid_date :: "int \<Rightarrow> int \<Rightarrow> int \<Rightarrow> bool" where
  "valid_date y m d \<longleftrightarrow> 1 \<le> m \<and> m \<le> 12 \<and> 1 \<le> d \<and> d \<le> days_in_month y m"

definition next_date :: "int \<Rightarrow> int \<Rightarrow> int \<Rightarrow> int \<times> int \<times> int" where
  "next_date y m d =
     (if d < days_in_month y m then (y, m, d + 1) else if m < 12 then (y, m + 1, 1) else (y + 1, 1, 1))"

lemma trunc_div_floor: "trunc_div (if 0 \<le> y then y else y - 399) 400 = y div 400"
proof (cases "0 \<le> y")
  case False
  have "399 - y = 400 * - (y div 400) + (399 - y mod 400)" by (simp add: algebra_simps)
  then have "(399 - y) div 400 = - (y div 400)"
    by (rule int_div_pos_eq) (use pos_mod_bound [of 400 y] in auto)
  with False show ?thesis by (simp add: trunc_div_def)
qed (simp add: trunc_div_def)

definition leap_days :: "int \<Rightarrow> int" where "leap_days y = y div 4 - y div 100 + y div 400"

lemma div_pred: "0 < k \<Longrightarrow> (y - 1) div k = y div k - (if k dvd y then 1 else 0 :: int)"
proof (cases "k dvd y")
  case True
  assume k: "0 < k"
  from True obtain c where y: "y = k * c" by blast
  have "y - 1 = k * (c - 1) + (k - 1)" by (simp add: y algebra_simps)
  then have "(y - 1) div k = c - 1" by (rule int_div_pos_eq) (use k in auto)
  with k True y show ?thesis by simp
next
  case False
  assume k: "0 < k"
  have "0 < y mod k" using False k by (simp add: dvd_eq_mod_eq_0 order.strict_iff_order pos_mod_sign)
  moreover have "y - 1 = k * (y div k) + (y mod k - 1)" by simp
  moreover have "y mod k < k" using k by simp
  ultimately have "(y - 1) div k = y div k"
    using int_div_pos_eq [of "y - 1" k "y div k" "y mod k - 1"] by linarith
  with False show ?thesis by simp
qed

lemma leap_days_step: "leap_days y = leap_days (y - 1) + (if leap y then 1 else 0)"
proof -
  have "4 dvd y" if "100 dvd y" using that dvd_trans [of 4 100 y] by simp
  moreover have "100 dvd y" if "400 dvd y" using that dvd_trans [of 100 400 y] by simp
  ultimately show ?thesis by (auto simp: leap_days_def leap_def div_pred)
qed

text \<open>The days before a month, counted from March.\<close>

definition month_days :: "int \<Rightarrow> int" where
  "month_days m = (153 * (m + (if 2 < m then - 3 else 9)) + 2) div 5"

lemma days_from_civil_eq:
  assumes "1 \<le> m"
  shows "days_from_civil year m d =
    (let y = (if m \<le> 2 then year - 1 else year) in 365 * y + leap_days y + month_days m + d - 719469)"
proof -
  have eq: "era * 146097 + (yoe * 365 + trunc_div yoe 4 - trunc_div yoe 100 + (doy + d - 1)) - 719468 =
      365 * y + leap_days y + doy + d - 719469" if "era = y div 400" "yoe = y - era * 400" for era yoe doy y :: int
  proof -
    have y: "y = yoe + 400 * era" and yoe: "0 \<le> yoe" "yoe < 400" using that by (simp_all add: minus_div_mult_eq_mod)
    have "y div 4 = yoe div 4 + 100 * era" "y div 100 = yoe div 100 + 4 * era"
      unfolding y using div_mult_self2 [of 4 yoe "100 * era"] div_mult_self2 [of 100 yoe "4 * era"] by simp_all
    with yoe y show ?thesis by (simp add: trunc_div_def leap_days_def that(1) [symmetric])
  qed
  have "0 \<le> 153 * (m + (if 2 < m then - 3 else 9)) + 2" using assms by simp
  then have "trunc_div (153 * (m + (if 2 < m then - 3 else 9)) + 2) 5 = month_days m"
    by (simp only: trunc_div_def month_days_def not_less [symmetric] if_False)
  then show ?thesis
    unfolding days_from_civil_def Let_def trunc_div_floor by (simp only: eq [OF refl refl])
qed

lemma month_days_next:
  assumes "1 \<le> m" "m < 12" "m \<noteq> 2" shows "month_days (m + 1) = month_days m + days_in_month y m"
proof -
  have "m \<in> {1, 3, 4, 5, 6, 7, 8, 9, 10, 11}" using assms by (simp only: insert_iff empty_iff) presburger
  then show ?thesis by (elim insertE) (simp_all add: month_days_def days_in_month_def)
qed

lemma days_next_date:
  assumes "valid_date y m d"
  shows "(case next_date y m d of (y', m', d') \<Rightarrow> days_from_civil y' m' d') = days_from_civil y m d + 1"
proof -
  have m: "1 \<le> m" "m \<le> 12" and d: "d \<le> days_in_month y m" using assms by (auto simp: valid_date_def)
  consider "d < days_in_month y m" | "d = days_in_month y m" "m = 2" | "d = days_in_month y m" "m = 12"
    | "d = days_in_month y m" "m < 12" "m \<noteq> 2"
    using m(2) d by linarith
  then show ?thesis
  proof cases
    case 2
    then show ?thesis
      by (simp add: next_date_def days_from_civil_eq Let_def days_in_month_def month_days_def leap_days_step [of y])
  next
    case 3
    then show ?thesis by (simp add: next_date_def days_from_civil_eq Let_def days_in_month_def month_days_def)
  next
    case 4
    with month_days_next [OF m(1) 4(2,3), of y] m(1) show ?thesis
      by (auto simp: next_date_def days_from_civil_eq Let_def)
  qed (use m in \<open>simp add: next_date_def days_from_civil_eq Let_def\<close>)
qed

section \<open>Dates as text\<close>

definition digit :: "nat \<Rightarrow> u8" where "digit n = of_nat (48 + n mod 10)"

definition date_text :: "nat \<Rightarrow> nat \<Rightarrow> nat \<Rightarrow> bytes" where
  "date_text y m d =
     [digit (y div 1000), digit (y div 100), digit (y div 10), digit y, 45, digit (m div 10), digit m, 45,
      digit (d div 10), digit d]"

lemma digit_ok: "is_digit (digit n)" "unat (digit n) = 48 + n mod 10"
  unfolding digit_def using digit_word [of "n mod 10"] by simp_all

lemma parse_int_digits:
  assumes "ds \<noteq> []" "list_all is_digit ds" "lo \<le> int (digits_value ds)" "int (digits_value ds) \<le> hi"
  shows "parse_int lo hi ds = Some (int (digits_value ds))"
proof -
  obtain c r where ds: "ds = c # r" using assms(1) by (cases ds) auto
  with assms(2) have "c \<noteq> 45 \<and> c \<noteq> 43" by (auto simp: is_digit_def word_le_nat_alt)
  with assms ds show ?thesis by (simp add: parse_int_def split_sign_def)
qed

lemma digits_pair: "n < 100 \<Longrightarrow> digits_value [digit (n div 10), digit n] = n"
  by (simp add: digits_value_def digit_ok)

lemma digits_year:
  assumes "n < 10000" shows "digits_value [digit (n div 1000), digit (n div 100), digit (n div 10), digit n] = n"
proof -
  have nest: "10 * (10 * (10 * z + b) + c) + d = v" if "v = 10 * x + d" "x = 10 * y + c" "y = 10 * z + b"
    for v x y z b c d :: nat using that by simp
  have split: "v = 10 * (v div 10) + v mod 10" for v :: nat by simp
  have "10 * (10 * (10 * (n div 1000) + n div 100 mod 10) + n div 10 mod 10) + n mod 10 = n"
    using nest [OF split split split, of n] by (simp only: div_mult2_eq [symmetric]) simp
  moreover have "n div 1000 mod 10 = n div 1000" using assms by simp
  ultimately show ?thesis by (simp add: digits_value_def digit_ok(2))
qed

lemma parse_date_text:
  assumes "y < 10000" "1 \<le> m" "m \<le> 12" "1 \<le> d" "d \<le> 31"
  shows "parse_ymd_days_since_epoch (date_text y m d) = Some (days_from_civil (int y) (int m) (int d))"
proof -
  let ?y = "[digit (y div 1000), digit (y div 100), digit (y div 10), digit y]"
  let ?m = "[digit (m div 10), digit m]" and ?d = "[digit (d div 10), digit d]"
  have v: "digits_value ?y = y" "digits_value ?m = m" "digits_value ?d = d"
    using digits_year digits_pair assms by auto
  have "parse_int (- (2 ^ 31)) (2 ^ 31 - 1) ?y = Some (int y)"
    using parse_int_digits [of ?y] v(1) assms(1) by (simp add: digit_ok)
  moreover have "parse_int 0 (2 ^ 32 - 1) ?m = Some (int m)" "parse_int 0 (2 ^ 32 - 1) ?d = Some (int d)"
    using parse_int_digits [of ?m 0] parse_int_digits [of ?d 0] v(2,3) assms by (simp_all add: digit_ok)
  ultimately show ?thesis using assms
    by (simp add: parse_ymd_days_since_epoch_def date_text_def slice_def)
qed

text \<open>The day of the month is only checked against 31: the end of February runs into March.\<close>

lemma february_31: "parse_ymd_days_since_epoch (date_text 2023 2 31) = parse_ymd_days_since_epoch (date_text 2023 3 3)"
proof -
  have "days_from_civil 2023 2 31 = days_from_civil 2023 3 3" by (simp add: days_from_civil_def trunc_div_def)
  then show ?thesis using parse_date_text [of 2023 2 31] parse_date_text [of 2023 3 3] by simp
qed

section \<open>The filters of a condition\<close>

lemma resolve_value_codes: "resolve_value v i rt = Inl c \<Longrightarrow> c = - 1"
  by (auto simp: resolve_value_def Let_def split: filter_value.splits option.splits if_splits)

lemma resolve_list_codes: "resolve_list vs i rt = Inl c \<Longrightarrow> c = - 1"
  by (induction vs arbitrary: c) (auto simp: bindS_def dest: resolve_value_codes split: sum.splits)

lemma convert_filter_codes: "convert_filter f rt = Inl c \<Longrightarrow> c \<in> {- 1, - 3, - 5}"
  by (cases f) (auto simp: bindS_def col_name_to_id_def Let_def
      dest: resolve_value_codes resolve_list_codes split: sum.splits option.splits if_splits)

lemma push_filters_done:
  assumes "push_filters rt fs p = (0, p')"
  shows "\<exists>fls. map (\<lambda>f. convert_filter f rt) fs = map Inr fls \<and> p' = p\<lparr> pl_filters := pl_filters p @ fls \<rparr>"
  using assms
proof (induction rt fs p rule: push_filters.induct)
  case (2 rt f fs p)
  then obtain fl where fl: "convert_filter f rt = Inr fl"
    using convert_filter_codes [of f rt] by (cases "convert_filter f rt") auto
  with 2 obtain fls where "map (\<lambda>f. convert_filter f rt) fs = map Inr fls" "p' = p\<lparr> pl_filters := (pl_filters p @ [fl]) @ fls \<rparr>"
    by (auto simp: append_assoc)
  with fl show ?case by (intro exI [of _ "fl # fls"]) simp
qed simp

text \<open>The tokens are those of a conjunction of all filters.\<close>

definition all_of :: "nat \<Rightarrow> cond" where
  "all_of n = foldl (\<lambda>c i. Conj c (Lit i)) (Lit 0) [1..<n]"

lemma all_of_Suc: "1 \<le> n \<Longrightarrow> all_of (Suc n) = Conj (all_of n) (Lit n)"
  by (simp add: all_of_def)

lemma all_of_ok: "1 \<le> n \<Longrightarrow> (holds P (all_of n) \<longleftrightarrow> (\<forall>i < n. P i)) \<and> lits (all_of n) = {..<n}"
proof (induction n rule: nat_induct_at_least)
  case base
  have "{..<1 :: nat} = {0}" by auto
  then show ?case by (simp add: all_of_def)
next
  case (Suc n)
  then show ?case by (auto simp only: all_of_Suc holds.simps lits.simps All_less_Suc lessThan_Suc)
qed

lemma and_tokens_all: "2 \<le> n \<Longrightarrow> and_tokens n = tokens_of (all_of n)"
proof (induction n rule: nat_induct_at_least)
  case base
  show ?case by (simp add: and_tokens_def all_of_def upt_rec numeral_2_eq_2)
next
  case (Suc n)
  then show ?case by (simp add: and_tokens_def all_of_Suc)
qed

definition where_state :: "plan \<Rightarrow> filter_spec list \<times> int list" where
  "where_state p = (pl_filters p, pl_combine p)"

lemma where_done:
  assumes "apply_where q rt p = (0, p')" "q_where q = Some pred" "where_state p = ([], [])"
  shows "\<exists>fls. map (\<lambda>f. convert_filter f rt) (collect_filters pred) = map Inr fls \<and>
    mset (pl_filters p') = mset (map (finalize_filter rt) fls) \<and>
    pl_combine p' = (if 1 < length fls then tokens_of (all_of (length fls)) else [])"
proof -
  obtain c p1 where p1: "push_filters rt (collect_filters pred) p = (c, p1)"
    by (cases "push_filters rt (collect_filters pred) p")
  with assms have c: "c = 0" "p' = finalize_plan_filters (order_filters rt p1) rt"
    by (auto simp: apply_where_def then_do_def split: if_splits)
  obtain fls where fls: "map (\<lambda>f. convert_filter f rt) (collect_filters pred) = map Inr fls" "p1 = p\<lparr> pl_filters := fls \<rparr>"
    using push_filters_done [OF p1 [unfolded c(1)]] assms(3) by (auto simp: where_state_def)
  have "pl_filters (order_filters rt p1) = (if 1 < length fls then sort_key (filter_rank (r_schema rt)) fls else fls)"
    "pl_combine (order_filters rt p1) = (if 1 < length fls then and_tokens (length fls) else [])"
    using fls(2) assms(3) by (simp_all add: order_filters_def where_state_def)
  then have "mset (pl_filters p') = mset (map (finalize_filter rt) fls)"
    "pl_combine p' = (if 1 < length fls then tokens_of (all_of (length fls)) else [])"
    using and_tokens_all [of "length fls"] by (simp_all add: c(2) finalize_plan_filters_def)
  with fls(1) show ?thesis by blast
qed

section \<open>The steps of the application\<close>

lemma push_aggregate_where [simp]:
  "pl_filters (push_aggregate c k off g p) = pl_filters p" "pl_combine (push_aggregate c k off g p) = pl_combine p"
  by (simp_all add: push_aggregate_def Let_def)

lemma select_step_where: "select_step rt g e st = (c, st') \<Longrightarrow> where_state (snd st') = where_state (snd st)"
  by (cases e; cases st) (auto simp: select_step_def select_aggregate_def select_column_def Let_def
      where_state_def split: option.splits if_splits)

lemma select_loop_where: "select_loop rt g items st = (c, st') \<Longrightarrow> where_state (snd st') = where_state (snd st)"
  by (induction rt g items st arbitrary: c st' rule: select_loop.induct)
    (auto dest: select_step_where split: prod.splits if_splits)

lemma select_step_codes: "select_step rt g e st = (c, st') \<Longrightarrow> c \<in> {0, ERR_UNSUPPORTED}"
  by (cases e; cases st) (auto simp: select_step_def select_aggregate_def Let_def split: option.splits if_splits)

lemma select_loop_codes: "select_loop rt g items st = (c, st') \<Longrightarrow> c \<in> {0, ERR_UNSUPPORTED}"
proof (induction rt g items st rule: select_loop.induct)
  case (2 rt g item items st)
  then show ?case by (cases "select_step rt g (si_expr item) st") (auto dest: select_step_codes split: if_splits)
qed simp

lemma apply_select_facts:
  assumes "apply_select q rt p = (c, p')"
  shows "where_state p' = where_state p" "c \<in> {0, ERR_UNSUPPORTED}"
proof -
  obtain c' ss p1 where l: "select_loop rt (pl_group_by p \<noteq> None) (q_select q)
      (\<lparr> ss_approx_col = None, ss_count_star = False, ss_other_agg = False \<rparr>, p) = (c', ss, p1)"
    by (metis prod_cases3)
  then show "where_state p' = where_state p"
    using assms select_loop_where [OF l] by (auto simp: apply_select_def where_state_def split: if_splits)
  show "c \<in> {0, ERR_UNSUPPORTED}"
    using assms l select_loop_codes [OF l] by (auto simp: apply_select_def split: if_splits)
qed

lemma apply_group_by_facts:
  "apply_group_by q rt p = (c, p') \<Longrightarrow> where_state p' = where_state p \<and> c \<in> {0, ERR_UNSUPPORTED}"
  by (auto simp: apply_group_by_def where_state_def split: option.splits list.splits)

lemma apply_order_by_where: "where_state (apply_order_by q rt p) = where_state p"
  by (simp add: apply_order_by_def where_state_def)

lemma histogram_where: "where_state (try_enable_group_dict_histogram d n p rt) = where_state p"
  by (auto simp: try_enable_group_dict_histogram_def enable_hist_sums_def where_state_def Let_def split: option.splits)

lemma apply_query_done:
  assumes "apply_query_to_plan d n q p rt = (0, p')"
  shows "\<exists>p1. apply_where q rt (apply_window q p) = (0, p1) \<and> where_state p' = where_state p1"
proof -
  obtain c p1 where w: "apply_where q rt (apply_window q p) = (c, p1)" by (cases "apply_where q rt (apply_window q p)")
  obtain c2 p2 where g: "apply_group_by q rt p1 = (c2, p2)" by (cases "apply_group_by q rt p1")
  obtain c3 p3 where s: "apply_select q rt (apply_order_by q rt p2) = (c3, p3)"
    by (cases "apply_select q rt (apply_order_by q rt p2)")
  have "c = 0 \<and> where_state p' = where_state p3"
    using assms w g s by (auto simp: apply_query_to_plan_def then_do_def ERR_UNSUPPORTED_def histogram_where split: if_splits)
  with w show ?thesis using apply_group_by_facts [OF g] apply_select_facts(1) [OF s] apply_order_by_where by metis
qed

lemma apply_query_codes: "fst (apply_query_to_plan d n q p rt) \<in> {0, - 1, - 3, - 5, ERR_UNSUPPORTED}"
proof -
  have push: "fst (push_filters rt fs p) \<in> {0, - 1, - 3, - 5}" for fs p
    by (induction rt fs p rule: push_filters.induct) (auto dest: convert_filter_codes split: sum.splits)
  have "fst (apply_where q rt p) \<in> {0, - 1, - 3, - 5}" for p
    using push [of "collect_filters (the (q_where q))" p]
    by (cases "q_where q"; cases "push_filters rt (collect_filters (the (q_where q))) p")
      (auto simp: apply_where_def then_do_def)
  moreover have "fst (apply_group_by q rt p) \<in> {0, ERR_UNSUPPORTED}" for p
    using apply_group_by_facts [of q rt p] by (cases "apply_group_by q rt p") auto
  moreover have "fst (apply_select q rt p) \<in> {0, ERR_UNSUPPORTED}" for p
    using apply_select_facts(2) [of q rt p] by (cases "apply_select q rt p") auto
  ultimately show ?thesis
    unfolding apply_query_to_plan_def then_do_def by (auto split: prod.split) (metis fst_conv insert_iff singletonD)+
qed

section \<open>Conditions of columns and literals\<close>

text \<open>A condition is a list of conjuncts; a comparison has its column on the left and a literal on the right.\<close>

fun conjuncts :: "expr \<Rightarrow> expr list" where
  "conjuncts (E_And l r) = conjuncts l @ conjuncts r"
| "conjuncts e = [e]"

fun conjunct_ok :: "expr \<Rightarrow> bool" where
  "conjunct_ok (E_Compare oper (E_Ident c) e) = (expr_to_value e \<noteq> None)"
| "conjunct_ok (E_In (E_Ident c) vs negated) = (vs \<noteq> [] \<and> list_all (\<lambda>v. expr_to_value v \<noteq> None) vs)"
| "conjunct_ok (E_Like (E_Ident c) (E_Str s) negated) = True"
| "conjunct_ok _ = False"

definition planned_as :: "runtime \<Rightarrow> expr \<Rightarrow> filter_spec \<Rightarrow> bool" where
  "planned_as rt e fl \<longleftrightarrow> (\<exists>f. collect_filters e = [f] \<and> convert_filter f rt = Inr fl)"

lemma conjuncts_not_Nil [simp]: "conjuncts e \<noteq> []"
  by (induction e rule: conjuncts.induct) simp_all

lemma collect_conjuncts: "collect_filters e = concat (map collect_filters (conjuncts e))"
  by (induction e rule: conjuncts.induct) simp_all

lemma conjunct_filter: "conjunct_ok e \<Longrightarrow> \<exists>f. collect_filters e = [f]"
proof (induction e rule: conjunct_ok.induct)
  case (2 c vs negated)
  then obtain v r where "vs = v # r" by (cases vs) auto
  with 2 have "List.map_filter expr_to_value vs \<noteq> []" by (auto simp: List.map_filter_simps)
  then show ?case by (simp add: Let_def)
qed (auto simp: or_else_def split: option.splits)

lemma conjuncts_planned:
  assumes "list_all conjunct_ok es" "map (\<lambda>f. convert_filter f rt) (concat (map collect_filters es)) = map Inr fls"
  shows "list_all2 (planned_as rt) es fls"
  using assms
proof (induction es arbitrary: fls)
  case (Cons e es)
  then obtain f where "collect_filters e = [f]" using conjunct_filter by force
  with Cons show ?case by (cases fls) (auto simp: planned_as_def)
qed simp

lemma planned_filters:
  assumes app: "apply_query_to_plan d n q p rt = (0, p')" and pred: "q_where q = Some pred"
    and ok: "list_all conjunct_ok (conjuncts pred)" and new: "pl_filters p = []" "pl_combine p = []"
  shows "\<exists>fls. list_all2 (planned_as rt) (conjuncts pred) fls \<and> 1 \<le> length fls \<and>
     mset (pl_filters p') = mset (map (finalize_filter rt) fls) \<and>
     pl_combine p' = (if 1 < length fls then tokens_of (all_of (length fls)) else [])"
proof -
  have "where_state (apply_window q p) = ([], [])"
    using new by (simp add: where_state_def apply_window_def Let_def split: option.split)
  then obtain p1 fls where same: "where_state p' = where_state p1"
    and fls: "map (\<lambda>f. convert_filter f rt) (collect_filters pred) = map Inr fls"
    "mset (pl_filters p1) = mset (map (finalize_filter rt) fls)"
    "pl_combine p1 = (if 1 < length fls then tokens_of (all_of (length fls)) else [])"
    using apply_query_done [OF app] where_done [OF _ pred] by metis
  have planned: "list_all2 (planned_as rt) (conjuncts pred) fls"
    using conjuncts_planned [OF ok] fls(1) collect_conjuncts [of pred] by simp
  then have "1 \<le> length fls" by (metis One_nat_def Suc_leI conjuncts_not_Nil length_greater_0_conv list_all2_lengthD)
  with planned same fls(2,3) show ?thesis by (intro exI [of _ fls]) (simp add: where_state_def)
qed

text \<open>The mask of a chunk under the plan, from the masks of its filters: with the filters as a
  multiset, since they are sorted, and the tokens of their conjunction.\<close>

lemma conjunction_mask:
  assumes ms: "mset (pl_filters p) = mset fls" "1 \<le> length fls"
    and comb: "pl_combine p = (if 1 < length fls then tokens_of (all_of (length fls)) else [])"
    and rows: "rows \<le> ROWS_PER_CHUNK"
    and masks: "list_all2 (\<lambda>fl m. is_mask m \<and> (\<forall>r < rows. mask_bit m r \<longleftrightarrow> sel fl r)) (pl_filters p) masks"
  shows "\<exists>m0 m. combine_chunk_masks p masks rows = Ok m0 \<and> clear_tail m0 rows = Ok m \<and>
     (\<forall>r. mask_bit m r \<longleftrightarrow> r < rows \<and> (\<forall>fl \<in> set fls. sel fl r))"
proof -
  have len: "length masks = length fls"
    using list_all2_lengthD [OF masks] mset_eq_length [OF ms(1)] by simp
  have cond: "plan_condition p (length masks) (all_of (length fls))"
    using all_of_ok [OF ms(2)] comb by (simp add: plan_condition_def len)
  have each: "(\<forall>i < length fls. mask_bit (masks ! i) r) \<longleftrightarrow> (\<forall>fl \<in> set (pl_filters p). sel fl r)" if "r < rows" for r
    using that masks len list_all2_lengthD [OF masks] by (auto simp: list_all2_conv_all_nth all_set_conv_all_nth)
  have "\<forall>m \<in> set masks. is_mask m" using masks by (auto simp: list_all2_conv_all_nth in_set_conv_nth)
  from combined_mask_ok [OF rows this cond] obtain m0 m where m: "combine_chunk_masks p masks rows = Ok m0"
    "clear_tail m0 rows = Ok m" "\<And>r. mask_bit m r \<longleftrightarrow> r < rows \<and> row_selected p masks (all_of (length fls)) r" by blast
  have "row_selected p masks (all_of (length fls)) r \<longleftrightarrow> (\<forall>fl \<in> set (pl_filters p). sel fl r)" if "r < rows" for r
    using each [OF that] all_of_ok [OF ms(2), of "\<lambda>i. mask_bit (masks ! i) r"]
    by (simp add: row_selected_def len [symmetric] all_set_conv_all_nth)
  moreover have "set (pl_filters p) = set fls" by (rule mset_eq_setD [OF ms(1)])
  ultimately show ?thesis using m by auto
qed

section \<open>Numeric conditions and their rows\<close>

text \<open>Conditions that compare columns with integers, and what they say of a row; a NULL and a NaN
  satisfy no comparison. A negative literal is parsed as a subtraction from 0.\<close>

fun int_literal :: "expr \<Rightarrow> int option" where
  "int_literal (E_Int i) = Some i"
| "int_literal (E_Binary Op_Sub (E_Int i) (E_Int k)) = (if i = 0 then Some (- k) else None)"
| "int_literal _ = None"

fun numeric_condition :: "expr \<Rightarrow> bool" where
  "numeric_condition (E_And l r) = (numeric_condition l \<and> numeric_condition r)"
| "numeric_condition (E_Compare oper (E_Ident c) e) = (int_literal e \<noteq> None)"
| "numeric_condition (E_In (E_Ident c) vs negated) = (\<not> negated \<and> vs \<noteq> [] \<and> list_all (\<lambda>e. int_literal e \<noteq> None) vs)"
| "numeric_condition _ = False"

fun compares :: "cmp_op \<Rightarrow> f64 \<Rightarrow> f64 \<Rightarrow> bool" where
  "compares Cmp_Eq x y = f_eq x y"
| "compares Cmp_Ne x y = (\<not> f_eq x y)"
| "compares Cmp_Lt x y = f_lt x y"
| "compares Cmp_Le x y = f_le x y"
| "compares Cmp_Gt x y = f_lt y x"
| "compares Cmp_Ge x y = f_le y x"

definition against :: "cmp_op \<Rightarrow> f64 option \<Rightarrow> expr \<Rightarrow> bool" where
  "against oper v e =
     (case (v, int_literal e) of (Some x, Some i) \<Rightarrow> \<not> is_nan x \<and> compares oper x (f_of_int i) | _ \<Rightarrow> False)"

fun satisfies :: "(bytes \<Rightarrow> f64 option) \<Rightarrow> expr \<Rightarrow> bool" where
  "satisfies row (E_And l r) = (satisfies row l \<and> satisfies row r)"
| "satisfies row (E_Compare oper (E_Ident c) e) = against oper (row c) e"
| "satisfies row (E_In (E_Ident c) vs negated) = (\<exists>e \<in> set vs. against Cmp_Eq (row c) e)"
| "satisfies row _ = False"

text \<open>The values of a row by the names of their columns.\<close>

definition row_values ::
  "runtime \<Rightarrow> (u32 \<Rightarrow> column_data) \<Rightarrow> (u32 \<Rightarrow> bytes option) \<Rightarrow> nat \<Rightarrow> bytes \<Rightarrow> f64 option" where
  "row_values rt data nulls r name =
     (case find_col name rt of
        None \<Rightarrow> None
      | Some i \<Rightarrow> if valid_row (nulls i) r then Some (column_f64 (data i) ! r) else None)"

lemma satisfies_conjuncts: "satisfies row e \<longleftrightarrow> (\<forall>c \<in> set (conjuncts e). satisfies row c)"
  by (induction e rule: conjuncts.induct) auto

lemma numeric_conjuncts: "numeric_condition e \<Longrightarrow> list_all numeric_condition (conjuncts e)"
  by (induction e rule: conjuncts.induct) simp_all

lemma conjuncts_flat: "e \<in> set (conjuncts pred) \<Longrightarrow> e \<noteq> E_And l r"
  by (induction pred rule: conjuncts.induct) auto

lemma int_literal_value: "int_literal e = Some i \<Longrightarrow> expr_to_value e = Some (FV_F64 (f_of_int i))"
  by (induction e rule: int_literal.induct) (auto split: if_splits)

lemma int_literals_values:
  assumes "list_all (\<lambda>e. int_literal e \<noteq> None) vs"
  shows "List.map_filter expr_to_value vs = map (\<lambda>e. FV_F64 (f_of_int (the (int_literal e)))) vs"
    and "list_all (\<lambda>e. expr_to_value e \<noteq> None) vs"
  using assms by (induction vs) (auto simp: List.map_filter_simps int_literal_value)

lemma resolve_numbers: "resolve_list (map FV_F64 xs) i rt = Inr (xs, [])"
  by (induction xs) (simp_all add: bindS_def resolve_value_def)

lemma numeric_conjunct_ok: "numeric_condition e \<Longrightarrow> (\<And>l r. e \<noteq> E_And l r) \<Longrightarrow> conjunct_ok e"
  by (cases e rule: numeric_condition.cases) (fastforce simp: list_all_iff dest: int_literal_value)+

lemma compares_code: "compares oper x y \<longleftrightarrow> cmp_scalar f_eq f_lt f_le x (cmp_op_to_u8 oper) y z"
  by (cases oper) (simp_all add: cmp_scalar_def op_defs)

text \<open>A conjunct becomes one filter, which holds of the rows that satisfy the conjunct.\<close>

lemma numeric_planned:
  assumes e: "numeric_condition e" "\<And>l r. e \<noteq> E_And l r" and fl: "planned_as rt e fl"
  shows "finalize_filter rt fl = fl" "fl_op fl \<noteq> OP_LIKE" "fl_op fl \<noteq> OP_NOT_LIKE"
    and "filter_holds (column_f64 (data (fl_col_id fl))) fl r \<and> valid_row (nulls (fl_col_id fl)) r \<longleftrightarrow>
      satisfies (row_values rt data nulls r) e"
proof -
  obtain f where f: "collect_filters e = [f]" "convert_filter f rt = Inr fl" using fl by (auto simp: planned_as_def)
  consider oper c v i where "e = E_Compare oper (E_Ident c) v" "int_literal v = Some i"
    | c vs where "e = E_In (E_Ident c) vs False" "list_all (\<lambda>e. int_literal e \<noteq> None) vs"
    using e by (cases e rule: numeric_condition.cases) auto
  then have "finalize_filter rt fl = fl \<and> fl_op fl \<noteq> OP_LIKE \<and> fl_op fl \<noteq> OP_NOT_LIKE \<and>
    (filter_holds (column_f64 (data (fl_col_id fl))) fl r \<and> valid_row (nulls (fl_col_id fl)) r \<longleftrightarrow>
      satisfies (row_values rt data nulls r) e)"
  proof cases
    case 1
    then obtain j where j: "find_col c rt = Some j" and fl': "fl = (plain_filter j (cmp_op_to_u8 oper))
        \<lparr> fl_value := f_of_int i, fl_value2 := f_of_int i, fl_value_str := None \<rparr>"
      using f int_literal_value [OF 1(2)]
      by (auto simp: or_else_def bindS_def col_name_to_id_def resolve_value_def Let_def split: option.splits)
    have "cmp_op_to_u8 oper \<noteq> OP_LIKE" "cmp_op_to_u8 oper \<noteq> OP_NOT_LIKE"
      by (cases oper; simp add: op_defs)+
    with 1 j show ?thesis
      by (auto simp: fl' plain_filter_def filter_holds_def cmp_f64_def against_def row_values_def
          finalize_filter_def resolve_deferred_filter_def resolve_like_ids_def
          compares_code [of oper _ _ "f_of_int i"] split: option.split)
  next
    case 2
    let ?xs = "map (\<lambda>e. f_of_int (the (int_literal e))) vs"
    have vals: "List.map_filter expr_to_value vs = map FV_F64 ?xs"
      using int_literals_values(1) [OF 2(2)] by simp
    have "vs \<noteq> []" using e 2 by simp
    then obtain j where j: "find_col c rt = Some j" and fl': "fl = (plain_filter j OP_EQ)\<lparr> fl_in_list := Some ?xs, fl_in_list_str := None \<rparr>"
      using f vals 2(1) resolve_numbers [of ?xs]
      by (auto simp: Let_def bindS_def col_name_to_id_def simp del: map_map split: option.splits)
    have "against Cmp_Eq (Some x) v \<longleftrightarrow> cmp_f64 x OP_EQ (f_of_int (the (int_literal v))) (f_of_int (the (int_literal v)))"
      if "v \<in> set vs" for x v
      using that 2(2) by (auto simp: against_def cmp_f64_def list_all_iff cmp_scalar_def split: option.split)
    with 2(1) j show ?thesis
      by (auto simp: fl' plain_filter_def filter_holds_def row_values_def against_def finalize_filter_def
          resolve_deferred_filter_def resolve_like_ids_def op_defs split: option.split)
  qed
  then show "finalize_filter rt fl = fl" "fl_op fl \<noteq> OP_LIKE" "fl_op fl \<noteq> OP_NOT_LIKE"
    "filter_holds (column_f64 (data (fl_col_id fl))) fl r \<and> valid_row (nulls (fl_col_id fl)) r \<longleftrightarrow>
      satisfies (row_values rt data nulls r) e" by blast+
qed

text \<open>The masks that the filters of a plan give on the columns of a chunk.\<close>

definition filter_mask ::
  "runtime \<Rightarrow> (u32 \<Rightarrow> column_data) \<Rightarrow> (u32 \<Rightarrow> bytes option) \<Rightarrow> nat \<Rightarrow> filter_spec \<Rightarrow> mask \<Rightarrow> bool" where
  "filter_mask rt data nulls rows fl m \<longleftrightarrow>
     (\<exists>col. get (r_schema rt) (unat (fl_col_id fl)) = Some col \<and>
        build_filter_mask_pipeline col (data (fl_col_id fl)) fl rows (Some rt) (nulls (fl_col_id fl)) = Ok m)"

text \<open>The columns are as for \<open>filter_mask_ok\<close>: there for all rows, unscaled, with literals that are
  values of their type.\<close>

definition filter_columns_ok ::
  "runtime \<Rightarrow> (u32 \<Rightarrow> column_data) \<Rightarrow> (u32 \<Rightarrow> bytes option) \<Rightarrow> nat \<Rightarrow> filter_spec \<Rightarrow> bool" where
  "filter_columns_ok rt data nulls rows fl \<longleftrightarrow>
     (\<forall>col. get (r_schema rt) (unat (fl_col_id fl)) = Some col \<longrightarrow>
        plain_column col (data (fl_col_id fl)) \<and> rows \<le> length (column_f64 (data (fl_col_id fl))) \<and>
        filter_literals_ok fl (data (fl_col_id fl)) \<and>
        (\<forall>bm. nulls (fl_col_id fl) = Some bm \<longrightarrow> rows \<le> 8 * length bm))"

lemma planned_rows:
  assumes app: "apply_query_to_plan d n q p rt = (0, p')" "q_where q = Some pred" "numeric_condition pred"
    and new: "pl_filters p = []" "pl_combine p = []" and rows: "rows \<le> ROWS_PER_CHUNK"
    and cols: "\<forall>fl \<in> set (pl_filters p'). filter_columns_ok rt data nulls rows fl"
    and masks: "list_all2 (filter_mask rt data nulls rows) (pl_filters p') masks"
  shows "\<exists>m0 m. combine_chunk_masks p' masks rows = Ok m0 \<and> clear_tail m0 rows = Ok m \<and>
    (\<forall>r. mask_bit m r \<longleftrightarrow> r < rows \<and> satisfies (row_values rt data nulls r) pred)"
proof -
  have conj: "numeric_condition e" "e \<noteq> E_And l r" if "e \<in> set (conjuncts pred)" for e l r
    using that numeric_conjuncts [OF app(3)] conjuncts_flat by (auto simp: list_all_iff)
  then have ok: "list_all conjunct_ok (conjuncts pred)" using numeric_conjunct_ok by (auto simp: list_all_iff)
  then obtain fls where fls: "list_all2 (planned_as rt) (conjuncts pred) fls" "1 \<le> length fls"
    and ms: "mset (pl_filters p') = mset (map (finalize_filter rt) fls)"
    and comb: "pl_combine p' = (if 1 < length fls then tokens_of (all_of (length fls)) else [])"
    using planned_filters [OF app(1,2) _ new] by blast
  let ?sel = "\<lambda>fl r. filter_holds (column_f64 (data (fl_col_id fl))) fl r \<and> valid_row (nulls (fl_col_id fl)) r"
  have num: "finalize_filter rt (fls ! i) = fls ! i \<and> fl_op (fls ! i) \<noteq> OP_LIKE \<and> fl_op (fls ! i) \<noteq> OP_NOT_LIKE \<and>
      (\<forall>r. ?sel (fls ! i) r \<longleftrightarrow> satisfies (row_values rt data nulls r) (conjuncts pred ! i))" if "i < length fls" for i
  proof -
    have e: "conjuncts pred ! i \<in> set (conjuncts pred)" "planned_as rt (conjuncts pred ! i) (fls ! i)"
      using fls(1) that by (auto simp: list_all2_conv_all_nth)
    show ?thesis using numeric_planned [OF conj(1) [OF e(1)] conj(2) [OF e(1)] e(2)] by blast
  qed
  then have same: "map (finalize_filter rt) fls = fls" by (intro nth_equalityI) simp_all
  have plain: "fl_op fl \<noteq> OP_LIKE \<and> fl_op fl \<noteq> OP_NOT_LIKE" if "fl \<in> set (pl_filters p')" for fl
    using that num mset_eq_setD [OF ms] unfolding same by (auto simp: in_set_conv_nth)
  have "is_mask m \<and> (\<forall>r < rows. mask_bit m r \<longleftrightarrow> ?sel fl r)"
    if fl: "fl \<in> set (pl_filters p')" and m: "filter_mask rt data nulls rows fl m" for fl m
  proof -
    obtain col where c: "get (r_schema rt) (unat (fl_col_id fl)) = Some col"
      "build_filter_mask_pipeline col (data (fl_col_id fl)) fl rows (Some rt) (nulls (fl_col_id fl)) = Ok m"
      using m by (auto simp: filter_mask_def)
    then have "plain_column col (data (fl_col_id fl))" "rows \<le> length (column_f64 (data (fl_col_id fl)))"
      "filter_literals_ok fl (data (fl_col_id fl))" "\<forall>bm. nulls (fl_col_id fl) = Some bm \<longrightarrow> rows \<le> 8 * length bm"
      using cols fl by (auto simp: filter_columns_ok_def)
    from filter_mask_ok [OF rows this(2,1,3) _ _ this(4), of "Some rt"] plain [OF fl] c(2) show ?thesis by auto
  qed
  then have "list_all2 (\<lambda>fl m. is_mask m \<and> (\<forall>r < rows. mask_bit m r \<longleftrightarrow> ?sel fl r)) (pl_filters p') masks"
    by (intro list.rel_mono_strong [OF masks]) blast
  from conjunction_mask [OF ms [unfolded same] fls(2) comb rows this]
  obtain m0 m where m: "combine_chunk_masks p' masks rows = Ok m0" "clear_tail m0 rows = Ok m"
    "\<forall>r. mask_bit m r \<longleftrightarrow> r < rows \<and> (\<forall>fl \<in> set fls. ?sel fl r)" by blast
  have "(\<forall>fl \<in> set fls. ?sel fl r) \<longleftrightarrow> satisfies (row_values rt data nulls r) pred" for r
    unfolding satisfies_conjuncts [of _ pred] using num list_all2_lengthD [OF fls(1)]
    by (simp add: all_set_conv_all_nth)
  with m show ?thesis by auto
qed

section \<open>What the call answers\<close>

lemma plan_apply_sql_answers:
  "case plan_apply_sql d n sql rts plans h of
     None \<Rightarrow> False
   | Some (Inl e) \<Rightarrow> e = Panic \<and> (\<exists>b \<in> set sql. 128 \<le> b)
   | Some (Inr (code, plans')) \<Rightarrow> code \<in> {0, - 1, - 2, - 3, - 5, ERR_UNSUPPORTED} \<and>
       (code = - 2 \<longleftrightarrow> \<not> utf8_valid sql) \<and> (plans' = plans \<or> (\<exists>p'. plans' = plans(h \<mapsto> p')))"
proof (cases "utf8_valid sql")
  case True
  then have sql: "from_utf8 sql = Some sql" by (simp add: from_utf8_def)
  note ends = parse_ends [of sql, unfolded ends_in_def]
  show ?thesis
  proof (cases "parse_sql_v0 sql")
    case None
    with ends show ?thesis by simp
  next
    case (Some r)
    show ?thesis
    proof (cases r)
      case (Inl e)
      with Some ends True sql show ?thesis by (cases e) (simp_all add: plan_apply_sql_def)
    next
      case (Inr q)
      show ?thesis
      proof (cases "plans h = None \<or> rts (pl_runtime (the (plans h))) = None")
        case True
        with Some Inr sql \<open>utf8_valid sql\<close> show ?thesis by (cases "plans h") (auto simp: plan_apply_sql_def)
      next
        case False
        then obtain p rt where p: "plans h = Some p" "rts (pl_runtime p) = Some rt" by auto
        obtain c p' where a: "apply_query_to_plan d n q p rt = (c, p')" by (cases "apply_query_to_plan d n q p rt")
        with apply_query_codes [of d n q p rt] have "c \<in> {0, - 1, - 3, - 5, ERR_UNSUPPORTED}" by simp
        with Some Inr sql p a True show ?thesis by (auto simp: plan_apply_sql_def ERR_UNSUPPORTED_def)
      qed
    qed
  qed
qed (simp add: plan_apply_sql_def from_utf8_def)

section \<open>Where the plan is not the query\<close>

text \<open>The operator is not turned around with its operands, a comparison of two columns is left out,
  DISTINCT and the direction of an order are not looked at.\<close>

lemma operands_swapped:
  "collect_filters (E_Compare oper (E_Int i) (E_Ident c)) = collect_filters (E_Compare oper (E_Ident c) (E_Int i))"
  by (simp add: or_else_def)

lemma two_columns_left_out: "collect_filters (E_Compare oper (E_Ident c) (E_Ident c')) = []"
  by (simp add: or_else_def)

lemma distinct_not_planned: "select_step rt g (E_Agg func True arg) = select_step rt g (E_Agg func False arg)"
  by (rule ext) (simp add: select_step_def)

lemma direction_not_planned:
  "apply_order_by (q\<lparr> q_order_by := map (oi_desc_update (\<lambda>_. True)) (q_order_by q) \<rparr>) rt p = apply_order_by q rt p"
proof -
  have same: "List.map_filter (\<lambda>item. expr_to_col_id (oi_expr item) rt) (map (oi_desc_update (\<lambda>_. True)) items) =
      List.map_filter (\<lambda>item. expr_to_col_id (oi_expr item) rt) items" for items :: "order_item list"
    by (induction items) (simp_all add: List.map_filter_simps split: option.split)
  show ?thesis by (simp add: apply_order_by_def take_map same)
qed

end
