(* ===== verification/Sql_Properties.thy ===== *)
theory Sql_Properties
  imports Sql_Roundtrip Sql_Plan_Facts Samples
begin

text \<open>
  What SQL comes to: the parser ends on every text and reads back what is printed, and the
  conditions of a query select the rows that satisfy them.
\<close>

text \<open>C13: On every text the parser ends, with a query that selects something, with an error at a
  position inside the text, or, only where the text has a byte that is not ASCII, with the panic
  of a string slice.\<close>

theorem parse_sql_returns:
  "case parse_sql_v0 s of
     None \<Rightarrow> False
   | Some (Inl (Parse_Error msg at)) \<Rightarrow> at \<le> length s
   | Some (Inl Slice_Panic) \<Rightarrow> \<exists>b \<in> set s. 128 \<le> b
   | Some (Inr q) \<Rightarrow> q_select q \<noteq> []"
  using parse_ends [of s] by (simp add: ends_in_def)

text \<open>C10: The parser gives a query back from its printed text, for every query of the documented grammar:
  nested arithmetic and calls, aggregates of expressions (DISTINCT only in COUNT, the star only in
  COUNT without DISTINCT), conjunctions of comparisons, LIKE with a string literal, IN, and all clauses.\<close>

theorem parse_printed_query: "query_ok q \<Longrightarrow> parse_sql_v0 (print_query q) = Some (Inr q)"
  by (rule parse_print)

definition sample_query :: query where
  "sample_query =
     \<lparr> q_select = [\<lparr> si_expr = E_Ident (ascii ''city''), si_alias = None \<rparr>,
         \<lparr> si_expr = E_Agg Fn_Count True (E_Binary Op_Add (E_Ident (ascii ''uid'')) (E_Int 7)), si_alias = Some (ascii ''n'') \<rparr>],
       q_from = ascii ''t'',
       q_where = Some (E_And (E_Compare Cmp_Ge (E_Ident (ascii ''age'')) (E_Int 18))
         (E_Like (E_Ident (ascii ''url'')) (E_Str (ascii ''%x%'')) True)),
       q_group_by = [E_Ident (ascii ''city'')], q_having = None,
       q_order_by = [\<lparr> oi_expr = E_Ident (ascii ''n''), oi_desc = True \<rparr>], q_offset = None, q_limit = Some 10 \<rparr>"

lemma parse_printed_query_witness: "parse_sql_v0 (print_query sample_query) = Some (Inr sample_query)"
proof -
  have "query_ok sample_query"
    by (simp add: query_ok_def sample_query_def item_ok_def name_ok_def ident_shape_def is_ident_start_def
        is_ident_continue_def keyword_kind_def keyword_table_def eq_kw_def ascii_def lower_byte_def)
  then show ?thesis by (rule parse_printed_query)
qed

text \<open>C21: From the text of a query to rows: when a query whose condition is a conjunction of comparisons
  of columns with integers and of IN lists of integers (column on the left) has been applied to a
  new plan, the masks of the plan's filters, combined and cut off at the rows of the chunk, select
  exactly the rows whose values satisfy the condition; NULL and NaN satisfy nothing. The columns are
  numeric and unscaled without booleans, 64-bit integers below 2^53, and the literals exactly values
  of the column's type.\<close>

theorem where_rows:
  assumes "plan_apply_sql hist_disabled hist_max sql rts plans h = Some (Ok (0, plans'))"
    and "parse_sql_v0 sql = Some (Inr q)" "q_where q = Some pred" "numeric_condition pred"
    and "plans h = Some p" "rts (pl_runtime p) = Some rt" "plans' h = Some p'"
    and "pl_filters p = []" "pl_combine p = []" "rows \<le> ROWS_PER_CHUNK"
    and "\<forall>fl \<in> set (pl_filters p'). filter_columns_ok rt data nulls rows fl"
    and "list_all2 (filter_mask rt data nulls rows) (pl_filters p') masks"
  shows "\<exists>m0 m. combine_chunk_masks p' masks rows = Ok m0 \<and> clear_tail m0 rows = Ok m \<and>
    (\<forall>r. mask_bit m r \<longleftrightarrow> r < rows \<and> satisfies (row_values rt data nulls r) pred)"
proof -
  have "apply_query_to_plan hist_disabled hist_max q p rt = (0, p')"
    using assms(1,2,5-7) by (auto simp: plan_apply_sql_def from_utf8_def split: if_splits prod.splits)
  from planned_rows [OF this assms(3,4,8-12)] show ?thesis .
qed

definition where_query :: query where
  "where_query =
     \<lparr> q_select = [\<lparr> si_expr = E_Ident [97], si_alias = None \<rparr>], q_from = ascii ''t'',
       q_where = Some (E_And (E_Compare Cmp_Lt (E_Ident [97]) (E_Int 3)) (E_In (E_Ident [97]) [E_Int 7, E_Int 1] False)),
       q_group_by = [], q_having = None, q_order_by = [], q_offset = None, q_limit = None \<rparr>"

abbreviation where_filters :: "filter_spec list" where
  "where_filters \<equiv> [sample_filter OP_LT (f_of_int 3),
     (sample_filter OP_EQ f_zero)\<lparr> fl_in_list := Some [f_of_int 7, f_of_int 1] \<rparr>]"

lemma where_query_text:
  "parse_sql_v0 (print_query where_query) = Some (Inr where_query)" "from_utf8 (print_query where_query) = Some (print_query where_query)"
proof -
  have "query_ok where_query"
    by (simp add: query_ok_def where_query_def item_ok_def name_ok_def ident_shape_def is_ident_start_def
        is_ident_continue_def keyword_kind_def keyword_table_def eq_kw_def ascii_def lower_byte_def)
  then show "parse_sql_v0 (print_query where_query) = Some (Inr where_query)" by (rule parse_print)
  have "utf8_valid (print_query where_query)"
    by (rule utf8_valid_ascii) (auto simp: print_query_def where_query_def query_tokens_def item_tokens_def condition_tokens_def
        by_tokens_def count_tokens_def fixed_def kw_name_def decimal.simps ascii_def symbol_table_def keyword_table_def cmp_kw_def)
  then show "from_utf8 (print_query where_query) = Some (print_query where_query)" by (simp add: from_utf8_def)
qed

lemma where_query_plan:
  "\<exists>p'. plan_apply_sql True 0 (print_query where_query) [1 \<mapsto> sample_runtime] [1 \<mapsto> plan_new 1] 1 =
     Some (Ok (0, [1 \<mapsto> p'])) \<and> pl_filters p' = where_filters"
proof -
  let ?p = "apply_window where_query (plan_new 1)"
  have col: "find_col [97] sample_runtime = Some 0" "r_schema sample_runtime = [sample_col TYPE_F64]"
    "c_flags (sample_col TYPE_F64) = 0"
    by (simp_all add: find_col_def sample_runtime_def sample_col_def)
  have new: "pl_filters ?p = []" "pl_combine ?p = []" "pl_group_by ?p = None"
    by (simp_all add: apply_window_def where_query_def plan_new_def cut_u32_def)
  have "push_filters sample_runtime (collect_filters (the (q_where where_query))) p =
      (0, p\<lparr> pl_filters := where_filters \<rparr>)" if "pl_filters p = []" for p
    using that by (simp add: where_query_def or_else_def List.map_filter_simps bindS_def col_name_to_id_def col
        resolve_value_def plain_filter_def sample_filter_def Let_def)
  note push = this [OF new(1)]
  obtain pred where pred: "q_where where_query = Some pred" by (simp add: where_query_def)
  have w: "apply_where where_query sample_runtime ?p =
      (0, ?p\<lparr> pl_filters := where_filters, pl_combine := [0, 1, COMB_AND] \<rparr>)"
    using push unfolding pred
    by (simp add: apply_where_def pred then_do_def order_filters_def finalize_plan_filters_def finalize_filter_def
        new and_tokens_def filter_rank_def sample_filter_def get_def col)
  have later: "\<exists>p'. then_do (apply_group_by where_query sample_runtime p) (\<lambda>p.
      then_do (apply_select where_query sample_runtime (apply_order_by where_query sample_runtime p)) (\<lambda>p.
        (0, try_enable_group_dict_histogram True 0 p sample_runtime))) = (0, p') \<and> pl_filters p' = pl_filters p"
    if "pl_group_by p = None" for p
    using that by (simp add: then_do_def where_query_def apply_group_by_def apply_order_by_def apply_select_def
        select_step_def select_column_def try_enable_group_dict_histogram_def Let_def split: option.split)
  have "\<exists>p'. apply_query_to_plan True 0 where_query (plan_new 1) sample_runtime = (0, p') \<and> pl_filters p' = where_filters"
    using later [of "?p\<lparr> pl_filters := where_filters, pl_combine := [0, 1, COMB_AND] \<rparr>"] new
    by (simp add: apply_query_to_plan_def w then_do_def [of "(0, _)"]) (simp add: where_query_def)
  then show ?thesis using where_query_text by (auto simp: plan_apply_sql_def) (simp add: plan_new_def)
qed

theorem where_rows_witness:
  "\<exists>p' masks m0 m. plan_apply_sql True 0 (print_query where_query) [1 \<mapsto> sample_runtime] [1 \<mapsto> plan_new 1] 1 =
       Some (Ok (0, [1 \<mapsto> p'])) \<and>
     combine_chunk_masks p' masks 2 = Ok m0 \<and> clear_tail m0 2 = Ok m \<and> \<not> mask_bit m 0 \<and> mask_bit m 1"
proof -
  let ?data = "\<lambda>_ :: u32. CD_F64 [f_of_int 7, f_of_int 1]" and ?nulls = "\<lambda>_ :: u32. None :: bytes option"
  obtain p' where p': "plan_apply_sql True 0 (print_query where_query) [1 \<mapsto> sample_runtime] [1 \<mapsto> plan_new 1] 1 =
      Some (Ok (0, [1 \<mapsto> p']))" "pl_filters p' = where_filters"
    using where_query_plan by blast
  have col: "get (r_schema sample_runtime) 0 = Some (sample_col TYPE_F64)"
    by (simp add: sample_runtime_def get_def)
  have fls: "filter_literals_ok fl (CD_F64 vs) \<and> fl_col_id fl = 0 \<and> fl_op fl \<noteq> OP_LIKE \<and> fl_op fl \<noteq> OP_NOT_LIKE"
    if "fl \<in> set where_filters" for fl vs
    using that by (auto simp: filter_literals_ok_def sample_filter_def literal_ok_def literal_range_def op_defs)
  have each: "\<exists>m. filter_mask sample_runtime ?data ?nulls 2 fl m" if "fl \<in> set where_filters" for fl
  proof -
    note f = fls [OF that, of "[f_of_int 7, f_of_int 1]"]
    have rows: "2 \<le> ROWS_PER_CHUNK" "2 \<le> length (column_f64 (?data 0))" "\<forall>bm. None = Some bm \<longrightarrow> 2 \<le> 8 * length (bm :: bytes)"
      by (simp_all add: ROWS_PER_CHUNK_def sample_plain)
    obtain m where "build_filter_mask_pipeline (sample_col TYPE_F64) (?data 0) fl 2 (Some sample_runtime) None = Ok m"
      using filter_mask_ok [OF rows(1,2) sample_plain(2) _ _ _ rows(3)] f by blast
    with f col show ?thesis by (intro exI [of _ m]) (simp add: filter_mask_def)
  qed
  obtain m1 m2 where masks: "list_all2 (filter_mask sample_runtime ?data ?nulls 2) where_filters [m1, m2]"
    using each [of "where_filters ! 0"] each [of "where_filters ! 1"] by auto
  have pred: "q_where where_query =
      Some (E_And (E_Compare Cmp_Lt (E_Ident [97]) (E_Int 3)) (E_In (E_Ident [97]) [E_Int 7, E_Int 1] False))"
    by (simp add: where_query_def)
  have cols: "\<forall>fl \<in> set (pl_filters p'). filter_columns_ok sample_runtime ?data ?nulls 2 fl"
  proof
    fix fl assume "fl \<in> set (pl_filters p')"
    then have "fl \<in> set where_filters" unfolding p'(2) .
    from fls [OF this, of "[f_of_int 7, f_of_int 1]"] show "filter_columns_ok sample_runtime ?data ?nulls 2 fl"
      unfolding filter_columns_ok_def by (simp add: sample_plain get_def sample_runtime_def)
  qed
  obtain m0 m where m: "combine_chunk_masks p' [m1, m2] 2 = Ok m0" "clear_tail m0 2 = Ok m"
    "\<And>r. mask_bit m r \<longleftrightarrow> r < 2 \<and> satisfies (row_values sample_runtime ?data ?nulls r) (the (q_where where_query))"
    using where_rows [OF p'(1) where_query_text(1) pred _ _ _ _ _ _ _ cols masks [folded p'(2)], of "plan_new 1"]
    by (auto simp: pred plan_new_def ROWS_PER_CHUNK_def)
  have "row_values sample_runtime ?data ?nulls r [97] = Some ([f_of_int 7, f_of_int 1] ! r)" for r
    by (simp add: row_values_def find_col_def sample_runtime_def sample_col_def valid_row_def sample_plain)
  then have "\<not> mask_bit m 0" "mask_bit m 1"
    using m(3) [of 0] m(3) [of 1] by (simp_all add: where_query_def against_def f_of_int_cmp f_of_int_props)
  with p'(1) m(1,2) show ?thesis by blast
qed

end
