(* ===== verification/Worker_Pool.thy ===== *)
theory Worker_Pool
  imports Page_Requests Plan_Table Mem_Budget Group_Merge
begin

text \<open>
  The work of a native worker on a chunk (\<^verbatim>\<open>execute_chunk\<close> and the \<^verbatim>\<open>copy_..._bytes\<close> helpers of
  \<^verbatim>\<open>wcol-decoder/src/native/exec.rs\<close>) and the loop of a worker over the chunks it is given
  (\<^verbatim>\<open>execute_chunks\<close> of \<^verbatim>\<open>native/pool.rs\<close>). The tables of runtimes and plans and the read cache are
  one state; of a call that fails, the state is not described further. \<open>None\<close> is a loop that does
  not end. Counters of the processor, timings and trimming of the allocator are left out.
\<close>

section \<open>State\<close>

text \<open>What the code calls outside: LZ4, the hashes, the decoder of ids, the functions on doubles; and
  the environment's switches of the histograms of groups.\<close>

record natives =
  nv_decompress :: "bytes \<Rightarrow> nat \<Rightarrow> bytes option"
  nv_xxh :: "bytes \<Rightarrow> u64"
  nv_seeded :: "bytes \<Rightarrow> u64 \<Rightarrow> u64"
  nv_decode_ids :: id_decoder
  nv_ln :: "f64 \<Rightarrow> f64"
  nv_sqrt :: "f64 \<Rightarrow> f64"
  nv_hist_disabled :: bool
  nv_hist_max_dict :: nat

record tables =
  tb_rts :: runtimes
  tb_plans :: plans
  tb_cache :: read_cache

record worker_context =
  wc_runtime :: u32
  wc_plan :: u32
  wc_header :: header_info

definition checked_count :: "int \<Rightarrow> nat result" where
  "checked_count n = (if n < 0 then Err (Code n) else Ok (nat n))"

text \<open>A call on the plans whose status must not be negative.\<close>

definition plan_call :: "(plans \<Rightarrow> int \<times> plans) \<Rightarrow> tables \<Rightarrow> tables result" where
  "plan_call f tb =
     (let (code, plans) = f (tb_plans tb)
      in bindR (call_status code) (\<lambda>_. Ok (tb\<lparr> tb_plans := plans \<rparr>)))"

text \<open>\<^verbatim>\<open>read_out_bytes\<close> of a call that may panic.\<close>

partial_function (option) read_out_panics :: "(nat \<Rightarrow> (int \<times> bytes) result) \<Rightarrow> nat \<Rightarrow> bytes result option" where
  "read_out_panics func out_len =
     (case func out_len of
        Inl e \<Rightarrow> Some (Inl e)
      | Inr (written, out) \<Rightarrow>
          if written < 0 then
            (if nat (- written) \<le> out_len then Some (Err (Code written))
             else read_out_panics func (nat (- written)))
          else Some (Ok (take (nat written) out)))"

section \<open>Copies of the results\<close>

definition GROUP_AGG_RECORD_SIZE :: nat where "GROUP_AGG_RECORD_SIZE = 32"
definition AGG_RECORD_SIZE :: nat where "AGG_RECORD_SIZE = 36"

definition copy_rows_bytes :: "plans \<Rightarrow> u32 \<Rightarrow> bytes result option" where
  "copy_rows_bytes plans plan =
     bindT (Some (checked_count (plan_rows_len plans plan))) (\<lambda>count.
       if count = 0 then Some (Ok [])
       else read_out_bytes (count * 8) (plan_copy_rows plans plan))"

definition copy_row_candidates_bytes :: "plans \<Rightarrow> u32 \<Rightarrow> bytes result option" where
  "copy_row_candidates_bytes plans plan = read_out_bytes 256 (plan_copy_row_candidates plans plan)"

definition copy_aggs_bytes :: "natives \<Rightarrow> plans \<Rightarrow> u32 \<Rightarrow> bytes result option" where
  "copy_aggs_bytes nv plans plan =
     bindT (Some (checked_count (plan_agg_count plans plan))) (\<lambda>count.
       if count = 0 then Some (Ok [])
       else read_out_panics (plan_copy_aggs (nv_ln nv) (nv_sqrt nv) plans plan)
              (max (count * AGG_RECORD_SIZE) 64))"

definition copy_group_hist_partial_bytes :: "plans \<Rightarrow> u32 \<Rightarrow> bytes result option" where
  "copy_group_hist_partial_bytes plans plan =
     bindT (Some (checked_count (plan_group_dict_hist_dict_len plans plan))) (\<lambda>dict_len.
       if dict_len = 0 then Some (Ok [])
       else read_out_panics (plan_copy_group_hist_partial plans plan) (max (12 + dict_len * 4) 64))"

definition copy_groups_bytes :: "plans \<Rightarrow> u32 \<Rightarrow> bytes result option" where
  "copy_groups_bytes plans plan =
     bindT (Some (checked_count (plan_group_count plans plan))) (\<lambda>count.
       if count = 0 then Some (Ok [])
       else bindT (Some (checked_count (plan_group_agg_count plans plan))) (\<lambda>agg_count.
         read_out_bytes (count * (16 + agg_count * GROUP_AGG_RECORD_SIZE)) (plan_copy_groups plans plan)))"

definition copy_groups_bytes_with_keys :: "plans \<Rightarrow> u32 \<Rightarrow> bytes result option" where
  "copy_groups_bytes_with_keys plans plan =
     bindT (Some (checked_count (plan_group_count plans plan))) (\<lambda>count.
       if count = 0 then Some (Ok [])
       else bindT (Some (checked_count (plan_group_agg_count plans plan))) (\<lambda>agg_count.
         read_out_bytes (count * max (24 + agg_count * GROUP_AGG_RECORD_SIZE) 64)
           (plan_copy_groups_with_keys plans plan)))"

section \<open>A chunk\<close>

text \<open>Where the index block of a chunk is; spans of eight bytes are of an older layout.\<close>

definition index_span :: "runtimes \<Rightarrow> u32 \<Rightarrow> u32 \<Rightarrow> (u64 \<times> u32) result option" where
  "index_span rts runtime chunk_id =
     bindT (read_out_bytes 12 (runtime_chunk_index_span rts runtime chunk_id)) (\<lambda>span. Some (
       if length span \<noteq> 8 \<and> length span \<noteq> 12 then
         Err (Bail ''runtime_chunk_index_span returned invalid size'')
       else if length span = 12 then
         bindR (read_u64 span 0) (\<lambda>off. bindR (read_u32 span 8) (\<lambda>len. Ok (off, len)))
       else bindR (read_u32 span 0) (\<lambda>off. bindR (read_u32 span 4) (\<lambda>len. Ok (ucast off, len)))))"

definition read_index_block ::
  "bytes \<Rightarrow> u32 \<Rightarrow> u32 \<Rightarrow> tables \<Rightarrow> (bytes \<times> tables) result option" where
  "read_index_block content runtime chunk_id tb =
     bindT (index_span (tb_rts tb) runtime chunk_id) (\<lambda>(off, len).
       let (r, cache) = read_cached content (tb_cache tb) off (unat len)
       in bindT (Some r) (\<lambda>bs. Some (Ok (bs, tb\<lparr> tb_cache := cache \<rparr>))))"

text \<open>Requests and execution; \<open>None\<close> inside is a chunk that is skipped.\<close>

definition run_requests ::
  "natives \<Rightarrow> bytes \<Rightarrow> worker_context \<Rightarrow> u32 \<Rightarrow> bytes \<Rightarrow> bool \<Rightarrow> tables
     \<Rightarrow> (page_desc list option \<times> tables) result option" where
  "run_requests nv content wc chunk_id index_bytes has_filters tb =
     (case required_pages (nv_decompress nv) (tb_plans tb) (wc_runtime wc) (wc_plan wc) (wc_header wc)
             chunk_id index_bytes has_filters (tb_rts tb) of
        None \<Rightarrow> None
      | Some (r, rts) \<Rightarrow>
          bindT (Some r) (\<lambda>req. case req of
            Skip \<Rightarrow> Some (Ok (None, tb\<lparr> tb_rts := rts \<rparr>))
          | Requests reqs \<Rightarrow>
              let (res, cache) = exec_chunk_payload (plan_exec_chunk (nv_decompress nv) (nv_xxh nv)
                    (nv_seeded nv) (nv_decode_ids nv) rts (tb_plans tb) (wc_runtime wc) (wc_plan wc) chunk_id)
                    content (tb_cache tb) reqs
              in bindT (Some res) (\<lambda>(rts, plans).
                   Some (Ok (Some reqs, \<lparr> tb_rts = rts, tb_plans = plans, tb_cache = cache \<rparr>)))))"

definition partial_empty :: "u32 \<Rightarrow> chunk_partial" where
  "partial_empty chunk_id =
     \<lparr> cp_chunk_id = chunk_id, cp_rows = [], cp_row_candidates = [], cp_aggs = [], cp_groups = [],
       cp_partitioned_groups = [], cp_work_bytes_est = 0 \<rparr>"

definition gather_partial ::
  "natives \<Rightarrow> worker_context \<Rightarrow> u32 \<Rightarrow> merge_keys_mode \<Rightarrow> nat \<Rightarrow> page_desc list \<Rightarrow> plans
     \<Rightarrow> chunk_partial result option" where
  "gather_partial nv wc chunk_id merge_keys_mode row_order_by_len reqs plans =
     (let plan = wc_plan wc in
      bindT (if row_order_by_len = 0 then copy_rows_bytes plans plan else Some (Ok [])) (\<lambda>rows.
      bindT (if 0 < row_order_by_len then copy_row_candidates_bytes plans plan else Some (Ok []))
        (\<lambda>candidates.
      bindT (copy_aggs_bytes nv plans plan) (\<lambda>aggs.
      bindT (Some (checked_count (plan_group_dict_hist_active plans plan))) (\<lambda>hist_active.
      bindT (if 0 < hist_active then copy_group_hist_partial_bytes plans plan
             else case merge_keys_mode of
                 Hash \<Rightarrow> copy_groups_bytes plans plan
               | Bytes \<Rightarrow> copy_groups_bytes_with_keys plans plan) (\<lambda>groups.
        Some (Ok \<lparr> cp_chunk_id = chunk_id, cp_rows = rows, cp_row_candidates = candidates, cp_aggs = aggs,
          cp_groups = groups, cp_partitioned_groups = [],
          cp_work_bytes_est = sat_add64 (of_nat (sum_list (map (\<lambda>req. unat (pd_raw_len req)) reqs)))
            (of_nat (length rows + length candidates + length aggs + length groups)) \<rparr>)))))))"

definition execute_chunk ::
  "natives \<Rightarrow> bytes \<Rightarrow> worker_context \<Rightarrow> u32 \<Rightarrow> bool \<Rightarrow> merge_keys_mode \<Rightarrow> bool \<Rightarrow> tables
     \<Rightarrow> (chunk_partial \<times> tables) result option" where
  "execute_chunk nv content wc chunk_id has_filters merge_keys_mode emit_raw tb =
     (let plan = wc_plan wc in
      bindT (Some (plan_call (\<lambda>ps. plan_reset_results ps plan) tb)) (\<lambda>tb.
      bindT (Some (plan_call (\<lambda>ps. plan_set_group_emit_raw ps plan (if emit_raw then 1 else 0)) tb)) (\<lambda>tb.
      bindT (Some (checked_count (plan_row_order_by_len (tb_plans tb) plan))) (\<lambda>row_order_by_len.
      bindT (Some (checked_count (plan_group_key_count (tb_plans tb) plan))) (\<lambda>group_key_count.
      bindT (Some (checked_count (plan_limit (tb_plans tb) plan))) (\<lambda>limit.
      bindT (Some (checked_count (plan_offset (tb_plans tb) plan))) (\<lambda>offset.
      let disable_group_window = (0 < group_key_count \<and> row_order_by_len = 0 \<and> (0 < limit \<or> 0 < offset));
          set_window = (\<lambda>l s tb. if disable_group_window
            then bindR (plan_call (\<lambda>ps. plan_set_limit ps plan l) tb) (plan_call (\<lambda>ps. plan_set_offset ps plan s))
            else Ok tb)
      in bindT (Some (set_window 0 0 tb)) (\<lambda>tb.
      bindT (read_index_block content (wc_runtime wc) chunk_id tb) (\<lambda>(index_bytes, tb).
      bindT (run_requests nv content wc chunk_id index_bytes has_filters tb) (\<lambda>(ran, tb).
      case ran of
        None \<Rightarrow> Some (Ok (partial_empty chunk_id, tb))
      | Some reqs \<Rightarrow>
          bindT (Some (if row_order_by_len = 0 then plan_call (\<lambda>ps. plan_finalize_rows ps plan) tb else Ok tb))
            (\<lambda>tb.
          bindT (gather_partial nv wc chunk_id merge_keys_mode row_order_by_len reqs (tb_plans tb)) (\<lambda>partial.
          bindT (Some (set_window (of_nat limit) (of_nat offset) tb)) (\<lambda>tb.
            Some (Ok (partial, tb)))))))))))))))"

section \<open>The pool of workers\<close>

text \<open>
  The workers of the native runtime (\<^verbatim>\<open>wcol-decoder/src/native/pool.rs\<close>): how they fetch chunks
  from a shared counter, as interleaved steps, and what a worker does with the chunks it got.
  Channels and threads are left out; a worker's chunks are an argument. The errors of several
  workers are reported in the order of the workers.
\<close>

section \<open>Fetching chunks\<close>

text \<open>A worker adds the batch size to the counter and takes the chunks from the old value on, if there
  are any; a counter at or past the number of chunks stops it.\<close>

record scanner =
  sc_taken :: "u32 list"
  sc_stopped :: bool

definition batch_chunks :: "u32 \<Rightarrow> u32 \<Rightarrow> u32 \<Rightarrow> u32 list" where
  "batch_chunks batch nchunks start =
     map of_nat [unat start ..< min (min (unat start + unat batch) (2 ^ 32 - 1)) (unat nchunks)]"

inductive fetch_step ::
  "u32 \<Rightarrow> u32 \<Rightarrow> u32 \<times> scanner list \<Rightarrow> u32 \<times> scanner list \<Rightarrow> bool" for batch nchunks where
  takes: "i < length ws \<Longrightarrow> \<not> sc_stopped (ws ! i) \<Longrightarrow> next_chunk < nchunks \<Longrightarrow>
     fetch_step batch nchunks (next_chunk, ws)
       (next_chunk + batch, ws[i := (ws ! i)\<lparr> sc_taken := sc_taken (ws ! i) @ batch_chunks batch nchunks next_chunk \<rparr>])"
| stops: "i < length ws \<Longrightarrow> \<not> sc_stopped (ws ! i) \<Longrightarrow> nchunks \<le> next_chunk \<Longrightarrow>
     fetch_step batch nchunks (next_chunk, ws) (next_chunk + batch, ws[i := (ws ! i)\<lparr> sc_stopped := True \<rparr>])"

section \<open>Scanning\<close>

record execute_request =
  er_has_filters :: bool
  er_emit_raw :: bool
  er_heavy_string :: bool
  er_flush_window_bytes :: u64
  er_merge_keys_mode :: merge_keys_mode
  er_group_agg_count :: nat
  er_group_partition_count :: nat
  er_partition_groups_during_scan :: bool

record scan_state =
  ss_tables :: tables
  ss_arena :: arena
  ss_budget :: query_budget
  ss_retained :: retained_cap
  ss_window_bytes :: u64
  ss_partials :: "chunk_partial list"
  ss_partitioned :: "bytes list option"

text \<open>The groups of a partial go to the partitions of the worker.\<close>

definition divide_groups ::
  "execute_request \<Rightarrow> chunk_partial \<Rightarrow> bytes list option \<Rightarrow> (chunk_partial \<times> bytes list option) result" where
  "divide_groups req partial partitioned =
     (case partitioned of
        None \<Rightarrow> Ok (partial, None)
      | Some parts \<Rightarrow>
          if cp_groups partial = [] then Ok (partial, Some parts)
          else bindR (repartition_group_records (cp_groups partial) (er_group_agg_count req)
                        (er_merge_keys_mode req) parts) (\<lambda>parts.
                 Ok (partial\<lparr> cp_groups := [] \<rparr>, Some parts)))"

definition scan_chunk ::
  "natives \<Rightarrow> bytes \<Rightarrow> worker_context \<Rightarrow> execute_request \<Rightarrow> scan_state \<Rightarrow> u32 \<Rightarrow> scan_state result option" where
  "scan_chunk nv content wc req st chunk_id =
     bindT (execute_chunk nv content wc chunk_id (er_has_filters req) (er_merge_keys_mode req)
              (er_emit_raw req) (ss_tables st)) (\<lambda>(partial, tb).
     bindT (Some (divide_groups req partial (ss_partitioned st))) (\<lambda>(partial, partitioned).
       let window = sat_add64 (ss_window_bytes st) (cp_work_bytes_est partial) in
       case set_live_bytes window ''scan'' (ss_arena st, ss_budget st, ss_retained st) of
         None \<Rightarrow> None
       | Some (Inl e) \<Rightarrow> Some (Err (Bail ''arena cap exceeded''))
       | Some (Inr (arena, budget, retained)) \<Rightarrow>
           let flush = (er_heavy_string req \<and> er_flush_window_bytes req \<le> window)
           in Some (Ok \<lparr> ss_tables = tb, ss_arena = (if flush then reset_live_bytes arena else arena),
                ss_budget = budget, ss_retained = retained, ss_window_bytes = (if flush then 0 else window),
                ss_partials = ss_partials st @ [partial], ss_partitioned = partitioned \<rparr>)))"

fun foldT :: "('s \<Rightarrow> 'a \<Rightarrow> 's result option) \<Rightarrow> 's \<Rightarrow> 'a list \<Rightarrow> 's result option" where
  "foldT f s [] = Some (Ok s)"
| "foldT f s (x # xs) = bindT (f s x) (\<lambda>s. foldT f s xs)"

definition scan_end :: "scan_state \<Rightarrow> chunk_partial list \<times> scan_state" where
  "scan_end st =
     (let st = st\<lparr> ss_arena := reset_live_bytes (ss_arena st) \<rparr>;
          rest = (case ss_partitioned st of
              None \<Rightarrow> []
            | Some parts \<Rightarrow>
                if list_ex (\<lambda>b. b \<noteq> []) parts
                then [(partial_empty (- 1))\<lparr> cp_partitioned_groups := parts \<rparr>] else [])
      in (ss_partials st @ rest, st))"

definition execute_chunks ::
  "natives \<Rightarrow> bytes \<Rightarrow> worker_context \<Rightarrow> execute_request \<Rightarrow> u32 list
     \<Rightarrow> tables \<times> arena \<times> query_budget \<times> retained_cap \<Rightarrow> (chunk_partial list \<times> scan_state) result option" where
  "execute_chunks nv content wc req chunk_ids st0 =
     (case st0 of (tb, arena, budget, retained) \<Rightarrow>
      let partitioned = (if er_partition_groups_during_scan req \<and> 0 < er_group_agg_count req
            then Some (replicate (max (er_group_partition_count req) 1) []) else None);
          st = \<lparr> ss_tables = tb, ss_arena = arena, ss_budget = budget, ss_retained = retained,
                 ss_window_bytes = 0, ss_partials = [], ss_partitioned = partitioned \<rparr>
      in bindT (foldT (scan_chunk nv content wc req) st chunk_ids) (\<lambda>st. Some (Ok (scan_end st))))"

text \<open>A worker answers a request: the arena starts and ends a query around the scan.\<close>

record release_settings =
  rs_policy :: release_policy
  rs_keep_up_to_bytes :: u64
  rs_idle_decay_queries :: u32

definition worker_execute ::
  "natives \<Rightarrow> bytes \<Rightarrow> worker_context \<Rightarrow> execute_request \<Rightarrow> release_settings \<Rightarrow> u32 list
     \<Rightarrow> tables \<times> arena \<times> query_budget \<times> retained_cap
     \<Rightarrow> (chunk_partial list \<times> tables \<times> arena \<times> query_budget \<times> retained_cap) result option" where
  "worker_execute nv content wc req rel chunk_ids st0 =
     (case st0 of (tb, arena, budget, retained) \<Rightarrow>
      bindT (execute_chunks nv content wc req chunk_ids (tb, begin_query arena, budget, retained)) (\<lambda>(partials, st).
        let (arena, retained) = end_query (rs_policy rel) (rs_keep_up_to_bytes rel)
              (max (rs_idle_decay_queries rel) 1) (ss_arena st, ss_retained st)
        in Some (Ok (partials, ss_tables st, arena, ss_budget st, retained))))"

text \<open>All workers, each with its context, arena and the chunks it got.\<close>

fun pool_execute ::
  "natives \<Rightarrow> bytes \<Rightarrow> execute_request \<Rightarrow> release_settings \<Rightarrow> (worker_context \<times> arena \<times> u32 list) list
     \<Rightarrow> tables \<Rightarrow> query_budget \<Rightarrow> retained_cap
     \<Rightarrow> (chunk_partial list \<times> arena list \<times> tables \<times> query_budget \<times> retained_cap) result option" where
  "pool_execute nv content req rel [] tb budget retained = Some (Ok ([], [], tb, budget, retained))"
| "pool_execute nv content req rel ((wc, arena, chunk_ids) # workers) tb budget retained =
     bindT (worker_execute nv content wc req rel chunk_ids (tb, arena, budget, retained))
       (\<lambda>(partials, tb, arena, budget, retained).
     bindT (pool_execute nv content req rel workers tb budget retained) (\<lambda>(rest, arenas, tb, budget, retained).
       Some (Ok (partials @ rest, arena # arenas, tb, budget, retained))))"

end
