(* ===== verification/Native_Config.thy ===== *)
theory Native_Config
  imports Mem_Budget Group_Merge
begin

text \<open>
  The settings of the native runtime (\<^verbatim>\<open>wcol-decoder/src/native/config.rs\<close>): what is read from the
  environment, and what a query with a number of workers gets from it. The environment is a map
  from names to values.
\<close>

section \<open>Settings\<close>

datatype cache_counter_mode = Counters_Off | Counters_On | Counters_Strict

datatype group_engine_mode = Legacy | PartitionSort | PartitionSortV2 | PartitionDirect

record memory_basis =
  mb_total_bytes :: u64
  mb_source :: string

record native_runtime_config =
  nc_arena_base_bytes :: u64
  nc_arena_grow_bytes :: u64
  nc_arena_max_bytes :: u64
  nc_global_cap_override_bytes :: "u64 option"
  nc_retained_global_cap_override_bytes :: "u64 option"
  nc_arena_release_policy :: release_policy
  nc_arena_keep_up_to_bytes :: u64
  nc_retained_idle_decay_queries :: u32
  nc_string_window_bytes :: u64
  nc_group_partitions_override :: "nat option"
  nc_merge_workers_override :: "nat option"
  nc_reduce_workers_override :: "nat option"
  nc_partition_count_override :: "nat option"
  nc_cache_counter_mode :: cache_counter_mode
  nc_merge_keys_mode :: merge_keys_mode
  nc_group_engine_mode :: group_engine_mode
  nc_scan_partition_queue_cap_bytes :: "u64 option"
  nc_partition_sort_chunk_bytes :: u64
  nc_scan_chunk_batch_size_override :: "nat option"
  nc_hot_partition_threshold_records :: nat

record query_execution_config =
  qc_arena_base_bytes :: u64
  qc_arena_grow_bytes :: u64
  qc_arena_max_bytes :: u64
  qc_global_cap_bytes :: u64
  qc_retained_global_cap_bytes :: u64
  qc_arena_release_policy :: release_policy
  qc_arena_keep_up_to_bytes :: u64
  qc_retained_idle_decay_queries :: u32
  qc_string_window_bytes :: u64
  qc_group_partitions :: nat
  qc_merge_workers :: nat
  qc_reduce_workers :: nat
  qc_partition_count :: nat
  qc_cache_counter_mode :: cache_counter_mode
  qc_merge_keys_mode :: merge_keys_mode
  qc_group_engine_mode :: group_engine_mode
  qc_scan_partition_queue_cap_bytes :: "u64 option"
  qc_partition_sort_chunk_bytes :: u64
  qc_scan_chunk_batch_size :: nat
  qc_hot_partition_threshold_records :: nat
  qc_memory_basis :: memory_basis

section \<open>Reading the environment\<close>

type_synonym environment = "string \<rightharpoonup> string"

definition digit_of :: "char \<Rightarrow> nat option" where
  "digit_of c = (let n = of_char c :: nat in if 48 \<le> n \<and> n \<le> 57 then Some (n - 48) else None)"

text \<open>The digits of a number below a bound; \<^verbatim>\<open>None\<close> for another character or an overflow.\<close>

fun parse_digits :: "nat \<Rightarrow> nat \<Rightarrow> string \<Rightarrow> nat option" where
  "parse_digits bound acc [] = Some acc"
| "parse_digits bound acc (c # cs) =
     (case digit_of c of
        None \<Rightarrow> None
      | Some d \<Rightarrow> if bound \<le> acc * 10 + d then None else parse_digits bound (acc * 10 + d) cs)"

text \<open>\<^verbatim>\<open>str::parse\<close> of an unsigned integer: a leading plus is allowed, no digits are not.\<close>

definition parse_unsigned :: "nat \<Rightarrow> string \<Rightarrow> nat option" where
  "parse_unsigned bound s =
     (let ds = (case s of c # cs \<Rightarrow> if c = CHR ''+'' then cs else s | [] \<Rightarrow> [])
      in if ds = [] then None else parse_digits bound 0 ds)"

definition parse_u64_env :: "environment \<Rightarrow> string \<Rightarrow> u64 option" where
  "parse_u64_env env name = Option.bind (env name) (\<lambda>raw. map_option of_nat (parse_unsigned (2 ^ 64) raw))"

definition parse_u32_env :: "environment \<Rightarrow> string \<Rightarrow> u32 option" where
  "parse_u32_env env name = Option.bind (env name) (\<lambda>raw. map_option of_nat (parse_unsigned (2 ^ 32) raw))"

definition parse_usize_env :: "environment \<Rightarrow> string \<Rightarrow> nat option" where
  "parse_usize_env env name = Option.bind (env name) (parse_unsigned (2 ^ 64))"

definition ascii_lower :: "char \<Rightarrow> char" where
  "ascii_lower c = (let n = of_char c :: nat in if 65 \<le> n \<and> n \<le> 90 then char_of (n + 32) else c)"

definition sat_mul64 :: "u64 \<Rightarrow> u64 \<Rightarrow> u64" where
  "sat_mul64 a b = (if unat a * unat b < 2 ^ 64 then a * b else - 1)"

definition MIB :: u64 where "MIB = 1024 * 1024"

definition parse_mem_mb_or_auto :: "environment \<Rightarrow> string \<Rightarrow> u64 option" where
  "parse_mem_mb_or_auto env name =
     Option.bind (env name) (\<lambda>raw.
       if map ascii_lower raw = ''auto'' then None
       else map_option (\<lambda>mb. sat_mul64 (of_nat mb) MIB) (parse_unsigned (2 ^ 64) raw))"

definition or_default :: "'a option \<Rightarrow> 'a \<Rightarrow> 'a" where
  "or_default x d = (case x of Some v \<Rightarrow> v | None \<Rightarrow> d)"

definition from_env :: "environment \<Rightarrow> native_runtime_config" where
  "from_env env =
     (let mb = (\<lambda>name d. sat_mul64 (or_default (parse_u64_env env name) d) MIB);
          lower = (\<lambda>name d. map ascii_lower (or_default (env name) d))
      in \<lparr> nc_arena_base_bytes = mb ''WCOL_THREAD_ARENA_BASE_MB'' 100,
           nc_arena_grow_bytes = mb ''WCOL_THREAD_ARENA_GROW_MB'' 50,
           nc_arena_max_bytes = mb ''WCOL_THREAD_ARENA_MAX_MB'' 1024,
           nc_global_cap_override_bytes = parse_mem_mb_or_auto env ''WCOL_QUERY_GLOBAL_CAP_MB'',
           nc_retained_global_cap_override_bytes = parse_mem_mb_or_auto env ''WCOL_QUERY_RETAINED_GLOBAL_CAP_MB'',
           nc_arena_release_policy =
             (let s = or_default (env ''WCOL_THREAD_ARENA_RELEASE'') ''''
              in if s = ''release-all'' then ReleaseAll else if s = ''keep-all'' then KeepAll else KeepUpToMb),
           nc_arena_keep_up_to_bytes = mb ''WCOL_THREAD_ARENA_KEEP_UP_TO_MB'' 256,
           nc_retained_idle_decay_queries = or_default (parse_u32_env env ''WCOL_QUERY_RETAINED_IDLE_DECAY_QUERIES'') 3,
           nc_string_window_bytes = mb ''WCOL_STRING_WINDOW_MB'' 4,
           nc_group_partitions_override = parse_usize_env env ''WCOL_GROUP_PARTITIONS'',
           nc_merge_workers_override = parse_usize_env env ''WCOL_MERGE_WORKERS'',
           nc_reduce_workers_override = parse_usize_env env ''WCOL_REDUCE_WORKERS'',
           nc_partition_count_override = parse_usize_env env ''WCOL_PARTITION_COUNT'',
           nc_cache_counter_mode =
             (let s = lower ''WCOL_CACHE_COUNTERS'' ''on''
              in if s = ''off'' then Counters_Off else if s = ''strict'' then Counters_Strict else Counters_On),
           nc_merge_keys_mode = (if lower ''WCOL_MERGE_KEYS'' ''bytes'' = ''hash'' then Hash else Bytes),
           nc_group_engine_mode =
             (let s = lower ''WCOL_GROUP_ENGINE'' ''partition-sort-v2''
              in if s = ''legacy'' then Legacy else if s = ''partition-sort'' then PartitionSort
                 else if s = ''partition-direct'' then PartitionDirect else PartitionSortV2),
           nc_scan_partition_queue_cap_bytes = parse_mem_mb_or_auto env ''WCOL_SCAN_PARTITION_QUEUE_MB'',
           nc_partition_sort_chunk_bytes = mb ''WCOL_PARTITION_SORT_CHUNK_MB'' 8,
           nc_scan_chunk_batch_size_override = parse_usize_env env ''WCOL_SCAN_CHUNK_BATCH'',
           nc_hot_partition_threshold_records =
             or_default (parse_usize_env env ''WCOL_HOT_PARTITION_THRESHOLD_RECORDS'') 1000000 \<rparr>)"

section \<open>Settings of a query\<close>

definition for_workers :: "native_runtime_config \<Rightarrow> nat \<Rightarrow> memory_basis \<Rightarrow> query_execution_config" where
  "for_workers c workers basis =
     (let worker_count = max workers 1;
          cap = or_default (nc_global_cap_override_bytes c) (sat_mul64 (mb_total_bytes basis) 60 div 100);
          retained = or_default (nc_retained_global_cap_override_bytes c)
            (min (cap div 4) (8 * 1024 * 1024 * 1024));
          auto_partitions = min (next_power (max (worker_count * 8) 64) 1) 2048;
          partitions = (case nc_partition_count_override c of
              Some v \<Rightarrow> max v 1
            | None \<Rightarrow> (case nc_group_partitions_override c of Some v \<Rightarrow> max v 1 | None \<Rightarrow> auto_partitions));
          merge = max (or_default (nc_merge_workers_override c) worker_count) 1;
          reduce = max (case nc_reduce_workers_override c of
              Some v \<Rightarrow> v | None \<Rightarrow> or_default (nc_merge_workers_override c) worker_count) 1
      in \<lparr> qc_arena_base_bytes = max (nc_arena_base_bytes c) 1,
           qc_arena_grow_bytes = max (nc_arena_grow_bytes c) 1,
           qc_arena_max_bytes = max (nc_arena_max_bytes c) (max (nc_arena_base_bytes c) 1),
           qc_global_cap_bytes = max cap 1,
           qc_retained_global_cap_bytes = retained,
           qc_arena_release_policy = nc_arena_release_policy c,
           qc_arena_keep_up_to_bytes = nc_arena_keep_up_to_bytes c,
           qc_retained_idle_decay_queries = max (nc_retained_idle_decay_queries c) 1,
           qc_string_window_bytes = max (nc_string_window_bytes c) 1,
           qc_group_partitions = partitions,
           qc_merge_workers = merge,
           qc_reduce_workers = reduce,
           qc_partition_count = partitions,
           qc_cache_counter_mode = nc_cache_counter_mode c,
           qc_merge_keys_mode = nc_merge_keys_mode c,
           qc_group_engine_mode = nc_group_engine_mode c,
           qc_scan_partition_queue_cap_bytes = nc_scan_partition_queue_cap_bytes c,
           qc_partition_sort_chunk_bytes = max (nc_partition_sort_chunk_bytes c) 1024,
           qc_scan_chunk_batch_size =
             max (or_default (nc_scan_chunk_batch_size_override c)
               (if nc_group_engine_mode c = Legacy then 1 else 8)) 1,
           qc_hot_partition_threshold_records = max (nc_hot_partition_threshold_records c) 1,
           qc_memory_basis = basis \<rparr>)"

end
