(* ===== verification/Query_Run.thy ===== *)
theory Query_Run
  imports Worker_Pool Native_Config Sql_Plan
begin

text \<open>
  A query on the native runtime (\<^verbatim>\<open>wcol-decoder/src/native/runtime.rs\<close>, \<^verbatim>\<open>native/result.rs\<close>): the
  plan on one thread over all chunks, or on the workers of a pool with the merging of their
  partial results by a reducer, and the decoding of the result. The pool with the chunks that each
  worker fetched and the environment's switches are arguments. Timings, logs and trimming of the allocator are left out.
\<close>

section \<open>The result\<close>

record aggregate_stats =
  as_count :: u32
  as_sum :: f64
  as_min :: f64
  as_max :: f64
  as_mean :: f64

record group_key_info =
  gi_col_id :: u32
  gi_physical_type :: u8
  gi_flags :: u8

record group_result =
  gr_keys :: "u64 list"
  gr_keys2 :: "u64 list option"
  gr_key_info :: "group_key_info list"
  gr_aggs :: "group_agg list"
  gr_values :: "aggregate_stats list list"

record query_result =
  qr_rows :: "u64 list"
  qr_aggregates :: "bytes \<rightharpoonup> aggregate_stats"
  qr_groups :: "group_result option"

text \<open>The readers of \<^verbatim>\<open>native/helpers.rs\<close> index the slice, so a short one is a panic.\<close>

definition bytes_at :: "bytes \<Rightarrow> nat \<Rightarrow> nat \<Rightarrow> bytes result" where
  "bytes_at bs off n = (if length bs < off + n then Err Panic else Ok (slice bs off (off + n)))"

definition native_u32 :: "bytes \<Rightarrow> nat \<Rightarrow> u32 result" where
  "native_u32 bs off = bindR (bytes_at bs off 4) (\<lambda>b. Ok (from_le32 b))"

definition native_u64 :: "bytes \<Rightarrow> nat \<Rightarrow> u64 result" where
  "native_u64 bs off = bindR (bytes_at bs off 8) (\<lambda>b. Ok (from_le64 b))"

definition mean_of :: "u8 \<Rightarrow> f64 \<Rightarrow> u32 \<Rightarrow> f64" where
  "mean_of kind total_sum n =
     (if kind = AGG_KIND_AVG then (if n = 0 then f_zero else f_div total_sum (f_of_int (uint n)))
      else if kind = AGG_KIND_APPROX_DISTINCT then total_sum
      else if kind = AGG_KIND_COUNT \<or> kind = AGG_KIND_COUNT_STAR then f_of_int (uint n)
      else if n = 0 then f_zero else f_div total_sum (f_of_int (uint n)))"

definition read_stats_at :: "bytes \<Rightarrow> nat \<Rightarrow> u8 \<Rightarrow> aggregate_stats result" where
  "read_stats_at bs off kind =
     bindR (native_u64 bs off) (\<lambda>s. bindR (native_u64 bs (off + 8)) (\<lambda>mn.
     bindR (native_u64 bs (off + 16)) (\<lambda>mx. bindR (native_u32 bs (off + 24)) (\<lambda>n.
       Ok \<lparr> as_count = n, as_sum = s, as_min = mn, as_max = mx, as_mean = mean_of kind s n \<rparr>))))"

definition read_rows :: "plans \<Rightarrow> u32 \<Rightarrow> u64 list result option" where
  "read_rows plans plan =
     bindT (copy_rows_bytes plans plan) (\<lambda>bs.
       Some (mapR (\<lambda>i. native_u64 bs (8 * i)) [0..<(length bs + 7) div 8]))"

definition column_name :: "runtimes \<Rightarrow> u32 \<Rightarrow> u32 \<Rightarrow> bytes result option" where
  "column_name rts runtime col_id =
     bindT (read_out_bytes 64 (runtime_column_name rts runtime col_id)) (\<lambda>bs.
       Some (of_option (Bail ''invalid utf-8'') (from_utf8 bs)))"

definition agg_expr :: "bytes \<Rightarrow> u8 \<Rightarrow> bytes" where
  "agg_expr col_name offset =
     (if offset = 0 then col_name
      else col_name @ ascii (if 0 < sint offset then '' + '' else '' - '') @ decimal (nat \<bar>sint offset\<bar>))"

definition agg_name :: "u8 \<Rightarrow> bytes \<Rightarrow> bytes" where
  "agg_name kind expr =
     (let call = (\<lambda>f. ascii f @ ascii ''('' @ expr @ ascii '')'') in
      if kind = AGG_KIND_COUNT_STAR then ascii ''count_star()''
      else if kind = AGG_KIND_COUNT then call ''count''
      else if kind = AGG_KIND_SUM then call ''sum''
      else if kind = AGG_KIND_AVG then call ''avg''
      else if kind = AGG_KIND_MIN then call ''min''
      else if kind = AGG_KIND_MAX then call ''max''
      else if kind = AGG_KIND_APPROX_DISTINCT then call ''approx_count_distinct''
      else expr)"

definition read_aggregate ::
  "runtimes \<Rightarrow> u32 \<Rightarrow> bytes \<Rightarrow> (bytes \<rightharpoonup> aggregate_stats) \<Rightarrow> nat \<Rightarrow> (bytes \<rightharpoonup> aggregate_stats) result option" where
  "read_aggregate rts runtime bs out i =
     (let off = i * AGG_RECORD_SIZE in
      bindT (Some (native_u32 bs off)) (\<lambda>col_id.
      bindT (Some (bytes_at bs (off + 4) 2)) (\<lambda>tag.
      bindT (Some (read_stats_at bs (off + 8) (tag ! 0))) (\<lambda>stats.
      bindT (column_name rts runtime col_id) (\<lambda>name.
        Some (Ok (out(agg_name (tag ! 0) (agg_expr name (tag ! 1)) \<mapsto> stats))))))))"

definition read_aggregates ::
  "natives \<Rightarrow> tables \<Rightarrow> u32 \<Rightarrow> u32 \<Rightarrow> nat \<Rightarrow> (bytes \<rightharpoonup> aggregate_stats) result option" where
  "read_aggregates nv tb runtime plan n =
     (if n = 0 then Some (Ok Map.empty)
      else bindT (copy_aggs_bytes nv (tb_plans tb) plan) (\<lambda>bs.
        foldT (read_aggregate (tb_rts tb) runtime bs) Map.empty [0..<n]))"

definition read_key_info :: "bytes \<Rightarrow> nat \<Rightarrow> group_key_info result" where
  "read_key_info bs i =
     bindR (native_u32 bs (8 * i)) (\<lambda>col. bindR (bytes_at bs (8 * i + 4) 2) (\<lambda>tag.
       Ok \<lparr> gi_col_id = col, gi_physical_type = tag ! 0, gi_flags = tag ! 1 \<rparr>))"

definition read_agg_info :: "bytes \<Rightarrow> nat \<Rightarrow> group_agg result" where
  "read_agg_info bs i =
     bindR (native_u32 bs (8 * i)) (\<lambda>col. bindR (bytes_at bs (8 * i + 4) 1) (\<lambda>tag.
       Ok \<lparr> ga_col_id = col, ga_kind = tag ! 0 \<rparr>))"

definition read_group :: "bytes \<Rightarrow> group_agg list \<Rightarrow> nat \<Rightarrow> (u64 \<times> u64 \<times> aggregate_stats list) result" where
  "read_group bs aggs i =
     (let off = i * (16 + length aggs * GROUP_AGG_RECORD_SIZE) in
      bindR (native_u64 bs off) (\<lambda>a. bindR (native_u64 bs (off + 8)) (\<lambda>b.
      bindR (mapR (\<lambda>j. read_stats_at bs (off + 16 + j * GROUP_AGG_RECORD_SIZE) (ga_kind (aggs ! j)))
               [0..<length aggs]) (\<lambda>row. Ok (a, b, row)))))"

definition read_groups :: "tables \<Rightarrow> u32 \<Rightarrow> nat \<Rightarrow> group_result option result option" where
  "read_groups tb plan n =
     (let plans = tb_plans tb in
      if n = 0 then Some (Ok None)
      else bindT (Some (checked_count (plan_group_key_count plans plan))) (\<lambda>key_count.
        bindT (if 0 < key_count then
                 bindT (read_out_bytes (key_count * 8) (plan_group_key_info (tb_rts tb) plans plan)) (\<lambda>info.
                   Some (mapR (read_key_info info) [0..<key_count]))
               else Some (Ok [])) (\<lambda>key_info.
        bindT (Some (checked_count (plan_group_agg_count plans plan))) (\<lambda>agg_count.
        bindT (if 0 < agg_count then
                 bindT (read_out_bytes (agg_count * 8) (plan_copy_group_aggs plans plan)) (\<lambda>bs.
                   Some (mapR (read_agg_info bs) [0..<agg_count]))
               else Some (Ok [])) (\<lambda>aggs.
        bindT (copy_groups_bytes plans plan) (\<lambda>bs.
        bindT (Some (mapR (read_group bs aggs) [0..<n])) (\<lambda>rows.
          Some (Ok (Some \<lparr> gr_keys = map fst rows,
            gr_keys2 = (if 1 < key_count then Some (map (fst \<circ> snd) rows) else None),
            gr_key_info = key_info, gr_aggs = aggs, gr_values = map (snd \<circ> snd) rows \<rparr>)))))))))"

definition read_result :: "natives \<Rightarrow> tables \<Rightarrow> u32 \<Rightarrow> u32 \<Rightarrow> query_result result option" where
  "read_result nv tb runtime plan =
     (let plans = tb_plans tb in
      bindT (Some (checked_count (plan_group_count plans plan))) (\<lambda>group_count.
      bindT (Some (checked_count (plan_agg_count plans plan))) (\<lambda>agg_count.
      bindT (if group_count = 0 \<and> agg_count = 0 then read_rows plans plan else Some (Ok [])) (\<lambda>rows.
      bindT (read_aggregates nv tb runtime plan agg_count) (\<lambda>aggs.
      bindT (read_groups tb plan group_count) (\<lambda>groups.
        Some (Ok \<lparr> qr_rows = rows, qr_aggregates = aggs, qr_groups = groups \<rparr>)))))))"

section \<open>One thread\<close>

definition apply_sql :: "natives \<Rightarrow> bytes \<Rightarrow> u32 \<Rightarrow> tables \<Rightarrow> tables result option" where
  "apply_sql nv sql plan tb =
     bindT (plan_apply_sql (nv_hist_disabled nv) (nv_hist_max_dict nv) sql (tb_rts tb) (tb_plans tb) plan)
       (\<lambda>res. Some (plan_call (\<lambda>_. res) tb))"

definition prepare_sql :: "natives \<Rightarrow> bytes \<Rightarrow> worker_context \<Rightarrow> tables \<Rightarrow> tables result option" where
  "prepare_sql nv sql wc tb =
     bindT (Some (plan_call (\<lambda>ps. plan_clear ps (wc_plan wc)) tb)) (\<lambda>tb.
     bindT (Some (plan_call (\<lambda>ps. plan_reset_results ps (wc_plan wc)) tb)) (\<lambda>tb.
       apply_sql nv sql (wc_plan wc) tb))"

text \<open>Here only a span of twelve bytes is accepted.\<close>

definition execute_plan_chunk ::
  "natives \<Rightarrow> bytes \<Rightarrow> worker_context \<Rightarrow> bool \<Rightarrow> tables \<Rightarrow> u32 \<Rightarrow> tables result option" where
  "execute_plan_chunk nv content wc has_filters tb chunk_id =
     bindT (read_out_bytes 12 (runtime_chunk_index_span (tb_rts tb) (wc_runtime wc) chunk_id)) (\<lambda>span.
       if length span \<noteq> 12 then Some (Err (Bail ''runtime_chunk_index_span returned invalid size''))
       else bindT (read_index_block content (wc_runtime wc) chunk_id tb) (\<lambda>(index_bytes, tb).
            bindT (run_requests nv content wc chunk_id index_bytes has_filters tb) (\<lambda>(_, tb). Some (Ok tb))))"

definition execute_plan :: "natives \<Rightarrow> bytes \<Rightarrow> worker_context \<Rightarrow> tables \<Rightarrow> tables result option" where
  "execute_plan nv content wc tb =
     bindT (Some (checked_count (plan_filters_len (tb_plans tb) (wc_plan wc)))) (\<lambda>n.
     bindT (foldT (execute_plan_chunk nv content wc (0 < n)) tb
              (map of_nat [0..<unat (i_nchunks (wc_header wc))])) (\<lambda>tb.
       Some (plan_call (\<lambda>ps. plan_finalize_rows ps (wc_plan wc)) tb)))"

definition query_sql_single ::
  "natives \<Rightarrow> bytes \<Rightarrow> u32 \<Rightarrow> header_info \<Rightarrow> bytes \<Rightarrow> u32 \<times> tables
     \<Rightarrow> (query_result \<times> u32 \<times> tables) result option" where
  "query_sql_single nv content runtime header sql st =
     (case st of (counter, tb) \<Rightarrow>
      let (plan, counter, plans) = create_plan counter (tb_plans tb) runtime;
          wc = \<lparr> wc_runtime = runtime, wc_plan = plan, wc_header = header \<rparr> in
      if plan = 0 then Some (Err (Bail ''create_plan returned 0''))
      else
        bindT (Some (plan_call (\<lambda>ps. plan_reset_results ps plan) (tb\<lparr> tb_plans := plans \<rparr>))) (\<lambda>tb.
        bindT (apply_sql nv sql plan tb) (\<lambda>tb.
        bindT (execute_plan nv content wc tb) (\<lambda>tb.
        bindT (read_result nv tb runtime plan) (\<lambda>res.
          Some (Ok (res, counter, tb\<lparr> tb_plans := destroy_plan (tb_plans tb) plan \<rparr>)))))))"

end
