(* ===== verification/Query_Parallel.thy ===== *)
theory Query_Parallel
  imports Query_Run
begin

text \<open>
  A query on the workers of a pool (\<^verbatim>\<open>query_sql_with_workers\<close> and \<^verbatim>\<open>query_sql_parallel\<close> of
  \<^verbatim>\<open>wcol-decoder/src/native/runtime.rs\<close>, \<^verbatim>\<open>ParallelPool\<close> of \<^verbatim>\<open>native/pool.rs\<close>): the choice of the
  engine for groups, the pool, the merging of histograms, and the reducer. The environment is a
  map; the chunks that each worker fetched, the application of SQL and the unstable sort of the
  engines are arguments. Logs and timings are left out, and where a worker could not be created
  the error that its creation had stands for the failed channel.
\<close>

section \<open>Shape of a query\<close>

definition contains_text :: "bytes \<Rightarrow> string \<Rightarrow> bool" where
  "contains_text s t \<longleftrightarrow> list_ex (\<lambda>i. take (length t) (drop i s) = ascii t) [0..<Suc (length s)]"

definition has_parallel_unsafe_sql :: "bytes \<Rightarrow> bool" where
  "has_parallel_unsafe_sql sql =
     (let lower = map lower_byte sql
      in contains_text lower ''approx_count_distinct('' \<or> contains_text lower ''count(distinct'')"

definition is_heavy_string_sql :: "bytes \<Rightarrow> bool" where
  "is_heavy_string_sql sql =
     (let lower = map lower_byte sql
      in (contains_text lower ''group by'' \<or> contains_text lower ''order by'')
         \<and> (contains_text lower ''url'' \<or> contains_text lower ''title'' \<or> contains_text lower ''searchphrase''
            \<or> contains_text lower ''referer''))"

definition cap_group_query_workers :: "environment \<Rightarrow> nat \<Rightarrow> plans \<Rightarrow> u32 \<Rightarrow> nat result" where
  "cap_group_query_workers env requested plans plan =
     bindR (checked_count (plan_group_dict_hist_active plans plan)) (\<lambda>hist_active.
       Ok (if hist_active = 0 then max requested 1
           else min requested (max (or_default (parse_usize_env env ''WCOL_GROUP_WORKER_CAP'') 8) 1)))"

definition partials_use_group_hist :: "chunk_partial list \<Rightarrow> bool" where
  "partials_use_group_hist partials \<longleftrightarrow> list_ex (\<lambda>p. is_group_hist_partial (cp_groups p)) partials"

section \<open>The engine for groups\<close>

definition supports_partition_sort_v2 :: "tables \<Rightarrow> u32 \<Rightarrow> merge_keys_mode \<Rightarrow> bool result option" where
  "supports_partition_sort_v2 tb plan mode =
     (if mode \<noteq> Bytes then Some (Ok False)
      else bindT (Some (checked_count (plan_group_key_count (tb_plans tb) plan))) (\<lambda>key_count.
        if key_count \<noteq> 1 then Some (Ok False)
        else bindT (Some (checked_count (plan_group_agg_count (tb_plans tb) plan))) (\<lambda>agg_count.
          if agg_count = 0 then Some (Ok False)
          else bindT (read_out_bytes (agg_count * 8) (plan_copy_group_aggs (tb_plans tb) plan)) (\<lambda>aggs.
            Some (Ok (length aggs mod 8 = 0
              \<and> \<not> list_ex (\<lambda>rec. rec ! 4 = AGG_KIND_APPROX_DISTINCT) (chunks_exact 8 aggs)))))))"

definition key_cardinality :: "runtime \<Rightarrow> bytes \<Rightarrow> u64" where
  "key_cardinality rt rec =
     (case get (r_schema rt) (unat (from_le32 (slice rec 0 4))) of
        None \<Rightarrow> 1
      | Some col \<Rightarrow>
          if rec ! 5 AND FLAG_DICT \<noteq> 0 \<or> c_logical col = TYPE_STRING then
            (case r_dicts rt (c_dict_id col) of
               None \<Rightarrow> 65536
             | Some dict \<Rightarrow> of_nat (if d_offsets dict \<noteq> [] then length (d_offsets dict) - 1 else length (d_values dict)))
          else 1)"

definition estimate_group_cardinality :: "tables \<Rightarrow> u32 \<Rightarrow> u32 \<Rightarrow> u64 result option" where
  "estimate_group_cardinality tb runtime plan =
     bindT (Some (checked_count (plan_group_key_count (tb_plans tb) plan))) (\<lambda>key_count.
       if key_count = 0 then Some (Ok 0)
       else bindT (read_out_bytes (key_count * 8) (plan_group_key_info (tb_rts tb) (tb_plans tb) plan)) (\<lambda>info.
         if length info < key_count * 8 then Some (Ok (- 1))
         else bindT (Some (of_option (Bail ''runtime handle missing'') (tb_rts tb runtime))) (\<lambda>rt.
           Some (Ok (foldl (\<lambda>est rec. sat_mul64 est (max (key_cardinality rt rec) 1)) 1 (chunks_exact 8 info))))))"

definition resolve_effective_group_engine ::
  "environment \<Rightarrow> group_engine_mode \<Rightarrow> tables \<Rightarrow> u32 \<Rightarrow> u32 \<Rightarrow> merge_keys_mode \<Rightarrow> group_engine_mode result option" where
  "resolve_effective_group_engine env requested tb plan runtime mode =
     (if requested \<noteq> PartitionSortV2 then Some (Ok requested)
      else bindT (supports_partition_sort_v2 tb plan mode) (\<lambda>supported.
        if \<not> supported then Some (Ok PartitionSort)
        else if (case env ''WCOL_GROUP_ENGINE_V2_FORCE'' of None \<Rightarrow> False | Some v \<Rightarrow> v \<noteq> ''0'') then
          Some (Ok PartitionSortV2)
        else bindT (estimate_group_cardinality tb runtime plan) (\<lambda>est.
          Some (Ok (if or_default (parse_u64_env env ''WCOL_GROUP_ENGINE_V2_MIN_CARDINALITY'') 200000 \<le> est
                    then PartitionSortV2 else Legacy)))))"

text \<open>LIMIT and the first count among the aggregates, where the groups are ordered by count.\<close>

fun count_aggregate :: "nat \<Rightarrow> bytes list \<Rightarrow> nat option" where
  "count_aggregate idx [] = None"
| "count_aggregate idx (rec # recs) =
     (if rec ! 4 = AGG_KIND_COUNT \<or> rec ! 4 = AGG_KIND_COUNT_STAR then Some idx
      else count_aggregate (Suc idx) recs)"

definition topk_count_agg :: "plans \<Rightarrow> u32 \<Rightarrow> bool \<Rightarrow> nat \<Rightarrow> nat \<Rightarrow> (nat \<times> nat) option result option" where
  "topk_count_agg plans plan order_by_count limit agg_count =
     (if order_by_count \<and> 0 < limit \<and> 0 < agg_count then
        bindT (read_out_bytes (agg_count * 8) (plan_copy_group_aggs plans plan)) (\<lambda>aggs.
          Some (Ok (map_option (Pair limit) (count_aggregate 0 (take agg_count (chunks_exact 8 aggs))))))
      else Some (Ok None))"

section \<open>Histograms\<close>

type_synonym hist_state = "u32 \<times> u32 list option \<times> f64 list option"

definition hist_merge_step :: "hist_state \<Rightarrow> chunk_partial \<Rightarrow> hist_state result" where
  "hist_merge_step st p =
     (case st of (dict_len, counts, sums) \<Rightarrow>
      if cp_groups p = [] then Ok st
      else if \<not> is_group_hist_partial (cp_groups p) then Err (Bail ''mixed group histogram and hash partials'')
      else (case decode_group_hist_partial (cp_groups p) of
          None \<Rightarrow> Err (Bail ''invalid group histogram partial'')
        | Some (dl, cs, ss) \<Rightarrow>
            bindR (if dict_len = 0 then
                     Ok (dl, Some (replicate (unat dl + 1) 0),
                         if ss \<noteq> None then Some (replicate (unat dl + 1) f_zero) else sums)
                   else if dl \<noteq> dict_len then Err (Bail ''group histogram dict_len mismatch'')
                   else Ok st) (\<lambda>(dict_len, counts, sums).
              Ok (dict_len, map_option (\<lambda>t. merge_group_hist_counts t cs) counts,
                case (sums, ss) of (Some t, Some s) \<Rightarrow> Some (merge_group_hist_sums t s) | _ \<Rightarrow> sums))))"

definition merge_group_hist_partials ::
  "plans \<Rightarrow> u32 \<Rightarrow> chunk_partial list \<Rightarrow> bool \<Rightarrow> u32 \<Rightarrow> u32 \<Rightarrow> bytes result" where
  "merge_group_hist_partials plans base_plan partials order_by_count limit offset =
     (let group_aggs = (case plans base_plan of Some p \<Rightarrow> pl_group_aggs p | None \<Rightarrow> [])
      in bindR (foldR hist_merge_step (0, None, None) partials) (\<lambda>(dict_len, counts, sums).
           Ok (group_hist_to_records (or_default counts []) sums dict_len group_aggs order_by_count limit offset)))"

section \<open>The pool\<close>

record pool =
  po_workers :: "(worker_context \<times> arena) list"
  po_retained :: retained_cap

text \<open>\<^verbatim>\<open>WorkerContext::new\<close>; the counters are those of the runtime and plan handles.\<close>

type_synonym counters = "u32 \<times> u32"

definition worker_new ::
  "header_info \<Rightarrow> runtime_init \<Rightarrow> counters \<times> tables \<Rightarrow> (worker_context \<times> counters \<times> tables) result" where
  "worker_new header init st =
     (case st of ((rc, pc), tb) \<Rightarrow>
      let (runtime, rc, rts) = create_runtime rc (tb_rts tb) in
      if runtime = 0 then Err (Bail ''create_runtime returned 0'')
      else bindR (initialize_runtime rts runtime init) (\<lambda>rts.
        let (plan, pc, plans) = create_plan pc (tb_plans tb) runtime in
        if plan = 0 then Err (Bail ''create_plan returned 0'')
        else Ok (\<lparr> wc_runtime = runtime, wc_plan = plan, wc_header = header \<rparr>, (rc, pc),
                 tb\<lparr> tb_rts := rts, tb_plans := plans \<rparr>)))"

definition pool_new ::
  "nat \<Rightarrow> header_info \<Rightarrow> runtime_init \<Rightarrow> query_execution_config \<Rightarrow> counters \<times> tables
     \<Rightarrow> (pool \<times> counters \<times> tables) result" where
  "pool_new worker_count header init cfg st =
     bindR (foldR (\<lambda>(ws, st) worker_id.
         bindR (worker_new header init st) (\<lambda>(wc, st).
           Ok (ws @ [(wc, arena_new worker_id (qc_arena_base_bytes cfg) (qc_arena_grow_bytes cfg) (qc_arena_max_bytes cfg))], st)))
       ([], st) [0..<worker_count]) (\<lambda>(ws, st).
       Ok (\<lparr> po_workers = ws,
             po_retained = retained_with_initial (- 1) (sat_mul64 (qc_arena_base_bytes cfg) (of_nat worker_count)) \<rparr>, st))"

definition pool_prepare :: "natives \<Rightarrow> bytes \<Rightarrow> pool \<Rightarrow> tables \<Rightarrow> tables result option" where
  "pool_prepare nv sql pool tb =
     foldT (\<lambda>tb (wc, arena). prepare_sql nv sql wc tb) tb (po_workers pool)"

text \<open>The request that all workers get.\<close>

definition pool_request ::
  "query_execution_config \<Rightarrow> group_engine_mode \<Rightarrow> bool \<Rightarrow> bool \<Rightarrow> nat \<Rightarrow> execute_request" where
  "pool_request cfg engine has_filters heavy_string group_agg_count =
     \<lparr> er_has_filters = has_filters,
       er_emit_raw = (engine = PartitionSortV2),
       er_heavy_string = heavy_string,
       er_flush_window_bytes =
         (if engine = PartitionSort \<or> engine = PartitionDirect
          then max (max (qc_partition_sort_chunk_bytes cfg) (qc_string_window_bytes cfg)) 1
          else max (qc_string_window_bytes cfg) 1),
       er_merge_keys_mode = qc_merge_keys_mode cfg,
       er_group_agg_count = group_agg_count,
       er_group_partition_count = next_power (max (qc_partition_count cfg) 1) 1,
       er_partition_groups_during_scan =
         (0 < group_agg_count \<and> (engine = PartitionSort \<or> engine = PartitionSortV2 \<or> engine = PartitionDirect)) \<rparr>"

definition pool_release :: "query_execution_config \<Rightarrow> release_settings" where
  "pool_release cfg =
     \<lparr> rs_policy = qc_arena_release_policy cfg, rs_keep_up_to_bytes = qc_arena_keep_up_to_bytes cfg,
       rs_idle_decay_queries = qc_retained_idle_decay_queries cfg \<rparr>"

text \<open>Prepare and execute with the chunks that the workers fetched; the budget starts from what the pool retains.\<close>

definition pool_query ::
  "natives \<Rightarrow> bytes \<Rightarrow> bytes \<Rightarrow> query_execution_config \<Rightarrow> execute_request \<Rightarrow> u64 \<Rightarrow> u32 list list
     \<Rightarrow> pool \<Rightarrow> tables \<Rightarrow> (chunk_partial list \<times> pool \<times> tables) result option" where
  "pool_query nv content sql cfg req query_id chunks pool tb =
     bindT (pool_prepare nv sql pool tb) (\<lambda>tb.
       let budget = query_budget_new (qc_global_cap_bytes cfg) query_id (rt_total_retained (po_retained pool));
           workers = map2 (\<lambda>(wc, arena) cs. (wc, arena, cs)) (po_workers pool) chunks
       in bindT (pool_execute nv content req (pool_release cfg) workers tb budget
                   (set_cap_bytes (qc_retained_global_cap_bytes cfg) (po_retained pool)))
            (\<lambda>(partials, arenas, tb, budget, retained).
              Some (Ok (partials, \<lparr> po_workers = zip (map fst (po_workers pool)) arenas, po_retained = retained \<rparr>, tb))))"

section \<open>Merging\<close>

definition merge_by_engine ::
  "natives \<Rightarrow> sorter \<Rightarrow> query_execution_config \<Rightarrow> group_engine_mode \<Rightarrow> chunk_partial list \<Rightarrow> nat \<Rightarrow> (nat \<times> nat) option
     \<Rightarrow> bytes result option" where
  "merge_by_engine nv sort_unstable cfg engine partials agg_count topk =
     (let seeded = nv_seeded nv; mode = qc_merge_keys_mode cfg; hot = qc_hot_partition_threshold_records cfg in
      case engine of
        Legacy \<Rightarrow> merge_group_partials_partitioned_legacy seeded partials agg_count (qc_group_partitions cfg) mode hot
      | PartitionSort \<Rightarrow>
          merge_group_partials_partition_sort seeded sort_unstable partials agg_count (qc_partition_count cfg) mode hot topk
      | PartitionSortV2 \<Rightarrow>
          merge_group_partials_partition_sort seeded sort_unstable partials agg_count (qc_partition_count cfg) mode hot topk
      | PartitionDirect \<Rightarrow>
          merge_group_partials_partition_direct seeded partials agg_count (qc_partition_count cfg) mode hot topk)"

definition reduce_partial :: "u32 \<Rightarrow> tables \<Rightarrow> chunk_partial \<Rightarrow> tables result" where
  "reduce_partial reducer tb p =
     (let merge = (\<lambda>bs f tb. if bs = [] then Ok tb else plan_call (\<lambda>ps. f ps reducer bs) tb) in
      bindR (merge (cp_rows p) plan_reducer_merge_rows tb) (\<lambda>tb.
      bindR (merge (cp_row_candidates p) plan_reducer_merge_row_candidates tb)
        (merge (cp_aggs p) plan_reducer_merge_aggs)))"

definition reduce_partials :: "u32 \<Rightarrow> bytes \<Rightarrow> chunk_partial list \<Rightarrow> tables \<Rightarrow> tables result" where
  "reduce_partials reducer groups partials tb =
     bindR (if groups = [] then Ok tb else plan_call (\<lambda>ps. plan_reducer_merge_groups ps reducer groups) tb) (\<lambda>tb.
     bindR (foldR (reduce_partial reducer) tb partials)
       (plan_call (\<lambda>ps. plan_reducer_finalize ps reducer)))"

section \<open>Queries\<close>

text \<open>The runtime of an open file, as far as queries change it.\<close>

record native_state =
  ns_tables :: tables
  ns_counters :: counters
  ns_pool :: "pool option"
  ns_query_seq :: u64

record open_runtime =
  or_runtime :: u32
  or_header :: header_info
  or_init :: runtime_init
  or_env :: environment
  or_config :: native_runtime_config
  or_basis :: memory_basis

text \<open>The pool of the last query is used again if it has as many workers.\<close>

definition with_pool :: "open_runtime \<Rightarrow> nat \<Rightarrow> query_execution_config \<Rightarrow> native_state \<Rightarrow> (pool \<times> native_state) result" where
  "with_pool rt workers cfg st =
     (let again = (case or_env rt ''WCOL_POOL_RECREATE_EACH_QUERY'' of None \<Rightarrow> False | Some v \<Rightarrow> v \<noteq> ''0'');
          fresh = bindR (pool_new workers (or_header rt) (or_init rt) cfg (ns_counters st, ns_tables st))
            (\<lambda>(pool, counters, tb). Ok (pool, st\<lparr> ns_tables := tb, ns_counters := counters \<rparr>))
      in case ns_pool st of
           None \<Rightarrow> fresh
         | Some pool \<Rightarrow> if again \<or> length (po_workers pool) \<noteq> workers then fresh else Ok (pool, st))"

definition query_sql_parallel ::
  "natives \<Rightarrow> bytes \<Rightarrow> sorter \<Rightarrow> open_runtime \<Rightarrow> bytes \<Rightarrow> nat \<Rightarrow> u32 list list \<Rightarrow> native_state
     \<Rightarrow> (query_result \<times> native_state) result option" where
  "query_sql_parallel nv content sort_unstable rt sql workers chunks st =
     (let query_id = ns_query_seq st + 1;
          (base, pc, plans) = create_plan (snd (ns_counters st)) (tb_plans (ns_tables st)) (or_runtime rt)
      in
      if base = 0 then Some (Err (Bail ''create_plan returned 0''))
      else
        bindT (Some (plan_call (\<lambda>ps. plan_reset_results ps base) ((ns_tables st)\<lparr> tb_plans := plans \<rparr>))) (\<lambda>tb.
        bindT (apply_sql nv sql base tb) (\<lambda>tb.
        bindT (Some (cap_group_query_workers (or_env rt) workers (tb_plans tb) base)) (\<lambda>workers.
        let cfg = for_workers (or_config rt) workers (or_basis rt) in
        bindT (Some (checked_count (plan_filters_len (tb_plans tb) base))) (\<lambda>filters.
        bindT (Some (checked_count (plan_group_agg_count (tb_plans tb) base))) (\<lambda>agg_count.
        bindT (Some (checked_count (plan_group_order_by_count (tb_plans tb) base))) (\<lambda>order_by_count.
        bindT (Some (checked_count (plan_limit (tb_plans tb) base))) (\<lambda>limit.
        bindT (topk_count_agg (tb_plans tb) base (0 < order_by_count) limit agg_count) (\<lambda>topk.
        bindT (Some (checked_count (plan_group_dict_hist_active (tb_plans tb) base))) (\<lambda>hist.
        bindT (if 0 < hist then Some (Ok Legacy)
               else resolve_effective_group_engine (or_env rt) (qc_group_engine_mode cfg) tb base (or_runtime rt)
                      (qc_merge_keys_mode cfg)) (\<lambda>engine.
        bindT (Some (checked_count (plan_offset (tb_plans tb) base))) (\<lambda>offset.
        let (reducer, pc, plans) = plan_reducer_new pc (tb_plans tb) base in
        if reducer = 0 then Some (Err (Bail ''plan_reducer_new returned 0''))
        else
          bindT (Some (with_pool rt workers cfg (st\<lparr> ns_tables := tb\<lparr> tb_plans := plans \<rparr>,
                   ns_counters := (fst (ns_counters st), pc), ns_query_seq := query_id \<rparr>))) (\<lambda>(pool, st).
          bindT (pool_query nv content sql cfg
                   (pool_request cfg engine (0 < filters) (is_heavy_string_sql sql) agg_count) query_id chunks pool
                   (ns_tables st)) (\<lambda>(partials, pool, tb).
          let partials = sort_key cp_chunk_id partials in
          bindT (if agg_count = 0 then Some (Ok [])
                 else if 0 < hist \<and> partials_use_group_hist partials then
                   Some (merge_group_hist_partials (tb_plans tb) base partials (0 < order_by_count)
                           (of_nat limit) (of_nat offset))
                 else merge_by_engine nv sort_unstable cfg engine partials agg_count topk) (\<lambda>groups.
          bindT (Some (reduce_partials reducer groups partials tb)) (\<lambda>tb.
          bindT (read_result nv tb (or_runtime rt) reducer) (\<lambda>res.
            Some (Ok (res, st\<lparr> ns_tables := tb\<lparr> tb_plans := destroy_plan (destroy_plan (tb_plans tb) reducer) base \<rparr>,
                              ns_pool := Some pool \<rparr>)))))))))))))))))))"

definition query_sql_with_workers ::
  "natives \<Rightarrow> bytes \<Rightarrow> sorter \<Rightarrow> open_runtime \<Rightarrow> bytes \<Rightarrow> nat \<Rightarrow> u32 list list \<Rightarrow> native_state
     \<Rightarrow> (query_result \<times> native_state) result option" where
  "query_sql_with_workers nv content sort_unstable rt sql workers chunks st =
     (let nchunks = unat (i_nchunks (or_header rt));
          worker_count = min (max workers 1) (max nchunks 1)
      in if worker_count = 1 \<or> nchunks \<le> 1 \<or> has_parallel_unsafe_sql sql then
           bindT (query_sql_single nv content (or_runtime rt) (or_header rt) sql
                    (snd (ns_counters st), ns_tables st)) (\<lambda>(res, pc, tb).
             Some (Ok (res, st\<lparr> ns_tables := tb, ns_counters := (fst (ns_counters st), pc) \<rparr>)))
         else query_sql_parallel nv content sort_unstable rt sql worker_count chunks st)"

end
