(* ===== verification/Native_Ends.thy ===== *)
theory Native_Ends
  imports Query_Parallel Sql_Parser_Facts Page_Request_Facts Memory_Properties
begin

text \<open>
  The calls of the native runtime return: every loop that asks a call for bytes ends, because
  the call asks for at most one larger buffer.
\<close>

section \<open>Calls that ask for a buffer\<close>

text \<open>Error codes are small: below the first buffer, which has at least 64 bytes.\<close>

definition asks_once :: "(nat \<Rightarrow> int \<times> bytes) \<Rightarrow> bool" where
  "asks_once f \<longleftrightarrow> (\<exists>need. \<forall>n. 64 \<le> n \<longrightarrow> n < nat (- fst (f n)) \<longrightarrow> nat (- fst (f n)) = need)"

lemma read_out_loop_ends:
  assumes "asks_once f" "64 \<le> n"
  shows "read_out_loop f n \<noteq> None"
proof -
  from assms obtain need where need: "\<And>n. 64 \<le> n \<Longrightarrow> n < nat (- fst (f n)) \<Longrightarrow> nat (- fst (f n)) = need"
    by (auto simp: asks_once_def)
  obtain w out where f: "f n = (w, out)" by (cases "f n")
  obtain w' out' where f': "f need = (w', out')" by (cases "f need")
  have again: "read_out_loop f need \<noteq> None" if "64 \<le> need"
    using need [OF that] f' by (subst read_out_loop.simps) (auto simp: not_less)
  show ?thesis
    using need [of n] again f assms(2) by (subst read_out_loop.simps) (auto simp: not_less)
qed

lemma read_out_bytes_ends: "asks_once f \<Longrightarrow> read_out_bytes n f \<noteq> None"
  unfolding read_out_bytes_def by (rule read_out_loop_ends) simp_all

lemma read_out_panics_ends:
  assumes f: "\<And>n w out. 64 \<le> n \<Longrightarrow> f n = Inr (w, out) \<Longrightarrow> n < nat (- w) \<Longrightarrow> nat (- w) = need" and n: "64 \<le> n"
  shows "read_out_panics f n \<noteq> None"
proof -
  have again: "read_out_panics f need \<noteq> None" if "64 \<le> need"
    using f [OF that] by (subst read_out_panics.simps) (auto split: sum.split simp: not_less)
  show ?thesis
    using f [OF n] again n by (subst read_out_panics.simps) (force split: sum.split simp: not_less)
qed

text \<open>Three ways to answer: an error, the bytes, or the length that they need.\<close>

lemma asks_fail: "asks_once (\<lambda>n. (c, out n))"
  by (auto simp: asks_once_def)

lemma asks_give: "asks_once (\<lambda>n. give (copy_out n need out))"
  unfolding asks_once_def by (rule exI [of _ need]) (auto simp: give_def copy_out_def)

lemma asks_sized:
  assumes "\<And>n. - 64 \<le> fst (r n)"
  shows "asks_once (\<lambda>n. if n < need then (- int need, []) else r n)"
  unfolding asks_once_def
proof (intro exI [of _ need] allI impI)
  fix n :: nat assume n: "64 \<le> n" "n < nat (- fst (if n < need then (- int need, []) else r n))"
  have "\<not> n < nat (- fst (r n))" using assms [of n] n(1) by simp
  with n(2) show "nat (- fst (if n < need then (- int need, []) else r n)) = need" by (simp split: if_splits)
qed

lemma runtime_chunk_index_span_asks: "asks_once (runtime_chunk_index_span rts handle chunk_id)"
proof -
  have "- 64 \<le> fst (runtime_chunk_index_span rts handle chunk_id n)" for n
    by (auto simp: runtime_chunk_index_span_def Let_def SPAN_BYTES_def split: option.split)
  then have "nat (- fst (runtime_chunk_index_span rts handle chunk_id n)) \<le> 64" for n
    by (simp add: nat_le_iff minus_le_iff)
  then show ?thesis unfolding asks_once_def by (meson leD le_trans)
qed

lemma runtime_column_name_asks: "asks_once (runtime_column_name rts handle col_id)"
proof -
  have name: "asks_once (\<lambda>n. if n < length name then (- int (length name), []) else (int (length name), name))"
    for name :: bytes by (rule asks_sized) simp
  consider "col_id = ROW_COUNT_COL_ID" | "col_id \<noteq> ROW_COUNT_COL_ID" "rts handle = None"
    | r where "col_id \<noteq> ROW_COUNT_COL_ID" "rts handle = Some r" by (cases "rts handle") auto
  then show ?thesis
  proof cases
    case (3 r)
    define col where "col = get (r_schema r) (unat col_id)"
    have "runtime_column_name rts handle col_id = (\<lambda>n. case col of None \<Rightarrow> (- 2, [])
        | Some c \<Rightarrow> if n < length (c_name c) then (- int (length (c_name c)), []) else (int (length (c_name c)), c_name c))"
      using 3 by (simp add: runtime_column_name_def [abs_def] col_def Let_def)
    then show ?thesis using name asks_fail by (cases col) simp_all
  qed (use name [of count_star_name] asks_fail in \<open>simp_all add: runtime_column_name_def [abs_def]\<close>)
qed

lemma plan_copy_rows_asks: "asks_once (plan_copy_rows plans handle)"
  by (cases "plans handle") (simp_all add: plan_copy_rows_def [abs_def] asks_fail asks_give)

lemma plan_copy_group_aggs_asks: "asks_once (plan_copy_group_aggs plans handle)"
  by (cases "plans handle") (simp_all add: plan_copy_group_aggs_def [abs_def] asks_fail asks_give)

lemma copy_groups_shape: "(\<exists>need out. copy_groups p = (\<lambda>n. copy_out n need out)) \<or> (\<exists>c. copy_groups p = (\<lambda>n. c))"
proof (cases "plan_uses_group_dict_histogram p")
  case True
  then show ?thesis by (cases "pl_hist_counts p") (auto simp: copy_groups_def [abs_def] Let_def)
next
  case False
  then show ?thesis
    by (cases "pl_group_emit_raw p"; cases "raw_rows (length (pl_group_aggs p)) (pl_group_rows_raw p)")
      (auto simp: copy_groups_def [abs_def] Let_def)
qed

lemma copy_groups_with_keys_shape: "\<exists>need out. copy_groups_with_keys p = (\<lambda>n. copy_out n need out)"
  by (cases "pl_group_emit_raw p") (auto simp: copy_groups_with_keys_def [abs_def] Let_def)

lemma plan_copy_groups_asks: "asks_once (plan_copy_groups plans handle)"
proof (cases "plans handle")
  case (Some p)
  with copy_groups_shape [of p] show ?thesis
    by (auto simp: plan_copy_groups_def [abs_def] asks_give asks_fail [of _ "\<lambda>_. _"] split: sum.split)
      (auto simp: asks_once_def)
qed (simp add: plan_copy_groups_def [abs_def] asks_fail)

lemma plan_copy_groups_with_keys_asks: "asks_once (plan_copy_groups_with_keys plans handle)"
proof (cases "plans handle")
  case (Some p)
  with copy_groups_with_keys_shape [of p] show ?thesis
    by (auto simp: plan_copy_groups_with_keys_def [abs_def] asks_give)
qed (simp add: plan_copy_groups_with_keys_def [abs_def] asks_fail)

lemma plan_copy_row_candidates_asks: "asks_once (plan_copy_row_candidates plans handle)"
proof (cases "plans handle")
  case (Some p)
  then show ?thesis unfolding asks_once_def
    by (intro exI [of _ "length (concat (map candidate_bytes (pl_row_heap p)))"])
      (auto simp: plan_copy_row_candidates_def copy_row_candidates_def Let_def)
qed (simp add: plan_copy_row_candidates_def [abs_def] asks_fail)

lemma plan_group_key_info_asks: "asks_once (plan_group_key_info rts plans handle)"
proof -
  have "\<exists>need. \<forall>n. - 64 \<le> fst (plan_group_key_info rts plans handle n) \<or>
      n < need \<and> plan_group_key_info rts plans handle n = (- int need, [])"
  proof (cases "plans handle")
    case (Some p)
    show ?thesis
      by (rule exI [of _ "case pl_group_by p of None \<Rightarrow> 0 | Some g \<Rightarrow> length (gb_keys g) * 8"])
        (auto simp: plan_group_key_info_def Some Let_def split: option.split)
  qed (simp add: plan_group_key_info_def)
  then obtain need where need: "\<And>n. - 64 \<le> fst (plan_group_key_info rts plans handle n) \<or>
      n < need \<and> plan_group_key_info rts plans handle n = (- int need, [])" by blast
  have "nat (- fst (plan_group_key_info rts plans handle n)) = need"
    if "64 \<le> n" "n < nat (- fst (plan_group_key_info rts plans handle n))" for n
    using need [of n] that by auto
  then show ?thesis by (auto simp: asks_once_def)
qed

lemma copy_aggs_ends: "64 \<le> n \<Longrightarrow> read_out_panics (plan_copy_aggs ln sqrt plans handle) n \<noteq> None"
  by (rule read_out_panics_ends [where need = "case plans handle of None \<Rightarrow> 0 | Some p \<Rightarrow> length (pl_aggregates p) * AGG_RESULT_BYTES"])
    (auto simp: plan_copy_aggs_def Let_def nat_mult_distrib split: option.splits if_splits)

lemma copy_hist_ends: "64 \<le> n \<Longrightarrow> read_out_panics (plan_copy_group_hist_partial plans handle) n \<noteq> None"
  by (rule read_out_panics_ends [where need = "case plans handle of None \<Rightarrow> 0 | Some p \<Rightarrow> (case pl_hist_counts p of None \<Rightarrow> 0
      | Some counts \<Rightarrow> length (encode_group_hist_partial (pl_hist_dict_len p)
          (take (unat (pl_hist_dict_len p)) counts) (pl_hist_sums p)))"])
    (auto simp: plan_copy_group_hist_partial_def copy_group_hist_partial_def give_def copy_out_def Let_def
      split: option.splits if_splits)

section \<open>Sequences of calls\<close>

text \<open>A call returns: the loops in it end.\<close>

definition returns :: "'a option \<Rightarrow> bool" where "returns r \<longleftrightarrow> r \<noteq> None"

named_theorems returns_intro

lemma returns_Some [returns_intro]: "returns (Some x)"
  by (simp add: returns_def)

lemma returns_bindT [returns_intro]: "returns r \<Longrightarrow> (\<And>x. r = Some (Ok x) \<Longrightarrow> returns (f x)) \<Longrightarrow> returns (bindT r f)"
  by (auto simp: returns_def bindT_def split: option.splits sum.splits)

lemma returns_foldT [returns_intro]: "(\<And>s x. x \<in> set xs \<Longrightarrow> returns (f s x)) \<Longrightarrow> returns (foldT f s xs)"
  by (induction xs arbitrary: s) (auto intro!: returns_intro)

lemma returns_prod [returns_intro]: "(\<And>a b. x = (a, b) \<Longrightarrow> returns (f a b)) \<Longrightarrow> returns (case_prod f x)"
  by (cases x) simp

lemma returns_if [returns_intro]: "(b \<Longrightarrow> returns x) \<Longrightarrow> (\<not> b \<Longrightarrow> returns y) \<Longrightarrow> returns (if b then x else y)"
  by simp

lemma returns_option [returns_intro]:
  "returns a \<Longrightarrow> (\<And>y. x = Some y \<Longrightarrow> returns (f y)) \<Longrightarrow> returns (case x of None \<Rightarrow> a | Some y \<Rightarrow> f y)"
  by (cases x) simp_all

lemma returns_read_out [returns_intro]: "asks_once f \<Longrightarrow> returns (read_out_bytes n f)"
  by (simp add: returns_def read_out_bytes_ends del: not_None_eq)

lemma returns_mode [returns_intro]:
  "returns a \<Longrightarrow> returns b \<Longrightarrow> returns (case mode of Hash \<Rightarrow> a | Bytes \<Rightarrow> b)"
  by (cases mode) simp_all

lemmas asks [returns_intro] =
  runtime_chunk_index_span_asks runtime_column_name_asks plan_copy_rows_asks plan_copy_group_aggs_asks
  plan_copy_groups_asks plan_copy_groups_with_keys_asks plan_copy_row_candidates_asks plan_group_key_info_asks

lemma returns_copy_aggs [returns_intro]:
  "64 \<le> n \<Longrightarrow> returns (read_out_panics (plan_copy_aggs ln sqrt plans handle) n)"
  by (simp add: returns_def copy_aggs_ends del: not_None_eq)

lemma returns_copy_hist [returns_intro]:
  "64 \<le> n \<Longrightarrow> returns (read_out_panics (plan_copy_group_hist_partial plans handle) n)"
  by (simp add: returns_def copy_hist_ends del: not_None_eq)

lemma copy_bytes_return [returns_intro]:
  "returns (copy_rows_bytes plans plan)" "returns (copy_row_candidates_bytes plans plan)"
  "returns (copy_aggs_bytes nv plans plan)" "returns (copy_group_hist_partial_bytes plans plan)"
  "returns (copy_groups_bytes plans plan)" "returns (copy_groups_bytes_with_keys plans plan)"
  unfolding copy_rows_bytes_def copy_row_candidates_bytes_def copy_aggs_bytes_def copy_group_hist_partial_bytes_def
    copy_groups_bytes_def copy_groups_bytes_with_keys_def
  by (intro returns_intro; simp)+

lemma read_index_block_returns [returns_intro]: "returns (read_index_block content runtime chunk_id tb)"
  unfolding read_index_block_def index_span_def Let_def by (intro returns_intro)

lemma run_requests_returns [returns_intro]: "returns (run_requests nv content wc chunk_id index_bytes has_filters tb)"
proof -
  have sel: "returns (case x of Skip \<Rightarrow> a | Requests reqs \<Rightarrow> f reqs)" if "returns a" "\<And>reqs. returns (f reqs)"
    for x and a :: "'b option" and f using that by (cases x) simp_all
  obtain r rts where "required_pages (nv_decompress nv) (tb_plans tb) (wc_runtime wc) (wc_plan wc) (wc_header wc)
      chunk_id index_bytes has_filters (tb_rts tb) = Some (r, rts)"
    by (rule that) (rule required_pages_ok [OF prod.collapse [symmetric]])
  then show ?thesis
    unfolding run_requests_def Let_def by (simp only: option.case prod.case)
      (intro returns_intro sel)
qed

lemma gather_partial_returns [returns_intro]: "returns (gather_partial nv wc chunk_id mode row_order reqs plans)"
  unfolding gather_partial_def Let_def by (intro returns_intro)

lemma execute_chunk_returns [returns_intro]:
  "returns (execute_chunk nv content wc chunk_id has_filters mode emit_raw tb)"
  unfolding execute_chunk_def Let_def by (intro returns_intro)

section \<open>Queries\<close>

lemma read_rows_returns [returns_intro]: "returns (read_rows plans plan)"
  unfolding read_rows_def by (intro returns_intro)

lemma read_aggregates_returns [returns_intro]: "returns (read_aggregates nv tb runtime plan n)"
  unfolding read_aggregates_def read_aggregate_def column_name_def Let_def by (intro returns_intro)

lemma read_groups_returns [returns_intro]: "returns (read_groups tb plan n)"
  unfolding read_groups_def Let_def by (intro returns_intro)

lemma read_result_returns [returns_intro]: "returns (read_result nv tb runtime plan)"
  unfolding read_result_def Let_def by (intro returns_intro)

lemma execute_plan_returns [returns_intro]: "returns (execute_plan nv content wc tb)"
  unfolding execute_plan_def execute_plan_chunk_def by (intro returns_intro)

lemma returns_apply_sql [returns_intro]: "returns (apply_sql nv sql plan tb)"
proof -
  have "parse_sql_v0 s \<noteq> None" for s using parse_ends [of s] by (cases "parse_sql_v0 s") (simp_all add: ends_in_def)
  then have "returns (plan_apply_sql disabled n s rts ps h)" for disabled n s rts ps h
    by (auto simp: returns_def plan_apply_sql_def split_beta simp del: not_None_eq
        split: option.splits sum.splits parse_failure.splits)
  then show ?thesis unfolding apply_sql_def by (intro returns_intro)
qed

lemma query_sql_single_returns: "returns (query_sql_single nv content runtime header sql st)"
  unfolding query_sql_single_def Let_def by (intro returns_intro)

section \<open>Scans\<close>

text \<open>A call that returns, with a result that satisfies \<open>Q\<close>.\<close>

definition returns_with :: "('a \<Rightarrow> bool) \<Rightarrow> 'a result option \<Rightarrow> bool" where
  "returns_with Q r \<longleftrightarrow> (case r of None \<Rightarrow> False | Some (Inl e) \<Rightarrow> True | Some (Inr x) \<Rightarrow> Q x)"

lemma returns_with_simps [simp]:
  "returns_with Q (Some (Inl e))" "returns_with Q (Some (Inr x)) \<longleftrightarrow> Q x" "\<not> returns_with Q None"
  by (simp_all add: returns_with_def)

lemma returns_with_returns: "returns_with Q r \<Longrightarrow> returns r"
  by (cases r) (simp_all add: returns_def)

lemma returns_with_any: "returns r \<Longrightarrow> (\<And>x. r = Some (Ok x) \<Longrightarrow> Q x) \<Longrightarrow> returns_with Q r"
  by (auto simp: returns_def returns_with_def split: option.split sum.split)

lemma returns_with_bindT:
  "returns_with P r \<Longrightarrow> (\<And>x. P x \<Longrightarrow> returns_with Q (f x)) \<Longrightarrow> returns_with Q (bindT r f)"
  by (cases r; cases "the r") (simp_all add: bindT_def)

lemma returns_with_foldT:
  "P s \<Longrightarrow> (\<And>s x. P s \<Longrightarrow> returns_with P (f s x)) \<Longrightarrow> returns_with P (foldT f s xs)"
  by (induction xs arbitrary: s) (auto intro: returns_with_bindT)

lemma set_live_keeps:
  assumes "accounts_ok (a, b, r)"
  obtains e where "set_live_bytes live stage (a, b, r) = Some (Inl e)"
  | a' b' r' where "set_live_bytes live stage (a, b, r) = Some (Inr (a', b', r'))" "accounts_ok (a', b', r')"
proof -
  have a: "arena_ok a" "qb_used_bytes b \<le> qb_cap_bytes b" using assms by (simp_all add: accounts_ok_def)
  obtain res where res: "set_live_bytes live stage (a, b, r) = Some res"
    "case res of Inl e \<Rightarrow> too_much live (a, b, r) | Inr st' \<Rightarrow> grown live (a, b, r) st'"
    using set_live_bytes_ok [OF a(1)] by blast
  show thesis
  proof (cases res)
    case (Inr st')
    obtain a' b' r' where st': "st' = (a', b', r')" by (cases st')
    have "accounts_ok (a', b', r')" using res(2) Inr st' a(2) by (auto simp: grown_def accounts_ok_def)
    then show thesis using res(1) Inr st' that(2) by simp
  qed (use res(1) that(1) in simp)
qed

definition scan_ok :: "scan_state \<Rightarrow> bool" where
  "scan_ok st \<longleftrightarrow> accounts_ok (ss_arena st, ss_budget st, ss_retained st)"

lemma reset_ok: "accounts_ok (a, b, r) \<Longrightarrow> accounts_ok (reset_live_bytes a, b, r)"
  by (simp add: accounts_ok_def arena_ok_def reset_live_bytes_def)

lemma scan_chunk_ok:
  assumes "scan_ok st"
  shows "returns_with scan_ok (scan_chunk nv content wc req st chunk_id)"
  unfolding scan_chunk_def Let_def
proof (rule returns_with_bindT [where P = "\<lambda>_. True"])
  show "returns_with (\<lambda>_. True) (execute_chunk nv content wc chunk_id (er_has_filters req) (er_merge_keys_mode req)
      (er_emit_raw req) (ss_tables st))"
    by (intro returns_with_any returns_intro) simp
next
  fix x :: "chunk_partial \<times> tables"
  obtain partial tb where x: "x = (partial, tb)" by (cases x)
  show "returns_with scan_ok (case x of (partial, tb) \<Rightarrow>
     bindT (Some (divide_groups req partial (ss_partitioned st))) (\<lambda>(partial, partitioned).
       case set_live_bytes (sat_add64 (ss_window_bytes st) (cp_work_bytes_est partial)) ''scan''
           (ss_arena st, ss_budget st, ss_retained st) of
         None \<Rightarrow> None
       | Some (Inl e) \<Rightarrow> Some (Err (Bail ''arena cap exceeded''))
       | Some (Inr (arena, budget, retained)) \<Rightarrow>
           Some (Ok \<lparr> ss_tables = tb, ss_arena = (if er_heavy_string req \<and>
                er_flush_window_bytes req \<le> sat_add64 (ss_window_bytes st) (cp_work_bytes_est partial)
                then reset_live_bytes arena else arena),
                ss_budget = budget, ss_retained = retained, ss_window_bytes = (if er_heavy_string req \<and>
                er_flush_window_bytes req \<le> sat_add64 (ss_window_bytes st) (cp_work_bytes_est partial)
                then 0 else sat_add64 (ss_window_bytes st) (cp_work_bytes_est partial)),
                ss_partials = ss_partials st @ [partial], ss_partitioned = partitioned \<rparr>)))"
    unfolding x prod.case
  proof (rule returns_with_bindT [where P = "\<lambda>_. True"], goal_cases)
    case (2 y)
    obtain p parts where y: "y = (p, parts)" by (cases y)
    let ?w = "sat_add64 (ss_window_bytes st) (cp_work_bytes_est p)"
    show ?case
      unfolding y prod.case
      by (rule set_live_keeps [OF assms [unfolded scan_ok_def], of ?w "''scan''"])
        (simp_all add: scan_ok_def reset_ok)
  qed (simp add: returns_with_def split: sum.split)
qed

lemma worker_execute_ok:
  assumes "accounts_ok (arena, budget, retained)"
  shows "returns_with (\<lambda>(partials, tb, arena, budget, retained). accounts_ok (arena, budget, retained))
    (worker_execute nv content wc req rel chunk_ids (tb, arena, budget, retained))"
proof -
  have start: "accounts_ok (begin_query arena, budget, retained)"
    using assms by (simp add: accounts_ok_def arena_ok_def begin_query_def)
  have "returns_with (\<lambda>(partials, st). scan_ok st)
      (execute_chunks nv content wc req chunk_ids (tb, begin_query arena, budget, retained))"
    unfolding execute_chunks_def prod.case Let_def
  proof (rule returns_with_bindT [OF returns_with_foldT])
    show "returns_with scan_ok (scan_chunk nv content wc req s c)" if "scan_ok s" for s c
      using that by (rule scan_chunk_ok)
    show "returns_with (\<lambda>(partials, st). scan_ok st) (Some (Ok (scan_end st)))" if "scan_ok st" for st
      using that by (simp add: scan_end_def scan_ok_def reset_ok Let_def)
  qed (simp add: scan_ok_def start)
  then show ?thesis
    unfolding worker_execute_def prod.case
  proof (rule returns_with_bindT)
    fix x :: "chunk_partial list \<times> scan_state"
    assume "case x of (partials, st) \<Rightarrow> scan_ok st"
    then obtain partials st where x: "x = (partials, st)" and ok: "scan_ok st" by (cases x) auto
    from ok have "accounts_ok (fst (end_query policy keep decay (ss_arena st, r)), ss_budget st,
        snd (end_query policy keep decay (ss_arena st, r)))" for policy keep decay r
      using end_query_ok [of "ss_arena st" policy keep decay r] by (simp add: scan_ok_def accounts_ok_def)
    then show "returns_with (\<lambda>(partials, tb, arena, budget, retained). accounts_ok (arena, budget, retained))
      (case x of (partials, st) \<Rightarrow> let (arena, retained) = end_query (rs_policy rel) (rs_keep_up_to_bytes rel)
          (max (rs_idle_decay_queries rel) 1) (ss_arena st, ss_retained st)
        in Some (Ok (partials, ss_tables st, arena, ss_budget st, retained)))"
      by (simp add: x split_beta Let_def)
  qed
qed

lemma pool_execute_ok:
  assumes "list_all (\<lambda>(wc, a, cs). arena_ok a) workers" "qb_used_bytes b \<le> qb_cap_bytes b"
  shows "returns_with (\<lambda>(ps, as, tb, b, r). list_all arena_ok as \<and> length as = length workers \<and>
      qb_used_bytes b \<le> qb_cap_bytes b) (pool_execute nv content req rel workers tb b r)"
  using assms
proof (induction nv content req rel workers tb b r rule: pool_execute.induct)
  case (2 nv content req rel wc arena cs workers tb b r)
  have "accounts_ok (arena, b, r)" using 2(2,3) by (simp add: accounts_ok_def)
  from worker_execute_ok [OF this] show ?case
    unfolding pool_execute.simps
  proof (rule returns_with_bindT)
    fix x :: "chunk_partial list \<times> tables \<times> arena \<times> query_budget \<times> retained_cap"
    assume "case x of (ps, tb, a, b, r) \<Rightarrow> accounts_ok (a, b, r)"
    then obtain ps tb1 a1 b1 r1 where x: "x = (ps, tb1, a1, b1, r1)" and ok: "arena_ok a1" "qb_used_bytes b1 \<le> qb_cap_bytes b1"
      by (cases x) (auto simp: accounts_ok_def)
    have rest: "list_all (\<lambda>(wc, a, cs). arena_ok a) workers" using 2(2) by simp
    show "returns_with (\<lambda>(ps, as, tb, b, r). list_all arena_ok as \<and> length as = length ((wc, arena, cs) # workers) \<and>
        qb_used_bytes b \<le> qb_cap_bytes b)
      (case x of (ps, tb, a, b, r) \<Rightarrow>
         bindT (pool_execute nv content req rel workers tb b r) (\<lambda>(rest, as, tb, b, r).
           Some (Ok (ps @ rest, a # as, tb, b, r))))"
      unfolding x prod.case
      by (rule returns_with_bindT [OF 2(1) [OF rest ok(2)]]) (use ok(1) in auto)
  qed
qed simp

section \<open>The choice of the engine and the calls on a new pool\<close>

lemma pool_new_ok:
  assumes "pool_new n header init cfg st = Ok (pool, st')"
  shows "list_all (\<lambda>(wc, a). arena_ok a) (po_workers pool)"
proof -
  obtain ws where f: "foldR (\<lambda>(ws, st) worker_id.
      bindR (worker_new header init st) (\<lambda>(wc, st).
        Ok (ws @ [(wc, arena_new worker_id (qc_arena_base_bytes cfg) (qc_arena_grow_bytes cfg) (qc_arena_max_bytes cfg))], st)))
      ([], st) [0..<n] = Ok (ws, st')" and pool: "po_workers pool = ws"
    using assms by (auto simp: pool_new_def)
  have "list_all (\<lambda>(wc, a). arena_ok a) (fst (ws, st'))"
    by (rule foldR_keeps [OF f, where P = "\<lambda>s. list_all (\<lambda>(wc, a). arena_ok a) (fst s)"]) (auto simp: arena_new_ok)
  with pool show ?thesis by simp
qed

lemma returns_pool_prepare [returns_intro]: "returns (pool_prepare nv sql pool tb)"
  unfolding pool_prepare_def prepare_sql_def by (intro returns_intro)

lemma pool_query_returns:
  assumes "list_all (\<lambda>(wc, a). arena_ok a) (po_workers pool)"
  shows "returns (pool_query nv content sql cfg req query_id chunks pool tb)"
proof -
  have ok: "list_all (\<lambda>(wc, a, cs). arena_ok a) (map2 (\<lambda>(wc, arena) cs. (wc, arena, cs)) (po_workers pool) chunks)"
    using assms by (induction "po_workers pool" chunks rule: list_induct2') (auto simp: list_all_iff dest: set_zip_leftD)
  have "returns (pool_execute nv content req rel (map2 (\<lambda>(wc, arena) cs. (wc, arena, cs)) (po_workers pool) chunks) tb
      (query_budget_new cap query used0) r)" for rel tb cap query used0 r
    by (rule returns_with_returns [OF pool_execute_ok [OF ok]]) (simp add: query_budget_new_def)
  then show ?thesis unfolding pool_query_def Let_def by (intro returns_intro)
qed

lemma resolve_engine_returns: "returns (resolve_effective_group_engine env requested tb plan runtime mode)"
  unfolding resolve_effective_group_engine_def supports_partition_sort_v2_def estimate_group_cardinality_def
  by (intro returns_intro)

lemma topk_count_agg_returns: "returns (topk_count_agg plans plan order_by_count limit agg_count)"
  unfolding topk_count_agg_def by (intro returns_intro)

end
