(* ===== verification/Cache_Facts.thy ===== *)
theory Cache_Facts
  imports Native_Ends Page_Delivery
begin

text \<open>
  The shared cache of reads does not show: chunks and queries give the same on any two caches
  that hold bytes of the file, and leave caches that hold bytes of the file.
\<close>

section \<open>Outcomes that agree\<close>

definition agree :: "('a \<Rightarrow> 'b \<Rightarrow> bool) \<Rightarrow> 'a result option \<Rightarrow> 'b result option \<Rightarrow> bool" where
  "agree R r s \<longleftrightarrow> rel_option (rel_sum (=) R) r s"

lemma agree_simps [simp]:
  "agree R (Some (Inl e)) (Some (Inl e')) \<longleftrightarrow> e = e'" "agree R (Some (Inr x)) (Some (Inr y)) \<longleftrightarrow> R x y"
  "agree R None None"
  by (simp_all add: agree_def)

lemma agree_bindT:
  assumes "agree R r s" "\<And>x y. R x y \<Longrightarrow> agree Q (f x) (g y)"
  shows "agree Q (bindT r f) (bindT s g)"
  using assms by (cases r; cases s; cases "the r"; cases "the s") (simp_all add: agree_def bindT_def)

lemma agree_same: "agree (=) r r"
  by (simp add: agree_def option.rel_eq sum.rel_eq)

lemma agree_bindT_same: "(\<And>x. agree Q (f x) (g x)) \<Longrightarrow> agree Q (bindT r f) (bindT r g)"
  by (rule agree_bindT [OF agree_same]) simp

lemma agree_foldT:
  "R s t \<Longrightarrow> (\<And>s t x. R s t \<Longrightarrow> agree R (f s x) (g t x)) \<Longrightarrow> agree R (foldT f s xs) (foldT g t xs)"
  by (induction xs arbitrary: s t) (auto intro!: agree_bindT [where R = R])

text \<open>Tables that differ in the cache only, and both caches hold bytes of the file.\<close>

definition same_tables :: "bytes \<Rightarrow> tables \<Rightarrow> tables \<Rightarrow> bool" where
  "same_tables content tb tb' \<longleftrightarrow>
     tb_rts tb' = tb_rts tb \<and> tb_plans tb' = tb_plans tb \<and> cache_ok content (tb_cache tb) \<and> cache_ok content (tb_cache tb')"

definition same_second :: "bytes \<Rightarrow> 'a \<times> tables \<Rightarrow> 'a \<times> tables \<Rightarrow> bool" where
  "same_second content x y \<longleftrightarrow> fst y = fst x \<and> same_tables content (snd x) (snd y)"

lemma agree_pair:
  assumes "agree (same_second content) r s"
    and "\<And>a tb tb'. same_tables content tb tb' \<Longrightarrow> agree Q (f a tb) (g a tb')"
  shows "agree Q (bindT r (case_prod f)) (bindT s (case_prod g))"
  by (rule agree_bindT [OF assms(1)]) (use assms(2) in \<open>auto simp: same_second_def\<close>)

lemma plan_call_agree:
  "same_tables content tb tb' \<Longrightarrow> agree (same_tables content) (Some (plan_call f tb)) (Some (plan_call f tb'))"
  by (cases "f (tb_plans tb)") (auto simp: plan_call_def same_tables_def bindR_def split: sum.split)

lemma read_index_block_agree:
  assumes "same_tables content tb tb'"
  shows "agree (same_second content) (read_index_block content runtime chunk_id tb)
    (read_index_block content runtime chunk_id tb')"
proof -
  have rts: "tb_rts tb' = tb_rts tb" using assms by (simp add: same_tables_def)
  show ?thesis
    unfolding read_index_block_def rts
  proof (rule agree_bindT_same)
    fix span :: "u64 \<times> u32"
    obtain off len where s: "span = (off, len)" by (cases span)
    have ok: "cache_ok content (tb_cache tb)" "cache_ok content (tb_cache tb')" using assms by (simp_all add: same_tables_def)
    show "agree (same_second content)
        (case span of (off, len) \<Rightarrow> let (r, cache) = read_cached content (tb_cache tb) off (unat len)
          in bindT (Some r) (\<lambda>bs. Some (Ok (bs, tb\<lparr> tb_cache := cache \<rparr>))))
        (case span of (off, len) \<Rightarrow> let (r, cache) = read_cached content (tb_cache tb') off (unat len)
          in bindT (Some r) (\<lambda>bs. Some (Ok (bs, tb'\<lparr> tb_cache := cache \<rparr>))))"
      unfolding s prod.case Let_def split_beta read_cached_ok(1) [OF ok(1)] read_cached_ok(1) [OF ok(2)]
      using assms read_cached_ok(2) [OF ok(1)] read_cached_ok(2) [OF ok(2)]
      by (intro agree_bindT_same) (simp add: same_second_def same_tables_def)
  qed
qed

lemma pack_pages_same:
  assumes "cache_ok content c" "cache_ok content c'"
  shows "fst (pack_pages (read_cached content) reqs n descs data c') = fst (pack_pages (read_cached content) reqs n descs data c) \<and>
    cache_ok content (snd (pack_pages (read_cached content) reqs n descs data c)) \<and>
    cache_ok content (snd (pack_pages (read_cached content) reqs n descs data c'))"
  using assms
proof (induction reqs arbitrary: n descs data c c')
  case (Cons req reqs)
  obtain r c1 where r: "read_cached content c (pd_offset req) (unat (pd_comp_len req)) = (r, c1)" by fastforce
  obtain r' c1' where r': "read_cached content c' (pd_offset req) (unat (pd_comp_len req)) = (r', c1')" by fastforce
  have same: "r' = r"
    using read_cached_ok(1) [OF Cons(2), of "pd_offset req" "unat (pd_comp_len req)"]
      read_cached_ok(1) [OF Cons(3), of "pd_offset req" "unat (pd_comp_len req)"] r r' by simp
  have ok: "cache_ok content c1" "cache_ok content c1'"
    using read_cached_ok(2) [OF Cons(2), of "pd_offset req" "unat (pd_comp_len req)"]
      read_cached_ok(2) [OF Cons(3), of "pd_offset req" "unat (pd_comp_len req)"] r r' by simp_all
  from Cons.IH [OF ok] r r' ok show ?case unfolding same by (auto split: sum.split)
qed simp

lemma exec_chunk_payload_same:
  assumes "cache_ok content c" "cache_ok content c'"
  shows "fst (exec_chunk_payload exec content c' reqs) = fst (exec_chunk_payload exec content c reqs) \<and>
    cache_ok content (snd (exec_chunk_payload exec content c reqs)) \<and>
    cache_ok content (snd (exec_chunk_payload exec content c' reqs))"
proof (cases "reqs = []")
  case True
  with assms show ?thesis by (simp add: exec_chunk_payload_def Let_def)
next
  case False
  obtain r c1 where r: "read_and_pack_pages content c reqs = (r, c1)" by fastforce
  obtain r' c1' where r': "read_and_pack_pages content c' reqs = (r', c1')" by fastforce
  have "r' = r" "cache_ok content c1" "cache_ok content c1'"
    using pack_pages_same [OF assms, of reqs 0 "[]" "replicate (total_comp_len reqs) 0"] r r'
    by (simp_all add: read_and_pack_pages_def)
  with r r' False show ?thesis by (cases r) (auto simp: exec_chunk_payload_def Let_def)
qed

lemma run_requests_agree:
  assumes "same_tables content tb tb'"
  shows "agree (same_second content) (run_requests nv content wc chunk_id index_bytes has_filters tb)
    (run_requests nv content wc chunk_id index_bytes has_filters tb')"
proof -
  have same: "tb_rts tb' = tb_rts tb" "tb_plans tb' = tb_plans tb" and
    ok: "cache_ok content (tb_cache tb)" "cache_ok content (tb_cache tb')"
    using assms by (simp_all add: same_tables_def)
  obtain r rts where r: "required_pages (nv_decompress nv) (tb_plans tb) (wc_runtime wc) (wc_plan wc) (wc_header wc)
      chunk_id index_bytes has_filters (tb_rts tb) = Some (r, rts)"
    by (rule that) (rule required_pages_ok [OF prod.collapse [symmetric]])
  show ?thesis
    unfolding run_requests_def same r option.case prod.case
  proof (rule agree_bindT_same)
    fix req show "agree (same_second content)
       (case req of Skip \<Rightarrow> Some (Ok (None, tb\<lparr> tb_rts := rts \<rparr>))
          | Requests reqs \<Rightarrow>
              let (res, cache) = exec_chunk_payload (plan_exec_chunk (nv_decompress nv) (nv_xxh nv)
                    (nv_seeded nv) (nv_decode_ids nv) rts (tb_plans tb) (wc_runtime wc) (wc_plan wc) chunk_id)
                    content (tb_cache tb) reqs
              in bindT (Some res) (\<lambda>(rts, plans).
                   Some (Ok (Some reqs, \<lparr> tb_rts = rts, tb_plans = plans, tb_cache = cache \<rparr>))))
       (case req of Skip \<Rightarrow> Some (Ok (None, tb'\<lparr> tb_rts := rts \<rparr>))
          | Requests reqs \<Rightarrow>
              let (res, cache) = exec_chunk_payload (plan_exec_chunk (nv_decompress nv) (nv_xxh nv)
                    (nv_seeded nv) (nv_decode_ids nv) rts (tb_plans tb) (wc_runtime wc) (wc_plan wc) chunk_id)
                    content (tb_cache tb') reqs
              in bindT (Some res) (\<lambda>(rts, plans).
                   Some (Ok (Some reqs, \<lparr> tb_rts = rts, tb_plans = plans, tb_cache = cache \<rparr>))))"
    proof (cases req)
      case Skip
      with assms show ?thesis by (simp add: same_second_def same_tables_def)
    next
      case (Requests reqs)
      note p = exec_chunk_payload_same [OF ok, of "plan_exec_chunk (nv_decompress nv) (nv_xxh nv)
                    (nv_seeded nv) (nv_decode_ids nv) rts (tb_plans tb) (wc_runtime wc) (wc_plan wc) chunk_id" reqs]
      show ?thesis
        unfolding Requests required_pages_result.case Let_def split_beta p [THEN conjunct1]
        by (rule agree_bindT_same) (simp add: same_second_def same_tables_def p)
    qed
  qed
qed

section \<open>Chunks\<close>

lemma same_tablesD: "same_tables content tb tb' \<Longrightarrow> tb_rts tb' = tb_rts tb" "same_tables content tb tb' \<Longrightarrow> tb_plans tb' = tb_plans tb"
  by (simp_all add: same_tables_def)

lemma plan_calls_agree:
  "same_tables content tb tb' \<Longrightarrow> agree (same_tables content)
     (Some (bindR (plan_call f tb) (plan_call g))) (Some (bindR (plan_call f tb') (plan_call g)))"
  using plan_call_agree [of content tb tb' f] plan_call_agree [of content _ _ g]
  by (cases "plan_call f tb"; cases "plan_call f tb'") (simp_all add: agree_def)

lemma optional_agree:
  "same_tables content tb tb' \<Longrightarrow> agree (same_tables content) (Some (r tb)) (Some (r tb')) \<Longrightarrow>
    agree (same_tables content) (Some (if b then r tb else Ok tb)) (Some (if b then r tb' else Ok tb'))"
  by simp

text \<open>The end of a chunk, for the pages that were executed.\<close>

lemma gather_agree:
  assumes "same_tables content tb tb'"
    and "\<And>tb tb'. same_tables content tb tb' \<Longrightarrow> agree (same_tables content) (Some (w tb)) (Some (w tb'))"
  shows "agree (same_second content)
     (bindT (gather_partial nv wc chunk_id mode n reqs (tb_plans tb)) (\<lambda>partial. bindT (Some (w tb)) (\<lambda>tb. Some (Ok (partial, tb)))))
     (bindT (gather_partial nv wc chunk_id mode n reqs (tb_plans tb')) (\<lambda>partial. bindT (Some (w tb')) (\<lambda>tb. Some (Ok (partial, tb)))))"
  unfolding same_tablesD(2) [OF assms(1)]
  by (rule agree_bindT_same, rule agree_bindT [OF assms(2) [OF assms(1)]]) (simp add: same_second_def)

lemma ran_agree:
  assumes "same_tables content tb tb'"
    and "\<And>tb tb'. same_tables content tb tb' \<Longrightarrow> agree (same_tables content) (Some (w tb)) (Some (w tb'))"
  shows "agree (same_second content)
     (case res of
        None \<Rightarrow> Some (Ok (partial_empty chunk_id, tb))
      | Some reqs \<Rightarrow>
          bindT (Some (if n = 0 then plan_call f tb else Ok tb)) (\<lambda>tb.
          bindT (gather_partial nv wc chunk_id mode n reqs (tb_plans tb)) (\<lambda>partial.
          bindT (Some (w tb)) (\<lambda>tb. Some (Ok (partial, tb))))))
     (case res of
        None \<Rightarrow> Some (Ok (partial_empty chunk_id, tb'))
      | Some reqs \<Rightarrow>
          bindT (Some (if n = 0 then plan_call f tb' else Ok tb')) (\<lambda>tb.
          bindT (gather_partial nv wc chunk_id mode n reqs (tb_plans tb)) (\<lambda>partial.
          bindT (Some (w tb)) (\<lambda>tb. Some (Ok (partial, tb))))))"
proof (cases res)
  case None
  with assms(1) show ?thesis by (simp add: same_second_def)
next
  case (Some reqs)
  show ?thesis
    unfolding Some option.case
    by (rule agree_bindT [OF optional_agree [OF assms(1)]], rule plan_call_agree, rule assms(1), rule gather_agree)
      (use assms(2) in blast)+
qed

lemma execute_chunk_agree:
  assumes "same_tables content tb tb'"
  shows "agree (same_second content)
    (execute_chunk nv content wc chunk_id has_filters mode emit_raw tb)
    (execute_chunk nv content wc chunk_id has_filters mode emit_raw tb')"
  unfolding execute_chunk_def Let_def
  apply (rule agree_bindT [OF plan_call_agree [OF assms]])
  apply (rule agree_bindT [OF plan_call_agree], assumption)
  apply (simp only: same_tablesD(2))
  apply (rule agree_bindT_same)+
  apply (rule agree_bindT [OF optional_agree], assumption, rule plan_calls_agree, assumption)
  apply (rule agree_pair [OF read_index_block_agree], assumption)
  apply (rule agree_pair [OF run_requests_agree], assumption)
  apply (rule ran_agree, assumption)
  apply (rule optional_agree, assumption, rule plan_calls_agree, assumption)
  done

section \<open>Queries\<close>

lemma execute_plan_chunk_agree:
  assumes "same_tables content tb tb'"
  shows "agree (same_tables content)
    (execute_plan_chunk nv content wc has_filters tb chunk_id) (execute_plan_chunk nv content wc has_filters tb' chunk_id)"
  unfolding execute_plan_chunk_def same_tablesD(1) [OF assms]
proof (rule agree_bindT_same)
  fix span :: bytes
  have "agree (same_tables content)
      (bindT (read_index_block content (wc_runtime wc) chunk_id tb) (\<lambda>(index_bytes, tb).
         bindT (run_requests nv content wc chunk_id index_bytes has_filters tb) (\<lambda>(_, tb). Some (Ok tb))))
      (bindT (read_index_block content (wc_runtime wc) chunk_id tb') (\<lambda>(index_bytes, tb).
         bindT (run_requests nv content wc chunk_id index_bytes has_filters tb) (\<lambda>(_, tb). Some (Ok tb))))"
    by (rule agree_pair [OF read_index_block_agree [OF assms]], rule agree_pair [OF run_requests_agree], assumption) simp
  then show "agree (same_tables content)
      (if length span \<noteq> 12 then Some (Err (Bail ''runtime_chunk_index_span returned invalid size''))
       else bindT (read_index_block content (wc_runtime wc) chunk_id tb) (\<lambda>(index_bytes, tb).
            bindT (run_requests nv content wc chunk_id index_bytes has_filters tb) (\<lambda>(_, tb). Some (Ok tb))))
      (if length span \<noteq> 12 then Some (Err (Bail ''runtime_chunk_index_span returned invalid size''))
       else bindT (read_index_block content (wc_runtime wc) chunk_id tb') (\<lambda>(index_bytes, tb).
            bindT (run_requests nv content wc chunk_id index_bytes has_filters tb) (\<lambda>(_, tb). Some (Ok tb))))"
    by simp
qed

lemma execute_plan_agree:
  assumes "same_tables content tb tb'"
  shows "agree (same_tables content) (execute_plan nv content wc tb) (execute_plan nv content wc tb')"
  unfolding execute_plan_def same_tablesD(2) [OF assms]
  by (rule agree_bindT_same, rule agree_bindT [OF agree_foldT], rule assms, rule execute_plan_chunk_agree, assumption,
      rule plan_call_agree, assumption)

lemma read_result_same: "same_tables content tb tb' \<Longrightarrow> read_result nv tb' runtime plan = read_result nv tb runtime plan"
  by (simp only: read_result_def read_aggregates_def read_aggregate_def [abs_def] read_groups_def same_tablesD)

definition same_outcome :: "bytes \<Rightarrow> query_result \<times> u32 \<times> tables \<Rightarrow> query_result \<times> u32 \<times> tables \<Rightarrow> bool" where
  "same_outcome content x y \<longleftrightarrow> fst y = fst x \<and> fst (snd y) = fst (snd x) \<and> same_tables content (snd (snd x)) (snd (snd y))"

lemma apply_sql_agree:
  "same_tables content tb tb' \<Longrightarrow> agree (same_tables content) (apply_sql nv sql plan tb) (apply_sql nv sql plan tb')"
  by (simp only: apply_sql_def same_tablesD) (rule agree_bindT_same, rule plan_call_agree)

lemma query_sql_single_agree:
  assumes "same_tables content tb tb'"
  shows "agree (same_outcome content)
    (query_sql_single nv content runtime header sql (counter, tb))
    (query_sql_single nv content runtime header sql (counter, tb'))"
proof -
  obtain plan counter' plans where c: "create_plan counter (tb_plans tb) runtime = (plan, counter', plans)"
    by (cases "create_plan counter (tb_plans tb) runtime") auto
  show ?thesis
  proof (cases "plan = 0")
    case True
    with c same_tablesD(2) [OF assms] show ?thesis by (simp add: query_sql_single_def)
  next
    case False
    have same: "same_tables content (tb\<lparr> tb_plans := plans \<rparr>) (tb'\<lparr> tb_plans := plans \<rparr>)"
      using assms by (simp add: same_tables_def)
    show ?thesis
      unfolding query_sql_single_def prod.case same_tablesD(2) [OF assms] c Let_def if_not_P [OF False]
    proof (rule agree_bindT [OF plan_call_agree [OF same]], rule agree_bindT [OF apply_sql_agree], assumption,
        rule agree_bindT [OF execute_plan_agree], assumption)
      fix t t' assume t: "same_tables content t t'"
      show "agree (same_outcome content)
          (bindT (read_result nv t runtime plan) (\<lambda>res. Some (Ok (res, counter', t\<lparr> tb_plans := destroy_plan (tb_plans t) plan \<rparr>))))
          (bindT (read_result nv t' runtime plan) (\<lambda>res. Some (Ok (res, counter', t'\<lparr> tb_plans := destroy_plan (tb_plans t') plan \<rparr>))))"
        unfolding read_result_same [OF t]
        by (rule agree_bindT_same) (use t in \<open>simp add: same_outcome_def same_tables_def\<close>)
    qed
  qed
qed

section \<open>Scans\<close>

definition same_scan :: "bytes \<Rightarrow> scan_state \<Rightarrow> scan_state \<Rightarrow> bool" where
  "same_scan content s t \<longleftrightarrow>
     t\<lparr> ss_tables := ss_tables s \<rparr> = s \<and> same_tables content (ss_tables s) (ss_tables t)"

lemma same_scanD:
  assumes "same_scan content s t"
  shows "same_tables content (ss_tables s) (ss_tables t)" "ss_arena t = ss_arena s" "ss_budget t = ss_budget s"
    "ss_retained t = ss_retained s" "ss_window_bytes t = ss_window_bytes s" "ss_partials t = ss_partials s"
    "ss_partitioned t = ss_partitioned s"
  using assms by (cases s; cases t; simp add: same_scan_def)+

lemma scan_chunk_agree:
  assumes "same_scan content s t"
  shows "agree (same_scan content) (scan_chunk nv content wc req s c) (scan_chunk nv content wc req t c)"
  unfolding scan_chunk_def same_scanD(2-) [OF assms]
  apply (rule agree_pair [OF execute_chunk_agree [OF same_scanD(1) [OF assms]]])
  apply (rule agree_bindT_same)
  apply (simp only: split_beta Let_def)
  apply (auto simp: same_scan_def split: option.split sum.split)
  done

lemma execute_chunks_agree:
  assumes "same_tables content tb tb'"
  shows "agree (\<lambda>(ps, s) (ps', t). ps' = ps \<and> same_scan content s t)
    (execute_chunks nv content wc req cs (tb, a, b, r)) (execute_chunks nv content wc req cs (tb', a, b, r))"
  unfolding execute_chunks_def prod.case Let_def
proof (rule agree_bindT [OF agree_foldT [where R = "same_scan content"]])
  fix s t assume "same_scan content s t"
  then show "agree (\<lambda>(ps, s) (ps', t). ps' = ps \<and> same_scan content s t) (Some (Ok (scan_end s))) (Some (Ok (scan_end t)))"
    by (cases s; cases t) (simp add: same_scan_def scan_end_def Let_def)
qed (use assms in \<open>simp_all add: same_scan_def scan_chunk_agree\<close>)

lemma worker_execute_agree:
  assumes "same_tables content tb tb'"
  shows "agree (\<lambda>(ps, tb, rest) (ps', tb', rest'). ps' = ps \<and> same_tables content tb tb' \<and> rest' = rest)
    (worker_execute nv content wc req rel cs (tb, a, b, r)) (worker_execute nv content wc req rel cs (tb', a, b, r))"
  unfolding worker_execute_def prod.case
proof (rule agree_bindT [OF execute_chunks_agree [OF assms]])
  fix x y :: "chunk_partial list \<times> scan_state"
  assume "(case x of (ps, s) \<Rightarrow> \<lambda>(ps', t). ps' = ps \<and> same_scan content s t) y"
  then obtain ps s t where xy: "x = (ps, s)" "y = (ps, t)" and st: "same_scan content s t"
    by (cases x; cases y) simp
  show "agree (\<lambda>(ps, tb, rest) (ps', tb', rest'). ps' = ps \<and> same_tables content tb tb' \<and> rest' = rest)
     (case x of (partials, st) \<Rightarrow> let (arena, retained) = end_query (rs_policy rel) (rs_keep_up_to_bytes rel)
          (max (rs_idle_decay_queries rel) 1) (ss_arena st, ss_retained st)
        in Some (Ok (partials, ss_tables st, arena, ss_budget st, retained)))
     (case y of (partials, st) \<Rightarrow> let (arena, retained) = end_query (rs_policy rel) (rs_keep_up_to_bytes rel)
          (max (rs_idle_decay_queries rel) 1) (ss_arena st, ss_retained st)
        in Some (Ok (partials, ss_tables st, arena, ss_budget st, retained)))"
    using same_scanD(1) [OF st] by (simp add: xy same_scanD(2-) [OF st] split_beta)
qed

text \<open>All workers, one after the other.\<close>

lemma pool_execute_agree:
  assumes "same_tables content tb tb'"
  shows "agree (\<lambda>(ps, as, tb, rest) (ps', as', tb', rest'). ps' = ps \<and> as' = as \<and> same_tables content tb tb' \<and> rest' = rest)
    (pool_execute nv content req rel workers tb b r) (pool_execute nv content req rel workers tb' b r)"
  using assms
proof (induction nv content req rel workers tb b r arbitrary: tb' rule: pool_execute.induct)
  case (1 nv content req rel tb b r)
  then show ?case by simp
next
  case (2 nv content req rel wc arena cs workers tb b r)
  show ?case
    unfolding pool_execute.simps
    apply (rule agree_bindT [OF worker_execute_agree [OF 2(2)]])
    apply (clarsimp simp: split_beta)
    subgoal for ps tb1 a b r tb2
      using 2(1) by (intro agree_bindT [OF 2(1)]) auto
    done
qed

end
