(* ===== verification/Pool_Facts.thy ===== *)
theory Pool_Facts
  imports Worker_Pool "HOL-Library.Multiset"
begin

text \<open>
  The chunks that the workers of a scan fetch from the shared counter: under every interleaving
  each chunk goes to exactly one worker, and all workers stop.
\<close>

section \<open>Counting\<close>

definition stopped_count :: "scanner list \<Rightarrow> nat" where
  "stopped_count ws = length (filter sc_stopped ws)"

definition taken :: "scanner list \<Rightarrow> u32 multiset" where
  "taken ws = mset (concat (map sc_taken ws))"

lemma stopped_count_le: "stopped_count ws \<le> length ws"
  by (simp add: stopped_count_def)

lemma stopped_count_update:
  assumes "i < length ws" "\<not> sc_stopped (ws ! i)"
  shows "stopped_count (ws[i := w]) = stopped_count ws + (if sc_stopped w then 1 else 0)"
    "stopped_count ws < length ws"
proof -
  note ws = id_take_nth_drop [OF assms(1)]
  have "filter sc_stopped ws = filter sc_stopped (take i ws) @ filter sc_stopped (drop (Suc i) ws)"
    using assms(2) by (subst ws) simp
  moreover have "filter sc_stopped (ws[i := w]) =
      filter sc_stopped (take i ws) @ (if sc_stopped w then [w] else []) @ filter sc_stopped (drop (Suc i) ws)"
    using assms(1) by (simp add: upd_conv_take_nth_drop)
  ultimately show "stopped_count (ws[i := w]) = stopped_count ws + (if sc_stopped w then 1 else 0)"
    by (simp add: stopped_count_def)
  show "stopped_count ws < length ws"
    using assms length_filter_less [of "ws ! i" ws sc_stopped] by (simp add: stopped_count_def)
qed

lemma taken_update:
  assumes "i < length ws" "sc_taken w = sc_taken (ws ! i) @ cs"
  shows "taken (ws[i := w]) = taken ws + mset cs"
proof -
  note ws = id_take_nth_drop [OF assms(1)]
  have "taken ws = mset (concat (map sc_taken (take i ws))) + mset (sc_taken (ws ! i))
      + mset (concat (map sc_taken (drop (Suc i) ws)))"
    unfolding taken_def by (subst ws) simp
  then show ?thesis using assms by (simp add: taken_def upd_conv_take_nth_drop)
qed

section \<open>The invariant\<close>

definition fetch_inv :: "u32 \<Rightarrow> u32 \<Rightarrow> nat \<Rightarrow> u32 \<times> scanner list \<Rightarrow> bool" where
  "fetch_inv batch nchunks workers st \<longleftrightarrow>
     (case st of (next_chunk, ws) \<Rightarrow>
        length ws = workers \<and>
        unat next_chunk < unat nchunks + unat batch * (stopped_count ws + 1) \<and>
        (0 < stopped_count ws \<longrightarrow> nchunks \<le> next_chunk) \<and>
        taken ws = mset (map of_nat [0..<min (unat next_chunk) (unat nchunks)]))"

text \<open>The counter does not wrap.\<close>

definition counter_fits :: "u32 \<Rightarrow> u32 \<Rightarrow> nat \<Rightarrow> bool" where
  "counter_fits batch nchunks workers \<longleftrightarrow>
     0 < batch \<and> unat nchunks + unat batch * (workers + 1) < 2 ^ 32"

lemma batch_chunks_upt:
  assumes "unat start + unat batch < 2 ^ 32"
  shows "batch_chunks batch nchunks start = map of_nat [unat start..<min (unat start + unat batch) (unat nchunks)]"
proof -
  have "min (unat start + unat batch) (2 ^ 32 - 1) = unat start + unat batch" using assms by simp
  then show ?thesis by (simp only: batch_chunks_def)
qed

lemma unat_add_fits: "unat (a :: u32) + unat b < 2 ^ 32 \<Longrightarrow> unat (a + b) = unat a + unat b"
  by (rule unat_add_lem [THEN iffD1]) simp

lemma fetch_step_inv:
  assumes step: "fetch_step batch nchunks st st'" and inv: "fetch_inv batch nchunks workers st"
    and fits: "counter_fits batch nchunks workers"
  shows "fetch_inv batch nchunks workers st'"
  using step
proof cases
  case (takes i ws next_chunk)
  have nz: "stopped_count ws = 0" using inv takes(1,5) by (auto simp: fetch_inv_def)
  have lt: "unat next_chunk < unat nchunks" using takes(5) by (simp add: word_less_nat_alt)
  then have fit: "unat next_chunk + unat batch < 2 ^ 32" using fits by (simp add: counter_fits_def)
  let ?w = "(ws ! i)\<lparr> sc_taken := sc_taken (ws ! i) @ batch_chunks batch nchunks next_chunk \<rparr>"
  have "[0..<min (unat next_chunk + unat batch) (unat nchunks)] =
      [0..<unat next_chunk] @ [unat next_chunk..<min (unat next_chunk + unat batch) (unat nchunks)]"
    using lt upt_add_eq_append [of 0 "unat next_chunk" "min (unat batch) (unat nchunks - unat next_chunk)"]
    by (simp add: min_def split: if_splits)
  then have "taken (ws[i := ?w]) = mset (map of_nat [0..<min (unat (next_chunk + batch)) (unat nchunks)])"
    using taken_update [OF takes(3), of ?w] inv takes(1) lt
    by (simp add: fetch_inv_def batch_chunks_upt [OF fit] unat_add_fits [OF fit])
  then show ?thesis
    using inv takes(1,2) stopped_count_update(1) [OF takes(3,4), of ?w] takes(4) nz lt
    by (simp add: fetch_inv_def unat_add_fits [OF fit])
next
  case (stops i ws next_chunk)
  let ?w = "(ws ! i)\<lparr> sc_stopped := True \<rparr>"
  have ge: "unat nchunks \<le> unat next_chunk" using stops(5) by (simp add: word_le_nat_alt)
  have up: "stopped_count (ws[i := ?w]) = stopped_count ws + 1" "stopped_count ws < length ws"
    using stopped_count_update(1) [OF stops(3,4), of ?w] stopped_count_update(2) [OF stops(3,4)] by simp_all
  have w: "length ws = workers" and n: "unat next_chunk < unat nchunks + unat batch * (stopped_count ws + 1)"
    using inv stops(1) by (simp_all add: fetch_inv_def)
  have "unat batch * (stopped_count ws + 1) \<le> unat batch * workers" using up(2) w by (intro mult_le_mono2) simp
  then have fit: "unat next_chunk + unat batch < 2 ^ 32" using n fits by (simp add: counter_fits_def)
  have "taken (ws[i := ?w]) = taken ws" using taken_update [OF stops(3), of ?w "[]"] by simp
  then show ?thesis
    using inv stops(1,2) up ge n by (simp add: fetch_inv_def unat_add_fits [OF fit] word_le_nat_alt)
qed

section \<open>Runs\<close>

definition fetch_start :: "nat \<Rightarrow> u32 \<times> scanner list" where
  "fetch_start workers = (0, replicate workers \<lparr> sc_taken = [], sc_stopped = False \<rparr>)"

lemma fetch_start_inv: "counter_fits batch nchunks workers \<Longrightarrow> fetch_inv batch nchunks workers (fetch_start workers)"
  by (simp add: fetch_inv_def fetch_start_def counter_fits_def stopped_count_def taken_def word_less_nat_alt)

lemma fetch_run_inv:
  assumes "(fetch_step batch nchunks)\<^sup>*\<^sup>* st st'" "fetch_inv batch nchunks workers st" "counter_fits batch nchunks workers"
  shows "fetch_inv batch nchunks workers st'"
  using assms by (induction rule: rtranclp_induct) (auto intro: fetch_step_inv)

lemma fetch_progress:
  assumes "\<not> list_all sc_stopped ws"
  shows "\<exists>st'. fetch_step batch nchunks (next_chunk, ws) st'"
proof -
  from assms obtain i where "i < length ws" "\<not> sc_stopped (ws ! i)" by (auto simp: list_all_length)
  then show ?thesis
    using fetch_step.takes [of i ws next_chunk nchunks batch] fetch_step.stops [of i ws nchunks next_chunk batch]
    by (cases "next_chunk < nchunks") (auto simp: not_less)
qed

text \<open>Every step either takes chunks or stops a worker.\<close>

definition fetch_measure :: "u32 \<Rightarrow> u32 \<times> scanner list \<Rightarrow> nat" where
  "fetch_measure nchunks st =
     (case st of (next_chunk, ws) \<Rightarrow> (unat nchunks - unat next_chunk) + (length ws - stopped_count ws))"

lemma fetch_measure_less:
  assumes step: "fetch_step batch nchunks st st'" and inv: "fetch_inv batch nchunks workers st"
    and fits: "counter_fits batch nchunks workers"
  shows "fetch_measure nchunks st' < fetch_measure nchunks st"
  using step
proof cases
  case (takes i ws next_chunk)
  have lt: "unat next_chunk < unat nchunks" using takes(5) by (simp add: word_less_nat_alt)
  then have fit: "unat next_chunk + unat batch < 2 ^ 32" using fits by (simp add: counter_fits_def)
  have "0 < unat batch" using fits by (simp add: counter_fits_def word_less_nat_alt)
  then show ?thesis
    using takes(1,2) stopped_count_update(1) [OF takes(3,4)] takes(4) lt
    by (simp add: fetch_measure_def unat_add_fits [OF fit])
next
  case (stops i ws next_chunk)
  have "nchunks \<le> next_chunk + batch"
  proof -
    have s: "stopped_count ws < length ws" by (rule stopped_count_update(2) [OF stops(3,4)])
    have w: "length ws = workers" and n: "unat next_chunk < unat nchunks + unat batch * (stopped_count ws + 1)"
      using inv stops(1) by (simp_all add: fetch_inv_def)
    have "unat batch * (stopped_count ws + 1) \<le> unat batch * workers" using s w by (intro mult_le_mono2) simp
    then have "unat next_chunk + unat batch < 2 ^ 32" using n fits by (simp add: counter_fits_def)
    then show ?thesis using stops(5) by (simp add: word_le_nat_alt unat_add_fits)
  qed
  then show ?thesis
    using stops(1,2,5) stopped_count_update(1) [OF stops(3,4)] stopped_count_update(2) [OF stops(3,4)]
    by (simp add: fetch_measure_def word_le_nat_alt)
qed

lemma fetch_no_infinite_run:
  assumes fits: "counter_fits batch nchunks workers" and start: "fetch_inv batch nchunks workers (f 0)"
    and steps: "\<And>i :: nat. fetch_step batch nchunks (f i) (f (Suc i))"
  shows False
proof -
  have inv: "fetch_inv batch nchunks workers (f i)" for i
    by (induction i) (use start fetch_step_inv [OF steps _ fits] in auto)
  have "fetch_measure nchunks (f i) + i \<le> fetch_measure nchunks (f 0)" for i
  proof (induction i)
    case (Suc i)
    then show ?case using fetch_measure_less [OF steps [of i] inv fits] by simp
  qed simp
  from this [of "Suc (fetch_measure nchunks (f 0))"] show False by simp
qed

lemma all_stopped_taken:
  assumes "fetch_inv batch nchunks workers (next_chunk, ws)" "list_all sc_stopped ws" "0 < workers"
  shows "taken ws = mset (map of_nat [0..<unat nchunks])"
proof -
  have "stopped_count ws = workers" using assms(1,2) by (simp add: stopped_count_def list_all_iff fetch_inv_def)
  then have "unat nchunks \<le> unat next_chunk" using assms(1,3) by (simp add: fetch_inv_def word_le_nat_alt)
  then show ?thesis using assms(1) by (simp add: fetch_inv_def min_absorb2)
qed

lemma taken_distinct:
  assumes "fetch_inv batch nchunks workers (next_chunk, ws)"
  shows "distinct (concat (map sc_taken ws))" "\<And>c. c \<in> set (concat (map sc_taken ws)) \<Longrightarrow> c < nchunks"
proof -
  let ?n = "min (unat next_chunk) (unat nchunks)"
  have m: "mset (concat (map sc_taken ws)) = mset (map of_nat [0..<?n])"
    using assms by (simp add: fetch_inv_def taken_def)
  have u: "unat (of_nat i :: u32) = i" if "i < ?n" for i
  proof -
    have "i < 2 ^ 32" using that unsigned_less [of nchunks, where 'a = nat] by simp
    then show ?thesis by (simp add: unat_of_nat take_bit_nat_eq_self)
  qed
  have "inj_on (of_nat :: nat \<Rightarrow> u32) {0..<?n}"
    by (rule inj_on_inverseI [where g = unat]) (simp add: u del: min_less_iff_conj)
  then have "distinct (map (of_nat :: nat \<Rightarrow> u32) [0..<?n])" by (simp add: distinct_map)
  then show "distinct (concat (map sc_taken ws))" using m mset_eq_imp_distinct_iff by blast
  fix c assume "c \<in> set (concat (map sc_taken ws))"
  then have "c \<in> set (map of_nat [0..<?n])" using m mset_eq_setD by blast
  then obtain i where "c = of_nat i" "i < ?n" by auto
  then show "c < nchunks" using u [of i] by (simp add: word_less_nat_alt)
qed


end
