(* ===== verification/Native_Properties.thy ===== *)
theory Native_Properties
  imports Cache_Facts Pool_Facts Native_Ends
begin

text \<open>
  Properties of the native runtime: queries and scans return, the shared cache does not show in
  their results, and the workers of a scan divide the chunks among them.
\<close>

text \<open>C15: A query on one thread, the choices of the engine for groups, and a query on any new pool of
  workers up to the merging of groups always return: the calls that are repeated with a larger
  buffer, the requests of pages and the growth of the arenas end on every file, runtime table,
  plan, set of filters and division of the chunks.\<close>

theorem native_calls_return:
  "query_sql_single nv content runtime header sql st \<noteq> None \<and>
   topk_count_agg plans plan order_by_count limit agg_count \<noteq> None \<and>
   resolve_effective_group_engine env requested tables plan runtime mode \<noteq> None \<and>
   (case pool_new workers header init cfg st0 of
      Inl e \<Rightarrow> True
    | Inr (pool, counters, tb) \<Rightarrow> pool_query nv content sql cfg req query_id chunks pool tb \<noteq> None)"
proof (intro conjI)
  show "query_sql_single nv content runtime header sql st \<noteq> None"
    by (rule query_sql_single_returns [unfolded returns_def])
  show "topk_count_agg plans plan order_by_count limit agg_count \<noteq> None"
    by (rule topk_count_agg_returns [unfolded returns_def])
  show "resolve_effective_group_engine env requested tables plan runtime mode \<noteq> None"
    by (rule resolve_engine_returns [unfolded returns_def])
  show "case pool_new workers header init cfg st0 of
      Inl e \<Rightarrow> True
    | Inr (pool, counters, tb) \<Rightarrow> pool_query nv content sql cfg req query_id chunks pool tb \<noteq> None"
  proof (cases "pool_new workers header init cfg st0")
    case (Inr r)
    obtain pool st1 where r: "r = (pool, st1)" by (cases r)
    obtain counters tb where st1: "st1 = (counters, tb)" by (cases st1)
    show ?thesis
      using pool_query_returns [OF pool_new_ok [OF Inr [unfolded r]], unfolded returns_def]
      by (simp add: Inr r st1 del: not_None_eq)
  qed simp
qed

text \<open>C17: Whatever bytes of the file earlier reads left in the cache, a query on one thread has the result
  (rows, aggregates, groups, or the error) and a scan of any workers has the partial results (or
  the error) of a run on a new cache; and where they return a result, each of the two leaves a
  cache that holds bytes of the file.\<close>

theorem cache_transparent:
  assumes "cache_ok content cache"
  shows "map_option (map_sum id fst) (query_sql_single nv content runtime header sql
        (counter, tb\<lparr> tb_cache := cache \<rparr>)) =
      map_option (map_sum id fst) (query_sql_single nv content runtime header sql
        (counter, tb\<lparr> tb_cache := read_cache_new mib \<rparr>)) \<and>
    map_option (map_sum id fst) (pool_execute nv content req rel workers (tb\<lparr> tb_cache := cache \<rparr>) b r) =
      map_option (map_sum id fst) (pool_execute nv content req rel workers (tb\<lparr> tb_cache := read_cache_new mib \<rparr>) b r) \<and>
    (\<forall>res n tb'. query_sql_single nv content runtime header sql (counter, tb\<lparr> tb_cache := cache \<rparr>) =
       Some (Inr (res, n, tb')) \<longrightarrow> cache_ok content (tb_cache tb')) \<and>
    (\<forall>partials arenas tb' b' r'. pool_execute nv content req rel workers (tb\<lparr> tb_cache := cache \<rparr>) b r =
       Some (Inr (partials, arenas, tb', b', r')) \<longrightarrow> cache_ok content (tb_cache tb'))"
proof -
  have same: "same_tables content (tb\<lparr> tb_cache := read_cache_new mib \<rparr>) (tb\<lparr> tb_cache := cache \<rparr>)"
    using assms read_cache_new_ok by (simp add: same_tables_def)
  have erase: "map_option (map_sum id fst) y = map_option (map_sum id fst) x"
    if "agree Q x y" "\<And>a b. Q a b \<Longrightarrow> fst b = fst a" for Q and x y :: "('a \<times> 'b) result option"
    using that by (cases x; cases y; cases "the x"; cases "the y") (simp_all add: agree_def)
  note q = query_sql_single_agree [OF same, of nv runtime header sql counter]
  show ?thesis
  proof (intro conjI allI impI)
    show "map_option (map_sum id fst) (query_sql_single nv content runtime header sql
        (counter, tb\<lparr> tb_cache := cache \<rparr>)) =
      map_option (map_sum id fst) (query_sql_single nv content runtime header sql
        (counter, tb\<lparr> tb_cache := read_cache_new mib \<rparr>))"
      by (rule erase [OF q]) (simp add: same_outcome_def)
    show "map_option (map_sum id fst) (pool_execute nv content req rel workers (tb\<lparr> tb_cache := cache \<rparr>) b r) =
      map_option (map_sum id fst) (pool_execute nv content req rel workers (tb\<lparr> tb_cache := read_cache_new mib \<rparr>) b r)"
      by (rule erase [OF pool_execute_agree [OF same]]) auto
    fix res n tb'
    assume "query_sql_single nv content runtime header sql (counter, tb\<lparr> tb_cache := cache \<rparr>) =
       Some (Inr (res, n, tb'))"
    with q show "cache_ok content (tb_cache tb')"
      by (cases "query_sql_single nv content runtime header sql (counter, tb\<lparr> tb_cache := read_cache_new mib \<rparr>)";
          cases "the (query_sql_single nv content runtime header sql (counter, tb\<lparr> tb_cache := read_cache_new mib \<rparr>))")
        (simp_all add: agree_def same_outcome_def same_tables_def)
  next
    fix partials arenas tb' b' r'
    assume "pool_execute nv content req rel workers (tb\<lparr> tb_cache := cache \<rparr>) b r =
       Some (Inr (partials, arenas, tb', b', r'))"
    with pool_execute_agree [OF same, of nv req rel workers b r] show "cache_ok content (tb_cache tb')"
      by (cases "pool_execute nv content req rel workers (tb\<lparr> tb_cache := read_cache_new mib \<rparr>) b r";
          cases "the (pool_execute nv content req rel workers (tb\<lparr> tb_cache := read_cache_new mib \<rparr>) b r)")
        (auto simp: agree_def same_tables_def)
  qed
qed

lemma cache_transparent_witness:
  "\<exists>cache. ch_map cache (cache_key 1 2) = Some [8, 9] \<and>
    (\<forall>nv runtime header sql counter tb mib.
      map_option (map_sum id fst) (query_sql_single nv [7, 8, 9] runtime header sql
        (counter, tb\<lparr> tb_cache := cache \<rparr>)) =
      map_option (map_sum id fst) (query_sql_single nv [7, 8, 9] runtime header sql
        (counter, tb\<lparr> tb_cache := read_cache_new mib \<rparr>)))"
proof -
  let ?c = "snd (read_cached [7, 8, 9] (read_cache_new (Some 1)) 1 2)"
  have ok: "cache_ok [7, 8, 9] ?c" by (rule read_cached_ok(2)) (rule read_cache_new_ok)
  have "ch_map ?c (cache_key 1 2) = Some [8, 9]"
    by (simp add: read_cached_def cache_lookup_def note_range_def read_cache_new_def read_exact_at_file_def
        capacity_overflow_def         slice_def cache_store_def Let_def split_beta)
  with cache_transparent [OF ok] show ?thesis by blast
qed

text \<open>C38: Workers that fetch batches of chunks from the shared counter, under every interleaving, when a
  batch has at least one chunk and the counter does not wrap (the number of chunks plus one batch per
  worker and one more is below 2^32): no chunk is taken twice and none past the last, some worker can
  go on until all have stopped, no run is infinite, and when all have stopped every chunk has been
  taken by exactly one worker.\<close>

theorem chunks_divided:
  assumes pos: "0 < batch" and bound: "unat nchunks + unat batch * (workers + 1) < 2 ^ 32"
    and run: "(fetch_step batch nchunks)\<^sup>*\<^sup>* (fetch_start workers) (next_chunk, ws)"
  shows "distinct (concat (map sc_taken ws)) \<and> (\<forall>c \<in> set (concat (map sc_taken ws)). c < nchunks) \<and>
    ((\<exists>st'. fetch_step batch nchunks (next_chunk, ws) st') \<or> list_all sc_stopped ws) \<and>
    (list_all sc_stopped ws \<and> 0 < workers \<longrightarrow>
       mset (concat (map sc_taken ws)) = mset (map of_nat [0..<unat nchunks])) \<and>
    (\<nexists>f. f 0 = (next_chunk, ws) \<and> (\<forall>i :: nat. fetch_step batch nchunks (f i) (f (Suc i))))"
proof -
  have fits: "counter_fits batch nchunks workers" using pos bound by (simp add: counter_fits_def)
  have inv: "fetch_inv batch nchunks workers (next_chunk, ws)"
    by (rule fetch_run_inv [OF run fetch_start_inv [OF fits] fits])
  have "\<nexists>f. f 0 = (next_chunk, ws) \<and> (\<forall>i :: nat. fetch_step batch nchunks (f i) (f (Suc i)))"
    using fetch_no_infinite_run [OF fits] inv by metis
  then show ?thesis
    using taken_distinct [OF inv] all_stopped_taken [OF inv] fetch_progress [of ws batch nchunks next_chunk]
    by (auto simp: taken_def)
qed

lemma chunks_divided_witness:
  "(fetch_step 2 3)\<^sup>*\<^sup>* (fetch_start 1) (6, [\<lparr> sc_taken = [0, 1, 2], sc_stopped = True \<rparr>]) \<and>
   mset (concat (map sc_taken [\<lparr> sc_taken = [0, 1, 2], sc_stopped = True \<rparr>])) = mset (map of_nat [0..<unat (3 :: u32)])"
proof -
  have start: "fetch_start 1 = (0, [\<lparr> sc_taken = [], sc_stopped = False \<rparr>])" by (simp add: fetch_start_def)
  have "fetch_step 2 3 (0, [\<lparr> sc_taken = [], sc_stopped = False \<rparr>]) (2, [\<lparr> sc_taken = [0, 1], sc_stopped = False \<rparr>])"
    using fetch_step.takes [of 0 "[\<lparr> sc_taken = [], sc_stopped = False \<rparr>]" 0 3 2]
    by (simp add: batch_chunks_def upt_rec)
  moreover have "fetch_step 2 3 (2, [\<lparr> sc_taken = [0, 1], sc_stopped = False \<rparr>]) (4, [\<lparr> sc_taken = [0, 1, 2], sc_stopped = False \<rparr>])"
    using fetch_step.takes [of 0 "[\<lparr> sc_taken = [0, 1], sc_stopped = False \<rparr>]" 2 3 2]
    by (simp add: batch_chunks_def upt_rec)
  moreover have "fetch_step 2 3 (4, [\<lparr> sc_taken = [0, 1, 2], sc_stopped = False \<rparr>]) (6, [\<lparr> sc_taken = [0, 1, 2], sc_stopped = True \<rparr>])"
    using fetch_step.stops [of 0 "[\<lparr> sc_taken = [0, 1, 2], sc_stopped = False \<rparr>]" 3 4 2] by simp
  ultimately have run: "(fetch_step 2 3)\<^sup>*\<^sup>* (fetch_start 1) (6, [\<lparr> sc_taken = [0, 1, 2], sc_stopped = True \<rparr>])"
    unfolding start by (meson converse_rtranclp_into_rtranclp rtranclp.rtrancl_refl)
  from chunks_divided [OF _ _ run] run show ?thesis by simp
qed

end
