(* ===== verification/Spec2Isabelle.thy ===== *)
theory Spec2Isabelle
  imports Samples Mask_Rows Numeric_Facts String_Facts Page_Facts Like_Facts Filter_Prune
    Query_Properties View_Patch_Facts Merge_Properties Page_Properties Memory_Properties Sql_Properties
    Native_Properties
begin

text \<open>
  A model of wcol, a columnar file format with an encoder, a decoder that evaluates queries on
  the pages of a file, and a native runtime around the decoder. The theories follow the data
  from the writer to the reader.

  The format. \<open>Wcol_Format\<close> has the constants and records (\<^verbatim>\<open>wcol-format\<close>,
  \<^verbatim>\<open>wcol-decoder/src/types.rs\<close>), \<open>Wcol_Parse\<close> the parsers of \<^verbatim>\<open>parse.rs\<close>,
  \<open>Wcol_Write\<close> the writer \<^verbatim>\<open>wcol-encoder/src/format.rs\<close>. \<open>Wcol_Roundtrip\<close> proves that
  each parser inverts its builder, \<open>Wcol_File\<close> that the offsets in header, table of contents
  and index entries are the positions of the bytes. \<open>Wcol_Runtime\<close> has the runtime table of
  \<^verbatim>\<open>ffi/runtime.rs\<close> and the opening of a file in \<^verbatim>\<open>native/\<close>, \<open>Runtime_Facts\<close> what an
  opened file gives its readers.

  Masks. \<open>Masks\<close> has the row masks of \<^verbatim>\<open>query/mask.rs\<close>, \<^verbatim>\<open>query/scan.rs\<close> and
  \<^verbatim>\<open>runtime.rs\<close>, with their SIMD versions; \<open>Mask_Facts\<close> and \<open>Mask_Rows\<close> describe them by
  their sets of rows.

  Pages. \<open>Numeric_Page\<close> has the numeric pages of both sides (\<^verbatim>\<open>encode/page.rs\<close>,
  \<^verbatim>\<open>decode/numeric.rs\<close>, \<^verbatim>\<open>decode/primitive.rs\<close>), \<open>String_Encode\<close> and \<open>String_Decode\<close> the
  string pages (\<^verbatim>\<open>encode/page.rs\<close>, \<^verbatim>\<open>decode/string/\<close>), \<open>Column_Page\<close> the statistics,
  the assembly and the decompression of pages. \<open>Bit_Packing\<close>, \<open>Numeric_Facts\<close>,
  \<open>String_Block\<close>, \<open>String_Facts\<close> and \<open>Page_Facts\<close> have their lemmas.

  Filters. \<open>Like_Mask\<close> has the substring search and the LIKE masks of raw string pages
  (\<^verbatim>\<open>decode/simd.rs\<close>, \<^verbatim>\<open>decode/string/\<close>), \<open>Filter_Mask\<close> the masks of comparison, IN and
  LIKE filters, scalar and SIMD, \<open>Filter_Prune\<close> the pruning by page statistics
  (\<^verbatim>\<open>query/filter.rs\<close>); \<open>Like_Facts\<close>, \<open>Filter_Facts\<close> and \<open>F64_Facts\<close> have their lemmas.

  Queries. \<open>Plan_State\<close> has the plan of a query and the resolution of its string literals
  (\<^verbatim>\<open>types.rs\<close>, \<^verbatim>\<open>query/plan.rs\<close>, \<^verbatim>\<open>query/filter_literals.rs\<close>), \<open>Agg_State\<close> and \<open>Hll_State\<close>
  the states of aggregates (\<^verbatim>\<open>query/agg.rs\<close>, \<^verbatim>\<open>query/hll.rs\<close>), \<open>Group_Key\<close> and
  \<open>Group_Hist\<close> the keys, histograms and bytes of groups (\<^verbatim>\<open>query/group.rs\<close>,
  \<^verbatim>\<open>query/group_dict_hist.rs\<close>, \<^verbatim>\<open>ffi/group_output.rs\<close>), \<open>Row_Select\<close> the rows
  of ORDER BY and LIMIT (\<^verbatim>\<open>ffi/row_order.rs\<close>, \<^verbatim>\<open>ffi/row_candidates.rs\<close>,
  \<^verbatim>\<open>ffi/row_exec.rs\<close>, \<^verbatim>\<open>ffi/null_policy.rs\<close>). \<open>Plan_Table\<close> has the calls on plans
  (\<^verbatim>\<open>ffi/plan/\<close>) with the merging of workers' results, and \<open>Chunk_Exec\<close> the
  execution of a plan on a chunk (\<^verbatim>\<open>ffi/exec.rs\<close>), which calls all of these.
  \<open>Agg_State\<close> states what partial results must satisfy to be merged, as a locale that
  aggregates, sketches and histograms interpret; \<open>Top_K\<close> and \<open>Row_Order\<close> the bounded heaps
  over a linear order. The theories ending in \<open>Facts\<close> have the lemmas, \<open>Plan_Invariant\<close> the
  invariant of the plan table over runs of calls, and \<open>Query_Properties\<close> the properties of
  query execution.

  Groups. Workers hand over their groups as records in bytes. \<open>Ordered_Map\<close> is the ordered map,
  \<open>Group_Reduce\<close> has the merging of records by hash map, by
  sorting and by partition (\<^verbatim>\<open>native/runtime.rs\<close>, \<^verbatim>\<open>native/pool.rs\<close>), \<open>Group_Merge\<close> the three engines that choose
  among them (v1 legacy, v2 partition and sort, v2 direct), \<open>Group_Trim\<close> the cut to the groups that
  ORDER BY a count and LIMIT can show. \<open>Keyed_Facts\<close>, \<open>Group_Reduce_Facts\<close> and
  \<open>Group_Merge_Facts\<close> lead to \<open>Merge_Properties\<close>: the engines agree on the groups.
  \<open>View_Patch\<close> and \<open>View_Patch_Facts\<close> have the patches between two results of a live view
  (\<^verbatim>\<open>engine-kernel/src/diff.rs\<close>, \<^verbatim>\<open>patch.rs\<close>).

  Pages on request. \<open>Page_Requests\<close> has the calls that name the pages a plan needs from a chunk
  (\<^verbatim>\<open>ffi/required_pages.rs\<close>) and the caller that reads and packs them (\<^verbatim>\<open>native/exec.rs\<close>),
  \<open>Read_Cache\<close> the cache of reads (\<^verbatim>\<open>native/cache.rs\<close>), as operations and as a step relation of readers that share it,
  \<open>Page_Delivery\<close>, \<open>Chunk_Skip\<close> and \<open>Page_Request_Facts\<close> the lemmas, \<open>Page_Properties\<close> that
  the bytes of the pages reach the execution and that no chunk with a matching row is skipped.

  Memory. \<open>Mem_Budget\<close> has the budget of a query, which workers charge by compare-and-swap, and
  the arena of a worker (\<^verbatim>\<open>native/mem_budget.rs\<close>); \<open>Memory_Properties\<close> has
  the invariants and the end of every schedule.

  Native queries. \<open>Native_Config\<close> has the settings, \<open>Worker_Pool\<close> what a worker does for a chunk,
  from the index block to the copies of the results, the workers of a scan and the
  counter from which they take batches of chunks, \<open>Query_Run\<close> a query on one thread and
  \<open>Query_Parallel\<close> a query on workers (\<^verbatim>\<open>native/runtime.rs\<close>, \<^verbatim>\<open>native/pool.rs\<close>). Which chunks a
  worker took is an argument of the scan, and \<open>Pool_Facts\<close> derives from the steps on the counter
  what such a division is. \<open>Native_Ends\<close>
  shows that the calls return, \<open>Cache_Facts\<close> that the contents of the cache do not
  matter, \<open>Native_Properties\<close> has the properties.

  SQL. \<open>Sql_Parser\<close> has the lexer and the parser of \<^verbatim>\<open>wcol-sql-parser/src/lib.rs\<close>. Its recursion is
  not on the text, so it has fuel: \<open>parse_fuel\<close> is five per byte and ten more, which
  \<open>Sql_Parser_Facts\<close> proves to be enough for every text. \<open>Sql_Print\<close> has
  a printer of queries, which is not in the code, \<open>Sql_Roundtrip\<close> that the parser
  inverts it. \<open>Sql_Plan\<close> has the planner \<^verbatim>\<open>sql_plan.rs\<close> with the call \<^verbatim>\<open>plan_apply_sql\<close>: literals and
  dates, the filters of a condition with the tokens that combine them, grouping, aggregates and order;
  \<open>Sql_Plan_Facts\<close> shows that the dates count days, what the call answers, that a numeric condition
  selects the rows that satisfy it, and where the plan is not the query. \<open>Sql_Properties\<close> has the properties.

  Conventions. \<open>Prelude\<close> has the result type (an error value per early return, \<open>Panic\<close> where
  the code panics), \<open>Le_Bytes\<close> the little-endian codecs behind one locale, \<open>F64\<close> the doubles as
  bit patterns. \<open>Samples\<close> has the columns, pages and files of the witnesses. LZ4, xxh3, logarithm and
  root are parameters. \<^verbatim>\<open>usize\<close> is \<open>nat\<close>, the other integers are words of their width and wrap.
  A vector of \<^verbatim>\<open>2^63\<close> bytes or more cannot be allocated: where the length comes from a file, the code
  panics before it reads, and so do the definitions (\<open>capacity_overflow\<close>).
  A call that returns an error code keeps what the source says it has changed, except a chunk
  execution that gives up, after which its plan is not described.
  Loops recurse on their data or count; the loops of the source without a bound are
  \<open>partial_function\<close>s, and it is shown when they end: the calls repeated with a larger buffer
  (\<open>read_out_loop\<close>, \<open>read_out_panics\<close>), the requests of pages (\<open>required_loop\<close>), the growth of an arena
  (\<open>grow_loop\<close>) and the search for a free group key.

  Not modelled: the rows as values (\<^verbatim>\<open>ffi/materialize.rs\<close>); the statistics calls
  (\<^verbatim>\<open>ffi/plan/stats.rs\<close>); the ingestion of CSV, SAV and Parquet and the appending to a file
  (\<^verbatim>\<open>wcol-encoder/src/scan.rs\<close>, \<^verbatim>\<open>encode/append.rs\<close>), which is I/O around the page encoder; the
  command line, the explorer, the benchmarks and the tests. Of the modelled parts: allocation failure, the
  depth of the stack in the recursion of the parser, locks and threads beyond the interleavings of
  the shared counter, budget and cache, timing counters, logs, channels, and the file system beyond reads of
  given bytes.
\<close>

section \<open>Files\<close>

text \<open>C1: A file that the writer produced is opened by the native reader: the runtime behind the
  new handle has the writer's columns and dictionaries, and for every chunk the table of
  contents leads to an index block whose entries lead to the bytes of all its pages. The
  compressor is any pair that inverts and writes no empty block; the file is shorter than
  2^63 bytes, as every vector of bytes is.\<close>

theorem written_file_opens:
  assumes "write_wcol compress cols chunks total_rows = Ok content" "length content < 2 ^ 63"
    and "lz4_inverse compress decompress" "fits_format cols chunks" "counter \<noteq> 0"
    and "\<forall>pages \<in> set chunks. length pages = length cols \<and> list_all small_page pages"
    and "\<And>raw. length raw = length cols * INDEX_ENTRY_BYTES \<Longrightarrow> length (compress raw) < 2 ^ 32"
  shows "\<exists>info init r. open_file decompress content counter rts =
       (Ok (counter, info, init), counter + 1, rts(counter \<mapsto> r)) \<and>
     i_total_rows info = total_rows \<and> r_schema r = schema_of cols \<and> dicts_for cols (r_dicts r) \<and>
     (\<forall>i < length chunks. chunk_readable decompress content (rts(counter \<mapsto> r)) counter
        (length cols) i (chunks ! i))"
proof -
  obtain h toc placed where h: "parse_header content = Ok h" "h_total_rows h = total_rows"
    and lay: "file_layout compress cols chunks content h toc placed"
    using write_wcol_layout [OF assms(1)] assms(2) by fastforce
  obtain init r where op: "open_file decompress content counter rts =
      (Ok (counter, info_of h, init), counter + 1, rts(counter \<mapsto> r))"
    and r: "written_runtime cols h toc r"
    using open_file_ok [OF lay h(1) assms(3,4,2,5)] by blast
  have "chunk_readable decompress content (rts(counter \<mapsto> r)) counter (length cols) i (chunks ! i)"
    if "i < length chunks" for i
    by (rule chunk_readable_ok [OF lay assms(3) _ r that])
      (use assms(4,6,7) that in \<open>auto simp: fits_format_def\<close>)
  with op r h(2) show ?thesis by (auto simp: written_runtime_def info_of_def)
qed

theorem written_file_opens_witness:
  "\<exists>content info init r.
     open_file sample_decompress content 1 Map.empty = (Ok (1, info, init), 2, [1 \<mapsto> r]) \<and>
     i_total_rows info = 3 \<and> r_schema r = schema_of [sample_column] \<and>
     chunk_readable sample_decompress content [1 \<mapsto> r] 1 1 0 [sample_page]"
proof -
  obtain content where c: "write_wcol sample_compress [sample_column] [[sample_page]] 3 = Ok content"
      "length content < 2 ^ 63"
    using sample_written by blast
  have fits: "fits_format [sample_column] [[sample_page]]"
    by (simp add: fits_format_def build_dict_bytes_def is_dict_col_def sample_column_def
        utf8_valid.simps)
  have pages: "\<forall>pages \<in> set [[sample_page]]. length pages = length [sample_column] \<and>
      list_all small_page pages"
    by (simp add: small_page_def sample_page_def comp_len_def)
  have "length (sample_compress raw) < 2 ^ 32" if "length raw = length [sample_column] * INDEX_ENTRY_BYTES" for raw
    using length_sample_compress [of raw] that by (simp add: INDEX_ENTRY_BYTES_def)
  from written_file_opens [OF c sample_lz4 fits _ pages this, of 1 Map.empty]
  show ?thesis by auto
qed

text \<open>C2: Whatever bytes are given to the parsers, there is no panic: every outcome is a value or an
  error. Whatever bytes are opened as a file, a panic is possible only when the header states a
  length of the schema, of the dictionary block or of its decompressed form that exceeds the
  capacity of a vector (2^63 bytes or more): the buffer for it is allocated before the read.\<close>

theorem any_bytes_no_panic:
  "no_panic (parse_header content) \<and> no_panic (parse_schema content ncols) \<and>
   no_panic (parse_dicts content) \<and> no_panic (parse_chunk_index content ncols) \<and>
   (fst (open_file decompress content counter rts) = Err Panic \<longrightarrow>
      (\<exists>h. parse_header (slice content 0 HEADER_BYTES) = Ok h \<and> \<not> sizes_fit h))"
proof -
  have "fst (open_file decompress content counter rts) \<noteq> Err Panic"
    if "\<nexists>h. parse_header (slice content 0 HEADER_BYTES) = Ok h \<and> \<not> sizes_fit h"
    using that open_file_no_panic by blast
  then show ?thesis
    using parse_header_no_panic parse_columns_no_panic parse_dicts_no_panic parse_chunk_index_no_panic
    by (auto simp: parse_schema_def)
qed

theorem any_bytes_no_panic_witness:
  "\<exists>h. parse_header (build_header 0 0 0 (2 ^ 63) 0 0 0 0 0 0 0 0) = Ok h \<and> \<not> sizes_fit h"
proof -
  let ?c = "build_header 0 0 0 (2 ^ 63) 0 0 0 0 0 0 0 0"
  have c: "slice ?c 0 HEADER_BYTES = ?c"
    using length_build_header [of 0 0 0 "2 ^ 63" 0 0 0 0 0 0 0 0] by (simp add: slice_def)
  have "occurs_at ?c 0 ?c" by (simp add: occurs_at_def slice_def)
  note h = parse_header_occurs [OF this]
  obtain hd where hd: "parse_header (slice ?c 0 HEADER_BYTES) = Ok hd" "h_version hd = WCOL_VERSION"
      "unat (h_rows_per_chunk hd) = ROWS_PER_CHUNK" "h_schema_len hd = 2 ^ 63"
    unfolding c h by (simp add: ROWS_PER_CHUNK_def)
  have "fst (open_file (\<lambda>_ _. None) ?c 1 Map.empty) = Err Panic"
    by (rule oversized_schema_panics [OF hd(1-3)]) (simp_all add: length_build_header capacity_overflow_def hd(4))
  with any_bytes_no_panic [of ?c 0 "\<lambda>_ _. None" 1 Map.empty] c show ?thesis by simp
qed

section \<open>Row masks\<close>

text \<open>C3: The mask that the postfix tokens of a condition compute has exactly the rows at which
  the condition holds of the masks of its filters.\<close>

theorem condition_mask:
  assumes "\<forall>m \<in> set ms. is_mask m" "lits c \<subseteq> {..<length ms}"
  shows "\<exists>m. combine_masks (tokens_of c) ms = Ok m \<and> is_mask m \<and>
     (\<forall>r < ROWS_PER_CHUNK. mask_bit m r \<longleftrightarrow> holds (\<lambda>i. mask_bit (ms ! i) r) c)"
  by (rule combine_masks_ok [OF assms])

lemma sample_mask_bit [simp]: "mask_bit (replicate n w) r \<longleftrightarrow> r div 32 < n \<and> bit w (r mod 32)"
  by (auto simp: mask_bit_def)

theorem condition_mask_witness:
  "\<exists>m. combine_masks [0, 1, - 3, - 1] [replicate MASK_WORDS 5, replicate MASK_WORDS 3] = Ok m \<and>
     mask_bit m 2 \<and> \<not> mask_bit m 0"
proof -
  let ?ms = "[replicate MASK_WORDS 5, replicate MASK_WORDS 3] :: mask list"
  have "\<exists>m. combine_masks (tokens_of (Conj (Lit 0) (Neg (Lit 1)))) ?ms = Ok m \<and> is_mask m \<and>
      (\<forall>r < ROWS_PER_CHUNK. mask_bit m r \<longleftrightarrow>
         holds (\<lambda>i. mask_bit (?ms ! i) r) (Conj (Lit 0) (Neg (Lit 1))))"
    by (rule condition_mask) (auto simp: is_mask_def)
  then show ?thesis
    by (auto simp: comb_defs ROWS_PER_CHUNK_def MASK_WORDS_def)
qed

text \<open>C4: A token list is accepted exactly when it is the postfix form of a condition over the
  masks that are there; a missing operand, a surplus one, an unknown token or a filter number
  out of range is an error.\<close>

theorem condition_tokens_accepted:
  "(\<exists>m. combine_masks tokens ms = Ok m) =
     (\<exists>c. tokens = tokens_of c \<and> lits c \<subseteq> {..<length ms})"
  using combine_masks_inv combine_tokens [of _ ms "[]"]
  by (fastforce simp: combine_masks_def)

text \<open>A stored null bitmap becomes the mask of its rows, cut off at the number of rows, and is
  found to be all valid exactly when every row is.\<close>

theorem bitmap_mask:
  assumes "rows \<le> ROWS_PER_CHUNK" "rows \<le> 8 * length bm"
  shows "\<exists>m. mask_from_bitmap bm rows = Ok (Some m) \<and> is_mask m \<and>
     (\<forall>r. mask_bit m r \<longleftrightarrow> r < rows \<and> bitmap_bit bm r) \<and>
     (bitmap_is_all_valid bm rows \<longleftrightarrow> (\<forall>r < rows. mask_bit m r))"
  using mask_from_bitmap_ok [OF assms] bitmap_is_all_valid_iff [OF assms(2)] by auto

theorem bitmap_mask_witness:
  "\<exists>m. mask_from_bitmap [5, 255] 10 = Ok (Some m) \<and> mask_bit m 9 \<and> \<not> mask_bit m 1 \<and> \<not> mask_bit m 10"
proof -
  have "\<exists>m. mask_from_bitmap [5, 255] 10 = Ok (Some m) \<and> is_mask m \<and>
      (\<forall>r. mask_bit m r \<longleftrightarrow> r < 10 \<and> bitmap_bit [5, 255] r) \<and>
      (bitmap_is_all_valid [5, 255] 10 \<longleftrightarrow> (\<forall>r < 10. mask_bit m r))"
    by (rule bitmap_mask) (simp_all add: ROWS_PER_CHUNK_def)
  then show ?thesis by (auto simp: bitmap_bit_def)
qed

text \<open>C6: The row loop of the executor runs its body on exactly the rows of the mask below the row
  count, in ascending order, each once, and stops at the first error of the body; with a value
  list it passes the value of each of these rows.\<close>

theorem rows_visited:
  assumes "is_mask m" "rows \<le> ROWS_PER_CHUNK"
  shows "for_each_row m rows f s = foldR f s (filter (mask_bit m) [0..<rows]) \<and>
     (rows \<le> length vs \<longrightarrow>
       for_each_value vs m rows g t = foldR g t (map (\<lambda>r. vs ! r) (filter (mask_bit m) [0..<rows])))"
  using assms by (simp add: for_each_row_eq for_each_value_eq)

theorem rows_visited_witness:
  "for_each_row (replicate MASK_WORDS 5) 4 (\<lambda>s r. Ok (s @ [r])) [] = Ok [0, 2] \<and>
   for_each_value [7, 8, 9, 10] (replicate MASK_WORDS 5) 4 (\<lambda>s v. Ok (s + v)) (0 :: nat) = Ok 16"
proof -
  have "is_mask (replicate MASK_WORDS 5)" "4 \<le> ROWS_PER_CHUNK"
    by (simp_all add: is_mask_def ROWS_PER_CHUNK_def)
  note eq = rows_visited [OF this, of "\<lambda>s r. Ok (s @ [r])" "[]" "[7, 8, 9, 10]" "\<lambda>s v. Ok (s + v)" "0 :: nat"]
  have "filter (mask_bit (replicate MASK_WORDS 5)) [0..<4] = [0, 2]"
    by (simp add: upt_rec MASK_WORDS_def bit_Suc)
  with eq show ?thesis by simp
qed

text \<open>The full mask of a chunk has exactly its rows, and the fullness test that lets a filter be
  skipped answers yes on exactly such masks.\<close>

theorem full_masks:
  assumes "rows \<le> ROWS_PER_CHUNK" "is_mask m"
  shows "(\<exists>f. full_mask rows = Ok f \<and> is_mask f \<and> (\<forall>r. mask_bit f r \<longleftrightarrow> r < rows)) \<and>
     mask_is_full m rows = Ok (\<forall>r < ROWS_PER_CHUNK. mask_bit m r \<longleftrightarrow> r < rows)"
  using full_mask_ok [OF assms(1)] mask_is_full_ok [OF assms(2,1)] by blast

theorem full_masks_witness:
  "(\<exists>f. full_mask 40 = Ok f \<and> mask_bit f 39 \<and> \<not> mask_bit f 40) \<and>
   mask_is_full (replicate MASK_WORDS 5) 40 = Ok False"
proof -
  have 1: "40 \<le> ROWS_PER_CHUNK" "is_mask (replicate MASK_WORDS 5)"
    by (simp_all add: is_mask_def ROWS_PER_CHUNK_def)
  have "\<not> (\<forall>r < ROWS_PER_CHUNK. mask_bit (replicate MASK_WORDS 5) r \<longleftrightarrow> r < 40)"
    by (intro notI) (drule spec [of _ 1], simp add: ROWS_PER_CHUNK_def MASK_WORDS_def bit_Suc)
  with full_masks [OF 1] show ?thesis by auto
qed

text \<open>C8: The SIMD versions of the mask operations, lane by lane with their scalar tails, compute what
  the scalar versions compute.\<close>

theorem simd_masks_agree:
  assumes "is_mask a" "is_mask b" "rows \<le> ROWS_PER_CHUNK"
  shows "mask_and_simd a b = mask_and a b \<and> mask_or_simd a b = mask_or a b \<and>
     mask_not_simd a = mask_not a \<and> mask_and_simd_wasm a b = mask_and a b \<and>
     mask_or_simd_wasm a b = mask_or a b \<and> mask_not_simd_wasm a = mask_not a \<and>
     mask_is_zero_simd a = mask_is_zero a \<and> mask_is_full_simd a rows = mask_is_full a rows \<and>
     mask_count_simd a = mask_count a \<and>
     mask_count a = of_nat (length (filter (mask_bit a) [0..<length a * 32]))"
proof -
  have "length b = length a" using assms by (simp add: is_mask_def)
  with assms show ?thesis
    by (simp add: simd_mask_ops mask_is_zero_simd_eq mask_is_full_simd_eq mask_count_simd_eq
        mask_count_eq)
qed

theorem simd_masks_agree_witness:
  "mask_and_simd (replicate MASK_WORDS 5) (replicate MASK_WORDS 3) =
     mask_and (replicate MASK_WORDS 5) (replicate MASK_WORDS 3)"
  using simd_masks_agree [of "replicate MASK_WORDS 5" "replicate MASK_WORDS 3" 0]
  by (simp add: is_mask_def)

section \<open>Pages\<close>

text \<open>C9: A page of an integer column that is written with the dictionary encoding, whichever of its
  three layouts the compressor makes the smallest (plain ids, bit-packed ids, raw values), is
  decoded to the same integers.\<close>

theorem numeric_dict_page:
  assumes "dict_type (cs_physical col) = Some (w, lo, hi, u)"
    and "b_values buffer = V_Int vs" "length vs = rows" "rows \<le> ROWS_PER_CHUNK"
    and "\<forall>v \<in> set vs. fits_type (cs_physical col) v"
    and "rows \<le> 8 * length (b_nulls buffer)"
      "\<forall>i < rows. \<not> bitmap_bit (b_nulls buffer) i \<longrightarrow> vs ! i = 0"
  shows "\<exists>page cd. encode_numeric_dict compress col buffer rows = Ok page \<and>
     decode_num_dict_page (cs_physical col) page rows = Ok cd \<and> column_ints cd = Some (map sint vs)"
  by (rule numeric_dict_page_ok [OF assms])

definition sample_buffer :: "column_values \<Rightarrow> column_buffer" where
  "sample_buffer vals = (buffer_new sample_column)\<lparr> b_values := vals, b_nulls := [7] \<rparr>"

lemma sample_buffer_simps [simp]:
  "b_values (sample_buffer vals) = vals" "b_nulls (sample_buffer vals) = [7]"
  by (simp_all add: sample_buffer_def)

lemma sample_scale: "cs_scale sample_column = 0"
  by (simp add: sample_column_def)

lemmas below_3 = All_less_Suc Ex_less_Suc numeral_3_eq_3

lemma sample_valid [simp]: "i < 3 \<Longrightarrow> bitmap_bit [7] i"
  by (auto simp: bitmap_bit_def bit_Suc less_Suc_eq numeral_3_eq_3)

theorem numeric_dict_page_witness:
  "\<exists>page cd. encode_numeric_dict sample_compress sample_column (sample_buffer (V_Int [7, 200, 7])) 3 = Ok page \<and>
     decode_num_dict_page TYPE_U8 page 3 = Ok cd \<and> column_ints cd = Some [7, 200, 7]"
proof -
  have "\<exists>page cd. encode_numeric_dict sample_compress sample_column (sample_buffer (V_Int [7, 200, 7])) 3 = Ok page \<and>
      decode_num_dict_page (cs_physical sample_column) page 3 = Ok cd \<and>
      column_ints cd = Some (map sint [7 :: i64, 200, 7])"
    by (rule numeric_dict_page)
      (simp_all add: sample_column_def sample_buffer_def dict_type_def fits_type_def ROWS_PER_CHUNK_def
        TYPE_U8_def)
  then show ?thesis by (simp add: sample_column_def)
qed

text \<open>Ids below a dictionary size survive packing into the bits that the size needs.\<close>

theorem packed_ids_roundtrip:
  assumes "\<forall>i \<in> set ids. i < len"
  shows "\<exists>bs. encode_bitpacked_ids ids len = Ok (bit_width_for_len len, bs) \<and>
     length bs = div8_ceil (length ids * unat (bit_width_for_len len)) \<and>
     decode_bitpacked_ids (unat (bit_width_for_len len)) bs (length ids) = Ok ids"
  by (rule bitpacked_ids_ok [OF assms])

theorem packed_ids_roundtrip_witness:
  "\<exists>bs. encode_bitpacked_ids [0, 4, 2] 5 = Ok (bit_width_for_len 5, bs) \<and>
     decode_bitpacked_ids (unat (bit_width_for_len 5)) bs 3 = Ok [0, 4, 2]"
  using packed_ids_roundtrip [of "[0, 4, 2]" 5] by (auto simp: numeral_3_eq_3)

text \<open>A page of booleans is the bitmap of its rows.\<close>

theorem bool_page_bits:
  assumes "b_values buffer = V_Bool vs" "length vs = rows"
  shows "\<exists>bm. encode_bool buffer rows = Ok bm \<and> length bm = div8_ceil rows \<and>
     (\<forall>r. bitmap_bit bm r \<longleftrightarrow> r < rows \<and> vs ! r)"
  by (rule encode_bool_ok [OF assms])

theorem bool_page_bits_witness:
  "\<exists>bm. encode_bool (sample_buffer (V_Bool [True, False, True])) 3 = Ok bm \<and> bitmap_bit bm 2"
proof -
  have "\<exists>bm. encode_bool (sample_buffer (V_Bool [True, False, True])) 3 = Ok bm \<and>
      length bm = div8_ceil 3 \<and> (\<forall>r. bitmap_bit bm r \<longleftrightarrow> r < 3 \<and> [True, False, True] ! r)"
    by (rule bool_page_bits) (simp_all add: sample_buffer_def)
  then show ?thesis by (auto simp: eval_nat_numeral)
qed

text \<open>C12: A page of strings, sorted, deduplicated, front-coded and possibly compressed with the token
  dictionary, is decoded to ids under which the dictionary of the column holds the string of
  each row; the dictionary only grows, so the ids of earlier pages keep their meaning, and its
  lookup table stays the inverse of its value list.\<close>

theorem string_page:
  assumes "b_values buffer = V_String values" "length values = rows" "rows \<le> 65535"
    and "\<forall>v \<in> set values. length v \<le> 65535 \<and> utf8_valid v"
    and "sum_list (map length values) < 2 ^ 32"
    and "dict_ok d" "length (d_values d) + rows < 2 ^ 32"
  shows "\<exists>page ids d'. encode_string buffer rows = Ok page \<and>
     decode_raw_string_ids h h' False page rows d = Ok (ids, d') \<and> dict_ok d' \<and> extends d d' \<and>
     length ids = rows \<and> (\<forall>i < rows. get (d_values d') (unat (ids ! i)) = Some (values ! i))"
  by (rule string_page_ok [OF assms])

theorem string_page_witness:
  "\<exists>page ids d'. encode_string (sample_buffer (V_String [[98, 97], [97], [98, 97]])) 3 = Ok page \<and>
     decode_raw_string_ids (\<lambda>_. 0) (\<lambda>_. 0) False page 3 dictionary_new = Ok (ids, d') \<and>
     get (d_values d') (unat (ids ! 2)) = Some [98, 97]"
proof -
  have "\<exists>page ids d'. encode_string (sample_buffer (V_String [[98, 97], [97], [98, 97]])) 3 = Ok page \<and>
      decode_raw_string_ids (\<lambda>_. 0) (\<lambda>_. 0) False page 3 dictionary_new = Ok (ids, d') \<and> dict_ok d' \<and>
      extends dictionary_new d' \<and> length ids = 3 \<and>
      (\<forall>i < 3. get (d_values d') (unat (ids ! i)) = Some ([[98, 97], [97], [98, 97]] ! i))"
    by (rule string_page) (auto simp: sample_buffer_def utf8_valid.simps, simp add: dictionary_new_def)
  then show ?thesis by (metis lessI nth_Cons_0 nth_Cons_Suc numeral_2_eq_2 numeral_3_eq_3)
qed

text \<open>The token dictionary of a string page, read back, decodes the token stream of any suffix
  blob to that blob.\<close>

theorem token_stream_roundtrip:
  assumes "build_token_dict values = (tokens, db)" "tokens \<noteq> []"
  shows "parse_token_dict db = Ok tokens \<and>
     decode_full_token_stream (encode_token_stream blob tokens) tokens (length blob) = Ok blob"
  using build_token_dict_ok [OF assms] decode_encode_stream [OF tokens_ok_token_map] by blast

theorem token_stream_roundtrip_witness:
  "parse_token_dict (snd (build_token_dict [[97, 98, 99]])) = Ok (fst (build_token_dict [[97, 98, 99]]))"
proof -
  have "pick_tokens [[97, 98, 99]] = [[97, 98, 99]]"
    by (simp add: pick_tokens_def count_segment_def delimiters_def slice_def upt_rec)
  moreover have "\<exists>offs. token_offsets 3 (replicate n []) = Some offs" for n
    by (induction n) auto
  ultimately have "fst (build_token_dict [[97, 98, 99]]) \<noteq> []"
    by (auto simp: build_token_dict_def Let_def numeral_3_eq_3 split: option.splits)
  from token_stream_roundtrip [OF surjective_pairing this] show ?thesis by blast
qed

text \<open>C14: The minimum and maximum that a page stores for a numeric column are finite, and every valid
  row with a finite value lies between them (values are divided by the scale of the column
  first).\<close>

theorem page_range_bounds:
  assumes "numeric_values (b_values buffer) = Some vs" "rows \<le> 8 * length (b_nulls buffer)"
  shows "\<exists>mn mx. compute_page_stats col buffer rows = Ok (mn, mx, 0) \<and> is_finite mn \<and> is_finite mx \<and>
     (\<forall>i < min rows (length vs).
        bitmap_bit (b_nulls buffer) i \<and> is_finite (stats_value col (vs ! i)) \<longrightarrow>
        f_le mn (stats_value col (vs ! i)) \<and> f_le (stats_value col (vs ! i)) mx)"
  by (rule page_stats_range [OF assms])

theorem page_range_bounds_witness:
  "\<exists>mn mx. compute_page_stats sample_column (sample_buffer (V_Float [f_one, f_zero, f_one])) 3 = Ok (mn, mx, 0) \<and>
     f_le mn f_zero \<and> f_le f_one mx"
proof -
  let ?vs = "[f_one, f_zero, f_one]" and ?b = "sample_buffer (V_Float [f_one, f_zero, f_one])"
  have "\<exists>mn mx. compute_page_stats sample_column ?b 3 = Ok (mn, mx, 0) \<and> is_finite mn \<and> is_finite mx \<and>
      (\<forall>i < min 3 (length ?vs).
        bitmap_bit (b_nulls ?b) i \<and> is_finite (stats_value sample_column (?vs ! i)) \<longrightarrow>
        f_le mn (stats_value sample_column (?vs ! i)) \<and> f_le (stats_value sample_column (?vs ! i)) mx)"
    by (rule page_range_bounds) (simp_all add: sample_buffer_def numeric_values_def)
  then show ?thesis
    by (auto simp: stats_value_def sample_scale below_3)
qed

text \<open>The presence word of a page with at most 64 dictionary values has exactly the bits of the
  dictionary ids that occur in its valid rows.\<close>

theorem page_presence_bits:
  assumes "b_values buffer = V_Dict vs" "rows \<le> 8 * length (b_nulls buffer)"
    and "length (cs_dict_values col) \<le> PRESENCE_MAX_VALUES"
  shows "\<exists>p. compute_page_stats col buffer rows = Ok (f_zero, f_zero, p) \<and>
     (\<forall>k < 64. bit p k \<longleftrightarrow>
        (\<exists>i < min rows (length vs). bitmap_bit (b_nulls buffer) i \<and> unat (vs ! i) = k))"
  by (rule presence_ok [OF assms])

theorem page_presence_bits_witness:
  "\<exists>p. compute_page_stats sample_column (sample_buffer (V_Dict [2, 5, 2])) 3 = Ok (f_zero, f_zero, p) \<and>
     bit p 5 \<and> \<not> bit p 3"
proof -
  let ?b = "sample_buffer (V_Dict [2, 5, 2])"
  have "\<exists>p. compute_page_stats sample_column ?b 3 = Ok (f_zero, f_zero, p) \<and>
      (\<forall>k < 64. bit p k \<longleftrightarrow>
        (\<exists>i < min 3 (length [2 :: u32, 5, 2]). bitmap_bit (b_nulls ?b) i \<and> unat ([2 :: u32, 5, 2] ! i) = k))"
    by (rule page_presence_bits) (simp_all add: sample_buffer_def sample_column_def)
  then obtain p where p: "compute_page_stats sample_column ?b 3 = Ok (f_zero, f_zero, p)"
    and bits: "\<forall>k < 64. bit p k \<longleftrightarrow> (\<exists>i < 3. bitmap_bit [7] i \<and> unat ([2 :: u32, 5, 2] ! i) = k)"
    unfolding sample_buffer_simps list.size by (auto simp: numeral_3_eq_3)
  have "bit p 5" using bits [rule_format, of 5]
    by (auto intro!: exI [of _ 1])
  moreover have "\<not> bit p 3" using bits [rule_format, of 3] by (auto simp: less_Suc_eq numeral_3_eq_3)
  ultimately show ?thesis using p by blast
qed

section \<open>Filters\<close>

text \<open>C16: LIKE with a pattern between wildcards on a page of strings, evaluated on the front-coded
  values without rebuilding the rows, selects exactly the rows whose string contains the pattern
  (or, negated, exactly those that do not).\<close>

theorem like_page_mask:
  assumes "b_values buffer = V_String values" "length values = rows" "rows \<le> ROWS_PER_CHUNK"
    and "\<forall>v \<in> set values. length v \<le> 65535" "sum_list (map length values) < 2 ^ 32"
  shows "\<exists>page msk. encode_string buffer rows = Ok page \<and>
     decode_raw_string_like_mask page rows pat negated = Ok msk \<and> is_mask msk \<and>
     (\<forall>r. mask_bit msk r \<longleftrightarrow> r < rows \<and> (\<exists>q. occurs_at (values ! r) q pat) \<noteq> negated)"
  using like_mask_ok [OF assms] unfolding contains_def .

theorem like_page_mask_witness:
  "\<exists>page msk. encode_string (sample_buffer (V_String [[98, 97], [97], [98, 97]])) 3 = Ok page \<and>
     decode_raw_string_like_mask page 3 [98] False = Ok msk \<and> mask_bit msk 2 \<and> \<not> mask_bit msk 1"
proof -
  let ?vs = "[[98, 97], [97], [98, 97]] :: bytes list"
  have "\<exists>page msk. encode_string (sample_buffer (V_String ?vs)) 3 = Ok page \<and>
      decode_raw_string_like_mask page 3 [98] False = Ok msk \<and> is_mask msk \<and>
      (\<forall>r. mask_bit msk r \<longleftrightarrow> r < 3 \<and> (\<exists>q. occurs_at (?vs ! r) q [98]) \<noteq> False)"
    by (rule like_page_mask) (auto simp: sample_buffer_def ROWS_PER_CHUNK_def)
  then obtain page msk where m: "encode_string (sample_buffer (V_String ?vs)) 3 = Ok page"
    "decode_raw_string_like_mask page 3 [98] False = Ok msk"
    "\<forall>r. mask_bit msk r \<longleftrightarrow> r < 3 \<and> (\<exists>q. occurs_at (?vs ! r) q [98]) \<noteq> False"
    by blast
  have "mask_bit msk 2" using m(3) by (auto simp: eval_nat_numeral intro: exI [of _ 0])
  moreover have "\<not> mask_bit msk 1" using m(3) by auto
  ultimately show ?thesis using m(1,2) by blast
qed

text \<open>The SIMD substring search gives the first match as the scalar search does, whatever lies in
  memory after the haystack; for a needle of one byte this needs a haystack of at least 16
  bytes.\<close>

theorem simd_search_agrees:
  assumes "length needle \<noteq> 1 \<or> 16 \<le> length haystack"
  shows "find_subslice_simd haystack after needle = find_subslice haystack needle"
proof (cases "length needle = 1")
  case True
  then obtain b where "needle = [b]" by (auto simp: length_Suc_conv)
  with assms show ?thesis by (simp add: find_subslice_simd_def memchr_simd_long)
qed (rule find_subslice_simd_long)

theorem simd_search_agrees_witness:
  "find_subslice_simd [1, 2, 3] [2, 2] [2, 3] = find_subslice [1, 2, 3] [2, 3]"
  by (rule simd_search_agrees) simp

text \<open>C18: The mask of a comparison or IN filter, with the NULL rows removed, has exactly the valid rows
  whose value satisfies the filter, the values and literals compared as doubles. The column is
  numeric and unscaled without booleans, 64-bit integers below 2^53; on a column of integers the
  literals are integers of its type, an IN list has the operator =, and BETWEEN has ascending bounds.\<close>

theorem filter_mask_rows:
  assumes "rows \<le> ROWS_PER_CHUNK" "rows \<le> length (column_f64 data)" "plain_column col data"
    and "filter_literals_ok fl data" "fl_op fl \<noteq> OP_LIKE" "fl_op fl \<noteq> OP_NOT_LIKE"
    and "\<forall>bm. nulls = Some bm \<longrightarrow> rows \<le> 8 * length bm"
  shows "\<exists>msk. build_filter_mask_pipeline col data fl rows rt nulls = Ok msk \<and> is_mask msk \<and>
     (\<forall>r < rows. mask_bit msk r \<longleftrightarrow> filter_holds (column_f64 data) fl r \<and> valid_row nulls r)"
  by (rule filter_mask_ok [OF assms])

theorem filter_mask_rows_witness:
  "\<exists>msk. build_filter_mask_pipeline (sample_col TYPE_F64) (CD_F64 [f_one, f_zero]) (sample_filter OP_LT f_one)
      2 None None = Ok msk \<and> mask_bit msk 1 \<and> \<not> mask_bit msk 0"
proof -
  have "\<exists>msk. build_filter_mask_pipeline (sample_col TYPE_F64) (CD_F64 [f_one, f_zero])
        (sample_filter OP_LT f_one) 2 None None = Ok msk \<and> is_mask msk \<and>
      (\<forall>r < 2. mask_bit msk r \<longleftrightarrow> filter_holds (column_f64 (CD_F64 [f_one, f_zero]))
        (sample_filter OP_LT f_one) r \<and> valid_row None r)"
    by (rule filter_mask_rows) (simp_all add: sample_plain op_defs, simp_all add: sample_filter_def)
  then obtain msk where msk: "build_filter_mask_pipeline (sample_col TYPE_F64) (CD_F64 [f_one, f_zero])
      (sample_filter OP_LT f_one) 2 None None = Ok msk"
    "\<forall>r < 2. mask_bit msk r \<longleftrightarrow> filter_holds [f_one, f_zero] (sample_filter OP_LT f_one) r"
    unfolding sample_plain(1) by (auto simp: valid_row_def)
  have "fkey f_zero < fkey f_one" by (simp add: f_one_def, simp add: fkey_def)
  moreover have "\<not> is_nan f_zero" "\<not> is_nan f_one" by (simp_all add: finite_not_nan)
  ultimately have "filter_holds [f_one, f_zero] (sample_filter OP_LT f_one) 1"
    "\<not> filter_holds [f_one, f_zero] (sample_filter OP_LT f_one) 0"
    by (simp_all add: filter_holds_def sample_filter_def cmp_f64_def cmp_scalar_def op_defs f_lt_def)
  with msk show ?thesis by auto
qed

text \<open>C19: Pruning is sound: if the statuses of the filters, combined as the condition combines the
  masks, say that no row can satisfy the condition, the mask of the condition has no row of the
  chunk, and if they say that no row can fail it, the mask has every row. The statistics in the
  index entries hold of the columns, and the comparison and IN filters are comparable: on unscaled
  numeric columns without booleans (64-bit integers below 2^53), with literals that are values of
  the column's type, BETWEEN with ascending bounds, on ids of a dictionary only IN, = and <>. String
  columns and LIKE filters are not restricted.\<close>

theorem pruning_sound:
  assumes "rows \<le> ROWS_PER_CHUNK"
    and "\<And>i. i < n \<Longrightarrow> statistics_hold (cs i) (ds i) (es i) (ns i) rt rows"
    and "\<And>i. i < n \<Longrightarrow> filter_comparable (cs i) (ds i) (fs i) rows"
    and "\<And>i. i < n \<Longrightarrow> build_filter_mask_pipeline (cs i) (ds i) (fs i) rows (Some rt) (ns i) = Ok (ms i)"
    and "combine_masks tokens (map ms [0..<n]) = Ok msk"
    and "eval_possible tokens (map (\<lambda>i. filter_possible (fs i) (cs i) (es i) rt) [0..<n]) = Some p"
  shows "(\<not> maybe_true p \<longrightarrow> (\<forall>r < rows. \<not> mask_bit msk r)) \<and>
     (\<not> maybe_false p \<longrightarrow> (\<forall>r < rows. mask_bit msk r))"
  using pruning_describes [OF assms] by (auto simp: describes_def)

theorem pruning_sound_witness:
  "\<exists>msk. build_filter_mask_pipeline (sample_col TYPE_F64) (CD_F64 [f_one, f_one]) (sample_filter OP_LT f_one)
      2 (Some sample_runtime) None = Ok msk \<and> (\<forall>r < 2. \<not> mask_bit msk r)"
proof -
  let ?c = "sample_col TYPE_F64" and ?d = "CD_F64 [f_one, f_one]" and ?f = "sample_filter OP_LT f_one"
  obtain msk where msk: "build_filter_mask_pipeline ?c ?d ?f 2 (Some sample_runtime) None = Ok msk"
    using filter_mask_ok [of 2 ?d ?c ?f None "Some sample_runtime"]
    by (auto simp: sample_plain op_defs) (auto simp: sample_filter_def)
  have stats: "statistics_hold ?c ?d sample_entry None sample_runtime 2"
    by (simp add: statistics_hold_def nulls_ok_def sample_plain range_covers_def)
      (simp add: sample_col_def sample_entry_def f_le_def finite_not_nan less_2_cases_iff nth_Cons')
  have comp: "filter_comparable ?c ?d ?f 2"
    by (simp add: filter_comparable_def sample_plain op_defs) (simp add: sample_col_def)
  have p: "filter_possible ?f ?c sample_entry sample_runtime = poss False True"
    by (simp add: filter_possible_def sample_filter_def sample_col_def sample_entry_def op_defs
        TYPE_STRING_def TYPE_F64_def numeric_filter_possible_def f_lt_def)
  have "(\<not> maybe_true (poss False True) \<longrightarrow> (\<forall>r < 2. \<not> mask_bit msk r)) \<and>
      (\<not> maybe_false (poss False True) \<longrightarrow> (\<forall>r < 2. mask_bit msk r))"
    by (rule pruning_sound [where n = 1 and cs = "\<lambda>_. ?c" and ds = "\<lambda>_. ?d" and es = "\<lambda>_. sample_entry"
          and ns = "\<lambda>_. None" and fs = "\<lambda>_. ?f" and rt = sample_runtime and ms = "\<lambda>_. msk" and tokens = "[0]"])
      (use msk stats comp p in \<open>simp_all add: combine_masks_def combine_step_def eval_possible_def possible_step_def\<close>)
  with msk show ?thesis by auto
qed



text \<open>From the encoder to the page planner: when the entry of a page of unscaled doubles, finite
  where they are valid, holds the statistics that the encoder computed, a filter that the entry
  rules out holds in no valid row of the page.\<close>

theorem written_page_pruned:
  assumes "b_values buffer = V_Float vs" "rows \<le> 8 * length (b_nulls buffer)" "rows \<le> length vs"
    and "rows \<le> ROWS_PER_CHUNK" "cs_scale spec = 0"
    and "\<forall>r < rows. bitmap_bit (b_nulls buffer) r \<longrightarrow> is_finite (vs ! r)"
    and "compute_page_stats spec buffer rows = Ok (e_min entry, e_max entry, e_presence entry)"
    and "0 < e_null_raw_len entry" "c_flags col AND FLAG_DICT = 0"
    and "filter_literals_ok fl (CD_F64 vs)" "fl_op fl \<noteq> OP_LIKE" "fl_op fl \<noteq> OP_NOT_LIKE"
    and "\<not> maybe_true (filter_possible fl col entry rt)"
  shows "\<forall>r < rows. bitmap_bit (b_nulls buffer) r \<longrightarrow> \<not> filter_holds vs fl r"
proof -
  let ?nulls = "Some (b_nulls buffer)"
  have plain: "plain_column col (CD_F64 vs)" "column_f64 (CD_F64 vs) = vs"
    by (simp_all add: plain_column_def column_f64_def)
  obtain msk where msk: "build_filter_mask_pipeline col (CD_F64 vs) fl rows (Some rt) ?nulls = Ok msk"
    "\<forall>r < rows. mask_bit msk r \<longleftrightarrow> filter_holds vs fl r \<and> valid_row ?nulls r"
    using filter_mask_ok [OF assms(4) _ plain(1) assms(10-12), of ?nulls "Some rt"] assms(2,3) plain(2) by auto
  have "range_covers entry vs ?nulls rows"
    by (rule float_stats_range [OF assms(1-3,5-7)])
  then have "entry_ok col (CD_F64 vs) entry ?nulls fl rt rows"
    using assms(2,3,8-10) plain by (auto simp: entry_ok_def nulls_ok_def)
  from filter_describes [OF assms(4) this msk(1)] assms(13) msk(2) show ?thesis
    by (auto simp: describes_def valid_row_def)
qed

theorem written_page_pruned_witness:
  "\<not> filter_holds [f_one, f_one, f_one] (sample_filter OP_LT f_one) 1"
proof -
  let ?vs = "[f_one, f_one, f_one]" and ?e = "sample_entry\<lparr> e_null_raw_len := 1 \<rparr>"
  let ?b = "sample_buffer (V_Float ?vs)"
  have "widen_range f_one (f_inf, f_neg_inf) = (f_one, f_one)" "widen_range f_one (f_one, f_one) = (f_one, f_one)"
    using finite_fkey [of f_one] by (simp_all add: widen_range_def f_lt_def finite_not_nan)
  moreover have "rows_of 3 ?vs = [(0, f_one), (1, f_one), (2, f_one)]"
    by (simp add: rows_of_def upt_rec numeral_3_eq_3)
  ultimately have "compute_page_stats sample_column ?b 3 = Ok (f_one, f_one, 0)"
    by (simp add: compute_page_stats_def sample_buffer_def stats_row_def bitmap_valid_def stats_value_def
        sample_scale Let_def index_def)
  moreover have "\<not> maybe_true (filter_possible (sample_filter OP_LT f_one) (sample_col TYPE_F64) ?e sample_runtime)"
    by (simp add: filter_possible_def sample_filter_def sample_col_def sample_entry_def op_defs
        TYPE_STRING_def TYPE_F64_def numeric_filter_possible_def f_lt_def)
  moreover have "e_min ?e = f_one" "e_max ?e = f_one" "e_presence ?e = 0" "0 < e_null_raw_len ?e"
    by (simp_all add: sample_entry_def)
  moreover have "filter_literals_ok (sample_filter OP_LT f_one) (CD_F64 ?vs)"
    by (rule sample_plain(3)) (simp add: op_defs)
  moreover have "fl_op (sample_filter OP_LT f_one) = OP_LT" "OP_LT \<noteq> OP_LIKE" "OP_LT \<noteq> OP_NOT_LIKE"
    "c_flags (sample_col TYPE_F64) AND FLAG_DICT = 0"
    by (simp_all add: sample_filter_def op_defs sample_col_def)
  moreover have "b_values ?b = V_Float ?vs" "b_nulls ?b = [7]" by (simp_all add: sample_buffer_def)
  ultimately have "\<forall>r < 3. bitmap_bit (b_nulls ?b) r \<longrightarrow> \<not> filter_holds ?vs (sample_filter OP_LT f_one) r"
    by (intro written_page_pruned [where spec = sample_column and entry = ?e and col = "sample_col TYPE_F64"
          and rt = sample_runtime]) (simp_all add: sample_scale ROWS_PER_CHUNK_def below_3)
  then show ?thesis by (simp add: sample_buffer_def)
qed

end
